(* ===== verification/Prelude.thy ===== *)
theory Prelude
  imports Main "HOL-Library.AList" "HOL-Library.Char_ord" "HOL-Library.List_Lexorder"
    "HOL-Library.Word" "HOL-Library.Multiset"
begin

text \<open>
  Shared vocabulary of the development: the fact collections the component proofs draw on,
  the result types Go's \<open>(T, error)\<close> and \<open>error\<close> returns are modelled with, and generic lemmas on
  association lists (Go maps), lists and machine words.

  Go values and their types here: \<open>string\<close> is a byte string (a \<^typ>\<open>string\<close>), \<open>time.Time\<close> is an
  integer count of nanoseconds since the zero time (so \<open>IsZero\<close> is \<open>= 0\<close> and \<open>Compare\<close> is the
  integer order; \<open>UTC\<close> does not change an instant), \<open>int64\<close> and \<open>int\<close> quantities are
  \<^typ>\<open>int\<close> with their range written out where it matters, \<open>uint32\<close> and \<open>uint64\<close> quantities whose
  wrap-around matters are \<open>32 word\<close> and \<open>64 word\<close>.
\<close>

named_theorems golib \<open>unfolding rules for the standard-library models\<close>
named_theorems validate_defs \<open>definitions of the Validate methods\<close>
named_theorems catalog_defs \<open>definitions of catalog operations\<close>

type_synonym byte = "8 word"
type_synonym time = int
type_synonym duration = int

definition IsZero :: "time \<Rightarrow> bool" where
  "IsZero t \<longleftrightarrow> t = 0"

definition max_int64 :: int where
  "max_int64 = 2 ^ 63 - 1"

lemma IsZero_iff [simp]: "IsZero t \<longleftrightarrow> t = 0"
  by (simp add: IsZero_def)

section \<open>Errors as values\<close>

text \<open>
  A Go function that returns only an \<open>error\<close> is modelled by an optional error (\<open>None\<close> is
  \<open>nil\<close>); a function that returns a value and an error by a sum (\<open>Inl\<close> the error).
  A chain of early returns is \<open>first_error\<close> over the checks in source order.
\<close>

definition check :: "bool \<Rightarrow> 'e \<Rightarrow> 'e option" where
  "check b e = (if b then Some e else None)"

primrec first_error :: "'e option list \<Rightarrow> 'e option" where
  "first_error [] = None"
| "first_error (x # xs) = (case x of None \<Rightarrow> first_error xs | Some e \<Rightarrow> Some e)"

definition guard_err :: "'e option \<Rightarrow> ('e + 'a) \<Rightarrow> 'e + 'a" where
  "guard_err c k = (case c of None \<Rightarrow> k | Some e \<Rightarrow> Inl e)"

definition bindE :: "'e + 'a \<Rightarrow> ('a \<Rightarrow> 'e + 'b) \<Rightarrow> 'e + 'b" where
  "bindE m f = (case m of Inl e \<Rightarrow> Inl e | Inr x \<Rightarrow> f x)"

lemma check_None [simp]: "check b e = None \<longleftrightarrow> \<not> b"
  by (simp add: check_def)

lemma check_Some [simp]: "check b e = Some x \<longleftrightarrow> b \<and> x = e"
  by (auto simp: check_def)

lemma check_False [simp]: "check False e = None" and check_True [simp]: "check True e = Some e"
  by (simp_all add: check_def)

lemma first_error_Cons [simp]:
  "first_error (None # xs) = first_error xs" "first_error (Some e # xs) = Some e"
  by simp_all

lemma first_error_None [simp]: "first_error xs = None \<longleftrightarrow> (\<forall>x \<in> set xs. x = None)"
  by (induction xs) (auto split: option.splits)

declare first_error.simps(2) [simp del]

lemma first_error_Some: "first_error xs = Some e \<Longrightarrow> Some e \<in> set xs"
  by (induction xs) (auto simp: first_error.simps split: option.splits)

lemma case_error_None [simp]: "(case x of None \<Rightarrow> k | Some e \<Rightarrow> Some e) = None \<longleftrightarrow> x = None \<and> k = None"
  by (cases x) simp_all

lemma guard_err_None [simp]: "guard_err None k = k" and guard_err_Some [simp]: "guard_err (Some e) k = Inl e"
  by (simp_all add: guard_err_def)

lemma guard_err_Inr [simp]: "guard_err c k = Inr x \<longleftrightarrow> c = None \<and> k = Inr x"
  by (cases c) simp_all

lemma bindE_Inl [simp]: "bindE (Inl e) f = Inl e" and bindE_Inr [simp]: "bindE (Inr x) f = f x"
  by (simp_all add: bindE_def)

lemma bindE_Inr_iff: "bindE m f = Inr y \<longleftrightarrow> (\<exists>x. m = Inr x \<and> f x = Inr y)"
  by (cases m) simp_all

lemma bindE_InrE:
  assumes "bindE m f = Inr y"
  obtains x where "m = Inr x" and "f x = Inr y"
  using assms by (auto simp: bindE_Inr_iff)

lemma bindE_cong [fundef_cong]:
  "m = m' \<Longrightarrow> (\<And>x. m' = Inr x \<Longrightarrow> f x = g x) \<Longrightarrow> bindE m f = bindE m' g"
  by (cases m') simp_all

text \<open>Mapping a fallible function over a list stops at the first error, as a Go loop that
  returns its error does.\<close>

primrec mapE :: "('a \<Rightarrow> 'e + 'b) \<Rightarrow> 'a list \<Rightarrow> 'e + 'b list" where
  "mapE f [] = Inr []"
| "mapE f (x # xs) = bindE (f x) (\<lambda>y. bindE (mapE f xs) (\<lambda>ys. Inr (y # ys)))"

lemma mapE_Inr_length: "mapE f xs = Inr ys \<Longrightarrow> length ys = length xs"
  by (induction xs arbitrary: ys) (auto simp: bindE_Inr_iff)

lemma mapE_Inr_nth: "mapE f xs = Inr ys \<Longrightarrow> i < length xs \<Longrightarrow> f (xs ! i) = Inr (ys ! i)"
  by (induction xs arbitrary: ys i) (auto simp: bindE_Inr_iff nth_Cons split: nat.splits)

lemma mapE_map_Inr: "(\<And>x. x \<in> set xs \<Longrightarrow> f x = Inr (g x)) \<Longrightarrow> mapE f xs = Inr (map g xs)"
  by (induction xs) simp_all

lemma mapE_Inr_set: "mapE f xs = Inr ys \<Longrightarrow> y \<in> set ys \<Longrightarrow> \<exists>x \<in> set xs. f x = Inr y"
  by (induction xs arbitrary: ys) (auto simp: bindE_Inr_iff)

lemma mapE_Inr_all: "mapE f xs = Inr ys \<Longrightarrow> x \<in> set xs \<Longrightarrow> \<exists>y \<in> set ys. f x = Inr y"
  by (induction xs arbitrary: ys) (auto simp: bindE_Inr_iff)

section \<open>Association lists as Go maps\<close>

text \<open>
  A Go map whose keys are enumerated is an association list with distinct keys: a lookup is
  \<^const>\<open>map_of\<close>, a store \<^const>\<open>AList.update\<close>, \<open>delete(m, k)\<close> \<^const>\<open>AList.delete\<close>.
\<close>

type_synonym 'v gomap = "(string \<times> 'v) list"

definition keys_ok :: "('k \<times> 'v) list \<Rightarrow> bool" where
  "keys_ok m \<longleftrightarrow> distinct (map fst m)"

lemma keys_ok_Nil [simp]: "keys_ok []"
  by (simp add: keys_ok_def)

lemma keys_ok_update [intro]: "keys_ok m \<Longrightarrow> keys_ok (AList.update k v m)"
  by (simp add: keys_ok_def distinct_update)

lemma keys_ok_delete [intro]: "keys_ok m \<Longrightarrow> keys_ok (AList.delete k m)"
  by (simp add: keys_ok_def distinct_delete)

lemma map_of_update [simp]: "map_of (AList.update k v m) = (map_of m)(k \<mapsto> v)"
  by (rule update_conv')

lemma map_of_delete [simp]: "map_of (AList.delete k m) = (map_of m)(k := None)"
  by (rule delete_conv')

lemma map_of_Some_iff_in_set: "keys_ok m \<Longrightarrow> map_of m k = Some v \<longleftrightarrow> (k, v) \<in> set m"
  by (simp add: keys_ok_def)

text \<open>The entries of a map in key order, as \<open>Scan\<close> visits them.\<close>

definition sorted_entries :: "'v gomap \<Rightarrow> (string \<times> 'v) list" where
  "sorted_entries m = map (\<lambda>k. (k, the (map_of m k))) (sort (map fst m))"

lemma sorted_entries_set:
  assumes "keys_ok m"
  shows "set (sorted_entries m) = set m"
proof -
  have "(k, the (map_of m k)) \<in> set m" if "k \<in> fst ` set m" for k
    using that assms by (auto simp: keys_ok_def map_of_is_SomeI)
  moreover have "(k, v) \<in> (\<lambda>k. (k, the (map_of m k))) ` fst ` set m" if "(k, v) \<in> set m" for k v
    using that assms by (force simp: keys_ok_def map_of_is_SomeI)
  ultimately show ?thesis
    by (auto simp: sorted_entries_def)
qed

lemma sorted_entries_keys: "map fst (sorted_entries m) = sort (map fst m)"
  by (simp add: sorted_entries_def comp_def)

lemma map_of_sorted_entries: "keys_ok m \<Longrightarrow> map_of (sorted_entries m) = map_of m"
proof -
  assume ok: "keys_ok m"
  have "keys_ok (sorted_entries m)"
    using ok by (simp add: keys_ok_def sorted_entries_keys)
  then show ?thesis
    using ok by (intro map_of_eqI) (auto simp: sorted_entries_set map_of_is_SomeI keys_ok_def
        sorted_entries_keys)
qed

section \<open>Lists\<close>

lemma distinct_map_filter_fst: "distinct (map f xs) \<Longrightarrow> distinct (map f (filter P xs))"
  by (rule distinct_map_filter)

lemma sum_list_nonneg_filter:
  fixes f :: "'a \<Rightarrow> int"
  assumes "\<And>x. x \<in> set xs \<Longrightarrow> 0 \<le> f x"
  shows "sum_list (map f (filter P xs)) \<le> sum_list (map f xs)"
  using assms by (induction xs) (auto simp: add_increasing)

end
