(* ===== verification/Go_Lib.thy ===== *)
theory Go_Lib
  imports Prelude
begin

text \<open>
  The parts of Go's standard library that the modelled code calls: \<open>strings\<close>, \<open>strconv\<close>,
  \<open>encoding/hex\<close>, \<open>path\<close> and \<open>path/filepath\<close> on Unix, and the address parsers of \<open>net\<close>.
  Strings are byte strings; the character classes the code tests are ASCII, so a byte is tested
  where Go may test a rune.
\<close>

section \<open>Characters\<close>

abbreviation cnum :: "char \<Rightarrow> nat" where
  "cnum c \<equiv> of_char c"

definition is_digit :: "char \<Rightarrow> bool" where
  "is_digit c \<longleftrightarrow> 48 \<le> cnum c \<and> cnum c \<le> 57"

definition is_lower :: "char \<Rightarrow> bool" where
  "is_lower c \<longleftrightarrow> 97 \<le> cnum c \<and> cnum c \<le> 122"

definition is_upper :: "char \<Rightarrow> bool" where
  "is_upper c \<longleftrightarrow> 65 \<le> cnum c \<and> cnum c \<le> 90"

definition is_alnum :: "char \<Rightarrow> bool" where
  "is_alnum c \<longleftrightarrow> is_digit c \<or> is_lower c \<or> is_upper c"

lemmas char_classes [golib] = is_digit_def is_lower_def is_upper_def is_alnum_def

section \<open>strings\<close>

definition HasPrefix :: "string \<Rightarrow> string \<Rightarrow> bool" where
  "HasPrefix s p \<longleftrightarrow> take (length p) s = p"

definition HasSuffix :: "string \<Rightarrow> string \<Rightarrow> bool" where
  "HasSuffix s p \<longleftrightarrow> length p \<le> length s \<and> drop (length s - length p) s = p"

definition TrimPrefix :: "string \<Rightarrow> string \<Rightarrow> string" where
  "TrimPrefix s p = (if HasPrefix s p then drop (length p) s else s)"

definition TrimSuffix :: "string \<Rightarrow> string \<Rightarrow> string" where
  "TrimSuffix s p = (if HasSuffix s p then take (length s - length p) s else s)"

definition ContainsAny :: "string \<Rightarrow> string \<Rightarrow> bool" where
  "ContainsAny s chars \<longleftrightarrow> list_ex (\<lambda>c. List.member chars c) s"

definition IndexByte_found :: "string \<Rightarrow> char \<Rightarrow> bool" where
  "IndexByte_found s c \<longleftrightarrow> List.member s c"

text \<open>\<open>strings.Cut\<close>: the text before and after the first separator, and whether there is one.\<close>

fun Cut :: "string \<Rightarrow> string \<Rightarrow> string \<times> string \<times> bool" where
  "Cut [] sep = (if sep = [] then ([], [], True) else ([], [], False))"
| "Cut (x # xs) sep =
     (if HasPrefix (x # xs) sep then ([], drop (length sep) (x # xs), True)
      else case Cut xs sep of (a, b, found) \<Rightarrow> (x # a, b, found))"

text \<open>\<open>strings.Split\<close> on a one-byte separator, and \<open>strings.Join\<close>.\<close>

fun Split :: "string \<Rightarrow> char \<Rightarrow> string list" where
  "Split [] c = [[]]"
| "Split (x # xs) c =
     (if x = c then [] # Split xs c
      else case Split xs c of [] \<Rightarrow> [[x]] | y # ys \<Rightarrow> (x # y) # ys)"

fun strings_Join :: "string list \<Rightarrow> string \<Rightarrow> string" where
  "strings_Join [] sep = []"
| "strings_Join [x] sep = x"
| "strings_Join (x # y # ys) sep = x @ sep @ strings_Join (y # ys) sep"

definition lower_char :: "char \<Rightarrow> char" where
  "lower_char c = (if is_upper c then char_of (cnum c + 32) else c)"

definition ToLower :: "string \<Rightarrow> string" where
  "ToLower s = map lower_char s"

lemmas strings_defs [golib] = HasPrefix_def HasSuffix_def TrimPrefix_def TrimSuffix_def
  ContainsAny_def IndexByte_found_def ToLower_def lower_char_def

lemma ContainsAny_iff: "ContainsAny s cs \<longleftrightarrow> set s \<inter> set cs \<noteq> {}"
  by (auto simp: ContainsAny_def list_ex_iff)

lemma HasPrefix_append [simp]: "HasPrefix (p @ s) p"
  by (simp add: HasPrefix_def)

lemma HasPrefixE:
  assumes "HasPrefix s p"
  obtains t where "s = p @ t"
  using assms append_take_drop_id [of "length p" s] that by (metis HasPrefix_def)

lemma TrimPrefix_append [simp]: "TrimPrefix (p @ s) p = s"
  by (simp add: TrimPrefix_def)

lemma Split_not_Nil [simp]: "Split s c \<noteq> []"
  by (induction s) (auto split: list.splits)

lemma Split_Cons_eq: "x \<noteq> c \<Longrightarrow> Split (x # xs) c = (x # hd (Split xs c)) # tl (Split xs c)"
  by (cases "Split xs c") (auto simp: Split_not_Nil)

lemma Split_no_sep: "p \<in> set (Split s c) \<Longrightarrow> c \<notin> set p"
proof (induction s arbitrary: p)
  case Nil
  then show ?case by simp
next
  case (Cons x xs)
  then show ?case by (cases "Split xs c") (auto split: if_splits)
qed

lemma strings_Join_Cons: "ps \<noteq> [] \<Longrightarrow> strings_Join (p # ps) sep = p @ sep @ strings_Join ps sep"
  by (cases ps) simp_all

lemma Join_Split: "strings_Join (Split s c) [c] = s"
proof (induction s)
  case Nil
  then show ?case by simp
next
  case (Cons x xs)
  show ?case
  proof (cases "x = c")
    case True
    with Cons show ?thesis by (simp add: strings_Join_Cons)
  next
    case False
    obtain y ys where ys: "Split xs c = y # ys" by (cases "Split xs c") auto
    with Cons False show ?thesis by (cases ys) simp_all
  qed
qed

lemma Split_append_sep: "c \<notin> set p \<Longrightarrow> Split (p @ [c] @ s) c = p # Split s c"
  by (induction p) (auto split: list.splits)

lemma Split_single: "c \<notin> set p \<Longrightarrow> Split p c = [p]"
  by (induction p) auto

lemma Split_Join:
  assumes "ps \<noteq> []" and "\<And>p. p \<in> set ps \<Longrightarrow> c \<notin> set p"
  shows "Split (strings_Join ps [c]) c = ps"
  using assms
proof (induction ps rule: induct_list012)
  case (3 x y zs)
  then show ?case
    using Split_append_sep [of c x "strings_Join (y # zs) [c]"] by simp
qed (auto simp: Split_single)

section \<open>strconv\<close>

text \<open>Decimal text of a natural number and of an integer (\<open>strconv.Itoa\<close>, \<open>%d\<close>).\<close>

fun dec_nat :: "nat \<Rightarrow> string" where
  "dec_nat n = (if n < 10 then [char_of (48 + n)] else dec_nat (n div 10) @ [char_of (48 + n mod 10)])"

declare dec_nat.simps [simp del]

definition Itoa :: "int \<Rightarrow> string" where
  "Itoa i = (if i < 0 then CHR ''-'' # dec_nat (nat (- i)) else dec_nat (nat i))"

definition digits_value :: "string \<Rightarrow> nat" where
  "digits_value s = foldl (\<lambda>acc c. 10 * acc + (cnum c - 48)) 0 s"

text \<open>\<open>strconv.ParseUint(s, 10, bits)\<close>: a non-empty run of digits whose value fits.\<close>

definition ParseUint :: "string \<Rightarrow> nat \<Rightarrow> nat option" where
  "ParseUint s bits = (if s \<noteq> [] \<and> list_all is_digit s \<and> digits_value s < 2 ^ bits
     then Some (digits_value s) else None)"

lemma digit_chars:
  "char_of (48 :: nat) = CHR ''0''" "char_of (49 :: nat) = CHR ''1''" "char_of (50 :: nat) = CHR ''2''"
  "char_of (51 :: nat) = CHR ''3''" "char_of (52 :: nat) = CHR ''4''" "char_of (53 :: nat) = CHR ''5''"
  "char_of (54 :: nat) = CHR ''6''" "char_of (55 :: nat) = CHR ''7''" "char_of (56 :: nat) = CHR ''8''"
  "char_of (57 :: nat) = CHR ''9''"
  by code_simp+

lemma digits_value_snoc: "digits_value (s @ [c]) = 10 * digits_value s + (cnum c - 48)"
  by (simp add: digits_value_def)

lemma cnum_char_of: "n < 256 \<Longrightarrow> cnum (char_of n) = n"
  by (simp add: of_char_of)

lemma digits_value_dec_nat: "digits_value (dec_nat n) = n"
proof (induction n rule: dec_nat.induct)
  case (1 n)
  show ?case
  proof (cases "n < 10")
    case True
    then show ?thesis by (simp add: dec_nat.simps [of n] digits_value_def cnum_char_of)
  next
    case False
    with 1 have "digits_value (dec_nat (n div 10)) = n div 10" by simp
    with False show ?thesis
      by (simp add: dec_nat.simps [of n] digits_value_snoc cnum_char_of)
  qed
qed

lemma dec_nat_inject [simp]: "dec_nat m = dec_nat n \<longleftrightarrow> m = n"
  by (metis digits_value_dec_nat)

lemma is_digit_char_of: "(n :: nat) < 10 \<Longrightarrow> is_digit (char_of (48 + n))"
  by (simp add: is_digit_def cnum_char_of)

lemma dec_nat_digits: "list_all is_digit (dec_nat n)"
proof (induction n rule: dec_nat.induct)
  case (1 n)
  then show ?case
    by (subst dec_nat.simps) (auto simp: is_digit_char_of)
qed

lemma dec_nat_not_Nil [simp]: "dec_nat n \<noteq> []"
  by (subst dec_nat.simps) simp

lemma ParseUint_dec_nat: "n < 2 ^ bits \<Longrightarrow> ParseUint (dec_nat n) bits = Some n"
  by (simp add: ParseUint_def digits_value_dec_nat dec_nat_digits)

section \<open>encoding/hex\<close>

definition hex_char :: "nat \<Rightarrow> char" where
  "hex_char n = char_of (if n < 10 then 48 + n else 87 + n)"

definition from_hex_char :: "char \<Rightarrow> nat option" where
  "from_hex_char c =
     (if is_digit c then Some (cnum c - 48)
      else if 97 \<le> cnum c \<and> cnum c \<le> 102 then Some (cnum c - 87)
      else if 65 \<le> cnum c \<and> cnum c \<le> 70 then Some (cnum c - 55)
      else None)"

definition hex_byte :: "byte \<Rightarrow> string" where
  "hex_byte b = [hex_char (unat b div 16), hex_char (unat b mod 16)]"

definition EncodeToString :: "byte list \<Rightarrow> string" where
  "EncodeToString bs = concat (map hex_byte bs)"

fun DecodeString :: "string \<Rightarrow> byte list option" where
  "DecodeString [] = Some []"
| "DecodeString [c] = None"
| "DecodeString (h # l # rest) =
     (case (from_hex_char h, from_hex_char l, DecodeString rest) of
        (Some a, Some b, Some bs) \<Rightarrow> Some (word_of_nat (16 * a + b) # bs)
      | _ \<Rightarrow> None)"

definition is_lower_hex :: "char \<Rightarrow> bool" where
  "is_lower_hex c \<longleftrightarrow> is_digit c \<or> (97 \<le> cnum c \<and> cnum c \<le> 102)"

lemma from_hex_hex_char: "n < 16 \<Longrightarrow> from_hex_char (hex_char n) = Some n"
  by (auto simp: from_hex_char_def hex_char_def is_digit_def cnum_char_of)

lemma hex_char_lower: "n < 16 \<Longrightarrow> is_lower_hex (hex_char n)"
  by (auto simp: is_lower_hex_def hex_char_def is_digit_def cnum_char_of)

lemma from_hex_char_bound: "from_hex_char c = Some n \<Longrightarrow> n < 16"
  by (auto simp: from_hex_char_def is_digit_def split: if_splits)

lemma hex_char_from_hex:
  assumes "from_hex_char c = Some n" and "is_lower_hex c"
  shows "hex_char n = c"
proof -
  have "cnum (hex_char n) = cnum c"
    using assms by (auto simp: from_hex_char_def hex_char_def is_digit_def is_lower_hex_def cnum_char_of
        split: if_splits)
  then show ?thesis by (metis char_of_char)
qed

lemma unat_byte_bound: "unat (b :: byte) < 256"
  using unsigned_less [of b] by simp

lemma unat_word_of_byte: "n < 256 \<Longrightarrow> unat (word_of_nat n :: byte) = n"
  by (simp add: unat_of_nat)

lemma byte_split: "word_of_nat (16 * (unat b div 16) + unat b mod 16) = (b :: byte)"
  by simp

lemma length_EncodeToString [simp]: "length (EncodeToString bs) = 2 * length bs"
  by (induction bs) (simp_all add: EncodeToString_def hex_byte_def)

lemma EncodeToString_append: "EncodeToString (xs @ ys) = EncodeToString xs @ EncodeToString ys"
  by (simp add: EncodeToString_def)

lemma EncodeToString_Cons: "EncodeToString (b # bs) = hex_byte b @ EncodeToString bs"
  by (simp add: EncodeToString_def)

lemma EncodeToString_Nil [simp]: "EncodeToString [] = []"
  by (simp add: EncodeToString_def)

lemma EncodeToString_lower: "list_all is_lower_hex (EncodeToString bs)"
proof (induction bs)
  case (Cons b bs)
  then show ?case
    using unat_byte_bound [of b] by (simp add: EncodeToString_Cons hex_byte_def hex_char_lower)
qed simp

lemma Decode_Encode [simp]: "DecodeString (EncodeToString bs) = Some bs"
proof (induction bs)
  case (Cons b bs)
  then show ?case
    using unat_byte_bound [of b]
    by (simp add: EncodeToString_Cons hex_byte_def from_hex_hex_char)
qed simp

lemma Encode_Decode:
  "DecodeString s = Some bs \<Longrightarrow> list_all is_lower_hex s \<Longrightarrow> EncodeToString bs = s"
proof (induction s arbitrary: bs rule: DecodeString.induct)
  case (3 h l rest)
  then obtain a b cs where h: "from_hex_char h = Some a" "from_hex_char l = Some b"
    and cs: "DecodeString rest = Some cs" and bs: "bs = word_of_nat (16 * a + b) # cs"
    by (auto split: option.splits)
  have "a < 16" "b < 16" using h from_hex_char_bound by auto
  moreover from this have "unat (word_of_nat (16 * a + b) :: byte) = 16 * a + b"
    by (intro unat_word_of_byte) simp
  ultimately have "hex_byte (word_of_nat (16 * a + b)) = [h, l]"
    using h 3(3) by (simp add: hex_byte_def hex_char_from_hex)
  with 3 cs bs h show ?case by (simp add: EncodeToString_Cons)
qed auto

lemma DecodeString_length: "DecodeString s = Some bs \<Longrightarrow> length s = 2 * length bs"
  by (induction s arbitrary: bs rule: DecodeString.induct) (auto split: option.splits)

lemma DecodeString_chars: "DecodeString s = Some bs \<Longrightarrow> c \<in> set s \<Longrightarrow> from_hex_char c \<noteq> None"
  by (induction s arbitrary: bs rule: DecodeString.induct) (auto split: option.splits)

lemma hex_not_upper_lower:
  assumes "from_hex_char c \<noteq> None" and "\<not> (65 \<le> cnum c \<and> cnum c \<le> 70)"
  shows "is_lower_hex c"
  using assms by (auto simp: from_hex_char_def is_lower_hex_def split: if_splits)

section \<open>path and path/filepath\<close>

definition IsAbs :: "string \<Rightarrow> bool" where
  "IsAbs p \<longleftrightarrow> HasPrefix p ''/''"

text \<open>The elements that survive \<open>path.Clean\<close>: empty and \<open>.\<close> elements go, \<open>..\<close> removes the
  element before it, and is dropped at the root of an absolute path.\<close>

fun clean_parts :: "bool \<Rightarrow> string list \<Rightarrow> string list \<Rightarrow> string list" where
  "clean_parts rooted acc [] = rev acc"
| "clean_parts rooted acc (p # ps) =
     (if p = [] \<or> p = ''.'' then clean_parts rooted acc ps
      else if p = ''..'' then
        (case acc of
           [] \<Rightarrow> clean_parts rooted (if rooted then [] else [p]) ps
         | q # qs \<Rightarrow> if q = ''..'' then clean_parts rooted (p # acc) ps else clean_parts rooted qs ps)
      else clean_parts rooted (p # acc) ps)"

definition Clean :: "string \<Rightarrow> string" where
  "Clean s = (let rooted = HasPrefix s ''/'';
     body = strings_Join (clean_parts rooted [] (Split s (CHR ''/''))) ''/'';
     out = (if rooted then ''/'' @ body else body)
   in if out = [] then ''.'' else out)"

definition Base :: "string \<Rightarrow> string" where
  "Base s = (if s = [] then ''.''
     else let t = rev (dropWhile (\<lambda>c. c = CHR ''/'') (rev s));
              u = rev (takeWhile (\<lambda>c. c \<noteq> CHR ''/'') (rev t))
          in if u = [] then ''/'' else u)"

text \<open>A plain element: what a component of a cleaned absolute path looks like.\<close>

definition plain_elem :: "string \<Rightarrow> bool" where
  "plain_elem p \<longleftrightarrow> p \<noteq> [] \<and> p \<noteq> ''.'' \<and> p \<noteq> ''..'' \<and> CHR ''/'' \<notin> set p"

lemma clean_parts_plain:
  assumes "\<And>p. p \<in> set ps \<Longrightarrow> CHR ''/'' \<notin> set p" and "\<And>p. p \<in> set acc \<Longrightarrow> plain_elem p"
    and "q \<in> set (clean_parts True acc ps)"
  shows "plain_elem q"
  using assms
proof (induction ps arbitrary: acc)
  case Nil
  then show ?case by simp
next
  case (Cons p ps)
  have no: "CHR ''/'' \<notin> set x" if "x \<in> set ps" for x
    using Cons.prems(1) that by simp
  consider (skip) "p = [] \<or> p = ''.''" | (up) "p = ''..''" | (elem) "plain_elem p"
    using Cons.prems(1) [of p] by (auto simp: plain_elem_def)
  then show ?case
  proof cases
    case skip
    with Cons.prems(3) have "q \<in> set (clean_parts True acc ps)" by auto
    then show ?thesis using Cons.IH [OF no Cons.prems(2)] by blast
  next
    case up
    show ?thesis
    proof (cases acc)
      case Nil
      with up Cons.prems(3) have "q \<in> set (clean_parts True [] ps)" by simp
      then show ?thesis using Cons.IH [OF no, of "[]"] by simp
    next
      case (Cons r rs)
      with Cons.prems(2) have "r \<noteq> ''..''" by (auto simp: plain_elem_def)
      with Cons up Cons.prems(3) have "q \<in> set (clean_parts True rs ps)" by simp
      then show ?thesis using Cons Cons.IH [OF no, of rs] Cons.prems(2) by simp
    qed
  next
    case elem
    with Cons.prems(3) have "q \<in> set (clean_parts True (p # acc) ps)"
      by (simp add: plain_elem_def)
    then show ?thesis using Cons.IH [OF no, of "p # acc"] Cons.prems(2) elem by auto
  qed
qed

lemma clean_parts_id:
  "(\<And>p. p \<in> set ps \<Longrightarrow> plain_elem p) \<Longrightarrow> clean_parts rooted acc ps = rev acc @ ps"
  by (induction ps arbitrary: acc) (auto simp: plain_elem_def)

section \<open>net\<close>

text \<open>\<open>net.ParseIP\<close> accepts dotted decimal without leading zeros and every IPv6 form without a
  zone; the result is sixteen bytes, an IPv4 address in its mapped form. \<open>To4\<close> is non-nil exactly on
  mapped addresses.\<close>

definition ipv4_field :: "string \<Rightarrow> nat option" where
  "ipv4_field s = (if s \<noteq> [] \<and> list_all is_digit s \<and> (hd s = CHR ''0'' \<longrightarrow> length s = 1)
       \<and> digits_value s \<le> 255 then Some (digits_value s) else None)"

fun opt_all :: "'a option list \<Rightarrow> 'a list option" where
  "opt_all [] = Some []"
| "opt_all (x # xs) = (case (x, opt_all xs) of (Some a, Some as) \<Rightarrow> Some (a # as) | _ \<Rightarrow> None)"

definition parse_ipv4 :: "string \<Rightarrow> nat list option" where
  "parse_ipv4 s = (let fs = Split s (CHR ''.'') in
     if length fs = 4 then opt_all (map ipv4_field fs) else None)"

definition hex_value :: "string \<Rightarrow> nat" where
  "hex_value s = foldl (\<lambda>acc c. 16 * acc + the (from_hex_char c)) 0 s"

definition is_hex :: "char \<Rightarrow> bool" where
  "is_hex c \<longleftrightarrow> from_hex_char c \<noteq> None"

text \<open>One step per two-byte group of \<open>netip.parseIPv6\<close>: the bytes read, the position of the
  ellipsis, and the text left; \<open>None\<close> is a parse error. At most eight groups are read.\<close>

fun ip6_groups :: "nat \<Rightarrow> nat list \<Rightarrow> nat option \<Rightarrow> string \<Rightarrow> (nat list \<times> nat option \<times> string) option" where
  "ip6_groups 0 bytes ell s = Some (bytes, ell, s)"
| "ip6_groups (Suc n) bytes ell s =
     (let h = takeWhile is_hex s; rest = drop (length h) s in
      if h = [] \<or> 4 < length h then None
      else case rest of
        [] \<Rightarrow> Some (bytes @ [hex_value h div 256, hex_value h mod 256], ell, [])
      | c # cs \<Rightarrow>
          if c = CHR ''.'' then
            (if ell = None \<and> length bytes \<noteq> 12 \<or> 16 < length bytes + 4 then None
             else case parse_ipv4 s of None \<Rightarrow> None | Some v4 \<Rightarrow> Some (bytes @ v4, ell, []))
          else if c \<noteq> CHR '':'' \<or> cs = [] then None
          else let bytes' = bytes @ [hex_value h div 256, hex_value h mod 256] in
            if hd cs = CHR '':'' then
              (if ell \<noteq> None then None
               else if tl cs = [] then Some (bytes', Some (length bytes'), [])
               else ip6_groups n bytes' (Some (length bytes')) (tl cs))
            else ip6_groups n bytes' ell cs)"

definition ip6_finish :: "(nat list \<times> nat option \<times> string) option \<Rightarrow> nat list option" where
  "ip6_finish r = (case r of
     Some (bytes, ell, []) \<Rightarrow>
       if length bytes < 16 then
         (case ell of None \<Rightarrow> None
          | Some e \<Rightarrow> Some (take e bytes @ replicate (16 - length bytes) 0 @ drop e bytes))
       else if ell \<noteq> None then None else Some bytes
   | _ \<Rightarrow> None)"

definition parse_ipv6 :: "string \<Rightarrow> nat list option" where
  "parse_ipv6 s =
     (if List.member s (CHR ''%'') then None
      else if HasPrefix s ''::'' then
        (if length s = 2 then Some (replicate 16 0)
         else ip6_finish (ip6_groups 8 [] (Some 0) (drop 2 s)))
      else ip6_finish (ip6_groups 8 [] None s))"

definition v4_mapped :: "nat list" where
  "v4_mapped = replicate 10 0 @ [255, 255]"

definition ParseIP :: "string \<Rightarrow> nat list option" where
  "ParseIP s = (case dropWhile (\<lambda>c. c \<noteq> CHR ''.'' \<and> c \<noteq> CHR '':'' \<and> c \<noteq> CHR ''%'') s of
     [] \<Rightarrow> None
   | c # _ \<Rightarrow>
       if c = CHR ''.'' then map_option (\<lambda>v4. v4_mapped @ v4) (parse_ipv4 s)
       else if c = CHR '':'' then parse_ipv6 s
       else None)"

definition To4 :: "nat list option \<Rightarrow> nat list option" where
  "To4 ip = (case ip of None \<Rightarrow> None
     | Some bs \<Rightarrow> if take 12 bs = v4_mapped then Some (drop 12 bs) else None)"

text \<open>\<open>net.ParseMAC\<close>: 6, 8 or 20 octets in colon, hyphen or dot notation.\<close>

definition mac_groups :: "char \<Rightarrow> nat \<Rightarrow> string \<Rightarrow> bool" where
  "mac_groups sep width s \<longleftrightarrow> list_all (\<lambda>g. length g = width \<and> list_all is_hex g) (Split s sep)"

definition ParseMAC_ok :: "string \<Rightarrow> bool" where
  "ParseMAC_ok s \<longleftrightarrow>
     (if length s < 14 then False
      else if s ! 2 = CHR '':'' \<or> s ! 2 = CHR ''-'' then
        mac_groups (s ! 2) 2 s \<and> List.member [6, 8, 20] (length (Split s (s ! 2)))
      else if s ! 4 = CHR ''.'' then
        mac_groups (CHR ''.'') 4 s \<and> List.member [6, 8, 20] (2 * length (Split s (CHR ''.'')))
      else False)"


lemmas net_eval [golib] = ParseIP_def parse_ipv4_def parse_ipv6_def ipv4_field_def ip6_finish_def
  v4_mapped_def hex_value_def digits_value_def is_hex_def from_hex_char_def is_digit_def
  HasPrefix_def To4_def ParseMAC_ok_def mac_groups_def

lemmas ip6_groups_numeral = ip6_groups.simps(2) [where n = "pred_numeral k" for k, folded numeral_eq_Suc]

lemmas replicate_numeral = replicate_Suc [where n = "pred_numeral k" for k, folded numeral_eq_Suc]

lemma ParseIP_examples:
  "ParseIP ''169.254.240.2'' = Some (v4_mapped @ [169, 254, 240, 2])"
  "ParseIP ''::ffff:169.254.240.2'' = ParseIP ''169.254.240.2''"
  "ParseIP ''::ffff:a9fe:f002'' = ParseIP ''169.254.240.2''"
  "ParseIP ''1:2:3:4:5:6:7:8'' = Some [0,1,0,2,0,3,0,4,0,5,0,6,0,7,0,8]"
  "ParseIP ''fe80::1'' = Some [254,128,0,0,0,0,0,0,0,0,0,0,0,0,0,1]"
  "ParseIP ''10.0.0.01'' = None" "ParseIP ''1.2.3'' = None" "ParseIP ''1::2::3'' = None"
  "ParseIP ''1:2:3:4:5:6:7:8:9'' = None" "ParseIP ''fe80::1%eth0'' = None"
  by (simp_all add: net_eval Let_def ip6_groups_numeral replicate_numeral cong: let_weak_cong)

lemma ParseMAC_examples:
  "ParseMAC_ok ''02:4b:42:00:00:02''" "ParseMAC_ok ''024b.4200.0002''"
  "\<not> ParseMAC_ok ''02:4b:42:00:00''" "\<not> ParseMAC_ok ''02:4b:42:00:00:zz''"
  by (simp_all add: net_eval)

lemma Clean_examples:
  "Clean ''/a/../b//c/.'' = ''/b/c''" "Clean ''/../a'' = ''/a''" "Clean ''a/../..'' = ''..''"
  "Clean [] = ''.''" "Clean ''/'' = ''/''" "Base ''a/b/'' = ''b''" "Base ''//'' = ''/''"
  by (simp_all add: Clean_def Base_def HasPrefix_def)

end
