(* ===== verification/Errdefs.thy ===== *)
theory Errdefs
  imports Prelude
begin

text \<open>
  The error model of \<open>internal/errdefs/error.go\<close>: classified errors, their unwrap chain and the
  operations that add context to them.

  An error is a tree. \<open>Msg\<close> is an \<open>errors.New\<close> or a \<open>fmt.Errorf\<close> without \<open>%w\<close> (its text is
  the format string; the arguments are left out), \<open>Wrap\<close> a \<open>fmt.Errorf\<close> that ends in \<open>%w\<close>,
  \<open>Join\<close> an \<open>errors.Join\<close> of at least one error, and \<open>Error\<close> a pointer to the source's
  \<open>Error\<close> struct. Go compares such pointers by address, so an \<open>Error\<close> node carries the address its
  allocation returned; a function that allocates one takes the address as its first argument.
\<close>

datatype Code = CodeNotFound | CodeNameTaken | CodeStateConflict | CodeInvalidArgument
  | CodeHostIncompatible | CodeImageIncompatible | CodeDigestMismatch | CodeArtifactCorrupt
  | CodeArtifactUnavailable | CodeReferenced | CodeStoreBusy | CodeInternal

primrec Code_string :: "Code \<Rightarrow> string" where
  "Code_string CodeNotFound = ''NOT_FOUND''"
| "Code_string CodeNameTaken = ''NAME_TAKEN''"
| "Code_string CodeStateConflict = ''STATE_CONFLICT''"
| "Code_string CodeInvalidArgument = ''INVALID_ARGUMENT''"
| "Code_string CodeHostIncompatible = ''HOST_INCOMPATIBLE''"
| "Code_string CodeImageIncompatible = ''IMAGE_INCOMPATIBLE''"
| "Code_string CodeDigestMismatch = ''IMAGE_DIGEST_MISMATCH''"
| "Code_string CodeArtifactCorrupt = ''ARTIFACT_CORRUPT''"
| "Code_string CodeArtifactUnavailable = ''ARTIFACT_UNAVAILABLE''"
| "Code_string CodeReferenced = ''REFERENCED''"
| "Code_string CodeStoreBusy = ''STORE_BUSY''"
| "Code_string CodeInternal = ''INTERNAL''"

datatype Class = ClassUnknown | ClassNotFound | ClassInvalid | ClassConflict | ClassUnavailable
  | ClassCorrupt | ClassInternal

datatype gerr =
    Msg string
  | Wrap string gerr
  | Join "gerr list"
  | Error (err_addr: nat) (err_Class: Class) (err_Code: Code) (err_Operation: string)
      (err_Entity: string) (err_Phase: string) (err_Committed: bool) (err_Action: string)
      (err_Cause: "gerr option") (err_wrapped: "gerr option")

record ContextInfo =
  ctx_Operation :: string
  ctx_Entity :: string
  ctx_Phase :: string
  ctx_Action :: string
  ctx_Committed :: bool

text \<open>\<open>errors.Join\<close> drops nil errors and is nil when none is left.\<close>

definition errors_Join :: "gerr option list \<Rightarrow> gerr option" where
  "errors_Join es = (let es' = List.map_filter id es in if es' = [] then None else Some (Join es'))"

text \<open>\<open>errors.As\<close> with a \<open>*Error\<close> target: the first \<open>Error\<close> node in pre-order.\<close>

fun errors_As :: "gerr \<Rightarrow> gerr option" and errors_As_list :: "gerr list \<Rightarrow> gerr option" where
  "errors_As (Msg s) = None"
| "errors_As (Wrap s e) = errors_As e"
| "errors_As (Join es) = errors_As_list es"
| "errors_As (Error a c k o' en p cm act cause w) = Some (Error a c k o' en p cm act cause w)"
| "errors_As_list [] = None"
| "errors_As_list (e # es) = (case errors_As e of Some x \<Rightarrow> Some x | None \<Rightarrow> errors_As_list es)"

text \<open>\<open>errors.Is\<close> with a sentinel as target.\<close>

fun errors_Is :: "gerr \<Rightarrow> gerr \<Rightarrow> bool" where
  "errors_Is (Msg s) t \<longleftrightarrow> Msg s = t"
| "errors_Is (Wrap s e) t \<longleftrightarrow> Wrap s e = t \<or> errors_Is e t"
| "errors_Is (Join es) t \<longleftrightarrow> Join es = t \<or> list_ex (\<lambda>e. errors_Is e t) es"
| "errors_Is (Error a c k op en ph cm act cause w) t \<longleftrightarrow>
     Error a c k op en ph cm act cause w = t
     \<or> (case w of Some e \<Rightarrow> errors_Is e t | None \<Rightarrow> (case cause of Some e \<Rightarrow> errors_Is e t | None \<Rightarrow> False))"

section \<open>Operations\<close>

text \<open>The rendering of an error; \<open>nil\<close> receivers print as \<open><nil>\<close>.\<close>

fun Error_Error :: "gerr \<Rightarrow> string" and Error_lines :: "gerr list \<Rightarrow> string" where
  "Error_Error (Msg s) = s"
| "Error_Error (Wrap s e) = s @ Error_Error e"
| "Error_Error (Join es) = Error_lines es"
| "Error_Error (Error a c k op en ph cm act cause w) =
     (if op \<noteq> [] then op @ '': '' @ Code_string k else Code_string k)
     @ (if en \<noteq> [] then '' ('' @ en @ '')'' else [])
     @ (if ph \<noteq> [] then '' at '' @ ph else [])
     @ (case cause of None \<Rightarrow> [] | Some e \<Rightarrow> '': '' @ Error_Error e)
     @ (if act \<noteq> [] then ''; '' @ act else [])"
| "Error_lines [] = []"
| "Error_lines [e] = Error_Error e"
| "Error_lines (e # es) = Error_Error e @ [CHR 10] @ Error_lines es"

fun Error_Unwrap :: "gerr \<Rightarrow> gerr option" where
  "Error_Unwrap (Error a c k op en ph cm act cause w) = (case w of Some e \<Rightarrow> Some e | None \<Rightarrow> cause)"
| "Error_Unwrap e = None"

definition New :: "nat \<Rightarrow> Class \<Rightarrow> Code \<Rightarrow> gerr option \<Rightarrow> gerr" where
  "New a class code cause = Error a class code [] [] [] False []
     (case cause of None \<Rightarrow> Some (Msg (Code_string code)) | Some e \<Rightarrow> Some e) None"

definition first_str :: "string \<Rightarrow> string \<Rightarrow> string" where
  "first_str value fallback = (if value \<noteq> [] then value else fallback)"

text \<open>Pointer equality with an \<open>Error\<close> node.\<close>

fun same_ptr :: "gerr \<Rightarrow> gerr \<Rightarrow> bool" where
  "same_ptr (Error a _ _ _ _ _ _ _ _ _) (Error b _ _ _ _ _ _ _ _ _) = (a = b)"
| "same_ptr _ _ = False"

fun diagnosticCause :: "gerr \<Rightarrow> gerr \<Rightarrow> gerr option"
  and diagnosticCauses :: "gerr list \<Rightarrow> gerr \<Rightarrow> gerr option list" where
  "diagnosticCause (Join es) c = errors_Join (diagnosticCauses es c)"
| "diagnosticCause e c =
     (if same_ptr e c then err_Cause c
      else case errors_As e of
        Some nested \<Rightarrow> if same_ptr nested c then err_Cause c else Some e
      | None \<Rightarrow> Some e)"
| "diagnosticCauses [] c = []"
| "diagnosticCauses (e # es) c = diagnosticCause e c # diagnosticCauses es c"

definition WithContext :: "nat \<Rightarrow> gerr option \<Rightarrow> ContextInfo \<Rightarrow> gerr option" where
  "WithContext a err info = (case err of None \<Rightarrow> None | Some e \<Rightarrow>
     (case errors_As e of
        Some c \<Rightarrow> Some (Error a (err_Class c) (err_Code c)
            (first_str (ctx_Operation info) (err_Operation c))
            (first_str (ctx_Entity info) (err_Entity c))
            (first_str (ctx_Phase info) (err_Phase c))
            (ctx_Committed info \<or> err_Committed c)
            (first_str (ctx_Action info) (err_Action c))
            (diagnosticCause e c) (Some e))
      | None \<Rightarrow> Some (Error a ClassInternal CodeInternal (ctx_Operation info) (ctx_Entity info)
            (ctx_Phase info) (ctx_Committed info) (ctx_Action info) (Some e) None)))"

definition CodeOf :: "gerr \<Rightarrow> Code option" where
  "CodeOf e = (case errors_As e of None \<Rightarrow> None | Some c \<Rightarrow> Some (err_Code c))"

text \<open>The same wrapping for a result: the value passes through, the error gets context.\<close>

definition ctxE :: "nat \<Rightarrow> ContextInfo \<Rightarrow> gerr + 'a \<Rightarrow> gerr + 'a" where
  "ctxE a info r = (case r of Inr x \<Rightarrow> Inr x | Inl e \<Rightarrow> Inl (the (WithContext a (Some e) info)))"

section \<open>Lemmas\<close>

lemma errors_As_Error: "errors_As e = Some c \<Longrightarrow> \<exists>a k l o' en p cm act cause w. c = Error a k l o' en p cm act cause w"
  and errors_As_list_Error: "errors_As_list es = Some c \<Longrightarrow> \<exists>a k l o' en p cm act cause w. c = Error a k l o' en p cm act cause w"
  by (induction e and es rule: errors_As_errors_As_list.induct) (auto split: option.splits)

lemma errors_As_idem: "errors_As e = Some c \<Longrightarrow> errors_As c = Some c"
  using errors_As_Error by fastforce

lemma WithContext_Some: "\<exists>e'. WithContext a (Some e) info = Some e'"
  by (auto simp: WithContext_def split: option.splits)

lemma WithContext_nil [simp]: "WithContext a None info = None"
  by (simp add: WithContext_def)

lemma ctxE_Inr [simp]: "ctxE a info r = Inr x \<longleftrightarrow> r = Inr x"
  by (auto simp: ctxE_def split: sum.splits)

lemma ctxE_simp_Inr [simp]: "ctxE a info (Inr x) = Inr x"
  by (simp add: ctxE_def)

lemma ctxE_Inl_CodeOf:
  assumes "ctxE a info r = Inl e"
  obtains e0 where "r = Inl e0"
    and "CodeOf e = Some (case CodeOf e0 of Some k \<Rightarrow> k | None \<Rightarrow> CodeInternal)"
proof (cases r)
  case (Inl e0)
  with assms have "WithContext a (Some e0) info = Some e"
    using WithContext_Some [of a e0 info] by (auto simp: ctxE_def)
  then have "CodeOf e = Some (case CodeOf e0 of Some k \<Rightarrow> k | None \<Rightarrow> CodeInternal)"
    by (auto simp: WithContext_def CodeOf_def split: option.splits)
  with Inl that show thesis by blast
next
  case (Inr x)
  with assms show thesis by simp
qed

lemma CodeOf_New [simp]: "CodeOf (New a cl code cause) = Some code"
  by (simp add: CodeOf_def New_def)

text \<open>The addresses of the \<open>Error\<close> nodes that a printed error shows: the rendering follows
  \<open>Cause\<close>, never \<open>wrapped\<close>.\<close>

fun shown :: "gerr \<Rightarrow> nat list" and shown_list :: "gerr list \<Rightarrow> nat list" where
  "shown (Msg s) = []"
| "shown (Wrap s e) = shown e"
| "shown (Join es) = shown_list es"
| "shown (Error a c k op en ph cm act cause w) =
     a # (case cause of None \<Rightarrow> [] | Some e \<Rightarrow> shown e)"
| "shown_list [] = []"
| "shown_list (e # es) = shown e @ shown_list es"

lemma shown_list_concat: "shown_list es = concat (map shown es)"
  by (induction es) simp_all

lemma errors_As_shown: "errors_As e = Some c \<Longrightarrow> err_addr c \<in> set (shown e)"
  and errors_As_list_shown: "errors_As_list es = Some c \<Longrightarrow> err_addr c \<in> set (shown_list es)"
  by (induction e and es rule: errors_As_errors_As_list.induct) (auto split: option.splits)

lemma errors_As_None_shown: "errors_As e = None \<Longrightarrow> shown e = []"
  and errors_As_list_None_shown: "errors_As_list es = None \<Longrightarrow> shown_list es = []"
  by (induction e and es rule: errors_As_errors_As_list.induct) (auto split: option.splits)

lemma Cause_not_shown:
  shows "errors_As e = Some c \<Longrightarrow> distinct (shown e) \<Longrightarrow> err_Cause c = Some d \<Longrightarrow> err_addr c \<notin> set (shown d)"
    and "errors_As_list es = Some c \<Longrightarrow> distinct (shown_list es) \<Longrightarrow> err_Cause c = Some d \<Longrightarrow>
      err_addr c \<notin> set (shown d)"
  by (induction e and es rule: errors_As_errors_As_list.induct) (auto split: option.splits)

lemma same_ptr_addr: "same_ptr n c \<Longrightarrow> err_addr n = err_addr c"
  by (cases n; cases c) auto

lemma same_ptr_refl: "errors_As e = Some c \<Longrightarrow> same_ptr c c"
  using errors_As_Error by fastforce

lemma map_filter_id_Some: "d \<in> set (List.map_filter id xs) \<longleftrightarrow> Some d \<in> set xs"
  by (induction xs) (auto simp: map_filter_def)

lemma errors_Join_Some: "errors_Join xs = Some d \<Longrightarrow> \<exists>ds. d = Join ds \<and> set ds = {x. Some x \<in> set xs}"
  by (auto simp: errors_Join_def Let_def map_filter_id_Some split: if_splits)

lemma shown_list_set: "set (shown_list es) = (\<Union>e \<in> set es. set (shown e))"
  by (simp add: shown_list_concat)

lemma diagnosticCauses_map: "diagnosticCauses es c = map (\<lambda>e. diagnosticCause e c) es"
  by (induction es) simp_all

text \<open>In a tree of distinct addresses every member of a join either holds the classification found
  first, as its own first one, or does not show it at all.\<close>

lemma errors_As_list_member:
  assumes "distinct (shown_list es)" and "errors_As_list es = Some c \<or> err_addr c \<notin> set (shown_list es)"
    and "e \<in> set es"
  shows "distinct (shown e) \<and> (errors_As e = Some c \<or> err_addr c \<notin> set (shown e))"
  using assms
proof (induction es)
  case Nil
  then show ?case by simp
next
  case (Cons x xs)
  show ?case
  proof (cases "errors_As x")
    case None
    then show ?thesis using Cons by (auto dest: errors_As_None_shown)
  next
    case (Some n)
    then show ?thesis
      using Cons errors_As_shown [OF Some] by (auto simp: shown_list_set)
  qed
qed

lemma diagnosticCause_not_shown:
  assumes cause: "\<And>d. err_Cause c = Some d \<Longrightarrow> err_addr c \<notin> set (shown d)"
  shows "distinct (shown e) \<Longrightarrow> errors_As e = Some c \<or> err_addr c \<notin> set (shown e) \<Longrightarrow>
      diagnosticCause e c = Some d \<Longrightarrow> err_addr c \<notin> set (shown d)"
proof (induction e arbitrary: d)
  case (Join es)
  then obtain ds where d: "d = Join ds" and ds: "set ds = {x. Some x \<in> set (diagnosticCauses es c)}"
    by (auto dest: errors_Join_Some)
  have "err_addr c \<notin> set (shown x)" if "x \<in> set ds" for x
  proof -
    from that ds obtain e where e: "e \<in> set es" "diagnosticCause e c = Some x"
      by (auto simp: diagnosticCauses_map)
    have "distinct (shown e) \<and> (errors_As e = Some c \<or> err_addr c \<notin> set (shown e))"
      using Join.prems e(1) by (intro errors_As_list_member [of es]) auto
    with Join.IH [OF e(1)] e(2) show ?thesis by blast
  qed
  with d show ?case by (auto simp: shown_list_set)
next
  case (Msg s)
  then show ?case by auto
next
  case (Wrap s e)
  then show ?case
    using cause same_ptr_refl [of e c] by (auto split: if_splits option.splits)
next
  case (Error a k l op en ph cm act ca w)
  let ?e = "Error a k l op en ph cm act ca w"
  show ?case
  proof (cases "same_ptr ?e c")
    case True
    with Error.prems(3) have "err_Cause c = Some d" by simp
    then show ?thesis by (rule cause)
  next
    case False
    with Error.prems(3) have "d = ?e" by simp
    moreover from False have "errors_As ?e \<noteq> Some c"
      by (metis errors_As.simps(4) option.inject same_ptr_refl)
    ultimately show ?thesis using Error.prems(2) by blast
  qed
qed

section \<open>Properties\<close>

text \<open>
   Adding context to an error keeps its stable classification: the class and code a caller
  reads from the result are those of the first classification in the original tree (or
  internal when it has none), the commit flag is the disjunction of the old and the new one, so
  it can only become true, a context field replaces the old one only when it is not
  empty, and the original tree stays reachable through \<open>Unwrap\<close>.
\<close>

theorem WithContext_preserves_classification:
  assumes "WithContext a (Some e) info = Some r"
  shows "CodeOf r = Some (case errors_As e of Some c \<Rightarrow> err_Code c | None \<Rightarrow> CodeInternal)
    \<and> err_Class r = (case errors_As e of Some c \<Rightarrow> err_Class c | None \<Rightarrow> ClassInternal)
    \<and> err_Committed r = (ctx_Committed info \<or> (case errors_As e of Some c \<Rightarrow> err_Committed c | None \<Rightarrow> False))
    \<and> err_Operation r = (if ctx_Operation info \<noteq> [] then ctx_Operation info
           else case errors_As e of Some c \<Rightarrow> err_Operation c | None \<Rightarrow> [])
    \<and> Error_Unwrap r = Some e"
  using assms by (auto simp: WithContext_def CodeOf_def first_str_def split: option.splits)

theorem WithContext_preserves_classification_witness:
  "CodeOf (the (WithContext 2 (Some (Wrap ''x: '' (New 1 ClassConflict CodeNameTaken None)))
      \<lparr>ctx_Operation = ''op'', ctx_Entity = [], ctx_Phase = [], ctx_Action = [], ctx_Committed = True\<rparr>))
    = Some CodeNameTaken"
  using WithContext_preserves_classification [of 2 "Wrap ''x: '' (New 1 ClassConflict CodeNameTaken None)"
      "\<lparr>ctx_Operation = ''op'', ctx_Entity = [], ctx_Phase = [], ctx_Action = [], ctx_Committed = True\<rparr>"]
  by (auto simp: WithContext_def New_def)

text \<open>
  The printed form of a re-contextualised error shows the replaced classification once: in
  a tree whose nodes have distinct addresses, the cause that the new error renders no longer
  shows the \<open>Error\<close> node whose class and code it took over.
\<close>

theorem WithContext_renders_classification_once:
  assumes "errors_As e = Some c" and "distinct (shown e)"
    and "WithContext a (Some e) info = Some r" and "err_Cause r = Some d"
  shows "err_addr c \<notin> set (shown d)"
proof (rule diagnosticCause_not_shown)
  show "\<And>d. err_Cause c = Some d \<Longrightarrow> err_addr c \<notin> set (shown d)"
    using assms(1,2) by (rule Cause_not_shown)
  show "distinct (shown e)" and "errors_As e = Some c \<or> err_addr c \<notin> set (shown e)"
    using assms(1,2) by auto
  show "diagnosticCause e c = Some d"
    using assms by (auto simp: WithContext_def)
qed

theorem WithContext_renders_classification_once_witness:
  "(1::nat) \<notin> set (shown (Join [Msg ''io'', Msg ''busy'']))"
  using WithContext_renders_classification_once
    [of "Join [Msg ''io'', Wrap ''put: '' (New 1 ClassUnavailable CodeStoreBusy (Some (Msg ''busy'')))]"
        "New 1 ClassUnavailable CodeStoreBusy (Some (Msg ''busy''))" 2
        "\<lparr>ctx_Operation = ''op'', ctx_Entity = [], ctx_Phase = [], ctx_Action = [], ctx_Committed = False\<rparr>"
        _ "Join [Msg ''io'', Msg ''busy'']"]
  by (auto simp: New_def WithContext_def errors_Join_def map_filter_def)

end
