(* ===== verification/Types_Values.thy ===== *)
theory Types_Values
  imports Go_Lib Errdefs
begin

unbundle bit_operations_syntax

text \<open>
  The value objects of \<open>internal/types\<close>: sizes, guest paths, process handles, content digests
  and the canonical UUIDv4 identities of sandboxes and snapshots.
\<close>

section \<open>Policies and enumerations\<close>

type_synonym DiskIOMode = string
type_synonym VMMType = string
type_synonym MemoryRestoreMode = string
type_synonym ProcessSignal = string

record StopOptions =
  stop_Force :: bool
  stop_Timeout :: duration

definition StopOptions_Validate :: "StopOptions \<Rightarrow> gerr option" where
  "StopOptions_Validate opts = check (stop_Timeout opts < 0) (Msg ''stop timeout must not be negative'')"

definition DiskIOMode_Validate :: "DiskIOMode \<Rightarrow> gerr option" where
  "DiskIOMode_Validate m =
     check (\<not> List.member ['''', ''auto'', ''direct'', ''buffered''] m) (Msg ''invalid disk I/O mode'')"

definition DiskIOMode_DirectIO :: "DiskIOMode \<Rightarrow> bool" where
  "DiskIOMode_DirectIO m \<longleftrightarrow> m \<noteq> ''buffered''"

abbreviation VMMCloudHypervisor :: VMMType where
  "VMMCloudHypervisor \<equiv> ''cloud-hypervisor''"

abbreviation VMMFirecracker :: VMMType where
  "VMMFirecracker \<equiv> ''firecracker''"

definition VMMType_Validate :: "VMMType \<Rightarrow> gerr option" where
  "VMMType_Validate v = check (\<not> List.member [VMMCloudHypervisor, VMMFirecracker] v) (Msg ''unsupported VMM'')"

definition MemoryRestoreMode_Validate :: "MemoryRestoreMode \<Rightarrow> gerr option" where
  "MemoryRestoreMode_Validate m =
     check (\<not> List.member ['''', ''auto'', ''copy'', ''ondemand'', ''mmap''] m) (Msg ''invalid memory restore mode'')"

definition ProcessSignal_Validate :: "ProcessSignal \<Rightarrow> gerr option" where
  "ProcessSignal_Validate s =
     check (\<not> List.member [''TERM'', ''KILL'', ''INT'', ''HUP''] s) (Msg ''unsupported process signal'')"

definition ValidateProcessID :: "string \<Rightarrow> gerr option" where
  "ValidateProcessID i = first_error [
     check (length i \<noteq> 32) (Msg ''process ID must be a 32-character hexadecimal handle''),
     check (DecodeString i = None) (Wrap ''invalid process ID: '' (Msg ''encoding/hex''))]"

section \<open>Sizes\<close>

definition byte_units :: "(string \<times> int) list" where
  "byte_units = [('''', 1), (''B'', 1), (''KB'', 2 ^ 10), (''KiB'', 2 ^ 10), (''MB'', 2 ^ 20),
     (''MiB'', 2 ^ 20), (''GB'', 2 ^ 30), (''GiB'', 2 ^ 30), (''TB'', 2 ^ 40), (''TiB'', 2 ^ 40)]"

definition ParseByteSize :: "string \<Rightarrow> gerr + int" where
  "ParseByteSize s =
     (if s = [] then Inl (Msg ''size must not be empty'')
      else let ds = takeWhile is_digit s in
        if ds = [] then Inl (Msg ''invalid size'')
        else if max_int64 < int (digits_value ds) then Inl (Wrap ''invalid size: '' (Msg ''value out of range''))
        else let number = int (digits_value ds) in
          (case map_of byte_units (drop (length ds) s) of
             None \<Rightarrow> Inl (Msg ''invalid or overflowing size'')
           | Some multiplier \<Rightarrow>
               if number = 0 \<or> max_int64 div multiplier < number
               then Inl (Msg ''invalid or overflowing size'')
               else Inr (number * multiplier)))"

section \<open>Guest paths and file options\<close>

record FileWriteOptions =
  fw_Mode :: "nat option"
  fw_Parents :: bool

definition FileWriteOptions_Validate :: "FileWriteOptions \<Rightarrow> gerr option" where
  "FileWriteOptions_Validate opts = (case fw_Mode opts of None \<Rightarrow> None
     | Some m \<Rightarrow> check (511 < m) (Msg ''file mode must contain only permission bits (0000..0777)''))"

definition ValidateGuestPath :: "string \<Rightarrow> bool \<Rightarrow> gerr option" where
  "ValidateGuestPath v destructive = first_error [
     check (v = [] \<or> 4096 < length v \<or> ContainsAny v [CHR 0x00, CHR 0x0D, CHR 0x0A] \<or> \<not> IsAbs v \<or> Clean v \<noteq> v)
       (Msg ''guest path must be a clean absolute path''),
     check (destructive \<and> v = ''/'') (Msg ''cannot replace, rename or remove the guest root directory'')]"

section \<open>Digests\<close>

record Digest =
  digest_value :: "byte list"

definition Digest_zero :: Digest where
  "Digest_zero = \<lparr>digest_value = replicate 32 0\<rparr>"

definition ParseDigest :: "string \<Rightarrow> gerr + Digest" where
  "ParseDigest v =
     (if \<not> HasPrefix v ''sha256:'' \<or> length v \<noteq> 71 \<or> v \<noteq> ToLower v then Inl (Msg ''invalid sha256 digest'')
      else case DecodeString (TrimPrefix v ''sha256:'') of
        None \<Rightarrow> Inl (Msg ''invalid sha256 digest'')
      | Some decoded \<Rightarrow>
          if length decoded \<noteq> 32 then Inl (Msg ''invalid sha256 digest'')
          else Inr \<lparr>digest_value = decoded\<rparr>)"

definition Digest_String :: "Digest \<Rightarrow> string" where
  "Digest_String d = ''sha256:'' @ EncodeToString (digest_value d)"

definition Digest_Hex :: "Digest \<Rightarrow> string" where
  "Digest_Hex d = EncodeToString (digest_value d)"

definition Digest_IsZero :: "Digest \<Rightarrow> bool" where
  "Digest_IsZero d \<longleftrightarrow> d = Digest_zero"

text \<open>The array type \<open>[32]byte\<close> as a predicate.\<close>

definition wf_digest :: "Digest \<Rightarrow> bool" where
  "wf_digest d \<longleftrightarrow> length (digest_value d) = 32"

section \<open>Sandbox and snapshot identities\<close>

type_synonym SandboxID = string
type_synonym SnapshotID = string

text \<open>\<open>NewSandboxID\<close> with the sixteen bytes its random source returned (\<open>None\<close> when the read
  fails).\<close>

definition NewSandboxID :: "byte list option \<Rightarrow> gerr + SandboxID" where
  "NewSandboxID rnd = (case rnd of None \<Rightarrow> Inl (Wrap ''generate sandbox ID: '' (Msg ''random source''))
   | Some v0 \<Rightarrow>
      let v1 = v0[6 := (v0 ! 6 AND 0x0f) OR 0x40];
          v = v1[8 := (v1 ! 8 AND 0x3f) OR 0x80]
      in Inr (EncodeToString (take 4 v) @ ''-'' @ EncodeToString (take 2 (drop 4 v)) @ ''-''
          @ EncodeToString (take 2 (drop 6 v)) @ ''-'' @ EncodeToString (take 2 (drop 8 v)) @ ''-''
          @ EncodeToString (drop 10 v)))"

definition ParseSandboxID :: "string \<Rightarrow> gerr + SandboxID" where
  "ParseSandboxID v =
     (if length v \<noteq> 36 \<or> v ! 8 \<noteq> CHR ''-'' \<or> v ! 13 \<noteq> CHR ''-'' \<or> v ! 18 \<noteq> CHR ''-'' \<or> v ! 23 \<noteq> CHR ''-''
         \<or> v ! 14 \<noteq> CHR ''4'' then Inl (Msg ''invalid sandbox ID'')
      else let compact = take 8 v @ take 4 (drop 9 v) @ take 4 (drop 14 v) @ take 4 (drop 19 v)
             @ take 12 (drop 24 v) in
        (case DecodeString compact of
           None \<Rightarrow> Inl (Msg ''invalid sandbox ID'')
         | Some decoded \<Rightarrow>
             if length decoded \<noteq> 16 \<or> (decoded ! 8) AND 0xc0 \<noteq> 0x80 then Inl (Msg ''invalid sandbox ID'')
             else if list_ex (\<lambda>c. 65 \<le> cnum c \<and> cnum c \<le> 70) v then Inl (Msg ''invalid sandbox ID'')
             else Inr v))"

definition NewSnapshotID :: "byte list option \<Rightarrow> gerr + SnapshotID" where
  "NewSnapshotID rnd = NewSandboxID rnd"

definition ParseSnapshotID :: "string \<Rightarrow> gerr + SnapshotID" where
  "ParseSnapshotID v = (case ParseSandboxID v of Inl _ \<Rightarrow> Inl (Msg ''invalid snapshot ID'') | Inr _ \<Rightarrow> Inr v)"

definition valid_id :: "string \<Rightarrow> bool" where
  "valid_id v \<longleftrightarrow> (case ParseSandboxID v of Inl _ \<Rightarrow> False | Inr _ \<Rightarrow> True)"

section \<open>Lemmas\<close>

lemma ParseSandboxID_Inr: "ParseSandboxID v = Inr i \<longleftrightarrow> valid_id v \<and> i = v"
  by (auto simp: valid_id_def ParseSandboxID_def Let_def split: option.splits if_splits)

lemma ParseSandboxID_Inl: "ParseSandboxID v = Inl e \<longleftrightarrow> \<not> valid_id v \<and> e = Msg ''invalid sandbox ID''"
  by (auto simp: valid_id_def ParseSandboxID_def Let_def split: option.splits if_splits)

lemma ParseSnapshotID_Inr: "ParseSnapshotID v = Inr i \<longleftrightarrow> valid_id v \<and> i = v"
  by (auto simp: ParseSnapshotID_def valid_id_def split: sum.splits)

lemma ParseSandboxID_valid: "valid_id v \<Longrightarrow> ParseSandboxID v = Inr v"
  by (simp add: ParseSandboxID_Inr)

lemma ParseSnapshotID_valid: "valid_id v \<Longrightarrow> ParseSnapshotID v = Inr v"
  by (simp add: ParseSnapshotID_Inr)

lemma byte_units_pos: "map_of byte_units u = Some m \<Longrightarrow> 0 < m"
  by (auto simp: byte_units_def split: if_splits)

lemma byte_units_no_digit: "map_of byte_units u = Some m \<Longrightarrow> u = [] \<or> \<not> is_digit (hd u)"
  by (auto simp: byte_units_def is_digit_def split: if_splits)

lemma takeWhile_digits_unique:
  assumes "list_all is_digit d" and "u = [] \<or> \<not> is_digit (hd u)"
  shows "takeWhile is_digit (d @ u) = d"
proof (cases u)
  case Nil
  with assms show ?thesis by (simp add: list_all_iff)
next
  case (Cons c cs)
  with assms show ?thesis by (simp add: list_all_iff takeWhile_tail)
qed

lemma lower_char_fix: "lower_char c = c \<longleftrightarrow> \<not> is_upper c"
proof -
  have "char_of (cnum c + 32) \<noteq> c" if "is_upper c"
  proof
    assume "char_of (cnum c + 32) = c"
    then have "cnum (char_of (cnum c + 32)) = cnum c" by simp
    moreover have "cnum c + 32 < 256" using that by (simp add: is_upper_def)
    ultimately show False by (simp only: cnum_char_of)
  qed
  then show ?thesis by (auto simp: lower_char_def)
qed

lemma ToLower_fix: "ToLower s = s \<longleftrightarrow> list_all (\<lambda>c. \<not> is_upper c) s"
  by (induction s) (simp_all add: ToLower_def lower_char_fix)

lemma lower_hex_not_upper: "is_lower_hex c \<Longrightarrow> \<not> is_upper c"
  by (auto simp: is_lower_hex_def is_digit_def is_upper_def)

lemma EncodeToString_not_upper: "list_all (\<lambda>c. \<not> is_upper c) (EncodeToString bs)"
  using EncodeToString_lower [of bs] by (auto simp: list_all_iff lower_hex_not_upper)

lemma Decode_not_upper_lower:
  assumes "DecodeString s = Some bs" and "\<And>c. c \<in> set s \<Longrightarrow> \<not> (65 \<le> cnum c \<and> cnum c \<le> 70)"
  shows "list_all is_lower_hex s"
  using assms DecodeString_chars hex_not_upper_lower by (auto simp: list_all_iff)

lemma ParseDigest_String: "wf_digest d \<Longrightarrow> ParseDigest (Digest_String d) = Inr d"
proof -
  assume wf: "wf_digest d"
  have "ToLower (''sha256:'' @ EncodeToString (digest_value d)) = ''sha256:'' @ EncodeToString (digest_value d)"
    using EncodeToString_not_upper [of "digest_value d"] by (simp add: ToLower_fix is_upper_def)
  then show ?thesis
    using wf HasPrefix_append [of "''sha256:''"] TrimPrefix_append [of "''sha256:''"]
    by (simp add: ParseDigest_def Digest_String_def wf_digest_def del: append_Cons append_Nil)
qed

lemma ParseDigest_Inr:
  assumes "ParseDigest v = Inr d"
  shows "wf_digest d \<and> Digest_String d = v"
proof -
  from assms have pre: "HasPrefix v ''sha256:''" and low: "ToLower v = v"
    and dec: "DecodeString (TrimPrefix v ''sha256:'') = Some (digest_value d)"
    and len: "length (digest_value d) = 32"
    by (auto simp: ParseDigest_def split: if_splits option.splits)
  obtain t where t: "v = ''sha256:'' @ t" using pre by (rule HasPrefixE)
  have trim: "TrimPrefix v ''sha256:'' = t"
    unfolding t by (rule TrimPrefix_append)
  have "list_all (\<lambda>c. \<not> is_upper c) t" using low t by (simp add: ToLower_fix)
  then have "list_all is_lower_hex t"
    using dec trim by (intro Decode_not_upper_lower) (auto simp: list_all_iff is_upper_def)
  then have "EncodeToString (digest_value d) = t" using dec trim by (simp add: Encode_Decode)
  then show ?thesis using len t by (simp add: wf_digest_def Digest_String_def)
qed

lemma ParseDigest_iff: "ParseDigest v = Inr d \<longleftrightarrow> wf_digest d \<and> v = Digest_String d"
  using ParseDigest_Inr ParseDigest_String by blast

lemma Digest_String_inject: "Digest_String d = Digest_String d' \<longleftrightarrow> d = d'"
proof -
  have "x = y" if "EncodeToString x = EncodeToString y" for x y
  proof -
    have "Some x = Some y" unfolding Decode_Encode [symmetric] that ..
    then show ?thesis by simp
  qed
  then show ?thesis by (auto simp: Digest_String_def)
qed

lemma HasPrefix_slash: "HasPrefix v ''/'' \<longleftrightarrow> (\<exists>w. v = CHR ''/'' # w)"
  by (cases v) (auto simp: HasPrefix_def)

lemma Clean_fix_iff:
  assumes "HasPrefix v ''/''"
  shows "Clean v = v \<longleftrightarrow> (\<exists>ps. (\<forall>p \<in> set ps. plain_elem p) \<and> v = ''/'' @ strings_Join ps ''/'')"
proof
  assume fix_v: "Clean v = v"
  let ?ps = "clean_parts True [] (Split v (CHR ''/''))"
  have "\<forall>p \<in> set ?ps. plain_elem p"
    using clean_parts_plain [of "Split v (CHR ''/'')" "[]"] Split_no_sep by force
  moreover have "v = ''/'' @ strings_Join ?ps ''/''"
    using fix_v assms by (simp add: Clean_def Let_def)
  ultimately show "\<exists>ps. (\<forall>p \<in> set ps. plain_elem p) \<and> v = ''/'' @ strings_Join ps ''/''" by blast
next
  assume "\<exists>ps. (\<forall>p \<in> set ps. plain_elem p) \<and> v = ''/'' @ strings_Join ps ''/''"
  then obtain ps where ps: "\<forall>p \<in> set ps. plain_elem p" and v: "v = ''/'' @ strings_Join ps ''/''" by blast
  have "clean_parts True [] (Split v (CHR ''/'')) = ps"
  proof (cases "ps = []")
    case False
    then have "Split (strings_Join ps ''/'') (CHR ''/'') = ps"
      using ps by (intro Split_Join) (auto simp: plain_elem_def)
    then show ?thesis using v ps clean_parts_id [of ps True "[]"] by simp
  qed (simp add: v)
  then show "Clean v = v" using assms v by (simp add: Clean_def Let_def)
qed

lemma uuid_parts:
  assumes "length v = 36"
  shows "v = take 8 v @ [v ! 8] @ take 4 (drop 9 v) @ [v ! 13] @ take 4 (drop 14 v) @ [v ! 18]
    @ take 4 (drop 19 v) @ [v ! 23] @ take 12 (drop 24 v)"
proof -
  have step: "drop n v = take m (drop n v) @ [v ! (n + m)] @ drop (Suc (n + m)) v" if "n + m < 36" for n m
    using that assms by (metis Cons_nth_drop_Suc add.commute append_Cons append_Nil append_take_drop_id drop_drop)
  have "drop 24 v = take 12 (drop 24 v)" using assms by simp
  then show ?thesis using step [of 0 8] step [of 9 4] step [of 14 4] step [of 19 4] by simp
qed

lemma valid_id_chars:
  assumes "valid_id v"
  shows "length v = 36 \<and> list_all (\<lambda>c. is_lower_hex c \<or> c = CHR ''-'') v"
proof -
  let ?compact = "take 8 v @ take 4 (drop 9 v) @ take 4 (drop 14 v) @ take 4 (drop 19 v) @ take 12 (drop 24 v)"
  from assms obtain bs where len: "length v = 36" and dec: "DecodeString ?compact = Some bs"
    and dash: "v ! 8 = CHR ''-''" "v ! 13 = CHR ''-''" "v ! 18 = CHR ''-''" "v ! 23 = CHR ''-''"
    and up: "\<not> list_ex (\<lambda>c. 65 \<le> cnum c \<and> cnum c \<le> 70) v"
    by (auto simp: valid_id_def ParseSandboxID_def Let_def split: if_splits option.splits)
  have sub: "c \<in> set v" if "c \<in> set ?compact" for c
    using that by (auto dest!: in_set_takeD in_set_dropD)
  have "list_all is_lower_hex ?compact"
    using dec by (rule Decode_not_upper_lower) (use sub up in \<open>auto simp: list_ex_iff\<close>)
  then have "list_all (\<lambda>c. is_lower_hex c \<or> c = CHR ''-'') v"
    by (subst uuid_parts [OF len]) (simp add: dash list_all_iff)
  with len show ?thesis by simp
qed

lemma uuid_version_nibble: "unat (((b::byte) AND 0x0f) OR 0x40) div 16 = 4"
proof -
  have "drop_bit 4 ((b AND 0x0f) OR 0x40) = (4::byte)"
    by (rule bit_word_eqI) (auto simp: bit_simps numeral_eq_Suc less_Suc_eq)
  then have "unat (drop_bit 4 ((b AND 0x0f) OR 0x40)) = 4" by simp
  then show ?thesis by (simp add: drop_bit_eq_div unat_div_distrib)
qed

lemma uuid_variant_bits: "(((b::byte) AND 0x3f) OR 0x80) AND 0xc0 = 0x80"
  by (rule bit_word_eqI) (auto simp: bit_simps numeral_eq_Suc less_Suc_eq)

lemma no_upper_hex: "c \<in> set (EncodeToString bs) \<Longrightarrow> \<not> (65 \<le> cnum c \<and> cnum c \<le> 70)"
  using EncodeToString_not_upper [of bs] by (auto simp: list_all_iff is_upper_def)

lemma valid_id_uuid:
  assumes "length a = 4" "length b = 2" "length d = 2" "length f = 2" "length g = 6"
    and "unat (d ! 0) div 16 = 4" and "f ! 0 AND 0xc0 = 0x80"
  shows "valid_id (EncodeToString a @ ''-'' @ EncodeToString b @ ''-'' @ EncodeToString d @ ''-''
      @ EncodeToString f @ ''-'' @ EncodeToString g)" (is "valid_id ?v")
proof -
  obtain d0 d1 where d: "d = [d0, d1]" using assms(3) by (auto simp: length_Suc_conv numeral_2_eq_2)
  have v14: "?v ! 14 = CHR ''4''"
    using assms(1,2,6) by (simp add: nth_append d EncodeToString_Cons hex_byte_def hex_char_def digit_chars)
  have dash: "?v ! 8 = CHR ''-''" "?v ! 13 = CHR ''-''" "?v ! 18 = CHR ''-''" "?v ! 23 = CHR ''-''"
    using assms(1-5) by (simp_all add: nth_append)
  have compact: "take 8 ?v @ take 4 (drop 9 ?v) @ take 4 (drop 14 ?v) @ take 4 (drop 19 ?v)
      @ take 12 (drop 24 ?v) = EncodeToString (a @ b @ d @ f @ g)"
    using assms(1-5) by (simp add: EncodeToString_append)
  have up: "\<not> list_ex (\<lambda>c. 65 \<le> cnum c \<and> cnum c \<le> 70) ?v"
    using no_upper_hex by (auto simp: list_ex_iff)
  have "length ?v = 36" "(a @ b @ d @ f @ g) ! 8 = f ! 0"
    using assms(1-5) by (simp_all add: nth_append)
  with v14 dash up assms show ?thesis
    unfolding valid_id_def ParseSandboxID_def Let_def compact by simp
qed

lemma NewSandboxID_valid:
  assumes "length bs = 16" 
  shows "\<exists>i. NewSandboxID (Some bs) = Inr i \<and> valid_id i"
proof -
  let ?v = "(bs[6 := (bs ! 6 AND 0x0f) OR 0x40])[8 := (bs ! 8 AND 0x3f) OR 0x80]"
  have "valid_id (EncodeToString (take 4 ?v) @ ''-'' @ EncodeToString (take 2 (drop 4 ?v)) @ ''-''
      @ EncodeToString (take 2 (drop 6 ?v)) @ ''-'' @ EncodeToString (take 2 (drop 8 ?v)) @ ''-''
      @ EncodeToString (drop 10 ?v))"
    using assms uuid_version_nibble [of "bs ! 6"] uuid_variant_bits [of "bs ! 8"]
    by (intro valid_id_uuid) simp_all
  moreover have "bs[6 := (bs ! 6 AND 0x0f) OR 0x40] ! 8 = bs ! 8" by simp
  ultimately show ?thesis by (simp add: NewSandboxID_def Let_def)
qed
section \<open>Properties\<close>

text \<open>
   \<open>ParseByteSize\<close> accepts exactly a non-empty run of decimal digits followed by one of the
  listed unit suffixes whose product is positive and fits \<open>int64\<close>, and returns that product: the
  overflow test by division is exact.
\<close>

theorem ParseByteSize_correct:
  "ParseByteSize v = Inr n \<longleftrightarrow>
     (\<exists>ds u m. v = ds @ u \<and> ds \<noteq> [] \<and> list_all is_digit ds \<and> map_of byte_units u = Some m
        \<and> n = int (digits_value ds) * m \<and> 0 < n \<and> n \<le> max_int64)"
proof -
  have div_test: "(max_int64 div m < k) = (max_int64 < k * m)" if "0 < m" for m k :: int
  proof -
    have "(k \<le> max_int64 div m) = (k * m \<le> max_int64)"
      using that zdiv_mono1 [of "k * m" max_int64 m] mult_right_mono [of k "max_int64 div m" m]
      by (auto simp: pos_mod_sign minus_mod_eq_div_mult [symmetric] intro: order_trans)
    then show ?thesis by linarith
  qed
  show ?thesis
  proof
    assume v: "ParseByteSize v = Inr n"
    let ?ds = "takeWhile is_digit v"
    from v obtain m where "map_of byte_units (drop (length ?ds) v) = Some m" "?ds \<noteq> []"
      "n = int (digits_value ?ds) * m" "\<not> max_int64 div m < int (digits_value ?ds)" "digits_value ?ds \<noteq> 0"
      by (auto simp: ParseByteSize_def Let_def split: if_splits option.splits)
    moreover have "v = ?ds @ drop (length ?ds) v" by (metis append_take_drop_id takeWhile_eq_take length_takeWhile_le min.absorb2 takeWhile_dropWhile_id dropWhile_eq_drop)
    moreover have "list_all is_digit ?ds" by (auto simp: list_all_iff dest: set_takeWhileD)
    ultimately show "\<exists>ds u m. v = ds @ u \<and> ds \<noteq> [] \<and> list_all is_digit ds \<and> map_of byte_units u = Some m
        \<and> n = int (digits_value ds) * m \<and> 0 < n \<and> n \<le> max_int64"
      using byte_units_pos div_test by (metis linorder_not_less mult_pos_pos of_nat_0_less_iff neq0_conv)
  next
    assume "\<exists>ds u m. v = ds @ u \<and> ds \<noteq> [] \<and> list_all is_digit ds \<and> map_of byte_units u = Some m
        \<and> n = int (digits_value ds) * m \<and> 0 < n \<and> n \<le> max_int64"
    then obtain ds u m where v: "v = ds @ u" and ds: "ds \<noteq> []" "list_all is_digit ds"
      and m: "map_of byte_units u = Some m" and n: "n = int (digits_value ds) * m" "0 < n" "n \<le> max_int64"
      by blast
    have "0 < m" using m by (rule byte_units_pos)
    moreover have "takeWhile is_digit v = ds"
      unfolding v using ds(2) byte_units_no_digit [OF m] by (rule takeWhile_digits_unique)
    moreover have "digits_value ds \<noteq> 0" using n by (cases "digits_value ds") auto
    moreover have "int (digits_value ds) \<le> max_int64"
      using n \<open>0 < m\<close> mult_left_mono [of 1 m "int (digits_value ds)"] by simp
    ultimately show "ParseByteSize v = Inr n"
      using ds m n div_test [of m "int (digits_value ds)"] by (simp add: ParseByteSize_def v Let_def)
  qed
qed

text \<open>
   The text form of a digest is a bijection between 32-byte digests and the texts that
  \<open>ParseDigest\<close> accepts: parsing inverts printing, and printing a parsed digest gives back the text.
\<close>

theorem ParseDigest_roundtrip:
  "ParseDigest v = Inr d \<longleftrightarrow> wf_digest d \<and> v = Digest_String d"
  by (rule ParseDigest_iff)

text \<open>
   Whatever sixteen bytes the random source returns, \<open>NewSandboxID\<close> builds an identity that
  \<open>ParseSandboxID\<close> and \<open>ParseSnapshotID\<close> accept unchanged; and every accepted identity is 36 characters of
  lower-case hexadecimal and hyphens, so it is one path element.
\<close>

theorem NewSandboxID_accepted:
  assumes "length bs = 16"
  shows "\<exists>i. NewSandboxID (Some bs) = Inr i \<and> ParseSandboxID i = Inr i \<and> ParseSnapshotID i = Inr i
    \<and> length i = 36 \<and> plain_elem i"
proof -
  obtain i where i: "NewSandboxID (Some bs) = Inr i" "valid_id i"
    using NewSandboxID_valid [OF assms] by blast
  from valid_id_chars [OF i(2)] have "length i = 36" "plain_elem i"
    by (auto simp: plain_elem_def list_all_iff is_lower_hex_def is_digit_def)
  with i show ?thesis by (simp add: ParseSandboxID_valid ParseSnapshotID_valid)
qed

theorem NewSandboxID_accepted_witness:
  "\<exists>i. NewSandboxID (Some (replicate 16 0)) = Inr i \<and> ParseSandboxID i = Inr i"
  using NewSandboxID_accepted [of "replicate 16 0"] by auto

text \<open>
   \<open>ValidateGuestPath\<close> accepts exactly the absolute paths of plain elements (none empty, \<open>.\<close> or \<open>..\<close>)
  that are at most 4096 bytes and have no NUL or line break; for a destructive operation there is
  at least one element, so the guest root is never its target.
\<close>

theorem ValidateGuestPath_iff:
  "ValidateGuestPath v destructive = None \<longleftrightarrow>
     (\<exists>ps. (\<forall>p \<in> set ps. plain_elem p) \<and> v = ''/'' @ strings_Join ps ''/'' \<and> (destructive \<longrightarrow> ps \<noteq> []))
     \<and> length v \<le> 4096 \<and> set v \<inter> {CHR 0x00, CHR 0x0D, CHR 0x0A} = {}"
proof -
  have root: "strings_Join ps ''/'' \<noteq> []" if "ps \<noteq> []" "\<forall>p \<in> set ps. plain_elem p" for ps
    using that by (cases ps rule: remdups_adj.cases) (auto simp: plain_elem_def)
  have eq: "(\<exists>ps. (\<forall>p \<in> set ps. plain_elem p) \<and> v = ''/'' @ strings_Join ps ''/'' \<and> (destructive \<longrightarrow> ps \<noteq> []))
      \<longleftrightarrow> HasPrefix v ''/'' \<and> Clean v = v \<and> \<not> (destructive \<and> v = ''/'')" (is "?L \<longleftrightarrow> ?R")
  proof
    assume ?L
    then have "HasPrefix v ''/''" by (auto simp: HasPrefix_def)
    then show ?R using \<open>?L\<close> root by (auto simp: Clean_fix_iff)
  next
    assume R: ?R
    then obtain ps where "\<forall>p \<in> set ps. plain_elem p" "v = ''/'' @ strings_Join ps ''/''"
      using Clean_fix_iff [of v] by blast
    moreover from this R have "destructive \<longrightarrow> ps \<noteq> []" by auto
    ultimately show ?L by blast
  qed
  have "ValidateGuestPath v destructive = None \<longleftrightarrow>
      (HasPrefix v ''/'' \<and> Clean v = v \<and> \<not> (destructive \<and> v = ''/''))
      \<and> length v \<le> 4096 \<and> set v \<inter> {CHR 0x00, CHR 0x0D, CHR 0x0A} = {}"
    by (auto simp: ValidateGuestPath_def IsAbs_def ContainsAny_iff HasPrefix_def not_less)
  then show ?thesis unfolding eq .
qed

theorem ValidateGuestPath_iff_witness:
  "ValidateGuestPath ''/srv/data'' True = None"
proof -
  have "\<exists>ps. (\<forall>p \<in> set ps. plain_elem p) \<and> ''/srv/data'' = ''/'' @ strings_Join ps ''/'' \<and> (True \<longrightarrow> ps \<noteq> [])"
    by (rule exI [of _ "[''srv'', ''data'']"]) (simp add: plain_elem_def)
  then show ?thesis using ValidateGuestPath_iff [of "''/srv/data''" True] by simp
qed

end
