(* ===== verification/Types_Resources.thy ===== *)
theory Types_Resources
  imports Types_Values
begin

text \<open>
  Host CPU policy (\<open>internal/types/resources.go\<close>): the resolution of scheduling defaults and the
  interval arithmetic on Linux CPU lists.
\<close>

section \<open>Model\<close>

record CPUPolicy =
  pol_Weight :: "32 word"
  pol_QuotaUS :: int
  pol_PeriodUS :: int
  pol_BurstUS :: int
  pol_CPUSet :: string

record cpuRange =
  cr_first :: nat
  cr_last :: nat

text \<open>One element of a CPU list: a number or an interval \<open>lo-hi\<close>.\<close>

definition cpuRange_part :: "string \<Rightarrow> gerr + cpuRange" where
  "cpuRange_part part = (case Cut part ''-'' of (lo, hi, interval) \<Rightarrow>
     (case ParseUint lo 32 of None \<Rightarrow> Inl (Msg ''invalid CPU list'')
      | Some first \<Rightarrow>
          if interval then
            (case ParseUint hi 32 of None \<Rightarrow> Inl (Msg ''invalid CPU list'')
             | Some last' \<Rightarrow> if last' < first then Inl (Msg ''invalid CPU list'')
                 else Inr \<lparr>cr_first = first, cr_last = last'\<rparr>)
          else Inr \<lparr>cr_first = first, cr_last = first\<rparr>))"

text \<open>The merge loop; the first argument is \<open>merged\<close>, last element first.\<close>

fun merge_ranges :: "cpuRange list \<Rightarrow> cpuRange list \<Rightarrow> cpuRange list" where
  "merge_ranges merged [] = rev merged"
| "merge_ranges [] (n # ns) = merge_ranges [n] ns"
| "merge_ranges (m # ms) (n # ns) =
     (if cr_first n \<le> cr_last m + 1
      then merge_ranges (m\<lparr>cr_last := max (cr_last m) (cr_last n)\<rparr> # ms) ns
      else merge_ranges (n # m # ms) ns)"

definition cpuRanges :: "string \<Rightarrow> gerr + cpuRange list" where
  "cpuRanges v = (if v = [] then Inr []
     else bindE (mapE cpuRange_part (Split v (CHR '','')))
       (\<lambda>ranges. Inr (merge_ranges [] (sort_key cr_first ranges))))"

text \<open>The scan of \<open>CPUSetContains\<close>; the first argument is \<open>granted[index:]\<close>.\<close>

fun contains_loop :: "cpuRange list \<Rightarrow> cpuRange list \<Rightarrow> bool" where
  "contains_loop granted [] = True"
| "contains_loop granted (w # ws) =
     (case dropWhile (\<lambda>g. cr_last g < cr_first w) granted of
        [] \<Rightarrow> False
      | g # gs \<Rightarrow> if cr_first w < cr_first g \<or> cr_last g < cr_last w then False
          else contains_loop (g # gs) ws)"

definition CPUSetContains :: "string \<Rightarrow> string \<Rightarrow> gerr + bool" where
  "CPUSetContains available requested =
     bindE (cpuRanges available) (\<lambda>granted.
     bindE (cpuRanges requested) (\<lambda>wanted. Inr (contains_loop granted wanted)))"

definition CPUPolicy_Resolve :: "CPUPolicy \<Rightarrow> 32 word \<Rightarrow> gerr + CPUPolicy" where
  "CPUPolicy_Resolve p0 cpus =
     (if cpus = 0 then Inl (Msg ''CPU count must be positive'')
      else
        let p1 = (if pol_Weight p0 = 0 then p0\<lparr>pol_Weight := min cpus 10000\<rparr> else p0);
            p2 = (if pol_PeriodUS p1 = 0 then p1\<lparr>pol_PeriodUS := 100000\<rparr> else p1)
        in if 10000 < pol_Weight p2 \<or> pol_PeriodUS p2 < 1000 \<or> 1000000 < pol_PeriodUS p2
           then Inl (Msg ''cpu-weight must be 1..10000 and cpu-period-us must be 1000..1000000'')
           else
             let p3 = (if pol_QuotaUS p2 = 0 then p2\<lparr>pol_QuotaUS := int (unat cpus) * pol_PeriodUS p2\<rparr> else p2);
                 p = (if pol_BurstUS p3 = 0 then p3\<lparr>pol_BurstUS := pol_QuotaUS p3\<rparr> else p3)
             in if pol_QuotaUS p < 1000 \<or> pol_BurstUS p < - 1 \<or> pol_QuotaUS p < pol_BurstUS p
                then Inl (Msg ''cpu-quota-us must be at least 1000'')
                else case cpuRanges (pol_CPUSet p) of
                  Inl e \<Rightarrow> Inl (Wrap ''cpuset-cpus: '' e)
                | Inr _ \<Rightarrow> Inr p)"

section \<open>The CPUs a list denotes\<close>

definition range_set :: "cpuRange \<Rightarrow> nat set" where
  "range_set r = {cr_first r .. cr_last r}"

definition ranges_set :: "cpuRange list \<Rightarrow> nat set" where
  "ranges_set rs = (\<Union>r \<in> set rs. range_set r)"

text \<open>The specification: the union of the numbers and intervals written in the text, before any
  sorting or merging.\<close>

definition cpu_list_set :: "string \<Rightarrow> nat set" where
  "cpu_list_set v = (if v = [] then {} else
     (\<Union>p \<in> set (Split v (CHR '','')). case cpuRange_part p of Inl _ \<Rightarrow> {} | Inr r \<Rightarrow> range_set r))"

text \<open>Normal form: non-empty intervals in increasing order with at least one CPU between them.\<close>

fun gapped :: "cpuRange list \<Rightarrow> bool" where
  "gapped [] \<longleftrightarrow> True"
| "gapped [r] \<longleftrightarrow> cr_first r \<le> cr_last r"
| "gapped (a # b # rs) \<longleftrightarrow> cr_first a \<le> cr_last a \<and> cr_last a + 1 < cr_first b \<and> gapped (b # rs)"

lemma ranges_set_simps [simp]: "ranges_set [] = {}" "ranges_set (r # rs) = range_set r \<union> ranges_set rs"
  "ranges_set (rs @ ss) = ranges_set rs \<union> ranges_set ss" "ranges_set (rev rs) = ranges_set rs"
  by (auto simp: ranges_set_def)

lemma gapped_tl: "gapped (r # rs) \<Longrightarrow> gapped rs"
  by (cases rs) auto

lemma gapped_hd: "gapped (r # rs) \<Longrightarrow> cr_first r \<le> cr_last r"
  by (cases rs) auto

lemma gapped_above: "gapped (r # rs) \<Longrightarrow> x \<in> ranges_set rs \<Longrightarrow> cr_last r + 1 < x"
proof (induction rs arbitrary: r)
  case (Cons s ss)
  from Cons.prems(1) have rs: "cr_last r + 1 < cr_first s" "gapped (s # ss)" by auto
  show ?case
  proof (cases "x \<in> range_set s")
    case False
    then have "cr_last s + 1 < x" using Cons.IH [of s] Cons.prems(2) rs(2) by auto
    then show ?thesis using rs gapped_hd [of s ss] by simp
  qed (use rs(1) in \<open>auto simp: range_set_def\<close>)
qed simp

lemma gapped_last: "gapped (xs @ [m]) \<Longrightarrow> cr_first m \<le> cr_last m"
  by (induction xs rule: induct_list012) auto

lemma gapped_ge: "gapped (r # rs) \<Longrightarrow> x \<in> ranges_set (r # rs) \<Longrightarrow> cr_first r \<le> x"
  using gapped_hd [of r rs] gapped_above [of r rs x] by (auto simp: range_set_def)

lemma gapped_snoc:
  "gapped (xs @ [m]) \<Longrightarrow> cr_last m + 1 < cr_first n \<Longrightarrow> cr_first n \<le> cr_last n \<Longrightarrow> gapped (xs @ [m, n])"
  by (induction xs rule: induct_list012) (auto split: list.splits)

lemma gapped_snoc_last:
  "gapped (xs @ [m]) \<Longrightarrow> cr_first m' = cr_first m \<Longrightarrow> cr_last m \<le> cr_last m' \<Longrightarrow> gapped (xs @ [m'])"
  by (induction xs rule: induct_list012) auto

lemma merge_ranges_correct:
  assumes "gapped (rev ms)" and "sorted (map cr_first ns)"
    and "\<And>n. n \<in> set ns \<Longrightarrow> cr_first n \<le> cr_last n"
    and "\<And>m n. ms \<noteq> [] \<Longrightarrow> n \<in> set ns \<Longrightarrow> cr_first (hd ms) \<le> cr_first n"
  shows "gapped (merge_ranges ms ns) \<and> ranges_set (merge_ranges ms ns) = ranges_set ms \<union> ranges_set ns"
  using assms
proof (induction ms ns rule: merge_ranges.induct)
  case (1 merged)
  then show ?case by simp
next
  case (2 n ns)
  then show ?case by simp
next
  case (3 m ms n ns)
  show ?case
  proof (cases "cr_first n \<le> cr_last m + 1")
    case True
    let ?m = "m\<lparr>cr_last := max (cr_last m) (cr_last n)\<rparr>"
    have "gapped (rev ms @ [?m])" using 3(3) gapped_snoc_last [of "rev ms" m ?m] by simp
    moreover have "range_set ?m = range_set m \<union> range_set n"
    proof -
      have "cr_first m \<le> cr_last m" using 3(3) gapped_last [of "rev ms" m] by simp
      moreover have "cr_first n \<le> cr_last n" by (rule 3(5)) simp
      moreover have "cr_first m \<le> cr_first n" using 3(6) [of n] by simp
      ultimately show ?thesis using True by (auto simp: range_set_def max_def)
    qed
    moreover have "gapped (merge_ranges (?m # ms) ns) \<and>
        ranges_set (merge_ranges (?m # ms) ns) = ranges_set (?m # ms) \<union> ranges_set ns"
      using calculation(1) 3(4-6) by (intro 3(1) [OF True]) simp_all
    ultimately show ?thesis using True by (simp add: Un_ac)
  next
    case False
    then have "gapped (rev (n # m # ms))"
      using gapped_snoc [of "rev ms" m n] 3(3,5) by auto
    then have "gapped (merge_ranges (n # m # ms) ns) \<and>
        ranges_set (merge_ranges (n # m # ms) ns) = ranges_set (n # m # ms) \<union> ranges_set ns"
      using 3(4-6) by (intro 3(2) [OF False]) simp_all
    then show ?thesis using False by (simp add: Un_ac)
  qed
qed

lemma cpuRange_part_wf: "cpuRange_part p = Inr r \<Longrightarrow> cr_first r \<le> cr_last r"
  by (auto simp: cpuRange_part_def split: prod.splits option.splits if_splits)

lemma cpuRanges_correct:
  assumes "cpuRanges v = Inr rs"
  shows "gapped rs \<and> ranges_set rs = cpu_list_set v"
proof (cases "v = []")
  case True
  with assms show ?thesis by (simp add: cpuRanges_def cpu_list_set_def)
next
  case False
  with assms obtain ps where ps: "mapE cpuRange_part (Split v (CHR '','')) = Inr ps"
    and rs: "rs = merge_ranges [] (sort_key cr_first ps)"
    by (auto simp: cpuRanges_def bindE_Inr_iff)
  have wf: "cr_first r \<le> cr_last r" if "r \<in> set ps" for r
    using mapE_Inr_set [OF ps that] cpuRange_part_wf by blast
  have "ranges_set ps = cpu_list_set v"
  proof -
    have sub: "(case cpuRange_part p of Inl _ \<Rightarrow> {} | Inr r \<Rightarrow> range_set r) \<subseteq> ranges_set ps"
      if "p \<in> set (Split v (CHR '',''))" for p
      using mapE_Inr_all [OF ps that] by (auto simp: ranges_set_def)
    have "cpu_list_set v \<subseteq> ranges_set ps"
      using sub False unfolding cpu_list_set_def by (simp add: UN_least)
    have "range_set r \<subseteq> cpu_list_set v" if "r \<in> set ps" for r
      using mapE_Inr_set [OF ps that] False by (force simp: cpu_list_set_def)
    then have "ranges_set ps \<subseteq> cpu_list_set v" unfolding ranges_set_def by blast
    with \<open>cpu_list_set v \<subseteq> ranges_set ps\<close> show ?thesis by (rule subset_antisym [rotated])
  qed
  moreover have "ranges_set (sort_key cr_first ps) = ranges_set ps" by (simp add: ranges_set_def)
  moreover have "gapped rs \<and> ranges_set rs = ranges_set [] \<union> ranges_set (sort_key cr_first ps)"
    unfolding rs using wf by (intro merge_ranges_correct) auto
  ultimately show ?thesis by simp
qed

lemma gapped_sorted: "gapped rs \<Longrightarrow> r \<in> set rs \<Longrightarrow> cr_first r \<le> cr_last r"
  by (induction rs rule: gapped.induct) auto

lemma gapped_dropWhile: "gapped rs \<Longrightarrow> gapped (dropWhile P rs)"
  by (induction rs) (auto dest: gapped_tl)

lemma ranges_dropWhile:
  "f \<le> x \<Longrightarrow> x \<in> ranges_set (dropWhile (\<lambda>g. cr_last g < f) rs) \<longleftrightarrow> x \<in> ranges_set rs"
  by (induction rs) (auto simp: range_set_def)

lemma range_in_gapped:
  assumes "gapped (g # gs)" and "cr_first w \<le> cr_last w" and "cr_first w \<le> cr_last g"
  shows "range_set w \<subseteq> ranges_set (g # gs) \<longleftrightarrow> cr_first g \<le> cr_first w \<and> cr_last w \<le> cr_last g"
proof
  assume sub: "range_set w \<subseteq> ranges_set (g # gs)"
  have above: "x \<notin> ranges_set gs" if "x \<le> cr_last g + 1" for x
    using gapped_above [OF assms(1), of x] that by auto
  have "cr_first w \<in> range_set w" using assms(2) by (simp add: range_set_def)
  then have "cr_first g \<le> cr_first w" using sub gapped_ge [OF assms(1)] by blast
  moreover have "cr_last w \<le> cr_last g"
  proof (rule ccontr)
    assume "\<not> cr_last w \<le> cr_last g"
    then have "cr_last g + 1 \<in> range_set w" using assms(3) by (simp add: range_set_def)
    then show False using sub above [of "cr_last g + 1"] by (auto simp: range_set_def)
  qed
  ultimately show "cr_first g \<le> cr_first w \<and> cr_last w \<le> cr_last g" ..
qed (auto simp: range_set_def)

lemma contains_loop_correct:
  assumes "gapped gs" and "gapped ws"
  shows "contains_loop gs ws \<longleftrightarrow> ranges_set ws \<subseteq> ranges_set gs"
  using assms
proof (induction ws arbitrary: gs)
  case (Cons w ws)
  let ?d = "dropWhile (\<lambda>g. cr_last g < cr_first w) gs"
  have w: "cr_first w \<le> cr_last w" using Cons.prems(2) by (rule gapped_hd)
  have "ranges_set (w # ws) \<subseteq> ranges_set gs \<longleftrightarrow> ranges_set (w # ws) \<subseteq> ranges_set ?d"
    using gapped_ge [OF Cons.prems(2)] ranges_dropWhile [of "cr_first w"] by (meson subset_iff)
  moreover have "contains_loop gs (w # ws) \<longleftrightarrow> ranges_set (w # ws) \<subseteq> ranges_set ?d"
  proof (cases ?d)
    case Nil
    then show ?thesis unfolding contains_loop.simps Nil using w by (auto simp: range_set_def)
  next
    case (Cons g ds)
    have gd: "gapped (g # ds)" using gapped_dropWhile [OF Cons.prems(1)] Cons by metis
    have "cr_first w \<le> cr_last g" using Cons by (metis dropWhile_eq_Cons_conv not_le)
    then show ?thesis
      unfolding contains_loop.simps Cons
      using range_in_gapped [OF gd w] Cons.IH [OF gd gapped_tl [OF Cons.prems(2)]]
      by (simp add: not_less)
  qed
  ultimately show ?case by simp
qed simp

lemma min_cpus_weight: "(cpus :: 32 word) \<noteq> 0 \<Longrightarrow> min cpus 10000 \<noteq> 0 \<and> min cpus 10000 \<le> 10000"
  by (simp add: min_def)

lemma Resolve_Inr:
  assumes "CPUPolicy_Resolve p cpus = Inr r"
  shows "cpus \<noteq> 0 \<and> pol_Weight r \<noteq> 0 \<and> pol_Weight r \<le> 10000 \<and> 1000 \<le> pol_PeriodUS r
    \<and> pol_PeriodUS r \<le> 1000000 \<and> 1000 \<le> pol_QuotaUS r \<and> - 1 \<le> pol_BurstUS r \<and> pol_BurstUS r \<noteq> 0
    \<and> pol_BurstUS r \<le> pol_QuotaUS r
    \<and> pol_QuotaUS r = (if pol_QuotaUS p = 0 then int (unat cpus) * pol_PeriodUS r else pol_QuotaUS p)
    \<and> pol_CPUSet r = pol_CPUSet p \<and> (\<exists>rs. cpuRanges (pol_CPUSet r) = Inr rs)"
  using assms min_cpus_weight [of cpus]
  by (auto simp: CPUPolicy_Resolve_def Let_def not_less split: if_splits sum.splits)

section \<open>Properties\<close>

text \<open>
    \<open>cpuRanges\<close> normalises: the intervals it returns are non-empty, in increasing order, separated
  by at least one CPU, and denote exactly the CPUs written in the list.
\<close>

theorem cpuRanges_normalises:
  assumes "cpuRanges v = Inr rs"
  shows "gapped rs \<and> ranges_set rs = cpu_list_set v"
  using assms by (rule cpuRanges_correct)

theorem cpuRanges_normalises_witness:
  "gapped [\<lparr>cr_first = 0, cr_last = 3\<rparr>, \<lparr>cr_first = 6, cr_last = 6\<rparr>]
   \<and> ranges_set [\<lparr>cr_first = 0, cr_last = 3\<rparr>, \<lparr>cr_first = 6, cr_last = 6\<rparr>] = cpu_list_set ''6,2-3,0-1''"
  by (rule cpuRanges_normalises)
    (simp add: cpuRanges_def cpuRange_part_def HasPrefix_def ParseUint_def is_digit_def digits_value_def)

text \<open>
   C40. \<open>CPUSetContains\<close> decides inclusion: whenever both lists parse, its single pass over the two
  interval lists answers whether every requested CPU is granted.
\<close>

theorem CPUSetContains_correct:
  assumes "CPUSetContains available requested = Inr b"
  shows "b \<longleftrightarrow> cpu_list_set requested \<subseteq> cpu_list_set available"
proof -
  from assms obtain gs ws where "cpuRanges available = Inr gs" "cpuRanges requested = Inr ws"
    and b: "b = contains_loop gs ws"
    by (auto simp: CPUSetContains_def bindE_Inr_iff)
  then have "gapped gs" "ranges_set gs = cpu_list_set available"
    and "gapped ws" "ranges_set ws = cpu_list_set requested"
    using cpuRanges_correct by auto
  then show ?thesis using b contains_loop_correct by simp
qed

theorem CPUSetContains_correct_witness:
  "cpu_list_set ''1-2,6'' \<subseteq> cpu_list_set ''6,2-3,0-1''"
proof -
  have "CPUSetContains ''6,2-3,0-1'' ''1-2,6'' = Inr True"
    by (simp add: CPUSetContains_def cpuRanges_def cpuRange_part_def HasPrefix_def ParseUint_def
        is_digit_def digits_value_def)
  from CPUSetContains_correct [OF this] show ?thesis by simp
qed

text \<open>
   A resolved CPU policy is complete and within the kernel's ranges, the derived quota does not
  overflow \<open>int64\<close>, and resolving it again changes nothing.
\<close>

theorem CPUPolicy_Resolve_idempotent:
  assumes "CPUPolicy_Resolve p cpus = Inr r" and "pol_QuotaUS p \<le> max_int64"
  shows "CPUPolicy_Resolve r cpus = Inr r \<and> 1 \<le> unat (pol_Weight r) \<and> unat (pol_Weight r) \<le> 10000
    \<and> 1000 \<le> pol_PeriodUS r \<and> pol_PeriodUS r \<le> 1000000
    \<and> 1000 \<le> pol_QuotaUS r \<and> pol_QuotaUS r \<le> max_int64
    \<and> (pol_BurstUS r = - 1 \<or> 0 < pol_BurstUS r) \<and> pol_BurstUS r \<le> pol_QuotaUS r"
proof -
  note r = Resolve_Inr [OF assms(1)]
  from r obtain rs where rs: "cpuRanges (pol_CPUSet r) = Inr rs" by blast
  have "CPUPolicy_Resolve r cpus = Inr r"
    using r rs by (simp add: CPUPolicy_Resolve_def Let_def linorder_not_less)
  moreover have "pol_QuotaUS r \<le> max_int64"
  proof (cases "pol_QuotaUS p = 0")
    case True
    have "int (unat cpus) * pol_PeriodUS r \<le> 2 ^ 32 * 1000000"
      using r unsigned_less [of cpus, where ?'a = int] by (intro mult_mono) simp_all
    with True r show ?thesis by (simp add: max_int64_def)
  qed (use r assms in simp)
  moreover have "0 < unat (pol_Weight r)" using r by (simp add: unat_gt_0)
  moreover have "pol_BurstUS r = - 1 \<or> 0 < pol_BurstUS r" using r by linarith
  moreover have "unat (pol_Weight r) \<le> 10000" using r by (simp add: word_le_nat_alt)
  ultimately show ?thesis using r by simp
qed

theorem CPUPolicy_Resolve_idempotent_witness:
  "CPUPolicy_Resolve \<lparr>pol_Weight = 2, pol_QuotaUS = 200000, pol_PeriodUS = 100000, pol_BurstUS = 200000,
      pol_CPUSet = []\<rparr> 2 = Inr \<lparr>pol_Weight = 2, pol_QuotaUS = 200000, pol_PeriodUS = 100000,
      pol_BurstUS = 200000, pol_CPUSet = []\<rparr>"
  using CPUPolicy_Resolve_idempotent [of "\<lparr>pol_Weight = 0, pol_QuotaUS = 0, pol_PeriodUS = 0, pol_BurstUS = 0,
      pol_CPUSet = []\<rparr>" 2]
  by (simp add: CPUPolicy_Resolve_def cpuRanges_def max_int64_def min_def)

end
