(* ===== verification/Types_Network.thy ===== *)
theory Types_Network
  imports Types_Values
begin

text \<open>
  The provider-to-VMM network handoff (\<open>internal/types/network.go\<close>): IPv4 settings, interfaces and
  the setup of a sandbox, with their validation.
\<close>

section \<open>Model\<close>

type_synonym NetworkBackend = string
type_synonym AddressMode = string

abbreviation NetworkBackendCNI :: NetworkBackend where "NetworkBackendCNI \<equiv> ''cni''"
abbreviation NetworkBackendBridge :: NetworkBackend where "NetworkBackendBridge \<equiv> ''bridge''"
abbreviation NetworkBackendEBPF :: NetworkBackend where "NetworkBackendEBPF \<equiv> ''ebpf''"
abbreviation AddressModeFixed :: AddressMode where "AddressModeFixed \<equiv> ''fixed''"

definition NetworkBackend_Validate :: "NetworkBackend \<Rightarrow> gerr option" where
  "NetworkBackend_Validate b =
     check (\<not> List.member [NetworkBackendCNI, NetworkBackendBridge, NetworkBackendEBPF] b)
       (Msg ''unsupported network backend'')"

record IPv4Config =
  ip4_Address :: string
  ip4_Gateway :: string
  ip4_Prefix :: int

text \<open>\<open>net.ParseIP(s).To4() == nil\<close>, a parse failure included.\<close>

definition not_ipv4 :: "string \<Rightarrow> bool" where
  "not_ipv4 s \<longleftrightarrow> To4 (ParseIP s) = None"

definition IPv4Config_Validate :: "IPv4Config \<Rightarrow> gerr option" where
  "IPv4Config_Validate c = first_error [
     check (not_ipv4 (ip4_Address c)) (Msg ''network address is not IPv4''),
     check (ip4_Prefix c < 0 \<or> 32 < ip4_Prefix c) (Msg ''network prefix is outside 0..32''),
     check (ip4_Gateway c \<noteq> [] \<and> not_ipv4 (ip4_Gateway c)) (Msg ''network gateway is not IPv4'')]"

record NetworkInterface =
  nic_Index :: int
  nic_Name :: string
  nic_TAP :: string
  nic_MAC :: string
  nic_Queues :: int
  nic_QueueSize :: int
  nic_Network :: string
  nic_IPv4 :: "IPv4Config option"
  nic_AddressMode :: AddressMode
  nic_HostAddress :: string

definition NetworkInterface_Validate :: "NetworkInterface \<Rightarrow> gerr option" where
  "NetworkInterface_Validate c = first_error [
     check (nic_Index c < 0) (Msg ''network interface index must not be negative''),
     check (nic_Name c \<noteq> ''eth'' @ Itoa (nic_Index c)) (Msg ''network interface must be named ethN''),
     check (nic_TAP c = [] \<or> nic_Network c = []) (Msg ''network interface requires TAP and network names''),
     check (\<not> ParseMAC_ok (nic_MAC c)) (Wrap ''network interface MAC: '' (Msg ''invalid MAC address'')),
     check (nic_Queues c < 2 \<or> nic_Queues c mod 2 \<noteq> 0 \<or> nic_QueueSize c \<le> 0)
       (Msg ''network interface requires an even queue count of at least two and a positive queue size''),
     (case nic_IPv4 c of None \<Rightarrow> None | Some ip \<Rightarrow> IPv4Config_Validate ip),
     check (nic_AddressMode c \<noteq> [] \<and> nic_AddressMode c \<noteq> AddressModeFixed)
       (Msg ''unsupported guest address mode''),
     (if nic_AddressMode c = AddressModeFixed then
        check (case nic_IPv4 c of None \<Rightarrow> True
               | Some ip \<Rightarrow> not_ipv4 (nic_HostAddress c) \<or> nic_HostAddress c = ip4_Address ip)
          (Msg ''fixed guest addressing requires distinct guest and host IPv4 addresses'')
      else check (nic_HostAddress c \<noteq> []) (Msg ''host address requires fixed guest addressing''))]"

record NetworkSetup =
  net_Backend :: NetworkBackend
  net_Namespace :: string
  net_Interfaces :: "NetworkInterface list"

text \<open>The interface loop: \<open>position\<close>, \<open>previous\<close> and \<open>seen\<close> are its state.\<close>

fun interfaces_loop :: "NetworkBackend \<Rightarrow> int \<Rightarrow> int \<Rightarrow> int list \<Rightarrow> NetworkInterface list \<Rightarrow> gerr option" where
  "interfaces_loop b position previous seen [] = None"
| "interfaces_loop b position previous seen (n # ns) =
     (case first_error [
        check ((b = NetworkBackendEBPF) \<noteq> (nic_AddressMode n = AddressModeFixed))
          (Msg ''fixed guest addressing requires the eBPF network backend''),
        map_option (Wrap ''network interface: '') (NetworkInterface_Validate n),
        check (List.member seen (nic_Index n)) (Msg ''network interface index is duplicated''),
        check (nic_Index n \<le> previous) (Msg ''network interfaces must be ordered by increasing index''),
        check (nic_Index n \<noteq> position) (Msg ''network interface indices must be contiguous from zero'')] of
        Some e \<Rightarrow> Some e
      | None \<Rightarrow> interfaces_loop b (position + 1) (nic_Index n) (nic_Index n # seen) ns)"

definition NetworkSetup_Validate :: "NetworkSetup \<Rightarrow> gerr option" where
  "NetworkSetup_Validate s =
     (if net_Backend s = [] then
        check (net_Namespace s \<noteq> [] \<or> net_Interfaces s \<noteq> []) (Msg ''network setup without a backend must be empty'')
      else first_error [
        NetworkBackend_Validate (net_Backend s),
        (if net_Backend s = NetworkBackendBridge \<or> net_Backend s = NetworkBackendEBPF
         then check (net_Namespace s \<noteq> []) (Msg ''host TAP network setup must not have a namespace'')
         else check (\<not> IsAbs (net_Namespace s)) (Msg ''network namespace must be an absolute path'')),
        interfaces_loop (net_Backend s) 0 (- 1) [] (net_Interfaces s)])"

definition NetworkSetup_zero :: NetworkSetup where
  "NetworkSetup_zero = \<lparr>net_Backend = [], net_Namespace = [], net_Interfaces = []\<rparr>"

section \<open>Lemmas\<close>

lemma interfaces_loop_None:
  assumes "previous < position" and "\<And>i. i \<in> set seen \<Longrightarrow> i < position"
  shows "interfaces_loop b position previous seen ns = None \<longleftrightarrow>
     (\<forall>i < length ns. nic_Index (ns ! i) = position + int i \<and> NetworkInterface_Validate (ns ! i) = None
        \<and> (b = NetworkBackendEBPF \<longleftrightarrow> nic_AddressMode (ns ! i) = AddressModeFixed))"
  using assms
proof (induction ns arbitrary: position previous seen)
  case (Cons n ns)
  let ?ok = "nic_Index n = position \<and> NetworkInterface_Validate n = None
      \<and> (b = NetworkBackendEBPF \<longleftrightarrow> nic_AddressMode n = AddressModeFixed)"
  have "interfaces_loop b position previous seen (n # ns) = None \<longleftrightarrow>
      ?ok \<and> interfaces_loop b (position + 1) (nic_Index n) (nic_Index n # seen) ns = None"
    using Cons.prems(1) Cons.prems(2) [of position] by auto
  moreover have "interfaces_loop b (position + 1) (nic_Index n) (nic_Index n # seen) ns = None \<longleftrightarrow>
      (\<forall>i < length ns. nic_Index (ns ! i) = position + 1 + int i \<and> NetworkInterface_Validate (ns ! i) = None
        \<and> (b = NetworkBackendEBPF \<longleftrightarrow> nic_AddressMode (ns ! i) = AddressModeFixed))" if ?ok
    by (rule Cons.IH) (use that Cons.prems in force)+
  moreover have "(\<forall>i < length (n # ns). nic_Index ((n # ns) ! i) = position + int i
        \<and> NetworkInterface_Validate ((n # ns) ! i) = None
        \<and> (b = NetworkBackendEBPF \<longleftrightarrow> nic_AddressMode ((n # ns) ! i) = AddressModeFixed)) \<longleftrightarrow>
      ?ok \<and> (\<forall>i < length ns. nic_Index (ns ! i) = position + 1 + int i \<and> NetworkInterface_Validate (ns ! i) = None
        \<and> (b = NetworkBackendEBPF \<longleftrightarrow> nic_AddressMode (ns ! i) = AddressModeFixed))"
    by (simp add: All_less_Suc2 add.assoc)
  ultimately show ?case by meson
qed simp

lemma NetworkSetup_zero_valid [simp]: "NetworkSetup_Validate NetworkSetup_zero = None"
  by (simp add: NetworkSetup_Validate_def NetworkSetup_zero_def)

section \<open>Properties\<close>

text \<open>
   A network setup that validates is either the disabled zero setup, or every interface sits at
  its own index (so indices are \<open>0..n-1\<close> without gap or duplicate), is named after it, is itself
  valid, and uses fixed guest addressing exactly on the eBPF backend; a namespace path belongs to the
  CNI backend only.
\<close>

theorem NetworkSetup_Validate_iff:
  "NetworkSetup_Validate s = None \<longleftrightarrow>
     (if net_Backend s = [] then net_Namespace s = [] \<and> net_Interfaces s = []
      else NetworkBackend_Validate (net_Backend s) = None
        \<and> (if net_Backend s = NetworkBackendCNI then IsAbs (net_Namespace s) else net_Namespace s = [])
        \<and> (\<forall>i < length (net_Interfaces s). nic_Index (net_Interfaces s ! i) = int i
             \<and> nic_Name (net_Interfaces s ! i) = ''eth'' @ dec_nat i
             \<and> NetworkInterface_Validate (net_Interfaces s ! i) = None
             \<and> (net_Backend s = NetworkBackendEBPF \<longleftrightarrow> nic_AddressMode (net_Interfaces s ! i) = AddressModeFixed)))"
proof -
  have name: "nic_Name n = ''eth'' @ dec_nat i"
    if "NetworkInterface_Validate n = None" "nic_Index n = int i" for n i
    using that by (simp add: NetworkInterface_Validate_def Itoa_def)
  have bk: "NetworkBackend_Validate b = None \<Longrightarrow> b = NetworkBackendCNI \<or> b = NetworkBackendBridge \<or> b = NetworkBackendEBPF" for b
    by (auto simp: NetworkBackend_Validate_def)
  show ?thesis
  proof (cases "net_Backend s = []")
    case True
    then show ?thesis by (simp add: NetworkSetup_Validate_def)
  next
    case False
    show ?thesis
      using False interfaces_loop_None [of "-1" 0 "[]" "net_Backend s" "net_Interfaces s"] name bk
      by (auto simp: NetworkSetup_Validate_def)
  qed
qed

definition sample_nic :: NetworkInterface where
  "sample_nic = \<lparr>nic_Index = 0, nic_Name = ''eth0'', nic_TAP = ''kb0'', nic_MAC = ''02:4b:42:00:00:02'',
     nic_Queues = 2, nic_QueueSize = 256, nic_Network = ''kb'', nic_IPv4 = Some \<lparr>ip4_Address = ''169.254.240.2'',
       ip4_Gateway = ''169.254.240.1'', ip4_Prefix = 30\<rparr>, nic_AddressMode = ''fixed'', nic_HostAddress = ''10.1.0.7''\<rparr>"

lemma sample_nic_valid:
  "NetworkInterface_Validate sample_nic = None"
  "NetworkInterface_Validate (sample_nic\<lparr>nic_HostAddress := ''::ffff:169.254.240.2''\<rparr>) = None"
  by (simp_all add: NetworkInterface_Validate_def IPv4Config_Validate_def sample_nic_def not_ipv4_def
      Itoa_def dec_nat.simps [of 0] net_eval digit_chars Let_def ip6_groups_numeral replicate_numeral
      cong: let_weak_cong)

theorem NetworkSetup_Validate_iff_witness:
  "NetworkSetup_Validate \<lparr>net_Backend = ''ebpf'', net_Namespace = [], net_Interfaces = [sample_nic]\<rparr> = None"
  using sample_nic_valid(1)
  by (simp add: NetworkSetup_Validate_iff NetworkBackend_Validate_def)
    (simp add: sample_nic_def dec_nat.simps digit_chars)

text \<open>
   The distinctness test of fixed addressing compares address texts, not addresses: an interface
  validates whose host address is the guest's own address written in its IPv4-mapped form.
\<close>

theorem fixed_address_test_is_textual:
  "\<exists>c ip. NetworkInterface_Validate c = None \<and> nic_AddressMode c = AddressModeFixed \<and> nic_IPv4 c = Some ip
     \<and> To4 (ParseIP (nic_HostAddress c)) = To4 (ParseIP (ip4_Address ip))"
proof (intro exI conjI)
  show "NetworkInterface_Validate (sample_nic\<lparr>nic_HostAddress := ''::ffff:169.254.240.2''\<rparr>) = None"
    by (rule sample_nic_valid)
  show "nic_IPv4 (sample_nic\<lparr>nic_HostAddress := ''::ffff:169.254.240.2''\<rparr>) = Some (the (nic_IPv4 sample_nic))"
    by (simp add: sample_nic_def)
qed (simp_all add: sample_nic_def ParseIP_examples)

end
