(* ===== verification/Types_Sandbox.thy ===== *)
theory Types_Sandbox
  imports Types_Resources Types_Network
begin

text \<open>
  The sandbox aggregate (\<open>internal/types/sandbox.go\<close>): data disks and the assignment of their names,
  the resource configuration, guest commands, and the durable sandbox record with its validation.
\<close>

section \<open>Names and data disks\<close>

text \<open>The anchored patterns of the package: one leading character class, then at most \<open>n\<close> characters
  of a second class.\<close>

definition match_name :: "(char \<Rightarrow> bool) \<Rightarrow> (char \<Rightarrow> bool) \<Rightarrow> nat \<Rightarrow> string \<Rightarrow> bool" where
  "match_name first rest n s \<longleftrightarrow> s \<noteq> [] \<and> first (hd s) \<and> list_all rest (tl s) \<and> length (tl s) \<le> n"

definition validSandboxName :: "string \<Rightarrow> bool" where
  "validSandboxName = match_name is_alnum (\<lambda>c. is_alnum c \<or> List.member ''._-'' c) 62"

definition validNetworkName :: "string \<Rightarrow> bool" where
  "validNetworkName = match_name is_alnum (\<lambda>c. is_alnum c \<or> List.member ''._-'' c) 62"

definition validDataDiskName :: "string \<Rightarrow> bool" where
  "validDataDiskName = match_name is_lower (\<lambda>c. is_lower c \<or> is_digit c \<or> List.member ''_-'' c) 19"

record DataDiskSpec =
  dd_Name :: string
  dd_Size :: int
  dd_FSType :: string
  dd_DirectIO :: "bool option"

definition MinSandboxMemory :: int where "MinSandboxMemory = 512 * 2 ^ 20"
definition MinSandboxStorage :: int where "MinSandboxStorage = 10 * 2 ^ 30"
definition MinDataDiskSize :: int where "MinDataDiskSize = 16 * 2 ^ 20"
definition MaxDataDisks :: nat where "MaxDataDisks = 32"
definition MaxSandboxCPUs :: "32 word" where "MaxSandboxCPUs = 1024"
definition MaxSandboxNICs :: int where "MaxSandboxNICs = 64"

definition DataDiskSpec_Validate :: "DataDiskSpec \<Rightarrow> gerr option" where
  "DataDiskSpec_Validate d = first_error [
     check (\<not> validDataDiskName (dd_Name d) \<or> HasPrefix (dd_Name d) ''kumabox-'') (Msg ''invalid data disk name''),
     check (dd_Size d < MinDataDiskSize) (Msg ''data disk is too small''),
     check (dd_FSType d \<noteq> ''ext4'' \<and> dd_FSType d \<noteq> ''none'') (Msg ''data disk filesystem must be ext4 or none'')]"

definition DataDiskFile :: "string \<Rightarrow> string" where
  "DataDiskFile name = ''data-'' @ name @ ''.raw''"

definition DataDiskSerial :: "string \<Rightarrow> string" where
  "DataDiskSerial name = name"

text \<open>The three loops of \<open>ResolveDataDisks\<close>: the inherited disks with \<open>used\<close> and \<open>result\<close>, the
  reservation of explicit names, and the assignment of \<open>dataN\<close> names.\<close>

fun inherit_disks :: "string list \<Rightarrow> DataDiskSpec list \<Rightarrow> DataDiskSpec list \<Rightarrow> gerr + (string list \<times> DataDiskSpec list)" where
  "inherit_disks used result [] = Inr (used, result)"
| "inherit_disks used result (spec # specs) =
     guard_err (first_error [
       map_option (Wrap ''invalid inherited data disk: '') (DataDiskSpec_Validate spec),
       check (List.member used (dd_Name spec)) (Msg ''duplicate inherited data disk'')])
     (inherit_disks (dd_Name spec # used) (result @ [spec]) specs)"

fun reserve_names :: "string list \<Rightarrow> DataDiskSpec list \<Rightarrow> gerr + string list" where
  "reserve_names used [] = Inr used"
| "reserve_names used (spec # specs) =
     (if dd_Name spec \<noteq> [] then
        guard_err (first_error [
          DataDiskSpec_Validate spec,
          check (List.member used (dd_Name spec)) (Msg ''duplicate data disk'')])
        (reserve_names (dd_Name spec # used) specs)
      else reserve_names used specs)"

abbreviation data_name :: "nat \<Rightarrow> string" where
  "data_name i \<equiv> ''data'' @ dec_nat i"

function next_free :: "nat \<Rightarrow> string list \<Rightarrow> nat" where
  "next_free index used = (if List.member used (data_name index) then next_free (index + 1) used else index)"
  by pat_completeness auto

lemma finite_data_names: "finite {k. data_name k \<in> set used}"
proof (rule finite_imageD)
  show "finite (data_name ` {k. data_name k \<in> set used})"
    by (rule finite_subset [of _ "set used"]) auto
qed (simp add: inj_on_def)

termination next_free
proof (relation "measure (\<lambda>(index, used). card {k. index \<le> k \<and> data_name k \<in> set used})", goal_cases)
  case (2 index used)
  have "index \<in> {k. index \<le> k \<and> data_name k \<in> set used}" using 2 by simp
  then have "{k. index + 1 \<le> k \<and> data_name k \<in> set used} \<subset> {k. index \<le> k \<and> data_name k \<in> set used}"
    by (intro psubsetI) (force, metis (no_types, lifting) Suc_eq_plus1 mem_Collect_eq not_less_eq_eq order_refl)
  moreover have "finite {k. index \<le> k \<and> data_name k \<in> set used}"
    by (rule finite_subset [OF _ finite_data_names [of used]]) auto
  ultimately show ?case by (simp add: psubset_card_mono)
qed simp

declare next_free.simps [simp del]

fun assign_names :: "nat \<Rightarrow> string list \<Rightarrow> DataDiskSpec list \<Rightarrow> DataDiskSpec list \<Rightarrow> gerr + DataDiskSpec list" where
  "assign_names index used result [] = Inr result"
| "assign_names index used result (spec # specs) =
     (if dd_Name spec = [] then
        let free = next_free index used; spec' = spec\<lparr>dd_Name := data_name free\<rparr> in
        guard_err (DataDiskSpec_Validate spec')
          (assign_names (free + 1) (data_name free # used) (result @ [spec']) specs)
      else guard_err (DataDiskSpec_Validate spec) (assign_names index used (result @ [spec]) specs))"

definition ResolveDataDisks :: "DataDiskSpec list \<Rightarrow> DataDiskSpec list \<Rightarrow> gerr + DataDiskSpec list" where
  "ResolveDataDisks inherited additions =
     (if MaxDataDisks < length inherited + length additions then Inl (Msg ''too many data disks'')
      else bindE (inherit_disks [] [] inherited) (\<lambda>(used, result).
           bindE (reserve_names used additions) (\<lambda>used'.
           assign_names 1 used' result additions)))"

section \<open>Configuration\<close>

record SandboxConfig =
  cfg_Name :: string
  cfg_CPUs :: "32 word"
  cfg_CPUPolicy :: CPUPolicy
  cfg_Memory :: int
  cfg_SharedMemory :: bool
  cfg_HugePages :: bool
  cfg_Mergeable :: bool
  cfg_NoBalloon :: bool
  cfg_Storage :: int
  cfg_COWIOMode :: DiskIOMode
  cfg_NICs :: int
  cfg_NetworkName :: string
  cfg_NetworkBackend :: NetworkBackend
  cfg_BridgeStatic :: bool
  cfg_DataDisks :: "DataDiskSpec list"

definition effectiveNetworkBackend :: "SandboxConfig \<Rightarrow> NetworkBackend" where
  "effectiveNetworkBackend c = (if cfg_NetworkBackend c = [] then NetworkBackendCNI else cfg_NetworkBackend c)"

definition same_disk :: "DataDiskSpec \<Rightarrow> DataDiskSpec \<Rightarrow> bool" where
  "same_disk disk right \<longleftrightarrow>
     (if dd_Name disk \<noteq> dd_Name right \<or> dd_Size disk \<noteq> dd_Size right \<or> dd_FSType disk \<noteq> dd_FSType right
         \<or> (dd_DirectIO disk = None) \<noteq> (dd_DirectIO right = None) then False
      else if dd_DirectIO disk \<noteq> None \<and> the (dd_DirectIO disk) \<noteq> the (dd_DirectIO right) then False
      else True)"

definition SameGuest :: "SandboxConfig \<Rightarrow> SandboxConfig \<Rightarrow> bool" where
  "SameGuest c other \<longleftrightarrow>
     (if cfg_Name c \<noteq> cfg_Name other \<or> cfg_CPUs c \<noteq> cfg_CPUs other \<or> cfg_Memory c \<noteq> cfg_Memory other
         \<or> cfg_SharedMemory c \<noteq> cfg_SharedMemory other \<or> cfg_HugePages c \<noteq> cfg_HugePages other
         \<or> cfg_Mergeable c \<noteq> cfg_Mergeable other \<or> cfg_NoBalloon c \<noteq> cfg_NoBalloon other
         \<or> cfg_Storage c \<noteq> cfg_Storage other
         \<or> DiskIOMode_DirectIO (cfg_COWIOMode c) \<noteq> DiskIOMode_DirectIO (cfg_COWIOMode other)
         \<or> cfg_NICs c \<noteq> cfg_NICs other \<or> cfg_NetworkName c \<noteq> cfg_NetworkName other
         \<or> effectiveNetworkBackend c \<noteq> effectiveNetworkBackend other
         \<or> cfg_BridgeStatic c \<noteq> cfg_BridgeStatic other
         \<or> length (cfg_DataDisks c) \<noteq> length (cfg_DataDisks other) then False
      else list_all (\<lambda>(d, r). same_disk d r) (zip (cfg_DataDisks c) (cfg_DataDisks other)))"

abbreviation invalid_arg :: "gerr \<Rightarrow> gerr" where
  "invalid_arg e \<equiv> New 0 ClassInvalid CodeInvalidArgument (Some e)"

fun disks_loop :: "string list \<Rightarrow> DataDiskSpec list \<Rightarrow> gerr option" where
  "disks_loop seen [] = None"
| "disks_loop seen (d # ds) =
     (case first_error [
        map_option invalid_arg (DataDiskSpec_Validate d),
        check (List.member seen (dd_Name d)) (invalid_arg (Msg ''duplicate data disk''))] of
        Some e \<Rightarrow> Some e
      | None \<Rightarrow> disks_loop (dd_Name d # seen) ds)"

definition SandboxConfig_Validate :: "SandboxConfig \<Rightarrow> gerr option" where
  "SandboxConfig_Validate c = first_error [
     map_option invalid_arg (DiskIOMode_Validate (cfg_COWIOMode c)),
     check (\<not> validSandboxName (cfg_Name c)) (invalid_arg (Msg ''sandbox name must match'')),
     check (cfg_CPUs c = 0 \<or> MaxSandboxCPUs < cfg_CPUs c) (invalid_arg (Msg ''CPU count must be between 1 and 1024'')),
     (case CPUPolicy_Resolve (cfg_CPUPolicy c) (cfg_CPUs c) of Inl e \<Rightarrow> Some (invalid_arg e) | Inr _ \<Rightarrow> None),
     check (cfg_Mergeable c \<and> (cfg_HugePages c \<or> cfg_SharedMemory c))
       (invalid_arg (Msg ''mergeable requires private memory without hugepages or shared-memory'')),
     check (cfg_Memory c < MinSandboxMemory) (invalid_arg (Msg ''memory is too small'')),
     check (cfg_Storage c < MinSandboxStorage) (invalid_arg (Msg ''storage is too small'')),
     check (cfg_NICs c < 0 \<or> MaxSandboxNICs < cfg_NICs c) (invalid_arg (Msg ''NIC count must be between 0 and 64'')),
     (if cfg_NetworkBackend c \<noteq> [] then map_option invalid_arg (NetworkBackend_Validate (cfg_NetworkBackend c))
      else None),
     (if cfg_NetworkBackend c = NetworkBackendBridge then first_error [
        check (cfg_NetworkName c = []) (invalid_arg (Msg ''bridge networking requires a bridge device'')),
        check (15 < length (cfg_NetworkName c)) (invalid_arg (Msg ''bridge device exceeds the Linux interface name limit''))]
      else None),
     check (cfg_NetworkName c \<noteq> [] \<and> \<not> validNetworkName (cfg_NetworkName c))
       (invalid_arg (Msg ''network name must match'')),
     check (MaxDataDisks < length (cfg_DataDisks c)) (invalid_arg (Msg ''too many data disks'')),
     disks_loop [] (cfg_DataDisks c)]"

section \<open>Commands\<close>

record Command =
  cmd_Args :: "string list"
  cmd_Env :: "string gomap"
  cmd_Cwd :: string
  cmd_User :: string

text \<open>Go visits the environment map in an unspecified order; the list gives the order of one run.\<close>

definition env_check :: "string \<times> string \<Rightarrow> gerr option" where
  "env_check kv = (case kv of (key, value) \<Rightarrow> first_error [
     check (key = []) (Msg ''environment variable name must not be empty''),
     check (ContainsAny key [CHR ''='', CHR 0x00]) (Msg ''environment variable name must not contain = or NUL bytes''),
     check (IndexByte_found value (CHR 0x00)) (Msg ''environment variable must not contain NUL bytes'')])"

definition Command_Validate :: "Command \<Rightarrow> gerr option" where
  "Command_Validate c = first_error ([
     check (cmd_Cwd c \<noteq> [] \<and> (\<not> IsAbs (cmd_Cwd c) \<or> IndexByte_found (cmd_Cwd c) (CHR 0x00)))
       (Msg ''working directory must be an absolute path without NUL bytes''),
     check (ContainsAny (cmd_User c) [CHR '':'', CHR 0x00, CHR 0x0D, CHR 0x0A])
       (Msg ''user must be a guest username or UID without colon or control characters''),
     check (cmd_Args c = [] \<or> hd (cmd_Args c) = []) (Msg ''COMMAND must not be empty'')]
     @ map (\<lambda>a. check (IndexByte_found a (CHR 0x00)) (Msg ''command arguments must not contain NUL bytes'')) (cmd_Args c)
     @ map env_check (cmd_Env c))"

section \<open>The sandbox record\<close>

type_synonym SandboxState = string

abbreviation SandboxStateCreating :: SandboxState where "SandboxStateCreating \<equiv> ''creating''"
abbreviation SandboxStateCreated :: SandboxState where "SandboxStateCreated \<equiv> ''created''"
abbreviation SandboxStateStarting :: SandboxState where "SandboxStateStarting \<equiv> ''starting''"
abbreviation SandboxStateRunning :: SandboxState where "SandboxStateRunning \<equiv> ''running''"
abbreviation SandboxStateStopping :: SandboxState where "SandboxStateStopping \<equiv> ''stopping''"
abbreviation SandboxStateStopped :: SandboxState where "SandboxStateStopped \<equiv> ''stopped''"
abbreviation SandboxStateError :: SandboxState where "SandboxStateError \<equiv> ''error''"
abbreviation SandboxStateDeleting :: SandboxState where "SandboxStateDeleting \<equiv> ''deleting''"

record SandboxFailure =
  fail_Phase :: string
  fail_Message :: string

record Sandbox =
  sb_ID :: SandboxID
  sb_Config :: SandboxConfig
  sb_ImageDigest :: Digest
  sb_VMM :: VMMType
  sb_Network :: NetworkSetup
  sb_State :: SandboxState
  sb_Generation :: "64 word"
  sb_Failure :: "SandboxFailure option"
  sb_CreatedAt :: time
  sb_UpdatedAt :: time

definition valid_states :: "SandboxState list" where
  "valid_states = [SandboxStateCreating, SandboxStateCreated, SandboxStateStarting, SandboxStateRunning,
     SandboxStateStopping, SandboxStateStopped, SandboxStateError, SandboxStateDeleting]"

definition network_owner_check :: "Sandbox \<Rightarrow> gerr option" where
  "network_owner_check s =
     (if net_Backend (sb_Network s) \<noteq> [] then first_error [
        check (cfg_NetworkBackend (sb_Config s) \<noteq> [] \<and> net_Backend (sb_Network s) \<noteq> cfg_NetworkBackend (sb_Config s))
          (Msg ''sandbox network backend differs from the requested backend''),
        check (int (length (net_Interfaces (sb_Network s))) \<noteq> cfg_NICs (sb_Config s))
          (Msg ''sandbox has an unexpected number of network interfaces''),
        check (list_ex (\<lambda>n. nic_Network n \<noteq> cfg_NetworkName (sb_Config s)) (net_Interfaces (sb_Network s)))
          (Msg ''sandbox network interface differs from the resolved network name'')]
      else if 0 < cfg_NICs (sb_Config s) then
        check (\<not> List.member [SandboxStateCreating, SandboxStateError, SandboxStateDeleting] (sb_State s))
          (Msg ''networked sandbox state requires resolved network setup'')
      else None)"

definition Sandbox_Validate :: "Sandbox \<Rightarrow> gerr option" where
  "Sandbox_Validate s = first_error [
     (case ParseSandboxID (sb_ID s) of Inl e \<Rightarrow> Some e | Inr _ \<Rightarrow> None),
     SandboxConfig_Validate (sb_Config s),
     check (Digest_IsZero (sb_ImageDigest s) \<or> sb_Generation s = 0 \<or> IsZero (sb_CreatedAt s) \<or> IsZero (sb_UpdatedAt s))
       (Msg ''sandbox image, generation, and timestamps must be set''),
     VMMType_Validate (sb_VMM s),
     NetworkSetup_Validate (sb_Network s),
     check (cfg_NICs (sb_Config s) = 0 \<and> net_Interfaces (sb_Network s) \<noteq> [])
       (Msg ''sandbox without NICs must not contain interfaces''),
     check (sb_State s \<noteq> SandboxStateCreating \<and> cfg_NICs (sb_Config s) = 0 \<and> net_Backend (sb_Network s) = []
         \<and> cfg_NetworkName (sb_Config s) \<noteq> [])
       (Msg ''sandbox without a network owner must not retain a network name''),
     network_owner_check s,
     check (\<not> List.member valid_states (sb_State s)) (Msg ''invalid sandbox state''),
     check ((sb_State s = SandboxStateError) \<noteq> (sb_Failure s \<noteq> None))
       (Msg ''sandbox failure must be present only in error state'')]"

section \<open>Lemmas\<close>

lemma next_free_free: "data_name (next_free i used) \<notin> set used"
  by (induction i used rule: next_free.induct) (subst next_free.simps, auto)

lemma next_free_below: "i \<le> k \<Longrightarrow> k < next_free i used \<Longrightarrow> data_name k \<in> set used"
proof (induction i used rule: next_free.induct)
  case (1 i used)
  then show ?case
    by (cases "k = i") (auto simp: next_free.simps [of i used] split: if_splits)
qed

lemma next_free_ge: "i \<le> next_free i used"
proof (induction i used rule: next_free.induct)
  case (1 i used)
  then show ?case by (subst next_free.simps) auto
qed

lemma inherit_disks_Inr:
  "inherit_disks used result specs = Inr (u, r) \<longleftrightarrow>
     r = result @ specs \<and> u = rev (map dd_Name specs) @ used \<and> (\<forall>s \<in> set specs. DataDiskSpec_Validate s = None)
     \<and> distinct (map dd_Name specs) \<and> set (map dd_Name specs) \<inter> set used = {}"
  by (induction used result specs rule: inherit_disks.induct) auto

abbreviation named :: "DataDiskSpec list \<Rightarrow> DataDiskSpec list" where
  "named specs \<equiv> filter (\<lambda>s. dd_Name s \<noteq> []) specs"

lemma reserve_names_Inr:
  "reserve_names used specs = Inr u \<longleftrightarrow>
     u = rev (map dd_Name (named specs)) @ used \<and> (\<forall>s \<in> set (named specs). DataDiskSpec_Validate s = None)
     \<and> distinct (map dd_Name (named specs)) \<and> set (map dd_Name (named specs)) \<inter> set used = {}"
  by (induction used specs rule: reserve_names.induct) auto

text \<open>What \<open>assign_names\<close> may do to one addition.\<close>

definition assigned :: "DataDiskSpec \<Rightarrow> DataDiskSpec \<Rightarrow> bool" where
  "assigned s s' \<longleftrightarrow> (if dd_Name s = [] then \<exists>k. s' = s\<lparr>dd_Name := data_name k\<rparr> else s' = s)
     \<and> DataDiskSpec_Validate s' = None"

lemma assign_names_sound:
  assumes "assign_names index used result specs = Inr r"
    and "set (map dd_Name (named specs)) \<subseteq> set used" and "distinct (map dd_Name (named specs))"
    and "set (map dd_Name result) \<subseteq> set used" and "distinct (map dd_Name result)"
    and "set (map dd_Name (named specs)) \<inter> set (map dd_Name result) = {}"
  shows "distinct (map dd_Name r) \<and> (\<exists>r'. r = result @ r' \<and> list_all2 assigned specs r')"
  using assms
proof (induction index used result specs rule: assign_names.induct)
  case (2 index used result spec specs)
  show ?case
  proof (cases "dd_Name spec = []")
    case True
    let ?k = "next_free index used" and ?s = "spec\<lparr>dd_Name := data_name (next_free index used)\<rparr>"
    have rec: "assign_names (?k + 1) (data_name ?k # used) (result @ [?s]) specs = Inr r"
      and ok: "DataDiskSpec_Validate ?s = None"
      using 2(3) True by (simp_all add: Let_def)
    have "distinct (map dd_Name r) \<and> (\<exists>r'. r = (result @ [?s]) @ r' \<and> list_all2 assigned specs r')"
      by (rule 2(1) [OF True refl refl rec])
        (use 2(4-8) True next_free_free [of index used] in auto)
    moreover have "assigned spec ?s" using True ok by (auto simp: assigned_def)
    ultimately show ?thesis by fastforce
  next
    case False
    have rec: "assign_names index used (result @ [spec]) specs = Inr r"
      and ok: "DataDiskSpec_Validate spec = None"
      using 2(3) False by simp_all
    have "distinct (map dd_Name r) \<and> (\<exists>r'. r = (result @ [spec]) @ r' \<and> list_all2 assigned specs r')"
      by (rule 2(2) [OF False rec]) (use 2(4-8) False in auto)
    moreover have "assigned spec spec" using False ok by (auto simp: assigned_def)
    ultimately show ?thesis by fastforce
  qed
qed simp

lemma data_name_valid: "k < 100 \<Longrightarrow> validDataDiskName (data_name k) \<and> \<not> HasPrefix (data_name k) ''kumabox-''"
proof -
  assume "k < 100"
  then have "length (dec_nat k) \<le> 2"
    by (auto simp: dec_nat.simps [of k] dec_nat.simps [of "k div 10"])
  then show ?thesis
    using dec_nat_digits [of k]
    by (auto simp: validDataDiskName_def match_name_def HasPrefix_def is_lower_def list_all_iff)
qed

lemma Validate_named:
  "DataDiskSpec_Validate (s\<lparr>dd_Name := data_name k\<rparr>) = None \<longleftrightarrow>
     MinDataDiskSize \<le> dd_Size s \<and> (dd_FSType s = ''ext4'' \<or> dd_FSType s = ''none'')" if "k < 100"
  using data_name_valid [OF that] by (auto simp: DataDiskSpec_Validate_def not_less)

lemma data_names_bound:
  assumes "\<And>k. 1 \<le> k \<Longrightarrow> k < i \<Longrightarrow> data_name k \<in> set used"
  shows "i \<le> length used + 1"
proof -
  have "card (data_name ` {1..<i}) \<le> card (set used)"
    by (rule card_mono) (use assms in auto)
  moreover have "card (data_name ` {1..<i}) = i - 1"
    by (subst card_image) (auto simp: inj_on_def)
  ultimately show ?thesis using card_length [of used] by linarith
qed

lemma assign_names_total:
  assumes "\<And>k. 1 \<le> k \<Longrightarrow> k < index \<Longrightarrow> data_name k \<in> set used" and "1 \<le> index"
    and "length used + length specs \<le> 64"
    and "\<And>s. s \<in> set specs \<Longrightarrow> dd_Name s \<noteq> [] \<Longrightarrow> DataDiskSpec_Validate s = None"
    and "\<And>s. s \<in> set specs \<Longrightarrow> dd_Name s = [] \<Longrightarrow> MinDataDiskSize \<le> dd_Size s
        \<and> (dd_FSType s = ''ext4'' \<or> dd_FSType s = ''none'')"
  shows "\<exists>r. assign_names index used result specs = Inr r"
  using assms
proof (induction index used result specs rule: assign_names.induct)
  case (2 index used result spec specs)
  show ?case
  proof (cases "dd_Name spec = []")
    case True
    let ?k = "next_free index used"
    have below: "data_name k \<in> set used" if "1 \<le> k" "k < ?k" for k
      using that 2(3) [of k] next_free_below [of index k used] by (cases "k < index") auto
    then have "?k < 100" using data_names_bound [of ?k used] 2(5) by fastforce
    then have ok: "DataDiskSpec_Validate (spec\<lparr>dd_Name := data_name ?k\<rparr>) = None"
      using 2(7) [of spec] True by (subst Validate_named) simp_all
    have "\<exists>r. assign_names (?k + 1) (data_name ?k # used) (result @ [spec\<lparr>dd_Name := data_name ?k\<rparr>]) specs = Inr r"
    proof (rule 2(1) [OF True refl refl])
      show "data_name k \<in> set (data_name ?k # used)" if "1 \<le> k" "k < ?k + 1" for k
        using that below [of k] by (cases "k = ?k") auto
    qed (use 2(4-7) in auto)
    with True ok show ?thesis by (simp add: Let_def)
  next
    case False
    have "\<exists>r. assign_names index used (result @ [spec]) specs = Inr r"
      by (rule 2(2) [OF False]) (use 2(3-7) in auto)
    with False 2(6) [of spec] show ?thesis by simp
  qed
qed simp

lemma disks_loop_None:
  "disks_loop seen ds = None \<longleftrightarrow> (\<forall>d \<in> set ds. DataDiskSpec_Validate d = None)
     \<and> distinct (map dd_Name ds) \<and> set (map dd_Name ds) \<inter> set seen = {}"
  by (induction seen ds rule: disks_loop.induct) auto

lemma ResolveDataDisks_Inr:
  "ResolveDataDisks inherited additions = Inr r \<longleftrightarrow>
     length inherited + length additions \<le> MaxDataDisks
     \<and> (\<forall>s \<in> set inherited \<union> set (named additions). DataDiskSpec_Validate s = None)
     \<and> distinct (map dd_Name (inherited @ named additions))
     \<and> assign_names 1 (rev (map dd_Name (named additions)) @ rev (map dd_Name inherited)) inherited additions = Inr r"
  by (auto simp: ResolveDataDisks_def bindE_Inr_iff inherit_disks_Inr reserve_names_Inr not_less)

lemma same_disk_iff: "same_disk d r \<longleftrightarrow> d = r"
  by (cases d; cases r) (auto simp: same_disk_def)

lemma list_all_zip_eq:
  "length xs = length ys \<Longrightarrow> list_all (\<lambda>(x, y). x = y) (zip xs ys) \<longleftrightarrow> xs = ys"
  by (induction xs ys rule: list_induct2) auto

text \<open>The guest shape of a configuration: the host scheduling policy erased, the disk mode reduced to
  whether it bypasses the page cache, an empty backend read as CNI.\<close>

definition guest_shape :: "SandboxConfig \<Rightarrow> SandboxConfig" where
  "guest_shape c = c\<lparr>cfg_CPUPolicy := \<lparr>pol_Weight = 0, pol_QuotaUS = 0, pol_PeriodUS = 0, pol_BurstUS = 0, pol_CPUSet = []\<rparr>,
     cfg_COWIOMode := (if DiskIOMode_DirectIO (cfg_COWIOMode c) then ''direct'' else ''buffered''),
     cfg_NetworkBackend := effectiveNetworkBackend c\<rparr>"

lemma first_error_append: "first_error (xs @ ys) = None \<longleftrightarrow> first_error xs = None \<and> first_error ys = None"
  by auto

lemma Command_Validate_iff:
  "Command_Validate c = None \<longleftrightarrow>
     (cmd_Cwd c = [] \<or> IsAbs (cmd_Cwd c) \<and> CHR 0x00 \<notin> set (cmd_Cwd c))
     \<and> set (cmd_User c) \<inter> {CHR '':'', CHR 0x00, CHR 0x0D, CHR 0x0A} = {}
     \<and> cmd_Args c \<noteq> [] \<and> hd (cmd_Args c) \<noteq> [] \<and> (\<forall>a \<in> set (cmd_Args c). CHR 0x00 \<notin> set a)
     \<and> (\<forall>(k, v) \<in> set (cmd_Env c). k \<noteq> [] \<and> set k \<inter> {CHR ''='', CHR 0x00} = {} \<and> CHR 0x00 \<notin> set v)"
  unfolding Command_Validate_def first_error_append
  by (auto simp: env_check_def ContainsAny_iff IndexByte_found_def)

lemma Sandbox_Validate_NoneD:
  assumes "Sandbox_Validate s = None"
  shows "valid_id (sb_ID s)" and "SandboxConfig_Validate (sb_Config s) = None"
    and "\<not> Digest_IsZero (sb_ImageDigest s)" and "sb_Generation s \<noteq> 0"
    and "VMMType_Validate (sb_VMM s) = None" and "NetworkSetup_Validate (sb_Network s) = None"
    and "sb_State s \<in> set valid_states" and "sb_State s = SandboxStateError \<longleftrightarrow> sb_Failure s \<noteq> None"
    and "network_owner_check s = None"
  using assms by (auto simp: Sandbox_Validate_def valid_id_def split: sum.splits)

section \<open>Properties\<close>

text \<open>
   \<open>ResolveDataDisks\<close> keeps the inherited disks as a prefix and every explicitly named addition
  unchanged at its position; an unnamed addition only gets a \<open>dataN\<close> name; the result has at most 32
  disks with valid, pairwise distinct names, so it passes the disk checks of the sandbox
  configuration.
\<close>

theorem ResolveDataDisks_assigns:
  assumes "ResolveDataDisks inherited additions = Inr r"
  shows "length r = length inherited + length additions \<and> length r \<le> MaxDataDisks
    \<and> take (length inherited) r = inherited \<and> disks_loop [] r = None \<and> distinct (map dd_Name r)
    \<and> (\<forall>i < length additions.
         if dd_Name (additions ! i) = []
         then \<exists>k. r ! (length inherited + i) = (additions ! i)\<lparr>dd_Name := data_name k\<rparr>
         else r ! (length inherited + i) = additions ! i)"
proof -
  from assms [unfolded ResolveDataDisks_Inr] have
    len: "length inherited + length additions \<le> MaxDataDisks" and
    valid: "\<forall>s \<in> set inherited \<union> set (named additions). DataDiskSpec_Validate s = None" and
    dist: "distinct (map dd_Name (inherited @ named additions))" and
    assign: "assign_names 1 (rev (map dd_Name (named additions)) @ rev (map dd_Name inherited)) inherited additions = Inr r"
    by blast+
  have "distinct (map dd_Name r) \<and> (\<exists>r'. r = inherited @ r' \<and> list_all2 assigned additions r')"
    by (rule assign_names_sound [OF assign]) (use dist in auto)
  then obtain r' where r: "r = inherited @ r'" "list_all2 assigned additions r'" "distinct (map dd_Name r)"
    by blast
  have "DataDiskSpec_Validate s = None" if "s \<in> set r'" for s
    using that r(2) by (auto simp: list_all2_conv_all_nth in_set_conv_nth assigned_def)
  then have "disks_loop [] r = None"
    using r valid by (auto simp: disks_loop_None)
  moreover have "\<forall>i < length additions. if dd_Name (additions ! i) = []
         then \<exists>k. r ! (length inherited + i) = (additions ! i)\<lparr>dd_Name := data_name k\<rparr>
         else r ! (length inherited + i) = additions ! i"
    unfolding r(1) nth_append_length_plus using r(2) by (auto simp: list_all2_conv_all_nth assigned_def split: if_splits)
  moreover have "length r = length inherited + length additions"
    using r(1) list_all2_lengthD [OF r(2)] by simp
  moreover from this len have "length r \<le> MaxDataDisks" by simp
  moreover have "take (length inherited) r = inherited" using r(1) by simp
  ultimately show ?thesis using r(3) by blast
qed

text \<open>
  C39. \<open>ResolveDataDisks\<close> succeeds exactly when the total is at most 32, the inherited and the
  explicitly named disks are valid with pairwise distinct names, and every unnamed addition has a
  supported size and filesystem: the search for a free \<open>dataN\<close> name always ends with a valid name.
\<close>

theorem ResolveDataDisks_succeeds_iff:
  "(\<exists>r. ResolveDataDisks inherited additions = Inr r) \<longleftrightarrow>
     length inherited + length additions \<le> MaxDataDisks
     \<and> (\<forall>s \<in> set inherited \<union> set (named additions). DataDiskSpec_Validate s = None)
     \<and> distinct (map dd_Name (inherited @ named additions))
     \<and> (\<forall>s \<in> set additions. dd_Name s = [] \<longrightarrow>
          MinDataDiskSize \<le> dd_Size s \<and> (dd_FSType s = ''ext4'' \<or> dd_FSType s = ''none''))"
  (is "?L \<longleftrightarrow> ?R")
proof
  assume ?L
  then obtain r where r: "ResolveDataDisks inherited additions = Inr r" ..
  note facts = r [unfolded ResolveDataDisks_Inr]
  have "distinct (map dd_Name r) \<and> (\<exists>r'. r = inherited @ r' \<and> list_all2 assigned additions r')"
    by (rule assign_names_sound) (use facts in auto)
  then have "list_all2 assigned additions (drop (length inherited) r)" by auto
  then have "\<exists>s'. assigned s s'" if "s \<in> set additions" for s
    using that by (metis in_set_conv_nth list_all2_conv_all_nth)
  moreover have "MinDataDiskSize \<le> dd_Size s \<and> (dd_FSType s = ''ext4'' \<or> dd_FSType s = ''none'')"
    if "assigned s s'" "dd_Name s = []" for s s'
    using that by (auto simp: assigned_def DataDiskSpec_Validate_def not_less)
  ultimately show ?R using facts by blast
next
  assume R: ?R
  have "length (rev (map dd_Name (named additions)) @ rev (map dd_Name inherited)) + length additions \<le> 64"
  proof -
    have "length inherited + length additions \<le> 32" using R by (simp add: MaxDataDisks_def)
    then show ?thesis using length_filter_le [of "\<lambda>s. dd_Name s \<noteq> []" additions]
      unfolding length_append length_rev length_map by linarith
  qed
  then have "\<exists>r. assign_names 1 (rev (map dd_Name (named additions)) @ rev (map dd_Name inherited)) inherited additions = Inr r"
    using R by (intro assign_names_total) auto
  with R show ?L unfolding ResolveDataDisks_Inr by blast
qed

definition sample_disk :: "string \<Rightarrow> DataDiskSpec" where
  "sample_disk name = \<lparr>dd_Name = name, dd_Size = 2 ^ 24, dd_FSType = ''ext4'', dd_DirectIO = None\<rparr>"

lemma sample_disk_valid:
  "DataDiskSpec_Validate (sample_disk ''data1'') = None" "DataDiskSpec_Validate (sample_disk ''data2'') = None"
  by (simp_all add: DataDiskSpec_Validate_def sample_disk_def MinDataDiskSize_def validDataDiskName_def
      match_name_def is_lower_def is_digit_def HasPrefix_def)

theorem ResolveDataDisks_succeeds_iff_witness:
  "\<exists>r. ResolveDataDisks [sample_disk ''data1''] [sample_disk [], sample_disk ''data2''] = Inr r"
  by (simp only: ResolveDataDisks_succeeds_iff)
    (use sample_disk_valid in \<open>auto simp: sample_disk_def MaxDataDisks_def MinDataDiskSize_def\<close>)

theorem ResolveDataDisks_assigns_witness:
  "distinct (map dd_Name [sample_disk ''data1'', sample_disk ''data2''])"
proof -
  have "next_free (Suc 0) [''data1''] = 2"
    by (simp add: next_free.simps dec_nat.simps digit_chars)
  then have "ResolveDataDisks [sample_disk ''data1''] [sample_disk []] = Inr [sample_disk ''data1'', sample_disk ''data2'']"
    using sample_disk_valid by (simp add: ResolveDataDisks_def sample_disk_def MaxDataDisks_def Let_def dec_nat.simps digit_chars)
  from ResolveDataDisks_assigns [OF this] show ?thesis by blast
qed

text \<open>
   \<open>SameGuest\<close> compares the whole persisted guest shape and nothing else: two configurations are
  the same guest exactly when they agree on every field after the host scheduling policy is erased,
  the disk mode is reduced to its cache policy and an empty network backend is read as CNI. It is
  therefore an equivalence relation.
\<close>

theorem SameGuest_iff_shape: "SameGuest c d \<longleftrightarrow> guest_shape c = guest_shape d"
proof -
  have "SameGuest c d \<longleftrightarrow> cfg_Name c = cfg_Name d \<and> cfg_CPUs c = cfg_CPUs d \<and> cfg_Memory c = cfg_Memory d
      \<and> cfg_SharedMemory c = cfg_SharedMemory d \<and> cfg_HugePages c = cfg_HugePages d
      \<and> cfg_Mergeable c = cfg_Mergeable d \<and> cfg_NoBalloon c = cfg_NoBalloon d \<and> cfg_Storage c = cfg_Storage d
      \<and> DiskIOMode_DirectIO (cfg_COWIOMode c) = DiskIOMode_DirectIO (cfg_COWIOMode d)
      \<and> cfg_NICs c = cfg_NICs d \<and> cfg_NetworkName c = cfg_NetworkName d
      \<and> effectiveNetworkBackend c = effectiveNetworkBackend d \<and> cfg_BridgeStatic c = cfg_BridgeStatic d
      \<and> cfg_DataDisks c = cfg_DataDisks d"
    using list_all_zip_eq [of "cfg_DataDisks c" "cfg_DataDisks d"]
    by (auto simp: SameGuest_def same_disk_iff)
  also have "\<dots> \<longleftrightarrow> guest_shape c = guest_shape d"
    by (cases c; cases d) (auto simp: guest_shape_def)
  finally show ?thesis .
qed

text \<open>
   A valid sandbox that claims network interfaces in a state that consumes them has a network
  owner, exactly as many interfaces as its configuration asks for, each at its own index and on the
  configured network.
\<close>

theorem Sandbox_Validate_network:
  assumes "Sandbox_Validate s = None" and "0 < cfg_NICs (sb_Config s)"
    and "sb_State s \<notin> {SandboxStateCreating, SandboxStateError, SandboxStateDeleting}"
  shows "net_Backend (sb_Network s) \<noteq> [] \<and> int (length (net_Interfaces (sb_Network s))) = cfg_NICs (sb_Config s)
    \<and> (\<forall>i < length (net_Interfaces (sb_Network s)). nic_Index (net_Interfaces (sb_Network s) ! i) = int i
          \<and> nic_Network (net_Interfaces (sb_Network s) ! i) = cfg_NetworkName (sb_Config s))"
proof -
  note v = Sandbox_Validate_NoneD [OF assms(1)]
  from v(9) assms(2,3) have backend: "net_Backend (sb_Network s) \<noteq> []"
    by (auto simp: network_owner_check_def split: if_splits)
  with v(9) have owner: "int (length (net_Interfaces (sb_Network s))) = cfg_NICs (sb_Config s)"
    "\<forall>n \<in> set (net_Interfaces (sb_Network s)). nic_Network n = cfg_NetworkName (sb_Config s)"
    by (auto simp: network_owner_check_def list_ex_iff)
  have "interfaces_loop (net_Backend (sb_Network s)) 0 (- 1) [] (net_Interfaces (sb_Network s)) = None"
    using v(6) backend by (simp add: NetworkSetup_Validate_def)
  then have "\<forall>i < length (net_Interfaces (sb_Network s)). nic_Index (net_Interfaces (sb_Network s) ! i) = int i"
    by (subst (asm) interfaces_loop_None) auto
  with backend owner show ?thesis by simp
qed

subsection \<open>Concrete records\<close>

definition sample_id :: SandboxID where
  "sample_id = ''00000000-0000-4000-8000-000000000001''"

definition sample_digest :: Digest where
  "sample_digest = \<lparr>digest_value = replicate 32 1\<rparr>"

definition sample_config :: SandboxConfig where
  "sample_config = \<lparr>cfg_Name = ''box'', cfg_CPUs = 2,
     cfg_CPUPolicy = \<lparr>pol_Weight = 0, pol_QuotaUS = 0, pol_PeriodUS = 0, pol_BurstUS = 0, pol_CPUSet = []\<rparr>,
     cfg_Memory = 2 ^ 30, cfg_SharedMemory = False, cfg_HugePages = False, cfg_Mergeable = False,
     cfg_NoBalloon = False, cfg_Storage = 10 * 2 ^ 30, cfg_COWIOMode = [], cfg_NICs = 0, cfg_NetworkName = [],
     cfg_NetworkBackend = [], cfg_BridgeStatic = False, cfg_DataDisks = []\<rparr>"

definition sample_sandbox :: Sandbox where
  "sample_sandbox = \<lparr>sb_ID = sample_id, sb_Config = sample_config, sb_ImageDigest = sample_digest,
     sb_VMM = VMMCloudHypervisor, sb_Network = NetworkSetup_zero, sb_State = SandboxStateCreating, sb_Generation = 1,
     sb_Failure = None, sb_CreatedAt = 10, sb_UpdatedAt = 10\<rparr>"

definition sample_networked :: Sandbox where
  "sample_networked = sample_sandbox\<lparr>sb_Config := sample_config\<lparr>cfg_NICs := 1, cfg_NetworkName := ''kb'',
       cfg_NetworkBackend := ''ebpf''\<rparr>,
     sb_Network := \<lparr>net_Backend = ''ebpf'', net_Namespace = [], net_Interfaces = [sample_nic]\<rparr>,
     sb_State := SandboxStateRunning, sb_Generation := 4\<rparr>"

lemma sample_id_valid: "valid_id sample_id"
proof -
  have eq: "sample_id = EncodeToString (replicate 4 0) @ ''-'' @ EncodeToString [0, 0] @ ''-'' @ EncodeToString [0x40, 0]
      @ ''-'' @ EncodeToString [0x80, 0] @ ''-'' @ EncodeToString [0, 0, 0, 0, 0, 1]"
    by (simp add: sample_id_def EncodeToString_def hex_byte_def hex_char_def digit_chars replicate_numeral)
  show ?thesis unfolding eq by (rule valid_id_uuid) simp_all
qed

lemma sample_config_valid: "SandboxConfig_Validate sample_config = None"
  "SandboxConfig_Validate (sample_config\<lparr>cfg_NICs := 1, cfg_NetworkName := ''kb'', cfg_NetworkBackend := ''ebpf''\<rparr>) = None"
  by (simp_all add: SandboxConfig_Validate_def sample_config_def DiskIOMode_Validate_def validSandboxName_def
      match_name_def is_alnum_def is_lower_def MaxSandboxCPUs_def CPUPolicy_Resolve_def cpuRanges_def min_def
      MinSandboxMemory_def MinSandboxStorage_def MaxSandboxNICs_def MaxDataDisks_def NetworkBackend_Validate_def
      validNetworkName_def)

lemma sample_sandbox_valid: "Sandbox_Validate sample_sandbox = None"
  using sample_id_valid sample_config_valid(1)
  by (simp add: Sandbox_Validate_def sample_sandbox_def ParseSandboxID_valid Digest_IsZero_def Digest_zero_def
      sample_digest_def VMMType_Validate_def network_owner_check_def valid_states_def replicate_numeral)
    (simp add: sample_config_def NetworkSetup_zero_def)

lemma sample_networked_valid: "Sandbox_Validate sample_networked = None"
proof -
  have "NetworkSetup_Validate \<lparr>net_Backend = ''ebpf'', net_Namespace = [], net_Interfaces = [sample_nic]\<rparr> = None"
    using sample_nic_valid(1) interfaces_loop_None [of "-1" 0 "[]" "''ebpf''" "[sample_nic]"]
    by (simp add: NetworkSetup_Validate_def NetworkBackend_Validate_def) (simp add: sample_nic_def)
  then show ?thesis
    using sample_id_valid sample_config_valid(2)
    by (simp add: Sandbox_Validate_def sample_networked_def sample_sandbox_def ParseSandboxID_valid Digest_IsZero_def
        Digest_zero_def sample_digest_def VMMType_Validate_def network_owner_check_def valid_states_def replicate_numeral)
      (simp add: sample_nic_def)
qed

theorem Sandbox_Validate_network_witness:
  "int (length (net_Interfaces (sb_Network sample_networked))) = cfg_NICs (sb_Config sample_networked)"
  using Sandbox_Validate_network [OF sample_networked_valid]
  by (simp add: sample_networked_def sample_sandbox_def)

end
