(* ===== verification/Images.thy ===== *)
theory Images
  imports Types_Values
begin

text \<open>
  Image values (\<open>internal/types/image.go\<close>) and the facts an import commits: boot selection across
  layers (\<open>internal/images/boot.go\<close>), the consistency of a commit (\<open>internal/images/catalog.go\<close>) and of a
  committed image (\<open>internal/images/verify.go\<close>).
\<close>

section \<open>Values\<close>

type_synonym BootProfile = string

record Platform =
  plat_OS :: string
  plat_Architecture :: string

record BootFile =
  bf_Name :: string
  bf_Digest :: Digest
  bf_Size :: int

record Layer =
  layer_SourceDigest :: Digest
  layer_EROFSDigest :: Digest
  layer_Size :: int
  layer_BootFiles :: "BootFile list"
  layer_Whiteouts :: "string list"
  layer_BootOpaque :: bool

record Boot =
  boot_Profile :: BootProfile
  boot_KernelFile :: string
  boot_InitrdFile :: string
  boot_KernelLayer :: Digest
  boot_InitrdLayer :: Digest

record Image =
  img_Names :: "string list"
  img_RegistryReference :: string
  img_ManifestDigest :: Digest
  img_Platform :: Platform
  img_Layers :: "Layer list"
  img_Boot :: Boot
  img_Size :: int
  img_CreatedAt :: time

record Descriptor =
  desc_Digest :: Digest
  desc_Size :: int

record Manifest =
  man_Digest :: Digest
  man_Platform :: Platform
  man_BootProfile :: BootProfile
  man_Layers :: "Descriptor list"

definition Platform_Valid :: "Platform \<Rightarrow> bool" where
  "Platform_Valid p \<longleftrightarrow> plat_OS p = ''linux'' \<and> (plat_Architecture p = ''amd64'' \<or> plat_Architecture p = ''arm64'')"

definition Layer_Equal :: "Layer \<Rightarrow> Layer \<Rightarrow> bool" where
  "Layer_Equal a b \<longleftrightarrow> layer_SourceDigest a = layer_SourceDigest b \<and> layer_EROFSDigest a = layer_EROFSDigest b
     \<and> layer_Size a = layer_Size b \<and> layer_BootOpaque a = layer_BootOpaque b
     \<and> layer_BootFiles a = layer_BootFiles b \<and> layer_Whiteouts a = layer_Whiteouts b"

lemma Layer_Equal_iff: "Layer_Equal a b \<longleftrightarrow> a = b"
  by (cases a; cases b) (auto simp: Layer_Equal_def)

section \<open>Boot selection\<close>

definition IsBootName :: "string \<Rightarrow> bool" where
  "IsBootName name \<longleftrightarrow> Base name = name \<and> \<not> HasSuffix name ''.old''
     \<and> (HasPrefix name ''vmlinuz'' \<or> HasPrefix name ''initrd.img'')"

record candidate =
  cand_layer :: Digest
  cand_file :: BootFile

definition drop_named :: "string \<Rightarrow> candidate list \<Rightarrow> candidate list" where
  "drop_named name cs = filter (\<lambda>c. bf_Name (cand_file c) \<noteq> name) cs"

text \<open>One layer of the loop: opaque reset, named whiteouts, then the layer's own files.\<close>

definition boot_layer :: "candidate list \<Rightarrow> Layer \<Rightarrow> candidate list" where
  "boot_layer candidates layer =
     (let c0 = (if layer_BootOpaque layer then [] else candidates);
          c1 = foldl (\<lambda>cs name. drop_named name cs) c0 (layer_Whiteouts layer)
      in foldl (\<lambda>cs file. drop_named (bf_Name file) cs
           @ [\<lparr>cand_layer = layer_SourceDigest layer, cand_file = file\<rparr>]) c1 (layer_BootFiles layer))"

definition boot_candidates :: "Layer list \<Rightarrow> candidate list" where
  "boot_candidates layers = foldl boot_layer [] layers"

definition Boot_zero :: Boot where
  "Boot_zero = \<lparr>boot_Profile = [], boot_KernelFile = [], boot_InitrdFile = [], boot_KernelLayer = Digest_zero,
     boot_InitrdLayer = Digest_zero\<rparr>"

definition pick_boot :: "Boot \<Rightarrow> candidate \<Rightarrow> Boot" where
  "pick_boot boot c =
     (let b1 = (if HasPrefix (bf_Name (cand_file c)) ''vmlinuz''
                then boot\<lparr>boot_KernelLayer := cand_layer c, boot_KernelFile := bf_Name (cand_file c)\<rparr> else boot)
      in if HasPrefix (bf_Name (cand_file c)) ''initrd.img''
         then b1\<lparr>boot_InitrdLayer := cand_layer c, boot_InitrdFile := bf_Name (cand_file c)\<rparr> else b1)"

definition SelectBoot :: "Layer list \<Rightarrow> gerr + Boot" where
  "SelectBoot layers = (let boot = foldl pick_boot Boot_zero (boot_candidates layers) in
     if Digest_IsZero (boot_KernelLayer boot)
     then Inl (New 0 ClassInvalid CodeHostIncompatible (Some (Msg ''image is missing a regular /boot/vmlinuz* kernel'')))
     else if Digest_IsZero (boot_InitrdLayer boot)
     then Inl (New 0 ClassInvalid CodeHostIncompatible (Some (Msg ''image is missing a regular /boot/initrd.img* initrd'')))
     else Inr boot)"

section \<open>Commit facts\<close>

record ImportCommit =
  com_Name :: string
  com_RegistryReference :: string
  com_Manifest :: Manifest
  com_Layers :: "Layer list"
  com_Boot :: Boot
  com_Size :: int
  com_Created :: time

record Removal =
  rem_Names :: "string list"
  rem_Layers :: "Digest list"

fun boot_files_check :: "string list \<Rightarrow> BootFile list \<Rightarrow> gerr option" where
  "boot_files_check seen [] = None"
| "boot_files_check seen (f # fs) =
     (if \<not> IsBootName (bf_Name f) \<or> Digest_IsZero (bf_Digest f) \<or> bf_Size f \<le> 0 \<or> List.member seen (bf_Name f)
      then Some (Msg ''invalid boot file metadata'')
      else boot_files_check (bf_Name f # seen) fs)"

text \<open>The layer loop of \<open>Validate\<close>: the manifest descriptors beside the layers, and the size so far.\<close>

fun commit_layers :: "int \<Rightarrow> (Layer \<times> Descriptor) list \<Rightarrow> gerr + int" where
  "commit_layers sz [] = Inr sz"
| "commit_layers sz ((layer, d) # rest) =
     guard_err (first_error [
       check (Digest_IsZero (layer_SourceDigest layer) \<or> Digest_IsZero (layer_EROFSDigest layer)
           \<or> layer_SourceDigest layer \<noteq> desc_Digest d \<or> layer_Size layer \<le> 0
           \<or> max_int64 - layer_Size layer < sz) (Msg ''invalid layer identity, order or size''),
       boot_files_check [] (layer_BootFiles layer),
       check (list_ex (\<lambda>n. \<not> IsBootName n) (layer_Whiteouts layer)) (Msg ''invalid boot whiteout'')])
     (commit_layers (sz + layer_Size layer) rest)"

definition ImportCommit_Validate :: "ImportCommit \<Rightarrow> gerr option" where
  "ImportCommit_Validate commit =
     (if com_Name commit = [] \<or> Digest_IsZero (man_Digest (com_Manifest commit))
         \<or> \<not> Platform_Valid (man_Platform (com_Manifest commit)) \<or> com_Layers commit = []
         \<or> length (com_Layers commit) \<noteq> length (man_Layers (com_Manifest commit)) \<or> IsZero (com_Created commit)
      then Some (Msg ''invalid image name, manifest, platform, layers or creation time'')
      else case commit_layers 0 (zip (com_Layers commit) (man_Layers (com_Manifest commit))) of
        Inl e \<Rightarrow> Some e
      | Inr sz \<Rightarrow> (case SelectBoot (com_Layers commit) of
          Inl _ \<Rightarrow> Some (Msg ''inconsistent boot selection or total image size'')
        | Inr boot \<Rightarrow>
            check (boot\<lparr>boot_Profile := man_BootProfile (com_Manifest commit)\<rparr> \<noteq> com_Boot commit \<or> sz \<noteq> com_Size commit)
              (Msg ''inconsistent boot selection or total image size'')))"

text \<open>\<open>int64\<close> addition as \<open>validateFacts\<close> performs it, without an overflow check.\<close>

definition wrap64 :: "int \<Rightarrow> int" where
  "wrap64 x = (x + 2 ^ 63) mod 2 ^ 64 - 2 ^ 63"

definition validateFacts :: "Image \<Rightarrow> gerr option" where
  "validateFacts im =
     (let tot = foldl (\<lambda>t l. wrap64 (t + layer_Size l)) 0 (img_Layers im) in
      case SelectBoot (img_Layers im) of
        Inl _ \<Rightarrow> Some (New 0 ClassCorrupt CodeArtifactCorrupt (Some (Msg ''image layer mapping or boot selection is inconsistent'')))
      | Inr boot \<Rightarrow>
          check (boot\<lparr>boot_Profile := boot_Profile (img_Boot im)\<rparr> \<noteq> img_Boot im \<or> tot \<noteq> img_Size im)
            (New 0 ClassCorrupt CodeArtifactCorrupt (Some (Msg ''image layer mapping or boot selection is inconsistent''))))"

section \<open>Overlay semantics\<close>

text \<open>The specification: what a name in \<open>/boot\<close> shows in a stack of layers, top layer first. The top
  layer's own file wins; otherwise its whiteout or opaque marker hides everything below.\<close>

fun overlay :: "Layer list \<Rightarrow> string \<Rightarrow> (Digest \<times> BootFile) option" where
  "overlay [] n = None"
| "overlay (l # below) n =
     (case find (\<lambda>f. bf_Name f = n) (rev (layer_BootFiles l)) of
        Some f \<Rightarrow> Some (layer_SourceDigest l, f)
      | None \<Rightarrow> if layer_BootOpaque l \<or> n \<in> set (layer_Whiteouts l) then None else overlay below n)"

abbreviation cname :: "candidate \<Rightarrow> string" where
  "cname c \<equiv> bf_Name (cand_file c)"

definition shows_overlay :: "candidate list \<Rightarrow> (string \<Rightarrow> (Digest \<times> BootFile) option) \<Rightarrow> bool" where
  "shows_overlay cs view \<longleftrightarrow> distinct (map cname cs)
     \<and> (\<forall>d f. view (bf_Name f) = Some (d, f) \<longleftrightarrow> \<lparr>cand_layer = d, cand_file = f\<rparr> \<in> set cs)
     \<and> (\<forall>n d f. view n = Some (d, f) \<longrightarrow> bf_Name f = n)"

lemma shows_overlay_empty [simp]: "shows_overlay [] (\<lambda>_. None)"
  by (simp add: shows_overlay_def)

lemma shows_overlay_drop: "shows_overlay cs view \<Longrightarrow> shows_overlay (drop_named n cs) (view(n := None))"
  by (auto simp: shows_overlay_def drop_named_def distinct_map_filter)

lemma shows_overlay_add:
  "shows_overlay cs view \<Longrightarrow>
     shows_overlay (drop_named (bf_Name f) cs @ [\<lparr>cand_layer = d, cand_file = f\<rparr>]) (view(bf_Name f := Some (d, f)))"
  by (auto simp: shows_overlay_def drop_named_def distinct_map_filter)

lemma shows_overlay_whiteouts:
  "shows_overlay cs view \<Longrightarrow>
     shows_overlay (foldl (\<lambda>cs n. drop_named n cs) cs ws) (\<lambda>n. if n \<in> set ws then None else view n)"
proof (induction ws arbitrary: cs view)
  case (Cons w ws)
  have "(\<lambda>n. if n \<in> set ws then None else (view(w := None)) n) = (\<lambda>n. if n \<in> set (w # ws) then None else view n)"
    by auto
  with Cons.IH [OF shows_overlay_drop [OF Cons.prems, of w]] show ?case by simp
qed simp

lemma shows_overlay_files:
  "shows_overlay cs view \<Longrightarrow>
     shows_overlay (foldl (\<lambda>cs f. drop_named (bf_Name f) cs @ [\<lparr>cand_layer = d, cand_file = f\<rparr>]) cs fs)
       (\<lambda>n. case find (\<lambda>f. bf_Name f = n) (rev fs) of Some f \<Rightarrow> Some (d, f) | None \<Rightarrow> view n)"
proof (induction fs rule: rev_induct)
  case (snoc f fs)
  let ?view = "\<lambda>n. case find (\<lambda>f. bf_Name f = n) (rev fs) of Some f \<Rightarrow> Some (d, f) | None \<Rightarrow> view n"
  have "(\<lambda>n. case find (\<lambda>f. bf_Name f = n) (rev (fs @ [f])) of Some f \<Rightarrow> Some (d, f) | None \<Rightarrow> view n)
      = ?view(bf_Name f := Some (d, f))"
    by auto
  with shows_overlay_add [OF snoc.IH [OF snoc.prems], of f d] show ?case by simp
qed simp

lemma boot_layer_overlay:
  assumes "shows_overlay cs (overlay below)"
  shows "shows_overlay (boot_layer cs l) (overlay (l # below))"
proof -
  let ?v0 = "if layer_BootOpaque l then (\<lambda>_. None) else overlay below"
  have "shows_overlay (if layer_BootOpaque l then [] else cs) ?v0" using assms by simp
  from shows_overlay_files [OF shows_overlay_whiteouts [OF this, of "layer_Whiteouts l"],
      of "layer_SourceDigest l" "layer_BootFiles l"]
  have "shows_overlay (boot_layer cs l) (\<lambda>n. case find (\<lambda>f. bf_Name f = n) (rev (layer_BootFiles l)) of
      Some f \<Rightarrow> Some (layer_SourceDigest l, f)
    | None \<Rightarrow> if n \<in> set (layer_Whiteouts l) then None else ?v0 n)"
    by (simp add: boot_layer_def Let_def)
  moreover have "(\<lambda>n. case find (\<lambda>f. bf_Name f = n) (rev (layer_BootFiles l)) of
      Some f \<Rightarrow> Some (layer_SourceDigest l, f)
    | None \<Rightarrow> if n \<in> set (layer_Whiteouts l) then None else ?v0 n) = overlay (l # below)"
    by (auto split: option.splits)
  ultimately show ?thesis by simp
qed

lemma boot_candidates_overlay: "shows_overlay (boot_candidates layers) (overlay (rev layers))"
proof (induction layers rule: rev_induct)
  case Nil
  show ?case by (simp add: boot_candidates_def)
next
  case (snoc l ls)
  from boot_layer_overlay [OF snoc, of l] show ?case by (simp add: boot_candidates_def del: overlay.simps)
qed

text \<open>The selection loop keeps the last candidate of each kind.\<close>

definition is_kernel :: "candidate \<Rightarrow> bool" where
  "is_kernel c \<longleftrightarrow> HasPrefix (cname c) ''vmlinuz''"

definition is_initrd :: "candidate \<Rightarrow> bool" where
  "is_initrd c \<longleftrightarrow> HasPrefix (cname c) ''initrd.img''"

lemma pick_boot_fold:
  "foldl pick_boot b cs = b\<lparr>
     boot_KernelLayer := (if filter is_kernel cs = [] then boot_KernelLayer b else cand_layer (last (filter is_kernel cs))),
     boot_KernelFile := (if filter is_kernel cs = [] then boot_KernelFile b else cname (last (filter is_kernel cs))),
     boot_InitrdLayer := (if filter is_initrd cs = [] then boot_InitrdLayer b else cand_layer (last (filter is_initrd cs))),
     boot_InitrdFile := (if filter is_initrd cs = [] then boot_InitrdFile b else cname (last (filter is_initrd cs)))\<rparr>"
  by (induction cs rule: rev_induct) (auto simp: pick_boot_def is_kernel_def is_initrd_def Let_def)

lemma SelectBoot_Inr:
  assumes "SelectBoot layers = Inr boot"
  shows "filter is_kernel (boot_candidates layers) \<noteq> [] \<and> filter is_initrd (boot_candidates layers) \<noteq> []
    \<and> boot_KernelLayer boot = cand_layer (last (filter is_kernel (boot_candidates layers)))
    \<and> boot_KernelFile boot = cname (last (filter is_kernel (boot_candidates layers)))
    \<and> boot_InitrdLayer boot = cand_layer (last (filter is_initrd (boot_candidates layers)))
    \<and> boot_InitrdFile boot = cname (last (filter is_initrd (boot_candidates layers)))"
  using assms by (auto simp: SelectBoot_def Let_def pick_boot_fold Boot_zero_def Digest_IsZero_def split: if_splits)

lemma last_filter_in: "filter P cs \<noteq> [] \<Longrightarrow> last (filter P cs) \<in> set cs \<and> P (last (filter P cs))"
  using last_in_set [of "filter P cs"] by auto

lemma candidate_eta: "\<lparr>cand_layer = cand_layer c, cand_file = cand_file c\<rparr> = c"
  by (cases c) simp

lemma candidate_overlay: "c \<in> set (boot_candidates layers) \<Longrightarrow> overlay (rev layers) (cname c) = Some (cand_layer c, cand_file c)"
  using boot_candidates_overlay [of layers] by (auto simp: shows_overlay_def candidate_eta)

lemma last_filter_append: "filter P ys \<noteq> [] \<Longrightarrow> last (filter P (xs @ ys)) = last (filter P ys)"
  by simp

text \<open>The files of the top layer stand at the end of the candidates, all with its own digest.\<close>

lemma boot_files_tail:
  "\<exists>old new. foldl (\<lambda>cs f. drop_named (bf_Name f) cs @ [\<lparr>cand_layer = d, cand_file = f\<rparr>]) cs fs = old @ new
     \<and> (\<forall>c \<in> set new. cand_layer c = d) \<and> cname ` set new = bf_Name ` set fs"
proof (induction fs rule: rev_induct)
  case Nil
  have "foldl (\<lambda>cs f. drop_named (bf_Name f) cs @ [\<lparr>cand_layer = d, cand_file = f\<rparr>]) cs [] = cs @ []" by simp
  then show ?case by force
next
  case (snoc f fs)
  then obtain old new where o: "foldl (\<lambda>cs f. drop_named (bf_Name f) cs @ [\<lparr>cand_layer = d, cand_file = f\<rparr>]) cs fs = old @ new"
    "\<forall>c \<in> set new. cand_layer c = d" "cname ` set new = bf_Name ` set fs"
    by blast
  let ?new = "drop_named (bf_Name f) new @ [\<lparr>cand_layer = d, cand_file = f\<rparr>]"
  have "foldl (\<lambda>cs f. drop_named (bf_Name f) cs @ [\<lparr>cand_layer = d, cand_file = f\<rparr>]) cs (fs @ [f])
      = drop_named (bf_Name f) old @ ?new"
    using o(1) by (simp add: drop_named_def)
  moreover have "cname ` set ?new = bf_Name ` set (fs @ [f])"
  proof -
    have "cname ` set (drop_named (bf_Name f) new) = cname ` set new - {bf_Name f}"
      by (auto simp: drop_named_def)
    with o(3) show ?thesis by auto
  qed
  moreover have "\<forall>c \<in> set ?new. cand_layer c = d" using o(2) by (auto simp: drop_named_def)
  ultimately show ?case by blast
qed

lemma top_kernel:
  assumes "f \<in> set (layer_BootFiles l)" and "HasPrefix (bf_Name f) ''vmlinuz''"
  shows "cand_layer (last (filter is_kernel (boot_candidates (ls @ [l])))) = layer_SourceDigest l"
proof -
  obtain old new where o: "boot_candidates (ls @ [l]) = old @ new"
    "\<forall>c \<in> set new. cand_layer c = layer_SourceDigest l" "cname ` set new = bf_Name ` set (layer_BootFiles l)"
  proof -
    have "\<exists>old new. boot_candidates (ls @ [l]) = old @ new
        \<and> (\<forall>c \<in> set new. cand_layer c = layer_SourceDigest l) \<and> cname ` set new = bf_Name ` set (layer_BootFiles l)"
      unfolding boot_candidates_def foldl_append foldl_Cons foldl_Nil boot_layer_def Let_def by (rule boot_files_tail)
    with that show thesis by blast
  qed
  from assms(1) o(3) obtain c where c: "c \<in> set new" "cname c = bf_Name f"
    by (metis (no_types, lifting) image_eqI imageE)
  then have "is_kernel c" using assms(2) by (simp add: is_kernel_def)
  with c(1) have ne: "filter is_kernel new \<noteq> []" by (auto simp: filter_empty_conv)
  then show ?thesis
    using o(1,2) last_filter_in [OF ne] by (simp add: last_filter_append [OF ne])
qed

lemma commit_layers_Inr:
  "commit_layers sz lds = Inr tot \<Longrightarrow> 0 \<le> sz \<Longrightarrow> sz \<le> max_int64 \<Longrightarrow>
     tot = sz + sum_list (map (layer_Size \<circ> fst) lds) \<and> sz \<le> tot \<and> tot \<le> max_int64
     \<and> (\<forall>(l, d) \<in> set lds. layer_SourceDigest l = desc_Digest d \<and> 0 < layer_Size l)"
  by (induction sz lds rule: commit_layers.induct) (force simp: not_less not_le)+

lemma zip_map_eq: "length xs = length ys \<Longrightarrow> \<forall>(x, y) \<in> set (zip xs ys). f x = g y \<Longrightarrow> map f xs = map g ys"
  by (induction xs ys rule: list_induct2) auto

lemma wrap64_id: "0 \<le> x \<Longrightarrow> x \<le> max_int64 \<Longrightarrow> wrap64 x = x"
  by (simp add: wrap64_def max_int64_def)

lemma wrap64_sum:
  "(\<And>l. l \<in> set ls \<Longrightarrow> 0 < layer_Size l) \<Longrightarrow> 0 \<le> t \<Longrightarrow> t + sum_list (map layer_Size ls) \<le> max_int64 \<Longrightarrow>
     foldl (\<lambda>t l. wrap64 (t + layer_Size l)) t ls = t + sum_list (map layer_Size ls)"
proof (induction ls arbitrary: t)
  case (Cons l ls)
  have "0 \<le> sum_list (map layer_Size ls)"
    using Cons.prems(1) by (intro sum_list_nonneg) (auto intro: less_imp_le)
  then have "wrap64 (t + layer_Size l) = t + layer_Size l"
    using Cons.prems(1) [of l] Cons.prems(2,3) by (intro wrap64_id) auto
  then show ?case using Cons.IH [of "t + layer_Size l"] Cons.prems by (auto simp: add.assoc less_imp_le)
qed simp

lemma ImportCommit_facts_all:
  assumes "ImportCommit_Validate commit = None"
  shows "com_Size commit = sum_list (map layer_Size (com_Layers commit)) \<and> com_Size commit \<le> max_int64
    \<and> map layer_SourceDigest (com_Layers commit) = map desc_Digest (man_Layers (com_Manifest commit))
    \<and> (\<forall>im. img_Layers im = com_Layers commit \<and> img_Boot im = com_Boot commit \<and> img_Size im = com_Size commit
         \<longrightarrow> validateFacts im = None)"
proof -
  let ?ls = "com_Layers commit" and ?ds = "man_Layers (com_Manifest commit)"
  from assms obtain tot boot where len: "length ?ls = length ?ds"
    and t: "commit_layers 0 (zip ?ls ?ds) = Inr tot" and sel: "SelectBoot ?ls = Inr boot"
    and boot: "com_Boot commit = boot\<lparr>boot_Profile := man_BootProfile (com_Manifest commit)\<rparr>"
    and tot: "com_Size commit = tot"
    by (auto simp: ImportCommit_Validate_def split: if_splits sum.splits)
  note c = commit_layers_Inr [OF t]
  have sizes: "map (layer_Size \<circ> fst) (zip ?ls ?ds) = map layer_Size ?ls"
    using len by (simp flip: map_map)
  have sum: "tot = sum_list (map layer_Size ?ls)" "tot \<le> max_int64"
    and each: "\<forall>(l, d) \<in> set (zip ?ls ?ds). layer_SourceDigest l = desc_Digest d \<and> 0 < layer_Size l"
    using c by (simp_all add: sizes max_int64_def)
  have pos: "0 < layer_Size l" if "l \<in> set ?ls" for l
    using that each len by (metis (no_types, lifting) case_prodD in_set_impl_in_set_zip1)
  have "map layer_SourceDigest ?ls = map desc_Digest ?ds"
    using len each by (intro zip_map_eq) auto
  moreover have "validateFacts im = None"
    if "img_Layers im = ?ls" "img_Boot im = com_Boot commit" "img_Size im = com_Size commit" for im
    using that sel boot tot sum wrap64_sum [of ?ls 0] pos by (simp add: validateFacts_def)
  ultimately show ?thesis using sum tot by simp
qed

lemma ImportCommit_facts:
  assumes "ImportCommit_Validate commit = None" and "img_Layers im = com_Layers commit"
    and "img_Boot im = com_Boot commit" and "img_Size im = com_Size commit"
  shows "validateFacts im = None"
  using ImportCommit_facts_all [OF assms(1)] assms(2-4) by blast

section \<open>Properties\<close>

text \<open>
  C38. \<open>SelectBoot\<close> agrees with the overlay reading of the layers: the kernel and the initrd it
  selects are visible under the overlay rules (top file wins, whiteouts and opaque markers hide lower
  files), come from the layer the overlay names, and no visible name occurs twice among the
  candidates; a kernel in the top layer is always the one selected.
\<close>

theorem SelectBoot_overlay:
  assumes "SelectBoot layers = Inr boot"
  shows "(\<exists>f. overlay (rev layers) (boot_KernelFile boot) = Some (boot_KernelLayer boot, f))
    \<and> (\<exists>f. overlay (rev layers) (boot_InitrdFile boot) = Some (boot_InitrdLayer boot, f))
    \<and> HasPrefix (boot_KernelFile boot) ''vmlinuz'' \<and> HasPrefix (boot_InitrdFile boot) ''initrd.img''
    \<and> (\<forall>c. c \<in> set (boot_candidates layers) \<longleftrightarrow> overlay (rev layers) (cname c) = Some (cand_layer c, cand_file c))
    \<and> (\<forall>ls l f. layers = ls @ [l] \<and> f \<in> set (layer_BootFiles l) \<and> HasPrefix (bf_Name f) ''vmlinuz''
         \<longrightarrow> boot_KernelLayer boot = layer_SourceDigest l)"
proof -
  note b = SelectBoot_Inr [OF assms]
  have sel: "\<exists>f. overlay (rev layers) (cname c) = Some (cand_layer c, f)" "P c"
    if "c = last (filter P (boot_candidates layers))" "filter P (boot_candidates layers) \<noteq> []" for P c
    using last_filter_in [OF that(2)] candidate_overlay [of c layers] that(1) by blast+
  have "c \<in> set (boot_candidates layers) \<longleftrightarrow> overlay (rev layers) (cname c) = Some (cand_layer c, cand_file c)" for c
    using boot_candidates_overlay [of layers] by (auto simp: shows_overlay_def candidate_eta)
  moreover have "\<exists>f. overlay (rev layers) (boot_KernelFile boot) = Some (boot_KernelLayer boot, f)"
    and "\<exists>f. overlay (rev layers) (boot_InitrdFile boot) = Some (boot_InitrdLayer boot, f)"
    using b sel(1) [OF refl] by simp_all
  moreover have "HasPrefix (boot_KernelFile boot) ''vmlinuz''" and "HasPrefix (boot_InitrdFile boot) ''initrd.img''"
    using b sel(2) [OF refl, of is_kernel] sel(2) [OF refl, of is_initrd]
    unfolding is_kernel_def is_initrd_def by simp_all
  moreover have "boot_KernelLayer boot = layer_SourceDigest l"
    if "layers = ls @ [l]" "f \<in> set (layer_BootFiles l)" "HasPrefix (bf_Name f) ''vmlinuz''" for ls l f
    using b top_kernel [OF that(2,3), of ls] that(1) by simp
  ultimately show ?thesis by blast
qed

text \<open>
   The facts that \<open>ImportCommit.Validate\<close> accepts stay consistent when they are read back: the
  size is the exact sum of the positive layer sizes within \<open>int64\<close>, every layer is the one the
  manifest lists at its position, and \<open>validateFacts\<close>, whose own sum has no overflow check, accepts
  the image.
\<close>

theorem ImportCommit_Validate_facts:
  assumes "ImportCommit_Validate commit = None"
  shows "com_Size commit = sum_list (map layer_Size (com_Layers commit)) \<and> com_Size commit \<le> max_int64
    \<and> map layer_SourceDigest (com_Layers commit) = map desc_Digest (man_Layers (com_Manifest commit))
    \<and> (\<forall>im. img_Layers im = com_Layers commit \<and> img_Boot im = com_Boot commit \<and> img_Size im = com_Size commit
         \<longrightarrow> validateFacts im = None)"
  using ImportCommit_facts_all [OF assms] .

subsection \<open>A concrete image\<close>

definition sample_layer :: Layer where
  "sample_layer = \<lparr>layer_SourceDigest = \<lparr>digest_value = replicate 32 2\<rparr>, layer_EROFSDigest = \<lparr>digest_value = replicate 32 3\<rparr>,
     layer_Size = 4096, layer_BootFiles = [\<lparr>bf_Name = ''vmlinuz-6'', bf_Digest = \<lparr>digest_value = replicate 32 4\<rparr>, bf_Size = 10\<rparr>,
       \<lparr>bf_Name = ''initrd.img-6'', bf_Digest = \<lparr>digest_value = replicate 32 5\<rparr>, bf_Size = 20\<rparr>],
     layer_Whiteouts = [], layer_BootOpaque = False\<rparr>"

definition sample_boot :: Boot where
  "sample_boot = \<lparr>boot_Profile = ''overlay-v1'', boot_KernelFile = ''vmlinuz-6'', boot_InitrdFile = ''initrd.img-6'',
     boot_KernelLayer = \<lparr>digest_value = replicate 32 2\<rparr>, boot_InitrdLayer = \<lparr>digest_value = replicate 32 2\<rparr>\<rparr>"

definition sample_commit :: ImportCommit where
  "sample_commit = \<lparr>com_Name = ''base'', com_RegistryReference = [],
     com_Manifest = \<lparr>man_Digest = \<lparr>digest_value = replicate 32 1\<rparr>, man_Platform = \<lparr>plat_OS = ''linux'', plat_Architecture = ''amd64''\<rparr>,
       man_BootProfile = ''overlay-v1'', man_Layers = [\<lparr>desc_Digest = \<lparr>digest_value = replicate 32 2\<rparr>, desc_Size = 1\<rparr>]\<rparr>,
     com_Layers = [sample_layer], com_Boot = sample_boot, com_Size = 4096, com_Created = 5\<rparr>"

lemma replicate_32_zero: "replicate 32 (n :: byte) = replicate 32 0 \<longleftrightarrow> n = 0"
  by (simp add: replicate_numeral)

lemma sample_SelectBoot: "SelectBoot [sample_layer] = Inr (sample_boot\<lparr>boot_Profile := []\<rparr>)"
  by (simp add: SelectBoot_def boot_candidates_def boot_layer_def drop_named_def sample_layer_def sample_boot_def
      pick_boot_def Boot_zero_def HasPrefix_def Digest_IsZero_def Digest_zero_def replicate_32_zero)

lemma sample_commit_valid: "ImportCommit_Validate sample_commit = None"
  using sample_SelectBoot
  by (simp add: ImportCommit_Validate_def sample_commit_def Platform_Valid_def Digest_IsZero_def Digest_zero_def
      replicate_32_zero sample_boot_def)
    (simp add: sample_layer_def max_int64_def Digest_IsZero_def Digest_zero_def replicate_32_zero IsBootName_def
      Base_def HasSuffix_def HasPrefix_def Let_def)

theorem SelectBoot_overlay_witness:
  "\<exists>f. overlay [sample_layer] ''vmlinuz-6'' = Some (\<lparr>digest_value = replicate 32 2\<rparr>, f)"
  using SelectBoot_overlay [OF sample_SelectBoot] by (simp add: sample_boot_def del: overlay.simps)

theorem ImportCommit_Validate_facts_witness:
  "com_Size sample_commit = sum_list (map layer_Size (com_Layers sample_commit))"
  using ImportCommit_Validate_facts [OF sample_commit_valid] by blast

end
