(* ===== verification/Storage_Paths.thy ===== *)
theory Storage_Paths
  imports Types_Sandbox Images
begin

text \<open>
  Managed paths: the storage roots and the containment check every derived path goes through
  (\<open>internal/storage/roots.go\<close>), and the paths of sandbox and image artifacts
  (\<open>internal/sandbox/paths.go\<close>, \<open>internal/images/artifacts.go\<close>).

  What the operating system answers is a value of \<open>hostfs\<close>: the working directory, one \<open>Lstat\<close>
  per path and \<open>EvalSymlinks\<close>.
\<close>

section \<open>path/filepath\<close>

definition filepath_Join :: "string list \<Rightarrow> string" where
  "filepath_Join elems = (let es = dropWhile (\<lambda>e. e = []) elems in
     if es = [] then [] else Clean (strings_Join es ''/''))"

text \<open>The elements of a cleaned path, without the empty ones around the separators.\<close>

definition elements :: "string \<Rightarrow> string list" where
  "elements s = filter (\<lambda>p. p \<noteq> []) (Split s (CHR ''/''))"

fun strip_common :: "string list \<Rightarrow> string list \<Rightarrow> string list \<times> string list" where
  "strip_common (b # bs) (t # ts) = (if b = t then strip_common bs ts else (b # bs, t # ts))"
| "strip_common bs ts = (bs, ts)"

definition filepath_Rel :: "string \<Rightarrow> string \<Rightarrow> gerr + string" where
  "filepath_Rel basepath targpath =
     (let base = Clean basepath; targ = Clean targpath in
      if targ = base then Inr ''.''
      else
        let base = (if base = ''.'' then [] else base) in
        if IsAbs base \<noteq> IsAbs targ then Inl (Msg ''Rel: can't make path relative'')
        else case strip_common (elements base) (elements targ) of (bs, ts) \<Rightarrow>
          if bs \<noteq> [] \<and> hd bs = ''..'' then Inl (Msg ''Rel: can't make path relative'')
          else Inr (strings_Join (map (\<lambda>_. ''..'') bs @ ts) ''/''))"

section \<open>Roots\<close>

datatype file_kind = Regular int | Directory | Symlink | Special

datatype lstat = Missing | Unreadable gerr | Present file_kind

record hostfs =
  fs_Getwd :: "gerr + string"
  fs_Lstat :: "string \<Rightarrow> lstat"
  fs_EvalSymlinks :: "string \<Rightarrow> gerr + string"

record Roots =
  roots_Data :: string
  roots_Run :: string
  roots_Log :: string

definition filepath_Abs :: "hostfs \<Rightarrow> string \<Rightarrow> gerr + string" where
  "filepath_Abs fs path = (if IsAbs path then Inr (Clean path)
     else bindE (fs_Getwd fs) (\<lambda>wd. Inr (filepath_Join [wd, path])))"

definition DefaultRoots :: Roots where
  "DefaultRoots = \<lparr>roots_Data = ''/var/lib/kumabox'', roots_Run = ''/run/kumabox'', roots_Log = ''/var/log/kumabox''\<rparr>"

text \<open>\<open>system_aliases\<close>: the directories macOS exposes through stable symbolic links.\<close>

definition system_aliases :: "string list" where
  "system_aliases = [''/tmp'', ''/var'', ''/etc'']"

definition within :: "string \<Rightarrow> string \<Rightarrow> bool" where
  "within path root = (case filepath_Rel root path of Inl _ \<Rightarrow> False
     | Inr relative \<Rightarrow> relative \<noteq> ''..'' \<and> \<not> HasPrefix relative ''../'')"

fun check_parts :: "hostfs \<Rightarrow> string \<Rightarrow> string list \<Rightarrow> gerr option" where
  "check_parts fs cur [] = None"
| "check_parts fs cur (part # parts) =
     (let current = filepath_Join [cur, part] in
      case fs_Lstat fs current of
        Missing \<Rightarrow> None
      | Unreadable e \<Rightarrow> Some (Wrap ''inspect managed path: '' e)
      | Present kind \<Rightarrow>
          if kind = Symlink \<and> List.member system_aliases current then
            (case fs_EvalSymlinks fs current of Inl e \<Rightarrow> Some e | Inr resolved \<Rightarrow> check_parts fs resolved parts)
          else if kind = Symlink \<or> (parts \<noteq> [] \<and> kind \<noteq> Directory)
            then Some (Msg ''managed path is not a real directory or file'')
          else check_parts fs current parts)"

definition CheckPath :: "hostfs \<Rightarrow> string \<Rightarrow> gerr option" where
  "CheckPath fs path = (case filepath_Abs fs path of Inl e \<Rightarrow> Some e
     | Inr absolute \<Rightarrow> check_parts fs ''/'' (Split (TrimPrefix absolute ''/'') (CHR ''/'')))"

definition storage_Join :: "hostfs \<Rightarrow> string \<Rightarrow> string list \<Rightarrow> gerr + string" where
  "storage_Join fs root es =
     (if list_ex (\<lambda>e. e = [] \<or> IsAbs e \<or> e = ''..'' \<or> HasPrefix e ''../'') es
      then Inl (Msg ''unsafe managed path element'')
      else let joined = filepath_Join (root # es) in
        if \<not> within joined root then Inl (Msg ''managed path escapes its root'')
        else guard_err (CheckPath fs joined) (Inr joined))"

text \<open>The loop body of \<open>Validate\<close>: one root made absolute, its system alias resolved, its path checked.\<close>

fun resolve_aliases :: "hostfs \<Rightarrow> string list \<Rightarrow> string \<Rightarrow> gerr + string" where
  "resolve_aliases fs [] v = Inr v"
| "resolve_aliases fs (a # as) v =
     (if within v a then
        (case fs_EvalSymlinks fs a of
           Inl _ \<Rightarrow> resolve_aliases fs as v
         | Inr resolved \<Rightarrow> bindE (filepath_Rel a v) (\<lambda>relative. resolve_aliases fs as (filepath_Join [resolved, relative])))
      else resolve_aliases fs as v)"

definition validate_root :: "hostfs \<Rightarrow> string \<Rightarrow> gerr + string" where
  "validate_root fs v =
     (if v = [] then Inl (Msg ''storage root must not be empty'')
      else case filepath_Abs fs v of
        Inl e \<Rightarrow> Inl (Wrap ''resolve storage root: '' e)
      | Inr absolute \<Rightarrow> bindE (resolve_aliases fs system_aliases (Clean absolute)) (\<lambda>v'.
          guard_err (CheckPath fs v') (Inr v')))"

definition roots_overlap :: "string list \<Rightarrow> bool" where
  "roots_overlap ps = list_ex (\<lambda>i. list_ex (\<lambda>j. i \<noteq> j \<and> within (ps ! i) (ps ! j)) [0..<length ps]) [0..<length ps]"

definition Roots_Validate :: "hostfs \<Rightarrow> Roots \<Rightarrow> gerr + Roots" where
  "Roots_Validate fs r =
     bindE (validate_root fs (roots_Data r)) (\<lambda>d.
     bindE (validate_root fs (roots_Run r)) (\<lambda>u.
     bindE (validate_root fs (roots_Log r)) (\<lambda>l.
     if roots_overlap [d, u, l] then Inl (Msg ''storage roots overlap'')
     else Inr \<lparr>roots_Data = d, roots_Run = u, roots_Log = l\<rparr>)))"

section \<open>Sandbox paths\<close>

text \<open>The \<open>Paths\<close> of both packages hold the validated roots.\<close>

definition sandbox_NewPaths :: "hostfs \<Rightarrow> Roots \<Rightarrow> gerr + Roots" where
  "sandbox_NewPaths fs roots = (case Roots_Validate fs roots of
     Inl e \<Rightarrow> Inl (New 0 ClassInvalid CodeInvalidArgument (Some e)) | Inr r \<Rightarrow> Inr r)"

definition sandbox_DataDir :: "Roots \<Rightarrow> string" where
  "sandbox_DataDir p = filepath_Join [roots_Data p, ''sandboxes'']"

definition sandbox_LocksDir :: "Roots \<Rightarrow> string" where
  "sandbox_LocksDir p = filepath_Join [roots_Run p, ''locks'', ''sandboxes'']"

definition sandbox_Dir :: "hostfs \<Rightarrow> Roots \<Rightarrow> SandboxID \<Rightarrow> gerr + string" where
  "sandbox_Dir fs p i = bindE (ParseSandboxID i) (\<lambda>_. storage_Join fs (sandbox_DataDir p) [i])"

definition sandbox_COW :: "hostfs \<Rightarrow> Roots \<Rightarrow> SandboxID \<Rightarrow> gerr + string" where
  "sandbox_COW fs p i = bindE (sandbox_Dir fs p i) (\<lambda>dir. storage_Join fs dir [''cow.raw''])"

definition sandbox_DataDisk :: "hostfs \<Rightarrow> Roots \<Rightarrow> SandboxID \<Rightarrow> string \<Rightarrow> gerr + string" where
  "sandbox_DataDisk fs p i name =
     guard_err (DataDiskSpec_Validate \<lparr>dd_Name = name, dd_Size = MinDataDiskSize, dd_FSType = ''none'', dd_DirectIO = None\<rparr>)
       (bindE (sandbox_Dir fs p i) (\<lambda>dir. storage_Join fs dir [DataDiskFile name]))"

definition sandbox_RestoreBackup :: "hostfs \<Rightarrow> Roots \<Rightarrow> SandboxID \<Rightarrow> gerr + string" where
  "sandbox_RestoreBackup fs p i = bindE (sandbox_Dir fs p i) (\<lambda>dir. storage_Join fs dir [''.restore-backup''])"

definition sandbox_Lock :: "hostfs \<Rightarrow> Roots \<Rightarrow> SandboxID \<Rightarrow> gerr + string" where
  "sandbox_Lock fs p i = bindE (ParseSandboxID i) (\<lambda>_. storage_Join fs (sandbox_LocksDir p) [i @ ''.lock''])"

definition writableDiskPaths :: "hostfs \<Rightarrow> Roots \<Rightarrow> SandboxID \<Rightarrow> DataDiskSpec list \<Rightarrow> gerr + string list" where
  "writableDiskPaths fs p i specs = bindE (sandbox_COW fs p i) (\<lambda>cow.
     bindE (mapE (\<lambda>spec. sandbox_DataDisk fs p i (dd_Name spec)) specs) (\<lambda>ds. Inr (cow # ds)))"

section \<open>Image paths\<close>

definition images_LayersDir :: "Roots \<Rightarrow> string" where
  "images_LayersDir p = filepath_Join [roots_Data p, ''images'', ''layers'', ''sha256'']"

definition images_BootBaseDir :: "Roots \<Rightarrow> string" where
  "images_BootBaseDir p = filepath_Join [roots_Data p, ''images'', ''boot'', ''sha256'']"

definition images_LocksDir :: "Roots \<Rightarrow> string" where
  "images_LocksDir p = filepath_Join [roots_Run p, ''locks'', ''images'']"

definition images_EROFS :: "Roots \<Rightarrow> Digest \<Rightarrow> string" where
  "images_EROFS p digest = filepath_Join [images_LayersDir p, Digest_Hex digest @ ''.erofs'']"

definition images_BootDir :: "Roots \<Rightarrow> Digest \<Rightarrow> string" where
  "images_BootDir p digest = filepath_Join [images_BootBaseDir p, Digest_Hex digest]"

definition images_BootFile :: "hostfs \<Rightarrow> Roots \<Rightarrow> Digest \<Rightarrow> string \<Rightarrow> gerr + string" where
  "images_BootFile fs p digest name =
     (if \<not> IsBootName name then Inl (Msg ''invalid boot artifact name'')
      else storage_Join fs (images_BootDir p digest) [name])"

definition images_Lock :: "Roots \<Rightarrow> Digest \<Rightarrow> string" where
  "images_Lock p digest = filepath_Join [images_LocksDir p, Digest_Hex digest @ ''.lock'']"

section \<open>Absolute paths as lists of elements\<close>

definition abs_path :: "string list \<Rightarrow> string" where
  "abs_path ps = ''/'' @ strings_Join ps ''/''"

abbreviation plain :: "string list \<Rightarrow> bool" where
  "plain ps \<equiv> \<forall>p \<in> set ps. plain_elem p"

lemma IsAbs_abs_path [simp]: "IsAbs (abs_path ps)"
  by (simp add: IsAbs_def abs_path_def HasPrefix_def)

lemma IsAbs_not_Nil: "IsAbs s \<Longrightarrow> s \<noteq> []"
  by (auto simp: IsAbs_def HasPrefix_def)

lemma Split_abs_path:
  assumes "plain ps"
  shows "Split (abs_path ps) (CHR ''/'') = [] # (if ps = [] then [[]] else ps)"
  using assms Split_Join [of ps "CHR ''/''"] by (auto simp: abs_path_def plain_elem_def)

lemma elements_abs_path [simp]: "plain ps \<Longrightarrow> elements (abs_path ps) = ps"
  by (auto simp: elements_def Split_abs_path plain_elem_def filter_id_conv)

lemma abs_path_inject: "plain ps \<Longrightarrow> plain qs \<Longrightarrow> abs_path ps = abs_path qs \<longleftrightarrow> ps = qs"
  using elements_abs_path by metis

lemma Clean_abs_path [simp]: "plain ps \<Longrightarrow> Clean (abs_path ps) = abs_path ps"
  using Clean_fix_iff [of "abs_path ps"] IsAbs_abs_path by (auto simp: IsAbs_def abs_path_def)

lemma Clean_abs:
  assumes "IsAbs s"
  obtains ps where "plain ps" and "Clean s = abs_path ps" and "ps = clean_parts True [] (Split s (CHR ''/''))"
proof -
  have "plain (clean_parts True [] (Split s (CHR ''/'')))"
    using clean_parts_plain [of "Split s (CHR ''/'')" "[]"] Split_no_sep by force
  moreover have "Clean s = abs_path (clean_parts True [] (Split s (CHR ''/'')))"
    using assms by (simp add: Clean_def IsAbs_def abs_path_def Let_def)
  ultimately show thesis using that by blast
qed

lemma clean_parts_append:
  "clean_parts rooted acc (ps @ qs) = clean_parts rooted (rev (clean_parts rooted acc ps)) qs"
  by (induction rooted acc ps rule: clean_parts.induct) (auto split: list.splits)

lemma Split_append: "Split (a @ c # b) c = Split a c @ Split b c"
proof (induction a)
  case (Cons x xs)
  then show ?case by (cases "Split xs c") (auto simp: Split_not_Nil)
qed simp

lemma Split_Join_concat:
  "ps \<noteq> [] \<Longrightarrow> Split (strings_Join ps [c]) c = concat (map (\<lambda>p. Split p c) ps)"
  by (induction ps rule: induct_list012) (simp_all add: Split_append)

text \<open>Joining plain elements to an absolute path appends them.\<close>

lemma filepath_Join_plain:
  assumes "plain rs" and "plain es"
  shows "filepath_Join (abs_path rs # es) = abs_path (rs @ es)"
proof -
  let ?s = "strings_Join (abs_path rs # es) ''/''"
  have slash: "?s = CHR ''/'' # tl ?s" by (cases es) (simp_all add: abs_path_def)
  then have absj: "IsAbs ?s" by (metis HasPrefix_slash IsAbs_def)
  have single: "concat (map (\<lambda>p. Split p (CHR ''/'')) es) = es"
    using assms(2) by (induction es) (simp_all add: Split_single plain_elem_def)
  have "Split ?s (CHR ''/'') = Split (abs_path rs) (CHR ''/'') @ es"
    by (subst Split_Join_concat) (simp_all add: single)
  moreover have "clean_parts True [] (Split (abs_path rs) (CHR ''/'')) = rs"
    using assms(1) clean_parts_id [of rs True "[]"] by (simp add: Split_abs_path)
  ultimately have "clean_parts True [] (Split ?s (CHR ''/'')) = rs @ es"
    using assms(2) clean_parts_id [of es True "rev rs"] by (simp add: clean_parts_append)
  then have "Clean ?s = abs_path (rs @ es)" using Clean_abs [OF absj] by metis
  then show ?thesis by (simp add: filepath_Join_def IsAbs_not_Nil)
qed

lemma filepath_Join_abs:
  assumes "IsAbs r"
  obtains ps where "plain ps" and "filepath_Join (r # es) = abs_path ps"
proof -
  let ?s = "strings_Join (r # es) ''/''"
  have "IsAbs ?s" using assms by (cases es) (auto simp: IsAbs_def HasPrefix_slash)
  then obtain ps where "plain ps" "Clean ?s = abs_path ps" by (rule Clean_abs)
  then show thesis using that assms by (simp add: filepath_Join_def IsAbs_not_Nil)
qed

section \<open>Containment\<close>

lemma strip_common_split:
  "strip_common bs ts = (bs', ts') \<Longrightarrow> \<exists>cs. bs = cs @ bs' \<and> ts = cs @ ts' \<and> (bs' = [] \<or> ts' = [] \<or> hd bs' \<noteq> hd ts')"
proof (induction bs ts rule: strip_common.induct)
  case (1 b bs t ts)
  show ?case
  proof (cases "b = t")
    case True
    with 1 obtain cs where "bs = cs @ bs'" "ts = cs @ ts'" "bs' = [] \<or> ts' = [] \<or> hd bs' \<noteq> hd ts'" by auto
    then show ?thesis using True by (intro exI [of _ "t # cs"]) auto
  next
    case False
    then show ?thesis using 1(2) by auto
  qed
qed auto

lemma up_prefix: "strings_Join (''..'' # ps) ''/'' = ''..'' \<or> HasPrefix (strings_Join (''..'' # ps) ''/'') ''../''"
  by (cases ps) (simp_all add: HasPrefix_def)

lemma plain_not_up:
  assumes "plain ts" and "ts \<noteq> []"
  shows "strings_Join ts ''/'' \<noteq> ''..'' \<and> \<not> HasPrefix (strings_Join ts ''/'') ''../''"
proof -
  have *: "Split (strings_Join ts ''/'') (CHR ''/'') = ts" using assms by (intro Split_Join) (auto simp: plain_elem_def)
  have "hd (Split (strings_Join ts ''/'') (CHR ''/'')) = ''..''"
    if "strings_Join ts ''/'' = ''..'' \<or> HasPrefix (strings_Join ts ''/'') ''../''"
    using that
  proof
    assume "HasPrefix (strings_Join ts ''/'') ''../''"
    then obtain w where "strings_Join ts ''/'' = ''../'' @ w" by (rule HasPrefixE)
    then show ?thesis using Split_append_sep [of "CHR ''/''" "''..''" w] by simp
  qed simp
  moreover have "hd ts \<noteq> ''..''" using assms by (cases ts) (auto simp: plain_elem_def)
  ultimately show ?thesis unfolding * by blast
qed

lemma within_abs_path:
  assumes "plain ps" and "plain rs"
  shows "within (abs_path ps) (abs_path rs) \<longleftrightarrow> (\<exists>qs. ps = rs @ qs)"
proof (cases "ps = rs")
  case True
  then show ?thesis using assms by (simp add: within_def filepath_Rel_def HasPrefix_def)
next
  case False
  obtain bs ts where strip: "strip_common rs ps = (bs, ts)" by fastforce
  then obtain cs where cs: "rs = cs @ bs" "ps = cs @ ts" "bs = [] \<or> ts = [] \<or> hd bs \<noteq> hd ts"
    using strip_common_split by blast
  have ne: "abs_path ps \<noteq> abs_path rs" using False abs_path_inject assms by metis
  have dot: "abs_path rs \<noteq> ''.''" by (simp add: abs_path_def)
  have hdb: "bs = [] \<or> hd bs \<noteq> ''..''" using assms(2) cs(1) by (cases bs) (auto simp: plain_elem_def)
  have rel: "filepath_Rel (abs_path rs) (abs_path ps) = Inr (strings_Join (map (\<lambda>_. ''..'') bs @ ts) ''/'')"
    using assms ne dot strip hdb by (simp add: filepath_Rel_def)
  show ?thesis
  proof (cases bs)
    case Nil
    then have "ts \<noteq> []" "plain ts" using False cs assms(1) by auto
    then show ?thesis using rel Nil cs plain_not_up [of ts] by (simp add: within_def)
  next
    case (Cons b bs')
    then have "\<not> within (abs_path ps) (abs_path rs)"
      using rel up_prefix [of "map (\<lambda>_. ''..'') bs' @ ts"] by (auto simp: within_def)
    moreover have "ps \<noteq> rs @ qs" for qs using cs Cons by auto
    ultimately show ?thesis by simp
  qed
qed

text \<open>A managed path joined under a root stays under it, element by element.\<close>

lemma storage_Join_under:
  assumes "plain rs" and "storage_Join fs (abs_path rs) es = Inr p"
  obtains qs where "plain qs" and "p = abs_path (rs @ qs)"
proof -
  have j: "p = filepath_Join (abs_path rs # es)" "within p (abs_path rs)"
    using assms(2) by (auto simp: storage_Join_def Let_def split: if_splits)
  obtain ps where ps: "plain ps" "p = abs_path ps" using filepath_Join_abs [OF IsAbs_abs_path] j(1) by metis
  then obtain qs where "ps = rs @ qs" using j(2) within_abs_path assms(1) by blast
  then show thesis using that [of qs] ps by auto
qed

lemma storage_Join_plain:
  assumes "plain rs" and "plain es" and "storage_Join fs (abs_path rs) es = Inr p"
  shows "p = abs_path (rs @ es)"
  using assms filepath_Join_plain [OF assms(1,2)] by (auto simp: storage_Join_def Let_def split: if_splits)

lemma plain_valid_id: "valid_id i \<Longrightarrow> plain_elem i \<and> plain_elem (i @ ''.lock'')"
proof -
  assume "valid_id i"
  then have len: "length i = 36" and chars: "list_all (\<lambda>c. is_lower_hex c \<or> c = CHR ''-'') i"
    using valid_id_chars by auto
  have "CHR ''/'' \<notin> set i" using chars by (auto simp: list_all_iff is_lower_hex_def is_digit_def)
  moreover have "i \<noteq> []" "i \<noteq> ''.''" "i \<noteq> ''..''" using len by auto
  moreover have "i @ ''.lock'' \<noteq> w" if "length w < 36" for w
    using that len by (metis add_lessD1 length_append less_irrefl trans_le_add1)
  from this [of "''.''"] this [of "''..''"] have "i @ ''.lock'' \<noteq> ''.''" "i @ ''.lock'' \<noteq> ''..''" by simp_all
  ultimately show ?thesis by (auto simp: plain_elem_def)
qed

text \<open>Roots as \<open>Validate\<close> returns them: absolute and clean.\<close>

definition clean_roots :: "Roots \<Rightarrow> bool" where
  "clean_roots r \<longleftrightarrow> (\<forall>v \<in> {roots_Data r, roots_Run r, roots_Log r}. \<exists>ps. plain ps \<and> v = abs_path ps)"

lemma clean_rootsE:
  assumes "clean_roots r"
  obtains ds us where "plain ds" and "roots_Data r = abs_path ds" and "plain us" and "roots_Run r = abs_path us"
  using assms that by (auto simp: clean_roots_def)

lemma plain_names [simp]: "plain_elem ''sandboxes''" "plain_elem ''locks''" "plain_elem ''cow.raw''"
  "plain_elem ''.restore-backup''" "plain_elem ''images''"
  by (simp_all add: plain_elem_def)

text \<open>What the operating system is relied on for: the working directory is absolute, and so is an
  absolute path with its links resolved.\<close>

definition absolute_fs :: "hostfs \<Rightarrow> bool" where
  "absolute_fs fs \<longleftrightarrow> (\<forall>w. fs_Getwd fs = Inr w \<longrightarrow> IsAbs w) \<and> (\<forall>p q. IsAbs p \<and> fs_EvalSymlinks fs p = Inr q \<longrightarrow> IsAbs q)"

lemma resolve_aliases_abs:
  assumes "absolute_fs fs" and "list_all IsAbs as" and "plain ps" and "resolve_aliases fs as (abs_path ps) = Inr v"
  shows "\<exists>qs. plain qs \<and> v = abs_path qs"
  using assms(2-4)
proof (induction as arbitrary: ps)
  case (Cons a as)
  show ?case
  proof (cases "within (abs_path ps) a \<and> (\<exists>q. fs_EvalSymlinks fs a = Inr q)")
    case True
    then obtain q rel where q: "fs_EvalSymlinks fs a = Inr q"
      and step: "resolve_aliases fs as (filepath_Join [q, rel]) = Inr v" using Cons.prems(3) by (auto simp: bindE_Inr_iff)
    have "IsAbs q" using assms(1) q Cons.prems(1) unfolding absolute_fs_def by auto
    then obtain qs where "plain qs" "filepath_Join [q, rel] = abs_path qs" by (rule filepath_Join_abs)
    then show ?thesis using Cons.IH [of qs] Cons.prems(1) step by simp
  next
    case False
    then have "resolve_aliases fs as (abs_path ps) = Inr v"
      using Cons.prems(3) by (auto split: if_splits sum.splits)
    then show ?thesis using Cons.IH Cons.prems(1,2) by auto
  qed
qed auto

lemma validate_root_abs:
  assumes "absolute_fs fs" and "validate_root fs v = Inr v'"
  shows "\<exists>ps. plain ps \<and> v' = abs_path ps"
proof -
  obtain a where a: "filepath_Abs fs v = Inr a" and res: "resolve_aliases fs system_aliases (Clean a) = Inr v'"
    using assms(2) by (auto simp: validate_root_def bindE_Inr_iff split: if_splits sum.splits)
  have "\<exists>ps. plain ps \<and> a = abs_path ps"
  proof (cases "IsAbs v")
    case True
    then show ?thesis using a Clean_abs [OF True] by (auto simp: filepath_Abs_def)
  next
    case False
    then obtain w where "fs_Getwd fs = Inr w" "a = filepath_Join [w, v]"
      using a by (auto simp: filepath_Abs_def bindE_Inr_iff)
    moreover have "IsAbs w" using assms(1) \<open>fs_Getwd fs = Inr w\<close> unfolding absolute_fs_def by blast
    ultimately show ?thesis using filepath_Join_abs by metis
  qed
  moreover have "list_all IsAbs system_aliases" by (simp add: system_aliases_def IsAbs_def HasPrefix_def)
  ultimately show ?thesis using resolve_aliases_abs [OF assms(1)] res by auto
qed

section \<open>Properties\<close>

text \<open>
  C34. Every managed path stays inside its root: whatever elements a caller joins to an absolute root,
  and whatever the file system looks like, a path that \<open>Join\<close> returns is the root followed by
  plain elements, none of them \<open>.\<close> or \<open>..\<close> and none with a separator.
\<close>

theorem storage_Join_contained:
  assumes "\<forall>p \<in> set rs. plain_elem p" and "storage_Join fs (abs_path rs) es = Inr p"
  shows "\<exists>qs. (\<forall>q \<in> set qs. plain_elem q) \<and> p = abs_path (rs @ qs)"
  using storage_Join_under [OF assms] by metis

definition sample_fs :: hostfs where
  "sample_fs = \<lparr>fs_Getwd = Inr ''/'', fs_Lstat = (\<lambda>_. Missing), fs_EvalSymlinks = (\<lambda>p. Inr p)\<rparr>"

theorem storage_Join_contained_witness:
  "\<exists>qs. (\<forall>q \<in> set qs. plain_elem q) \<and> ''/srv/b'' = abs_path ([''srv''] @ qs)"
  by (rule storage_Join_contained [of "[''srv'']" sample_fs "[''a/../b'']"])
    (simp_all add: plain_elem_def abs_path_def storage_Join_def IsAbs_def HasPrefix_def filepath_Join_def Clean_def
      within_def filepath_Rel_def elements_def CheckPath_def filepath_Abs_def TrimPrefix_def sample_fs_def Let_def)

text \<open>
  C35. Validated storage roots are absolute, clean and disjoint: no root contains, or is, another one,
  so no path below one root lies below another.
\<close>

theorem Roots_Validate_disjoint:
  assumes "absolute_fs fs" and "Roots_Validate fs r = Inr r'"
  shows "\<exists>d u l. roots_Data r' = abs_path d \<and> roots_Run r' = abs_path u \<and> roots_Log r' = abs_path l
    \<and> (\<forall>p \<in> set (d @ u @ l). plain_elem p)
    \<and> (\<forall>x y. d @ x \<noteq> u @ y \<and> d @ x \<noteq> l @ y \<and> u @ x \<noteq> l @ y)"
proof -
  obtain d' u' l' where v: "validate_root fs (roots_Data r) = Inr d'" "validate_root fs (roots_Run r) = Inr u'"
    "validate_root fs (roots_Log r) = Inr l'" and no: "\<not> roots_overlap [d', u', l']"
    and r': "r' = \<lparr>roots_Data = d', roots_Run = u', roots_Log = l'\<rparr>"
    using assms(2) by (auto simp: Roots_Validate_def bindE_Inr_iff split: if_splits)
  obtain d u l where eq: "d' = abs_path d" "u' = abs_path u" "l' = abs_path l" and pl: "plain d" "plain u" "plain l"
    using v validate_root_abs [OF assms(1)] by meson
  have nw: "\<not> within x y" if "(x, y) \<in> {(d', u'), (u', d'), (d', l'), (l', d'), (u', l'), (l', u')}" for x y
    using no that by (auto simp: roots_overlap_def list_ex_iff)
  have apart: "xs @ p \<noteq> ys @ q" if "plain xs" "plain ys" "\<not> within (abs_path xs) (abs_path ys)" "\<not> within (abs_path ys) (abs_path xs)" for xs ys p q
    using that by (auto simp: within_abs_path append_eq_append_conv2)
  show ?thesis
  proof (intro exI conjI)
    show "roots_Data r' = abs_path d" "roots_Run r' = abs_path u" "roots_Log r' = abs_path l" using r' eq by simp_all
    show "plain (d @ u @ l)" using pl by auto
    show "\<forall>x y. d @ x \<noteq> u @ y \<and> d @ x \<noteq> l @ y \<and> u @ x \<noteq> l @ y"
      using apart pl nw eq by (metis insertCI)
  qed
qed

theorem Roots_Validate_disjoint_witness:
  "\<exists>d u l. ''/var/lib/kumabox'' = abs_path d \<and> ''/run/kumabox'' = abs_path u \<and> ''/var/log/kumabox'' = abs_path l
    \<and> (\<forall>p \<in> set (d @ u @ l). plain_elem p) \<and> (\<forall>x y. d @ x \<noteq> u @ y \<and> d @ x \<noteq> l @ y \<and> u @ x \<noteq> l @ y)"
proof -
  let ?fs = "sample_fs\<lparr>fs_EvalSymlinks := \<lambda>p. Inl (Msg ''missing'')\<rparr>"
  have "absolute_fs ?fs" by (simp add: absolute_fs_def sample_fs_def IsAbs_def HasPrefix_def)
  moreover have "Roots_Validate ?fs DefaultRoots = Inr DefaultRoots" by code_simp
  ultimately show ?thesis using Roots_Validate_disjoint [of ?fs DefaultRoots DefaultRoots] by (simp add: DefaultRoots_def)
qed

text \<open>
  The operation lock and the writable disk of a sandbox are its own: two sandboxes never share a lock
  path or a COW disk path.
\<close>

theorem sandbox_paths_injective:
  assumes "clean_roots p" and "i \<noteq> j"
  shows "\<not> (sandbox_Lock fs p i = Inr x \<and> sandbox_Lock fs' p j = Inr x)
    \<and> \<not> (sandbox_COW fs p i = Inr x \<and> sandbox_COW fs' p j = Inr x)"
proof -
  obtain ds us where r: "plain ds" "roots_Data p = abs_path ds" "plain us" "roots_Run p = abs_path us"
    using assms(1) by (rule clean_rootsE)
  have data: "sandbox_DataDir p = abs_path (ds @ [''sandboxes''])"
    and locks: "sandbox_LocksDir p = abs_path (us @ [''locks'', ''sandboxes''])"
    using r filepath_Join_plain [of ds "[''sandboxes'']"] filepath_Join_plain [of us "[''locks'', ''sandboxes'']"]
    by (simp_all add: sandbox_DataDir_def sandbox_LocksDir_def)
  have lock: "x = abs_path (us @ [''locks'', ''sandboxes'', i @ ''.lock'']) \<and> plain_elem (i @ ''.lock'')"
    if h: "sandbox_Lock f p i = Inr x" for f i
  proof -
    have v: "valid_id i" and j: "storage_Join f (abs_path (us @ [''locks'', ''sandboxes''])) [i @ ''.lock''] = Inr x"
      using h locks by (auto simp: sandbox_Lock_def bindE_Inr_iff ParseSandboxID_Inr)
    show ?thesis using storage_Join_plain [OF _ _ j] plain_valid_id [OF v] r by auto
  qed
  have cow: "x = abs_path (ds @ [''sandboxes'', i, ''cow.raw'']) \<and> plain_elem i"
    if h: "sandbox_COW f p i = Inr x" for f i
  proof -
    obtain dir where v: "valid_id i" and d: "storage_Join f (abs_path (ds @ [''sandboxes''])) [i] = Inr dir"
      and j: "storage_Join f dir [''cow.raw''] = Inr x"
      using h data by (auto simp: sandbox_COW_def sandbox_Dir_def bindE_Inr_iff ParseSandboxID_Inr)
    have pl: "plain (ds @ [''sandboxes'', i])" using r(1) plain_valid_id [OF v] by auto
    then have "dir = abs_path (ds @ [''sandboxes'', i])" using storage_Join_plain [OF _ _ d] by auto
    then show ?thesis using storage_Join_plain [OF pl _ j [unfolded \<open>dir = _\<close>]] pl by auto
  qed
  have "i = j" if "sandbox_Lock fs p i = Inr x \<and> sandbox_Lock fs' p j = Inr x"
  proof -
    have "abs_path (us @ [''locks'', ''sandboxes'', i @ ''.lock'']) = abs_path (us @ [''locks'', ''sandboxes'', j @ ''.lock''])"
      "plain_elem (i @ ''.lock'')" "plain_elem (j @ ''.lock'')" using lock that by metis+
    then show ?thesis using r(3) abs_path_inject [of "us @ [''locks'', ''sandboxes'', i @ ''.lock'']" "us @ [''locks'', ''sandboxes'', j @ ''.lock'']"] by auto
  qed
  moreover have "i = j" if "sandbox_COW fs p i = Inr x \<and> sandbox_COW fs' p j = Inr x"
  proof -
    have "abs_path (ds @ [''sandboxes'', i, ''cow.raw'']) = abs_path (ds @ [''sandboxes'', j, ''cow.raw''])"
      "plain_elem i" "plain_elem j" using cow that by metis+
    then show ?thesis using r(1) abs_path_inject [of "ds @ [''sandboxes'', i, ''cow.raw'']" "ds @ [''sandboxes'', j, ''cow.raw'']"] by auto
  qed
  ultimately show ?thesis using assms(2) by blast
qed

end
