(* ===== verification/Vmm_Plan.thy ===== *)
theory Vmm_Plan
  imports Storage_Paths
begin

text \<open>
  What the application service hands to a virtual-machine monitor and to a network provider: launch,
  capture, restore and clone plans with their validation and the boot command line
  (\<open>internal/vmm/vmm.go\<close>), the backend and provider registries (\<open>internal/vmm/backend.go\<close>,
  \<open>internal/network/registry.go\<close>), NIC requests and TAP names (\<open>internal/network/network.go\<close>), and the
  construction of a launch plan (\<open>launchPlan\<close> of \<open>internal/core/sandbox_runtime.go\<close>).
\<close>

section \<open>Launch plans\<close>

abbreviation LayerSerialPrefix :: string where "LayerSerialPrefix \<equiv> ''kumabox-layer''"
abbreviation COWSerial :: string where "COWSerial \<equiv> ''kumabox-cow''"
abbreviation BootProfileOverlayV1 :: BootProfile where "BootProfileOverlayV1 \<equiv> ''overlay-v1''"

definition layer_serial :: "nat \<Rightarrow> string" where
  "layer_serial position = LayerSerialPrefix @ Itoa (int position)"

record Disk =
  disk_Path :: string
  disk_Serial :: string
  disk_ReadOnly :: bool
  disk_DirectIO :: "bool option"

record LaunchPlan =
  lp_SandboxID :: SandboxID
  lp_Generation :: "64 word"
  lp_CPUs :: "32 word"
  lp_CPUPolicy :: CPUPolicy
  lp_Memory :: int
  lp_SharedMemory :: bool
  lp_HugePages :: bool
  lp_Mergeable :: bool
  lp_NoBalloon :: bool
  lp_BootProfile :: BootProfile
  lp_Kernel :: string
  lp_Initrd :: string
  lp_Cmdline :: string
  lp_Disks :: "Disk list"
  lp_Network :: NetworkSetup

text \<open>The disk loop: \<open>position\<close>, \<open>seen\<close> and \<open>cowSeen\<close> are its state; the result is \<open>cowSeen\<close> after the
  last disk.\<close>

fun plan_disks :: "nat \<Rightarrow> string list \<Rightarrow> bool \<Rightarrow> Disk list \<Rightarrow> gerr + bool" where
  "plan_disks position seen cowSeen [] = Inr cowSeen"
| "plan_disks position seen cowSeen (d # ds) =
     (if \<not> IsAbs (disk_Path d) \<or> disk_Serial d = [] \<or> List.member seen (disk_Serial d)
      then Inl (Msg ''launch plan contains an invalid or duplicate disk'')
      else let seen' = disk_Serial d # seen in
        if disk_Serial d = COWSerial then
          (if cowSeen \<or> position = 0 \<or> disk_ReadOnly d
           then Inl (Msg ''launch plan requires one writable COW after image layers'')
           else plan_disks (position + 1) seen' True ds)
        else if \<not> cowSeen then
          (if \<not> disk_ReadOnly d \<or> disk_Serial d \<noteq> layer_serial position
           then Inl (Msg ''image disks must be read-only and serialed by manifest position'')
           else plan_disks (position + 1) seen' cowSeen ds)
        else if disk_ReadOnly d \<or> disk_Serial d = [] \<or> HasPrefix (disk_Serial d) LayerSerialPrefix
          then Inl (Msg ''managed data disks must be writable and follow the COW'')
        else plan_disks (position + 1) seen' cowSeen ds)"

definition LaunchPlan_Validate :: "LaunchPlan \<Rightarrow> gerr option" where
  "LaunchPlan_Validate p = first_error [
     (case ParseSandboxID (lp_SandboxID p) of Inl e \<Rightarrow> Some e | Inr _ \<Rightarrow> None),
     check (lp_Generation p = 0 \<or> lp_CPUs p = 0 \<or> lp_Memory p \<le> 0)
       (Msg ''launch generation, CPUs, and memory must be positive''),
     (case CPUPolicy_Resolve (lp_CPUPolicy p) (lp_CPUs p) of Inl e \<Rightarrow> Some e | Inr _ \<Rightarrow> None),
     check (lp_Mergeable p \<and> (lp_SharedMemory p \<or> lp_HugePages p))
       (Msg ''mergeable requires private memory without hugepages or shared-memory''),
     check (lp_BootProfile p \<noteq> BootProfileOverlayV1) (Msg ''unsupported boot profile''),
     check (\<not> IsAbs (lp_Kernel p) \<or> \<not> IsAbs (lp_Initrd p) \<or> lp_Cmdline p = [] \<or> length (lp_Disks p) < 2)
       (Msg ''launch plan requires absolute boot artifacts, a cmdline, image layers, and COW''),
     (case plan_disks 0 [] False (lp_Disks p) of Inl e \<Rightarrow> Some e
        | Inr cowSeen \<Rightarrow> check (\<not> cowSeen) (Msg ''launch plan requires a COW disk'')),
     map_option (Wrap ''launch network: '') (NetworkSetup_Validate (lp_Network p))]"

section \<open>The boot command line\<close>

record OverlayV1Config =
  ov_LayerCount :: int
  ov_Hostname :: string
  ov_Interfaces :: "NetworkInterface list"
  ov_DNSServers :: "string list"

definition whitespace_chars :: string where
  "whitespace_chars = [CHR '' '', CHR 9, CHR 13, CHR 10, CHR 0x00]"

fun ipv4_dns_loop :: "string list \<Rightarrow> string list \<Rightarrow> gerr + string list" where
  "ipv4_dns_loop result [] = Inr result"
| "ipv4_dns_loop result (server # servers) =
     (if not_ipv4 server then Inl (Msg ''overlay-v1 DNS server is not IPv4'')
      else ipv4_dns_loop (if length result < 2 then result @ [server] else result) servers)"

definition ipv4DNSServers :: "string list \<Rightarrow> gerr + string list" where
  "ipv4DNSServers configured = ipv4_dns_loop [] configured"

text \<open>\<open>net.IP(net.CIDRMask(prefix, 32)).String()\<close>\<close>

definition mask_byte :: "int \<Rightarrow> nat \<Rightarrow> nat" where
  "mask_byte prefix i = (let n = nat (prefix - 8 * int i) in
     if 8 \<le> n then 255 else 256 - 2 ^ (8 - n))"

definition mask_string :: "int \<Rightarrow> string" where
  "mask_string prefix = (if prefix < 0 \<or> 32 < prefix then ''<nil>''
     else strings_Join (map (\<lambda>i. Itoa (int (mask_byte prefix i mod 256))) [0..<4]) ''.'')"

definition ip_parameter :: "string \<Rightarrow> string list \<Rightarrow> NetworkInterface \<Rightarrow> IPv4Config \<Rightarrow> string" where
  "ip_parameter hostname dns n ip =
     '' ip='' @ ip4_Address ip @ ''::'' @ ip4_Gateway ip @ '':'' @ mask_string (ip4_Prefix ip) @ '':'' @ hostname
       @ '':'' @ nic_Name n @ '':off''
       @ (if dns \<noteq> [] then '':'' @ dns ! 0 @ (if 1 < length dns then '':'' @ dns ! 1 else []) else [])"

fun ip_parameters :: "string \<Rightarrow> string list \<Rightarrow> NetworkInterface list \<Rightarrow> gerr + string" where
  "ip_parameters hostname dns [] = Inr []"
| "ip_parameters hostname dns (n # ns) =
     guard_err (NetworkInterface_Validate n)
       (bindE (ip_parameters hostname dns ns) (\<lambda>rest.
          Inr ((case nic_IPv4 n of None \<Rightarrow> [] | Some ip \<Rightarrow> ip_parameter hostname dns n ip) @ rest)))"

definition OverlayV1Cmdline :: "OverlayV1Config \<Rightarrow> gerr + string" where
  "OverlayV1Cmdline config =
     (if ov_LayerCount config \<le> 0 then Inl (Msg ''overlay-v1 requires at least one image layer'')
      else if ov_Hostname config = [] \<or> ContainsAny (ov_Hostname config) whitespace_chars
        then Inl (Msg ''overlay-v1 requires a hostname without whitespace'')
      else
        let serials = map layer_serial (rev [0..<nat (ov_LayerCount config)]);
            line = ''console=hvc0 loglevel=3 boot=kumabox-overlay kumabox.layers='' @ strings_Join serials '',''
              @ '' kumabox.cow='' @ COWSerial @ '' kumabox.hostname='' @ ov_Hostname config @ '' clocksource=kvm-clock rw''
        in if ov_Interfaces config = [] then Inr line
           else bindE (ipv4DNSServers (ov_DNSServers config)) (\<lambda>dns.
             bindE (ip_parameters (ov_Hostname config) dns (ov_Interfaces config)) (\<lambda>ips.
             Inr (line @ '' net.ifnames=0'' @ ips))))"

section \<open>Processes\<close>

record Process =
  proc_PID :: int
  proc_StartTicks :: "64 word"
  proc_BootID :: string
  proc_SandboxID :: SandboxID
  proc_Generation :: "64 word"
  proc_Binary :: string
  proc_APISocket :: string

definition Process_zero :: Process where
  "Process_zero = \<lparr>proc_PID = 0, proc_StartTicks = 0, proc_BootID = [], proc_SandboxID = [], proc_Generation = 0,
     proc_Binary = [], proc_APISocket = []\<rparr>"

definition Process_Validate :: "Process \<Rightarrow> gerr option" where
  "Process_Validate p = first_error [
     check (proc_PID p \<le> 0 \<or> proc_StartTicks p = 0 \<or> proc_BootID p = [] \<or> proc_Generation p = 0 \<or> proc_Binary p = []
         \<or> \<not> IsAbs (proc_APISocket p)) (Msg ''process identity is incomplete''),
     (case ParseSandboxID (proc_SandboxID p) of Inl e \<Rightarrow> Some e | Inr _ \<Rightarrow> None)]"

type_synonym ProcessState = string

abbreviation ProcessAbsent :: ProcessState where "ProcessAbsent \<equiv> ''absent''"
abbreviation ProcessStarting :: ProcessState where "ProcessStarting \<equiv> ''starting''"
abbreviation ProcessRunning :: ProcessState where "ProcessRunning \<equiv> ''running''"

record Observation =
  obs_State :: ProcessState
  obs_Process :: Process

section \<open>Capture, restore and clone plans\<close>

record SnapshotFile =
  sf_Source :: string
  sf_Destination :: string

record SnapshotPlan =
  sp_Process :: Process
  sp_Destination :: string
  sp_WritableFiles :: "SnapshotFile list"

definition snapshot_file_check :: "string \<Rightarrow> SnapshotFile \<Rightarrow> gerr option" where
  "snapshot_file_check destination f = first_error [
     check (\<not> IsAbs (sf_Source f) \<or> \<not> IsAbs (sf_Destination f) \<or> sf_Source f = sf_Destination f)
       (Msg ''snapshot writable file paths must be distinct and absolute''),
     check (case filepath_Rel destination (sf_Destination f) of Inl _ \<Rightarrow> True
            | Inr relative \<Rightarrow> relative = ''.'' \<or> relative = ''..'' \<or> HasPrefix relative ''../'')
       (Msg ''snapshot writable destination escapes capture directory'')]"

definition SnapshotPlan_Validate :: "SnapshotPlan \<Rightarrow> gerr option" where
  "SnapshotPlan_Validate p = first_error ([
     Process_Validate (sp_Process p),
     check (\<not> IsAbs (sp_Destination p) \<or> sp_WritableFiles p = [])
       (Msg ''snapshot plan requires an absolute destination and writable files'')]
     @ map (snapshot_file_check (sp_Destination p)) (sp_WritableFiles p))"

record RestorePlan =
  rp_SandboxID :: SandboxID
  rp_Generation :: "64 word"
  rp_CPUs :: "32 word"
  rp_CPUPolicy :: CPUPolicy
  rp_SnapshotDir :: string
  rp_MemoryMode :: MemoryRestoreMode
  rp_Network :: NetworkSetup

definition RestorePlan_Validate :: "'a RestorePlan_scheme \<Rightarrow> gerr option" where
  "RestorePlan_Validate p = first_error [
     MemoryRestoreMode_Validate (rp_MemoryMode p),
     (case ParseSandboxID (rp_SandboxID p) of Inl e \<Rightarrow> Some e | Inr _ \<Rightarrow> None),
     check (rp_Generation p = 0 \<or> rp_CPUs p = 0 \<or> \<not> IsAbs (rp_SnapshotDir p))
       (Msg ''restore plan requires generation, CPUs, and an absolute snapshot directory''),
     (case CPUPolicy_Resolve (rp_CPUPolicy p) (rp_CPUs p) of Inl e \<Rightarrow> Some e | Inr _ \<Rightarrow> None),
     NetworkSetup_Validate (rp_Network p)]"

record ClonePlan = RestorePlan +
  cp_WritableDisk :: string
  cp_COWIOMode :: DiskIOMode
  cp_ImageDisks :: "Disk list"
  cp_DataDisks :: "Disk list"
  cp_NewDataDisks :: "Disk list"
  cp_Kernel :: string
  cp_Initrd :: string

fun clone_images :: "nat \<Rightarrow> Disk list \<Rightarrow> gerr option" where
  "clone_images position [] = None"
| "clone_images position (d # ds) =
     (if \<not> IsAbs (disk_Path d) \<or> \<not> disk_ReadOnly d \<or> disk_Serial d \<noteq> layer_serial position
      then Some (Msg ''clone image layers must be read-only and ordered by manifest position'')
      else clone_images (position + 1) ds)"

fun clone_data :: "string list \<Rightarrow> Disk list \<Rightarrow> gerr option" where
  "clone_data seen [] = None"
| "clone_data seen (d # ds) =
     (if \<not> IsAbs (disk_Path d) \<or> disk_ReadOnly d \<or> disk_Serial d = COWSerial \<or> HasPrefix (disk_Serial d) LayerSerialPrefix
         \<or> List.member seen (disk_Serial d)
      then Some (Msg ''clone data disks must be writable, unique, and target-owned'')
      else clone_data (disk_Serial d # seen) ds)"

definition ClonePlan_Validate :: "ClonePlan \<Rightarrow> gerr option" where
  "ClonePlan_Validate p = first_error [
     DiskIOMode_Validate (cp_COWIOMode p),
     RestorePlan_Validate p,
     check (\<not> IsAbs (cp_WritableDisk p)) (Msg ''clone requires an absolute writable disk path''),
     check (\<not> IsAbs (cp_Kernel p) \<or> \<not> IsAbs (cp_Initrd p)) (Msg ''clone requires local kernel and initrd paths''),
     check (cp_ImageDisks p = []) (Msg ''clone requires local read-only image layers''),
     clone_images 0 (cp_ImageDisks p),
     clone_data [] (cp_DataDisks p @ cp_NewDataDisks p)]"

section \<open>Registries\<close>

text \<open>A backend is its durable identity and the optional capabilities it implements; \<open>None\<close> in the
  argument of a constructor is a nil interface or a typed nil pointer.\<close>

record Backend =
  be_Type :: VMMType
  be_Snapshotter :: bool
  be_Hibernator :: bool
  be_Restorer :: bool
  be_RestoreValidator :: bool
  be_Cloner :: bool
  be_NetworkHotplugger :: bool

type_synonym vmmRegistry = "Backend gomap option"

fun register_backends :: "Backend gomap \<Rightarrow> Backend option list \<Rightarrow> gerr + Backend gomap" where
  "register_backends m [] = Inr m"
| "register_backends m (None # bs) = Inl (Msg ''VMM registry contains a nil backend'')"
| "register_backends m (Some b # bs) =
     (case VMMType_Validate (be_Type b) of
        Some e \<Rightarrow> Inl (Wrap ''register VMM backend: '' e)
      | None \<Rightarrow> if map_of m (be_Type b) \<noteq> None then Inl (Msg ''VMM backend is registered more than once'')
          else register_backends (AList.update (be_Type b) b m) bs)"

definition vmm_NewRegistry :: "Backend option list \<Rightarrow> gerr + vmmRegistry" where
  "vmm_NewRegistry bs = bindE (register_backends [] bs) (\<lambda>m. Inr (Some m))"

definition registry_Backend :: "vmmRegistry \<Rightarrow> VMMType \<Rightarrow> gerr + Backend" where
  "registry_Backend r typ = (case VMMType_Validate typ of
     Some e \<Rightarrow> Inl (New 0 ClassCorrupt CodeArtifactCorrupt (Some e))
   | None \<Rightarrow> (case r of
       None \<Rightarrow> Inl (New 0 ClassInvalid CodeHostIncompatible (Some (Msg ''VMM registry is not configured'')))
     | Some m \<Rightarrow> (case map_of m typ of
         None \<Rightarrow> Inl (New 0 ClassInvalid CodeHostIncompatible (Some (Msg ''VMM backend is not available'')))
       | Some b \<Rightarrow> Inr b)))"

definition vmm_Len :: "vmmRegistry \<Rightarrow> nat" where
  "vmm_Len r = (case r of None \<Rightarrow> 0 | Some m \<Rightarrow> length m)"

definition vmm_Backends :: "vmmRegistry \<Rightarrow> Backend list" where
  "vmm_Backends r = (case r of None \<Rightarrow> [] | Some m \<Rightarrow> map snd (sorted_entries m))"

record Provider =
  prov_Type :: NetworkBackend
  prov_Resizer :: bool

type_synonym networkRegistry = "Provider gomap option"

fun register_providers :: "Provider gomap \<Rightarrow> Provider option list \<Rightarrow> gerr + Provider gomap" where
  "register_providers m [] = Inr m"
| "register_providers m (None # ps) = Inl (Msg ''network registry contains a nil provider'')"
| "register_providers m (Some p # ps) =
     (case NetworkBackend_Validate (prov_Type p) of
        Some e \<Rightarrow> Inl (Wrap ''register network provider: '' e)
      | None \<Rightarrow> if map_of m (prov_Type p) \<noteq> None then Inl (Msg ''network provider is registered more than once'')
          else register_providers (AList.update (prov_Type p) p m) ps)"

definition network_NewRegistry :: "Provider option list \<Rightarrow> gerr + networkRegistry" where
  "network_NewRegistry ps = bindE (register_providers [] ps) (\<lambda>m. Inr (Some m))"

definition registry_Provider :: "networkRegistry \<Rightarrow> NetworkBackend \<Rightarrow> gerr + Provider" where
  "registry_Provider r backend = (case NetworkBackend_Validate backend of
     Some e \<Rightarrow> Inl (New 0 ClassCorrupt CodeArtifactCorrupt (Some e))
   | None \<Rightarrow> (case r of
       None \<Rightarrow> Inl (New 0 ClassInvalid CodeHostIncompatible (Some (Msg ''network registry is not configured'')))
     | Some m \<Rightarrow> (case map_of m backend of
         None \<Rightarrow> Inl (New 0 ClassInvalid CodeHostIncompatible (Some (Msg ''network backend is not available'')))
       | Some p \<Rightarrow> Inr p)))"

definition network_Len :: "networkRegistry \<Rightarrow> nat" where
  "network_Len r = (case r of None \<Rightarrow> 0 | Some m \<Rightarrow> length m)"

definition network_Providers :: "networkRegistry \<Rightarrow> Provider list" where
  "network_Providers r = (case r of None \<Rightarrow> [] | Some m \<Rightarrow> map snd (sorted_entries m))"

section \<open>NIC requests\<close>

record AddSpec =
  spec_Index :: int
  spec_Queues :: int
  spec_Existing :: "NetworkInterface option"
  spec_DHCP :: bool

definition AddRange :: "int \<Rightarrow> int \<Rightarrow> AddSpec list" where
  "AddRange first n = (if first < 0 \<or> n \<le> 0 then []
     else map (\<lambda>offset. \<lparr>spec_Index = first + int offset, spec_Queues = 0, spec_Existing = None, spec_DHCP = False\<rparr>) [0..<nat n])"

definition QueueCount :: "32 word \<Rightarrow> int" where
  "QueueCount cpus = max 2 (int (unat cpus) * 2)"

definition ResolveQueues :: "int \<Rightarrow> 32 word \<Rightarrow> int" where
  "ResolveQueues requested cpus = (if 0 < requested then requested else QueueCount cpus)"

definition tap_char :: "char \<Rightarrow> bool" where
  "tap_char c \<longleftrightarrow> is_lower c \<or> is_upper c \<or> is_digit c \<or> c = CHR ''-'' \<or> c = CHR ''_''"

definition TAPName :: "string \<Rightarrow> SandboxID \<Rightarrow> int \<Rightarrow> gerr + string" where
  "TAPName prefix i index =
     (if prefix = [] \<or> index < 0 \<or> ContainsAny prefix [CHR ''/'', CHR 0x00] then Inl (Msg ''TAP prefix and NIC index are invalid'')
      else if list_ex (\<lambda>c. \<not> tap_char c) prefix then Inl (Msg ''TAP prefix and NIC index are invalid'')
      else let suffix = ''-'' @ Itoa index; compact = filter (\<lambda>c. c \<noteq> CHR ''-'') i in
        if 15 < length prefix + 8 + length suffix \<or> length compact < 8
        then Inl (Msg ''TAP prefix and NIC index exceed Linux name limits'')
        else Inr (prefix @ take 8 compact @ suffix))"

section \<open>Building a launch plan\<close>

text \<open>What \<open>launchPlan\<close> reads of the service: the two path roots, the DNS servers and the host
  architecture.\<close>

record launchEnv =
  le_paths :: Roots
  le_imagePaths :: Roots
  le_dnsServers :: "string list"
  le_GOARCH :: string

definition layer_disks :: "Roots \<Rightarrow> Layer list \<Rightarrow> Disk list" where
  "layer_disks p layers = map (\<lambda>(position, layer). \<lparr>disk_Path = images_EROFS p (layer_SourceDigest layer),
     disk_Serial = layer_serial position, disk_ReadOnly = True, disk_DirectIO = None\<rparr>) (enumerate 0 layers)"

definition data_disk :: "hostfs \<Rightarrow> Roots \<Rightarrow> SandboxID \<Rightarrow> DataDiskSpec \<Rightarrow> gerr + Disk" where
  "data_disk fs p i spec = bindE (sandbox_DataDisk fs p i (dd_Name spec)) (\<lambda>path.
     Inr \<lparr>disk_Path = path, disk_Serial = DataDiskSerial (dd_Name spec), disk_ReadOnly = False, disk_DirectIO = dd_DirectIO spec\<rparr>)"

definition launchPlan :: "launchEnv \<Rightarrow> hostfs \<Rightarrow> Sandbox \<Rightarrow> Image \<Rightarrow> gerr + LaunchPlan" where
  "launchPlan env fs r im =
     (if img_ManifestDigest im \<noteq> sb_ImageDigest r
      then Inl (New 0 ClassCorrupt CodeArtifactCorrupt (Some (Msg ''resolved image differs from the sandbox pin'')))
      else if plat_OS (img_Platform im) \<noteq> ''linux'' \<or> plat_Architecture (img_Platform im) \<noteq> le_GOARCH env
      then Inl (New 0 ClassInvalid CodeImageIncompatible (Some (Msg ''image platform cannot run on this host'')))
      else if boot_Profile (img_Boot im) \<noteq> BootProfileOverlayV1
      then Inl (New 0 ClassInvalid CodeImageIncompatible (Some (Msg ''image boot profile is not supported'')))
      else
        bindE (images_BootFile fs (le_imagePaths env) (boot_KernelLayer (img_Boot im)) (boot_KernelFile (img_Boot im))) (\<lambda>kernel.
        bindE (images_BootFile fs (le_imagePaths env) (boot_InitrdLayer (img_Boot im)) (boot_InitrdFile (img_Boot im))) (\<lambda>initrd.
        bindE (case OverlayV1Cmdline \<lparr>ov_LayerCount = int (length (img_Layers im)), ov_Hostname = cfg_Name (sb_Config r),
                 ov_Interfaces = net_Interfaces (sb_Network r), ov_DNSServers = le_dnsServers env\<rparr> of
               Inl e \<Rightarrow> Inl (New 0 ClassInvalid CodeImageIncompatible (Some e)) | Inr c \<Rightarrow> Inr c) (\<lambda>cmdline.
        bindE (sandbox_COW fs (le_paths env) (sb_ID r)) (\<lambda>cow.
        bindE (mapE (data_disk fs (le_paths env) (sb_ID r)) (cfg_DataDisks (sb_Config r))) (\<lambda>ds.
        let c = sb_Config r in
        Inr \<lparr>lp_SandboxID = sb_ID r, lp_Generation = 0, lp_CPUs = cfg_CPUs c, lp_CPUPolicy = cfg_CPUPolicy c,
          lp_Memory = cfg_Memory c, lp_SharedMemory = cfg_SharedMemory c, lp_HugePages = cfg_HugePages c,
          lp_Mergeable = cfg_Mergeable c, lp_NoBalloon = cfg_NoBalloon c, lp_BootProfile = boot_Profile (img_Boot im),
          lp_Kernel = kernel, lp_Initrd = initrd, lp_Cmdline = cmdline,
          lp_Disks = layer_disks (le_imagePaths env) (img_Layers im)
            @ \<lparr>disk_Path = cow, disk_Serial = COWSerial, disk_ReadOnly = False,
                disk_DirectIO = Some (DiskIOMode_DirectIO (cfg_COWIOMode c))\<rparr> # ds,
          lp_Network = sb_Network r\<rparr>))))))"

text \<open>The disks of a plan split at the COW, for a clone.\<close>

definition cloneDiskBindings :: "LaunchPlan \<Rightarrow> int \<Rightarrow> gerr + (Disk list \<times> Disk list)" where
  "cloneDiskBindings plan dataCount =
     (let n = length (lp_Disks plan) in
      if dataCount < 0 \<or> int n < dataCount + 2 \<or> disk_Serial (lp_Disks plan ! (n - nat dataCount - 1)) \<noteq> COWSerial
      then Inl (Msg ''launch disk order does not match the data disks'')
      else Inr (take (n - nat dataCount - 1) (lp_Disks plan), drop (n - nat dataCount) (lp_Disks plan)))"

section \<open>Lemmas\<close>

lemma layer_serial_inject [simp]: "layer_serial m = layer_serial n \<longleftrightarrow> m = n"
  by (simp add: layer_serial_def Itoa_def)

lemma layer_serial_facts [simp]: "layer_serial n \<noteq> COWSerial" "layer_serial n \<noteq> []" "HasPrefix (layer_serial n) LayerSerialPrefix"
  by (simp_all add: layer_serial_def HasPrefix_def)

lemma layer_disks_at:
  "layer_disks p layers = map (\<lambda>(position, layer). \<lparr>disk_Path = images_EROFS p (layer_SourceDigest layer),
     disk_Serial = layer_serial position, disk_ReadOnly = True, disk_DirectIO = None\<rparr>) (enumerate 0 layers)"
  by (rule layer_disks_def)

lemma plan_disks_layers:
  assumes "\<And>l. l \<in> set layers \<Longrightarrow> IsAbs (f l)" and "\<And>m. m \<ge> k \<Longrightarrow> layer_serial m \<notin> set seen"
  shows "\<exists>seen'. plan_disks k seen False (map (\<lambda>(position, layer). \<lparr>disk_Path = f layer, disk_Serial = layer_serial position,
       disk_ReadOnly = True, disk_DirectIO = None\<rparr>) (enumerate k layers) @ rest) = plan_disks (k + length layers) seen' False rest
     \<and> set seen' \<subseteq> set seen \<union> range layer_serial"
  using assms
proof (induction layers arbitrary: k seen)
  case (Cons l layers)
  have k: "layer_serial k \<notin> set seen" using Cons.prems(2) by blast
  obtain seen' where "plan_disks (Suc k) (layer_serial k # seen) False (map (\<lambda>(position, layer). \<lparr>disk_Path = f layer,
       disk_Serial = layer_serial position, disk_ReadOnly = True, disk_DirectIO = None\<rparr>) (enumerate (Suc k) layers) @ rest)
       = plan_disks (Suc k + length layers) seen' False rest"
    and "set seen' \<subseteq> set (layer_serial k # seen) \<union> range layer_serial"
    using Cons.IH [of "Suc k" "layer_serial k # seen"] Cons.prems by auto
  then show ?case using k Cons.prems(1) by (intro exI [of _ seen']) auto
qed auto

lemma plan_disks_data:
  assumes "\<And>d. d \<in> set ds \<Longrightarrow> IsAbs (disk_Path d) \<and> disk_Serial d \<noteq> [] \<and> disk_Serial d \<noteq> COWSerial \<and> \<not> disk_ReadOnly d
      \<and> \<not> HasPrefix (disk_Serial d) LayerSerialPrefix \<and> disk_Serial d \<notin> set seen"
    and "distinct (map disk_Serial ds)"
  shows "plan_disks k seen True ds = Inr True"
  using assms
proof (induction ds arbitrary: k seen)
  case (Cons d ds)
  have "plan_disks (Suc k) (disk_Serial d # seen) True ds = Inr True"
  proof (rule Cons.IH)
    fix e assume e: "e \<in> set ds"
    then have "disk_Serial e \<noteq> disk_Serial d" using Cons.prems(2) by (metis distinct.simps(2) image_eqI image_set list.simps(9))
    then show "IsAbs (disk_Path e) \<and> disk_Serial e \<noteq> [] \<and> disk_Serial e \<noteq> COWSerial \<and> \<not> disk_ReadOnly e
      \<and> \<not> HasPrefix (disk_Serial e) LayerSerialPrefix \<and> disk_Serial e \<notin> set (disk_Serial d # seen)"
      using Cons.prems(1) [of e] e by simp
  qed (use Cons.prems(2) in simp)
  then show ?case using Cons.prems(1) [of d] by simp
qed simp

lemma valid_disk_serial:
  assumes "DataDiskSpec_Validate d = None"
  shows "dd_Name d \<noteq> [] \<and> dd_Name d \<noteq> COWSerial \<and> \<not> HasPrefix (dd_Name d) LayerSerialPrefix"
proof -
  have n: "dd_Name d \<noteq> []" "\<not> HasPrefix (dd_Name d) ''kumabox-''"
    using assms by (auto simp: DataDiskSpec_Validate_def validDataDiskName_def match_name_def)
  moreover have "\<not> HasPrefix (dd_Name d) LayerSerialPrefix"
  proof
    assume "HasPrefix (dd_Name d) LayerSerialPrefix"
    then obtain t where "dd_Name d = LayerSerialPrefix @ t" by (rule HasPrefixE)
    then have "HasPrefix (dd_Name d) ''kumabox-''" by (simp add: HasPrefix_def)
    then show False using n by blast
  qed
  moreover have "HasPrefix COWSerial ''kumabox-''" by (simp add: HasPrefix_def)
  ultimately show ?thesis by metis
qed

lemma storage_Join_IsAbs:
  assumes "IsAbs root" and "storage_Join fs root es = Inr p"
  shows "IsAbs p"
proof -
  have "p = filepath_Join (root # es)" using assms(2) by (auto simp: storage_Join_def Let_def split: if_splits)
  then show ?thesis using filepath_Join_abs [OF assms(1)] IsAbs_abs_path by metis
qed

lemma filepath_Join_IsAbs: "IsAbs r \<Longrightarrow> IsAbs (filepath_Join (r # es))"
  by (metis filepath_Join_abs IsAbs_abs_path)

lemma managed_paths_abs:
  assumes "IsAbs (roots_Data p)"
  shows "IsAbs (images_EROFS p d)" and "images_BootFile fs p d n = Inr x \<Longrightarrow> IsAbs x"
    and "sandbox_COW fs p i = Inr x \<Longrightarrow> IsAbs x" and "sandbox_DataDisk fs p i n = Inr x \<Longrightarrow> IsAbs x"
proof -
  note dirs = images_EROFS_def images_LayersDir_def images_BootDir_def images_BootBaseDir_def sandbox_DataDir_def
  show "IsAbs (images_EROFS p d)" using assms by (simp add: dirs filepath_Join_IsAbs)
  show "images_BootFile fs p d n = Inr x \<Longrightarrow> IsAbs x"
    by (rule storage_Join_IsAbs [of "images_BootDir p d" fs "[n]"])
      (simp_all add: assms images_BootFile_def images_BootDir_def images_BootBaseDir_def filepath_Join_IsAbs split: if_splits)
  have dir: "IsAbs y" if "sandbox_Dir fs p i = Inr y" for y
    by (rule storage_Join_IsAbs [of "sandbox_DataDir p" fs "[i]"])
      (use that in \<open>auto simp: assms sandbox_Dir_def bindE_Inr_iff sandbox_DataDir_def filepath_Join_IsAbs\<close>)
  show "sandbox_COW fs p i = Inr x \<Longrightarrow> IsAbs x" "sandbox_DataDisk fs p i n = Inr x \<Longrightarrow> IsAbs x"
    using dir storage_Join_IsAbs by (auto simp: sandbox_COW_def sandbox_DataDisk_def bindE_Inr_iff)
qed

lemma data_disk_Inr: "data_disk fs p i spec = Inr d \<longleftrightarrow> (\<exists>x. sandbox_DataDisk fs p i (dd_Name spec) = Inr x
    \<and> d = \<lparr>disk_Path = x, disk_Serial = dd_Name spec, disk_ReadOnly = False, disk_DirectIO = dd_DirectIO spec\<rparr>)"
  by (auto simp: data_disk_def bindE_Inr_iff DataDiskSerial_def)

lemma data_disks_serials:
  assumes "mapE (data_disk fs p i) specs = Inr ds"
  shows "map disk_Serial ds = map dd_Name specs \<and> (\<forall>d \<in> set ds. \<not> disk_ReadOnly d \<and> (\<exists>n. sandbox_DataDisk fs p i n = Inr (disk_Path d)))"
  using assms
proof (induction specs arbitrary: ds)
  case (Cons a specs)
  then obtain x xs where "sandbox_DataDisk fs p i (dd_Name a) = Inr x" "mapE (data_disk fs p i) specs = Inr xs"
    "ds = \<lparr>disk_Path = x, disk_Serial = dd_Name a, disk_ReadOnly = False, disk_DirectIO = dd_DirectIO a\<rparr> # xs"
    by (auto simp: bindE_Inr_iff data_disk_Inr)
  then show ?case using Cons.IH by auto
qed simp

lemma launchPlan_disks_valid:
  assumes abs: "IsAbs (roots_Data p)" "IsAbs (roots_Data q)" and specs: "disks_loop [] specs = None" and layers: "layers \<noteq> []"
    and cow: "sandbox_COW fs p i = Inr cow" and ds: "mapE (data_disk fs p i) specs = Inr ds"
  shows "plan_disks 0 [] False (layer_disks q layers
     @ \<lparr>disk_Path = cow, disk_Serial = COWSerial, disk_ReadOnly = False, disk_DirectIO = m\<rparr> # ds) = Inr True"
proof -
  let ?rest = "\<lparr>disk_Path = cow, disk_Serial = COWSerial, disk_ReadOnly = False, disk_DirectIO = m\<rparr> # ds"
  obtain seen' where step: "plan_disks 0 [] False (layer_disks q layers @ ?rest) = plan_disks (0 + length layers) seen' False ?rest"
    and seen: "set seen' \<subseteq> range layer_serial"
    using plan_disks_layers [where layers = layers and f = "\<lambda>l. images_EROFS q (layer_SourceDigest l)" and k = 0 and seen = "[]"
        and rest = ?rest, OF managed_paths_abs(1) [OF abs(2)]]
    unfolding layer_disks_at by auto
  have not_cow: "COWSerial \<notin> set seen'" using seen layer_serial_facts(1) [symmetric] by blast
  have valid: "DataDiskSpec_Validate d = None" if "d \<in> set specs" for d using specs that by (simp add: disks_loop_None)
  have serials: "map disk_Serial ds = map dd_Name specs"
    and paths: "\<forall>d \<in> set ds. \<not> disk_ReadOnly d \<and> (\<exists>n. sandbox_DataDisk fs p i n = Inr (disk_Path d))"
    using data_disks_serials [OF ds] by auto
  have "plan_disks (Suc (length layers)) (COWSerial # seen') True ds = Inr True"
  proof (rule plan_disks_data)
    fix d assume d: "d \<in> set ds"
    then have "disk_Serial d \<in> set (map dd_Name specs)" by (simp flip: serials)
    then obtain spec where spec: "spec \<in> set specs" "disk_Serial d = dd_Name spec" by auto
    note ok = valid_disk_serial [OF valid [OF spec(1)], folded spec(2)]
    have "disk_Serial d \<noteq> layer_serial n" for n using ok layer_serial_facts(3) [of n] by metis
    then have "disk_Serial d \<notin> set seen'" using seen by blast
    moreover have "IsAbs (disk_Path d)" using paths d managed_paths_abs(4) [OF abs(1)] by blast
    ultimately show "IsAbs (disk_Path d) \<and> disk_Serial d \<noteq> [] \<and> disk_Serial d \<noteq> COWSerial \<and> \<not> disk_ReadOnly d
      \<and> \<not> HasPrefix (disk_Serial d) LayerSerialPrefix \<and> disk_Serial d \<notin> set (COWSerial # seen')"
      using ok paths d by simp
  next
    show "distinct (map disk_Serial ds)" using specs serials by (simp add: disks_loop_None)
  qed
  then show ?thesis
    unfolding step using not_cow layers managed_paths_abs(3) [OF abs(1) cow] by simp
qed

subsection \<open>The characters of an address\<close>

definition ip_char :: "char \<Rightarrow> bool" where
  "ip_char c \<longleftrightarrow> is_hex c \<or> c = CHR '':'' \<or> c = CHR ''.''"

lemma set_strings_Join: "set (strings_Join ps sep) \<subseteq> set sep \<union> (\<Union>p \<in> set ps. set p)"
  by (induction ps rule: induct_list012) auto

lemma digit_is_hex: "is_digit c \<Longrightarrow> is_hex c"
  by (simp add: is_hex_def from_hex_char_def)

lemma opt_all_Some: "opt_all xs = Some ys \<Longrightarrow> x \<in> set xs \<Longrightarrow> x \<noteq> None"
  by (induction xs arbitrary: ys) (auto split: option.splits)

lemma parse_ipv4_chars:
  assumes "parse_ipv4 s = Some b"
  shows "list_all ip_char s"
proof -
  have "list_all is_digit f" if f: "f \<in> set (Split s (CHR ''.''))" for f
  proof -
    have "opt_all (map ipv4_field (Split s (CHR ''.''))) = Some b" using assms by (auto simp: parse_ipv4_def Let_def split: if_splits)
    then have "ipv4_field f \<noteq> None" using f by (metis image_eqI image_set opt_all_Some)
    then show ?thesis by (auto simp: ipv4_field_def split: if_splits)
  qed
  then have "\<forall>f \<in> set (Split s (CHR ''.'')). \<forall>c \<in> set f. ip_char c" by (auto simp: list_all_iff ip_char_def digit_is_hex)
  moreover have "set s \<subseteq> {CHR ''.''} \<union> (\<Union>p \<in> set (Split s (CHR ''.'')). set p)"
    using set_strings_Join [of "Split s (CHR ''.'')" "''.''"] by (simp add: Join_Split)
  ultimately show ?thesis by (fastforce simp: list_all_iff ip_char_def)
qed

lemma ip6_groups_chars: "ip6_groups n bytes ell s = Some (b', e', r) \<Longrightarrow> set s \<subseteq> Collect ip_char \<union> set r"
proof (induction n bytes ell s rule: ip6_groups.induct)
  case (2 n bytes ell s)
  let ?h = "takeWhile is_hex s" and ?rest = "drop (length (takeWhile is_hex s)) s"
  have h: "set ?h \<subseteq> Collect ip_char" using set_takeWhileD by (fastforce simp: ip_char_def)
  have s: "s = ?h @ ?rest" by (metis append_take_drop_id takeWhile_eq_take)
  have go: "set ?rest \<subseteq> Collect ip_char \<union> set r \<Longrightarrow> ?case" using h s by (metis Un_assoc Un_subset_iff set_append sup.orderI sup.coboundedI1)
  show ?case
  proof (cases ?rest)
    case Nil
    then show ?thesis using go by simp
  next
    case (Cons c cs)
    show ?thesis
    proof (cases "c = CHR ''.''")
      case True
      then obtain v where "parse_ipv4 s = Some v" using 2(3) Cons by (auto simp: Let_def split: if_splits option.splits)
      then show ?thesis using parse_ipv4_chars by (auto simp: list_all_iff)
    next
      case False
      let ?bytes = "bytes @ [hex_value ?h div 256, hex_value ?h mod 256]"
      have ok: "?h \<noteq> []" "length ?h \<le> 4" "c = CHR '':''" "cs \<noteq> []" using 2(3) Cons False by (auto simp: Let_def split: if_splits)
      obtain d ds where cs: "cs = d # ds" using ok(4) by (cases cs) auto
      have c: "ip_char c" using ok(3) by (simp add: ip_char_def)
      have "set cs \<subseteq> Collect ip_char \<union> set r"
      proof (cases "d = CHR '':''")
        case True
        then have "ip_char d" by (simp add: ip_char_def)
        moreover have "set ds \<subseteq> Collect ip_char \<union> set r"
        proof (cases "ds = []")
          case ne: False
          have "ip6_groups n ?bytes (Some (length ?bytes)) ds = Some (b', e', r)"
            using 2(3) Cons False True ok cs ne by (auto simp: Let_def split: if_splits)
          then show ?thesis using 2(1) [OF refl refl _ Cons False _ refl _ _ _] ok cs True ne 2(3) Cons False
            by (auto simp: Let_def split: if_splits)
        qed simp
        ultimately show ?thesis using cs by simp
      next
        case ne: False
        have "ip6_groups n ?bytes ell cs = Some (b', e', r)"
          using 2(3) Cons False ne ok cs by (auto simp: Let_def split: if_splits)
        then show ?thesis using 2(2) [OF refl refl _ Cons False _ refl _] ok cs ne by auto
      qed
      then show ?thesis using go Cons c by simp
    qed
  qed
qed simp

lemma ip6_finish_chars:
  assumes "ip6_finish (ip6_groups n bytes ell s) = Some b"
  shows "list_all ip_char s"
proof -
  obtain b' e' where "ip6_groups n bytes ell s = Some (b', e', [])"
    using assms by (auto simp: ip6_finish_def split: option.splits list.splits)
  from ip6_groups_chars [OF this] show ?thesis by (auto simp: list_all_iff)
qed

lemma not_ipv4_chars:
  assumes "\<not> not_ipv4 s"
  shows "list_all ip_char s"
proof -
  obtain b where b: "ParseIP s = Some b" using assms by (auto simp: not_ipv4_def To4_def split: option.splits)
  have v6: "list_all ip_char s" if six: "parse_ipv6 s = Some b"
  proof (cases "HasPrefix s ''::''")
    case True
    then obtain t where t: "s = ''::'' @ t" by (rule HasPrefixE)
    then have "t = [] \<or> ip6_finish (ip6_groups 8 [] (Some 0) t) = Some b" using six True by (auto simp: parse_ipv6_def split: if_splits)
    then have "list_all ip_char t" using ip6_finish_chars by fastforce
    then show ?thesis using t by (simp add: ip_char_def)
  next
    case False
    then show ?thesis using six ip6_finish_chars by (auto simp: parse_ipv6_def split: if_splits)
  qed
  show ?thesis using b v6 parse_ipv4_chars by (auto simp: ParseIP_def split: list.splits if_splits)
qed

lemma ip_char_not_space: "list_all ip_char s \<Longrightarrow> CHR '' '' \<notin> set s"
  by (auto simp: list_all_iff ip_char_def is_hex_def from_hex_char_def is_digit_def)

subsection \<open>The fields of the command line\<close>

definition ip_field :: "string \<Rightarrow> string list \<Rightarrow> NetworkInterface \<Rightarrow> IPv4Config \<Rightarrow> string" where
  "ip_field hostname dns n ip = tl (ip_parameter hostname dns n ip)"

lemma ip_parameter_field: "ip_parameter hostname dns n ip = CHR '' '' # ip_field hostname dns n ip"
  by (simp add: ip_parameter_def ip_field_def)

lemma Itoa_no_space: "CHR '' '' \<notin> set (Itoa i)"
  using dec_nat_digits [of "nat i"] dec_nat_digits [of "nat (- i)"] by (auto simp: Itoa_def list_all_iff is_digit_def)

lemma mask_string_no_space: "CHR '' '' \<notin> set (mask_string p)"
proof (cases "p < 0 \<or> 32 < p")
  case True
  then show ?thesis by (auto simp: mask_string_def)
next
  case False
  then show ?thesis
    using set_strings_Join [of "map (\<lambda>i. Itoa (int (mask_byte p i mod 256))) [0..<4]" "''.''"] Itoa_no_space
    by (fastforce simp: mask_string_def)
qed

lemma ip_field_no_space:
  assumes "NetworkInterface_Validate n = None" and "nic_IPv4 n = Some ip" and "CHR '' '' \<notin> set hostname"
    and "\<forall>d \<in> set dns. \<not> not_ipv4 d"
  shows "CHR '' '' \<notin> set (ip_field hostname dns n ip)"
proof -
  have ip: "IPv4Config_Validate ip = None" and name: "nic_Name n = ''eth'' @ Itoa (nic_Index n)"
    using assms(1,2) by (auto simp: NetworkInterface_Validate_def)
  then have "CHR '' '' \<notin> set (ip4_Address ip)" "CHR '' '' \<notin> set (ip4_Gateway ip)"
    using not_ipv4_chars ip_char_not_space by (auto simp: IPv4Config_Validate_def)
  moreover have "CHR '' '' \<notin> set d" if "d \<in> set dns" for d using assms(4) that not_ipv4_chars ip_char_not_space by blast
  ultimately show ?thesis
    using assms(3) name Itoa_no_space mask_string_no_space by (auto simp: ip_field_def ip_parameter_def)
qed

lemma ipv4_dns_loop_Inr:
  "ipv4_dns_loop acc ss = Inr r \<longleftrightarrow> (\<forall>s \<in> set ss. \<not> not_ipv4 s) \<and> r = acc @ take (2 - length acc) ss"
proof (induction acc ss rule: ipv4_dns_loop.induct)
  case (2 acc s ss)
  then show ?case by (cases "length acc < 2") (auto simp: take_Cons' not_less)
qed auto

lemma ipv4DNSServers_Inr: "ipv4DNSServers ss = Inr r \<longleftrightarrow> (\<forall>s \<in> set ss. \<not> not_ipv4 s) \<and> r = take 2 ss"
  by (auto simp: ipv4DNSServers_def ipv4_dns_loop_Inr)

definition ip_fields :: "string \<Rightarrow> string list \<Rightarrow> NetworkInterface list \<Rightarrow> string list" where
  "ip_fields hostname dns ns = concat (map (\<lambda>n. case nic_IPv4 n of None \<Rightarrow> [] | Some ip \<Rightarrow> [ip_field hostname dns n ip]) ns)"

lemma ip_parameters_Inr:
  "ip_parameters h dns ns = Inr r \<longleftrightarrow> (\<forall>n \<in> set ns. NetworkInterface_Validate n = None)
     \<and> r = concat (map (\<lambda>f. CHR '' '' # f) (ip_fields h dns ns))"
  by (induction ns arbitrary: r) (auto simp: bindE_Inr_iff ip_fields_def ip_parameter_field split: option.splits)

lemma Split_fields:
  assumes "CHR '' '' \<notin> set f" and "\<forall>g \<in> set fs. CHR '' '' \<notin> set g"
  shows "Split (f @ concat (map (\<lambda>f. CHR '' '' # f) fs)) (CHR '' '') = f # fs"
proof -
  have "f @ concat (map (\<lambda>f. CHR '' '' # f) fs) = strings_Join (f # fs) '' ''"
  proof (induction fs arbitrary: f)
    case (Cons g fs)
    show ?case using Cons.IH [of g] by (simp del: strings_Join.simps add: strings_Join.simps(3))
  qed simp
  then show ?thesis using Split_Join [of "f # fs" "CHR '' ''"] assms by auto
qed

text \<open>The fields the early userspace of the guest reads.\<close>

definition cmdline_fields :: "OverlayV1Config \<Rightarrow> string list" where
  "cmdline_fields c = [''console=hvc0'', ''loglevel=3'', ''boot=kumabox-overlay'',
     ''kumabox.layers='' @ strings_Join (map layer_serial (rev [0..<nat (ov_LayerCount c)])) '','',
     ''kumabox.cow='' @ COWSerial, ''kumabox.hostname='' @ ov_Hostname c, ''clocksource=kvm-clock'', ''rw'']
     @ (if ov_Interfaces c = [] then [] else ''net.ifnames=0'' # ip_fields (ov_Hostname c) (take 2 (ov_DNSServers c)) (ov_Interfaces c))"

lemma cmdline_fields_no_space:
  assumes "OverlayV1Cmdline c = Inr l" and "f \<in> set (cmdline_fields c)"
  shows "CHR '' '' \<notin> set f"
proof -
  have host: "CHR '' '' \<notin> set (ov_Hostname c)"
    using assms(1) by (auto simp: OverlayV1Cmdline_def ContainsAny_iff whitespace_chars_def split: if_splits)
  have serials: "CHR '' '' \<notin> set (strings_Join (map layer_serial ns) '','')" for ns
    using set_strings_Join [of "map layer_serial ns" "'',''"] Itoa_no_space by (fastforce simp: layer_serial_def)
  have ips: "CHR '' '' \<notin> set g" if g: "g \<in> set (ip_fields (ov_Hostname c) (take 2 (ov_DNSServers c)) (ov_Interfaces c))" "ov_Interfaces c \<noteq> []" for g
  proof -
    obtain ips where "ipv4DNSServers (ov_DNSServers c) = Inr (take 2 (ov_DNSServers c))"
      "ip_parameters (ov_Hostname c) (take 2 (ov_DNSServers c)) (ov_Interfaces c) = Inr ips"
      using assms(1) g(2) by (auto simp: OverlayV1Cmdline_def Let_def bindE_Inr_iff ipv4DNSServers_Inr split: if_splits)
    then have v: "\<forall>n \<in> set (ov_Interfaces c). NetworkInterface_Validate n = None" "\<forall>d \<in> set (take 2 (ov_DNSServers c)). \<not> not_ipv4 d"
      by (auto simp: ip_parameters_Inr ipv4DNSServers_Inr dest: in_set_takeD)
    obtain n ip where "n \<in> set (ov_Interfaces c)" "nic_IPv4 n = Some ip" "g = ip_field (ov_Hostname c) (take 2 (ov_DNSServers c)) n ip"
      using g(1) unfolding ip_fields_def by (clarsimp split: option.splits) (metis option.exhaust list.set(1) empty_iff option.case)
    then show ?thesis using ip_field_no_space host v by blast
  qed
  show ?thesis using assms(2) host serials ips by (auto simp: cmdline_fields_def split: if_splits)
qed

lemma OverlayV1Cmdline_not_Nil: "OverlayV1Cmdline c = Inr l \<Longrightarrow> l \<noteq> []"
  by (auto simp: OverlayV1Cmdline_def Let_def bindE_Inr_iff split: if_splits)

section \<open>Properties\<close>

text \<open>
  C36. A launch plan built for a valid sandbox record and an image passes \<open>LaunchPlan.Validate\<close> as soon
  as it carries a generation: the read-only layers come first and are numbered by manifest position,
  then the one writable COW, then the data disks, all with distinct serials and absolute paths. The
  check that \<open>Start\<close> makes after its commit can never be the reason a valid sandbox fails to start.
\<close>

theorem launchPlan_valid:
  assumes "IsAbs (roots_Data (le_paths env))" and "IsAbs (roots_Data (le_imagePaths env))"
    and "Sandbox_Validate r = None" and "launchPlan env fs r im = Inr plan" and "g \<noteq> 0"
  shows "LaunchPlan_Validate (plan\<lparr>lp_Generation := g\<rparr>) = None"
proof -
  obtain kernel initrd cmdline cow ds where
    kernel: "images_BootFile fs (le_imagePaths env) (boot_KernelLayer (img_Boot im)) (boot_KernelFile (img_Boot im)) = Inr kernel"
    and initrd: "images_BootFile fs (le_imagePaths env) (boot_InitrdLayer (img_Boot im)) (boot_InitrdFile (img_Boot im)) = Inr initrd"
    and line: "OverlayV1Cmdline \<lparr>ov_LayerCount = int (length (img_Layers im)), ov_Hostname = cfg_Name (sb_Config r),
                 ov_Interfaces = net_Interfaces (sb_Network r), ov_DNSServers = le_dnsServers env\<rparr> = Inr cmdline"
    and cow: "sandbox_COW fs (le_paths env) (sb_ID r) = Inr cow"
    and ds: "mapE (data_disk fs (le_paths env) (sb_ID r)) (cfg_DataDisks (sb_Config r)) = Inr ds"
    and prof: "boot_Profile (img_Boot im) = BootProfileOverlayV1"
    and plan: "lp_Disks plan = layer_disks (le_imagePaths env) (img_Layers im)
            @ \<lparr>disk_Path = cow, disk_Serial = COWSerial, disk_ReadOnly = False,
                disk_DirectIO = Some (DiskIOMode_DirectIO (cfg_COWIOMode (sb_Config r)))\<rparr> # ds"
      "lp_SandboxID plan = sb_ID r" "lp_CPUs plan = cfg_CPUs (sb_Config r)" "lp_CPUPolicy plan = cfg_CPUPolicy (sb_Config r)"
      "lp_Memory plan = cfg_Memory (sb_Config r)" "lp_SharedMemory plan = cfg_SharedMemory (sb_Config r)"
      "lp_HugePages plan = cfg_HugePages (sb_Config r)" "lp_Mergeable plan = cfg_Mergeable (sb_Config r)"
      "lp_BootProfile plan = boot_Profile (img_Boot im)" "lp_Kernel plan = kernel" "lp_Initrd plan = initrd"
      "lp_Cmdline plan = cmdline" "lp_Network plan = sb_Network r"
    using assms(4) by (auto simp: launchPlan_def bindE_Inr_iff Let_def split: if_splits sum.splits)
  note rec = Sandbox_Validate_NoneD [OF assms(3)]
  have cfg: "cfg_CPUs (sb_Config r) \<noteq> 0" "MinSandboxMemory \<le> cfg_Memory (sb_Config r)"
    "\<exists>q. CPUPolicy_Resolve (cfg_CPUPolicy (sb_Config r)) (cfg_CPUs (sb_Config r)) = Inr q"
    "\<not> (cfg_Mergeable (sb_Config r) \<and> (cfg_HugePages (sb_Config r) \<or> cfg_SharedMemory (sb_Config r)))"
    "disks_loop [] (cfg_DataDisks (sb_Config r)) = None"
    using rec(2) by (auto simp: SandboxConfig_Validate_def split: sum.splits)
  have layers: "img_Layers im \<noteq> []" using line by (auto simp: OverlayV1Cmdline_def split: if_splits)
  have "plan_disks 0 [] False (lp_Disks plan) = Inr True"
    unfolding plan(1) by (rule launchPlan_disks_valid [OF assms(1,2) cfg(5) layers cow ds])
  moreover have "length (lp_Disks plan) \<ge> 2" using layers by (cases "img_Layers im") (auto simp: plan(1) layer_disks_def)
  moreover have "IsAbs kernel" "IsAbs initrd" using kernel initrd managed_paths_abs(2) [OF assms(2)] by blast+
  ultimately show ?thesis
    using rec(1,6) cfg assms(5) OverlayV1Cmdline_not_Nil [OF line]
    by (auto simp: LaunchPlan_Validate_def plan(2-) prof ParseSandboxID_valid MinSandboxMemory_def)
qed

definition sample_env :: launchEnv where
  "sample_env = \<lparr>le_paths = DefaultRoots, le_imagePaths = DefaultRoots, le_dnsServers = [], le_GOARCH = ''amd64''\<rparr>"

definition sample_image :: Image where
  "sample_image = \<lparr>img_Names = [''base''], img_RegistryReference = [], img_ManifestDigest = sample_digest,
     img_Platform = \<lparr>plat_OS = ''linux'', plat_Architecture = ''amd64''\<rparr>, img_Layers = [sample_layer], img_Boot = sample_boot,
     img_Size = 1, img_CreatedAt = 1\<rparr>"

lemma sample_launchPlan: "isl (launchPlan sample_env sample_fs sample_sandbox sample_image) = False"
  by code_simp

theorem launchPlan_valid_witness:
  "LaunchPlan_Validate ((projr (launchPlan sample_env sample_fs sample_sandbox sample_image))\<lparr>lp_Generation := 2\<rparr>) = None"
proof (rule launchPlan_valid [of sample_env sample_sandbox sample_fs sample_image])
  show "IsAbs (roots_Data (le_paths sample_env))" "IsAbs (roots_Data (le_imagePaths sample_env))"
    by (simp_all add: sample_env_def DefaultRoots_def IsAbs_def HasPrefix_def)
  show "Sandbox_Validate sample_sandbox = None" by (rule sample_sandbox_valid)
  show "launchPlan sample_env sample_fs sample_sandbox sample_image = Inr (projr (launchPlan sample_env sample_fs sample_sandbox sample_image))"
    using sample_launchPlan by (cases "launchPlan sample_env sample_fs sample_sandbox sample_image") simp_all
qed simp

text \<open>
  The bindings a clone takes from a launch plan are its layers and its data disks, in order and without
  the COW.
\<close>

theorem cloneDiskBindings_launchPlan:
  assumes "launchPlan env fs r im = Inr plan"
  shows "\<exists>cow ds. lp_Disks plan = layer_disks (le_imagePaths env) (img_Layers im) @ cow # ds \<and> disk_Serial cow = COWSerial
    \<and> cloneDiskBindings plan (int (length (cfg_DataDisks (sb_Config r)))) = Inr (layer_disks (le_imagePaths env) (img_Layers im), ds)"
proof -
  obtain cmdline cow ds where line: "OverlayV1Cmdline \<lparr>ov_LayerCount = int (length (img_Layers im)), ov_Hostname = cfg_Name (sb_Config r),
                 ov_Interfaces = net_Interfaces (sb_Network r), ov_DNSServers = le_dnsServers env\<rparr> = Inr cmdline"
    and ds: "mapE (data_disk fs (le_paths env) (sb_ID r)) (cfg_DataDisks (sb_Config r)) = Inr ds"
    and disks: "lp_Disks plan = layer_disks (le_imagePaths env) (img_Layers im) @ cow # ds" and cow: "disk_Serial cow = COWSerial"
    using assms by (auto simp: launchPlan_def bindE_Inr_iff Let_def split: if_splits sum.splits)
  have len: "length ds = length (cfg_DataDisks (sb_Config r))" using mapE_Inr_length [OF ds] .
  have "img_Layers im \<noteq> []" using line by (auto simp: OverlayV1Cmdline_def split: if_splits)
  then have ne: "0 < length (layer_disks (le_imagePaths env) (img_Layers im))" by (simp add: layer_disks_def)
  have "cloneDiskBindings plan (int (length (cfg_DataDisks (sb_Config r)))) = Inr (layer_disks (le_imagePaths env) (img_Layers im), ds)"
    using ne by (simp add: cloneDiskBindings_def disks cow len flip: len)
  then show ?thesis using disks cow by blast
qed

text \<open>
  A TAP name fits the Linux limit, and the names of one sandbox are distinct.
\<close>

theorem TAPName_bounds:
  assumes "TAPName prefix i m = Inr s" and "TAPName prefix i n = Inr t"
  shows "length s \<le> 15 \<and> (s = t \<longleftrightarrow> m = n)"
proof -
  have s: "s = prefix @ take 8 (filter (\<lambda>c. c \<noteq> CHR ''-'') i) @ ''-'' @ Itoa m" "0 \<le> m" "length s \<le> 15"
    and t: "t = prefix @ take 8 (filter (\<lambda>c. c \<noteq> CHR ''-'') i) @ ''-'' @ Itoa n" "0 \<le> n"
    using assms by (auto simp: TAPName_def Let_def split: if_splits)
  then show ?thesis by (auto simp: Itoa_def)
qed


definition sample_overlay :: OverlayV1Config where
  "sample_overlay = \<lparr>ov_LayerCount = 2, ov_Hostname = ''box'', ov_Interfaces = [], ov_DNSServers = [''1.1.1.1'']\<rparr>"


text \<open>
  The \<open>ip=\<close> parameter separates its values with colons, but the validation of an interface accepts any
  text that \<open>net.ParseIP\<close> reads as an IPv4 address, the IPv4-mapped IPv6 form included: a valid
  interface can make \<open>OverlayV1Cmdline\<close> render a parameter whose fields the kernel reads shifted.
\<close>

definition mapped_nic :: NetworkInterface where
  "mapped_nic = sample_nic\<lparr>nic_IPv4 := Some \<lparr>ip4_Address = ''::ffff:10.0.0.2'', ip4_Gateway = ''10.0.0.1'', ip4_Prefix = 24\<rparr>\<rparr>"

lemmas mapped_eval = NetworkInterface_Validate_def IPv4Config_Validate_def mapped_nic_def sample_nic_def not_ipv4_def
  Itoa_def dec_nat.simps net_eval digit_chars Let_def ip6_groups_numeral replicate_numeral

lemma mapped_nic_valid: "NetworkInterface_Validate mapped_nic = None"
  by (simp add: mapped_eval cong: let_weak_cong)

theorem mapped_address_shifts_ip_fields:
  "NetworkInterface_Validate mapped_nic = None
    \<and> ip_parameters ''box'' [] [mapped_nic] = Inr '' ip=::ffff:10.0.0.2::10.0.0.1:255.255.255.0:box:eth0:off''"
  by (simp add: mapped_nic_valid) (simp add: mapped_nic_def sample_nic_def ip_parameter_def mask_string_def mask_byte_def Itoa_def
      dec_nat.simps upt_conv_Cons digit_chars)

end
