(* ===== verification/Types_Snapshot.thy ===== *)
theory Types_Snapshot
  imports Types_Sandbox
begin

text \<open>
  Snapshots (\<open>internal/types/snapshot.go\<close>), runtime devices (\<open>internal/types/device.go\<close>) and the eviction
  policy of \<open>internal/types/operations.go\<close>.
\<close>

section \<open>Snapshots\<close>

definition validSnapshotName :: "string \<Rightarrow> bool" where
  "validSnapshotName = match_name is_alnum (\<lambda>c. is_alnum c \<or> List.member ''._:/-'' c) 62"

record Snapshot =
  snap_ID :: SnapshotID
  snap_Name :: string
  snap_Description :: string
  snap_SandboxID :: SandboxID
  snap_SourceGeneration :: "64 word"
  snap_ImageDigest :: Digest
  snap_RegistryReference :: string
  snap_VMM :: VMMType
  snap_Config :: SandboxConfig
  snap_Size :: int
  snap_CreatedAt :: time
  snap_LastAccessedAt :: time

definition parse_error :: "gerr + 'a \<Rightarrow> gerr option" where
  "parse_error r = (case r of Inl e \<Rightarrow> Some e | Inr _ \<Rightarrow> None)"

definition Snapshot_Validate :: "Snapshot \<Rightarrow> gerr option" where
  "Snapshot_Validate s = first_error [
     parse_error (ParseSnapshotID (snap_ID s)),
     check (snap_Name s \<noteq> [] \<and> \<not> validSnapshotName (snap_Name s)) (Msg ''snapshot name must match''),
     parse_error (ParseSandboxID (snap_SandboxID s)),
     check (snap_SourceGeneration s = 0) (Msg ''snapshot source generation must be positive''),
     parse_error (ParseDigest (Digest_String (snap_ImageDigest s))),
     check (512 < length (snap_RegistryReference s)
         \<or> ContainsAny (snap_RegistryReference s) [CHR 0x00, CHR 0x0D, CHR 0x0A, CHR 0x09])
       (Msg ''snapshot registry reference is invalid''),
     VMMType_Validate (snap_VMM s),
     SandboxConfig_Validate (snap_Config s),
     check (snap_Size s < 0 \<or> IsZero (snap_CreatedAt s))
       (Msg ''snapshot size must be non-negative and creation time must be set'')]"

record SnapshotEvictionPolicy =
  ev_Enabled :: bool
  ev_DryRun :: bool
  ev_KeepLast :: int
  ev_MaxAge :: duration
  ev_MaxSize :: int

lemma parse_error_None [simp]: "parse_error r = None \<longleftrightarrow> (\<exists>x. r = Inr x)"
  by (cases r) (simp_all add: parse_error_def)

lemma parse_error_Some: "parse_error r = Some e \<longleftrightarrow> r = Inl e"
  by (cases r) (auto simp: parse_error_def)

lemma Snapshot_Validate_NoneD:
  assumes "Snapshot_Validate s = None"
  shows "valid_id (snap_ID s)" and "valid_id (snap_SandboxID s)" and "wf_digest (snap_ImageDigest s)"
    and "SandboxConfig_Validate (snap_Config s) = None" and "snap_CreatedAt s \<noteq> 0" and "0 \<le> snap_Size s"
    and "VMMType_Validate (snap_VMM s) = None"
  using assms
  by (auto simp: Snapshot_Validate_def ParseSnapshotID_Inr ParseSandboxID_Inr ParseDigest_iff Digest_String_inject)

section \<open>Runtime devices\<close>

record FileShare =
  fs_Socket :: string
  fs_Tag :: string
  fs_NumQueues :: int
  fs_QueueSize :: int

definition validExternalDiskName :: "string \<Rightarrow> bool" where
  "validExternalDiskName = match_name is_lower (\<lambda>c. is_lower c \<or> is_digit c \<or> List.member ''_-'' c) 19"

definition validPCIDeviceID :: "string \<Rightarrow> bool" where
  "validPCIDeviceID = match_name is_alnum (\<lambda>c. is_alnum c \<or> List.member ''_.-'' c) 63"

definition validFileShareTag :: "string \<Rightarrow> bool" where
  "validFileShareTag = match_name is_alnum (\<lambda>c. is_alnum c \<or> List.member ''_-'' c) 35"

definition ValidateExternalDiskName :: "string \<Rightarrow> gerr option" where
  "ValidateExternalDiskName name = check (\<not> validExternalDiskName name \<or> HasPrefix name ''kumabox-'') (Msg ''disk name must match'')"

definition ValidatePCIDeviceID :: "string \<Rightarrow> gerr option" where
  "ValidatePCIDeviceID i = check (\<not> validPCIDeviceID i \<or> HasPrefix i ''kumabox-'') (Msg ''device id must match'')"

definition ValidateFileShareTag :: "string \<Rightarrow> gerr option" where
  "ValidateFileShareTag tag = check (\<not> validFileShareTag tag) (Msg ''file share tag must match'')"

definition NormalizeFileShare :: "FileShare \<Rightarrow> gerr + FileShare" where
  "NormalizeFileShare share =
     guard_err (first_error [
       check (\<not> IsAbs (fs_Socket share)) (Msg ''file share socket must be absolute''),
       ValidateFileShareTag (fs_Tag share),
       check (fs_NumQueues share < 0) (Msg ''file share num-queues must not be negative''),
       check (fs_QueueSize share < 0) (Msg ''file share queue-size must not be negative'')])
     (Inr (let s1 = (if fs_NumQueues share = 0 then share\<lparr>fs_NumQueues := 1\<rparr> else share)
           in if fs_QueueSize s1 = 0 then s1\<lparr>fs_QueueSize := 1024\<rparr> else s1))"

lemma NormalizeFileShare_idem: "NormalizeFileShare s = Inr r \<Longrightarrow> NormalizeFileShare r = Inr r \<and> 0 < fs_NumQueues r \<and> 0 < fs_QueueSize r"
  by (auto simp: NormalizeFileShare_def Let_def split: if_splits)

end
