(* ===== verification/Metadata.thy ===== *)
theory Metadata
  imports Errdefs Go_Lib
begin

text \<open>
  The metadata engine contract (\<open>internal/metadata/store.go\<close>) and its in-memory implementation
  (\<open>internal/metadata/memory.go\<close>). A transaction works on a detached copy of all collections;
  \<open>Update\<close> publishes the copy only when its callback succeeds, so a callback is a pure function
  from a transaction to an error or a result with the changed transaction.

  A \<open>context.Context\<close> is modelled by what its \<open>Err()\<close> returns during the operation: \<open>None\<close> while it is
  live, the error once it is cancelled.
\<close>

section \<open>Model\<close>

type_synonym Collection = string
type_synonym ctx = "gerr option"
type_synonym 'b memoryTransaction = "'b gomap gomap"

record 'b Memory =
  mem_records :: "'b memoryTransaction"
  mem_closed :: bool

definition NewCollection :: "string \<Rightarrow> gerr + Collection" where
  "NewCollection name =
     (if name = [] \<or> 63 < length name \<or> \<not> is_lower (hd name) then Inl (Msg ''invalid metadata collection'')
      else if list_ex (\<lambda>c. \<not> is_lower c \<and> \<not> is_digit c \<and> c \<noteq> CHR ''_'') name
      then Inl (Msg ''invalid metadata collection'')
      else Inr name)"

fun declare_collections :: "'b memoryTransaction \<Rightarrow> Collection list \<Rightarrow> gerr + 'b memoryTransaction" where
  "declare_collections records [] = Inr records"
| "declare_collections records (c # cs) =
     bindE (NewCollection c) (\<lambda>_.
       if map_of records c \<noteq> None then Inl (Msg ''duplicate collection'')
       else declare_collections (AList.update c [] records) cs)"

definition NewMemory :: "Collection list \<Rightarrow> gerr + 'b Memory" where
  "NewMemory collections = bindE (declare_collections [] collections)
     (\<lambda>records. Inr \<lparr>mem_records = records, mem_closed = False\<rparr>)"

definition Memory_snapshot :: "ctx \<Rightarrow> 'b Memory \<Rightarrow> gerr + 'b memoryTransaction" where
  "Memory_snapshot ctx s = (case ctx of Some e \<Rightarrow> Inl e
     | None \<Rightarrow> if mem_closed s then Inl (Msg ''metadata store is closed'') else Inr (mem_records s))"

definition View :: "ctx \<Rightarrow> 'b Memory \<Rightarrow> ('b memoryTransaction \<Rightarrow> gerr + 'a) \<Rightarrow> gerr + 'a" where
  "View ctx s fn = bindE (Memory_snapshot ctx s) (\<lambda>t. bindE (fn t) (\<lambda>x. guard_err ctx (Inr x)))"

definition Update :: "ctx \<Rightarrow> 'b Memory \<Rightarrow> ('b memoryTransaction \<Rightarrow> gerr + ('a \<times> 'b memoryTransaction))
    \<Rightarrow> (gerr + 'a) \<times> 'b Memory" where
  "Update ctx s fn = (case Memory_snapshot ctx s of
     Inl e \<Rightarrow> (Inl e, s)
   | Inr t \<Rightarrow> (case fn t of
       Inl e \<Rightarrow> (Inl e, s)
     | Inr (x, t') \<Rightarrow> (case ctx of Some e \<Rightarrow> (Inl e, s)
         | None \<Rightarrow> if mem_closed s then (Inl (Msg ''metadata store is closed''), s)
             else (Inr x, s\<lparr>mem_records := t'\<rparr>))))"

definition Memory_Close :: "'b Memory \<Rightarrow> 'b Memory" where
  "Memory_Close s = s\<lparr>mem_closed := True\<rparr>"

definition tx_collection :: "ctx \<Rightarrow> 'b memoryTransaction \<Rightarrow> Collection \<Rightarrow> gerr + 'b gomap" where
  "tx_collection ctx t c = guard_err ctx (case map_of t c of
     None \<Rightarrow> Inl (Msg ''undeclared metadata collection'') | Some records \<Rightarrow> Inr records)"

definition Get :: "ctx \<Rightarrow> 'b memoryTransaction \<Rightarrow> Collection \<Rightarrow> string \<Rightarrow> gerr + 'b option" where
  "Get ctx t c key = bindE (tx_collection ctx t c) (\<lambda>records. Inr (map_of records key))"

text \<open>A scan callback works on the variables it captures, its state \<open>'s\<close>.\<close>

fun scan_loop :: "(string \<Rightarrow> 'b \<Rightarrow> 's \<Rightarrow> gerr + 's) \<Rightarrow> (string \<times> 'b) list \<Rightarrow> 's \<Rightarrow> gerr + 's" where
  "scan_loop fn [] s = Inr s"
| "scan_loop fn ((k, v) # kvs) s = bindE (fn k v s) (scan_loop fn kvs)"

definition Scan :: "ctx \<Rightarrow> 'b memoryTransaction \<Rightarrow> Collection \<Rightarrow> (string \<Rightarrow> 'b \<Rightarrow> 's \<Rightarrow> gerr + 's) \<Rightarrow> 's \<Rightarrow> gerr + 's" where
  "Scan ctx t c fn s = bindE (tx_collection ctx t c) (\<lambda>records. scan_loop fn (sorted_entries records) s)"

definition Put :: "ctx \<Rightarrow> 'b memoryTransaction \<Rightarrow> Collection \<Rightarrow> string \<Rightarrow> 'b \<Rightarrow> gerr + 'b memoryTransaction" where
  "Put ctx t c key v = bindE (tx_collection ctx t c) (\<lambda>records. Inr (AList.update c (AList.update key v records) t))"

definition Delete :: "ctx \<Rightarrow> 'b memoryTransaction \<Rightarrow> Collection \<Rightarrow> string \<Rightarrow> gerr + 'b memoryTransaction" where
  "Delete ctx t c key = bindE (tx_collection ctx t c) (\<lambda>records. Inr (AList.update c (AList.delete key records) t))"

section \<open>The records of a transaction\<close>

text \<open>The abstraction of a transaction: which collections are declared, and the record under a key.\<close>

definition declared :: "'b memoryTransaction \<Rightarrow> Collection \<Rightarrow> bool" where
  "declared t c \<longleftrightarrow> map_of t c \<noteq> None"

definition lookup :: "'b memoryTransaction \<Rightarrow> Collection \<Rightarrow> string \<Rightarrow> 'b option" where
  "lookup t c k = (case map_of t c of None \<Rightarrow> None | Some r \<Rightarrow> map_of r k)"

definition tx_ok :: "'b memoryTransaction \<Rightarrow> bool" where
  "tx_ok t \<longleftrightarrow> keys_ok t \<and> (\<forall>c r. map_of t c = Some r \<longrightarrow> keys_ok r)"

lemma Get_live [simp]: "declared t c \<Longrightarrow> Get None t c k = Inr (lookup t c k)"
  by (auto simp: Get_def tx_collection_def declared_def lookup_def)

lemma Get_Inr: "Get ctx t c k = Inr v \<longleftrightarrow> ctx = None \<and> declared t c \<and> v = lookup t c k"
  by (cases ctx) (auto simp: Get_def tx_collection_def declared_def lookup_def split: option.splits)

lemma Put_Inr: "Put ctx t c k v = Inr t' \<longleftrightarrow>
    ctx = None \<and> declared t c \<and> t' = AList.update c (AList.update k v (the (map_of t c))) t"
  by (cases ctx) (auto simp: Put_def tx_collection_def declared_def split: option.splits)

lemma Delete_Inr: "Delete ctx t c k = Inr t' \<longleftrightarrow>
    ctx = None \<and> declared t c \<and> t' = AList.update c (AList.delete k (the (map_of t c))) t"
  by (cases ctx) (auto simp: Delete_def tx_collection_def declared_def split: option.splits)

lemma lookup_Put: "Put ctx t c k v = Inr t' \<Longrightarrow>
    lookup t' c' k' = (if c' = c \<and> k' = k then Some v else lookup t c' k')"
  by (auto simp: Put_Inr lookup_def declared_def)

lemma lookup_Delete: "Delete ctx t c k = Inr t' \<Longrightarrow>
    lookup t' c' k' = (if c' = c \<and> k' = k then None else lookup t c' k')"
  by (auto simp: Delete_Inr lookup_def declared_def)

lemma declared_Put: "Put ctx t c k v = Inr t' \<Longrightarrow> declared t' c' = declared t c'"
  by (auto simp: Put_Inr declared_def)

lemma declared_Delete: "Delete ctx t c k = Inr t' \<Longrightarrow> declared t' c' = declared t c'"
  by (auto simp: Delete_Inr declared_def)

lemma tx_ok_Put: "tx_ok t \<Longrightarrow> Put ctx t c k v = Inr t' \<Longrightarrow> tx_ok t'"
  by (auto simp: Put_Inr tx_ok_def declared_def)

lemma tx_ok_Delete: "tx_ok t \<Longrightarrow> Delete ctx t c k = Inr t' \<Longrightarrow> tx_ok t'"
  by (auto simp: Delete_Inr tx_ok_def declared_def)

lemma Put_live: "declared t c \<Longrightarrow> \<exists>t'. Put None t c k v = Inr t'"
  by (simp add: Put_Inr)

lemma Delete_live: "declared t c \<Longrightarrow> \<exists>t'. Delete None t c k = Inr t'"
  by (simp add: Delete_Inr)

text \<open>The entries a scan visits.\<close>

definition entries :: "'b memoryTransaction \<Rightarrow> Collection \<Rightarrow> (string \<times> 'b) list" where
  "entries t c = sorted_entries (the (map_of t c))"

lemma Scan_live: "declared t c \<Longrightarrow> Scan None t c fn s = scan_loop fn (entries t c) s"
  by (auto simp: Scan_def tx_collection_def declared_def entries_def)

lemma Scan_Inr: "Scan ctx t c fn s = Inr s' \<longleftrightarrow> ctx = None \<and> declared t c \<and> scan_loop fn (entries t c) s = Inr s'"
  by (cases ctx) (auto simp: Scan_def tx_collection_def declared_def entries_def split: option.splits)

lemma entries_lookup:
  assumes "tx_ok t" and "declared t c"
  shows "(k, v) \<in> set (entries t c) \<longleftrightarrow> lookup t c k = Some v"
proof -
  from assms obtain r where r: "map_of t c = Some r" "keys_ok r" by (auto simp: declared_def tx_ok_def)
  then show ?thesis by (simp add: entries_def lookup_def sorted_entries_set map_of_Some_iff_in_set)
qed

lemma entries_sorted:
  assumes "tx_ok t" and "declared t c"
  shows "sorted (map fst (entries t c)) \<and> distinct (map fst (entries t c))"
proof -
  from assms obtain r where "map_of t c = Some r" "keys_ok r" by (auto simp: declared_def tx_ok_def)
  then show ?thesis by (simp add: entries_def sorted_entries_keys keys_ok_def)
qed

lemma scan_loop_append: "scan_loop fn (xs @ ys) s = bindE (scan_loop fn xs s) (scan_loop fn ys)"
proof (induction xs arbitrary: s)
  case (Cons x xs)
  then show ?case by (cases x; cases "fn (fst x) (snd x) s") simp_all
qed simp

text \<open>A scan that collects one item per entry, or none, is a fallible map.\<close>

lemma scan_loop_collect:
  assumes "\<And>k v s. fn k v s = bindE (g k v) (\<lambda>ys. Inr (s @ ys))"
  shows "scan_loop fn kvs s = bindE (mapE (\<lambda>(k, v). g k v) kvs) (\<lambda>yss. Inr (s @ concat yss))"
proof (induction kvs arbitrary: s)
  case (Cons kv kvs)
  obtain k v where kv: "kv = (k, v)" by (cases kv)
  then show ?case
    using Cons by (cases "g k v"; cases "mapE (\<lambda>(k, v). g k v) kvs") (simp_all add: assms)
qed simp

text \<open>A scan that looks for one entry, and fails on an entry that does not decode.\<close>

lemma scan_loop_flag:
  assumes "\<And>k v s. fn k v s = bindE (g k v) (\<lambda>y. Inr (s \<or> P k y))"
    and "scan_loop fn kvs s = Inr b"
  shows "b \<longleftrightarrow> s \<or> (\<exists>(k, v) \<in> set kvs. \<exists>y. g k v = Inr y \<and> P k y)"
  using assms(2)
proof (induction kvs arbitrary: s)
  case (Cons kv kvs)
  obtain k v where kv: "kv = (k, v)" by (cases kv)
  with Cons.prems obtain y where y: "g k v = Inr y" "scan_loop fn kvs (s \<or> P k y) = Inr b"
    using assms(1) [of k v s] by (auto simp: bindE_Inr_iff)
  from Cons.IH [OF y(2)] y(1) kv show ?case by auto
qed simp

section \<open>Contract\<close>

text \<open>What the catalogs rely on: reads see earlier writes of the same transaction, a write touches
  only its own key, a scan visits exactly the records of a collection in key order.\<close>

locale transaction_contract =
  fixes get :: "'t \<Rightarrow> Collection \<Rightarrow> string \<Rightarrow> gerr + 'b option"
    and put :: "'t \<Rightarrow> Collection \<Rightarrow> string \<Rightarrow> 'b \<Rightarrow> gerr + 't"
    and delete :: "'t \<Rightarrow> Collection \<Rightarrow> string \<Rightarrow> gerr + 't"
    and visit :: "'t \<Rightarrow> Collection \<Rightarrow> gerr + (string \<times> 'b) list"
    and ok :: "'t \<Rightarrow> bool"
  assumes get_put: "ok t \<Longrightarrow> put t c k v = Inr t' \<Longrightarrow>
      get t' c' k' = (if c' = c \<and> k' = k then Inr (Some v) else get t c' k')"
    and get_delete: "ok t \<Longrightarrow> delete t c k = Inr t' \<Longrightarrow>
      get t' c' k' = (if c' = c \<and> k' = k then Inr None else get t c' k')"
    and ok_put: "ok t \<Longrightarrow> put t c k v = Inr t' \<Longrightarrow> ok t'"
    and ok_delete: "ok t \<Longrightarrow> delete t c k = Inr t' \<Longrightarrow> ok t'"
    and visit_sorted: "ok t \<Longrightarrow> visit t c = Inr es \<Longrightarrow> sorted (map fst es) \<and> distinct (map fst es)"
    and visit_get: "ok t \<Longrightarrow> visit t c = Inr es \<Longrightarrow> (k, v) \<in> set es \<longleftrightarrow> get t c k = Inr (Some v)"
begin

lemma put_shadows_put:
  assumes "ok t" and "put t c k v = Inr t1" and "put t1 c k w = Inr t2"
  shows "get t2 c' k' = (if c' = c \<and> k' = k then Inr (Some w) else get t c' k')"
  using get_put [OF assms(1,2)] get_put [OF ok_put [OF assms(1,2)] assms(3)] by simp

lemma delete_undoes_put:
  assumes "ok t" and "get t c k = Inr None" and "put t c k v = Inr t1" and "delete t1 c k = Inr t2"
  shows "get t2 c' k' = get t c' k'"
  using assms(2) get_put [OF assms(1,3)] get_delete [OF ok_put [OF assms(1,3)] assms(4)] by simp

text \<open>Two transactions that answer every \<open>get\<close> alike are scanned alike, whatever writes led there.\<close>

lemma visit_determined:
  assumes "ok t" and "ok t'" and "\<And>k. get t c k = get t' c k"
    and "visit t c = Inr es" and "visit t' c = Inr es'"
  shows "es = es'"
proof (rule map_sorted_distinct_set_unique [where f = fst])
  show "set es = set es'"
    using visit_get [OF assms(1,4)] visit_get [OF assms(2,5)] assms(3) by (auto simp: set_eq_iff)
  show "inj_on fst (set es \<union> set es')"
    using visit_get [OF assms(1,4)] visit_get [OF assms(2,5)] assms(3) by (auto simp: inj_on_def)
qed (use visit_sorted [OF assms(1,4)] visit_sorted [OF assms(2,5)] in auto)

end

definition tx_visit :: "ctx \<Rightarrow> 'b memoryTransaction \<Rightarrow> Collection \<Rightarrow> gerr + (string \<times> 'b) list" where
  "tx_visit ctx t c = Scan ctx t c (\<lambda>k v es. Inr (es @ [(k, v)])) []"

lemma scan_loop_entries: "scan_loop (\<lambda>k v es. Inr (es @ [(k, v)])) kvs s = Inr (s @ kvs)"
  by (induction kvs arbitrary: s) auto

lemma tx_visit_Inr: "tx_visit ctx t c = Inr es \<longleftrightarrow> ctx = None \<and> declared t c \<and> es = entries t c"
  by (auto simp: tx_visit_def Scan_Inr scan_loop_entries)

interpretation memory_tx: transaction_contract "Get ctx" "Put ctx" "Delete ctx" "tx_visit ctx" tx_ok
proof
  show "Get ctx t' c' k' = (if c' = c \<and> k' = k then Inr (Some v) else Get ctx t c' k')"
    if "tx_ok t" "Put ctx t c k v = Inr t'" for t :: "'b memoryTransaction" and c k v t' c' k'
    using that by (auto simp: Put_Inr Get_def tx_collection_def declared_def split: option.splits)
  show "Get ctx t' c' k' = (if c' = c \<and> k' = k then Inr None else Get ctx t c' k')"
    if "tx_ok t" "Delete ctx t c k = Inr t'" for t :: "'b memoryTransaction" and c k t' c' k'
    using that by (auto simp: Delete_Inr Get_def tx_collection_def declared_def split: option.splits)
qed (auto simp: tx_visit_Inr entries_sorted entries_lookup Get_Inr intro: tx_ok_Put tx_ok_Delete)

section \<open>Atomicity\<close>

lemma Update_Inl: "Update ctx s fn = (Inl e, s') \<Longrightarrow> s' = s"
  by (auto simp: Update_def split: sum.splits option.splits prod.splits if_splits)

lemma Update_Inr: "Update ctx s fn = (Inr x, s') \<longleftrightarrow>
    ctx = None \<and> \<not> mem_closed s \<and> (\<exists>t. fn (mem_records s) = Inr (x, t) \<and> s' = s\<lparr>mem_records := t\<rparr>)"
  by (auto simp: Update_def Memory_snapshot_def split: sum.splits option.splits prod.splits if_splits)

lemma Update_live: "\<not> mem_closed s \<Longrightarrow> Update None s fn = (case fn (mem_records s) of
    Inl e \<Rightarrow> (Inl e, s) | Inr (x, t) \<Rightarrow> (Inr x, s\<lparr>mem_records := t\<rparr>))"
  by (auto simp: Update_def Memory_snapshot_def split: sum.splits)

lemma View_Inr: "View ctx s fn = Inr x \<longleftrightarrow> ctx = None \<and> \<not> mem_closed s \<and> fn (mem_records s) = Inr x"
  by (auto simp: View_def Memory_snapshot_def bindE_Inr_iff split: option.splits if_splits)

lemma View_live: "\<not> mem_closed s \<Longrightarrow> View None s fn = fn (mem_records s)"
  by (cases "fn (mem_records s)") (simp_all add: View_def Memory_snapshot_def)

lemma declare_collections_ok:
  "declare_collections r cs = Inr t \<Longrightarrow> tx_ok r \<Longrightarrow> (\<And>c k. lookup r c k = None) \<Longrightarrow>
     tx_ok t \<and> (\<forall>c k. lookup t c k = None) \<and> (\<forall>c. declared t c \<longleftrightarrow> declared r c \<or> c \<in> set cs)"
proof (induction r cs rule: declare_collections.induct)
  case (2 r c cs)
  from 2(2) have none: "map_of r c = None" and rec: "declare_collections (AList.update c [] r) cs = Inr t"
    by (auto simp: bindE_Inr_iff split: if_splits)
  from 2(2) obtain x where x: "NewCollection c = Inr x" by (auto simp: bindE_Inr_iff)
  have "tx_ok (AList.update c [] r)" using 2(3) by (auto simp: tx_ok_def)
  moreover have "lookup (AList.update c [] r) c' k = None" for c' k
    using 2(4) [of c' k] by (auto simp: lookup_def)
  ultimately show ?case
    using 2(1) [OF x _ rec] none by (auto simp: declared_def)
qed simp

text \<open>A new store holds no record, in exactly the declared collections.\<close>

lemma NewMemory_empty:
  assumes "NewMemory cs = Inr s"
  shows "tx_ok (mem_records s)" and "lookup (mem_records s) c k = None"
    and "declared (mem_records s) c \<longleftrightarrow> c \<in> set cs" and "\<not> mem_closed s"
proof -
  from assms obtain t where t: "declare_collections [] cs = Inr t" "s = \<lparr>mem_records = t, mem_closed = False\<rparr>"
    by (auto simp: NewMemory_def bindE_Inr_iff)
  have "tx_ok t \<and> (\<forall>c k. lookup t c k = None) \<and> (\<forall>c. declared t c \<longleftrightarrow> c \<in> set cs)"
    using declare_collections_ok [OF t(1)] by (simp add: tx_ok_def lookup_def declared_def)
  then show "tx_ok (mem_records s)" "lookup (mem_records s) c k = None"
    "declared (mem_records s) c \<longleftrightarrow> c \<in> set cs" "\<not> mem_closed s" using t(2) by simp_all
qed

section \<open>Properties\<close>

text \<open>
   \<open>Update\<close> is atomic: when it reports an error, cancellation and closure included, the
  published records are exactly the old ones; when it succeeds, they are what the callback built on
  the old ones. \<open>View\<close> never publishes anything and a closed store serves no transaction.
\<close>

theorem Update_atomic:
  "(case Update ctx s fn of
      (Inl e, s') \<Rightarrow> s' = s
    | (Inr x, s') \<Rightarrow> ctx = None \<and> \<not> mem_closed s \<and> fn (mem_records s) = Inr (x, mem_records s')
        \<and> mem_closed s' = mem_closed s)
   \<and> (\<exists>e. fst (Update ctx (Memory_Close s) fn) = Inl e) \<and> snd (Update ctx (Memory_Close s) fn) = Memory_Close s"
proof -
  have "\<exists>e. fst (Update ctx (Memory_Close s) fn) = Inl e" "snd (Update ctx (Memory_Close s) fn) = Memory_Close s"
    by (auto simp: Update_def Memory_snapshot_def Memory_Close_def split: option.splits)
  moreover have "case Update ctx s fn of
      (Inl e, s') \<Rightarrow> s' = s
    | (Inr x, s') \<Rightarrow> ctx = None \<and> \<not> mem_closed s \<and> fn (mem_records s) = Inr (x, mem_records s')
        \<and> mem_closed s' = mem_closed s"
    by (auto simp: Update_def Memory_snapshot_def split: sum.splits option.splits prod.splits if_splits)
  ultimately show ?thesis by blast
qed

text \<open>
   The in-memory transaction keeps the reader and writer contract: a read returns the last
  value written under that key in that collection, other keys and collections are untouched, and a
  scan lists each present record once, in increasing key order.
\<close>

theorem memory_transaction_contract:
  assumes "tx_ok t" and "declared t c"
  shows "\<exists>t1 t2. Put None t c k v = Inr t1 \<and> Delete None t c k = Inr t2 \<and> tx_ok t1 \<and> tx_ok t2
     \<and> (\<forall>c' k'. declared t c' \<longrightarrow>
          Get None t1 c' k' = (if c' = c \<and> k' = k then Inr (Some v) else Get None t c' k')
          \<and> Get None t2 c' k' = (if c' = c \<and> k' = k then Inr None else Get None t c' k'))
     \<and> (\<exists>es. tx_visit None t1 c = Inr es \<and> sorted (map fst es) \<and> distinct (map fst es)
          \<and> (\<forall>k' v'. (k', v') \<in> set es \<longleftrightarrow> Get None t1 c k' = Inr (Some v')))"
proof -
  obtain t1 where t1: "Put None t c k v = Inr t1" using Put_live [OF assms(2)] by blast
  obtain t2 where t2: "Delete None t c k = Inr t2" using Delete_live [OF assms(2)] by blast
  have ok1: "tx_ok t1" by (rule memory_tx.ok_put [OF assms(1) t1])
  have "tx_visit None t1 c = Inr (entries t1 c)"
    using assms(2) t1 by (simp add: tx_visit_Inr declared_Put)
  with ok1 t1 t2 assms(1) show ?thesis
    using memory_tx.get_put [OF assms(1) t1] memory_tx.get_delete [OF assms(1) t2]
      memory_tx.ok_delete [OF assms(1) t2] memory_tx.visit_sorted [OF ok1] memory_tx.visit_get [OF ok1]
    by blast
qed

theorem memory_transaction_contract_witness:
  "\<exists>t1. Put None [(''a'', [(''y'', 2)])] ''a'' ''x'' (1 :: nat) = Inr t1
     \<and> Get None t1 ''a'' ''x'' = Inr (Some 1) \<and> Get None t1 ''a'' ''y'' = Inr (Some 2)"
proof -
  have "tx_ok [(''a'', [(''y'', 2 :: nat)])]" "declared [(''a'', [(''y'', 2 :: nat)])] ''a''"
    by (auto simp: tx_ok_def keys_ok_def declared_def)
  from memory_transaction_contract [OF this, of "''x''" 1] this(2) show ?thesis
    by (auto simp: Get_def tx_collection_def)
qed

end
