(* ===== verification/Records.thy ===== *)
theory Records
  imports Types_Snapshot Images Metadata
begin

text \<open>
  The persisted forms of the three catalogs. Each is the adapter-owned struct its catalog marshals
  to JSON; a stored payload is one of them, or bytes that do not decode.

  Marshalling is the injection of a struct into \<open>payload\<close> and never fails on these types; empty and nil slices
  are the same list here. \<open>encoding/json\<close> gives back the value of every field whose strings are UTF-8 and
  replaces the other bytes of a string; \<open>Json_Text\<close> and \<open>Json_Records\<close> model that for sandboxes and snapshots. Each
  collection holds one kind of struct; a payload of another kind is treated like bytes that do not decode.
\<close>

section \<open>Sandbox records\<close>

record failureData =
  fd_Phase :: string
  fd_Message :: string

record ipv4Data =
  i4_Address :: string
  i4_Gateway :: string
  i4_Prefix :: int

record networkInterfaceData =
  nid_Index :: int
  nid_Name :: string
  nid_TAP :: string
  nid_MAC :: string
  nid_Queues :: int
  nid_QueueSize :: int
  nid_Network :: string
  nid_IPv4 :: "ipv4Data option"
  nid_AddressMode :: AddressMode
  nid_HostAddress :: string

record networkData =
  nd_Backend :: string
  nd_Namespace :: string
  nd_Interfaces :: "networkInterfaceData list"

record recordData =
  rd_ID :: string
  rd_Name :: string
  rd_CPUs :: "32 word"
  rd_Memory :: int
  rd_SharedMemory :: bool
  rd_CPUPolicy :: CPUPolicy
  rd_HugePages :: bool
  rd_Mergeable :: bool
  rd_NoBalloon :: bool
  rd_Storage :: int
  rd_COWIOMode :: DiskIOMode
  rd_DataDisks :: "DataDiskSpec list"
  rd_NICs :: int
  rd_NetworkName :: string
  rd_NetworkBackend :: NetworkBackend
  rd_BridgeStatic :: bool
  rd_Network :: "networkData option"
  rd_ImageDigest :: string
  rd_VMM :: string
  rd_State :: string
  rd_Generation :: "64 word"
  rd_Failure :: "failureData option"
  rd_CreatedAt :: time
  rd_UpdatedAt :: time

record nameData =
  name_ID :: string

section \<open>Snapshot records\<close>

record snapshotData =
  sd_ID :: string
  sd_Name :: string
  sd_Description :: string
  sd_SandboxID :: string
  sd_SandboxName :: string
  sd_SourceGeneration :: "64 word"
  sd_ImageDigest :: string
  sd_RegistryReference :: string
  sd_VMM :: string
  sd_CPUs :: "32 word"
  sd_Memory :: int
  sd_SharedMemory :: bool
  sd_CPUPolicy :: CPUPolicy
  sd_HugePages :: bool
  sd_Mergeable :: bool
  sd_NoBalloon :: bool
  sd_Storage :: int
  sd_COWIOMode :: DiskIOMode
  sd_DataDisks :: "DataDiskSpec list"
  sd_NICs :: int
  sd_NetworkName :: string
  sd_NetworkBackend :: string
  sd_BridgeStatic :: bool
  sd_Size :: int
  sd_CreatedAt :: time
  sd_LastAccessedAt :: time
  sd_Ready :: bool
  sd_Deleting :: bool

section \<open>Image records\<close>

record imageRecord =
  ir_ManifestDigest :: string
  ir_RegistryReference :: string
  ir_OS :: string
  ir_Architecture :: string
  ir_BootProfile :: string
  ir_KernelLayer :: string
  ir_KernelFile :: string
  ir_InitrdFile :: string
  ir_InitrdLayer :: string
  ir_Size :: int
  ir_CreatedAt :: time

record nameRecord =
  nr_ManifestDigest :: string

record bootFileRecord =
  bfr_Name :: string
  bfr_Digest :: string
  bfr_Size :: int

record layerRecord =
  lr_ManifestDigest :: string
  lr_Position :: int
  lr_SourceDigest :: string
  lr_EROFSDigest :: string
  lr_Size :: int
  lr_BootFiles :: "bootFileRecord list"
  lr_Whiteouts :: "string list"
  lr_BootOpaque :: bool

section \<open>Payloads\<close>

datatype payload = P_sandbox recordData | P_name nameData | P_snapshot snapshotData | P_image imageRecord
  | P_image_name nameRecord | P_layer layerRecord | Malformed string

abbreviation json_error :: gerr where
  "json_error \<equiv> Msg ''json: cannot unmarshal''"

definition unmarshal_sandbox :: "payload \<Rightarrow> gerr + recordData" where
  "unmarshal_sandbox p = (case p of P_sandbox d \<Rightarrow> Inr d | _ \<Rightarrow> Inl json_error)"

definition unmarshal_name :: "payload \<Rightarrow> gerr + nameData" where
  "unmarshal_name p = (case p of P_name d \<Rightarrow> Inr d | _ \<Rightarrow> Inl json_error)"

definition unmarshal_snapshot :: "payload \<Rightarrow> gerr + snapshotData" where
  "unmarshal_snapshot p = (case p of P_snapshot d \<Rightarrow> Inr d | _ \<Rightarrow> Inl json_error)"

definition unmarshal_image :: "payload \<Rightarrow> gerr + imageRecord" where
  "unmarshal_image p = (case p of P_image d \<Rightarrow> Inr d | _ \<Rightarrow> Inl json_error)"

definition unmarshal_image_name :: "payload \<Rightarrow> gerr + nameRecord" where
  "unmarshal_image_name p = (case p of P_image_name d \<Rightarrow> Inr d | _ \<Rightarrow> Inl json_error)"

definition unmarshal_layer :: "payload \<Rightarrow> gerr + layerRecord" where
  "unmarshal_layer p = (case p of P_layer d \<Rightarrow> Inr d | _ \<Rightarrow> Inl json_error)"

lemma unmarshal_Inr [simp]:
  "unmarshal_sandbox p = Inr d \<longleftrightarrow> p = P_sandbox d"
  "unmarshal_name p = Inr n \<longleftrightarrow> p = P_name n"
  "unmarshal_snapshot p = Inr sd \<longleftrightarrow> p = P_snapshot sd"
  "unmarshal_image p = Inr ir \<longleftrightarrow> p = P_image ir"
  "unmarshal_image_name p = Inr nr \<longleftrightarrow> p = P_image_name nr"
  "unmarshal_layer p = Inr lr \<longleftrightarrow> p = P_layer lr"
  by (auto simp: unmarshal_sandbox_def unmarshal_name_def unmarshal_snapshot_def unmarshal_image_def
      unmarshal_image_name_def unmarshal_layer_def split: payload.splits)

lemma unmarshal_simps [simp]:
  "unmarshal_sandbox (P_sandbox d) = Inr d" "unmarshal_name (P_name n) = Inr n"
  "unmarshal_snapshot (P_snapshot sd) = Inr sd" "unmarshal_image (P_image ir) = Inr ir"
  "unmarshal_image_name (P_image_name nr) = Inr nr" "unmarshal_layer (P_layer lr) = Inr lr"
  by simp_all

text \<open>Wrapping a decode failure: the value passes, the error becomes corruption.\<close>

definition mapErr :: "(gerr \<Rightarrow> gerr) \<Rightarrow> gerr + 'a \<Rightarrow> gerr + 'a" where
  "mapErr f r = (case r of Inl e \<Rightarrow> Inl (f e) | Inr x \<Rightarrow> Inr x)"

lemma mapErr_Inr [simp]: "mapErr f r = Inr x \<longleftrightarrow> r = Inr x" and mapErr_simp [simp]: "mapErr f (Inr x) = Inr x"
  "mapErr f (Inl e) = Inl (f e)"
  by (cases r) (simp_all add: mapErr_def)

text \<open>\<open>putJSON\<close>: marshal, then put.\<close>

definition putJSON :: "ctx \<Rightarrow> payload memoryTransaction \<Rightarrow> Collection \<Rightarrow> string \<Rightarrow> payload \<Rightarrow> gerr + payload memoryTransaction" where
  "putJSON ctx t c key v = Put ctx t c key v"

section \<open>Record and name index\<close>

text \<open>The consistency that the sandbox and snapshot catalogs keep between their records and the
  optional unique names of them.\<close>

definition index_ok :: "(string \<rightharpoonup> 'r) \<Rightarrow> (string \<rightharpoonup> string) \<Rightarrow> ('r \<Rightarrow> string) \<Rightarrow> bool" where
  "index_ok recs names name_of \<longleftrightarrow>
     (\<forall>i r. recs i = Some r \<and> name_of r \<noteq> [] \<longrightarrow> names (name_of r) = Some i)
     \<and> (\<forall>n i. names n = Some i \<longrightarrow> n \<noteq> [] \<and> (\<exists>r. recs i = Some r \<and> name_of r = n))"

lemma index_okI:
  assumes "\<And>i r. recs i = Some r \<Longrightarrow> f r \<noteq> [] \<Longrightarrow> names (f r) = Some i"
    and "\<And>n i. names n = Some i \<Longrightarrow> n \<noteq> [] \<and> (\<exists>r. recs i = Some r \<and> f r = n)"
  shows "index_ok recs names f"
  using assms unfolding index_ok_def by blast

lemma index_ok_rec: "index_ok recs names f \<Longrightarrow> recs i = Some r \<Longrightarrow> f r \<noteq> [] \<Longrightarrow> names (f r) = Some i"
  unfolding index_ok_def by blast

lemma index_ok_nameE:
  assumes "index_ok recs names f" and "names n = Some i"
  obtains r where "n \<noteq> []" and "recs i = Some r" and "f r = n"
  using assms unfolding index_ok_def by blast

lemma index_ok_insert:
  assumes ok: "index_ok recs names f" and new: "recs i = None" "names (f r) = None" and ne: "f r \<noteq> []"
  shows "index_ok (recs(i \<mapsto> r)) (names(f r \<mapsto> i)) f"
proof (rule index_okI)
  fix j s assume s: "(recs(i \<mapsto> r)) j = Some s" "f s \<noteq> []"
  show "(names(f r \<mapsto> i)) (f s) = Some j"
  proof (cases "j = i")
    case False
    then have "names (f s) = Some j" using s index_ok_rec [OF ok] by simp
    then show ?thesis using new(2) by (cases "f s = f r") simp_all
  qed (use s in simp)
next
  fix n j assume n: "(names(f r \<mapsto> i)) n = Some j"
  show "n \<noteq> [] \<and> (\<exists>s. (recs(i \<mapsto> r)) j = Some s \<and> f s = n)"
  proof (cases "n = f r")
    case False
    with n have "names n = Some j" by simp
    then obtain s where "n \<noteq> []" "recs j = Some s" "f s = n" by (rule index_ok_nameE [OF ok])
    then show ?thesis using new(1) by (cases "j = i") simp_all
  qed (use n ne in simp)
qed

lemma index_ok_insert_unnamed:
  assumes ok: "index_ok recs names f" and new: "recs i = None" and ne: "f r = []"
  shows "index_ok (recs(i \<mapsto> r)) names f"
proof (rule index_okI)
  fix j s assume "(recs(i \<mapsto> r)) j = Some s" "f s \<noteq> []"
  then show "names (f s) = Some j" using index_ok_rec [OF ok] ne by (cases "j = i") simp_all
next
  fix n j assume "names n = Some j"
  then obtain s where "n \<noteq> []" "recs j = Some s" "f s = n" by (rule index_ok_nameE [OF ok])
  then show "n \<noteq> [] \<and> (\<exists>s. (recs(i \<mapsto> r)) j = Some s \<and> f s = n)" using new by (cases "j = i") simp_all
qed

lemma index_ok_replace:
  assumes ok: "index_ok recs names f" and old: "recs i = Some r" "f r' = f r"
  shows "index_ok (recs(i \<mapsto> r')) names f"
proof (rule index_okI)
  fix j s assume "(recs(i \<mapsto> r')) j = Some s" "f s \<noteq> []"
  then show "names (f s) = Some j" using index_ok_rec [OF ok] old by (cases "j = i") simp_all
next
  fix n j assume "names n = Some j"
  then obtain s where "n \<noteq> []" "recs j = Some s" "f s = n" by (rule index_ok_nameE [OF ok])
  then show "n \<noteq> [] \<and> (\<exists>s. (recs(i \<mapsto> r')) j = Some s \<and> f s = n)" using old by (cases "j = i") simp_all
qed

lemma index_ok_delete:
  assumes ok: "index_ok recs names f" and old: "recs i = Some r"
  shows "index_ok (recs(i := None)) (if f r = [] then names else names(f r := None)) f"
proof (rule index_okI)
  fix j s assume s: "(recs(i := None)) j = Some s" "f s \<noteq> []"
  then have j: "j \<noteq> i" "recs j = Some s" by (auto split: if_splits)
  then have names: "names (f s) = Some j" using s index_ok_rec [OF ok] by simp
  moreover have "f s \<noteq> f r" if "f r \<noteq> []"
    using index_ok_rec [OF ok old that] names j by auto
  ultimately show "(if f r = [] then names else names(f r := None)) (f s) = Some j" by simp
next
  fix n j assume n: "(if f r = [] then names else names(f r := None)) n = Some j"
  then have "names n = Some j" by (auto split: if_splits)
  then obtain s where s: "n \<noteq> []" "recs j = Some s" "f s = n" by (rule index_ok_nameE [OF ok])
  moreover have "j \<noteq> i" using n s old by (auto split: if_splits)
  ultimately show "n \<noteq> [] \<and> (\<exists>s. (recs(i := None)) j = Some s \<and> f s = n)" by simp
qed

text \<open>Names and identities are in bijection: two records never share a name.\<close>

lemma index_ok_name_unique:
  "index_ok recs names f \<Longrightarrow> recs i = Some r \<Longrightarrow> recs j = Some s \<Longrightarrow> f r = f s \<Longrightarrow> f r \<noteq> [] \<Longrightarrow> i = j"
  using index_ok_rec [of recs names f i r] index_ok_rec [of recs names f j s] by simp

end
