(* ===== verification/Sandbox_Catalog.thy ===== *)
theory Sandbox_Catalog
  imports Records "HOL-Library.Product_Lexorder"
begin

text \<open>
  The sandbox catalog (\<open>internal/sandbox/catalog/store.go\<close>): sandbox records and the unique name index,
  persisted through metadata transactions, with every lifecycle transition fenced by a generation.

  Each operation is its transaction body followed by \<open>Update\<close> or \<open>View\<close> and the context of its error.
  \<open>c == nil\<close> receivers are left out: a catalog value always has its store and image reader.
\<close>

section \<open>Model\<close>

abbreviation CollectionSandboxes :: Collection where "CollectionSandboxes \<equiv> ''sandboxes''"
abbreviation CollectionNames :: Collection where "CollectionNames \<equiv> ''sandbox_names''"

type_synonym tx = "payload memoryTransaction"
type_synonym store = "payload Memory"

text \<open>\<open>ImageReader.Resolve\<close>, the image lookup inside the caller's transaction.\<close>

type_synonym ImageReader = "ctx \<Rightarrow> tx \<Rightarrow> string \<Rightarrow> gerr + Image"

abbreviation state_conflict :: "string \<Rightarrow> gerr" where
  "state_conflict m \<equiv> New 0 ClassConflict CodeStateConflict (Some (Msg m))"

definition context_info :: "string \<Rightarrow> string \<Rightarrow> string \<Rightarrow> string \<Rightarrow> ContextInfo" where
  "context_info operation entity phase action =
     \<lparr>ctx_Operation = operation, ctx_Entity = entity, ctx_Phase = phase, ctx_Action = action, ctx_Committed = False\<rparr>"

definition corrupt_sandbox :: "string \<Rightarrow> gerr \<Rightarrow> gerr" where
  "corrupt_sandbox entity cause = the (WithContext 1 (Some (New 0 ClassCorrupt CodeArtifactCorrupt (Some cause)))
     (context_info ''read sandbox metadata'' entity ''decode'' ''restore metadata from a trusted backup''))"

definition encode_interface :: "NetworkInterface \<Rightarrow> networkInterfaceData" where
  "encode_interface n = \<lparr>nid_Index = nic_Index n, nid_Name = nic_Name n, nid_TAP = nic_TAP n, nid_MAC = nic_MAC n,
     nid_Queues = nic_Queues n, nid_QueueSize = nic_QueueSize n, nid_Network = nic_Network n,
     nid_IPv4 = (case nic_IPv4 n of None \<Rightarrow> None
       | Some ip \<Rightarrow> Some \<lparr>i4_Address = ip4_Address ip, i4_Gateway = ip4_Gateway ip, i4_Prefix = ip4_Prefix ip\<rparr>),
     nid_AddressMode = nic_AddressMode n, nid_HostAddress = nic_HostAddress n\<rparr>"

definition encodeNetwork :: "NetworkSetup \<Rightarrow> networkData" where
  "encodeNetwork nsetup = \<lparr>nd_Backend = net_Backend nsetup, nd_Namespace = net_Namespace nsetup,
     nd_Interfaces = map encode_interface (net_Interfaces nsetup)\<rparr>"

definition decode_interface :: "networkInterfaceData \<Rightarrow> NetworkInterface" where
  "decode_interface d = \<lparr>nic_Index = nid_Index d, nic_Name = nid_Name d, nic_TAP = nid_TAP d, nic_MAC = nid_MAC d,
     nic_Queues = nid_Queues d, nic_QueueSize = nid_QueueSize d, nic_Network = nid_Network d,
     nic_IPv4 = (case nid_IPv4 d of None \<Rightarrow> None
       | Some ip \<Rightarrow> Some \<lparr>ip4_Address = i4_Address ip, ip4_Gateway = i4_Gateway ip, ip4_Prefix = i4_Prefix ip\<rparr>),
     nic_AddressMode = nid_AddressMode d, nic_HostAddress = nid_HostAddress d\<rparr>"

definition decodeNetwork :: "networkData \<Rightarrow> NetworkSetup" where
  "decodeNetwork data = \<lparr>net_Backend = nd_Backend data, net_Namespace = nd_Namespace data,
     net_Interfaces = map decode_interface (nd_Interfaces data)\<rparr>"

definition encode_sandbox :: "Sandbox \<Rightarrow> recordData" where
  "encode_sandbox r = (let c = sb_Config r in \<lparr>rd_ID = sb_ID r, rd_Name = cfg_Name c, rd_CPUs = cfg_CPUs c, rd_Memory = cfg_Memory c,
     rd_SharedMemory = cfg_SharedMemory c, rd_CPUPolicy = cfg_CPUPolicy c, rd_HugePages = cfg_HugePages c,
     rd_Mergeable = cfg_Mergeable c, rd_NoBalloon = cfg_NoBalloon c, rd_Storage = cfg_Storage c,
     rd_COWIOMode = cfg_COWIOMode c, rd_DataDisks = cfg_DataDisks c, rd_NICs = cfg_NICs c,
     rd_NetworkName = cfg_NetworkName c, rd_NetworkBackend = cfg_NetworkBackend c, rd_BridgeStatic = cfg_BridgeStatic c,
     rd_Network = (if net_Backend (sb_Network r) \<noteq> [] then Some (encodeNetwork (sb_Network r)) else None),
     rd_ImageDigest = Digest_String (sb_ImageDigest r), rd_VMM = sb_VMM r, rd_State = sb_State r,
     rd_Generation = sb_Generation r,
     rd_Failure = (case sb_Failure r of None \<Rightarrow> None
       | Some f \<Rightarrow> Some \<lparr>fd_Phase = fail_Phase f, fd_Message = fail_Message f\<rparr>),
     rd_CreatedAt = sb_CreatedAt r, rd_UpdatedAt = sb_UpdatedAt r\<rparr>)"

definition decode_data :: "recordData \<Rightarrow> Digest \<Rightarrow> Sandbox" where
  "decode_data d digest = \<lparr>sb_ID = rd_ID d,
     sb_Config = \<lparr>cfg_Name = rd_Name d, cfg_CPUs = rd_CPUs d, cfg_CPUPolicy = rd_CPUPolicy d, cfg_Memory = rd_Memory d,
       cfg_SharedMemory = rd_SharedMemory d, cfg_HugePages = rd_HugePages d, cfg_Mergeable = rd_Mergeable d,
       cfg_NoBalloon = rd_NoBalloon d, cfg_Storage = rd_Storage d, cfg_COWIOMode = rd_COWIOMode d,
       cfg_NICs = rd_NICs d, cfg_NetworkName = rd_NetworkName d, cfg_NetworkBackend = rd_NetworkBackend d,
       cfg_BridgeStatic = rd_BridgeStatic d, cfg_DataDisks = rd_DataDisks d\<rparr>,
     sb_ImageDigest = digest, sb_VMM = (if rd_VMM d = [] then VMMCloudHypervisor else rd_VMM d),
     sb_Network = (case rd_Network d of None \<Rightarrow> NetworkSetup_zero | Some n \<Rightarrow> decodeNetwork n),
     sb_State = rd_State d, sb_Generation = rd_Generation d,
     sb_Failure = (case rd_Failure d of None \<Rightarrow> None
       | Some f \<Rightarrow> Some \<lparr>fail_Phase = fd_Phase f, fail_Message = fd_Message f\<rparr>),
     sb_CreatedAt = rd_CreatedAt d, sb_UpdatedAt = rd_UpdatedAt d\<rparr>"

definition decode_sandbox :: "payload \<Rightarrow> gerr + Sandbox" where
  "decode_sandbox raw =
     bindE (mapErr (corrupt_sandbox ''sandbox'') (unmarshal_sandbox raw)) (\<lambda>data.
     bindE (mapErr (corrupt_sandbox ''sandbox ID'') (ParseSandboxID (rd_ID data))) (\<lambda>i.
     bindE (mapErr (corrupt_sandbox ''sandbox image'') (ParseDigest (rd_ImageDigest data))) (\<lambda>digest.
     let record = decode_data data digest in
     guard_err (map_option (corrupt_sandbox ''sandbox'') (Sandbox_Validate record)) (Inr record))))"

definition load_sandbox :: "ctx \<Rightarrow> tx \<Rightarrow> SandboxID \<Rightarrow> gerr + Sandbox" where
  "load_sandbox ctx t i = bindE (Get ctx t CollectionSandboxes i) (\<lambda>raw. case raw of
     None \<Rightarrow> Inl (New 0 ClassNotFound CodeNotFound (Some (Msg ''sandbox not found'')))
   | Some p \<Rightarrow> bindE (decode_sandbox p) (\<lambda>record.
       if sb_ID record \<noteq> i then Inl (corrupt_sandbox ''sandbox ID'' (Msg ''record key differs from stored ID''))
       else Inr record))"

definition resolve_sandbox :: "ctx \<Rightarrow> tx \<Rightarrow> string \<Rightarrow> gerr + Sandbox" where
  "resolve_sandbox ctx t reference = bindE (Get ctx t CollectionNames reference) (\<lambda>raw. case raw of
     Some p \<Rightarrow>
       bindE (mapErr (corrupt_sandbox ''sandbox name'') (unmarshal_name p)) (\<lambda>binding.
       bindE (mapErr (corrupt_sandbox ''sandbox name owner'') (ParseSandboxID (name_ID binding))) (\<lambda>i.
       case load_sandbox ctx t i of
         Inl e \<Rightarrow> if CodeOf e = Some CodeNotFound
           then Inl (corrupt_sandbox ''sandbox name owner'' (Msg ''sandbox record is missing'')) else Inl e
       | Inr record \<Rightarrow> Inr record))
   | None \<Rightarrow> (case ParseSandboxID reference of
       Inl _ \<Rightarrow> Inl (New 0 ClassNotFound CodeNotFound (Some (Msg ''sandbox not found'')))
     | Inr i \<Rightarrow> load_sandbox ctx t i))"

definition delete_sandbox_record :: "ctx \<Rightarrow> tx \<Rightarrow> Sandbox \<Rightarrow> gerr + tx" where
  "delete_sandbox_record ctx t record = bindE (Get ctx t CollectionNames (cfg_Name (sb_Config record))) (\<lambda>raw. case raw of
     None \<Rightarrow> Inl (corrupt_sandbox ''sandbox name'' (Msg ''name binding is missing''))
   | Some p \<Rightarrow> bindE (mapErr (corrupt_sandbox ''sandbox name'') (unmarshal_name p)) (\<lambda>name.
       if name_ID name \<noteq> sb_ID record
       then Inl (corrupt_sandbox ''sandbox name'' (Msg ''name binding points to another sandbox''))
       else bindE (Delete ctx t CollectionNames (cfg_Name (sb_Config record))) (\<lambda>t'.
         Delete ctx t' CollectionSandboxes (sb_ID record))))"

text \<open>\<open>store.Update\<close> followed by \<open>errdefs.WithContext\<close>.\<close>

definition update_with :: "ctx \<Rightarrow> store \<Rightarrow> ContextInfo \<Rightarrow> (tx \<Rightarrow> gerr + ('a \<times> tx)) \<Rightarrow> (gerr + 'a) \<times> store" where
  "update_with ctx s info fn = (case Update ctx s fn of (r, s') \<Rightarrow> (ctxE 2 info r, s'))"

subsection \<open>Reservation\<close>

definition reserve_sandbox_tx :: "ImageReader \<Rightarrow> ctx \<Rightarrow> string \<Rightarrow> Digest \<Rightarrow> Sandbox \<Rightarrow> tx \<Rightarrow> gerr + (unit \<times> tx)" where
  "reserve_sandbox_tx images ctx imageReference expected record t =
     bindE (images ctx t imageReference) (\<lambda>im.
     if img_ManifestDigest im \<noteq> expected then Inl (state_conflict ''image binding changed while reserving sandbox; retry'')
     else bindE (Get ctx t CollectionSandboxes (sb_ID record)) (\<lambda>old.
     if old \<noteq> None then Inl (state_conflict ''sandbox ID already exists'')
     else bindE (Get ctx t CollectionNames (cfg_Name (sb_Config record))) (\<lambda>raw. case raw of
       Some p \<Rightarrow> bindE (mapErr (corrupt_sandbox ''sandbox name'') (unmarshal_name p)) (\<lambda>_.
         Inl (New 0 ClassConflict CodeNameTaken (Some (Msg ''sandbox name is already used''))))
     | None \<Rightarrow>
       bindE (putJSON ctx t CollectionSandboxes (sb_ID record) (P_sandbox (encode_sandbox record))) (\<lambda>t1.
       bindE (putJSON ctx t1 CollectionNames (cfg_Name (sb_Config record)) (P_name \<lparr>name_ID = sb_ID record\<rparr>)) (\<lambda>t2.
       Inr ((), t2))))))"

definition sandbox_Reserve :: "ImageReader \<Rightarrow> ctx \<Rightarrow> store \<Rightarrow> string \<Rightarrow> Digest \<Rightarrow> Sandbox \<Rightarrow> (gerr + unit) \<times> store" where
  "sandbox_Reserve images ctx s imageReference expected record =
     (case Sandbox_Validate record of
        Some e \<Rightarrow> (Inl (New 0 ClassInvalid CodeInvalidArgument (Some e)), s)
      | None \<Rightarrow>
          if sb_State record \<noteq> SandboxStateCreating \<or> sb_Generation record \<noteq> 1 \<or> sb_ImageDigest record \<noteq> expected
          then (Inl (New 0 ClassInvalid CodeInvalidArgument
                  (Some (Msg ''reservation must be generation-one Creating state for the expected image''))), s)
          else update_with ctx s (context_info ''reserve sandbox'' (cfg_Name (sb_Config record)) ''metadata''
                 ''choose another name or retry'') (reserve_sandbox_tx images ctx imageReference expected record))"

subsection \<open>Fenced transitions\<close>

text \<open>The shape every transition shares: load the record, decide on it, and write the new record,
  or return the loaded one unchanged when an interrupted operation resumes.\<close>

definition modify_sandbox :: "ctx \<Rightarrow> SandboxID \<Rightarrow> (Sandbox \<Rightarrow> gerr + Sandbox option) \<Rightarrow> tx \<Rightarrow> gerr + (Sandbox \<times> tx)" where
  "modify_sandbox ctx i body t = bindE (load_sandbox ctx t i) (\<lambda>record. bindE (body record) (\<lambda>out. case out of
     None \<Rightarrow> Inr (record, t)
   | Some record' \<Rightarrow> bindE (putJSON ctx t CollectionSandboxes i (P_sandbox (encode_sandbox record'))) (\<lambda>t'.
       Inr (record', t'))))"

text \<open>Validation of the record about to be written.\<close>

definition commit_record :: "string \<Rightarrow> Sandbox \<Rightarrow> gerr + Sandbox option" where
  "commit_record entity r = guard_err (map_option (corrupt_sandbox entity) (Sandbox_Validate r)) (Inr (Some r))"

text \<open>\<open>State\<close>, \<open>Generation++\<close>, \<open>Failure\<close>, \<open>UpdatedAt\<close>.\<close>

definition advance :: "Sandbox \<Rightarrow> SandboxState \<Rightarrow> SandboxFailure option \<Rightarrow> time \<Rightarrow> Sandbox" where
  "advance r to failure updated = r\<lparr>sb_State := to, sb_Generation := sb_Generation r + 1, sb_Failure := failure, sb_UpdatedAt := updated\<rparr>"

definition created_body :: "64 word \<Rightarrow> NetworkSetup \<Rightarrow> time \<Rightarrow> Sandbox \<Rightarrow> gerr + Sandbox option" where
  "created_body expected nsetup updated record =
     (if sb_Generation record \<noteq> expected \<or> sb_State record \<noteq> SandboxStateCreating
      then Inl (state_conflict ''sandbox changed from expected Creating generation'')
      else
        let finish = (\<lambda>r. commit_record ''sandbox create transition''
              (r\<lparr>sb_Network := nsetup, sb_State := SandboxStateCreated, sb_Generation := sb_Generation r + 1, sb_UpdatedAt := updated\<rparr>))
        in if cfg_NICs (sb_Config record) = 0 then
             (if net_Interfaces nsetup \<noteq> []
              then Inl (New 0 ClassInvalid CodeInvalidArgument (Some (Msg ''sandbox without NICs cannot commit network interfaces'')))
              else finish record)
           else if net_Backend nsetup = [] \<or> int (length (net_Interfaces nsetup)) \<noteq> cfg_NICs (sb_Config record)
             then Inl (New 0 ClassInvalid CodeInvalidArgument
                (Some (Msg ''networked sandbox requires one resolved interface per requested NIC'')))
           else
             let resolved = nic_Network (hd (net_Interfaces nsetup)) in
             if cfg_NetworkName (sb_Config record) \<noteq> [] \<and> cfg_NetworkName (sb_Config record) \<noteq> resolved
             then Inl (state_conflict ''resolved network differs from the requested network'')
             else finish (record\<lparr>sb_Config := (sb_Config record)\<lparr>cfg_NetworkName := resolved\<rparr>\<rparr>))"

definition sandbox_MarkCreated :: "ctx \<Rightarrow> store \<Rightarrow> SandboxID \<Rightarrow> 64 word \<Rightarrow> NetworkSetup \<Rightarrow> time \<Rightarrow> (gerr + Sandbox) \<times> store" where
  "sandbox_MarkCreated ctx s i expected nsetup updated =
     (case NetworkSetup_Validate nsetup of
        Some e \<Rightarrow> (Inl (New 0 ClassInvalid CodeInvalidArgument (Some e)), s)
      | None \<Rightarrow> update_with ctx s (context_info ''create sandbox'' i ''mark created'' ''inspect the sandbox state before retrying'')
          (modify_sandbox ctx i (created_body expected nsetup updated)))"

definition transition_body :: "64 word \<Rightarrow> SandboxState \<Rightarrow> SandboxState \<Rightarrow> SandboxFailure option \<Rightarrow> time \<Rightarrow> Sandbox \<Rightarrow> gerr + Sandbox option" where
  "transition_body expected from to failure updated record =
     (if sb_Generation record \<noteq> expected \<or> sb_State record \<noteq> from
      then Inl (state_conflict ''sandbox changed from expected state and generation'')
      else commit_record ''sandbox transition'' (advance record to failure updated))"

definition sandbox_transition :: "ctx \<Rightarrow> store \<Rightarrow> SandboxID \<Rightarrow> 64 word \<Rightarrow> SandboxState \<Rightarrow> SandboxState \<Rightarrow> SandboxFailure option
    \<Rightarrow> time \<Rightarrow> (gerr + Sandbox) \<times> store" where
  "sandbox_transition ctx s i expected from to failure updated =
     update_with ctx s (context_info ''transition sandbox'' i ''metadata'' ''inspect the sandbox state'')
       (modify_sandbox ctx i (transition_body expected from to failure updated))"

definition sandbox_MarkError :: "ctx \<Rightarrow> store \<Rightarrow> SandboxID \<Rightarrow> 64 word \<Rightarrow> SandboxFailure \<Rightarrow> time \<Rightarrow> (gerr + Sandbox) \<times> store" where
  "sandbox_MarkError ctx s i expected failure updated =
     (if fail_Phase failure = [] \<or> fail_Message failure = []
      then (Inl (New 0 ClassInvalid CodeInvalidArgument (Some (Msg ''error transition requires phase and message''))), s)
      else sandbox_transition ctx s i expected SandboxStateCreating SandboxStateError (Some failure) updated)"

definition start_body :: "64 word \<Rightarrow> time \<Rightarrow> Sandbox \<Rightarrow> gerr + Sandbox option" where
  "start_body expected updated record =
     (if sb_Generation record \<noteq> expected then Inl (state_conflict ''sandbox changed from expected generation'')
      else if sb_State record = SandboxStateStarting then Inr None
      else if List.member [SandboxStateCreated, SandboxStateStopped, SandboxStateError] (sb_State record)
        then commit_record ''sandbox start transition'' (advance record SandboxStateStarting None updated)
      else Inl (state_conflict ''sandbox cannot start''))"

definition sandbox_BeginStart :: "ctx \<Rightarrow> store \<Rightarrow> SandboxID \<Rightarrow> 64 word \<Rightarrow> time \<Rightarrow> (gerr + Sandbox) \<times> store" where
  "sandbox_BeginStart ctx s i expected updated =
     update_with ctx s (context_info ''start sandbox'' i ''mark starting'' ''inspect the sandbox state before retrying'')
       (modify_sandbox ctx i (start_body expected updated))"

definition sandbox_MarkRunning :: "ctx \<Rightarrow> store \<Rightarrow> SandboxID \<Rightarrow> 64 word \<Rightarrow> time \<Rightarrow> (gerr + Sandbox) \<times> store" where
  "sandbox_MarkRunning ctx s i expected updated =
     sandbox_transition ctx s i expected SandboxStateStarting SandboxStateRunning None updated"

definition network_body :: "64 word \<Rightarrow> NetworkSetup \<Rightarrow> string \<Rightarrow> time \<Rightarrow> Sandbox \<Rightarrow> gerr + Sandbox option" where
  "network_body expected nsetup networkName updated record =
     (if sb_State record \<noteq> SandboxStateRunning \<or> sb_Generation record \<noteq> expected
      then Inl (state_conflict ''sandbox changed during network resize'')
      else if net_Backend (sb_Network record) \<noteq> net_Backend nsetup \<or> net_Namespace (sb_Network record) \<noteq> net_Namespace nsetup
      then Inl (state_conflict ''network owner or namespace changed during resize'')
      else if cfg_NetworkName (sb_Config record) \<noteq> [] \<and> cfg_NetworkName (sb_Config record) \<noteq> networkName
      then Inl (state_conflict ''network name changed during resize'')
      else commit_record ''sandbox network resize''
        (record\<lparr>sb_Network := nsetup,
           sb_Config := (sb_Config record)\<lparr>cfg_NICs := int (length (net_Interfaces nsetup)), cfg_NetworkName := networkName\<rparr>,
           sb_UpdatedAt := updated\<rparr>))"

definition sandbox_UpdateNetwork :: "ctx \<Rightarrow> store \<Rightarrow> SandboxID \<Rightarrow> 64 word \<Rightarrow> NetworkSetup \<Rightarrow> string \<Rightarrow> time \<Rightarrow> (gerr + Sandbox) \<times> store" where
  "sandbox_UpdateNetwork ctx s i expected nsetup networkName updated =
     (case NetworkSetup_Validate nsetup of
        Some e \<Rightarrow> (Inl (New 0 ClassInvalid CodeInvalidArgument (Some e)), s)
      | None \<Rightarrow> update_with ctx s (context_info ''resize sandbox network'' i ''persist network'' ''inspect the sandbox and retry'')
          (modify_sandbox ctx i (network_body expected nsetup networkName updated)))"

definition sandbox_MarkStartError :: "ctx \<Rightarrow> store \<Rightarrow> SandboxID \<Rightarrow> 64 word \<Rightarrow> SandboxFailure \<Rightarrow> time \<Rightarrow> (gerr + Sandbox) \<times> store" where
  "sandbox_MarkStartError ctx s i expected failure updated =
     (if fail_Phase failure = [] \<or> fail_Message failure = []
      then (Inl (New 0 ClassInvalid CodeInvalidArgument (Some (Msg ''start error transition requires phase and message''))), s)
      else sandbox_transition ctx s i expected SandboxStateStarting SandboxStateError (Some failure) updated)"

definition stop_body :: "64 word \<Rightarrow> time \<Rightarrow> Sandbox \<Rightarrow> gerr + Sandbox option" where
  "stop_body expected updated record =
     (if sb_Generation record \<noteq> expected then Inl (state_conflict ''sandbox changed from expected generation'')
      else if sb_State record = SandboxStateStopping then Inr None
      else if sb_State record \<noteq> SandboxStateRunning then Inl (state_conflict ''sandbox cannot begin stopping'')
      else commit_record ''sandbox stop transition'' (advance record SandboxStateStopping None updated))"

definition sandbox_BeginStop :: "ctx \<Rightarrow> store \<Rightarrow> SandboxID \<Rightarrow> 64 word \<Rightarrow> time \<Rightarrow> (gerr + Sandbox) \<times> store" where
  "sandbox_BeginStop ctx s i expected updated =
     update_with ctx s (context_info ''stop sandbox'' i ''mark stopping'' ''inspect the sandbox state before retrying'')
       (modify_sandbox ctx i (stop_body expected updated))"

definition sandbox_MarkStopped :: "ctx \<Rightarrow> store \<Rightarrow> SandboxID \<Rightarrow> 64 word \<Rightarrow> SandboxState \<Rightarrow> time \<Rightarrow> (gerr + Sandbox) \<times> store" where
  "sandbox_MarkStopped ctx s i expected from updated =
     (if \<not> List.member [SandboxStateStarting, SandboxStateRunning, SandboxStateStopping] from
      then (Inl (New 0 ClassInvalid CodeInvalidArgument (Some (Msg ''state cannot transition to stopped''))), s)
      else sandbox_transition ctx s i expected from SandboxStateStopped None updated)"

definition delete_body :: "64 word \<Rightarrow> time \<Rightarrow> Sandbox \<Rightarrow> gerr + Sandbox option" where
  "delete_body expected updated record =
     (if sb_Generation record \<noteq> expected then Inl (state_conflict ''sandbox changed from expected generation'')
      else if sb_State record = SandboxStateDeleting then Inr None
      else if List.member [SandboxStateCreating, SandboxStateCreated, SandboxStateStopped, SandboxStateError] (sb_State record)
        then commit_record ''sandbox delete transition'' (advance record SandboxStateDeleting None updated)
      else Inl (state_conflict ''sandbox cannot be removed without stopping it''))"

definition sandbox_BeginDelete :: "ctx \<Rightarrow> store \<Rightarrow> SandboxID \<Rightarrow> 64 word \<Rightarrow> time \<Rightarrow> (gerr + Sandbox) \<times> store" where
  "sandbox_BeginDelete ctx s i expected updated =
     update_with ctx s (context_info ''remove sandbox'' i ''mark deleting'' ''stop the sandbox if it is running, then retry'')
       (modify_sandbox ctx i (delete_body expected updated))"

subsection \<open>Removal\<close>

definition remove_sandbox_tx :: "ctx \<Rightarrow> SandboxID \<Rightarrow> 64 word \<Rightarrow> SandboxState \<Rightarrow> string \<Rightarrow> tx \<Rightarrow> gerr + (unit \<times> tx)" where
  "remove_sandbox_tx ctx i expected st conflict t = bindE (load_sandbox ctx t i) (\<lambda>record.
     if sb_Generation record \<noteq> expected \<or> sb_State record \<noteq> st then Inl (state_conflict conflict)
     else bindE (delete_sandbox_record ctx t record) (\<lambda>t'. Inr ((), t')))"

definition sandbox_FinalizeDelete :: "ctx \<Rightarrow> store \<Rightarrow> SandboxID \<Rightarrow> 64 word \<Rightarrow> (gerr + unit) \<times> store" where
  "sandbox_FinalizeDelete ctx s i expected =
     update_with ctx s (context_info ''remove sandbox'' i ''finalize metadata'' ''retry removal to finish cleanup'')
       (remove_sandbox_tx ctx i expected SandboxStateDeleting ''sandbox is no longer the expected Deleting generation'')"

definition sandbox_Forget :: "ctx \<Rightarrow> store \<Rightarrow> SandboxID \<Rightarrow> 64 word \<Rightarrow> (gerr + unit) \<times> store" where
  "sandbox_Forget ctx s i expected =
     update_with ctx s (context_info ''forget sandbox'' i ''metadata'' ''inspect the retained sandbox record'')
       (remove_sandbox_tx ctx i expected SandboxStateCreating ''sandbox is no longer the expected Creating reservation'')"

subsection \<open>Queries\<close>

definition sandbox_Resolve :: "ctx \<Rightarrow> store \<Rightarrow> string \<Rightarrow> gerr + Sandbox" where
  "sandbox_Resolve ctx s reference =
     ctxE 2 (context_info ''resolve sandbox'' reference ''metadata'' ''check the sandbox name or ID'')
       (View ctx s (\<lambda>t. resolve_sandbox ctx t reference))"

definition list_visit :: "string \<Rightarrow> payload \<Rightarrow> Sandbox list \<Rightarrow> gerr + Sandbox list" where
  "list_visit i raw result = bindE (decode_sandbox raw) (\<lambda>record.
     if sb_ID record \<noteq> i then Inl (corrupt_sandbox ''sandbox ID'' (Msg ''record key differs from stored ID''))
     else Inr (result @ [record]))"

definition sandbox_List :: "ctx \<Rightarrow> store \<Rightarrow> gerr + Sandbox list" where
  "sandbox_List ctx s =
     ctxE 2 (context_info ''list sandboxes'' [] ''metadata'' ''inspect the sandbox metadata store'')
       (bindE (View ctx s (\<lambda>t. Scan ctx t CollectionSandboxes list_visit []))
         (\<lambda>result. Inr (sort_key (\<lambda>r. (- sb_CreatedAt r, sb_ID r)) result)))"

definition sandbox_InUse :: "ctx \<Rightarrow> tx \<Rightarrow> Digest \<Rightarrow> gerr + bool" where
  "sandbox_InUse ctx t digest = Scan ctx t CollectionSandboxes
     (\<lambda>_ raw used. bindE (decode_sandbox raw) (\<lambda>record. Inr (used \<or> sb_ImageDigest record = digest))) False"

end
