(* ===== verification/Snapshot_Catalog.thy ===== *)
theory Snapshot_Catalog
  imports Sandbox_Catalog
begin

text \<open>
  The snapshot catalog (\<open>internal/snapshot/catalog/store.go\<close>): reservation before capture, publication,
  usage times and two-phase deletion, and the write-behind buffer of usage times
  (\<open>internal/snapshot/catalog/access.go\<close>).
\<close>

section \<open>Records\<close>

abbreviation CollectionSnapshots :: Collection where "CollectionSnapshots \<equiv> ''snapshots''"
abbreviation CollectionSnapshotNames :: Collection where "CollectionSnapshotNames \<equiv> ''snapshot_names''"

record snapshotState =
  st_ID :: SnapshotID
  st_Ready :: bool
  st_Deleting :: bool

definition notFound :: "string \<Rightarrow> gerr" where
  "notFound reference = New 0 ClassNotFound CodeNotFound (Some (Msg ''snapshot was not found''))"

definition corrupt_snapshot :: "gerr \<Rightarrow> gerr" where
  "corrupt_snapshot cause = New 0 ClassCorrupt CodeArtifactCorrupt (Some cause)"

definition encode_snapshot :: "Snapshot \<Rightarrow> bool \<Rightarrow> snapshotData" where
  "encode_snapshot s ready = (let c = snap_Config s in
     \<lparr>sd_ID = snap_ID s, sd_Name = snap_Name s, sd_Description = snap_Description s, sd_SandboxID = snap_SandboxID s,
      sd_SandboxName = cfg_Name c, sd_SourceGeneration = snap_SourceGeneration s,
      sd_ImageDigest = Digest_String (snap_ImageDigest s), sd_RegistryReference = snap_RegistryReference s,
      sd_VMM = snap_VMM s, sd_CPUs = cfg_CPUs c, sd_Memory = cfg_Memory c, sd_SharedMemory = cfg_SharedMemory c,
      sd_CPUPolicy = cfg_CPUPolicy c, sd_HugePages = cfg_HugePages c, sd_Mergeable = cfg_Mergeable c,
      sd_NoBalloon = cfg_NoBalloon c, sd_Storage = cfg_Storage c, sd_COWIOMode = cfg_COWIOMode c,
      sd_DataDisks = cfg_DataDisks c, sd_NICs = cfg_NICs c, sd_NetworkName = cfg_NetworkName c,
      sd_NetworkBackend = cfg_NetworkBackend c, sd_BridgeStatic = cfg_BridgeStatic c, sd_Size = snap_Size s,
      sd_CreatedAt = snap_CreatedAt s, sd_LastAccessedAt = snap_LastAccessedAt s, sd_Ready = ready, sd_Deleting = False\<rparr>)"

definition snapshot_value :: "snapshotData \<Rightarrow> Digest \<Rightarrow> Snapshot" where
  "snapshot_value d digest = \<lparr>snap_ID = sd_ID d, snap_Name = sd_Name d, snap_Description = sd_Description d,
     snap_SandboxID = sd_SandboxID d, snap_SourceGeneration = sd_SourceGeneration d, snap_ImageDigest = digest,
     snap_RegistryReference = sd_RegistryReference d, snap_VMM = sd_VMM d,
     snap_Config = \<lparr>cfg_Name = sd_SandboxName d, cfg_CPUs = sd_CPUs d, cfg_CPUPolicy = sd_CPUPolicy d,
       cfg_Memory = sd_Memory d, cfg_SharedMemory = sd_SharedMemory d, cfg_HugePages = sd_HugePages d,
       cfg_Mergeable = sd_Mergeable d, cfg_NoBalloon = sd_NoBalloon d, cfg_Storage = sd_Storage d,
       cfg_COWIOMode = sd_COWIOMode d, cfg_NICs = sd_NICs d, cfg_NetworkName = sd_NetworkName d,
       cfg_NetworkBackend = sd_NetworkBackend d, cfg_BridgeStatic = sd_BridgeStatic d, cfg_DataDisks = sd_DataDisks d\<rparr>,
     snap_Size = sd_Size d, snap_CreatedAt = sd_CreatedAt d,
     snap_LastAccessedAt = (if IsZero (sd_LastAccessedAt d) then sd_CreatedAt d else sd_LastAccessedAt d)\<rparr>"

definition decodeSnapshot :: "snapshotData \<Rightarrow> gerr + Snapshot" where
  "decodeSnapshot d =
     bindE (ParseSnapshotID (sd_ID d)) (\<lambda>_.
     bindE (ParseSandboxID (sd_SandboxID d)) (\<lambda>_.
     bindE (ParseDigest (sd_ImageDigest d)) (\<lambda>digest.
     let result = snapshot_value d digest in guard_err (Snapshot_Validate result) (Inr result))))"

definition decode_snapshot :: "payload \<Rightarrow> gerr + snapshotData" where
  "decode_snapshot raw =
     bindE (mapErr corrupt_snapshot (unmarshal_snapshot raw)) (\<lambda>d.
     bindE (mapErr corrupt_snapshot (decodeSnapshot d)) (\<lambda>_. Inr d))"

definition load_snapshot :: "ctx \<Rightarrow> tx \<Rightarrow> SnapshotID \<Rightarrow> gerr + snapshotData" where
  "load_snapshot ctx t i = bindE (Get ctx t CollectionSnapshots i) (\<lambda>raw. case raw of
     None \<Rightarrow> Inl (notFound i) | Some p \<Rightarrow> decode_snapshot p)"

definition resolve_snapshot :: "ctx \<Rightarrow> tx \<Rightarrow> string \<Rightarrow> gerr + snapshotData" where
  "resolve_snapshot ctx t reference =
     (if reference = [] then Inl (New 0 ClassInvalid CodeInvalidArgument (Some (Msg ''SNAPSHOT must not be empty'')))
      else bindE (Get ctx t CollectionSnapshotNames reference) (\<lambda>raw. case raw of
        Some p \<Rightarrow> (case unmarshal_name p of
            Inl _ \<Rightarrow> Inl (corrupt_snapshot (Msg ''invalid snapshot name binding''))
          | Inr name \<Rightarrow> if name_ID name = [] then Inl (corrupt_snapshot (Msg ''invalid snapshot name binding''))
              else bindE (mapErr corrupt_snapshot (ParseSnapshotID (name_ID name))) (load_snapshot ctx t))
      | None \<Rightarrow> (case ParseSnapshotID reference of
            Inl _ \<Rightarrow> Inl (notFound reference) | Inr i \<Rightarrow> load_snapshot ctx t i)))"

section \<open>Operations\<close>

definition states_visit :: "string \<Rightarrow> payload \<Rightarrow> snapshotState list \<Rightarrow> gerr + snapshotState list" where
  "states_visit key raw states =
     bindE (decode_snapshot raw) (\<lambda>d.
       if sd_ID d \<noteq> key then Inl (corrupt_snapshot (Msg ''snapshot record key differs from ID''))
       else bindE (mapErr corrupt_snapshot (ParseSnapshotID key)) (\<lambda>i.
         Inr (states @ [\<lparr>st_ID = i, st_Ready = sd_Ready d, st_Deleting = sd_Deleting d\<rparr>])))"

definition snapshot_States :: "ctx \<Rightarrow> store \<Rightarrow> gerr + snapshotState list" where
  "snapshot_States ctx s = View ctx s (\<lambda>t. Scan ctx t CollectionSnapshots states_visit [])"

definition snapshot_State :: "ctx \<Rightarrow> store \<Rightarrow> SnapshotID \<Rightarrow> gerr + snapshotState option" where
  "snapshot_State ctx s i = bindE (ParseSnapshotID i) (\<lambda>_. View ctx s (\<lambda>t.
     bindE (Get ctx t CollectionSnapshots i) (\<lambda>raw. case raw of None \<Rightarrow> Inr None
     | Some p \<Rightarrow> bindE (decode_snapshot p) (\<lambda>d.
         if sd_ID d \<noteq> i then Inl (corrupt_snapshot (Msg ''snapshot record key differs from ID''))
         else Inr (Some \<lparr>st_ID = i, st_Ready = sd_Ready d, st_Deleting = sd_Deleting d\<rparr>)))))"

definition snapshot_InUse :: "ctx \<Rightarrow> tx \<Rightarrow> Digest \<Rightarrow> gerr + bool" where
  "snapshot_InUse ctx t digest = Scan ctx t CollectionSnapshots
     (\<lambda>_ raw used. bindE (decode_snapshot raw) (\<lambda>d. Inr (used \<or> sd_ImageDigest d = Digest_String digest))) False"

definition reserve_snapshot_tx :: "ctx \<Rightarrow> Snapshot \<Rightarrow> tx \<Rightarrow> gerr + (unit \<times> tx)" where
  "reserve_snapshot_tx ctx snapshot t =
     bindE (Get ctx t CollectionSnapshots (snap_ID snapshot)) (\<lambda>old.
     if old \<noteq> None then Inl (New 0 ClassConflict CodeNameTaken (Some (Msg ''snapshot ID already exists'')))
     else bindE
       (if snap_Name snapshot \<noteq> [] then
          bindE (Get ctx t CollectionSnapshotNames (snap_Name snapshot)) (\<lambda>taken.
            if taken \<noteq> None then Inl (New 0 ClassConflict CodeNameTaken (Some (Msg ''snapshot name already exists'')))
            else Put ctx t CollectionSnapshotNames (snap_Name snapshot) (P_name \<lparr>name_ID = snap_ID snapshot\<rparr>))
        else Inr t)
       (\<lambda>t1. bindE (Put ctx t1 CollectionSnapshots (snap_ID snapshot) (P_snapshot (encode_snapshot snapshot False)))
         (\<lambda>t2. Inr ((), t2))))"

definition snapshot_Reserve :: "ctx \<Rightarrow> store \<Rightarrow> Snapshot \<Rightarrow> (gerr + unit) \<times> store" where
  "snapshot_Reserve ctx s snapshot = (case Snapshot_Validate snapshot of
     Some e \<Rightarrow> (Inl (New 0 ClassInvalid CodeInvalidArgument (Some e)), s)
   | None \<Rightarrow> update_with ctx s (context_info ''save snapshot'' (snap_Name snapshot) ''reserve'' ''choose another snapshot name'')
       (reserve_snapshot_tx ctx snapshot))"

text \<open>The shape of the operations that rewrite one loaded record, or leave it: the body returns the
  result and the record to write, if any.\<close>

definition modify_snapshot :: "ctx \<Rightarrow> (tx \<Rightarrow> gerr + snapshotData) \<Rightarrow> (snapshotData \<Rightarrow> string)
    \<Rightarrow> (snapshotData \<Rightarrow> gerr + ('a \<times> snapshotData option)) \<Rightarrow> tx \<Rightarrow> gerr + ('a \<times> tx)" where
  "modify_snapshot ctx loader key body t = bindE (loader t) (\<lambda>d. bindE (body d) (\<lambda>(x, out). case out of
     None \<Rightarrow> Inr (x, t)
   | Some d' \<Rightarrow> bindE (Put ctx t CollectionSnapshots (key d) (P_snapshot d')) (\<lambda>t'. Inr (x, t'))))"

definition commit_body :: "int \<Rightarrow> time \<Rightarrow> snapshotData \<Rightarrow> gerr + (Snapshot \<times> snapshotData option)" where
  "commit_body sz accessedAt d =
     (if sd_Ready d then bindE (decodeSnapshot d) (\<lambda>result. Inr (result, None))
      else let d1 = d\<lparr>sd_Size := sz, sd_LastAccessedAt := accessedAt\<rparr> in
        bindE (decodeSnapshot d1) (\<lambda>result. Inr (result, Some (d1\<lparr>sd_Ready := True\<rparr>))))"

definition snapshot_Commit :: "ctx \<Rightarrow> store \<Rightarrow> SnapshotID \<Rightarrow> int \<Rightarrow> time \<Rightarrow> (gerr + Snapshot) \<times> store" where
  "snapshot_Commit ctx s i sz accessedAt =
     (if IsZero accessedAt
      then (Inl (New 0 ClassInvalid CodeInvalidArgument (Some (Msg ''snapshot access time must be set''))), s)
      else update_with ctx s ((context_info ''save snapshot'' i ''commit'' ''inspect snapshot storage before retrying'')\<lparr>ctx_Committed := True\<rparr>)
        (modify_snapshot ctx (\<lambda>t. load_snapshot ctx t i) (\<lambda>_. i) (commit_body sz accessedAt)))"

text \<open>The stored access time, or the creation time of a record without one.\<close>

definition effective_access :: "snapshotData \<Rightarrow> time" where
  "effective_access d = (if IsZero (sd_LastAccessedAt d) then sd_CreatedAt d else sd_LastAccessedAt d)"

definition touch_body :: "SnapshotID \<Rightarrow> time \<Rightarrow> snapshotData \<Rightarrow> gerr + (Snapshot \<times> snapshotData option)" where
  "touch_body i accessedAt d =
     (if \<not> sd_Ready d then Inl (notFound i)
      else if effective_access d < accessedAt
        then let d1 = d\<lparr>sd_LastAccessedAt := accessedAt\<rparr> in bindE (decodeSnapshot d1) (\<lambda>result. Inr (result, Some d1))
      else bindE (decodeSnapshot d) (\<lambda>result. Inr (result, None)))"

definition snapshot_Touch_sync :: "ctx \<Rightarrow> store \<Rightarrow> SnapshotID \<Rightarrow> time \<Rightarrow> (gerr + Snapshot) \<times> store" where
  "snapshot_Touch_sync ctx s i accessedAt =
     (if IsZero accessedAt
      then (Inl (New 0 ClassInvalid CodeInvalidArgument (Some (Msg ''snapshot access time must be set''))), s)
      else update_with ctx s (context_info ''access snapshot'' i ''metadata'' ''retry the snapshot operation'')
        (modify_snapshot ctx (\<lambda>t. load_snapshot ctx t i) (\<lambda>_. i) (touch_body i accessedAt)))"

text \<open>Removal of a loaded record and its optional name.\<close>

definition drop_snapshot :: "ctx \<Rightarrow> SnapshotID \<Rightarrow> snapshotData \<Rightarrow> tx \<Rightarrow> gerr + (unit \<times> tx)" where
  "drop_snapshot ctx i d t =
     bindE (if sd_Name d \<noteq> [] then Delete ctx t CollectionSnapshotNames (sd_Name d) else Inr t) (\<lambda>t1.
     bindE (Delete ctx t1 CollectionSnapshots i) (\<lambda>t2. Inr ((), t2)))"

definition forget_snapshot_tx :: "ctx \<Rightarrow> SnapshotID \<Rightarrow> tx \<Rightarrow> gerr + (unit \<times> tx)" where
  "forget_snapshot_tx ctx i t = bindE (load_snapshot ctx t i) (\<lambda>d.
     if sd_Ready d then Inl (state_conflict ''ready snapshot cannot be forgotten'') else drop_snapshot ctx i d t)"

definition snapshot_Forget :: "ctx \<Rightarrow> store \<Rightarrow> SnapshotID \<Rightarrow> (gerr + unit) \<times> store" where
  "snapshot_Forget ctx s i = Update ctx s (forget_snapshot_tx ctx i)"

definition delete_snapshot_body :: "string \<Rightarrow> snapshotData \<Rightarrow> gerr + (Snapshot \<times> snapshotData option)" where
  "delete_snapshot_body reference d =
     (if \<not> sd_Ready d then Inl (notFound reference)
      else bindE (decodeSnapshot d) (\<lambda>result.
        Inr (result, if sd_Deleting d then None else Some (d\<lparr>sd_Deleting := True\<rparr>))))"

definition snapshot_BeginDelete :: "ctx \<Rightarrow> store \<Rightarrow> string \<Rightarrow> (gerr + Snapshot) \<times> store" where
  "snapshot_BeginDelete ctx s reference =
     update_with ctx s (context_info ''remove snapshot'' reference ''mark deleting'' ''retry snapshot removal'')
       (modify_snapshot ctx (\<lambda>t. resolve_snapshot ctx t reference) sd_ID (delete_snapshot_body reference))"

definition finalize_snapshot_tx :: "ctx \<Rightarrow> SnapshotID \<Rightarrow> tx \<Rightarrow> gerr + (unit \<times> tx)" where
  "finalize_snapshot_tx ctx i t = bindE (load_snapshot ctx t i) (\<lambda>d.
     if \<not> sd_Deleting d then Inl (state_conflict ''snapshot is not deleting'') else drop_snapshot ctx i d t)"

definition snapshot_FinalizeDelete :: "ctx \<Rightarrow> store \<Rightarrow> SnapshotID \<Rightarrow> (gerr + unit) \<times> store" where
  "snapshot_FinalizeDelete ctx s i =
     update_with ctx s ((context_info ''remove snapshot'' i ''finalize'' ''retry snapshot removal'')\<lparr>ctx_Committed := True\<rparr>)
       (finalize_snapshot_tx ctx i)"

section \<open>Buffered usage times\<close>

text \<open>One catalog used by one caller at a time: the retry of \<open>view\<close> on a concurrent flush does not
  occur, so a view is one read.\<close>

record accessBuffer =
  ab_pending :: "time gomap"
  ab_limit :: int
  ab_generation :: "64 word"

record snapStore =
  ss_store :: store
  ss_accesses :: "accessBuffer option"

definition NewBuffered :: "store \<Rightarrow> int \<Rightarrow> gerr + snapStore" where
  "NewBuffered s capacity =
     (if capacity \<le> 0 then Inl (Msg ''buffered snapshot catalog requires an engine and positive capacity'')
      else Inr \<lparr>ss_store = s, ss_accesses = Some \<lparr>ab_pending = [], ab_limit = capacity, ab_generation = 0\<rparr>\<rparr>)"

definition snapshot_view :: "ctx \<Rightarrow> snapStore \<Rightarrow> (tx \<Rightarrow> gerr + 'a) \<Rightarrow> gerr + 'a" where
  "snapshot_view ctx ss fn = (case ss_accesses ss of None \<Rightarrow> View ctx (ss_store ss) fn
     | Some _ \<Rightarrow> guard_err ctx (View ctx (ss_store ss) fn))"

definition visibleAccess :: "snapStore \<Rightarrow> Snapshot \<Rightarrow> Snapshot" where
  "visibleAccess ss r = (case ss_accesses ss of None \<Rightarrow> r
     | Some b \<Rightarrow> (let accessed = (case map_of (ab_pending b) (snap_ID r) of None \<Rightarrow> 0 | Some a \<Rightarrow> a) in
         if snap_LastAccessedAt r < accessed then r\<lparr>snap_LastAccessedAt := accessed\<rparr> else r))"

definition snapshot_Resolve :: "ctx \<Rightarrow> snapStore \<Rightarrow> string \<Rightarrow> gerr + Snapshot" where
  "snapshot_Resolve ctx ss reference =
     ctxE 2 (context_info ''resolve snapshot'' reference ''metadata'' ''check the snapshot name or ID'')
       (snapshot_view ctx ss (\<lambda>t. bindE (resolve_snapshot ctx t reference) (\<lambda>d.
          if \<not> sd_Ready d \<or> sd_Deleting d then Inl (notFound reference)
          else bindE (decodeSnapshot d) (\<lambda>result. Inr (visibleAccess ss result)))))"

definition snapshot_list_visit :: "snapStore \<Rightarrow> string \<Rightarrow> payload \<Rightarrow> Snapshot list \<Rightarrow> gerr + Snapshot list" where
  "snapshot_list_visit ss i raw result = bindE (decode_snapshot raw) (\<lambda>d.
     if sd_ID d \<noteq> i then Inl (corrupt_snapshot (Msg ''snapshot record key differs from ID''))
     else if sd_Ready d \<and> \<not> sd_Deleting d
       then bindE (decodeSnapshot d) (\<lambda>snapshot. Inr (result @ [visibleAccess ss snapshot]))
     else Inr result)"

definition snapshot_List :: "ctx \<Rightarrow> snapStore \<Rightarrow> gerr + Snapshot list" where
  "snapshot_List ctx ss =
     ctxE 2 (context_info ''list snapshots'' [] ''metadata'' ''inspect snapshot metadata'')
       (bindE (snapshot_view ctx ss (\<lambda>t. Scan ctx t CollectionSnapshots (snapshot_list_visit ss) []))
         (\<lambda>result. Inr (sort_key (\<lambda>r. (- snap_CreatedAt r, snap_ID r)) result)))"

text \<open>The transaction of \<open>FlushAccesses\<close>: one pass over the captured batch.\<close>

fun flush_batch :: "ctx \<Rightarrow> (string \<times> time) list \<Rightarrow> tx \<Rightarrow> gerr + (unit \<times> tx)" where
  "flush_batch ctx [] t = Inr ((), t)"
| "flush_batch ctx ((i, accessed) # batch) t =
     bindE (Get ctx t CollectionSnapshots i) (\<lambda>raw. case raw of
       None \<Rightarrow> flush_batch ctx batch t
     | Some p \<Rightarrow> bindE (decode_snapshot p) (\<lambda>d.
         if sd_ID d \<noteq> i then Inl (corrupt_snapshot (Msg ''snapshot record key differs from ID''))
         else if \<not> sd_Ready d \<or> sd_Deleting d \<or> accessed \<le> effective_access d then flush_batch ctx batch t
         else bindE (Put ctx t CollectionSnapshots i (P_snapshot (d\<lparr>sd_LastAccessedAt := accessed\<rparr>)))
           (flush_batch ctx batch)))"

text \<open>After the commit, an entry that did not become newer is retired.\<close>

definition retire :: "(string \<times> time) list \<Rightarrow> time gomap \<Rightarrow> time gomap" where
  "retire batch pending = foldl (\<lambda>m (i, accessed). case map_of m i of
      None \<Rightarrow> m | Some p \<Rightarrow> if accessed < p then m else AList.delete i m) pending batch"

definition FlushAccesses :: "ctx \<Rightarrow> snapStore \<Rightarrow> gerr option \<times> snapStore" where
  "FlushAccesses ctx ss = (case ss_accesses ss of None \<Rightarrow> (None, ss)
     | Some b \<Rightarrow> (case ctx of Some e \<Rightarrow> (Some e, ss)
       | None \<Rightarrow>
          let batch = ab_pending b in
          if batch = [] then (None, ss)
          else (case Update ctx (ss_store ss) (flush_batch ctx batch) of
              (Inl e, s') \<Rightarrow> (WithContext 2 (Some e) (context_info ''flush snapshot access'' [] ''metadata'' ''retry the usage flush''),
                ss\<lparr>ss_store := s'\<rparr>)
            | (Inr _, s') \<Rightarrow> (None, ss\<lparr>ss_store := s',
                ss_accesses := Some (b\<lparr>ab_pending := retire batch (ab_pending b), ab_generation := ab_generation b + 1\<rparr>)\<rparr>))))"

text \<open>\<open>recordAccess\<close> flushes a saturated buffer and tries again; \<open>None\<close> is a loop that never ends.\<close>

partial_function (option) recordAccess :: "ctx \<Rightarrow> snapStore \<Rightarrow> SnapshotID \<Rightarrow> time \<Rightarrow> ((gerr + time) \<times> snapStore) option" where
  [code]: "recordAccess ctx ss i accessed = (case ss_accesses ss of
     None \<Rightarrow> Some (Inr accessed, ss)
   | Some b \<Rightarrow> (case ctx of Some e \<Rightarrow> Some (Inl e, ss)
     | None \<Rightarrow>
         (let previous = (case map_of (ab_pending b) i of None \<Rightarrow> 0 | Some p \<Rightarrow> p) in
          if map_of (ab_pending b) i \<noteq> None \<or> int (length (ab_pending b)) < ab_limit b
          then let latest = (if accessed < previous then previous else accessed) in
            Some (Inr latest, ss\<lparr>ss_accesses := Some (b\<lparr>ab_pending := AList.update i latest (ab_pending b)\<rparr>)\<rparr>)
          else (case FlushAccesses ctx ss of
              (Some e, ss') \<Rightarrow> Some (Inl e, ss')
            | (None, ss') \<Rightarrow> recordAccess ctx ss' i accessed))))"

definition bufferAccess :: "ctx \<Rightarrow> snapStore \<Rightarrow> SnapshotID \<Rightarrow> time \<Rightarrow> ((gerr + Snapshot) \<times> snapStore) option" where
  "bufferAccess ctx ss i accessed =
     (let info = context_info ''access snapshot'' i ''record access'' ''retry the snapshot operation'' in
      case snapshot_view ctx ss (\<lambda>t. bindE (load_snapshot ctx t i) (\<lambda>d.
          if \<not> sd_Ready d then Inl (notFound i)
          else bindE (decodeSnapshot d) (\<lambda>result. Inr (visibleAccess ss result)))) of
        Inl e \<Rightarrow> Some (ctxE 2 info (Inl e), ss)
      | Inr result \<Rightarrow>
          if snap_LastAccessedAt result < accessed
          then (case recordAccess ctx ss i accessed of
              None \<Rightarrow> None
            | Some (Inl e, ss') \<Rightarrow> Some (ctxE 2 info (Inl e), ss')
            | Some (Inr latest, ss') \<Rightarrow> Some (Inr (if snap_LastAccessedAt result < latest
                then result\<lparr>snap_LastAccessedAt := latest\<rparr> else result), ss'))
          else Some (Inr result, ss))"

definition snapshot_Touch :: "ctx \<Rightarrow> snapStore \<Rightarrow> SnapshotID \<Rightarrow> time \<Rightarrow> ((gerr + Snapshot) \<times> snapStore) option" where
  "snapshot_Touch ctx ss i accessedAt =
     (if IsZero accessedAt
      then Some (Inl (New 0 ClassInvalid CodeInvalidArgument (Some (Msg ''snapshot access time must be set''))), ss)
      else case ss_accesses ss of
        Some _ \<Rightarrow> bufferAccess ctx ss i accessedAt
      | None \<Rightarrow> (case snapshot_Touch_sync ctx (ss_store ss) i accessedAt of (res, s') \<Rightarrow> Some (res, ss\<lparr>ss_store := s'\<rparr>)))"

end
