(* ===== verification/Image_Catalog.thy ===== *)
theory Image_Catalog
  imports Snapshot_Catalog
begin

text \<open>
  The image catalog (\<open>internal/images/catalog/store.go\<close>): one record per manifest, its aliases and its
  layer occurrences, in three collections that are written together. Images are resolved by alias or
  by a unique digest prefix; the last alias removed drops the image unless a sandbox or a snapshot
  still uses it (\<open>internal/core/images.go\<close>, \<open>imageUsage\<close>).
\<close>

section \<open>Records\<close>

abbreviation CollectionImages :: Collection where "CollectionImages \<equiv> ''images''"
abbreviation CollectionImageNames :: Collection where "CollectionImageNames \<equiv> ''image_names''"
abbreviation CollectionLayers :: Collection where "CollectionLayers \<equiv> ''image_layers''"

definition minimumDigestPrefix :: nat where
  "minimumDigestPrefix = 12"

definition corruptRecord :: "string \<Rightarrow> gerr \<Rightarrow> gerr" where
  "corruptRecord kind cause = New 0 ClassCorrupt CodeArtifactCorrupt (Some cause)"

text \<open>\<open>%08d\<close>: decimal digits, padded with zeros to eight.\<close>

definition pad8 :: "nat \<Rightarrow> string" where
  "pad8 n = replicate (8 - length (dec_nat n)) (CHR ''0'') @ dec_nat n"

definition layerKey :: "Digest \<Rightarrow> nat \<Rightarrow> string" where
  "layerKey manifest position = Digest_String manifest @ ''/'' @ pad8 position"

definition encodeBootFiles :: "BootFile list \<Rightarrow> bootFileRecord list" where
  "encodeBootFiles files =
     map (\<lambda>f. \<lparr>bfr_Name = bf_Name f, bfr_Digest = Digest_String (bf_Digest f), bfr_Size = bf_Size f\<rparr>) files"

definition decode_boot_file :: "bootFileRecord \<Rightarrow> gerr + BootFile" where
  "decode_boot_file f = (case ParseDigest (bfr_Digest f) of
     Inl _ \<Rightarrow> Inl (corruptRecord ''boot file'' (Msg ''invalid name, digest or size''))
   | Inr d \<Rightarrow> if \<not> IsBootName (bfr_Name f) \<or> bfr_Size f \<le> 0
       then Inl (corruptRecord ''boot file'' (Msg ''invalid name, digest or size''))
       else Inr \<lparr>bf_Name = bfr_Name f, bf_Digest = d, bf_Size = bfr_Size f\<rparr>)"

definition decodeLayer :: "layerRecord \<Rightarrow> gerr + Layer" where
  "decodeLayer r =
     bindE (mapErr (corruptRecord ''source layer digest'') (ParseDigest (lr_SourceDigest r))) (\<lambda>source.
     bindE (mapErr (corruptRecord ''erofs digest'') (ParseDigest (lr_EROFSDigest r))) (\<lambda>erofs.
     bindE (mapE decode_boot_file (lr_BootFiles r)) (\<lambda>files.
     if Digest_IsZero source \<or> Digest_IsZero erofs \<or> lr_Size r \<le> 0
     then Inl (corruptRecord ''layer'' (Msg ''invalid digest or size''))
     else if list_ex (\<lambda>n. \<not> IsBootName n) (lr_Whiteouts r)
     then Inl (corruptRecord ''whiteout'' (Msg ''invalid boot whiteout''))
     else Inr \<lparr>layer_SourceDigest = source, layer_EROFSDigest = erofs, layer_Size = lr_Size r,
       layer_BootFiles = files, layer_Whiteouts = lr_Whiteouts r, layer_BootOpaque = lr_BootOpaque r\<rparr>)))"

definition encode_layer :: "Digest \<Rightarrow> nat \<Rightarrow> Layer \<Rightarrow> layerRecord" where
  "encode_layer manifest position l = \<lparr>lr_ManifestDigest = Digest_String manifest, lr_Position = int position,
     lr_SourceDigest = Digest_String (layer_SourceDigest l), lr_EROFSDigest = Digest_String (layer_EROFSDigest l),
     lr_Size = layer_Size l, lr_BootFiles = encodeBootFiles (layer_BootFiles l),
     lr_Whiteouts = layer_Whiteouts l, lr_BootOpaque = layer_BootOpaque l\<rparr>"

section \<open>Loading\<close>

definition names_visit :: "string \<Rightarrow> string \<Rightarrow> payload \<Rightarrow> string list \<Rightarrow> gerr + string list" where
  "names_visit digestID name raw names =
     bindE (mapErr (corruptRecord ''name'') (unmarshal_image_name raw)) (\<lambda>item.
       Inr (if nr_ManifestDigest item = digestID then names @ [name] else names))"

definition layers_visit :: "string \<Rightarrow> Digest \<Rightarrow> string \<Rightarrow> payload \<Rightarrow> layerRecord list \<Rightarrow> gerr + layerRecord list" where
  "layers_visit digestID manifest key raw rows =
     bindE (mapErr (corruptRecord ''layer'') (unmarshal_layer raw)) (\<lambda>item.
       if lr_ManifestDigest item \<noteq> digestID then Inr rows
       else if lr_Position item < 0 \<or> key \<noteq> layerKey manifest (nat (lr_Position item))
       then Inl (corruptRecord ''layer position'' (Msg ''invalid layer key or position''))
       else Inr (rows @ [item]))"

definition decode_position :: "nat \<times> layerRecord \<Rightarrow> gerr + Layer" where
  "decode_position = (\<lambda>(pos, item).
     if lr_Position item \<noteq> int pos then Inl (corruptRecord ''layer order'' (Msg ''noncontiguous layer positions''))
     else decodeLayer item)"

text \<open>The commit that \<open>loadImage\<close> revalidates.\<close>

definition stored_commit :: "Image \<Rightarrow> ImportCommit" where
  "stored_commit im = \<lparr>com_Name = ''stored'', com_RegistryReference = [],
     com_Manifest = \<lparr>man_Digest = img_ManifestDigest im, man_Platform = img_Platform im,
       man_BootProfile = boot_Profile (img_Boot im),
       man_Layers = map (\<lambda>l. \<lparr>desc_Digest = layer_SourceDigest l, desc_Size = 0\<rparr>) (img_Layers im)\<rparr>,
     com_Layers = img_Layers im, com_Boot = img_Boot im, com_Size = img_Size im, com_Created = img_CreatedAt im\<rparr>"

definition loadImage :: "ctx \<Rightarrow> tx \<Rightarrow> string \<Rightarrow> gerr + Image" where
  "loadImage ctx t digestID = bindE (Get ctx t CollectionImages digestID) (\<lambda>raw. case raw of
     None \<Rightarrow> Inl (New 0 ClassCorrupt CodeArtifactCorrupt (Some (Msg ''image record is missing'')))
   | Some p \<Rightarrow>
     bindE (mapErr (corruptRecord ''image'') (unmarshal_image p)) (\<lambda>r.
     bindE (mapErr (corruptRecord ''image digest'') (ParseDigest (ir_ManifestDigest r))) (\<lambda>manifest.
     bindE (mapErr (corruptRecord ''kernel digest'') (ParseDigest (ir_KernelLayer r))) (\<lambda>kernel.
     bindE (mapErr (corruptRecord ''initrd digest'') (ParseDigest (ir_InitrdLayer r))) (\<lambda>initrd.
     bindE (Scan ctx t CollectionImageNames (names_visit digestID) []) (\<lambda>names.
     bindE (Scan ctx t CollectionLayers (layers_visit digestID manifest) []) (\<lambda>rows.
     bindE (mapE decode_position (enumerate 0 (sort_key lr_Position rows))) (\<lambda>layers.
     let im = \<lparr>img_Names = names, img_RegistryReference = ir_RegistryReference r, img_ManifestDigest = manifest,
         img_Platform = \<lparr>plat_OS = ir_OS r, plat_Architecture = ir_Architecture r\<rparr>, img_Layers = layers,
         img_Boot = \<lparr>boot_Profile = ir_BootProfile r, boot_KernelFile = ir_KernelFile r, boot_InitrdFile = ir_InitrdFile r,
           boot_KernelLayer = kernel, boot_InitrdLayer = initrd\<rparr>,
         img_Size = ir_Size r, img_CreatedAt = ir_CreatedAt r\<rparr> in
     if Digest_String manifest \<noteq> digestID
     then Inl (corruptRecord ''image identity'' (Msg ''record key differs from manifest digest''))
     else case ImportCommit_Validate (stored_commit im) of
       Some e \<Rightarrow> Inl (corruptRecord ''image facts'' e)
     | None \<Rightarrow> Inr (im\<lparr>img_Names := sort names\<rparr>)))))))))"

definition prefix_visit :: "string \<Rightarrow> string \<Rightarrow> payload \<Rightarrow> string \<Rightarrow> gerr + string" where
  "prefix_visit pre i raw digestID =
     (if HasPrefix (TrimPrefix i ''sha256:'') pre
      then if digestID \<noteq> [] \<and> digestID \<noteq> i
        then Inl (New 0 ClassInvalid CodeInvalidArgument (Some (Msg ''digest prefix is ambiguous'')))
        else Inr i
      else Inr digestID)"

definition image_not_found :: gerr where
  "image_not_found = New 0 ClassNotFound CodeNotFound (Some (Msg ''image not found''))"

definition resolve_image :: ImageReader where
  "resolve_image ctx t reference =
     bindE (bindE (Get ctx t CollectionImageNames reference) (\<lambda>raw. case raw of
         Some p \<Rightarrow> bindE (mapErr (corruptRecord ''name'') (unmarshal_image_name p)) (\<lambda>r. Inr (nr_ManifestDigest r))
       | None \<Rightarrow>
           let pre = TrimPrefix reference ''sha256:'' in
           if length pre < minimumDigestPrefix then Inl image_not_found
           else Scan ctx t CollectionImages (prefix_visit pre) []))
       (\<lambda>digestID. if digestID = [] then Inl image_not_found else loadImage ctx t digestID)"

definition image_Resolve :: "ctx \<Rightarrow> store \<Rightarrow> string \<Rightarrow> gerr + Image" where
  "image_Resolve ctx s reference =
     ctxE 2 (context_info ''resolve image'' reference ''metadata'' ''check the image name or digest'')
       (View ctx s (\<lambda>t. resolve_image ctx t reference))"

definition image_List :: "ctx \<Rightarrow> store \<Rightarrow> gerr + Image list" where
  "image_List ctx s =
     ctxE 2 (context_info ''list images'' [] ''metadata'' ''inspect the metadata store'')
       (bindE (View ctx s (\<lambda>t. Scan ctx t CollectionImages
           (\<lambda>i _ result. bindE (loadImage ctx t i) (\<lambda>im. Inr (result @ [im]))) []))
         (\<lambda>result. Inr (sort_key (\<lambda>im. Digest_String (img_ManifestDigest im)) result)))"

definition find_visit :: "Digest list \<Rightarrow> string \<Rightarrow> payload \<Rightarrow> (Digest \<times> Layer) list \<Rightarrow> gerr + (Digest \<times> Layer) list" where
  "find_visit wanted _ raw result =
     bindE (mapErr (corruptRecord ''layer'') (unmarshal_layer raw)) (\<lambda>r.
     bindE (decodeLayer r) (\<lambda>layer.
       if List.member wanted (layer_SourceDigest layer)
       then (case map_of result (layer_SourceDigest layer) of
           Some previous \<Rightarrow> if \<not> Layer_Equal previous layer
             then Inl (corruptRecord ''shared layer'' (Msg ''conflicting artifact metadata''))
             else Inr (AList.update (layer_SourceDigest layer) layer result)
         | None \<Rightarrow> Inr (AList.update (layer_SourceDigest layer) layer result))
       else Inr result))"

definition FindLayers :: "ctx \<Rightarrow> store \<Rightarrow> Digest list \<Rightarrow> gerr + (Digest \<times> Layer) list" where
  "FindLayers ctx s digests = View ctx s (\<lambda>t. Scan ctx t CollectionLayers (find_visit digests) [])"

section \<open>Import\<close>

definition commit_record_of :: "ImportCommit \<Rightarrow> imageRecord" where
  "commit_record_of c = \<lparr>ir_ManifestDigest = Digest_String (man_Digest (com_Manifest c)),
     ir_RegistryReference = com_RegistryReference c, ir_OS = plat_OS (man_Platform (com_Manifest c)),
     ir_Architecture = plat_Architecture (man_Platform (com_Manifest c)), ir_BootProfile = boot_Profile (com_Boot c),
     ir_KernelLayer = Digest_String (boot_KernelLayer (com_Boot c)), ir_KernelFile = boot_KernelFile (com_Boot c),
     ir_InitrdFile = boot_InitrdFile (com_Boot c), ir_InitrdLayer = Digest_String (boot_InitrdLayer (com_Boot c)),
     ir_Size = com_Size c, ir_CreatedAt = com_Created c\<rparr>"

fun put_layers :: "ctx \<Rightarrow> Digest \<Rightarrow> nat \<Rightarrow> Layer list \<Rightarrow> tx \<Rightarrow> gerr + tx" where
  "put_layers ctx manifest position [] t = Inr t"
| "put_layers ctx manifest position (l # ls) t =
     bindE (putJSON ctx t CollectionLayers (layerKey manifest position) (P_layer (encode_layer manifest position l)))
       (put_layers ctx manifest (Suc position) ls)"

definition same_facts :: "Image \<Rightarrow> ImportCommit \<Rightarrow> gerr option" where
  "same_facts existing commit =
     (if img_Platform existing \<noteq> man_Platform (com_Manifest commit) \<or> img_Boot existing \<noteq> com_Boot commit
         \<or> img_Size existing \<noteq> com_Size commit \<or> length (img_Layers existing) \<noteq> length (com_Layers commit)
      then Some (corruptRecord ''image'' (Msg ''manifest facts changed''))
      else if list_ex (\<lambda>(a, b). \<not> Layer_Equal a b) (zip (img_Layers existing) (com_Layers commit))
      then Some (corruptRecord ''image'' (Msg ''manifest layers changed''))
      else None)"

definition commit_import_tx :: "ctx \<Rightarrow> ImportCommit \<Rightarrow> tx \<Rightarrow> gerr + (unit \<times> tx)" where
  "commit_import_tx ctx commit t =
     (let digest = Digest_String (man_Digest (com_Manifest commit));
          bind_name = (\<lambda>t. bindE (putJSON ctx t CollectionImageNames (com_Name commit)
            (P_image_name \<lparr>nr_ManifestDigest = digest\<rparr>)) (\<lambda>t'. Inr ((), t'))) in
      bindE (Get ctx t CollectionImageNames (com_Name commit)) (\<lambda>rawName.
      bindE (case rawName of None \<Rightarrow> Inr ()
         | Some p \<Rightarrow> bindE (mapErr (corruptRecord ''name'') (unmarshal_image_name p)) (\<lambda>current.
             if nr_ManifestDigest current \<noteq> digest
             then Inl (New 0 ClassConflict CodeNameTaken (Some (Msg ''image name already points to another digest'')))
             else Inr ())) (\<lambda>_.
      bindE (Get ctx t CollectionImages digest) (\<lambda>rawImage. case rawImage of
        Some p \<Rightarrow> bindE (loadImage ctx t digest) (\<lambda>existing.
          guard_err (same_facts existing commit)
           (bindE (if com_RegistryReference commit \<noteq> [] \<and> com_RegistryReference commit \<noteq> img_RegistryReference existing
               then bindE (mapErr (corruptRecord ''image'') (unmarshal_image p)) (\<lambda>r.
                 putJSON ctx t CollectionImages digest (P_image (r\<lparr>ir_RegistryReference := com_RegistryReference commit\<rparr>)))
               else Inr t) bind_name))
      | None \<Rightarrow>
          bindE (putJSON ctx t CollectionImages digest (P_image (commit_record_of commit))) (\<lambda>t1.
          bindE (put_layers ctx (man_Digest (com_Manifest commit)) 0 (com_Layers commit) t1) bind_name)))))"

definition CommitImport :: "ctx \<Rightarrow> store \<Rightarrow> ImportCommit \<Rightarrow> (gerr + unit) \<times> store" where
  "CommitImport ctx s commit = (case ImportCommit_Validate commit of
     Some e \<Rightarrow> (Inl (New 0 ClassInvalid CodeInvalidArgument (Some e)), s)
   | None \<Rightarrow> update_with ctx s (context_info ''commit image import'' (com_Name commit) ''metadata'' ''retry the import'')
       (commit_import_tx ctx commit))"

section \<open>Removal\<close>

text \<open>\<open>ImageUsage.InUse\<close>, asked inside the removal transaction, and core's implementation of it.\<close>

type_synonym ImageUsage = "ctx \<Rightarrow> tx \<Rightarrow> Digest \<Rightarrow> gerr + bool"

definition imageUsage :: ImageUsage where
  "imageUsage ctx t digest = bindE (sandbox_InUse ctx t digest) (\<lambda>used.
     if used then Inr True else snapshot_InUse ctx t digest)"

definition layerReferenced :: "ctx \<Rightarrow> tx \<Rightarrow> Digest \<Rightarrow> gerr + bool" where
  "layerReferenced ctx t digest = Scan ctx t CollectionLayers
     (\<lambda>_ raw referenced. bindE (mapErr (corruptRecord ''layer'') (unmarshal_layer raw)) (\<lambda>r.
       Inr (referenced \<or> lr_SourceDigest r = Digest_String digest))) False"

fun drop_names :: "ctx \<Rightarrow> (string \<Rightarrow> bool) \<Rightarrow> string list \<Rightarrow> tx \<Rightarrow> gerr + (string list \<times> tx)" where
  "drop_names ctx sel [] t = Inr ([], t)"
| "drop_names ctx sel (n # ns) t =
     (if sel n then bindE (Delete ctx t CollectionImageNames n) (\<lambda>t1.
        bindE (drop_names ctx sel ns t1) (\<lambda>(gone, t2). Inr (n # gone, t2)))
      else drop_names ctx sel ns t)"

fun drop_layers :: "ctx \<Rightarrow> Digest \<Rightarrow> nat \<Rightarrow> Layer list \<Rightarrow> tx \<Rightarrow> gerr + (Digest list \<times> tx)" where
  "drop_layers ctx manifest position [] t = Inr ([], t)"
| "drop_layers ctx manifest position (l # ls) t =
     bindE (Delete ctx t CollectionLayers (layerKey manifest position)) (\<lambda>t1.
     bindE (layerReferenced ctx t1 (layer_SourceDigest l)) (\<lambda>used.
     bindE (drop_layers ctx manifest (Suc position) ls t1) (\<lambda>(freed, t2).
       Inr (if used then freed else layer_SourceDigest l # freed, t2))))"

definition remaining_names :: "ctx \<Rightarrow> tx \<Rightarrow> string \<Rightarrow> gerr + nat" where
  "remaining_names ctx t digest = Scan ctx t CollectionImageNames
     (\<lambda>_ raw n. bindE (mapErr (corruptRecord ''name'') (unmarshal_image_name raw)) (\<lambda>r.
       Inr (if nr_ManifestDigest r = digest then Suc n else n))) 0"

definition remove_image_tx :: "ImageUsage \<Rightarrow> ctx \<Rightarrow> string \<Rightarrow> Digest \<Rightarrow> tx \<Rightarrow> gerr + (Removal \<times> tx)" where
  "remove_image_tx usage ctx reference expected t =
     bindE (resolve_image ctx t reference) (\<lambda>im.
     if img_ManifestDigest im \<noteq> expected
     then Inl (New 0 ClassConflict CodeNameTaken (Some (Msg ''image binding changed while waiting for locks; retry'')))
     else bindE (Get ctx t CollectionImageNames reference) (\<lambda>isName.
     bindE (drop_names ctx (\<lambda>name. isName = None \<or> name = reference) (img_Names im) t) (\<lambda>(names, t1).
     bindE (remaining_names ctx t1 (Digest_String (img_ManifestDigest im))) (\<lambda>remaining.
     if 0 < remaining then Inr (\<lparr>rem_Names = names, rem_Layers = []\<rparr>, t1)
     else bindE (usage ctx t1 (img_ManifestDigest im)) (\<lambda>used.
       if used then Inl (New 0 ClassConflict CodeReferenced (Some (Msg ''image is used by a sandbox or snapshot'')))
       else bindE (Delete ctx t1 CollectionImages (Digest_String (img_ManifestDigest im))) (\<lambda>t2.
         bindE (drop_layers ctx (img_ManifestDigest im) 0 (img_Layers im) t2) (\<lambda>(freed, t3).
           Inr (\<lparr>rem_Names = names, rem_Layers = freed\<rparr>, t3))))))))"

definition image_Remove :: "ImageUsage \<Rightarrow> ctx \<Rightarrow> store \<Rightarrow> string \<Rightarrow> Digest \<Rightarrow> (gerr + Removal) \<times> store" where
  "image_Remove usage ctx s reference expected =
     update_with ctx s (context_info ''remove image'' reference ''metadata'' ''inspect image references'')
       (remove_image_tx usage ctx reference expected)"

end
