(* ===== verification/Sandbox_Lifecycle.thy ===== *)
theory Sandbox_Lifecycle
  imports Sandbox_Catalog
begin

text \<open>
  Correctness of the sandbox catalog: persisted records decode to what was encoded, the record and
  name collections stay consistent, every transition is fenced by state and generation, and the
  catalog refines a map from identities to valid sandboxes.
\<close>

section \<open>Round trip\<close>

lemma decode_encode_interface: "decode_interface (encode_interface n) = n"
  by (cases n) (auto simp: decode_interface_def encode_interface_def split: option.splits)

lemma decode_encodeNetwork: "decodeNetwork (encodeNetwork nsetup) = nsetup"
  by (cases nsetup) (simp add: decodeNetwork_def encodeNetwork_def decode_encode_interface comp_def)

lemma NetworkSetup_no_backend:
  "NetworkSetup_Validate nsetup = None \<Longrightarrow> net_Backend nsetup = [] \<Longrightarrow> nsetup = NetworkSetup_zero"
  by (cases nsetup) (simp add: NetworkSetup_Validate_def NetworkSetup_zero_def)

lemma decode_data_encode:
  assumes "Sandbox_Validate r = None"
  shows "decode_data (encode_sandbox r) (sb_ImageDigest r) = r"
proof -
  note v = Sandbox_Validate_NoneD [OF assms]
  have vmm: "sb_VMM r \<noteq> []" using v(5) by (auto simp: VMMType_Validate_def)
  have net: "(case (if net_Backend (sb_Network r) \<noteq> [] then Some (encodeNetwork (sb_Network r)) else None) of
      None \<Rightarrow> NetworkSetup_zero | Some n \<Rightarrow> decodeNetwork n) = sb_Network r"
    using NetworkSetup_no_backend [OF v(6)]
    by (cases "net_Backend (sb_Network r) = []") (simp_all add: decode_encodeNetwork)
  have fail: "(case (case sb_Failure r of None \<Rightarrow> None | Some f \<Rightarrow> Some \<lparr>fd_Phase = fail_Phase f, fd_Message = fail_Message f\<rparr>) of
      None \<Rightarrow> None | Some f \<Rightarrow> Some \<lparr>fail_Phase = fd_Phase f, fail_Message = fd_Message f\<rparr>) = sb_Failure r"
    by (auto split: option.splits)
  show ?thesis
    using vmm by (simp add: decode_data_def encode_sandbox_def Let_def net fail)
qed

lemma decode_encode_sandbox:
  assumes "Sandbox_Validate r = None" and "wf_digest (sb_ImageDigest r)"
  shows "decode_sandbox (P_sandbox (encode_sandbox r)) = Inr r"
proof -
  have "rd_ID (encode_sandbox r) = sb_ID r" "rd_ImageDigest (encode_sandbox r) = Digest_String (sb_ImageDigest r)"
    by (simp_all add: encode_sandbox_def Let_def)
  then show ?thesis
    using assms Sandbox_Validate_NoneD(1) [OF assms(1)] decode_data_encode [OF assms(1)]
    by (simp add: decode_sandbox_def ParseSandboxID_valid ParseDigest_String)
qed

lemma decode_sandbox_Inr:
  assumes "decode_sandbox p = Inr r"
  shows "Sandbox_Validate r = None \<and> wf_digest (sb_ImageDigest r)"
  using assms by (auto simp: decode_sandbox_def bindE_Inr_iff Let_def ParseDigest_iff decode_data_def)

section \<open>Abstraction and invariant\<close>

definition sandboxes :: "tx \<Rightarrow> string \<rightharpoonup> Sandbox" where
  "sandboxes t i = (case lookup t CollectionSandboxes i of None \<Rightarrow> None
     | Some p \<Rightarrow> (case decode_sandbox p of Inl _ \<Rightarrow> None | Inr r \<Rightarrow> Some r))"

definition sandbox_names :: "tx \<Rightarrow> string \<rightharpoonup> string" where
  "sandbox_names t n = (case lookup t CollectionNames n of Some (P_name d) \<Rightarrow> Some (name_ID d) | _ \<Rightarrow> None)"

abbreviation sandbox_name :: "Sandbox \<Rightarrow> string" where
  "sandbox_name r \<equiv> cfg_Name (sb_Config r)"

text \<open>Every stored sandbox decodes to a valid record under its own identity, every name entry is
  well formed, and the two collections agree.\<close>

definition sandbox_inv :: "tx \<Rightarrow> bool" where
  "sandbox_inv t \<longleftrightarrow> tx_ok t \<and> declared t CollectionSandboxes \<and> declared t CollectionNames
     \<and> (\<forall>i p. lookup t CollectionSandboxes i = Some p \<longrightarrow> (\<exists>r. decode_sandbox p = Inr r \<and> sb_ID r = i))
     \<and> (\<forall>n p. lookup t CollectionNames n = Some p \<longrightarrow> (\<exists>d. p = P_name d))
     \<and> index_ok (sandboxes t) (sandbox_names t) sandbox_name"

lemma sandbox_invD:
  assumes "sandbox_inv t"
  shows "tx_ok t" and "declared t CollectionSandboxes" and "declared t CollectionNames"
    and "index_ok (sandboxes t) (sandbox_names t) sandbox_name"
  using assms by (auto simp: sandbox_inv_def)

lemma sandboxes_Some:
  assumes "sandbox_inv t" and "sandboxes t i = Some r"
  shows "Sandbox_Validate r = None" and "wf_digest (sb_ImageDigest r)" and "sb_ID r = i"
proof -
  from assms(2) obtain p where p: "lookup t CollectionSandboxes i = Some p" "decode_sandbox p = Inr r"
    by (auto simp: sandboxes_def split: option.splits sum.splits)
  then show "Sandbox_Validate r = None" "wf_digest (sb_ImageDigest r)" using decode_sandbox_Inr by auto
  from assms(1) p obtain r' where "decode_sandbox p = Inr r'" "sb_ID r' = i"
    unfolding sandbox_inv_def by blast
  with p(2) show "sb_ID r = i" by simp
qed

lemma valid_name_nonempty: "Sandbox_Validate r = None \<Longrightarrow> sandbox_name r \<noteq> []"
  using Sandbox_Validate_NoneD(2) [of r]
  by (auto simp: SandboxConfig_Validate_def validSandboxName_def match_name_def)

lemma load_sandbox_inv:
  assumes "sandbox_inv t"
  shows "load_sandbox None t i = (case sandboxes t i of
     None \<Rightarrow> Inl (New 0 ClassNotFound CodeNotFound (Some (Msg ''sandbox not found''))) | Some r \<Rightarrow> Inr r)"
proof (cases "lookup t CollectionSandboxes i")
  case None
  then show ?thesis using sandbox_invD(2) [OF assms] by (simp add: load_sandbox_def sandboxes_def)
next
  case (Some p)
  then obtain r where "decode_sandbox p = Inr r" "sb_ID r = i" using assms unfolding sandbox_inv_def by blast
  then show ?thesis using Some sandbox_invD(2) [OF assms] by (simp add: load_sandbox_def sandboxes_def)
qed

lemma load_sandbox_Inr: "load_sandbox ctx t i = Inr r \<Longrightarrow> ctx = None \<and> sandboxes t i = Some r \<and> sb_ID r = i"
  by (auto simp: load_sandbox_def bindE_Inr_iff Get_Inr sandboxes_def split: option.splits if_splits)

lemma sandboxes_Put:
  assumes "Put ctx t CollectionSandboxes i (P_sandbox (encode_sandbox r)) = Inr t'"
    and "Sandbox_Validate r = None" and "wf_digest (sb_ImageDigest r)"
  shows "sandboxes t' = (sandboxes t)(i \<mapsto> r)" and "sandbox_names t' = sandbox_names t"
  by (rule ext, use lookup_Put [OF assms(1)] decode_encode_sandbox [OF assms(2,3)] in
      \<open>simp add: sandboxes_def sandbox_names_def\<close>)+

lemma sandbox_inv_replace:
  assumes inv: "sandbox_inv t" and put: "Put ctx t CollectionSandboxes i (P_sandbox (encode_sandbox r)) = Inr t'"
    and valid: "Sandbox_Validate r = None" "wf_digest (sb_ImageDigest r)" and r: "sb_ID r = i"
    and idx: "index_ok ((sandboxes t)(i \<mapsto> r)) (sandbox_names t) sandbox_name"
  shows "sandbox_inv t'"
proof -
  have "tx_ok t'" using tx_ok_Put [OF sandbox_invD(1) [OF inv] put] .
  moreover have "\<exists>r. decode_sandbox p = Inr r \<and> sb_ID r = j" if "lookup t' CollectionSandboxes j = Some p" for j p
    using that inv decode_encode_sandbox [OF valid] r
    by (auto simp: lookup_Put [OF put] sandbox_inv_def split: if_splits)
  moreover have "\<exists>d. p = P_name d" if "lookup t' CollectionNames n = Some p" for n p
    using that inv by (auto simp: lookup_Put [OF put] sandbox_inv_def)
  ultimately show ?thesis
    using inv idx sandboxes_Put [OF put valid] unfolding sandbox_inv_def by (simp add: declared_Put [OF put])
qed

section \<open>Lifecycle\<close>

text \<open>The edges of the sandbox state machine that advance the generation.\<close>

definition lifecycle_edges :: "(SandboxState \<times> SandboxState) set" where
  "lifecycle_edges = {
     (SandboxStateCreating, SandboxStateCreated), (SandboxStateCreating, SandboxStateError),
     (SandboxStateCreated, SandboxStateStarting), (SandboxStateStopped, SandboxStateStarting),
     (SandboxStateError, SandboxStateStarting), (SandboxStateStarting, SandboxStateRunning),
     (SandboxStateStarting, SandboxStateError), (SandboxStateRunning, SandboxStateStopping),
     (SandboxStateStarting, SandboxStateStopped), (SandboxStateRunning, SandboxStateStopped),
     (SandboxStateStopping, SandboxStateStopped), (SandboxStateCreating, SandboxStateDeleting),
     (SandboxStateCreated, SandboxStateDeleting), (SandboxStateStopped, SandboxStateDeleting),
     (SandboxStateError, SandboxStateDeleting)}"

text \<open>What one committed operation may do to the record of one identity.\<close>

definition record_step :: "Sandbox option \<Rightarrow> Sandbox option \<Rightarrow> bool" where
  "record_step old new = (case (old, new) of
     (None, None) \<Rightarrow> True
   | (None, Some r') \<Rightarrow> sb_State r' = SandboxStateCreating \<and> sb_Generation r' = 1
   | (Some r, None) \<Rightarrow> sb_State r = SandboxStateCreating \<or> sb_State r = SandboxStateDeleting
   | (Some r, Some r') \<Rightarrow> r' = r \<or>
       (sb_ID r' = sb_ID r \<and> sandbox_name r' = sandbox_name r \<and> sb_ImageDigest r' = sb_ImageDigest r
        \<and> sb_VMM r' = sb_VMM r \<and> sb_CreatedAt r' = sb_CreatedAt r
        \<and> ((sb_State r, sb_State r') \<in> lifecycle_edges \<and> unat (sb_Generation r') = unat (sb_Generation r) + 1
           \<or> sb_State r = SandboxStateRunning \<and> sb_State r' = SandboxStateRunning \<and> sb_Generation r' = sb_Generation r)))"

text \<open>A transaction body that keeps the invariant, moves every record by at most one step and leaves
  the other modules' collections alone.\<close>

text \<open>A sandbox appears only for an image that was resolved in the same transaction.\<close>

definition imaged :: "ImageReader \<Rightarrow> tx \<Rightarrow> tx \<Rightarrow> bool" where
  "imaged images t t' \<longleftrightarrow> (\<forall>i r. sandboxes t i = None \<and> sandboxes t' i = Some r \<longrightarrow>
     (\<exists>ctx ref im. images ctx t ref = Inr im \<and> img_ManifestDigest im = sb_ImageDigest r))"

definition tx_good :: "ImageReader \<Rightarrow> (tx \<Rightarrow> gerr + ('a \<times> tx)) \<Rightarrow> bool" where
  "tx_good images fn \<longleftrightarrow> (\<forall>t x t'. sandbox_inv t \<longrightarrow> fn t = Inr (x, t') \<longrightarrow> sandbox_inv t'
     \<and> (\<forall>i. record_step (sandboxes t i) (sandboxes t' i))
     \<and> (\<forall>c k. c \<notin> {CollectionSandboxes, CollectionNames} \<longrightarrow> lookup t' c k = lookup t c k)
     \<and> (\<forall>c. declared t' c = declared t c) \<and> imaged images t t')"

lemma update_with_cases:
  assumes "update_with ctx s info fn = (res, s')"
  obtains (failed) e where "res = Inl e" and "s' = s"
  | (committed) x t where "res = Inr x" and "ctx = None" and "\<not> mem_closed s"
      and "fn (mem_records s) = Inr (x, t)" and "s' = s\<lparr>mem_records := t\<rparr>"
proof (cases "Update ctx s fn")
  case (Pair r s1)
  with assms have r: "res = ctxE 2 info r" "s' = s1" by (auto simp: update_with_def)
  show thesis
  proof (cases r)
    case (Inl e)
    then have "s1 = s" using Update_Inl Pair by metis
    moreover have "\<exists>e'. res = Inl e'" using r Inl by (simp add: ctxE_def)
    ultimately show ?thesis using failed r by blast
  next
    case (Inr x)
    then show ?thesis using committed [of x] r Pair Update_Inr [of ctx s fn x s1] by auto
  qed
qed

lemma ctxE_conflict: "\<exists>e. ctxE a info (Inl (state_conflict m)) = Inl e \<and> CodeOf e = Some CodeStateConflict"
  by (simp add: ctxE_def WithContext_def New_def CodeOf_def)

section \<open>Fenced transitions\<close>

text \<open>What the transitions of the catalog rely on in a body: it accepts only the expected
  generation, keeps identity, name, image, backend and creation time, returns a valid record, moves
  along an edge of its own, and advances the generation by a fixed amount.\<close>

locale fenced_body =
  fixes body :: "Sandbox \<Rightarrow> gerr + Sandbox option" and expected :: "64 word"
    and edges :: "(SandboxState \<times> SandboxState) set" and bump :: "64 word" and resume :: "SandboxState set"
  assumes stale: "sb_Generation r \<noteq> expected \<Longrightarrow> \<exists>m. body r = Inl (state_conflict m)"
    and edge: "body r = Inr (Some r') \<Longrightarrow> (sb_State r, sb_State r') \<in> edges"
    and generation: "body r = Inr (Some r') \<Longrightarrow> sb_Generation r' = sb_Generation r + bump"
    and keeps: "body r = Inr (Some r') \<Longrightarrow> sb_ID r' = sb_ID r \<and> sandbox_name r' = sandbox_name r
        \<and> sb_ImageDigest r' = sb_ImageDigest r \<and> sb_VMM r' = sb_VMM r \<and> sb_CreatedAt r' = sb_CreatedAt r"
    and valid: "body r = Inr (Some r') \<Longrightarrow> Sandbox_Validate r' = None"
    and resumes: "body r = Inr None \<Longrightarrow> sb_State r \<in> resume"
begin

lemma fence: "body r = Inr out \<Longrightarrow> sb_Generation r = expected"
  using stale [of r] by fastforce

lemma modify_refines:
  assumes inv: "sandbox_inv t" and r: "sandboxes t i = Some r" and step: "body r = Inr (Some r')"
  shows "\<exists>t'. modify_sandbox None i body t = Inr (r', t') \<and> sandbox_inv t'
    \<and> sandboxes t' = (sandboxes t)(i \<mapsto> r') \<and> sandbox_names t' = sandbox_names t
    \<and> (\<forall>c k. c \<noteq> CollectionSandboxes \<longrightarrow> lookup t' c k = lookup t c k) \<and> (\<forall>c. declared t' c = declared t c)"
proof -
  obtain t' where put: "Put None t CollectionSandboxes i (P_sandbox (encode_sandbox r')) = Inr t'"
    using Put_live [OF sandbox_invD(2) [OF inv]] by blast
  note old = sandboxes_Some [OF inv r] and k = keeps [OF step]
  have wf: "wf_digest (sb_ImageDigest r')" using old(2) k by simp
  have idx: "index_ok ((sandboxes t)(i \<mapsto> r')) (sandbox_names t) sandbox_name"
    using index_ok_replace [OF sandbox_invD(4) [OF inv] r] k by simp
  have "sandbox_inv t'"
    using sandbox_inv_replace [OF inv put valid [OF step] wf _ idx] k old(3) by simp
  moreover have "modify_sandbox None i body t = Inr (r', t')"
    using r step put by (simp add: modify_sandbox_def load_sandbox_inv [OF inv] putJSON_def)
  ultimately show ?thesis
    using sandboxes_Put [OF put valid [OF step] wf] lookup_Put [OF put] declared_Put [OF put] by auto
qed

lemma modify_Inr:
  assumes "modify_sandbox ctx i body t = Inr (r', t')" and inv: "sandbox_inv t"
  shows "ctx = None \<and> (\<exists>r. sandboxes t i = Some r \<and> sb_Generation r = expected \<and> sandbox_inv t'
    \<and> sandboxes t' i = Some r' \<and> (\<forall>j. j \<noteq> i \<longrightarrow> sandboxes t' j = sandboxes t j)
    \<and> (\<forall>c. declared t' c = declared t c) \<and> (\<forall>c k. c \<noteq> CollectionSandboxes \<longrightarrow> lookup t' c k = lookup t c k)
    \<and> (if sandboxes t' = sandboxes t then r' = r \<or> body r = Inr (Some r') else body r = Inr (Some r')))"
proof -
  from assms(1) obtain r out where r: "load_sandbox ctx t i = Inr r" and out: "body r = Inr out"
    by (auto simp: modify_sandbox_def bindE_Inr_iff)
  from load_sandbox_Inr [OF r] have ctx: "ctx = None" and sr: "sandboxes t i = Some r" by auto
  show ?thesis
  proof (cases out)
    case None
    then have "r' = r" "t' = t" using assms(1) r out by (auto simp: modify_sandbox_def)
    then show ?thesis using ctx sr out fence inv by auto
  next
    case (Some r1)
    then obtain t1 where t1: "modify_sandbox None i body t = Inr (r1, t1)" "sandbox_inv t1"
      "sandboxes t1 = (sandboxes t)(i \<mapsto> r1)" "\<forall>c. declared t1 c = declared t c"
      "\<forall>c k. c \<noteq> CollectionSandboxes \<longrightarrow> lookup t1 c k = lookup t c k"
      using modify_refines [OF inv sr] out by blast
    with assms(1) ctx have "r1 = r'" "t1 = t'" by auto
    then show ?thesis using ctx sr out Some fence [OF out] t1 by auto
  qed
qed

text \<open>A generation that is not the expected one is refused as a state conflict.\<close>

lemma update_stale:
  assumes inv: "sandbox_inv (mem_records s)" and r: "sandboxes (mem_records s) i = Some r"
    and g: "sb_Generation r \<noteq> expected" and live: "\<not> mem_closed s"
  shows "\<exists>e. update_with None s info (modify_sandbox None i body) = (Inl e, s) \<and> CodeOf e = Some CodeStateConflict"
proof -
  obtain m where "body r = Inl (state_conflict m)" using stale [OF g] by blast
  then have "modify_sandbox None i body (mem_records s) = Inl (state_conflict m)"
    using r by (simp add: modify_sandbox_def load_sandbox_inv [OF inv])
  then have "Update None s (modify_sandbox None i body) = (Inl (state_conflict m), s)"
    using live by (simp add: Update_live)
  then show ?thesis by (simp add: update_with_def ctxE_conflict)
qed

text \<open>On a live store a transition is the abstract one on the map of records.\<close>

lemma update_refines:
  assumes inv: "sandbox_inv (mem_records s)" and live: "\<not> mem_closed s"
  shows "(\<exists>s'. update_with None s info (modify_sandbox None i body) = (Inr r', s')) \<longleftrightarrow>
    (\<exists>r. sandboxes (mem_records s) i = Some r \<and> (body r = Inr None \<and> r' = r \<or> body r = Inr (Some r')))"
proof
  assume "\<exists>s'. update_with None s info (modify_sandbox None i body) = (Inr r', s')"
  then obtain s' where "update_with None s info (modify_sandbox None i body) = (Inr r', s')" by blast
  then obtain t where "modify_sandbox None i body (mem_records s) = Inr (r', t)"
    by (cases rule: update_with_cases) auto
  then show "\<exists>r. sandboxes (mem_records s) i = Some r \<and> (body r = Inr None \<and> r' = r \<or> body r = Inr (Some r'))"
    by (auto simp: modify_sandbox_def bindE_Inr_iff load_sandbox_inv [OF inv] split: option.splits)
      (metis not_None_eq)
next
  assume "\<exists>r. sandboxes (mem_records s) i = Some r \<and> (body r = Inr None \<and> r' = r \<or> body r = Inr (Some r'))"
  then obtain r where r: "sandboxes (mem_records s) i = Some r" and b: "body r = Inr None \<and> r' = r \<or> body r = Inr (Some r')"
    by blast
  have "\<exists>t. modify_sandbox None i body (mem_records s) = Inr (r', t)"
    using b
  proof
    assume "body r = Inr None \<and> r' = r"
    then show ?thesis using r by (simp add: modify_sandbox_def load_sandbox_inv [OF inv])
  next
    assume "body r = Inr (Some r')"
    then show ?thesis using modify_refines [OF inv r] by blast
  qed
  then show "\<exists>s'. update_with None s info (modify_sandbox None i body) = (Inr r', s')"
    using live by (auto simp: update_with_def Update_live)
qed

text \<open>The generation number never wraps: a valid record has a generation other than zero.\<close>

lemma generation_nat:
  assumes "body r = Inr (Some r')" and "bump = 1"
  shows "unat (sb_Generation r') = unat (sb_Generation r) + 1"
proof -
  have "sb_Generation r + 1 \<noteq> 0"
    using Sandbox_Validate_NoneD(4) [OF valid [OF assms(1)]] generation [OF assms(1)] assms(2) by simp
  then show ?thesis using generation [OF assms(1)] assms(2) unatSuc [of "sb_Generation r"] by (simp add: add.commute)
qed

text \<open>One write of the catalog seen from one record.\<close>

lemma modify_record_step:
  assumes "modify_sandbox ctx i body t = Inr (r', t')" and inv: "sandbox_inv t"
    and "bump = 1 \<and> edges \<subseteq> lifecycle_edges \<or> bump = 0 \<and> edges \<subseteq> {(SandboxStateRunning, SandboxStateRunning)}"
  shows "record_step (sandboxes t j) (sandboxes t' j)"
proof (cases "sandboxes t' j = sandboxes t j")
  case True
  then show ?thesis by (cases "sandboxes t j") (simp_all add: record_step_def)
next
  case False
  note m = modify_Inr [OF assms(1) inv]
  from m False have ij: "j = i" by auto
  from m obtain r where r: "sandboxes t i = Some r" "sandboxes t' i = Some r'" "body r = Inr (Some r')"
    using False ij by (auto split: if_splits)
  have "record_step (Some r) (Some r')"
    using assms(3) edge [OF r(3)] generation [OF r(3)] generation_nat [OF r(3)] keeps [OF r(3)]
    by (auto simp: record_step_def)
  then show ?thesis using r ij by simp
qed

lemma modify_good:
  assumes "bump = 1 \<and> edges \<subseteq> lifecycle_edges \<or> bump = 0 \<and> edges \<subseteq> {(SandboxStateRunning, SandboxStateRunning)}"
  shows "tx_good images (modify_sandbox ctx i body)"
  unfolding tx_good_def
proof (intro allI impI conjI)
  fix t x t' assume a: "sandbox_inv t" "modify_sandbox ctx i body t = Inr (x, t')"
  note m = modify_Inr [OF a(2) a(1)]
  from m show "sandbox_inv t'" by blast
  show "record_step (sandboxes t j) (sandboxes t' j)" for j by (rule modify_record_step [OF a(2,1) assms])
  show "lookup t' c k = lookup t c k" if "c \<notin> {CollectionSandboxes, CollectionNames}" for c k using m that by blast
  show "declared t' c = declared t c" for c using m by blast
  have "sandboxes t j \<noteq> None" if "sandboxes t' j \<noteq> None" for j using m that by (cases "j = i") auto
  then show "imaged images t t'" unfolding imaged_def by (metis option.distinct(1))
qed

end

lemma commit_record_Inr: "commit_record e r = Inr out \<longleftrightarrow> Sandbox_Validate r = None \<and> out = Some r"
  by (auto simp: commit_record_def)

lemmas body_defs = commit_record_Inr advance_def Let_def

interpretation created: fenced_body "created_body expected nsetup updated" expected
  "{(SandboxStateCreating, SandboxStateCreated)}" 1 "{}"
  by unfold_locales (auto simp: created_body_def body_defs split: if_splits)

interpretation trans: fenced_body "transition_body expected from to failure updated" expected "{(from, to)}" 1 "{}"
  by unfold_locales (auto simp: transition_body_def body_defs split: if_splits)

interpretation start: fenced_body "start_body expected updated" expected
  "{SandboxStateCreated, SandboxStateStopped, SandboxStateError} \<times> {SandboxStateStarting}" 1 "{SandboxStateStarting}"
  by unfold_locales (auto simp: start_body_def body_defs split: if_splits)

interpretation stop: fenced_body "stop_body expected updated" expected
  "{(SandboxStateRunning, SandboxStateStopping)}" 1 "{SandboxStateStopping}"
  by unfold_locales (auto simp: stop_body_def body_defs split: if_splits)

interpretation network: fenced_body "network_body expected nsetup networkName updated" expected
  "{(SandboxStateRunning, SandboxStateRunning)}" 0 "{}"
  by unfold_locales (auto simp: network_body_def body_defs split: if_splits)

interpretation deleting: fenced_body "delete_body expected updated" expected
  "{SandboxStateCreating, SandboxStateCreated, SandboxStateStopped, SandboxStateError} \<times> {SandboxStateDeleting}" 1
  "{SandboxStateDeleting}"
  by unfold_locales (auto simp: delete_body_def body_defs split: if_splits)

section \<open>Reservation and removal\<close>

lemma reserve_Inr:
  assumes "reserve_sandbox_tx images ctx ref expected record t = Inr (x, t')"
  shows "\<exists>im t1. images ctx t ref = Inr im \<and> img_ManifestDigest im = expected \<and> ctx = None
    \<and> lookup t CollectionSandboxes (sb_ID record) = None \<and> lookup t CollectionNames (sandbox_name record) = None
    \<and> Put ctx t CollectionSandboxes (sb_ID record) (P_sandbox (encode_sandbox record)) = Inr t1
    \<and> Put ctx t1 CollectionNames (sandbox_name record) (P_name \<lparr>name_ID = sb_ID record\<rparr>) = Inr t'"
  using assms
  by (auto simp: reserve_sandbox_tx_def bindE_Inr_iff putJSON_def Get_Inr split: if_splits option.splits)

lemma sandbox_names_Put:
  assumes "Put ctx t CollectionNames n (P_name \<lparr>name_ID = i\<rparr>) = Inr t'"
  shows "sandbox_names t' = (sandbox_names t)(n \<mapsto> i)" and "sandboxes t' = sandboxes t"
  by (rule ext, use lookup_Put [OF assms] in \<open>simp add: sandboxes_def sandbox_names_def\<close>)+

lemma reserve_good:
  assumes valid: "Sandbox_Validate record = None" "wf_digest (sb_ImageDigest record)"
    and fresh: "sb_State record = SandboxStateCreating" "sb_Generation record = 1"
    and digest: "sb_ImageDigest record = expected"
  shows "tx_good images (reserve_sandbox_tx images ctx ref expected record)"
  unfolding tx_good_def
proof (intro allI impI)
  fix t x t' assume inv: "sandbox_inv t" and run: "reserve_sandbox_tx images ctx ref expected record t = Inr (x, t')"
  from reserve_Inr [OF run] obtain im t1 where im: "images ctx t ref = Inr im" "img_ManifestDigest im = expected"
    and new: "lookup t CollectionSandboxes (sb_ID record) = None"
      "lookup t CollectionNames (sandbox_name record) = None"
    and p1: "Put ctx t CollectionSandboxes (sb_ID record) (P_sandbox (encode_sandbox record)) = Inr t1"
    and p2: "Put ctx t1 CollectionNames (sandbox_name record) (P_name \<lparr>name_ID = sb_ID record\<rparr>) = Inr t'"
    by blast
  have free: "sandboxes t (sb_ID record) = None" "sandbox_names t (sandbox_name record) = None"
    using new by (simp_all add: sandboxes_def sandbox_names_def)
  have recs: "sandboxes t' = (sandboxes t)(sb_ID record \<mapsto> record)"
    and names: "sandbox_names t' = (sandbox_names t)(sandbox_name record \<mapsto> sb_ID record)"
    using sandboxes_Put [OF p1 valid] sandbox_names_Put [OF p2] by simp_all
  have "index_ok (sandboxes t') (sandbox_names t') sandbox_name"
    unfolding recs names
    by (rule index_ok_insert [OF sandbox_invD(4) [OF inv] free valid_name_nonempty [OF valid(1)]])
  moreover have "\<exists>r. decode_sandbox p = Inr r \<and> sb_ID r = j" if "lookup t' CollectionSandboxes j = Some p" for j p
    using that inv decode_encode_sandbox [OF valid]
    by (auto simp: lookup_Put [OF p1] lookup_Put [OF p2] sandbox_inv_def split: if_splits)
  moreover have "\<exists>d. p = P_name d" if "lookup t' CollectionNames n = Some p" for n p
    using that inv by (auto simp: lookup_Put [OF p1] lookup_Put [OF p2] sandbox_inv_def split: if_splits)
  moreover have "tx_ok t'" using tx_ok_Put [OF tx_ok_Put [OF sandbox_invD(1) [OF inv] p1] p2] .
  ultimately have "sandbox_inv t'"
    using inv unfolding sandbox_inv_def by (simp add: declared_Put [OF p1] declared_Put [OF p2])
  moreover have "record_step (sandboxes t i) (sandboxes t' i)" for i
    using free fresh by (cases "sandboxes t i") (auto simp: recs record_step_def)
  moreover have "imaged images t t'"
    unfolding imaged_def
  proof (intro allI impI)
    fix i r assume a: "sandboxes t i = None \<and> sandboxes t' i = Some r"
    then have "r = record" by (auto simp: recs split: if_splits)
    then have "images ctx t ref = Inr im \<and> img_ManifestDigest im = sb_ImageDigest r" using im digest by simp
    then show "\<exists>ctx ref im. images ctx t ref = Inr im \<and> img_ManifestDigest im = sb_ImageDigest r" by blast
  qed
  ultimately show "sandbox_inv t' \<and> (\<forall>i. record_step (sandboxes t i) (sandboxes t' i))
     \<and> (\<forall>c k. c \<notin> {CollectionSandboxes, CollectionNames} \<longrightarrow> lookup t' c k = lookup t c k)
     \<and> (\<forall>c. declared t' c = declared t c) \<and> imaged images t t'"
    using lookup_Put [OF p1] lookup_Put [OF p2] declared_Put [OF p1] declared_Put [OF p2] by simp
qed

lemma remove_Inr:
  assumes "remove_sandbox_tx ctx i expected st m t = Inr (x, t')"
  shows "\<exists>r t1. ctx = None \<and> sandboxes t i = Some r \<and> sb_ID r = i \<and> sb_Generation r = expected \<and> sb_State r = st
    \<and> sandbox_names t (sandbox_name r) = Some i
    \<and> Delete ctx t CollectionNames (sandbox_name r) = Inr t1 \<and> Delete ctx t1 CollectionSandboxes i = Inr t'"
proof -
  from assms obtain r where r: "load_sandbox ctx t i = Inr r" and g: "sb_Generation r = expected" "sb_State r = st"
    and d: "delete_sandbox_record ctx t r = Inr t'"
    by (auto simp: remove_sandbox_tx_def bindE_Inr_iff split: if_splits)
  from load_sandbox_Inr [OF r] have "ctx = None" "sandboxes t i = Some r" "sb_ID r = i" by auto
  with g d show ?thesis
    by (auto simp: delete_sandbox_record_def bindE_Inr_iff Get_Inr sandbox_names_def split: option.splits if_splits)
qed

lemma remove_good:
  assumes "st = SandboxStateCreating \<or> st = SandboxStateDeleting"
  shows "tx_good images (remove_sandbox_tx ctx i expected st m)"
  unfolding tx_good_def
proof (intro allI impI)
  fix t x t' assume inv: "sandbox_inv t" and run: "remove_sandbox_tx ctx i expected st m t = Inr (x, t')"
  from remove_Inr [OF run] obtain r t1 where r: "sandboxes t i = Some r" "sb_State r = st"
    and d1: "Delete ctx t CollectionNames (sandbox_name r) = Inr t1" and d2: "Delete ctx t1 CollectionSandboxes i = Inr t'"
    by blast
  have ne: "sandbox_name r \<noteq> []" using sandboxes_Some(1) [OF inv r(1)] by (rule valid_name_nonempty)
  have recs: "sandboxes t' = (sandboxes t)(i := None)"
    and names: "sandbox_names t' = (sandbox_names t)(sandbox_name r := None)"
    by (rule ext, simp add: sandboxes_def sandbox_names_def lookup_Delete [OF d1] lookup_Delete [OF d2])+
  have "index_ok (sandboxes t') (sandbox_names t') sandbox_name"
    unfolding recs names using index_ok_delete [OF sandbox_invD(4) [OF inv] r(1)] ne by simp
  moreover have "\<exists>r. decode_sandbox p = Inr r \<and> sb_ID r = j" if "lookup t' CollectionSandboxes j = Some p" for j p
    using that inv by (auto simp: lookup_Delete [OF d1] lookup_Delete [OF d2] sandbox_inv_def split: if_splits)
  moreover have "\<exists>d. p = P_name d" if "lookup t' CollectionNames n = Some p" for n p
    using that inv by (auto simp: lookup_Delete [OF d1] lookup_Delete [OF d2] sandbox_inv_def split: if_splits)
  moreover have "tx_ok t'" using tx_ok_Delete [OF tx_ok_Delete [OF sandbox_invD(1) [OF inv] d1] d2] .
  ultimately have "sandbox_inv t'"
    using inv unfolding sandbox_inv_def by (simp add: declared_Delete [OF d1] declared_Delete [OF d2])
  moreover have "record_step (sandboxes t j) (sandboxes t' j)" for j
    using r assms by (cases "sandboxes t j") (auto simp: recs record_step_def)
  moreover have "imaged images t t'" by (auto simp: imaged_def recs)
  ultimately show "sandbox_inv t' \<and> (\<forall>i. record_step (sandboxes t i) (sandboxes t' i))
     \<and> (\<forall>c k. c \<notin> {CollectionSandboxes, CollectionNames} \<longrightarrow> lookup t' c k = lookup t c k)
     \<and> (\<forall>c. declared t' c = declared t c) \<and> imaged images t t'"
    using lookup_Delete [OF d1] lookup_Delete [OF d2] declared_Delete [OF d1] declared_Delete [OF d2] by simp
qed

section \<open>Operations on the store\<close>

text \<open>Any outcome of any operation, from any caller.\<close>

inductive sandbox_step :: "ImageReader \<Rightarrow> store \<Rightarrow> store \<Rightarrow> bool" for images :: ImageReader where
  step_Reserve: "sandbox_Reserve images ctx s ref expected record = (res, s') \<Longrightarrow> wf_digest expected \<Longrightarrow> sandbox_step images s s'"
| step_MarkCreated: "sandbox_MarkCreated ctx s i expected nsetup updated = (res', s') \<Longrightarrow> sandbox_step images s s'"
| step_MarkError: "sandbox_MarkError ctx s i expected failure updated = (res', s') \<Longrightarrow> sandbox_step images s s'"
| step_BeginStart: "sandbox_BeginStart ctx s i expected updated = (res', s') \<Longrightarrow> sandbox_step images s s'"
| step_MarkRunning: "sandbox_MarkRunning ctx s i expected updated = (res', s') \<Longrightarrow> sandbox_step images s s'"
| step_UpdateNetwork: "sandbox_UpdateNetwork ctx s i expected nsetup networkName updated = (res', s') \<Longrightarrow> sandbox_step images s s'"
| step_MarkStartError: "sandbox_MarkStartError ctx s i expected failure updated = (res', s') \<Longrightarrow> sandbox_step images s s'"
| step_BeginStop: "sandbox_BeginStop ctx s i expected updated = (res', s') \<Longrightarrow> sandbox_step images s s'"
| step_MarkStopped: "sandbox_MarkStopped ctx s i expected from updated = (res', s') \<Longrightarrow> sandbox_step images s s'"
| step_BeginDelete: "sandbox_BeginDelete ctx s i expected updated = (res', s') \<Longrightarrow> sandbox_step images s s'"
| step_FinalizeDelete: "sandbox_FinalizeDelete ctx s i expected = (res, s') \<Longrightarrow> sandbox_step images s s'"
| step_Forget: "sandbox_Forget ctx s i expected = (res, s') \<Longrightarrow> sandbox_step images s s'"

text \<open>An operation is either refused before its transaction, leaving the store, or it is the
  transaction of a good body.\<close>

lemma sandbox_step_cases:
  assumes "sandbox_step images s s'"
  shows "s' = s \<or> (\<exists>(fn :: tx \<Rightarrow> gerr + (Sandbox \<times> tx)) ctx info res. tx_good images fn \<and> update_with ctx s info fn = (res, s'))
    \<or> (\<exists>(fn :: tx \<Rightarrow> gerr + (unit \<times> tx)) ctx info res. tx_good images fn \<and> update_with ctx s info fn = (res, s'))"
  using assms
proof cases
  case (step_Reserve ctx ref expected rc res)
  then show ?thesis
    using reserve_good [of rc expected images ctx ref]
    by (auto simp: sandbox_Reserve_def split: option.splits if_splits)
next
  case (step_MarkCreated ctx i expected nsetup updated res)
  then show ?thesis
    using created.modify_good [of images ctx i expected nsetup updated]
    by (auto simp: sandbox_MarkCreated_def lifecycle_edges_def split: option.splits)
next
  case (step_MarkError ctx i expected failure updated res)
  then show ?thesis
    using trans.modify_good [of SandboxStateCreating SandboxStateError images ctx i expected "Some failure" updated]
    by (auto simp: sandbox_MarkError_def sandbox_transition_def lifecycle_edges_def split: if_splits)
next
  case (step_BeginStart ctx i expected updated res)
  then show ?thesis
    using start.modify_good [of images ctx i expected updated] by (auto simp: sandbox_BeginStart_def lifecycle_edges_def)
next
  case (step_MarkRunning ctx i expected updated res)
  then show ?thesis
    using trans.modify_good [of SandboxStateStarting SandboxStateRunning images ctx i expected None updated]
    by (auto simp: sandbox_MarkRunning_def sandbox_transition_def lifecycle_edges_def)
next
  case (step_UpdateNetwork ctx i expected nsetup networkName updated res)
  then show ?thesis
    using network.modify_good [of images ctx i expected nsetup networkName updated]
    by (auto simp: sandbox_UpdateNetwork_def split: option.splits)
next
  case (step_MarkStartError ctx i expected failure updated res)
  then show ?thesis
    using trans.modify_good [of SandboxStateStarting SandboxStateError images ctx i expected "Some failure" updated]
    by (auto simp: sandbox_MarkStartError_def sandbox_transition_def lifecycle_edges_def split: if_splits)
next
  case (step_BeginStop ctx i expected updated res)
  then show ?thesis
    using stop.modify_good [of images ctx i expected updated] by (auto simp: sandbox_BeginStop_def lifecycle_edges_def)
next
  case (step_MarkStopped ctx i expected st updated res)
  then show ?thesis
    using trans.modify_good [of st SandboxStateStopped images ctx i expected None updated]
    by (auto simp: sandbox_MarkStopped_def sandbox_transition_def lifecycle_edges_def split: if_splits)
next
  case (step_BeginDelete ctx i expected updated res)
  then show ?thesis
    using deleting.modify_good [of images ctx i expected updated] by (auto simp: sandbox_BeginDelete_def lifecycle_edges_def)
next
  case (step_FinalizeDelete ctx i expected res)
  then show ?thesis using remove_good by (auto simp: sandbox_FinalizeDelete_def)
next
  case (step_Forget ctx i expected res)
  then show ?thesis using remove_good by (auto simp: sandbox_Forget_def)
qed

lemma update_with_good:
  assumes "tx_good images fn" and "update_with ctx s info fn = (res, s')" and "sandbox_inv (mem_records s)"
  shows "sandbox_inv (mem_records s') \<and> (\<forall>i. record_step (sandboxes (mem_records s) i) (sandboxes (mem_records s') i))
     \<and> (\<forall>c k. c \<notin> {CollectionSandboxes, CollectionNames} \<longrightarrow> lookup (mem_records s') c k = lookup (mem_records s) c k)
     \<and> (\<forall>c. declared (mem_records s') c = declared (mem_records s) c) \<and> imaged images (mem_records s) (mem_records s')"
  using assms(2)
proof (cases rule: update_with_cases)
  case (failed e)
  have "record_step x x" for x by (cases x) (simp_all add: record_step_def)
  with failed assms(3) show ?thesis by (auto simp: imaged_def)
next
  case (committed x t)
  with assms(1,3) show ?thesis unfolding tx_good_def by fastforce
qed

lemma record_step_refl: "record_step x x"
  by (cases x) (simp_all add: record_step_def)

lemma sandbox_step_good:
  assumes step: "sandbox_step images s s'" and inv: "sandbox_inv (mem_records s)"
  shows "sandbox_inv (mem_records s') \<and> (\<forall>i. record_step (sandboxes (mem_records s) i) (sandboxes (mem_records s') i))
     \<and> (\<forall>c k. c \<notin> {CollectionSandboxes, CollectionNames} \<longrightarrow> lookup (mem_records s') c k = lookup (mem_records s) c k)
     \<and> (\<forall>c. declared (mem_records s') c = declared (mem_records s) c) \<and> imaged images (mem_records s) (mem_records s')"
  using sandbox_step_cases [OF step]
proof (elim disjE exE conjE)
  assume "s' = s"
  then show ?thesis using inv record_step_refl by (auto simp: imaged_def)
next
  fix fn :: "tx \<Rightarrow> gerr + (Sandbox \<times> tx)" and ctx info res
  assume "tx_good images fn" "update_with ctx s info fn = (res, s')"
  from update_with_good [OF this inv] show ?thesis .
next
  fix fn :: "tx \<Rightarrow> gerr + (unit \<times> tx)" and ctx info res
  assume "tx_good images fn" "update_with ctx s info fn = (res, s')"
  from update_with_good [OF this inv] show ?thesis .
qed

section \<open>Queries\<close>

lemma resolve_sandbox_inv:
  assumes inv: "sandbox_inv t"
  shows "resolve_sandbox None t ref = (case sandbox_names t ref of
      Some i \<Rightarrow> Inr (the (sandboxes t i))
    | None \<Rightarrow> (case sandboxes t ref of
        Some r \<Rightarrow> Inr r | None \<Rightarrow> Inl (New 0 ClassNotFound CodeNotFound (Some (Msg ''sandbox not found'')))))"
proof (cases "lookup t CollectionNames ref")
  case None
  then have "sandbox_names t ref = None" by (simp add: sandbox_names_def)
  moreover have "valid_id ref" if "sandboxes t ref = Some r" for r
    using sandboxes_Some [OF inv that] Sandbox_Validate_NoneD(1) by metis
  ultimately show ?thesis
    using None sandbox_invD(3) [OF inv]
    by (cases "valid_id ref"; cases "sandboxes t ref")
      (auto simp: resolve_sandbox_def ParseSandboxID_valid load_sandbox_inv [OF inv]
        split: sum.splits dest: ParseSandboxID_Inr [THEN iffD1])
next
  case (Some p)
  then obtain d where d: "p = P_name d" using inv unfolding sandbox_inv_def by blast
  then have n: "sandbox_names t ref = Some (name_ID d)" using Some by (simp add: sandbox_names_def)
  then obtain r where r: "sandboxes t (name_ID d) = Some r"
    using index_ok_nameE [OF sandbox_invD(4) [OF inv] n] by blast
  have "valid_id (name_ID d)" using sandboxes_Some [OF inv r] Sandbox_Validate_NoneD(1) by metis
  then show ?thesis
    using Some d n r sandbox_invD(3) [OF inv]
    by (simp add: resolve_sandbox_def ParseSandboxID_valid load_sandbox_inv [OF inv])
qed

lemma distinct_map_sort: "distinct (map f (sort_key g xs)) \<longleftrightarrow> distinct (map f xs)"
  by (simp add: distinct_map)

lemma list_visit_collect:
  "list_visit i raw result = bindE (bindE (decode_sandbox raw) (\<lambda>record.
     if sb_ID record \<noteq> i then Inl (corrupt_sandbox ''sandbox ID'' (Msg ''record key differs from stored ID''))
     else Inr [record])) (\<lambda>ys. Inr (result @ ys))"
  by (cases "decode_sandbox raw") (simp_all add: list_visit_def)

lemma concat_singletons: "concat (map (\<lambda>x. [f x]) xs) = map f xs"
  by (induction xs) simp_all

lemma Scan_list:
  assumes inv: "sandbox_inv t"
  shows "Scan None t CollectionSandboxes list_visit [] = Inr (map (\<lambda>(i, _). the (sandboxes t i)) (entries t CollectionSandboxes))"
proof -
  let ?g = "\<lambda>i raw. bindE (decode_sandbox raw) (\<lambda>record.
     if sb_ID record \<noteq> i then Inl (corrupt_sandbox ''sandbox ID'' (Msg ''record key differs from stored ID''))
     else Inr [record])"
  have item: "?g i p = Inr [the (sandboxes t i)]" if "(i, p) \<in> set (entries t CollectionSandboxes)" for i p
  proof -
    have p: "lookup t CollectionSandboxes i = Some p"
      using that entries_lookup [OF sandbox_invD(1,2) [OF inv]] by simp
    then obtain r where "decode_sandbox p = Inr r" "sb_ID r = i" using inv unfolding sandbox_inv_def by blast
    then show ?thesis using p by (simp add: sandboxes_def)
  qed
  have "mapE (\<lambda>(i, p). ?g i p) (entries t CollectionSandboxes)
      = Inr (map (\<lambda>(i, p). [the (sandboxes t i)]) (entries t CollectionSandboxes))"
    by (rule mapE_map_Inr) (use item in auto)
  then show ?thesis
    using scan_loop_collect [of list_visit ?g, OF list_visit_collect, of "entries t CollectionSandboxes" "[]"]
    by (simp add: Scan_live [OF sandbox_invD(2) [OF inv]] case_prod_unfold concat_singletons)
qed

lemma sandboxes_dom: "sandbox_inv t \<Longrightarrow> (\<exists>p. lookup t CollectionSandboxes i = Some p) \<longleftrightarrow> i \<in> dom (sandboxes t)"
proof (cases "lookup t CollectionSandboxes i")
  case (Some p)
  assume "sandbox_inv t"
  with Some obtain r where "decode_sandbox p = Inr r" unfolding sandbox_inv_def by blast
  with Some show ?thesis by (simp add: sandboxes_def dom_def)
qed (simp add: sandboxes_def dom_def)

lemma entries_keys_dom:
  assumes inv: "sandbox_inv t"
  shows "fst ` set (entries t CollectionSandboxes) = dom (sandboxes t)"
proof -
  have "i \<in> fst ` S \<longleftrightarrow> (\<exists>p. (i, p) \<in> S)" for i and S :: "(string \<times> payload) set" by force
  then have "i \<in> fst ` set (entries t CollectionSandboxes) \<longleftrightarrow> (\<exists>p. lookup t CollectionSandboxes i = Some p)" for i
    by (simp only: entries_lookup [OF sandbox_invD(1,2) [OF inv]])
  then show ?thesis using sandboxes_dom [OF inv] by blast
qed

lemma scan_loop_total:
  "(\<And>k v s. (k, v) \<in> set kvs \<Longrightarrow> \<exists>s'. fn k v s = Inr s') \<Longrightarrow> \<exists>s'. scan_loop fn kvs s = Inr s'"
proof (induction kvs arbitrary: s)
  case (Cons kv kvs)
  obtain k v where kv: "kv = (k, v)" by (cases kv)
  obtain s1 where "fn k v s = Inr s1" using Cons.prems [of k v s] kv by auto
  moreover have "\<exists>s'. scan_loop fn kvs s1 = Inr s'" using Cons by auto
  ultimately show ?case using kv by simp
qed simp

lemma sandbox_InUse_correct:
  assumes inv: "sandbox_inv t"
  shows "sandbox_InUse None t digest = Inr (\<exists>r \<in> ran (sandboxes t). sb_ImageDigest r = digest)"
proof -
  let ?fn = "\<lambda>(_::string) raw used. bindE (decode_sandbox raw) (\<lambda>record. Inr (used \<or> sb_ImageDigest record = digest))"
  let ?es = "entries t CollectionSandboxes"
  have es: "(i, p) \<in> set ?es \<longleftrightarrow> lookup t CollectionSandboxes i = Some p" for i p
    by (rule entries_lookup [OF sandbox_invD(1,2) [OF inv]])
  have dec: "\<exists>r. decode_sandbox p = Inr r" if "(i, p) \<in> set ?es" for i p
    using that es inv unfolding sandbox_inv_def by blast
  have "\<exists>b. scan_loop ?fn ?es False = Inr b"
    by (rule scan_loop_total) (use dec in fastforce)
  then obtain b where b: "scan_loop ?fn ?es False = Inr b" by blast
  have "b \<longleftrightarrow> False \<or> (\<exists>(k, v) \<in> set ?es. \<exists>y. decode_sandbox v = Inr y \<and> sb_ImageDigest y = digest)"
    by (rule scan_loop_flag [where g = "\<lambda>_. decode_sandbox" and P = "\<lambda>_ y. sb_ImageDigest y = digest", OF _ b]) simp
  also have "\<dots> \<longleftrightarrow> (\<exists>r \<in> ran (sandboxes t). sb_ImageDigest r = digest)"
  proof -
    have "(\<exists>i v. lookup t CollectionSandboxes i = Some v \<and> decode_sandbox v = Inr y) \<longleftrightarrow> y \<in> ran (sandboxes t)" for y
      by (auto simp: ran_def sandboxes_def split: option.splits sum.splits) (metis sum.exhaust)
    moreover have "(\<exists>(k, v) \<in> set ?es. \<exists>y. decode_sandbox v = Inr y \<and> sb_ImageDigest y = digest) \<longleftrightarrow>
        (\<exists>y. (\<exists>i v. lookup t CollectionSandboxes i = Some v \<and> decode_sandbox v = Inr y) \<and> sb_ImageDigest y = digest)"
      by (simp add: Bex_def split_paired_Ex es) blast
    ultimately show ?thesis by auto
  qed
  finally show ?thesis
    using b by (simp add: sandbox_InUse_def Scan_live [OF sandbox_invD(2) [OF inv]])
qed

section \<open>Properties\<close>

lemma sandbox_inv_new:
  assumes "NewMemory cs = Inr s" and "CollectionSandboxes \<in> set cs" and "CollectionNames \<in> set cs"
  shows "sandbox_inv (mem_records s)"
  using assms(2,3) by (simp add: sandbox_inv_def sandboxes_def sandbox_names_def index_ok_def NewMemory_empty [OF assms(1)])

text \<open>
  C20. From a new store, whatever sequence of catalog operations runs, with whatever arguments,
  stale generations, cancelled contexts and failures included, every stored sandbox is valid and
  stored under its own identity, and names and records are in bijection.
\<close>

theorem sandbox_catalog_invariant:
  assumes "NewMemory cs = Inr s0" and "CollectionSandboxes \<in> set cs" and "CollectionNames \<in> set cs"
    and "(sandbox_step images)\<^sup>*\<^sup>* s0 s"
  shows "sandbox_inv (mem_records s)"
  using assms(4)
proof induction
  case base
  show ?case by (rule sandbox_inv_new [OF assms(1-3)])
next
  case (step s s')
  then show ?case using sandbox_step_good [OF step(2)] by blast
qed

text \<open>
  C21. Every operation moves each sandbox record along the lifecycle only: a record appears in
  \<open>Creating\<close> with generation one, disappears only from \<open>Creating\<close> or \<open>Deleting\<close>, and otherwise
  either is unchanged, follows a lifecycle edge with its generation advanced by exactly one
  without wrap-around, or is a running sandbox whose network changed under the same generation; its
  identity, name, image, backend and creation time never change. Other collections are untouched.
\<close>

theorem sandbox_step_lifecycle:
  assumes "sandbox_inv (mem_records s)" and "sandbox_step images s s'"
  shows "record_step (sandboxes (mem_records s) i) (sandboxes (mem_records s') i)
    \<and> (c \<notin> {CollectionSandboxes, CollectionNames} \<longrightarrow> lookup (mem_records s') c k = lookup (mem_records s) c k)"
  using sandbox_step_good [OF assms(2,1)] by blast

text \<open>
  C22. Stale callers are fenced: when the stored generation is not the expected one, every
  transition and removal of a live catalog reports a state conflict and changes nothing. The arguments that an
  operation checks before it looks at the record are taken to pass: the source state of \<open>MarkStopped\<close> is one that can
  stop, a failure has its phase and message, and a network setup is valid.
\<close>

theorem sandbox_stale_generation_refused:
  assumes "sandbox_inv (mem_records s)" and "\<not> mem_closed s" and "sandboxes (mem_records s) i = Some r"
    and "sb_Generation r \<noteq> g"
  shows "(\<exists>e. sandbox_BeginStart None s i g u = (Inl e, s) \<and> CodeOf e = Some CodeStateConflict)
    \<and> (\<exists>e. sandbox_MarkRunning None s i g u = (Inl e, s) \<and> CodeOf e = Some CodeStateConflict)
    \<and> (\<exists>e. sandbox_BeginStop None s i g u = (Inl e, s) \<and> CodeOf e = Some CodeStateConflict)
    \<and> (\<exists>e. sandbox_BeginDelete None s i g u = (Inl e, s) \<and> CodeOf e = Some CodeStateConflict)
    \<and> (\<exists>e. sandbox_FinalizeDelete None s i g = (Inl e, s) \<and> CodeOf e = Some CodeStateConflict)
    \<and> (\<exists>e. sandbox_Forget None s i g = (Inl e, s) \<and> CodeOf e = Some CodeStateConflict)
    \<and> (st \<in> {SandboxStateStarting, SandboxStateRunning, SandboxStateStopping} \<longrightarrow>
        (\<exists>e. sandbox_MarkStopped None s i g st u = (Inl e, s) \<and> CodeOf e = Some CodeStateConflict))
    \<and> (fail_Phase f \<noteq> [] \<and> fail_Message f \<noteq> [] \<longrightarrow>
        (\<exists>e. sandbox_MarkError None s i g f u = (Inl e, s) \<and> CodeOf e = Some CodeStateConflict)
        \<and> (\<exists>e. sandbox_MarkStartError None s i g f u = (Inl e, s) \<and> CodeOf e = Some CodeStateConflict))
    \<and> (NetworkSetup_Validate nsetup = None \<longrightarrow>
        (\<exists>e. sandbox_UpdateNetwork None s i g nsetup n u = (Inl e, s) \<and> CodeOf e = Some CodeStateConflict)
        \<and> (\<exists>e. sandbox_MarkCreated None s i g nsetup u = (Inl e, s) \<and> CodeOf e = Some CodeStateConflict))"
proof -
  note inv = assms(1) and live = assms(2) and r = assms(3) and g = assms(4)
  have rm: "\<exists>e. update_with None s info (remove_sandbox_tx None i g st' m) = (Inl e, s) \<and> CodeOf e = Some CodeStateConflict"
    for info st' m
    using r g live ctxE_conflict
    by (simp add: update_with_def Update_live remove_sandbox_tx_def load_sandbox_inv [OF inv])
  note defs = sandbox_BeginStart_def sandbox_MarkRunning_def sandbox_transition_def sandbox_BeginStop_def
    sandbox_BeginDelete_def sandbox_FinalizeDelete_def sandbox_Forget_def sandbox_MarkStopped_def
    sandbox_UpdateNetwork_def sandbox_MarkCreated_def sandbox_MarkError_def sandbox_MarkStartError_def
  show ?thesis
    using start.update_stale [OF inv r g live] trans.update_stale [OF inv r g live] stop.update_stale [OF inv r g live]
      deleting.update_stale [OF inv r g live] network.update_stale [OF inv r g live]
      created.update_stale [OF inv r g live] rm
    by (simp add: defs)
qed

text \<open>
   \<open>BeginStart\<close> and \<open>BeginStop\<close> refine the abstract transitions on the map of records: on a
  live catalog they succeed exactly for the expected generation of a sandbox in a permitted state
  whose successor is valid, returning that successor, and a repeated call resumes the same generation.
\<close>

theorem sandbox_begin_refines:
  assumes "sandbox_inv (mem_records s)" and "\<not> mem_closed s"
  shows "((\<exists>s'. sandbox_BeginStart None s i g u = (Inr r', s')) \<longleftrightarrow>
      (\<exists>r. sandboxes (mem_records s) i = Some r \<and> sb_Generation r = g
        \<and> (sb_State r = SandboxStateStarting \<and> r' = r
           \<or> sb_State r \<in> {SandboxStateCreated, SandboxStateStopped, SandboxStateError}
             \<and> r' = advance r SandboxStateStarting None u \<and> Sandbox_Validate r' = None)))
    \<and> ((\<exists>s'. sandbox_BeginStop None s i g u = (Inr r', s')) \<longleftrightarrow>
      (\<exists>r. sandboxes (mem_records s) i = Some r \<and> sb_Generation r = g
        \<and> (sb_State r = SandboxStateStopping \<and> r' = r
           \<or> sb_State r = SandboxStateRunning
             \<and> r' = advance r SandboxStateStopping None u \<and> Sandbox_Validate r' = None)))"
proof -
  have "start_body g u r = Inr None \<and> r' = r \<or> start_body g u r = Inr (Some r') \<longleftrightarrow>
      sb_Generation r = g \<and> (sb_State r = SandboxStateStarting \<and> r' = r
           \<or> sb_State r \<in> {SandboxStateCreated, SandboxStateStopped, SandboxStateError}
             \<and> r' = advance r SandboxStateStarting None u \<and> Sandbox_Validate r' = None)" for r
    by (auto simp: start_body_def commit_record_Inr)
  moreover have "stop_body g u r = Inr None \<and> r' = r \<or> stop_body g u r = Inr (Some r') \<longleftrightarrow>
      sb_Generation r = g \<and> (sb_State r = SandboxStateStopping \<and> r' = r
           \<or> sb_State r = SandboxStateRunning
             \<and> r' = advance r SandboxStateStopping None u \<and> Sandbox_Validate r' = None)" for r
    by (auto simp: stop_body_def commit_record_Inr)
  ultimately show ?thesis
    unfolding sandbox_BeginStart_def sandbox_BeginStop_def start.update_refines [OF assms] stop.update_refines [OF assms]
    by presburger
qed

text \<open>
   \<open>Resolve\<close> finds every sandbox by its name; by its identity it returns that sandbox exactly when
  no sandbox carries the identity as a name (a name takes precedence); anything else is reported
  as not found.
\<close>

theorem sandbox_Resolve_correct:
  assumes "sandbox_inv (mem_records s)" and "\<not> mem_closed s"
  shows "(sandboxes (mem_records s) i = Some r \<longrightarrow> sandbox_Resolve None s (sandbox_name r) = Inr r)
    \<and> (sandboxes (mem_records s) i = Some r \<and> sandbox_names (mem_records s) i = None \<longrightarrow> sandbox_Resolve None s i = Inr r)
    \<and> (sandboxes (mem_records s) ref = None \<and> sandbox_names (mem_records s) ref = None \<longrightarrow>
         (\<exists>e. sandbox_Resolve None s ref = Inl e \<and> CodeOf e = Some CodeNotFound))"
proof -
  have "sandbox_Resolve None s (sandbox_name r) = Inr r" if r: "sandboxes (mem_records s) i = Some r"
  proof -
    have "sandbox_names (mem_records s) (sandbox_name r) = Some i"
      using index_ok_rec [OF sandbox_invD(4) [OF assms(1)] r] valid_name_nonempty sandboxes_Some(1) [OF assms(1) r] by blast
    then show ?thesis
      using r by (simp add: sandbox_Resolve_def View_live [OF assms(2)] resolve_sandbox_inv [OF assms(1)])
  qed
  moreover have "\<exists>e. sandbox_Resolve None s ref = Inl e \<and> CodeOf e = Some CodeNotFound"
    if "sandboxes (mem_records s) ref = None" "sandbox_names (mem_records s) ref = None"
    using that by (simp add: sandbox_Resolve_def View_live [OF assms(2)] resolve_sandbox_inv [OF assms(1)]
        ctxE_def WithContext_def New_def CodeOf_def)
  ultimately show ?thesis
    by (simp add: sandbox_Resolve_def View_live [OF assms(2)] resolve_sandbox_inv [OF assms(1)])
qed

text \<open>
   \<open>List\<close> on a live catalog returns every sandbox exactly once, newest first with the identity as
  tie-breaker, and \<open>InUse\<close> answers whether some sandbox pins the digest.
\<close>

theorem sandbox_List_correct:
  assumes "sandbox_inv (mem_records s)" and "\<not> mem_closed s"
  shows "\<exists>rs. sandbox_List None s = Inr rs \<and> set rs = ran (sandboxes (mem_records s)) \<and> distinct (map sb_ID rs)
    \<and> sorted (map (\<lambda>r. (- sb_CreatedAt r, sb_ID r)) rs)
    \<and> sandbox_InUse None (mem_records s) digest = Inr (\<exists>r \<in> ran (sandboxes (mem_records s)). sb_ImageDigest r = digest)"
proof -
  let ?t = "mem_records s"
  let ?items = "map (\<lambda>(i, _). the (sandboxes ?t i)) (entries ?t CollectionSandboxes)"
  have dom: "fst ` set (entries ?t CollectionSandboxes) = dom (sandboxes ?t)" by (rule entries_keys_dom [OF assms(1)])
  have items: "set ?items = ran (sandboxes ?t)"
  proof -
    have "set ?items = (\<lambda>i. the (sandboxes ?t i)) ` fst ` set (entries ?t CollectionSandboxes)" by force
    also have "\<dots> = ran (sandboxes ?t)" unfolding dom by (force simp: ran_def dom_def)
    finally show ?thesis .
  qed
  have ids: "map sb_ID ?items = map fst (entries ?t CollectionSandboxes)"
  proof -
    have "sb_ID (the (sandboxes ?t i)) = i" if "(i, p) \<in> set (entries ?t CollectionSandboxes)" for i p
    proof -
      have "i \<in> dom (sandboxes ?t)" using that dom by force
      then show ?thesis using sandboxes_Some(3) [OF assms(1)] by force
    qed
    then show ?thesis by auto
  qed
  have "sandbox_List None s = Inr (sort_key (\<lambda>r. (- sb_CreatedAt r, sb_ID r)) ?items)"
    by (simp add: sandbox_List_def View_live [OF assms(2)] Scan_list [OF assms(1)])
  moreover have "distinct (map sb_ID (sort_key (\<lambda>r. (- sb_CreatedAt r, sb_ID r)) ?items))"
  proof -
    have "distinct (map sb_ID ?items)"
      unfolding ids using entries_sorted [OF sandbox_invD(1,2) [OF assms(1)]] by simp
    then show ?thesis by (simp only: distinct_map_sort)
  qed
  moreover have "sorted (map (\<lambda>r. (- sb_CreatedAt r, sb_ID r)) (sort_key (\<lambda>r. (- sb_CreatedAt r, sb_ID r)) ?items))"
    by (rule sorted_sort_key)
  moreover have "set (sort_key (\<lambda>r. (- sb_CreatedAt r, sb_ID r)) ?items) = ran (sandboxes ?t)"
    unfolding set_sort by (rule items)
  ultimately show ?thesis using sandbox_InUse_correct [OF assms(1)] by blast
qed

subsection \<open>A concrete catalog\<close>

definition sample_tx :: tx where
  "sample_tx = [(''sandboxes'', [(sample_id, P_sandbox (encode_sandbox sample_sandbox))]),
     (''sandbox_names'', [(''box'', P_name \<lparr>name_ID = sample_id\<rparr>)])]"

definition sample_store :: store where
  "sample_store = \<lparr>mem_records = sample_tx, mem_closed = False\<rparr>"

lemma sample_wf: "wf_digest (sb_ImageDigest sample_sandbox)"
  by (simp add: wf_digest_def sample_sandbox_def sample_digest_def)

lemma sample_records:
  "sandboxes sample_tx = [sample_id \<mapsto> sample_sandbox]" "sandbox_names sample_tx = [''box'' \<mapsto> sample_id]"
  using decode_encode_sandbox [OF sample_sandbox_valid sample_wf]
  by (auto simp: sandboxes_def sandbox_names_def lookup_def sample_tx_def fun_eq_iff)

lemma sample_ids: "sb_ID sample_sandbox = sample_id" "sandbox_name sample_sandbox = ''box''"
  by (simp_all add: sample_sandbox_def sample_config_def)

lemma sample_inv: "sandbox_inv (mem_records sample_store)"
proof -
  have "index_ok (sandboxes sample_tx) (sandbox_names sample_tx) sandbox_name"
    unfolding sample_records by (simp add: index_ok_def sample_ids)
  moreover have "tx_ok sample_tx" "declared sample_tx CollectionSandboxes" "declared sample_tx CollectionNames"
    by (simp_all add: tx_ok_def keys_ok_def declared_def sample_tx_def)
  ultimately show ?thesis
    using decode_encode_sandbox [OF sample_sandbox_valid sample_wf] sample_ids(1)
    by (auto simp: sandbox_inv_def sample_store_def lookup_def sample_tx_def split: if_splits)
qed

lemma sample_live: "\<not> mem_closed sample_store"
  by (simp add: sample_store_def)

lemma sample_stored: "sandboxes (mem_records sample_store) sample_id = Some sample_sandbox"
  by (simp add: sample_store_def sample_records)

text \<open>A run of three operations: the sample sandbox is reserved in a new store, a stale caller is refused, and the sandbox
  is marked for deletion.\<close>

definition sample_reader :: ImageReader where
  "sample_reader ctx t ref = Inr \<lparr>img_Names = [ref], img_RegistryReference = [], img_ManifestDigest = sample_digest,
     img_Platform = \<lparr>plat_OS = ''linux'', plat_Architecture = ''amd64''\<rparr>, img_Layers = [sample_layer], img_Boot = sample_boot,
     img_Size = 4096, img_CreatedAt = 5\<rparr>"

definition sample_fresh :: store where
  "sample_fresh = \<lparr>mem_records = [(CollectionSandboxes, []), (CollectionNames, [])], mem_closed = False\<rparr>"

definition sample_marked :: store where
  "sample_marked = snd (sandbox_BeginDelete None sample_store sample_id 1 20)"

lemma sample_Reserve: "sandbox_Reserve sample_reader None sample_fresh ''base'' sample_digest sample_sandbox = (Inr (), sample_store)"
proof -
  have "sb_State sample_sandbox = SandboxStateCreating" "sb_Generation sample_sandbox = 1" "sb_ImageDigest sample_sandbox = sample_digest"
    by (simp_all add: sample_sandbox_def)
  then show ?thesis
    using sample_sandbox_valid sample_ids
    by (simp add: sandbox_Reserve_def update_with_def Update_def Memory_snapshot_def reserve_sandbox_tx_def sample_reader_def sample_fresh_def sample_store_def sample_tx_def
        Get_def Put_def putJSON_def tx_collection_def ctxE_def)
qed

lemma sample_marked_stored:
  "sandboxes (mem_records sample_marked) sample_id = Some (advance sample_sandbox SandboxStateDeleting None 20)"
proof -
  have "Sandbox_Validate (advance sample_sandbox SandboxStateDeleting None 20) = None" using sample_sandbox_valid
    by (simp add: sample_sandbox_def advance_def Sandbox_Validate_def network_owner_check_def sample_config_def NetworkSetup_zero_def valid_states_def)
  then have b: "delete_body 1 20 sample_sandbox = Inr (Some (advance sample_sandbox SandboxStateDeleting None 20))"
    by (simp add: delete_body_def commit_record_def sample_sandbox_def)
  from deleting.modify_refines [OF sample_inv sample_stored b] show ?thesis
    using sample_live by (auto simp: sample_marked_def sandbox_BeginDelete_def update_with_def Update_live)
qed

lemma sample_generation: "sb_Generation sample_sandbox \<noteq> 7"
  by (simp add: sample_sandbox_def)

lemma sample_catalog_run: "(sandbox_step sample_reader)\<^sup>*\<^sup>* sample_fresh sample_marked"
proof -
  have "sandbox_step sample_reader sample_fresh sample_store"
    using step_Reserve [OF sample_Reserve] sample_wf by (simp add: sample_sandbox_def)
  moreover have "sandbox_step sample_reader sample_store (snd (sandbox_BeginStart None sample_store sample_id 7 15))"
    by (rule step_BeginStart, rule surjective_pairing)
  moreover have "snd (sandbox_BeginStart None sample_store sample_id 7 15) = sample_store"
    using sandbox_BeginStart_def start.update_stale [OF sample_inv sample_stored _ sample_live, of 7] snd_conv
    by (metis sample_generation)
  moreover have "sandbox_step sample_reader sample_store sample_marked"
    unfolding sample_marked_def by (rule step_BeginDelete, rule surjective_pairing)
  ultimately show ?thesis by (metis rtranclp.rtrancl_into_rtrancl rtranclp.rtrancl_refl)
qed

theorem sandbox_catalog_invariant_witness:
  "sandbox_inv (mem_records sample_marked)
    \<and> (\<exists>r. sandboxes (mem_records sample_marked) sample_id = Some r \<and> sb_State r = SandboxStateDeleting \<and> sb_Generation r = 2)"
proof -
  have "NewMemory [CollectionSandboxes, CollectionNames] = Inr sample_fresh"
    by (simp add: NewMemory_def NewCollection_def is_lower_def is_digit_def sample_fresh_def)
  from sandbox_catalog_invariant [OF this _ _ sample_catalog_run] show ?thesis
    using sample_marked_stored by (simp add: advance_def sample_sandbox_def)
qed

theorem sandbox_step_lifecycle_witness:
  "record_step (sandboxes (mem_records sample_store) sample_id)
     (sandboxes (mem_records (snd (sandbox_BeginDelete None sample_store sample_id 1 20))) sample_id)"
  by (rule sandbox_step_lifecycle [OF sample_inv, THEN conjunct1], rule step_BeginDelete, rule surjective_pairing)

theorem sandbox_stale_generation_refused_witness:
  "\<exists>e. sandbox_BeginDelete None sample_store sample_id 7 20 = (Inl e, sample_store) \<and> CodeOf e = Some CodeStateConflict"
  using sandbox_stale_generation_refused [OF sample_inv sample_live sample_stored, of 7 20]
  by (simp add: sample_sandbox_def)

theorem sandbox_begin_refines_witness:
  "\<not> (\<exists>s'. sandbox_BeginStop None sample_store sample_id 1 20 = (Inr sample_sandbox, s'))"
  using sandbox_begin_refines [OF sample_inv sample_live, of sample_id 1 20 sample_sandbox] sample_stored
  by (simp add: sample_sandbox_def)

theorem sandbox_Resolve_correct_witness:
  "sandbox_Resolve None sample_store ''box'' = Inr sample_sandbox"
  using sandbox_Resolve_correct [OF sample_inv sample_live, of sample_id sample_sandbox] sample_stored sample_ids(2)
  by simp

theorem sandbox_List_correct_witness:
  "\<exists>rs. sandbox_List None sample_store = Inr rs \<and> set rs = {sample_sandbox}"
  using sandbox_List_correct [OF sample_inv sample_live, of sample_digest]
  by (auto simp: sample_store_def sample_records)

end
