(* ===== verification/Image_Lifecycle.thy ===== *)
theory Image_Lifecycle
  imports Image_Catalog Sandbox_Lifecycle
begin

text \<open>
  Correctness of the image catalog: the three collections stay an encoding of one map from manifests
  to images together with its aliases, so every stored image loads; what an import commits is what a
  lookup returns; a removal frees exactly the layers no other image holds.
\<close>

section \<open>Keys and encodings\<close>

lemma digits_value_zeros: "digits_value (replicate n (CHR ''0'') @ s) = digits_value s"
  by (induction n) (simp_all add: digits_value_def)

lemma pad8_inject [simp]: "pad8 m = pad8 n \<longleftrightarrow> m = n"
  by (metis pad8_def digits_value_zeros digits_value_dec_nat)

lemma length_Digest_String: "wf_digest d \<Longrightarrow> length (Digest_String d) = 71"
  by (simp add: Digest_String_def wf_digest_def)

lemma layerKey_inject:
  "wf_digest m \<Longrightarrow> wf_digest m' \<Longrightarrow> layerKey m p = layerKey m' p' \<longleftrightarrow> m = m' \<and> p = p'"
  by (auto simp: layerKey_def length_Digest_String Digest_String_inject append_eq_append_conv)

definition wf_layer :: "Layer \<Rightarrow> bool" where
  "wf_layer l \<longleftrightarrow> wf_digest (layer_SourceDigest l) \<and> wf_digest (layer_EROFSDigest l)
     \<and> (\<forall>f \<in> set (layer_BootFiles l). wf_digest (bf_Digest f))"

text \<open>What the layer loop of \<open>Validate\<close> checks of one layer.\<close>

definition layer_ok :: "Layer \<Rightarrow> bool" where
  "layer_ok l \<longleftrightarrow> \<not> Digest_IsZero (layer_SourceDigest l) \<and> \<not> Digest_IsZero (layer_EROFSDigest l) \<and> 0 < layer_Size l
     \<and> (\<forall>f \<in> set (layer_BootFiles l). IsBootName (bf_Name f) \<and> 0 < bf_Size f)
     \<and> (\<forall>n \<in> set (layer_Whiteouts l). IsBootName n)"

lemma boot_files_check_None:
  "boot_files_check seen fs = None \<Longrightarrow> f \<in> set fs \<Longrightarrow> IsBootName (bf_Name f) \<and> 0 < bf_Size f"
  by (induction seen fs rule: boot_files_check.induct) (auto split: if_splits)

lemma commit_layers_ok: "commit_layers sz lds = Inr tot \<Longrightarrow> (l, d) \<in> set lds \<Longrightarrow> layer_ok l"
proof (induction sz lds rule: commit_layers.induct)
  case (2 sz layer e rest)
  then show ?case
    by (auto simp: layer_ok_def list_ex_iff dest: boot_files_check_None)
qed simp

lemma decodeLayer_encode:
  assumes "layer_ok l" and "wf_layer l"
  shows "decodeLayer (encode_layer m p l) = Inr l"
proof -
  have "mapE decode_boot_file (map (\<lambda>f. \<lparr>bfr_Name = bf_Name f, bfr_Digest = Digest_String (bf_Digest f), bfr_Size = bf_Size f\<rparr>) fs)
      = Inr fs" if "\<forall>f \<in> set fs. IsBootName (bf_Name f) \<and> 0 < bf_Size f \<and> wf_digest (bf_Digest f)" for fs
    using that by (induction fs) (simp_all add: decode_boot_file_def ParseDigest_String)
  then have "mapE decode_boot_file (encodeBootFiles (layer_BootFiles l)) = Inr (layer_BootFiles l)"
    using assms by (simp add: encodeBootFiles_def layer_ok_def wf_layer_def)
  then show ?thesis
    using assms by (auto simp: decodeLayer_def encode_layer_def layer_ok_def wf_layer_def ParseDigest_String list_ex_iff)
qed

section \<open>Images as stored\<close>

definition encode_image :: "Image \<Rightarrow> imageRecord" where
  "encode_image im = \<lparr>ir_ManifestDigest = Digest_String (img_ManifestDigest im),
     ir_RegistryReference = img_RegistryReference im, ir_OS = plat_OS (img_Platform im),
     ir_Architecture = plat_Architecture (img_Platform im), ir_BootProfile = boot_Profile (img_Boot im),
     ir_KernelLayer = Digest_String (boot_KernelLayer (img_Boot im)), ir_KernelFile = boot_KernelFile (img_Boot im),
     ir_InitrdFile = boot_InitrdFile (img_Boot im), ir_InitrdLayer = Digest_String (boot_InitrdLayer (img_Boot im)),
     ir_Size = img_Size im, ir_CreatedAt = img_CreatedAt im\<rparr>"

definition commit_image :: "ImportCommit \<Rightarrow> Image" where
  "commit_image c = \<lparr>img_Names = [], img_RegistryReference = com_RegistryReference c,
     img_ManifestDigest = man_Digest (com_Manifest c), img_Platform = man_Platform (com_Manifest c),
     img_Layers = com_Layers c, img_Boot = com_Boot c, img_Size = com_Size c, img_CreatedAt = com_Created c\<rparr>"

lemma commit_record_encode: "commit_record_of c = encode_image (commit_image c)"
  by (simp add: commit_record_of_def encode_image_def commit_image_def)

definition wf_image :: "Image \<Rightarrow> bool" where
  "wf_image im \<longleftrightarrow> wf_digest (img_ManifestDigest im) \<and> wf_digest (boot_KernelLayer (img_Boot im))
     \<and> wf_digest (boot_InitrdLayer (img_Boot im)) \<and> (\<forall>l \<in> set (img_Layers im). wf_layer l)"

abbreviation image_valid :: "Image \<Rightarrow> bool" where
  "image_valid im \<equiv> ImportCommit_Validate (stored_commit im) = None"

lemma Validate_layers:
  assumes "ImportCommit_Validate c = None"
  shows "\<exists>tot. commit_layers 0 (zip (com_Layers c) (man_Layers (com_Manifest c))) = Inr tot"
    and "length (com_Layers c) = length (man_Layers (com_Manifest c))" and "com_Name c \<noteq> []"
    and "com_Layers c \<noteq> []"
  using assms by (auto simp: ImportCommit_Validate_def split: if_splits sum.splits)

lemma image_valid_layer_ok: "image_valid im \<Longrightarrow> l \<in> set (img_Layers im) \<Longrightarrow> layer_ok l"
proof -
  assume v: "image_valid im" and l: "l \<in> set (img_Layers im)"
  have "\<exists>d. (l, d) \<in> set (zip (com_Layers (stored_commit im)) (man_Layers (com_Manifest (stored_commit im))))"
    using l Validate_layers(2) [OF v] in_set_impl_in_set_zip1 [of "com_Layers (stored_commit im)" _ l]
    by (metis stored_commit_def ImportCommit.select_convs(4))
  then show "layer_ok l" using Validate_layers(1) [OF v] commit_layers_ok by blast
qed

lemma commit_layers_desc:
  "commit_layers sz (zip ls ds) = Inr tot \<Longrightarrow> length ls = length ds \<Longrightarrow>
     commit_layers sz (zip ls (map (\<lambda>l. \<lparr>desc_Digest = layer_SourceDigest l, desc_Size = 0\<rparr>) ls)) = Inr tot"
proof (induction ls arbitrary: ds sz)
  case (Cons l ls)
  then obtain d ds' where "ds = d # ds'" by (cases ds) simp_all
  with Cons.IH [of "sz + layer_Size l" ds'] Cons.prems show ?case by simp
qed simp

lemma boot_profile_again: "b\<lparr>boot_Profile := p\<rparr> = c \<Longrightarrow> b\<lparr>boot_Profile := boot_Profile c\<rparr> = c"
  by auto

lemma commit_image_valid:
  assumes "ImportCommit_Validate c = None"
  shows "image_valid (commit_image c)"
proof -
  obtain tot where t: "commit_layers 0 (zip (com_Layers c) (man_Layers (com_Manifest c))) = Inr tot"
    using Validate_layers(1) [OF assms] by blast
  note d = commit_layers_desc [OF t Validate_layers(2) [OF assms]]
  show ?thesis
    using assms t d by (auto simp: ImportCommit_Validate_def stored_commit_def commit_image_def
        intro: boot_profile_again split: if_splits sum.splits)
qed

text \<open>The rows of one image: its record, and one layer record per position.\<close>

definition image_row :: "tx \<Rightarrow> string \<Rightarrow> Image \<Rightarrow> bool" where
  "image_row t k im \<longleftrightarrow> lookup t CollectionImages k = Some (P_image (encode_image im))
     \<and> k = Digest_String (img_ManifestDigest im) \<and> wf_image im \<and> image_valid im \<and> img_Names im = []
     \<and> (\<forall>p. lookup t CollectionLayers (layerKey (img_ManifestDigest im) p)
          = (if p < length (img_Layers im) then Some (P_layer (encode_layer (img_ManifestDigest im) p (img_Layers im ! p))) else None))"

definition aliases :: "tx \<Rightarrow> string \<rightharpoonup> string" where
  "aliases t n = (case lookup t CollectionImageNames n of Some (P_image_name r) \<Rightarrow> Some (nr_ManifestDigest r) | _ \<Rightarrow> None)"

definition image_inv :: "tx \<Rightarrow> bool" where
  "image_inv t \<longleftrightarrow> tx_ok t \<and> declared t CollectionImages \<and> declared t CollectionImageNames \<and> declared t CollectionLayers
     \<and> (\<forall>k p. lookup t CollectionImages k = Some p \<longrightarrow> (\<exists>im. image_row t k im))
     \<and> (\<forall>q p. lookup t CollectionLayers q = Some p \<longrightarrow>
          (\<exists>k im j. image_row t k im \<and> j < length (img_Layers im) \<and> q = layerKey (img_ManifestDigest im) j))
     \<and> (\<forall>n p. lookup t CollectionImageNames n = Some p \<longrightarrow>
          (\<exists>r. p = P_image_name r \<and> lookup t CollectionImages (nr_ManifestDigest r) \<noteq> None))
     \<and> (\<forall>k. lookup t CollectionImages k \<noteq> None \<longrightarrow> (\<exists>n. aliases t n = Some k))"

lemma image_invD:
  assumes "image_inv t"
  shows "tx_ok t" and "declared t CollectionImages" and "declared t CollectionImageNames" and "declared t CollectionLayers"
    and "lookup t CollectionImages k = Some p \<Longrightarrow> \<exists>im. image_row t k im"
    and "lookup t CollectionLayers q = Some p \<Longrightarrow>
      \<exists>k im j. image_row t k im \<and> j < length (img_Layers im) \<and> q = layerKey (img_ManifestDigest im) j"
    and "lookup t CollectionImageNames n = Some p \<Longrightarrow>
      \<exists>r. p = P_image_name r \<and> lookup t CollectionImages (nr_ManifestDigest r) \<noteq> None"
    and "lookup t CollectionImages k \<noteq> None \<Longrightarrow> \<exists>n. aliases t n = Some k"
  using assms unfolding image_inv_def by blast+

section \<open>Loading\<close>

text \<open>The aliases of one image, in order.\<close>

definition names_of :: "tx \<Rightarrow> string \<Rightarrow> string list" where
  "names_of t k = filter (\<lambda>n. aliases t n = Some k) (map fst (entries t CollectionImageNames))"

lemma scan_filter:
  assumes "\<And>k v s. (k, v) \<in> set kvs \<Longrightarrow> fn k v s = Inr (if P k v then s @ [g k v] else s)"
  shows "scan_loop fn kvs s = Inr (s @ map (\<lambda>(k, v). g k v) (filter (\<lambda>(k, v). P k v) kvs))"
  using assms
proof (induction kvs arbitrary: s)
  case (Cons kv kvs)
  obtain k v where kv: "kv = (k, v)" by (cases kv)
  have "fn k v s = Inr (if P k v then s @ [g k v] else s)" using Cons.prems kv by simp
  then show ?case using Cons kv by simp
qed simp

lemma names_entries:
  assumes inv: "image_inv t" and "(n, p) \<in> set (entries t CollectionImageNames)"
  shows "\<exists>r. p = P_image_name r \<and> aliases t n = Some (nr_ManifestDigest r)"
proof -
  have l: "lookup t CollectionImageNames n = Some p"
    using assms(2) entries_lookup [OF image_invD(1,3) [OF inv]] by simp
  from image_invD(7) [OF inv this] l show ?thesis by (auto simp: aliases_def)
qed

lemma Scan_names:
  assumes inv: "image_inv t"
  shows "Scan None t CollectionImageNames (names_visit k) [] = Inr (names_of t k)"
proof -
  let ?es = "entries t CollectionImageNames"
  have "names_visit k n p s = Inr (if aliases t n = Some k then s @ [n] else s)" if "(n, p) \<in> set ?es" for n p s
    using names_entries [OF inv that] by (auto simp: names_visit_def)
  then have "scan_loop (names_visit k) ?es [] = Inr ([] @ map (\<lambda>(n, p). n) (filter (\<lambda>(n, p). aliases t n = Some k) ?es))"
    by (rule scan_filter)
  moreover have "map (\<lambda>(n, p). n) (filter (\<lambda>(n, p). aliases t n = Some k) es) = filter (\<lambda>n. aliases t n = Some k) (map fst es)"
    for es :: "(string \<times> payload) list" by (induction es) auto
  ultimately show ?thesis by (simp add: Scan_live [OF image_invD(3) [OF inv]] names_of_def)
qed

lemma names_of_sorted:
  assumes "image_inv t"
  shows "sorted (names_of t k)" and "distinct (names_of t k)" and "sort (names_of t k) = names_of t k"
  using entries_sorted [OF image_invD(1,3) [OF assms]]
  by (simp_all add: names_of_def sorted_filter [where f = id, simplified] sort_key_id_if_sorted)

lemma names_of_set:
  assumes "image_inv t"
  shows "n \<in> set (names_of t k) \<longleftrightarrow> aliases t n = Some k"
proof -
  have "n \<in> fst ` set (entries t CollectionImageNames)" if "aliases t n = Some k"
    using that entries_lookup [OF image_invD(1,3) [OF assms]]
    by (force simp: aliases_def split: option.splits payload.splits)
  then show ?thesis by (auto simp: names_of_def)
qed

lemma image_row_wf: "image_row t k im \<Longrightarrow> wf_digest (img_ManifestDigest im)"
  by (simp add: image_row_def wf_image_def)

lemma image_row_key: "image_row t k im \<Longrightarrow> k = Digest_String (img_ManifestDigest im)"
  by (simp add: image_row_def)

text \<open>Under the invariant, the layer records of an image are those of its positions.\<close>

lemma layer_entries:
  assumes inv: "image_inv t" and row: "image_row t k im" and e: "(q, p) \<in> set (entries t CollectionLayers)"
  shows "\<exists>(im' :: Image) j. wf_digest (img_ManifestDigest im') \<and> q = layerKey (img_ManifestDigest im') j
    \<and> j < length (img_Layers im') \<and> p = P_layer (encode_layer (img_ManifestDigest im') j (img_Layers im' ! j))
    \<and> (img_ManifestDigest im' = img_ManifestDigest im \<longrightarrow> j < length (img_Layers im) \<and> img_Layers im' ! j = img_Layers im ! j)"
proof -
  have l: "lookup t CollectionLayers q = Some p" using e entries_lookup [OF image_invD(1,4) [OF inv]] by simp
  from image_invD(6) [OF inv l] obtain k' im' j where r: "image_row t k' im'" "j < length (img_Layers im')"
    "q = layerKey (img_ManifestDigest im') j" by blast
  then have p: "p = P_layer (encode_layer (img_ManifestDigest im') j (img_Layers im' ! j))"
    using l by (simp add: image_row_def)
  have "j < length (img_Layers im) \<and> encode_layer (img_ManifestDigest im) j (img_Layers im ! j)
      = encode_layer (img_ManifestDigest im) j (img_Layers im' ! j)" if "img_ManifestDigest im' = img_ManifestDigest im"
    using row l p r(3) that by (auto simp: image_row_def split: if_splits)
  moreover have "layer_ok (img_Layers im' ! j)" "wf_layer (img_Layers im' ! j)"
    using r image_valid_layer_ok [of im'] by (auto simp: image_row_def wf_image_def)
  moreover have "layer_ok (img_Layers im ! j)" "wf_layer (img_Layers im ! j)" if "j < length (img_Layers im)"
    using row that image_valid_layer_ok [of im] by (auto simp: image_row_def wf_image_def)
  ultimately have "j < length (img_Layers im) \<and> img_Layers im' ! j = img_Layers im ! j"
    if "img_ManifestDigest im' = img_ManifestDigest im"
    using that decodeLayer_encode by (metis Inr_inject)
  then have "wf_digest (img_ManifestDigest im') \<and> q = layerKey (img_ManifestDigest im') j
    \<and> j < length (img_Layers im') \<and> p = P_layer (encode_layer (img_ManifestDigest im') j (img_Layers im' ! j))
    \<and> (img_ManifestDigest im' = img_ManifestDigest im \<longrightarrow> j < length (img_Layers im) \<and> img_Layers im' ! j = img_Layers im ! j)"
    using r(2,3) p image_row_wf [OF r(1)] by simp
  then show ?thesis by blast
qed

definition image_records :: "Image \<Rightarrow> layerRecord list" where
  "image_records im = map (\<lambda>j. encode_layer (img_ManifestDigest im) j (img_Layers im ! j)) [0..<length (img_Layers im)]"

lemma encode_layer_fields [simp]:
  "lr_ManifestDigest (encode_layer m p l) = Digest_String m" "lr_Position (encode_layer m p l) = int p"
  "lr_SourceDigest (encode_layer m p l) = Digest_String (layer_SourceDigest l)"
  by (simp_all add: encode_layer_def)

lemma scan_collect_some:
  assumes "\<And>k v s. (k, v) \<in> set kvs \<Longrightarrow> fn k v s = Inr (case f v of None \<Rightarrow> s | Some y \<Rightarrow> s @ [y])"
  shows "scan_loop fn kvs s = Inr (s @ List.map_filter (\<lambda>(_, v). f v) kvs)"
  using assms
proof (induction kvs arbitrary: s)
  case (Cons kv kvs)
  obtain k v where kv: "kv = (k, v)" by (cases kv)
  have "fn k v s = Inr (case f v of None \<Rightarrow> s | Some y \<Rightarrow> s @ [y])" using Cons.prems kv by simp
  then show ?case using Cons kv by (cases "f v") (simp_all add: map_filter_simps)
qed (simp add: map_filter_simps)

lemma map_filter_distinct:
  assumes "distinct (map fst es)" and "\<And>i v y. (i, v) \<in> set es \<Longrightarrow> f v = Some y \<Longrightarrow> key y = i"
  shows "distinct (map key (List.map_filter (\<lambda>(_, v). f v) es))"
  using assms
proof (induction es)
  case (Cons e es)
  obtain i v where e: "e = (i, v)" by (cases e)
  have "key y \<in> fst ` set es" if y: "y \<in> set (List.map_filter (\<lambda>(_, v). f v) es)" for y
  proof -
    from y obtain j w where "(j, w) \<in> set es" "f w = Some y" by (auto simp: map_filter_def)
    moreover from this have "key y = j" using Cons.prems(2) [of j w y] by simp
    ultimately show ?thesis by force
  qed
  moreover have "distinct (map key (List.map_filter (\<lambda>(_, v). f v) es))"
  proof (rule Cons.IH)
    show "distinct (map fst es)" using Cons.prems(1) by simp
    show "key y = i" if "(i, v) \<in> set es" "f v = Some y" for i v y using Cons.prems(2) [of i v y] that by simp
  qed
  moreover have "key y = i" if "f v = Some y" for y using Cons.prems(2) [of i v y] that e by simp
  ultimately show ?case using Cons.prems(1) e by (cases "f v") (auto simp: map_filter_simps)
qed (simp add: map_filter_simps)

definition layer_of :: "string \<Rightarrow> payload \<Rightarrow> layerRecord option" where
  "layer_of k p = (case p of P_layer r \<Rightarrow> if lr_ManifestDigest r = k then Some r else None | _ \<Rightarrow> None)"

lemma layer_of_entry:
  assumes "image_inv t" and row: "image_row t k im" and "(q, p) \<in> set (entries t CollectionLayers)"
  shows "layers_visit k (img_ManifestDigest im) q p s = Inr (case layer_of k p of None \<Rightarrow> s | Some r \<Rightarrow> s @ [r])"
    and "layer_of k p = Some r \<Longrightarrow> \<exists>j. q = layerKey (img_ManifestDigest im) j \<and> j < length (img_Layers im)
      \<and> r = encode_layer (img_ManifestDigest im) j (img_Layers im ! j)"
proof -
  let ?m = "img_ManifestDigest im"
  have k: "k = Digest_String ?m" using row unfolding image_row_def by blast
  from layer_entries [OF assms] obtain im' :: Image and j where q: "q = layerKey (img_ManifestDigest im') j"
    and p: "p = P_layer (encode_layer (img_ManifestDigest im') j (img_Layers im' ! j))"
    and same: "img_ManifestDigest im' = ?m \<longrightarrow> j < length (img_Layers im) \<and> img_Layers im' ! j = img_Layers im ! j" by blast
  show "layers_visit k ?m q p s = Inr (case layer_of k p of None \<Rightarrow> s | Some r \<Rightarrow> s @ [r])"
    by (cases "img_ManifestDigest im' = ?m") (simp_all add: layers_visit_def layer_of_def k p q Digest_String_inject)
  show "\<exists>j. q = layerKey ?m j \<and> j < length (img_Layers im) \<and> r = encode_layer ?m j (img_Layers im ! j)" if "layer_of k p = Some r"
  proof -
    have "img_ManifestDigest im' = ?m" "r = encode_layer (img_ManifestDigest im') j (img_Layers im' ! j)"
      using that by (simp_all add: layer_of_def p k Digest_String_inject split: if_splits)
    with same q show ?thesis by (intro exI [of _ j]) simp
  qed
qed

lemma Scan_layers:
  assumes inv: "image_inv t" and row: "image_row t k im"
  shows "\<exists>rows. Scan None t CollectionLayers (layers_visit k (img_ManifestDigest im)) [] = Inr rows
    \<and> sort_key lr_Position rows = image_records im"
proof -
  let ?es = "entries t CollectionLayers" and ?m = "img_ManifestDigest im"
  let ?rows = "List.map_filter (\<lambda>(_, p). layer_of k p) ?es"
  have k: "k = Digest_String ?m" using row unfolding image_row_def by blast
  have scan: "Scan None t CollectionLayers (layers_visit k ?m) [] = Inr ?rows"
    unfolding Scan_live [OF image_invD(4) [OF inv]]
    using scan_collect_some [of ?es "layers_visit k ?m" "layer_of k" "[]"] layer_of_entry(1) [OF assms] by simp
  have "r \<in> set ?rows \<longleftrightarrow> r \<in> set (image_records im)" for r
  proof
    assume "r \<in> set ?rows"
    then obtain q p where e: "(q, p) \<in> set ?es" "layer_of k p = Some r" by (auto simp: map_filter_def)
    from layer_of_entry(2) [OF assms e] show "r \<in> set (image_records im)" by (auto simp: image_records_def)
  next
    assume "r \<in> set (image_records im)"
    then obtain j where j: "j < length (img_Layers im)" "r = encode_layer ?m j (img_Layers im ! j)"
      by (auto simp: image_records_def)
    then have "lookup t CollectionLayers (layerKey ?m j) = Some (P_layer r)" using row by (simp add: image_row_def)
    then have e: "(layerKey ?m j, P_layer r) \<in> set ?es" by (simp add: entries_lookup [OF image_invD(1,4) [OF inv]])
    have "layer_of k (P_layer r) = Some r" by (simp add: layer_of_def j k)
    with e show "r \<in> set ?rows" by (force simp: map_filter_def)
  qed
  then have rows: "set ?rows = set (image_records im)" by blast
  have "distinct (map (\<lambda>r. layerKey ?m (nat (lr_Position r))) ?rows)"
    by (rule map_filter_distinct) (use entries_sorted [OF image_invD(1,4) [OF inv]] layer_of_entry(2) [OF assms] in fastforce)+
  then have dist: "distinct (map lr_Position ?rows)" by (auto simp: distinct_map inj_on_def)
  have pos: "map lr_Position (image_records im) = map int [0..<length (img_Layers im)]"
    by (simp add: image_records_def comp_def)
  have "sort_key lr_Position ?rows = image_records im"
  proof (rule map_sorted_distinct_set_unique [where f = lr_Position])
    show "sorted (map lr_Position (image_records im))" unfolding pos by (simp add: sorted_map sorted_wrt_upt)
    show "distinct (map lr_Position (image_records im))" unfolding pos by (simp add: distinct_map)
    show "distinct (map lr_Position (sort_key lr_Position ?rows))" using dist by (simp only: distinct_map_sort)
    show "inj_on lr_Position (set (sort_key lr_Position ?rows) \<union> set (image_records im))"
      using dist rows by (simp add: distinct_map)
  qed (use rows in simp_all)
  with scan show ?thesis by blast
qed

lemma decode_positions:
  assumes "\<And>l. l \<in> set ls \<Longrightarrow> layer_ok l \<and> wf_layer l"
  shows "mapE decode_position (enumerate n (map (\<lambda>j. encode_layer m (n + j) (ls ! j)) [0..<length ls])) = Inr ls"
  using assms
proof (induction ls arbitrary: n)
  case (Cons l ls)
  have "map (\<lambda>j. encode_layer m (n + j) ((l # ls) ! j)) [0..<length (l # ls)]
      = encode_layer m n l # map (\<lambda>j. encode_layer m (Suc n + j) (ls ! j)) [0..<length ls]"
    by (rule nth_equalityI) (auto simp: nth_Cons simp del: upt_Suc split: nat.splits)
  then show ?case
    using Cons.IH [of "Suc n"] Cons.prems by (simp add: decode_position_def decodeLayer_encode del: upt_Suc)
qed simp

lemma loadImage_row:
  assumes inv: "image_inv t" and row: "image_row t k im"
  shows "loadImage None t k = Inr (im\<lparr>img_Names := names_of t k\<rparr>)"
proof -
  from row have r: "lookup t CollectionImages k = Some (P_image (encode_image im))" "k = Digest_String (img_ManifestDigest im)"
    "wf_image im" "image_valid im" unfolding image_row_def by blast+
  obtain rows where rows: "Scan None t CollectionLayers (layers_visit k (img_ManifestDigest im)) [] = Inr rows"
    "sort_key lr_Position rows = image_records im" using Scan_layers [OF assms] by blast
  have layers: "mapE decode_position (enumerate 0 (image_records im)) = Inr (img_Layers im)"
    using decode_positions [of "img_Layers im" 0 "img_ManifestDigest im"] r(3) image_valid_layer_ok [OF r(4)]
    by (simp add: image_records_def wf_image_def)
  have eta: "\<lparr>img_Names = ns, img_RegistryReference = img_RegistryReference im, img_ManifestDigest = img_ManifestDigest im,
       img_Platform = \<lparr>plat_OS = plat_OS (img_Platform im), plat_Architecture = plat_Architecture (img_Platform im)\<rparr>,
       img_Layers = img_Layers im, img_Boot = \<lparr>boot_Profile = boot_Profile (img_Boot im),
         boot_KernelFile = boot_KernelFile (img_Boot im), boot_InitrdFile = boot_InitrdFile (img_Boot im),
         boot_KernelLayer = boot_KernelLayer (img_Boot im), boot_InitrdLayer = boot_InitrdLayer (img_Boot im)\<rparr>,
       img_Size = img_Size im, img_CreatedAt = img_CreatedAt im\<rparr> = im\<lparr>img_Names := ns\<rparr>" for ns
    by (cases im; simp)
  have "stored_commit (im\<lparr>img_Names := ns\<rparr>) = stored_commit im" for ns by (simp add: stored_commit_def)
  then show ?thesis
    using r rows layers names_of_sorted(3) [OF inv]
    by (simp add: loadImage_def image_invD(2) [OF inv] encode_image_def wf_image_def ParseDigest_String
        Scan_names [OF inv] eta Let_def)
qed

text \<open>The abstract catalog: the facts of each stored manifest, without the aliases.\<close>

definition facts :: "tx \<Rightarrow> string \<rightharpoonup> Image" where
  "facts t k = (case loadImage None t k of Inl _ \<Rightarrow> None | Inr im \<Rightarrow> Some (im\<lparr>img_Names := []\<rparr>))"

lemma image_row_names: "image_row t k im \<Longrightarrow> im\<lparr>img_Names := []\<rparr> = im"
  by (cases im) (simp add: image_row_def)

lemma facts_row: "image_inv t \<Longrightarrow> image_row t k im \<Longrightarrow> facts t k = Some im"
  using image_row_names by (simp add: facts_def loadImage_row)

lemma facts_None: "image_inv t \<Longrightarrow> lookup t CollectionImages k = None \<Longrightarrow> facts t k = None"
  by (simp add: facts_def loadImage_def image_invD(2))

lemma facts_Some:
  assumes inv: "image_inv t"
  shows "facts t k = Some im \<longleftrightarrow> image_row t k im"
proof
  assume f: "facts t k = Some im"
  then obtain p where "lookup t CollectionImages k = Some p" using facts_None [OF inv, of k] by (cases "lookup t CollectionImages k") auto
  then obtain im' where "image_row t k im'" using image_invD(5) [OF inv] by blast
  with f show "image_row t k im" using facts_row [OF inv] by fastforce
qed (rule facts_row [OF inv])

lemma facts_dom: "image_inv t \<Longrightarrow> facts t k = None \<longleftrightarrow> lookup t CollectionImages k = None"
proof (cases "lookup t CollectionImages k")
  case (Some p)
  assume inv: "image_inv t"
  then obtain im where "image_row t k im" using image_invD(5) [OF inv Some] by blast
  then have "facts t k = Some im" by (rule facts_row [OF inv])
  then show ?thesis using Some by simp
qed (simp add: facts_None)

lemma facts_key:
  assumes "image_inv t" and "facts t k = Some im"
  shows "k = Digest_String (img_ManifestDigest im)" and "wf_image im" and "image_valid im"
  using assms(2) unfolding facts_Some [OF assms(1)] image_row_def by blast+

lemma loadImage_facts:
  assumes "image_inv t"
  shows "loadImage None t k = (case facts t k of Some im \<Rightarrow> Inr (im\<lparr>img_Names := names_of t k\<rparr>)
    | None \<Rightarrow> Inl (New 0 ClassCorrupt CodeArtifactCorrupt (Some (Msg ''image record is missing''))))"
proof (cases "facts t k")
  case None
  then have "lookup t CollectionImages k = None" by (simp add: facts_dom [OF assms])
  with None show ?thesis by (simp add: loadImage_def image_invD(2) [OF assms])
next
  case (Some im)
  then have "image_row t k im" by (simp add: facts_Some [OF assms])
  then show ?thesis using Some by (simp add: loadImage_row [OF assms])
qed

lemma alias_facts: "image_inv t \<Longrightarrow> aliases t n = Some k \<Longrightarrow> \<exists>im. facts t k = Some im"
proof -
  assume inv: "image_inv t" and a: "aliases t n = Some k"
  then obtain r where "lookup t CollectionImageNames n = Some (P_image_name r)" "nr_ManifestDigest r = k"
    by (auto simp: aliases_def split: option.splits payload.splits)
  then have "lookup t CollectionImages k \<noteq> None" using image_invD(7) [OF inv] by blast
  then show ?thesis using facts_dom [OF inv, of k] by (cases "facts t k") simp_all
qed

section \<open>Import\<close>

lemma image_row_frame:
  assumes "image_row t k im" and "lookup t' CollectionImages k = lookup t CollectionImages k"
    and "\<And>p. lookup t' CollectionLayers (layerKey (img_ManifestDigest im) p) = lookup t CollectionLayers (layerKey (img_ManifestDigest im) p)"
  shows "image_row t' k im"
  using assms(1) unfolding image_row_def assms(2,3) .

lemma put_layers_effect:
  assumes "put_layers ctx m n ls t = Inr t'" and "wf_digest m"
  shows "(\<forall>j < length ls. lookup t' CollectionLayers (layerKey m (n + j)) = Some (P_layer (encode_layer m (n + j) (ls ! j))))
    \<and> (\<forall>c q. c \<noteq> CollectionLayers \<or> (\<forall>j < length ls. q \<noteq> layerKey m (n + j)) \<longrightarrow> lookup t' c q = lookup t c q)
    \<and> (tx_ok t \<longrightarrow> tx_ok t') \<and> (\<forall>c. declared t' c = declared t c)"
  using assms(1)
proof (induction ls arbitrary: n t)
  case (Cons l ls)
  then obtain t1 where put: "Put ctx t CollectionLayers (layerKey m n) (P_layer (encode_layer m n l)) = Inr t1"
    and rest: "put_layers ctx m (Suc n) ls t1 = Inr t'" by (auto simp: bindE_Inr_iff putJSON_def)
  note IH = Cons.IH [OF rest]
  have ne: "layerKey m n \<noteq> layerKey m (Suc n + j)" for j using assms(2) by (simp add: layerKey_inject)
  have "lookup t' CollectionLayers (layerKey m n) = Some (P_layer (encode_layer m n l))"
    using IH ne by (simp add: lookup_Put [OF put])
  then have "lookup t' CollectionLayers (layerKey m (n + j)) = Some (P_layer (encode_layer m (n + j) ((l # ls) ! j)))"
    if "j < length (l # ls)" for j
    using that IH by (cases j) auto
  moreover have "lookup t' c q = lookup t c q"
    if h: "c \<noteq> CollectionLayers \<or> (\<forall>j < length (l # ls). q \<noteq> layerKey m (n + j))" for c q
  proof -
    have "c \<noteq> CollectionLayers \<or> q \<noteq> layerKey m n" using h by force
    moreover have "c \<noteq> CollectionLayers \<or> (\<forall>j < length ls. q \<noteq> layerKey m (Suc n + j))" using h by force
    ultimately show ?thesis using IH by (auto simp: lookup_Put [OF put])
  qed
  moreover have "(tx_ok t \<longrightarrow> tx_ok t') \<and> (\<forall>c. declared t' c = declared t c)"
    using IH tx_ok_Put [OF _ put] declared_Put [OF put] by blast
  ultimately show ?case by blast
qed simp

lemma put_layers_live: "declared t CollectionLayers \<Longrightarrow> \<exists>t'. put_layers None m n ls t = Inr t'"
proof (induction ls arbitrary: n t)
  case (Cons l ls)
  obtain t1 where put: "Put None t CollectionLayers (layerKey m n) (P_layer (encode_layer m n l)) = Inr t1"
    using Put_live [OF Cons.prems] by blast
  moreover have "declared t1 CollectionLayers" using Cons.prems declared_Put [OF put] by simp
  ultimately show ?case using Cons.IH by (simp add: putJSON_def)
qed simp

text \<open>What an import leaves under its manifest: the committed facts, with the first registration time
  and, when the commit names none, the known registry reference.\<close>

definition after_import :: "ImportCommit \<Rightarrow> Image option \<Rightarrow> Image" where
  "after_import c old = (case old of None \<Rightarrow> commit_image c
     | Some im \<Rightarrow> (commit_image c)\<lparr>img_CreatedAt := img_CreatedAt im,
         img_RegistryReference := if com_RegistryReference c \<noteq> [] then com_RegistryReference c else img_RegistryReference im\<rparr>)"

lemma same_facts_None:
  "same_facts im c = None \<longleftrightarrow> img_Platform im = man_Platform (com_Manifest c) \<and> img_Boot im = com_Boot c
     \<and> img_Size im = com_Size c \<and> img_Layers im = com_Layers c"
proof -
  have "length xs = length ys \<Longrightarrow> (\<not> list_ex (\<lambda>(a, b). \<not> Layer_Equal a b) (zip xs ys)) \<longleftrightarrow> xs = ys" for xs ys
    by (induction xs ys rule: list_induct2) (auto simp: Layer_Equal_iff)
  then show ?thesis by (auto simp: same_facts_def)
qed

text \<open>Binding an alias to an image that is stored.\<close>

lemma bind_alias:
  assumes "Put ctx t CollectionImageNames n (P_image_name \<lparr>nr_ManifestDigest = k\<rparr>) = Inr t'"
  shows "aliases t' = (aliases t)(n \<mapsto> k)" and "image_row t' = image_row t"
proof -
  show "aliases t' = (aliases t)(n \<mapsto> k)" by (rule ext) (simp add: aliases_def lookup_Put [OF assms])
  show "image_row t' = image_row t" by (intro ext) (simp add: image_row_def lookup_Put [OF assms])
qed

text \<open>Writing the rows of one image and an alias of it, whether the image is new or has these layers
  already, keeps the encoding and changes the abstract catalog at that manifest and alias only.\<close>

lemma image_inv_write:
  assumes inv: "image_inv t" and ok: "tx_ok t'" and decl: "\<And>c. declared t' c = declared t c"
    and wf: "wf_image im" and valid: "image_valid im" and names: "img_Names im = []"
    and k: "k = Digest_String (img_ManifestDigest im)"
    and images: "\<And>i. lookup t' CollectionImages i = (if i = k then Some (P_image (encode_image im)) else lookup t CollectionImages i)"
    and rows: "\<And>p. p < length (img_Layers im) \<Longrightarrow> lookup t' CollectionLayers (layerKey (img_ManifestDigest im) p)
      = Some (P_layer (encode_layer (img_ManifestDigest im) p (img_Layers im ! p)))"
    and others: "\<And>q. (\<And>p. p < length (img_Layers im) \<Longrightarrow> q \<noteq> layerKey (img_ManifestDigest im) p) \<Longrightarrow>
      lookup t' CollectionLayers q = lookup t CollectionLayers q"
    and old: "\<And>im0. facts t k = Some im0 \<Longrightarrow> img_Layers im0 = img_Layers im"
    and bound: "\<And>i. lookup t' CollectionImageNames i
      = (if i = n then Some (P_image_name \<lparr>nr_ManifestDigest = k\<rparr>) else lookup t CollectionImageNames i)"
    and free: "aliases t n = None \<or> aliases t n = Some k"
  shows "image_inv t' \<and> facts t' = (facts t)(k \<mapsto> im) \<and> aliases t' = (aliases t)(n \<mapsto> k)"
proof -
  let ?m = "img_ManifestDigest im"
  have m: "wf_digest ?m" using wf by (simp add: wf_image_def)
  have beyond: "lookup t CollectionLayers (layerKey ?m p) = None" if "\<not> p < length (img_Layers im)" for p
  proof (rule ccontr)
    assume "lookup t CollectionLayers (layerKey ?m p) \<noteq> None"
    then obtain v where "lookup t CollectionLayers (layerKey ?m p) = Some v" by blast
    from image_invD(6) [OF inv this] obtain k' im' j where r: "image_row t k' im'" "j < length (img_Layers im')"
      "layerKey ?m p = layerKey (img_ManifestDigest im') j" by blast
    then have eq: "img_ManifestDigest im' = ?m" "j = p" using layerKey_inject [OF m image_row_wf [OF r(1)]] by auto
    then have "k' = k" using r(1) unfolding image_row_def k by metis
    then have "img_Layers im' = img_Layers im" using old facts_row [OF inv r(1)] by blast
    then show False using r(2) eq that by simp
  qed
  have row: "image_row t' k im"
    unfolding image_row_def
  proof (intro conjI allI)
    fix p show "lookup t' CollectionLayers (layerKey ?m p)
        = (if p < length (img_Layers im) then Some (P_layer (encode_layer ?m p (img_Layers im ! p))) else None)"
    proof (cases "p < length (img_Layers im)")
      case False
      then have "layerKey ?m p \<noteq> layerKey ?m j" if "j < length (img_Layers im)" for j using that m by (auto simp: layerKey_inject)
      then show ?thesis using others beyond [OF False] False by simp
    qed (simp add: rows)
  qed (use images k wf valid names in simp_all)
  have keep: "image_row t' k' im'" if r: "image_row t k' im'" and ne: "k' \<noteq> k" for k' im'
  proof (rule image_row_frame [OF r])
    have "img_ManifestDigest im' \<noteq> ?m" using image_row_key [OF r] ne k by auto
    then have "layerKey (img_ManifestDigest im') p \<noteq> layerKey ?m j" for p j
      using layerKey_inject [OF image_row_wf [OF r] m] by blast
    then show "lookup t' CollectionLayers (layerKey (img_ManifestDigest im') p)
        = lookup t CollectionLayers (layerKey (img_ManifestDigest im') p)" for p by (intro others) blast
  qed (use ne images in simp)
  have al: "aliases t' = (aliases t)(n \<mapsto> k)" by (rule ext) (simp add: aliases_def bound)
  have inv': "image_inv t'"
    unfolding image_inv_def
  proof (intro conjI allI impI)
    fix i p assume "lookup t' CollectionImages i = Some p"
    then show "\<exists>im. image_row t' i im" using row keep images image_invD(5) [OF inv, of i p] by (cases "i = k") auto
  next
    fix q p assume q: "lookup t' CollectionLayers q = Some p"
    show "\<exists>k im j. image_row t' k im \<and> j < length (img_Layers im) \<and> q = layerKey (img_ManifestDigest im) j"
    proof (cases "\<exists>j < length (img_Layers im). q = layerKey ?m j")
      case True
      then show ?thesis using row by blast
    next
      case False
      then have "lookup t CollectionLayers q = Some p" using others q by simp
      from image_invD(6) [OF inv this] obtain k' im' j where r: "image_row t k' im'" "j < length (img_Layers im')"
        "q = layerKey (img_ManifestDigest im') j" by blast
      have "k' \<noteq> k"
      proof
        assume "k' = k"
        then have "img_Layers im' = img_Layers im" "img_ManifestDigest im' = ?m"
          using old facts_row [OF inv r(1)] r(1) k by (auto simp: image_row_def Digest_String_inject)
        then show False using False r by metis
      qed
      then show ?thesis using keep [OF r(1)] r by blast
    qed
  next
    fix i p assume "lookup t' CollectionImageNames i = Some p"
    then show "\<exists>r. p = P_image_name r \<and> lookup t' CollectionImages (nr_ManifestDigest r) \<noteq> None"
      using image_invD(7) [OF inv, of i p] by (auto simp: bound images split: if_splits)
  next
    fix i assume i: "lookup t' CollectionImages i \<noteq> None"
    show "\<exists>a. aliases t' a = Some i"
    proof (cases "i = k")
      case False
      then obtain a where a: "aliases t a = Some i" using i images image_invD(8) [OF inv, of i] by auto
      then have "a \<noteq> n" using free False by auto
      then show ?thesis using a al by (intro exI [of _ a]) simp
    qed (use al in auto)
  qed (use ok decl image_invD(2-4) [OF inv] in simp_all)
  have "facts t' i = ((facts t)(k \<mapsto> im)) i" for i
  proof (cases "i = k")
    case True
    then show ?thesis using facts_row [OF inv' row] by simp
  next
    case False
    show ?thesis
    proof (cases "facts t i")
      case None
      then have "facts t' i = None" using False images by (simp add: facts_dom [OF inv] facts_dom [OF inv'])
      with None False show ?thesis by simp
    next
      case (Some im')
      then have "facts t' i = Some im'" using keep False by (simp add: facts_Some [OF inv] facts_Some [OF inv'])
      with Some False show ?thesis by simp
    qed
  qed
  then show ?thesis using inv' al by blast
qed

abbreviation commit_key :: "ImportCommit \<Rightarrow> string" where
  "commit_key c \<equiv> Digest_String (man_Digest (com_Manifest c))"

definition import_enabled :: "tx \<Rightarrow> ImportCommit \<Rightarrow> bool" where
  "import_enabled t c \<longleftrightarrow> (aliases t (com_Name c) = None \<or> aliases t (com_Name c) = Some (commit_key c))
     \<and> (\<forall>im. facts t (commit_key c) = Some im \<longrightarrow> same_facts im c = None)"

definition image_frame :: "tx \<Rightarrow> tx \<Rightarrow> bool" where
  "image_frame t t' \<longleftrightarrow> (\<forall>c. declared t' c = declared t c)
     \<and> (\<forall>c q. c \<notin> {CollectionImages, CollectionImageNames, CollectionLayers} \<longrightarrow> lookup t' c q = lookup t c q)"

lemma alias_lookup:
  assumes "image_inv t"
  shows "lookup t CollectionImageNames n = map_option (\<lambda>k. P_image_name \<lparr>nr_ManifestDigest = k\<rparr>) (aliases t n)"
proof (cases "lookup t CollectionImageNames n")
  case (Some p)
  then obtain r where "p = P_image_name r" using image_invD(7) [OF assms Some] by blast
  with Some show ?thesis by (cases r) (simp add: aliases_def)
qed (simp add: aliases_def)

lemma row_lookup:
  assumes "image_inv t"
  shows "lookup t CollectionImages k = map_option (\<lambda>im. P_image (encode_image im)) (facts t k)"
proof (cases "facts t k")
  case (Some im)
  then have "image_row t k im" by (simp add: facts_Some [OF assms])
  then have "lookup t CollectionImages k = Some (P_image (encode_image im))" unfolding image_row_def by blast
  then show ?thesis using Some by simp
qed (simp add: facts_dom [OF assms])

lemma after_import_existing:
  assumes "same_facts im c = None" and "img_ManifestDigest im = man_Digest (com_Manifest c)" and "img_Names im = []"
  shows "after_import c (Some im) = im\<lparr>img_RegistryReference :=
    if com_RegistryReference c \<noteq> [] then com_RegistryReference c else img_RegistryReference im\<rparr>"
  using assms by (cases im) (simp add: same_facts_None after_import_def commit_image_def)

lemma import_new:
  assumes inv: "image_inv t" and valid: "ImportCommit_Validate c = None" and wf: "wf_image (commit_image c)"
    and new: "facts t (commit_key c) = None" and free: "aliases t (com_Name c) = None"
  shows "\<exists>t'. commit_import_tx None c t = Inr ((), t') \<and> image_inv t' \<and> image_frame t t'
    \<and> facts t' = (facts t)(commit_key c \<mapsto> commit_image c) \<and> aliases t' = (aliases t)(com_Name c \<mapsto> commit_key c)"
proof -
  let ?m = "man_Digest (com_Manifest c)" and ?k = "commit_key c"
  have m: "wf_digest ?m" using wf by (simp add: wf_image_def commit_image_def)
  obtain t1 where p1: "Put None t CollectionImages ?k (P_image (commit_record_of c)) = Inr t1"
    using Put_live [OF image_invD(2) [OF inv]] by blast
  obtain t2 where p2: "put_layers None ?m 0 (com_Layers c) t1 = Inr t2"
    using put_layers_live [of t1] image_invD(4) [OF inv] declared_Put [OF p1] by blast
  note eff = put_layers_effect [OF p2 m]
  have d2: "declared t2 CollectionImageNames" using image_invD(3) [OF inv] declared_Put [OF p1] eff by simp
  obtain t3 where p3: "Put None t2 CollectionImageNames (com_Name c) (P_image_name \<lparr>nr_ManifestDigest = ?k\<rparr>) = Inr t3"
    using Put_live [OF d2] by blast
  have run: "commit_import_tx None c t = Inr ((), t3)"
    using p1 p2 p3 free new image_invD(2,3) [OF inv]
    by (simp add: commit_import_tx_def putJSON_def alias_lookup [OF inv] row_lookup [OF inv] Let_def)
  have eff1: "lookup t3 c' q = lookup t2 c' q" if "c' \<noteq> CollectionImageNames" for c' q
    using that by (simp add: lookup_Put [OF p3])
  have lay: "lookup t3 CollectionLayers q = lookup t CollectionLayers q"
    if "\<And>p. p < length (com_Layers c) \<Longrightarrow> q \<noteq> layerKey ?m p" for q
  proof -
    have "lookup t2 CollectionLayers q = lookup t1 CollectionLayers q" using eff that by simp
    then show ?thesis by (simp add: eff1 lookup_Put [OF p1])
  qed
  have "image_inv t3 \<and> facts t3 = (facts t)(?k \<mapsto> commit_image c) \<and> aliases t3 = (aliases t)(com_Name c \<mapsto> ?k)"
  proof (rule image_inv_write [OF inv])
    show "tx_ok t3" using tx_ok_Put [OF _ p3] tx_ok_Put [OF image_invD(1) [OF inv] p1] eff by blast
    show "declared t3 c = declared t c" for c using declared_Put [OF p1] declared_Put [OF p3] eff by simp
    show "lookup t3 CollectionImages i = (if i = ?k then Some (P_image (encode_image (commit_image c))) else lookup t CollectionImages i)" for i
      using eff by (simp add: eff1 lookup_Put [OF p1] commit_record_encode)
    show "lookup t3 CollectionLayers (layerKey (img_ManifestDigest (commit_image c)) p)
        = Some (P_layer (encode_layer (img_ManifestDigest (commit_image c)) p (img_Layers (commit_image c) ! p)))"
      if "p < length (img_Layers (commit_image c))" for p
      using eff that by (simp add: eff1 commit_image_def)
    show "lookup t3 CollectionLayers q = lookup t CollectionLayers q"
      if "\<And>p. p < length (img_Layers (commit_image c)) \<Longrightarrow> q \<noteq> layerKey (img_ManifestDigest (commit_image c)) p" for q
      using lay that by (simp add: commit_image_def)
    show "lookup t3 CollectionImageNames i = (if i = com_Name c then Some (P_image_name \<lparr>nr_ManifestDigest = ?k\<rparr>)
        else lookup t CollectionImageNames i)" for i
      using eff by (simp add: lookup_Put [OF p3] lookup_Put [OF p1])
  qed (use new free wf commit_image_valid [OF valid] in \<open>simp_all add: commit_image_def\<close>)
  moreover have "image_frame t t3"
    using eff declared_Put [OF p1] declared_Put [OF p3] by (simp add: image_frame_def lookup_Put [OF p1] lookup_Put [OF p3])
  ultimately show ?thesis using run by blast
qed

lemma import_existing:
  assumes inv: "image_inv t" and im: "facts t (commit_key c) = Some im" and same: "same_facts im c = None"
    and free: "aliases t (com_Name c) = None \<or> aliases t (com_Name c) = Some (commit_key c)"
  shows "\<exists>t'. commit_import_tx None c t = Inr ((), t') \<and> image_inv t' \<and> image_frame t t'
    \<and> facts t' = (facts t)(commit_key c \<mapsto> after_import c (Some im)) \<and> aliases t' = (aliases t)(com_Name c \<mapsto> commit_key c)"
proof -
  let ?k = "commit_key c" and ?im = "after_import c (Some im)"
  let ?change = "com_RegistryReference c \<noteq> [] \<and> com_RegistryReference c \<noteq> img_RegistryReference im"
  have row: "image_row t ?k im" using im by (simp add: facts_Some [OF inv])
  have m: "img_ManifestDigest im = man_Digest (com_Manifest c)" using image_row_key [OF row] by (simp add: Digest_String_inject)
  have names: "img_Names im = []" using row unfolding image_row_def by blast
  note ai = after_import_existing [OF same m names]
  obtain t1 where p1: "if ?change then Put None t CollectionImages ?k (P_image (encode_image ?im)) = Inr t1 else t1 = t"
    using Put_live [OF image_invD(2) [OF inv], of ?k "P_image (encode_image ?im)"] by (cases ?change) auto
  have enc: "encode_image ?im = (encode_image im)\<lparr>ir_RegistryReference := com_RegistryReference c\<rparr>" if ?change
    using that by (simp add: ai encode_image_def)
  have l1: "lookup t1 c' q = (if c' = CollectionImages \<and> q = ?k then Some (P_image (encode_image ?im)) else lookup t c' q)" for c' q
    using p1 lookup_Put [of None t CollectionImages ?k "P_image (encode_image ?im)" t1 c' q] row
    by (cases ?change) (auto simp: ai image_row_def)
  have d1: "declared t1 c' = declared t c'" for c'
    using p1 declared_Put [of None t CollectionImages ?k "P_image (encode_image ?im)" t1] by (auto split: if_splits)
  have ok1: "tx_ok t1" using p1 image_invD(1) [OF inv] tx_ok_Put by (cases ?change) auto
  have d2: "declared t1 CollectionImageNames" using image_invD(3) [OF inv] d1 by simp
  obtain t2 where p2: "Put None t1 CollectionImageNames (com_Name c) (P_image_name \<lparr>nr_ManifestDigest = ?k\<rparr>) = Inr t2"
    using Put_live [OF d2] by blast
  have run: "commit_import_tx None c t = Inr ((), t2)"
    using p1 p2 free im same enc image_invD(2,3) [OF inv]
    by (cases ?change) (auto simp: commit_import_tx_def putJSON_def alias_lookup [OF inv] row_lookup [OF inv]
        loadImage_facts [OF inv] same_facts_None Let_def)
  have "image_inv t2 \<and> facts t2 = (facts t)(?k \<mapsto> ?im) \<and> aliases t2 = (aliases t)(com_Name c \<mapsto> ?k)"
  proof (rule image_inv_write [OF inv])
    show "tx_ok t2" by (rule tx_ok_Put [OF ok1 p2])
    show "declared t2 c = declared t c" for c using declared_Put [OF p2] d1 by simp
    show "lookup t2 CollectionLayers (layerKey (img_ManifestDigest ?im) p)
        = Some (P_layer (encode_layer (img_ManifestDigest ?im) p (img_Layers ?im ! p)))" if "p < length (img_Layers ?im)" for p
      using row that by (simp add: lookup_Put [OF p2] l1 ai image_row_def)
    show "image_valid ?im" "wf_image ?im"
      using facts_key(2,3) [OF inv im] by (simp_all add: ai stored_commit_def wf_image_def)
  qed (use im free names m in \<open>simp_all add: lookup_Put [OF p2] l1 ai\<close>)
  moreover have "image_frame t t2"
    using declared_Put [OF p2] d1 by (simp add: image_frame_def lookup_Put [OF p2] l1)
  ultimately show ?thesis using run by blast
qed

lemma import_refused:
  assumes inv: "image_inv t" and "\<not> import_enabled t c"
  shows "\<exists>e. commit_import_tx None c t = Inl e \<and> CodeOf e = Some (if aliases t (com_Name c) = None
      \<or> aliases t (com_Name c) = Some (commit_key c) then CodeArtifactCorrupt else CodeNameTaken)"
proof (cases "aliases t (com_Name c) = None \<or> aliases t (com_Name c) = Some (commit_key c)")
  case True
  with assms(2) obtain im where im: "facts t (commit_key c) = Some im" "same_facts im c \<noteq> None"
    by (auto simp: import_enabled_def)
  moreover have "same_facts (im\<lparr>img_Names := ns\<rparr>) c = same_facts im c" for ns by (simp add: same_facts_def)
  moreover have "CodeOf e = Some CodeArtifactCorrupt" if "same_facts im c = Some e" for e
    using that by (auto simp: same_facts_def corruptRecord_def New_def CodeOf_def split: if_splits)
  ultimately show ?thesis
    using True image_invD(2,3) [OF inv]
    by (auto simp: commit_import_tx_def alias_lookup [OF inv] row_lookup [OF inv] loadImage_facts [OF inv] Let_def)
next
  case False
  then show ?thesis
    using image_invD(3) [OF inv] by (auto simp: commit_import_tx_def alias_lookup [OF inv] Let_def New_def CodeOf_def)
qed

lemma import_accepted:
  assumes "image_inv t" and "ImportCommit_Validate c = None" and "wf_image (commit_image c)" and "import_enabled t c"
  shows "\<exists>t'. commit_import_tx None c t = Inr ((), t') \<and> image_inv t' \<and> image_frame t t'
    \<and> facts t' = (facts t)(commit_key c \<mapsto> after_import c (facts t (commit_key c)))
    \<and> aliases t' = (aliases t)(com_Name c \<mapsto> commit_key c)"
proof (cases "facts t (commit_key c)")
  case None
  then have "aliases t (com_Name c) = None"
    using assms(4) alias_facts [OF assms(1), of "com_Name c"] by (auto simp: import_enabled_def)
  with None show ?thesis using import_new [OF assms(1-3)] by (simp add: after_import_def)
next
  case (Some im)
  then show ?thesis using import_existing [OF assms(1) Some] assms(4) by (simp add: import_enabled_def)
qed

section \<open>Lookup\<close>

text \<open>The stored manifests whose digest starts with a text.\<close>

definition prefix_matches :: "tx \<Rightarrow> string \<Rightarrow> string set" where
  "prefix_matches t ref = {k. facts t k \<noteq> None \<and> HasPrefix (TrimPrefix k ''sha256:'') (TrimPrefix ref ''sha256:'')}"

abbreviation ambiguous :: gerr where
  "ambiguous \<equiv> New 0 ClassInvalid CodeInvalidArgument (Some (Msg ''digest prefix is ambiguous''))"

abbreviation matches :: "string \<Rightarrow> string \<Rightarrow> bool" where
  "matches pre k \<equiv> HasPrefix (TrimPrefix k ''sha256:'') pre"

lemma scan_prefix_found:
  assumes "d \<noteq> []" and "d \<notin> fst ` set kvs"
  shows "scan_loop (prefix_visit pre) kvs d = (if filter (matches pre) (map fst kvs) = [] then Inr d else Inl ambiguous)"
  using assms by (induction kvs) (auto simp: prefix_visit_def)

lemma scan_prefix:
  assumes "distinct (map fst kvs)" and "[] \<notin> fst ` set kvs"
  shows "scan_loop (prefix_visit pre) kvs [] = (case filter (matches pre) (map fst kvs) of
     [] \<Rightarrow> Inr [] | [k] \<Rightarrow> Inr k | _ \<Rightarrow> Inl ambiguous)"
  using assms
proof (induction kvs)
  case (Cons kv kvs)
  obtain k v where kv: "kv = (k, v)" by (cases kv)
  then have k: "k \<noteq> []" "k \<notin> fst ` set kvs" and IH: "distinct (map fst kvs)" "[] \<notin> fst ` set kvs"
    using Cons.prems by auto
  show ?case
  proof (cases "matches pre k")
    case True
    then have "scan_loop (prefix_visit pre) (kv # kvs) [] = scan_loop (prefix_visit pre) kvs k"
      by (simp add: kv prefix_visit_def)
    then show ?thesis using True scan_prefix_found [OF k, of pre] kv by (cases "filter (matches pre) (map fst kvs)") simp_all
  next
    case False
    then have "scan_loop (prefix_visit pre) (kv # kvs) [] = scan_loop (prefix_visit pre) kvs []"
      by (simp add: kv prefix_visit_def)
    then show ?thesis using False Cons.IH [OF IH] kv by simp
  qed
qed simp

lemma image_keys:
  assumes inv: "image_inv t"
  shows "k \<in> fst ` set (entries t CollectionImages) \<longleftrightarrow> facts t k \<noteq> None" and "facts t k \<noteq> None \<Longrightarrow> k \<noteq> []"
proof -
  have "(k, v) \<in> set (entries t CollectionImages) \<longleftrightarrow> lookup t CollectionImages k = Some v" for v
    by (rule entries_lookup [OF image_invD(1,2) [OF inv]])
  then show "k \<in> fst ` set (entries t CollectionImages) \<longleftrightarrow> facts t k \<noteq> None"
    unfolding facts_dom [OF inv] by force
  show "k \<noteq> []" if h: "facts t k \<noteq> None"
  proof -
    obtain im where "facts t k = Some im" using h by blast
    then show ?thesis using facts_key(1) [OF inv] by (auto simp: Digest_String_def)
  qed
qed

lemma Scan_prefix:
  assumes inv: "image_inv t"
  shows "Scan None t CollectionImages (prefix_visit (TrimPrefix ref ''sha256:'')) [] =
    (if prefix_matches t ref = {} then Inr []
     else if card (prefix_matches t ref) = 1 then Inr (the_elem (prefix_matches t ref)) else Inl ambiguous)"
proof -
  let ?es = "entries t CollectionImages"
  let ?ms = "filter (matches (TrimPrefix ref ''sha256:'')) (map fst ?es)"
  have d: "distinct (map fst ?es)" using entries_sorted [OF image_invD(1,2) [OF inv]] by blast
  have keys: "[] \<notin> fst ` set ?es" using image_keys [OF inv, of "[]"] by blast
  have ms: "set ?ms = prefix_matches t ref" using image_keys(1) [OF inv] by (auto simp: prefix_matches_def)
  have card: "card (prefix_matches t ref) = length ?ms"
    unfolding ms [symmetric] by (rule distinct_card) (rule distinct_filter [OF d])
  show ?thesis
    unfolding Scan_live [OF image_invD(2) [OF inv]] scan_prefix [OF d keys] card
    using ms by (cases ?ms rule: remdups_adj.cases) (simp_all add: ms [symmetric])
qed

definition image_target :: "tx \<Rightarrow> string \<Rightarrow> string option" where
  "image_target t ref = (case aliases t ref of Some k \<Rightarrow> Some k
     | None \<Rightarrow> if minimumDigestPrefix \<le> length (TrimPrefix ref ''sha256:'') \<and> card (prefix_matches t ref) = 1
         then Some (the_elem (prefix_matches t ref)) else None)"

lemma image_target_facts:
  assumes inv: "image_inv t" and "image_target t ref = Some k"
  shows "\<exists>im. facts t k = Some im"
proof (cases "aliases t ref")
  case (Some k')
  then show ?thesis using assms alias_facts [OF inv] by (simp add: image_target_def)
next
  case None
  then have "card (prefix_matches t ref) = 1" "k = the_elem (prefix_matches t ref)"
    using assms(2) by (auto simp: image_target_def split: if_splits)
  then obtain x where "prefix_matches t ref = {x}" "k = x" by (metis card_1_singletonE the_elem_eq)
  then have "k \<in> prefix_matches t ref" by simp
  then show ?thesis unfolding prefix_matches_def by blast
qed

lemma resolve_image_target:
  assumes inv: "image_inv t" and k: "image_target t ref = Some k" and im: "facts t k = Some im"
  shows "resolve_image None t ref = Inr (im\<lparr>img_Names := names_of t k\<rparr>)"
proof -
  have ne: "k \<noteq> []" using image_keys(2) [OF inv] im by blast
  show ?thesis
  proof (cases "aliases t ref")
    case (Some k')
    then show ?thesis
      using k im ne image_invD(3) [OF inv]
      by (simp add: resolve_image_def alias_lookup [OF inv] image_target_def loadImage_facts [OF inv])
  next
    case None
    then have c: "card (prefix_matches t ref) = 1" "k = the_elem (prefix_matches t ref)"
      "\<not> length (TrimPrefix ref ''sha256:'') < minimumDigestPrefix"
      using k by (auto simp: image_target_def split: if_splits)
    then have "prefix_matches t ref \<noteq> {}" by force
    with c None show ?thesis
      using im ne image_invD(3) [OF inv]
      by (simp add: resolve_image_def alias_lookup [OF inv] Scan_prefix [OF inv] loadImage_facts [OF inv] Let_def)
  qed
qed

lemma resolve_image_none:
  assumes inv: "image_inv t" and "image_target t ref = None"
  shows "\<exists>e. resolve_image None t ref = Inl e \<and> CodeOf e = Some
    (if minimumDigestPrefix \<le> length (TrimPrefix ref ''sha256:'') \<and> prefix_matches t ref \<noteq> {} then CodeInvalidArgument else CodeNotFound)"
proof -
  have "aliases t ref = None" using assms(2) by (auto simp: image_target_def split: option.splits)
  then show ?thesis
    using assms(2) image_invD(3) [OF inv]
    by (auto simp: resolve_image_def alias_lookup [OF inv] Scan_prefix [OF inv] Let_def image_target_def
        image_not_found_def New_def CodeOf_def split: if_splits)
qed

section \<open>Removal\<close>

lemma drop_names_effect:
  assumes "declared t CollectionImageNames"
  shows "\<exists>t'. drop_names None sel ns t = Inr (filter sel ns, t')
    \<and> (\<forall>c q. lookup t' c q = (if c = CollectionImageNames \<and> q \<in> set ns \<and> sel q then None else lookup t c q))
    \<and> (tx_ok t \<longrightarrow> tx_ok t') \<and> (\<forall>c. declared t' c = declared t c)"
  using assms
proof (induction ns arbitrary: t)
  case (Cons n ns)
  show ?case
  proof (cases "sel n")
    case True
    obtain t1 where d: "Delete None t CollectionImageNames n = Inr t1" using Delete_live [OF Cons.prems] by blast
    have "declared t1 CollectionImageNames" using Cons.prems declared_Delete [OF d] by simp
    from Cons.IH [OF this] obtain t' where t': "drop_names None sel ns t1 = Inr (filter sel ns, t')"
      "\<forall>c q. lookup t' c q = (if c = CollectionImageNames \<and> q \<in> set ns \<and> sel q then None else lookup t1 c q)"
      "tx_ok t1 \<longrightarrow> tx_ok t'" "\<forall>c. declared t' c = declared t1 c" by blast
    then show ?thesis
      using True d tx_ok_Delete [OF _ d] by (auto simp: lookup_Delete [OF d] declared_Delete [OF d])
  next
    case False
    with Cons.IH [OF Cons.prems] show ?thesis by auto
  qed
qed auto

text \<open>Some layer record refers to a source digest.\<close>

definition layer_refs :: "tx \<Rightarrow> Digest \<Rightarrow> bool" where
  "layer_refs t d \<longleftrightarrow> (\<exists>q r. lookup t CollectionLayers q = Some (P_layer r) \<and> lr_SourceDigest r = Digest_String d)"

definition layers_typed :: "tx \<Rightarrow> bool" where
  "layers_typed t \<longleftrightarrow> tx_ok t \<and> declared t CollectionLayers
     \<and> (\<forall>q p. lookup t CollectionLayers q = Some p \<longrightarrow> (\<exists>r. p = P_layer r))"

lemma layerReferenced_refs:
  assumes typed: "layers_typed t"
  shows "layerReferenced None t d = Inr (layer_refs t d)"
proof -
  let ?es = "entries t CollectionLayers"
  let ?fn = "\<lambda>(_ :: string) raw referenced. bindE (mapErr (corruptRecord ''layer'') (unmarshal_layer raw)) (\<lambda>r.
       Inr (referenced \<or> lr_SourceDigest r = Digest_String d))"
  have l: "tx_ok t" "declared t CollectionLayers" using typed by (simp_all add: layers_typed_def)
  have es: "(q, p) \<in> set ?es \<longleftrightarrow> lookup t CollectionLayers q = Some p" for q p by (rule entries_lookup [OF l])
  have ty: "\<exists>r. p = P_layer r" if "(q, p) \<in> set ?es" for q p using that typed unfolding es layers_typed_def by blast
  have "\<exists>b. scan_loop ?fn ?es False = Inr b" by (rule scan_loop_total) (use ty in fastforce)
  then obtain b where b: "scan_loop ?fn ?es False = Inr b" by blast
  have "b \<longleftrightarrow> False \<or> (\<exists>(q, p) \<in> set ?es. \<exists>r. mapErr (corruptRecord ''layer'') (unmarshal_layer p) = Inr r
      \<and> lr_SourceDigest r = Digest_String d)"
    by (rule scan_loop_flag [where g = "\<lambda>_ p. mapErr (corruptRecord ''layer'') (unmarshal_layer p)"
          and P = "\<lambda>_ r. lr_SourceDigest r = Digest_String d", OF _ b]) simp
  also have "\<dots> \<longleftrightarrow> layer_refs t d" by (auto simp: layer_refs_def es Bex_def)
  finally show ?thesis using b by (simp add: layerReferenced_def Scan_live [OF l(2)])
qed

lemma drop_layers_effect:
  assumes "layers_typed t" and m: "wf_digest m"
    and "\<And>j. j < length ls \<Longrightarrow> lookup t CollectionLayers (layerKey m (n + j)) = Some (P_layer (encode_layer m (n + j) (ls ! j)))"
  shows "\<exists>freed t'. drop_layers None m n ls t = Inr (freed, t')
    \<and> (\<forall>c q. lookup t' c q = (if c = CollectionLayers \<and> (\<exists>j < length ls. q = layerKey m (n + j)) then None else lookup t c q))
    \<and> tx_ok t' \<and> (\<forall>c. declared t' c = declared t c)
    \<and> distinct freed \<and> set freed = {d. d \<in> layer_SourceDigest ` set ls \<and> \<not> layer_refs t' d}"
  using assms(1,3)
proof (induction ls arbitrary: n t)
  case Nil
  then show ?case by (simp add: layers_typed_def)
next
  case (Cons l ls)
  let ?d = "layer_SourceDigest l"
  have decl: "declared t CollectionLayers" using Cons.prems(1) by (simp add: layers_typed_def)
  obtain t1 where d: "Delete None t CollectionLayers (layerKey m n) = Inr t1" using Delete_live [OF decl] by blast
  have ty1: "layers_typed t1"
    using Cons.prems(1) tx_ok_Delete [OF _ d] by (auto simp: layers_typed_def lookup_Delete [OF d] declared_Delete [OF d])
  have key: "layerKey m n = layerKey m (Suc n + j) \<longleftrightarrow> False" for j using m by (simp add: layerKey_inject)
  have rows: "lookup t1 CollectionLayers (layerKey m (Suc n + j)) = Some (P_layer (encode_layer m (Suc n + j) (ls ! j)))"
    if "j < length ls" for j
    using Cons.prems(2) [of "Suc j"] that m by (simp add: lookup_Delete [OF d] layerKey_inject)
  from Cons.IH [OF ty1 rows] obtain freed t' where f: "drop_layers None m (Suc n) ls t1 = Inr (freed, t')"
    and l': "\<forall>c q. lookup t' c q = (if c = CollectionLayers \<and> (\<exists>j < length ls. q = layerKey m (Suc n + j)) then None else lookup t1 c q)"
    and ok': "tx_ok t'" "\<forall>c. declared t' c = declared t1 c" "distinct freed"
    and set': "set freed = {d. d \<in> layer_SourceDigest ` set ls \<and> \<not> layer_refs t' d}" by auto
  have look: "lookup t' c q = (if c = CollectionLayers \<and> (\<exists>j < length (l # ls). q = layerKey m (n + j)) then None else lookup t c q)" for c q
  proof -
    have "(\<exists>j < length (l # ls). q = layerKey m (n + j)) \<longleftrightarrow> q = layerKey m n \<or> (\<exists>j < length ls. q = layerKey m (Suc n + j))"
      by (auto simp: less_Suc_eq_0_disj)
    then show ?thesis using l' by (auto simp: lookup_Delete [OF d])
  qed
  have mono: "layer_refs t1 x" if "layer_refs t' x" for x
    using that l' by (auto simp: layer_refs_def split: if_splits)
  have later: "?d \<in> layer_SourceDigest ` set ls" if "layer_refs t1 ?d" "\<not> layer_refs t' ?d"
  proof -
    from that(1) obtain q r where q: "lookup t1 CollectionLayers q = Some (P_layer r)" "lr_SourceDigest r = Digest_String ?d"
      by (auto simp: layer_refs_def)
    then have "lookup t' CollectionLayers q \<noteq> Some (P_layer r)" using that(2) by (auto simp: layer_refs_def)
    then obtain j where j: "j < length ls" "q = layerKey m (Suc n + j)" using l' q(1) by (auto split: if_splits)
    then have r: "r = encode_layer m (Suc n + j) (ls ! j)" using rows [OF j(1)] q(1) by simp
    then have "layer_SourceDigest (ls ! j) = ?d" using q(2) by (simp add: Digest_String_inject)
    then show ?thesis using j(1) by (metis image_eqI nth_mem)
  qed
  have held: "layer_refs t1 x" if "x \<in> layer_SourceDigest ` set ls" for x
  proof -
    from that obtain j where j: "j < length ls" "layer_SourceDigest (ls ! j) = x" by (auto simp: in_set_conv_nth)
    have "lr_SourceDigest (encode_layer m (Suc n + j) (ls ! j)) = Digest_String x" using j(2) by simp
    with rows [OF j(1)] show ?thesis unfolding layer_refs_def by blast
  qed
  have run: "drop_layers None m n (l # ls) t = Inr (if layer_refs t1 ?d then freed else ?d # freed, t')"
    by (simp add: d layerReferenced_refs [OF ty1] f)
  have "distinct (if layer_refs t1 ?d then freed else ?d # freed)"
    using ok'(3) set' held by auto
  moreover have "set (if layer_refs t1 ?d then freed else ?d # freed) = {d. d \<in> layer_SourceDigest ` set (l # ls) \<and> \<not> layer_refs t' d}"
    using set' later mono by (cases "layer_refs t1 ?d") auto
  ultimately show ?case using run look ok' declared_Delete [OF d] by blast
qed

lemma aliases_Some: "aliases t n = Some k \<longleftrightarrow> (\<exists>r. lookup t CollectionImageNames n = Some (P_image_name r) \<and> nr_ManifestDigest r = k)"
  by (cases "lookup t CollectionImageNames n") (auto simp: aliases_def split: payload.splits)

lemma remaining_names_zero:
  assumes ok: "tx_ok t" and decl: "declared t CollectionImageNames"
    and typed: "\<forall>n p. lookup t CollectionImageNames n = Some p \<longrightarrow> (\<exists>r. p = P_image_name r)"
  shows "\<exists>m. remaining_names None t k = Inr m \<and> (0 < m \<longleftrightarrow> (\<exists>n. aliases t n = Some k))"
proof -
  let ?fn = "\<lambda>(_ :: string) raw (n :: nat). bindE (mapErr (corruptRecord ''name'') (unmarshal_image_name raw)) (\<lambda>r.
       Inr (if nr_ManifestDigest r = k then Suc n else n))"
  let ?hit = "\<lambda>p. \<exists>r. p = P_image_name r \<and> nr_ManifestDigest r = k"
  have loop: "\<exists>m. scan_loop ?fn kvs s = Inr m \<and> (0 < m \<longleftrightarrow> 0 < s \<or> (\<exists>(n, p) \<in> set kvs. ?hit p))"
    if "\<forall>p \<in> snd ` set kvs. \<exists>r. p = P_image_name r" for kvs s
    using that
  proof (induction kvs arbitrary: s)
    case (Cons kv kvs)
    obtain n p where kv: "kv = (n, p)" by (cases kv)
    obtain r where r: "p = P_image_name r" using Cons.prems kv by auto
    have ty: "\<forall>p \<in> snd ` set kvs. \<exists>r. p = P_image_name r" using Cons.prems by simp
    show ?case
      using Cons.IH [OF ty, where s = "if nr_ManifestDigest r = k then Suc s else s"] kv r by (auto split: if_splits)
  qed simp
  let ?es = "entries t CollectionImageNames"
  have es: "(n, p) \<in> set ?es \<longleftrightarrow> lookup t CollectionImageNames n = Some p" for n p by (rule entries_lookup [OF ok decl])
  have "\<forall>p \<in> snd ` set ?es. \<exists>r. p = P_image_name r" using typed es by force
  from loop [OF this, of 0] obtain m where m: "scan_loop ?fn ?es 0 = Inr m" "0 < m \<longleftrightarrow> (\<exists>(n, p) \<in> set ?es. ?hit p)"
    by auto
  have "(\<exists>(n, p) \<in> set ?es. ?hit p) \<longleftrightarrow> (\<exists>n. aliases t n = Some k)"
    unfolding Bex_def split_paired_Ex by (auto simp: es aliases_Some)
  with m show ?thesis by (simp add: remaining_names_def Scan_live [OF decl])
qed

text \<open>The aliases a removal takes away.\<close>

definition dropped :: "tx \<Rightarrow> string \<Rightarrow> string \<Rightarrow> string set" where
  "dropped t ref k = (if aliases t ref = None then {n. aliases t n = Some k} else {ref})"

text \<open>Without the aliases the rest of the catalog is untouched.\<close>

lemma drop_names_inv:
  assumes inv: "image_inv t" and ok: "tx_ok t1" and decl: "\<And>c. declared t1 c = declared t c"
    and look: "\<And>c q. lookup t1 c q = (if c = CollectionImageNames \<and> q \<in> D then None else lookup t c q)"
    and some: "\<And>k. facts t k \<noteq> None \<Longrightarrow> \<exists>n. n \<notin> D \<and> aliases t n = Some k"
  shows "image_inv t1 \<and> facts t1 = facts t \<and> aliases t1 = (\<lambda>n. if n \<in> D then None else aliases t n)"
proof -
  have al: "aliases t1 = (\<lambda>n. if n \<in> D then None else aliases t n)" by (rule ext) (simp add: aliases_def look)
  have row: "image_row t1 = image_row t" by (intro ext) (simp add: image_row_def look)
  have inv1: "image_inv t1"
    unfolding image_inv_def
  proof (intro conjI allI impI)
    fix k p assume "lookup t1 CollectionImages k = Some p"
    then show "\<exists>im. image_row t1 k im" using image_invD(5) [OF inv] by (simp add: look row)
  next
    fix q p assume "lookup t1 CollectionLayers q = Some p"
    then show "\<exists>k im j. image_row t1 k im \<and> j < length (img_Layers im) \<and> q = layerKey (img_ManifestDigest im) j"
      using image_invD(6) [OF inv] by (simp add: look row)
  next
    fix n p assume "lookup t1 CollectionImageNames n = Some p"
    then show "\<exists>r. p = P_image_name r \<and> lookup t1 CollectionImages (nr_ManifestDigest r) \<noteq> None"
      using image_invD(7) [OF inv, of n p] by (auto simp: look split: if_splits)
  next
    fix k assume "lookup t1 CollectionImages k \<noteq> None"
    then have "facts t k \<noteq> None" by (simp add: look facts_dom [OF inv])
    then show "\<exists>n. aliases t1 n = Some k" using some al by fastforce
  qed (use ok decl image_invD(2-4) [OF inv] in simp_all)
  have "facts t1 k = facts t k" for k
  proof (cases "facts t k")
    case None
    then have "facts t1 k = None" by (simp add: facts_dom [OF inv] facts_dom [OF inv1] look)
    then show ?thesis using None by simp
  next
    case (Some im)
    then have "facts t1 k = Some im" by (simp add: facts_Some [OF inv] facts_Some [OF inv1] row)
    then show ?thesis using Some by simp
  qed
  then show ?thesis using inv1 al by blast
qed

text \<open>Without the last alias, the record and the layer records of the image go too.\<close>

lemma drop_image_inv:
  assumes inv: "image_inv t" and im: "facts t k = Some im" and ok: "tx_ok t1" and decl: "\<And>c. declared t1 c = declared t c"
    and look: "\<And>c q. lookup t1 c q = (if c = CollectionImageNames \<and> q \<in> D \<or> c = CollectionImages \<and> q = k
        \<or> c = CollectionLayers \<and> (\<exists>j < length (img_Layers im). q = layerKey (img_ManifestDigest im) j) then None else lookup t c q)"
    and D: "D = {n. aliases t n = Some k}"
  shows "image_inv t1 \<and> facts t1 = (facts t)(k := None) \<and> aliases t1 = (\<lambda>n. if n \<in> D then None else aliases t n)"
proof -
  have al: "aliases t1 = (\<lambda>n. if n \<in> D then None else aliases t n)" by (rule ext) (simp add: aliases_def look)
  have row0: "image_row t k im" using im by (simp add: facts_Some [OF inv])
  have keep: "image_row t1 k' im'" if r: "image_row t k' im'" and ne: "k' \<noteq> k" for k' im'
  proof (rule image_row_frame [OF r])
    have "img_ManifestDigest im' \<noteq> img_ManifestDigest im" using image_row_key [OF r] image_row_key [OF row0] ne by auto
    then have "layerKey (img_ManifestDigest im') p \<noteq> layerKey (img_ManifestDigest im) j" for p j
      using layerKey_inject [OF image_row_wf [OF r] image_row_wf [OF row0]] by blast
    then show "lookup t1 CollectionLayers (layerKey (img_ManifestDigest im') p)
        = lookup t CollectionLayers (layerKey (img_ManifestDigest im') p)" for p by (simp add: look)
  qed (use ne in \<open>simp add: look\<close>)
  have inv1: "image_inv t1"
    unfolding image_inv_def
  proof (intro conjI allI impI)
    fix i p assume "lookup t1 CollectionImages i = Some p"
    then have "i \<noteq> k" "lookup t CollectionImages i = Some p" by (auto simp: look split: if_splits)
    then show "\<exists>im. image_row t1 i im" using image_invD(5) [OF inv] keep by blast
  next
    fix q p assume "lookup t1 CollectionLayers q = Some p"
    then have q: "\<not> (\<exists>j < length (img_Layers im). q = layerKey (img_ManifestDigest im) j)" "lookup t CollectionLayers q = Some p"
      by (auto simp: look split: if_splits)
    from image_invD(6) [OF inv q(2)] obtain k' im' j where r: "image_row t k' im'" "j < length (img_Layers im')"
      "q = layerKey (img_ManifestDigest im') j" by blast
    have "k' \<noteq> k" using q(1) r facts_row [OF inv r(1)] im by auto
    then show "\<exists>k im j. image_row t1 k im \<and> j < length (img_Layers im) \<and> q = layerKey (img_ManifestDigest im) j"
      using keep [OF r(1)] r by blast
  next
    fix n p assume "lookup t1 CollectionImageNames n = Some p"
    then have n: "n \<notin> D" "lookup t CollectionImageNames n = Some p" by (auto simp: look split: if_splits)
    then obtain r where r: "p = P_image_name r" "lookup t CollectionImages (nr_ManifestDigest r) \<noteq> None"
      using image_invD(7) [OF inv] by blast
    have "nr_ManifestDigest r \<noteq> k" using n r(1) D by (auto simp: aliases_def)
    then show "\<exists>r. p = P_image_name r \<and> lookup t1 CollectionImages (nr_ManifestDigest r) \<noteq> None"
      using r by (simp add: look)
  next
    fix i assume "lookup t1 CollectionImages i \<noteq> None"
    then have i: "i \<noteq> k" "lookup t CollectionImages i \<noteq> None" by (auto simp: look split: if_splits)
    then obtain n where "aliases t n = Some i" using image_invD(8) [OF inv] by blast
    then show "\<exists>n. aliases t1 n = Some i" using i(1) D al by (intro exI [of _ n]) simp
  qed (use ok decl image_invD(2-4) [OF inv] in simp_all)
  have "facts t1 i = ((facts t)(k := None)) i" for i
  proof (cases "facts t i")
    case None
    then have "facts t1 i = None" by (simp add: facts_dom [OF inv] facts_dom [OF inv1] look)
    then show ?thesis using None by simp
  next
    case (Some im')
    show ?thesis
    proof (cases "i = k")
      case True
      then show ?thesis by (simp add: facts_dom [OF inv1] look)
    next
      case False
      then have "facts t1 i = Some im'" using keep Some by (simp add: facts_Some [OF inv] facts_Some [OF inv1])
      then show ?thesis using Some False by simp
    qed
  qed
  then show ?thesis using inv1 al by blast
qed

lemma layer_refs_facts:
  assumes inv: "image_inv t"
  shows "layer_refs t d \<longleftrightarrow> (\<exists>k im. facts t k = Some im \<and> d \<in> layer_SourceDigest ` set (img_Layers im))"
proof
  assume "layer_refs t d"
  then obtain q r where q: "lookup t CollectionLayers q = Some (P_layer r)" "lr_SourceDigest r = Digest_String d"
    by (auto simp: layer_refs_def)
  from image_invD(6) [OF inv q(1)] obtain k im j where r: "image_row t k im" "j < length (img_Layers im)"
    "q = layerKey (img_ManifestDigest im) j" by blast
  then have "r = encode_layer (img_ManifestDigest im) j (img_Layers im ! j)" using q(1) by (simp add: image_row_def)
  then have "layer_SourceDigest (img_Layers im ! j) = d" using q(2) by (simp add: Digest_String_inject)
  then have "d \<in> layer_SourceDigest ` set (img_Layers im)" using r(2) by (metis image_eqI nth_mem)
  then show "\<exists>k im. facts t k = Some im \<and> d \<in> layer_SourceDigest ` set (img_Layers im)" using facts_row [OF inv r(1)] by blast
next
  assume "\<exists>k im. facts t k = Some im \<and> d \<in> layer_SourceDigest ` set (img_Layers im)"
  then obtain k im j where im: "facts t k = Some im" and j: "j < length (img_Layers im)" "layer_SourceDigest (img_Layers im ! j) = d"
    by (auto simp: in_set_conv_nth)
  have "image_row t k im" using im by (simp add: facts_Some [OF inv])
  then have "lookup t CollectionLayers (layerKey (img_ManifestDigest im) j)
      = Some (P_layer (encode_layer (img_ManifestDigest im) j (img_Layers im ! j)))" using j(1) by (simp add: image_row_def)
  moreover have "lr_SourceDigest (encode_layer (img_ManifestDigest im) j (img_Layers im ! j)) = Digest_String d" using j(2) by simp
  ultimately show "layer_refs t d" unfolding layer_refs_def by blast
qed

lemma layers_rows:
  assumes "image_inv t"
  shows "\<forall>q p. lookup t CollectionLayers q = Some p \<longrightarrow> (\<exists>r. p = P_layer r)"
proof (intro allI impI)
  fix q p assume l: "lookup t CollectionLayers q = Some p"
  from image_invD(6) [OF assms l] obtain k im j where "image_row t k im" "j < length (img_Layers im)"
    "q = layerKey (img_ManifestDigest im) j" by blast
  then show "\<exists>r. p = P_layer r" using l by (auto simp: image_row_def)
qed

abbreviation sources :: "Image \<Rightarrow> Digest set" where
  "sources im \<equiv> layer_SourceDigest ` set (img_Layers im)"

definition orphaned :: "tx \<Rightarrow> Image \<Rightarrow> Digest set" where
  "orphaned t im = {d \<in> sources im. \<not> (\<exists>k im'. facts t k = Some im' \<and> d \<in> sources im')}"

abbreviation image_referenced :: gerr where
  "image_referenced \<equiv> New 0 ClassConflict CodeReferenced (Some (Msg ''image is used by a sandbox or snapshot''))"

text \<open>A removal of a resolved image with the expected digest, on every branch.\<close>

lemma remove_image_eq:
  assumes inv: "image_inv t" and k: "image_target t ref = Some k" and im: "facts t k = Some im"
  shows "\<exists>names t1. set names = dropped t ref k \<and> distinct names \<and> tx_ok t1 \<and> image_frame t t1
    \<and> (if \<exists>n. n \<notin> dropped t ref k \<and> aliases t n = Some k
       then remove_image_tx usage None ref (img_ManifestDigest im) t = Inr (\<lparr>rem_Names = names, rem_Layers = []\<rparr>, t1)
         \<and> image_inv t1 \<and> facts t1 = facts t \<and> aliases t1 = (\<lambda>n. if n \<in> dropped t ref k then None else aliases t n)
       else \<exists>freed t3. remove_image_tx usage None ref (img_ManifestDigest im) t
           = bindE (usage None t1 (img_ManifestDigest im)) (\<lambda>used. if used then Inl image_referenced
               else Inr (\<lparr>rem_Names = names, rem_Layers = freed\<rparr>, t3))
         \<and> image_inv t3 \<and> image_frame t t3 \<and> facts t3 = (facts t)(k := None)
         \<and> aliases t3 = (\<lambda>n. if n \<in> dropped t ref k then None else aliases t n)
         \<and> distinct freed \<and> set freed = orphaned t3 im)"
proof -
  let ?m = "img_ManifestDigest im" and ?D = "dropped t ref k"
  let ?sel = "\<lambda>name. lookup t CollectionImageNames ref = None \<or> name = ref"
  have key: "k = Digest_String ?m" by (rule facts_key(1) [OF inv im])
  have none: "lookup t CollectionImageNames ref = None \<longleftrightarrow> aliases t ref = None" by (simp add: alias_lookup [OF inv])
  have refk: "aliases t ref = None \<or> aliases t ref = Some k" using k by (auto simp: image_target_def split: option.splits)
  have sel: "n \<in> set (names_of t k) \<and> ?sel n \<longleftrightarrow> n \<in> ?D" for n
    using refk by (auto simp: names_of_set [OF inv] dropped_def none)
  obtain t1 where d: "drop_names None ?sel (names_of t k) t = Inr (filter ?sel (names_of t k), t1)"
    and l1: "\<forall>c q. lookup t1 c q = (if c = CollectionImageNames \<and> q \<in> set (names_of t k) \<and> ?sel q then None else lookup t c q)"
    and ok1: "tx_ok t1" and decl1: "\<forall>c. declared t1 c = declared t c"
    using drop_names_effect [OF image_invD(3) [OF inv], of ?sel "names_of t k"] image_invD(1) [OF inv] by blast
  have look1: "lookup t1 c q = (if c = CollectionImageNames \<and> q \<in> ?D then None else lookup t c q)" for c q
    using l1 sel by simp
  have names: "set (filter ?sel (names_of t k)) = ?D" using sel by auto
  have al1: "aliases t1 n = (if n \<in> ?D then None else aliases t n)" for n by (simp add: aliases_def look1)
  have ty: "\<forall>n p. lookup t1 CollectionImageNames n = Some p \<longrightarrow> (\<exists>r. p = P_image_name r)"
    using image_invD(7) [OF inv] by (auto simp: look1)
  have "declared t1 CollectionImageNames" using decl1 image_invD(3) [OF inv] by simp
  from remaining_names_zero [OF ok1 this ty] obtain m where m: "remaining_names None t1 k = Inr m"
    "0 < m \<longleftrightarrow> (\<exists>n. aliases t1 n = Some k)" by blast
  have rest: "0 < m \<longleftrightarrow> (\<exists>n. n \<notin> ?D \<and> aliases t n = Some k)" using m(2) al1 by auto
  have run: "remove_image_tx usage None ref ?m t = (if 0 < m then Inr (\<lparr>rem_Names = filter ?sel (names_of t k), rem_Layers = []\<rparr>, t1)
      else bindE (usage None t1 ?m) (\<lambda>used. if used then Inl image_referenced
        else bindE (Delete None t1 CollectionImages k) (\<lambda>t2. bindE (drop_layers None ?m 0 (img_Layers im) t2) (\<lambda>(freed, t3).
           Inr (\<lparr>rem_Names = filter ?sel (names_of t k), rem_Layers = freed\<rparr>, t3)))))"
    using m(1) d image_invD(3) [OF inv]
    by (simp add: remove_image_tx_def resolve_image_target [OF inv k im] key [symmetric] cong: if_cong)
  have frame1: "image_frame t t1" using decl1 by (simp add: image_frame_def look1)
  show ?thesis
  proof (cases "0 < m")
    case True
    have some: "\<exists>n. n \<notin> ?D \<and> aliases t n = Some i" if h: "facts t i \<noteq> None" for i
    proof (cases "i = k")
      case False
      obtain n where n: "aliases t n = Some i" using image_invD(8) [OF inv, of i] h by (auto simp: facts_dom [OF inv])
      then have "n \<notin> ?D" using False refk by (auto simp: dropped_def split: if_splits)
      with n show ?thesis by blast
    qed (use True rest in blast)
    have "image_inv t1 \<and> facts t1 = facts t \<and> aliases t1 = (\<lambda>n. if n \<in> ?D then None else aliases t n)"
      by (rule drop_names_inv [OF inv ok1 _ look1 some]) (simp add: decl1)
    then show ?thesis
      using run True rest names names_of_sorted(2) [OF inv] frame1 ok1
      by (intro exI [of _ "filter ?sel (names_of t k)"] exI [of _ t1]) simp
  next
    case False
    have D: "?D = {n. aliases t n = Some k}" using False rest refk by (auto simp: dropped_def split: if_splits)
    obtain t2 where d2: "Delete None t1 CollectionImages k = Inr t2"
      using Delete_live [of t1 CollectionImages k] decl1 image_invD(2) [OF inv] by blast
    have typed: "layers_typed t2"
      using tx_ok_Delete [OF ok1 d2] decl1 image_invD(4) [OF inv] layers_rows [OF inv]
      by (simp add: layers_typed_def lookup_Delete [OF d2] declared_Delete [OF d2] look1)
    have row: "image_row t k im" using im by (simp add: facts_Some [OF inv])
    have rows: "lookup t2 CollectionLayers (layerKey ?m (0 + j)) = Some (P_layer (encode_layer ?m (0 + j) (img_Layers im ! j)))"
      if "j < length (img_Layers im)" for j
      using row that by (simp add: lookup_Delete [OF d2] look1 image_row_def)
    from drop_layers_effect [OF typed image_row_wf [OF row] rows] obtain freed t3 where
      d3: "drop_layers None ?m 0 (img_Layers im) t2 = Inr (freed, t3)"
      and l3: "\<forall>c q. lookup t3 c q = (if c = CollectionLayers \<and> (\<exists>j < length (img_Layers im). q = layerKey ?m (0 + j)) then None else lookup t2 c q)"
      and ok3: "tx_ok t3" "\<forall>c. declared t3 c = declared t2 c" "distinct freed"
      and freed: "set freed = {d. d \<in> sources im \<and> \<not> layer_refs t3 d}" by blast
    have look3: "lookup t3 c q = (if c = CollectionImageNames \<and> q \<in> ?D \<or> c = CollectionImages \<and> q = k
        \<or> c = CollectionLayers \<and> (\<exists>j < length (img_Layers im). q = layerKey ?m j) then None else lookup t c q)" for c q
      using l3 by (auto simp: lookup_Delete [OF d2] look1)
    have decl3: "declared t3 c = declared t c" for c using ok3(2) decl1 declared_Delete [OF d2] by simp
    have inv3: "image_inv t3 \<and> facts t3 = (facts t)(k := None) \<and> aliases t3 = (\<lambda>n. if n \<in> ?D then None else aliases t n)"
      by (rule drop_image_inv [OF inv im ok3(1) decl3 look3 D])
    moreover have "set freed = orphaned t3 im" using freed inv3 by (auto simp: orphaned_def layer_refs_facts)
    moreover have "image_frame t t3" using decl3 by (simp add: image_frame_def look3)
    moreover have "remove_image_tx usage None ref ?m t = bindE (usage None t1 ?m) (\<lambda>used. if used then Inl image_referenced
        else Inr (\<lparr>rem_Names = filter ?sel (names_of t k), rem_Layers = freed\<rparr>, t3))"
      using run False d2 d3 by (simp cong: if_cong)
    ultimately show ?thesis
      using False rest names names_of_sorted(2) [OF inv] frame1 ok1 ok3(3)
      by (intro exI [of _ "filter ?sel (names_of t k)"] exI [of _ t1]) auto
  qed
qed

section \<open>Operations on the store\<close>

text \<open>Any outcome of any import and removal, whatever the usage check answers.\<close>

inductive image_step :: "store \<Rightarrow> store \<Rightarrow> bool" where
  step_CommitImport: "CommitImport ctx s commit = (res, s') \<Longrightarrow> wf_image (commit_image commit) \<Longrightarrow> image_step s s'"
| step_Remove: "image_Remove usage ctx s ref expected = (res', s') \<Longrightarrow> image_step s s'"

lemma resolve_image_ctx: "resolve_image ctx t ref = Inr im \<Longrightarrow> ctx = None"
  by (auto simp: resolve_image_def bindE_Inr_iff Get_Inr)

lemma resolve_image_Inr:
  assumes inv: "image_inv t" and "resolve_image ctx t ref = Inr im'"
  shows "\<exists>k im. image_target t ref = Some k \<and> facts t k = Some im \<and> im' = im\<lparr>img_Names := names_of t k\<rparr>"
proof -
  have ctx: "ctx = None" by (rule resolve_image_ctx [OF assms(2)])
  then obtain k where k: "image_target t ref = Some k" using resolve_image_none [OF inv, of ref] assms(2) by fastforce
  obtain im where im: "facts t k = Some im" using image_target_facts [OF inv k] by blast
  show ?thesis using k im resolve_image_target [OF inv k im] assms(2) ctx by auto
qed

lemma commit_import_good:
  assumes inv: "image_inv t" and valid: "ImportCommit_Validate c = None" and wf: "wf_image (commit_image c)"
    and run: "commit_import_tx None c t = Inr (u, t')"
  shows "image_inv t' \<and> image_frame t t' \<and> (\<forall>k. facts t k \<noteq> None \<longrightarrow> facts t' k \<noteq> None)"
proof -
  have "import_enabled t c" using import_refused [OF inv, of c] run by auto
  from import_accepted [OF inv valid wf this] run show ?thesis by auto
qed

lemma remove_image_good:
  assumes inv: "image_inv t" and run: "remove_image_tx usage None ref expected t = Inr (r, t')"
  shows "image_inv t' \<and> image_frame t t' \<and> (\<forall>k. facts t k \<noteq> None \<longrightarrow> facts t' k \<noteq> None
      \<or> k = Digest_String expected \<and> (\<exists>t1. tx_ok t1 \<and> image_frame t t1 \<and> usage None t1 expected = Inr False))"
proof -
  from run obtain im0 where "resolve_image None t ref = Inr im0" "img_ManifestDigest im0 = expected"
    by (auto simp: remove_image_tx_def bindE_Inr_iff split: if_splits)
  from resolve_image_Inr [OF inv this(1)] this(2) obtain k im where k: "image_target t ref = Some k"
    and im: "facts t k = Some im" and e: "img_ManifestDigest im = expected" by auto
  have key: "k = Digest_String expected" using facts_key(1) [OF inv im] e by simp
  from remove_image_eq [OF inv k im, of usage, unfolded e] obtain names t1 where t1: "tx_ok t1" "image_frame t t1"
    and eff: "if \<exists>n. n \<notin> dropped t ref k \<and> aliases t n = Some k
       then remove_image_tx usage None ref expected t = Inr (\<lparr>rem_Names = names, rem_Layers = []\<rparr>, t1)
         \<and> image_inv t1 \<and> facts t1 = facts t \<and> aliases t1 = (\<lambda>n. if n \<in> dropped t ref k then None else aliases t n)
       else \<exists>freed t3. remove_image_tx usage None ref expected t
           = bindE (usage None t1 expected) (\<lambda>used. if used then Inl image_referenced
               else Inr (\<lparr>rem_Names = names, rem_Layers = freed\<rparr>, t3))
         \<and> image_inv t3 \<and> image_frame t t3 \<and> facts t3 = (facts t)(k := None)
         \<and> aliases t3 = (\<lambda>n. if n \<in> dropped t ref k then None else aliases t n)
         \<and> distinct freed \<and> set freed = orphaned t3 im" by blast
  show ?thesis
  proof (cases "\<exists>n. n \<notin> dropped t ref k \<and> aliases t n = Some k")
    case True
    then show ?thesis using eff run t1 by auto
  next
    case False
    with eff obtain freed t3 where t3: "remove_image_tx usage None ref expected t
           = bindE (usage None t1 expected) (\<lambda>used. if used then Inl image_referenced
               else Inr (\<lparr>rem_Names = names, rem_Layers = freed\<rparr>, t3))"
      "image_inv t3" "image_frame t t3" "facts t3 = (facts t)(k := None)" by auto
    then have "usage None t1 expected = Inr False" "t' = t3"
      using run [unfolded t3(1)] by (auto simp: bindE_Inr_iff split: if_splits)
    then show ?thesis using t1 t3 key by (intro conjI allI impI) auto
  qed
qed

lemma remove_image_ctx: "remove_image_tx usage ctx ref expected t = Inr (r, t') \<Longrightarrow> ctx = None"
  using resolve_image_ctx by (auto simp: remove_image_tx_def bindE_Inr_iff)

lemma image_step_inv:
  assumes step: "image_step s s'" and inv: "image_inv (mem_records s)"
  shows "image_inv (mem_records s') \<and> image_frame (mem_records s) (mem_records s')"
  using step
proof cases
  case (step_CommitImport ctx commit res)
  show ?thesis
  proof (cases "ImportCommit_Validate commit")
    case None
    then have "update_with ctx s (context_info ''commit image import'' (com_Name commit) ''metadata'' ''retry the import'')
        (commit_import_tx ctx commit) = (res, s')" using step_CommitImport by (simp add: CommitImport_def)
    then show ?thesis
      by (cases rule: update_with_cases) (use inv commit_import_good [OF inv None step_CommitImport(2)] in \<open>auto simp: image_frame_def\<close>)
  next
    case (Some e)
    then show ?thesis using step_CommitImport inv by (simp add: CommitImport_def image_frame_def)
  qed
next
  case (step_Remove usage ctx ref expected res)
  then show ?thesis
    unfolding image_Remove_def
    by (cases rule: update_with_cases) (use inv remove_image_good [OF inv] in \<open>auto simp: image_frame_def\<close>)
qed

lemma ctxE_code:
  assumes "CodeOf e = Some k"
  shows "\<exists>e'. (ctxE a info (Inl e) :: gerr + 'a) = Inl e' \<and> CodeOf e' = Some k"
proof -
  obtain e' where e': "(ctxE a info (Inl e) :: gerr + 'a) = Inl e'" by (simp add: ctxE_def)
  then have "CodeOf e' = Some k" using assms by (auto elim: ctxE_Inl_CodeOf)
  with e' show ?thesis by blast
qed

section \<open>The usage check\<close>

text \<open>What a removal relies on in \<open>ImageUsage.InUse\<close>: on a consistent store it answers, and its answer
  does not depend on the image collections, which the removal is changing.\<close>

locale usage_check =
  fixes usage :: ImageUsage and uses :: "tx \<Rightarrow> Digest \<Rightarrow> bool" and ok :: "tx \<Rightarrow> bool"
  assumes answers: "ok t \<Longrightarrow> usage None t d = Inr (uses t d)"
    and framed: "ok t \<Longrightarrow> tx_ok t' \<Longrightarrow> image_frame t t' \<Longrightarrow> ok t' \<and> uses t' d = uses t d"
begin

lemma frame_answer: "ok t \<Longrightarrow> tx_ok t' \<Longrightarrow> image_frame t t' \<Longrightarrow> usage None t' d = Inr (uses t d)"
proof -
  assume "ok t" "tx_ok t'" "image_frame t t'"
  note f = framed [OF this, of d]
  then have "usage None t' d = Inr (uses t' d)" using answers by blast
  with f show ?thesis by simp
qed

lemma used_image_stays:
  assumes "image_inv t" and "ok t" and "remove_image_tx usage ctx ref expected t = Inr (r, t')"
    and "facts t (Digest_String d) \<noteq> None" and "uses t d"
  shows "facts t' (Digest_String d) \<noteq> None"
proof -
  have "remove_image_tx usage None ref expected t = Inr (r, t')" using assms(3) remove_image_ctx [OF assms(3)] by simp
  from remove_image_good [OF assms(1) this] assms(4) consider "facts t' (Digest_String d) \<noteq> None"
    | t1 where "d = expected" "tx_ok t1" "image_frame t t1" "usage None t1 expected = Inr False"
    by (auto simp: Digest_String_inject)
  then show ?thesis
  proof cases
    case 2
    then show ?thesis using frame_answer [OF assms(2) 2(2,3), of expected] assms(5) by simp
  qed
qed

lemma remove_cases:
  assumes inv: "image_inv t" and ok: "ok t" and k: "image_target t ref = Some k" and im: "facts t k = Some im"
  shows "if (\<nexists>n. n \<notin> dropped t ref k \<and> aliases t n = Some k) \<and> uses t (img_ManifestDigest im)
    then remove_image_tx usage None ref (img_ManifestDigest im) t = Inl image_referenced
    else \<exists>r t'. remove_image_tx usage None ref (img_ManifestDigest im) t = Inr (r, t') \<and> image_inv t'
      \<and> set (rem_Names r) = dropped t ref k
      \<and> aliases t' = (\<lambda>n. if n \<in> dropped t ref k then None else aliases t n)
      \<and> distinct (rem_Layers r)
      \<and> (if \<exists>n. n \<notin> dropped t ref k \<and> aliases t n = Some k then facts t' = facts t \<and> rem_Layers r = []
         else facts t' = (facts t)(k := None) \<and> set (rem_Layers r) = orphaned t' im)"
proof -
  let ?rest = "\<exists>n. n \<notin> dropped t ref k \<and> aliases t n = Some k" and ?m = "img_ManifestDigest im"
  from remove_image_eq [OF inv k im, of usage] obtain names t1 where t1: "set names = dropped t ref k" "tx_ok t1" "image_frame t t1"
    and eff: "if ?rest then remove_image_tx usage None ref ?m t = Inr (\<lparr>rem_Names = names, rem_Layers = []\<rparr>, t1)
         \<and> image_inv t1 \<and> facts t1 = facts t \<and> aliases t1 = (\<lambda>n. if n \<in> dropped t ref k then None else aliases t n)
       else \<exists>freed t3. remove_image_tx usage None ref ?m t = bindE (usage None t1 ?m) (\<lambda>used. if used then Inl image_referenced
               else Inr (\<lparr>rem_Names = names, rem_Layers = freed\<rparr>, t3))
         \<and> image_inv t3 \<and> image_frame t t3 \<and> facts t3 = (facts t)(k := None)
         \<and> aliases t3 = (\<lambda>n. if n \<in> dropped t ref k then None else aliases t n)
         \<and> distinct freed \<and> set freed = orphaned t3 im" by blast
  show ?thesis
  proof (cases ?rest)
    case True
    then show ?thesis using eff t1(1) by (simp add: True)
  next
    case False
    with eff obtain freed t3 where t3: "remove_image_tx usage None ref ?m t = bindE (usage None t1 ?m) (\<lambda>used. if used then Inl image_referenced
               else Inr (\<lparr>rem_Names = names, rem_Layers = freed\<rparr>, t3))"
      and e3: "image_inv t3" "facts t3 = (facts t)(k := None)"
        "aliases t3 = (\<lambda>n. if n \<in> dropped t ref k then None else aliases t n)" "distinct freed" "set freed = orphaned t3 im"
      by auto
    have "remove_image_tx usage None ref ?m t = (if uses t ?m then Inl image_referenced
        else Inr (\<lparr>rem_Names = names, rem_Layers = freed\<rparr>, t3))"
      unfolding t3 frame_answer [OF ok t1(2,3)] by simp
    with False e3 t1(1) show ?thesis by (cases "uses t ?m") auto
  qed
qed

end

section \<open>Properties\<close>

lemma image_inv_new:
  assumes "NewMemory cs = Inr s" and "{CollectionImages, CollectionImageNames, CollectionLayers} \<subseteq> set cs"
  shows "image_inv (mem_records s)"
  using assms(2) by (simp add: image_inv_def NewMemory_empty [OF assms(1)])



text \<open>
   \<open>Resolve\<close> on a live catalog: an alias always wins; otherwise a text of at least twelve digest
  characters, with or without the algorithm prefix, stands for the only stored manifest it prefixes;
  several candidates are an invalid argument and everything else is not found.
\<close>

theorem image_Resolve_correct:
  assumes "image_inv (mem_records s)" and "\<not> mem_closed s"
  shows "(aliases (mem_records s) ref = Some k \<longrightarrow>
      (\<exists>im. image_Resolve None s ref = Inr im \<and> Digest_String (img_ManifestDigest im) = k \<and> List.member (img_Names im) ref))
    \<and> (aliases (mem_records s) ref = None \<and> minimumDigestPrefix \<le> length (TrimPrefix ref ''sha256:'')
        \<and> prefix_matches (mem_records s) ref = {k} \<longrightarrow>
      (\<exists>im. image_Resolve None s ref = Inr im \<and> Digest_String (img_ManifestDigest im) = k))
    \<and> (image_target (mem_records s) ref = None \<longrightarrow> (\<exists>e. image_Resolve None s ref = Inl e
      \<and> CodeOf e = Some (if minimumDigestPrefix \<le> length (TrimPrefix ref ''sha256:'') \<and> prefix_matches (mem_records s) ref \<noteq> {}
          then CodeInvalidArgument else CodeNotFound)))"
proof -
  let ?t = "mem_records s"
  have found: "\<exists>im. image_Resolve None s ref = Inr im \<and> Digest_String (img_ManifestDigest im) = k \<and> img_Names im = names_of ?t k"
    if k: "image_target ?t ref = Some k"
  proof -
    obtain im where im: "facts ?t k = Some im" using image_target_facts [OF assms(1) k] by blast
    then show ?thesis
      using facts_key(1) [OF assms(1) im] by (simp add: image_Resolve_def View_live [OF assms(2)] resolve_image_target [OF assms(1) k im])
  qed
  have "\<exists>e. image_Resolve None s ref = Inl e
      \<and> CodeOf e = Some (if minimumDigestPrefix \<le> length (TrimPrefix ref ''sha256:'') \<and> prefix_matches ?t ref \<noteq> {}
          then CodeInvalidArgument else CodeNotFound)" if none: "image_target ?t ref = None"
  proof -
    obtain e where e: "resolve_image None ?t ref = Inl e" "CodeOf e = Some (if minimumDigestPrefix \<le> length (TrimPrefix ref ''sha256:'')
        \<and> prefix_matches ?t ref \<noteq> {} then CodeInvalidArgument else CodeNotFound)"
      using resolve_image_none [OF assms(1) none] by blast
    show ?thesis unfolding image_Resolve_def View_live [OF assms(2)] e(1) by (rule ctxE_code [OF e(2)])
  qed
  then show ?thesis
    using found names_of_set [OF assms(1), of ref] by (auto simp: image_target_def)
qed

subsection \<open>A concrete catalog\<close>

definition empty_images :: store where
  "empty_images = \<lparr>mem_records = [(''images'', []), (''image_names'', []), (''image_layers'', [])], mem_closed = False\<rparr>"

lemma empty_images_inv: "image_inv (mem_records empty_images)"
proof -
  have "lookup (mem_records empty_images) c k = None" for c k
    by (simp add: empty_images_def lookup_def)
  moreover have "tx_ok (mem_records empty_images)" by (simp add: empty_images_def tx_ok_def keys_ok_def)
  moreover have "declared (mem_records empty_images) CollectionImages" "declared (mem_records empty_images) CollectionImageNames"
    "declared (mem_records empty_images) CollectionLayers" by (simp_all add: empty_images_def declared_def)
  ultimately show ?thesis by (simp add: image_inv_def)
qed

lemma sample_commit_wf: "wf_image (commit_image sample_commit)"
  by (simp add: wf_image_def wf_layer_def commit_image_def sample_commit_def sample_boot_def sample_layer_def wf_digest_def)

lemma empty_images_facts: "facts (mem_records empty_images) k = None" "aliases (mem_records empty_images) n = None"
proof -
  have "lookup (mem_records empty_images) c k = None" for c k by (simp add: empty_images_def lookup_def)
  then show "facts (mem_records empty_images) k = None" "aliases (mem_records empty_images) n = None"
    by (simp_all add: facts_dom [OF empty_images_inv] aliases_def)
qed

lemma sample_import_enabled: "import_enabled (mem_records empty_images) sample_commit"
  by (simp add: import_enabled_def empty_images_facts)


definition sample_images :: store where
  "sample_images = snd (CommitImport None empty_images sample_commit)"

lemma sample_images_run:
  "CommitImport None empty_images sample_commit = (Inr (), sample_images)" "image_inv (mem_records sample_images)"
  "\<not> mem_closed sample_images" "aliases (mem_records sample_images) ''base'' = Some (commit_key sample_commit)"
  "facts (mem_records sample_images) (commit_key sample_commit) = Some (commit_image sample_commit)"
proof -
  have live: "\<not> mem_closed empty_images" by (simp add: empty_images_def)
  from import_accepted [OF empty_images_inv sample_commit_valid sample_commit_wf sample_import_enabled] obtain t' where
    t': "commit_import_tx None sample_commit (mem_records empty_images) = Inr ((), t')" "image_inv t'"
      "facts t' = (facts (mem_records empty_images))(commit_key sample_commit \<mapsto> after_import sample_commit (facts (mem_records empty_images) (commit_key sample_commit)))"
      "aliases t' = (aliases (mem_records empty_images))(com_Name sample_commit \<mapsto> commit_key sample_commit)" by blast
  have run: "CommitImport None empty_images sample_commit = (Inr (), empty_images\<lparr>mem_records := t'\<rparr>)"
    using live t'(1) by (simp add: CommitImport_def update_with_def Update_live sample_commit_valid)
  then have s: "sample_images = empty_images\<lparr>mem_records := t'\<rparr>" by (simp add: sample_images_def)
  show "CommitImport None empty_images sample_commit = (Inr (), sample_images)" using run s by simp
  have recs: "mem_records sample_images = t'" unfolding s by simp
  show "image_inv (mem_records sample_images)" unfolding recs by (rule t'(2))
  show "\<not> mem_closed sample_images" unfolding s using live by simp
  show "aliases (mem_records sample_images) ''base'' = Some (commit_key sample_commit)"
    unfolding recs t'(4) by (simp add: sample_commit_def)
  show "facts (mem_records sample_images) (commit_key sample_commit) = Some (commit_image sample_commit)"
    unfolding recs t'(3) by (simp add: after_import_def empty_images_facts)
qed


theorem image_Resolve_correct_witness:
  "\<exists>im. image_Resolve None sample_images ''base'' = Inr im \<and> Digest_String (img_ManifestDigest im) = commit_key sample_commit"
  using image_Resolve_correct [OF sample_images_run(2,3), of "''base''"] sample_images_run(4) by blast

end
