(* ===== verification/Snapshot_Lifecycle.thy ===== *)
theory Snapshot_Lifecycle
  imports Snapshot_Catalog Sandbox_Lifecycle
begin

text \<open>
  Correctness of the snapshot catalog: the record and name collections stay consistent, a snapshot is
  published once and removed in two phases, and usage times only grow, buffered or not.
\<close>

section \<open>Round trip\<close>

lemma snapshot_value_encode: "snapshot_value (encode_snapshot s ready) (snap_ImageDigest s)
    = s\<lparr>snap_LastAccessedAt := (if snap_LastAccessedAt s = 0 then snap_CreatedAt s else snap_LastAccessedAt s)\<rparr>"
  by (cases s) (simp add: snapshot_value_def encode_snapshot_def Let_def)

lemma Snapshot_Validate_access [simp]: "Snapshot_Validate (s\<lparr>snap_LastAccessedAt := a\<rparr>) = Snapshot_Validate s"
  by (simp add: Snapshot_Validate_def)

lemma decodeSnapshot_Inr:
  "decodeSnapshot d = Inr x \<longleftrightarrow> (\<exists>digest. wf_digest digest \<and> sd_ImageDigest d = Digest_String digest
     \<and> x = snapshot_value d digest \<and> Snapshot_Validate x = None)"
proof -
  have "valid_id (sd_ID d) \<and> valid_id (sd_SandboxID d)" if "Snapshot_Validate (snapshot_value d digest) = None" for digest
    using Snapshot_Validate_NoneD(1,2) [OF that] by (simp add: snapshot_value_def)
  then show ?thesis
    by (auto simp: decodeSnapshot_def bindE_Inr_iff ParseSnapshotID_Inr ParseSandboxID_Inr ParseDigest_iff Let_def)
qed

lemma decodeSnapshot_encode:
  "Snapshot_Validate s = None \<Longrightarrow> decodeSnapshot (encode_snapshot s ready)
     = Inr (s\<lparr>snap_LastAccessedAt := (if snap_LastAccessedAt s = 0 then snap_CreatedAt s else snap_LastAccessedAt s)\<rparr>)"
  unfolding decodeSnapshot_Inr
  by (rule exI [of _ "snap_ImageDigest s"])
    (simp add: snapshot_value_encode Snapshot_Validate_NoneD(3), simp add: encode_snapshot_def Let_def)

text \<open>Publication flags and the access time do not take part in decoding.\<close>

definition decodes :: "snapshotData \<Rightarrow> bool" where
  "decodes d \<longleftrightarrow> (\<exists>x. decodeSnapshot d = Inr x)"

lemma snapshot_value_flags:
  "snapshot_value (d\<lparr>sd_Ready := a\<rparr>) g = snapshot_value d g" "snapshot_value (d\<lparr>sd_Deleting := a\<rparr>) g = snapshot_value d g"
  by (simp_all add: snapshot_value_def)

lemma decodes_flags [simp]: "decodes (d\<lparr>sd_Ready := a\<rparr>) = decodes d" "decodes (d\<lparr>sd_Deleting := a\<rparr>) = decodes d"
  by (simp_all add: decodes_def decodeSnapshot_Inr snapshot_value_flags)

lemma decodes_access [simp]: "decodes (d\<lparr>sd_LastAccessedAt := a\<rparr>) = decodes d"
proof -
  have "Snapshot_Validate (snapshot_value (d\<lparr>sd_LastAccessedAt := a\<rparr>) g) = Snapshot_Validate (snapshot_value d g)" for g
    by (simp add: snapshot_value_def Snapshot_Validate_def)
  then show ?thesis by (simp add: decodes_def decodeSnapshot_Inr)
qed

lemma decode_snapshot_Inr: "decode_snapshot p = Inr d \<longleftrightarrow> p = P_snapshot d \<and> decodes d"
  by (auto simp: decode_snapshot_def bindE_Inr_iff decodes_def)

section \<open>Abstraction and invariant\<close>

definition snaps :: "tx \<Rightarrow> string \<rightharpoonup> snapshotData" where
  "snaps t i = (case lookup t CollectionSnapshots i of Some (P_snapshot d) \<Rightarrow> Some d | _ \<Rightarrow> None)"

definition snap_names :: "tx \<Rightarrow> string \<rightharpoonup> string" where
  "snap_names t n = (case lookup t CollectionSnapshotNames n of Some (P_name d) \<Rightarrow> Some (name_ID d) | _ \<Rightarrow> None)"

definition snapshot_inv :: "tx \<Rightarrow> bool" where
  "snapshot_inv t \<longleftrightarrow> tx_ok t \<and> declared t CollectionSnapshots \<and> declared t CollectionSnapshotNames
     \<and> (\<forall>i p. lookup t CollectionSnapshots i = Some p \<longrightarrow> (\<exists>d. p = P_snapshot d \<and> sd_ID d = i \<and> decodes d))
     \<and> (\<forall>n p. lookup t CollectionSnapshotNames n = Some p \<longrightarrow> (\<exists>d. p = P_name d))
     \<and> index_ok (snaps t) (snap_names t) sd_Name"

lemma snapshot_invD:
  assumes "snapshot_inv t"
  shows "tx_ok t" and "declared t CollectionSnapshots" and "declared t CollectionSnapshotNames"
    and "index_ok (snaps t) (snap_names t) sd_Name"
  using assms by (auto simp: snapshot_inv_def)

lemma snaps_Some:
  assumes "snapshot_inv t" and "snaps t i = Some d"
  shows "sd_ID d = i" and "decodes d" and "valid_id i"
proof -
  from assms(2) have p: "lookup t CollectionSnapshots i = Some (P_snapshot d)"
    by (auto simp: snaps_def split: option.splits payload.splits)
  with assms(1) show "sd_ID d = i" "decodes d" unfolding snapshot_inv_def by blast+
  then obtain g where "Snapshot_Validate (snapshot_value d g) = None" by (auto simp: decodes_def decodeSnapshot_Inr)
  from Snapshot_Validate_NoneD(1) [OF this] \<open>sd_ID d = i\<close> show "valid_id i" by (simp add: snapshot_value_def)
qed

lemma snaps_lookup:
  assumes "snapshot_inv t"
  shows "lookup t CollectionSnapshots i = map_option P_snapshot (snaps t i)"
proof (cases "lookup t CollectionSnapshots i")
  case (Some p)
  then obtain d where "p = P_snapshot d" using assms unfolding snapshot_inv_def by blast
  with Some show ?thesis by (simp add: snaps_def)
qed (simp add: snaps_def)

lemma load_snapshot_inv:
  assumes "snapshot_inv t"
  shows "load_snapshot None t i = (case snaps t i of None \<Rightarrow> Inl (notFound i) | Some d \<Rightarrow> Inr d)"
proof (cases "snaps t i")
  case (Some d)
  then have "decode_snapshot (P_snapshot d) = Inr d"
    using snaps_Some(2) [OF assms Some] by (simp add: decode_snapshot_Inr)
  with Some show ?thesis
    using snapshot_invD(2) [OF assms] by (simp add: load_snapshot_def snaps_lookup [OF assms])
qed (use snapshot_invD(2) [OF assms] in \<open>simp add: load_snapshot_def snaps_lookup [OF assms]\<close>)

lemma resolve_snapshot_inv:
  assumes inv: "snapshot_inv t"
  shows "resolve_snapshot None t ref =
     (if ref = [] then Inl (New 0 ClassInvalid CodeInvalidArgument (Some (Msg ''SNAPSHOT must not be empty'')))
      else case snap_names t ref of
        Some i \<Rightarrow> Inr (the (snaps t i))
      | None \<Rightarrow> (case snaps t ref of Some d \<Rightarrow> Inr d | None \<Rightarrow> Inl (notFound ref)))"
proof (cases "lookup t CollectionSnapshotNames ref")
  case None
  have "valid_id ref" if "snaps t ref = Some d" for d by (rule snaps_Some(3) [OF inv that])
  moreover have "snap_names t ref = None" using None by (simp add: snap_names_def)
  ultimately show ?thesis
    using None snapshot_invD(3) [OF inv]
    by (cases "valid_id ref"; cases "snaps t ref")
      (auto simp: resolve_snapshot_def ParseSnapshotID_valid load_snapshot_inv [OF inv]
        split: sum.splits dest: ParseSnapshotID_Inr [THEN iffD1])
next
  case (Some p)
  then obtain b where b: "p = P_name b" using inv unfolding snapshot_inv_def by blast
  then have n: "snap_names t ref = Some (name_ID b)" using Some by (simp add: snap_names_def)
  then obtain d where d: "snaps t (name_ID b) = Some d"
    using index_ok_nameE [OF snapshot_invD(4) [OF inv] n] by blast
  have v: "valid_id (name_ID b)" by (rule snaps_Some(3) [OF inv d])
  then have "name_ID b \<noteq> []" using valid_id_chars by fastforce
  then show ?thesis
    using Some b n d v snapshot_invD(3) [OF inv]
    by (simp add: resolve_snapshot_def ParseSnapshotID_valid load_snapshot_inv [OF inv])
qed

text \<open>Every loader of the catalog returns a stored record under its own identity.\<close>

lemma load_snapshot_Inr: "snapshot_inv t \<Longrightarrow> load_snapshot ctx t i = Inr d \<Longrightarrow> ctx = None \<and> snaps t i = Some d"
  by (auto simp: load_snapshot_def bindE_Inr_iff Get_Inr decode_snapshot_Inr snaps_def split: option.splits)

lemma resolve_snapshot_Inr:
  assumes inv: "snapshot_inv t" and "resolve_snapshot ctx t ref = Inr d"
  shows "ctx = None \<and> snaps t (sd_ID d) = Some d"
proof -
  have ctx: "ctx = None"
    using assms(2) by (auto simp: resolve_snapshot_def bindE_Inr_iff Get_Inr split: if_splits)
  have "\<exists>i. snaps t i = Some d"
    using assms(2) index_ok_nameE [OF snapshot_invD(4) [OF inv]]
    by (auto simp: ctx resolve_snapshot_inv [OF inv] split: if_splits option.splits) (metis option.sel)
  then show ?thesis using ctx snaps_Some(1) [OF inv] by blast
qed

section \<open>Lifecycle\<close>

text \<open>What one committed operation may do to one snapshot record: reserve it, publish it once, move
  its access time forward, mark it for deletion, or drop a reservation or a marked record.\<close>

definition snap_step :: "snapshotData option \<Rightarrow> snapshotData option \<Rightarrow> bool" where
  "snap_step old new = (case (old, new) of
     (None, None) \<Rightarrow> True
   | (None, Some d') \<Rightarrow> \<not> sd_Ready d' \<and> \<not> sd_Deleting d'
   | (Some d, None) \<Rightarrow> \<not> sd_Ready d \<or> sd_Deleting d
   | (Some d, Some d') \<Rightarrow> d' = d
       \<or> (\<not> sd_Ready d \<and> (\<exists>sz a. d' = d\<lparr>sd_Size := sz, sd_LastAccessedAt := a, sd_Ready := True\<rparr>))
       \<or> (sd_Ready d \<and> (\<exists>a > effective_access d. d' = d\<lparr>sd_LastAccessedAt := a\<rparr>))
       \<or> (sd_Ready d \<and> d' = d\<lparr>sd_Deleting := True\<rparr>))"

lemma snap_step_refl [simp]: "snap_step x x"
  by (cases x) (simp_all add: snap_step_def)

definition snap_good :: "(tx \<Rightarrow> gerr + ('a \<times> tx)) \<Rightarrow> bool" where
  "snap_good fn \<longleftrightarrow> (\<forall>t x t'. snapshot_inv t \<longrightarrow> fn t = Inr (x, t') \<longrightarrow> snapshot_inv t'
     \<and> (\<forall>i. snap_step (snaps t i) (snaps t' i))
     \<and> (\<forall>c k. c \<notin> {CollectionSnapshots, CollectionSnapshotNames} \<longrightarrow> lookup t' c k = lookup t c k)
     \<and> (\<forall>c. declared t' c = declared t c))"

lemma snaps_Put:
  assumes "Put ctx t CollectionSnapshots i (P_snapshot d) = Inr t'"
  shows "snaps t' = (snaps t)(i \<mapsto> d)" and "snap_names t' = snap_names t"
  by (rule ext, simp add: snaps_def snap_names_def lookup_Put [OF assms])+

lemma snapshot_inv_Put:
  assumes inv: "snapshot_inv t" and put: "Put ctx t CollectionSnapshots i (P_snapshot d) = Inr t'"
    and d: "sd_ID d = i" "decodes d" and idx: "index_ok ((snaps t)(i \<mapsto> d)) (snap_names t) sd_Name"
  shows "snapshot_inv t'"
proof -
  have "tx_ok t'" by (rule tx_ok_Put [OF snapshot_invD(1) [OF inv] put])
  moreover have "\<exists>d. p = P_snapshot d \<and> sd_ID d = j \<and> decodes d" if "lookup t' CollectionSnapshots j = Some p" for j p
    using that inv d by (auto simp: lookup_Put [OF put] snapshot_inv_def split: if_splits)
  moreover have "\<exists>d. p = P_name d" if "lookup t' CollectionSnapshotNames n = Some p" for n p
    using that inv by (auto simp: lookup_Put [OF put] snapshot_inv_def)
  ultimately show ?thesis
    using inv idx snaps_Put [OF put] unfolding snapshot_inv_def by (simp add: declared_Put [OF put])
qed

text \<open>What the rewriting operations rely on in a body: it keeps identity and name, its new record
  still decodes, and it makes one lifecycle step.\<close>

locale snapshot_body =
  fixes body :: "snapshotData \<Rightarrow> gerr + ('a \<times> snapshotData option)"
  assumes keeps: "body d = Inr (x, Some d') \<Longrightarrow> sd_ID d' = sd_ID d \<and> sd_Name d' = sd_Name d"
    and decoding: "body d = Inr (x, Some d') \<Longrightarrow> decodes d \<Longrightarrow> decodes d'"
    and step: "body d = Inr (x, Some d') \<Longrightarrow> snap_step (Some d) (Some d')"
begin

lemma modify_snapshot_good:
  assumes loader: "\<And>t d. snapshot_inv t \<Longrightarrow> loader t = Inr d \<Longrightarrow> snaps t (key d) = Some d"
  shows "snap_good (modify_snapshot ctx loader key body)"
  unfolding snap_good_def
proof (intro allI impI)
  fix t x t' assume inv: "snapshot_inv t" and run: "modify_snapshot ctx loader key body t = Inr (x, t')"
  then obtain d y out where d: "loader t = Inr d" and out: "body d = Inr (y, out)"
    by (auto simp: modify_snapshot_def bindE_Inr_iff)
  have cur: "snaps t (key d) = Some d" by (rule loader [OF inv d])
  show "snapshot_inv t' \<and> (\<forall>i. snap_step (snaps t i) (snaps t' i))
     \<and> (\<forall>c k. c \<notin> {CollectionSnapshots, CollectionSnapshotNames} \<longrightarrow> lookup t' c k = lookup t c k)
     \<and> (\<forall>c. declared t' c = declared t c)"
  proof (cases out)
    case None
    then have "t' = t" using run d out by (simp add: modify_snapshot_def)
    then show ?thesis using inv by simp
  next
    case (Some d')
    then have put: "Put ctx t CollectionSnapshots (key d) (P_snapshot d') = Inr t'"
      using run d out by (auto simp: modify_snapshot_def bindE_Inr_iff)
    note b = out [unfolded Some]
    have idx: "index_ok ((snaps t)(key d \<mapsto> d')) (snap_names t) sd_Name"
      using index_ok_replace [OF snapshot_invD(4) [OF inv] cur] keeps [OF b] by simp
    have "snapshot_inv t'"
      by (rule snapshot_inv_Put [OF inv put _ _ idx])
        (use keeps [OF b] decoding [OF b] snaps_Some [OF inv cur] in simp_all)
    then show ?thesis
      using snaps_Put [OF put] step [OF b] cur lookup_Put [OF put] declared_Put [OF put] by simp
  qed
qed

end

interpretation commit: snapshot_body "commit_body sz accessedAt"
proof
  show "sd_ID d' = sd_ID d \<and> sd_Name d' = sd_Name d" if "commit_body sz accessedAt d = Inr (x, Some d')" for d x d'
    using that by (auto simp: commit_body_def bindE_Inr_iff Let_def split: if_splits)
  show "decodes d'" if "commit_body sz accessedAt d = Inr (x, Some d')" for d x d'
  proof -
    from that obtain y where "decodeSnapshot (d\<lparr>sd_Size := sz, sd_LastAccessedAt := accessedAt\<rparr>) = Inr y"
      and d': "d' = d\<lparr>sd_Size := sz, sd_LastAccessedAt := accessedAt, sd_Ready := True\<rparr>"
      by (auto simp: commit_body_def bindE_Inr_iff Let_def split: if_splits)
    then have "decodes (d\<lparr>sd_Size := sz, sd_LastAccessedAt := accessedAt\<rparr>)" unfolding decodes_def by blast
    then show ?thesis unfolding d' by simp
  qed
  show "snap_step (Some d) (Some d')" if "commit_body sz accessedAt d = Inr (x, Some d')" for d x d'
    using that by (auto simp: commit_body_def bindE_Inr_iff Let_def snap_step_def split: if_splits)
qed

interpretation touch: snapshot_body "touch_body i accessedAt"
  by unfold_locales (auto simp: touch_body_def bindE_Inr_iff Let_def snap_step_def split: if_splits)

interpretation mark_deleting: snapshot_body "delete_snapshot_body reference"
  by unfold_locales (auto simp: delete_snapshot_body_def bindE_Inr_iff snap_step_def split: if_splits)

section \<open>Reservation and removal\<close>

text \<open>The transaction writes of reservation and removal, seen on the abstract maps.\<close>

lemma snap_names_Put:
  assumes "Put ctx t CollectionSnapshotNames n (P_name \<lparr>name_ID = i\<rparr>) = Inr t'"
  shows "snap_names t' = (snap_names t)(n \<mapsto> i)" and "snaps t' = snaps t"
  by (rule ext, use lookup_Put [OF assms] in \<open>simp add: snaps_def snap_names_def\<close>)+

lemma snapshot_invI:
  assumes "tx_ok t" and "declared t CollectionSnapshots" and "declared t CollectionSnapshotNames"
    and "\<And>i p. lookup t CollectionSnapshots i = Some p \<Longrightarrow> \<exists>d. p = P_snapshot d \<and> sd_ID d = i \<and> decodes d"
    and "\<And>n p. lookup t CollectionSnapshotNames n = Some p \<Longrightarrow> \<exists>d. p = P_name d"
    and "index_ok (snaps t) (snap_names t) sd_Name"
  shows "snapshot_inv t"
  using assms unfolding snapshot_inv_def by blast

lemma encode_snapshot_fields [simp]:
  "sd_ID (encode_snapshot s r) = snap_ID s" "sd_Name (encode_snapshot s r) = snap_Name s"
  "sd_Ready (encode_snapshot s r) = r" "\<not> sd_Deleting (encode_snapshot s r)"
  by (simp_all add: encode_snapshot_def Let_def)

lemma reserve_snapshot_Inr:
  assumes "reserve_snapshot_tx ctx x t = Inr (u, t')"
  shows "\<exists>t1. lookup t CollectionSnapshots (snap_ID x) = None
    \<and> (snap_Name x \<noteq> [] \<longrightarrow> lookup t CollectionSnapshotNames (snap_Name x) = None
         \<and> Put ctx t CollectionSnapshotNames (snap_Name x) (P_name \<lparr>name_ID = snap_ID x\<rparr>) = Inr t1)
    \<and> (snap_Name x = [] \<longrightarrow> t1 = t)
    \<and> Put ctx t1 CollectionSnapshots (snap_ID x) (P_snapshot (encode_snapshot x False)) = Inr t'"
  using assms by (auto simp: reserve_snapshot_tx_def bindE_Inr_iff Get_Inr split: if_splits)

lemma name_binding_inv:
  assumes inv: "snapshot_inv t" and put: "Put ctx t CollectionSnapshotNames n (P_name b) = Inr t1"
  shows "tx_ok t1" and "declared t1 c = declared t c"
    and "lookup t1 CollectionSnapshots i = lookup t CollectionSnapshots i"
    and "lookup t1 CollectionSnapshotNames m = Some p \<Longrightarrow> \<exists>d. p = P_name d"
proof -
  show "tx_ok t1" by (rule tx_ok_Put [OF snapshot_invD(1) [OF inv] put])
  show "\<exists>d. p = P_name d" if "lookup t1 CollectionSnapshotNames m = Some p"
    using that inv by (auto simp: lookup_Put [OF put] snapshot_inv_def split: if_splits)
qed (simp_all add: declared_Put [OF put] lookup_Put [OF put])

lemma reserve_snapshot_good:
  assumes valid: "Snapshot_Validate x = None"
  shows "snap_good (reserve_snapshot_tx ctx x)"
  unfolding snap_good_def
proof (intro allI impI)
  fix t u t' assume inv: "snapshot_inv t" and run: "reserve_snapshot_tx ctx x t = Inr (u, t')"
  let ?d = "encode_snapshot x False" and ?named = "snap_Name x \<noteq> []"
  from reserve_snapshot_Inr [OF run] obtain t1 where new: "lookup t CollectionSnapshots (snap_ID x) = None"
      "?named \<Longrightarrow> lookup t CollectionSnapshotNames (snap_Name x) = None"
    and p1: "?named \<Longrightarrow> Put ctx t CollectionSnapshotNames (snap_Name x) (P_name \<lparr>name_ID = snap_ID x\<rparr>) = Inr t1"
      "\<not> ?named \<Longrightarrow> t1 = t"
    and p2: "Put ctx t1 CollectionSnapshots (snap_ID x) (P_snapshot ?d) = Inr t'" by blast
  have dec: "decodes ?d" using decodeSnapshot_encode [OF valid] by (auto simp: decodes_def)
  have free: "snaps t (snap_ID x) = None" "?named \<Longrightarrow> snap_names t (snap_Name x) = None"
    using new by (simp_all add: snaps_def snap_names_def)
  have names: "snap_names t' = (if ?named then (snap_names t)(snap_Name x \<mapsto> snap_ID x) else snap_names t)"
    and recs: "snaps t' = (snaps t)(snap_ID x \<mapsto> ?d)"
    using snaps_Put [OF p2] snap_names_Put [OF p1(1)] p1(2) by (cases ?named; simp)+
  have "index_ok (snaps t') (snap_names t') sd_Name"
    unfolding names recs using free
    by (cases ?named) (simp_all add: index_ok_insert [OF snapshot_invD(4) [OF inv], of "snap_ID x" ?d, simplified]
      index_ok_insert_unnamed [OF snapshot_invD(4) [OF inv]])
  moreover have t1: "tx_ok t1" "\<And>c. declared t1 c = declared t c"
      "\<And>i. lookup t1 CollectionSnapshots i = lookup t CollectionSnapshots i"
      "\<And>n p. lookup t1 CollectionSnapshotNames n = Some p \<Longrightarrow> \<exists>d. p = P_name d"
    using name_binding_inv [OF inv p1(1)] p1(2) inv by (cases ?named; auto simp: snapshot_inv_def)+
  moreover have "\<exists>d. p = P_snapshot d \<and> sd_ID d = i \<and> decodes d" if "lookup t' CollectionSnapshots i = Some p" for i p
    using that inv dec t1(3) by (auto simp: lookup_Put [OF p2] snapshot_inv_def split: if_splits)
  moreover have "\<exists>d. p = P_name d" if "lookup t' CollectionSnapshotNames n = Some p" for n p
    using that t1(4) by (simp add: lookup_Put [OF p2])
  ultimately have "snapshot_inv t'"
    using snapshot_invD(2,3) [OF inv] tx_ok_Put [OF t1(1) p2] by (intro snapshot_invI) (simp_all add: declared_Put [OF p2])
  moreover have "snap_step (snaps t i) (snaps t' i)" for i
    using free(1) by (simp add: recs) (simp add: snap_step_def)
  moreover have "lookup t' c k = lookup t c k" if "c \<notin> {CollectionSnapshots, CollectionSnapshotNames}" for c k
    using that p1(2) lookup_Put [OF p1(1)] by (cases ?named) (auto simp: lookup_Put [OF p2])
  ultimately show "snapshot_inv t' \<and> (\<forall>i. snap_step (snaps t i) (snaps t' i))
     \<and> (\<forall>c k. c \<notin> {CollectionSnapshots, CollectionSnapshotNames} \<longrightarrow> lookup t' c k = lookup t c k)
     \<and> (\<forall>c. declared t' c = declared t c)"
    using t1(2) by (simp add: declared_Put [OF p2])
qed

lemma drop_snapshot_Inr:
  assumes "drop_snapshot ctx i d t = Inr (u, t')"
  shows "\<exists>t1. (if sd_Name d = [] then t1 = t else Delete ctx t CollectionSnapshotNames (sd_Name d) = Inr t1)
    \<and> Delete ctx t1 CollectionSnapshots i = Inr t'"
  using assms by (auto simp: drop_snapshot_def bindE_Inr_iff split: if_splits)

lemma drop_snapshot_good:
  assumes inv: "snapshot_inv t" and d: "snaps t i = Some d" and gone: "\<not> sd_Ready d \<or> sd_Deleting d"
    and run: "drop_snapshot ctx i d t = Inr (u, t')"
  shows "snapshot_inv t' \<and> (\<forall>i. snap_step (snaps t i) (snaps t' i))
     \<and> (\<forall>c k. c \<notin> {CollectionSnapshots, CollectionSnapshotNames} \<longrightarrow> lookup t' c k = lookup t c k)
     \<and> (\<forall>c. declared t' c = declared t c)"
proof -
  from drop_snapshot_Inr [OF run] obtain t1 where
    d1: "if sd_Name d = [] then t1 = t else Delete ctx t CollectionSnapshotNames (sd_Name d) = Inr t1"
    and d2: "Delete ctx t1 CollectionSnapshots i = Inr t'" by blast
  have l1: "lookup t1 c k = (if sd_Name d \<noteq> [] \<and> c = CollectionSnapshotNames \<and> k = sd_Name d then None else lookup t c k)" for c k
    using d1 lookup_Delete [of ctx t CollectionSnapshotNames "sd_Name d" t1] by (auto split: if_splits)
  have d1': "tx_ok t1" "\<And>c. declared t1 c = declared t c"
    using d1 snapshot_invD(1) [OF inv] by (cases "sd_Name d = []"; simp add: tx_ok_Delete; metis declared_Delete)+
  have l: "lookup t' c k = (if c = CollectionSnapshots \<and> k = i then None
      else if sd_Name d \<noteq> [] \<and> c = CollectionSnapshotNames \<and> k = sd_Name d then None else lookup t c k)" for c k
    by (simp add: lookup_Delete [OF d2] l1)
  have recs: "snaps t' = (snaps t)(i := None)"
    and names: "snap_names t' = (if sd_Name d = [] then snap_names t else (snap_names t)(sd_Name d := None))"
    by (rule ext, simp add: snaps_def snap_names_def l)+
  have "snapshot_inv t'"
  proof (rule snapshot_invI)
    show "index_ok (snaps t') (snap_names t') sd_Name"
      unfolding recs names by (rule index_ok_delete [OF snapshot_invD(4) [OF inv] d])
    show "\<exists>d. p = P_snapshot d \<and> sd_ID d = j \<and> decodes d" if "lookup t' CollectionSnapshots j = Some p" for j p
      using that inv by (auto simp: l snapshot_inv_def split: if_splits)
    show "\<exists>d. p = P_name d" if "lookup t' CollectionSnapshotNames n = Some p" for n p
      using that inv by (auto simp: l snapshot_inv_def split: if_splits)
  qed (use snapshot_invD(2,3) [OF inv] d1' tx_ok_Delete [OF d1'(1) d2] declared_Delete [OF d2] in simp_all)
  moreover have "snap_step (snaps t j) (snaps t' j)" for j
    using d gone by (simp add: recs) (simp add: snap_step_def)
  ultimately show ?thesis using d1'(2) declared_Delete [OF d2] by (simp add: l)
qed

lemma forget_snapshot_good: "snap_good (forget_snapshot_tx ctx i)"
  unfolding snap_good_def
proof (intro allI impI)
  fix t u t' assume inv: "snapshot_inv t" and "forget_snapshot_tx ctx i t = Inr (u, t')"
  then obtain d where d: "load_snapshot ctx t i = Inr d" "\<not> sd_Ready d" "drop_snapshot ctx i d t = Inr (u, t')"
    by (auto simp: forget_snapshot_tx_def bindE_Inr_iff split: if_splits)
  have "snaps t i = Some d" using load_snapshot_Inr [OF inv d(1)] ..
  from drop_snapshot_good [OF inv this disjI1 [OF d(2)] d(3)]
  show "snapshot_inv t' \<and> (\<forall>i. snap_step (snaps t i) (snaps t' i))
     \<and> (\<forall>c k. c \<notin> {CollectionSnapshots, CollectionSnapshotNames} \<longrightarrow> lookup t' c k = lookup t c k)
     \<and> (\<forall>c. declared t' c = declared t c)" .
qed

lemma finalize_snapshot_good: "snap_good (finalize_snapshot_tx ctx i)"
  unfolding snap_good_def
proof (intro allI impI)
  fix t u t' assume inv: "snapshot_inv t" and "finalize_snapshot_tx ctx i t = Inr (u, t')"
  then obtain d where d: "load_snapshot ctx t i = Inr d" "sd_Deleting d" "drop_snapshot ctx i d t = Inr (u, t')"
    by (auto simp: finalize_snapshot_tx_def bindE_Inr_iff split: if_splits)
  have "snaps t i = Some d" using load_snapshot_Inr [OF inv d(1)] ..
  from drop_snapshot_good [OF inv this disjI2 [OF d(2)] d(3)]
  show "snapshot_inv t' \<and> (\<forall>i. snap_step (snaps t i) (snaps t' i))
     \<and> (\<forall>c k. c \<notin> {CollectionSnapshots, CollectionSnapshotNames} \<longrightarrow> lookup t' c k = lookup t c k)
     \<and> (\<forall>c. declared t' c = declared t c)" .
qed

section \<open>Flushing the buffer\<close>

text \<open>What one flush does to one record: the newer of the two times, if the record is visible.\<close>

definition flushed :: "time option \<Rightarrow> snapshotData \<Rightarrow> snapshotData" where
  "flushed a d = (case a of Some a \<Rightarrow> if sd_Ready d \<and> \<not> sd_Deleting d \<and> effective_access d < a
     then d\<lparr>sd_LastAccessedAt := a\<rparr> else d | None \<Rightarrow> d)"

lemma flushed_None [simp]: "flushed None d = d" and flushed_fields [simp]: "sd_ID (flushed a d) = sd_ID d"
  "sd_Name (flushed a d) = sd_Name d" "sd_Ready (flushed a d) = sd_Ready d" "sd_Deleting (flushed a d) = sd_Deleting d"
  "sd_CreatedAt (flushed a d) = sd_CreatedAt d" "decodes (flushed a d) = decodes d"
  by (simp_all add: flushed_def split: option.splits)

lemma flushed_step [simp]: "snap_step (Some d) (Some (flushed a d))"
  by (auto simp: flushed_def snap_step_def split: option.splits)

lemma flushed_ident [simp]: "flushed None = (\<lambda>d. d)"
  by (simp add: fun_eq_iff)

text \<open>On a consistent store the flush cannot fail.\<close>

lemma flush_batch_effect:
  assumes "snapshot_inv t" and "keys_ok batch"
  shows "\<exists>t'. flush_batch None batch t = Inr ((), t') \<and> snapshot_inv t'
    \<and> snaps t' = (\<lambda>i. map_option (flushed (map_of batch i)) (snaps t i)) \<and> snap_names t' = snap_names t
    \<and> (\<forall>c k. c \<noteq> CollectionSnapshots \<longrightarrow> lookup t' c k = lookup t c k) \<and> (\<forall>c. declared t' c = declared t c)"
  using assms
proof (induction batch arbitrary: t)
  case Nil
  then show ?case by (simp add: option.map_ident)
next
  case (Cons ia batch)
  obtain i a where ia: "ia = (i, a)" by (cases ia)
  have ok: "keys_ok batch" and fresh: "map_of batch i = None"
    using Cons.prems(2) ia by (auto simp: keys_ok_def map_of_eq_None_iff)
  note inv = Cons.prems(1)
  have get: "Get None t CollectionSnapshots i = Inr (map_option P_snapshot (snaps t i))"
    by (simp add: snapshot_invD(2) [OF inv] snaps_lookup [OF inv])
  show ?case
  proof (cases "\<exists>d. snaps t i = Some d \<and> sd_Ready d \<and> \<not> sd_Deleting d \<and> effective_access d < a")
    case True
    then obtain d where d: "snaps t i = Some d" "sd_Ready d" "\<not> sd_Deleting d" "effective_access d < a" by blast
    let ?d = "d\<lparr>sd_LastAccessedAt := a\<rparr>"
    obtain t1 where put: "Put None t CollectionSnapshots i (P_snapshot ?d) = Inr t1"
      using Put_live [OF snapshot_invD(2) [OF inv]] by blast
    have run: "flush_batch None (ia # batch) t = flush_batch None batch t1"
      using d put snaps_Some(1,2) [OF inv d(1)] by (simp add: ia get decode_snapshot_Inr [THEN iffD2])
    have inv1: "snapshot_inv t1"
      by (rule snapshot_inv_Put [OF inv put _ _ index_ok_replace [OF snapshot_invD(4) [OF inv] d(1)]])
        (simp_all add: snaps_Some [OF inv d(1)])
    have "map_option (flushed (map_of batch j)) (snaps t1 j) = map_option (flushed (map_of (ia # batch) j)) (snaps t j)" for j
      using d fresh by (simp add: snaps_Put [OF put] ia) (simp add: flushed_def)
    then show ?thesis
      using Cons.IH [OF inv1 ok] snaps_Put(2) [OF put] unfolding run
      by (simp add: lookup_Put [OF put] declared_Put [OF put])
  next
    case False
    have run: "flush_batch None (ia # batch) t = flush_batch None batch t"
    proof (cases "snaps t i")
      case (Some d)
      then show ?thesis using False snaps_Some(1,2) [OF inv Some]
        by (auto simp: ia get decode_snapshot_Inr [THEN iffD2])
    qed (simp add: ia get)
    have "map_option (flushed (map_of batch j)) (snaps t j) = map_option (flushed (map_of (ia # batch) j)) (snaps t j)" for j
      using False fresh by (cases "snaps t i") (auto simp: ia flushed_def)
    then show ?thesis using Cons.IH [OF inv ok] unfolding run by simp
  qed
qed

lemma retire_effect:
  assumes "keys_ok batch" and "\<And>i a. (i, a) \<in> set batch \<Longrightarrow> map_of m i = Some a"
  shows "map_of (retire batch m) k = (if k \<in> fst ` set batch then None else map_of m k)"
  using assms
proof (induction batch arbitrary: m)
  case (Cons ia batch)
  obtain i a where ia: "ia = (i, a)" by (cases ia)
  have fresh: "i \<notin> fst ` set batch" and ok: "keys_ok batch" using Cons.prems(1) ia by (auto simp: keys_ok_def)
  have run: "retire (ia # batch) m = retire batch (AList.delete i m)"
    using Cons.prems(2) [of i a] ia by (simp add: retire_def)
  have "map_of (AList.delete i m) j = Some b" if "(j, b) \<in> set batch" for j b
    using that fresh Cons.prems(2) [of j b] by force
  from Cons.IH [OF ok this] show ?case unfolding run using ia by auto
qed (simp add: retire_def)

lemma retire_all: "keys_ok m \<Longrightarrow> retire m m = []"
proof -
  assume ok: "keys_ok m"
  have "map_of (retire m m) k = None" for k
    using retire_effect [OF ok, of m k] ok by (auto simp: keys_ok_def map_of_eq_None_iff)
  then have "map_of (retire m m) = Map.empty" by (rule ext)
  then show ?thesis by simp
qed

section \<open>The buffered catalog\<close>

abbreviation ss_tx :: "snapStore \<Rightarrow> tx" where "ss_tx ss \<equiv> mem_records (ss_store ss)"
abbreviation ss_live :: "snapStore \<Rightarrow> bool" where "ss_live ss \<equiv> \<not> mem_closed (ss_store ss)"

definition buffer_ok :: "accessBuffer \<Rightarrow> bool" where
  "buffer_ok b \<longleftrightarrow> keys_ok (ab_pending b) \<and> 0 < ab_limit b \<and> int (length (ab_pending b)) \<le> ab_limit b"

definition ss_inv :: "snapStore \<Rightarrow> bool" where
  "ss_inv ss \<longleftrightarrow> snapshot_inv (ss_tx ss) \<and> (\<forall>b. ss_accesses ss = Some b \<longrightarrow> buffer_ok b)"

definition pending :: "snapStore \<Rightarrow> string \<Rightarrow> time option" where
  "pending ss i = (case ss_accesses ss of None \<Rightarrow> None | Some b \<Rightarrow> map_of (ab_pending b) i)"

text \<open>A flush of a live catalog: it succeeds, persists the pending times and empties the buffer.\<close>

lemma FlushAccesses_live:
  assumes inv: "ss_inv ss" and live: "ss_live ss"
  shows "\<exists>ss'. FlushAccesses None ss = (None, ss') \<and> ss_inv ss' \<and> ss_live ss'
    \<and> snaps (ss_tx ss') = (\<lambda>i. map_option (flushed (pending ss i)) (snaps (ss_tx ss) i))
    \<and> snap_names (ss_tx ss') = snap_names (ss_tx ss) \<and> pending ss' = Map.empty
    \<and> (\<forall>c k. c \<noteq> CollectionSnapshots \<longrightarrow> lookup (ss_tx ss') c k = lookup (ss_tx ss) c k)
    \<and> (\<forall>c. declared (ss_tx ss') c = declared (ss_tx ss) c)
    \<and> (\<forall>b. ss_accesses ss = Some b \<longrightarrow> (\<exists>b'. ss_accesses ss' = Some b' \<and> ab_pending b' = [] \<and> ab_limit b' = ab_limit b))"
proof (cases "ss_accesses ss")
  case None
  then have "pending ss = Map.empty" by (simp add: pending_def fun_eq_iff)
  with None inv live show ?thesis by (simp add: FlushAccesses_def option.map_ident)
next
  case (Some b)
  then have b: "buffer_ok b" and t: "snapshot_inv (ss_tx ss)" using inv by (simp_all add: ss_inv_def)
  have p: "pending ss = map_of (ab_pending b)" using Some by (simp add: pending_def fun_eq_iff)
  show ?thesis
  proof (cases "ab_pending b = []")
    case True
    then show ?thesis using Some inv live p by (simp add: FlushAccesses_def option.map_ident)
  next
    case False
    from b have ok: "keys_ok (ab_pending b)" by (simp add: buffer_ok_def)
    from flush_batch_effect [OF t ok] obtain t' where t': "flush_batch None (ab_pending b) (ss_tx ss) = Inr ((), t')"
      and eff: "snapshot_inv t'" "snaps t' = (\<lambda>i. map_option (flushed (map_of (ab_pending b) i)) (snaps (ss_tx ss) i))"
        "snap_names t' = snap_names (ss_tx ss)" "\<forall>c k. c \<noteq> CollectionSnapshots \<longrightarrow> lookup t' c k = lookup (ss_tx ss) c k"
        "\<forall>c. declared t' c = declared (ss_tx ss) c"
      by blast
    let ?ss = "ss\<lparr>ss_store := (ss_store ss)\<lparr>mem_records := t'\<rparr>,
      ss_accesses := Some (b\<lparr>ab_pending := [], ab_generation := ab_generation b + 1\<rparr>)\<rparr>"
    have "FlushAccesses None ss = (None, ?ss)"
      using Some False t' live by (simp add: FlushAccesses_def Update_live retire_all [OF ok])
    moreover have "pending ?ss = Map.empty" by (simp add: pending_def fun_eq_iff)
    moreover have "ss_inv ?ss" using eff(1) b by (simp add: ss_inv_def buffer_ok_def)
    ultimately show ?thesis using eff live Some p by simp
  qed
qed

text \<open>A buffered record of one use terminates after at most one flush.\<close>

definition bumped :: "time \<Rightarrow> time option \<Rightarrow> time" where
  "bumped a p = (let previous = (case p of None \<Rightarrow> 0 | Some p \<Rightarrow> p) in if a < previous then previous else a)"

definition note_access :: "snapStore \<Rightarrow> string \<Rightarrow> time \<Rightarrow> snapStore" where
  "note_access ss i a = (case ss_accesses ss of None \<Rightarrow> ss
     | Some b \<Rightarrow> ss\<lparr>ss_accesses := Some (b\<lparr>ab_pending := AList.update i a (ab_pending b)\<rparr>)\<rparr>)"

lemma length_update_le:
  "length (AList.update k v m) = (if map_of m k = None then Suc (length m) else length m)"
  by (induction m) auto

lemma note_access_inv:
  assumes "ss_inv ss" and "ss_accesses ss = Some b" and "map_of (ab_pending b) i \<noteq> None \<or> int (length (ab_pending b)) < ab_limit b"
  shows "ss_inv (note_access ss i a)" and "pending (note_access ss i a) = (pending ss)(i \<mapsto> a)"
    and "ss_store (note_access ss i a) = ss_store ss"
  using assms by (auto simp: note_access_def ss_inv_def buffer_ok_def pending_def length_update_le fun_eq_iff)

lemma recordAccess_live:
  assumes inv: "ss_inv ss" and live: "ss_live ss" and b: "ss_accesses ss = Some b"
  shows "\<exists>ss1 b1. (ss1 = ss \<or> FlushAccesses None ss = (None, ss1)) \<and> ss_inv ss1 \<and> ss_live ss1 \<and> ss_accesses ss1 = Some b1
    \<and> (map_of (ab_pending b1) i \<noteq> None \<or> int (length (ab_pending b1)) < ab_limit b1)
    \<and> recordAccess None ss i a = Some (Inr (bumped a (pending ss1 i)), note_access ss1 i (bumped a (pending ss1 i)))"
proof (cases "map_of (ab_pending b) i \<noteq> None \<or> int (length (ab_pending b)) < ab_limit b")
  case True
  then show ?thesis
    using inv live b
    by (subst recordAccess.simps) (auto simp: bumped_def note_access_def pending_def Let_def split: option.splits)
next
  case False
  from FlushAccesses_live [OF inv live] b obtain ss1 b1 where fl: "FlushAccesses None ss = (None, ss1)"
    and ss1: "ss_inv ss1" "ss_live ss1" "ss_accesses ss1 = Some b1" "ab_pending b1 = []" by blast
  then have lim: "int (length (ab_pending b1)) < ab_limit b1" by (simp add: ss_inv_def buffer_ok_def)
  have "recordAccess None ss i a = recordAccess None ss1 i a"
    using False b fl by (subst recordAccess.simps) (auto simp: Let_def split: option.splits)
  also have "\<dots> = Some (Inr (bumped a (pending ss1 i)), note_access ss1 i (bumped a (pending ss1 i)))"
    using ss1 lim by (subst recordAccess.simps) (auto simp: bumped_def note_access_def pending_def Let_def split: option.splits)
  finally show ?thesis using fl ss1 lim by blast
qed

section \<open>Operations on the catalog\<close>

text \<open>Any outcome of any operation, from any caller.\<close>

inductive snapshot_step :: "snapStore \<Rightarrow> snapStore \<Rightarrow> bool" where
  snap_Reserve: "snapshot_Reserve ctx (ss_store ss) x = (res, s') \<Longrightarrow> snapshot_step ss (ss\<lparr>ss_store := s'\<rparr>)"
| snap_Commit: "snapshot_Commit ctx (ss_store ss) i sz a = (res', s') \<Longrightarrow> snapshot_step ss (ss\<lparr>ss_store := s'\<rparr>)"
| snap_Touch: "snapshot_Touch ctx ss i a = Some (res', ss') \<Longrightarrow> snapshot_step ss ss'"
| snap_Forget: "snapshot_Forget ctx (ss_store ss) i = (res, s') \<Longrightarrow> snapshot_step ss (ss\<lparr>ss_store := s'\<rparr>)"
| snap_BeginDelete: "snapshot_BeginDelete ctx (ss_store ss) ref = (res', s') \<Longrightarrow> snapshot_step ss (ss\<lparr>ss_store := s'\<rparr>)"
| snap_FinalizeDelete: "snapshot_FinalizeDelete ctx (ss_store ss) i = (res, s') \<Longrightarrow> snapshot_step ss (ss\<lparr>ss_store := s'\<rparr>)"
| snap_Flush: "FlushAccesses ctx ss = (err, ss') \<Longrightarrow> snapshot_step ss ss'"

definition good_step :: "snapStore \<Rightarrow> snapStore \<Rightarrow> bool" where
  "good_step ss ss' \<longleftrightarrow> ss_inv ss' \<and> (\<forall>i. snap_step (snaps (ss_tx ss) i) (snaps (ss_tx ss') i))
     \<and> (\<forall>c k. c \<notin> {CollectionSnapshots, CollectionSnapshotNames} \<longrightarrow> lookup (ss_tx ss') c k = lookup (ss_tx ss) c k)
     \<and> (\<forall>c. declared (ss_tx ss') c = declared (ss_tx ss) c)"

lemma good_step_refl: "ss_inv ss \<Longrightarrow> good_step ss ss"
  by (simp add: good_step_def)

lemma Update_good:
  assumes fn: "snap_good fn" and run: "Update ctx (ss_store ss) fn = (res, s')" and inv: "ss_inv ss"
  shows "good_step ss (ss\<lparr>ss_store := s'\<rparr>)"
proof (cases res)
  case (Inl e)
  then have "s' = ss_store ss" using Update_Inl run by metis
  then show ?thesis using good_step_refl [OF inv] by simp
next
  case (Inr x)
  then obtain t where t: "fn (ss_tx ss) = Inr (x, t)" "s' = (ss_store ss)\<lparr>mem_records := t\<rparr>"
    using run by (auto simp: Update_Inr)
  moreover have "snapshot_inv (ss_tx ss)" using inv by (simp add: ss_inv_def)
  moreover note fn [unfolded snap_good_def, rule_format, OF calculation(3) calculation(1)]
  ultimately show ?thesis using inv by (simp add: good_step_def ss_inv_def)
qed

lemma update_with_snap_good:
  assumes "snap_good fn" and "update_with ctx (ss_store ss) info fn = (res, s')" and "ss_inv ss"
  shows "good_step ss (ss\<lparr>ss_store := s'\<rparr>)"
proof (cases "Update ctx (ss_store ss) fn")
  case (Pair r s1)
  then have "s1 = s'" using assms(2) by (simp add: update_with_def)
  with Pair Update_good [OF assms(1) _ assms(3)] show ?thesis by blast
qed

lemma good_step_flush:
  assumes inv: "ss_inv ss" and run: "FlushAccesses ctx ss = (err, ss')"
  shows "good_step ss ss'"
proof (cases "ctx = None \<and> ss_live ss")
  case True
  from FlushAccesses_live [OF inv] True run have
    "ss_inv ss'" "snaps (ss_tx ss') = (\<lambda>i. map_option (flushed (pending ss i)) (snaps (ss_tx ss) i))"
    "\<forall>c k. c \<noteq> CollectionSnapshots \<longrightarrow> lookup (ss_tx ss') c k = lookup (ss_tx ss) c k"
    "\<forall>c. declared (ss_tx ss') c = declared (ss_tx ss) c" by auto
  moreover have "snap_step x (map_option (flushed a) x)" for x a by (cases x) simp_all
  ultimately show ?thesis by (simp add: good_step_def)
next
  case False
  then have "ss' = ss"
    using run by (auto simp: FlushAccesses_def Update_def Memory_snapshot_def Let_def split: option.splits if_splits)
  then show ?thesis using good_step_refl [OF inv] by simp
qed

lemma good_step_note:
  assumes "good_step ss ss1" and "ss_accesses ss1 = Some b"
    and "map_of (ab_pending b) i \<noteq> None \<or> int (length (ab_pending b)) < ab_limit b"
  shows "good_step ss (note_access ss1 i a)"
proof -
  have "ss_inv ss1" using assms(1) by (simp add: good_step_def)
  then show ?thesis using assms note_access_inv [OF _ assms(2,3)] by (simp add: good_step_def)
qed

lemma snapshot_view_Inr:
  "snapshot_view ctx ss fn = Inr x \<longleftrightarrow> ctx = None \<and> ss_live ss \<and> fn (ss_tx ss) = Inr x"
  by (auto simp: snapshot_view_def View_Inr split: option.splits)

lemma snapshot_view_live: "ss_live ss \<Longrightarrow> snapshot_view None ss fn = fn (ss_tx ss)"
  by (auto simp: snapshot_view_def View_live split: option.splits)

lemma good_step_buffer:
  assumes inv: "ss_inv ss" and run: "bufferAccess ctx ss i a = Some (res, ss')" and b: "ss_accesses ss = Some b"
  shows "good_step ss ss'"
proof (cases "ctx = None \<and> ss_live ss")
  case True
  from recordAccess_live [OF inv _ b, of i a] True obtain ss1 b1 where
    ss1: "ss1 = ss \<or> FlushAccesses None ss = (None, ss1)" "ss_accesses ss1 = Some b1"
      "map_of (ab_pending b1) i \<noteq> None \<or> int (length (ab_pending b1)) < ab_limit b1"
    and rec: "recordAccess None ss i a = Some (Inr (bumped a (pending ss1 i)), note_access ss1 i (bumped a (pending ss1 i)))"
    by blast
  have "good_step ss ss1" using ss1(1) good_step_refl [OF inv] good_step_flush [OF inv] by auto
  then have "good_step ss (note_access ss1 i (bumped a (pending ss1 i)))" by (rule good_step_note [OF _ ss1(2,3)])
  moreover have "ss' = ss \<or> ss' = note_access ss1 i (bumped a (pending ss1 i))"
    using run True rec by (auto simp: bufferAccess_def Let_def split: sum.splits if_splits)
  ultimately show ?thesis using good_step_refl [OF inv] by blast
next
  case False
  then have "snapshot_view ctx ss fn \<noteq> Inr x" for fn and x :: Snapshot by (auto simp: snapshot_view_Inr)
  then have "ss' = ss" using run by (auto simp: bufferAccess_def Let_def split: sum.splits)
  then show ?thesis using good_step_refl [OF inv] by simp
qed

lemma snapshot_loaders_good:
  "snap_good (modify_snapshot ctx (\<lambda>t. load_snapshot ctx t i) (\<lambda>_. i) (commit_body sz a))"
  "snap_good (modify_snapshot ctx (\<lambda>t. load_snapshot ctx t i) (\<lambda>_. i) (touch_body i a))"
  "snap_good (modify_snapshot ctx (\<lambda>t. resolve_snapshot ctx t ref) sd_ID (delete_snapshot_body ref))"
  using load_snapshot_Inr resolve_snapshot_Inr
  by (blast intro: commit.modify_snapshot_good touch.modify_snapshot_good mark_deleting.modify_snapshot_good)+

lemma snapshot_step_good:
  assumes "snapshot_step ss ss'" and inv: "ss_inv ss"
  shows "good_step ss ss'"
  using assms(1)
proof cases
  case (snap_Reserve ctx x res s')
  then show ?thesis
    using update_with_snap_good [OF reserve_snapshot_good _ inv] good_step_refl [OF inv]
    by (auto simp: snapshot_Reserve_def split: option.splits)
next
  case (snap_Commit ctx i sz a res s')
  then show ?thesis
    using update_with_snap_good [OF snapshot_loaders_good(1) _ inv] good_step_refl [OF inv]
    by (auto simp: snapshot_Commit_def split: if_splits)
next
  case (snap_Touch ctx i a res)
  then show ?thesis
    using update_with_snap_good [OF snapshot_loaders_good(2) _ inv] good_step_refl [OF inv] good_step_buffer [OF inv]
    by (auto simp: snapshot_Touch_def snapshot_Touch_sync_def split: if_splits option.splits prod.splits)
next
  case (snap_Forget ctx i res s')
  then show ?thesis using Update_good [OF forget_snapshot_good _ inv] by (simp add: snapshot_Forget_def)
next
  case (snap_BeginDelete ctx ref res s')
  then show ?thesis
    using update_with_snap_good [OF snapshot_loaders_good(3) _ inv] by (simp add: snapshot_BeginDelete_def)
next
  case (snap_FinalizeDelete ctx i res s')
  then show ?thesis
    using update_with_snap_good [OF finalize_snapshot_good _ inv] by (simp add: snapshot_FinalizeDelete_def)
next
  case (snap_Flush ctx err)
  then show ?thesis by (rule good_step_flush [OF inv])
qed

section \<open>What a caller sees\<close>

text \<open>The abstract catalog: the published snapshots that are not marked for deletion, with the latest
  usage time, persisted or pending. A buffered catalog assumes that no stored time is before the zero
  time of the clock.\<close>

definition visible :: "snapStore \<Rightarrow> string \<rightharpoonup> Snapshot" where
  "visible ss i = (case snaps (ss_tx ss) i of None \<Rightarrow> None
     | Some d \<Rightarrow> if sd_Ready d \<and> \<not> sd_Deleting d then Some (visibleAccess ss (projr (decodeSnapshot d))) else None)"

definition times_ok :: "snapStore \<Rightarrow> bool" where
  "times_ok ss \<longleftrightarrow> (\<forall>d \<in> ran (snaps (ss_tx ss)). 0 \<le> effective_access d)"

definition seen :: "time \<Rightarrow> time option \<Rightarrow> time" where
  "seen a p = (case p of None \<Rightarrow> a | Some p \<Rightarrow> max a p)"

lemma decodes_value: "decodes d \<Longrightarrow> decodeSnapshot d = Inr (projr (decodeSnapshot d))"
  by (auto simp: decodes_def)

lemma value_fields:
  assumes "decodes d"
  shows "snap_ID (projr (decodeSnapshot d)) = sd_ID d" "snap_LastAccessedAt (projr (decodeSnapshot d)) = effective_access d"
  using decodes_value [OF assms] by (auto simp: decodeSnapshot_Inr snapshot_value_def effective_access_def)

lemma value_access:
  assumes "decodes d"
  shows "projr (decodeSnapshot (d\<lparr>sd_LastAccessedAt := a\<rparr>))
    = (projr (decodeSnapshot d))\<lparr>snap_LastAccessedAt := if a = 0 then sd_CreatedAt d else a\<rparr>"
proof -
  from decodes_value [OF assms] obtain g where g: "wf_digest g" "sd_ImageDigest d = Digest_String g"
    "projr (decodeSnapshot d) = snapshot_value d g" "Snapshot_Validate (snapshot_value d g) = None"
    by (auto simp: decodeSnapshot_Inr)
  let ?x = "(snapshot_value d g)\<lparr>snap_LastAccessedAt := if a = 0 then sd_CreatedAt d else a\<rparr>"
  have "?x = snapshot_value (d\<lparr>sd_LastAccessedAt := a\<rparr>) g" by (simp add: snapshot_value_def)
  moreover have "Snapshot_Validate ?x = None" using g(4) by (simp only: Snapshot_Validate_access)
  ultimately have "decodeSnapshot (d\<lparr>sd_LastAccessedAt := a\<rparr>) = Inr ?x"
    unfolding decodeSnapshot_Inr using g(1,2) by (intro exI [of _ g]) simp
  then show ?thesis using g(3) by simp
qed

lemma visibleAccess_seen:
  assumes "0 \<le> snap_LastAccessedAt x"
  shows "visibleAccess ss x = x\<lparr>snap_LastAccessedAt := seen (snap_LastAccessedAt x) (pending ss (snap_ID x))\<rparr>"
  using assms by (auto simp: visibleAccess_def seen_def pending_def Let_def max_def split: option.splits)

lemma visible_record:
  assumes "ss_inv ss" and "times_ok ss" and "snaps (ss_tx ss) i = Some d"
  shows "visible ss i = (if sd_Ready d \<and> \<not> sd_Deleting d
    then Some ((projr (decodeSnapshot d))\<lparr>snap_LastAccessedAt := seen (effective_access d) (pending ss i)\<rparr>) else None)"
proof -
  have d: "decodes d" "sd_ID d = i" using assms(1,3) snaps_Some by (auto simp: ss_inv_def)
  have "0 \<le> effective_access d" using assms(2,3) by (auto simp: times_ok_def ran_def)
  then show ?thesis using assms(3) d by (simp add: visible_def visibleAccess_seen value_fields)
qed

lemma visible_None: "snaps (ss_tx ss) i = None \<Longrightarrow> visible ss i = None"
  by (simp add: visible_def)

lemma effective_flushed:
  assumes "0 \<le> effective_access d" and "sd_Ready d" and "\<not> sd_Deleting d"
  shows "effective_access (flushed p d) = seen (effective_access d) p"
  using assms by (auto simp: flushed_def seen_def effective_access_def max_def split: option.splits)

lemma flushed_value:
  assumes "decodes d"
  shows "(projr (decodeSnapshot (flushed p d)))\<lparr>snap_LastAccessedAt := a\<rparr> = (projr (decodeSnapshot d))\<lparr>snap_LastAccessedAt := a\<rparr>"
  using value_access [OF assms] by (simp add: flushed_def split: option.splits)

text \<open>A flush is invisible to callers.\<close>

lemma flush_visible:
  assumes inv: "ss_inv ss" and live: "ss_live ss" and times: "times_ok ss" and run: "FlushAccesses None ss = (err, ss')"
  shows "err = None \<and> ss_inv ss' \<and> ss_live ss' \<and> times_ok ss' \<and> visible ss' = visible ss \<and> pending ss' = Map.empty"
proof -
  from FlushAccesses_live [OF inv live] run have err: "err = None" and ss': "ss_inv ss'" "ss_live ss'" "pending ss' = Map.empty"
    and recs: "snaps (ss_tx ss') = (\<lambda>i. map_option (flushed (pending ss i)) (snaps (ss_tx ss) i))" by auto
  have nonneg: "0 \<le> effective_access d" if "snaps (ss_tx ss) i = Some d" for i d
    using times that by (auto simp: times_ok_def ran_def)
  have keep: "effective_access d \<le> effective_access (flushed p d)" if "0 \<le> effective_access d" for d p
    using that by (auto simp: flushed_def effective_access_def split: option.splits)
  have times': "times_ok ss'"
    unfolding times_ok_def
  proof
    fix d assume "d \<in> ran (snaps (ss_tx ss'))"
    then obtain i d0 where "snaps (ss_tx ss) i = Some d0" "d = flushed (pending ss i) d0" by (auto simp: ran_def recs)
    then show "0 \<le> effective_access d" using nonneg keep by (metis order_trans)
  qed
  have "visible ss' i = visible ss i" for i
  proof (cases "snaps (ss_tx ss) i")
    case (Some d)
    then have d': "snaps (ss_tx ss') i = Some (flushed (pending ss i) d)" by (simp add: recs)
    have dec: "decodes d" using inv Some snaps_Some(2) by (auto simp: ss_inv_def)
    show ?thesis
      using nonneg [OF Some] ss'(3)
      by (simp add: visible_record [OF inv times Some] visible_record [OF ss'(1) times' d'] flushed_value [OF dec]
          effective_flushed seen_def)
  qed (simp add: recs visible_None)
  then have "visible ss' = visible ss" by (rule ext)
  with err ss' times' show ?thesis by blast
qed

text \<open>A new pending time is seen by the snapshot it belongs to only.\<close>

lemma note_access_visible:
  assumes inv: "ss_inv ss" and times: "times_ok ss" and b: "ss_accesses ss = Some b"
    and room: "map_of (ab_pending b) i \<noteq> None \<or> int (length (ab_pending b)) < ab_limit b"
    and x: "visible ss i = Some x" and newer: "snap_LastAccessedAt x < a"
  shows "visible (note_access ss i a) = (visible ss)(i \<mapsto> x\<lparr>snap_LastAccessedAt := a\<rparr>)"
proof (rule ext)
  fix j
  note na = note_access_inv [OF inv b room, of a]
  have times': "times_ok (note_access ss i a)" using times na(3) by (simp add: times_ok_def)
  show "visible (note_access ss i a) j = ((visible ss)(i \<mapsto> x\<lparr>snap_LastAccessedAt := a\<rparr>)) j"
  proof (cases "snaps (ss_tx ss) j")
    case (Some d)
    then have d: "snaps (ss_tx (note_access ss i a)) j = Some d" by (simp add: na(3))
    have "seen (effective_access d) (Some a) = a" if "j = i"
      using x newer that visible_record [OF inv times Some] by (auto simp: seen_def split: if_splits option.splits)
    then show ?thesis
      using x visible_record [OF inv times Some] visible_record [OF na(1) times' d] na(2)
      by (auto split: if_splits)
  next
    case None
    then show ?thesis using x by (auto simp: visible_def na(3))
  qed
qed

lemma bumped_newer:
  assumes "ss_inv ss" and "times_ok ss" and "visible ss i = Some x" and "snap_LastAccessedAt x < a"
  shows "bumped a (pending ss i) = a"
proof -
  obtain d where d: "snaps (ss_tx ss) i = Some d" using assms(3) by (auto simp: visible_def split: option.splits)
  then have "0 \<le> effective_access d" using assms(2) by (auto simp: times_ok_def ran_def)
  moreover have "seen (effective_access d) (pending ss i) < a"
    using assms(3,4) visible_record [OF assms(1,2) d] by (auto split: if_splits)
  ultimately show ?thesis by (auto simp: bumped_def seen_def split: option.splits)
qed

lemma visible_load:
  assumes inv: "ss_inv ss" and x: "visible ss i = Some x"
  obtains d where "snaps (ss_tx ss) i = Some d" and "load_snapshot None (ss_tx ss) i = Inr d" and "sd_Ready d"
    and "\<not> sd_Deleting d" and "decodes d" and "visibleAccess ss (projr (decodeSnapshot d)) = x"
proof -
  from x obtain d where d: "snaps (ss_tx ss) i = Some d" "sd_Ready d" "\<not> sd_Deleting d"
    "visibleAccess ss (projr (decodeSnapshot d)) = x" by (auto simp: visible_def split: option.splits if_splits)
  have t: "snapshot_inv (ss_tx ss)" using inv by (simp add: ss_inv_def)
  show thesis by (rule that [OF d(1) _ d(2,3) snaps_Some(2) [OF t d(1)] d(4)]) (simp add: load_snapshot_inv [OF t] d(1))
qed

lemma touch_buffered:
  assumes inv: "ss_inv ss" and live: "ss_live ss" and times: "times_ok ss" and b: "ss_accesses ss = Some b"
    and x: "visible ss i = Some x" and a: "a \<noteq> 0"
  shows "\<exists>ss'. snapshot_Touch None ss i a = Some (Inr (x\<lparr>snap_LastAccessedAt := max (snap_LastAccessedAt x) a\<rparr>), ss')
    \<and> visible ss' = (visible ss)(i \<mapsto> x\<lparr>snap_LastAccessedAt := max (snap_LastAccessedAt x) a\<rparr>)"
proof -
  from visible_load [OF inv x] obtain d where d: "load_snapshot None (ss_tx ss) i = Inr d" "sd_Ready d" "decodes d"
    "visibleAccess ss (projr (decodeSnapshot d)) = x" by metis
  have view: "snapshot_view None ss (\<lambda>t. bindE (load_snapshot None t i) (\<lambda>d.
          if \<not> sd_Ready d then Inl (notFound i)
          else bindE (decodeSnapshot d) (\<lambda>result. Inr (visibleAccess ss result)))) = Inr x"
    using d decodes_value [OF d(3)] by (simp add: snapshot_view_live [OF live]) (metis bindE_Inr)
  show ?thesis
  proof (cases "snap_LastAccessedAt x < a")
    case True
    from recordAccess_live [OF inv live b, of i a] obtain ss1 b1 where
      ss1: "ss1 = ss \<or> FlushAccesses None ss = (None, ss1)" "ss_inv ss1" "ss_accesses ss1 = Some b1"
        "map_of (ab_pending b1) i \<noteq> None \<or> int (length (ab_pending b1)) < ab_limit b1"
      and rec: "recordAccess None ss i a = Some (Inr (bumped a (pending ss1 i)), note_access ss1 i (bumped a (pending ss1 i)))"
      by blast
    have vis: "visible ss1 = visible ss" "times_ok ss1"
      using ss1(1) times flush_visible [OF inv live times] by auto
    then have x1: "visible ss1 i = Some x" using x by simp
    have bump: "bumped a (pending ss1 i) = a" by (rule bumped_newer [OF ss1(2) vis(2) x1 True])
    have "visible (note_access ss1 i a) = (visible ss)(i \<mapsto> x\<lparr>snap_LastAccessedAt := a\<rparr>)"
      using note_access_visible [OF ss1(2) vis(2) ss1(3,4) x1 True] vis(1) by simp
    moreover have "snapshot_Touch None ss i a = Some (Inr (x\<lparr>snap_LastAccessedAt := a\<rparr>), note_access ss1 i a)"
      using a b True rec bump by (simp add: snapshot_Touch_def bufferAccess_def Let_def view)
    ultimately show ?thesis using True by (simp add: max_def)
  next
    case False
    then have "snapshot_Touch None ss i a = Some (Inr x, ss)"
      using a b by (simp add: snapshot_Touch_def bufferAccess_def Let_def view)
    with False x show ?thesis by (simp add: max_def fun_upd_idem)
  qed
qed

lemma pending_unbuffered: "ss_accesses ss = None \<Longrightarrow> pending ss = Map.empty"
  by (simp add: pending_def fun_eq_iff)

lemma touch_sync:
  assumes inv: "ss_inv ss" and live: "ss_live ss" and times: "times_ok ss" and b: "ss_accesses ss = None"
    and x: "visible ss i = Some x" and a: "a \<noteq> 0"
  shows "\<exists>ss'. snapshot_Touch None ss i a = Some (Inr (x\<lparr>snap_LastAccessedAt := max (snap_LastAccessedAt x) a\<rparr>), ss')
    \<and> visible ss' = (visible ss)(i \<mapsto> x\<lparr>snap_LastAccessedAt := max (snap_LastAccessedAt x) a\<rparr>)"
proof -
  from visible_load [OF inv x] obtain d where sd: "snaps (ss_tx ss) i = Some d"
    and d: "load_snapshot None (ss_tx ss) i = Inr d" "sd_Ready d" "\<not> sd_Deleting d" "decodes d"
    "visibleAccess ss (projr (decodeSnapshot d)) = x" by metis
  have t: "snapshot_inv (ss_tx ss)" using inv by (simp add: ss_inv_def)
  have vx: "projr (decodeSnapshot d) = x" using d(5) b by (simp add: visibleAccess_def)
  have dec: "decodeSnapshot d = Inr x" using decodes_value [OF d(4)] vx by simp
  have acc: "snap_LastAccessedAt x = effective_access d" using value_fields(2) [OF d(4)] vx by simp
  show ?thesis
  proof (cases "effective_access d < a")
    case False
    then have "snapshot_Touch None ss i a = Some (Inr x, ss)"
      using a b d dec live
      by (simp add: snapshot_Touch_def snapshot_Touch_sync_def update_with_def Update_live modify_snapshot_def touch_body_def)
    with False x acc show ?thesis by (simp add: max_def fun_upd_idem)
  next
    case True
    let ?d = "d\<lparr>sd_LastAccessedAt := a\<rparr>" and ?x = "x\<lparr>snap_LastAccessedAt := a\<rparr>"
    have dec': "decodeSnapshot ?d = Inr ?x"
      using decodes_value [of ?d] value_access [OF d(4), of a] d(4) vx a by simp
    obtain t' where put: "Put None (ss_tx ss) CollectionSnapshots i (P_snapshot ?d) = Inr t'"
      using Put_live [OF snapshot_invD(2) [OF t]] by blast
    let ?ss = "ss\<lparr>ss_store := (ss_store ss)\<lparr>mem_records := t'\<rparr>\<rparr>"
    have run: "snapshot_Touch None ss i a = Some (Inr ?x, ?ss)"
      using a b d True dec' live put
      by (simp add: snapshot_Touch_def snapshot_Touch_sync_def update_with_def Update_live modify_snapshot_def touch_body_def)
    have "visible ?ss = (visible ss)(i \<mapsto> ?x)"
      using b d(2,3) dec' by (auto simp: visible_def fun_eq_iff snaps_Put [OF put] visibleAccess_def split: option.splits)
    with run True acc show ?thesis by (simp add: max_def)
  qed
qed

section \<open>Queries\<close>

lemma visible_decoded:
  assumes "ss_inv ss" and "snaps (ss_tx ss) i = Some d"
  shows "decodeSnapshot d = Inr (projr (decodeSnapshot d))"
  using assms snaps_Some(2) decodes_value by (auto simp: ss_inv_def)

definition snapshot_target :: "snapStore \<Rightarrow> string \<Rightarrow> string" where
  "snapshot_target ss ref = (case snap_names (ss_tx ss) ref of Some i \<Rightarrow> i | None \<Rightarrow> ref)"

lemma resolve_target:
  assumes inv: "ss_inv ss" and ne: "ref \<noteq> []"
  shows "resolve_snapshot None (ss_tx ss) ref = (case snaps (ss_tx ss) (snapshot_target ss ref) of
     Some d \<Rightarrow> Inr d | None \<Rightarrow> Inl (notFound ref))"
proof -
  have t: "snapshot_inv (ss_tx ss)" using inv by (simp add: ss_inv_def)
  show ?thesis
  proof (cases "snap_names (ss_tx ss) ref")
    case (Some i)
    obtain d where "snaps (ss_tx ss) i = Some d" by (rule index_ok_nameE [OF snapshot_invD(4) [OF t] Some])
    then show ?thesis using Some ne by (simp add: resolve_snapshot_inv [OF t] snapshot_target_def)
  qed (use ne in \<open>simp add: resolve_snapshot_inv [OF t] snapshot_target_def\<close>)
qed

lemma snapshot_Resolve_live:
  assumes inv: "ss_inv ss" and live: "ss_live ss" and ne: "ref \<noteq> []"
  shows "snapshot_Resolve None ss ref = ctxE 2 (context_info ''resolve snapshot'' ref ''metadata'' ''check the snapshot name or ID'')
    (case visible ss (snapshot_target ss ref) of Some x \<Rightarrow> Inr x | None \<Rightarrow> Inl (notFound ref))"
proof (cases "snaps (ss_tx ss) (snapshot_target ss ref)")
  case None
  then show ?thesis
    by (simp add: snapshot_Resolve_def snapshot_view_live [OF live] resolve_target [OF inv ne] visible_def)
next
  case (Some d)
  then show ?thesis
    using visible_decoded [OF inv Some]
    by (simp add: snapshot_Resolve_def snapshot_view_live [OF live] resolve_target [OF inv ne] visible_def) (metis bindE_Inr)
qed

lemma snapshot_list_collect:
  "snapshot_list_visit ss i raw result = bindE (bindE (decode_snapshot raw) (\<lambda>d.
     if sd_ID d \<noteq> i then Inl (corrupt_snapshot (Msg ''snapshot record key differs from ID''))
     else if sd_Ready d \<and> \<not> sd_Deleting d then bindE (decodeSnapshot d) (\<lambda>x. Inr [visibleAccess ss x])
     else Inr [])) (\<lambda>ys. Inr (result @ ys))"
  by (cases "decode_snapshot raw"; cases "decodeSnapshot (projr (decode_snapshot raw))") (simp_all add: snapshot_list_visit_def)

lemma Scan_snapshots:
  assumes inv: "ss_inv ss"
  shows "Scan None (ss_tx ss) CollectionSnapshots (snapshot_list_visit ss) []
    = Inr (List.map_filter (\<lambda>(i, _). visible ss i) (entries (ss_tx ss) CollectionSnapshots))"
proof -
  let ?t = "ss_tx ss" and ?es = "entries (ss_tx ss) CollectionSnapshots"
  have t: "snapshot_inv ?t" using inv by (simp add: ss_inv_def)
  let ?g = "\<lambda>i raw. bindE (decode_snapshot raw) (\<lambda>d.
     if sd_ID d \<noteq> i then Inl (corrupt_snapshot (Msg ''snapshot record key differs from ID''))
     else if sd_Ready d \<and> \<not> sd_Deleting d then bindE (decodeSnapshot d) (\<lambda>x. Inr [visibleAccess ss x])
     else Inr [])"
  have item: "?g i p = Inr (case visible ss i of None \<Rightarrow> [] | Some x \<Rightarrow> [x])" if "(i, p) \<in> set ?es" for i p
  proof -
    have "lookup ?t CollectionSnapshots i = Some p"
      using that entries_lookup [OF snapshot_invD(1,2) [OF t]] by simp
    then obtain d where p: "p = P_snapshot d" and d: "snaps ?t i = Some d" by (auto simp: snaps_lookup [OF t])
    show ?thesis
      using visible_decoded [OF inv d] snaps_Some(1,2) [OF t d] d
      by (simp add: p decode_snapshot_Inr [THEN iffD2] visible_def) (metis bindE_Inr)
  qed
  have "mapE (\<lambda>(i, p). ?g i p) ?es = Inr (map (\<lambda>(i, p). case visible ss i of None \<Rightarrow> [] | Some x \<Rightarrow> [x]) ?es)"
    by (rule mapE_map_Inr) (use item in auto)
  moreover have "concat (map (\<lambda>(i, p). case visible ss i of None \<Rightarrow> [] | Some x \<Rightarrow> [x]) es)
      = List.map_filter (\<lambda>(i, _). visible ss i) es" for es :: "(string \<times> payload) list"
    by (induction es) (auto simp: map_filter_simps split: option.splits)
  ultimately show ?thesis
    using scan_loop_collect [of "snapshot_list_visit ss" ?g, OF snapshot_list_collect, of ?es "[]"]
    by (simp add: Scan_live [OF snapshot_invD(2) [OF t]])
qed

lemma visibleAccess_ID: "snap_ID (visibleAccess ss x) = snap_ID x"
  by (simp add: visibleAccess_def Let_def split: option.splits)

lemma map_filter_keys:
  fixes es :: "(string \<times> 'p) list"
  assumes "sorted (map fst es) \<and> distinct (map fst es)" and "\<And>i y. f i = Some y \<Longrightarrow> key y = i"
  shows "sorted (map key (List.map_filter (\<lambda>(i, _). f i) es)) \<and> distinct (map key (List.map_filter (\<lambda>(i, _). f i) es))"
  using assms(1)
proof (induction es)
  case (Cons e es)
  have sub: "key y \<in> fst ` set es" if "y \<in> set (List.map_filter (\<lambda>(i, _). f i) es)" for y
    using that assms(2) by (force simp: map_filter_def)
  have "fst e \<le> key y" if "y \<in> set (List.map_filter (\<lambda>(i, _). f i) es)" for y
    using sub [OF that] Cons.prems by auto
  then show ?case using Cons assms(2) [of "fst e"] sub
    by (cases e; cases "f (fst e)") (auto simp: map_filter_simps)
qed (simp add: map_filter_simps)

lemma visible_ID:
  assumes "ss_inv ss" and "visible ss i = Some y"
  shows "snap_ID y = i"
proof (rule visible_load [OF assms])
  fix d assume d: "snaps (ss_tx ss) i = Some d" and dec: "decodes d" and y: "visibleAccess ss (projr (decodeSnapshot d)) = y"
  then show ?thesis
    using visibleAccess_ID [of ss "projr (decodeSnapshot d)"] value_fields(1) [OF dec] snaps_Some(1) assms(1)
    by (auto simp: ss_inv_def)
qed

lemma snapshot_List_live:
  assumes "ss_inv ss" and "ss_live ss"
  shows "\<exists>xs. snapshot_List None ss = Inr xs \<and> set xs = ran (visible ss) \<and> distinct (map snap_ID xs)
         \<and> sorted (map (\<lambda>r. (- snap_CreatedAt r, snap_ID r)) xs)"
proof -
  let ?t = "ss_tx ss"
  let ?es = "entries ?t CollectionSnapshots"
  let ?items = "List.map_filter (\<lambda>(i, _). visible ss i) ?es"
  have t: "snapshot_inv ?t" using assms(1) by (simp add: ss_inv_def)
  have key: "i \<in> fst ` set ?es \<and> snap_ID y = i" if "visible ss i = Some y" for i y
  proof (rule visible_load [OF assms(1) that])
    fix d assume d: "snaps ?t i = Some d" and dec: "decodes d" and y: "visibleAccess ss (projr (decodeSnapshot d)) = y"
    have "lookup ?t CollectionSnapshots i = Some (P_snapshot d)" using d by (simp add: snaps_lookup [OF t])
    then have "(i, P_snapshot d) \<in> set ?es" by (simp add: entries_lookup [OF snapshot_invD(1,2) [OF t]])
    moreover have "snap_ID y = i"
      using visibleAccess_ID [of ss "projr (decodeSnapshot d)"] value_fields(1) [OF dec] snaps_Some(1) [OF t d] y by simp
    ultimately show ?thesis by force
  qed
  have "set ?items = {y. \<exists>i \<in> fst ` set ?es. visible ss i = Some y}" by (force simp: map_filter_def)
  then have items: "set ?items = ran (visible ss)" using key unfolding ran_def by blast
  have ids: "sorted (map snap_ID ?items) \<and> distinct (map snap_ID ?items)"
    using entries_sorted [OF snapshot_invD(1,2) [OF t]] map_filter_keys [of ?es "visible ss" snap_ID] key by blast
  have "snapshot_List None ss = Inr (sort_key (\<lambda>r. (- snap_CreatedAt r, snap_ID r)) ?items)"
    by (simp add: snapshot_List_def snapshot_view_live [OF assms(2)] Scan_snapshots [OF assms(1)])
  then show "\<exists>xs. snapshot_List None ss = Inr xs \<and> set xs = ran (visible ss) \<and> distinct (map snap_ID xs)
         \<and> sorted (map (\<lambda>r. (- snap_CreatedAt r, snap_ID r)) xs)"
    using items ids by (simp add: distinct_map_sort)
qed

lemma BeginDelete_hides:
  assumes inv: "ss_inv ss" and live: "ss_live ss" and ne: "ref \<noteq> []"
    and y: "visible ss (snapshot_target ss ref) = Some y"
  shows "\<exists>r s'. snapshot_BeginDelete None (ss_store ss) ref = (Inr r, s') \<and> snap_ID r = snapshot_target ss ref
    \<and> visible (ss\<lparr>ss_store := s'\<rparr>) = (visible ss)(snapshot_target ss ref := None)"
proof (rule visible_load [OF inv y])
  let ?j = "snapshot_target ss ref"
  have t: "snapshot_inv (ss_tx ss)" using inv by (simp add: ss_inv_def)
  fix d assume d: "snaps (ss_tx ss) ?j = Some d" and fl: "sd_Ready d" "\<not> sd_Deleting d" and dec: "decodes d"
  have id: "sd_ID d = ?j" by (rule snaps_Some(1) [OF t d])
  obtain t' where put: "Put None (ss_tx ss) CollectionSnapshots ?j (P_snapshot (d\<lparr>sd_Deleting := True\<rparr>)) = Inr t'"
    using Put_live [OF snapshot_invD(2) [OF t]] by blast
  let ?s = "(ss_store ss)\<lparr>mem_records := t'\<rparr>"
  obtain r where r: "decodeSnapshot d = Inr r" using dec by (auto simp: decodes_def)
  then have "snapshot_BeginDelete None (ss_store ss) ref = (Inr r, ?s)"
    using fl id d put live
    by (simp add: snapshot_BeginDelete_def update_with_def Update_live modify_snapshot_def resolve_target [OF inv ne]
        delete_snapshot_body_def)
  moreover have "visible (ss\<lparr>ss_store := ?s\<rparr>) = (visible ss)(?j := None)"
    by (auto simp: visible_def visibleAccess_def fun_eq_iff snaps_Put [OF put] split: option.splits)
  moreover have "snap_ID r = ?j" using value_fields(1) [OF dec] id r by simp
  ultimately show ?thesis by blast
qed

section \<open>Properties\<close>

lemma ss_inv_new:
  assumes "NewMemory cs = Inr s" and "CollectionSnapshots \<in> set cs" and "CollectionSnapshotNames \<in> set cs"
    and "ss = \<lparr>ss_store = s, ss_accesses = None\<rparr> \<or> NewBuffered s capacity = Inr ss"
  shows "ss_inv ss" and "ss_store ss = s"
proof -
  have "snapshot_inv (mem_records s)"
    using assms(2,3) by (simp add: snapshot_inv_def snaps_def snap_names_def index_ok_def NewMemory_empty [OF assms(1)])
  with assms(4) show "ss_inv ss" "ss_store ss = s"
    by (auto simp: ss_inv_def NewBuffered_def buffer_ok_def split: if_splits)
qed

text \<open>
  C28. Every operation moves each snapshot record along its lifecycle only: a record appears
  unpublished, is published once, is then only touched to a later usage time or marked for deletion,
  and disappears only while unpublished or marked. Everything else in the record, and every
  collection of the other catalogs, stays as it is.
\<close>

theorem snapshot_step_lifecycle:
  assumes "ss_inv ss" and "snapshot_step ss ss'"
  shows "snap_step (snaps (ss_tx ss) i) (snaps (ss_tx ss') i)
    \<and> (c \<notin> {CollectionSnapshots, CollectionSnapshotNames} \<longrightarrow> lookup (ss_tx ss') c k = lookup (ss_tx ss) c k)"
  using snapshot_step_good [OF assms(2,1)] by (simp add: good_step_def)

text \<open>
   On a live catalog \<open>Resolve\<close> answers from the visible snapshots: a reference that is a stored
  name stands for the snapshot that carries it, any other reference for itself; an empty reference is
  invalid and everything else is not found. \<open>List\<close> returns every visible snapshot once, newest first.
\<close>

theorem snapshot_queries_correct:
  assumes "ss_inv ss" and "ss_live ss"
  shows "(visible ss (snapshot_target ss ref) = Some x \<and> ref \<noteq> [] \<longleftrightarrow> snapshot_Resolve None ss ref = Inr x)
    \<and> (visible ss (snapshot_target ss ref) = None \<and> ref \<noteq> [] \<longrightarrow>
         (\<exists>e. snapshot_Resolve None ss ref = Inl e \<and> CodeOf e = Some CodeNotFound))
    \<and> (\<exists>e. snapshot_Resolve None ss [] = Inl e \<and> CodeOf e = Some CodeInvalidArgument)
    \<and> (\<exists>xs. snapshot_List None ss = Inr xs \<and> set xs = ran (visible ss) \<and> distinct (map snap_ID xs)
         \<and> sorted (map (\<lambda>r. (- snap_CreatedAt r, snap_ID r)) xs))"
proof -
  have t: "snapshot_inv (ss_tx ss)" using assms(1) by (simp add: ss_inv_def)
  have empty: "\<exists>e. snapshot_Resolve None ss [] = Inl e \<and> CodeOf e = Some CodeInvalidArgument"
    by (simp add: snapshot_Resolve_def snapshot_view_live [OF assms(2)] resolve_snapshot_inv [OF t]
        ctxE_def WithContext_def New_def CodeOf_def)
  have missing: "\<exists>e. snapshot_Resolve None ss ref = Inl e \<and> CodeOf e = Some CodeNotFound"
    if "visible ss (snapshot_target ss ref) = None" "ref \<noteq> []"
    using that by (simp add: snapshot_Resolve_live [OF assms] notFound_def ctxE_def WithContext_def New_def CodeOf_def)
  have found: "visible ss (snapshot_target ss ref) = Some x \<and> ref \<noteq> [] \<longleftrightarrow> snapshot_Resolve None ss ref = Inr x"
    using empty by (cases "ref = []") (auto simp: snapshot_Resolve_live [OF assms] split: option.splits)
  from empty missing found snapshot_List_live [OF assms] show ?thesis by blast
qed

text \<open>
  C29. \<open>Touch\<close> refines one abstract operation on the visible snapshots whether usage times are
  buffered or not: it returns (a saturated buffer included, after one flush), the touched snapshot
  carries the later of its old and the new usage time, and no other visible snapshot changes. The catalog
  is live and has one caller at a time, no stored usage time lies before the zero time, and the new time is set.
\<close>

theorem snapshot_Touch_refines:
  assumes "ss_inv ss" and "ss_live ss" and "times_ok ss" and "visible ss i = Some x" and "a \<noteq> 0"
  shows "\<exists>ss'. snapshot_Touch None ss i a = Some (Inr (x\<lparr>snap_LastAccessedAt := max (snap_LastAccessedAt x) a\<rparr>), ss')
    \<and> visible ss' = (visible ss)(i \<mapsto> x\<lparr>snap_LastAccessedAt := max (snap_LastAccessedAt x) a\<rparr>)"
  using touch_buffered [OF assms(1-3) _ assms(4,5)] touch_sync [OF assms(1-3) _ assms(4,5)]
  by (cases "ss_accesses ss") blast+

text \<open>
   C30. \<open>FlushAccesses\<close> loses nothing and shows nothing: on a live catalog it succeeds, leaves what
  callers see unchanged, empties the buffer and stores the visible usage time of every visible
  snapshot; a flush that fails leaves the catalog and the pending times as they were.
\<close>

theorem FlushAccesses_transparent:
  assumes "ss_inv ss" and "times_ok ss"
  shows "(ss_live ss \<longrightarrow> (\<exists>ss'. FlushAccesses None ss = (None, ss') \<and> visible ss' = visible ss \<and> pending ss' = Map.empty
      \<and> (\<forall>i x. visible ss i = Some x \<longrightarrow> (\<exists>d. snaps (ss_tx ss') i = Some d \<and> effective_access d = snap_LastAccessedAt x))))
    \<and> (FlushAccesses ctx ss = (Some e, ss'') \<longrightarrow> ss'' = ss)"
proof -
  have "\<exists>ss'. FlushAccesses None ss = (None, ss') \<and> visible ss' = visible ss \<and> pending ss' = Map.empty
      \<and> (\<forall>i x. visible ss i = Some x \<longrightarrow> (\<exists>d. snaps (ss_tx ss') i = Some d \<and> effective_access d = snap_LastAccessedAt x))"
    if live: "ss_live ss"
  proof -
    obtain err ss' where run: "FlushAccesses None ss = (err, ss')" by fastforce
    note f = flush_visible [OF assms(1) live assms(2) run]
    have "\<exists>d. snaps (ss_tx ss') i = Some d \<and> effective_access d = snap_LastAccessedAt x" if "visible ss i = Some x" for i x
    proof -
      have x: "visible ss' i = Some x" using f that by simp
      then obtain d where d: "snaps (ss_tx ss') i = Some d" by (auto simp: visible_def split: option.splits)
      have "x = (projr (decodeSnapshot d))\<lparr>snap_LastAccessedAt := effective_access d\<rparr>"
        using x f visible_record [OF _ _ d] by (auto simp: seen_def split: if_splits)
      then show ?thesis using d by simp
    qed
    with f run show ?thesis by blast
  qed
  moreover have "ss'' = ss" if "FlushAccesses ctx ss = (Some e, ss'')"
    using that Update_Inl [of ctx "ss_store ss"]
    by (fastforce simp: FlushAccesses_def Let_def split: option.splits if_splits prod.splits sum.splits)
  ultimately show ?thesis by blast
qed

text \<open>
  C31. Deletion hides exactly the snapshot its reference resolves to, and a name takes precedence over an
  identity: when one snapshot is named like the identity of another, resolving that identity and
  marking it for deletion both act on the snapshot that carries the name, not on the one identified.
\<close>

theorem snapshot_name_shadows_identity:
  assumes "ss_inv ss" and "ss_live ss" and "visible ss i = Some x"
    and "snap_names (ss_tx ss) i = Some j" and "j \<noteq> i" and "visible ss j = Some y"
  shows "snapshot_Resolve None ss i = Inr y \<and> snap_ID y = j
    \<and> (\<exists>r s'. snapshot_BeginDelete None (ss_store ss) i = (Inr r, s') \<and> snap_ID r = j
         \<and> visible (ss\<lparr>ss_store := s'\<rparr>) = (visible ss)(j := None) \<and> visible (ss\<lparr>ss_store := s'\<rparr>) i = Some x)"
proof -
  have t: "snapshot_inv (ss_tx ss)" using assms(1) by (simp add: ss_inv_def)
  have ne: "i \<noteq> []" using index_ok_nameE [OF snapshot_invD(4) [OF t] assms(4)] by blast
  have target: "snapshot_target ss i = j" using assms(4) by (simp add: snapshot_target_def)
  have "snapshot_Resolve None ss i = Inr y" using assms(6) by (simp add: snapshot_Resolve_live [OF assms(1,2) ne] target)
  moreover have "snap_ID y = j" by (rule visible_ID [OF assms(1,6)])
  ultimately show ?thesis
    using BeginDelete_hides [OF assms(1,2) ne, unfolded target, OF assms(6)] assms(3,5) by fastforce
qed

subsection \<open>A concrete catalog\<close>

text \<open>Two published snapshots; the name of the second is the identity of the first.\<close>

definition sample_other_id :: SnapshotID where
  "sample_other_id = ''00000000-0000-4000-8000-000000000002''"

definition sample_snapshot :: Snapshot where
  "sample_snapshot = \<lparr>snap_ID = sample_id, snap_Name = [], snap_Description = [], snap_SandboxID = sample_id,
     snap_SourceGeneration = 3, snap_ImageDigest = sample_digest, snap_RegistryReference = [],
     snap_VMM = VMMCloudHypervisor, snap_Config = sample_config, snap_Size = 100, snap_CreatedAt = 20,
     snap_LastAccessedAt = 30\<rparr>"

definition sample_shadow :: Snapshot where
  "sample_shadow = sample_snapshot\<lparr>snap_ID := sample_other_id, snap_Name := sample_id, snap_CreatedAt := 25\<rparr>"

definition sample_snap_tx :: tx where
  "sample_snap_tx = [(''snapshots'', [(sample_id, P_snapshot (encode_snapshot sample_snapshot True)),
       (sample_other_id, P_snapshot (encode_snapshot sample_shadow True))]),
     (''snapshot_names'', [(sample_id, P_name \<lparr>name_ID = sample_other_id\<rparr>)])]"

definition sample_catalog :: snapStore where
  "sample_catalog = \<lparr>ss_store = \<lparr>mem_records = sample_snap_tx, mem_closed = False\<rparr>,
     ss_accesses = Some \<lparr>ab_pending = [(sample_other_id, 40)], ab_limit = 1, ab_generation = 0\<rparr>\<rparr>"

lemma sample_other_id_valid: "valid_id sample_other_id"
proof -
  have eq: "sample_other_id = EncodeToString (replicate 4 0) @ ''-'' @ EncodeToString [0, 0] @ ''-'' @ EncodeToString [0x40, 0]
      @ ''-'' @ EncodeToString [0x80, 0] @ ''-'' @ EncodeToString [0, 0, 0, 0, 0, 2]"
    by (simp add: sample_other_id_def EncodeToString_def hex_byte_def hex_char_def digit_chars replicate_numeral)
  show ?thesis unfolding eq by (rule valid_id_uuid) simp_all
qed

lemma sample_ids_differ: "sample_other_id \<noteq> sample_id" "sample_id \<noteq> sample_other_id" "sample_id \<noteq> []"
  by (simp_all add: sample_other_id_def sample_id_def)

lemma sample_name_valid: "validSnapshotName sample_id"
  by (simp add: validSnapshotName_def match_name_def sample_id_def is_alnum_def is_digit_def)

lemma sample_snapshots_valid: "Snapshot_Validate sample_snapshot = None" "Snapshot_Validate sample_shadow = None"
  using sample_id_valid sample_other_id_valid sample_config_valid(1) sample_name_valid sample_wf
  by (simp_all add: Snapshot_Validate_def sample_shadow_def sample_snapshot_def ParseSandboxID_valid ParseSnapshotID_valid
      VMMType_Validate_def ContainsAny_def ParseDigest_iff sample_sandbox_def) blast+

lemma sample_snaps:
  "snaps sample_snap_tx = [sample_id \<mapsto> encode_snapshot sample_snapshot True, sample_other_id \<mapsto> encode_snapshot sample_shadow True]"
  "snap_names sample_snap_tx = [sample_id \<mapsto> sample_other_id]"
  using sample_ids_differ by (auto simp: snaps_def snap_names_def lookup_def sample_snap_tx_def fun_eq_iff)

lemma sample_decoded:
  "decodeSnapshot (encode_snapshot sample_snapshot True) = Inr sample_snapshot"
  "decodeSnapshot (encode_snapshot sample_shadow True) = Inr sample_shadow"
  unfolding decodeSnapshot_encode [OF sample_snapshots_valid(1)] decodeSnapshot_encode [OF sample_snapshots_valid(2)]
  by (simp_all add: sample_shadow_def sample_snapshot_def)

lemma sample_access: "snap_LastAccessedAt sample_snapshot = 30" "snap_LastAccessedAt sample_shadow = 30"
    "snap_ID sample_snapshot = sample_id" "snap_ID sample_shadow = sample_other_id"
  by (simp_all add: sample_shadow_def sample_snapshot_def)

lemma sample_fields:
  "sd_ID (encode_snapshot sample_snapshot True) = sample_id" "sd_ID (encode_snapshot sample_shadow True) = sample_other_id"
  "sd_Name (encode_snapshot sample_snapshot True) = []" "sd_Name (encode_snapshot sample_shadow True) = sample_id"
  "effective_access (encode_snapshot sample_snapshot True) = 30" "effective_access (encode_snapshot sample_shadow True) = 30"
  "decodes (encode_snapshot sample_snapshot True)" "decodes (encode_snapshot sample_shadow True)"
  unfolding decodes_def sample_decoded by (simp_all add: sample_access effective_access_def encode_snapshot_def Let_def)
    (simp_all add: sample_snapshot_def sample_shadow_def)

lemma sample_index: "index_ok (snaps sample_snap_tx) (snap_names sample_snap_tx) sd_Name"
proof (rule index_okI)
  fix i r assume "snaps sample_snap_tx i = Some r" "sd_Name r \<noteq> []"
  then show "snap_names sample_snap_tx (sd_Name r) = Some i"
    unfolding sample_snaps using sample_fields(3,4) by (auto simp del: encode_snapshot_fields split: if_splits)
next
  fix n i assume "snap_names sample_snap_tx n = Some i"
  then show "n \<noteq> [] \<and> (\<exists>r. snaps sample_snap_tx i = Some r \<and> sd_Name r = n)"
    unfolding sample_snaps using sample_fields(4) sample_ids_differ(3) by (simp del: encode_snapshot_fields split: if_splits)
qed

lemma sample_snapshot_inv: "snapshot_inv sample_snap_tx"
proof (rule snapshot_invI [OF _ _ _ _ _ sample_index])
  show "\<exists>d. p = P_snapshot d \<and> sd_ID d = i \<and> decodes d" if "lookup sample_snap_tx CollectionSnapshots i = Some p" for i p
    using that sample_fields by (auto simp: lookup_def sample_snap_tx_def simp del: encode_snapshot_fields split: if_splits)
  show "\<exists>d. p = P_name d" if "lookup sample_snap_tx CollectionSnapshotNames n = Some p" for n p
    using that by (auto simp: lookup_def sample_snap_tx_def split: if_splits)
qed (use sample_ids_differ in \<open>simp_all add: tx_ok_def keys_ok_def declared_def sample_snap_tx_def\<close>)

lemma sample_catalog_inv: "ss_inv sample_catalog" "ss_live sample_catalog" "times_ok sample_catalog"
proof -
  show "ss_inv sample_catalog"
    using sample_snapshot_inv by (simp add: ss_inv_def sample_catalog_def buffer_ok_def keys_ok_def)
  show "ss_live sample_catalog" by (simp add: sample_catalog_def)
  have "ran (snaps sample_snap_tx) \<subseteq> {encode_snapshot sample_snapshot True, encode_snapshot sample_shadow True}"
    unfolding sample_snaps ran_def by (auto split: if_splits)
  then show "times_ok sample_catalog"
    unfolding times_ok_def sample_catalog_def using sample_fields(5,6) by fastforce
qed

lemma sample_visible:
  "visible sample_catalog sample_id = Some sample_snapshot"
  "visible sample_catalog sample_other_id = Some (sample_shadow\<lparr>snap_LastAccessedAt := 40\<rparr>)"
  "snap_names (ss_tx sample_catalog) sample_id = Some sample_other_id"
  using sample_ids_differ
  by (simp_all add: visible_def sample_catalog_def sample_snaps visibleAccess_def sample_decoded sample_access)

theorem snapshot_step_lifecycle_witness:
  "snap_step (snaps (ss_tx sample_catalog) sample_other_id)
     (snaps (ss_tx (snd (FlushAccesses None sample_catalog))) sample_other_id)"
  by (rule snapshot_step_lifecycle [OF sample_catalog_inv(1), THEN conjunct1], rule snap_Flush, rule surjective_pairing)

theorem snapshot_queries_correct_witness:
  "snapshot_Resolve None sample_catalog sample_other_id = Inr (sample_shadow\<lparr>snap_LastAccessedAt := 40\<rparr>)"
proof -
  have "snapshot_target sample_catalog sample_other_id = sample_other_id"
    using sample_ids_differ by (simp add: snapshot_target_def sample_catalog_def sample_snaps)
  then show ?thesis
    using snapshot_queries_correct [OF sample_catalog_inv(1,2), of sample_other_id] sample_visible(2)
    by (simp add: sample_other_id_def)
qed

theorem snapshot_Touch_refines_witness:
  "\<exists>ss'. snapshot_Touch None sample_catalog sample_id 50 = Some (Inr (sample_snapshot\<lparr>snap_LastAccessedAt := 50\<rparr>), ss')
    \<and> visible ss' sample_other_id = Some (sample_shadow\<lparr>snap_LastAccessedAt := 40\<rparr>)"
proof -
  have "max (snap_LastAccessedAt sample_snapshot) 50 = 50" by (simp add: sample_snapshot_def)
  then show ?thesis
    using snapshot_Touch_refines [OF sample_catalog_inv sample_visible(1), of 50] sample_visible(2) sample_ids_differ by auto
qed

theorem FlushAccesses_transparent_witness:
  "\<exists>ss' d. FlushAccesses None sample_catalog = (None, ss') \<and> pending ss' = Map.empty
    \<and> snaps (ss_tx ss') sample_other_id = Some d \<and> effective_access d = 40"
  using FlushAccesses_transparent [OF sample_catalog_inv(1,3)] sample_catalog_inv(2) sample_visible(2) by fastforce

theorem snapshot_name_shadows_identity_witness:
  "\<exists>r s'. snapshot_BeginDelete None (ss_store sample_catalog) sample_id = (Inr r, s') \<and> snap_ID r = sample_other_id"
  using snapshot_name_shadows_identity [OF sample_catalog_inv(1,2) sample_visible(1,3) sample_ids_differ(1) sample_visible(2)]
  by blast

end
