(* ===== verification/Catalogs.thy ===== *)
theory Catalogs
  imports Image_Lifecycle Snapshot_Lifecycle
begin

text \<open>
  The three catalogs over one metadata store, as \<open>internal/core\<close> composes them: sandbox reservation
  resolves its image inside its own transaction, and image removal asks the sandbox and snapshot
  catalogs, inside its transaction, whether the image is in use.
\<close>

section \<open>Frames\<close>

text \<open>Each catalog's invariant and contents depend on its own collections only.\<close>

lemma sandbox_inv_frame:
  assumes inv: "sandbox_inv t" and ok: "tx_ok t'" and decl: "\<And>c. declared t' c = declared t c"
    and look: "\<And>c q. c \<in> {CollectionSandboxes, CollectionNames} \<Longrightarrow> lookup t' c q = lookup t c q"
  shows "sandbox_inv t' \<and> sandboxes t' = sandboxes t"
proof -
  have "sandboxes t' = sandboxes t" "sandbox_names t' = sandbox_names t"
    by (simp_all add: fun_eq_iff sandboxes_def sandbox_names_def look)
  then show ?thesis using inv ok by (simp add: sandbox_inv_def decl look)
qed

lemma snapshot_inv_frame:
  assumes inv: "snapshot_inv t" and ok: "tx_ok t'" and decl: "\<And>c. declared t' c = declared t c"
    and look: "\<And>c q. c \<in> {CollectionSnapshots, CollectionSnapshotNames} \<Longrightarrow> lookup t' c q = lookup t c q"
  shows "snapshot_inv t' \<and> snaps t' = snaps t"
proof -
  have "snaps t' = snaps t" "snap_names t' = snap_names t"
    by (simp_all add: fun_eq_iff snaps_def snap_names_def look)
  then show ?thesis using inv ok by (simp add: snapshot_inv_def decl look)
qed

lemma image_inv_frame:
  assumes inv: "image_inv t" and ok: "tx_ok t'" and decl: "\<And>c. declared t' c = declared t c"
    and look: "\<And>c q. c \<in> {CollectionImages, CollectionImageNames, CollectionLayers} \<Longrightarrow> lookup t' c q = lookup t c q"
  shows "image_inv t' \<and> facts t' = facts t"
proof -
  have row: "image_row t' = image_row t" by (intro ext) (simp add: image_row_def look)
  have al: "aliases t' = aliases t" by (simp add: fun_eq_iff aliases_def look)
  have inv': "image_inv t'" using inv ok unfolding image_inv_def row al by (simp add: decl look)
  have "facts t' k = facts t k" for k
  proof (cases "facts t k")
    case None
    then have "facts t' k = None" by (simp add: facts_dom [OF inv] facts_dom [OF inv'] look)
    then show ?thesis using None by simp
  next
    case (Some im)
    then have "facts t' k = Some im" by (simp add: facts_Some [OF inv] facts_Some [OF inv'] row)
    then show ?thesis using Some by simp
  qed
  then show ?thesis using inv' by blast
qed

section \<open>The usage check of core\<close>

definition image_used :: "tx \<Rightarrow> Digest \<Rightarrow> bool" where
  "image_used t d \<longleftrightarrow> (\<exists>r \<in> ran (sandboxes t). sb_ImageDigest r = d) \<or> (\<exists>x \<in> ran (snaps t). sd_ImageDigest x = Digest_String d)"

definition owners_ok :: "tx \<Rightarrow> bool" where
  "owners_ok t \<longleftrightarrow> sandbox_inv t \<and> snapshot_inv t"

lemma snapshot_InUse_correct:
  assumes inv: "snapshot_inv t"
  shows "snapshot_InUse None t digest = Inr (\<exists>x \<in> ran (snaps t). sd_ImageDigest x = Digest_String digest)"
proof -
  let ?fn = "\<lambda>(_ :: string) raw used. bindE (decode_snapshot raw) (\<lambda>d. Inr (used \<or> sd_ImageDigest d = Digest_String digest))"
  let ?es = "entries t CollectionSnapshots"
  have es: "(i, p) \<in> set ?es \<longleftrightarrow> lookup t CollectionSnapshots i = Some p" for i p
    by (rule entries_lookup [OF snapshot_invD(1,2) [OF inv]])
  have dec: "\<exists>d. decode_snapshot p = Inr d" if "(i, p) \<in> set ?es" for i p
    using that inv unfolding es snapshot_inv_def by (auto simp: decode_snapshot_Inr)
  have "\<exists>b. scan_loop ?fn ?es False = Inr b" by (rule scan_loop_total) (use dec in fastforce)
  then obtain b where b: "scan_loop ?fn ?es False = Inr b" by blast
  have "b \<longleftrightarrow> False \<or> (\<exists>(i, p) \<in> set ?es. \<exists>d. decode_snapshot p = Inr d \<and> sd_ImageDigest d = Digest_String digest)"
    by (rule scan_loop_flag [where g = "\<lambda>_. decode_snapshot" and P = "\<lambda>_ d. sd_ImageDigest d = Digest_String digest", OF _ b]) simp
  also have "\<dots> \<longleftrightarrow> (\<exists>i d. snaps t i = Some d \<and> sd_ImageDigest d = Digest_String digest)"
    unfolding Bex_def split_paired_Ex
    using snaps_Some(2) [OF inv] by (simp add: es decode_snapshot_Inr snaps_lookup [OF inv]) blast
  finally show ?thesis
    using b by (auto simp: snapshot_InUse_def Scan_live [OF snapshot_invD(2) [OF inv]] ran_def)
qed

interpretation core_usage: usage_check imageUsage image_used owners_ok
proof
  show "imageUsage None t d = Inr (image_used t d)" if "owners_ok t" for t d
  proof -
    have "sandbox_InUse None t d = Inr (\<exists>r \<in> ran (sandboxes t). sb_ImageDigest r = d)"
      "snapshot_InUse None t d = Inr (\<exists>x \<in> ran (snaps t). sd_ImageDigest x = Digest_String d)"
      using that sandbox_InUse_correct snapshot_InUse_correct by (simp_all add: owners_ok_def)
    then show ?thesis unfolding imageUsage_def image_used_def by (simp only: bindE_Inr) (cases "\<exists>r \<in> ran (sandboxes t). sb_ImageDigest r = d"; simp)
  qed
  show "owners_ok t' \<and> image_used t' d = image_used t d" if ok: "owners_ok t" "tx_ok t'" and fr: "image_frame t t'" for t t' d
  proof -
    have decl: "declared t' c = declared t c" for c using fr unfolding image_frame_def by blast
    have other: "lookup t' c q = lookup t c q" if "c \<notin> {CollectionImages, CollectionImageNames, CollectionLayers}" for c q
      using fr that unfolding image_frame_def by blast
    have inv: "sandbox_inv t" "snapshot_inv t" using ok(1) by (simp_all add: owners_ok_def)
    have "sandbox_inv t' \<and> sandboxes t' = sandboxes t"
      by (rule sandbox_inv_frame [OF inv(1) ok(2) decl], rule other) (elim insertE emptyE; simp)
    moreover have "snapshot_inv t' \<and> snaps t' = snaps t"
      by (rule snapshot_inv_frame [OF inv(2) ok(2) decl], rule other) (elim insertE emptyE; simp)
    ultimately show ?thesis by (simp add: owners_ok_def image_used_def)
  qed
qed

section \<open>One node\<close>

text \<open>Any outcome of any operation of the three catalogs, wired as core wires them.\<close>

inductive node_step :: "snapStore \<Rightarrow> snapStore \<Rightarrow> bool" where
  node_sandbox: "sandbox_step resolve_image (ss_store n) s' \<Longrightarrow> node_step n (n\<lparr>ss_store := s'\<rparr>)"
| node_snapshot: "snapshot_step n n' \<Longrightarrow> node_step n n'"
| node_import: "CommitImport ctx (ss_store n) c = (res, s') \<Longrightarrow> wf_image (commit_image c) \<Longrightarrow> node_step n (n\<lparr>ss_store := s'\<rparr>)"
| node_remove: "image_Remove imageUsage ctx (ss_store n) ref expected = (res', s') \<Longrightarrow> node_step n (n\<lparr>ss_store := s'\<rparr>)"

definition has_image :: "tx \<Rightarrow> Digest \<Rightarrow> bool" where
  "has_image t d \<longleftrightarrow> facts t (Digest_String d) \<noteq> None"

definition node_inv :: "snapStore \<Rightarrow> bool" where
  "node_inv n \<longleftrightarrow> sandbox_inv (ss_tx n) \<and> ss_inv n \<and> image_inv (ss_tx n)
     \<and> (\<forall>r \<in> ran (sandboxes (ss_tx n)). has_image (ss_tx n) (sb_ImageDigest r))"

text \<open>What every step keeps: an image in use by the owners of the state before the step stays.\<close>

definition keeps_used :: "tx \<Rightarrow> tx \<Rightarrow> bool" where
  "keeps_used t t' \<longleftrightarrow> (\<forall>d. image_used t d \<and> has_image t d \<longrightarrow> has_image t' d)"

lemma has_image_resolved:
  assumes "image_inv t" and "resolve_image ctx t ref = Inr im"
  shows "has_image t (img_ManifestDigest im)"
proof -
  from resolve_image_Inr [OF assms] obtain k im0 where "facts t k = Some im0" "im = im0\<lparr>img_Names := names_of t k\<rparr>" by blast
  then show ?thesis using facts_key(1) [OF assms(1)] by (simp add: has_image_def)
qed

lemma node_sandbox_inv:
  assumes inv: "node_inv n" and step: "sandbox_step resolve_image (ss_store n) s'"
  shows "node_inv (n\<lparr>ss_store := s'\<rparr>) \<and> keeps_used (ss_tx n) (mem_records s')"
proof -
  let ?t = "ss_tx n" and ?t' = "mem_records s'"
  have parts: "sandbox_inv ?t" "snapshot_inv ?t" "image_inv ?t" using inv by (simp_all add: node_inv_def ss_inv_def)
  note good = sandbox_step_good [OF step parts(1)]
  note inv' = conjunct1 [OF good] and steps = spec [OF conjunct1 [OF conjunct2 [OF good]]]
    and frame = spec [OF spec [OF conjunct1 [OF conjunct2 [OF conjunct2 [OF good]]]]]
    and decl = spec [OF conjunct1 [OF conjunct2 [OF conjunct2 [OF conjunct2 [OF good]]]]]
    and new = conjunct2 [OF conjunct2 [OF conjunct2 [OF conjunct2 [OF good]]]]
  have ok: "tx_ok ?t'" by (rule sandbox_invD(1) [OF inv'])
  have other: "lookup ?t' c q = lookup ?t c q" if "c \<notin> {CollectionSandboxes, CollectionNames}" for c q
    by (rule mp [OF frame that])
  have snap: "snapshot_inv ?t' \<and> snaps ?t' = snaps ?t"
    by (rule snapshot_inv_frame [OF parts(2) ok decl], rule other) (elim insertE emptyE; simp)
  have img: "image_inv ?t' \<and> facts ?t' = facts ?t"
    by (rule image_inv_frame [OF parts(3) ok decl], rule other) (elim insertE emptyE; simp)
  have "has_image ?t' (sb_ImageDigest r)" if stored: "sandboxes ?t' i = Some r" for i r
  proof (cases "sandboxes ?t i")
    case None
    then obtain ctx ref im where "resolve_image ctx ?t ref = Inr im" "img_ManifestDigest im = sb_ImageDigest r"
      using new stored unfolding imaged_def by blast
    then have "has_image ?t (sb_ImageDigest r)" using has_image_resolved [OF parts(3)] by fastforce
    then show ?thesis using img by (simp add: has_image_def)
  next
    case (Some r0)
    have "record_step (Some r0) (Some r)" using steps [of i] by (simp only: Some stored)
    then have "sb_ImageDigest r = sb_ImageDigest r0" by (auto simp: record_step_def)
    moreover have "has_image ?t (sb_ImageDigest r0)" using inv Some by (auto simp: node_inv_def ran_def)
    ultimately show ?thesis using img by (simp add: has_image_def)
  qed
  then have "\<forall>r \<in> ran (sandboxes ?t'). has_image ?t' (sb_ImageDigest r)" by (auto simp: ran_def)
  moreover have "ss_inv (n\<lparr>ss_store := s'\<rparr>)" using inv snap by (simp add: node_inv_def ss_inv_def)
  ultimately show ?thesis using img inv' by (simp add: node_inv_def keeps_used_def has_image_def)
qed

lemma node_snapshot_inv:
  assumes inv: "node_inv n" and step: "snapshot_step n n'"
  shows "node_inv n' \<and> keeps_used (ss_tx n) (ss_tx n')"
proof -
  let ?t = "ss_tx n" and ?t' = "ss_tx n'"
  have parts: "sandbox_inv ?t" "ss_inv n" "image_inv ?t" using inv by (simp_all add: node_inv_def)
  note good = snapshot_step_good [OF step parts(2), unfolded good_step_def]
  have ok: "tx_ok ?t'" using good snapshot_invD(1) by (simp add: ss_inv_def)
  have decl: "declared ?t' c = declared ?t c" for c using good by blast
  have other: "lookup ?t' c q = lookup ?t c q" if "c \<notin> {CollectionSnapshots, CollectionSnapshotNames}" for c q using good that by blast
  have sand: "sandbox_inv ?t' \<and> sandboxes ?t' = sandboxes ?t"
    by (rule sandbox_inv_frame [OF parts(1) ok decl], rule other) (elim insertE emptyE; simp)
  have img: "image_inv ?t' \<and> facts ?t' = facts ?t"
    by (rule image_inv_frame [OF parts(3) ok decl], rule other) (elim insertE emptyE; simp)
  show ?thesis using good inv sand img by (simp add: node_inv_def keeps_used_def has_image_def)
qed

text \<open>The image operations change the image collections only.\<close>

lemma node_image_inv:
  assumes inv: "node_inv n" and img: "image_inv (mem_records s')" and fr: "image_frame (ss_tx n) (mem_records s')"
    and kept: "keeps_used (ss_tx n) (mem_records s')"
  shows "node_inv (n\<lparr>ss_store := s'\<rparr>)"
proof -
  let ?t = "ss_tx n" and ?t' = "mem_records s'"
  have parts: "sandbox_inv ?t" "snapshot_inv ?t" using inv by (simp_all add: node_inv_def ss_inv_def)
  have ok: "tx_ok ?t'" by (rule image_invD(1) [OF img])
  have decl: "declared ?t' c = declared ?t c" for c using fr unfolding image_frame_def by blast
  have other: "lookup ?t' c q = lookup ?t c q" if "c \<notin> {CollectionImages, CollectionImageNames, CollectionLayers}" for c q
    using fr that unfolding image_frame_def by blast
  have sand: "sandbox_inv ?t' \<and> sandboxes ?t' = sandboxes ?t"
    by (rule sandbox_inv_frame [OF parts(1) ok decl], rule other) (elim insertE emptyE; simp)
  have snap: "snapshot_inv ?t' \<and> snaps ?t' = snaps ?t"
    by (rule snapshot_inv_frame [OF parts(2) ok decl], rule other) (elim insertE emptyE; simp)
  have "has_image ?t' (sb_ImageDigest r)" if "r \<in> ran (sandboxes ?t)" for r
  proof -
    have "image_used ?t (sb_ImageDigest r)" using that by (auto simp: image_used_def)
    moreover have "has_image ?t (sb_ImageDigest r)" using that inv by (simp add: node_inv_def)
    ultimately show ?thesis using kept unfolding keeps_used_def by blast
  qed
  then show ?thesis using inv sand snap img by (simp add: node_inv_def ss_inv_def)
qed

lemma node_step_inv:
  assumes inv: "node_inv n" and step: "node_step n n'"
  shows "node_inv n' \<and> keeps_used (ss_tx n) (ss_tx n')"
  using step
proof cases
  case (node_sandbox s')
  then show ?thesis using node_sandbox_inv [OF inv] by simp
next
  case node_snapshot
  then show ?thesis by (rule node_snapshot_inv [OF inv])
next
  case (node_import ctx c res s')
  have img: "image_inv (ss_tx n)" using inv by (simp add: node_inv_def)
  have "image_inv (mem_records s') \<and> image_frame (ss_tx n) (mem_records s') \<and> keeps_used (ss_tx n) (mem_records s')"
  proof (cases "ImportCommit_Validate c")
    case None
    then have "update_with ctx (ss_store n) (context_info ''commit image import'' (com_Name c) ''metadata'' ''retry the import'')
        (commit_import_tx ctx c) = (res, s')" using node_import by (simp add: CommitImport_def)
    then show ?thesis
      by (cases rule: update_with_cases)
        (use img commit_import_good [OF img None node_import(3)] in \<open>auto simp: image_frame_def keeps_used_def has_image_def\<close>)
  next
    case (Some e)
    then show ?thesis using node_import img by (simp add: CommitImport_def image_frame_def keeps_used_def)
  qed
  then show ?thesis using node_image_inv [OF inv] node_import(1) by simp
next
  case (node_remove ctx ref expected res s')
  have img: "image_inv (ss_tx n)" and own: "owners_ok (ss_tx n)" using inv by (simp_all add: node_inv_def owners_ok_def ss_inv_def)
  have "image_inv (mem_records s') \<and> image_frame (ss_tx n) (mem_records s') \<and> keeps_used (ss_tx n) (mem_records s')"
    using node_remove(2) unfolding image_Remove_def
  proof (cases rule: update_with_cases)
    case failed
    then show ?thesis using img by (simp add: image_frame_def keeps_used_def)
  next
    case (committed x t)
    then have run: "remove_image_tx imageUsage None ref expected (ss_tx n) = Inr (x, t)" by simp
    have "keeps_used (ss_tx n) t"
      using core_usage.used_image_stays [OF img own run] by (simp add: keeps_used_def has_image_def)
    then show ?thesis using remove_image_good [OF img run] committed by simp
  qed
  then show ?thesis using node_image_inv [OF inv] node_remove(1) by simp
qed


section \<open>Properties\<close>

abbreviation node_collections :: "Collection set" where
  "node_collections \<equiv> {CollectionSandboxes, CollectionNames, CollectionSnapshots, CollectionSnapshotNames,
     CollectionImages, CollectionImageNames, CollectionLayers}"

lemma node_inv_new:
  assumes "NewMemory cs = Inr s" and "node_collections \<subseteq> set cs"
    and "n = \<lparr>ss_store = s, ss_accesses = None\<rparr> \<or> NewBuffered s capacity = Inr n"
  shows "node_inv n"
proof -
  have ss: "ss_inv n" "ss_store n = s" using ss_inv_new [OF assms(1) _ _ assms(3)] assms(2) by simp_all
  have "sandbox_inv (ss_tx n)" "image_inv (ss_tx n)"
    using sandbox_inv_new [OF assms(1)] image_inv_new [OF assms(1)] assms(2) ss(2) by simp_all
  moreover have "ran (sandboxes (ss_tx n)) = {}"
    by (simp add: ss(2) sandboxes_def NewMemory_empty(2) [OF assms(1)] ran_def)
  ultimately show ?thesis using ss(1) by (simp add: node_inv_def)
qed

text \<open>
  C17. From a new node, whatever sequence of sandbox, snapshot and image operations runs, with
  whatever arguments and failures, the image of every stored sandbox, whatever its state, is stored
  and loads with the digest the sandbox records: image removal never takes the image of a sandbox
  away, and a reservation never records an image that is not there.
\<close>

theorem sandbox_image_always_present:
  assumes "NewMemory cs = Inr s" and "node_collections \<subseteq> set cs"
    and "n0 = \<lparr>ss_store = s, ss_accesses = None\<rparr> \<or> NewBuffered s capacity = Inr n0"
    and "node_step\<^sup>*\<^sup>* n0 n" and "sandboxes (ss_tx n) i = Some r"
  shows "\<exists>im. loadImage None (ss_tx n) (Digest_String (sb_ImageDigest r)) = Inr im
    \<and> Digest_String (img_ManifestDigest im) = Digest_String (sb_ImageDigest r) \<and> img_Names im \<noteq> []"
proof -
  have inv: "node_inv n"
    using assms(4)
  proof induction
    case base
    show ?case by (rule node_inv_new [OF assms(1-3)])
  next
    case (step m m')
    show ?case by (rule conjunct1 [OF node_step_inv [OF step(3,2)]])
  qed
  then have img: "image_inv (ss_tx n)" and "has_image (ss_tx n) (sb_ImageDigest r)"
    using assms(5) by (auto simp: node_inv_def ran_def)
  then obtain im where im: "facts (ss_tx n) (Digest_String (sb_ImageDigest r)) = Some im" by (auto simp: has_image_def)
  then have "lookup (ss_tx n) CollectionImages (Digest_String (sb_ImageDigest r)) \<noteq> None"
    using facts_dom [OF img, of "Digest_String (sb_ImageDigest r)"] by auto
  then obtain a where "aliases (ss_tx n) a = Some (Digest_String (sb_ImageDigest r))" using image_invD(8) [OF img] by blast
  then have "names_of (ss_tx n) (Digest_String (sb_ImageDigest r)) \<noteq> []" using names_of_set [OF img, of a] by (metis empty_iff empty_set)
  then show ?thesis using im facts_key(1) [OF img im] by (simp add: loadImage_facts [OF img])
qed

text \<open>
  C18. No operation of the node, of any of its three catalogs, removes an image that a sandbox or
  snapshot record, reserved, ready or being deleted, refers to before the operation.
\<close>

theorem used_image_kept:
  assumes "node_inv n" and "node_step n n'" and "image_used (ss_tx n) d"
    and "facts (ss_tx n) (Digest_String d) \<noteq> None"
  shows "facts (ss_tx n') (Digest_String d) \<noteq> None"
  using node_step_inv [OF assms(1,2)] assms(3,4) by (simp add: keeps_used_def has_image_def)

text \<open>
  C19. \<open>Remove\<close> with the usage check of core, on a live node whose catalogs are consistent. A digest
  other than the resolved one is a name conflict and nothing changes. Removing the last aliases of an
  image a sandbox or snapshot uses is refused as referenced and nothing changes. Otherwise it succeeds:
  the dropped aliases, and those only, disappear; while another alias remains the image stays and no
  layer is released; after the last one the image is gone and the released layers are, without
  repetition, exactly those of its layers that no remaining image holds.
\<close>

theorem image_Remove_correct:
  assumes inv: "image_inv (mem_records s)" and ok: "owners_ok (mem_records s)" and live: "\<not> mem_closed s"
    and k: "image_target (mem_records s) ref = Some k" and im: "facts (mem_records s) k = Some im"
  shows "if expected \<noteq> img_ManifestDigest im
      then \<exists>e. image_Remove imageUsage None s ref expected = (Inl e, s) \<and> CodeOf e = Some CodeNameTaken
    else if (\<nexists>n. n \<notin> dropped (mem_records s) ref k \<and> aliases (mem_records s) n = Some k)
        \<and> image_used (mem_records s) (img_ManifestDigest im)
      then \<exists>e. image_Remove imageUsage None s ref expected = (Inl e, s) \<and> CodeOf e = Some CodeReferenced
    else \<exists>r s'. image_Remove imageUsage None s ref expected = (Inr r, s') \<and> image_inv (mem_records s')
      \<and> set (rem_Names r) = dropped (mem_records s) ref k
      \<and> aliases (mem_records s') = (\<lambda>n. if n \<in> dropped (mem_records s) ref k then None else aliases (mem_records s) n)
      \<and> distinct (rem_Layers r)
      \<and> (if \<exists>n. n \<notin> dropped (mem_records s) ref k \<and> aliases (mem_records s) n = Some k
         then facts (mem_records s') = facts (mem_records s) \<and> rem_Layers r = []
         else facts (mem_records s') = (facts (mem_records s))(k := None)
           \<and> set (rem_Layers r) = orphaned (mem_records s') im)"
proof -
  let ?t = "mem_records s"
  have refused: "\<exists>e. image_Remove imageUsage None s ref expected = (Inl e, s) \<and> CodeOf e = Some c"
    if h: "remove_image_tx imageUsage None ref expected ?t = Inl e0" "CodeOf e0 = Some c" for e0 c
    using ctxE_code [OF h(2)] h(1) live by (simp add: image_Remove_def update_with_def Update_live)
  show ?thesis
  proof (cases "expected = img_ManifestDigest im")
    case False
    let ?e = "New 0 ClassConflict CodeNameTaken (Some (Msg ''image binding changed while waiting for locks; retry''))"
    have "remove_image_tx imageUsage None ref expected ?t = Inl ?e"
      using False by (simp add: remove_image_tx_def resolve_image_target [OF inv k im])
    moreover have "CodeOf ?e = Some CodeNameTaken" by (simp add: New_def CodeOf_def)
    ultimately show ?thesis using False refused by simp
  next
    case True
    note run = core_usage.remove_cases [OF inv ok k im]
    show ?thesis
    proof (cases "(\<nexists>n. n \<notin> dropped ?t ref k \<and> aliases ?t n = Some k) \<and> image_used ?t (img_ManifestDigest im)")
      case used: True
      have "remove_image_tx imageUsage None ref expected ?t = Inl image_referenced" unfolding True by (rule run [unfolded if_P [OF used]])
      moreover have "CodeOf image_referenced = Some CodeReferenced" by (simp add: New_def CodeOf_def)
      ultimately show ?thesis using True used refused by simp
    next
      case unused: False
      from run [unfolded if_not_P [OF unused]] obtain r t' where r: "remove_image_tx imageUsage None ref expected ?t = Inr (r, t')"
        "image_inv t'" "set (rem_Names r) = dropped ?t ref k" "aliases t' = (\<lambda>n. if n \<in> dropped ?t ref k then None else aliases ?t n)"
        "distinct (rem_Layers r)" "if \<exists>n. n \<notin> dropped ?t ref k \<and> aliases ?t n = Some k then facts t' = facts ?t \<and> rem_Layers r = []
           else facts t' = (facts ?t)(k := None) \<and> set (rem_Layers r) = orphaned t' im"
        unfolding True by blast
      have "image_Remove imageUsage None s ref expected = (Inr r, s\<lparr>mem_records := t'\<rparr>)"
        using r(1) live by (simp add: image_Remove_def update_with_def Update_live)
      then show ?thesis unfolding if_not_P [OF unused] using True r(2-6) by simp
    qed
  qed
qed

subsection \<open>A concrete node\<close>

lemma reserve_accepted:
  assumes inv: "sandbox_inv t" and "images None t ref = Inr im" and "img_ManifestDigest im = sb_ImageDigest record"
    and valid: "Sandbox_Validate record = None" "wf_digest (sb_ImageDigest record)"
    and "lookup t CollectionSandboxes (sb_ID record) = None" and "lookup t CollectionNames (sandbox_name record) = None"
  shows "\<exists>t'. reserve_sandbox_tx images None ref (sb_ImageDigest record) record t = Inr ((), t')
    \<and> sandboxes t' = (sandboxes t)(sb_ID record \<mapsto> record)"
proof -
  note d = sandbox_invD(2,3) [OF inv]
  obtain t1 where t1: "Put None t CollectionSandboxes (sb_ID record) (P_sandbox (encode_sandbox record)) = Inr t1"
    using Put_live [OF d(1)] by blast
  obtain t2 where t2: "Put None t1 CollectionNames (sandbox_name record) (P_name \<lparr>name_ID = sb_ID record\<rparr>) = Inr t2"
    using Put_live [of t1 CollectionNames] by (auto simp: declared_Put [OF t1] d)
  have "reserve_sandbox_tx images None ref (sb_ImageDigest record) record t = Inr ((), t2)"
    by (simp add: reserve_sandbox_tx_def putJSON_def assms(2,3,6,7) d t1 t2)
  then show ?thesis using sandboxes_Put [OF t1 valid] sandbox_names_Put(2) [OF t2] by simp
qed

definition empty_node :: snapStore where
  "empty_node = \<lparr>ss_store = \<lparr>mem_records = [(''images'', []), (''image_names'', []), (''image_layers'', []),
     (''sandboxes'', []), (''sandbox_names'', []), (''snapshots'', []), (''snapshot_names'', [])], mem_closed = False\<rparr>,
     ss_accesses = None\<rparr>"

lemma empty_node_new:
  "NewMemory [CollectionImages, CollectionImageNames, CollectionLayers, CollectionSandboxes, CollectionNames,
     CollectionSnapshots, CollectionSnapshotNames] = Inr (ss_store empty_node)"
  by (simp add: NewMemory_def NewCollection_def is_lower_def is_digit_def empty_node_def)

lemma empty_node_inv: "node_inv empty_node"
  by (rule node_inv_new [OF empty_node_new _ disjI1]) (simp_all add: empty_node_def)

definition imaged_node :: snapStore where
  "imaged_node = empty_node\<lparr>ss_store := snd (CommitImport None (ss_store empty_node) sample_commit)\<rparr>"

definition sample_node :: snapStore where
  "sample_node = imaged_node\<lparr>ss_store := snd (sandbox_Reserve resolve_image None (ss_store imaged_node) ''base'' sample_digest sample_sandbox)\<rparr>"

lemma imaged_node_run:
  shows "node_step empty_node imaged_node" and "node_inv imaged_node" and "\<not> mem_closed (ss_store imaged_node)"
    and "facts (ss_tx imaged_node) (commit_key sample_commit) = Some (commit_image sample_commit)"
    and "aliases (ss_tx imaged_node) = [''base'' \<mapsto> commit_key sample_commit]"
    and "c \<in> {CollectionSandboxes, CollectionNames, CollectionSnapshots} \<Longrightarrow> lookup (ss_tx imaged_node) c q = None"
proof -
  note new = NewMemory_empty [OF empty_node_new]
  have img: "image_inv (ss_tx empty_node)" using empty_node_inv by (simp add: node_inv_def)
  have none: "facts (ss_tx empty_node) k = None" "aliases (ss_tx empty_node) n = None" for k n
    using facts_dom [OF img, of k] by (simp_all add: new(2) aliases_def)
  then have "import_enabled (ss_tx empty_node) sample_commit" by (simp add: import_enabled_def)
  from import_accepted [OF img sample_commit_valid sample_commit_wf this] obtain t where t:
    "commit_import_tx None sample_commit (ss_tx empty_node) = Inr ((), t)" "image_frame (ss_tx empty_node) t"
    "facts t = (facts (ss_tx empty_node))(commit_key sample_commit \<mapsto> after_import sample_commit (facts (ss_tx empty_node) (commit_key sample_commit)))"
    "aliases t = (aliases (ss_tx empty_node))(com_Name sample_commit \<mapsto> commit_key sample_commit)" by blast
  have run: "CommitImport None (ss_store empty_node) sample_commit = (Inr (), (ss_store empty_node)\<lparr>mem_records := t\<rparr>)"
    using new(4) t(1) by (simp add: CommitImport_def update_with_def Update_live sample_commit_valid)
  then show step: "node_step empty_node imaged_node"
    unfolding imaged_node_def using node_import [OF run sample_commit_wf] by simp
  then show "node_inv imaged_node" using node_step_inv [OF empty_node_inv] by blast
  have recs: "ss_store imaged_node = (ss_store empty_node)\<lparr>mem_records := t\<rparr>" unfolding imaged_node_def run by simp
  show "\<not> mem_closed (ss_store imaged_node)" unfolding recs using new(4) by simp
  show "facts (ss_tx imaged_node) (commit_key sample_commit) = Some (commit_image sample_commit)"
    unfolding recs by (simp add: t(3) none after_import_def)
  show "aliases (ss_tx imaged_node) = [''base'' \<mapsto> commit_key sample_commit]"
    unfolding recs by (simp add: t(4) none fun_eq_iff) (simp add: sample_commit_def)
  show "lookup (ss_tx imaged_node) c q = None" if "c \<in> {CollectionSandboxes, CollectionNames, CollectionSnapshots}"
  proof -
    have "c \<notin> {CollectionImages, CollectionImageNames, CollectionLayers}" using that by (elim insertE emptyE) simp_all
    then have "lookup t c q = lookup (ss_tx empty_node) c q" using t(2) unfolding image_frame_def by blast
    then show ?thesis unfolding recs by (simp add: new(2))
  qed
qed

lemma sample_node_run:
  shows "node_step imaged_node sample_node" and "node_inv sample_node" and "\<not> mem_closed (ss_store sample_node)"
    and "sandboxes (ss_tx sample_node) sample_id = Some sample_sandbox"
    and "aliases (ss_tx sample_node) = aliases (ss_tx imaged_node)"
    and "facts (ss_tx sample_node) = facts (ss_tx imaged_node)"
proof -
  let ?s = "ss_store imaged_node" and ?t = "ss_tx imaged_node"
  have inv: "sandbox_inv ?t" "image_inv ?t" using imaged_node_run(2) by (simp_all add: node_inv_def)
  have key: "image_target ?t ''base'' = Some (commit_key sample_commit)" by (simp add: image_target_def imaged_node_run(5))
  let ?im = "(commit_image sample_commit)\<lparr>img_Names := names_of ?t (commit_key sample_commit)\<rparr>"
  have res: "resolve_image None ?t ''base'' = Inr ?im" by (rule resolve_image_target [OF inv(2) key imaged_node_run(4)])
  have dig: "img_ManifestDigest ?im = sb_ImageDigest sample_sandbox"
    by (simp add: commit_image_def sample_commit_def sample_sandbox_def sample_digest_def)
  from reserve_accepted [of ?t resolve_image "''base''" ?im, OF inv(1) res dig sample_sandbox_valid sample_wf imaged_node_run(6,6)]
  obtain t where t: "reserve_sandbox_tx resolve_image None ''base'' (sb_ImageDigest sample_sandbox) sample_sandbox ?t = Inr ((), t)"
    "sandboxes t = (sandboxes ?t)(sb_ID sample_sandbox \<mapsto> sample_sandbox)" by blast
  have d: "sb_ImageDigest sample_sandbox = sample_digest" "sb_State sample_sandbox = SandboxStateCreating" "sb_Generation sample_sandbox = 1"
    by (simp_all add: sample_sandbox_def)
  have run: "sandbox_Reserve resolve_image None ?s ''base'' sample_digest sample_sandbox = (Inr (), ?s\<lparr>mem_records := t\<rparr>)"
    using t(1) imaged_node_run(3) d by (simp add: sandbox_Reserve_def sample_sandbox_valid update_with_def Update_live)
  have recs: "ss_store sample_node = ?s\<lparr>mem_records := t\<rparr>" unfolding sample_node_def run by simp
  have sstep: "sandbox_step resolve_image ?s (ss_store sample_node)"
    unfolding recs by (rule step_Reserve [OF run]) (use sample_wf d(1) in simp)
  then show step: "node_step imaged_node sample_node"
    using node_sandbox [OF sstep] by (simp add: sample_node_def)
  then show "node_inv sample_node" using node_step_inv [OF imaged_node_run(2)] by blast
  show "\<not> mem_closed (ss_store sample_node)" unfolding recs using imaged_node_run(3) by simp
  show "sandboxes (ss_tx sample_node) sample_id = Some sample_sandbox" unfolding recs by (simp add: t(2) sample_ids(1))
  note good = conjunct2 [OF conjunct2 [OF sandbox_step_good [OF sstep inv(1)]]]
  have other: "lookup (ss_tx sample_node) c q = lookup ?t c q" if "c \<notin> {CollectionSandboxes, CollectionNames}" for c q
    by (rule mp [OF spec [OF spec [OF conjunct1 [OF good]]] that])
  show "aliases (ss_tx sample_node) = aliases ?t" by (simp add: fun_eq_iff aliases_def other)
  have "image_inv (ss_tx sample_node) \<and> facts (ss_tx sample_node) = facts ?t"
    by (rule image_inv_frame [OF inv(2) _ spec [OF conjunct1 [OF conjunct2 [OF good]]]], rule sandbox_invD(1))
      (use \<open>node_inv sample_node\<close> in \<open>simp add: node_inv_def\<close>, rule other, elim insertE emptyE, simp_all)
  then show "facts (ss_tx sample_node) = facts ?t" ..
qed

lemma sample_node_used:
  "image_used (ss_tx sample_node) sample_digest" "facts (ss_tx sample_node) (commit_key sample_commit) = Some (commit_image sample_commit)"
  "commit_key sample_commit = Digest_String sample_digest" "img_ManifestDigest (commit_image sample_commit) = sample_digest"
proof -
  show "image_used (ss_tx sample_node) sample_digest"
    unfolding image_used_def using sample_node_run(4) by (intro disjI1 bexI [of _ sample_sandbox]) (auto simp: ran_def, simp add: sample_sandbox_def)
qed (simp_all add: sample_node_run(6) imaged_node_run(4), simp_all add: commit_image_def sample_commit_def sample_digest_def)

theorem sandbox_image_always_present_witness:
  "\<exists>im. loadImage None (ss_tx sample_node) (Digest_String sample_digest) = Inr im \<and> img_Names im \<noteq> []"
proof -
  have "node_step\<^sup>*\<^sup>* empty_node sample_node"
    using imaged_node_run(1) sample_node_run(1) by (meson converse_rtranclp_into_rtranclp r_into_rtranclp)
  from sandbox_image_always_present [OF empty_node_new _ disjI1 this sample_node_run(4)] show ?thesis
    by (auto simp: empty_node_def sample_sandbox_def)
qed

theorem used_image_kept_witness:
  "facts (ss_tx (sample_node\<lparr>ss_store := snd (image_Remove imageUsage None (ss_store sample_node) ''base'' sample_digest)\<rparr>))
     (Digest_String sample_digest) \<noteq> None"
  by (rule used_image_kept [OF sample_node_run(2) _ sample_node_used(1)], rule node_remove, rule surjective_pairing)
    (use sample_node_used(2,3) in simp)

theorem image_Remove_correct_witness:
  "\<exists>e. image_Remove imageUsage None (ss_store sample_node) ''base'' sample_digest = (Inl e, ss_store sample_node)
     \<and> CodeOf e = Some CodeReferenced"
proof -
  let ?t = "ss_tx sample_node"
  have inv: "image_inv ?t" "owners_ok ?t" using sample_node_run(2) by (simp_all add: node_inv_def owners_ok_def ss_inv_def)
  have al: "aliases ?t = [''base'' \<mapsto> commit_key sample_commit]" by (simp add: sample_node_run(5) imaged_node_run(5))
  then have k: "image_target ?t ''base'' = Some (commit_key sample_commit)" by (simp add: image_target_def)
  have "\<nexists>n. n \<notin> dropped ?t ''base'' (commit_key sample_commit) \<and> aliases ?t n = Some (commit_key sample_commit)"
    by (auto simp: dropped_def al split: if_splits)
  then show ?thesis
    using image_Remove_correct [OF inv sample_node_run(3) k sample_node_used(2), of sample_digest] sample_node_used(1,4) by simp
qed

end
