(* ===== verification/Service.thy ===== *)
theory Service
  imports Vmm_Plan Catalogs
begin

text \<open>
  The frame in which the application services of \<open>internal/core\<close> are modelled.

  A service operation runs against a host: the reporter, the file locks, the disk, network and VMM
  adapters, the file system and the clock. Each call of one of these is an \<open>event\<close>, the call and the
  error it returned, and the trace of events so far (latest first) is part of the state. A \<open>host\<close>
  decides what a call returns as a function of that history, so a statement about every host covers
  every sequence of successes, failures and results. Catalog operations are events too, but their
  effect is the verified catalog operation on the metadata of the node.

  Other operations run at the same time: before every event, \<open>h_env\<close> may change the metadata. A host is
  honest when these changes are runs of catalog operations.

  An operation is a function from the state to a result and a state. A result is \<open>Inl\<close> an exception,
  whatever the Go function returns with a non-nil error, or \<open>Inr\<close> a value.
\<close>

section \<open>Events and hosts\<close>

text \<open>Reporter, file locks, identity source, image lookups and file status.\<close>

datatype sys_op =
    S_status string
  | S_report Sandbox
  | S_lock SandboxID
  | S_trylock SandboxID
  | S_unlock SandboxID
  | S_new_id
  | S_image_resolve string
  | S_rlock "string list"
  | S_runlock "string list"
  | S_lstat string

text \<open>The sandbox catalog.\<close>

datatype catalog_op =
    K_resolve string
  | K_list
  | K_reserve SandboxID string
  | K_created SandboxID "64 word"
  | K_mark_error SandboxID "64 word"
  | K_forget SandboxID "64 word"
  | K_begin_start SandboxID "64 word"
  | K_running SandboxID "64 word"
  | K_start_error SandboxID "64 word"
  | K_begin_stop SandboxID "64 word"
  | K_stopped SandboxID "64 word" SandboxState
  | K_begin_delete SandboxID "64 word"
  | K_finalize SandboxID "64 word"

text \<open>A VMM backend.\<close>

datatype vmm_op =
    V_preflight VMMType
  | V_observe VMMType SandboxID "64 word"
  | V_locate VMMType SandboxID "64 word"
  | V_wait_ready VMMType Process
  | V_launch VMMType LaunchPlan
  | V_abort VMMType Process
  | V_vmm_stop VMMType Process StopOptions
  | V_cleanup VMMType SandboxID
  | V_remove_logs VMMType SandboxID

text \<open>A network provider.\<close>

datatype network_op =
    N_net_prepare NetworkBackend SandboxID
  | N_net_add NetworkBackend SandboxID string "AddSpec list"
  | N_net_recover NetworkBackend SandboxID string "NetworkInterface list"
  | N_net_quiesce NetworkBackend SandboxID
  | N_net_delete NetworkBackend SandboxID

text \<open>The disk backend.\<close>

datatype disk_op =
    D_disk_prepare SandboxID int
  | D_disk_clone SandboxID int string
  | D_disk_check SandboxID int
  | D_disk_remove SandboxID
  | D_data_prepare SandboxID "DataDiskSpec list"
  | D_data_clone SandboxID "DataDiskSpec list" string
  | D_data_check SandboxID "DataDiskSpec list"
  | D_recover_disks string "string list"

datatype call = Sys sys_op | Cat catalog_op | Vm vmm_op | Net network_op | Dsk disk_op

abbreviation C_status where "C_status a \<equiv> Sys (S_status a)"
abbreviation C_report where "C_report a \<equiv> Sys (S_report a)"
abbreviation C_lock where "C_lock a \<equiv> Sys (S_lock a)"
abbreviation C_trylock where "C_trylock a \<equiv> Sys (S_trylock a)"
abbreviation C_unlock where "C_unlock a \<equiv> Sys (S_unlock a)"
abbreviation C_new_id where "C_new_id \<equiv> Sys S_new_id"
abbreviation C_image_resolve where "C_image_resolve a \<equiv> Sys (S_image_resolve a)"
abbreviation C_rlock where "C_rlock a \<equiv> Sys (S_rlock a)"
abbreviation C_runlock where "C_runlock a \<equiv> Sys (S_runlock a)"
abbreviation C_lstat where "C_lstat a \<equiv> Sys (S_lstat a)"
abbreviation C_resolve where "C_resolve a \<equiv> Cat (K_resolve a)"
abbreviation C_list where "C_list \<equiv> Cat K_list"
abbreviation C_reserve where "C_reserve a b \<equiv> Cat (K_reserve a b)"
abbreviation C_created where "C_created a b \<equiv> Cat (K_created a b)"
abbreviation C_mark_error where "C_mark_error a b \<equiv> Cat (K_mark_error a b)"
abbreviation C_forget where "C_forget a b \<equiv> Cat (K_forget a b)"
abbreviation C_begin_start where "C_begin_start a b \<equiv> Cat (K_begin_start a b)"
abbreviation C_running where "C_running a b \<equiv> Cat (K_running a b)"
abbreviation C_start_error where "C_start_error a b \<equiv> Cat (K_start_error a b)"
abbreviation C_begin_stop where "C_begin_stop a b \<equiv> Cat (K_begin_stop a b)"
abbreviation C_stopped where "C_stopped a b c \<equiv> Cat (K_stopped a b c)"
abbreviation C_begin_delete where "C_begin_delete a b \<equiv> Cat (K_begin_delete a b)"
abbreviation C_finalize where "C_finalize a b \<equiv> Cat (K_finalize a b)"
abbreviation C_preflight where "C_preflight a \<equiv> Vm (V_preflight a)"
abbreviation C_observe where "C_observe a b c \<equiv> Vm (V_observe a b c)"
abbreviation C_locate where "C_locate a b c \<equiv> Vm (V_locate a b c)"
abbreviation C_wait_ready where "C_wait_ready a b \<equiv> Vm (V_wait_ready a b)"
abbreviation C_launch where "C_launch a b \<equiv> Vm (V_launch a b)"
abbreviation C_abort where "C_abort a b \<equiv> Vm (V_abort a b)"
abbreviation C_vmm_stop where "C_vmm_stop a b c \<equiv> Vm (V_vmm_stop a b c)"
abbreviation C_cleanup where "C_cleanup a b \<equiv> Vm (V_cleanup a b)"
abbreviation C_remove_logs where "C_remove_logs a b \<equiv> Vm (V_remove_logs a b)"
abbreviation C_net_prepare where "C_net_prepare a b \<equiv> Net (N_net_prepare a b)"
abbreviation C_net_add where "C_net_add a b c d \<equiv> Net (N_net_add a b c d)"
abbreviation C_net_recover where "C_net_recover a b c d \<equiv> Net (N_net_recover a b c d)"
abbreviation C_net_quiesce where "C_net_quiesce a b \<equiv> Net (N_net_quiesce a b)"
abbreviation C_net_delete where "C_net_delete a b \<equiv> Net (N_net_delete a b)"
abbreviation C_disk_prepare where "C_disk_prepare a b \<equiv> Dsk (D_disk_prepare a b)"
abbreviation C_disk_clone where "C_disk_clone a b c \<equiv> Dsk (D_disk_clone a b c)"
abbreviation C_disk_check where "C_disk_check a b \<equiv> Dsk (D_disk_check a b)"
abbreviation C_disk_remove where "C_disk_remove a \<equiv> Dsk (D_disk_remove a)"
abbreviation C_data_prepare where "C_data_prepare a b \<equiv> Dsk (D_data_prepare a b)"
abbreviation C_data_clone where "C_data_clone a b c \<equiv> Dsk (D_data_clone a b c)"
abbreviation C_data_check where "C_data_check a b \<equiv> Dsk (D_data_check a b)"
abbreviation C_recover_disks where "C_recover_disks a b \<equiv> Dsk (D_recover_disks a b)"

datatype event = Ev (ev_call: call) (ev_err: "gerr option")

record host =
  h_err :: "event list \<Rightarrow> call \<Rightarrow> gerr option"
  h_observation :: "event list \<Rightarrow> Observation"
  h_process :: "event list \<Rightarrow> Process"
  h_found :: "event list \<Rightarrow> bool"
  h_namespace :: "event list \<Rightarrow> string"
  h_interfaces :: "event list \<Rightarrow> NetworkInterface list"
  h_id :: "event list \<Rightarrow> SandboxID"
  h_fs :: "event list \<Rightarrow> hostfs"
  h_ctx :: "event list \<Rightarrow> ctx"
  h_cleanup :: "event list \<Rightarrow> ctx"
  h_now :: "event list \<Rightarrow> time"
  h_NumCPU :: int
  h_GOARCH :: string
  h_env :: "event list \<Rightarrow> snapStore \<Rightarrow> snapStore"

record svc =
  sv_node :: snapStore
  sv_trace :: "event list"

type_synonym ('e, 'a) svcM = "svc \<Rightarrow> ('e + 'a) \<times> svc"

section \<open>Sequencing\<close>

definition retM :: "'a \<Rightarrow> ('e, 'a) svcM" where
  "retM x s = (Inr x, s)"

definition failM :: "'e \<Rightarrow> ('e, 'a) svcM" where
  "failM e s = (Inl e, s)"

text \<open>\<open>x, err := m; if err != nil { h err }; k x\<close>\<close>

definition tryM :: "('e, 'a) svcM \<Rightarrow> ('e \<Rightarrow> ('f, 'b) svcM) \<Rightarrow> ('a \<Rightarrow> ('f, 'b) svcM) \<Rightarrow> ('f, 'b) svcM" where
  "tryM m h k s = (case m s of (Inl e, s') \<Rightarrow> h e s' | (Inr x, s') \<Rightarrow> k x s')"

text \<open>\<open>x, err := m; if err != nil { return err }; k x\<close>\<close>

definition bindM :: "('e, 'a) svcM \<Rightarrow> ('a \<Rightarrow> ('e, 'b) svcM) \<Rightarrow> ('e, 'b) svcM" where
  "bindM m k = tryM m failM k"

text \<open>The error of a call kept as a value.\<close>

definition attempt :: "('e, 'a) svcM \<Rightarrow> ('f, 'e option) svcM" where
  "attempt m = tryM m (\<lambda>e. retM (Some e)) (\<lambda>_. retM None)"

section \<open>Errors\<close>

text \<open>
  Errors built at different moments are different allocations. A pure definition of the other theories
  numbers its allocations from zero; when its error enters an operation the numbers are shifted by a
  base that grows with the trace.
\<close>

primrec readdress :: "nat \<Rightarrow> gerr \<Rightarrow> gerr" where
  "readdress k (Msg m) = Msg m"
| "readdress k (Wrap m e) = Wrap m (readdress k e)"
| "readdress k (Join es) = Join (map (readdress k) es)"
| "readdress k (Error a c code op en ph cm act cause w) =
     Error (k + a) c code op en ph cm act (map_option (readdress k) cause) (map_option (readdress k) w)"

definition fresh :: "svc \<Rightarrow> nat" where
  "fresh s = 16 * Suc (length (sv_trace s))"

definition liftE :: "gerr + 'a \<Rightarrow> (gerr, 'a) svcM" where
  "liftE r s = (case r of Inl e \<Rightarrow> (Inl (readdress (fresh s) e), s) | Inr x \<Rightarrow> (Inr x, s))"

text \<open>\<open>return v, errdefs.New(...)\<close> and \<open>return v, errdefs.WithContext(...)\<close>, the exception built from the error.\<close>

definition failN :: "(gerr \<Rightarrow> 'e) \<Rightarrow> Class \<Rightarrow> Code \<Rightarrow> string \<Rightarrow> ('e, 'a) svcM" where
  "failN f class code msg s = (Inl (f (New (fresh s + 8) class code (Some (Msg msg)))), s)"

definition withCtx :: "ContextInfo \<Rightarrow> gerr \<Rightarrow> ('e, gerr) svcM" where
  "withCtx info e s = (Inr (the (WithContext (fresh s + 9) (Some e) info)), s)"

definition failW :: "(gerr \<Rightarrow> 'e) \<Rightarrow> ContextInfo \<Rightarrow> gerr \<Rightarrow> ('e, 'a) svcM" where
  "failW f info e = tryM (withCtx info e) failM (\<lambda>e'. failM (f e'))"

definition service_info :: "string \<Rightarrow> string \<Rightarrow> string \<Rightarrow> string \<Rightarrow> bool \<Rightarrow> ContextInfo" where
  "service_info operation entity phase action committed =
     \<lparr>ctx_Operation = operation, ctx_Entity = entity, ctx_Phase = phase, ctx_Action = action, ctx_Committed = committed\<rparr>"

section \<open>Calls\<close>

definition push :: "host \<Rightarrow> call \<Rightarrow> gerr option \<Rightarrow> svc \<Rightarrow> svc" where
  "push H c e s = \<lparr>sv_node = h_env H (sv_trace s) (sv_node s), sv_trace = Ev c e # sv_trace s\<rparr>"

text \<open>A call of the host; on success the operation reads its payload from the history.\<close>

definition ask :: "host \<Rightarrow> call \<Rightarrow> (event list \<Rightarrow> 'a) \<Rightarrow> (gerr, 'a) svcM" where
  "ask H c payload s = (let e = h_err H (sv_trace s) c in
     (case e of None \<Rightarrow> Inr (payload (sv_trace s)) | Some e \<Rightarrow> Inl e, push H c e s))"

definition call :: "host \<Rightarrow> call \<Rightarrow> (gerr, unit) svcM" where
  "call H c = ask H c (\<lambda>_. ())"

text \<open>Reading the file system, the caller's context and the clock between events.\<close>

definition query :: "(event list \<Rightarrow> 'a) \<Rightarrow> ('e, 'a) svcM" where
  "query f s = (Inr (f (sv_trace s)), s)"

definition err_of :: "'e + 'a \<Rightarrow> 'e option" where
  "err_of r = (case r of Inl e \<Rightarrow> Some e | Inr _ \<Rightarrow> None)"

text \<open>A catalog operation: it acts on the metadata as the other operations left it.\<close>

definition catalog :: "host \<Rightarrow> call \<Rightarrow> (snapStore \<Rightarrow> (gerr + 'a) \<times> snapStore) \<Rightarrow> (gerr, 'a) svcM" where
  "catalog H c f s = (case f (h_env H (sv_trace s) (sv_node s)) of (r, n') \<Rightarrow>
     let r' = (case r of Inl e \<Rightarrow> Inl (readdress (fresh s) e) | Inr x \<Rightarrow> Inr x) in
     (r', \<lparr>sv_node = n', sv_trace = Ev c (err_of r') # sv_trace s\<rparr>))"

definition on_store :: "(store \<Rightarrow> (gerr + 'a) \<times> store) \<Rightarrow> snapStore \<Rightarrow> (gerr + 'a) \<times> snapStore" where
  "on_store f n = (case f (ss_store n) of (r, s') \<Rightarrow> (r, n\<lparr>ss_store := s'\<rparr>))"

definition reading :: "(store \<Rightarrow> gerr + 'a) \<Rightarrow> snapStore \<Rightarrow> (gerr + 'a) \<times> snapStore" where
  "reading f n = (f (ss_store n), n)"

text \<open>A write of the sandbox catalog under a context of the host, stamped with the host's clock.\<close>

definition catalog_write :: "host \<Rightarrow> (event list \<Rightarrow> ctx) \<Rightarrow> call \<Rightarrow> (ctx \<Rightarrow> time \<Rightarrow> store \<Rightarrow> (gerr + 'a) \<times> store) \<Rightarrow> (gerr, 'a) svcM" where
  "catalog_write H context c f = tryM (query (\<lambda>tr. (context tr, h_now H tr))) failM
     (\<lambda>(ctx, now). catalog H c (on_store (f ctx now)))"

definition catalog_read :: "host \<Rightarrow> (event list \<Rightarrow> ctx) \<Rightarrow> call \<Rightarrow> (ctx \<Rightarrow> store \<Rightarrow> gerr + 'a) \<Rightarrow> (gerr, 'a) svcM" where
  "catalog_read H context c f = tryM (query context) failM (\<lambda>ctx. catalog H c (reading (f ctx)))"

definition status :: "host \<Rightarrow> string \<Rightarrow> (gerr, unit) svcM" where
  "status H m = call H (C_status m)"

definition report :: "host \<Rightarrow> Sandbox \<Rightarrow> (gerr, unit) svcM" where
  "report H r = call H (C_report r)"

section \<open>The catalog as the service calls it\<close>

definition cat_Resolve :: "host \<Rightarrow> string \<Rightarrow> (gerr, Sandbox) svcM" where
  "cat_Resolve H reference = catalog_read H (h_ctx H) (C_resolve reference) (\<lambda>ctx st. sandbox_Resolve ctx st reference)"

definition cat_List :: "host \<Rightarrow> (gerr, Sandbox list) svcM" where
  "cat_List H = catalog_read H (h_ctx H) C_list sandbox_List"

definition cat_Reserve :: "host \<Rightarrow> string \<Rightarrow> Digest \<Rightarrow> Sandbox \<Rightarrow> (gerr, unit) svcM" where
  "cat_Reserve H ref expected r = catalog_write H (h_ctx H) (C_reserve (sb_ID r) (cfg_Name (sb_Config r)))
     (\<lambda>ctx _ st. sandbox_Reserve resolve_image ctx st ref expected r)"

definition cat_MarkCreated :: "host \<Rightarrow> SandboxID \<Rightarrow> 64 word \<Rightarrow> NetworkSetup \<Rightarrow> (gerr, Sandbox) svcM" where
  "cat_MarkCreated H i g nsetup = catalog_write H (h_ctx H) (C_created i g) (\<lambda>ctx now st. sandbox_MarkCreated ctx st i g nsetup now)"

definition cat_MarkError :: "host \<Rightarrow> SandboxID \<Rightarrow> 64 word \<Rightarrow> SandboxFailure \<Rightarrow> (gerr, Sandbox) svcM" where
  "cat_MarkError H i g failure = catalog_write H (h_cleanup H) (C_mark_error i g) (\<lambda>ctx now st. sandbox_MarkError ctx st i g failure now)"

definition cat_Forget :: "host \<Rightarrow> SandboxID \<Rightarrow> 64 word \<Rightarrow> (gerr, unit) svcM" where
  "cat_Forget H i g = catalog_write H (h_cleanup H) (C_forget i g) (\<lambda>ctx _ st. sandbox_Forget ctx st i g)"

definition cat_BeginStart :: "host \<Rightarrow> SandboxID \<Rightarrow> 64 word \<Rightarrow> (gerr, Sandbox) svcM" where
  "cat_BeginStart H i g = catalog_write H (h_ctx H) (C_begin_start i g) (\<lambda>ctx now st. sandbox_BeginStart ctx st i g now)"

definition cat_MarkRunning :: "host \<Rightarrow> SandboxID \<Rightarrow> 64 word \<Rightarrow> (gerr, Sandbox) svcM" where
  "cat_MarkRunning H i g = catalog_write H (h_ctx H) (C_running i g) (\<lambda>ctx now st. sandbox_MarkRunning ctx st i g now)"

definition cat_MarkStartError :: "host \<Rightarrow> SandboxID \<Rightarrow> 64 word \<Rightarrow> SandboxFailure \<Rightarrow> (gerr, Sandbox) svcM" where
  "cat_MarkStartError H i g failure = catalog_write H (h_cleanup H) (C_start_error i g)
     (\<lambda>ctx now st. sandbox_MarkStartError ctx st i g failure now)"

definition cat_BeginStop :: "host \<Rightarrow> SandboxID \<Rightarrow> 64 word \<Rightarrow> (gerr, Sandbox) svcM" where
  "cat_BeginStop H i g = catalog_write H (h_ctx H) (C_begin_stop i g) (\<lambda>ctx now st. sandbox_BeginStop ctx st i g now)"

definition cat_MarkStopped :: "host \<Rightarrow> SandboxID \<Rightarrow> 64 word \<Rightarrow> SandboxState \<Rightarrow> (gerr, Sandbox) svcM" where
  "cat_MarkStopped H i g from = catalog_write H (h_ctx H) (C_stopped i g from) (\<lambda>ctx now st. sandbox_MarkStopped ctx st i g from now)"

definition cat_BeginDelete :: "host \<Rightarrow> SandboxID \<Rightarrow> 64 word \<Rightarrow> (gerr, Sandbox) svcM" where
  "cat_BeginDelete H i g = catalog_write H (h_ctx H) (C_begin_delete i g) (\<lambda>ctx now st. sandbox_BeginDelete ctx st i g now)"

definition cat_FinalizeDelete :: "host \<Rightarrow> SandboxID \<Rightarrow> 64 word \<Rightarrow> (gerr, unit) svcM" where
  "cat_FinalizeDelete H i g = catalog_write H (h_ctx H) (C_finalize i g) (\<lambda>ctx _ st. sandbox_FinalizeDelete ctx st i g)"

end
