(* ===== verification/Sandbox_Service.thy ===== *)
theory Sandbox_Service
  imports Service
begin

text \<open>
  The sandbox application service of \<open>internal/core\<close>: the operation lock (\<open>sandbox_lock.go\<close>), creation,
  compensation and removal (\<open>sandbox_storage.go\<close>), start, recovery and stop (\<open>sandbox_runtime.go\<close>),
  reconciliation (\<open>sandbox_reconcile.go\<close>), status (\<open>sandbox_status.go\<close>) and the queries and
  compositions of \<open>sandbox.go\<close>, with the image guard of \<open>internal/images/verify.go\<close>.

  The body of an operation that holds the operation lock ends in a value with the flag \<open>committed\<close> of the
  source at that return, or in an exception that carries the returned record, the error and the flag; the
  deferred unlock reads both.
\<close>

section \<open>The service\<close>

record sandboxDependencies =
  d_images :: bool
  d_catalog :: bool
  d_disks :: bool
  d_networks :: networkRegistry
  d_runtimes :: vmmRegistry
  d_reporter :: bool
  d_newID :: bool
  d_now :: bool
  d_paths :: Roots
  d_imagePaths :: Roots
  d_defaultNetwork :: NetworkBackend
  d_defaultVMM :: VMMType
  d_cleanupTimeout :: duration
  d_stopTimeout :: duration
  d_dnsServers :: "string list"
  d_diskCloner :: bool
  d_diskDataStore :: bool

text \<open>A boolean field tells whether the capability is present (not nil); the last two whether the disk
  backend also implements \<open>disk.Cloner\<close> and \<open>disk.DataStore\<close>. The service pointer itself may be nil.\<close>

type_synonym SandboxService = "sandboxDependencies option"

definition newSandboxService :: "sandboxDependencies \<Rightarrow> gerr + SandboxService" where
  "newSandboxService d =
     (if \<not> d_images d \<or> \<not> d_catalog d \<or> \<not> d_disks d \<or> d_networks d = None \<or> vmm_Len (d_runtimes d) = 0
      then Inl (Msg ''sandbox service adapters are incomplete'')
      else if d_cleanupTimeout d \<le> 0 then Inl (Msg ''sandbox cleanup timeout must be positive'')
      else if d_stopTimeout d \<le> 0 then Inl (Msg ''sandbox stop timeout must be positive'')
      else bindE (registry_Backend (d_runtimes d) (d_defaultVMM d)) (\<lambda>_.
        bindE (registry_Provider (d_networks d) (d_defaultNetwork d)) (\<lambda>_.
        Inr (Some (d\<lparr>d_reporter := True, d_newID := True, d_now := True\<rparr>)))))"

definition Sandbox_zero :: Sandbox where
  "Sandbox_zero = \<lparr>sb_ID = [], sb_Config = \<lparr>cfg_Name = [], cfg_CPUs = 0,
       cfg_CPUPolicy = \<lparr>pol_Weight = 0, pol_QuotaUS = 0, pol_PeriodUS = 0, pol_BurstUS = 0, pol_CPUSet = []\<rparr>,
       cfg_Memory = 0, cfg_SharedMemory = False, cfg_HugePages = False, cfg_Mergeable = False, cfg_NoBalloon = False,
       cfg_Storage = 0, cfg_COWIOMode = [], cfg_NICs = 0, cfg_NetworkName = [], cfg_NetworkBackend = [],
       cfg_BridgeStatic = False, cfg_DataDisks = []\<rparr>,
     sb_ImageDigest = Digest_zero, sb_VMM = [], sb_Network = NetworkSetup_zero, sb_State = [], sb_Generation = 0,
     sb_Failure = None, sb_CreatedAt = 0, sb_UpdatedAt = 0\<rparr>"

definition networkProvider :: "sandboxDependencies \<Rightarrow> Sandbox \<Rightarrow> gerr + Provider option" where
  "networkProvider d record =
     (if cfg_NICs (sb_Config record) = 0 \<and> net_Backend (sb_Network record) = [] then Inr None
      else
        let b0 = net_Backend (sb_Network record);
            b1 = (if b0 = [] then cfg_NetworkBackend (sb_Config record) else b0);
            backend = (if b1 = [] then d_defaultNetwork d else b1)
        in bindE (registry_Provider (d_networks d) backend) (\<lambda>p. Inr (Some p)))"

section \<open>The operation lock\<close>

record sandboxLockRequest =
  lr_reference :: string
  lr_operation :: string
  lr_retryHint :: string
  lr_reportWait :: bool

text \<open>The record resolved under the lock, and the identity whose lock the returned unlock function releases.\<close>

definition lockExistingSandbox :: "sandboxDependencies \<Rightarrow> host \<Rightarrow> sandboxLockRequest \<Rightarrow> (gerr, Sandbox \<times> SandboxID) svcM" where
  "lockExistingSandbox d H request =
     bindM (cat_Resolve H (lr_reference request)) (\<lambda>record.
     bindM (query (h_fs H)) (\<lambda>fs.
     bindM (liftE (sandbox_Lock fs (d_paths d) (sb_ID record))) (\<lambda>_.
     bindM (if lr_reportWait request then status H ''waiting for sandbox operation lock'' else retM ()) (\<lambda>_.
     tryM (call H (C_lock (sb_ID record)))
       (failW id (service_info (lr_operation request) (lr_reference request) ''lock'' (lr_retryHint request) False))
       (\<lambda>_. tryM (cat_Resolve H (sb_ID record))
         (\<lambda>err. bindM (attempt (call H (C_unlock (sb_ID record)))) (\<lambda>u. failM (the (errors_Join [Some err, u]))))
         (\<lambda>current. retM (current, sb_ID record)))))))"

text \<open>The deferred unlock of an operation: a failed unlock is joined to the returned error and put in the
  context of the operation, with the flag the operation ends with.\<close>

definition finish :: "Sandbox \<times> gerr \<times> bool + Sandbox \<times> bool \<Rightarrow> Sandbox \<times> gerr + Sandbox" where
  "finish r = (case r of Inl (v, e, _) \<Rightarrow> Inl (v, e) | Inr (v, _) \<Rightarrow> Inr v)"

definition end_value :: "Sandbox \<times> gerr \<times> bool + Sandbox \<times> bool \<Rightarrow> Sandbox" where
  "end_value r = (case r of Inl (v, _, _) \<Rightarrow> v | Inr (v, _) \<Rightarrow> v)"

definition end_error :: "Sandbox \<times> gerr \<times> bool + Sandbox \<times> bool \<Rightarrow> gerr option" where
  "end_error r = (case r of Inl (_, e, _) \<Rightarrow> Some e | Inr _ \<Rightarrow> None)"

definition end_committed :: "Sandbox \<times> gerr \<times> bool + Sandbox \<times> bool \<Rightarrow> bool" where
  "end_committed r = (case r of Inl (_, _, c) \<Rightarrow> c | Inr (_, c) \<Rightarrow> c)"

definition deferUnlock :: "host \<Rightarrow> SandboxID \<Rightarrow> (bool \<Rightarrow> ContextInfo) \<Rightarrow> (Sandbox \<times> gerr \<times> bool, Sandbox \<times> bool) svcM
    \<Rightarrow> (Sandbox \<times> gerr, Sandbox) svcM" where
  "deferUnlock H i info body s = (case body s of (r, s1) \<Rightarrow> tryM (call H (C_unlock i))
     (\<lambda>u. failW (\<lambda>e. (end_value r, e)) (info (end_committed r)) (the (errors_Join [end_error r, Some u])))
     (\<lambda>_ s2. (finish r, s2)) s1)"

section \<open>The image guard\<close>

text \<open>\<open>availableFile\<close>: cancellation, then \<open>Lstat\<close>.\<close>

definition availableFile :: "host \<Rightarrow> string \<Rightarrow> int \<Rightarrow> (gerr, unit) svcM" where
  "availableFile H path expectedSize = bindM (query (h_ctx H)) (\<lambda>ctx. case ctx of Some e \<Rightarrow> failM e | None \<Rightarrow>
     bindM (query (h_fs H)) (\<lambda>fs. bindM (attempt (call H (C_lstat path))) (\<lambda>_.
     case fs_Lstat fs path of
       Present (Regular n) \<Rightarrow> if n = expectedSize then retM () else failN id ClassCorrupt CodeArtifactCorrupt ''artifact is not a regular file of its size''
     | Present _ \<Rightarrow> failN id ClassCorrupt CodeArtifactCorrupt ''artifact is not a regular file of its size''
     | Missing \<Rightarrow> failN id ClassUnavailable CodeArtifactUnavailable ''no such file or directory''
     | Unreadable e \<Rightarrow> (\<lambda>s. (Inl (New (fresh s + 8) ClassUnavailable CodeArtifactUnavailable (Some e)), s)))))"

fun eachM :: "('a \<Rightarrow> (gerr, unit) svcM) \<Rightarrow> 'a list \<Rightarrow> (gerr, unit) svcM" where
  "eachM f [] = retM ()"
| "eachM f (x # xs) = bindM (f x) (\<lambda>_. eachM f xs)"

definition availableLayer :: "host \<Rightarrow> Roots \<Rightarrow> Layer \<Rightarrow> (gerr, unit) svcM" where
  "availableLayer H p layer =
     bindM (availableFile H (images_EROFS p (layer_SourceDigest layer)) (layer_Size layer)) (\<lambda>_.
     eachM (\<lambda>file. bindM (query (h_fs H)) (\<lambda>fs.
       bindM (liftE (images_BootFile fs p (layer_SourceDigest layer) (bf_Name file))) (\<lambda>path.
       availableFile H path (bf_Size file)))) (layer_BootFiles layer))"

definition availableImage :: "host \<Rightarrow> Roots \<Rightarrow> Image \<Rightarrow> (gerr, unit) svcM" where
  "availableImage H p im = bindM (eachM (availableLayer H p) (img_Layers im)) (\<lambda>_.
     liftE (case validateFacts im of None \<Rightarrow> Inr () | Some e \<Rightarrow> Inl e))"

text \<open>\<open>withLocked\<close> with its check and the consumer's callback. The exception also carries what the callback
  returned when it succeeded before the deferred unlock failed, which callers keep in captured variables.\<close>

definition image_under_locks :: "host \<Rightarrow> Roots \<Rightarrow> string \<Rightarrow> Digest \<Rightarrow> (Image \<Rightarrow> (gerr, 'b) svcM) \<Rightarrow> (gerr, 'b) svcM" where
  "image_under_locks H p reference expected use =
     bindM (catalog_read H (h_ctx H) (C_image_resolve reference) (\<lambda>ctx st. image_Resolve ctx st reference)) (\<lambda>im.
     if img_ManifestDigest im \<noteq> expected
     then failN id ClassConflict CodeStateConflict ''image binding changed while waiting for layer locks; retry''
     else bindM (availableImage H p im) (\<lambda>_. use im))"

definition WithAvailable :: "host \<Rightarrow> Roots \<Rightarrow> string \<Rightarrow> (Image \<Rightarrow> (gerr, 'b) svcM) \<Rightarrow> (gerr \<times> 'b option, 'b) svcM" where
  "WithAvailable H p reference use =
     tryM (catalog_read H (h_ctx H) (C_image_resolve reference) (\<lambda>ctx st. image_Resolve ctx st reference)) (\<lambda>e. failM (e, None)) (\<lambda>im.
     let paths = map (\<lambda>l. images_Lock p (layer_SourceDigest l)) (img_Layers im) in
     tryM (call H (C_rlock paths)) (\<lambda>e. failM (Wrap ''lock image layers: '' e, None)) (\<lambda>_.
     tryM (image_under_locks H p reference (img_ManifestDigest im) use)
       (\<lambda>e. bindM (attempt (call H (C_runlock paths))) (\<lambda>u. failM (the (errors_Join [Some e, u]), None)))
       (\<lambda>x. bindM (attempt (call H (C_runlock paths))) (\<lambda>u. case errors_Join [None, u] of
          None \<Rightarrow> retM x | Some e \<Rightarrow> failM (e, Some x)))))"

section \<open>Network recovery\<close>

definition recoverNetwork :: "sandboxDependencies \<Rightarrow> host \<Rightarrow> Sandbox \<Rightarrow> (gerr, unit) svcM" where
  "recoverNetwork d H record =
     bindM (liftE (networkProvider d record)) (\<lambda>provider. case provider of None \<Rightarrow> retM () | Some p \<Rightarrow>
     if net_Backend (sb_Network record) = [] then failN id ClassConflict CodeStateConflict ''sandbox network creation is incomplete''
     else bindM (status H ''recovering sandbox network'') (\<lambda>_.
     bindM (ask H (C_net_recover (prov_Type p) (sb_ID record) (cfg_NetworkName (sb_Config record)) (net_Interfaces (sb_Network record)))
        (h_interfaces H)) (\<lambda>recovered.
     if recovered \<noteq> net_Interfaces (sb_Network record)
     then failN id ClassCorrupt CodeArtifactCorrupt ''recovered network identity differs from persisted sandbox state''
     else retM ())))"

definition quiesceNetwork :: "sandboxDependencies \<Rightarrow> host \<Rightarrow> Sandbox \<Rightarrow> (gerr, unit) svcM" where
  "quiesceNetwork d H record =
     bindM (liftE (networkProvider d record)) (\<lambda>provider. case provider of None \<Rightarrow> retM () | Some p \<Rightarrow>
     if net_Backend (sb_Network record) = [] then retM ()
     else bindM (attempt (status H ''quiescing sandbox network'')) (\<lambda>reportErr.
     bindM (attempt (call H (C_net_quiesce (prov_Type p) (sb_ID record)))) (\<lambda>q.
     case errors_Join [reportErr, q] of None \<Rightarrow> retM () | Some e \<Rightarrow> failM e)))"

section \<open>Start\<close>

text \<open>\<open>failStart\<close> returns the error of the start; it never fails itself.\<close>

definition failStart :: "sandboxDependencies \<Rightarrow> host \<Rightarrow> Backend \<Rightarrow> Sandbox \<Rightarrow> string \<Rightarrow> gerr \<Rightarrow> Process \<Rightarrow> ('x, gerr) svcM" where
  "failStart d H backend starting phase cause process =
     bindM (attempt (if 0 < proc_PID process then call H (C_abort (be_Type backend) process)
                     else call H (C_cleanup (be_Type backend) (sb_ID starting)))) (\<lambda>c.
     bindM (attempt (quiesceNetwork d H starting)) (\<lambda>q.
     let cleanupErr = errors_Join [c, q];
         failureCause = errors_Join [Some cause, cleanupErr];
         failure = \<lparr>fail_Phase = phase, fail_Message = Error_Error (the failureCause)\<rparr>
     in bindM (attempt (cat_MarkStartError H (sb_ID starting) (sb_Generation starting) failure)) (\<lambda>markErr.
     withCtx (service_info ''start sandbox'' (cfg_Name (sb_Config starting)) phase ''inspect the retained error sandbox and VMM log'' True)
       (the (errors_Join [failureCause, markErr])))))"

text \<open>What \<open>recoverStart\<close> does with the observed process, by the durable state. \<open>None\<close> is the fall through
  to the unknown observation.\<close>

definition recoverRunning :: "sandboxDependencies \<Rightarrow> host \<Rightarrow> Backend \<Rightarrow> Sandbox \<Rightarrow> Observation \<Rightarrow> (gerr, (Sandbox \<times> bool) option) svcM" where
  "recoverRunning d H backend record observation =
     (if obs_State observation = ProcessRunning then retM (Some (record, True))
      else if obs_State observation = ProcessStarting then
        bindM (call H (C_wait_ready (be_Type backend) (obs_Process observation))) (\<lambda>_. retM (Some (record, True)))
      else if obs_State observation = ProcessAbsent then
        bindM (call H (C_cleanup (be_Type backend) (sb_ID record))) (\<lambda>_.
        bindM (quiesceNetwork d H record) (\<lambda>_.
        bindM (cat_MarkStopped H (sb_ID record) (sb_Generation record) SandboxStateRunning) (\<lambda>stopped.
        retM (Some (stopped, False)))))
      else retM None)"

definition recoverStarting :: "sandboxDependencies \<Rightarrow> host \<Rightarrow> Backend \<Rightarrow> Sandbox \<Rightarrow> Observation \<Rightarrow> (gerr, (Sandbox \<times> bool) option) svcM" where
  "recoverStarting d H backend record observation =
     (if obs_State observation = ProcessRunning then
        bindM (cat_MarkRunning H (sb_ID record) (sb_Generation record)) (\<lambda>running. retM (Some (running, True)))
      else if obs_State observation = ProcessStarting then
        tryM (call H (C_wait_ready (be_Type backend) (obs_Process observation)))
          (\<lambda>err. bindM (failStart d H backend record ''recover VMM'' err (obs_Process observation)) failM)
          (\<lambda>_. tryM (cat_MarkRunning H (sb_ID record) (sb_Generation record))
            (\<lambda>err. bindM (failStart d H backend record ''commit recovered VMM'' err (obs_Process observation)) failM)
            (\<lambda>running. retM (Some (running, True))))
      else if obs_State observation = ProcessAbsent then
        bindM (call H (C_cleanup (be_Type backend) (sb_ID record))) (\<lambda>_. retM (Some (record, False)))
      else retM None)"

definition recoverIdle :: "host \<Rightarrow> Backend \<Rightarrow> Sandbox \<Rightarrow> Observation \<Rightarrow> (gerr, (Sandbox \<times> bool) option) svcM" where
  "recoverIdle H backend record observation =
     (if obs_State observation \<noteq> ProcessAbsent
      then failN id ClassConflict CodeStateConflict ''sandbox has a live VMM while it is not running''
      else bindM (call H (C_cleanup (be_Type backend) (sb_ID record))) (\<lambda>_. retM (Some (record, False))))"

definition recoverStart :: "sandboxDependencies \<Rightarrow> host \<Rightarrow> Backend \<Rightarrow> Sandbox \<Rightarrow> (gerr, Sandbox \<times> bool) svcM" where
  "recoverStart d H backend record =
     (if List.member [SandboxStateCreating, SandboxStateStopping, SandboxStateDeleting] (sb_State record)
      then failN id ClassConflict CodeStateConflict ''sandbox cannot start in this state''
      else if sb_State record = SandboxStateRunning \<and> sb_Generation record < 2
      then failN id ClassCorrupt CodeArtifactCorrupt ''running sandbox has no Starting generation''
      else
        let expected = (if sb_State record = SandboxStateRunning then sb_Generation record - 1 else sb_Generation record) in
        bindM (status H ''checking existing runtime'') (\<lambda>_.
        bindM (ask H (C_observe (be_Type backend) (sb_ID record) expected) (h_observation H)) (\<lambda>observation.
        bindM (if sb_State record = SandboxStateRunning then recoverRunning d H backend record observation
               else if sb_State record = SandboxStateStarting then recoverStarting d H backend record observation
               else recoverIdle H backend record observation) (\<lambda>out. case out of
          Some r \<Rightarrow> retM r
        | None \<Rightarrow> failN id ClassInternal CodeInternal ''unknown VMM observation''))))"

definition abandon_start :: "sandboxDependencies \<Rightarrow> host \<Rightarrow> Backend \<Rightarrow> Sandbox \<Rightarrow> string \<Rightarrow> Process \<Rightarrow> gerr \<Rightarrow> (Sandbox \<times> gerr \<times> bool, 'a) svcM" where
  "abandon_start d H backend starting phase process cause =
     bindM (failStart d H backend starting phase cause process) (\<lambda>e. failM (starting, e, True))"

text \<open>After the Starting commit: validate the plan, recover the network, launch and commit Running.\<close>

definition start_launch :: "sandboxDependencies \<Rightarrow> host \<Rightarrow> Backend \<Rightarrow> string \<Rightarrow> LaunchPlan \<Rightarrow> Sandbox \<Rightarrow> (Sandbox \<times> gerr \<times> bool, Sandbox \<times> bool) svcM" where
  "start_launch d H backend reference plan0 starting =
     (let plan = plan0\<lparr>lp_Generation := sb_Generation starting\<rparr> in
      tryM (liftE (case LaunchPlan_Validate plan of None \<Rightarrow> Inr () | Some e \<Rightarrow> Inl e)) (abandon_start d H backend starting ''build launch plan'' Process_zero) (\<lambda>_.
      tryM (recoverNetwork d H starting) (abandon_start d H backend starting ''recover network'' Process_zero) (\<lambda>_.
      tryM (status H (''launching '' @ be_Type backend)) (abandon_start d H backend starting ''report'' Process_zero) (\<lambda>_.
      bindM (query (h_process H)) (\<lambda>process.
      tryM (call H (C_launch (be_Type backend) plan)) (abandon_start d H backend starting ''launch VMM'' process) (\<lambda>_.
      tryM (status H ''committing running state'') (abandon_start d H backend starting ''report'' process) (\<lambda>_.
      tryM (cat_MarkRunning H (sb_ID starting) (sb_Generation starting)) (abandon_start d H backend starting ''commit running'' process) (\<lambda>running.
      tryM (report H running)
        (failW (\<lambda>e. (running, e, True)) (service_info ''start sandbox'' reference ''report'' ''sandbox is running; inspect it before retrying'' True))
        (\<lambda>_. retM (running, True))))))))))"

definition image_launch_plan :: "sandboxDependencies \<Rightarrow> host \<Rightarrow> Sandbox \<Rightarrow> Image \<Rightarrow> (gerr, LaunchPlan) svcM" where
  "image_launch_plan d H record im =
     bindM (query (h_fs H)) (\<lambda>fs.
     bindM (liftE (launchPlan \<lparr>le_paths = d_paths d, le_imagePaths = d_imagePaths d, le_dnsServers = d_dnsServers d,
        le_GOARCH = h_GOARCH H\<rparr> fs record im)) (\<lambda>plan.
     bindM (call H (C_disk_check (sb_ID record) (cfg_Storage (sb_Config record)))) (\<lambda>_.
     if cfg_DataDisks (sb_Config record) \<noteq> [] then
       (if \<not> d_diskDataStore d then failM (Msg ''disk backend does not support managed data disks'')
        else bindM (call H (C_data_check (sb_ID record) (cfg_DataDisks (sb_Config record)))) (\<lambda>_. retM plan))
     else retM plan)))"

definition failBeforeLaunch :: "sandboxDependencies \<Rightarrow> host \<Rightarrow> Backend \<Rightarrow> string \<Rightarrow> Sandbox \<Rightarrow> bool \<Rightarrow> string \<Rightarrow> gerr
    \<Rightarrow> (Sandbox \<times> gerr \<times> bool, 'a) svcM" where
  "failBeforeLaunch d H backend reference record committed phase cause =
     (if sb_State record = SandboxStateStarting
      then bindM (failStart d H backend record phase cause Process_zero) (\<lambda>e. failM (record, e, committed))
      else failW (\<lambda>e. (record, e, committed))
        (service_info ''start sandbox'' reference phase ''fix the validation failure and retry'' committed) cause)"

definition start_fresh :: "sandboxDependencies \<Rightarrow> host \<Rightarrow> Backend \<Rightarrow> string \<Rightarrow> Sandbox \<Rightarrow> bool \<Rightarrow> (Sandbox \<times> gerr \<times> bool, Sandbox \<times> bool) svcM" where
  "start_fresh d H backend reference record committed =
     (bindM (query (h_fs H)) (\<lambda>fs.
      tryM (liftE (sandbox_RestoreBackup fs (d_paths d) (sb_ID record))) (failBeforeLaunch d H backend reference record committed ''resolve disk backup'') (\<lambda>backupDir.
      tryM (liftE (writableDiskPaths fs (d_paths d) (sb_ID record) (cfg_DataDisks (sb_Config record)))) (failBeforeLaunch d H backend reference record committed ''resolve writable disks'') (\<lambda>livePaths.
      tryM (call H (C_recover_disks backupDir livePaths)) (failBeforeLaunch d H backend reference record committed ''recover writable disks'') (\<lambda>_.
      tryM (status H ''checking host runtime'') (failBeforeLaunch d H backend reference record committed ''report'') (\<lambda>_.
      tryM (call H (C_preflight (be_Type backend))) (failBeforeLaunch d H backend reference record committed ''host preflight'') (\<lambda>_.
      tryM (if h_NumCPU H < int (unat (cfg_CPUs (sb_Config record)))
            then failN id ClassInvalid CodeHostIncompatible ''requested vCPUs exceed available host CPUs'' else retM ())
        (failBeforeLaunch d H backend reference record committed ''host capacity'') (\<lambda>_.
      tryM (status H ''verifying image and sandbox disk'') (failBeforeLaunch d H backend reference record committed ''report'') (\<lambda>_.
      tryM (WithAvailable H (d_imagePaths d) (Digest_String (sb_ImageDigest record)) (image_launch_plan d H record))
        (\<lambda>(e, _). failBeforeLaunch d H backend reference record committed ''validate artifacts'' e) (\<lambda>plan.
      tryM (status H ''committing starting state'') (failBeforeLaunch d H backend reference record committed ''report'') (\<lambda>_.
      tryM (cat_BeginStart H (sb_ID record) (sb_Generation record))
        (failW (\<lambda>e. (record, e, committed)) (service_info ''start sandbox'' reference ''mark starting'' ''inspect the sandbox before retrying'' committed))
        (start_launch d H backend reference plan))))))))))))"

definition start_locked :: "sandboxDependencies \<Rightarrow> host \<Rightarrow> string \<Rightarrow> Sandbox \<Rightarrow> (Sandbox \<times> gerr \<times> bool, Sandbox \<times> bool) svcM" where
  "start_locked d H reference record =
     tryM (liftE (registry_Backend (d_runtimes d) (sb_VMM record))) (\<lambda>e. failM (record, e, False)) (\<lambda>backend.
     tryM (recoverStart d H backend record)
       (failW (\<lambda>e. (Sandbox_zero, e, False)) (service_info ''start sandbox'' reference ''recover runtime''
          ''inspect the sandbox and VMM log before retrying'' False)) (\<lambda>(result, done).
     let committed = (sb_Generation result \<noteq> sb_Generation record \<or> sb_State result \<noteq> sb_State record) in
     if done then
       tryM (report H result)
         (failW (\<lambda>e. (result, e, True)) (service_info ''start sandbox'' reference ''report'' ''sandbox is running; inspect it before retrying'' True))
         (\<lambda>_. retM (result, True))
     else start_fresh d H backend reference result committed))"

definition no_sandbox :: "(Sandbox \<times> gerr, 'a) svcM" where
  "no_sandbox = failM (Sandbox_zero, Msg ''sandbox service is not configured'')"

definition no_reference :: "(Sandbox \<times> gerr, 'a) svcM" where
  "no_reference = failN (\<lambda>e. (Sandbox_zero, e)) ClassInvalid CodeInvalidArgument ''SANDBOX must not be empty''"

definition runtime_ready :: "sandboxDependencies \<Rightarrow> bool" where
  "runtime_ready d \<longleftrightarrow> d_catalog d \<and> d_networks d \<noteq> None \<and> vmm_Len (d_runtimes d) \<noteq> 0 \<and> d_reporter d \<and> d_now d"

definition Start :: "SandboxService \<Rightarrow> host \<Rightarrow> string \<Rightarrow> (Sandbox \<times> gerr, Sandbox) svcM" where
  "Start sv H reference = (case sv of None \<Rightarrow> no_sandbox | Some d \<Rightarrow>
     if \<not> (runtime_ready d \<and> d_images d \<and> d_disks d) then no_sandbox
     else if reference = [] then no_reference
     else tryM (status H ''resolving sandbox'') (\<lambda>e. failM (Sandbox_zero, e)) (\<lambda>_.
       tryM (lockExistingSandbox d H \<lparr>lr_reference = reference, lr_operation = ''start sandbox'', lr_retryHint = ''retry the start'', lr_reportWait = True\<rparr>)
         (\<lambda>e. failM (Sandbox_zero, e)) (\<lambda>(record, owner).
       deferUnlock H owner (service_info ''start sandbox'' reference ''unlock'' ''inspect the sandbox before retrying'')
         (start_locked d H reference record))))"

section \<open>Stop\<close>

definition stopProcessGeneration :: "Sandbox \<Rightarrow> gerr + 64 word" where
  "stopProcessGeneration record =
     (let offset = (if sb_State record = SandboxStateStarting then Some 0
            else if sb_State record = SandboxStateRunning \<or> sb_State record = SandboxStateError then Some 1
            else if sb_State record = SandboxStateStopping then Some 2 else None)
      in case offset of
        None \<Rightarrow> Inl (New 0 ClassConflict CodeStateConflict (Some (Msg ''sandbox has no stoppable process generation'')))
      | Some n \<Rightarrow> if sb_Generation record \<le> n
          then Inl (New 0 ClassCorrupt CodeArtifactCorrupt (Some (Msg ''sandbox has an invalid generation'')))
          else Inr (sb_Generation record - n))"

definition stop_info :: "string \<Rightarrow> string \<Rightarrow> string \<Rightarrow> bool \<Rightarrow> ContextInfo" where
  "stop_info reference phase action committed = service_info ''stop sandbox'' reference phase action committed"

text \<open>Created and Stopped: only stale runtime state is cleaned.\<close>

definition stop_idle :: "sandboxDependencies \<Rightarrow> host \<Rightarrow> Backend \<Rightarrow> string \<Rightarrow> Sandbox \<Rightarrow> (Sandbox \<times> gerr \<times> bool, Sandbox \<times> bool) svcM" where
  "stop_idle d H backend reference record =
     tryM (status H ''cleaning stale runtime state'') (\<lambda>e. failM (record, e, False)) (\<lambda>_.
     tryM (call H (C_cleanup (be_Type backend) (sb_ID record)))
       (failW (\<lambda>e. (record, e, False)) (stop_info reference ''cleanup runtime'' ''inspect the runtime scope before retrying'' False)) (\<lambda>_.
     tryM (quiesceNetwork d H record)
       (failW (\<lambda>e. (record, e, False)) (stop_info reference ''quiesce network'' ''retry the stop to finish network cleanup'' False)) (\<lambda>_.
     tryM (report H record)
       (failW (\<lambda>e. (record, e, False)) (stop_info reference ''report'' ''sandbox is not running'' False))
       (\<lambda>_. retM (record, False)))))"

text \<open>After the process is stopped or found absent: clean up, then commit Stopped or keep the Error.\<close>

definition stop_finish :: "sandboxDependencies \<Rightarrow> host \<Rightarrow> Backend \<Rightarrow> string \<Rightarrow> Sandbox \<Rightarrow> bool \<Rightarrow> (Sandbox \<times> gerr \<times> bool, Sandbox \<times> bool) svcM" where
  "stop_finish d H backend reference record committed =
     tryM (status H ''cleaning runtime state'')
       (failW (\<lambda>e. (record, e, committed)) (stop_info reference ''report'' ''retry the stop to finish cleanup'' committed)) (\<lambda>_.
     tryM (call H (C_cleanup (be_Type backend) (sb_ID record)))
       (failW (\<lambda>e. (record, e, committed)) (stop_info reference ''cleanup runtime'' ''retry the stop to finish cleanup'' committed)) (\<lambda>_.
     tryM (quiesceNetwork d H record)
       (failW (\<lambda>e. (record, e, committed)) (stop_info reference ''quiesce network'' ''retry the stop to finish network cleanup'' committed)) (\<lambda>_.
     if sb_State record = SandboxStateError then
       tryM (report H record)
         (failW (\<lambda>e. (record, e, committed)) (stop_info reference ''report'' ''the VMM is stopped; inspect the retained error'' committed))
         (\<lambda>_. retM (record, committed))
     else
       tryM (status H ''committing stopped state'')
         (failW (\<lambda>e. (record, e, committed)) (stop_info reference ''report'' ''retry the stop to commit process absence'' committed)) (\<lambda>_.
       tryM (cat_MarkStopped H (sb_ID record) (sb_Generation record) (sb_State record))
         (failW (\<lambda>e. (record, e, committed)) (stop_info reference ''mark stopped'' ''inspect the sandbox before retrying'' committed)) (\<lambda>stopped.
       tryM (report H stopped)
         (failW (\<lambda>e. (stopped, e, True)) (stop_info reference ''report'' ''sandbox is stopped; inspect it before retrying'' True))
         (\<lambda>_. retM (stopped, True)))))))"

definition stop_process :: "sandboxDependencies \<Rightarrow> host \<Rightarrow> Backend \<Rightarrow> string \<Rightarrow> StopOptions \<Rightarrow> Process \<Rightarrow> bool \<Rightarrow> Sandbox \<times> bool
    \<Rightarrow> (Sandbox \<times> gerr \<times> bool, Sandbox \<times> bool) svcM" where
  "stop_process d H backend reference options process exists = (\<lambda>(record, committed).
     if exists then
       tryM (status H (''stopping '' @ be_Type backend))
         (failW (\<lambda>e. (record, e, committed)) (stop_info reference ''report'' ''retry the stop to resume Stopping'' committed)) (\<lambda>_.
       tryM (call H (C_vmm_stop (be_Type backend) process options))
         (failW (\<lambda>e. (record, e, committed)) (stop_info reference ''stop VMM'' ''retry the stop; the retained state preserves ownership'' committed))
         (\<lambda>_. stop_finish d H backend reference record committed))
     else stop_finish d H backend reference record committed)"

definition stop_active :: "sandboxDependencies \<Rightarrow> host \<Rightarrow> Backend \<Rightarrow> string \<Rightarrow> StopOptions \<Rightarrow> Sandbox \<Rightarrow> (Sandbox \<times> gerr \<times> bool, Sandbox \<times> bool) svcM" where
  "stop_active d H backend reference options record =
     tryM (liftE (stopProcessGeneration record)) (\<lambda>e. failM (record, e, False)) (\<lambda>generation.
     tryM (status H ''checking existing runtime'') (\<lambda>e. failM (record, e, False)) (\<lambda>_.
     bindM (query (h_process H)) (\<lambda>process.
     tryM (ask H (C_locate (be_Type backend) (sb_ID record) generation) (h_found H))
       (failW (\<lambda>e. (record, e, False)) (stop_info reference ''observe runtime'' ''inspect the sandbox runtime before retrying'' False)) (\<lambda>exists.
     if sb_State record = SandboxStateRunning \<and> exists then
       tryM (status H ''committing stopping state'') (\<lambda>e. failM (record, e, False)) (\<lambda>_.
       tryM (cat_BeginStop H (sb_ID record) (sb_Generation record))
         (failW (\<lambda>e. (record, e, False)) (stop_info reference ''mark stopping'' ''inspect the sandbox before retrying'' False)) (\<lambda>stopping.
       stop_process d H backend reference options process exists (stopping, True)))
     else stop_process d H backend reference options process exists (record, False)))))"

definition stop_locked :: "sandboxDependencies \<Rightarrow> host \<Rightarrow> string \<Rightarrow> StopOptions \<Rightarrow> Sandbox \<Rightarrow> (Sandbox \<times> gerr \<times> bool, Sandbox \<times> bool) svcM" where
  "stop_locked d H reference options record =
     tryM (liftE (registry_Backend (d_runtimes d) (sb_VMM record))) (\<lambda>e. failM (record, e, False)) (\<lambda>backend.
     if sb_State record = SandboxStateCreating \<or> sb_State record = SandboxStateDeleting
     then failN (\<lambda>e. (record, e, False)) ClassConflict CodeStateConflict ''sandbox cannot stop in this state''
     else if sb_State record = SandboxStateCreated \<or> sb_State record = SandboxStateStopped
     then stop_idle d H backend reference record
     else stop_active d H backend reference options record)"

definition StopWithOptions :: "SandboxService \<Rightarrow> host \<Rightarrow> string \<Rightarrow> StopOptions \<Rightarrow> (Sandbox \<times> gerr, Sandbox) svcM" where
  "StopWithOptions sv H reference options = (case StopOptions_Validate options of
     Some e \<Rightarrow> tryM (liftE (Inl (New 0 ClassInvalid CodeInvalidArgument (Some e)))) (\<lambda>e. failM (Sandbox_zero, e)) retM
   | None \<Rightarrow> (case sv of None \<Rightarrow> no_sandbox | Some d \<Rightarrow>
     if \<not> runtime_ready d then no_sandbox
     else if reference = [] then no_reference
     else let options = (if stop_Timeout options = 0 then options\<lparr>stop_Timeout := d_stopTimeout d\<rparr> else options) in
       tryM (status H ''resolving sandbox'') (\<lambda>e. failM (Sandbox_zero, e)) (\<lambda>_.
       tryM (lockExistingSandbox d H \<lparr>lr_reference = reference, lr_operation = ''stop sandbox'', lr_retryHint = ''retry the stop'', lr_reportWait = True\<rparr>)
         (\<lambda>e. failM (Sandbox_zero, e)) (\<lambda>(record, owner).
       deferUnlock H owner (stop_info reference ''unlock'' ''inspect the sandbox before retrying'')
         (stop_locked d H reference options record)))))"

definition Stop :: "SandboxService \<Rightarrow> host \<Rightarrow> string \<Rightarrow> (Sandbox \<times> gerr, Sandbox) svcM" where
  "Stop sv H reference = StopWithOptions sv H reference \<lparr>stop_Force = False, stop_Timeout = 0\<rparr>"

section \<open>Remove\<close>

definition removal_info :: "string \<Rightarrow> string \<Rightarrow> string \<Rightarrow> bool \<Rightarrow> ContextInfo" where
  "removal_info reference phase action committed = service_info ''remove sandbox'' reference phase action committed"

definition retain_removal :: "string \<Rightarrow> Sandbox \<Rightarrow> string \<Rightarrow> gerr \<Rightarrow> (Sandbox \<times> gerr \<times> bool, 'a) svcM" where
  "retain_removal reference deleting phase =
     failW (\<lambda>e. (deleting, e, True)) (removal_info reference phase ''retry removal to finish cleanup'' True)"

definition remove_resources :: "host \<Rightarrow> Backend \<Rightarrow> string \<Rightarrow> Provider option \<Rightarrow> Sandbox \<Rightarrow> (Sandbox \<times> gerr \<times> bool, Sandbox \<times> bool) svcM" where
  "remove_resources H backend reference provider deleting =
     (tryM (status H ''removing sandbox disk'') (retain_removal reference deleting ''report'') (\<lambda>_.
     tryM (call H (C_disk_remove (sb_ID deleting))) (retain_removal reference deleting ''disk cleanup'') (\<lambda>_.
     tryM (case provider of None \<Rightarrow> retM () | Some _ \<Rightarrow> status H ''removing sandbox network'') (retain_removal reference deleting ''report'') (\<lambda>_.
     tryM (case provider of None \<Rightarrow> retM () | Some p \<Rightarrow> call H (C_net_delete (prov_Type p) (sb_ID deleting))) (retain_removal reference deleting ''network cleanup'') (\<lambda>_.
     tryM (status H ''removing VMM logs'') (retain_removal reference deleting ''report'') (\<lambda>_.
     tryM (call H (C_remove_logs (be_Type backend) (sb_ID deleting))) (retain_removal reference deleting ''log cleanup'') (\<lambda>_.
     tryM (status H ''releasing metadata and image reference'') (retain_removal reference deleting ''report'') (\<lambda>_.
     tryM (cat_FinalizeDelete H (sb_ID deleting) (sb_Generation deleting)) (retain_removal reference deleting ''finalize'') (\<lambda>_.
     tryM (report H deleting)
       (failW (\<lambda>e. (deleting, e, True)) (removal_info reference ''report'' ''sandbox was deleted; do not retry'' True))
       (\<lambda>_. retM (deleting, True)))))))))))"

definition remove_locked :: "sandboxDependencies \<Rightarrow> host \<Rightarrow> string \<Rightarrow> Sandbox \<Rightarrow> (Sandbox \<times> gerr \<times> bool, Sandbox \<times> bool) svcM" where
  "remove_locked d H reference record =
     tryM (liftE (registry_Backend (d_runtimes d) (sb_VMM record))) (\<lambda>e. failM (record, e, False)) (\<lambda>backend.
     tryM (liftE (networkProvider d record)) (\<lambda>e. failM (record, e, False)) (\<lambda>provider.
     tryM (status H ''marking sandbox for deletion'') (\<lambda>e. failM (Sandbox_zero, e, False)) (\<lambda>_.
     tryM (cat_BeginDelete H (sb_ID record) (sb_Generation record)) (\<lambda>e. failM (Sandbox_zero, e, False))
       (remove_resources H backend reference provider))))"

definition Remove :: "SandboxService \<Rightarrow> host \<Rightarrow> string \<Rightarrow> (Sandbox \<times> gerr, Sandbox) svcM" where
  "Remove sv H reference = (case sv of None \<Rightarrow> no_sandbox | Some d \<Rightarrow>
     if \<not> (runtime_ready d \<and> d_disks d) then no_sandbox
     else if reference = [] then no_reference
     else tryM (status H ''resolving sandbox'') (\<lambda>e. failM (Sandbox_zero, e)) (\<lambda>_.
       tryM (lockExistingSandbox d H \<lparr>lr_reference = reference, lr_operation = ''remove sandbox'', lr_retryHint = ''retry the removal'', lr_reportWait = True\<rparr>)
         (\<lambda>e. failM (Sandbox_zero, e)) (\<lambda>(record, owner).
       deferUnlock H owner (removal_info reference ''unlock'' ''inspect the sandbox removal state before retrying'')
         (remove_locked d H reference record))))"

section \<open>Create\<close>

record CreateSandboxRequest =
  req_ImageReference :: string
  req_Config :: SandboxConfig
  req_VMM :: VMMType

record cloneDiskOrigin =
  origin_cowPath :: string
  origin_dataDirectory :: string
  origin_inheritedDataCount :: int

definition create_info :: "string \<Rightarrow> string \<Rightarrow> string \<Rightarrow> bool \<Rightarrow> ContextInfo" where
  "create_info name phase action committed = service_info ''create sandbox'' name phase action committed"

text \<open>\<open>compensate\<close> returns the error of the creation; it never fails itself.\<close>

definition compensate_network :: "sandboxDependencies \<Rightarrow> host \<Rightarrow> Sandbox \<Rightarrow> (gerr, unit) svcM" where
  "compensate_network d H record = bindM (liftE (networkProvider d record)) (\<lambda>provider. case provider of
     None \<Rightarrow> retM () | Some p \<Rightarrow> call H (C_net_delete (prov_Type p) (sb_ID record)))"

definition compensate_retain :: "host \<Rightarrow> Sandbox \<Rightarrow> string \<Rightarrow> gerr \<Rightarrow> gerr \<Rightarrow> ('x, gerr) svcM" where
  "compensate_retain H record phase cause cleanupErr =
     (let failure = \<lparr>fail_Phase = phase, fail_Message = Error_Error (the (errors_Join [Some cause, Some cleanupErr]))\<rparr> in
      bindM (attempt (cat_MarkError H (sb_ID record) (sb_Generation record) failure)) (\<lambda>markErr.
      withCtx (create_info (cfg_Name (sb_Config record)) phase ''inspect or remove the retained error sandbox'' False)
        (the (errors_Join [Some cause, Some cleanupErr, markErr]))))"

definition compensate :: "sandboxDependencies \<Rightarrow> host \<Rightarrow> Sandbox \<Rightarrow> string \<Rightarrow> gerr \<Rightarrow> ('x, gerr) svcM" where
  "compensate d H record phase cause =
     bindM (attempt (call H (C_disk_remove (sb_ID record)))) (\<lambda>diskErr.
     bindM (attempt (compensate_network d H record)) (\<lambda>netErr.
     case (if networkProvider d record = Inr None then diskErr else errors_Join [diskErr, netErr]) of
       Some cleanupErr \<Rightarrow> compensate_retain H record phase cause cleanupErr
     | None \<Rightarrow> tryM (cat_Forget H (sb_ID record) (sb_Generation record))
         (compensate_retain H record phase cause)
         (\<lambda>_. withCtx (create_info (cfg_Name (sb_Config record)) phase ''fix the failure and retry'' False) cause)))"

definition abandon_create :: "sandboxDependencies \<Rightarrow> host \<Rightarrow> Sandbox \<Rightarrow> string \<Rightarrow> gerr \<Rightarrow> (Sandbox \<times> gerr \<times> bool, 'a) svcM" where
  "abandon_create d H record phase cause = bindM (compensate d H record phase cause) (\<lambda>e. failM (Sandbox_zero, e, False))"

text \<open>The network of a sandbox without NICs: a namespace for later hotplug, when the provider can resize.\<close>

definition create_offline :: "sandboxDependencies \<Rightarrow> host \<Rightarrow> Provider option \<Rightarrow> Sandbox \<Rightarrow> (Sandbox \<times> gerr \<times> bool, NetworkSetup \<times> Sandbox) svcM" where
  "create_offline d H provider record = (case provider of
     Some p \<Rightarrow> if prov_Resizer p then
         tryM (ask H (C_net_prepare (prov_Type p) (sb_ID record)) (h_namespace H)) (abandon_create d H record ''network prepare'') (\<lambda>namespace.
         if namespace \<noteq> [] \<or> prov_Type p = NetworkBackendBridge \<or> prov_Type p = NetworkBackendEBPF then
           let nsetup = \<lparr>net_Backend = prov_Type p, net_Namespace = namespace, net_Interfaces = []\<rparr>
           in retM (nsetup, record\<lparr>sb_Network := nsetup\<rparr>)
         else retM (NetworkSetup_zero, record))
       else retM (NetworkSetup_zero, record)
   | None \<Rightarrow> retM (NetworkSetup_zero, record))"

definition create_specs :: "SandboxConfig \<Rightarrow> AddSpec list" where
  "create_specs c = map (\<lambda>spec. spec\<lparr>spec_Queues := QueueCount (cfg_CPUs c),
     spec_DHCP := (cfg_NetworkBackend c = NetworkBackendBridge \<and> \<not> cfg_BridgeStatic c)\<rparr>) (AddRange 0 (cfg_NICs c))"

definition create_network :: "sandboxDependencies \<Rightarrow> host \<Rightarrow> Provider \<Rightarrow> Sandbox \<Rightarrow> (Sandbox \<times> gerr \<times> bool, NetworkSetup \<times> Sandbox) svcM" where
  "create_network d H p record =
     tryM (status H ''preparing sandbox network'') (abandon_create d H record ''report'') (\<lambda>_.
     tryM (ask H (C_net_prepare (prov_Type p) (sb_ID record)) (h_namespace H)) (abandon_create d H record ''network prepare'') (\<lambda>namespace.
     tryM (status H ''allocating sandbox network interfaces'') (abandon_create d H record ''report'') (\<lambda>_.
     tryM (ask H (C_net_add (prov_Type p) (sb_ID record) (cfg_NetworkName (sb_Config record)) (create_specs (sb_Config record))) (h_interfaces H))
       (abandon_create d H record ''network add'') (\<lambda>interfaces.
     let nsetup = \<lparr>net_Backend = prov_Type p, net_Namespace = namespace, net_Interfaces = interfaces\<rparr> in
     tryM (liftE (case NetworkSetup_Validate nsetup of None \<Rightarrow> Inr () | Some e \<Rightarrow> Inl e)) (abandon_create d H record ''network result'') (\<lambda>_.
     if int (length interfaces) \<noteq> cfg_NICs (sb_Config record)
     then abandon_create d H record ''network result'' (Msg ''network provider returned an unexpected number of interfaces'')
     else retM (nsetup, record\<lparr>sb_Network := nsetup, sb_Config := (sb_Config record)\<lparr>cfg_NetworkName := nic_Network (hd interfaces)\<rparr>\<rparr>))))))"

definition create_disks :: "sandboxDependencies \<Rightarrow> host \<Rightarrow> cloneDiskOrigin option \<Rightarrow> Sandbox \<Rightarrow> (Sandbox \<times> gerr \<times> bool, unit) svcM" where
  "create_disks d H origin record =
     (let c = sb_Config record; i = sb_ID record in
      tryM (status H (if origin \<noteq> None then ''cloning snapshot writable disk'' else ''creating sparse ext4 disk''))
        (abandon_create d H record ''report'') (\<lambda>_.
      tryM (case origin of Some og \<Rightarrow> call H (C_disk_clone i (cfg_Storage c) (origin_cowPath og))
            | None \<Rightarrow> call H (C_disk_prepare i (cfg_Storage c))) (abandon_create d H record ''disk'') (\<lambda>_.
      if cfg_DataDisks c \<noteq> [] then
        tryM (case origin of
            Some og \<Rightarrow> bindM (call H (C_data_clone i (take (nat (origin_inheritedDataCount og)) (cfg_DataDisks c)) (origin_dataDirectory og)))
              (\<lambda>_. call H (C_data_prepare i (drop (nat (origin_inheritedDataCount og)) (cfg_DataDisks c))))
          | None \<Rightarrow> call H (C_data_prepare i (cfg_DataDisks c))) (abandon_create d H record ''data disks'') retM
      else retM ())))"

definition create_reserved :: "sandboxDependencies \<Rightarrow> host \<Rightarrow> cloneDiskOrigin option \<Rightarrow> Provider option \<Rightarrow> Sandbox \<Rightarrow> (Sandbox \<times> gerr \<times> bool, Sandbox \<times> bool) svcM" where
  "create_reserved d H origin provider reserved =
     bindM (if cfg_NICs (sb_Config reserved) = 0 then create_offline d H provider reserved
            else create_network d H (the provider) reserved) (\<lambda>(nsetup, record).
     bindM (create_disks d H origin record) (\<lambda>_.
     tryM (status H ''committing created state'') (abandon_create d H record ''report'') (\<lambda>_.
     tryM (cat_MarkCreated H (sb_ID record) (sb_Generation record) nsetup) (abandon_create d H record ''commit'') (\<lambda>created.
     tryM (report H created)
       (failW (\<lambda>e. (created, e, sb_State created = SandboxStateCreated)) (create_info (cfg_Name (sb_Config reserved)) ''report'' ''sandbox was created; inspect it before retrying'' True))
       (\<lambda>_. retM (created, sb_State created = SandboxStateCreated))))))"

definition create_locked :: "sandboxDependencies \<Rightarrow> host \<Rightarrow> CreateSandboxRequest \<Rightarrow> cloneDiskOrigin option \<Rightarrow> Provider option \<Rightarrow> SandboxID
    \<Rightarrow> (Sandbox \<times> gerr \<times> bool, Sandbox \<times> bool) svcM" where
  "create_locked d H request origin provider i =
     bindM (query (h_now H)) (\<lambda>createdAt.
     tryM (WithAvailable H (d_imagePaths d) (req_ImageReference request) (\<lambda>im.
         let record = \<lparr>sb_ID = i, sb_Config = req_Config request, sb_ImageDigest = img_ManifestDigest im, sb_VMM = req_VMM request,
           sb_Network = NetworkSetup_zero, sb_State = SandboxStateCreating, sb_Generation = 1, sb_Failure = None,
           sb_CreatedAt = createdAt, sb_UpdatedAt = createdAt\<rparr>
         in bindM (cat_Reserve H (req_ImageReference request) (img_ManifestDigest im) record) (\<lambda>_. retM record)))
       (\<lambda>(e, reserved). case reserved of
          Some record \<Rightarrow> abandon_create d H record ''image unlock'' e
        | None \<Rightarrow> failW (\<lambda>e. (Sandbox_zero, e, False)) (create_info (cfg_Name (req_Config request)) ''reserve'' ''check the image and sandbox name'' False) e)
       (create_reserved d H origin provider))"

text \<open>The request with its defaults, and the provider that will own the network.\<close>

definition create_prepared :: "sandboxDependencies \<Rightarrow> host \<Rightarrow> CreateSandboxRequest \<Rightarrow> cloneDiskOrigin option \<Rightarrow> Provider option
    \<Rightarrow> (Sandbox \<times> gerr, Sandbox) svcM" where
  "create_prepared d H request origin provider =
     (let name = cfg_Name (req_Config request) in
     if h_NumCPU H < int (unat (cfg_CPUs (req_Config request)))
     then failN (\<lambda>e. (Sandbox_zero, e)) ClassInvalid CodeHostIncompatible ''requested vCPUs exceed available host CPUs''
     else tryM (status H ''resolving and checking image'') (\<lambda>e. failM (Sandbox_zero, e)) (\<lambda>_.
     tryM (ask H C_new_id (h_id H)) (\<lambda>e. failM (Sandbox_zero, e)) (\<lambda>i.
     bindM (query (h_fs H)) (\<lambda>fs.
     tryM (liftE (sandbox_Lock fs (d_paths d) i)) (\<lambda>e. failM (Sandbox_zero, e)) (\<lambda>_.
     tryM (call H (C_lock i)) (failW (\<lambda>e. (Sandbox_zero, e)) (create_info name ''lock'' ''retry the create'' False)) (\<lambda>_.
     deferUnlock H i (create_info name ''unlock'' ''inspect the sandbox before retrying'')
       (create_locked d H request origin provider i)))))))"

definition create_sandbox :: "SandboxService \<Rightarrow> host \<Rightarrow> CreateSandboxRequest \<Rightarrow> cloneDiskOrigin option \<Rightarrow> (Sandbox \<times> gerr, Sandbox) svcM" where
  "create_sandbox sv H request0 origin = (case sv of None \<Rightarrow> no_sandbox | Some d \<Rightarrow>
     let c0 = req_Config request0; bad = (\<lambda>cl code m. failN (\<lambda>e. (Sandbox_zero, e)) cl code m) in
     if \<not> (runtime_ready d \<and> d_images d \<and> d_disks d \<and> d_newID d \<and> 0 < d_cleanupTimeout d) then no_sandbox
     else if req_ImageReference request0 = [] then bad ClassInvalid CodeInvalidArgument ''IMAGE must not be empty''
     else tryM (liftE (case SandboxConfig_Validate c0 of None \<Rightarrow> Inr () | Some e \<Rightarrow> Inl e)) (\<lambda>e. failM (Sandbox_zero, e)) (\<lambda>_.
     if cfg_NICs c0 = 0 \<and> cfg_NetworkName c0 \<noteq> [] \<and> cfg_NetworkBackend c0 \<noteq> NetworkBackendBridge \<and> cfg_NetworkBackend c0 \<noteq> NetworkBackendEBPF
     then bad ClassInvalid CodeInvalidArgument ''network name requires at least one NIC when creating a sandbox''
     else
       let vmm = (if req_VMM request0 = [] then d_defaultVMM d else req_VMM request0) in
       if origin \<noteq> None \<and> \<not> d_diskCloner d then bad ClassInvalid CodeHostIncompatible ''disk backend does not support snapshot cloning''
       else if cfg_DataDisks c0 \<noteq> [] \<and> \<not> d_diskDataStore d
       then bad ClassInvalid CodeHostIncompatible ''disk backend does not support managed data disks''
       else tryM (liftE (registry_Backend (d_runtimes d) vmm)) (\<lambda>e. failM (Sandbox_zero, e)) (\<lambda>_.
         let backend = (if cfg_NetworkBackend c0 \<noteq> [] then cfg_NetworkBackend c0 else d_defaultNetwork d);
             request = request0\<lparr>req_VMM := vmm, req_Config := c0\<lparr>cfg_NetworkBackend := backend\<rparr>\<rparr>
         in tryM (if 0 < cfg_NICs c0 then liftE (bindE (registry_Provider (d_networks d) backend) (\<lambda>p. Inr (Some p)))
                  else retM (case registry_Provider (d_networks d) backend of Inl _ \<Rightarrow> None | Inr p \<Rightarrow> Some p))
              (\<lambda>e. failM (Sandbox_zero, e)) (create_prepared d H request origin))))"

definition Create :: "SandboxService \<Rightarrow> host \<Rightarrow> CreateSandboxRequest \<Rightarrow> (Sandbox \<times> gerr, Sandbox) svcM" where
  "Create sv H request = create_sandbox sv H request None"

definition createFromSnapshot :: "SandboxService \<Rightarrow> host \<Rightarrow> CreateSandboxRequest \<Rightarrow> cloneDiskOrigin \<Rightarrow> (Sandbox \<times> gerr, Sandbox) svcM" where
  "createFromSnapshot sv H request origin =
     (if origin_cowPath origin = [] \<or> origin_dataDirectory origin = [] \<or> origin_inheritedDataCount origin < 0
         \<or> int (length (cfg_DataDisks (req_Config request))) < origin_inheritedDataCount origin
      then failN (\<lambda>e. (Sandbox_zero, e)) ClassInvalid CodeInvalidArgument ''invalid snapshot disk origin''
      else create_sandbox sv H request (Some origin))"

definition Run :: "SandboxService \<Rightarrow> host \<Rightarrow> CreateSandboxRequest \<Rightarrow> (Sandbox \<times> gerr, Sandbox) svcM" where
  "Run sv H request =
     tryM (Create sv H request) (\<lambda>(_, e). failM (Sandbox_zero, e)) (\<lambda>created.
     tryM (Start sv H (sb_ID created))
       (\<lambda>(_, e). failW (\<lambda>e. (created, e)) (service_info ''run sandbox'' (cfg_Name (req_Config request)) ''start''
          ''inspect the retained sandbox and VMM log before retrying'' True) e)
       retM)"

section \<open>Reconciliation\<close>

record ReconcileAction =
  rec_ID :: SandboxID
  rec_Name :: string
  rec_Action :: string

text \<open>The decision under the lock: the action, and whether \<open>Remove\<close> runs after the unlock.\<close>

definition reconcile_runtime :: "sandboxDependencies \<Rightarrow> host \<Rightarrow> Sandbox \<Rightarrow> (gerr, string \<times> bool) svcM" where
  "reconcile_runtime d H record =
     bindM (liftE (registry_Backend (d_runtimes d) (sb_VMM record))) (\<lambda>backend.
     bindM (liftE (stopProcessGeneration record)) (\<lambda>generation.
     bindM (ask H (C_observe (be_Type backend) (sb_ID record) generation) (h_observation H)) (\<lambda>observation.
     if sb_State record = SandboxStateStarting \<and> obs_State observation = ProcessRunning then
       bindM (cat_MarkRunning H (sb_ID record) (sb_Generation record)) (\<lambda>_. retM (''recovered-running'', False))
     else if sb_State record \<noteq> SandboxStateStopping \<and> obs_State observation \<noteq> ProcessAbsent then retM ([], False)
     else
       bindM (if sb_State record = SandboxStateStopping \<and> obs_State observation \<noteq> ProcessAbsent
              then call H (C_vmm_stop (be_Type backend) (obs_Process observation) \<lparr>stop_Force = True, stop_Timeout = 0\<rparr>) else retM ()) (\<lambda>_.
       bindM (call H (C_cleanup (be_Type backend) (sb_ID record))) (\<lambda>_.
       bindM (quiesceNetwork d H record) (\<lambda>_.
       bindM (cat_MarkStopped H (sb_ID record) (sb_Generation record) (sb_State record)) (\<lambda>_.
       retM (''recovered-stopped'', False))))))))"

definition reconcile_locked :: "sandboxDependencies \<Rightarrow> host \<Rightarrow> SandboxID \<Rightarrow> (gerr, string \<times> bool) svcM" where
  "reconcile_locked d H i =
     bindM (cat_Resolve H i) (\<lambda>record.
     if sb_State record = SandboxStateCreating then
       bindM (cat_BeginDelete H (sb_ID record) (sb_Generation record)) (\<lambda>_. retM (''removed-stale-create'', True))
     else if sb_State record = SandboxStateDeleting then retM (''finished-delete'', True)
     else if List.member [SandboxStateStarting, SandboxStateRunning, SandboxStateStopping] (sb_State record)
     then reconcile_runtime d H record
     else if List.member [SandboxStateCreated, SandboxStateStopped, SandboxStateError] (sb_State record) then retM ([], False)
     else failN id ClassCorrupt CodeArtifactCorrupt ''unknown sandbox state'')"

text \<open>The action, whether the sandbox was busy, and the error.\<close>

definition reconcileSandbox :: "sandboxDependencies \<Rightarrow> host \<Rightarrow> Sandbox \<Rightarrow> ('x, string \<times> bool \<times> gerr option) svcM" where
  "reconcileSandbox d H observed =
     bindM (query (h_fs H)) (\<lambda>fs.
     tryM (liftE (sandbox_Lock fs (d_paths d) (sb_ID observed))) (\<lambda>e. retM ([], False, Some e)) (\<lambda>_.
     tryM (ask H (C_trylock (sb_ID observed)) (h_found H)) (\<lambda>e. retM ([], True, Some e)) (\<lambda>acquired.
     if \<not> acquired then retM ([], True, None)
     else tryM (reconcile_locked d H (sb_ID observed))
       (\<lambda>e. bindM (attempt (call H (C_unlock (sb_ID observed)))) (\<lambda>u. retM ([], False, errors_Join [Some e, u])))
       (\<lambda>(action, remove). bindM (attempt (call H (C_unlock (sb_ID observed)))) (\<lambda>u.
          if remove \<and> errors_Join [None, u] = None then
            tryM (Remove (Some d) H (sb_ID observed)) (\<lambda>(_, e). retM (action, False, Some e)) (\<lambda>_. retM (action, False, None))
          else retM (action, False, errors_Join [None, u]))))))"

fun reconcile_loop :: "sandboxDependencies \<Rightarrow> host \<Rightarrow> ReconcileAction list \<Rightarrow> nat \<Rightarrow> gerr option list \<Rightarrow> Sandbox list
    \<Rightarrow> ('x, ReconcileAction list \<times> nat \<times> gerr option) svcM" where
  "reconcile_loop d H actions skipped failures [] = retM (actions, skipped, errors_Join failures)"
| "reconcile_loop d H actions skipped failures (record # records) =
     bindM (query (h_ctx H)) (\<lambda>ctx. case ctx of
       Some e \<Rightarrow> retM (actions, skipped, errors_Join (failures @ [Some e]))
     | None \<Rightarrow> bindM (reconcileSandbox d H record) (\<lambda>(action, busy, err).
         let skipped' = (if busy then skipped + 1 else skipped) in
         case err of
           Some e \<Rightarrow> reconcile_loop d H actions skipped' (failures @ [Some (Wrap (''sandbox '' @ sb_ID record @ '': '') e)]) records
         | None \<Rightarrow> reconcile_loop d H
             (if action \<noteq> [] then actions @ [\<lparr>rec_ID = sb_ID record, rec_Name = cfg_Name (sb_Config record), rec_Action = action\<rparr>] else actions)
             skipped' failures records))"

definition ReconcileSandboxes :: "SandboxService \<Rightarrow> host \<Rightarrow> (gerr, ReconcileAction list \<times> nat \<times> gerr option) svcM" where
  "ReconcileSandboxes sv H = (case sv of None \<Rightarrow> failM (Msg ''sandbox reconciliation service is not configured'') | Some d \<Rightarrow>
     if \<not> d_catalog d \<or> vmm_Len (d_runtimes d) = 0 then failM (Msg ''sandbox reconciliation service is not configured'')
     else bindM (cat_List H) (reconcile_loop d H [] 0 []))"

section \<open>Queries\<close>

record SandboxStatus =
  st_Sandbox :: Sandbox
  st_Runtime :: ProcessState
  st_PID :: int
  st_Stale :: bool

definition status_generation :: "Sandbox \<Rightarrow> gerr + 64 word option" where
  "status_generation record =
     (if sb_State record = SandboxStateStarting then Inr (Some (sb_Generation record))
      else if sb_State record = SandboxStateRunning then
        (if sb_Generation record < 2 then Inl (Msg ''running sandbox has no Starting generation'') else Inr (Some (sb_Generation record - 1)))
      else if sb_State record = SandboxStateStopping then
        (if sb_Generation record < 3 then Inl (Msg ''stopping sandbox has no Starting generation'') else Inr (Some (sb_Generation record - 2)))
      else Inr None)"

definition observeStatus :: "sandboxDependencies \<Rightarrow> host \<Rightarrow> Sandbox \<Rightarrow> (gerr, SandboxStatus) svcM" where
  "observeStatus d H record =
     (let st = \<lparr>st_Sandbox = record, st_Runtime = [], st_PID = 0, st_Stale = False\<rparr> in
      bindM (liftE (status_generation record)) (\<lambda>g. case g of None \<Rightarrow> retM st | Some generation \<Rightarrow>
      bindM (liftE (registry_Backend (d_runtimes d) (sb_VMM record))) (\<lambda>backend.
      bindM (ask H (C_observe (be_Type backend) (sb_ID record) generation) (h_observation H)) (\<lambda>observation.
      retM (st\<lparr>st_Runtime := obs_State observation,
        st_PID := (if obs_State observation \<noteq> ProcessAbsent then proc_PID (obs_Process observation) else 0),
        st_Stale := (sb_State record = SandboxStateRunning \<and> obs_State observation = ProcessAbsent)\<rparr>)))))"

fun resolve_references :: "host \<Rightarrow> SandboxID list \<Rightarrow> Sandbox list \<Rightarrow> string list \<Rightarrow> (gerr, Sandbox list) svcM" where
  "resolve_references H known records [] = retM records"
| "resolve_references H known records (r # rs) = bindM (cat_Resolve H r) (\<lambda>record.
     if List.member known (sb_ID record) then resolve_references H known records rs
     else resolve_references H (sb_ID record # known) (records @ [record]) rs)"

fun status_loop :: "sandboxDependencies \<Rightarrow> host \<Rightarrow> SandboxStatus list \<Rightarrow> Sandbox list \<Rightarrow> (gerr, SandboxStatus list) svcM" where
  "status_loop d H statuses [] = retM statuses"
| "status_loop d H statuses (record # records) = bindM (query (h_ctx H)) (\<lambda>ctx. case ctx of Some e \<Rightarrow> failM e | None \<Rightarrow>
     tryM (observeStatus d H record) (\<lambda>e. failM (Wrap (''observe sandbox '' @ sb_ID record @ '': '') e))
       (\<lambda>st. status_loop d H (statuses @ [st]) records))"

definition Status :: "SandboxService \<Rightarrow> host \<Rightarrow> string list \<Rightarrow> (gerr, SandboxStatus list) svcM" where
  "Status sv H references = (case sv of None \<Rightarrow> failM (Msg ''sandbox status service is not configured'') | Some d \<Rightarrow>
     if \<not> d_catalog d \<or> vmm_Len (d_runtimes d) = 0 then failM (Msg ''sandbox status service is not configured'')
     else bindM (if references = [] then cat_List H else resolve_references H [] [] references) (status_loop d H []))"

definition active_states :: "SandboxState list" where
  "active_states = [SandboxStateStarting, SandboxStateRunning, SandboxStateStopping]"

definition service_List :: "SandboxService \<Rightarrow> host \<Rightarrow> bool \<Rightarrow> (gerr, Sandbox list) svcM" where
  "service_List sv H includeAll = (case sv of None \<Rightarrow> failM (Msg ''sandbox service is not configured'') | Some d \<Rightarrow>
     if \<not> d_catalog d then failM (Msg ''sandbox service is not configured'')
     else bindM (cat_List H) (\<lambda>records.
       retM (if includeAll then records else filter (\<lambda>r. List.member active_states (sb_State r)) records)))"

definition Inspect :: "SandboxService \<Rightarrow> host \<Rightarrow> string \<Rightarrow> (gerr, Sandbox) svcM" where
  "Inspect sv H reference = (case sv of None \<Rightarrow> failM (Msg ''sandbox service is not configured'') | Some d \<Rightarrow>
     if \<not> d_catalog d then failM (Msg ''sandbox service is not configured'')
     else if reference = [] then failN id ClassInvalid CodeInvalidArgument ''SANDBOX must not be empty''
     else cat_Resolve H reference)"

text \<open>\<open>locateRunning\<close>: the process of the Running generation. A failed unlock discards it.\<close>

definition locate_locked :: "sandboxDependencies \<Rightarrow> host \<Rightarrow> string \<Rightarrow> string \<Rightarrow> Sandbox \<Rightarrow> (gerr, Backend \<times> Process) svcM" where
  "locate_locked d H reference operation record =
     (if sb_State record \<noteq> SandboxStateRunning then failN id ClassConflict CodeStateConflict ''sandbox is not running''
      else if sb_Generation record < 2 then failN id ClassCorrupt CodeArtifactCorrupt ''running sandbox has no Starting generation''
      else bindM (liftE (registry_Backend (d_runtimes d) (sb_VMM record))) (\<lambda>backend.
        bindM (query (h_process H)) (\<lambda>process.
        tryM (ask H (C_locate (be_Type backend) (sb_ID record) (sb_Generation record - 1)) (h_found H))
          (failW id (service_info operation reference ''locate VMM'' ''inspect the sandbox runtime'' False)) (\<lambda>exists.
        if \<not> exists then failN id ClassUnavailable CodeArtifactUnavailable ''sandbox state is running but its VMM process is absent''
        else retM (backend, process)))))"

definition locateRunning :: "SandboxService \<Rightarrow> host \<Rightarrow> string \<Rightarrow> string \<Rightarrow> (gerr, Backend \<times> Process) svcM" where
  "locateRunning sv H reference operation = (case sv of None \<Rightarrow> failM (Msg ''sandbox service is not configured'') | Some d \<Rightarrow>
     if \<not> d_catalog d \<or> vmm_Len (d_runtimes d) = 0 then failM (Msg ''sandbox service is not configured'')
     else if reference = [] then failN id ClassInvalid CodeInvalidArgument ''SANDBOX must not be empty''
     else bindM (lockExistingSandbox d H \<lparr>lr_reference = reference, lr_operation = operation, lr_retryHint = ''retry the operation'', lr_reportWait = False\<rparr>)
       (\<lambda>(record, owner). let discard = (\<lambda>e u. failW id (service_info operation reference ''unlock'' ''retry the operation'' False) (the (errors_Join [e, Some u]))) in
       tryM (locate_locked d H reference operation record)
         (\<lambda>e. tryM (call H (C_unlock owner)) (discard (Some e)) (\<lambda>_. failM e))
         (\<lambda>found. tryM (call H (C_unlock owner)) (discard None) (\<lambda>_. retM found))))"

end
