(* ===== verification/Service_Rules.thy ===== *)
theory Service_Rules
  imports Sandbox_Service
begin

text \<open>
  The proof rules for service operations: which state relations a whole operation keeps (the locale
  \<open>service_run\<close>, proved once for every operation), and the weakest precondition of an operation, computed
  by simplification.
\<close>

section \<open>Relations kept by every step\<close>

text \<open>What a call does to the metadata the other operations left: nothing, or one step of the sandbox
  catalog, in which only a reservation adds a name, its own.\<close>

definition new_names :: "call \<Rightarrow> store \<Rightarrow> store \<Rightarrow> bool" where
  "new_names c st st' \<longleftrightarrow> (\<forall>nm. sandbox_names (mem_records st') nm \<noteq> None \<longrightarrow>
     sandbox_names (mem_records st) nm \<noteq> None \<or> (\<exists>i. c = C_reserve i nm))"

definition node_change :: "call \<Rightarrow> snapStore \<Rightarrow> snapStore \<Rightarrow> bool" where
  "node_change c n n' \<longleftrightarrow> n' = n
     \<or> (\<exists>st. sandbox_step resolve_image (ss_store n) st \<and> new_names c (ss_store n) st \<and> n' = n\<lparr>ss_store := st\<rparr>)"

lemma names_modify:
  assumes "modify_sandbox ctx i body t = Inr (r, t')"
  shows "sandbox_names t' = sandbox_names t"
proof -
  from assms obtain r0 out where "load_sandbox ctx t i = Inr r0" and out: "body r0 = Inr out"
    and m: "(case out of None \<Rightarrow> Inr (r0, t) | Some r' \<Rightarrow> bindE (putJSON ctx t CollectionSandboxes i (P_sandbox (encode_sandbox r'))) (\<lambda>t'. Inr (r', t'))) = Inr (r, t')"
    by (auto simp: modify_sandbox_def bindE_Inr_iff)
  show ?thesis
  proof (cases out)
    case (Some r')
    with m have "Put ctx t CollectionSandboxes i (P_sandbox (encode_sandbox r')) = Inr t'" by (auto simp: bindE_Inr_iff putJSON_def)
    then show ?thesis by (simp add: sandbox_names_def fun_eq_iff lookup_Put)
  qed (use m in simp)
qed

lemma names_remove:
  assumes "remove_sandbox_tx ctx i expected st m t = Inr (x, t')" and "sandbox_names t' nm \<noteq> None"
  shows "sandbox_names t nm \<noteq> None"
proof -
  from remove_Inr [OF assms(1)] obtain r t1 where "Delete ctx t CollectionNames (sandbox_name r) = Inr t1"
    "Delete ctx t1 CollectionSandboxes i = Inr t'" by blast
  then show ?thesis using assms(2) by (auto simp: sandbox_names_def lookup_Delete split: if_splits)
qed

lemma new_names_update:
  assumes "\<And>x t nm. fn (mem_records st) = Inr (x, t) \<Longrightarrow> sandbox_names t nm \<noteq> None \<Longrightarrow> sandbox_names (mem_records st) nm \<noteq> None"
  shows "new_names c st (snd (update_with ctx st info fn))"
proof (cases "update_with ctx st info fn")
  case (Pair res st')
  then show ?thesis
  proof (cases rule: update_with_cases)
    case (committed x t)
    then show ?thesis using Pair assms [of x t] by (simp add: new_names_def)
  qed (simp add: Pair new_names_def)
qed

lemma new_names_modify: "new_names c st (snd (update_with ctx st info (modify_sandbox ctx i body)))"
  by (rule new_names_update) (simp add: names_modify)

lemma new_names_remove: "new_names c st (snd (update_with ctx st info (remove_sandbox_tx ctx i g state m)))"
  by (rule new_names_update) (rule names_remove)

lemma new_names_refl: "new_names c st st"
  by (simp add: new_names_def)

lemma new_names_reserve: "new_names (C_reserve (sb_ID r) (sandbox_name r)) st (snd (sandbox_Reserve images ctx st ref dig r))"
proof (cases "sandbox_Reserve images ctx st ref dig r")
  case (Pair res st')
  consider "st' = st" | info where "update_with ctx st info (reserve_sandbox_tx images ctx ref dig r) = (res, st')"
    using Pair by (auto simp: sandbox_Reserve_def split: option.splits if_splits)
  then show ?thesis
  proof cases
    case 2
    then show ?thesis
    proof (cases rule: update_with_cases)
      case (committed x t)
      from reserve_Inr [OF committed(4)] obtain t1 where
        "Put ctx (mem_records st) CollectionSandboxes (sb_ID r) (P_sandbox (encode_sandbox r)) = Inr t1"
        "Put ctx t1 CollectionNames (sandbox_name r) (P_name \<lparr>name_ID = sb_ID r\<rparr>) = Inr t" by blast
      then show ?thesis using Pair committed(5) by (auto simp: new_names_def sandbox_names_def lookup_Put split: if_splits)
    qed (simp add: Pair new_names_refl)
  qed (simp add: Pair new_names_refl)
qed

lemmas catalog_write_defs = sandbox_MarkCreated_def sandbox_MarkError_def sandbox_Forget_def sandbox_BeginStart_def sandbox_MarkRunning_def
  sandbox_MarkStartError_def sandbox_BeginStop_def sandbox_MarkStopped_def sandbox_BeginDelete_def sandbox_FinalizeDelete_def
  sandbox_transition_def

lemmas new_names_rules = new_names_modify new_names_remove new_names_refl

text \<open>A write of the service is a step of the sandbox catalog.\<close>

definition catalog_writer :: "call \<Rightarrow> (ctx \<Rightarrow> time \<Rightarrow> store \<Rightarrow> (gerr + 'a) \<times> store) \<Rightarrow> bool" where
  "catalog_writer c f \<longleftrightarrow> (\<forall>ctx now st. sandbox_step resolve_image st (snd (f ctx now st)) \<and> new_names c st (snd (f ctx now st)))"

lemma catalog_writerI:
  assumes "\<And>ctx now st res st'. f ctx now st = (res, st') \<Longrightarrow> sandbox_step resolve_image st st'"
    and "\<And>ctx now st. new_names c st (snd (f ctx now st))"
  shows "catalog_writer c f"
  using assms unfolding catalog_writer_def by (metis prod.collapse)

lemma writer_Reserve:
  "wf_digest dig \<Longrightarrow> catalog_writer (C_reserve (sb_ID r) (sandbox_name r)) (\<lambda>ctx _ st. sandbox_Reserve resolve_image ctx st ref dig r)"
  by (rule catalog_writerI) (auto intro: step_Reserve new_names_reserve)

lemma writers:
  shows "catalog_writer c (\<lambda>ctx now st. sandbox_MarkCreated ctx st i g nsetup now)"
    and "catalog_writer c (\<lambda>ctx now st. sandbox_MarkError ctx st i g failure now)"
    and "catalog_writer c (\<lambda>ctx _ st. sandbox_Forget ctx st i g)"
    and "catalog_writer c (\<lambda>ctx now st. sandbox_BeginStart ctx st i g now)"
    and "catalog_writer c (\<lambda>ctx now st. sandbox_MarkRunning ctx st i g now)"
    and "catalog_writer c (\<lambda>ctx now st. sandbox_MarkStartError ctx st i g failure now)"
    and "catalog_writer c (\<lambda>ctx now st. sandbox_BeginStop ctx st i g now)"
    and "catalog_writer c (\<lambda>ctx now st. sandbox_MarkStopped ctx st i g state now)"
    and "catalog_writer c (\<lambda>ctx now st. sandbox_BeginDelete ctx st i g now)"
    and "catalog_writer c (\<lambda>ctx _ st. sandbox_FinalizeDelete ctx st i g)"
  by (rule catalog_writerI,
      erule step_MarkCreated step_MarkError step_Forget step_BeginStart step_MarkRunning step_MarkStartError step_BeginStop
        step_MarkStopped step_BeginDelete step_FinalizeDelete,
      simp add: catalog_write_defs new_names_rules split: option.split)+

lemmas cat_write_defs = cat_Reserve_def cat_MarkCreated_def cat_MarkError_def cat_Forget_def cat_BeginStart_def
  cat_MarkRunning_def cat_MarkStartError_def cat_BeginStop_def cat_MarkStopped_def cat_BeginDelete_def cat_FinalizeDelete_def

definition runs :: "(svc \<Rightarrow> svc \<Rightarrow> bool) \<Rightarrow> ('e, 'a) svcM \<Rightarrow> bool" where
  "runs R m \<longleftrightarrow> (\<forall>s. R s (snd (m s)))"

lemma runs_if: "(b \<Longrightarrow> runs R m) \<Longrightarrow> (\<not> b \<Longrightarrow> runs R m') \<Longrightarrow> runs R (if b then m else m')"
  by simp

lemma runs_option: "(x = None \<Longrightarrow> runs R m) \<Longrightarrow> (\<And>y. x = Some y \<Longrightarrow> runs R (k y)) \<Longrightarrow> runs R (case x of None \<Rightarrow> m | Some y \<Rightarrow> k y)"
  by (cases x) simp_all

lemma runs_prod: "(\<And>a b. x = (a, b) \<Longrightarrow> runs R (k a b)) \<Longrightarrow> runs R (case x of (a, b) \<Rightarrow> k a b)"
  by (cases x) simp

lemma runs_let: "(\<And>y. y = x \<Longrightarrow> runs R (k y)) \<Longrightarrow> runs R (let y = x in k y)"
  by simp

lemma runs_lstat:
  "runs R a \<Longrightarrow> (\<And>e. runs R (b e)) \<Longrightarrow> (\<And>k. runs R (c k)) \<Longrightarrow>
     runs R (case x of Missing \<Rightarrow> a | Unreadable e \<Rightarrow> b e | Present k \<Rightarrow> c k)"
  by (cases x) simp_all

lemma runs_file_kind:
  "(\<And>n. runs R (a n)) \<Longrightarrow> runs R b \<Longrightarrow> runs R c \<Longrightarrow> runs R d \<Longrightarrow>
     runs R (case x of Regular n \<Rightarrow> a n | Directory \<Rightarrow> b | Symlink \<Rightarrow> c | Special \<Rightarrow> d)"
  by (cases x) simp_all

lemma loadImage_wf: "loadImage ctx t k = Inr im \<Longrightarrow> wf_digest (img_ManifestDigest im)"
  by (auto simp: loadImage_def bindE_Inr_iff mapErr_Inr Let_def ParseDigest_iff split: option.splits if_splits)

lemma image_Resolve_wf: "image_Resolve ctx st ref = Inr im \<Longrightarrow> wf_digest (img_ManifestDigest im)"
  by (auto simp: image_Resolve_def resolve_image_def View_def bindE_Inr_iff mapErr_Inr Let_def dest!: loadImage_wf split: option.splits if_splits sum.splits)

locale service_run =
  fixes H :: host and C :: "call \<Rightarrow> bool" and R :: "svc \<Rightarrow> svc \<Rightarrow> bool"
  assumes R_refl: "R s s" and R_trans: "R s t \<Longrightarrow> R t u \<Longrightarrow> R s u"
    and R_event: "C c \<Longrightarrow> node_change c (h_env H (sv_trace s) (sv_node s)) n' \<Longrightarrow> R s \<lparr>sv_node = n', sv_trace = Ev c e # sv_trace s\<rparr>"
begin

lemma run_ret: "runs R (retM x)" and run_fail: "runs R (failM e)" and run_query: "runs R (query f)"
  and run_failN: "runs R (failN g cl code m)" and run_withCtx: "runs R (withCtx info err)"
  by (simp_all add: runs_def retM_def failM_def query_def failN_def withCtx_def R_refl)

lemma run_liftE: "runs R (liftE r)"
  by (cases r) (simp_all add: runs_def liftE_def R_refl)

lemma run_raise: "runs R (\<lambda>s. (Inl (f s), s))"
  by (simp add: runs_def R_refl)

lemma run_try:
  assumes "runs R m" and "\<And>e. runs R (h e)" and "\<And>x. runs R (k x)"
  shows "runs R (tryM m h k)"
  unfolding runs_def
proof
  fix s :: svc
  obtain r s' where m: "m s = (r, s')" by fastforce
  have 1: "R s s'" using assms(1) m unfolding runs_def by (metis snd_conv)
  show "R s (snd (tryM m h k s))"
  proof (cases r)
    case (Inl e)
    have "R s' (snd (h e s'))" using assms(2) by (simp add: runs_def)
    then show ?thesis using m Inl R_trans [OF 1] by (simp add: tryM_def)
  next
    case (Inr x)
    have "R s' (snd (k x s'))" using assms(3) by (simp add: runs_def)
    then show ?thesis using m Inr R_trans [OF 1] by (simp add: tryM_def)
  qed
qed

lemma run_bind: "runs R m \<Longrightarrow> (\<And>x. runs R (k x)) \<Longrightarrow> runs R (bindM m k)"
  by (simp add: bindM_def run_try run_fail)

lemma run_attempt: "runs R m \<Longrightarrow> runs R (attempt m)"
  by (simp add: attempt_def run_try run_ret)

lemma run_failW: "runs R (failW g info err)"
  by (simp add: failW_def run_try run_withCtx run_fail)

lemma run_ask: "C c \<Longrightarrow> runs R (ask H c f)"
  using R_event [of c] by (simp add: runs_def ask_def push_def Let_def node_change_def)

lemma run_call: "C c \<Longrightarrow> runs R (call H c)"
  by (simp add: call_def run_ask)

lemma run_catalog:
  assumes "C c" and "\<And>n. node_change c n (snd (f n))"
  shows "runs R (catalog H c f)"
  unfolding runs_def
proof
  fix s :: svc
  obtain r n' where f: "f (h_env H (sv_trace s) (sv_node s)) = (r, n')" by fastforce
  have "node_change c (h_env H (sv_trace s) (sv_node s)) n'" using assms(2) f by (metis snd_conv)
  from R_event [OF assms(1) this] show "R s (snd (catalog H c f s))" by (simp add: catalog_def f Let_def)
qed

lemma run_read: "C c \<Longrightarrow> runs R (catalog_read H context c f)"
  unfolding catalog_read_def by (intro run_try run_query run_fail run_catalog) (simp_all add: reading_def node_change_def)

lemma run_write:
  assumes "C c" and "catalog_writer c f"
  shows "runs R (catalog_write H context c f)"
  unfolding catalog_write_def
proof (intro run_try run_query run_fail runs_prod run_catalog)
  fix n ctx now
  show "node_change c n (snd (on_store (f ctx now) n))"
    using assms(2) unfolding catalog_writer_def node_change_def on_store_def by (metis (no_types, lifting) prod.case_eq_if snd_conv)
qed (rule assms(1))

text \<open>The calls of the catalog.\<close>

lemma run_cat:
  shows "C (C_resolve ref) \<Longrightarrow> runs R (cat_Resolve H ref)" and "C C_list \<Longrightarrow> runs R (cat_List H)"
    and "C (C_reserve (sb_ID r) (sandbox_name r)) \<Longrightarrow> wf_digest dig \<Longrightarrow> runs R (cat_Reserve H ref dig r)"
    and "C (C_created i g) \<Longrightarrow> runs R (cat_MarkCreated H i g nsetup)"
    and "C (C_mark_error i g) \<Longrightarrow> runs R (cat_MarkError H i g failure)"
    and "C (C_forget i g) \<Longrightarrow> runs R (cat_Forget H i g)"
    and "C (C_begin_start i g) \<Longrightarrow> runs R (cat_BeginStart H i g)"
    and "C (C_running i g) \<Longrightarrow> runs R (cat_MarkRunning H i g)"
    and "C (C_start_error i g) \<Longrightarrow> runs R (cat_MarkStartError H i g failure)"
    and "C (C_begin_stop i g) \<Longrightarrow> runs R (cat_BeginStop H i g)"
    and "C (C_stopped i g st) \<Longrightarrow> runs R (cat_MarkStopped H i g st)"
    and "C (C_begin_delete i g) \<Longrightarrow> runs R (cat_BeginDelete H i g)"
    and "C (C_finalize i g) \<Longrightarrow> runs R (cat_FinalizeDelete H i g)"
  unfolding cat_Resolve_def cat_List_def cat_write_defs by (simp_all add: run_read run_write writers writer_Reserve)

lemmas run_rules = run_ret run_fail run_query run_failN run_withCtx run_liftE run_try run_bind run_attempt run_failW run_ask run_call
  run_cat runs_if runs_option runs_prod runs_let

lemma run_status: "C (C_status m) \<Longrightarrow> runs R (status H m)" and run_report: "C (C_report r) \<Longrightarrow> runs R (report H r)"
  by (simp_all add: status_def report_def run_call)

lemma run_each: "(\<And>x. x \<in> set xs \<Longrightarrow> runs R (f x)) \<Longrightarrow> runs R (eachM f xs)"
  by (induction xs) (simp_all add: run_ret run_bind)

lemma run_availableFile: "(\<And>p. C (C_lstat p)) \<Longrightarrow> runs R (availableFile H path sz)"
  unfolding availableFile_def by (intro run_rules runs_lstat runs_file_kind run_raise) simp_all

lemma run_availableImage: "(\<And>p. C (C_lstat p)) \<Longrightarrow> runs R (availableImage H p im)"
  unfolding availableImage_def availableLayer_def by (intro run_rules run_each run_availableFile) simp_all

lemma run_catalog_value:
  assumes "runs R m" and "\<And>x. (\<exists>s s'. m s = (Inr x, s')) \<Longrightarrow> runs R (k x)" and "\<And>e. runs R (h e)"
  shows "runs R (tryM m h k)"
  unfolding runs_def
proof
  fix s :: svc
  obtain r s' where m: "m s = (r, s')" by fastforce
  have 1: "R s s'" using assms(1) m unfolding runs_def by (metis snd_conv)
  show "R s (snd (tryM m h k s))"
  proof (cases r)
    case (Inl e)
    have "R s' (snd (h e s'))" using assms(3) by (simp add: runs_def)
    then show ?thesis using m Inl R_trans [OF 1] by (simp add: tryM_def)
  next
    case (Inr x)
    have "R s' (snd (k x s'))" using assms(2) [of x] m Inr by (auto simp: runs_def)
    then show ?thesis using m Inr R_trans [OF 1] by (simp add: tryM_def)
  qed
qed

lemma image_read_wf:
  "catalog_read H context c (\<lambda>ctx st. image_Resolve ctx st ref) s = (Inr im, s') \<Longrightarrow> wf_digest (img_ManifestDigest im)"
  by (auto simp: catalog_read_def tryM_def query_def catalog_def reading_def Let_def split: sum.splits dest: image_Resolve_wf)

lemma run_WithAvailable:
  assumes "\<And>x. C (C_image_resolve x)" and "\<And>x. C (C_rlock x)" and "\<And>x. C (C_runlock x)" and "\<And>p. C (C_lstat p)"
    and "\<And>im. wf_digest (img_ManifestDigest im) \<Longrightarrow> runs R (use im)"
  shows "runs R (WithAvailable H p ref use)"
  unfolding WithAvailable_def image_under_locks_def bindM_def
proof (intro run_catalog_value [OF run_read] run_rules run_availableImage assms(1-4))
  show "\<And>im'. \<exists>s s'. catalog_read H (h_ctx H) (C_image_resolve ref) (\<lambda>ctx st. image_Resolve ctx st ref) s = (Inr im', s')
      \<Longrightarrow> runs R (use im')" using image_read_wf assms(5) by blast
qed

lemma run_recoverNetwork:
  "(\<And>m. C (C_status m)) \<Longrightarrow> (\<And>b nm ifs. C (C_net_recover b (sb_ID r) nm ifs)) \<Longrightarrow> runs R (recoverNetwork d H r)"
  unfolding recoverNetwork_def by (intro run_rules run_status) simp_all

lemma run_quiesceNetwork:
  "(\<And>m. C (C_status m)) \<Longrightarrow> (\<And>b. C (C_net_quiesce b (sb_ID r))) \<Longrightarrow> runs R (quiesceNetwork d H r)"
  unfolding quiesceNetwork_def by (intro run_rules run_status) simp_all

lemma run_failStart:
  assumes "\<And>m. C (C_status m)" and "\<And>b. C (C_net_quiesce b (sb_ID r))" and "\<And>v p. C (C_abort v p)" and "\<And>v. C (C_cleanup v (sb_ID r))"
    and "C (C_start_error (sb_ID r) (sb_Generation r))"
  shows "runs R (failStart d H backend r phase cause process)"
  unfolding failStart_def by (intro run_rules run_quiesceNetwork) (simp_all add: assms)

lemma run_compensate:
  assumes "C (C_disk_remove (sb_ID r))" and "\<And>b. C (C_net_delete b (sb_ID r))"
    and "C (C_mark_error (sb_ID r) (sb_Generation r))" and "C (C_forget (sb_ID r) (sb_Generation r))"
  shows "runs R (compensate d H r phase cause)"
  unfolding compensate_def compensate_network_def compensate_retain_def by (intro run_rules) (simp_all add: assms)

lemma run_abandon_create:
  assumes "C (C_disk_remove (sb_ID r))" and "\<And>b. C (C_net_delete b (sb_ID r))"
    and "C (C_mark_error (sb_ID r) (sb_Generation r))" and "C (C_forget (sb_ID r) (sb_Generation r))"
  shows "runs R (abandon_create d H r phase cause)"
  unfolding abandon_create_def by (intro run_rules run_compensate) (simp_all add: assms)

lemma run_abandon_start:
  assumes "\<And>m. C (C_status m)" and "\<And>b. C (C_net_quiesce b (sb_ID r))" and "\<And>v p. C (C_abort v p)" and "\<And>v. C (C_cleanup v (sb_ID r))"
    and "C (C_start_error (sb_ID r) (sb_Generation r))"
  shows "runs R (abandon_start d H backend r phase process cause)" "runs R (failBeforeLaunch d H backend ref r cm phase cause)"
  unfolding abandon_start_def failBeforeLaunch_def by (intro run_rules run_failStart assms)+

lemma run_image_launch_plan:
  "(\<And>n. C (C_disk_check (sb_ID r) n)) \<Longrightarrow> (\<And>x. C (C_data_check (sb_ID r) x)) \<Longrightarrow> runs R (image_launch_plan d H r im)"
  unfolding image_launch_plan_def by (intro run_rules) simp_all

lemma run_deferUnlock:
  assumes "runs R body" and "C (C_unlock i)"
  shows "runs R (deferUnlock H i info body)"
  unfolding runs_def
proof
  fix s :: svc
  obtain r s1 where b: "body s = (r, s1)" by fastforce
  have 1: "R s s1" using assms(1) b unfolding runs_def by (metis snd_conv)
  have "runs R (tryM (call H (C_unlock i))
     (\<lambda>u. failW (\<lambda>e. (end_value r, e)) (info (end_committed r)) (the (errors_Join [end_error r, Some u]))) (\<lambda>_ s2. (finish r, s2)))"
    by (intro run_rules assms(2)) (simp add: runs_def R_refl)
  then have "R s1 (snd (tryM (call H (C_unlock i))
     (\<lambda>u. failW (\<lambda>e. (end_value r, e)) (info (end_committed r)) (the (errors_Join [end_error r, Some u]))) (\<lambda>_ s2. (finish r, s2)) s1))"
    by (simp add: runs_def)
  then show "R s (snd (deferUnlock H i info body s))" using R_trans [OF 1] by (simp add: deferUnlock_def b)
qed

end

text \<open>Every operation keeps a relation that every event keeps.\<close>

locale service_run_all = service_run H "\<lambda>_. True" R for H :: host and R :: "svc \<Rightarrow> svc \<Rightarrow> bool"
begin

lemmas all_rules = run_rules run_status run_report run_WithAvailable run_recoverNetwork run_quiesceNetwork run_failStart run_abandon_create
  run_abandon_start run_image_launch_plan run_deferUnlock

lemma all_lock: "runs R (lockExistingSandbox d H req)"
  unfolding lockExistingSandbox_def by (intro all_rules TrueI)

lemma all_recoverStart: "runs R (recoverStart d H b r)"
  unfolding recoverStart_def recoverRunning_def recoverStarting_def recoverIdle_def by (intro all_rules TrueI)

lemma all_start_launch: "runs R (start_launch d H b ref plan r)"
  unfolding start_launch_def by (intro all_rules TrueI)

lemma all_start_fresh: "runs R (start_fresh d H b ref r c)"
  unfolding start_fresh_def by (intro all_rules all_start_launch TrueI)

lemma all_Start: "runs R (Start sv H ref)"
  unfolding Start_def start_locked_def no_sandbox_def no_reference_def
  by (intro all_rules all_lock all_recoverStart all_start_fresh TrueI)

lemma all_stop_finish: "runs R (stop_finish d H b ref r c)"
  unfolding stop_finish_def by (intro all_rules TrueI)

lemma all_stop_active: "runs R (stop_active d H b ref opts r)"
  unfolding stop_active_def stop_process_def by (intro all_rules all_stop_finish TrueI)

lemma all_Stop: "runs R (StopWithOptions sv H ref opts)"
  unfolding StopWithOptions_def stop_locked_def stop_idle_def no_sandbox_def no_reference_def
  by (intro all_rules all_lock all_stop_active TrueI)

lemma all_remove_locked: "runs R (remove_locked d H ref r)"
  unfolding remove_locked_def remove_resources_def retain_removal_def by (intro all_rules TrueI)

lemma all_Remove: "runs R (Remove sv H ref)"
  unfolding Remove_def no_sandbox_def no_reference_def by (intro all_rules all_lock all_remove_locked TrueI)

lemma all_create_network: "runs R (create_offline d H p r)" "runs R (create_network d H q r)"
  unfolding create_offline_def create_network_def by (intro all_rules TrueI)+

lemma all_create_disks: "runs R (create_disks d H origin r)"
  unfolding create_disks_def by (intro all_rules TrueI)

lemma all_create_reserved: "runs R (create_reserved d H origin p r)"
  unfolding create_reserved_def by (intro all_rules all_create_network all_create_disks TrueI)

lemma all_create_locked: "runs R (create_locked d H req origin p i)"
  unfolding create_locked_def by (intro all_rules all_create_reserved TrueI)

lemma all_create: "runs R (create_sandbox sv H req origin)"
  unfolding create_sandbox_def create_prepared_def no_sandbox_def Let_def by (intro all_rules all_create_locked TrueI)

lemma all_Run: "runs R (Run sv H req)"
  unfolding Run_def Create_def by (intro all_rules all_create all_Start)

lemma all_reconcileSandbox: "runs R (reconcileSandbox d H r)"
  unfolding reconcileSandbox_def reconcile_locked_def reconcile_runtime_def by (intro all_rules all_Remove TrueI)

lemma all_reconcile_loop: "runs R (reconcile_loop d H actions skipped failures records)"
  by (induction records arbitrary: actions skipped failures)
    (simp only: reconcile_loop.simps, intro all_rules all_reconcileSandbox TrueI, assumption?)+

lemma all_Reconcile: "runs R (ReconcileSandboxes sv H)"
  unfolding ReconcileSandboxes_def by (intro all_rules all_reconcile_loop TrueI)

lemma all_references: "runs R (resolve_references H known records refs)"
  by (induction refs arbitrary: known records)
    (simp only: resolve_references.simps, intro all_rules TrueI, assumption?)+

lemma all_status_loop: "runs R (status_loop d H statuses records)"
  by (induction records arbitrary: statuses)
    (simp only: status_loop.simps observeStatus_def Let_def, intro all_rules TrueI, assumption?)+

lemma all_queries: "runs R (Status sv H refs)" "runs R (service_List sv H b)" "runs R (Inspect sv H ref)" "runs R (locateRunning sv H ref op)"
  unfolding Status_def service_List_def Inspect_def locateRunning_def locate_locked_def Let_def
  by (intro all_rules all_references all_status_loop all_lock TrueI)+

end

section \<open>Requests\<close>

text \<open>A request to the service, and the state after serving it.\<close>

datatype request = R_create CreateSandboxRequest | R_clone CreateSandboxRequest cloneDiskOrigin | R_start string | R_stop string StopOptions
  | R_remove string | R_run CreateSandboxRequest | R_reconcile | R_status "string list" | R_list bool | R_inspect string | R_locate string string

definition serve :: "SandboxService \<Rightarrow> host \<Rightarrow> request \<Rightarrow> svc \<Rightarrow> svc" where
  "serve sv H q s = (case q of
     R_create req \<Rightarrow> snd (Create sv H req s)
   | R_clone req origin \<Rightarrow> snd (createFromSnapshot sv H req origin s)
   | R_start ref \<Rightarrow> snd (Start sv H ref s)
   | R_stop ref opts \<Rightarrow> snd (StopWithOptions sv H ref opts s)
   | R_remove ref \<Rightarrow> snd (Remove sv H ref s)
   | R_run req \<Rightarrow> snd (Run sv H req s)
   | R_reconcile \<Rightarrow> snd (ReconcileSandboxes sv H s)
   | R_status refs \<Rightarrow> snd (Status sv H refs s)
   | R_list b \<Rightarrow> snd (service_List sv H b s)
   | R_inspect ref \<Rightarrow> snd (Inspect sv H ref s)
   | R_locate ref op \<Rightarrow> snd (locateRunning sv H ref op s))"

fun serve_all :: "SandboxService \<Rightarrow> host \<Rightarrow> request list \<Rightarrow> svc \<Rightarrow> svc" where
  "serve_all sv H [] s = s"
| "serve_all sv H (q # qs) s = serve_all sv H qs (serve sv H q s)"

context service_run_all
begin

lemma all_serve: "R s (serve sv H q s)"
proof (cases q)
  case (R_clone req origin)
  have "runs R (createFromSnapshot sv H req origin)" unfolding createFromSnapshot_def by (intro all_rules all_create)
  then show ?thesis using R_clone by (simp add: serve_def runs_def)
qed (use all_create all_Start all_Stop all_Remove all_Run all_Reconcile all_queries in \<open>simp_all add: serve_def runs_def Create_def\<close>)

lemma all_serves: "R s (serve_all sv H qs s)"
proof (induction qs arbitrary: s)
  case (Cons q qs)
  show ?case using R_trans [OF all_serve Cons.IH] by simp
qed (simp add: R_refl)

end

text \<open>Other operations change the metadata by catalog operations only.\<close>

definition honest_env :: "host \<Rightarrow> bool" where
  "honest_env H \<longleftrightarrow> (\<forall>tr n. node_step\<^sup>*\<^sup>* n (h_env H tr n))"

definition node_reach :: "host \<Rightarrow> svc \<Rightarrow> svc \<Rightarrow> bool" where
  "node_reach H s s' \<longleftrightarrow> (honest_env H \<longrightarrow> node_step\<^sup>*\<^sup>* (sv_node s) (sv_node s'))"

lemma node_change_step: "node_change c n n' \<Longrightarrow> node_step\<^sup>*\<^sup>* n n'"
  unfolding node_change_def using node_sandbox by blast

interpretation node_run: service_run_all H "node_reach H"
proof
  show "node_reach H s s" for s by (simp add: node_reach_def)
  show "node_reach H s u" if "node_reach H s t" "node_reach H t u" for s t u using that by (auto simp: node_reach_def)
  show "node_reach H s \<lparr>sv_node = n', sv_trace = Ev c e # sv_trace s\<rparr>" if "node_change c (h_env H (sv_trace s) (sv_node s)) n'" for s n' c e
    using node_change_step [OF that] by (auto simp: node_reach_def honest_env_def intro: rtranclp_trans)
qed

section \<open>Weakest preconditions\<close>

definition wp :: "('e, 'a) svcM \<Rightarrow> ('a \<Rightarrow> svc \<Rightarrow> bool) \<Rightarrow> ('e \<Rightarrow> svc \<Rightarrow> bool) \<Rightarrow> svc \<Rightarrow> bool" where
  "wp m Q E s = (case m s of (Inl e, s') \<Rightarrow> E e s' | (Inr x, s') \<Rightarrow> Q x s')"

lemma wp_mono:
  assumes "wp m Q E s" and "\<And>x s'. Q x s' \<Longrightarrow> Q' x s'" and "\<And>e s'. E e s' \<Longrightarrow> E' e s'"
  shows "wp m Q' E' s"
  using assms by (auto simp: wp_def split: prod.splits sum.splits)

lemma wp_conj: "wp m (\<lambda>x s'. Q x s' \<and> Q' x s') (\<lambda>e s'. E e s' \<and> E' e s') s \<longleftrightarrow> wp m Q E s \<and> wp m Q' E' s"
  by (auto simp: wp_def split: prod.splits sum.splits)

lemma wp_ret [simp]: "wp (retM x) Q E = Q x"
  by (simp add: wp_def retM_def fun_eq_iff)

lemma wp_fail [simp]: "wp (failM e) Q E = E e"
  by (simp add: wp_def failM_def fun_eq_iff)

lemma wp_query [simp]: "wp (query f) Q E s = Q (f (sv_trace s)) s"
  by (simp add: wp_def query_def)

lemma wp_failN [simp]: "wp (failN g cl code m) Q E s = E (g (New (fresh s + 8) cl code (Some (Msg m)))) s"
  by (simp add: wp_def failN_def)

lemma wp_withCtx [simp]: "wp (withCtx info e) Q E s = Q (the (WithContext (fresh s + 9) (Some e) info)) s"
  by (simp add: wp_def withCtx_def)

lemma wp_try [simp]: "wp (tryM m h k) Q E s = wp m (\<lambda>x. wp (k x) Q E) (\<lambda>e. wp (h e) Q E) s"
  by (auto simp: wp_def tryM_def split: prod.splits sum.splits)

lemma wp_bind [simp]: "wp (bindM m k) Q E s = wp m (\<lambda>x. wp (k x) Q E) E s"
  by (simp add: bindM_def)

lemma wp_attempt [simp]: "wp (attempt m) Q E s = wp m (\<lambda>_. Q None) (\<lambda>e. Q (Some e)) s"
  by (simp add: attempt_def)

lemma wp_failW [simp]: "wp (failW g info e') Q E s = E (g (the (WithContext (fresh s + 9) (Some e') info))) s"
  by (simp add: failW_def)

lemma wp_liftE [simp]: "wp (liftE r) Q E s = (case r of Inl e \<Rightarrow> E (readdress (fresh s) e) s | Inr x \<Rightarrow> Q x s)"
  by (simp add: wp_def liftE_def split: sum.splits)

lemma wp_ask [simp]: "wp (ask H c f) Q E s = (case h_err H (sv_trace s) c of
    None \<Rightarrow> Q (f (sv_trace s)) (push H c None s) | Some e \<Rightarrow> E e (push H c (Some e) s))"
  by (simp add: wp_def ask_def Let_def split: option.splits)

lemma wp_call [simp]: "wp (call H c) Q E s = (case h_err H (sv_trace s) c of
    None \<Rightarrow> Q () (push H c None s) | Some e \<Rightarrow> E e (push H c (Some e) s))"
  by (simp add: call_def)

lemma wp_if [simp]: "wp (if b then m else m') Q E s = (if b then wp m Q E s else wp m' Q E s)"
  by simp

lemma wp_case_option [simp]: "wp (case x of None \<Rightarrow> m | Some y \<Rightarrow> k y) Q E s = (case x of None \<Rightarrow> wp m Q E s | Some y \<Rightarrow> wp (k y) Q E s)"
  by (cases x) simp_all

lemma wp_case_prod [simp]: "wp (case x of (a, b) \<Rightarrow> k a b) Q E s = (case x of (a, b) \<Rightarrow> wp (k a b) Q E s)"
  by (cases x) simp

lemma push_simps [simp]: "sv_trace (push H c e s) = Ev c e # sv_trace s" "sv_node (push H c e s) = h_env H (sv_trace s) (sv_node s)"
  by (simp_all add: push_def)

text \<open>A whole run, when its precondition holds.\<close>

lemma wp_snd: "wp m (\<lambda>_ s'. K s') (\<lambda>_ s'. K s') s \<longleftrightarrow> K (snd (m s))"
  by (simp add: wp_def split: prod.splits sum.splits)

end
