(* ===== verification/Service_Protocol.thy ===== *)
theory Service_Protocol
  imports Service_Rules
begin

text \<open>
  The protocol of the sandbox service as a property of its traces: the operation lock, and what must have
  happened before a durable transition is attempted.
\<close>

section \<open>Traces\<close>

text \<open>An event that takes the operation lock of a sandbox, and whether the lock is held.\<close>

fun acquires :: "host \<Rightarrow> SandboxID \<Rightarrow> event list \<Rightarrow> event \<Rightarrow> bool" where
  "acquires H i tr (Ev (Sys (S_lock j)) None) = (j = i)"
| "acquires H i tr (Ev (Sys (S_trylock j)) None) = (j = i \<and> h_found H tr)"
| "acquires H i tr ev = False"

fun held :: "host \<Rightarrow> SandboxID \<Rightarrow> event list \<Rightarrow> bool" where
  "held H i [] = False"
| "held H i (ev # tr) = (if ev_call ev = C_unlock i then False else acquires H i tr ev \<or> held H i tr)"

text \<open>The sandbox whose record, disks, network or runtime state a call changes.\<close>

fun catalog_subject :: "catalog_op \<Rightarrow> SandboxID option" where
  "catalog_subject (K_resolve r) = None" | "catalog_subject K_list = None" | "catalog_subject (K_reserve i nm) = Some i"
| "catalog_subject (K_created i g) = Some i" | "catalog_subject (K_mark_error i g) = Some i" | "catalog_subject (K_forget i g) = Some i"
| "catalog_subject (K_begin_start i g) = Some i" | "catalog_subject (K_running i g) = Some i" | "catalog_subject (K_start_error i g) = Some i"
| "catalog_subject (K_begin_stop i g) = Some i" | "catalog_subject (K_stopped i g st) = Some i" | "catalog_subject (K_begin_delete i g) = Some i"
| "catalog_subject (K_finalize i g) = Some i"

fun vmm_subject :: "vmm_op \<Rightarrow> SandboxID option" where
  "vmm_subject (V_launch v p) = Some (lp_SandboxID p)" | "vmm_subject (V_cleanup v i) = Some i" | "vmm_subject (V_remove_logs v i) = Some i"
| "vmm_subject op = None"

fun network_subject :: "network_op \<Rightarrow> SandboxID option" where
  "network_subject (N_net_prepare b i) = Some i" | "network_subject (N_net_add b i nm sp) = Some i"
| "network_subject (N_net_recover b i nm ifs) = Some i" | "network_subject (N_net_quiesce b i) = Some i" | "network_subject (N_net_delete b i) = Some i"

fun disk_subject :: "disk_op \<Rightarrow> SandboxID option" where
  "disk_subject (D_disk_prepare i n) = Some i" | "disk_subject (D_disk_clone i n p) = Some i" | "disk_subject (D_disk_check i n) = Some i"
| "disk_subject (D_disk_remove i) = Some i" | "disk_subject (D_data_prepare i ds) = Some i" | "disk_subject (D_data_clone i ds p) = Some i"
| "disk_subject (D_data_check i ds) = Some i" | "disk_subject (D_recover_disks p ps) = None"

fun subject :: "call \<Rightarrow> SandboxID option" where
  "subject (Sys op) = None" | "subject (Cat op) = catalog_subject op" | "subject (Vm op) = vmm_subject op"
| "subject (Net op) = network_subject op" | "subject (Dsk op) = disk_subject op"

text \<open>Some event satisfies \<open>hit\<close>, and none after it satisfies \<open>stop\<close>.\<close>

fun since :: "(event list \<Rightarrow> event \<Rightarrow> bool) \<Rightarrow> (event list \<Rightarrow> event \<Rightarrow> bool) \<Rightarrow> event list \<Rightarrow> bool" where
  "since stop hit [] = False"
| "since stop hit (ev # tr) = (hit tr ev \<or> \<not> stop tr ev \<and> since stop hit tr)"

fun cleanup_of :: "SandboxID \<Rightarrow> event \<Rightarrow> bool" where
  "cleanup_of i (Ev (Vm (V_cleanup v j)) e) = (j = i)"
| "cleanup_of i ev = False"

fun launch_of :: "SandboxID \<Rightarrow> event \<Rightarrow> bool" where
  "launch_of i (Ev (Vm (V_launch v p)) e) = (lp_SandboxID p = i)"
| "launch_of i ev = False"

fun observes :: "host \<Rightarrow> SandboxID \<Rightarrow> 64 word \<Rightarrow> (Observation \<Rightarrow> bool) \<Rightarrow> event list \<Rightarrow> event \<Rightarrow> bool" where
  "observes H i g P tr (Ev (Vm (V_observe v j k)) None) = (j = i \<and> k = g \<and> P (h_observation H tr))"
| "observes H i g P tr ev = False"

text \<open>The events that prove that the VMM of a Starting generation runs: a successful launch of a plan with
  that generation, an observation of the running VMM, or a successful wait for the process that an
  observation under the same lock reported.\<close>

fun shows_running :: "host \<Rightarrow> SandboxID \<Rightarrow> 64 word \<Rightarrow> event list \<Rightarrow> event \<Rightarrow> bool" where
  "shows_running H i g tr (Ev (Vm (V_launch v p)) None) = (lp_SandboxID p = i \<and> lp_Generation p = g)"
| "shows_running H i g tr (Ev (Vm (V_wait_ready v p)) None) = since (acquires H i) (observes H i g (\<lambda>ob. obs_Process ob = p)) tr"
| "shows_running H i g tr ev = observes H i g (\<lambda>ob. obs_State ob = ProcessRunning) tr ev"

definition evidence :: "host \<Rightarrow> SandboxID \<Rightarrow> 64 word \<Rightarrow> event list \<Rightarrow> bool" where
  "evidence H i g = since (\<lambda>tr ev. acquires H i tr ev \<or> cleanup_of i ev) (shows_running H i g)"

text \<open>The runtime state was cleaned under this lock and no VMM was launched since.\<close>

definition cleaned :: "host \<Rightarrow> SandboxID \<Rightarrow> event list \<Rightarrow> bool" where
  "cleaned H i = since (\<lambda>tr ev. acquires H i tr ev \<or> launch_of i ev) (\<lambda>_ ev. cleanup_of i ev \<and> ev_err ev = None)"

fun begun_by :: "SandboxID \<Rightarrow> event \<Rightarrow> bool" where
  "begun_by i (Ev (Cat (K_begin_start j g)) None) = (j = i)"
| "begun_by i ev = False"

definition begun :: "host \<Rightarrow> SandboxID \<Rightarrow> event list \<Rightarrow> bool" where
  "begun H i = since (acquires H i) (\<lambda>_. begun_by i)"

fun disk_made :: "SandboxID \<Rightarrow> event \<Rightarrow> bool" where
  "disk_made i (Ev (Dsk (D_disk_prepare j n)) None) = (j = i)"
| "disk_made i (Ev (Dsk (D_disk_clone j n p)) None) = (j = i)"
| "disk_made i ev = False"

definition prepared :: "host \<Rightarrow> SandboxID \<Rightarrow> event list \<Rightarrow> bool" where
  "prepared H i = since (\<lambda>tr ev. acquires H i tr ev \<or> ev_call ev = C_disk_remove i) (\<lambda>_. disk_made i)"

fun marked_deleting :: "SandboxID \<Rightarrow> event \<Rightarrow> bool" where
  "marked_deleting i (Ev (Cat (K_begin_delete j g)) e) = (j = i)"
| "marked_deleting i ev = False"

fun logs_removed :: "SandboxID \<Rightarrow> event \<Rightarrow> bool" where
  "logs_removed i (Ev (Vm (V_remove_logs v j)) None) = (j = i)"
| "logs_removed i ev = False"

text \<open>Under this lock, and since the deletion was last marked, the disk was removed and not made again, and the logs were removed.\<close>

definition wiped :: "host \<Rightarrow> SandboxID \<Rightarrow> event list \<Rightarrow> bool" where
  "wiped H i tr \<longleftrightarrow> since (\<lambda>tr ev. acquires H i tr ev \<or> marked_deleting i ev \<or> disk_made i ev) (\<lambda>_ ev. ev = Ev (C_disk_remove i) None) tr
     \<and> since (\<lambda>tr ev. acquires H i tr ev \<or> marked_deleting i ev) (\<lambda>_. logs_removed i) tr"

text \<open>The disk of a failed creation was removed under this lock and not made again.\<close>

definition discarded :: "host \<Rightarrow> SandboxID \<Rightarrow> event list \<Rightarrow> bool" where
  "discarded H i = since (\<lambda>tr ev. acquires H i tr ev \<or> disk_made i ev) (\<lambda>_ ev. ev = Ev (C_disk_remove i) None)"

section \<open>The protocol\<close>

text \<open>When a call may be made: a lock that is not held, an unlock of a held one, a change of a sandbox
  only under its lock.\<close>

definition lock_rule :: "host \<Rightarrow> event list \<Rightarrow> call \<Rightarrow> bool" where
  "lock_rule H tr c = ((case c of Sys (S_lock i) \<Rightarrow> \<not> held H i tr | Sys (S_trylock i) \<Rightarrow> \<not> held H i tr | Sys (S_unlock i) \<Rightarrow> held H i tr | _ \<Rightarrow> True)
     \<and> (case subject c of None \<Rightarrow> True | Some i \<Rightarrow> held H i tr))"

text \<open>What a durable transition, and a launch, rest on.\<close>

definition commit_rule :: "host \<Rightarrow> event list \<Rightarrow> call \<Rightarrow> bool" where
  "commit_rule H tr c = (case c of
     Cat (K_running i g) \<Rightarrow> evidence H i g tr
   | Cat (K_stopped i g st) \<Rightarrow> cleaned H i tr
   | Cat (K_created i g) \<Rightarrow> prepared H i tr
   | Cat (K_forget i g) \<Rightarrow> discarded H i tr
   | Cat (K_finalize i g) \<Rightarrow> wiped H i tr
   | Vm (V_launch v p) \<Rightarrow> LaunchPlan_Validate p = None \<and> begun H (lp_SandboxID p) tr
   | _ \<Rightarrow> True)"

fun disciplined :: "host \<Rightarrow> event list \<Rightarrow> bool" where
  "disciplined H [] = True"
| "disciplined H (ev # tr) = (lock_rule H tr (ev_call ev) \<and> commit_rule H tr (ev_call ev) \<and> disciplined H tr)"

section \<open>Holding one lock\<close>

text \<open>The service runs one operation at a time and holds at most one operation lock.\<close>

definition holding :: "host \<Rightarrow> SandboxID option \<Rightarrow> event list \<Rightarrow> bool" where
  "holding H x tr \<longleftrightarrow> disciplined H tr \<and> (\<forall>j. held H j tr \<longleftrightarrow> x = Some j)"

definition unlocking :: "call \<Rightarrow> bool" where
  "unlocking c \<longleftrightarrow> (\<exists>i. c = C_lock i \<or> c = C_trylock i \<or> c = C_unlock i)"

lemma acquires_iff:
  "acquires H i tr ev \<longleftrightarrow> ev = Ev (C_lock i) None \<or> (ev = Ev (C_trylock i) None \<and> h_found H tr)"
  by (cases "(H, i, tr, ev)" rule: acquires.cases) auto

lemma lock_rule_other:
  assumes "\<not> unlocking c"
  shows "lock_rule H tr c = (case subject c of None \<Rightarrow> True | Some i \<Rightarrow> held H i tr)"
proof (cases c)
  case (Sys op)
  then show ?thesis using assms by (cases op) (simp_all add: lock_rule_def unlocking_def)
qed (simp_all add: lock_rule_def)

lemma holding_event:
  assumes "\<not> unlocking c" and "subject c = None \<or> subject c = x" and "commit_rule H tr c" and "holding H x tr"
  shows "holding H x (Ev c e # tr)"
proof -
  have nl: "\<not> acquires H j tr (Ev c e)" and nu: "c \<noteq> C_unlock j" for j
    using assms(1) unfolding unlocking_def acquires_iff by simp_all
  have h: "held H j (Ev c e # tr) = held H j tr" for j by (simp add: nl nu)
  have l: "lock_rule H tr c"
    unfolding lock_rule_other [OF assms(1)] using assms(2,4) by (cases "subject c"; cases x) (simp_all add: holding_def)
  show ?thesis using assms(3,4) l unfolding holding_def h by simp
qed

lemma sys_rules [simp]:
  "commit_rule H tr (Sys op) = True" "lock_rule H tr (C_lock i) = (\<not> held H i tr)"
  "lock_rule H tr (C_trylock i) = (\<not> held H i tr)" "lock_rule H tr (C_unlock i) = held H i tr"
  by (simp_all add: commit_rule_def lock_rule_def)

lemma holding_lock: "holding H None tr \<Longrightarrow> holding H (if e = None then Some i else None) (Ev (C_lock i) e # tr)"
  by (cases e) (simp_all add: holding_def acquires_iff)

lemma holding_trylock:
  "holding H None tr \<Longrightarrow> holding H (if e = None \<and> h_found H tr then Some i else None) (Ev (C_trylock i) e # tr)"
  by (cases e) (simp_all add: holding_def acquires_iff)

lemma holding_unlock: "holding H (Some i) tr \<Longrightarrow> holding H None (Ev (C_unlock i) e # tr)"
  by (simp add: holding_def acquires_iff)

section \<open>Metadata without ambiguous references\<close>

text \<open>References are names or identities, and names win. The operations below rely on an identity to
  denote its own sandbox: no sandbox is named like an identity.\<close>

definition plain_names :: "snapStore \<Rightarrow> bool" where
  "plain_names n \<longleftrightarrow> (\<forall>nm. sandbox_names (ss_tx n) nm \<noteq> None \<longrightarrow> \<not> valid_id nm)"

definition good :: "snapStore \<Rightarrow> bool" where
  "good n \<longleftrightarrow> node_inv n \<and> plain_names n"

text \<open>The other operations keep the metadata good.\<close>

definition friendly :: "host \<Rightarrow> bool" where
  "friendly H \<longleftrightarrow> (\<forall>tr n. good n \<longrightarrow> good (h_env H tr n))"

definition plain_call :: "call \<Rightarrow> bool" where
  "plain_call c \<longleftrightarrow> (\<forall>i nm. c = C_reserve i nm \<longrightarrow> \<not> valid_id nm)"

lemma good_change:
  assumes "good n" and "node_change c n n'" and "plain_call c"
  shows "good n'"
  using assms(2) unfolding node_change_def
proof (elim disjE exE conjE)
  fix st assume st: "sandbox_step resolve_image (ss_store n) st" "new_names c (ss_store n) st" "n' = n\<lparr>ss_store := st\<rparr>"
  have "node_inv n'" using conjunct1 [OF node_step_inv [OF _ node_sandbox [OF st(1)]]] assms(1) st(3) by (simp add: good_def)
  moreover have "plain_names n'"
    using assms(1,3) st(2,3) by (auto simp: plain_names_def good_def new_names_def plain_call_def)
  ultimately show ?thesis by (simp add: good_def)
qed (use assms(1) in simp)

lemma good_resolve:
  assumes "good n" and "sandbox_Resolve ctx (ss_store n) ref = Inr r"
  shows "sandboxes (ss_tx n) (sb_ID r) = Some r" and "valid_id (sb_ID r)" and "valid_id ref \<Longrightarrow> sb_ID r = ref"
proof -
  have inv: "sandbox_inv (ss_tx n)" using assms(1) by (simp add: good_def node_inv_def)
  from assms(2) have "ctx = None" and res: "resolve_sandbox None (ss_tx n) ref = Inr r"
    by (auto simp: sandbox_Resolve_def ctxE_def View_Inr split: sum.splits)
  have "\<exists>i. sandboxes (ss_tx n) i = Some r \<and> (sandbox_names (ss_tx n) ref = Some i \<or> i = ref)"
  proof (cases "sandbox_names (ss_tx n) ref")
    case None
    then show ?thesis using res unfolding resolve_sandbox_inv [OF inv] by (auto split: option.splits)
  next
    case (Some i)
    obtain r' where "sandboxes (ss_tx n) i = Some r'" using index_ok_nameE [OF sandbox_invD(4) [OF inv] Some] by blast
    then show ?thesis using Some res unfolding resolve_sandbox_inv [OF inv] by auto
  qed
  then obtain i where i: "sandboxes (ss_tx n) i = Some r" "sandbox_names (ss_tx n) ref = Some i \<or> i = ref" by blast
  then show "sandboxes (ss_tx n) (sb_ID r) = Some r" "valid_id (sb_ID r)"
    using sandboxes_Some [OF inv] Sandbox_Validate_NoneD(1) by metis+
  show "valid_id ref \<Longrightarrow> sb_ID r = ref"
    using i assms(1) sandboxes_Some(3) [OF inv i(1)] by (auto simp: good_def plain_names_def)
qed

section \<open>A calculus for operations under the lock\<close>

text \<open>The state of a run: good metadata and a predicate on the trace.\<close>

definition fine :: "host \<Rightarrow> (event list \<Rightarrow> bool) \<Rightarrow> svc \<Rightarrow> bool" where
  "fine H K s \<longleftrightarrow> friendly H \<and> good (sv_node s) \<and> K (sv_trace s)"

text \<open>A call that is allowed under the lock of \<open>i\<close> when \<open>K\<close> holds.\<close>

definition allowed :: "host \<Rightarrow> SandboxID option \<Rightarrow> (event list \<Rightarrow> bool) \<Rightarrow> call \<Rightarrow> bool" where
  "allowed H x K c \<longleftrightarrow> \<not> unlocking c \<and> (subject c = None \<or> subject c = x) \<and> plain_call c \<and> (\<forall>tr. K tr \<longrightarrow> commit_rule H tr c)"

abbreviation under :: "host \<Rightarrow> SandboxID option \<Rightarrow> (event list \<Rightarrow> bool) \<Rightarrow> event list \<Rightarrow> bool" where
  "under H x K \<equiv> (\<lambda>tr. holding H x tr \<and> K tr)"

text \<open>\<open>steps\<close>: from a state with \<open>K\<close>, every return has \<open>Q\<close> of the value, every exception satisfies \<open>F\<close>,
  and the lock stays with its holder.\<close>

definition steps :: "host \<Rightarrow> SandboxID option \<Rightarrow> (event list \<Rightarrow> bool) \<Rightarrow> ('e, 'a) svcM \<Rightarrow> ('a \<Rightarrow> event list \<Rightarrow> bool) \<Rightarrow> ('e \<Rightarrow> bool) \<Rightarrow> bool" where
  "steps H x K m Q F \<longleftrightarrow> (\<forall>s. fine H (under H x K) s \<longrightarrow>
     wp m (\<lambda>v. fine H (under H x (Q v))) (\<lambda>e s'. F e \<and> fine H (holding H x) s') s)"

lemma fine_push: "fine H (under H x K) s \<Longrightarrow> allowed H x K c \<Longrightarrow> fine H (holding H x) (push H c e s)"
  by (simp add: fine_def allowed_def friendly_def holding_event)

lemma steps_conseq:
  assumes "steps H x K m Q F" and "\<And>tr. K' tr \<Longrightarrow> K tr" and "\<And>v tr. Q v tr \<Longrightarrow> Q' v tr" and "\<And>e. F e \<Longrightarrow> F' e"
  shows "steps H x K' m Q' F'"
  unfolding steps_def
proof (intro allI impI)
  fix s :: svc assume "fine H (under H x K') s"
  then have "fine H (under H x K) s" using assms(2) by (simp add: fine_def)
  then have "wp m (\<lambda>v. fine H (under H x (Q v))) (\<lambda>e s'. F e \<and> fine H (holding H x) s') s" using assms(1) by (simp add: steps_def)
  then show "wp m (\<lambda>v. fine H (under H x (Q' v))) (\<lambda>e s'. F' e \<and> fine H (holding H x) s') s"
    by (rule wp_mono) (use assms(3,4) in \<open>auto simp: fine_def\<close>)
qed

lemma steps_pure: "(P \<Longrightarrow> steps H x K m Q F) \<Longrightarrow> steps H x (\<lambda>tr. P \<and> K tr) m Q F"
  by (cases P) (simp_all add: steps_def fine_def)

lemma steps_try:
  assumes "steps H x K m Q F" and "\<And>e. F e \<Longrightarrow> steps H x (\<lambda>_. True) (h e) Q' F'" and "\<And>v. steps H x (Q v) (k v) Q' F'"
  shows "steps H x K (tryM m h k) Q' F'"
  unfolding steps_def wp_try
proof (intro allI impI)
  fix s :: svc assume "fine H (under H x K) s"
  then have "wp m (\<lambda>v. fine H (under H x (Q v))) (\<lambda>e s'. F e \<and> fine H (holding H x) s') s" using assms(1) by (simp add: steps_def)
  then show "wp m (\<lambda>v. wp (k v) (\<lambda>v. fine H (under H x (Q' v))) (\<lambda>e s'. F' e \<and> fine H (holding H x) s'))
     (\<lambda>e. wp (h e) (\<lambda>v. fine H (under H x (Q' v))) (\<lambda>e s'. F' e \<and> fine H (holding H x) s')) s"
    by (rule wp_mono) (use assms(2,3) in \<open>auto simp: steps_def\<close>)
qed

lemma steps_pure_only: "(P \<Longrightarrow> steps H x (\<lambda>_. True) m Q F) \<Longrightarrow> steps H x (\<lambda>_. P) m Q F"
  by (cases P) (simp_all add: steps_def fine_def)

lemma steps_ret: "(\<And>tr. K tr \<Longrightarrow> Q v tr) \<Longrightarrow> steps H x K (retM v) Q F"
  by (simp add: steps_def fine_def)

lemma steps_fail: "F e \<Longrightarrow> steps H x K (failM e) Q F"
  by (simp add: steps_def fine_def)

lemma steps_bind: "steps H x K m Q F \<Longrightarrow> (\<And>v. steps H x (Q v) (k v) Q' F) \<Longrightarrow> steps H x K (bindM m k) Q' F"
  unfolding bindM_def by (rule steps_try [where F = F]) (auto intro: steps_fail)

lemma steps_attempt:
  assumes "steps H x K m (\<lambda>_. Q None) F" and "\<And>e tr. F e \<Longrightarrow> Q (Some e) tr"
  shows "steps H x K (attempt m) Q F'"
  unfolding attempt_def by (rule steps_try [OF assms(1)]) (auto intro!: steps_ret assms(2))

lemma steps_liftE: "(\<And>v tr. r = Inr v \<Longrightarrow> K tr \<Longrightarrow> Q v tr) \<Longrightarrow> (\<And>e. F e) \<Longrightarrow> steps H x K (liftE r) Q F"
  by (auto simp: steps_def fine_def split: sum.splits)

lemma steps_failN: "(\<And>e. F (g e)) \<Longrightarrow> steps H x K (failN g cl code msg) Q F"
  by (simp add: steps_def fine_def)

lemma steps_failW: "(\<And>e. F (g e)) \<Longrightarrow> steps H x K (failW g info err) Q F"
  by (simp add: steps_def fine_def)

lemma steps_withCtx: "(\<And>v tr. K tr \<Longrightarrow> Q v tr) \<Longrightarrow> steps H x K (withCtx info err) Q F"
  by (simp add: steps_def fine_def)

lemma steps_if: "(b \<Longrightarrow> steps H x K m Q F) \<Longrightarrow> (\<not> b \<Longrightarrow> steps H x K m' Q F) \<Longrightarrow> steps H x K (if b then m else m') Q F"
  by simp

lemma steps_option:
  "(y = None \<Longrightarrow> steps H x K m Q F) \<Longrightarrow> (\<And>z. y = Some z \<Longrightarrow> steps H x K (k z) Q F) \<Longrightarrow> steps H x K (case y of None \<Rightarrow> m | Some z \<Rightarrow> k z) Q F"
  by (cases y) simp_all

lemma steps_prod: "(\<And>a b. y = (a, b) \<Longrightarrow> steps H x K (k a b) Q F) \<Longrightarrow> steps H x K (case y of (a, b) \<Rightarrow> k a b) Q F"
  by (cases y) simp

lemma steps_let: "(\<And>z. z = y \<Longrightarrow> steps H x K (k z) Q F) \<Longrightarrow> steps H x K (let z = y in k z) Q F"
  by simp

lemma steps_ask:
  assumes "allowed H x K c" and "\<And>tr. K tr \<Longrightarrow> Q (f tr) (Ev c None # tr)" and "\<And>e. F e"
  shows "steps H x K (ask H c f) Q F"
  unfolding steps_def wp_ask
proof (intro allI impI)
  fix s :: svc assume s: "fine H (under H x K) s"
  note p = fine_push [OF s assms(1)]
  have "fine H (under H x (Q (f (sv_trace s)))) (push H c None s)"
    using p [of None] s assms(2) [of "sv_trace s"] by (simp add: fine_def)
  then show "case h_err H (sv_trace s) c of None \<Rightarrow> fine H (under H x (Q (f (sv_trace s)))) (push H c None s)
      | Some e \<Rightarrow> F e \<and> fine H (holding H x) (push H c (Some e) s)"
    using p assms(3) by (simp split: option.split)
qed

lemma steps_call: "allowed H x K c \<Longrightarrow> (\<And>tr. K tr \<Longrightarrow> Q () (Ev c None # tr)) \<Longrightarrow> (\<And>e. F e) \<Longrightarrow> steps H x K (call H c) Q F"
  unfolding call_def by (rule steps_ask)

text \<open>The calls of the catalog. A transition returns a record of the identity it was asked for.\<close>

lemma steps_catalog:
  assumes "allowed H x K c" and "\<And>n. node_change c n (snd (f n))"
    and "\<And>n v n' tr. good n \<Longrightarrow> f n = (Inr v, n') \<Longrightarrow> K tr \<Longrightarrow> Q v (Ev c None # tr)" and "\<And>e. F e"
  shows "steps H x K (catalog H c f) Q F"
  unfolding steps_def
proof (intro allI impI)
  fix s :: svc assume s: "fine H (under H x K) s"
  define n where "n = h_env H (sv_trace s) (sv_node s)"
  obtain r n' where f: "f n = (r, n')" by fastforce
  have g: "good n" using s by (simp add: fine_def friendly_def n_def)
  have g': "good n'" using good_change [OF g assms(2)] assms(1) f by (metis allowed_def snd_conv)
  have h: "holding H x (Ev c e # sv_trace s)" for e using s assms(1) by (simp add: fine_def allowed_def holding_event)
  show "wp (catalog H c f) (\<lambda>v. fine H (under H x (Q v))) (\<lambda>e s'. F e \<and> fine H (holding H x) s') s"
  proof (cases r)
    case (Inl e)
    then show ?thesis using s g' h assms(4) by (simp add: wp_def catalog_def n_def [symmetric] f err_of_def fine_def)
  next
    case (Inr v)
    then show ?thesis using s g' h assms(3) [OF g, of v n' "sv_trace s"] f
      by (simp add: wp_def catalog_def n_def [symmetric] err_of_def fine_def)
  qed
qed

lemma steps_query_try: "(\<And>v. steps H x K (k v) Q F) \<Longrightarrow> steps H x K (tryM (query f) h k) Q F"
  by (simp add: steps_def)

lemma steps_query_bind: "(\<And>v. steps H x K (k v) Q F) \<Longrightarrow> steps H x K (bindM (query f) k) Q F"
  by (simp add: steps_def)

lemma steps_read:
  assumes "allowed H x K c" and "\<And>ctx n v tr. good n \<Longrightarrow> f ctx (ss_store n) = Inr v \<Longrightarrow> K tr \<Longrightarrow> Q v (Ev c None # tr)" and "\<And>e. F e"
  shows "steps H x K (catalog_read H context c f) Q F"
  unfolding catalog_read_def
  by (intro steps_query_try steps_catalog) (use assms in \<open>auto simp: reading_def node_change_def\<close>)

lemma steps_write:
  assumes "allowed H x K c" and "catalog_writer c f"
    and "\<And>ctx now st v st' tr. f ctx now st = (Inr v, st') \<Longrightarrow> K tr \<Longrightarrow> Q v (Ev c None # tr)" and "\<And>e. F e"
  shows "steps H x K (catalog_write H context c f) Q F"
proof -
  have nc: "node_change c n (snd (on_store (f ctx now) n))" for ctx now n
    using assms(2) unfolding catalog_writer_def node_change_def on_store_def by (metis (no_types, lifting) prod.case_eq_if snd_conv)
  have q: "Q v (Ev c None # tr)" if "on_store (f ctx now) n = (Inr v, n')" "K tr" for ctx now n v n' tr
    using that assms(3) by (auto simp: on_store_def split: prod.splits)
  have "steps H x K (catalog H c (on_store (f ctx now))) Q F" for ctx now
    by (rule steps_catalog [OF assms(1) nc _ assms(4)]) (rule q)
  then show ?thesis unfolding catalog_write_def by (intro steps_query_try steps_prod)
qed

lemma modify_ID:
  assumes "update_with ctx st info (modify_sandbox ctx i body) = (Inr r, st')" and "\<And>r r'. body r = Inr (Some r') \<Longrightarrow> sb_ID r' = sb_ID r"
  shows "sb_ID r = i"
  using assms(1)
proof (cases rule: update_with_cases)
  case (committed v t)
  then obtain r0 out where "load_sandbox ctx (mem_records st) i = Inr r0" "body r0 = Inr out" "r = (case out of None \<Rightarrow> r0 | Some r' \<Rightarrow> r')"
    by (auto simp: modify_sandbox_def bindE_Inr_iff split: option.splits)
  then show ?thesis using load_sandbox_Inr assms(2) by (auto split: option.splits)
qed simp

lemma transition_ID:
  shows "sandbox_MarkCreated ctx st i g nsetup now = (Inr r, st') \<Longrightarrow> sb_ID r = i"
    and "sandbox_BeginStart ctx st i g now = (Inr r, st') \<Longrightarrow> sb_ID r = i"
    and "sandbox_transition ctx st i g state to failure now = (Inr r, st') \<Longrightarrow> sb_ID r = i"
    and "sandbox_BeginStop ctx st i g now = (Inr r, st') \<Longrightarrow> sb_ID r = i"
    and "sandbox_BeginDelete ctx st i g now = (Inr r, st') \<Longrightarrow> sb_ID r = i"
  using modify_ID created.keeps start.keeps trans.keeps stop.keeps deleting.keeps
  unfolding sandbox_MarkCreated_def sandbox_BeginStart_def sandbox_transition_def sandbox_BeginStop_def sandbox_BeginDelete_def
  by (simp_all split: option.splits)

lemma mark_ID:
  shows "sandbox_MarkRunning ctx st i g now = (Inr r, st') \<Longrightarrow> sb_ID r = i"
    and "sandbox_MarkStopped ctx st i g state now = (Inr r, st') \<Longrightarrow> sb_ID r = i"
  using transition_ID(3) unfolding sandbox_MarkRunning_def sandbox_MarkStopped_def by (auto split: if_splits)

text \<open>A procedure whose calls are allowed under \<open>K\<close> and keep it.\<close>

definition keeping :: "host \<Rightarrow> SandboxID option \<Rightarrow> (event list \<Rightarrow> bool) \<Rightarrow> call \<Rightarrow> bool" where
  "keeping H x K c \<longleftrightarrow> allowed H x K c \<and> (\<forall>e tr. K tr \<longrightarrow> K (Ev c e # tr))"

definition keep :: "host \<Rightarrow> SandboxID option \<Rightarrow> (event list \<Rightarrow> bool) \<Rightarrow> svc \<Rightarrow> svc \<Rightarrow> bool" where
  "keep H x K s s' \<longleftrightarrow> (fine H (under H x K) s \<longrightarrow> fine H (under H x K) s')"

interpretation trace_run: service_run H "keeping H x K" "keep H x K"
proof
  show "keep H x K s \<lparr>sv_node = n', sv_trace = Ev c e # sv_trace s\<rparr>"
    if "keeping H x K c" "node_change c (h_env H (sv_trace s) (sv_node s)) n'" for s c n' e
    using that good_change [OF _ that(2)] by (auto simp: keep_def keeping_def allowed_def fine_def friendly_def intro: holding_event)
qed (auto simp: keep_def)

lemma steps_run:
  assumes "runs (keep H x K) m" and "\<And>e. F e"
  shows "steps H x K m (\<lambda>_. K) F"
  unfolding steps_def
proof (intro allI impI)
  fix s :: svc assume s: "fine H (under H x K) s"
  then have "fine H (under H x K) (snd (m s))" using assms(1) by (simp add: runs_def keep_def)
  then show "wp m (\<lambda>v. fine H (under H x K)) (\<lambda>e s'. F e \<and> fine H (holding H x) s') s"
    using assms(2) by (auto simp: wp_def fine_def split: prod.splits sum.splits)
qed

lemma steps_cat:
  shows "allowed H x K (C_created i g) \<Longrightarrow> (\<And>r tr. sb_ID r = i \<Longrightarrow> K tr \<Longrightarrow> Q r (Ev (C_created i g) None # tr)) \<Longrightarrow> (\<And>e. F e) \<Longrightarrow> steps H x K (cat_MarkCreated H i g nsetup) Q F"
    and "allowed H x K (C_begin_start i g) \<Longrightarrow> (\<And>r tr. sb_ID r = i \<Longrightarrow> K tr \<Longrightarrow> Q r (Ev (C_begin_start i g) None # tr)) \<Longrightarrow> (\<And>e. F e) \<Longrightarrow> steps H x K (cat_BeginStart H i g) Q F"
    and "allowed H x K (C_running i g) \<Longrightarrow> (\<And>r tr. sb_ID r = i \<Longrightarrow> K tr \<Longrightarrow> Q r (Ev (C_running i g) None # tr)) \<Longrightarrow> (\<And>e. F e) \<Longrightarrow> steps H x K (cat_MarkRunning H i g) Q F"
    and "allowed H x K (C_begin_stop i g) \<Longrightarrow> (\<And>r tr. sb_ID r = i \<Longrightarrow> K tr \<Longrightarrow> Q r (Ev (C_begin_stop i g) None # tr)) \<Longrightarrow> (\<And>e. F e) \<Longrightarrow> steps H x K (cat_BeginStop H i g) Q F"
    and "allowed H x K (C_stopped i g st) \<Longrightarrow> (\<And>r tr. sb_ID r = i \<Longrightarrow> K tr \<Longrightarrow> Q r (Ev (C_stopped i g st) None # tr)) \<Longrightarrow> (\<And>e. F e) \<Longrightarrow> steps H x K (cat_MarkStopped H i g st) Q F"
    and "allowed H x K (C_begin_delete i g) \<Longrightarrow> (\<And>r tr. sb_ID r = i \<Longrightarrow> K tr \<Longrightarrow> Q r (Ev (C_begin_delete i g) None # tr)) \<Longrightarrow> (\<And>e. F e) \<Longrightarrow> steps H x K (cat_BeginDelete H i g) Q F"
    and "allowed H x K (C_finalize i g) \<Longrightarrow> (\<And>tr. K tr \<Longrightarrow> Q' () (Ev (C_finalize i g) None # tr)) \<Longrightarrow> (\<And>e. F e) \<Longrightarrow> steps H x K (cat_FinalizeDelete H i g) Q' F"
    and "allowed H x K (C_forget i g) \<Longrightarrow> (\<And>tr. K tr \<Longrightarrow> Q' () (Ev (C_forget i g) None # tr)) \<Longrightarrow> (\<And>e. F e) \<Longrightarrow> steps H x K (cat_Forget H i g) Q' F"
  unfolding cat_write_defs
  by (erule steps_write, rule writers, fastforce dest: transition_ID mark_ID, blast)+

lemma steps_Resolve:
  assumes "allowed H x K (C_resolve ref)"
    and "\<And>r tr. valid_id (sb_ID r) \<Longrightarrow> (valid_id ref \<Longrightarrow> sb_ID r = ref) \<Longrightarrow> K tr \<Longrightarrow> Q r (Ev (C_resolve ref) None # tr)" and "\<And>e. F e"
  shows "steps H x K (cat_Resolve H ref) Q F"
  unfolding cat_Resolve_def by (rule steps_read [OF assms(1) _ assms(3)]) (auto intro: assms(2) dest: good_resolve)

text \<open>Sequencing a call before a continuation: the assertion is kept, or it becomes \<open>K'\<close>.\<close>

lemma try_keep:
  assumes "keeping H x K c" and "\<And>e. steps H x (\<lambda>_. True) (h e) Q F" and "\<And>v. steps H x K (k v) Q F"
  shows "steps H x K (tryM (ask H c f) h k) Q F"
  by (rule steps_try [where Q = "\<lambda>_. K" and F = "\<lambda>_. True"])
    (use assms in \<open>auto simp: keeping_def intro: steps_ask\<close>)

lemma try_keep_call:
  assumes "keeping H x K c" and "\<And>e. steps H x (\<lambda>_. True) (h e) Q F" and "steps H x K (k ()) Q F"
  shows "steps H x K (tryM (call H c) h k) Q F"
  unfolding call_def by (rule try_keep) (use assms in auto)

lemma try_status:
  assumes "\<And>m. keeping H x K (C_status m)" and "\<And>e. steps H x (\<lambda>_. True) (h e) Q F" and "steps H x K (k ()) Q F"
  shows "steps H x K (tryM (status H m) h k) Q F"
  unfolding status_def by (rule try_keep_call) (use assms in auto)

lemma try_report:
  assumes "\<And>e. steps H x (\<lambda>_. True) (h e) Q F" and "steps H x (\<lambda>_. True) (k ()) Q F"
  shows "steps H x (\<lambda>_. True) (tryM (report H r) h k) Q F"
  unfolding report_def by (rule try_keep_call) (use assms in \<open>auto simp: keeping_def allowed_def unlocking_def plain_call_def\<close>)

lemma try_call:
  assumes "allowed H x K c" and "\<And>tr. K tr \<Longrightarrow> K' (Ev c None # tr)" and "\<And>e. steps H x (\<lambda>_. True) (h e) Q F" and "\<And>v. steps H x K' (k v) Q F"
  shows "steps H x K (tryM (call H c) h k) Q F"
  by (rule steps_try [where Q = "\<lambda>_. K'" and F = "\<lambda>_. True"]; use assms in \<open>auto intro: steps_call\<close>)

lemma bind_run:
  assumes "runs (keep H x K) m" and "\<And>e. F e" and "\<And>v. steps H x K (k v) Q F"
  shows "steps H x K (bindM m k) Q F"
  by (rule steps_bind [OF steps_run [OF assms(1)]]) (use assms in auto)

lemma try_run:
  assumes "runs (keep H x K) m" and "\<And>e. steps H x (\<lambda>_. True) (h e) Q F" and "\<And>v. steps H x K (k v) Q F"
  shows "steps H x K (tryM m h k) Q F"
  by (rule steps_try [OF steps_run [OF assms(1)]]) (use assms in auto)

lemma try_liftE:
  assumes "\<And>e. steps H x (\<lambda>_. True) (h e) Q F" and "\<And>v. r = Inr v \<Longrightarrow> steps H x K (k v) Q F"
  shows "steps H x K (tryM (liftE r) h k) Q F"
proof (cases r)
  case (Inl e)
  have "steps H x K (h (readdress n e)) Q F" for n by (rule steps_conseq [OF assms(1)]) simp_all
  then show ?thesis using Inl by (simp add: steps_def)
next
  case (Inr v)
  then show ?thesis using assms(2) by (simp add: steps_def)
qed

lemma bind_liftE: "(\<And>e. F e) \<Longrightarrow> (\<And>v. r = Inr v \<Longrightarrow> steps H x K (k v) Q F) \<Longrightarrow> steps H x K (bindM (liftE r) k) Q F"
  unfolding bindM_def by (rule try_liftE) (auto intro: steps_fail)

lemma bind_ask:
  assumes "allowed H x K c" and "\<And>tr. K tr \<Longrightarrow> K' (f tr) (Ev c None # tr)" and "\<And>e. F e" and "\<And>v. steps H x (K' v) (k v) Q F"
  shows "steps H x K (bindM (ask H c f) k) Q F"
  by (rule steps_bind [where Q = K']) (use assms in \<open>auto intro: steps_ask\<close>)

lemma bind_call:
  assumes "allowed H x K c" and "\<And>tr. K tr \<Longrightarrow> K' (Ev c None # tr)" and "\<And>e. F e" and "steps H x K' (k ()) Q F"
  shows "steps H x K (bindM (call H c) k) Q F"
  by (rule steps_bind [where Q = "\<lambda>_. K'"]) (use assms in \<open>auto intro: steps_call\<close>)

text \<open>Which calls keep which assertion.\<close>

lemma plain_simps [simp]: "plain_call (Sys a)" "plain_call (Vm b)" "plain_call (Net f)" "plain_call (Dsk g)"
  "plain_call (Cat k) = (\<forall>i nm. k = K_reserve i nm \<longrightarrow> \<not> valid_id nm)"
  by (simp_all add: plain_call_def)

lemma unlocking_simps [simp]: "\<not> unlocking (Cat k)" "\<not> unlocking (Vm b)" "\<not> unlocking (Net f)" "\<not> unlocking (Dsk g)"
  "unlocking (Sys a) = (\<exists>i. a = S_lock i \<or> a = S_trylock i \<or> a = S_unlock i)"
  by (simp_all add: unlocking_def)

lemma commit_simps [simp]:
  "commit_rule H tr (C_running i g) = evidence H i g tr" "commit_rule H tr (C_stopped i g st) = cleaned H i tr"
  "commit_rule H tr (C_created i g) = prepared H i tr" "commit_rule H tr (C_forget i g) = discarded H i tr"
  "commit_rule H tr (C_finalize i g) = wiped H i tr" "commit_rule H tr (Net f)" "commit_rule H tr (Dsk op)"
  "commit_rule H tr (C_launch v p) = (LaunchPlan_Validate p = None \<and> begun H (lp_SandboxID p) tr)"
  by (simp_all add: commit_rule_def)

lemma commit_other [simp]:
  "commit_rule H tr (C_resolve ref)" "commit_rule H tr C_list" "commit_rule H tr (C_reserve i nm)" "commit_rule H tr (C_mark_error i g)"
  "commit_rule H tr (C_begin_start i g)" "commit_rule H tr (C_start_error i g)" "commit_rule H tr (C_begin_stop i g)" "commit_rule H tr (C_begin_delete i g)"
  "commit_rule H tr (C_preflight v)" "commit_rule H tr (C_observe v i g)" "commit_rule H tr (C_locate v i g)" "commit_rule H tr (C_wait_ready v q)"
  "commit_rule H tr (C_abort v q)" "commit_rule H tr (C_vmm_stop v q opts)" "commit_rule H tr (C_cleanup v i)" "commit_rule H tr (C_remove_logs v i)"
  by (simp_all add: commit_rule_def)

lemmas session_defs = evidence_def cleaned_def begun_def prepared_def discarded_def wiped_def
lemmas keeping_defs = keeping_def allowed_def session_defs acquires_iff

end
