(* ===== verification/Service_Discipline.thy ===== *)
theory Service_Discipline
  imports Service_Protocol
begin

text \<open>
  Every operation of the sandbox service follows the protocol of \<open>Service_Protocol\<close>.
\<close>

section \<open>Start\<close>

lemma steps_failStart: "sb_ID r = i \<Longrightarrow> steps H (Some i) (\<lambda>_. True) (bindM (failStart d H b r phase cause proc) (\<lambda>e. failM (g e))) Q (\<lambda>_. True)"
  by (rule bind_run [OF trace_run.run_failStart]) (auto simp: keeping_defs intro: steps_fail)

lemma steps_abandon_start: "sb_ID r = i \<Longrightarrow> steps H (Some i) (\<lambda>_. True) (abandon_start d H b r phase proc cause) Q (\<lambda>_. True)"
  unfolding abandon_start_def by (rule steps_failStart)

lemma steps_failBeforeLaunch: "sb_ID r = i \<Longrightarrow> steps H (Some i) (\<lambda>_. True) (failBeforeLaunch d H b ref r cm phase cause) Q (\<lambda>_. True)"
  unfolding failBeforeLaunch_def by (auto intro!: steps_failStart steps_failW)

lemma quiesce_run:
  assumes "\<And>m. keeping H (Some i) K (C_status m)" and "\<And>v. keeping H (Some i) K (C_net_quiesce v i)" and "sb_ID r = i"
  shows "runs (keep H (Some i) K) (quiesceNetwork d H r)"
  by (rule trace_run.run_quiesceNetwork) (use assms in auto)

lemma keeping_cleaned: "keeping H (Some i) (cleaned H i) (C_status m)" "keeping H (Some i) (cleaned H i) (C_net_quiesce v i)"
  by (simp_all add: keeping_defs)

text \<open>A transition before a continuation that needs only the identity of the returned record.\<close>

lemma try_transition:
  assumes "steps H x K m (\<lambda>r _. sb_ID r = i) (\<lambda>_. True)" and "\<And>e. steps H x (\<lambda>_. True) (h e) Q F"
    and "\<And>r. sb_ID r = i \<Longrightarrow> steps H x (\<lambda>_. True) (k r) Q F"
  shows "steps H x K (tryM m h k) Q F"
proof (rule steps_try [OF assms(1)])
  show "steps H x (\<lambda>_. True) (h e) Q F" for e by (rule assms(2))
  show "steps H x (\<lambda>_. sb_ID r = i) (k r) Q F" for r by (rule steps_pure_only) (rule assms(3))
qed

lemma bind_transition:
  assumes "steps H x K m (\<lambda>r _. sb_ID r = i) (\<lambda>_. True)" and "\<And>r. sb_ID r = i \<Longrightarrow> steps H x (\<lambda>_. True) (k r) Q (\<lambda>_. True)"
  shows "steps H x K (bindM m k) Q (\<lambda>_. True)"
  unfolding bindM_def by (rule try_transition [OF assms(1) _ assms(2)]) (rule steps_fail, simp)

lemma transition_steps:
  shows "steps H (Some i) (cleaned H i) (cat_MarkStopped H i g st) (\<lambda>r _. sb_ID r = i) (\<lambda>_. True)"
    and "steps H (Some i) (evidence H i g) (cat_MarkRunning H i g) (\<lambda>r _. sb_ID r = i) (\<lambda>_. True)"
    and "steps H (Some i) (prepared H i) (cat_MarkCreated H i g nsetup) (\<lambda>r _. sb_ID r = i) (\<lambda>_. True)"
    and "steps H (Some i) (\<lambda>_. True) (cat_BeginStop H i g) (\<lambda>r _. sb_ID r = i) (\<lambda>_. True)"
    and "steps H (Some i) (\<lambda>_. True) (cat_BeginDelete H i g) (\<lambda>r _. sb_ID r = i) (\<lambda>_. True)"
  by (rule steps_cat; simp add: allowed_def)+

text \<open>Cleaning up, quiescing and committing Stopped, as \<open>recoverStart\<close>, \<open>Stop\<close> and reconciliation do.\<close>

lemma allowed_cleanup: "allowed H (Some i) K (C_cleanup v i)"
  by (simp add: allowed_def)

lemma cleaned_cleanup: "cleaned H i (Ev (C_cleanup v i) None # tr)"
  by (simp add: cleaned_def)

lemma steps_recoverRunning:
  assumes "sb_ID r = i"
  shows "steps H (Some i) (\<lambda>_. True) (recoverRunning d H b r ob) (\<lambda>out _. \<forall>r' done. out = Some (r', done) \<longrightarrow> sb_ID r' = i) (\<lambda>_. True)"
  unfolding recoverRunning_def
proof (intro steps_if)
  show "steps H (Some i) (\<lambda>_. True) (bindM (call H (C_wait_ready (be_Type b) (obs_Process ob))) (\<lambda>_. retM (Some (r, True))))
     (\<lambda>out _. \<forall>r' done. out = Some (r', done) \<longrightarrow> sb_ID r' = i) (\<lambda>_. True)"
    by (rule bind_call [where K' = "\<lambda>_. True"]) (auto simp: assms allowed_def intro: steps_ret)
  show "steps H (Some i) (\<lambda>_. True) (bindM (call H (C_cleanup (be_Type b) (sb_ID r))) (\<lambda>_.
        bindM (quiesceNetwork d H r) (\<lambda>_.
        bindM (cat_MarkStopped H (sb_ID r) (sb_Generation r) SandboxStateRunning) (\<lambda>stopped. retM (Some (stopped, False))))))
     (\<lambda>out _. \<forall>r' done. out = Some (r', done) \<longrightarrow> sb_ID r' = i) (\<lambda>_. True)"
    unfolding assms
    by (rule bind_call [where K' = "cleaned H i"], rule allowed_cleanup, rule cleaned_cleanup, rule TrueI,
        rule bind_run [OF quiesce_run], rule keeping_cleaned, rule keeping_cleaned, rule assms, rule TrueI,
        rule bind_transition, rule transition_steps, rule steps_ret, simp)
qed (auto simp: assms intro: steps_ret)

text \<open>The VMM was observed under this lock, with this outcome.\<close>

definition saw :: "host \<Rightarrow> SandboxID \<Rightarrow> 64 word \<Rightarrow> Observation \<Rightarrow> event list \<Rightarrow> bool" where
  "saw H i g ob = since (\<lambda>tr ev. acquires H i tr ev \<or> cleanup_of i ev) (observes H i g (\<lambda>ob'. ob' = ob))"

lemma since_mono: "since stop hit tr \<Longrightarrow> (\<And>tr ev. hit tr ev \<Longrightarrow> hit' tr ev) \<Longrightarrow> (\<And>tr ev. stop' tr ev \<Longrightarrow> stop tr ev) \<Longrightarrow> since stop' hit' tr"
  by (induction tr) auto

lemma observes_iff: "observes H i g P tr ev \<longleftrightarrow> (\<exists>v. ev = Ev (C_observe v i g) None \<and> P (h_observation H tr))"
  by (cases "(H, i, g, P, tr, ev)" rule: observes.cases) auto

lemma saw_running: "saw H i g ob tr \<Longrightarrow> obs_State ob = ProcessRunning \<Longrightarrow> evidence H i g tr"
  unfolding saw_def evidence_def by (erule since_mono) (auto simp: observes_iff)

lemma saw_ready: "saw H i g ob tr \<Longrightarrow> evidence H i g (Ev (C_wait_ready v (obs_Process ob)) None # tr)"
  unfolding saw_def evidence_def since.simps shows_running.simps
  by (rule disjI1) (erule since_mono; auto simp: observes_iff)

lemma steps_observe:
  assumes "\<And>ob. steps H (Some i) (saw H i g ob) (k ob) Q (\<lambda>_. True)"
  shows "steps H (Some i) (\<lambda>_. True) (bindM (ask H (C_observe v i g) (h_observation H)) k) Q (\<lambda>_. True)"
  by (rule bind_ask [where K' = "saw H i g"]) (use assms in \<open>auto simp: allowed_def saw_def\<close>)

lemma weaken: "steps H x (\<lambda>_. True) m Q F \<Longrightarrow> steps H x K m Q F"
  by (erule steps_conseq) simp_all

lemma steps_recoverStarting:
  assumes "sb_ID r = i"
  shows "steps H (Some i) (saw H i (sb_Generation r) ob) (recoverStarting d H b r ob)
    (\<lambda>out _. \<forall>r' done. out = Some (r', done) \<longrightarrow> sb_ID r' = i) (\<lambda>_. True)" (is "steps H ?x ?K _ ?Q _")
  unfolding recoverStarting_def assms
proof (intro steps_if)
  show "steps H ?x ?K (bindM (cat_MarkRunning H i (sb_Generation r)) (\<lambda>running. retM (Some (running, True)))) ?Q (\<lambda>_. True)"
    if "obs_State ob = ProcessRunning"
  proof (rule steps_conseq)
    show "steps H ?x (evidence H i (sb_Generation r)) (bindM (cat_MarkRunning H i (sb_Generation r)) (\<lambda>running. retM (Some (running, True)))) ?Q (\<lambda>_. True)"
      by (rule bind_transition [OF transition_steps(2)], rule steps_ret, simp)
  qed (use that saw_running in auto)
  show "steps H ?x ?K (tryM (call H (C_wait_ready (be_Type b) (obs_Process ob)))
     (\<lambda>err. bindM (failStart d H b r ''recover VMM'' err (obs_Process ob)) failM)
     (\<lambda>_. tryM (cat_MarkRunning H i (sb_Generation r))
        (\<lambda>err. bindM (failStart d H b r ''commit recovered VMM'' err (obs_Process ob)) failM)
        (\<lambda>running. retM (Some (running, True))))) ?Q (\<lambda>_. True)"
    by (rule try_call [where K' = "evidence H i (sb_Generation r)"], simp add: allowed_def, erule saw_ready,
        rule steps_failStart [OF assms, where g = "\<lambda>e. e"], rule try_transition [OF transition_steps(2)],
        rule steps_failStart [OF assms, where g = "\<lambda>e. e"], rule steps_ret, simp)
  show "steps H ?x ?K (bindM (call H (C_cleanup (be_Type b) i)) (\<lambda>_. retM (Some (r, False)))) ?Q (\<lambda>_. True)"
    by (rule bind_call [where K' = "\<lambda>_. True"]) (auto simp: allowed_def assms intro: steps_ret)
qed (auto intro: steps_ret)

lemma steps_recoverStart:
  assumes "sb_ID r = i"
  shows "steps H (Some i) (\<lambda>_. True) (recoverStart d H b r) (\<lambda>out _. sb_ID (fst out) = i) (\<lambda>_. True)"
proof -
  have idle: "steps H (Some i) (\<lambda>_. True) (recoverIdle H b r ob) (\<lambda>out _. \<forall>r' done. out = Some (r', done) \<longrightarrow> sb_ID r' = i) (\<lambda>_. True)" for ob
    unfolding recoverIdle_def assms
    by (intro steps_if steps_failN bind_call [where K' = "\<lambda>_. True"] steps_ret) (auto simp: allowed_def assms)
  show ?thesis
    unfolding recoverStart_def Let_def assms status_def
    apply (intro steps_if steps_failN TrueI)
    apply (rule bind_call [where K' = "\<lambda>_. True"], simp add: allowed_def, simp, simp)
    apply (rule steps_observe)
    subgoal for ob
      apply (rule steps_bind [where Q = "\<lambda>out _. \<forall>r' done. out = Some (r', done) \<longrightarrow> sb_ID r' = i"])
       apply (intro steps_if weaken [OF steps_recoverRunning [OF assms]] weaken [OF idle])
       apply (insert steps_recoverStarting [OF assms, of H ob d b], simp)
      apply (rule steps_option; (rule steps_failN | rule steps_ret); auto)
      done
    done
qed

section \<open>The image guard\<close>

lemma keeping_sys [simp]: "\<not> unlocking (Sys a) \<Longrightarrow> keeping H x (\<lambda>_. True) (Sys a)"
  by (simp add: keeping_def allowed_def)

lemma steps_use:
  assumes "\<And>im. wf_digest (img_ManifestDigest im) \<Longrightarrow> steps H x (\<lambda>_. True) (use im) (\<lambda>v _. P v) (\<lambda>_. True)"
  shows "steps H x (\<lambda>_. True) (image_under_locks H p ref dig use) (\<lambda>v _. P v) (\<lambda>_. True)"
  unfolding image_under_locks_def
proof (rule steps_bind)
  show "steps H x (\<lambda>_. True) (catalog_read H (h_ctx H) (C_image_resolve ref) (\<lambda>ctx st. image_Resolve ctx st ref))
     (\<lambda>im _. wf_digest (img_ManifestDigest im)) (\<lambda>_. True)"
    by (rule steps_read) (auto simp: allowed_def dest: image_Resolve_wf)
  show "steps H x (\<lambda>_. wf_digest (img_ManifestDigest im)) (if img_ManifestDigest im \<noteq> dig
      then failN id ClassConflict CodeStateConflict ''image binding changed while waiting for layer locks; retry''
      else bindM (availableImage H p im) (\<lambda>_. use im)) (\<lambda>v _. P v) (\<lambda>_. True)" for im
    by (rule steps_pure_only, intro steps_if steps_failN TrueI bind_run [OF trace_run.run_availableImage] assms) simp_all
qed

lemma steps_WithAvailable:
  assumes "\<And>im. wf_digest (img_ManifestDigest im) \<Longrightarrow> steps H x (\<lambda>_. True) (use im) (\<lambda>v _. P v) (\<lambda>_. True)"
  shows "steps H x (\<lambda>_. True) (WithAvailable H p ref use) (\<lambda>v _. P v) (\<lambda>(e, out). \<forall>v. out = Some v \<longrightarrow> P v)"
proof -
  have unlock: "steps H x (\<lambda>_. True) (bindM (attempt (call H (C_runlock paths))) k) Q F"
    if "\<And>u. steps H x (\<lambda>_. True) (k u) Q F" for paths k Q F
    by (rule steps_bind [where Q = "\<lambda>_ _. True"], rule steps_attempt [where F = "\<lambda>_. True"])
      (auto intro!: steps_call that simp: allowed_def)
  show ?thesis
    unfolding WithAvailable_def Let_def
  proof (rule steps_try [where F = "\<lambda>_. True"])
    show "steps H x (\<lambda>_. True) (catalog_read H (h_ctx H) (C_image_resolve ref) (\<lambda>ctx st. image_Resolve ctx st ref)) (\<lambda>_ _. True) (\<lambda>_. True)"
      by (rule steps_read) (auto simp: allowed_def)
    show "steps H x (\<lambda>_. True) (tryM (call H (C_rlock (paths im))) (\<lambda>e. failM (Wrap ''lock image layers: '' e, None)) (\<lambda>_.
       tryM (image_under_locks H p ref (img_ManifestDigest im) use)
         (\<lambda>e. bindM (attempt (call H (C_runlock (paths im)))) (\<lambda>u. failM (the (errors_Join [Some e, u]), None)))
         (\<lambda>v. bindM (attempt (call H (C_runlock (paths im)))) (\<lambda>u. case errors_Join [None, u] of
            None \<Rightarrow> retM v | Some e \<Rightarrow> failM (e, Some v))))) (\<lambda>v _. P v) (\<lambda>(e, out). \<forall>v. out = Some v \<longrightarrow> P v)" for im and paths :: "Image \<Rightarrow> string list"
      apply (rule try_keep_call, simp, simp add: steps_fail)
      apply (rule steps_try [OF steps_use [OF assms]], assumption)
       apply (rule unlock, simp add: steps_fail)
      apply (rule steps_pure_only, rule unlock)
      apply (auto intro!: steps_ret steps_fail split: option.split)
      done
  qed (auto intro: steps_fail)
qed

section \<open>Launch\<close>

lemma keeping_begun:
  "keeping H (Some i) (begun H i) (C_status m)" "keeping H (Some i) (begun H i) (C_net_recover v i nm ifs)"
  by (simp_all add: keeping_defs)

lemma keeping_evidence: "keeping H (Some i) (evidence H i g) (C_status m)"
  by (simp add: keeping_defs)

lemma steps_start_launch:
  assumes "sb_ID st = i" and "lp_SandboxID plan = i"
  shows "steps H (Some i) (begun H i) (start_launch d H b ref plan st) (\<lambda>_ _. True) (\<lambda>_. True)"
  unfolding start_launch_def Let_def
  apply (rule try_liftE [OF steps_abandon_start [OF assms(1)]])
  apply (rule try_run [OF trace_run.run_recoverNetwork])
     apply (simp_all only: assms(1) keeping_begun steps_abandon_start [OF assms(1)])
  apply (rule try_status [OF keeping_begun(1) steps_abandon_start [OF assms(1)]])
  apply (rule steps_query_bind)
  apply (rule try_call [where K' = "evidence H i (sb_Generation st)"])
     apply (use assms(2) in \<open>simp add: allowed_def split: option.splits\<close>)
    apply (use assms(2) in \<open>simp add: evidence_def\<close>)
   apply (rule steps_abandon_start [OF assms(1)])
  apply (rule try_status [OF keeping_evidence steps_abandon_start [OF assms(1)]])
  apply (rule try_transition [OF transition_steps(2) steps_abandon_start [OF assms(1)]])
  apply (rule try_report; (rule steps_failW steps_ret)?; simp)
  done

lemma launchPlan_ID: "launchPlan env fs r im = Inr plan \<Longrightarrow> lp_SandboxID plan = sb_ID r"
  by (auto simp: launchPlan_def bindE_Inr_iff Let_def split: if_splits option.splits sum.splits)

lemma steps_image_launch_plan:
  assumes "sb_ID r = i"
  shows "steps H (Some i) (\<lambda>_. True) (image_launch_plan d H r im) (\<lambda>plan _. lp_SandboxID plan = i) (\<lambda>_. True)"
  unfolding image_launch_plan_def assms
  apply (rule steps_query_bind, rule bind_liftE, simp)
  apply (rule bind_call [where K' = "\<lambda>_. True"], simp add: allowed_def, simp, simp)
  apply (intro steps_if)
    apply (simp add: steps_fail)
   apply (rule bind_call [where K' = "\<lambda>_. True"], simp add: allowed_def, simp, simp)
   apply (rule steps_ret, drule launchPlan_ID, simp add: assms)
  apply (rule steps_ret, drule launchPlan_ID, simp add: assms)
  done

lemma keeping_start:
  "keeping H (Some i) (\<lambda>_. True) (C_recover_disks p ps)" "keeping H (Some i) (\<lambda>_. True) (C_preflight v)" "keeping H (Some i) (\<lambda>_. True) (C_status m)"
  by (simp_all add: keeping_def allowed_def)

lemma steps_BeginStart:
  assumes "\<And>r. sb_ID r = i \<Longrightarrow> steps H (Some i) (begun H i) (k r) Q (\<lambda>_. True)" and "\<And>e. steps H (Some i) (\<lambda>_. True) (h e) Q (\<lambda>_. True)"
  shows "steps H (Some i) (\<lambda>_. True) (tryM (cat_BeginStart H i g) h k) Q (\<lambda>_. True)"
proof (rule steps_try)
  show "steps H (Some i) (\<lambda>_. True) (cat_BeginStart H i g) (\<lambda>r tr. sb_ID r = i \<and> begun H i tr) (\<lambda>_. True)"
    by (rule steps_cat) (simp_all add: allowed_def begun_def)
  show "steps H (Some i) (\<lambda>tr. sb_ID r = i \<and> begun H i tr) (k r) Q (\<lambda>_. True)" for r
    by (rule steps_pure) (rule assms(1))
qed (rule assms(2))

lemma steps_start_fresh:
  assumes "sb_ID r = i"
  shows "steps H (Some i) (\<lambda>_. True) (start_fresh d H b ref r cm) (\<lambda>_ _. True) (\<lambda>_. True)"
proof -
  note fail = steps_failBeforeLaunch [OF assms]
  show ?thesis
    unfolding start_fresh_def
    apply (rule steps_query_bind, rule try_liftE [OF fail], rule try_liftE [OF fail])
    apply (rule try_keep_call [OF keeping_start(1) fail], rule try_status [OF keeping_start(3) fail])
    apply (rule try_keep_call [OF keeping_start(2) fail])
    apply (rule steps_try [where Q = "\<lambda>_ _. True" and F = "\<lambda>_. True"], simp add: steps_failN steps_ret, rule fail)
    apply (rule try_status [OF keeping_start(3) fail])
    apply (rule steps_try [OF steps_WithAvailable [OF steps_image_launch_plan [OF assms]]], rule steps_prod, rule fail)
    apply (rule steps_pure_only, rule try_status [OF keeping_start(3) fail])
    apply (unfold assms, rule steps_BeginStart [OF steps_start_launch], assumption, assumption)
    apply (simp add: steps_failW)
    done
qed

lemma steps_start_locked:
  assumes "sb_ID r = i"
  shows "steps H (Some i) (\<lambda>_. True) (start_locked d H ref r) (\<lambda>_ _. True) (\<lambda>_. True)"
  unfolding start_locked_def Let_def
  apply (rule try_liftE, simp add: steps_fail)
  apply (rule steps_try [OF steps_recoverStart [OF assms]], simp add: steps_failW)
  apply (rule steps_prod, rule steps_pure_only, rule steps_if)
   apply (rule try_report; (rule steps_failW steps_ret)?; simp)
  apply (rule steps_start_fresh, simp)
  done

section \<open>Stop\<close>

lemma steps_stop_finish:
  assumes "sb_ID r = i"
  shows "steps H (Some i) (\<lambda>_. True) (stop_finish d H b ref r cm) (\<lambda>_ _. True) (\<lambda>_. True)"
  unfolding stop_finish_def assms
  apply (rule try_status [OF keeping_start(3)], simp add: steps_failW)
  apply (rule try_call [where K' = "cleaned H i", OF allowed_cleanup cleaned_cleanup], simp add: steps_failW)
  apply (rule try_run [OF quiesce_run [OF keeping_cleaned assms]], simp add: steps_failW)
  apply (rule steps_if)
   apply (rule weaken, rule try_report; (rule steps_failW steps_ret)?; simp)
  apply (rule try_status [OF keeping_cleaned(1)], simp add: steps_failW)
  apply (rule try_transition [OF transition_steps(1)], simp add: steps_failW)
  apply (rule try_report; (rule steps_failW steps_ret)?; simp)
  done

lemma keeping_stop: "keeping H (Some i) (\<lambda>_. True) (C_vmm_stop v q opts)" "keeping H (Some i) (\<lambda>_. True) (C_locate v j g)"
    "keeping H (Some i) (\<lambda>_. True) (C_net_quiesce v' i)" "keeping H (Some i) (\<lambda>_. True) (C_cleanup v i)"
  by (simp_all add: keeping_def allowed_def)

lemma steps_stop_process:
  assumes "sb_ID r = i"
  shows "steps H (Some i) (\<lambda>_. True) (stop_process d H b ref opts q ex (r, cm)) (\<lambda>_ _. True) (\<lambda>_. True)"
  unfolding stop_process_def prod.case
  apply (rule steps_if)
   apply (rule try_status [OF keeping_start(3)], simp add: steps_failW)
   apply (rule try_keep_call [OF keeping_stop(1)], simp add: steps_failW)
   apply (rule steps_stop_finish [OF assms])+
  done

lemma steps_stop_locked:
  assumes "sb_ID r = i"
  shows "steps H (Some i) (\<lambda>_. True) (stop_locked d H ref opts r) (\<lambda>_ _. True) (\<lambda>_. True)"
proof -
  have idle: "steps H (Some i) (\<lambda>_. True) (stop_idle d H b ref r) (\<lambda>_ _. True) (\<lambda>_. True)" for b
    unfolding stop_idle_def assms
    apply (rule try_status [OF keeping_start(3)], simp add: steps_fail)
    apply (rule try_keep_call [OF keeping_stop(4)], simp add: steps_failW)
    apply (rule try_run [OF quiesce_run [OF keeping_start(3) keeping_stop(3) assms]], simp add: steps_failW)
    apply (rule try_report; (rule steps_failW steps_ret)?; simp)
    done
  have active: "steps H (Some i) (\<lambda>_. True) (stop_active d H b ref opts r) (\<lambda>_ _. True) (\<lambda>_. True)" for b
    unfolding stop_active_def
    apply (rule try_liftE, simp add: steps_fail)
    apply (rule try_status [OF keeping_start(3)], simp add: steps_fail)
    apply (rule steps_query_bind, rule try_keep [OF keeping_stop(2)], simp add: steps_failW)
    apply (rule steps_if)
     apply (rule try_status [OF keeping_start(3)], simp add: steps_fail)
     apply (unfold assms, rule try_transition [OF transition_steps(4)], simp add: steps_failW)
     apply (erule steps_stop_process)
    apply (rule steps_stop_process [OF assms])
    done
  show ?thesis
    unfolding stop_locked_def
    by (rule try_liftE, simp add: steps_fail, intro steps_if idle active steps_failN TrueI)
qed

section \<open>Remove\<close>

definition unlinked :: "host \<Rightarrow> SandboxID \<Rightarrow> event list \<Rightarrow> bool" where
  "unlinked H i = since (\<lambda>tr ev. acquires H i tr ev \<or> marked_deleting i ev \<or> disk_made i ev) (\<lambda>_ ev. ev = Ev (C_disk_remove i) None)"

lemma keeping_unlinked: "keeping H (Some i) (unlinked H i) (C_status m)" "keeping H (Some i) (unlinked H i) (C_net_delete v i)"
  by (simp_all add: keeping_def allowed_def unlinked_def)

lemma keeping_wiped: "keeping H (Some i) (wiped H i) (C_status m)"
  by (simp add: keeping_defs)

lemma steps_remove_resources:
  assumes "sb_ID r = i"
  shows "steps H (Some i) (\<lambda>_. True) (remove_resources H b ref provider r) (\<lambda>_ _. True) (\<lambda>_. True)"
proof -
  have fail: "steps H (Some i) (\<lambda>_. True) (retain_removal ref r phase e) (\<lambda>_ _. True) (\<lambda>_. True)" for phase e
    by (simp add: retain_removal_def steps_failW)
  show ?thesis
    unfolding remove_resources_def assms
    apply (rule try_status [OF keeping_start(3) fail])
    apply (rule try_call [where K' = "unlinked H i"], simp add: allowed_def, simp add: unlinked_def, rule fail)
    apply (rule try_run, rule runs_option, rule trace_run.run_ret, rule trace_run.run_status, rule keeping_unlinked, rule fail)
    apply (rule try_run, rule runs_option, rule trace_run.run_ret, rule trace_run.run_call, rule keeping_unlinked, rule fail)
    apply (rule try_status [OF keeping_unlinked(1) fail])
    apply (rule try_call [where K' = "wiped H i"], simp add: allowed_def, simp add: unlinked_def wiped_def, rule fail)
    apply (rule try_status [OF keeping_wiped fail])
    apply (rule steps_try [where Q = "\<lambda>_ _. True" and F = "\<lambda>_. True"], rule steps_cat, simp add: allowed_def, simp, simp, rule fail)
    apply (rule try_report; (rule steps_failW steps_ret)?; simp)
    done
qed

lemma steps_remove_locked:
  assumes "sb_ID r = i"
  shows "steps H (Some i) (\<lambda>_. True) (remove_locked d H ref r) (\<lambda>_ _. True) (\<lambda>_. True)"
  unfolding remove_locked_def
  apply (rule try_liftE, simp add: steps_fail)+
  apply (rule try_status [OF keeping_start(3)], simp add: steps_fail)
  apply (unfold assms, rule try_transition [OF transition_steps(5)], simp add: steps_fail)
  apply (erule steps_remove_resources)
  done

section \<open>Create\<close>

lemma keeping_create:
  "keeping H (Some i) (\<lambda>_. True) (C_net_prepare v i)" "keeping H (Some i) (\<lambda>_. True) (C_net_add v i nm specs)"
  "keeping H (Some i) (\<lambda>_. True) (C_mark_error i g)"
  by (simp_all add: keeping_def allowed_def)

lemma join_pair_None: "errors_Join [a, b] = None \<longleftrightarrow> a = None \<and> b = None"
  by (cases a; cases b) (simp_all add: errors_Join_def)

lemma steps_retain:
  assumes "sb_ID r = i"
  shows "steps H (Some i) (\<lambda>_. True) (compensate_retain H r phase cause e) (\<lambda>_ _. True) (\<lambda>_. True)"
  unfolding compensate_retain_def Let_def assms
  by (rule bind_run, rule trace_run.run_attempt, rule trace_run.run_cat, rule keeping_create, simp, rule steps_withCtx, simp)

lemma steps_compensate:
  assumes "sb_ID r = i"
  shows "steps H (Some i) (\<lambda>_. True) (compensate d H r phase cause) (\<lambda>_ _. True) (\<lambda>_. True)"
proof -
  let ?K = "\<lambda>derr tr. derr = None \<longrightarrow> discarded H i tr"
  have net: "runs (keep H (Some i) (?K derr)) (attempt (compensate_network d H r))" for derr :: "gerr option"
    unfolding compensate_network_def assms
    by (intro trace_run.run_attempt trace_run.run_bind trace_run.run_liftE runs_option trace_run.run_ret trace_run.run_call)
      (simp add: keeping_def allowed_def discarded_def acquires_iff)
  have forget: "steps H (Some i) (?K derr) (tryM (cat_Forget H i g) h k) (\<lambda>_ _. True) (\<lambda>_. True)"
    if "derr = None" "\<And>e. steps H (Some i) (\<lambda>_. True) (h e) (\<lambda>_ _. True) (\<lambda>_. True)" "steps H (Some i) (\<lambda>_. True) (k ()) (\<lambda>_ _. True) (\<lambda>_. True)"
    for derr :: "gerr option" and g h k
    by (rule steps_try [where Q = "\<lambda>_ _. True" and F = "\<lambda>_. True"], rule steps_cat) (use that in \<open>simp_all add: allowed_def\<close>)
  show ?thesis
    unfolding compensate_def
    apply (rule steps_bind [where Q = ?K], rule steps_attempt [where F = "\<lambda>_. True"])
      apply (rule steps_call, simp_all add: allowed_def assms discarded_def)
    apply (fold discarded_def)
    apply (rule bind_run [OF net], simp)
    apply (rule steps_option)
     apply (unfold assms, rule forget)
       apply (simp add: join_pair_None split: if_splits)
      apply (rule steps_retain [OF assms])
     apply (rule steps_withCtx, simp)
    apply (rule weaken [OF steps_retain [OF assms]])
    done
qed

lemma steps_abandon_create: "sb_ID r = i \<Longrightarrow> steps H (Some i) (\<lambda>_. True) (abandon_create d H r phase cause) Q (\<lambda>_. True)"
  unfolding abandon_create_def by (rule steps_bind [OF steps_compensate]) (simp_all add: steps_fail)

lemma steps_create_offline:
  assumes "sb_ID r = i"
  shows "steps H (Some i) (\<lambda>_. True) (create_offline d H p r) (\<lambda>out _. sb_ID (snd out) = i) (\<lambda>_. True)"
  unfolding create_offline_def
  by (intro steps_option steps_if steps_ret try_keep steps_abandon_create steps_let) (simp_all add: assms keeping_create)

lemma steps_create_network:
  assumes "sb_ID r = i"
  shows "steps H (Some i) (\<lambda>_. True) (create_network d H p r) (\<lambda>out _. sb_ID (snd out) = i) (\<lambda>_. True)"
proof -
  note fail = steps_abandon_create [OF assms]
  show ?thesis
    unfolding create_network_def
    apply (rule try_status [OF keeping_start(3) fail], rule try_keep [OF _ fail], simp add: assms keeping_create)
    apply (rule try_status [OF keeping_start(3) fail], rule try_keep [OF _ fail], simp add: assms keeping_create)
    apply (rule steps_let, rule try_liftE [OF fail], intro steps_if fail steps_ret, simp add: assms)
    done
qed

lemma keeping_prepared: "keeping H (Some i) (prepared H i) (C_status m)" "keeping H (Some i) (prepared H i) (C_data_clone i ds p)"
    "keeping H (Some i) (prepared H i) (C_data_prepare i ds)"
  by (simp_all add: keeping_defs)

lemma steps_create_disks:
  assumes "sb_ID r = i"
  shows "steps H (Some i) (\<lambda>_. True) (create_disks d H origin r) (\<lambda>_. prepared H i) (\<lambda>_. True)"
proof -
  note fail = steps_abandon_create [OF assms]
  have disk: "steps H (Some i) (\<lambda>_. True) (case origin of Some og \<Rightarrow> call H (C_disk_clone i n (origin_cowPath og)) | None \<Rightarrow> call H (C_disk_prepare i n))
      (\<lambda>_. prepared H i) (\<lambda>_. True)" for n
    by (rule steps_option; rule steps_call) (simp_all add: allowed_def prepared_def)
  have data: "runs (keep H (Some i) (prepared H i)) (case origin of
      Some og \<Rightarrow> bindM (call H (C_data_clone i (xs og) (origin_dataDirectory og))) (\<lambda>_. call H (C_data_prepare i (ys og)))
    | None \<Rightarrow> call H (C_data_prepare i zs))" for xs ys zs
    by (intro runs_option trace_run.run_bind trace_run.run_call keeping_prepared)
  show ?thesis
    unfolding create_disks_def Let_def assms
    apply (rule try_status [OF keeping_start(3) fail])
    apply (rule steps_try [OF disk fail])
    apply (intro steps_if try_run [OF data] fail steps_ret, assumption+)
    done
qed

lemma steps_create_reserved:
  assumes "sb_ID r = i"
  shows "steps H (Some i) (\<lambda>_. True) (create_reserved d H origin p r) (\<lambda>_ _. True) (\<lambda>_. True)"
proof -
  have net: "steps H (Some i) (\<lambda>_. True) (if cfg_NICs (sb_Config r) = 0 then create_offline d H p r else create_network d H (the p) r)
      (\<lambda>out _. sb_ID (snd out) = i) (\<lambda>_. True)"
    by (intro steps_if steps_create_offline steps_create_network assms)
  show ?thesis
    unfolding create_reserved_def
    apply (rule steps_bind [OF net], rule steps_prod, rule steps_pure_only)
    apply (rule steps_bind, rule steps_create_disks, simp)
    apply (rule try_status [OF keeping_prepared(1)], rule steps_abandon_create, simp)
    apply (simp, rule try_transition [OF transition_steps(3)], rule steps_abandon_create, simp)
    apply (rule try_report; (rule steps_failW steps_ret)?; simp)
    done
qed

lemma steps_create_locked:
  assumes "\<not> valid_id (cfg_Name (req_Config req))"
  shows "steps H (Some i) (\<lambda>_. True) (create_locked d H req origin p i) (\<lambda>_ _. True) (\<lambda>_. True)"
proof -
  have reserve: "steps H (Some i) (\<lambda>_. True) (let record = \<lparr>sb_ID = i, sb_Config = req_Config req, sb_ImageDigest = img_ManifestDigest im,
       sb_VMM = req_VMM req, sb_Network = NetworkSetup_zero, sb_State = SandboxStateCreating, sb_Generation = 1, sb_Failure = None,
       sb_CreatedAt = t, sb_UpdatedAt = t\<rparr>
     in bindM (cat_Reserve H (req_ImageReference req) (img_ManifestDigest im) record) (\<lambda>_. retM record))
     (\<lambda>v _. sb_ID v = i) (\<lambda>_. True)" if "wf_digest (img_ManifestDigest im)" for im t
    unfolding Let_def
    apply (rule steps_bind [where Q = "\<lambda>_ _. True"])
     apply (unfold cat_Reserve_def, rule steps_write [OF _ writer_Reserve [OF that]])
       apply (simp_all add: allowed_def assms steps_ret)
    done
  show ?thesis
    unfolding create_locked_def
    apply (rule steps_query_bind, rule steps_try [OF steps_WithAvailable [OF reserve]], assumption)
     apply (clarsimp split: option.splits simp: steps_failW steps_abandon_create)
    apply (rule steps_pure_only, erule steps_create_reserved)
    done
qed

section \<open>Taking and releasing the lock\<close>

lemma steps_wp:
  assumes "steps H x K m Q F" and "fine H (under H x K) s" and "\<And>v s'. fine H (under H x (Q v)) s' \<Longrightarrow> Q' v s'"
    and "\<And>e s'. F e \<Longrightarrow> fine H (holding H x) s' \<Longrightarrow> E' e s'"
  shows "wp m Q' E' s"
  by (rule wp_mono [OF assms(1) [unfolded steps_def, rule_format, OF assms(2)]]) (use assms(3,4) in auto)

definition ends :: "host \<Rightarrow> ('e, 'a) svcM \<Rightarrow> bool" where
  "ends H m \<longleftrightarrow> (\<forall>s. fine H (holding H None) s \<longrightarrow> fine H (holding H None) (snd (m s)))"

lemma ends_wp: "ends H m \<longleftrightarrow> (\<forall>s. fine H (holding H None) s \<longrightarrow> wp m (\<lambda>_. fine H (holding H None)) (\<lambda>_. fine H (holding H None)) s)"
  by (simp add: ends_def wp_snd)

lemma ends_steps: "steps H None (\<lambda>_. True) m (\<lambda>_ _. True) (\<lambda>_. True) \<Longrightarrow> ends H m"
  unfolding ends_wp by (intro allI impI, erule steps_wp) (simp_all add: fine_def)

lemma ends_try:
  assumes "ends H m" and "\<And>e. ends H (h e)" and "\<And>v. ends H (k v)"
  shows "ends H (tryM m h k)"
  unfolding ends_wp wp_try
proof (intro allI impI)
  fix s :: svc assume "fine H (holding H None) s"
  then have "wp m (\<lambda>_. fine H (holding H None)) (\<lambda>_. fine H (holding H None)) s" using assms(1) by (simp add: ends_wp)
  then show "wp m (\<lambda>v. wp (k v) (\<lambda>_. fine H (holding H None)) (\<lambda>_. fine H (holding H None)))
      (\<lambda>e. wp (h e) (\<lambda>_. fine H (holding H None)) (\<lambda>_. fine H (holding H None))) s"
    by (rule wp_mono) (use assms(2,3) in \<open>auto simp: ends_wp\<close>)
qed

lemma ends_ret: "ends H (retM v)"
  and ends_fail: "ends H (failM e)"
  by (simp_all add: ends_wp)

lemma ends_failN: "ends H (failN g cl code m)"
  by (simp add: ends_wp)

lemma ends_failW: "ends H (failW g info e)"
  by (simp add: ends_wp)

lemma ends_query: "ends H (query f)"
  by (simp add: ends_wp)

lemma ends_liftE: "ends H (liftE r)"
  by (simp add: ends_wp split: sum.split)

lemma ends_bind: "ends H m \<Longrightarrow> (\<And>v. ends H (k v)) \<Longrightarrow> ends H (bindM m k)"
  unfolding bindM_def by (rule ends_try) (simp_all add: ends_fail)

lemma ends_if: "(b \<Longrightarrow> ends H m) \<Longrightarrow> (\<not> b \<Longrightarrow> ends H m') \<Longrightarrow> ends H (if b then m else m')"
  by simp

lemma ends_option: "(y = None \<Longrightarrow> ends H m) \<Longrightarrow> (\<And>z. y = Some z \<Longrightarrow> ends H (k z)) \<Longrightarrow> ends H (case y of None \<Rightarrow> m | Some z \<Rightarrow> k z)"
  by (cases y) simp_all

lemma ends_prod: "(\<And>a b. y = (a, b) \<Longrightarrow> ends H (k a b)) \<Longrightarrow> ends H (case y of (a, b) \<Rightarrow> k a b)"
  by (cases y) simp

lemma ends_let: "(\<And>z. z = y \<Longrightarrow> ends H (k z)) \<Longrightarrow> ends H (let z = y in k z)"
  by simp

lemma ends_ask: "\<not> unlocking c \<Longrightarrow> subject c = None \<Longrightarrow> plain_call c \<Longrightarrow> (\<And>tr. commit_rule H tr c) \<Longrightarrow> ends H (ask H c f)"
  by (rule ends_steps, rule steps_ask) (simp_all add: allowed_def)

lemma ends_status: "ends H (status H m)"
  unfolding status_def call_def by (rule ends_ask) simp_all

lemma ends_cat: "ends H (cat_Resolve H ref)" "ends H (cat_List H)"
  unfolding cat_Resolve_def cat_List_def by (rule ends_steps, rule steps_read; simp add: allowed_def)+

lemma wp_unlock:
  assumes "fine H (holding H (Some i)) s" and "\<And>s' e. fine H (holding H None) s' \<Longrightarrow> Q () s' \<and> E e s'"
  shows "wp (call H (C_unlock i)) Q E s"
proof -
  have "fine H (holding H None) (push H (C_unlock i) e s)" for e
    using assms(1) by (simp add: fine_def friendly_def holding_unlock)
  then show ?thesis using assms(2) by (simp split: option.split)
qed

lemma deferUnlock_ends:
  assumes "steps H (Some i) (\<lambda>_. True) body (\<lambda>_ _. True) (\<lambda>_. True)" and "fine H (holding H (Some i)) s"
  shows "fine H (holding H None) (snd (deferUnlock H i info body s))"
proof -
  obtain r s1 where b: "body s = (r, s1)" by fastforce
  have "wp body (\<lambda>_. fine H (holding H (Some i))) (\<lambda>_. fine H (holding H (Some i))) s"
    by (rule steps_wp [OF assms(1)]) (use assms(2) in \<open>simp_all add: fine_def\<close>)
  then have "fine H (holding H (Some i)) s1" using b by (simp add: wp_snd)
  then have "wp (tryM (call H (C_unlock i)) (\<lambda>u. failW (\<lambda>e. (end_value r, e)) (info (end_committed r)) (the (errors_Join [end_error r, Some u])))
      (\<lambda>_ s2. (finish r, s2))) (\<lambda>_. fine H (holding H None)) (\<lambda>_. fine H (holding H None)) s1"
    unfolding wp_try by (rule wp_unlock) (simp, simp add: wp_def split: sum.split)
  then show ?thesis by (simp add: wp_snd deferUnlock_def b)
qed

lemma wp_lock:
  assumes "fine H (holding H None) s" and "\<And>r s'. fine H (holding H (Some (sb_ID r))) s' \<Longrightarrow> Q (r, sb_ID r) s'"
    and "\<And>e s'. fine H (holding H None) s' \<Longrightarrow> E e s'"
  shows "wp (lockExistingSandbox d H req) Q E s"
proof -
  let ?second = "\<lambda>i. tryM (cat_Resolve H i) (\<lambda>err. bindM (attempt (call H (C_unlock i))) (\<lambda>u. failM (the (errors_Join [Some err, u]))))
      (\<lambda>current. retM (current, i))"
  have second: "wp (?second i) Q E s" if s: "fine H (holding H (Some i)) s" and i: "valid_id i" for s i
  proof -
    have "steps H (Some i) (\<lambda>_. True) (cat_Resolve H i) (\<lambda>r _. sb_ID r = i) (\<lambda>_. True)"
      by (rule steps_Resolve) (use i in \<open>simp_all add: allowed_def\<close>)
    then show ?thesis
      unfolding wp_try wp_bind wp_ret wp_attempt wp_fail
    proof (rule steps_wp)
      show "Q (r, i) s'" if "fine H (under H (Some i) (\<lambda>_. sb_ID r = i)) s'" for r s'
        using assms(2) [of r s'] that by (simp add: fine_def)
      show "wp (call H (C_unlock i)) (\<lambda>_. E (the (errors_Join [Some e, None]))) (\<lambda>u. E (the (errors_Join [Some e, Some u]))) s'"
        if "fine H (holding H (Some i)) s'" for e s'
        by (rule wp_unlock [OF that]) (simp add: assms(3))
    qed (use s in \<open>simp add: fine_def\<close>)
  qed
  let ?lock = "\<lambda>i. tryM (call H (C_lock i)) (failW id (service_info (lr_operation req) (lr_reference req) ''lock'' (lr_retryHint req) False)) (\<lambda>_. ?second i)"
  have lock: "wp (?lock i) Q E s" if s: "fine H (holding H None) s" and i: "valid_id i" for s i
  proof -
    have "fine H (holding H (if e = None then Some i else None)) (push H (C_lock i) e s)" for e
      using s holding_lock [of H "sv_trace s" e i] by (simp add: fine_def friendly_def)
    from this [of None] this [of "Some e" for e] show ?thesis
      using second [OF _ i] assms(3) by (simp split: option.split)
  qed
  have "steps H None (\<lambda>_. True) (cat_Resolve H (lr_reference req)) (\<lambda>r _. valid_id (sb_ID r)) (\<lambda>_. True)"
    by (rule steps_Resolve) (simp_all add: allowed_def)
  then show ?thesis
    unfolding lockExistingSandbox_def wp_bind [of "cat_Resolve H (lr_reference req)"]
  proof (rule steps_wp)
    fix r s' assume s': "fine H (under H None (\<lambda>_. valid_id (sb_ID r))) s'"
    then have f: "fine H (holding H None) s'" and v: "valid_id (sb_ID r)" by (simp_all add: fine_def)
    have w: "wp (if lr_reportWait req then status H ''waiting for sandbox operation lock'' else retM ())
        (\<lambda>_. fine H (holding H None)) (\<lambda>_. fine H (holding H None)) s'"
      using ends_status [of H "''waiting for sandbox operation lock''", unfolded ends_wp] f by simp
    show "wp (bindM (query (h_fs H)) (\<lambda>fs. bindM (liftE (sandbox_Lock fs (d_paths d) (sb_ID r))) (\<lambda>_.
        bindM (if lr_reportWait req then status H ''waiting for sandbox operation lock'' else retM ()) (\<lambda>_. ?lock (sb_ID r))))) Q E s'"
      unfolding wp_bind wp_query wp_liftE
      using wp_mono [OF w] lock [OF _ v] assms(3) f by (auto split: sum.split)
  qed (use assms in \<open>simp_all add: fine_def\<close>)
qed

section \<open>Operations\<close>

lemmas ends_rules = ends_try ends_bind ends_ret ends_fail ends_failN ends_failW ends_query ends_liftE ends_if ends_option ends_prod ends_let
  ends_status ends_cat

lemma ends_locked:
  assumes "\<And>r. steps H (Some (sb_ID r)) (\<lambda>_. True) (body r) (\<lambda>_ _. True) (\<lambda>_. True)"
  shows "ends H (tryM (lockExistingSandbox d H req) (\<lambda>e. failM (g e)) (\<lambda>(r, owner). deferUnlock H owner info (body r)))"
  unfolding ends_wp wp_try
proof (intro allI impI)
  fix s :: svc assume s: "fine H (holding H None) s"
  show "wp (lockExistingSandbox d H req)
      (\<lambda>v. wp (case v of (r, owner) \<Rightarrow> deferUnlock H owner info (body r)) (\<lambda>_. fine H (holding H None)) (\<lambda>_. fine H (holding H None)))
      (\<lambda>e. wp (failM (g e)) (\<lambda>_. fine H (holding H None)) (\<lambda>_. fine H (holding H None))) s"
    by (rule wp_lock [OF s]) (simp_all add: wp_snd deferUnlock_ends [OF assms])
qed

lemma ends_Start: "ends H (Start sv H ref)"
  unfolding Start_def no_sandbox_def no_reference_def by (intro ends_rules ends_locked steps_start_locked) simp

lemma ends_Stop: "ends H (StopWithOptions sv H ref opts)"
  unfolding StopWithOptions_def no_sandbox_def no_reference_def by (intro ends_rules ends_locked steps_stop_locked) simp

lemma ends_Remove: "ends H (Remove sv H ref)"
  unfolding Remove_def no_sandbox_def no_reference_def by (intro ends_rules ends_locked steps_remove_locked) simp

lemma ends_create_prepared:
  assumes "\<not> valid_id (cfg_Name (req_Config req))"
  shows "ends H (create_prepared d H req origin p)"
proof -
  have lock: "ends H (tryM (call H (C_lock i)) (failW g info) (\<lambda>_. deferUnlock H i info' (create_locked d H req origin p i)))" for i g info info'
    unfolding ends_wp wp_try wp_call
  proof (intro allI impI)
    fix s :: svc assume s: "fine H (holding H None) s"
    have l: "fine H (holding H (if e = None then Some i else None)) (push H (C_lock i) e s)" for e
      using s holding_lock [of H "sv_trace s" e i] by (simp add: fine_def friendly_def)
    show "case h_err H (sv_trace s) (C_lock i) of
        None \<Rightarrow> wp (deferUnlock H i info' (create_locked d H req origin p i)) (\<lambda>_. fine H (holding H None)) (\<lambda>_. fine H (holding H None)) (push H (C_lock i) None s)
      | Some e \<Rightarrow> wp (failW g info e) (\<lambda>_. fine H (holding H None)) (\<lambda>_. fine H (holding H None)) (push H (C_lock i) (Some e) s)"
      unfolding wp_failW using l [of None] l [of "Some e" for e] deferUnlock_ends [OF steps_create_locked [OF assms]]
      by (simp add: wp_snd split: option.split)
  qed
  show ?thesis
    unfolding create_prepared_def
    apply (intro ends_let ends_if ends_failN, rule ends_try [OF ends_status ends_fail])
    apply (rule ends_try [OF ends_ask ends_fail]; (simp; fail)?)
    apply (rule ends_bind [OF ends_query], rule ends_try [OF ends_liftE ends_fail], rule lock)
    done
qed

lemma ends_create: "\<not> valid_id (cfg_Name (req_Config req)) \<Longrightarrow> ends H (create_sandbox sv H req origin)"
  unfolding create_sandbox_def no_sandbox_def by (intro ends_rules ends_create_prepared) (simp_all add: ends_failN)

lemma ends_Run: "\<not> valid_id (cfg_Name (req_Config req)) \<Longrightarrow> ends H (Run sv H req)"
  unfolding Run_def Create_def by (intro ends_rules ends_create ends_Start)

section \<open>Reconciliation and queries\<close>

lemma steps_reconcile_runtime:
  assumes "sb_ID r = i"
  shows "steps H (Some i) (\<lambda>_. True) (reconcile_runtime d H r) (\<lambda>_ _. True) (\<lambda>_. True)"
  unfolding reconcile_runtime_def assms
  apply (rule bind_liftE, simp, rule bind_liftE)
   apply simp
  subgoal for backend g
    apply (rule steps_observe, rule steps_if)
     apply (rule steps_conseq [where K = "evidence H i (sb_Generation r)"])
        apply (rule bind_transition [OF transition_steps(2)], rule steps_ret, simp)
       apply (auto simp: stopProcessGeneration_def dest: saw_running split: if_splits) [3]
    apply (rule weaken, rule steps_if, rule steps_ret, simp)
    apply (rule bind_run, intro trace_run.run_rules, rule keeping_stop, simp)
    apply (rule bind_call [where K' = "cleaned H i", OF allowed_cleanup cleaned_cleanup], simp)
    apply (rule bind_run [OF quiesce_run [OF keeping_cleaned assms]], simp)
    apply (rule bind_transition [OF transition_steps(1)], rule steps_ret, simp)
    done
  done

lemma steps_reconcile_locked:
  assumes "valid_id i"
  shows "steps H (Some i) (\<lambda>_. True) (reconcile_locked d H i) (\<lambda>_ _. True) (\<lambda>_. True)"
  unfolding reconcile_locked_def
proof (rule bind_transition)
  show "steps H (Some i) (\<lambda>_. True) (cat_Resolve H i) (\<lambda>r _. sb_ID r = i) (\<lambda>_. True)"
    by (rule steps_Resolve) (use assms in \<open>simp_all add: allowed_def\<close>)
  fix r :: Sandbox assume r: "sb_ID r = i"
  then have d: "steps H (Some i) (\<lambda>_. True) (bindM (cat_BeginDelete H (sb_ID r) (sb_Generation r)) (\<lambda>_. retM (''removed-stale-create'', True)))
      (\<lambda>_ _. True) (\<lambda>_. True)" by (simp, intro bind_transition [OF transition_steps(5)] steps_ret) simp
  show "steps H (Some i) (\<lambda>_. True)
     (if sb_State r = SandboxStateCreating then bindM (cat_BeginDelete H (sb_ID r) (sb_Generation r)) (\<lambda>_. retM (''removed-stale-create'', True))
      else if sb_State r = SandboxStateDeleting then retM (''finished-delete'', True)
      else if List.member [SandboxStateStarting, SandboxStateRunning, SandboxStateStopping] (sb_State r) then reconcile_runtime d H r
      else if List.member [SandboxStateCreated, SandboxStateStopped, SandboxStateError] (sb_State r) then retM ([], False)
      else failN id ClassCorrupt CodeArtifactCorrupt ''unknown sandbox state'') (\<lambda>_ _. True) (\<lambda>_. True)"
    by (intro steps_if d steps_ret steps_failN TrueI steps_reconcile_runtime r)
qed

lemma ends_unlock:
  assumes "fine H (holding H (Some i)) s" and "\<And>u. ends H (k u)"
  shows "fine H (holding H None) (snd (bindM (attempt (call H (C_unlock i))) k s))"
proof -
  have "wp (call H (C_unlock i)) (\<lambda>_ s'. fine H (holding H None) s') (\<lambda>_ s'. fine H (holding H None) s') s"
    by (rule wp_unlock [OF assms(1)]) simp
  then have "wp (bindM (attempt (call H (C_unlock i))) k) (\<lambda>_. fine H (holding H None)) (\<lambda>_. fine H (holding H None)) s"
    unfolding wp_bind wp_attempt by (rule wp_mono) (use assms(2) in \<open>auto simp: ends_wp\<close>)
  then show ?thesis by (simp add: wp_snd)
qed

lemma ends_reconcileSandbox:
  assumes "valid_id (sb_ID r)"
  shows "ends H (reconcileSandbox d H r :: ('x, string \<times> bool \<times> gerr option) svcM)"
proof -
  let ?i = "sb_ID r"
  let ?fail = "\<lambda>e. bindM (attempt (call H (C_unlock ?i))) (\<lambda>u. retM ([], False, errors_Join [Some e, u])) :: ('x, string \<times> bool \<times> gerr option) svcM"
  let ?rest = "\<lambda>(action, remove). bindM (attempt (call H (C_unlock ?i))) (\<lambda>u.
      if remove \<and> errors_Join [None, u] = None then
        tryM (Remove (Some d) H ?i) (\<lambda>(_, e). retM (action, False, Some e)) (\<lambda>_. retM (action, False, None))
      else retM (action, False, errors_Join [None, u])) :: ('x, string \<times> bool \<times> gerr option) svcM"
  have body: "fine H (holding H None) (snd (tryM (reconcile_locked d H ?i) ?fail ?rest s))" if s: "fine H (holding H (Some ?i)) s" for s
  proof -
    have "wp (tryM (reconcile_locked d H ?i) ?fail ?rest) (\<lambda>_. fine H (holding H None)) (\<lambda>_. fine H (holding H None)) s"
      unfolding wp_try
    proof (rule steps_wp [OF steps_reconcile_locked [OF assms]])
      show "wp (?fail e) (\<lambda>_. fine H (holding H None)) (\<lambda>_. fine H (holding H None)) s'" if "fine H (holding H (Some ?i)) s'" for e s'
        unfolding wp_snd by (rule ends_unlock [OF that]) (rule ends_ret)
      show "wp (?rest v) (\<lambda>_. fine H (holding H None)) (\<lambda>_. fine H (holding H None)) s'" if v: "fine H (under H (Some ?i) (\<lambda>_. True)) s'" for v s'
        unfolding wp_snd using v by (cases v) (simp, intro ends_unlock ends_rules ends_Remove, simp)
    qed (use s in simp)
    then show ?thesis by (simp add: wp_snd)
  qed
  have "ends H (tryM (ask H (C_trylock ?i) (h_found H)) (\<lambda>e. retM ([], True, Some e)) (\<lambda>acquired.
      if \<not> acquired then retM ([], True, None) else tryM (reconcile_locked d H ?i) ?fail ?rest))"
    unfolding ends_wp wp_try wp_ask
  proof (intro allI impI)
    fix s :: svc assume s: "fine H (holding H None) s"
    have "fine H (holding H (if e = None \<and> h_found H (sv_trace s) then Some ?i else None)) (push H (C_trylock ?i) e s)" for e
      using s holding_trylock [of H "sv_trace s" e ?i] by (simp add: fine_def friendly_def)
    note t = this [of None] this [of "Some e" for e]
    show "case h_err H (sv_trace s) (C_trylock ?i) of
        None \<Rightarrow> wp (if \<not> h_found H (sv_trace s) then retM ([], True, None) else tryM (reconcile_locked d H ?i) ?fail ?rest)
          (\<lambda>_. fine H (holding H None)) (\<lambda>_. fine H (holding H None)) (push H (C_trylock ?i) None s)
      | Some e \<Rightarrow> wp (retM ([], True, Some e)) (\<lambda>_. fine H (holding H None)) (\<lambda>_. fine H (holding H None)) (push H (C_trylock ?i) (Some e) s)"
      using t body by (cases "h_found H (sv_trace s)") (simp_all add: wp_snd split: option.split)
  qed
  then show ?thesis
    unfolding reconcileSandbox_def by (intro ends_bind [OF ends_query] ends_try [OF ends_liftE] ends_ret)
qed

text \<open>The listed records carry valid identities.\<close>

lemma good_list:
  assumes "good n" and "sandbox_List ctx (ss_store n) = Inr rs" and "r \<in> set rs"
  shows "valid_id (sb_ID r)"
proof -
  have inv: "sandbox_inv (ss_tx n)" using assms(1) by (simp add: good_def node_inv_def)
  from assms(2) have "rs = sort_key (\<lambda>r. (- sb_CreatedAt r, sb_ID r)) (map (\<lambda>(i, _). the (sandboxes (ss_tx n) i)) (entries (ss_tx n) CollectionSandboxes))"
    by (auto simp: sandbox_List_def ctxE_def View_Inr bindE_Inr_iff Scan_list [OF inv] split: sum.splits)
  then obtain i p where r: "r = the (sandboxes (ss_tx n) i)" and "(i, p) \<in> set (entries (ss_tx n) CollectionSandboxes)" using assms(3) by auto
  then have "i \<in> dom (sandboxes (ss_tx n))" unfolding entries_keys_dom [OF inv, symmetric] by force
  then have "sandboxes (ss_tx n) i = Some r" using r by auto
  from sandboxes_Some(1) [OF inv this] show ?thesis by (rule Sandbox_Validate_NoneD(1))
qed

lemma ends_reconcile_loop:
  "\<forall>r \<in> set rs. valid_id (sb_ID r) \<Longrightarrow> ends H (reconcile_loop d H actions skipped failures rs)"
proof (induction rs arbitrary: actions skipped failures)
  case (Cons r rs)
  then show ?case by (simp only: reconcile_loop.simps) (intro ends_rules ends_reconcileSandbox; simp)
qed (simp add: ends_ret)

lemma ends_Reconcile: "ends H (ReconcileSandboxes sv H)"
proof -
  have "steps H None (\<lambda>_. True) (cat_List H) (\<lambda>rs _. \<forall>r \<in> set rs. valid_id (sb_ID r)) (\<lambda>_. True)"
    unfolding cat_List_def by (rule steps_read) (use good_list in \<open>auto simp: allowed_def\<close>)
  then have "ends H (bindM (cat_List H) (reconcile_loop d H [] 0 []))" for d
    unfolding ends_wp wp_bind
  proof (intro allI impI, elim steps_wp)
    fix rs :: "Sandbox list" and s assume "fine H (under H None (\<lambda>_. \<forall>r \<in> set rs. valid_id (sb_ID r))) s"
    then have v: "\<forall>r \<in> set rs. valid_id (sb_ID r)" and s: "fine H (holding H None) s" by (simp_all add: fine_def)
    show "wp (reconcile_loop d H [] 0 [] rs) (\<lambda>_. fine H (holding H None)) (\<lambda>_. fine H (holding H None)) s"
      by (rule ends_reconcile_loop [OF v, unfolded ends_wp, rule_format, OF s])
  qed (simp_all add: fine_def)
  then show ?thesis unfolding ReconcileSandboxes_def by (intro ends_option ends_if ends_fail)
qed

lemma ends_references: "ends H (resolve_references H known records refs)"
  by (induction refs arbitrary: known records) (simp_all only: resolve_references.simps, (intro ends_rules; assumption?)+)

lemma ends_status_loop: "ends H (status_loop d H statuses records)"
proof (induction records arbitrary: statuses)
  case (Cons r rs)
  have "ends H (observeStatus d H r)" unfolding observeStatus_def by (intro ends_rules ends_ask) simp_all
  then show ?case by (simp only: status_loop.simps) (intro ends_rules Cons.IH)
qed (simp add: ends_ret)

lemma ends_queries: "ends H (Status sv H refs)" "ends H (service_List sv H b)" "ends H (Inspect sv H ref)"
  unfolding Status_def service_List_def Inspect_def by (intro ends_rules ends_references ends_status_loop)+

lemma ends_locate: "ends H (locateRunning sv H ref op)"
proof -
  have body: "steps H (Some (sb_ID r)) (\<lambda>_. True) (locate_locked d H ref op r) (\<lambda>_ _. True) (\<lambda>_. True)" for d r
    unfolding locate_locked_def
    by (intro steps_if steps_failN TrueI bind_liftE steps_query_bind try_keep steps_failW steps_ret keeping_stop)
  have "ends H (bindM (lockExistingSandbox d H req) (\<lambda>(r, owner).
      let discard = (\<lambda>e u. failW id info (the (errors_Join [e, Some u]))) in
      tryM (locate_locked d H ref op r)
        (\<lambda>e. tryM (call H (C_unlock owner)) (discard (Some e)) (\<lambda>_. failM e))
        (\<lambda>found. tryM (call H (C_unlock owner)) (discard None) (\<lambda>_. retM found))))" for d req info
    unfolding ends_wp wp_bind
  proof (intro allI impI)
    fix s :: svc assume s: "fine H (holding H None) s"
    let ?K = "fine H (holding H None)"
    show "wp (lockExistingSandbox d H req) (\<lambda>v. wp (case v of (r, owner) \<Rightarrow>
        let discard = (\<lambda>e u. failW id info (the (errors_Join [e, Some u]))) in
        tryM (locate_locked d H ref op r)
          (\<lambda>e. tryM (call H (C_unlock owner)) (discard (Some e)) (\<lambda>_. failM e))
          (\<lambda>found. tryM (call H (C_unlock owner)) (discard None) (\<lambda>_. retM found))) (\<lambda>_. ?K) (\<lambda>_. ?K)) (\<lambda>_. ?K) s"
    proof (rule wp_lock [OF s])
      fix r :: Sandbox and s' assume s': "fine H (holding H (Some (sb_ID r))) s'"
      show "wp (case (r, sb_ID r) of (r, owner) \<Rightarrow>
        let discard = (\<lambda>e u. failW id info (the (errors_Join [e, Some u]))) in
        tryM (locate_locked d H ref op r)
          (\<lambda>e. tryM (call H (C_unlock owner)) (discard (Some e)) (\<lambda>_. failM e))
          (\<lambda>found. tryM (call H (C_unlock owner)) (discard None) (\<lambda>_. retM found))) (\<lambda>_. ?K) (\<lambda>_. ?K) s'"
        unfolding prod.case Let_def wp_try
        by (rule steps_wp [OF body]) (use s' in \<open>auto simp del: wp_call intro!: wp_unlock\<close>)
    qed simp
  qed
  then show ?thesis unfolding locateRunning_def by (intro ends_option ends_if ends_fail ends_failN)
qed

section \<open>The service follows its protocol\<close>

text \<open>Requests that create a sandbox do not name it like an identity.\<close>

fun plain_request :: "request \<Rightarrow> bool" where
  "plain_request (R_create req) = (\<not> valid_id (cfg_Name (req_Config req)))"
| "plain_request (R_clone req origin) = (\<not> valid_id (cfg_Name (req_Config req)))"
| "plain_request (R_run req) = (\<not> valid_id (cfg_Name (req_Config req)))"
| "plain_request q = True"

lemma serve_fine:
  assumes "plain_request q" and "fine H (holding H None) s"
  shows "fine H (holding H None) (serve sv H q s)"
proof (cases q)
  case (R_clone req origin)
  have "ends H (createFromSnapshot sv H req origin)"
    using assms(1) R_clone unfolding createFromSnapshot_def by (intro ends_if ends_failN ends_create) simp
  then show ?thesis using assms(2) R_clone by (simp add: serve_def ends_def)
qed (use assms ends_create [unfolded ends_def] ends_Start [unfolded ends_def] ends_Stop [unfolded ends_def] ends_Remove [unfolded ends_def]
      ends_Run [unfolded ends_def] ends_Reconcile [unfolded ends_def] ends_queries [unfolded ends_def] ends_locate [unfolded ends_def]
    in \<open>simp_all add: serve_def Create_def\<close>)

lemma serve_all_fine: "list_all plain_request qs \<Longrightarrow> fine H (holding H None) s \<Longrightarrow> fine H (holding H None) (serve_all sv H qs s)"
  by (induction qs arbitrary: s) (simp_all add: serve_fine)


text \<open>A host on which every call succeeds and no other operation runs, and a service with one backend.\<close>

definition sample_backend :: Backend where
  "sample_backend = \<lparr>be_Type = VMMCloudHypervisor, be_Snapshotter = True, be_Hibernator = True, be_Restorer = True,
     be_RestoreValidator = True, be_Cloner = True, be_NetworkHotplugger = True\<rparr>"

definition sample_service :: sandboxDependencies where
  "sample_service = \<lparr>d_images = True, d_catalog = True, d_disks = True,
     d_networks = Some [(NetworkBackendCNI, \<lparr>prov_Type = NetworkBackendCNI, prov_Resizer = True\<rparr>)],
     d_runtimes = Some [(VMMCloudHypervisor, sample_backend)], d_reporter = True, d_newID = True, d_now = True,
     d_paths = DefaultRoots, d_imagePaths = DefaultRoots, d_defaultNetwork = NetworkBackendCNI, d_defaultVMM = VMMCloudHypervisor,
     d_cleanupTimeout = 1, d_stopTimeout = 1, d_dnsServers = [], d_diskCloner = True, d_diskDataStore = True\<rparr>"

definition sample_host :: host where
  "sample_host = \<lparr>h_err = (\<lambda>_ _. None), h_observation = (\<lambda>_. \<lparr>obs_State = ProcessAbsent, obs_Process = Process_zero\<rparr>),
     h_process = (\<lambda>_. Process_zero), h_found = (\<lambda>_. True), h_namespace = (\<lambda>_. ''ns''), h_interfaces = (\<lambda>_. []),
     h_id = (\<lambda>_. sample_id), h_fs = (\<lambda>_. sample_fs), h_ctx = (\<lambda>_. None), h_cleanup = (\<lambda>_. None), h_now = (\<lambda>_. 20),
     h_NumCPU = 8, h_GOARCH = ''amd64'', h_env = (\<lambda>_ n. n)\<rparr>"

lemma sample_host_friendly: "friendly sample_host"
  by (simp add: friendly_def sample_host_def)

lemma sample_node_good: "good sample_node"
proof -
  have inv: "sandbox_inv (ss_tx sample_node)" using sample_node_run(2) by (simp add: node_inv_def)
  have "nm = ''box''" if nm: "sandbox_names (ss_tx sample_node) nm \<noteq> None" for nm
  proof -
    have "new_names (C_reserve (sb_ID sample_sandbox) (sandbox_name sample_sandbox)) (ss_store imaged_node) (ss_store sample_node)"
      unfolding sample_node_def using new_names_reserve [of sample_sandbox "ss_store imaged_node"] by simp
    moreover have "sandbox_names (ss_tx imaged_node) nm = None"
      by (simp add: sandbox_names_def imaged_node_run(6))
    ultimately show ?thesis using nm by (auto simp: new_names_def sample_ids)
  qed
  moreover have "\<not> valid_id ''box''" by (simp add: valid_id_def ParseSandboxID_def Let_def)
  ultimately show ?thesis using sample_node_run(2) by (auto simp: good_def plain_names_def)
qed

definition sample_state :: svc where
  "sample_state = \<lparr>sv_node = sample_node, sv_trace = []\<rparr>"


text \<open>
  On a host whose other operations are catalog operations, the service keeps the metadata consistent
  whatever it serves and whatever fails: the three catalogs keep their invariants, and the image of
  every stored sandbox is stored.
\<close>

lemma service_keeps_metadata:
  assumes "honest_env H" and "node_inv (sv_node s)"
  shows "node_inv (sv_node (serve_all sv H qs s))
    \<and> (\<forall>i r. sandboxes (ss_tx (sv_node (serve_all sv H qs s))) i = Some r \<longrightarrow> has_image (ss_tx (sv_node (serve_all sv H qs s))) (sb_ImageDigest r))"
proof -
  have "node_step\<^sup>*\<^sup>* (sv_node s) (sv_node (serve_all sv H qs s))"
    using node_run.all_serves [of H s sv qs] assms(1) by (simp add: node_reach_def)
  then have "node_inv (sv_node (serve_all sv H qs s))"
    using assms(2) by induction (auto dest: node_step_inv)
  then show ?thesis by (auto simp: node_inv_def ran_def)
qed

end
