(* ===== verification/Service_Progress.thy ===== *)
theory Service_Progress
  imports Service_Discipline
begin

text \<open>
  Progress of the sandbox service: on a host whose calls succeed and where no other operation interferes,
  an operation ends without an error and with the record it promises. The catalog operations are first
  shown to succeed on a live catalog; a calculus of total correctness on the maps of records and names
  then carries \<open>StopWithOptions\<close>, \<open>Remove\<close> and \<open>ReconcileSandboxes\<close>.
\<close>

section \<open>The catalog makes progress\<close>

text \<open>A live catalog with these records and names.\<close>

definition stored :: "store \<Rightarrow> (string \<rightharpoonup> Sandbox) \<Rightarrow> (string \<rightharpoonup> string) \<Rightarrow> bool" where
  "stored st M N \<longleftrightarrow> sandbox_inv (mem_records st) \<and> \<not> mem_closed st \<and> sandboxes (mem_records st) = M \<and> sandbox_names (mem_records st) = N"

lemma stored_update:
  assumes "stored st M N" and "fn (mem_records st) = Inr (v, t)" and "sandbox_inv t" and "sandboxes t = M'" and "sandbox_names t = N'"
  shows "\<exists>st'. update_with None st info fn = (Inr v, st') \<and> stored st' M' N'"
  using assms by (simp add: stored_def update_with_def Update_live)

context fenced_body
begin

lemma modify_progress:
  assumes "stored st M N" and "M i = Some r" and "body r = Inr out"
  shows "\<exists>st'. update_with None st info (modify_sandbox None i body) = (Inr (case out of None \<Rightarrow> r | Some r' \<Rightarrow> r'), st')
    \<and> stored st' (case out of None \<Rightarrow> M | Some r' \<Rightarrow> M(i \<mapsto> r')) N"
proof (cases out)
  case None
  have inv: "sandbox_inv (mem_records st)" and r: "sandboxes (mem_records st) i = Some r" using assms(1,2) by (simp_all add: stored_def)
  have "modify_sandbox None i body (mem_records st) = Inr (r, mem_records st)"
    using r assms(3) None by (simp add: modify_sandbox_def load_sandbox_inv [OF inv])
  then show ?thesis using stored_update [OF assms(1), of "modify_sandbox None i body" r "mem_records st" M N] None assms(1) inv
    by (simp add: stored_def)
next
  case (Some r')
  have inv: "sandbox_inv (mem_records st)" and r: "sandboxes (mem_records st) i = Some r" using assms(1,2) by (simp_all add: stored_def)
  obtain t where t: "modify_sandbox None i body (mem_records st) = Inr (r', t)" "sandbox_inv t"
      "sandboxes t = (sandboxes (mem_records st))(i \<mapsto> r')" "sandbox_names t = sandbox_names (mem_records st)"
    using modify_refines [OF inv r] assms(3) Some by blast
  then show ?thesis using stored_update [OF assms(1), of "modify_sandbox None i body" r' t "M(i \<mapsto> r')" N] Some assms(1)
    by (simp add: stored_def)
qed

end

text \<open>A valid record can move on as long as its generation and the clock are positive.\<close>

definition movable :: "Sandbox \<Rightarrow> bool" where
  "movable r \<longleftrightarrow> Sandbox_Validate r = None \<and> unat (sb_Generation r) + 3 < 2 ^ 64"

text \<open>A reservation of a sandbox without NICs that asks for a network by name and owns none yet.\<close>

definition nameless_owner :: "Sandbox \<Rightarrow> bool" where
  "nameless_owner r \<longleftrightarrow> cfg_NICs (sb_Config r) = 0 \<and> net_Backend (sb_Network r) = [] \<and> cfg_NetworkName (sb_Config r) \<noteq> []"

lemma generation_next: "unat (g :: 64 word) + k < 2 ^ 64 \<Longrightarrow> unat (g + of_nat k) = unat g + k"
  by (simp add: unat_word_ariths unat_of_nat)

lemma Validate_None: "Sandbox_Validate r = None \<longleftrightarrow> valid_id (sb_ID r) \<and> SandboxConfig_Validate (sb_Config r) = None
    \<and> \<not> Digest_IsZero (sb_ImageDigest r) \<and> sb_Generation r \<noteq> 0 \<and> \<not> IsZero (sb_CreatedAt r) \<and> \<not> IsZero (sb_UpdatedAt r)
    \<and> VMMType_Validate (sb_VMM r) = None \<and> NetworkSetup_Validate (sb_Network r) = None
    \<and> (cfg_NICs (sb_Config r) = 0 \<longrightarrow> net_Interfaces (sb_Network r) = [])
    \<and> (sb_State r \<noteq> SandboxStateCreating \<longrightarrow> \<not> nameless_owner r)
    \<and> network_owner_check r = None \<and> sb_State r \<in> set valid_states \<and> (sb_State r = SandboxStateError \<longleftrightarrow> sb_Failure r \<noteq> None)"
  unfolding Sandbox_Validate_def nameless_owner_def valid_id_def
  by (cases "ParseSandboxID (sb_ID r)") auto

lemma advance_fields [simp]:
  "sb_ID (advance r to f u) = sb_ID r" "sb_Config (advance r to f u) = sb_Config r" "sb_ImageDigest (advance r to f u) = sb_ImageDigest r"
  "sb_VMM (advance r to f u) = sb_VMM r" "sb_Network (advance r to f u) = sb_Network r" "sb_State (advance r to f u) = to"
  "sb_Generation (advance r to f u) = sb_Generation r + 1" "sb_Failure (advance r to f u) = f"
  "sb_CreatedAt (advance r to f u) = sb_CreatedAt r" "sb_UpdatedAt (advance r to f u) = u"
  by (simp_all add: advance_def)

lemma owner_advance:
  assumes "network_owner_check r = None" and "to = SandboxStateDeleting \<or> sb_State r \<in> set active_states"
  shows "network_owner_check (advance r to f u) = None"
  using assms by (auto simp: network_owner_check_def active_states_def split: if_splits)

lemma advance_valid:
  assumes "Sandbox_Validate r = None" and "unat (sb_Generation r) + 1 < 2 ^ 64" and "\<not> IsZero u"
    and "to \<in> {SandboxStateStopping, SandboxStateStopped} \<and> sb_State r \<in> set active_states
      \<or> to = SandboxStateDeleting \<and> \<not> (sb_State r = SandboxStateCreating \<and> nameless_owner r)"
  shows "Sandbox_Validate (advance r to None u) = None"
proof -
  have "sb_Generation r + 1 \<noteq> 0" using generation_next [of "sb_Generation r" 1] assms(2) by auto
  moreover have "network_owner_check (advance r to None u) = None"
    by (rule owner_advance) (use assms(1,4) in \<open>auto simp: Validate_None\<close>)
  moreover have "nameless_owner (advance r to None u) = nameless_owner r" by (simp add: nameless_owner_def)
  moreover have "\<not> nameless_owner r"
    using assms(1,4) by (auto simp: Validate_None active_states_def)
  moreover have "to \<in> set valid_states" "to \<noteq> SandboxStateError" using assms(4) by (auto simp: valid_states_def)
  ultimately show ?thesis using assms(1,3) by (simp add: Validate_None)
qed

text \<open>The transitions of a stop and of a removal.\<close>

lemma progress_BeginStop:
  assumes "stored st M N" and "M i = Some r" and "sb_State r = SandboxStateRunning" and "Sandbox_Validate r = None"
    and "unat (sb_Generation r) + 1 < 2 ^ 64" and "\<not> IsZero u"
  shows "\<exists>st'. sandbox_BeginStop None st i (sb_Generation r) u = (Inr (advance r SandboxStateStopping None u), st')
    \<and> stored st' (M(i \<mapsto> advance r SandboxStateStopping None u)) N"
proof -
  have "stop_body (sb_Generation r) u r = Inr (Some (advance r SandboxStateStopping None u))"
    using assms(3) advance_valid [OF assms(4-6), of SandboxStateStopping]
    by (simp add: stop_body_def commit_record_def active_states_def)
  from stop.modify_progress [OF assms(1,2) this] show ?thesis by (simp add: sandbox_BeginStop_def)
qed

lemma progress_MarkStopped:
  assumes "stored st M N" and "M i = Some r" and "sb_State r \<in> set active_states" and "Sandbox_Validate r = None"
    and "unat (sb_Generation r) + 1 < 2 ^ 64" and "\<not> IsZero u"
  shows "\<exists>st'. sandbox_MarkStopped None st i (sb_Generation r) (sb_State r) u = (Inr (advance r SandboxStateStopped None u), st')
    \<and> stored st' (M(i \<mapsto> advance r SandboxStateStopped None u)) N"
proof -
  have "transition_body (sb_Generation r) (sb_State r) SandboxStateStopped None u r = Inr (Some (advance r SandboxStateStopped None u))"
    using assms(3) advance_valid [OF assms(4-6), of SandboxStateStopped] by (simp add: transition_body_def commit_record_def)
  from trans.modify_progress [OF assms(1,2) this] show ?thesis
    using assms(3) by (auto simp: sandbox_MarkStopped_def sandbox_transition_def active_states_def)
qed

definition deleting :: "Sandbox \<Rightarrow> time \<Rightarrow> Sandbox" where
  "deleting r u = (if sb_State r = SandboxStateDeleting then r else advance r SandboxStateDeleting None u)"

definition removable :: "Sandbox \<Rightarrow> bool" where
  "removable r \<longleftrightarrow> sb_State r \<notin> set active_states \<and> \<not> (sb_State r = SandboxStateCreating \<and> nameless_owner r)"

lemma progress_BeginDelete:
  assumes "stored st M N" and "M i = Some r" and "removable r" and "Sandbox_Validate r = None"
    and "unat (sb_Generation r) + 1 < 2 ^ 64" and "\<not> IsZero u"
  shows "\<exists>st'. sandbox_BeginDelete None st i (sb_Generation r) u = (Inr (deleting r u), st') \<and> stored st' (M(i \<mapsto> deleting r u)) N"
proof (cases "sb_State r = SandboxStateDeleting")
  case True
  then have "delete_body (sb_Generation r) u r = Inr None" by (simp add: delete_body_def)
  from deleting.modify_progress [OF assms(1,2) this] show ?thesis
    using True assms(2) by (simp add: sandbox_BeginDelete_def deleting_def fun_upd_idem)
next
  case False
  have "sb_State r \<in> set valid_states" using assms(4) by (simp add: Validate_None)
  then have "delete_body (sb_Generation r) u r = Inr (Some (advance r SandboxStateDeleting None u))"
    using False assms(3) advance_valid [OF assms(4-6), of SandboxStateDeleting]
    by (auto simp: delete_body_def commit_record_def removable_def active_states_def valid_states_def)
  from deleting.modify_progress [OF assms(1,2) this] show ?thesis
    using False by (simp add: sandbox_BeginDelete_def deleting_def)
qed

lemma progress_remove:
  assumes st: "stored st M N" and r: "M i = Some r" and del: "sb_State r = to" and to: "to = SandboxStateCreating \<or> to = SandboxStateDeleting"
  shows "\<exists>st'. update_with None st info (remove_sandbox_tx None i (sb_Generation r) to m) = (Inr (), st') \<and> stored st' (M(i := None)) (N(sandbox_name r := None))"
proof -
  let ?t = "mem_records st" and ?fn = "remove_sandbox_tx None i (sb_Generation r) to m"
  have inv: "sandbox_inv ?t" and s: "sandboxes ?t i = Some r" "sandbox_names ?t = N" "sandboxes ?t = M" using st r by (simp_all add: stored_def)
  note ok = sandboxes_Some [OF inv s(1)]
  have n: "sandbox_names ?t (sandbox_name r) = Some i"
    using index_ok_rec [OF sandbox_invD(4) [OF inv] s(1)] valid_name_nonempty [OF ok(1)] by blast
  then obtain b where b: "lookup ?t CollectionNames (sandbox_name r) = Some (P_name b)" "name_ID b = i"
    by (auto simp: sandbox_names_def split: option.splits payload.splits)
  obtain t1 where d1: "Delete None ?t CollectionNames (sandbox_name r) = Inr t1"
    using Delete_live sandbox_invD(3) [OF inv] by blast
  moreover obtain t2 where d2: "Delete None t1 CollectionSandboxes i = Inr t2"
    using Delete_live sandbox_invD(2) [OF inv] declared_Delete [OF d1] by metis
  ultimately have run: "?fn ?t = Inr ((), t2)"
    using s(1) del b ok(3) sandbox_invD(3) [OF inv]
    by (simp add: remove_sandbox_tx_def load_sandbox_inv [OF inv] delete_sandbox_record_def)
  have recs: "sandboxes t2 = M(i := None)" and names: "sandbox_names t2 = N(sandbox_name r := None)"
    unfolding s(2,3) [symmetric] by (rule ext, simp add: sandboxes_def sandbox_names_def lookup_Delete [OF d1] lookup_Delete [OF d2])+
  have "sandbox_inv t2"
    using remove_good [OF to, where images = resolve_image] run inv unfolding tx_good_def by blast
  from stored_update [OF st, of ?fn, OF run this recs names] show ?thesis .
qed

lemma progress_Finalize:
  "stored st M N \<Longrightarrow> M i = Some r \<Longrightarrow> sb_State r = SandboxStateDeleting \<Longrightarrow>
    \<exists>st'. sandbox_FinalizeDelete None st i (sb_Generation r) = (Inr (), st') \<and> stored st' (M(i := None)) (N(sandbox_name r := None))"
  unfolding sandbox_FinalizeDelete_def by (rule progress_remove) simp_all

text \<open>A reference finds a record by its name, or by its identity when no sandbox has that name.\<close>

definition refers :: "(string \<rightharpoonup> Sandbox) \<Rightarrow> (string \<rightharpoonup> string) \<Rightarrow> string \<Rightarrow> Sandbox \<Rightarrow> bool" where
  "refers M N ref r \<longleftrightarrow> (case N ref of Some i \<Rightarrow> M i = Some r | None \<Rightarrow> M ref = Some r)"

lemma progress_Resolve: "stored st M N \<Longrightarrow> refers M N ref r \<Longrightarrow> sandbox_Resolve None st ref = Inr r"
  by (auto simp: refers_def stored_def sandbox_Resolve_def View_live resolve_sandbox_inv split: option.splits)

section \<open>Total correctness on a calm host\<close>

definition calm :: "host \<Rightarrow> bool" where
  "calm H \<longleftrightarrow> (\<forall>tr c. h_err H tr c = None) \<and> (\<forall>tr. h_ctx H tr = None) \<and> (\<forall>tr n. h_env H tr n = n) \<and> (\<forall>tr. \<not> IsZero (h_now H tr))"

text \<open>From these maps the operation ends without an error, in maps that satisfy the postcondition.\<close>

definition gives :: "(string \<rightharpoonup> Sandbox) \<Rightarrow> (string \<rightharpoonup> string) \<Rightarrow> ('e, 'a) svcM \<Rightarrow> ('a \<Rightarrow> (string \<rightharpoonup> Sandbox) \<Rightarrow> (string \<rightharpoonup> string) \<Rightarrow> bool) \<Rightarrow> bool" where
  "gives M N m Q \<longleftrightarrow> (\<forall>s. stored (ss_store (sv_node s)) M N \<longrightarrow>
     wp m (\<lambda>v s'. \<exists>M' N'. stored (ss_store (sv_node s')) M' N' \<and> Q v M' N') (\<lambda>_ _. False) s)"

lemma gives_ret: "Q v M N \<Longrightarrow> gives M N (retM v) Q"
  by (auto simp: gives_def)

lemma gives_liftE: "r = Inr v \<Longrightarrow> Q v M N \<Longrightarrow> gives M N (liftE r) Q"
  by (auto simp: gives_def)

lemma gives_try:
  assumes "gives M N m R" and "\<And>v M' N'. R v M' N' \<Longrightarrow> gives M' N' (k v) Q"
  shows "gives M N (tryM m h k) Q"
  unfolding gives_def wp_try
proof (intro allI impI)
  fix s :: svc assume "stored (ss_store (sv_node s)) M N"
  with assms(1) have "wp m (\<lambda>v s'. \<exists>M' N'. stored (ss_store (sv_node s')) M' N' \<and> R v M' N') (\<lambda>_ _. False) s" by (simp add: gives_def)
  then show "wp m (\<lambda>v. wp (k v) (\<lambda>v s'. \<exists>M' N'. stored (ss_store (sv_node s')) M' N' \<and> Q v M' N') (\<lambda>_ _. False))
      (\<lambda>e. wp (h e) (\<lambda>v s'. \<exists>M' N'. stored (ss_store (sv_node s')) M' N' \<and> Q v M' N') (\<lambda>_ _. False)) s"
    by (rule wp_mono) (use assms(2) in \<open>auto simp: gives_def\<close>)
qed

lemma gives_bind: "gives M N m R \<Longrightarrow> (\<And>v M' N'. R v M' N' \<Longrightarrow> gives M' N' (k v) Q) \<Longrightarrow> gives M N (bindM m k) Q"
  unfolding bindM_def by (rule gives_try)

lemma gives_weaken: "gives M N m R \<Longrightarrow> (\<And>v M' N'. R v M' N' \<Longrightarrow> Q v M' N') \<Longrightarrow> gives M N m Q"
  unfolding gives_def
proof (intro allI impI)
  fix s :: svc
  assume q: "\<And>v M' N'. R v M' N' \<Longrightarrow> Q v M' N'" and m: "\<forall>s. stored (ss_store (sv_node s)) M N \<longrightarrow>
     wp m (\<lambda>v s'. \<exists>M' N'. stored (ss_store (sv_node s')) M' N' \<and> R v M' N') (\<lambda>_ _. False) s"
    and "stored (ss_store (sv_node s)) M N"
  then have "wp m (\<lambda>v s'. \<exists>M' N'. stored (ss_store (sv_node s')) M' N' \<and> R v M' N') (\<lambda>_ _. False) s" by blast
  then show "wp m (\<lambda>v s'. \<exists>M' N'. stored (ss_store (sv_node s')) M' N' \<and> Q v M' N') (\<lambda>_ _. False) s"
    by (rule wp_mono) (use q in blast)+
qed

text \<open>Steps that cannot fail and leave the maps.\<close>

lemma gives_query: "(\<And>tr. gives M N (k (f tr)) Q) \<Longrightarrow> gives M N (bindM (query f) k) Q"
  by (simp add: gives_def)

lemma calm_ask: "calm H \<Longrightarrow> (\<And>tr. gives M N (k (f tr)) Q) \<Longrightarrow> gives M N (tryM (ask H c f) h k) Q"
  by (simp add: gives_def calm_def)

lemma calm_call: "calm H \<Longrightarrow> gives M N (k ()) Q \<Longrightarrow> gives M N (tryM (call H c) h k) Q"
  by (simp add: gives_def calm_def)

lemma calm_status: "calm H \<Longrightarrow> gives M N (k ()) Q \<Longrightarrow> gives M N (tryM (status H m) h k) Q"
  unfolding status_def by (rule calm_call)

lemma calm_report: "calm H \<Longrightarrow> gives M N (k ()) Q \<Longrightarrow> gives M N (tryM (report H r) h k) Q"
  unfolding report_def by (rule calm_call)

lemma calm_liftE: "x = Inr v \<Longrightarrow> gives M N (k v) Q \<Longrightarrow> gives M N (tryM (liftE x) h k) Q"
  by (simp add: gives_def)

lemma calm_lifted: "\<exists>v. x = Inr v \<Longrightarrow> (\<And>v. gives M N (k v) Q) \<Longrightarrow> gives M N (tryM (liftE x) h k) Q"
  by (auto simp: gives_def)

lemmas bind_lifted = calm_lifted [where h = failM, folded bindM_def]

lemma calm_ret: "gives M N (k v) Q \<Longrightarrow> gives M N (tryM (retM v) h k) Q"
  by (simp add: gives_def)

lemma attempt_call: "calm H \<Longrightarrow> gives M N (k None) Q \<Longrightarrow> gives M N (bindM (attempt (call H c)) k) Q"
  by (simp add: gives_def calm_def)

lemma attempt_status: "calm H \<Longrightarrow> gives M N (k None) Q \<Longrightarrow> gives M N (bindM (attempt (status H m)) k) Q"
  unfolding status_def by (rule attempt_call)

lemmas bind_steps = calm_ask [where h = failM, folded bindM_def] calm_call [where h = failM, folded bindM_def]
  calm_status [where h = failM, folded bindM_def] calm_liftE [where h = failM, folded bindM_def] calm_ret [where h = failM, folded bindM_def]

lemmas calm_steps = gives_query calm_ask calm_call calm_status calm_report calm_ret bind_steps(1-3,5) attempt_call attempt_status

text \<open>A catalog operation whose progress is known.\<close>

lemma gives_write:
  assumes "calm H" and "\<And>st now. stored st M N \<Longrightarrow> \<not> IsZero now \<Longrightarrow> \<exists>v st' M' N'. f None now st = (Inr v, st') \<and> stored st' M' N' \<and> Q v M' N'"
  shows "gives M N (catalog_write H (h_ctx H) c f) Q"
  unfolding gives_def
proof (intro allI impI)
  fix s :: svc assume st: "stored (ss_store (sv_node s)) M N"
  obtain v st' M' N' where "f None (h_now H (sv_trace s)) (ss_store (sv_node s)) = (Inr v, st')" "stored st' M' N'" "Q v M' N'"
    using assms(2) [OF st, of "h_now H (sv_trace s)"] assms(1) by (auto simp: calm_def)
  then show "wp (catalog_write H (h_ctx H) c f) (\<lambda>v s'. \<exists>M' N'. stored (ss_store (sv_node s')) M' N' \<and> Q v M' N') (\<lambda>_ _. False) s"
    using assms(1) by (auto simp: wp_def catalog_write_def tryM_def query_def catalog_def on_store_def calm_def Let_def)
qed

lemma gives_Resolve:
  assumes "calm H" and "refers M N ref r"
  shows "gives M N (cat_Resolve H ref) (\<lambda>v M' N'. v = r \<and> M' = M \<and> N' = N)"
  unfolding gives_def
proof (intro allI impI)
  fix s :: svc assume "stored (ss_store (sv_node s)) M N"
  then show "wp (cat_Resolve H ref) (\<lambda>v s'. \<exists>M' N'. stored (ss_store (sv_node s')) M' N' \<and> v = r \<and> M' = M \<and> N' = N) (\<lambda>_ _. False) s"
    using assms(1) progress_Resolve [OF _ assms(2)]
    by (auto simp: wp_def cat_Resolve_def catalog_read_def tryM_def query_def catalog_def reading_def calm_def Let_def)
qed

section \<open>Stop and Remove\<close>

lemma networkProvider_advance [simp]: "networkProvider d (advance r to f u) = networkProvider d r"
  by (simp add: networkProvider_def Let_def)

text \<open>The record is stored under its own identity.\<close>

definition has :: "(string \<rightharpoonup> Sandbox) \<Rightarrow> Sandbox \<Rightarrow> bool" where
  "has M r \<longleftrightarrow> M (sb_ID r) = Some r"

lemma gives_quiesce:
  assumes "calm H" and "networkProvider d r = Inr p"
  shows "gives M N (quiesceNetwork d H r) (\<lambda>_ M' N'. M' = M \<and> N' = N)"
  unfolding quiesceNetwork_def assms(2)
  by (rule bind_steps(4) [OF refl]) (cases p; auto intro!: gives_ret calm_steps assms(1) simp: errors_Join_def)

lemma gives_cat:
  assumes "calm H" and "has M r" and "Sandbox_Validate r = None" and "unat (sb_Generation r) + 1 < 2 ^ 64"
  shows "sb_State r = SandboxStateRunning \<Longrightarrow> gives M N (cat_BeginStop H (sb_ID r) (sb_Generation r))
      (\<lambda>v M' N'. N' = N \<and> M' = M(sb_ID r \<mapsto> v) \<and> (\<exists>u. \<not> IsZero u \<and> v = advance r SandboxStateStopping None u))"
    and "sb_State r \<in> set active_states \<Longrightarrow> gives M N (cat_MarkStopped H (sb_ID r) (sb_Generation r) (sb_State r))
      (\<lambda>v M' N'. N' = N \<and> M' = M(sb_ID r \<mapsto> v) \<and> (\<exists>u. \<not> IsZero u \<and> v = advance r SandboxStateStopped None u))"
    and "removable r \<Longrightarrow> gives M N (cat_BeginDelete H (sb_ID r) (sb_Generation r))
      (\<lambda>v M' N'. N' = N \<and> M' = M(sb_ID r \<mapsto> v) \<and> (\<exists>u. \<not> IsZero u \<and> v = deleting r u))"
  unfolding cat_BeginStop_def cat_MarkStopped_def cat_BeginDelete_def
  by (rule gives_write [OF assms(1)], use progress_BeginStop [where M = M and N = N and r = r and i = "sb_ID r"]
      progress_MarkStopped [where M = M and N = N and r = r and i = "sb_ID r"]
      progress_BeginDelete [where M = M and N = N and r = r and i = "sb_ID r"] assms(2-4) [unfolded has_def] in blast)+

lemma gives_Finalize:
  assumes "calm H" and "has M r" and "sb_State r = SandboxStateDeleting"
  shows "gives M N (cat_FinalizeDelete H (sb_ID r) (sb_Generation r)) (\<lambda>_ M' N'. M' = M(sb_ID r := None) \<and> N' = N(sandbox_name r := None))"
  unfolding cat_FinalizeDelete_def using progress_Finalize [where M = M and N = N and r = r and i = "sb_ID r"] assms(2,3)
  unfolding has_def by (intro gives_write [OF assms(1)]) blast

text \<open>A record of the same sandbox, at most so many generations later.\<close>

definition later :: "nat \<Rightarrow> SandboxState \<Rightarrow> Sandbox \<Rightarrow> Sandbox \<Rightarrow> bool" where
  "later k st r v \<longleftrightarrow> Sandbox_Validate v = None \<and> sb_State v = st \<and> sb_ID v = sb_ID r \<and> sb_Config v = sb_Config r
     \<and> sb_VMM v = sb_VMM r \<and> sb_Network v = sb_Network r \<and> unat (sb_Generation v) \<le> unat (sb_Generation r) + k"

lemma later_advance:
  assumes "Sandbox_Validate r = None" and "unat (sb_Generation r) + 1 < 2 ^ 64" and "\<not> IsZero u"
    and "to \<in> {SandboxStateStopping, SandboxStateStopped}" and "sb_State r \<in> set active_states"
  shows "later 1 to r (advance r to None u)"
  using advance_valid [OF assms(1-3), of to] assms(4,5) generation_next [of "sb_Generation r" 1] assms(2) by (auto simp: later_def)

lemma later_provider: "later k st r v \<Longrightarrow> networkProvider d v = networkProvider d r"
  by (auto simp: later_def networkProvider_def Let_def)

lemma later_trans: "later j st r v \<Longrightarrow> later k st' v w \<Longrightarrow> later (j + k) st' r w"
  by (simp add: later_def)

lemma gives_stop_finish:
  assumes "calm H" and "has M r" and "Sandbox_Validate r = None" and "unat (sb_Generation r) + 1 < 2 ^ 64"
    and "sb_State r \<in> set active_states" and "networkProvider d r = Inr p"
  shows "gives M N (stop_finish d H b ref r c) (\<lambda>(v, _) M' N'. N' = N \<and> M' = M(sb_ID r \<mapsto> v) \<and> later 1 SandboxStateStopped r v)"
proof -
  have "sb_State r \<noteq> SandboxStateError" using assms(5) by (auto simp: active_states_def)
  then show ?thesis
    unfolding stop_finish_def
    apply simp
    apply (intro calm_status calm_call assms(1), rule gives_try [OF gives_quiesce [OF assms(1,6)]])
    apply (elim conjE, hypsubst, intro calm_status assms(1))
    apply (rule gives_try [OF gives_cat(2) [OF assms(1-4,5)]])
    apply (elim conjE exE, hypsubst, intro calm_report assms(1) gives_ret)
    using later_advance [OF assms(3,4)] assms(5) by auto
qed

lemma gives_stop_active:
  assumes "calm H" and "has M r" and "movable r" and "sb_State r \<in> set active_states" and "networkProvider d r = Inr p"
    and "stopProcessGeneration r = Inr g"
  shows "gives M N (stop_active d H b ref opts r) (\<lambda>(v, _) M' N'. N' = N \<and> M' = M(sb_ID r \<mapsto> v) \<and> later 2 SandboxStateStopped r v)"
    (is "gives M N _ ?Q")
proof -
  have v: "Sandbox_Validate r = None" and g: "unat (sb_Generation r) + 1 < 2 ^ 64" using assms(3) by (simp_all add: movable_def)
  have process: "gives M' N (stop_process d H b ref opts q ex (r', c)) (\<lambda>(v, _) M'' N'. N' = N \<and> M'' = M'(sb_ID r' \<mapsto> v) \<and> later 1 SandboxStateStopped r' v)"
    if "has M' r'" "Sandbox_Validate r' = None" "unat (sb_Generation r') + 1 < 2 ^ 64" "sb_State r' \<in> set active_states"
      "networkProvider d r' = Inr p" for M' r' q ex c
    unfolding stop_process_def prod.case
    by (split if_split, intro conjI impI calm_status calm_call assms(1) gives_stop_finish [OF assms(1) that])
  have plain: "gives M N (stop_process d H b ref opts q ex (r, False)) ?Q" for q ex
    by (rule gives_weaken [OF process [OF assms(2) v g assms(4,5)]]) (auto simp: later_def)
  have two: "gives M' N' (stop_process d H b ref opts q ex (w, True)) ?Q"
    if "N' = N" "M' = M(sb_ID r \<mapsto> w)" "later 1 SandboxStateStopping r w" for q ex w M' N'
  proof -
    have "networkProvider d w = Inr p" using later_provider [OF that(3)] assms(5) by simp
    moreover have "unat (sb_Generation w) + 1 < 2 ^ 64" using that(3) assms(3) by (simp add: later_def movable_def)
    ultimately show ?thesis
      using that process [of "M(sb_ID r \<mapsto> w)" w q ex True]
      by (auto simp: has_def later_def active_states_def elim!: gives_weaken)
  qed
  show ?thesis
    unfolding stop_active_def assms(6)
    apply (rule calm_liftE [OF refl], intro calm_status gives_query calm_ask assms(1))
    apply (split if_split, intro conjI impI plain)
    apply (elim conjE, intro calm_status assms(1), rule gives_try [OF gives_cat(1) [OF assms(1,2) v g]], assumption)
    using later_advance [OF v g] assms(4) by (auto intro!: two)
qed

text \<open>Under the lock the record is the one the reference resolved to, as no sandbox is named like an identity.\<close>

definition lockable :: "sandboxDependencies \<Rightarrow> host \<Rightarrow> SandboxID \<Rightarrow> bool" where
  "lockable d H i \<longleftrightarrow> (\<forall>tr. \<exists>path. sandbox_Lock (h_fs H tr) (d_paths d) i = Inr path)"

lemma gives_lock:
  assumes "calm H" and "refers M N (lr_reference req) r" and "has M r" and "sb_ID r \<notin> dom N" and "lockable d H (sb_ID r)"
  shows "gives M N (lockExistingSandbox d H req) (\<lambda>(v, i) M' N'. v = r \<and> i = sb_ID r \<and> M' = M \<and> N' = N)"
proof -
  have again: "refers M N (sb_ID r) r" using assms(3,4) by (auto simp: refers_def has_def split: option.split)
  show ?thesis
    unfolding lockExistingSandbox_def
    apply (rule gives_bind [OF gives_Resolve [OF assms(1,2)]], elim conjE, hypsubst, rule gives_query)
    apply (rule bind_lifted, use assms(5) in \<open>simp add: lockable_def\<close>)
    apply (rule gives_bind [where R = "\<lambda>_ M' N'. M' = M \<and> N' = N"])
     apply (simp add: gives_ret gives_def status_def assms(1) [unfolded calm_def])
    apply (elim conjE, hypsubst, rule calm_call [OF assms(1)], rule gives_try [OF gives_Resolve [OF assms(1) again]])
    apply (auto intro: gives_ret)
    done
qed

lemma gives_deferUnlock:
  assumes "calm H" and "gives M N body (\<lambda>(v, _) M' N'. Q v M' N')"
  shows "gives M N (deferUnlock H i info body) Q"
  unfolding gives_def
proof (intro allI impI)
  fix s :: svc assume "stored (ss_store (sv_node s)) M N"
  with assms(2) have "wp body (\<lambda>x s'. \<exists>M' N'. stored (ss_store (sv_node s')) M' N' \<and> (case x of (v, _) \<Rightarrow> Q v M' N')) (\<lambda>_ _. False) s"
    by (simp add: gives_def case_prod_unfold)
  then obtain v c s1 M' N' where b: "body s = (Inr (v, c), s1)" and post: "stored (ss_store (sv_node s1)) M' N'" "Q v M' N'"
    by (auto simp: wp_def split: prod.splits sum.splits)
  have "call H (C_unlock i) s1 = (Inr (), push H (C_unlock i) None s1)" "sv_node (push H (C_unlock i) None s1) = sv_node s1"
    using assms(1) by (simp_all add: call_def ask_def calm_def)
  then show "wp (deferUnlock H i info body) (\<lambda>v s'. \<exists>M' N'. stored (ss_store (sv_node s')) M' N' \<and> Q v M' N') (\<lambda>_ _. False) s"
    using post by (auto simp: wp_def deferUnlock_def tryM_def finish_def b)
qed

text \<open>What the service needs to know of a record: its backend is registered and the owner of its network known.\<close>

definition served :: "sandboxDependencies \<Rightarrow> Sandbox \<Rightarrow> bool" where
  "served d r \<longleftrightarrow> (\<exists>b. registry_Backend (d_runtimes d) (sb_VMM r) = Inr b) \<and> (\<exists>p. networkProvider d r = Inr p)"

lemma gives_Stop:
  assumes "calm H" and "runtime_ready d" and "StopOptions_Validate opts = None" and "ref \<noteq> []"
    and "refers M N ref r" and "has M r" and "sb_ID r \<notin> dom N" and "lockable d H (sb_ID r)"
    and "served d r" and "movable r" and "sb_State r \<in> set active_states" and "stopProcessGeneration r = Inr g"
  shows "gives M N (StopWithOptions (Some d) H ref opts) (\<lambda>v M' N'. N' = N \<and> M' = M(sb_ID r \<mapsto> v) \<and> later 2 SandboxStateStopped r v)"
proof -
  obtain b p where b: "registry_Backend (d_runtimes d) (sb_VMM r) = Inr b" and p: "networkProvider d r = Inr p"
    using assms(9) by (auto simp: served_def)
  have st: "sb_State r \<notin> {SandboxStateCreating, SandboxStateDeleting, SandboxStateCreated, SandboxStateStopped}"
    using assms(11) by (auto simp: active_states_def)
  have body: "gives M N (stop_locked d H ref o' r) (\<lambda>(v, _) M' N'. N' = N \<and> M' = M(sb_ID r \<mapsto> v) \<and> later 2 SandboxStateStopped r v)" for o'
    unfolding stop_locked_def using st gives_stop_active [OF assms(1,6,10,11) p assms(12)]
    by (simp add: b calm_liftE [OF refl])
  show ?thesis
    unfolding StopWithOptions_def assms(3) option.case Let_def
    apply (simp only: assms(2,4) not_True_eq_False if_False)
    apply (rule calm_status [OF assms(1)], rule gives_try [OF gives_lock [OF assms(1) _ assms(6,7,8)]])
     apply (simp add: assms(5))
    apply (clarsimp, intro conjI impI gives_deferUnlock [OF assms(1) body])
    done
qed

lemma gives_Remove:
  assumes "calm H" and "runtime_ready d" and "d_disks d" and "ref \<noteq> []"
    and "refers M N ref r" and "has M r" and "sb_ID r \<notin> dom N" and "lockable d H (sb_ID r)"
    and "served d r" and "removable r" and "Sandbox_Validate r = None" and "unat (sb_Generation r) + 1 < 2 ^ 64"
  shows "gives M N (Remove (Some d) H ref) (\<lambda>_ M' N'. M' = M(sb_ID r := None) \<and> N' = N(sandbox_name r := None))"
proof -
  obtain b p where b: "registry_Backend (d_runtimes d) (sb_VMM r) = Inr b" and p: "networkProvider d r = Inr p"
    using assms(9) by (auto simp: served_def)
  have keep: "sb_ID (deleting r u) = sb_ID r" "sandbox_name (deleting r u) = sandbox_name r" "sb_State (deleting r u) = SandboxStateDeleting" for u
    by (simp_all add: deleting_def)
  have step: "gives M' N' (k ()) Q \<Longrightarrow> gives M' N' (tryM (case p of None \<Rightarrow> retM () | Some q \<Rightarrow> call H (c q)) h k) Q"
    for c h M' N' Q and k :: "unit \<Rightarrow> (Sandbox \<times> gerr \<times> bool, Sandbox \<times> bool) svcM"
    by (cases p) (simp_all add: calm_ret calm_call assms(1))
  have resources: "gives M' N' (remove_resources H b ref p w) (\<lambda>(_, _) M' N'. M' = M(sb_ID r := None) \<and> N' = N(sandbox_name r := None))"
    if w: "N' = N" "M' = M(sb_ID r \<mapsto> w)" "w = deleting r u" for w u M' N'
  proof -
    have h: "has M' w" using w by (simp add: has_def keep)
    show ?thesis
      unfolding remove_resources_def
      apply (intro calm_status calm_call step step [of _ _ _ _ "\<lambda>_. C_status _", folded status_def] assms(1))
      apply (rule gives_try [OF gives_Finalize [OF assms(1) h]])
      using w by (auto simp: keep intro!: calm_report assms(1) gives_ret)
  qed
  have body: "gives M N (remove_locked d H ref r) (\<lambda>(_, _) M' N'. M' = M(sb_ID r := None) \<and> N' = N(sandbox_name r := None))"
    unfolding remove_locked_def b p
    apply (intro calm_liftE [OF refl] calm_status assms(1))
    apply (rule gives_try [OF gives_cat(3) [OF assms(1,6,11,12,10)]])
    using resources by auto
  show ?thesis
    unfolding Remove_def option.case
    apply (simp only: assms(2-4) not_True_eq_False if_False simp_thms)
    apply (rule calm_status [OF assms(1)], rule gives_try [OF gives_lock [OF assms(1) _ assms(6,7,8)]])
     apply (simp add: assms(5))
    apply clarsimp
    apply (rule gives_deferUnlock [OF assms(1) body])
    done
qed

section \<open>A sandbox can always be removed\<close>

lemma gives_serve:
  assumes "gives M N m (\<lambda>_ M' N'. R M' N')" and "stored (ss_store (sv_node s)) M N"
  obtains M' N' where "stored (ss_store (sv_node (snd (m s)))) M' N'" and "R M' N'"
proof -
  have "wp m (\<lambda>_ s'. \<exists>M' N'. stored (ss_store (sv_node s')) M' N' \<and> R M' N') (\<lambda>_ _. False) s" using assms by (simp add: gives_def)
  then have "wp m (\<lambda>_ s'. \<exists>M' N'. stored (ss_store (sv_node s')) M' N' \<and> R M' N') (\<lambda>_ s'. \<exists>M' N'. stored (ss_store (sv_node s')) M' N' \<and> R M' N') s"
    by (rule wp_mono) simp_all
  then show thesis using that by (auto simp: wp_snd)
qed

lemma refers_update:
  assumes "refers M N ref r" and "has M r" and "sb_ID v = sb_ID r" and "\<And>i q. M i = Some q \<Longrightarrow> sb_ID q = i"
  shows "refers (M(sb_ID r \<mapsto> v)) N ref v"
proof (cases "N ref")
  case None
  then have "ref = sb_ID r" using assms(1,4) by (simp add: refers_def)
  then show ?thesis using None by (simp add: refers_def)
next
  case (Some i)
  then have "i = sb_ID r" using assms(1,4) by (simp add: refers_def)
  then show ?thesis using Some by (simp add: refers_def)
qed

definition removal :: "Sandbox \<Rightarrow> string \<Rightarrow> StopOptions \<Rightarrow> request list" where
  "removal r ref opts = (if sb_State r \<in> set active_states then [R_stop ref opts] else []) @ [R_remove ref]"

text \<open>
  C3. On a host whose calls succeed and with no other operation running, stopping a sandbox that is Starting, Running
  or Stopping and then removing it, or removing it at once in any other state, ends with its record and its name
  gone and every other record and name untouched, by name or by identity. It is taken that the backend and network
  owner of the sandbox are registered, that its lock path is permitted, that its generation is not at the end of
  the range and has room below it for the start it records, that its identity is not the name of a sandbox, and that it is
  not a Creating reservation without NICs that asks for a network by name.
\<close>

theorem stop_and_remove_progress:
  assumes "calm H" and "runtime_ready d" and "d_disks d" and "StopOptions_Validate opts = None" and "ref \<noteq> []"
    and "stored (ss_store (sv_node s)) M N" and "refers M N ref r" and "sb_ID r \<notin> dom N" and "lockable d H (sb_ID r)"
    and "served d r" and "movable r" and "sb_State r \<in> set active_states \<Longrightarrow> \<exists>g. stopProcessGeneration r = Inr g"
    and "\<not> (sb_State r = SandboxStateCreating \<and> nameless_owner r)"
  shows "stored (ss_store (sv_node (serve_all (Some d) H (removal r ref opts) s))) (M(sb_ID r := None)) (N(sandbox_name r := None))"
proof -
  have ids: "M i = Some q \<Longrightarrow> sb_ID q = i" for i q
    using assms(6) sandboxes_Some(3) [of "mem_records (ss_store (sv_node s))" i q] by (auto simp: stored_def)
  have has: "has M r" using assms(7) ids by (auto simp: refers_def has_def split: option.splits)
  have remove: "stored (ss_store (sv_node (serve (Some d) H (R_remove ref) s'))) (M(sb_ID r := None)) (N(sandbox_name r := None))"
    if s': "stored (ss_store (sv_node s')) (M(sb_ID r \<mapsto> v)) N" and v: "later 2 (sb_State v) r v" and st: "removable v" for s' v
  proof -
    have id: "sb_ID v = sb_ID r" and name: "sandbox_name v = sandbox_name r" using v by (simp_all add: later_def)
    have ok: "served d v" using assms(10) later_provider [OF v] v by (auto simp: served_def later_def)
    have "gives (M(sb_ID r \<mapsto> v)) N (Remove (Some d) H ref) (\<lambda>_ M' N'. M' = (M(sb_ID r \<mapsto> v))(sb_ID v := None) \<and> N' = N(sandbox_name v := None))"
      by (rule gives_Remove [OF assms(1-3,5) refers_update [OF assms(7) has id ids] _ _ _ ok st])
        (use assms(8,9,11) v in \<open>auto simp: has_def later_def movable_def\<close>)
    from gives_serve [OF this s'] show ?thesis by (auto simp: serve_def id name)
  qed
  show ?thesis
  proof (cases "sb_State r \<in> set active_states")
    case True
    then obtain g where g: "stopProcessGeneration r = Inr g" using assms(12) by blast
    have "gives M N (StopWithOptions (Some d) H ref opts) (\<lambda>v M' N'. N' = N \<and> M' = M(sb_ID r \<mapsto> v) \<and> later 2 SandboxStateStopped r v)"
      by (rule gives_Stop [OF assms(1,2,4,5,7) has assms(8-11) True g])
    then have "gives M N (StopWithOptions (Some d) H ref opts) (\<lambda>_ M' N'. \<exists>v. N' = N \<and> M' = M(sb_ID r \<mapsto> v) \<and> later 2 SandboxStateStopped r v)"
      by (rule gives_weaken) blast
    from gives_serve [OF this assms(6)] obtain v where "stored (ss_store (sv_node (serve (Some d) H (R_stop ref opts) s))) (M(sb_ID r \<mapsto> v)) N"
        and v: "later 2 SandboxStateStopped r v" by (auto simp: serve_def)
    moreover have "removable v" using v by (simp add: later_def removable_def active_states_def)
    ultimately show ?thesis using True remove [of _ v] v by (simp add: removal_def later_def)
  next
    case False
    then have "removable r" using assms(13) by (simp add: removable_def)
    moreover have "later 2 (sb_State r) r r" using assms(11) by (simp add: later_def movable_def)
    moreover have "M(sb_ID r \<mapsto> r) = M" using has by (simp add: has_def fun_upd_idem)
    ultimately show ?thesis using False assms(6) remove [of s r] by (simp add: removal_def)
  qed
qed

text \<open>A catalog that holds one sandbox, and a running one in it.\<close>

definition single_store :: "Sandbox \<Rightarrow> store" where
  "single_store r = \<lparr>mem_records = [(''sandboxes'', [(sb_ID r, P_sandbox (encode_sandbox r))]),
     (''sandbox_names'', [(sandbox_name r, P_name \<lparr>name_ID = sb_ID r\<rparr>)])], mem_closed = False\<rparr>"

lemma single_stored:
  assumes "Sandbox_Validate r = None" and "wf_digest (sb_ImageDigest r)"
  shows "stored (single_store r) [sb_ID r \<mapsto> r] [sandbox_name r \<mapsto> sb_ID r]"
proof -
  let ?t = "mem_records (single_store r)"
  note d = decode_encode_sandbox [OF assms]
  have recs: "sandboxes ?t = [sb_ID r \<mapsto> r]" "sandbox_names ?t = [sandbox_name r \<mapsto> sb_ID r]"
    using d by (auto simp: sandboxes_def sandbox_names_def lookup_def single_store_def fun_eq_iff)
  have "index_ok (sandboxes ?t) (sandbox_names ?t) sandbox_name"
    unfolding recs using valid_name_nonempty [OF assms(1)] by (simp add: index_ok_def)
  moreover have "tx_ok ?t" "declared ?t CollectionSandboxes" "declared ?t CollectionNames"
    by (simp_all add: tx_ok_def keys_ok_def declared_def single_store_def)
  ultimately have "sandbox_inv ?t"
    using d by (auto simp: sandbox_inv_def single_store_def lookup_def split: if_splits)
  then show ?thesis using recs by (simp add: stored_def) (simp add: single_store_def)
qed

definition running_sandbox :: Sandbox where
  "running_sandbox = sample_sandbox\<lparr>sb_State := SandboxStateRunning, sb_Generation := 3\<rparr>"

lemma running_valid: "Sandbox_Validate running_sandbox = None" "wf_digest (sb_ImageDigest running_sandbox)"
proof -
  have "cfg_NICs (sb_Config sample_sandbox) = 0" "cfg_NetworkName (sb_Config sample_sandbox) = []" "sb_Failure sample_sandbox = None"
      "net_Backend (sb_Network sample_sandbox) = []"
    by (simp_all add: sample_sandbox_def sample_config_def NetworkSetup_zero_def)
  moreover have "SandboxStateRunning \<in> set valid_states" by (simp add: valid_states_def)
  ultimately show "Sandbox_Validate running_sandbox = None"
    using sample_sandbox_valid by (simp add: running_sandbox_def Validate_None network_owner_check_def nameless_owner_def)
  show "wf_digest (sb_ImageDigest running_sandbox)" using sample_wf by (simp add: running_sandbox_def)
qed

definition running_state :: svc where
  "running_state = \<lparr>sv_node = sample_node\<lparr>ss_store := single_store running_sandbox\<rparr>, sv_trace = []\<rparr>"

lemma running_stored: "stored (ss_store (sv_node running_state)) [sample_id \<mapsto> running_sandbox] [''box'' \<mapsto> sample_id]"
  using single_stored [OF running_valid] by (simp add: running_state_def running_sandbox_def sample_ids)

lemma sample_calm: "calm sample_host"
  by (simp add: calm_def sample_host_def)

lemma sample_lockable: "lockable sample_service sample_host sample_id"
proof -
  have "sandbox_Lock sample_fs DefaultRoots sample_id = Inr (''/run/kumabox/locks/sandboxes/'' @ sample_id @ ''.lock'')" by code_simp
  then show ?thesis by (simp add: lockable_def sample_host_def sample_service_def)
qed

lemma running_orderly:
  "served sample_service running_sandbox" "movable running_sandbox" "stopProcessGeneration running_sandbox = Inr 2"
proof -
  show "served sample_service running_sandbox"
    by (simp add: served_def sample_service_def registry_Backend_def VMMType_Validate_def networkProvider_def running_sandbox_def sample_sandbox_def
        sample_config_def NetworkSetup_zero_def)
  show "movable running_sandbox" using running_valid(1) by (simp add: movable_def) (simp add: running_sandbox_def)
  show "stopProcessGeneration running_sandbox = Inr 2" by (simp add: stopProcessGeneration_def running_sandbox_def word_le_nat_alt)
qed

theorem stop_and_remove_progress_witness:
  "stored (ss_store (sv_node (serve_all (Some sample_service) sample_host
     [R_stop ''box'' \<lparr>stop_Force = False, stop_Timeout = 0\<rparr>, R_remove ''box''] running_state))) Map.empty Map.empty"
proof -
  let ?o = "\<lparr>stop_Force = False, stop_Timeout = 0\<rparr>"
  have r: "sb_ID running_sandbox = sample_id" "sandbox_name running_sandbox = ''box''" "sb_State running_sandbox = SandboxStateRunning"
    by (simp_all add: running_sandbox_def sample_ids)
  have "runtime_ready sample_service" "d_disks sample_service"
    by (simp_all add: runtime_ready_def sample_service_def vmm_Len_def)
  moreover have "StopOptions_Validate ?o = None" by (simp add: StopOptions_Validate_def)
  moreover have "refers [sample_id \<mapsto> running_sandbox] [''box'' \<mapsto> sample_id] ''box'' running_sandbox" by (simp add: refers_def)
  moreover have "sample_id \<noteq> ''box''" by (simp add: sample_id_def)
  ultimately show ?thesis
    using stop_and_remove_progress [OF sample_calm, of sample_service ?o "''box''" running_state "[sample_id \<mapsto> running_sandbox]" "[''box'' \<mapsto> sample_id]" running_sandbox]
      running_stored sample_lockable running_orderly
    by (simp add: r removal_def active_states_def)
qed

section \<open>Reconciliation settles every record\<close>

text \<open>What becomes of a record when no VMM survived: an unfinished creation or deletion is removed, an active
  sandbox is stopped, and a settled one is kept.\<close>

definition halted :: "Sandbox \<Rightarrow> Sandbox \<Rightarrow> bool" where
  "halted r v \<longleftrightarrow> (\<exists>u. \<not> IsZero u \<and> v = advance r SandboxStateStopped None u) \<and> unat (sb_Generation v) = unat (sb_Generation r) + 1"

lemma halted_advance: "unat (sb_Generation r) + 1 < 2 ^ 64 \<Longrightarrow> \<not> IsZero u \<Longrightarrow> halted r (advance r SandboxStateStopped None u)"
  using generation_next [of "sb_Generation r" 1] by (auto simp: halted_def)

definition settles :: "Sandbox \<Rightarrow> Sandbox option \<Rightarrow> bool" where
  "settles r x \<longleftrightarrow> (if sb_State r \<in> {SandboxStateCreating, SandboxStateDeleting} then x = None
     else if sb_State r \<in> set active_states then (\<exists>v. x = Some v \<and> halted r v) else x = Some r)"

lemma settles_stopped: "sb_State r \<in> set active_states \<Longrightarrow> halted r v \<Longrightarrow> settles r (Some v)"
  by (auto simp: settles_def active_states_def)

text \<open>The record can be reconciled.\<close>

definition orderly :: "sandboxDependencies \<Rightarrow> host \<Rightarrow> Sandbox \<Rightarrow> bool" where
  "orderly d H r \<longleftrightarrow> lockable d H (sb_ID r) \<and> served d r \<and> movable r
     \<and> (sb_State r \<in> set active_states \<longrightarrow> (\<exists>g. stopProcessGeneration r = Inr g)) \<and> \<not> (sb_State r = SandboxStateCreating \<and> nameless_owner r)"

text \<open>No VMM survived, and nobody else holds an operation lock.\<close>

definition rebooted :: "host \<Rightarrow> bool" where
  "rebooted H \<longleftrightarrow> calm H \<and> (\<forall>tr. obs_State (h_observation H tr) = ProcessAbsent) \<and> (\<forall>tr. h_found H tr)"

lemma gives_reconcile_runtime:
  assumes "rebooted H" and "has M r" and "orderly d H r" and "sb_State r \<in> set active_states"
  shows "gives M N (reconcile_runtime d H r) (\<lambda>(_, rm) M' N'. \<not> rm \<and> N' = N \<and> (\<exists>v. M' = M(sb_ID r \<mapsto> v) \<and> halted r v))"
proof -
  have calm: "calm H" using assms(1) by (simp add: rebooted_def)
  obtain b p g where b: "registry_Backend (d_runtimes d) (sb_VMM r) = Inr b" and p: "networkProvider d r = Inr p"
    and g: "stopProcessGeneration r = Inr g" using assms(3,4) by (auto simp: orderly_def served_def)
  have v: "Sandbox_Validate r = None" "unat (sb_Generation r) + 1 < 2 ^ 64" using assms(3) by (simp_all add: orderly_def movable_def)
  have absent: "obs_State (h_observation H tr) = ProcessAbsent" for tr using assms(1) by (simp add: rebooted_def)
  show ?thesis
    unfolding reconcile_runtime_def b g
    apply (intro bind_steps(4) [OF refl] bind_steps(1) [OF calm])
    apply (simp add: absent)
    apply (intro bind_steps(5) bind_steps(2) [OF calm], rule gives_bind [OF gives_quiesce [OF calm p]])
    apply (elim conjE, hypsubst, rule gives_bind [OF gives_cat(2) [OF calm assms(2) v assms(4)]])
    using halted_advance [OF v(2)] by (auto intro!: gives_ret)
qed

lemma gives_reconcile_locked:
  assumes "rebooted H" and "has M r" and "sb_ID r \<notin> dom N" and "orderly d H r"
  shows "gives M N (reconcile_locked d H (sb_ID r)) (\<lambda>(_, rm) M' N'. N' = N \<and>
    (if rm then (\<exists>v. M' = M(sb_ID r \<mapsto> v) \<and> later 1 SandboxStateDeleting r v)
       \<and> sb_State r \<in> {SandboxStateCreating, SandboxStateDeleting}
     else \<exists>x. M' = M(sb_ID r := x) \<and> settles r x))"
    (is "gives M N _ ?Q")
proof -
  have calm: "calm H" using assms(1) by (simp add: rebooted_def)
  have ref: "refers M N (sb_ID r) r" using assms(2,3) by (auto simp: refers_def has_def split: option.split)
  have v: "Sandbox_Validate r = None" "unat (sb_Generation r) + 1 < 2 ^ 64" using assms(4) by (simp_all add: orderly_def movable_def)
  have state: "sb_State r \<in> set valid_states" using v(1) by (simp add: Validate_None)
  have same: "M(sb_ID r \<mapsto> r) = M" "M(sb_ID r := Some r) = M" using assms(2) by (simp_all add: has_def fun_upd_idem)
  have del: "later 1 SandboxStateDeleting r (deleting r u)" if "removable r" "\<not> IsZero u" for u
    using that v advance_valid [OF v that(2), of SandboxStateDeleting] generation_next [of "sb_Generation r" 1]
    by (auto simp: later_def deleting_def removable_def)
  have "gives M N (if sb_State r = SandboxStateCreating then
       bindM (cat_BeginDelete H (sb_ID r) (sb_Generation r)) (\<lambda>_. retM (''removed-stale-create'', True))
     else if sb_State r = SandboxStateDeleting then retM (''finished-delete'', True)
     else if List.member [SandboxStateStarting, SandboxStateRunning, SandboxStateStopping] (sb_State r) then reconcile_runtime d H r
     else if List.member [SandboxStateCreated, SandboxStateStopped, SandboxStateError] (sb_State r) then retM ([], False)
     else failN id ClassCorrupt CodeArtifactCorrupt ''unknown sandbox state'') ?Q"
  proof -
    consider (creating) "sb_State r = SandboxStateCreating" | (deleting) "sb_State r = SandboxStateDeleting"
      | (active) "sb_State r \<in> set active_states" | (idle) "sb_State r \<in> {SandboxStateCreated, SandboxStateStopped, SandboxStateError}"
      using state by (auto simp: valid_states_def active_states_def)
    then show ?thesis
    proof cases
      case creating
      then have rm: "removable r" using assms(4) by (simp add: removable_def orderly_def active_states_def)
      have "gives M N (bindM (cat_BeginDelete H (sb_ID r) (sb_Generation r)) (\<lambda>_. retM (''removed-stale-create'', True))) ?Q"
        apply (rule gives_bind [OF gives_cat(3) [OF calm assms(2) v rm]], elim conjE exE, rule gives_ret)
        subgoal for w M' N' u using del [OF rm, of u] creating by (auto intro!: exI [of _ w])
        done
      then show ?thesis using creating by simp
    next
      case deleting
      have "later 1 SandboxStateDeleting r r" using v(1) deleting by (simp add: later_def)
      then show ?thesis using deleting same by (auto intro!: gives_ret exI [of _ r])
    next
      case active
      have "gives M N (reconcile_runtime d H r) ?Q"
        by (rule gives_weaken [OF gives_reconcile_runtime [OF assms(1,2,4) active]], clarsimp)
          (blast intro: settles_stopped [OF active])
      then show ?thesis using active by (auto simp: active_states_def)
    next
      case idle
      then have "settles r (Some r)" by (auto simp: settles_def active_states_def)
      then show ?thesis using idle same by (auto intro!: gives_ret exI [of _ "Some r"])
    qed
  qed
  then show ?thesis
    unfolding reconcile_locked_def by (intro gives_bind [OF gives_Resolve [OF calm ref]]) (elim conjE, hypsubst)
qed

lemma gives_reconcileSandbox:
  assumes "rebooted H" and "runtime_ready d" and "d_disks d" and "has M r" and "sb_ID r \<notin> dom N" and "orderly d H r"
  shows "gives M N (reconcileSandbox d H r) (\<lambda>(_, busy, e) M' N'. \<not> busy \<and> e = None \<and> dom N' \<subseteq> dom N \<and> (\<exists>x. M' = M(sb_ID r := x) \<and> settles r x))"
    (is "gives M N _ ?Q")
proof -
  have calm: "calm H" and found: "\<And>tr. h_found H tr" using assms(1) by (simp_all add: rebooted_def)
  have remove: "gives M' N' (tryM (Remove (Some d) H (sb_ID r)) h (\<lambda>_. retM (action, False, None))) ?Q"
    if w: "N' = N" "M' = M(sb_ID r \<mapsto> v)" "later 1 SandboxStateDeleting r v" "sb_State r \<in> {SandboxStateCreating, SandboxStateDeleting}"
    for M' N' v action h
  proof -
    have id: "sb_ID v = sb_ID r" using w(3) by (simp add: later_def)
    have "served d v" using assms(6) later_provider [OF w(3)] w(3) by (auto simp: orderly_def served_def later_def)
    moreover have "removable v" "has M' v" "refers M' N' (sb_ID r) v" using w assms(5)
      by (auto simp: later_def removable_def active_states_def has_def refers_def split: option.splits)
    moreover have "sb_ID r \<noteq> []" using assms(6) by (auto simp: orderly_def movable_def Validate_None valid_id_def ParseSandboxID_def)
    ultimately have "gives M' N' (Remove (Some d) H (sb_ID r)) (\<lambda>_ M'' N''. M'' = M'(sb_ID v := None) \<and> N'' = N'(sandbox_name v := None))"
      using assms(5,6) w by (intro gives_Remove [OF calm assms(2,3)]) (auto simp: later_def orderly_def movable_def)
    moreover have "settles r None" using w(4) by (simp add: settles_def)
    ultimately show ?thesis by (elim gives_try) (use w(1,2) id in \<open>auto intro!: gives_ret split: if_splits\<close>)
  qed
  show ?thesis
    unfolding reconcileSandbox_def
    apply (rule gives_query, rule calm_lifted)
     apply (use assms(6) in \<open>simp add: orderly_def lockable_def\<close>)
    apply (rule calm_ask [OF calm])
    apply (simp add: found)
    apply (rule gives_try [OF gives_reconcile_locked [OF assms(1,4-6)]])
    subgoal for out M' N'
      by (cases out; cases "snd out")
        (auto simp: errors_Join_def intro!: attempt_call [OF calm] gives_ret remove [unfolded One_nat_def])
    done
qed

text \<open>The loop over the listed records, which have different identities.\<close>

lemma gives_reconcile_loop:
  assumes "rebooted H" and "runtime_ready d" and "d_disks d"
  shows "distinct (map sb_ID rs) \<Longrightarrow> \<forall>r \<in> set rs. has M r \<and> sb_ID r \<notin> dom N \<and> orderly d H r \<Longrightarrow>
    gives M N (reconcile_loop d H actions skipped [] rs) (\<lambda>(_, sk, e) M' _. sk = skipped \<and> e = None
      \<and> (\<forall>r \<in> set rs. settles r (M' (sb_ID r))) \<and> (\<forall>i. i \<notin> sb_ID ` set rs \<longrightarrow> M' i = M i))"
proof (induction rs arbitrary: M N actions)
  case Nil
  then show ?case by (auto intro!: gives_ret simp: errors_Join_def)
next
  case (Cons r rs)
  have ctx: "h_ctx H tr = None" for tr using assms(1) by (simp add: rebooted_def calm_def)
  have r: "has M r" "sb_ID r \<notin> dom N" "orderly d H r" using Cons.prems(2) by simp_all
  show ?case
    apply (simp only: reconcile_loop.simps, rule gives_query, simp only: ctx option.case)
    apply (rule gives_bind [OF gives_reconcileSandbox [OF assms r]])
    apply (clarsimp simp: Let_def split del: if_split)
    subgoal for action N' x
      apply (rule gives_weaken [OF Cons.IH])
      using Cons.prems apply simp
      using Cons.prems apply (auto simp: has_def image_iff) [1]
      using Cons.prems apply (auto simp: image_iff) [1]
      done
    done
qed

lemma gives_List:
  assumes "calm H"
  shows "gives M N (cat_List H) (\<lambda>rs M' N'. M' = M \<and> N' = N \<and> distinct (map sb_ID rs) \<and> set rs = ran M \<and> (\<forall>r \<in> set rs. has M r))"
  unfolding gives_def
proof (intro allI impI)
  fix s :: svc assume st: "stored (ss_store (sv_node s)) M N"
  let ?t = "mem_records (ss_store (sv_node s))"
  have inv: "sandbox_inv ?t" and live: "\<not> mem_closed (ss_store (sv_node s))" and M: "sandboxes ?t = M" using st by (simp_all add: stored_def)
  let ?items = "map (\<lambda>(i, _). the (sandboxes ?t i)) (entries ?t CollectionSandboxes)"
  have dom: "fst ` set (entries ?t CollectionSandboxes) = dom M" using entries_keys_dom [OF inv] M by simp
  have id: "sb_ID (the (M i)) = i" if "i \<in> dom M" for i using that sandboxes_Some(3) [OF inv] M by force
  have "sb_ID (the (M i)) = i" if "(i, p) \<in> set (entries ?t CollectionSandboxes)" for i p using id dom that by force
  then have "map sb_ID ?items = map fst (entries ?t CollectionSandboxes)" by (auto simp: M)
  then have distinct: "distinct (map sb_ID (sort_key (\<lambda>r. (- sb_CreatedAt r, sb_ID r)) ?items))"
    using entries_sorted [OF sandbox_invD(1,2) [OF inv]] by (simp only: distinct_map_sort)
  have "set ?items = (\<lambda>i. the (M i)) ` dom M" unfolding dom [symmetric] M by force
  also have "\<dots> = ran M" by (force simp: ran_def dom_def)
  finally have set: "set (sort_key (\<lambda>r. (- sb_CreatedAt r, sb_ID r)) ?items) = ran M" by (simp only: set_sort)
  have has: "\<forall>r \<in> ran M. has M r" using id by (force simp: has_def ran_def)
  have "sandbox_List None (ss_store (sv_node s)) = Inr (sort_key (\<lambda>r. (- sb_CreatedAt r, sb_ID r)) ?items)"
    by (simp add: sandbox_List_def View_live [OF live] Scan_list [OF inv])
  then have "cat_List H s = (Inr (sort_key (\<lambda>r. (- sb_CreatedAt r, sb_ID r)) ?items), \<lparr>sv_node = sv_node s, sv_trace = Ev C_list None # sv_trace s\<rparr>)"
    using assms by (simp add: cat_List_def catalog_read_def tryM_def query_def catalog_def reading_def calm_def err_of_def)
  with distinct set has st show "wp (cat_List H) (\<lambda>rs s'. \<exists>M' N'. stored (ss_store (sv_node s')) M' N' \<and> M' = M \<and> N' = N \<and> distinct (map sb_ID rs)
      \<and> set rs = ran M \<and> (\<forall>r \<in> set rs. has M r)) (\<lambda>_ _. False) s"
    by (simp only: wp_def prod.case sum.case svc.select_convs) blast
qed

text \<open>
  C2. When no VMM survived a restart of the host, its calls succeed and no other operation runs, one reconciliation
  reports no error and no busy sandbox and leaves every record settled: unfinished creations and deletions are
  gone, every Starting, Running or Stopping sandbox is Stopped, with its generation advanced by exactly one and
  everything but its state, failure and update time as it was, and the other records are unchanged. The stored
  records are taken to be orderly: the backend and the network owner of a record are registered, its lock path
  is permitted, its generation is not at the end of the range and has room below it for the start it records
  (above one when Running, above two when Stopping); none is a reservation without NICs that asks for a network by name, which cannot be deleted
  (\<open>Service_Outcomes.unowned_reservation_stuck\<close>); and no identity is the name of a sandbox.
\<close>

theorem reconcile_settles:
  assumes "rebooted H" and "runtime_ready d" and "d_disks d" and "stored (ss_store (sv_node s)) M N"
    and "\<And>i r. M i = Some r \<Longrightarrow> i \<notin> dom N \<and> orderly d H r"
  shows "\<exists>actions s' M' N'. ReconcileSandboxes (Some d) H s = (Inr (actions, 0, None), s') \<and> stored (ss_store (sv_node s')) M' N'
    \<and> (\<forall>i. case M i of None \<Rightarrow> M' i = None | Some r \<Rightarrow> settles r (M' i))"
proof -
  have calm: "calm H" using assms(1) by (simp add: rebooted_def)
  have ids: "M i = Some q \<Longrightarrow> sb_ID q = i" for i q
    using assms(4) sandboxes_Some(3) [of "mem_records (ss_store (sv_node s))" i q] by (auto simp: stored_def)
  let ?R = "\<lambda>(_, sk, e) M' (_ :: string \<rightharpoonup> string). sk = 0 \<and> e = None \<and> (\<forall>i. case M i of None \<Rightarrow> M' i = None | Some r \<Rightarrow> settles r (M' i))"
  have loop: "gives M N (reconcile_loop d H [] 0 [] rs) ?R" if "distinct (map sb_ID rs)" "set rs = ran M" "\<forall>r \<in> set rs. has M r" for rs
  proof -
    have "\<forall>r \<in> set rs. has M r \<and> sb_ID r \<notin> dom N \<and> orderly d H r" using that(3) assms(5) by (auto simp: has_def)
    note g = gives_reconcile_loop [OF assms(1-3) that(1) this]
    have "case M i of None \<Rightarrow> M' i = None | Some r \<Rightarrow> settles r (M' i)"
      if m: "\<forall>r \<in> ran M. settles r (M' (sb_ID r))" "\<forall>i. i \<notin> sb_ID ` ran M \<longrightarrow> M' i = M i" for M' i
    proof (cases "M i")
      case None
      then have "i \<notin> sb_ID ` ran M" using ids by (auto simp: ran_def)
      then show ?thesis using m(2) None by simp
    next
      case (Some r)
      then show ?thesis using m(1) ids by (auto simp: ran_def)
    qed
    then show ?thesis by (intro gives_weaken [OF g]) (auto simp: that(2))
  qed
  have "gives M N (ReconcileSandboxes (Some d) H) ?R"
    unfolding ReconcileSandboxes_def using assms(2)
    by (simp add: runtime_ready_def) (rule gives_bind [OF gives_List [OF calm]], use loop in blast)
  then have "wp (ReconcileSandboxes (Some d) H) (\<lambda>v s'. \<exists>M' N'. stored (ss_store (sv_node s')) M' N' \<and> ?R v M' N') (\<lambda>_ _. False) s"
    using assms(4) by (simp add: gives_def)
  then show ?thesis
    by (cases "ReconcileSandboxes (Some d) H s"; cases "fst (ReconcileSandboxes (Some d) H s)") (auto simp: wp_def)
qed

theorem reconcile_settles_witness:
  "\<exists>actions s' M' N' v. ReconcileSandboxes (Some sample_service) sample_host running_state = (Inr (actions, 0, None), s')
    \<and> stored (ss_store (sv_node s')) M' N' \<and> M' sample_id = Some v \<and> sb_State v = SandboxStateStopped \<and> sb_Generation v = 4"
proof -
  have r: "sb_ID running_sandbox = sample_id" "sandbox_name running_sandbox = ''box''" "sb_State running_sandbox = SandboxStateRunning"
    by (simp_all add: running_sandbox_def sample_ids)
  have "rebooted sample_host" using sample_calm by (simp add: rebooted_def) (simp add: sample_host_def)
  moreover have "runtime_ready sample_service" "d_disks sample_service"
    by (simp_all add: runtime_ready_def sample_service_def vmm_Len_def)
  moreover have "orderly sample_service sample_host running_sandbox"
    using running_orderly sample_lockable by (auto simp: orderly_def r)
  moreover have "sample_id \<notin> dom [''box'' \<mapsto> sample_id]" by (simp add: sample_id_def)
  ultimately have "\<exists>actions s' M' N'. ReconcileSandboxes (Some sample_service) sample_host running_state = (Inr (actions, 0, None), s')
      \<and> stored (ss_store (sv_node s')) M' N'
      \<and> (\<forall>i. case [sample_id \<mapsto> running_sandbox] i of None \<Rightarrow> M' i = None | Some r \<Rightarrow> settles r (M' i))"
    by (intro reconcile_settles [OF _ _ _ running_stored]) (auto split: if_splits)
  then obtain actions s' M' N' where "ReconcileSandboxes (Some sample_service) sample_host running_state = (Inr (actions, 0, None), s')"
      "stored (ss_store (sv_node s')) M' N'" "settles running_sandbox (M' sample_id)"
    by (metis fun_upd_same option.simps(5))
  then show ?thesis by (auto simp: r settles_def halted_def active_states_def) (auto simp: running_sandbox_def)
qed

end
