(* ===== verification/Service_Outcomes.thy ===== *)
theory Service_Outcomes
  imports Service_Progress
begin

text \<open>
  What the outcome of a service operation tells its caller: the flag \<open>Committed\<close> of an error, the state of
  a returned record, and that a host without failures brings an operation to its end.
\<close>

section \<open>The flag of an error\<close>

text \<open>\<open>Committed\<close> as a caller reads it, with \<open>errors.As\<close>.\<close>

definition committed_error :: "gerr \<Rightarrow> bool" where
  "committed_error e \<longleftrightarrow> (case errors_As e of None \<Rightarrow> False | Some c \<Rightarrow> err_Committed c)"

lemma committed_WithContext: "committed_error (the (WithContext a (Some e) info)) \<longleftrightarrow> ctx_Committed info \<or> committed_error e"
  by (simp add: committed_error_def WithContext_def split: option.split)

lemma committed_Join: "committed_error e \<Longrightarrow> committed_error (the (errors_Join [Some e, u]))"
  by (cases u) (auto simp: committed_error_def errors_Join_def split: option.splits)

lemma service_info_committed [simp]: "ctx_Committed (service_info op en ph act c) = c"
  by (simp add: service_info_def)

text \<open>The metadata changed only by what other operations did.\<close>

definition others_only :: "host \<Rightarrow> svc \<Rightarrow> svc \<Rightarrow> bool" where
  "others_only H s s' \<longleftrightarrow> (\<lambda>n n'. \<exists>tr. n' = h_env H tr n)\<^sup>*\<^sup>* (sv_node s) (sv_node s')"

lemma others_refl: "others_only H s s"
  by (simp add: others_only_def)

lemma others_trans: "others_only H s t \<Longrightarrow> others_only H t u \<Longrightarrow> others_only H s u"
  unfolding others_only_def by (rule rtranclp_trans)

lemma others_env: "sv_node s' = h_env H tr (sv_node s) \<Longrightarrow> others_only H s s'"
  unfolding others_only_def by (rule r_into_rtranclp) blast

text \<open>A run that left the metadata to others unless its result is marked, and one whose every result is.\<close>

definition clean :: "host \<Rightarrow> ('e, 'a) svcM \<Rightarrow> ('a \<Rightarrow> bool) \<Rightarrow> ('e \<Rightarrow> bool) \<Rightarrow> bool" where
  "clean H m T C \<longleftrightarrow> (\<forall>s. wp m (\<lambda>v s'. T v \<or> others_only H s s') (\<lambda>e s'. C e \<or> others_only H s s') s)"

definition marked :: "('e, 'a) svcM \<Rightarrow> ('a \<Rightarrow> bool) \<Rightarrow> ('e \<Rightarrow> bool) \<Rightarrow> bool" where
  "marked m T C \<longleftrightarrow> (\<forall>s. wp m (\<lambda>v _. T v) (\<lambda>e _. C e) s)"

lemma marked_clean: "marked m T C \<Longrightarrow> clean H m T C"
  unfolding marked_def clean_def by (intro allI, rule wp_mono, erule spec) simp_all

lemma marked_try:
  assumes "marked m T C" and "\<And>e. C e \<Longrightarrow> marked (h e) T' C'" and "\<And>v. T v \<Longrightarrow> marked (k v) T' C'"
  shows "marked (tryM m h k) T' C'"
  unfolding marked_def wp_try
proof
  fix s :: svc
  have "wp m (\<lambda>v _. T v) (\<lambda>e _. C e) s" using assms(1) by (simp add: marked_def)
  then show "wp m (\<lambda>v. wp (k v) (\<lambda>v _. T' v) (\<lambda>e _. C' e)) (\<lambda>e. wp (h e) (\<lambda>v _. T' v) (\<lambda>e _. C' e)) s"
    by (rule wp_mono) (use assms(2,3) in \<open>auto simp: marked_def\<close>)
qed

lemma marked_any: "marked m (\<lambda>_. True) (\<lambda>_. True)"
  by (simp add: marked_def wp_snd)

text \<open>After a prefix with any outcome, the handler and the continuation are marked.\<close>

lemma marked_after: "(\<And>e. marked (h e) T C) \<Longrightarrow> (\<And>v. marked (k v) T C) \<Longrightarrow> marked (tryM m h k) T C"
  by (rule marked_try [OF marked_any])

lemma marked_bind: "(\<And>e. C e) \<Longrightarrow> (\<And>v. marked (k v) T C) \<Longrightarrow> marked (bindM m k) T C"
  unfolding bindM_def by (rule marked_after) (simp_all add: marked_def)

lemma marked_query: "(\<And>v. marked (k v) T C) \<Longrightarrow> marked (bindM (query f) k) T C"
  by (simp add: marked_def)

lemma marked_ret: "T v \<Longrightarrow> marked (retM v) T C"
  by (simp add: marked_def)

lemma marked_fail: "C e \<Longrightarrow> marked (failM e) T C"
  by (simp add: marked_def)

lemma marked_failW: "(\<And>e'. committed_error e' \<longleftrightarrow> ctx_Committed info \<or> committed_error e \<Longrightarrow> C (g e')) \<Longrightarrow> marked (failW g info e) T C"
  by (simp add: marked_def committed_WithContext)

lemma marked_withCtx: "(\<And>e'. committed_error e' \<longleftrightarrow> ctx_Committed info \<or> committed_error e \<Longrightarrow> T e') \<Longrightarrow> marked (withCtx info e) T C"
  by (simp add: marked_def committed_WithContext)

lemma marked_if: "(b \<Longrightarrow> marked m T C) \<Longrightarrow> (\<not> b \<Longrightarrow> marked m' T C) \<Longrightarrow> marked (if b then m else m') T C"
  by simp

lemma marked_let: "(\<And>z. z = y \<Longrightarrow> marked (k z) T C) \<Longrightarrow> marked (let z = y in k z) T C"
  by simp

lemma marked_prod: "(\<And>a b. y = (a, b) \<Longrightarrow> marked (k a b) T C) \<Longrightarrow> marked (case y of (a, b) \<Rightarrow> k a b) T C"
  by (cases y) simp

lemma clean_try:
  assumes "clean H m T C" and "\<And>e. \<not> C e \<Longrightarrow> clean H (h e) T' C'" and "\<And>e. C e \<Longrightarrow> marked (h e) T' C'"
    and "\<And>v. \<not> T v \<Longrightarrow> clean H (k v) T' C'" and "\<And>v. T v \<Longrightarrow> marked (k v) T' C'"
  shows "clean H (tryM m h k) T' C'"
  unfolding clean_def wp_try
proof
  fix s :: svc
  have step: "wp m' (\<lambda>v s''. T' v \<or> others_only H s s'') (\<lambda>e s''. C' e \<or> others_only H s s'') s'"
    if "b \<Longrightarrow> marked m' T' C'" "\<not> b \<Longrightarrow> clean H m' T' C'" "b \<or> others_only H s s'" for m' b s'
  proof (cases b)
    case True
    with that(1) have "wp m' (\<lambda>v _. T' v) (\<lambda>e _. C' e) s'" by (simp add: marked_def)
    then show ?thesis by (rule wp_mono) simp_all
  next
    case False
    with that(2) have "wp m' (\<lambda>v s''. T' v \<or> others_only H s' s'') (\<lambda>e s''. C' e \<or> others_only H s' s'') s'" by (simp add: clean_def)
    then show ?thesis by (rule wp_mono) (use that(3) False others_trans in blast)+
  qed
  have "wp m (\<lambda>v s'. T v \<or> others_only H s s') (\<lambda>e s'. C e \<or> others_only H s s') s" using assms(1) by (simp add: clean_def)
  then show "wp m (\<lambda>v. wp (k v) (\<lambda>v s'. T' v \<or> others_only H s s') (\<lambda>e s'. C' e \<or> others_only H s s'))
      (\<lambda>e. wp (h e) (\<lambda>v s'. T' v \<or> others_only H s s') (\<lambda>e s'. C' e \<or> others_only H s s')) s"
    by (rule wp_mono) (use assms(2-5) in \<open>auto intro!: step\<close>)
qed

abbreviation never :: "'a \<Rightarrow> bool" where
  "never \<equiv> (\<lambda>_. False)"

lemma clean_quiet: "clean H m never never \<Longrightarrow> clean H m T C"
  unfolding clean_def by (intro allI, rule wp_mono, erule spec) simp_all

lemma clean_steps [simp]:
  "clean H (retM v) T C" "clean H (failM e) T C" 
  by (simp_all add: clean_def others_refl)

lemma clean_pure:
  shows "clean H (query f) T C" and "clean H (failN g cl code m) T' C" and "clean H (failW g info e) T' C"
  by (simp_all add: clean_def others_refl)

lemma clean_liftE: "clean H (liftE r) T C"
  by (simp add: clean_def others_refl split: sum.split)

lemma clean_withCtx: "clean H (withCtx info e) T C"
  by (simp add: clean_def others_refl)

lemma clean_ask: "clean H (ask H c f) T C"
  by (auto simp: clean_def split: option.split intro!: others_env)

lemma clean_call: "clean H (call H c) T C"
  unfolding call_def by (rule clean_ask)

lemma clean_read: "clean H (catalog_read H context c f) T C"
  by (auto simp: clean_def catalog_read_def wp_def tryM_def query_def catalog_def reading_def Let_def split: sum.splits intro!: others_env)

lemma clean_bind:
  assumes "clean H m T C" and "\<And>v. \<not> T v \<Longrightarrow> clean H (k v) T' C" and "\<And>v. T v \<Longrightarrow> marked (k v) T' C"
  shows "clean H (bindM m k) T' C"
  unfolding bindM_def by (rule clean_try [OF assms(1)]) (use assms(2,3) in \<open>auto intro: marked_fail\<close>)

lemma clean_try_quiet:
  assumes "clean H m never never" and "\<And>e. clean H (h e) T C" and "\<And>v. clean H (k v) T C"
  shows "clean H (tryM m h k) T C"
  by (rule clean_try [OF assms(1)]) (use assms(2,3) in auto)

lemma clean_bind_quiet: "clean H m never never \<Longrightarrow> (\<And>v. clean H (k v) T C) \<Longrightarrow> clean H (bindM m k) T C"
  unfolding bindM_def by (rule clean_try_quiet) simp_all

lemma clean_attempt: "clean H m never never \<Longrightarrow> clean H (attempt m) T C"
  unfolding attempt_def by (rule clean_try_quiet) simp_all

lemma clean_if: "(b \<Longrightarrow> clean H m T C) \<Longrightarrow> (\<not> b \<Longrightarrow> clean H m' T C) \<Longrightarrow> clean H (if b then m else m') T C"
  by simp

lemma clean_option: "(y = None \<Longrightarrow> clean H m T C) \<Longrightarrow> (\<And>z. y = Some z \<Longrightarrow> clean H (k z) T C) \<Longrightarrow> clean H (case y of None \<Rightarrow> m | Some z \<Rightarrow> k z) T C"
  by (cases y) simp_all

lemma clean_prod: "(\<And>a b. y = (a, b) \<Longrightarrow> clean H (k a b) T C) \<Longrightarrow> clean H (case y of (a, b) \<Rightarrow> k a b) T C"
  by (cases y) simp

lemma clean_let: "(\<And>z. z = y \<Longrightarrow> clean H (k z) T C) \<Longrightarrow> clean H (let z = y in k z) T C"
  by simp

text \<open>A catalog write that fails leaves the catalog.\<close>

lemma update_failed: "update_with ctx st info fn = (Inl e, st') \<Longrightarrow> st' = st"
  by (erule update_with_cases) simp_all

lemma clean_write:
  assumes "\<And>ctx now st e st'. f ctx now st = (Inl e, st') \<Longrightarrow> st' = st"
    and "\<And>ctx now st v st'. f ctx now st = (Inr v, st') \<Longrightarrow> T v"
  shows "clean H (catalog_write H context c f) T C"
  unfolding clean_def
proof
  fix s :: svc
  define tr n where d: "tr = sv_trace s" "n = h_env H (sv_trace s) (sv_node s)"
  obtain r st' where f: "f (context tr) (h_now H tr) (ss_store n) = (r, st')" by fastforce
  have run: "catalog_write H context c f s = catalog H c (on_store (f (context tr) (h_now H tr))) s"
    by (simp add: catalog_write_def tryM_def query_def d)
  show "wp (catalog_write H context c f) (\<lambda>v s'. T v \<or> others_only H s s') (\<lambda>e s'. C e \<or> others_only H s s') s"
  proof (cases r)
    case (Inl e)
    then have "st' = ss_store n" using f assms(1) by blast
    then have "others_only H s (snd (catalog_write H context c f s))"
      unfolding run using Inl f by (intro others_env [of _ H tr]) (simp add: catalog_def on_store_def d Let_def)
    then show ?thesis by (auto simp: wp_def split: prod.splits sum.splits)
  next
    case (Inr v)
    then show ?thesis using f assms(2) [of "context tr" "h_now H tr" "ss_store n" v st']
      by (simp add: wp_def run catalog_def on_store_def d Let_def)
  qed
qed

lemma clean_cat:
  shows "clean H (cat_BeginStart H i g) (\<lambda>_. True) C" and "clean H (cat_MarkRunning H i g) (\<lambda>_. True) C"
    and "clean H (cat_BeginStop H i g) (\<lambda>_. True) C" and "clean H (cat_MarkStopped H i g st) (\<lambda>_. True) C"
    and "clean H (cat_BeginDelete H i g) (\<lambda>_. True) C"
  unfolding cat_write_defs
  by (rule clean_write; (auto simp: catalog_write_defs dest: update_failed split: if_splits; fail)?)+

lemma transition_generation:
  assumes "sandbox_transition ctx st i g from to failure now = (Inr r, st')"
  shows "sb_Generation r = g + 1 \<and> sb_State r = to"
  using assms unfolding sandbox_transition_def
proof (cases rule: update_with_cases)
  case (committed v t)
  then show ?thesis
    by (auto simp: modify_sandbox_def bindE_Inr_iff transition_body_def commit_record_def advance_def split: if_splits option.splits)
qed simp

lemma clean_MarkStopped: "clean H (cat_MarkStopped H i g st) (\<lambda>r. sb_Generation r = g + 1) C"
  unfolding cat_MarkStopped_def
  by (rule clean_write; auto simp: sandbox_MarkStopped_def sandbox_transition_def dest: update_failed split: if_splits;
      fold sandbox_transition_def; drule transition_generation; simp)

section \<open>Start\<close>

lemmas clean_rules = clean_steps clean_pure clean_liftE clean_withCtx clean_ask clean_call clean_read clean_bind_quiet clean_try_quiet clean_attempt
  clean_if clean_option clean_prod clean_let

lemma clean_status: "clean H (status H m) T C" "clean H (report H r) T C"
  unfolding status_def report_def by (rule clean_call)+

lemma clean_network: "clean H (quiesceNetwork d H r) T C" "clean H (recoverNetwork d H r) T C"
  unfolding quiesceNetwork_def recoverNetwork_def by (intro clean_rules clean_status)+

lemma marked_failStart: "marked (failStart d H b r phase cause q) committed_error C"
proof -
  have a: "marked (attempt m) (\<lambda>_. True) C" for m :: "(gerr, 'x) svcM" and C :: "'y \<Rightarrow> bool"
    by (simp add: marked_def wp_snd)
  show ?thesis
    unfolding failStart_def bindM_def Let_def
    by (intro marked_try [OF a] marked_fail marked_withCtx) simp_all
qed

abbreviation body_committed :: "Sandbox \<times> gerr \<times> bool \<Rightarrow> bool" where
  "body_committed \<equiv> (\<lambda>(_, e, _). committed_error e)"

abbreviation flagged :: "Sandbox \<times> bool \<Rightarrow> bool" where
  "flagged \<equiv> (\<lambda>(_, c). c)"

lemma marked_abandon: "marked (abandon_start d H b r phase q cause) T body_committed"
  unfolding abandon_start_def bindM_def
  by (rule marked_try [OF marked_failStart [where C = "\<lambda>_. False"]]) (auto intro: marked_fail)

lemma marked_start_launch: "marked (start_launch d H b ref plan st) flagged body_committed"
  unfolding start_launch_def Let_def
  by (intro marked_after marked_abandon marked_query marked_failW marked_ret) simp_all

lemma clean_recoverStart:
  "clean H (recoverStart d H b r) (\<lambda>(r', done). done \<or> sb_Generation r' \<noteq> sb_Generation r \<or> sb_State r' \<noteq> sb_State r) committed_error"
  (is "clean H _ ?T _")
proof -
  let ?O = "\<lambda>out. \<exists>v. out = Some v \<and> ?T v"
  have fs: "marked (bindM (failStart d H b r phase cause q) failM) ?O committed_error" for phase cause q
    unfolding bindM_def by (rule marked_try [OF marked_failStart [where C = never]]) (auto intro: marked_fail)
  have running: "clean H (recoverRunning d H b r ob) ?O committed_error" for ob
    unfolding recoverRunning_def
    by (intro clean_if clean_steps clean_bind_quiet clean_call clean_network clean_bind [OF clean_MarkStopped] marked_ret) auto
  have starting: "clean H (recoverStarting d H b r ob) ?O committed_error" for ob
    unfolding recoverStarting_def
    by (intro clean_if clean_steps clean_bind_quiet clean_call clean_bind [OF clean_cat(2)] clean_try_quiet clean_try [OF clean_cat(2)]
        marked_ret fs marked_clean [OF fs]) auto
  have idle: "clean H (recoverIdle H b r ob) ?O committed_error" for ob
    unfolding recoverIdle_def by (intro clean_rules)
  show ?thesis
    unfolding recoverStart_def Let_def
    apply (intro clean_if clean_pure, rule clean_bind_quiet [OF clean_status(1)], rule clean_bind_quiet [OF clean_ask])
    apply (rule clean_bind [where T = ?O], intro clean_if running starting idle)
     apply (intro clean_option clean_steps clean_pure)
    apply (auto intro: marked_ret)
    done
qed

lemma clean_failBeforeLaunch: "clean H (failBeforeLaunch d H b ref r False phase cause) T body_committed"
  unfolding failBeforeLaunch_def bindM_def
  by (intro clean_if clean_pure marked_clean marked_try [OF marked_failStart [where C = never]]) (auto intro: marked_fail)

lemma marked_failBeforeLaunch: "marked (failBeforeLaunch d H b ref r True phase cause) T body_committed"
  unfolding failBeforeLaunch_def bindM_def
  by (intro marked_if marked_failW marked_try [OF marked_failStart [where C = never]]) (auto intro: marked_fail)

lemma clean_WithAvailable:
  assumes "\<And>im. clean H (use im) never never"
  shows "clean H (WithAvailable H p ref use) T C"
proof -
  have each: "clean H (eachM f xs) T C" if "\<And>x. clean H (f x) never never" for f :: "'x \<Rightarrow> (gerr, unit) svcM" and xs T C
    by (induction xs) (simp_all add: clean_bind_quiet that)
  have raise: "clean H (\<lambda>s. (Inl (g s), s)) T C" for g :: "svc \<Rightarrow> gerr" and T :: "unit \<Rightarrow> bool" and C
    by (simp add: clean_def wp_def others_refl)
  have avail: "clean H (availableFile H path n) T C" for path n T C
    unfolding availableFile_def by (intro clean_rules) (auto split: lstat.split file_kind.split intro!: clean_pure raise)
  show ?thesis
    unfolding WithAvailable_def image_under_locks_def availableImage_def availableLayer_def
    by (intro clean_rules each avail assms)
qed

lemma clean_image_launch_plan: "clean H (image_launch_plan d H r im) T C"
  unfolding image_launch_plan_def by (intro clean_rules)

lemma clean_start_fresh: "clean H (start_fresh d H b ref r False) flagged body_committed"
  unfolding start_fresh_def
  by (intro clean_bind_quiet clean_try_quiet clean_pure clean_liftE clean_call clean_status clean_failBeforeLaunch clean_if clean_steps clean_prod
      clean_WithAvailable clean_image_launch_plan clean_try [OF clean_cat(1)] marked_start_launch) simp_all

lemma marked_start_fresh: "marked (start_fresh d H b ref r True) flagged body_committed"
  unfolding start_fresh_def
  by (intro marked_query marked_after marked_failBeforeLaunch marked_prod marked_failW marked_start_launch) simp_all

lemma clean_start_locked: "clean H (start_locked d H ref r) flagged body_committed"
  unfolding start_locked_def
  apply (rule clean_try_quiet [OF clean_liftE], simp)
  apply (rule clean_try [OF clean_recoverStart])
     apply (rule clean_pure)
    apply (rule marked_failW, simp)
   apply (rule clean_prod, simp add: clean_start_fresh)
  apply (rule marked_prod, simp only: Let_def)
  subgoal for backend out result dn
    by (cases "sb_Generation result \<noteq> sb_Generation r \<or> sb_State result \<noteq> sb_State r")
      (auto intro!: marked_if marked_after marked_failW marked_ret marked_start_fresh)
  done

section \<open>Stop and Remove\<close>

lemma stop_info_committed [simp]: "ctx_Committed (stop_info ref ph act c) = c" "ctx_Committed (removal_info ref ph act c) = c"
  by (simp_all add: stop_info_def removal_info_def)

lemma clean_stop_finish: "clean H (stop_finish d H b ref r False) flagged body_committed"
  unfolding stop_finish_def
  by (intro clean_try_quiet clean_status clean_pure clean_call clean_network clean_if clean_steps clean_try [OF clean_cat(4)]
      marked_after marked_failW marked_ret) simp_all

lemma marked_stop_finish: "marked (stop_finish d H b ref r True) flagged body_committed"
  unfolding stop_finish_def by (intro marked_after marked_failW marked_if marked_ret) simp_all

lemma marked_stop_process: "marked (stop_process d H b ref opts q ex (r, True)) flagged body_committed"
  unfolding stop_process_def prod.case by (intro marked_if marked_after marked_failW marked_stop_finish) simp_all

lemma clean_stop_locked: "clean H (stop_locked d H ref opts r) flagged body_committed"
  unfolding stop_locked_def stop_idle_def stop_active_def
  by (intro clean_try_quiet clean_bind_quiet clean_liftE clean_status clean_pure clean_call clean_ask clean_network clean_if clean_steps
      clean_try [OF clean_cat(3)] marked_stop_process)
    (auto simp: stop_process_def intro!: clean_if clean_try_quiet clean_status clean_pure clean_call clean_stop_finish)

lemma marked_remove_resources: "marked (remove_resources H b ref p r) flagged body_committed"
  unfolding remove_resources_def retain_removal_def by (intro marked_after marked_failW marked_ret) simp_all

lemma clean_remove_locked: "clean H (remove_locked d H ref r) flagged body_committed"
  unfolding remove_locked_def
  by (intro clean_try_quiet clean_liftE clean_status clean_steps clean_try [OF clean_cat(5)] marked_remove_resources) simp_all

section \<open>The deferred unlock\<close>

abbreviation error_committed :: "Sandbox \<times> gerr \<Rightarrow> bool" where
  "error_committed \<equiv> (\<lambda>(_, e). committed_error e)"

lemma clean_lock: "clean H (lockExistingSandbox d H req) never never"
  unfolding lockExistingSandbox_def cat_Resolve_def by (intro clean_rules clean_status)

lemma wp_outcome: "wp (Pair (Inr v)) Q E s = Q v s" "wp (Pair (Inl e)) Q E s = E e s"
  by (simp_all add: wp_def)

text \<open>A body whose flag and error tell that it wrote, under the deferred unlock.\<close>

lemma clean_deferUnlock:
  assumes "clean H body flagged body_committed" and "\<And>c. ctx_Committed (info c) = c"
  shows "clean H (deferUnlock H i info body) (\<lambda>_. True) error_committed"
  unfolding clean_def
proof
  fix s :: svc
  obtain r s1 where b: "body s = (r, s1)" by fastforce
  have c: "wp body (\<lambda>v s'. flagged v \<or> others_only H s s') (\<lambda>e s'. body_committed e \<or> others_only H s s') s"
    using assms(1) by (simp add: clean_def)
  have l: "others_only H s1 (push H (C_unlock i) u s1)" for u by (rule others_env) simp
  have "wp (tryM (call H (C_unlock i)) (\<lambda>u. failW (\<lambda>e. (end_value r, e)) (info (end_committed r)) (the (errors_Join [end_error r, Some u])))
      (\<lambda>_ s2. (finish r, s2))) (\<lambda>v s'. True \<or> others_only H s s') (\<lambda>e s'. error_committed e \<or> others_only H s s') s1"
  proof (cases r)
    case (Inr x)
    obtain v f where x: "x = (v, f)" by (cases x)
    have o: "f \<or> others_only H s s1" using c b Inr x by (simp add: wp_def)
    show ?thesis using o l [THEN others_trans [of H s s1, rotated]]
      by (auto simp: Inr x finish_def wp_outcome end_committed_def committed_WithContext assms(2) split: option.split)
  next
    case (Inl x)
    obtain v e f where x: "x = (v, e, f)" by (cases x)
    have o: "committed_error e \<or> others_only H s s1" using c b Inl x by (simp add: wp_def)
    show ?thesis using o l [THEN others_trans [of H s s1, rotated]] committed_Join [of e]
      by (auto simp: Inl x finish_def wp_outcome end_error_def end_committed_def committed_WithContext assms(2) split: option.split)
  qed
  then show "wp (deferUnlock H i info body) (\<lambda>v s'. True \<or> others_only H s s') (\<lambda>e s'. error_committed e \<or> others_only H s s') s"
    by (simp add: wp_def deferUnlock_def b)
qed

section \<open>An error without the flag\<close>

lemma clean_Start: "clean H (Start sv H ref) (\<lambda>_. True) error_committed"
  unfolding Start_def no_sandbox_def no_reference_def
  by (intro clean_rules clean_status clean_lock clean_deferUnlock clean_start_locked) simp

lemma clean_Stop: "clean H (StopWithOptions sv H ref opts) (\<lambda>_. True) error_committed"
  unfolding StopWithOptions_def no_sandbox_def no_reference_def
  by (intro clean_rules clean_status clean_lock clean_deferUnlock clean_stop_locked) simp

lemma clean_Remove: "clean H (Remove sv H ref) (\<lambda>_. True) error_committed"
  unfolding Remove_def no_sandbox_def no_reference_def
  by (intro clean_rules clean_status clean_lock clean_deferUnlock clean_remove_locked) simp

lemma clean_error:
  assumes "clean H m (\<lambda>_. True) error_committed" and "m s = (Inl (v, e), s')" and "\<not> committed_error e"
  shows "others_only H s s'"
proof -
  have "wp m (\<lambda>_ _. True) (\<lambda>e s'. error_committed e \<or> others_only H s s') s"
    using assms(1) by (simp add: clean_def)
  then show ?thesis using assms(2,3) by (simp add: wp_def)
qed

section \<open>What a success returns\<close>

text \<open>No other operation runs.\<close>

definition alone :: "host \<Rightarrow> bool" where
  "alone H \<longleftrightarrow> (\<forall>tr n. h_env H tr n = n)"

text \<open>When the operation succeeds, what it returns is true of the metadata.\<close>

definition promises :: "(snapStore \<Rightarrow> bool) \<Rightarrow> ('e, 'a) svcM \<Rightarrow> ('a \<Rightarrow> snapStore \<Rightarrow> bool) \<Rightarrow> bool" where
  "promises P m Q \<longleftrightarrow> (\<forall>s. node_inv (sv_node s) \<longrightarrow> P (sv_node s) \<longrightarrow>
     wp m (\<lambda>v s'. node_inv (sv_node s') \<and> Q v (sv_node s')) (\<lambda>_ _. True) s)"

definition gives_up :: "('e, 'a) svcM \<Rightarrow> bool" where
  "gives_up m \<longleftrightarrow> (\<forall>s. wp m (\<lambda>_ _. False) (\<lambda>_ _. True) s)"

abbreviation anyway :: "snapStore \<Rightarrow> bool" where
  "anyway \<equiv> (\<lambda>_. True)"

lemma up_fail [simp]: "gives_up (failM e)"
  by (simp add: gives_up_def)

lemma up_failN [simp]: "gives_up (failN g cl code msg)"
  by (simp add: gives_up_def)

lemma up_failW [simp]: "gives_up (failW g info e)"
  by (simp add: gives_up_def)

lemma up_bind: "(\<And>v. gives_up (k v)) \<Longrightarrow> gives_up (bindM m k)"
  by (fastforce simp: gives_up_def wp_def bindM_def tryM_def failM_def split: prod.splits sum.splits)

lemma up_handlers [simp]:
  "gives_up (abandon_start d H b r phase q cause)" "gives_up (failBeforeLaunch d H b ref r c phase cause)"
  "gives_up (abandon_create d H r phase cause)" "gives_up (retain_removal ref r phase cause)"
  unfolding abandon_start_def failBeforeLaunch_def abandon_create_def retain_removal_def by (auto intro!: up_bind)

lemma pr_up: "gives_up m \<Longrightarrow> promises P m Q"
  unfolding promises_def gives_up_def by (intro allI impI, rule wp_mono, erule spec) simp_all

lemma pr_try:
  assumes "promises P m R" and "\<And>e. gives_up (h e)" and "\<And>v. promises (R v) (k v) Q"
  shows "promises P (tryM m h k) Q"
  unfolding promises_def wp_try
proof (intro allI impI)
  fix s :: svc assume "node_inv (sv_node s)" "P (sv_node s)"
  with assms(1) have "wp m (\<lambda>v s'. node_inv (sv_node s') \<and> R v (sv_node s')) (\<lambda>_ _. True) s" by (simp add: promises_def)
  then show "wp m (\<lambda>v. wp (k v) (\<lambda>v s'. node_inv (sv_node s') \<and> Q v (sv_node s')) (\<lambda>_ _. True))
      (\<lambda>e. wp (h e) (\<lambda>v s'. node_inv (sv_node s') \<and> Q v (sv_node s')) (\<lambda>_ _. True)) s"
  proof (rule wp_mono)
    show "wp (h e) (\<lambda>v s'. node_inv (sv_node s') \<and> Q v (sv_node s')) (\<lambda>_ _. True) s'" for e s'
      by (rule wp_mono [OF assms(2) [unfolded gives_up_def, rule_format]]) simp_all
  qed (use assms(3) in \<open>simp add: promises_def\<close>)
qed

lemma pr_bind: "promises P m R \<Longrightarrow> (\<And>v. promises (R v) (k v) Q) \<Longrightarrow> promises P (bindM m k) Q"
  unfolding bindM_def by (rule pr_try) simp_all

lemma pr_conseq: "promises P m Q \<Longrightarrow> (\<And>n. P' n \<Longrightarrow> P n) \<Longrightarrow> (\<And>v n. Q v n \<Longrightarrow> Q' v n) \<Longrightarrow> promises P' m Q'"
  unfolding promises_def by (intro allI impI, rule wp_mono [where Q = "\<lambda>v s'. node_inv (sv_node s') \<and> Q v (sv_node s')" and E = "\<lambda>_ _. True"]) auto

lemma pr_ret: "(\<And>n. P n \<Longrightarrow> Q v n) \<Longrightarrow> promises P (retM v) Q"
  by (simp add: promises_def)

lemma pr_query: "(\<And>tr. promises P (k (f tr)) Q) \<Longrightarrow> promises P (bindM (query f) k) Q"
  by (simp add: promises_def)

lemma pr_liftE: "(\<And>v. r = Inr v \<Longrightarrow> promises P (k v) Q) \<Longrightarrow> (\<And>e. gives_up (h e)) \<Longrightarrow> promises P (tryM (liftE r) h k) Q"
  by (cases r) (auto simp: promises_def gives_up_def intro: wp_mono)

text \<open>Host calls leave the metadata; any other procedure keeps its invariant.\<close>

lemma pr_ask: "alone H \<Longrightarrow> promises P (ask H c f) (\<lambda>_. P)" and pr_call: "alone H \<Longrightarrow> promises P (call H c) (\<lambda>_. P)"
  by (simp_all add: promises_def alone_def split: option.split)

lemma pr_status: "alone H \<Longrightarrow> promises P (status H m) (\<lambda>_. P)" and pr_report: "alone H \<Longrightarrow> promises P (report H r) (\<lambda>_. P)"
  unfolding status_def report_def by (rule pr_call, assumption)+

lemma pr_run:
  assumes "alone H" and "runs (node_reach H) m"
  shows "promises P m (\<lambda>_. anyway)"
  unfolding promises_def
proof (intro allI impI)
  fix s :: svc assume inv: "node_inv (sv_node s)"
  have "node_step\<^sup>*\<^sup>* (sv_node s) (sv_node (snd (m s)))"
    using assms by (simp add: runs_def node_reach_def honest_env_def alone_def)
  then have "node_inv (sv_node (snd (m s)))" using inv by induction (auto dest: node_step_inv)
  then show "wp m (\<lambda>_ s'. node_inv (sv_node s') \<and> True) (\<lambda>_ _. True) s"
    by (auto simp: wp_def split: prod.split sum.split)
qed

text \<open>A write returns the record it stored.\<close>

abbreviation kept :: "Sandbox \<Rightarrow> snapStore \<Rightarrow> bool" where
  "kept v n \<equiv> sandboxes (ss_tx n) (sb_ID v) = Some v"

context fenced_body
begin

lemma modify_returns:
  assumes "update_with ctx st info (modify_sandbox ctx' i body) = (Inr v, st')" and "sandbox_inv (mem_records st)"
  shows "sandboxes (mem_records st') i = Some v \<and> sb_ID v = i"
  using assms(1)
proof (cases rule: update_with_cases)
  case (committed x t)
  then have m: "modify_sandbox ctx' i body (mem_records st) = Inr (v, t)" "st' = st\<lparr>mem_records := t\<rparr>" by auto
  then show ?thesis using modify_Inr [OF m(1) assms(2)] sandboxes_Some(3) by auto
qed simp

end

lemma catalog_returns:
  assumes "sandbox_inv (mem_records st)"
  shows "sandbox_MarkRunning ctx st i g u = (Inr v, st') \<Longrightarrow> sandboxes (mem_records st') i = Some v \<and> sb_ID v = i \<and> sb_State v = SandboxStateRunning"
    and "sandbox_MarkStopped ctx st i g st0 u = (Inr v, st') \<Longrightarrow> sandboxes (mem_records st') i = Some v \<and> sb_ID v = i \<and> sb_State v = SandboxStateStopped"
    and "sandbox_MarkCreated ctx st i g nsetup u = (Inr v, st') \<Longrightarrow> sandboxes (mem_records st') i = Some v \<and> sb_ID v = i \<and> sb_State v = SandboxStateCreated"
proof -
  have t: "sandbox_transition ctx st i g st0 to None u = (Inr v, st') \<Longrightarrow> sandboxes (mem_records st') i = Some v \<and> sb_ID v = i \<and> sb_State v = to" for st0 to
    using trans.modify_returns [OF _ assms] transition_generation [of ctx st i g st0 to None u v st'] by (simp add: sandbox_transition_def)
  then show "sandbox_MarkRunning ctx st i g u = (Inr v, st') \<Longrightarrow> sandboxes (mem_records st') i = Some v \<and> sb_ID v = i \<and> sb_State v = SandboxStateRunning"
    and "sandbox_MarkStopped ctx st i g st0 u = (Inr v, st') \<Longrightarrow> sandboxes (mem_records st') i = Some v \<and> sb_ID v = i \<and> sb_State v = SandboxStateStopped"
    by (auto simp: sandbox_MarkRunning_def sandbox_MarkStopped_def split: if_splits)
  assume c: "sandbox_MarkCreated ctx st i g nsetup u = (Inr v, st')"
  then have c': "update_with ctx st (context_info ''create sandbox'' i ''mark created'' ''inspect the sandbox state before retrying'')
      (modify_sandbox ctx i (created_body g nsetup u)) = (Inr v, st')"
    by (auto simp: sandbox_MarkCreated_def split: option.splits)
  then have "sb_State v = SandboxStateCreated"
    by (cases rule: update_with_cases)
      (auto simp: modify_sandbox_def bindE_Inr_iff created_body_def commit_record_def Let_def split: if_splits option.splits)
  with created.modify_returns [OF c' assms]
  show "sandboxes (mem_records st') i = Some v \<and> sb_ID v = i \<and> sb_State v = SandboxStateCreated" by simp
qed

lemma wp_both: "wp m Q (\<lambda>_ _. True) s \<Longrightarrow> wp m Q' (\<lambda>_ _. True) s \<Longrightarrow> wp m (\<lambda>v s'. Q v s' \<and> Q' v s') (\<lambda>_ _. True) s"
  using wp_conj [of m Q Q' "\<lambda>_ _. True" "\<lambda>_ _. True" s] by simp

lemma pr_write:
  assumes "alone H" and "runs (node_reach H) (catalog_write H context c f)"
    and "\<And>ctx now st v st'. f ctx now st = (Inr v, st') \<Longrightarrow> sandbox_inv (mem_records st) \<Longrightarrow> Q v (sandboxes (mem_records st'))"
  shows "promises P (catalog_write H context c f) (\<lambda>v n. Q v (sandboxes (ss_tx n)))"
proof -
  have "wp (catalog_write H context c f) (\<lambda>v s'. Q v (sandboxes (ss_tx (sv_node s')))) (\<lambda>_ _. True) s" if "node_inv (sv_node s)" for s
  proof -
    have inv: "sandbox_inv (ss_tx (sv_node s))" using that by (simp add: node_inv_def)
    have env: "h_env H tr n = n" for tr n using assms(1) by (simp add: alone_def)
    show ?thesis
      using assms(3) [OF _ inv] by (auto simp: wp_def catalog_write_def tryM_def query_def catalog_def on_store_def env Let_def split: prod.splits sum.splits)
  qed
  moreover have "promises P (catalog_write H context c f) (\<lambda>_. anyway)" by (rule pr_run [OF assms(1,2)])
  ultimately show ?thesis
    unfolding promises_def by (auto intro: wp_both)
qed

lemma pr_cat:
  assumes "alone H"
  shows "promises P (cat_MarkRunning H i g) (\<lambda>v n. kept v n \<and> sb_State v = SandboxStateRunning)"
    and "promises P (cat_MarkStopped H i g st0) (\<lambda>v n. kept v n \<and> sb_State v = SandboxStateStopped)"
    and "promises P (cat_MarkCreated H i g nsetup) (\<lambda>v n. kept v n \<and> sb_State v = SandboxStateCreated)"
proof -
  note r = node_run.run_cat [where H = H, OF TrueI]
  show "promises P (cat_MarkRunning H i g) (\<lambda>v n. kept v n \<and> sb_State v = SandboxStateRunning)"
    using pr_write [OF assms r(8) [unfolded cat_MarkRunning_def], where Q = "\<lambda>v M. M (sb_ID v) = Some v \<and> sb_State v = SandboxStateRunning"]
      catalog_returns(1) unfolding cat_MarkRunning_def by fastforce
  show "promises P (cat_MarkStopped H i g st0) (\<lambda>v n. kept v n \<and> sb_State v = SandboxStateStopped)"
    using pr_write [OF assms r(11) [unfolded cat_MarkStopped_def], where Q = "\<lambda>v M. M (sb_ID v) = Some v \<and> sb_State v = SandboxStateStopped"]
      catalog_returns(2) unfolding cat_MarkStopped_def by fastforce
  show "promises P (cat_MarkCreated H i g nsetup) (\<lambda>v n. kept v n \<and> sb_State v = SandboxStateCreated)"
    using pr_write [OF assms r(4) [unfolded cat_MarkCreated_def], where Q = "\<lambda>v M. M (sb_ID v) = Some v \<and> sb_State v = SandboxStateCreated"]
      catalog_returns(3) unfolding cat_MarkCreated_def by fastforce
qed

lemma pr_Resolve:
  assumes "alone H"
  shows "promises P (cat_Resolve H ref) (\<lambda>v n. kept v n)"
  unfolding promises_def
proof (intro allI impI)
  fix s :: svc assume inv: "node_inv (sv_node s)"
  have i: "sandbox_inv (ss_tx (sv_node s))" using inv by (simp add: node_inv_def)
  have "kept v (sv_node s)" if "sandbox_Resolve ctx (ss_store (sv_node s)) ref = Inr v" for ctx v
  proof -
    from that have "resolve_sandbox ctx (ss_tx (sv_node s)) ref = Inr v" "ctx = None"
      by (auto simp: sandbox_Resolve_def ctxE_def View_Inr split: sum.splits)
    then have v: "(case sandbox_names (ss_tx (sv_node s)) ref of Some j \<Rightarrow> Inr (the (sandboxes (ss_tx (sv_node s)) j))
      | None \<Rightarrow> (case sandboxes (ss_tx (sv_node s)) ref of Some r \<Rightarrow> Inr r
          | None \<Rightarrow> Inl (New 0 ClassNotFound CodeNotFound (Some (Msg ''sandbox not found''))))) = Inr v"
      by (simp add: resolve_sandbox_inv [OF i])
    have "\<exists>j. sandboxes (ss_tx (sv_node s)) j = Some v"
    proof (cases "sandbox_names (ss_tx (sv_node s)) ref")
      case None
      then show ?thesis using v by (auto split: option.splits)
    next
      case (Some j)
      then obtain r where "sandboxes (ss_tx (sv_node s)) j = Some r" using index_ok_nameE [OF sandbox_invD(4) [OF i]] by blast
      then show ?thesis using v Some by auto
    qed
    then show ?thesis using sandboxes_Some(3) [OF i] by auto
  qed
  then show "wp (cat_Resolve H ref) (\<lambda>v s'. node_inv (sv_node s') \<and> kept v (sv_node s')) (\<lambda>_ _. True) s"
    using assms inv
    by (cases "sandbox_Resolve (h_ctx H (sv_trace s)) (ss_store (sv_node s)) ref")
      (simp_all add: wp_def cat_Resolve_def catalog_read_def tryM_def query_def catalog_def reading_def alone_def Let_def)
qed

lemma pr_lock:
  assumes "alone H"
  shows "promises P (lockExistingSandbox d H req) (\<lambda>(r, _) n. kept r n)"
  unfolding lockExistingSandbox_def
  by (intro pr_bind [OF pr_Resolve [OF assms]] pr_query pr_bind [OF pr_run [OF assms node_run.run_liftE]]
      pr_bind [OF pr_run [OF assms runs_if [OF node_run.run_status [OF TrueI] node_run.run_ret]]]
      pr_try [OF pr_call [OF assms]] pr_try [OF pr_Resolve [OF assms]] pr_ret up_failW up_bind up_fail) simp

lemma pr_deferUnlock:
  assumes "alone H" and "promises P body (\<lambda>(v, _). Q v)"
  shows "promises P (deferUnlock H i info body) Q"
  unfolding promises_def
proof (intro allI impI)
  fix s :: svc assume "node_inv (sv_node s)" "P (sv_node s)"
  with assms(2) have b: "wp body (\<lambda>(v, _) s'. node_inv (sv_node s') \<and> Q v (sv_node s')) (\<lambda>_ _. True) s"
    by (simp add: promises_def case_prod_unfold)
  obtain r s1 where run: "body s = (r, s1)" by fastforce
  have env: "h_env H tr n = n" for tr n using assms(1) by (simp add: alone_def)
  have "wp (tryM (call H (C_unlock i)) (\<lambda>u. failW (\<lambda>e. (end_value r, e)) (info (end_committed r)) (the (errors_Join [end_error r, Some u])))
      (\<lambda>_ s2. (finish r, s2))) (\<lambda>v s'. node_inv (sv_node s') \<and> Q v (sv_node s')) (\<lambda>_ _. True) s1"
  proof (cases r)
    case (Inr x)
    then show ?thesis using b run by (cases x) (simp add: wp_def [of body] finish_def wp_outcome env split: option.split)
  next
    case (Inl x)
    then show ?thesis by (cases x) (simp add: finish_def wp_outcome split: option.split)
  qed
  then show "wp (deferUnlock H i info body) (\<lambda>v s'. node_inv (sv_node s') \<and> Q v (sv_node s')) (\<lambda>_ _. True) s"
    by (simp add: wp_def deferUnlock_def run)
qed

lemma pr_let: "(\<And>z. z = y \<Longrightarrow> promises P (k z) Q) \<Longrightarrow> promises P (let z = y in k z) Q"
  by simp

lemma pr_if: "(b \<Longrightarrow> promises P m Q) \<Longrightarrow> (\<not> b \<Longrightarrow> promises P m' Q) \<Longrightarrow> promises P (if b then m else m') Q"
  by simp

lemma pr_anyway: "promises anyway m Q \<Longrightarrow> promises P m Q"
  by (rule pr_conseq) simp_all

abbreviation stored_in :: "SandboxState set \<Rightarrow> Sandbox \<Rightarrow> snapStore \<Rightarrow> bool" where
  "stored_in S v n \<equiv> kept v n \<and> sb_State v \<in> S"

lemma pr_start_launch:
  assumes "alone H"
  shows "promises P (start_launch d H b ref plan r) (\<lambda>(v, _). stored_in {SandboxStateRunning} v)"
  unfolding start_launch_def Let_def
  by (intro pr_try [OF pr_run [OF assms node_run.run_liftE]] pr_try [OF pr_run [OF assms node_run.run_recoverNetwork]] pr_try [OF pr_status [OF assms]]
      pr_query pr_try [OF pr_call [OF assms]] pr_try [OF pr_cat(1) [OF assms]] pr_try [OF pr_report [OF assms]] pr_ret up_handlers up_failW TrueI) simp

lemma pr_start_fresh:
  assumes "alone H"
  shows "promises P (start_fresh d H b ref r c) (\<lambda>(v, _). stored_in {SandboxStateRunning} v)"
proof -
  have plan: "runs (node_reach H) (WithAvailable H p im (image_launch_plan d H r))" for p im
    by (intro node_run.run_WithAvailable node_run.run_image_launch_plan TrueI)
  have cpu: "runs (node_reach H) (if h_NumCPU H < k then failN id cl code m else retM ())" for k cl code m
    by (intro runs_if node_run.run_failN node_run.run_ret)
  show ?thesis
    unfolding start_fresh_def
    apply (rule pr_query)
    apply (rule pr_try [OF pr_run [OF assms node_run.run_liftE]], rule up_handlers)+
    apply (rule pr_try [OF pr_call [OF assms]], rule up_handlers)
    apply (rule pr_try [OF pr_status [OF assms]], rule up_handlers)
    apply (rule pr_try [OF pr_call [OF assms]], rule up_handlers)
    apply (rule pr_try [OF pr_run [OF assms cpu]], rule up_handlers)
    apply (rule pr_try [OF pr_status [OF assms]], rule up_handlers)
    apply (rule pr_try [OF pr_run [OF assms plan]], simp add: case_prod_unfold)
    apply (rule pr_try [OF pr_status [OF assms]], rule up_handlers)
    apply (rule pr_try [OF pr_run [OF assms node_run.run_cat(7) [OF TrueI]]], rule up_failW)
    apply (rule pr_start_launch [OF assms])
    done
qed

lemma pr_recoverStart:
  assumes "alone H"
  shows "promises (kept r) (recoverStart d H b r) (\<lambda>(v, done) n. done \<longrightarrow> stored_in {SandboxStateRunning} v n)"
proof -
  let ?Q = "\<lambda>out n. \<forall>v. out = Some (v, True) \<longrightarrow> stored_in {SandboxStateRunning} v n"
  have running: "promises (kept r) (recoverRunning d H b r ob) ?Q" if "sb_State r = SandboxStateRunning" for ob
    unfolding recoverRunning_def
    apply (intro pr_if)
       apply (rule pr_ret, simp add: that)
      apply (rule pr_bind [OF pr_call [OF assms]], rule pr_ret, simp add: that)
     apply (rule pr_bind [OF pr_call [OF assms]], rule pr_bind [OF pr_run [OF assms node_run.run_quiesceNetwork]], simp_all)
     apply (rule pr_bind [OF pr_cat(2) [OF assms]], rule pr_ret, simp)
    apply (rule pr_ret, simp)
    done
  have starting: "promises (kept r) (recoverStarting d H b r ob) ?Q" for ob
    unfolding recoverStarting_def
    by (intro pr_if pr_bind [OF pr_cat(1) [OF assms]] pr_try [OF pr_call [OF assms]] pr_try [OF pr_cat(1) [OF assms]]
        pr_bind [OF pr_call [OF assms]] up_bind up_fail pr_ret) simp_all
  have idle: "promises (kept r) (recoverIdle H b r ob) ?Q" for ob
    unfolding recoverIdle_def by (intro pr_if pr_up [OF up_failN] pr_bind [OF pr_call [OF assms]] pr_ret) simp
  have out: "promises (?Q out) (case out of Some r \<Rightarrow> retM r | None \<Rightarrow> failN id cl code m)
      (\<lambda>(v, done) n. done \<longrightarrow> stored_in {SandboxStateRunning} v n)" for out cl code m
    by (cases out) (auto intro: pr_up pr_ret)
  show ?thesis
    unfolding recoverStart_def Let_def
    apply (intro pr_if pr_up [OF up_failN] pr_bind [OF pr_status [OF assms]] pr_bind [OF pr_ask [OF assms]])
    apply (rule pr_bind [where R = ?Q], intro pr_if running starting idle, assumption, rule out)+
    done
qed

lemma pr_start_locked:
  assumes "alone H"
  shows "promises (kept r) (start_locked d H ref r) (\<lambda>(v, _). stored_in {SandboxStateRunning} v)"
  unfolding start_locked_def
  apply (rule pr_liftE [OF _ up_fail], rule pr_try [OF pr_recoverStart [OF assms] up_failW])
  subgoal for backend x
    by (cases x, simp only: prod.case Let_def)
      (intro pr_if pr_start_fresh [OF assms] pr_try [OF pr_report [OF assms] up_failW] pr_ret, simp)
  done

lemma pr_option: "(y = None \<Longrightarrow> promises P m Q) \<Longrightarrow> (\<And>z. y = Some z \<Longrightarrow> promises P (k z) Q) \<Longrightarrow> promises P (case y of None \<Rightarrow> m | Some z \<Rightarrow> k z) Q"
  by (cases y) simp_all

text \<open>The record is resolved under the lock, and the body runs before the deferred unlock.\<close>

lemma pr_locked:
  assumes "alone H" and "\<And>r. promises (kept r) (body r) (\<lambda>(v, _). Q v)"
  shows "promises P (tryM (status H m) (\<lambda>e. failM (Sandbox_zero, e)) (\<lambda>_. tryM (lockExistingSandbox d H req) (\<lambda>e. failM (Sandbox_zero, e))
    (\<lambda>(r, owner). deferUnlock H owner info (body r)))) Q"
proof (intro pr_try [OF pr_status [OF assms(1)]] pr_try [OF pr_lock [OF assms(1)]] up_fail)
  fix x :: "Sandbox \<times> SandboxID"
  obtain r owner where x: "x = (r, owner)" by (cases x)
  show "promises (case x of (r, _) \<Rightarrow> kept r) (case x of (r, owner) \<Rightarrow> deferUnlock H owner info (body r)) Q"
    unfolding x prod.case by (rule pr_deferUnlock [OF assms])
qed

lemma pr_Start:
  assumes "alone H"
  shows "promises P (Start sv H ref) (stored_in {SandboxStateRunning})"
  unfolding Start_def no_sandbox_def no_reference_def
  by (intro pr_option pr_if pr_up [OF up_fail] pr_up [OF up_failN] pr_locked [OF assms] pr_start_locked [OF assms])

text \<open>Stop.\<close>

lemma pr_quiesce:
  assumes "alone H"
  shows "promises P (quiesceNetwork d H r) (\<lambda>_. P)"
proof -
  have "promises P (case x of None \<Rightarrow> retM () | Some e \<Rightarrow> failM e) (\<lambda>_. P)" for x :: "gerr option"
    by (cases x) (auto intro: pr_ret pr_up)
  moreover have "promises P (attempt (call H c)) (\<lambda>_. P)" for c
    using assms(1) by (simp add: promises_def alone_def split: option.split)
  ultimately have "promises P (bindM (attempt (status H m)) (\<lambda>e. bindM (attempt (call H c)) (\<lambda>q. case errors_Join [e, q] of None \<Rightarrow> retM () | Some e \<Rightarrow> failM e))) (\<lambda>_. P)" for m c
    unfolding status_def by (blast intro: pr_bind)
  then show ?thesis
    unfolding quiesceNetwork_def bindM_def [of "liftE _"] by (intro pr_liftE up_fail) (auto intro: pr_ret split: option.split)
qed

lemma pr_stop_finish:
  assumes "alone H" and "\<And>n. sb_State r = SandboxStateError \<Longrightarrow> P n \<Longrightarrow> kept r n"
  shows "promises P (stop_finish d H b ref r c) (\<lambda>(v, _). stored_in {SandboxStateStopped, SandboxStateError} v)"
  unfolding stop_finish_def
  apply (rule pr_try [OF pr_status [OF assms(1)] up_failW], rule pr_try [OF pr_call [OF assms(1)] up_failW], rule pr_try [OF pr_quiesce [OF assms(1)] up_failW])
  apply (intro pr_if)
   apply (rule pr_try [OF pr_report [OF assms(1)] up_failW], rule pr_ret, use assms(2) in simp)
  apply (rule pr_try [OF pr_status [OF assms(1)] up_failW], rule pr_try [OF pr_cat(2) [OF assms(1)] up_failW])
  apply (rule pr_try [OF pr_report [OF assms(1)] up_failW], rule pr_ret, simp)
  done

abbreviation at_rest :: "SandboxState set" where
  "at_rest \<equiv> {SandboxStateCreated, SandboxStateStopped, SandboxStateError}"

lemma BeginStop_state:
  assumes "sandbox_BeginStop ctx st i g u = (Inr v, st')"
  shows "sb_State v = SandboxStateStopping"
  using assms unfolding sandbox_BeginStop_def
  by (cases rule: update_with_cases)
    (auto simp: modify_sandbox_def bindE_Inr_iff stop_body_def commit_record_Inr split: if_splits option.splits)

lemma pr_stop_locked:
  assumes "alone H"
  shows "promises (kept r) (stop_locked d H ref opts r) (\<lambda>(v, _). stored_in at_rest v)"
proof -
  have idle: "promises (kept r) (stop_idle d H b ref r) (\<lambda>(v, _). stored_in at_rest v)" if "sb_State r = SandboxStateCreated \<or> sb_State r = SandboxStateStopped" for b
    unfolding stop_idle_def
    by (intro pr_try [OF pr_status [OF assms]] pr_try [OF pr_call [OF assms]] pr_try [OF pr_quiesce [OF assms]] pr_try [OF pr_report [OF assms]]
        pr_ret up_fail up_failW) (use that in auto)
  have finish: "promises P (stop_finish d H b ref w c) (\<lambda>(v, _). stored_in at_rest v)" if "\<And>n. sb_State w = SandboxStateError \<Longrightarrow> P n \<Longrightarrow> kept w n" for P b w c
    by (rule pr_conseq [where P = P, OF pr_stop_finish [OF assms that]]) auto
  have process: "promises P (stop_process d H b ref o' q ex (w, c)) (\<lambda>(v, _). stored_in at_rest v)" if "\<And>n. sb_State w = SandboxStateError \<Longrightarrow> P n \<Longrightarrow> kept w n" for P b o' q ex w c
    unfolding stop_process_def prod.case
    by (intro pr_if pr_try [OF pr_status [OF assms]] pr_try [OF pr_call [OF assms]] finish up_failW that)
  have beginning: "promises P (cat_BeginStop H i g) (\<lambda>v n. sb_State v = SandboxStateStopping)" for P i g
    unfolding cat_BeginStop_def
    by (rule pr_write [OF assms node_run.run_cat(10) [OF TrueI, unfolded cat_BeginStop_def], where Q = "\<lambda>v M. sb_State v = SandboxStateStopping"])
      (rule BeginStop_state)
  have active: "promises (kept r) (stop_active d H b ref opts r) (\<lambda>(v, _). stored_in at_rest v)" for b
    unfolding stop_active_def
    apply (rule pr_liftE [OF _ up_fail], rule pr_try [OF pr_status [OF assms] up_fail], rule pr_query, rule pr_try [OF pr_ask [OF assms] up_failW])
    apply (intro pr_if)
     apply (rule pr_try [OF pr_status [OF assms] up_fail], rule pr_try [OF beginning up_failW], rule process, simp)
    apply (rule process, simp)
    done
  show ?thesis
    unfolding stop_locked_def by (intro pr_liftE pr_if pr_up [OF up_failN] up_fail idle active) auto
qed

lemma pr_Stop:
  assumes "alone H"
  shows "promises P (StopWithOptions sv H ref opts) (stored_in at_rest)"
proof -
  have "gives_up (tryM (liftE (Inl e)) (\<lambda>e. failM (Sandbox_zero, e)) retM)" for e by (simp add: gives_up_def)
  then show ?thesis
    unfolding StopWithOptions_def no_sandbox_def no_reference_def Let_def
    by (intro pr_option pr_if pr_up [OF up_fail] pr_up [OF up_failN] pr_locked [OF assms] pr_stop_locked [OF assms]) (rule pr_up)
qed

text \<open>Create and Run.\<close>

lemma pr_create_reserved:
  assumes "alone H"
  shows "promises P (create_reserved d H origin p r) (\<lambda>(v, _). stored_in {SandboxStateCreated} v)"
proof -
  have n: "runs (node_reach H) (if cfg_NICs (sb_Config r) = 0 then create_offline d H p r else create_network d H (the p) r)"
    by (intro runs_if node_run.all_create_network)
  have report: "promises (stored_in {SandboxStateCreated} created) (tryM (report H created) (failW g info) (\<lambda>_. retM (created, c))) (\<lambda>(v, _). stored_in {SandboxStateCreated} v)"
    for created g info c by (intro pr_try [OF pr_report [OF assms]] up_failW pr_ret) simp
  show ?thesis
    unfolding create_reserved_def
    apply (rule pr_bind [OF pr_run [OF assms n]])
    subgoal for x
      apply (cases x, simp only: prod.case)
      apply (rule pr_bind [OF pr_run [OF assms node_run.all_create_disks]], rule pr_try [OF pr_status [OF assms] up_handlers(3)])
      apply (rule pr_try [OF pr_cat(3) [OF assms] up_handlers(3)], rule pr_conseq [OF report], simp_all)
      done
    done
qed

lemma pr_create:
  assumes "alone H"
  shows "promises P (create_sandbox sv H req origin) (stored_in {SandboxStateCreated})"
proof -
  have locked: "promises P (create_locked d H req origin p i) (\<lambda>(v, _). stored_in {SandboxStateCreated} v)" for P d req p i
    unfolding create_locked_def
    apply (rule pr_query, rule pr_try [OF pr_run [OF assms node_run.run_WithAvailable]])
          apply (rule TrueI)+
      apply (simp only: Let_def, intro node_run.run_bind node_run.run_cat(3) [OF TrueI] node_run.run_ret, assumption)
     apply (simp split: prod.split option.split)
    apply (rule pr_create_reserved [OF assms])
    done
  have prepared: "promises P (create_prepared d H req origin p) (stored_in {SandboxStateCreated})" for P d req p
    unfolding create_prepared_def Let_def
    by (intro pr_if pr_up [OF up_failN] pr_try [OF pr_status [OF assms]] pr_try [OF pr_ask [OF assms]] pr_query pr_liftE
        pr_try [OF pr_call [OF assms]] pr_deferUnlock [OF assms] locked up_fail up_failW)
  show ?thesis
    unfolding create_sandbox_def no_sandbox_def Let_def
    by (intro pr_option pr_if pr_up [OF up_fail] pr_up [OF up_failN] pr_liftE up_fail prepared pr_try [OF pr_run [OF assms]]
        runs_if node_run.run_liftE node_run.run_ret)
qed

lemma pr_Run:
  assumes "alone H"
  shows "promises P (Run sv H req) (stored_in {SandboxStateRunning})"
  unfolding Run_def Create_def
  by (rule pr_try [OF pr_create [OF assms]], simp add: case_prod_unfold, rule pr_try [OF pr_Start [OF assms]], simp add: case_prod_unfold)
    (rule pr_ret)

text \<open>Remove.\<close>

lemma Finalize_gone:
  assumes "sandbox_FinalizeDelete ctx st i g = (Inr v, st')"
  shows "sandboxes (mem_records st') i = None"
  using assms unfolding sandbox_FinalizeDelete_def
proof (cases rule: update_with_cases)
  case (committed x t)
  from remove_Inr [OF committed(4)] obtain t1 where "Delete ctx t1 CollectionSandboxes i = Inr t" by blast
  then show ?thesis using committed(5) by (simp add: sandboxes_def lookup_Delete)
qed simp

abbreviation removed :: "Sandbox \<Rightarrow> snapStore \<Rightarrow> bool" where
  "removed v n \<equiv> sandboxes (ss_tx n) (sb_ID v) = None"

lemma pr_Remove:
  assumes "alone H"
  shows "promises P (Remove sv H ref) removed"
proof -
  have fin: "promises P (cat_FinalizeDelete H i g) (\<lambda>_ n. sandboxes (ss_tx n) i = None)" for P i g
    unfolding cat_FinalizeDelete_def
    by (rule pr_write [OF assms node_run.run_cat(13) [OF TrueI, unfolded cat_FinalizeDelete_def], where Q = "\<lambda>_ M. M i = None"])
      (rule Finalize_gone)
  have prov: "runs (node_reach H) (case p of None \<Rightarrow> retM () | Some q \<Rightarrow> status H m)"
    "runs (node_reach H) (case p of None \<Rightarrow> retM () | Some q \<Rightarrow> call H (c q))" for p m and c :: "Provider \<Rightarrow> call"
    by (intro runs_option node_run.run_ret node_run.run_status node_run.run_call TrueI)+
  have resources: "promises P (remove_resources H b ref p w) (\<lambda>(v, _). removed v)" for P b p w
    unfolding remove_resources_def
    apply (rule pr_try [OF pr_status [OF assms] up_handlers(4)], rule pr_try [OF pr_call [OF assms] up_handlers(4)])
    apply (rule pr_try [OF pr_run [OF assms prov(1)] up_handlers(4)], rule pr_try [OF pr_run [OF assms prov(2)] up_handlers(4)])
    apply (rule pr_try [OF pr_status [OF assms] up_handlers(4)], rule pr_try [OF pr_call [OF assms] up_handlers(4)])
    apply (rule pr_try [OF pr_status [OF assms] up_handlers(4)], rule pr_try [OF fin up_handlers(4)])
    apply (rule pr_try [OF pr_report [OF assms] up_failW], rule pr_ret, simp)
    done
  show ?thesis
    unfolding Remove_def no_sandbox_def no_reference_def remove_locked_def
    by (intro pr_option pr_if pr_up [OF up_fail] pr_up [OF up_failN] pr_locked [OF assms] pr_liftE up_fail
        pr_try [OF pr_status [OF assms]] pr_try [OF pr_run [OF assms node_run.run_cat(12) [OF TrueI]]] resources)
qed

lemma promises_result:
  assumes "promises anyway m Q" and "node_inv (sv_node s)" and "m s = (Inr v, s')"
  shows "Q v (sv_node s')"
proof -
  have "wp m (\<lambda>v s'. node_inv (sv_node s') \<and> Q v (sv_node s')) (\<lambda>_ _. True) s" using assms(1,2) by (simp add: promises_def)
  then show ?thesis using assms(3) by (simp add: wp_def)
qed

section \<open>Properties\<close>

text \<open>
  C4. The flag \<open>Committed\<close> can be trusted: when \<open>Start\<close>, \<open>StopWithOptions\<close> or \<open>Remove\<close> returns an error without
  it, on any host and after any failure, the operation itself changed no metadata; whatever changed
  meanwhile was changed by others.
\<close>

theorem unflagged_error_changed_nothing:
  assumes "op \<in> {Start sv H ref, StopWithOptions sv H ref opts, Remove sv H ref}"
    and "op s = (Inl (v, e), s')" and "\<not> committed_error e"
  shows "others_only H s s'"
proof -
  have "clean H op (\<lambda>_. True) error_committed"
    using assms(1) clean_Start [of H sv ref] clean_Stop [of H sv ref opts] clean_Remove [of H sv ref] by (elim insertE emptyE) simp_all
  then show ?thesis by (rule clean_error [where m = op, OF _ assms(2,3)])
qed

text \<open>A host whose operation locks are taken.\<close>

definition busy_host :: host where
  "busy_host = sample_host\<lparr>h_err := (\<lambda>_ c. case c of Sys (S_lock _) \<Rightarrow> Some (Msg ''busy'') | _ \<Rightarrow> None)\<rparr>"

theorem unflagged_error_changed_nothing_witness:
  "\<exists>v e s'. Remove (Some sample_service) busy_host ''box'' running_state = (Inl (v, e), s') \<and> \<not> committed_error e \<and> others_only busy_host running_state s'"
proof -
  let ?e = "the (WithContext (fresh (push busy_host (C_lock sample_id) (Some (Msg ''busy'')) (push busy_host (C_status ''waiting for sandbox operation lock'') None
      (push busy_host (C_resolve ''box'') None (push busy_host (C_status ''resolving sandbox'') None running_state)))) + 9) (Some (Msg ''busy''))
      (service_info ''remove sandbox'' ''box'' ''lock'' ''retry the removal'' False))"
  let ?s = "push busy_host (C_lock sample_id) (Some (Msg ''busy'')) (push busy_host (C_status ''waiting for sandbox operation lock'') None
      (push busy_host (C_resolve ''box'') None (push busy_host (C_status ''resolving sandbox'') None running_state)))"
  have res: "sandbox_Resolve None (ss_store (sv_node running_state)) ''box'' = Inr running_sandbox"
    by (rule progress_Resolve [OF running_stored]) (simp add: refers_def)
  obtain path where "sandbox_Lock sample_fs DefaultRoots sample_id = Inr path"
    using sample_lockable by (auto simp: lockable_def sample_host_def sample_service_def)
  moreover have "runtime_ready sample_service" "d_disks sample_service" "d_paths sample_service = DefaultRoots"
    by (simp_all add: runtime_ready_def sample_service_def vmm_Len_def)
  moreover have "sb_ID running_sandbox = sample_id" by (simp add: running_sandbox_def sample_ids)
  ultimately have run: "Remove (Some sample_service) busy_host ''box'' running_state = (Inl (Sandbox_zero, ?e), ?s)"
    using res
    by (simp add: Remove_def lockExistingSandbox_def cat_Resolve_def catalog_read_def catalog_def reading_def tryM_def bindM_def status_def call_def ask_def
        query_def liftE_def failW_def withCtx_def failM_def push_def busy_host_def sample_host_def err_of_def)
  moreover have "\<not> committed_error ?e" by (simp add: committed_WithContext) (simp add: committed_error_def)
  ultimately show ?thesis
    using unflagged_error_changed_nothing [of "Remove (Some sample_service) busy_host ''box''"] by blast
qed

text \<open>
  C5. What a successful operation returns is stored, when no other operation interferes: \<open>Start\<close> and \<open>Run\<close>
  return the stored record in state Running, \<open>Create\<close> and the creation from a snapshot the stored record in
  state Created, \<open>StopWithOptions\<close> the stored record in a state without a process, and after \<open>Remove\<close> no
  record with the returned identity is left.
\<close>

theorem success_returns_stored_record:
  assumes "alone H" and "node_inv (sv_node s)"
  shows "(Start sv H ref s = (Inr v, s') \<or> Run sv H req s = (Inr v, s') \<longrightarrow>
      sandboxes (ss_tx (sv_node s')) (sb_ID v) = Some v \<and> sb_State v = SandboxStateRunning)
    \<and> (Create sv H req s = (Inr v, s') \<or> createFromSnapshot sv H req origin s = (Inr v, s') \<longrightarrow>
      sandboxes (ss_tx (sv_node s')) (sb_ID v) = Some v \<and> sb_State v = SandboxStateCreated)
    \<and> (StopWithOptions sv H ref opts s = (Inr v, s') \<longrightarrow> sandboxes (ss_tx (sv_node s')) (sb_ID v) = Some v
      \<and> sb_State v \<in> {SandboxStateCreated, SandboxStateStopped, SandboxStateError})
    \<and> (Remove sv H ref s = (Inr v, s') \<longrightarrow> sandboxes (ss_tx (sv_node s')) (sb_ID v) = None)"
proof -
  have clone: "promises P (createFromSnapshot sv H req origin) (stored_in {SandboxStateCreated})" for P
    unfolding createFromSnapshot_def by (intro pr_if pr_up [OF up_failN] pr_create [OF assms(1)])
  note result = promises_result [OF _ assms(2)]
  have "stored_in {SandboxStateRunning} v (sv_node s')" if "Start sv H ref s = (Inr v, s') \<or> Run sv H req s = (Inr v, s')"
    using that by (elim disjE) (erule result [OF pr_Start [OF assms(1)]], erule result [OF pr_Run [OF assms(1)]])
  moreover have "stored_in {SandboxStateCreated} v (sv_node s')" if "Create sv H req s = (Inr v, s') \<or> createFromSnapshot sv H req origin s = (Inr v, s')"
    using that unfolding Create_def by (elim disjE) (erule result [OF pr_create [OF assms(1)]], erule result [OF clone])
  moreover have "stored_in at_rest v (sv_node s')" if "StopWithOptions sv H ref opts s = (Inr v, s')"
    by (rule result [OF pr_Stop [OF assms(1)] that])
  moreover have "removed v (sv_node s')" if "Remove sv H ref s = (Inr v, s')"
    by (rule result [OF pr_Remove [OF assms(1)] that])
  ultimately show ?thesis by simp
qed

lemma gives_succeeds:
  assumes "gives M N m Q" and "stored (ss_store (sv_node s)) M N"
  shows "\<exists>v s'. m s = (Inr v, s')"
proof -
  have "wp m (\<lambda>v s'. \<exists>M' N'. stored (ss_store (sv_node s')) M' N' \<and> Q v M' N') (\<lambda>_ _. False) s" using assms by (simp add: gives_def)
  then show ?thesis by (cases "m s"; cases "fst (m s)") (simp_all add: wp_def)
qed

theorem success_returns_stored_record_witness:
  "\<exists>v s'. Remove (Some sample_service) sample_host ''box'' sample_state = (Inr v, s') \<and> sandboxes (ss_tx (sv_node s')) (sb_ID v) = None"
proof -
  have st: "stored (ss_store (sv_node sample_state)) (sandboxes (ss_tx sample_node)) (sandbox_names (ss_tx sample_node))"
    using sample_node_run by (simp add: stored_def sample_state_def node_inv_def)
  have r: "has (sandboxes (ss_tx sample_node)) sample_sandbox" using sample_node_run(4) by (simp add: has_def sample_ids)
  have inv: "sandbox_inv (ss_tx sample_node)" using sample_node_run(2) by (simp add: node_inv_def)
  have "sandbox_names (ss_tx sample_node) ''box'' = Some sample_id"
    using index_ok_rec [OF sandbox_invD(4) [OF inv] sample_node_run(4)] by (simp add: sample_ids)
  then have "refers (sandboxes (ss_tx sample_node)) (sandbox_names (ss_tx sample_node)) ''box'' sample_sandbox"
    using sample_node_run(4) by (simp add: refers_def)
  moreover have "sb_ID sample_sandbox \<notin> dom (sandbox_names (ss_tx sample_node))"
    using sample_node_good sample_id_valid by (auto simp: good_def plain_names_def sample_ids)
  moreover have "lockable sample_service sample_host (sb_ID sample_sandbox)" using sample_lockable by (simp add: sample_ids)
  moreover have "served sample_service sample_sandbox" using running_orderly(1)
    by (simp add: served_def running_sandbox_def) (simp add: networkProvider_def sample_sandbox_def sample_config_def NetworkSetup_zero_def)
  moreover have "removable sample_sandbox" "Sandbox_Validate sample_sandbox = None" "unat (sb_Generation sample_sandbox) + 1 < 2 ^ 64"
    using sample_sandbox_valid by (simp_all add: removable_def active_states_def nameless_owner_def) (simp_all add: sample_sandbox_def sample_config_def)
  moreover have "runtime_ready sample_service" "d_disks sample_service" by (simp_all add: runtime_ready_def sample_service_def vmm_Len_def)
  ultimately have "gives (sandboxes (ss_tx sample_node)) (sandbox_names (ss_tx sample_node)) (Remove (Some sample_service) sample_host ''box'')
      (\<lambda>_ M' N'. M' = (sandboxes (ss_tx sample_node))(sb_ID sample_sandbox := None) \<and> N' = (sandbox_names (ss_tx sample_node))(sandbox_name sample_sandbox := None))"
    by (intro gives_Remove [OF sample_calm]) (simp_all add: r)
  from gives_succeeds [OF this st] obtain v s' where run: "Remove (Some sample_service) sample_host ''box'' sample_state = (Inr v, s')"
    by blast
  then show ?thesis
    using success_returns_stored_record [of sample_host sample_state "Some sample_service" "''box''" v s'] sample_node_run(2)
    by (auto simp: alone_def sample_state_def) (simp add: sample_host_def)
qed

text \<open>
  C23. A reservation without NICs that asks for a network by name, which a bridge configuration always does, is
  valid as long as it is Creating and in no other state without a network owner. If its creation is
  interrupted, no operation moves it on: marking it for deletion, finalizing a deletion, marking it failed, starting,
  running, stopping or stopped and updating its network are refused, whatever the generation, the context and the other arguments,
  and so is marking it created with a setup that owns no network; the catalog is unchanged. What remains is
  \<open>Forget\<close> with the stored generation, which only the compensation inside the interrupted creation calls, and
  \<open>MarkCreated\<close> with a setup that has a backend, which only the creation itself calls.
\<close>

theorem unowned_reservation_stuck:
  assumes "stored st M N" and "M i = Some r" and "sb_State r = SandboxStateCreating" and "nameless_owner r"
  shows "(\<exists>e. sandbox_BeginDelete ctx st i g u = (Inl e, st)) \<and> (\<exists>e. sandbox_FinalizeDelete ctx st i g = (Inl e, st))
    \<and> (\<exists>e. sandbox_MarkError ctx st i g f u = (Inl e, st)) \<and> (\<exists>e. sandbox_MarkStartError ctx st i g f u = (Inl e, st))
    \<and> (\<exists>e. sandbox_BeginStart ctx st i g u = (Inl e, st)) \<and> (\<exists>e. sandbox_MarkRunning ctx st i g u = (Inl e, st))
    \<and> (\<exists>e. sandbox_BeginStop ctx st i g u = (Inl e, st)) \<and> (\<exists>e. sandbox_MarkStopped ctx st i g old u = (Inl e, st))
    \<and> (\<exists>e. sandbox_UpdateNetwork ctx st i g nsetup n u = (Inl e, st))
    \<and> (net_Backend nsetup = [] \<longrightarrow> (\<exists>e. sandbox_MarkCreated ctx st i g nsetup u = (Inl e, st)))
    \<and> (\<exists>st'. sandbox_Forget None st i (sb_Generation r) = (Inr (), st') \<and> stored st' (M(i := None)) (N(sandbox_name r := None)))"
proof -
  have inv: "sandbox_inv (mem_records st)" and r: "sandboxes (mem_records st) i = Some r" using assms(1,2) by (simp_all add: stored_def)
  have name: "cfg_NetworkName (sb_Config r) \<noteq> []" and nics: "cfg_NICs (sb_Config r) = 0" using assms(4) by (simp_all add: nameless_owner_def)
  have no: "Sandbox_Validate (advance r to f' u) \<noteq> None" if "to \<noteq> SandboxStateCreating" for to f'
    using assms(4) that by (simp add: Validate_None nameless_owner_def)
  have refused: "\<exists>e. update_with ctx st info fn = (Inl e, st)" if "\<And>x. fn (mem_records st) \<noteq> Inr x"
    for info and fn :: "tx \<Rightarrow> gerr + ('b \<times> tx)"
  proof -
    obtain res st' where run: "update_with ctx st info fn = (res, st')" by fastforce
    then show ?thesis by (cases rule: update_with_cases) (use run that in auto)
  qed
  have body: "\<exists>e. update_with ctx st info (modify_sandbox ctx i b) = (Inl e, st)" if "\<And>out. b r \<noteq> Inr out" for b info
    by (rule refused) (use that r in \<open>auto simp: modify_sandbox_def bindE_Inr_iff dest!: load_sandbox_Inr\<close>)
  have bodies: "delete_body g u r \<noteq> Inr out" "start_body g u r \<noteq> Inr out" "stop_body g u r \<noteq> Inr out" "network_body g nsetup n u r \<noteq> Inr out"
    "to \<noteq> SandboxStateCreating \<Longrightarrow> transition_body g from to f' u r \<noteq> Inr out" for out "from" to f'
    using no assms(3) by (auto simp: delete_body_def start_body_def stop_body_def network_body_def transition_body_def commit_record_Inr)
  have created: "created_body g nsetup u r \<noteq> Inr out" if "net_Backend nsetup = []" for out
    using that name nics by (auto simp: created_body_def commit_record_Inr Let_def Validate_None nameless_owner_def)
  have move: "\<exists>e. sandbox_transition ctx st i g from to f' u = (Inl e, st)" if "to \<noteq> SandboxStateCreating" for "from" to f'
    unfolding sandbox_transition_def by (rule body, rule bodies(5) [OF that])
  have "\<exists>e. sandbox_FinalizeDelete ctx st i g = (Inl e, st)"
    unfolding sandbox_FinalizeDelete_def by (rule refused) (use remove_Inr r assms(3) in fastforce)
  moreover have "\<exists>e. sandbox_BeginDelete ctx st i g u = (Inl e, st)" "\<exists>e. sandbox_BeginStart ctx st i g u = (Inl e, st)"
    "\<exists>e. sandbox_BeginStop ctx st i g u = (Inl e, st)"
    unfolding sandbox_BeginDelete_def sandbox_BeginStart_def sandbox_BeginStop_def by (rule body, rule bodies)+
  moreover have "\<exists>e. sandbox_UpdateNetwork ctx st i g nsetup n u = (Inl e, st)"
    unfolding sandbox_UpdateNetwork_def using body [of "network_body g nsetup n u", OF bodies(4)] by (simp split: option.split)
  moreover have "\<exists>e. sandbox_MarkCreated ctx st i g nsetup u = (Inl e, st)" if "net_Backend nsetup = []"
    unfolding sandbox_MarkCreated_def using body [of "created_body g nsetup u", OF created [OF that]] by (simp split: option.split)
  moreover have "\<exists>e. sandbox_MarkError ctx st i g f u = (Inl e, st)" "\<exists>e. sandbox_MarkStartError ctx st i g f u = (Inl e, st)"
    "\<exists>e. sandbox_MarkRunning ctx st i g u = (Inl e, st)" "\<exists>e. sandbox_MarkStopped ctx st i g old u = (Inl e, st)"
    unfolding sandbox_MarkError_def sandbox_MarkStartError_def sandbox_MarkRunning_def sandbox_MarkStopped_def using move by simp_all
  moreover have "\<exists>st'. sandbox_Forget None st i (sb_Generation r) = (Inr (), st') \<and> stored st' (M(i := None)) (N(sandbox_name r := None))"
    unfolding sandbox_Forget_def using progress_remove [OF assms(1), of i r] assms(2,3) by simp
  ultimately show ?thesis by blast
qed

definition bridge_reservation :: Sandbox where
  "bridge_reservation = sample_sandbox\<lparr>sb_Config := sample_config\<lparr>cfg_NetworkName := ''br0'', cfg_NetworkBackend := NetworkBackendBridge\<rparr>\<rparr>"

theorem unowned_reservation_stuck_witness:
  "Sandbox_Validate bridge_reservation = None
    \<and> (\<exists>e. sandbox_BeginDelete None (single_store bridge_reservation) sample_id 1 20 = (Inl e, single_store bridge_reservation))"
proof -
  have "SandboxConfig_Validate (sample_config\<lparr>cfg_NetworkName := ''br0'', cfg_NetworkBackend := NetworkBackendBridge\<rparr>) = None" by code_simp
  then have v: "Sandbox_Validate bridge_reservation = None"
    using sample_sandbox_valid by (simp add: Validate_None bridge_reservation_def network_owner_check_def sample_sandbox_def NetworkSetup_zero_def)
  have "wf_digest (sb_ImageDigest bridge_reservation)" using sample_wf by (simp add: bridge_reservation_def)
  from single_stored [OF v this] have st: "stored (single_store bridge_reservation) [sample_id \<mapsto> bridge_reservation] [''box'' \<mapsto> sample_id]"
    by (simp add: bridge_reservation_def sample_sandbox_def sample_config_def)
  have "nameless_owner bridge_reservation" "sb_State bridge_reservation = SandboxStateCreating"
    by (simp_all add: nameless_owner_def bridge_reservation_def sample_sandbox_def sample_config_def NetworkSetup_zero_def)
  then show ?thesis using v unowned_reservation_stuck [OF st, of sample_id bridge_reservation] by auto
qed

section \<open>Limits\<close>

text \<open>
  The flag of a failed creation is not set: when the disk of a reservation cannot be removed, the sandbox is
  retained in state Error, and the returned error does not tell that metadata was committed.
\<close>

lemma committed_join_two: "\<not> committed_error a \<Longrightarrow> \<not> committed_error b \<Longrightarrow> \<not> committed_error (Join [a, b])"
  by (auto simp: committed_error_def split: option.splits)

lemma progress_MarkError:
  assumes "stored st M N" and "has M r" and "sb_State r = SandboxStateCreating" and "Sandbox_Validate r = None" and "\<not> nameless_owner r"
    and "unat (sb_Generation r) + 1 < 2 ^ 64" and "\<not> IsZero u" and "fail_Phase f \<noteq> []" and "fail_Message f \<noteq> []"
  shows "\<exists>st'. sandbox_MarkError None st (sb_ID r) (sb_Generation r) f u = (Inr (advance r SandboxStateError (Some f) u), st')
    \<and> stored st' (M(sb_ID r \<mapsto> advance r SandboxStateError (Some f) u)) N"
proof -
  have "sb_Generation r + 1 \<noteq> 0" using generation_next [of "sb_Generation r" 1] assms(6) by auto
  moreover have "network_owner_check (advance r SandboxStateError (Some f) u) = None"
    using assms(3,4) by (auto simp: Validate_None network_owner_check_def split: if_splits)
  moreover have "nameless_owner (advance r SandboxStateError (Some f) u) = nameless_owner r" by (simp add: nameless_owner_def)
  moreover have "SandboxStateError \<in> set valid_states" by (simp add: valid_states_def)
  ultimately have "Sandbox_Validate (advance r SandboxStateError (Some f) u) = None" using assms(4,5,7) by (simp add: Validate_None)
  then have "transition_body (sb_Generation r) SandboxStateCreating SandboxStateError (Some f) u r = Inr (Some (advance r SandboxStateError (Some f) u))"
    using assms(3) by (simp add: transition_body_def commit_record_def)
  from trans.modify_progress [OF assms(1) _ this, of "sb_ID r"] show ?thesis
    using assms(2,8,9) by (simp add: sandbox_MarkError_def sandbox_transition_def has_def)
qed

lemma failed_compensation_unflagged:
  assumes "alone H" and "h_err H (sv_trace s) (C_disk_remove (sb_ID r)) = Some busy" and "\<And>tr. h_cleanup H tr = None" and "\<And>tr. \<not> IsZero (h_now H tr)"
    and "networkProvider d r = Inr None" and st: "stored (ss_store (sv_node s)) M N" and "has M r" and "sb_State r = SandboxStateCreating"
    and "Sandbox_Validate r = None" and "\<not> nameless_owner r" and "unat (sb_Generation r) + 1 < 2 ^ 64" and "phase \<noteq> []"
    and "\<not> committed_error cause" and "\<not> committed_error busy"
  shows "\<exists>e s' v. (compensate d H r phase cause :: (gerr, gerr) svcM) s = (Inr e, s') \<and> \<not> committed_error e
    \<and> sandboxes (ss_tx (sv_node s')) (sb_ID r) = Some v \<and> sb_State v = SandboxStateError"
proof -
  let ?f = "\<lparr>fail_Phase = phase, fail_Message = Error_Error (Join [cause, busy])\<rparr>"
  have env: "h_env H tr n = n" for tr n using assms(1) by (simp add: alone_def)
  have m: "fail_Message ?f \<noteq> []" by simp
  define tr where "tr = Ev (C_disk_remove (sb_ID r)) (Some busy) # sv_trace s"
  obtain st' where w: "sandbox_MarkError None (ss_store (sv_node s)) (sb_ID r) (sb_Generation r) ?f (h_now H tr)
      = (Inr (advance r SandboxStateError (Some ?f) (h_now H tr)), st')"
    and st': "stored st' (M(sb_ID r \<mapsto> advance r SandboxStateError (Some ?f) (h_now H tr))) N"
    using progress_MarkError [OF st assms(7-11) assms(4) [of tr], of ?f] assms(12) m by auto
  have j: "errors_Join [Some cause, Some busy] = Some (Join [cause, busy])" by (simp add: errors_Join_def)
  have "wp (compensate d H r phase cause :: (gerr, gerr) svcM) (\<lambda>e s'. \<not> committed_error e \<and> ss_store (sv_node s') = st') (\<lambda>_ _. False) s"
    using w committed_join_two [OF assms(13,14)]
    by (simp add: compensate_def compensate_network_def compensate_retain_def assms(2,3,5) Let_def j create_info_def committed_WithContext
        wp_def bindM_def tryM_def attempt_def call_def ask_def retM_def liftE_def cat_MarkError_def catalog_write_def query_def catalog_def
        on_store_def push_def env tr_def withCtx_def errors_Join_def)
  then show ?thesis
    using st' by (cases "(compensate d H r phase cause :: (gerr, gerr) svcM) s"; cases "fst ((compensate d H r phase cause :: (gerr, gerr) svcM) s)")
      (auto simp: wp_def stored_def)
qed

text \<open>
  A sandbox named like the identity of another one is served in its place, under the lock of the other: the
  record that the lock was taken for is resolved a second time by its identity, and a name takes
  precedence.
\<close>

lemma shadowed_identity_locks_another:
  assumes "calm H" and "refers M N (lr_reference req) a" and "lockable d H (sb_ID a)" and "refers M N (sb_ID a) b"
  shows "gives M N (lockExistingSandbox d H req) (\<lambda>(v, i) M' N'. v = b \<and> i = sb_ID a \<and> M' = M \<and> N' = N)"
  unfolding lockExistingSandbox_def
  apply (rule gives_bind [OF gives_Resolve [OF assms(1,2)]], elim conjE, hypsubst, rule gives_query)
  apply (rule bind_lifted, use assms(3) in \<open>simp add: lockable_def\<close>)
  apply (rule gives_bind [where R = "\<lambda>_ M' N'. M' = M \<and> N' = N"])
   apply (simp add: gives_ret gives_def status_def assms(1) [unfolded calm_def])
  apply (elim conjE, hypsubst, rule calm_call [OF assms(1)], rule gives_try [OF gives_Resolve [OF assms(1,4)]])
  apply (auto intro: gives_ret)
  done

end
