(* ===== verification/Gc_Policy.thy ===== *)
theory Gc_Policy
  imports Snapshot_Lifecycle
begin

text \<open>
  Snapshot eviction (\<open>internal/core/gc_snapshot_policy.go\<close>): the choice of the snapshots to evict, the
  fenced eviction of one of them, and the pass that follows the ordinary collection.
\<close>

section \<open>Choosing what to evict\<close>

definition validateSnapshotEviction :: "SnapshotEvictionPolicy \<Rightarrow> gerr option" where
  "validateSnapshotEviction p = first_error [
     check (ev_KeepLast p < 0 \<or> ev_MaxAge p < 0 \<or> ev_MaxSize p < 0) (Msg ''snapshot eviction limits must not be negative''),
     check (\<not> ev_Enabled p \<and> (ev_DryRun p \<or> ev_KeepLast p \<noteq> 0 \<or> ev_MaxAge p \<noteq> 0 \<or> ev_MaxSize p \<noteq> 0))
       (Msg ''snapshot eviction must be enabled before setting limits'')]"

record snapshotEviction =
  evict_snapshot :: Snapshot
  evict_reason :: string

text \<open>Least recently used first, ties by identity. The catalog's records have distinct identities, so the
  order is total and the sorting algorithm does not matter.\<close>

definition lru :: "Snapshot list \<Rightarrow> Snapshot list" where
  "lru records = sort_key (\<lambda>r. (snap_LastAccessedAt r, snap_ID r)) records"

text \<open>\<open>reasons[id] = append(reasons[id], label)\<close>\<close>

definition labels :: "string list gomap \<Rightarrow> SnapshotID \<Rightarrow> string list" where
  "labels reasons i = (case map_of reasons i of None \<Rightarrow> [] | Some ls \<Rightarrow> ls)"

definition append_reason :: "string \<Rightarrow> Snapshot \<Rightarrow> string list gomap \<Rightarrow> string list gomap" where
  "append_reason label r reasons = AList.update (snap_ID r) (labels reasons (snap_ID r) @ [label]) reasons"

fun all_reasons :: "Snapshot list \<Rightarrow> string list gomap \<Rightarrow> string list gomap" where
  "all_reasons [] m = m"
| "all_reasons (r # rs) m = all_reasons rs (AList.update (snap_ID r) [''lru-all''] m)"

fun age_reasons :: "time \<Rightarrow> Snapshot list \<Rightarrow> string list gomap \<Rightarrow> string list gomap" where
  "age_reasons cutoff [] m = m"
| "age_reasons cutoff (r # rs) m =
     age_reasons cutoff rs (if snap_LastAccessedAt r < cutoff then append_reason ''lru-age'' r m else m)"

fun keep_reasons :: "Snapshot list \<Rightarrow> string list gomap \<Rightarrow> string list gomap" where
  "keep_reasons [] m = m"
| "keep_reasons (r # rs) m = keep_reasons rs (append_reason ''lru-keep'' r m)"

fun size_reasons :: "int \<Rightarrow> int \<Rightarrow> Snapshot list \<Rightarrow> string list gomap \<Rightarrow> string list gomap" where
  "size_reasons limit tot [] m = m"
| "size_reasons limit tot (r # rs) m = (if tot \<le> limit then m
     else size_reasons limit (tot - snap_Size r) rs (append_reason ''lru-size'' r m))"

definition total_size :: "Snapshot list \<Rightarrow> int" where
  "total_size rs = sum_list (map snap_Size rs)"

definition pickSnapshotEvictions :: "Snapshot list \<Rightarrow> SnapshotEvictionPolicy \<Rightarrow> time \<Rightarrow> snapshotEviction list" where
  "pickSnapshotEvictions records policy now =
     (let sorted = lru records;
          m0 = (if ev_KeepLast policy = 0 \<and> ev_MaxAge policy = 0 \<and> ev_MaxSize policy = 0 then all_reasons sorted [] else []);
          m1 = (if 0 < ev_MaxAge policy then age_reasons (now - ev_MaxAge policy) sorted m0 else m0);
          m2 = (if 0 < ev_KeepLast policy \<and> ev_KeepLast policy < int (length sorted)
                then keep_reasons (take (nat (int (length sorted) - ev_KeepLast policy)) sorted) m1 else m1);
          m3 = (if 0 < ev_MaxSize policy then size_reasons (ev_MaxSize policy) (total_size sorted) sorted m2 else m2)
      in map (\<lambda>r. \<lparr>evict_snapshot = r, evict_reason = strings_Join (labels m3 (snap_ID r)) ''+''\<rparr>)
           (filter (\<lambda>r. labels m3 (snap_ID r) \<noteq> []) sorted))"

subsection \<open>The labels of one record\<close>

lemma labels_append: "labels (append_reason l r m) i = labels m i @ (if i = snap_ID r then [l] else [])"
  by (simp add: labels_def append_reason_def)

lemma labels_all: "labels (all_reasons rs m) i = (if i \<in> snap_ID ` set rs then [''lru-all''] else labels m i)"
  by (induction rs m rule: all_reasons.induct) (auto simp: labels_def)

lemma labels_age:
  "distinct (map snap_ID rs) \<Longrightarrow> labels (age_reasons c rs m) i =
     labels m i @ (if \<exists>r \<in> set rs. snap_ID r = i \<and> snap_LastAccessedAt r < c then [''lru-age''] else [])"
  by (induction c rs m rule: age_reasons.induct) (auto simp: labels_append image_iff)

lemma labels_keep:
  "distinct (map snap_ID rs) \<Longrightarrow> labels (keep_reasons rs m) i =
     labels m i @ (if i \<in> snap_ID ` set rs then [''lru-keep''] else [])"
  by (induction rs m rule: keep_reasons.induct) (auto simp: labels_append)

text \<open>With sizes that are not negative, the size loop stops at the first record from which on the
  remaining sizes fit.\<close>

lemma total_size_simps [simp]: "total_size [] = 0" "total_size (r # rs) = snap_Size r + total_size rs"
  by (simp_all add: total_size_def)

lemma total_size_nonneg: "\<forall>r \<in> set rs. 0 \<le> snap_Size r \<Longrightarrow> 0 \<le> total_size rs"
  by (induction rs) simp_all

lemma total_size_drop: "\<forall>r \<in> set rs. 0 \<le> snap_Size r \<Longrightarrow> total_size (drop n rs) \<le> total_size rs"
proof (induction rs arbitrary: n)
  case (Cons r rs)
  then show ?case by (cases n) (auto intro: order_trans [OF Cons.IH])
qed simp

lemma labels_size:
  assumes "distinct (map snap_ID rs)" and "\<forall>r \<in> set rs. 0 \<le> snap_Size r"
  shows "labels (size_reasons limit (total_size rs) rs m) i =
     labels m i @ (if \<exists>n < length rs. snap_ID (rs ! n) = i \<and> limit < total_size (drop n rs) then [''lru-size''] else [])"
  using assms
proof (induction rs arbitrary: m)
  case (Cons r rs)
  have step: "(\<exists>n < length (r # rs). snap_ID ((r # rs) ! n) = i \<and> limit < total_size (drop n (r # rs)))
      \<longleftrightarrow> snap_ID r = i \<and> limit < total_size (r # rs) \<or> (\<exists>n < length rs. snap_ID (rs ! n) = i \<and> limit < total_size (drop n rs))"
    unfolding list.size(4) add_0_right add_Suc_right Ex_less_Suc2 by simp
  show ?case
  proof (cases "total_size (r # rs) \<le> limit")
    case True
    then have "\<not> limit < total_size (drop n rs)" for n
      using total_size_drop [of "r # rs" "Suc n"] Cons.prems(2) by simp
    then show ?thesis using True step by simp
  next
    case False
    have "total_size (r # rs) - snap_Size r = total_size rs" by simp
    moreover have "\<not> (\<exists>n < length rs. snap_ID (rs ! n) = snap_ID r)" using Cons.prems(1) by (metis distinct.simps(2) length_map list.simps(9) nth_map nth_mem)
    ultimately show ?thesis
      unfolding step using False Cons.IH [of "append_reason ''lru-size'' r m"] Cons.prems by (auto simp: labels_append)
  qed
qed simp

text \<open>The reference: the labels of the record at one position of the usage order.\<close>

definition eviction_labels :: "SnapshotEvictionPolicy \<Rightarrow> time \<Rightarrow> Snapshot list \<Rightarrow> nat \<Rightarrow> string list" where
  "eviction_labels p now rs n =
     (if ev_KeepLast p = 0 \<and> ev_MaxAge p = 0 \<and> ev_MaxSize p = 0 then [''lru-all''] else [])
     @ (if 0 < ev_MaxAge p \<and> snap_LastAccessedAt (rs ! n) < now - ev_MaxAge p then [''lru-age''] else [])
     @ (if 0 < ev_KeepLast p \<and> ev_KeepLast p < int (length rs - n) then [''lru-keep''] else [])
     @ (if 0 < ev_MaxSize p \<and> ev_MaxSize p < total_size (drop n rs) then [''lru-size''] else [])"

lemma lru_facts:
  shows "set (lru rs) = set rs" and "length (lru rs) = length rs"
    and "distinct (map snap_ID (lru rs)) \<longleftrightarrow> distinct (map snap_ID rs)"
    and "sorted (map (\<lambda>r. (snap_LastAccessedAt r, snap_ID r)) (lru rs))"
proof -
  have "mset (map snap_ID (lru rs)) = mset (map snap_ID rs)" by (simp add: lru_def)
  then show "distinct (map snap_ID (lru rs)) \<longleftrightarrow> distinct (map snap_ID rs)"
    by (metis mset_eq_imp_distinct_iff)
qed (simp_all add: lru_def)

lemma pick_labels:
  assumes d: "distinct (map snap_ID rs)" and nn: "\<forall>r \<in> set rs. 0 \<le> snap_Size r" and n: "n < length rs"
    and m0: "m0 = (if ev_KeepLast p = 0 \<and> ev_MaxAge p = 0 \<and> ev_MaxSize p = 0 then all_reasons rs [] else [])"
    and m1: "m1 = (if 0 < ev_MaxAge p then age_reasons (now - ev_MaxAge p) rs m0 else m0)"
    and m2: "m2 = (if 0 < ev_KeepLast p \<and> ev_KeepLast p < int (length rs)
                then keep_reasons (take (nat (int (length rs) - ev_KeepLast p)) rs) m1 else m1)"
    and m3: "m3 = (if 0 < ev_MaxSize p then size_reasons (ev_MaxSize p) (total_size rs) rs m2 else m2)"
  shows "labels m3 (snap_ID (rs ! n)) = eviction_labels p now rs n"
proof -
  let ?i = "snap_ID (rs ! n)" and ?k = "nat (int (length rs) - ev_KeepLast p)"
  have same: "snap_ID (rs ! j) = ?i \<longleftrightarrow> j = n" if "j < length rs" for j
    using that n d nth_eq_iff_index_eq [of "map snap_ID rs" j n] by simp
  have l0: "labels m0 ?i = (if ev_KeepLast p = 0 \<and> ev_MaxAge p = 0 \<and> ev_MaxSize p = 0 then [''lru-all''] else [])"
    using n by (simp add: m0 labels_all) (simp add: labels_def)
  have "(\<exists>r \<in> set rs. snap_ID r = ?i \<and> snap_LastAccessedAt r < c) \<longleftrightarrow> snap_LastAccessedAt (rs ! n) < c" for c
    using same by (metis in_set_conv_nth n)
  then have l1: "labels m1 ?i = labels m0 ?i @ (if 0 < ev_MaxAge p \<and> snap_LastAccessedAt (rs ! n) < now - ev_MaxAge p then [''lru-age''] else [])"
    by (simp add: m1 labels_age [OF d])
  have "?i \<in> snap_ID ` set (take ?k rs) \<longleftrightarrow> n < ?k"
  proof
    assume "?i \<in> snap_ID ` set (take ?k rs)"
    then obtain j where "j < length rs" "j < ?k" "snap_ID (rs ! j) = ?i" by (auto simp: in_set_conv_nth)
    then show "n < ?k" using same by simp
  next
    assume "n < ?k"
    then have "rs ! n \<in> set (take ?k rs)" using n by (auto simp: in_set_conv_nth)
    then show "?i \<in> snap_ID ` set (take ?k rs)" by simp
  qed
  moreover have "distinct (map snap_ID (take ?k rs))" using d by (simp flip: take_map)
  ultimately have l2: "labels m2 ?i = labels m1 ?i @ (if 0 < ev_KeepLast p \<and> ev_KeepLast p < int (length rs - n) then [''lru-keep''] else [])"
    using n by (auto simp: m2 labels_keep)
  have "(\<exists>j < length rs. snap_ID (rs ! j) = ?i \<and> ev_MaxSize p < total_size (drop j rs)) \<longleftrightarrow> ev_MaxSize p < total_size (drop n rs)"
    using same n by auto
  then have "labels m3 ?i = labels m2 ?i @ (if 0 < ev_MaxSize p \<and> ev_MaxSize p < total_size (drop n rs) then [''lru-size''] else [])"
    by (simp add: m3 labels_size [OF d nn])
  then show ?thesis by (simp add: eviction_labels_def l0 l1 l2)
qed

text \<open>The evicted records are a prefix of the usage order: every label is inherited by less recently
  used records.\<close>

lemma eviction_labels_prefix:
  assumes "sorted (map (\<lambda>r. (snap_LastAccessedAt r, snap_ID r)) rs)" and "\<forall>r \<in> set rs. 0 \<le> snap_Size r"
    and "m \<le> n" and "n < length rs" and "eviction_labels p now rs n \<noteq> []"
  shows "eviction_labels p now rs m \<noteq> []"
proof -
  have "snap_LastAccessedAt (rs ! m) \<le> snap_LastAccessedAt (rs ! n)"
    using sorted_nth_mono [OF assms(1,3)] assms(3,4) by (auto simp: less_eq_prod_def)
  moreover have "total_size (drop n rs) \<le> total_size (drop m rs)"
    using total_size_drop [of "drop m rs" "n - m"] assms(2,3) by (auto dest: in_set_dropD)
  moreover have "int (length rs - n) \<le> int (length rs - m)" using assms(3) by simp
  ultimately show ?thesis using assms(5) by (auto simp: eviction_labels_def split: if_splits)
qed

lemma filter_index: "filter P xs = map ((!) xs) (filter (\<lambda>n. P (xs ! n)) [0..<length xs])"
  by (metis (no_types, lifting) comp_def filter_cong filter_map map_nth)

lemma filter_prefix:
  assumes "\<And>m n. m \<le> n \<Longrightarrow> n < length xs \<Longrightarrow> P (xs ! n) \<Longrightarrow> P (xs ! m)"
  shows "\<exists>k \<le> length xs. filter P xs = take k xs"
  using assms
proof (induction xs)
  case (Cons x xs)
  show ?case
  proof (cases "P x")
    case True
    have "\<exists>k \<le> length xs. filter P xs = take k xs"
      using Cons.prems [of "Suc m" "Suc n" for m n] by (intro Cons.IH) simp
    then obtain k where "k \<le> length xs" "filter P xs = take k xs" by blast
    then show ?thesis using True by (intro exI [of _ "Suc k"]) simp
  next
    case False
    then have "\<not> P (xs ! n)" if "n < length xs" for n using Cons.prems [of 0 "Suc n"] that by auto
    then have "filter P (x # xs) = take 0 (x # xs)" using False by (auto simp: filter_empty_conv in_set_conv_nth)
    then show ?thesis by blast
  qed
qed simp

section \<open>Evicting\<close>

text \<open>
  The host's answers that one eviction meets: the containment check of \<open>storage.Join\<close>, the lock
  attempt and its release, and, for the removal, the lock, the deletion of the artifact directory with
  absence ignored, and the release. \<open>None\<close> is success.
\<close>

record evictHost =
  eh_join :: "gerr option"
  eh_try :: "gerr + bool"
  eh_unlock :: "gerr option"
  eh_lock :: "gerr option"
  eh_remove :: "gerr option"
  eh_release :: "gerr option"

definition Paths_Lock :: "evictHost \<Rightarrow> SnapshotID \<Rightarrow> gerr option" where
  "Paths_Lock h i = (case ParseSnapshotID i of Inl e \<Rightarrow> Some e | Inr _ \<Rightarrow> eh_join h)"

definition isNotFound :: "gerr \<Rightarrow> bool" where
  "isNotFound err \<longleftrightarrow> CodeOf err = Some CodeNotFound"

definition remove_info :: "string \<Rightarrow> string \<Rightarrow> ContextInfo" where
  "remove_info reference phase =
     (context_info ''remove snapshot'' reference phase ''retry snapshot removal'')\<lparr>ctx_Committed := True\<rparr>"

text \<open>\<open>SnapshotService.Remove\<close>: mark, lock, delete the artifacts, forget the record.\<close>

definition snapshot_Remove :: "evictHost \<Rightarrow> ctx \<Rightarrow> snapStore \<Rightarrow> string \<Rightarrow> gerr option \<times> snapStore" where
  "snapshot_Remove h ctx ss reference = (case snapshot_BeginDelete ctx (ss_store ss) reference of
     (Inl e, s) \<Rightarrow> (Some e, ss\<lparr>ss_store := s\<rparr>)
   | (Inr record, s) \<Rightarrow> let ss1 = ss\<lparr>ss_store := s\<rparr> in
       (case Paths_Lock h (snap_ID record) of Some e \<Rightarrow> (Some e, ss1)
        | None \<Rightarrow> (case eh_lock h of Some e \<Rightarrow> (WithContext 2 (Some e) (remove_info reference ''lock''), ss1)
          | None \<Rightarrow>
            let (err, ss2) = (case eh_remove h of
                  Some e \<Rightarrow> (WithContext 2 (Some e) (remove_info reference ''remove artifacts''), ss1)
                | None \<Rightarrow> (case snapshot_FinalizeDelete ctx s (snap_ID record) of
                      (Inl e, s2) \<Rightarrow> (Some e, ss\<lparr>ss_store := s2\<rparr>)
                    | (Inr _, s2) \<Rightarrow> (None, ss\<lparr>ss_store := s2\<rparr>)))
            in (errors_Join [err, WithContext 2 (eh_release h) (remove_info reference ''unlock'')], ss2))))"

text \<open>The body of \<open>evictSnapshot\<close> under the lock: whether it acted, whether it asks for removal, the error.\<close>

definition evict_locked :: "ctx \<Rightarrow> snapStore \<Rightarrow> Snapshot \<Rightarrow> bool \<Rightarrow> (bool \<times> bool \<times> gerr option) \<times> snapStore" where
  "evict_locked ctx ss selected dryRun = (case snapshot_Resolve ctx ss (snap_ID selected) of
     Inl e \<Rightarrow> ((False, False, if isNotFound e then None else Some e), ss)
   | Inr current \<Rightarrow>
       if snap_LastAccessedAt current \<noteq> snap_LastAccessedAt selected \<or> snap_Size current \<noteq> snap_Size selected
       then ((False, False, None), ss)
       else if dryRun then ((True, False, None), ss)
       else (case snapshot_BeginDelete ctx (ss_store ss) (snap_ID selected) of
           (Inl e, s) \<Rightarrow> ((False, False, Some e), ss\<lparr>ss_store := s\<rparr>)
         | (Inr _, s) \<Rightarrow> ((True, True, None), ss\<lparr>ss_store := s\<rparr>)))"

definition evictSnapshot :: "evictHost \<Rightarrow> ctx \<Rightarrow> snapStore \<Rightarrow> Snapshot \<Rightarrow> bool \<Rightarrow> (bool \<times> bool \<times> gerr option) \<times> snapStore" where
  "evictSnapshot h ctx ss selected dryRun = (case Paths_Lock h (snap_ID selected) of
     Some e \<Rightarrow> ((False, False, Some e), ss)
   | None \<Rightarrow> (case eh_try h of
       Inl e \<Rightarrow> ((False, True, Some e), ss)
     | Inr False \<Rightarrow> ((False, True, None), ss)
     | Inr True \<Rightarrow>
         let ((acted, remove, err), ss1) = evict_locked ctx ss selected dryRun; err1 = errors_Join [err, eh_unlock h]
         in if remove \<and> err1 = None
            then (let (err2, ss2) = snapshot_Remove h ctx ss1 (snap_ID selected) in ((acted, False, err2), ss2))
            else ((acted, False, err1), ss1)))"

record GCAction =
  gc_Kind :: string
  gc_ID :: string
  gc_Action :: string

record GCReport =
  gc_Actions :: "GCAction list"
  gc_Skipped :: int

text \<open>The loop over the candidates. \<open>host\<close> gives, for each candidate, the cancellation state its turn
  sees and the host's answers.\<close>

fun evict_all :: "(SnapshotID \<Rightarrow> ctx \<times> evictHost) \<Rightarrow> bool \<Rightarrow> snapshotEviction list \<Rightarrow> GCReport \<Rightarrow> gerr option list \<Rightarrow> snapStore
    \<Rightarrow> (GCReport \<times> gerr option list) \<times> snapStore" where
  "evict_all host dryRun [] report failures ss = ((report, failures), ss)"
| "evict_all host dryRun (c # rest) report failures ss = (case host (snap_ID (evict_snapshot c)) of
     (Some e, _) \<Rightarrow> ((report, failures @ [Some e]), ss)
   | (None, h) \<Rightarrow> let ((acted, busy, err), ss1) = evictSnapshot h None ss (evict_snapshot c) dryRun;
         report1 = (if busy then report\<lparr>gc_Skipped := gc_Skipped report + 1\<rparr> else report)
       in (case err of
           Some e \<Rightarrow> evict_all host dryRun rest report1
             (failures @ [Some (Wrap (''evict snapshot '' @ snap_ID (evict_snapshot c) @ '': '') e)]) ss1
         | None \<Rightarrow> evict_all host dryRun rest
             (if acted then report1\<lparr>gc_Actions := gc_Actions report1 @ [\<lparr>gc_Kind = ''snapshot'', gc_ID = snap_ID (evict_snapshot c),
                 gc_Action = (if dryRun then ''would-evict:'' else ''evicted:'') @ evict_reason c\<rparr>]\<rparr> else report1)
             failures ss1))"

text \<open>The ordinary collection is an argument: \<open>collect\<close> is what \<open>MaintenanceService.Collect\<close> reports
  and leaves in the catalog.\<close>

definition CollectWithPolicy :: "(ctx \<Rightarrow> snapStore \<Rightarrow> (GCReport \<times> gerr option) \<times> snapStore) \<Rightarrow> (SnapshotID \<Rightarrow> ctx \<times> evictHost)
    \<Rightarrow> time \<Rightarrow> ctx \<Rightarrow> snapStore \<Rightarrow> SnapshotEvictionPolicy \<Rightarrow> (GCReport \<times> gerr option) \<times> snapStore" where
  "CollectWithPolicy collect host now ctx ss policy = (case validateSnapshotEviction policy of
     Some e \<Rightarrow> ((\<lparr>gc_Actions = [], gc_Skipped = 0\<rparr>, Some e), ss)
   | None \<Rightarrow> (let ((report, err), ss1) = collect ctx ss in
       if err \<noteq> None \<or> \<not> ev_Enabled policy then ((report, err), ss1)
       else (case snapshot_List ctx ss1 of
           Inl e \<Rightarrow> ((report, Some e), ss1)
         | Inr records \<Rightarrow>
             let ((report1, failures), ss2) =
                   evict_all host (ev_DryRun policy) (pickSnapshotEvictions records policy now) report [] ss1
             in ((report1, errors_Join failures), ss2))))"

subsection \<open>One eviction\<close>

text \<open>What a caller sees depends on the records and the pending usage times only.\<close>

lemma visible_records:
  "visible (ss\<lparr>ss_store := s\<rparr>) = (\<lambda>i. case snaps (mem_records s) i of None \<Rightarrow> None
     | Some d \<Rightarrow> if sd_Ready d \<and> \<not> sd_Deleting d then Some (visibleAccess ss (projr (decodeSnapshot d))) else None)"
  by (auto simp: visible_def visibleAccess_def fun_eq_iff split: option.splits)

lemma decodes_facts:
  assumes "decodes d"
  shows "valid_id (sd_ID d)" and "0 \<le> snap_Size (projr (decodeSnapshot d))"
proof -
  from assms obtain g where g: "decodeSnapshot d = Inr (snapshot_value d g)" "Snapshot_Validate (snapshot_value d g) = None"
    by (auto simp: decodes_def decodeSnapshot_Inr)
  show "valid_id (sd_ID d)" using Snapshot_Validate_NoneD(1) [OF g(2)] by (simp add: snapshot_value_def)
  show "0 \<le> snap_Size (projr (decodeSnapshot d))" unfolding g(1) sum.sel by (rule Snapshot_Validate_NoneD(6) [OF g(2)])
qed

lemma drop_snapshot_live:
  assumes inv: "snapshot_inv t"
  shows "\<exists>t'. drop_snapshot None i d t = Inr ((), t') \<and> snaps t' = (snaps t)(i := None) \<and> snap_names t' \<subseteq>\<^sub>m snap_names t"
proof -
  obtain t1 where d1: "(if sd_Name d \<noteq> [] then Delete None t CollectionSnapshotNames (sd_Name d) else Inr t) = Inr t1"
    using Delete_live [OF snapshot_invD(3) [OF inv]] by (cases "sd_Name d = []") auto
  have "declared t1 CollectionSnapshots"
    using d1 snapshot_invD(2) [OF inv] by (auto simp: declared_Delete split: if_splits)
  then obtain t2 where d2: "Delete None t1 CollectionSnapshots i = Inr t2" using Delete_live by blast
  have l1: "lookup t1 c k = (if sd_Name d \<noteq> [] \<and> c = CollectionSnapshotNames \<and> k = sd_Name d then None else lookup t c k)" for c k
    using d1 lookup_Delete [of None t CollectionSnapshotNames "sd_Name d" t1] by (auto split: if_splits)
  have "drop_snapshot None i d t = Inr ((), t2)" unfolding drop_snapshot_def d1 bindE_Inr by (simp add: d2)
  moreover have "snaps t2 = (snaps t)(i := None)" by (simp add: fun_eq_iff snaps_def lookup_Delete [OF d2] l1)
  moreover have "snap_names t2 \<subseteq>\<^sub>m snap_names t" by (auto simp: map_le_def snap_names_def lookup_Delete [OF d2] l1 split: if_splits)
  ultimately show ?thesis by blast
qed

lemma FinalizeDelete_live:
  assumes inv: "ss_inv ss" and live: "ss_live ss" and d: "snaps (ss_tx ss) i = Some d" "sd_Deleting d"
  shows "\<exists>s'. snapshot_FinalizeDelete None (ss_store ss) i = (Inr (), s') \<and> \<not> mem_closed s' \<and> ss_inv (ss\<lparr>ss_store := s'\<rparr>)
    \<and> snaps (mem_records s') = (snaps (ss_tx ss))(i := None) \<and> snap_names (mem_records s') \<subseteq>\<^sub>m snap_names (ss_tx ss)"
proof -
  have t: "snapshot_inv (ss_tx ss)" using inv by (simp add: ss_inv_def)
  from drop_snapshot_live [OF t] obtain t' where t': "drop_snapshot None i d (ss_tx ss) = Inr ((), t')"
    "snaps t' = (snaps (ss_tx ss))(i := None)" "snap_names t' \<subseteq>\<^sub>m snap_names (ss_tx ss)" by blast
  have run: "snapshot_FinalizeDelete None (ss_store ss) i = (Inr (), (ss_store ss)\<lparr>mem_records := t'\<rparr>)"
    using d live t'(1) by (simp add: snapshot_FinalizeDelete_def update_with_def Update_live finalize_snapshot_tx_def load_snapshot_inv [OF t])
  have "ss_inv (ss\<lparr>ss_store := (ss_store ss)\<lparr>mem_records := t'\<rparr>\<rparr>)"
    using snapshot_step_good [OF snap_FinalizeDelete [OF run] inv] unfolding good_step_def by (rule conjunct1)
  then show ?thesis using run t'(2,3) live by simp
qed

text \<open>Marking a record by its identity, the first or a repeated time, where no name shadows it.\<close>

lemma BeginDelete_identity:
  assumes inv: "ss_inv ss" and live: "ss_live ss" and d: "snaps (ss_tx ss) i = Some d" "sd_Ready d"
    and plain: "snap_names (ss_tx ss) i = None" and ne: "i \<noteq> []"
  shows "\<exists>r s'. snapshot_BeginDelete None (ss_store ss) i = (Inr r, s') \<and> snap_ID r = i \<and> \<not> mem_closed s' \<and> ss_inv (ss\<lparr>ss_store := s'\<rparr>)
    \<and> snaps (mem_records s') = (snaps (ss_tx ss))(i \<mapsto> d\<lparr>sd_Deleting := True\<rparr>) \<and> snap_names (mem_records s') = snap_names (ss_tx ss)"
proof -
  have t: "snapshot_inv (ss_tx ss)" using inv by (simp add: ss_inv_def)
  have tgt: "snapshot_target ss i = i" by (simp add: snapshot_target_def plain)
  note id = snaps_Some(1) [OF t d(1)] and dec = snaps_Some(2) [OF t d(1)]
  obtain r where r: "decodeSnapshot d = Inr r" using dec by (auto simp: decodes_def)
  have rid: "snap_ID r = i" using value_fields(1) [OF dec] id r by simp
  show ?thesis
  proof (cases "sd_Deleting d")
    case True
    then have "snapshot_BeginDelete None (ss_store ss) i = (Inr r, ss_store ss)"
      using d r live by (simp add: snapshot_BeginDelete_def update_with_def Update_live modify_snapshot_def
          resolve_target [OF inv ne] tgt delete_snapshot_body_def)
    moreover have "d\<lparr>sd_Deleting := True\<rparr> = d" using True by simp
    ultimately show ?thesis using rid live inv d(1) by (auto simp: fun_upd_idem)
  next
    case False
    obtain t' where put: "Put None (ss_tx ss) CollectionSnapshots i (P_snapshot (d\<lparr>sd_Deleting := True\<rparr>)) = Inr t'"
      using Put_live [OF snapshot_invD(2) [OF t]] by blast
    have run: "snapshot_BeginDelete None (ss_store ss) i = (Inr r, (ss_store ss)\<lparr>mem_records := t'\<rparr>)"
      using False d r id live put by (simp add: snapshot_BeginDelete_def update_with_def Update_live modify_snapshot_def
          resolve_target [OF inv ne] tgt delete_snapshot_body_def)
    have "ss_inv (ss\<lparr>ss_store := (ss_store ss)\<lparr>mem_records := t'\<rparr>\<rparr>)"
      using snapshot_step_good [OF snap_BeginDelete [OF run] inv] unfolding good_step_def by (rule conjunct1)
    then show ?thesis using run rid live snaps_Put [OF put] by simp
  qed
qed

text \<open>A host on which nothing fails and every lock is free.\<close>

definition calm :: evictHost where
  "calm = \<lparr>eh_join = None, eh_try = Inr True, eh_unlock = None, eh_lock = None, eh_remove = None, eh_release = None\<rparr>"

lemma calm_simps [simp]: "eh_join calm = None" "eh_try calm = Inr True" "eh_unlock calm = None" "eh_lock calm = None"
  "eh_remove calm = None" "eh_release calm = None"
  by (simp_all add: calm_def)

lemma Paths_Lock_calm: "valid_id i \<Longrightarrow> Paths_Lock calm i = None"
  by (simp add: Paths_Lock_def ParseSnapshotID_Inr [THEN iffD2])

lemma errors_Join_None [simp]: "errors_Join [None, None] = None"
  by (simp add: errors_Join_def)

lemma Remove_calm:
  assumes inv: "ss_inv ss" and live: "ss_live ss" and d: "snaps (ss_tx ss) i = Some d" "sd_Ready d"
    and plain: "snap_names (ss_tx ss) i = None" and i: "valid_id i" "i \<noteq> []"
  shows "\<exists>s'. snapshot_Remove calm None ss i = (None, ss\<lparr>ss_store := s'\<rparr>) \<and> \<not> mem_closed s' \<and> ss_inv (ss\<lparr>ss_store := s'\<rparr>)
    \<and> snaps (mem_records s') = (snaps (ss_tx ss))(i := None) \<and> snap_names (mem_records s') \<subseteq>\<^sub>m snap_names (ss_tx ss)"
proof -
  from BeginDelete_identity [OF inv live d plain i(2)] obtain r s1 where
    s1: "snapshot_BeginDelete None (ss_store ss) i = (Inr r, s1)" "snap_ID r = i" "\<not> mem_closed s1" "ss_inv (ss\<lparr>ss_store := s1\<rparr>)"
      "snaps (mem_records s1) = (snaps (ss_tx ss))(i \<mapsto> d\<lparr>sd_Deleting := True\<rparr>)" "snap_names (mem_records s1) = snap_names (ss_tx ss)"
    by blast
  from FinalizeDelete_live [OF s1(4), of i "d\<lparr>sd_Deleting := True\<rparr>"] s1(3,5) obtain s2 where
    s2: "snapshot_FinalizeDelete None s1 i = (Inr (), s2)" "\<not> mem_closed s2" "ss_inv (ss\<lparr>ss_store := s2\<rparr>)"
      "snaps (mem_records s2) = (snaps (mem_records s1))(i := None)" "snap_names (mem_records s2) \<subseteq>\<^sub>m snap_names (mem_records s1)"
    by auto
  have "snapshot_Remove calm None ss i = (None, ss\<lparr>ss_store := s2\<rparr>)"
    using s1(1,2) s2(1) Paths_Lock_calm [OF i(1)] by (simp add: snapshot_Remove_def WithContext_def)
  moreover have "snaps (mem_records s2) = (snaps (ss_tx ss))(i := None)" using s2(4) s1(5) by simp
  ultimately show ?thesis using s2 s1(6) by auto
qed

lemma evict_locked_current:
  assumes inv: "ss_inv ss" and live: "ss_live ss" and x: "visible ss i = Some x"
    and plain: "snap_names (ss_tx ss) i = None" and i: "i \<noteq> []"
  shows "snapshot_Resolve None ss i = Inr x"
  using x by (simp add: snapshot_Resolve_live [OF inv live i] snapshot_target_def plain ctxE_def)

lemma evictSnapshot_calm:
  assumes inv: "ss_inv ss" and live: "ss_live ss" and x: "visible ss i = Some x"
    and plain: "snap_names (ss_tx ss) i = None"
  shows "\<exists>s'. evictSnapshot calm None ss x False = ((True, False, None), ss\<lparr>ss_store := s'\<rparr>) \<and> \<not> mem_closed s'
    \<and> ss_inv (ss\<lparr>ss_store := s'\<rparr>) \<and> visible (ss\<lparr>ss_store := s'\<rparr>) = (visible ss)(i := None)
    \<and> snap_names (mem_records s') \<subseteq>\<^sub>m snap_names (ss_tx ss)"
    and "evictSnapshot calm None ss x True = ((True, False, None), ss)"
proof -
  have id: "snap_ID x = i" by (rule visible_ID [OF inv x])
  obtain d where d: "snaps (ss_tx ss) i = Some d" "sd_Ready d" "decodes d" using visible_load [OF inv x] by metis
  have t: "snapshot_inv (ss_tx ss)" using inv by (simp add: ss_inv_def)
  have i: "valid_id i" using snaps_Some(1) [OF t d(1)] decodes_facts(1) [OF d(3)] by simp
  then have ne: "i \<noteq> []" using valid_id_chars by fastforce
  note res = evict_locked_current [OF inv live x plain ne]
  show "evictSnapshot calm None ss x True = ((True, False, None), ss)"
    by (simp add: evictSnapshot_def id Paths_Lock_calm [OF i] evict_locked_def res)
  from BeginDelete_identity [OF inv live d(1,2) plain ne] obtain r s1 where
    s1: "snapshot_BeginDelete None (ss_store ss) i = (Inr r, s1)" "\<not> mem_closed s1" "ss_inv (ss\<lparr>ss_store := s1\<rparr>)"
      "snaps (mem_records s1) = (snaps (ss_tx ss))(i \<mapsto> d\<lparr>sd_Deleting := True\<rparr>)" "snap_names (mem_records s1) = snap_names (ss_tx ss)"
    by blast
  from Remove_calm [OF s1(3), of i "d\<lparr>sd_Deleting := True\<rparr>"] s1 d(2) plain i ne obtain s2 where
    s2: "snapshot_Remove calm None (ss\<lparr>ss_store := s1\<rparr>) i = (None, ss\<lparr>ss_store := s2\<rparr>)" "\<not> mem_closed s2" "ss_inv (ss\<lparr>ss_store := s2\<rparr>)"
      "snaps (mem_records s2) = (snaps (mem_records s1))(i := None)" "snap_names (mem_records s2) \<subseteq>\<^sub>m snap_names (mem_records s1)"
    by auto
  have "evictSnapshot calm None ss x False = ((True, False, None), ss\<lparr>ss_store := s2\<rparr>)"
    using s1(1) s2(1) by (simp add: evictSnapshot_def id Paths_Lock_calm [OF i] evict_locked_def res)
  moreover have "visible (ss\<lparr>ss_store := s2\<rparr>) = (visible ss)(i := None)"
    using s2(4) s1(4) by (auto simp: visible_records visible_def [of ss] fun_eq_iff)
  ultimately show "\<exists>s'. evictSnapshot calm None ss x False = ((True, False, None), ss\<lparr>ss_store := s'\<rparr>) \<and> \<not> mem_closed s'
    \<and> ss_inv (ss\<lparr>ss_store := s'\<rparr>) \<and> visible (ss\<lparr>ss_store := s'\<rparr>) = (visible ss)(i := None)
    \<and> snap_names (mem_records s') \<subseteq>\<^sub>m snap_names (ss_tx ss)"
    using s2 s1(5) by auto
qed

lemma visible_size:
  assumes "ss_inv ss" and "visible ss i = Some x"
  shows "0 \<le> snap_Size x"
proof (rule visible_load [OF assms])
  fix d assume dec: "decodes d" and x: "visibleAccess ss (projr (decodeSnapshot d)) = x"
  have "snap_Size (visibleAccess ss y) = snap_Size y" for y
    by (simp add: visibleAccess_def Let_def split: option.splits)
  then show ?thesis using decodes_facts(2) [OF dec] x by metis
qed

subsection \<open>All evictions\<close>

definition action_of :: "bool \<Rightarrow> snapshotEviction \<Rightarrow> GCAction" where
  "action_of dryRun c = \<lparr>gc_Kind = ''snapshot'', gc_ID = snap_ID (evict_snapshot c),
     gc_Action = (if dryRun then ''would-evict:'' else ''evicted:'') @ evict_reason c\<rparr>"

text \<open>Whatever the host answers, a dry run leaves the catalog alone.\<close>

lemma evict_all_dry: "snd (evict_all host True cs report failures ss) = ss"
proof (induction cs arbitrary: report failures)
  case (Cons c cs)
  have "snd (evictSnapshot h ctx ss x True) = ss" for h ctx x
    by (auto simp: evictSnapshot_def evict_locked_def Let_def split: option.splits sum.splits bool.splits prod.splits)
  then have dry: "evictSnapshot h None ss x True = (fst (evictSnapshot h None ss x True), ss)" for h x
    by (metis prod.collapse)
  obtain ctx h where "host (snap_ID (evict_snapshot c)) = (ctx, h)" by fastforce
  moreover obtain a b e where "evictSnapshot h None ss (evict_snapshot c) True = ((a, b, e), ss)"
    by (subst (asm) dry) (cases "fst (evictSnapshot h None ss (evict_snapshot c) True)", auto)
  ultimately show ?case using Cons.IH by (cases ctx; cases e) (simp_all add: Let_def)
qed simp

lemma evict_all_calm_dry:
  assumes "ss_inv ss" and "ss_live ss" and "\<forall>c \<in> set cs. visible ss (snap_ID (evict_snapshot c)) = Some (evict_snapshot c)
      \<and> snap_names (ss_tx ss) (snap_ID (evict_snapshot c)) = None"
  shows "evict_all (\<lambda>_. (None, calm)) True cs report failures ss
    = ((report\<lparr>gc_Actions := gc_Actions report @ map (action_of True) cs\<rparr>, failures), ss)"
  using assms(3)
proof (induction cs arbitrary: report)
  case (Cons c cs)
  then have "evictSnapshot calm None ss (evict_snapshot c) True = ((True, False, None), ss)"
    using evictSnapshot_calm(2) [OF assms(1,2), of "snap_ID (evict_snapshot c)"] by simp
  then show ?case using Cons by (simp add: action_of_def)
qed simp

lemma evict_all_calm:
  assumes "ss_inv ss" and "ss_live ss" and "distinct (map (snap_ID \<circ> evict_snapshot) cs)"
    and "\<forall>c \<in> set cs. visible ss (snap_ID (evict_snapshot c)) = Some (evict_snapshot c)
      \<and> snap_names (ss_tx ss) (snap_ID (evict_snapshot c)) = None"
  shows "\<exists>ss'. evict_all (\<lambda>_. (None, calm)) False cs report failures ss
      = ((report\<lparr>gc_Actions := gc_Actions report @ map (action_of False) cs\<rparr>, failures), ss')
    \<and> ss_inv ss' \<and> visible ss' = (\<lambda>i. if i \<in> (snap_ID \<circ> evict_snapshot) ` set cs then None else visible ss i)"
  using assms
proof (induction cs arbitrary: report ss)
  case (Cons c cs)
  let ?i = "snap_ID (evict_snapshot c)"
  have x: "visible ss ?i = Some (evict_snapshot c)" "snap_names (ss_tx ss) ?i = None" using Cons.prems(4) by simp_all
  from evictSnapshot_calm(1) [OF Cons.prems(1,2) x] obtain s' where
    s': "evictSnapshot calm None ss (evict_snapshot c) False = ((True, False, None), ss\<lparr>ss_store := s'\<rparr>)" "\<not> mem_closed s'"
      "ss_inv (ss\<lparr>ss_store := s'\<rparr>)" "visible (ss\<lparr>ss_store := s'\<rparr>) = (visible ss)(?i := None)"
      "snap_names (mem_records s') \<subseteq>\<^sub>m snap_names (ss_tx ss)" by blast
  have "snap_names (mem_records s') i = None" if "snap_names (ss_tx ss) i = None" for i
    using s'(5) that by (metis domIff map_le_def option.distinct(1))
  then have "\<forall>c \<in> set cs. visible (ss\<lparr>ss_store := s'\<rparr>) (snap_ID (evict_snapshot c)) = Some (evict_snapshot c)
      \<and> snap_names (mem_records s') (snap_ID (evict_snapshot c)) = None"
    using Cons.prems(3,4) s'(4) by (auto simp: image_iff)
  with Cons.IH [OF s'(3), of "report\<lparr>gc_Actions := gc_Actions report @ [action_of False c]\<rparr>"] Cons.prems(3) s'(2)
  obtain ss' where "evict_all (\<lambda>_. (None, calm)) False cs (report\<lparr>gc_Actions := gc_Actions report @ [action_of False c]\<rparr>) failures (ss\<lparr>ss_store := s'\<rparr>)
      = ((report\<lparr>gc_Actions := gc_Actions report @ [action_of False c] @ map (action_of False) cs\<rparr>, failures), ss')" "ss_inv ss'"
    "visible ss' = (\<lambda>i. if i \<in> (snap_ID \<circ> evict_snapshot) ` set cs then None else visible (ss\<lparr>ss_store := s'\<rparr>) i)"
    by auto
  then show ?case using s'(1) by (intro exI [of _ ss']) (auto simp: action_of_def fun_eq_iff s'(4))
qed simp

lemma pick_exact:
  assumes "distinct (map snap_ID records)" and "\<forall>r \<in> set records. 0 \<le> snap_Size r"
  shows "pickSnapshotEvictions records p now =
      map (\<lambda>n. \<lparr>evict_snapshot = lru records ! n, evict_reason = strings_Join (eviction_labels p now (lru records) n) ''+''\<rparr>)
        (filter (\<lambda>n. eviction_labels p now (lru records) n \<noteq> []) [0..<length records])
    \<and> (\<exists>k \<le> length records. map evict_snapshot (pickSnapshotEvictions records p now) = take k (lru records)
        \<and> (\<forall>n < length records. n < k \<longleftrightarrow> eviction_labels p now (lru records) n \<noteq> []))"
proof -
  let ?rs = "lru records"
  let ?P = "\<lambda>n. eviction_labels p now ?rs n \<noteq> []"
  define m0 where m0: "m0 = (if ev_KeepLast p = 0 \<and> ev_MaxAge p = 0 \<and> ev_MaxSize p = 0 then all_reasons ?rs [] else [])"
  define m1 where m1: "m1 = (if 0 < ev_MaxAge p then age_reasons (now - ev_MaxAge p) ?rs m0 else m0)"
  define m2 where m2: "m2 = (if 0 < ev_KeepLast p \<and> ev_KeepLast p < int (length ?rs)
      then keep_reasons (take (nat (int (length ?rs) - ev_KeepLast p)) ?rs) m1 else m1)"
  define m3 where m3: "m3 = (if 0 < ev_MaxSize p then size_reasons (ev_MaxSize p) (total_size ?rs) ?rs m2 else m2)"
  have d: "distinct (map snap_ID ?rs)" "\<forall>r \<in> set ?rs. 0 \<le> snap_Size r" using assms lru_facts by auto
  have lab: "labels m3 (snap_ID (?rs ! n)) = eviction_labels p now ?rs n" if "n < length ?rs" for n
    by (rule pick_labels [OF d that m0 m1 m2 m3])
  have "pickSnapshotEvictions records p now = map (\<lambda>r. \<lparr>evict_snapshot = r, evict_reason = strings_Join (labels m3 (snap_ID r)) ''+''\<rparr>)
      (filter (\<lambda>r. labels m3 (snap_ID r) \<noteq> []) ?rs)"
    unfolding pickSnapshotEvictions_def Let_def m3 m2 m1 m0 ..
  also have "\<dots> = map (\<lambda>n. \<lparr>evict_snapshot = ?rs ! n, evict_reason = strings_Join (eviction_labels p now ?rs n) ''+''\<rparr>)
      (filter ?P [0..<length records])"
  proof -
    have "filter (\<lambda>n. labels m3 (snap_ID (?rs ! n)) \<noteq> []) [0..<length ?rs] = filter ?P [0..<length records]"
      using lab by (auto simp: lru_facts(2) intro: filter_cong)
    then show ?thesis unfolding filter_index [of _ ?rs] using lab by (auto simp: lru_facts(2))
  qed
  finally have eq: "pickSnapshotEvictions records p now = map (\<lambda>n. \<lparr>evict_snapshot = ?rs ! n,
      evict_reason = strings_Join (eviction_labels p now ?rs n) ''+''\<rparr>) (filter ?P [0..<length records])" .
  obtain k where k: "k \<le> length records" "filter ?P [0..<length records] = take k [0..<length records]"
    using filter_prefix [of "[0..<length records]" ?P] eviction_labels_prefix [OF lru_facts(4) d(2), of _ _ p now]
    by (auto simp: lru_facts(2))
  have "map evict_snapshot (pickSnapshotEvictions records p now) = map ((!) ?rs) (take k [0..<length ?rs])"
    unfolding eq k(2) by (simp add: lru_facts(2) comp_def)
  also have "\<dots> = take k ?rs" by (simp add: take_map [symmetric] map_nth)
  finally have pre: "map evict_snapshot (pickSnapshotEvictions records p now) = take k ?rs" .
  have "n < k \<longleftrightarrow> ?P n" if "n < length records" for n
  proof -
    have "n \<in> set (filter ?P [0..<length records]) \<longleftrightarrow> n \<in> set (take k [0..<length records])" unfolding k(2) ..
    then show ?thesis using that k(1) by (simp add: take_upt)
  qed
  then show ?thesis using eq pre k(1) by blast
qed

text \<open>The conditions under which the pass runs undisturbed: nothing fails, and no snapshot is named like
  the identity of a visible one.\<close>

definition unshadowed :: "snapStore \<Rightarrow> bool" where
  "unshadowed ss \<longleftrightarrow> (\<forall>i. visible ss i \<noteq> None \<longrightarrow> snap_names (ss_tx ss) i = None)"

text \<open>The visible snapshots as \<open>List\<close> returns them, and the candidates among them.\<close>

lemma List_visible:
  assumes inv: "ss_inv ss" and live: "ss_live ss"
  shows "\<exists>xs. snapshot_List None ss = Inr xs \<and> set xs = ran (visible ss) \<and> distinct (map snap_ID xs)
    \<and> (\<forall>r \<in> set xs. 0 \<le> snap_Size r) \<and> (\<forall>r \<in> set xs. visible ss (snap_ID r) = Some r)"
proof -
  obtain xs where xs: "snapshot_List None ss = Inr xs" "set xs = ran (visible ss)" "distinct (map snap_ID xs)"
    using snapshot_List_live [OF inv live] by blast
  have "visible ss (snap_ID r) = Some r \<and> 0 \<le> snap_Size r" if mem: "r \<in> set xs" for r
  proof -
    obtain i where i: "visible ss i = Some r" using mem unfolding xs(2) ran_def by blast
    then show ?thesis using visible_ID [OF inv i] visible_size [OF inv i] by simp
  qed
  then show ?thesis using xs by blast
qed

lemma eviction_suffix:
  assumes "validateSnapshotEviction p = None" and "k \<le> length rs" and nn: "\<forall>r \<in> set rs. 0 \<le> snap_Size r"
    and sorted: "sorted (map (\<lambda>r. (snap_LastAccessedAt r, snap_ID r)) rs)"
    and cut: "\<forall>n < length rs. n < k \<longleftrightarrow> eviction_labels p now rs n \<noteq> []"
  shows "(ev_KeepLast p = 0 \<and> ev_MaxAge p = 0 \<and> ev_MaxSize p = 0 \<longrightarrow> drop k rs = [])
    \<and> (0 < ev_MaxAge p \<longrightarrow> (\<forall>r \<in> set (drop k rs). now - ev_MaxAge p \<le> snap_LastAccessedAt r))
    \<and> (0 < ev_KeepLast p \<longrightarrow> int (length (drop k rs)) \<le> ev_KeepLast p)
    \<and> (0 < ev_MaxSize p \<longrightarrow> total_size (drop k rs) \<le> ev_MaxSize p)"
proof (cases "k < length rs")
  case True
  then have "eviction_labels p now rs k = []" using cut by blast
  then have first: "\<not> (ev_KeepLast p = 0 \<and> ev_MaxAge p = 0 \<and> ev_MaxSize p = 0)"
    "0 < ev_KeepLast p \<Longrightarrow> int (length rs - k) \<le> ev_KeepLast p" "0 < ev_MaxSize p \<Longrightarrow> total_size (drop k rs) \<le> ev_MaxSize p"
    by (auto simp: eviction_labels_def split: if_splits)
  have "now - ev_MaxAge p \<le> snap_LastAccessedAt r" if h: "0 < ev_MaxAge p" "r \<in> set (drop k rs)" for r
  proof -
    obtain n where n: "k \<le> n" "n < length rs" "r = rs ! n"
      using h(2) by (auto simp: in_set_conv_nth) (metis le_add1 less_diff_conv add.commute)
    then have "eviction_labels p now rs n = []" using cut by auto
    then show ?thesis using h(1) n(3) by (auto simp: eviction_labels_def split: if_splits)
  qed
  then show ?thesis using first(1) first(2,3) by (intro conjI impI ballI) (auto simp del: drop_eq_Nil)
qed simp

lemma pick_visible:
  assumes ss: "ss_inv ss" "ss_live ss" "unshadowed ss"
  shows "\<exists>ys. snapshot_List None ss = Inr ys \<and> set ys = ran (visible ss) \<and> distinct (map snap_ID ys) \<and> (\<forall>r \<in> set ys. 0 \<le> snap_Size r)
    \<and> distinct (map (snap_ID \<circ> evict_snapshot) (pickSnapshotEvictions ys p now))
    \<and> (\<forall>c \<in> set (pickSnapshotEvictions ys p now). visible ss (snap_ID (evict_snapshot c)) = Some (evict_snapshot c)
        \<and> snap_names (ss_tx ss) (snap_ID (evict_snapshot c)) = None)"
proof -
  from List_visible [OF ss(1,2)] obtain ys where ys: "snapshot_List None ss = Inr ys" "set ys = ran (visible ss)"
    "distinct (map snap_ID ys)" "\<forall>r \<in> set ys. 0 \<le> snap_Size r" "\<forall>r \<in> set ys. visible ss (snap_ID r) = Some r" by blast
  let ?cs = "pickSnapshotEvictions ys p now"
  from pick_exact [OF ys(3,4), of p now] obtain k where k: "map evict_snapshot ?cs = take k (lru ys)" by blast
  have ids: "map (snap_ID \<circ> evict_snapshot) ?cs = take k (map snap_ID (lru ys))" using k by (metis map_map take_map)
  have "distinct (map (snap_ID \<circ> evict_snapshot) ?cs)" unfolding ids using ys(3) by (simp add: lru_facts(3))
  moreover have "evict_snapshot c \<in> set ys" if "c \<in> set ?cs" for c
    using that k lru_facts(1) by (metis image_eqI in_set_takeD list.set_map)
  ultimately show ?thesis using ys ss(3) by (auto simp: unshadowed_def)
qed

lemma CollectWithPolicy_run:
  assumes valid: "validateSnapshotEviction p = None" "ev_Enabled p" and collect: "collect None ss = ((report, None), ss1)"
    and list: "snapshot_List None ss1 = Inr xs"
  shows "CollectWithPolicy collect host now None ss p =
     (let ((report1, failures), ss2) = evict_all host (ev_DryRun p) (pickSnapshotEvictions xs p now) report [] ss1
      in ((report1, errors_Join failures), ss2))"
  using valid by (simp add: CollectWithPolicy_def collect list)

section \<open>Properties\<close>

text \<open>
  C25. The choice equals its reference definition: in least recently used order, each record carries
  \<open>lru-all\<close> when no limit is set, \<open>lru-age\<close> when it was last used before the cutoff, \<open>lru-keep\<close> when at
  least the requested number of records follow it, \<open>lru-size\<close> when it and the records after it exceed
  the size limit, and is chosen, with its labels joined, exactly when it carries one; the chosen records
  are a prefix of that order, so no chosen record was used after one that is kept.
\<close>

theorem pickSnapshotEvictions_exact:
  assumes "distinct (map snap_ID records)" and "\<forall>r \<in> set records. 0 \<le> snap_Size r"
  shows "pickSnapshotEvictions records p now =
      map (\<lambda>n. \<lparr>evict_snapshot = lru records ! n, evict_reason = strings_Join (eviction_labels p now (lru records) n) ''+''\<rparr>)
        (filter (\<lambda>n. eviction_labels p now (lru records) n \<noteq> []) [0..<length records])
    \<and> (\<exists>k \<le> length records. map evict_snapshot (pickSnapshotEvictions records p now) = take k (lru records)
        \<and> (\<forall>n < length records. n < k \<longleftrightarrow> eviction_labels p now (lru records) n \<noteq> []))"
  by (rule pick_exact [OF assms])

text \<open>
  C26. An eviction pass in which nothing fails and no name shadows an identity ends without error and
  leaves exactly the most recently used snapshots visible: none when no limit is set, none last used
  before the age cutoff, at most the requested number, and together within the size limit; every
  other snapshot stays as it was. Each eviction is reported with its reasons.
\<close>

theorem CollectWithPolicy_enforces:
  assumes valid: "validateSnapshotEviction p = None" "ev_Enabled p" "\<not> ev_DryRun p"
    and collect: "collect None ss = ((report, None), ss1)"
    and ss1: "ss_inv ss1" "ss_live ss1" "unshadowed ss1"
  shows "\<exists>xs k ss2. lru xs = xs \<and> set xs = ran (visible ss1) \<and> k \<le> length xs
    \<and> CollectWithPolicy collect (\<lambda>_. (None, calm)) now None ss p =
        ((report\<lparr>gc_Actions := gc_Actions report @ map (action_of False) (pickSnapshotEvictions xs p now)\<rparr>, None), ss2)
    \<and> map evict_snapshot (pickSnapshotEvictions xs p now) = take k xs
    \<and> visible ss2 = (\<lambda>i. if i \<in> snap_ID ` set (take k xs) then None else visible ss1 i)
    \<and> ran (visible ss2) = set (drop k xs)
    \<and> (ev_KeepLast p = 0 \<and> ev_MaxAge p = 0 \<and> ev_MaxSize p = 0 \<longrightarrow> drop k xs = [])
    \<and> (0 < ev_MaxAge p \<longrightarrow> (\<forall>r \<in> set (drop k xs). now - ev_MaxAge p \<le> snap_LastAccessedAt r))
    \<and> (0 < ev_KeepLast p \<longrightarrow> int (length (drop k xs)) \<le> ev_KeepLast p)
    \<and> (0 < ev_MaxSize p \<longrightarrow> total_size (drop k xs) \<le> ev_MaxSize p)"
proof -
  from pick_visible [OF ss1, of p now] obtain ys where ys: "snapshot_List None ss1 = Inr ys" "set ys = ran (visible ss1)"
    "distinct (map snap_ID ys)" "\<forall>r \<in> set ys. 0 \<le> snap_Size r"
    and dist: "distinct (map (snap_ID \<circ> evict_snapshot) (pickSnapshotEvictions ys p now))"
    and cand: "\<forall>c \<in> set (pickSnapshotEvictions ys p now). visible ss1 (snap_ID (evict_snapshot c)) = Some (evict_snapshot c)
      \<and> snap_names (ss_tx ss1) (snap_ID (evict_snapshot c)) = None" by blast
  let ?xs = "lru ys" and ?cs = "pickSnapshotEvictions ys p now"
  have idem: "lru ?xs = ?xs" by (rule sort_key_id_if_sorted [OF lru_facts(4), folded lru_def])
  have same: "pickSnapshotEvictions ?xs p now = ?cs" unfolding pickSnapshotEvictions_def idem ..
  from pick_exact [OF ys(3,4), of p now] obtain k where k: "k \<le> length ?xs" "map evict_snapshot ?cs = take k ?xs"
    "\<forall>n < length ?xs. n < k \<longleftrightarrow> eviction_labels p now ?xs n \<noteq> []" by (auto simp: lru_facts(2))
  have nn: "\<forall>r \<in> set ?xs. 0 \<le> snap_Size r" using ys(4) by (simp add: lru_facts(1))
  have dx: "distinct (map snap_ID ?xs)" using ys(3) by (simp add: lru_facts(3))
  from evict_all_calm [OF ss1(1,2) dist cand, of report "[]"] obtain ss2 where
    ss2: "evict_all (\<lambda>_. (None, calm)) False ?cs report [] ss1 = ((report\<lparr>gc_Actions := gc_Actions report @ map (action_of False) ?cs\<rparr>, []), ss2)"
      "visible ss2 = (\<lambda>i. if i \<in> (snap_ID \<circ> evict_snapshot) ` set ?cs then None else visible ss1 i)" by blast
  have gone: "(snap_ID \<circ> evict_snapshot) ` set ?cs = snap_ID ` set (take k ?xs)"
    using arg_cong [OF k(2), of "\<lambda>l. snap_ID ` set l"] by (simp add: image_comp)
  have run: "CollectWithPolicy collect (\<lambda>_. (None, calm)) now None ss p =
      ((report\<lparr>gc_Actions := gc_Actions report @ map (action_of False) ?cs\<rparr>, None), ss2)"
    unfolding CollectWithPolicy_run [of p collect ss report ss1 ys, OF valid(1,2) collect ys(1)] using valid(3) ss2(1) by (simp add: errors_Join_def)
  have "ran (visible ss2) = set (drop k ?xs)"
  proof (intro set_eqI iffI)
    fix r assume "r \<in> ran (visible ss2)"
    then obtain i where i: "visible ss1 i = Some r" "i \<notin> snap_ID ` set (take k ?xs)"
      unfolding ran_def ss2(2) gone by (auto split: if_splits)
    have "r \<in> set ?xs" using i(1) ys(2) unfolding ran_def lru_facts(1) by blast
    moreover have "snap_ID r = i" by (rule visible_ID [OF ss1(1) i(1)])
    ultimately show "r \<in> set (drop k ?xs)" using i(2) by (metis Un_iff append_take_drop_id image_eqI set_append)
  next
    fix r assume r: "r \<in> set (drop k ?xs)"
    have "distinct (map snap_ID (take k ?xs @ drop k ?xs))" using dx by simp
    then have "snap_ID r \<notin> snap_ID ` set (take k ?xs)" using r unfolding map_append distinct_append by auto
    moreover obtain i where i: "visible ss1 i = Some r" using in_set_dropD [OF r] ys(2) unfolding lru_facts(1) ran_def by blast
    then have "visible ss1 (snap_ID r) = Some r" using visible_ID [OF ss1(1) i] by simp
    ultimately have "visible ss2 (snap_ID r) = Some r" unfolding ss2(2) gone by simp
    then show "r \<in> ran (visible ss2)" by (rule ranI)
  qed
  then show ?thesis
    using idem same k run ss2(2) eviction_suffix [OF valid(1) k(1) nn lru_facts(4) k(3)] ys(2) lru_facts(1) [of ys]
    unfolding gone by (intro exI [of _ ?xs] exI [of _ k] exI [of _ ss2]) simp
qed

text \<open>
   A dry run leaves the catalog exactly as the ordinary collection left it, whatever the host
  answers; where nothing fails, it reports the same snapshots with the same reasons, in the same order,
  as the real run would.
\<close>

theorem CollectWithPolicy_dry_run:
  assumes valid: "validateSnapshotEviction p = None" "ev_Enabled p" "ev_DryRun p"
    and collect: "collect None ss = ((report, None), ss1)"
    and ss1: "ss_inv ss1" "ss_live ss1" "unshadowed ss1"
  shows "snd (CollectWithPolicy collect host now None ss p) = ss1
    \<and> (\<exists>cs. fst (CollectWithPolicy collect (\<lambda>_. (None, calm)) now None ss p)
          = (report\<lparr>gc_Actions := gc_Actions report @ map (action_of True) cs\<rparr>, None)
        \<and> fst (CollectWithPolicy collect (\<lambda>_. (None, calm)) now None ss (p\<lparr>ev_DryRun := False\<rparr>))
          = (report\<lparr>gc_Actions := gc_Actions report @ map (action_of False) cs\<rparr>, None))"
proof -
  from pick_visible [OF ss1, of p now] obtain ys where ys: "snapshot_List None ss1 = Inr ys"
    "distinct (map (snap_ID \<circ> evict_snapshot) (pickSnapshotEvictions ys p now))"
    "\<forall>c \<in> set (pickSnapshotEvictions ys p now). visible ss1 (snap_ID (evict_snapshot c)) = Some (evict_snapshot c)
      \<and> snap_names (ss_tx ss1) (snap_ID (evict_snapshot c)) = None" by blast
  let ?cs = "pickSnapshotEvictions ys p now" and ?q = "p\<lparr>ev_DryRun := False\<rparr>"
  note run = CollectWithPolicy_run [of p collect ss report ss1 ys, OF valid(1,2) collect ys(1)]
  have "validateSnapshotEviction ?q = None" "ev_Enabled ?q" using valid by (simp_all add: validateSnapshotEviction_def)
  note run' = CollectWithPolicy_run [of ?q collect ss report ss1 ys, OF this collect ys(1)]
  have pick: "pickSnapshotEvictions ys ?q now = ?cs" by (simp add: pickSnapshotEvictions_def cong: if_cong)
  have "snd (CollectWithPolicy collect host now None ss p) = ss1"
    using evict_all_dry [of host ?cs report "[]" ss1] valid(3) unfolding run by (auto simp: Let_def split: prod.splits)
  moreover have "fst (CollectWithPolicy collect (\<lambda>_. (None, calm)) now None ss p)
      = (report\<lparr>gc_Actions := gc_Actions report @ map (action_of True) ?cs\<rparr>, None)"
    unfolding run using valid(3) by (simp add: evict_all_calm_dry [OF ss1(1,2) ys(3)] errors_Join_def)
  moreover obtain ss2 where "evict_all (\<lambda>_. (None, calm)) False ?cs report [] ss1
      = ((report\<lparr>gc_Actions := gc_Actions report @ map (action_of False) ?cs\<rparr>, []), ss2)"
    using evict_all_calm [OF ss1(1,2) ys(2,3)] by blast
  then have "fst (CollectWithPolicy collect (\<lambda>_. (None, calm)) now None ss ?q)
      = (report\<lparr>gc_Actions := gc_Actions report @ map (action_of False) ?cs\<rparr>, None)"
    unfolding run' pick by (simp add: errors_Join_def)
  ultimately show ?thesis by blast
qed

subsection \<open>A concrete catalog\<close>

definition sample_policy :: SnapshotEvictionPolicy where
  "sample_policy = \<lparr>ev_Enabled = True, ev_DryRun = False, ev_KeepLast = 1, ev_MaxAge = 0, ev_MaxSize = 50\<rparr>"

definition sample_single :: snapStore where
  "sample_single = \<lparr>ss_store = \<lparr>mem_records = [(''snapshots'', [(sample_id, P_snapshot (encode_snapshot sample_snapshot True))]),
     (''snapshot_names'', [])], mem_closed = False\<rparr>, ss_accesses = None\<rparr>"

lemma sample_single_facts:
  "ss_inv sample_single" "ss_live sample_single" "unshadowed sample_single" "ran (visible sample_single) = {sample_snapshot}"
proof -
  let ?t = "ss_tx sample_single"
  have snaps: "snaps ?t = [sample_id \<mapsto> encode_snapshot sample_snapshot True]" and names: "snap_names ?t = Map.empty"
    by (auto simp: snaps_def snap_names_def lookup_def sample_single_def fun_eq_iff)
  have "snapshot_inv ?t"
  proof (rule snapshot_invI)
    show "index_ok (snaps ?t) (snap_names ?t) sd_Name"
      unfolding snaps names using sample_fields(3) by (auto intro!: index_okI simp del: encode_snapshot_fields split: if_splits)
    show "\<exists>d. p = P_snapshot d \<and> sd_ID d = i \<and> decodes d" if "lookup ?t CollectionSnapshots i = Some p" for i p
      using that sample_fields by (auto simp: lookup_def sample_single_def simp del: encode_snapshot_fields split: if_splits)
    show "\<exists>d. p = P_name d" if "lookup ?t CollectionSnapshotNames n = Some p" for n p
      using that by (auto simp: lookup_def sample_single_def)
  qed (simp_all add: tx_ok_def keys_ok_def declared_def sample_single_def)
  then show "ss_inv sample_single" by (simp add: ss_inv_def) (simp add: sample_single_def)
  show "ss_live sample_single" by (simp add: sample_single_def)
  show "unshadowed sample_single" by (simp add: unshadowed_def names)
  have "visible sample_single = [sample_id \<mapsto> sample_snapshot]"
    by (auto simp: fun_eq_iff visible_def snaps sample_decoded visibleAccess_def) (simp_all add: sample_single_def encode_snapshot_def Let_def)
  then show "ran (visible sample_single) = {sample_snapshot}" by simp
qed

lemma sample_policy_valid: "validateSnapshotEviction sample_policy = None" "ev_Enabled sample_policy" "\<not> ev_DryRun sample_policy"
  by (simp_all add: validateSnapshotEviction_def sample_policy_def)

lemma sample_lru: "lru [sample_snapshot] = [sample_snapshot]"
  by (simp add: lru_def)

theorem pickSnapshotEvictions_exact_witness:
  "pickSnapshotEvictions [sample_snapshot] sample_policy 100 = [\<lparr>evict_snapshot = sample_snapshot, evict_reason = ''lru-size''\<rparr>]"
proof -
  have sz: "snap_Size sample_snapshot = 100" by (simp add: sample_snapshot_def)
  have "eviction_labels sample_policy 100 [sample_snapshot] 0 = [''lru-size'']"
    by (simp add: eviction_labels_def sample_policy_def sz)
  then show ?thesis
    using pickSnapshotEvictions_exact [of "[sample_snapshot]" sample_policy 100] by (simp add: sample_lru sz)
qed

theorem CollectWithPolicy_enforces_witness:
  "\<exists>r ss2. CollectWithPolicy (\<lambda>_ ss. ((\<lparr>gc_Actions = [], gc_Skipped = 0\<rparr>, None), ss)) (\<lambda>_. (None, calm)) 100 None sample_single sample_policy
     = ((r, None), ss2) \<and> ran (visible ss2) = {}"
proof -
  from CollectWithPolicy_enforces [OF sample_policy_valid, of "\<lambda>_ ss. ((\<lparr>gc_Actions = [], gc_Skipped = 0\<rparr>, None), ss)" sample_single
      "\<lparr>gc_Actions = [], gc_Skipped = 0\<rparr>" sample_single 100] sample_single_facts
  obtain xs k ss2 where run: "set xs = {sample_snapshot}" "ran (visible ss2) = set (drop k xs)" "total_size (drop k xs) \<le> 50"
    "CollectWithPolicy (\<lambda>_ ss. ((\<lparr>gc_Actions = [], gc_Skipped = 0\<rparr>, None), ss)) (\<lambda>_. (None, calm)) 100 None sample_single sample_policy
      = ((\<lparr>gc_Actions = map (action_of False) (pickSnapshotEvictions xs sample_policy 100), gc_Skipped = 0\<rparr>, None), ss2)"
    by (auto simp: sample_policy_def)
  have "drop k xs = []"
  proof (rule ccontr)
    assume "drop k xs \<noteq> []"
    then obtain y ys where d: "drop k xs = y # ys" by (cases "drop k xs") auto
    then have "set (y # ys) \<subseteq> {sample_snapshot}" using set_drop_subset [of k xs] run(1) by simp
    moreover have sz: "snap_Size sample_snapshot = 100" by (simp add: sample_snapshot_def)
    ultimately have "0 \<le> total_size ys" by (intro total_size_nonneg) auto
    then have "100 \<le> total_size (drop k xs)" using \<open>set (y # ys) \<subseteq> {sample_snapshot}\<close> sz unfolding d by auto
    then show False using run(3) by simp
  qed
  then show ?thesis using run(2,4) by auto
qed

theorem CollectWithPolicy_dry_run_witness:
  "snd (CollectWithPolicy (\<lambda>_ ss. ((\<lparr>gc_Actions = [], gc_Skipped = 0\<rparr>, None), ss)) (\<lambda>_. (None, calm)) 100 None sample_single
     (sample_policy\<lparr>ev_DryRun := True\<rparr>)) = sample_single"
  by (rule CollectWithPolicy_dry_run [THEN conjunct1]) (use sample_single_facts in \<open>simp_all add: validateSnapshotEviction_def sample_policy_def\<close>)

end
