(* ===== verification/Tap_Lease.thy ===== *)
theory Tap_Lease
  imports Vmm_Plan Metadata "HOL-Library.Product_Lexorder"
begin

text \<open>
  The address leases of the eBPF TAP provider, \<open>internal/network/tap\<close>: the checks of \<open>New\<close>, the device names
  and guest identities of \<open>provider.go\<close>, the durable reservations of \<open>lease.go\<close> and the recovery cache of
  \<open>recovery.go\<close>.

  The disk is two directories: the address files, by host address, and the index files of every sandbox, by
  NIC slot. A lease is published in the first and then hard-linked into the second. Every file system call
  is an operation of the model that may fail, and before each the other processes may have changed the
  disk; a \<open>tapHost\<close> decides both from the history, so a statement about every host covers every failure,
  every crash point and every interleaving. The content of a file that does not decode is a failing read.
\<close>

section \<open>The provider\<close>

record tapOptions =
  to_StateDir :: string
  to_PinDir :: string
  to_Subnet :: string
  to_TAPPrefix :: string
  to_ReuseDelay :: duration
  to_PoolSize :: int
  to_PoolQueues :: "int list"

text \<open>A network prefix: the masked address and its length.\<close>

record netPrefix =
  px_Addr :: "32 word"
  px_Bits :: nat

record tapProvider =
  tp_options :: tapOptions
  tp_pool :: netPrefix
  tp_owner :: string

definition addr4 :: "nat list \<Rightarrow> 32 word" where
  "addr4 bs = foldl (\<lambda>acc b. acc * 256 + of_nat b) 0 bs"

text \<open>\<open>netip.Addr.String\<close> of an IPv4 address.\<close>

definition addr_string :: "32 word \<Rightarrow> string" where
  "addr_string a = strings_Join (map (\<lambda>k. dec_nat (unat (drop_bit k a) mod 256)) [24, 16, 8, 0]) ''.''"

text \<open>\<open>netip.ParsePrefix\<close> on IPv4 text: an address, a slash and a length of at most two digits without a leading
  zero or sign.\<close>

definition parse_prefix4 :: "string \<Rightarrow> (32 word \<times> nat) option" where
  "parse_prefix4 s = (case Split s (CHR ''/'') of
     [a, b] \<Rightarrow> (case parse_ipv4 a of None \<Rightarrow> None | Some bs \<Rightarrow>
       if b = [] \<or> \<not> list_all is_digit b \<or> (1 < length b \<and> hd b = CHR ''0'') \<or> 32 < digits_value b then None
       else Some (addr4 bs, digits_value b))
   | _ \<Rightarrow> None)"

definition prefix_mask :: "nat \<Rightarrow> 32 word" where
  "prefix_mask bits = NOT (mask (32 - bits))"

definition IsPrivate4 :: "32 word \<Rightarrow> bool" where
  "IsPrivate4 a \<longleftrightarrow> and a (prefix_mask 8) = addr4 [10, 0, 0, 0] \<or> and a (prefix_mask 12) = addr4 [172, 16, 0, 0]
     \<or> and a (prefix_mask 16) = addr4 [192, 168, 0, 0]"

definition pool_contains :: "netPrefix \<Rightarrow> string \<Rightarrow> bool" where
  "pool_contains p h = (case parse_ipv4 h of None \<Rightarrow> False | Some bs \<Rightarrow> and (addr4 bs) (prefix_mask (px_Bits p)) = px_Addr p)"

fun queues_ok :: "int list \<Rightarrow> int list \<Rightarrow> bool" where
  "queues_ok seen [] = True"
| "queues_ok seen (q # qs) = (if q < 2 \<or> 256 < q \<or> q mod 2 \<noteq> 0 \<or> List.member seen q then False else queues_ok (q # seen) qs)"

definition tap_New :: "(string \<Rightarrow> byte list) \<Rightarrow> tapOptions \<Rightarrow> gerr + tapProvider" where
  "tap_New sha options0 =
     (if to_PoolSize options0 < 0 \<or> 64 < to_PoolSize options0 then Inl (Msg ''TAP pool size must be between 0 and 64'')
      else let options1 = (if to_PoolQueues options0 = [] then options0\<lparr>to_PoolQueues := [2, 4]\<rparr> else options0) in
        if \<not> queues_ok [] (to_PoolQueues options1)
        then Inl (Msg ''TAP pool queue counts must be distinct even values between 2 and 256'')
        else if 256 < to_PoolSize options1 * int (length (to_PoolQueues options1))
        then Inl (Msg ''TAP pool may retain at most 256 idle devices'')
        else if to_ReuseDelay options1 < 0 then Inl (Msg ''address reuse delay must not be negative'')
        else let options = (if to_ReuseDelay options1 = 0 then options1\<lparr>to_ReuseDelay := 90000000000\<rparr> else options1) in
          case parse_prefix4 (to_Subnet options) of
            None \<Rightarrow> Inl (Msg ''eBPF subnet must be a canonical private IPv4 /16 through /28'')
          | Some (a, bits) \<Rightarrow>
            if \<not> IsPrivate4 a \<or> and a (prefix_mask bits) \<noteq> a \<or> bits < 16 \<or> 28 < bits
            then Inl (Msg ''eBPF subnet must be a canonical private IPv4 /16 through /28'')
            else if \<not> IsAbs (to_StateDir options) \<or> \<not> IsAbs (to_PinDir options) \<or> to_StateDir options = ''/'' \<or> to_PinDir options = ''/sys/fs/bpf''
            then Inl (Msg ''eBPF state and pin directories must be private absolute paths'')
            else if to_TAPPrefix options = [] \<or> 5 < length (to_TAPPrefix options)
            then Inl (Msg ''eBPF TAP prefix must contain 1..5 ASCII letters or digits'')
            else if \<not> list_all is_alnum (to_TAPPrefix options) then Inl (Msg ''eBPF TAP prefix must contain ASCII letters or digits'')
            else Inr \<lparr>tp_options = options, tp_pool = \<lparr>px_Addr = a, px_Bits = bits\<rparr>,
              tp_owner = EncodeToString (take 8 (sha (Clean (to_StateDir options))))\<rparr>)"

text \<open>Lower-case base32 without padding, five bits at a time, and \<open>strconv.FormatInt\<close> to base 36.\<close>

definition byte_bits :: "byte \<Rightarrow> bool list" where
  "byte_bits b = map (bit b) [7, 6, 5, 4, 3, 2, 1, 0]"

definition base_char :: "nat \<Rightarrow> char" where
  "base_char n = (if n < 26 then char_of (97 + n) else char_of (24 + n))"

fun base32_chars :: "nat \<Rightarrow> bool list \<Rightarrow> string" where
  "base32_chars 0 bs = []"
| "base32_chars (Suc n) bs = (if bs = [] then []
     else base_char (foldl (\<lambda>acc b. 2 * acc + of_bool b) 0 (take 5 (bs @ replicate 4 False))) # base32_chars n (drop 5 bs))"

definition base32_lower :: "byte list \<Rightarrow> string" where
  "base32_lower bytes = base32_chars (8 * length bytes) (concat (map byte_bits bytes))"

definition digit36 :: "nat \<Rightarrow> char" where
  "digit36 n = (if n < 10 then char_of (48 + n) else char_of (87 + n))"

fun format36 :: "nat \<Rightarrow> string" where
  "format36 n = (if n < 36 then [digit36 n] else format36 (n div 36) @ [digit36 (n mod 36)])"

declare format36.simps [simp del]

text \<open>The slot is not negative where the name is used.\<close>

definition tapName :: "(string \<Rightarrow> byte list) \<Rightarrow> tapProvider \<Rightarrow> SandboxID \<Rightarrow> int \<Rightarrow> string" where
  "tapName sha p i index =
     (let suffix = CHR ''-'' # format36 (nat index);
          identity = base32_lower (sha (tp_owner p @ '':'' @ i));
          pre = to_TAPPrefix (tp_options p)
      in pre @ take (15 - length pre - length suffix) identity @ suffix)"

definition guestIdentity :: "int \<Rightarrow> gerr + string \<times> IPv4Config" where
  "guestIdentity index =
     (if index < 0 \<or> MaxSandboxNICs \<le> index then Inl (Msg ''invalid fixed guest NIC slot'')
      else Inr (''02:4b:42:00:'' @ hex_byte (word_of_int index) @ '':02'',
        \<lparr>ip4_Address = ''169.254.240.'' @ Itoa (index * 4 + 2),
         ip4_Gateway = (if index = 0 then ''169.254.240.'' @ Itoa (index * 4 + 1) else []), ip4_Prefix = 30\<rparr>))"

section \<open>The disk and its operations\<close>

record lease =
  l_Sandbox :: SandboxID
  l_Interface :: NetworkInterface
  l_Epoch :: "64 word"
  l_ReuseAfter :: time

record tapDisk =
  td_addresses :: "lease gomap"
  td_index :: "SandboxID \<Rightarrow> lease gomap"

datatype tapop =
    A_read string
  | A_link string
  | A_remove string
  | A_rename string
  | A_list
  | X_read SandboxID string
  | X_link string SandboxID string
  | X_remove SandboxID string
  | X_list SandboxID
  | L_create
  | L_write
  | L_unstage
  | L_sync
  | L_dirs
  | L_lock string
  | L_unlock string
  | L_gate
  | L_bind

type_synonym taptrace = "(tapop \<times> gerr option) list"

record tapHost =
  th_fault :: "taptrace \<Rightarrow> tapop \<Rightarrow> gerr option"
  th_env :: "taptrace \<Rightarrow> tapDisk \<Rightarrow> tapDisk"
  th_hints :: "taptrace \<Rightarrow> lease gomap gomap \<Rightarrow> lease gomap gomap"
  th_recovered :: "taptrace \<Rightarrow> bool"
  th_now :: "taptrace \<Rightarrow> time"
  th_ctx :: "taptrace \<Rightarrow> ctx"
  th_order :: "lease list \<Rightarrow> lease list"
  th_binding :: "taptrace \<Rightarrow> string \<times> 64 word"
  th_sha :: "string \<Rightarrow> byte list"

record tapst =
  ts_disk :: tapDisk
  ts_ready :: bool
  ts_byID :: "lease gomap gomap"
  ts_trace :: taptrace

type_synonym ('e, 'a) tapM = "tapst \<Rightarrow> ('e + 'a) \<times> tapst"

definition retT :: "'a \<Rightarrow> ('e, 'a) tapM" where
  "retT x s = (Inr x, s)"

definition failT :: "'e \<Rightarrow> ('e, 'a) tapM" where
  "failT e s = (Inl e, s)"

definition tryT :: "('e, 'a) tapM \<Rightarrow> ('e \<Rightarrow> ('f, 'b) tapM) \<Rightarrow> ('a \<Rightarrow> ('f, 'b) tapM) \<Rightarrow> ('f, 'b) tapM" where
  "tryT m h k s = (case m s of (Inl e, s') \<Rightarrow> h e s' | (Inr x, s') \<Rightarrow> k x s')"

definition bindT :: "('e, 'a) tapM \<Rightarrow> ('a \<Rightarrow> ('e, 'b) tapM) \<Rightarrow> ('e, 'b) tapM" where
  "bindT m k = tryT m failT k"

definition attemptT :: "('e, 'a) tapM \<Rightarrow> ('f, 'e option) tapM" where
  "attemptT m = tryT m (\<lambda>e. retT (Some e)) (\<lambda>_. retT None)"

definition liftT :: "gerr + 'a \<Rightarrow> (gerr, 'a) tapM" where
  "liftT r s = (r, s)"

definition askT :: "(taptrace \<Rightarrow> 'a) \<Rightarrow> ('e, 'a) tapM" where
  "askT f s = (Inr (f (ts_trace s)), s)"

text \<open>One file system call: the others act, on the disk and on the recovery cache of the provider, then the
  call fails or acts.\<close>

definition others_act :: "tapHost \<Rightarrow> tapst \<Rightarrow> tapst" where
  "others_act E s = s\<lparr>ts_disk := th_env E (ts_trace s) (ts_disk s), ts_byID := th_hints E (ts_trace s) (ts_byID s),
     ts_ready := (ts_ready s \<or> th_recovered E (ts_trace s))\<rparr>"

definition perform :: "tapHost \<Rightarrow> tapop \<Rightarrow> (tapDisk \<Rightarrow> (gerr + 'a) \<times> tapDisk) \<Rightarrow> (gerr, 'a) tapM" where
  "perform E op f s = (let s1 = others_act E s in
     case th_fault E (ts_trace s) op of
       Some e \<Rightarrow> (Inl e, s1\<lparr>ts_trace := (op, Some e) # ts_trace s\<rparr>)
     | None \<Rightarrow> (case f (ts_disk s1) of (r, d') \<Rightarrow>
         (r, s1\<lparr>ts_disk := d', ts_trace := (op, case r of Inl e \<Rightarrow> Some e | Inr _ \<Rightarrow> None) # ts_trace s\<rparr>)))"

definition effect :: "tapHost \<Rightarrow> tapop \<Rightarrow> (gerr, unit) tapM" where
  "effect E op = perform E op (\<lambda>d. (Inr (), d))"

abbreviation ErrExist :: gerr where "ErrExist \<equiv> Msg ''file already exists''"
abbreviation ErrNotExist :: gerr where "ErrNotExist \<equiv> Msg ''file does not exist''"

definition read_address :: "tapHost \<Rightarrow> string \<Rightarrow> (gerr, lease) tapM" where
  "read_address E h = perform E (A_read h) (\<lambda>d. (case map_of (td_addresses d) h of None \<Rightarrow> Inl ErrNotExist | Some l \<Rightarrow> Inr l, d))"

definition read_index :: "tapHost \<Rightarrow> SandboxID \<Rightarrow> string \<Rightarrow> (gerr, lease) tapM" where
  "read_index E i slot = perform E (X_read i slot) (\<lambda>d. (case map_of (td_index d i) slot of None \<Rightarrow> Inl ErrNotExist | Some l \<Rightarrow> Inr l, d))"

text \<open>\<open>os.Link\<close> of a staged file to an address, and of an address to an index.\<close>

definition link_address :: "tapHost \<Rightarrow> string \<Rightarrow> lease \<Rightarrow> (gerr, unit) tapM" where
  "link_address E h item = perform E (A_link h) (\<lambda>d. if map_of (td_addresses d) h \<noteq> None then (Inl ErrExist, d)
     else (Inr (), d\<lparr>td_addresses := AList.update h item (td_addresses d)\<rparr>))"

definition link_index :: "tapHost \<Rightarrow> string \<Rightarrow> SandboxID \<Rightarrow> string \<Rightarrow> (gerr, unit) tapM" where
  "link_index E h i slot = perform E (X_link h i slot) (\<lambda>d. case map_of (td_addresses d) h of None \<Rightarrow> (Inl ErrNotExist, d)
     | Some l \<Rightarrow> if map_of (td_index d i) slot \<noteq> None then (Inl ErrExist, d)
         else (Inr (), d\<lparr>td_index := (td_index d)(i := AList.update slot l (td_index d i))\<rparr>))"

definition remove_address :: "tapHost \<Rightarrow> string \<Rightarrow> (gerr, unit) tapM" where
  "remove_address E h = perform E (A_remove h) (\<lambda>d. if map_of (td_addresses d) h = None then (Inl ErrNotExist, d)
     else (Inr (), d\<lparr>td_addresses := AList.delete h (td_addresses d)\<rparr>))"

definition rename_address :: "tapHost \<Rightarrow> string \<Rightarrow> lease \<Rightarrow> (gerr, unit) tapM" where
  "rename_address E h item = perform E (A_rename h) (\<lambda>d. (Inr (), d\<lparr>td_addresses := AList.update h item (td_addresses d)\<rparr>))"

definition remove_index :: "tapHost \<Rightarrow> SandboxID \<Rightarrow> string \<Rightarrow> (gerr, unit) tapM" where
  "remove_index E i slot = perform E (X_remove i slot) (\<lambda>d. if map_of (td_index d i) slot = None then (Inl ErrNotExist, d)
     else (Inr (), d\<lparr>td_index := (td_index d)(i := AList.delete slot (td_index d i))\<rparr>))"

section \<open>Reading and publishing leases\<close>

definition lease_check :: "lease \<Rightarrow> gerr option" where
  "lease_check item = first_error [
     (case ParseSandboxID (l_Sandbox item) of Inl e \<Rightarrow> Some e | Inr _ \<Rightarrow> None),
     NetworkInterface_Validate (l_Interface item),
     check (nic_AddressMode (l_Interface item) \<noteq> AddressModeFixed \<or> nic_Network (l_Interface item) \<noteq> ''ebpf'')
       (Msg ''invalid eBPF allocation contract'')]"

definition lease_host :: "lease \<Rightarrow> string" where
  "lease_host item = nic_HostAddress (l_Interface item)"

definition lease_index :: "lease \<Rightarrow> int" where
  "lease_index item = nic_Index (l_Interface item)"

text \<open>\<open>readLease\<close> below the address directory, where the file name is checked, and below an index directory.\<close>

definition readLease :: "tapHost \<Rightarrow> string \<Rightarrow> (gerr, lease) tapM" where
  "readLease E h = bindT (read_address E h) (\<lambda>item. case lease_check item of Some e \<Rightarrow> failT e
     | None \<Rightarrow> if h \<noteq> lease_host item then failT (Msg ''eBPF reservation filename differs from its address'') else retT item)"

definition readLease_index :: "tapHost \<Rightarrow> SandboxID \<Rightarrow> string \<Rightarrow> (gerr, lease) tapM" where
  "readLease_index E i slot = bindT (read_index E i slot) (\<lambda>item. case lease_check item of Some e \<Rightarrow> failT e | None \<Rightarrow> retT item)"

text \<open>A deferred cleanup whose error is joined to the returned one.\<close>

definition joinT :: "(gerr, unit) tapM \<Rightarrow> (gerr, unit) tapM \<Rightarrow> (gerr, unit) tapM" where
  "joinT body cleanup = bindT (attemptT body) (\<lambda>r. bindT (attemptT cleanup) (\<lambda>c.
     case errors_Join [r, c] of None \<Rightarrow> retT () | Some e \<Rightarrow> failT e))"

definition publishLease :: "tapHost \<Rightarrow> string \<Rightarrow> lease \<Rightarrow> (gerr, unit) tapM" where
  "publishLease E h item = bindT (effect E L_create) (\<lambda>_. joinT
     (bindT (effect E L_write) (\<lambda>_. bindT (link_address E h item) (\<lambda>_. effect E L_sync))) (effect E L_unstage))"

definition reclaimAddress :: "tapHost \<Rightarrow> string \<Rightarrow> lease \<Rightarrow> (gerr, unit) tapM" where
  "reclaimAddress E h item = bindT (effect E (L_lock h)) (\<lambda>_. joinT
     (tryT (readLease E h)
        (\<lambda>e. if errors_Is e ErrNotExist then publishLease E h item else failT e)
        (\<lambda>prior. bindT (askT (th_now E)) (\<lambda>now.
           if IsZero (l_ReuseAfter prior) \<or> now < l_ReuseAfter prior then failT ErrExist
           else bindT (remove_address E h) (\<lambda>_. publishLease E h item))))
     (effect E (L_unlock h)))"

section \<open>The recovery cache\<close>

definition rememberLease :: "lease \<Rightarrow> ('e, unit) tapM" where
  "rememberLease item s = (let items = (case map_of (ts_byID s) (l_Sandbox item) of None \<Rightarrow> [] | Some m \<Rightarrow> m) in
     (Inr (), s\<lparr>ts_byID := AList.update (l_Sandbox item) (AList.update (lease_host item) item items) (ts_byID s)\<rparr>))"

definition forgetLease :: "lease \<Rightarrow> ('e, unit) tapM" where
  "forgetLease item s = (let items = (case map_of (ts_byID s) (l_Sandbox item) of None \<Rightarrow> [] | Some m \<Rightarrow> m) in
     case map_of items (lease_host item) of
       None \<Rightarrow> (Inr (), s)
     | Some saved \<Rightarrow> if lease_index saved = lease_index item \<and> l_Epoch saved = l_Epoch item then
         let items' = AList.delete (lease_host item) items in
         (Inr (), s\<lparr>ts_byID := (if items' = [] then AList.delete (l_Sandbox item) (ts_byID s)
            else AList.update (l_Sandbox item) items' (ts_byID s))\<rparr>)
       else (Inr (), s))"

text \<open>The cached leases of a sandbox, in the order the map yields them.\<close>

definition recoveryLeases :: "tapHost \<Rightarrow> SandboxID \<Rightarrow> ('e, lease list) tapM" where
  "recoveryLeases E i s = (Inr (th_order E (map snd (case map_of (ts_byID s) i of None \<Rightarrow> [] | Some m \<Rightarrow> m))), s)"

definition check_ctx :: "tapHost \<Rightarrow> (gerr, unit) tapM" where
  "check_ctx E = bindT (askT (th_ctx E)) (\<lambda>ctx. case ctx of Some e \<Rightarrow> failT e | None \<Rightarrow> retT ())"

text \<open>\<open>scanLeases\<close>: the active leases of the address directory, in the order of the file names. An address that
  vanished meanwhile is skipped.\<close>

fun scan_loop4 :: "tapHost \<Rightarrow> lease list \<Rightarrow> string list \<Rightarrow> (gerr, lease list) tapM" where
  "scan_loop4 E result [] = retT result"
| "scan_loop4 E result (h # hs) = bindT (check_ctx E) (\<lambda>_.
     tryT (readLease E h) (\<lambda>e. if errors_Is e ErrNotExist then scan_loop4 E result hs else failT e)
       (\<lambda>item. if \<not> IsZero (l_ReuseAfter item) then scan_loop4 E result hs else scan_loop4 E (result @ [item]) hs))"

definition file_order :: "lease gomap \<Rightarrow> string list" where
  "file_order m = sort_key (\<lambda>h. h @ ''.json'') (map fst m)"

definition scanLeases :: "tapHost \<Rightarrow> (gerr, lease list) tapM" where
  "scanLeases E = bindT (check_ctx E) (\<lambda>_. tryT (perform E A_list (\<lambda>d. (Inr (file_order (td_addresses d)), d)))
     (\<lambda>e. if errors_Is e ErrNotExist then retT [] else failT e) (scan_loop4 E []))"

fun remember_all :: "lease list \<Rightarrow> ('e, unit) tapM" where
  "remember_all [] = retT ()"
| "remember_all (l # ls) = bindT (rememberLease l) (\<lambda>_. remember_all ls)"

definition set_ready :: "('e, unit) tapM" where
  "set_ready s = (Inr (), s\<lparr>ts_ready := True\<rparr>)"

text \<open>The gate admits one scan at a time; waiting for it fails when the caller is cancelled.\<close>

definition RecoverLeases :: "tapHost \<Rightarrow> (gerr, unit) tapM" where
  "RecoverLeases E s = (if ts_ready s then check_ctx E s
     else bindT (effect E L_gate) (\<lambda>_ s. if ts_ready s then check_ctx E s
       else bindT (scanLeases E) (\<lambda>items. bindT (remember_all items) (\<lambda>_. set_ready)) s) s)"

section \<open>Reservation\<close>

definition pool_count :: "tapProvider \<Rightarrow> 32 word" where
  "pool_count p = push_bit (32 - px_Bits (tp_pool p)) 1"

definition start_offset :: "tapHost \<Rightarrow> tapProvider \<Rightarrow> SandboxID \<Rightarrow> int \<Rightarrow> 32 word" where
  "start_offset E p i index = addr4 (map unat (take 4 (th_sha E (i @ ''/'' @ Itoa index)))) mod (pool_count p - 2)"

definition candidate :: "tapProvider \<Rightarrow> 32 word \<Rightarrow> 32 word \<Rightarrow> 32 word" where
  "candidate p start attempt = px_Addr (tp_pool p) + 1 + (start + attempt) mod (pool_count p - 2)"

definition same_slot :: "SandboxID \<Rightarrow> AddSpec \<Rightarrow> lease \<Rightarrow> bool" where
  "same_slot i spec l \<longleftrightarrow> l_Sandbox l = i \<and> lease_index l = spec_Index spec"

definition slot_name :: "int \<Rightarrow> string" where
  "slot_name index = Itoa index"

text \<open>The lease an existing index promises, checked against its address.\<close>

definition indexed_reservation :: "tapHost \<Rightarrow> SandboxID \<Rightarrow> AddSpec \<Rightarrow> lease \<Rightarrow> (gerr, lease) tapM" where
  "indexed_reservation E i spec prior =
     (if \<not> same_slot i spec prior then failT (Msg ''eBPF lease index ownership mismatch'')
      else if (case spec_Existing spec of None \<Rightarrow> False
          | Some x \<Rightarrow> lease_host prior \<noteq> nic_HostAddress x \<or> nic_TAP (l_Interface prior) \<noteq> nic_TAP x)
      then failT (Msg ''persisted eBPF host address differs from lease'')
      else bindT (readLease E (lease_host prior)) (\<lambda>address.
        if \<not> same_slot i spec address \<or> l_Epoch address \<noteq> l_Epoch prior \<or> nic_TAP (l_Interface address) \<noteq> nic_TAP (l_Interface prior)
        then failT (Msg ''eBPF address ownership differs from sandbox index'')
        else if \<not> IsZero (l_ReuseAfter address) then failT (Msg ''sandbox index points to a retired eBPF address'')
        else retT prior))"

text \<open>An address published without an index: the first cached lease of the slot that is still current.\<close>

fun find_existing :: "tapHost \<Rightarrow> SandboxID \<Rightarrow> AddSpec \<Rightarrow> lease list \<Rightarrow> (gerr, lease option) tapM" where
  "find_existing E i spec [] = retT None"
| "find_existing E i spec (c # cs) =
     (if lease_index c \<noteq> spec_Index spec then find_existing E i spec cs
      else bindT (readLease E (lease_host c)) (\<lambda>current.
        if same_slot i spec current \<and> IsZero (l_ReuseAfter current) then retT (Some current) else find_existing E i spec cs))"

text \<open>The lease to publish at an attempt.\<close>

definition attempt_item :: "AddSpec \<Rightarrow> lease option \<Rightarrow> lease \<Rightarrow> string \<Rightarrow> lease" where
  "attempt_item spec existing item h =
     (let item1 = (case existing of Some l \<Rightarrow> l | None \<Rightarrow> item\<lparr>l_Interface := (l_Interface item)\<lparr>nic_HostAddress := h\<rparr>\<rparr>)
      in case spec_Existing spec of Some x \<Rightarrow> item1\<lparr>l_Interface := x\<rparr> | None \<Rightarrow> item1)"

text \<open>An address that exists already: the lease that holds it after this attempt, or nothing when it belongs to
  others or cools down.\<close>

definition claim_taken :: "tapHost \<Rightarrow> SandboxID \<Rightarrow> AddSpec \<Rightarrow> string \<Rightarrow> lease \<Rightarrow> lease \<Rightarrow> (gerr, lease option) tapM" where
  "claim_taken E i spec h item prior =
     (if \<not> IsZero (l_ReuseAfter prior) then
        bindT (askT (th_now E)) (\<lambda>now.
          if now < l_ReuseAfter prior then
            (if spec_Existing spec \<noteq> None then failT (Msg ''persisted host address is still cooling down'') else retT None)
          else tryT (reclaimAddress E h item) (\<lambda>e. if errors_Is e ErrExist then retT None else failT e) (\<lambda>_. retT (Some item)))
      else if \<not> same_slot i spec prior then
        (if spec_Existing spec \<noteq> None then failT (Msg ''recovery address is already reserved'') else retT None)
      else retT (Some prior))"

text \<open>Publishing at one address.\<close>

definition claim_address :: "tapHost \<Rightarrow> SandboxID \<Rightarrow> AddSpec \<Rightarrow> string \<Rightarrow> lease \<Rightarrow> (gerr, lease option) tapM" where
  "claim_address E i spec h item =
     tryT (publishLease E h item)
       (\<lambda>err. if errors_Is err ErrExist then bindT (readLease E h) (claim_taken E i spec h item) else failT err)
       (\<lambda>_. retT (Some item))"

text \<open>The exception of the loop carries the path last tried, which the deferred function of \<open>reserveWith\<close> reads.\<close>

fun reserve_loop :: "tapHost \<Rightarrow> tapProvider \<Rightarrow> SandboxID \<Rightarrow> AddSpec \<Rightarrow> lease option \<Rightarrow> lease \<Rightarrow> 32 word \<Rightarrow> string option \<Rightarrow> nat list
    \<Rightarrow> (gerr \<times> string option, lease) tapM" where
  "reserve_loop E p i spec existing item start published [] = failT (Msg ''eBPF host address pool is exhausted'', published)"
| "reserve_loop E p i spec existing item start published (a # as) =
     tryT (check_ctx E) (\<lambda>e. failT (e, published)) (\<lambda>_.
     let item' = attempt_item spec existing item (addr_string (candidate p start (of_nat a))); h = lease_host item' in
     case NetworkInterface_Validate (l_Interface item') of Some e \<Rightarrow> failT (e, published) | None \<Rightarrow>
     if \<not> pool_contains (tp_pool p) h then failT (Msg ''recovery address is outside eBPF subnet'', published)
     else tryT (claim_address E i spec h item') (\<lambda>e. failT (e, Some h)) (\<lambda>out. case out of
       None \<Rightarrow> reserve_loop E p i spec existing item start (Some h) as
     | Some l \<Rightarrow> tryT (link_index E h i (slot_name (spec_Index spec))) (\<lambda>e. failT (e, Some h)) (\<lambda>_.
         tryT (effect E L_sync) (\<lambda>e. failT (e, Some h)) (\<lambda>_. retT l))))"

definition contract_broken :: "AddSpec \<Rightarrow> string \<Rightarrow> IPv4Config \<Rightarrow> bool" where
  "contract_broken spec mac ipv4 = (case spec_Existing spec of None \<Rightarrow> False
     | Some x \<Rightarrow> nic_Index x \<noteq> spec_Index spec \<or> nic_MAC x \<noteq> mac \<or> nic_IPv4 x \<noteq> Some ipv4
         \<or> nic_AddressMode x \<noteq> AddressModeFixed \<or> nic_Network x \<noteq> ''ebpf'')"

definition fresh_lease :: "tapHost \<Rightarrow> tapProvider \<Rightarrow> SandboxID \<Rightarrow> AddSpec \<Rightarrow> string \<Rightarrow> IPv4Config \<Rightarrow> int \<Rightarrow> lease" where
  "fresh_lease E p i spec mac ipv4 queues = \<lparr>l_Sandbox = i, l_Interface = \<lparr>nic_Index = spec_Index spec, nic_Name = ''eth'' @ Itoa (spec_Index spec),
     nic_TAP = tapName (th_sha E) p i (spec_Index spec), nic_MAC = mac, nic_Queues = queues, nic_QueueSize = 512, nic_Network = ''ebpf'',
     nic_IPv4 = Some ipv4, nic_AddressMode = AddressModeFixed, nic_HostAddress = []\<rparr>, l_Epoch = 0, l_ReuseAfter = 0\<rparr>"

text \<open>The device of the lease: the one of the interrupted reservation, the deterministic one, or a borrowed one.\<close>

definition bound_lease :: "tapHost \<Rightarrow> tapProvider \<Rightarrow> SandboxID \<Rightarrow> AddSpec \<Rightarrow> bool \<Rightarrow> lease option \<Rightarrow> lease \<Rightarrow> (gerr, lease) tapM" where
  "bound_lease E p i spec bind existing item =
     (case existing of Some l \<Rightarrow> retT l | None \<Rightarrow>
      (case spec_Existing spec of
         Some x \<Rightarrow> if nic_TAP x \<noteq> tapName (th_sha E) p i (spec_Index spec)
           then failT (Msg ''pooled TAP recovery requires its durable address reservation'') else retT item
       | None \<Rightarrow> if bind then bindT (askT (th_binding E)) (\<lambda>(name, epoch). bindT (effect E L_bind) (\<lambda>_.
             retT (item\<lparr>l_Interface := (l_Interface item)\<lparr>nic_TAP := name\<rparr>, l_Epoch := epoch\<rparr>)))
           else retT item))"

text \<open>The reservation without its deferred function.\<close>

definition reserve_body :: "tapHost \<Rightarrow> tapProvider \<Rightarrow> SandboxID \<Rightarrow> AddSpec \<Rightarrow> bool \<Rightarrow> (gerr \<times> string option, lease) tapM" where
  "reserve_body E p i spec bind =
     (let early = (\<lambda>e. failT (e, None)) in
      case guestIdentity (spec_Index spec) of Inl e \<Rightarrow> early e | Inr (mac, ipv4) \<Rightarrow>
      if contract_broken spec mac ipv4 then early (Msg ''eBPF recovery must preserve the fixed network contract'')
      else
        let queues = ResolveQueues (spec_Queues spec) 1; slot = slot_name (spec_Index spec) in
        if queues < 2 \<or> queues mod 2 \<noteq> 0 then early (Msg ''TAP queue count must be even and at least two'')
        else tryT (readLease_index E i slot)
          (\<lambda>e. if \<not> errors_Is e ErrNotExist then early e
            else bindT (recoveryLeases E i) (\<lambda>known.
              tryT (find_existing E i spec known) early (\<lambda>existing.
              tryT (bound_lease E p i spec bind existing (fresh_lease E p i spec mac ipv4 queues)) early (\<lambda>item.
              tryT (effect E L_dirs) early (\<lambda>_.
              reserve_loop E p i spec existing item (start_offset E p i (spec_Index spec)) None [0..<unat (pool_count p - 2)])))))
          (\<lambda>prior. tryT (indexed_reservation E i spec prior) early retT))"

definition reserveWith :: "tapHost \<Rightarrow> tapProvider \<Rightarrow> SandboxID \<Rightarrow> AddSpec \<Rightarrow> bool \<Rightarrow> (gerr, lease) tapM" where
  "reserveWith E p i spec bind =
     bindT (liftT (ParseSandboxID i)) (\<lambda>_.
     if spec_DHCP spec then failT (Msg ''eBPF TAP networking requires fixed guest addressing'')
     else bindT (RecoverLeases E) (\<lambda>_.
       tryT (reserve_body E p i spec bind)
         (\<lambda>(e, published). case published of None \<Rightarrow> failT e | Some h \<Rightarrow>
            tryT (readLease E h) (\<lambda>_. failT e) (\<lambda>item.
              if same_slot i spec item \<and> IsZero (l_ReuseAfter item) then bindT (rememberLease item) (\<lambda>_. failT e) else failT e))
         retT))"

section \<open>Retirement and queries\<close>

text \<open>The quarantine record, staged and renamed over the address, and the deferred removal of the stage.\<close>

definition retire_write :: "tapHost \<Rightarrow> lease \<Rightarrow> (gerr, unit) tapM" where
  "retire_write E retired =
     bindT (effect E L_create) (\<lambda>_. bindT (attemptT
       (bindT (effect E L_write) (\<lambda>_. bindT (rename_address E (lease_host retired) retired) (\<lambda>_. bindT (effect E L_sync) (\<lambda>_. forgetLease retired)))))
       (\<lambda>r. bindT (attemptT (effect E L_unstage)) (\<lambda>c.
          let late = (case c of Some e \<Rightarrow> if errors_Is e ErrNotExist then None else Some e | None \<Rightarrow> None) in
          case late of None \<Rightarrow> (case r of None \<Rightarrow> retT () | Some e \<Rightarrow> failT e)
          | Some e \<Rightarrow> failT (the (errors_Join [r, Some e])))))"

definition retireAddress :: "tapHost \<Rightarrow> tapProvider \<Rightarrow> lease \<Rightarrow> (gerr, unit) tapM" where
  "retireAddress E p item =
     bindT (readLease E (lease_host item)) (\<lambda>prior.
     if l_Sandbox prior \<noteq> l_Sandbox item \<or> lease_index prior \<noteq> lease_index item \<or> l_Epoch prior \<noteq> l_Epoch item
        \<or> nic_TAP (l_Interface prior) \<noteq> nic_TAP (l_Interface item)
     then failT (Msg ''refuse to retire another endpoint owner's address'')
     else bindT (askT (th_now E)) (\<lambda>now. retire_write E (item\<lparr>l_ReuseAfter := now + to_ReuseDelay (tp_options p)\<rparr>)))"

definition retireLease :: "tapHost \<Rightarrow> tapProvider \<Rightarrow> lease \<Rightarrow> (gerr, unit) tapM" where
  "retireLease E p item =
     bindT (rememberLease item) (\<lambda>_.
     tryT (bindT (remove_index E (l_Sandbox item) (slot_name (lease_index item))) (\<lambda>_. retT ()))
       (\<lambda>e. if errors_Is e ErrNotExist then retireAddress E p item else failT e)
       (\<lambda>_. bindT (effect E L_sync) (\<lambda>_. retireAddress E p item)))"

fun indexed_loop :: "tapHost \<Rightarrow> SandboxID \<Rightarrow> lease list \<Rightarrow> string list \<Rightarrow> (gerr, lease list) tapM" where
  "indexed_loop E i result [] = retT result"
| "indexed_loop E i result (slot # slots) = bindT (check_ctx E) (\<lambda>_. bindT (readLease_index E i slot) (\<lambda>item.
     if l_Sandbox item \<noteq> i then failT (Msg ''eBPF indexed lease has another owner'') else indexed_loop E i (result @ [item]) slots))"

definition indexedLeases :: "tapHost \<Rightarrow> SandboxID \<Rightarrow> (gerr, lease list) tapM" where
  "indexedLeases E i = bindT (liftT (ParseSandboxID i)) (\<lambda>_.
     tryT (perform E (X_list i) (\<lambda>d. (Inr (file_order (td_index d i)), d)))
       (\<lambda>e. if errors_Is e ErrNotExist then retT [] else failT e) (indexed_loop E i []))"

fun leases_indexed :: "tapHost \<Rightarrow> SandboxID \<Rightarrow> lease list \<Rightarrow> lease list \<Rightarrow> (gerr, lease list) tapM" where
  "leases_indexed E i result [] = retT result"
| "leases_indexed E i result (item # items) = bindT (readLease E (lease_host item)) (\<lambda>current.
     if l_Sandbox current \<noteq> i \<or> lease_index current \<noteq> lease_index item \<or> l_Epoch current \<noteq> l_Epoch item
        \<or> nic_TAP (l_Interface current) \<noteq> nic_TAP (l_Interface item) \<or> \<not> IsZero (l_ReuseAfter current)
     then failT (Msg ''eBPF indexed address ownership mismatch'')
     else bindT (forgetLease current) (\<lambda>_. leases_indexed E i (result @ [current]) items))"

fun leases_known :: "tapHost \<Rightarrow> SandboxID \<Rightarrow> string list \<Rightarrow> lease list \<Rightarrow> lease list \<Rightarrow> (gerr, lease list) tapM" where
  "leases_known E i seen result [] = retT result"
| "leases_known E i seen result (item # items) = bindT (check_ctx E) (\<lambda>_.
     if List.member seen (lease_host item) then leases_known E i seen result items
     else tryT (readLease E (lease_host item))
       (\<lambda>e. if errors_Is e ErrNotExist then bindT (forgetLease item) (\<lambda>_. leases_known E i seen result items) else failT e)
       (\<lambda>current. if l_Sandbox current \<noteq> i \<or> lease_index current \<noteq> lease_index item \<or> \<not> IsZero (l_ReuseAfter current)
          then bindT (forgetLease item) (\<lambda>_. leases_known E i seen result items)
          else leases_known E i seen (result @ [current]) items))"

definition tap_leases :: "tapHost \<Rightarrow> SandboxID \<Rightarrow> (gerr, lease list) tapM" where
  "tap_leases E i = bindT (liftT (ParseSandboxID i)) (\<lambda>_. bindT (RecoverLeases E) (\<lambda>_. bindT (indexedLeases E i) (\<lambda>indexed.
     bindT (leases_indexed E i [] indexed) (\<lambda>current. bindT (recoveryLeases E i) (\<lambda>known.
     bindT (leases_known E i (map lease_host current) current known) (\<lambda>result.
     retT (sort_key (\<lambda>l. (lease_index l, lease_host l)) result)))))))"

end
