(* ===== verification/Tap_Ownership.thy ===== *)
theory Tap_Ownership
  imports Tap_Lease
begin

text \<open>
  Who may own an address of the TAP provider. The statements quantify over every \<open>tapHost\<close>: each file system
  call may fail, other processes change the disk before each call as far as the stated rely condition lets
  them, and the recovery cache may hold anything.
\<close>

section \<open>Program logic\<close>

text \<open>A triple with one postcondition for a result and one for an error.\<close>

definition tripleT :: "(tapst \<Rightarrow> bool) \<Rightarrow> ('e, 'a) tapM \<Rightarrow> ('a \<Rightarrow> tapst \<Rightarrow> bool) \<Rightarrow> ('e \<Rightarrow> tapst \<Rightarrow> bool) \<Rightarrow> bool" where
  "tripleT P m Q X \<longleftrightarrow> (\<forall>s. P s \<longrightarrow> (case m s of (Inl e, s') \<Rightarrow> X e s' | (Inr x, s') \<Rightarrow> Q x s'))"

abbreviation keepsT :: "(tapst \<Rightarrow> bool) \<Rightarrow> ('e, 'a) tapM \<Rightarrow> bool" where
  "keepsT P m \<equiv> tripleT P m (\<lambda>_. P) (\<lambda>_. P)"

lemma t_conseq:
  assumes "tripleT P' m Q' X'" and "\<And>s. P s \<Longrightarrow> P' s" and "\<And>x s. Q' x s \<Longrightarrow> Q x s" and "\<And>e s. X' e s \<Longrightarrow> X e s"
  shows "tripleT P m Q X"
  using assms unfolding tripleT_def by (fastforce split: prod.splits sum.splits)

lemma t_ret: "(\<And>s. P s \<Longrightarrow> Q x s) \<Longrightarrow> tripleT P (retT x) Q X"
  by (simp add: tripleT_def retT_def)

lemma t_fail: "(\<And>s. P s \<Longrightarrow> X e s) \<Longrightarrow> tripleT P (failT e) Q X"
  by (simp add: tripleT_def failT_def)

lemma t_try:
  assumes "tripleT P m R Y" and "\<And>e. tripleT (Y e) (h e) Q X" and "\<And>x. tripleT (R x) (k x) Q X"
  shows "tripleT P (tryT m h k) Q X"
  using assms unfolding tripleT_def tryT_def by (fastforce split: prod.splits sum.splits)

lemma t_bind:
  assumes "tripleT P m R X" and "\<And>x. tripleT (R x) (k x) Q X"
  shows "tripleT P (bindT m k) Q X"
  unfolding bindT_def by (rule t_try [OF assms(1) t_fail assms(2)])

lemma t_attempt: "tripleT P m (\<lambda>_. Q None) (\<lambda>e. Q (Some e)) \<Longrightarrow> tripleT P (attemptT m) Q X"
  unfolding attemptT_def by (erule t_try) (simp_all add: t_ret)

lemma t_lift: "(\<And>s x. P s \<Longrightarrow> r = Inr x \<Longrightarrow> Q x s) \<Longrightarrow> (\<And>s e. P s \<Longrightarrow> r = Inl e \<Longrightarrow> X e s) \<Longrightarrow> tripleT P (liftT r) Q X"
  by (cases r) (simp_all add: tripleT_def liftT_def)

lemma t_ask: "(\<And>s tr. P s \<Longrightarrow> Q (f tr) s) \<Longrightarrow> tripleT P (askT f) Q X"
  by (simp add: tripleT_def askT_def)

lemma keeps_ask: "keepsT P (askT f)" and keeps_lift: "keepsT P (liftT r)"
  by (auto intro: t_ask t_lift)

lemma t_pure: "(\<phi> \<Longrightarrow> tripleT P m Q X) \<Longrightarrow> tripleT (\<lambda>s. P s \<and> \<phi>) m Q X"
  by (auto simp: tripleT_def)

lemma t_join:
  assumes "tripleT P body (\<lambda>_. R) (\<lambda>_. Y)" and "tripleT R cleanup Q (\<lambda>_. X)" and "keepsT Y cleanup"
    and "\<And>s. Q () s \<Longrightarrow> Y' s" and "\<And>s. X s \<Longrightarrow> Y' s" and "\<And>s. Y s \<Longrightarrow> Y' s"
  shows "tripleT P (joinT body cleanup) Q (\<lambda>_. Y')"
proof -
  have start: "tripleT P (attemptT body) (\<lambda>r. case r of None \<Rightarrow> R | Some _ \<Rightarrow> Y) (\<lambda>_. Y')"
    by (rule t_attempt) (simp add: assms(1))
  have clean: "tripleT (case r of None \<Rightarrow> R | Some _ \<Rightarrow> Y) (attemptT cleanup)
      (\<lambda>c. case r of None \<Rightarrow> (case c of None \<Rightarrow> Q () | Some _ \<Rightarrow> X) | Some _ \<Rightarrow> Y) (\<lambda>_. Y')" for r :: "gerr option"
    by (cases r; rule t_attempt; simp add: assms(2,3))
  have finish: "tripleT (case r of None \<Rightarrow> (case c of None \<Rightarrow> Q () | Some _ \<Rightarrow> X) | Some _ \<Rightarrow> Y)
      (case errors_Join [r, c] of None \<Rightarrow> retT () | Some e \<Rightarrow> failT e) Q (\<lambda>_. Y')" for r c :: "gerr option"
    by (cases r; cases c) (auto simp: errors_Join_def assms(4-6) intro!: t_ret t_fail)
  show ?thesis unfolding joinT_def by (rule t_bind [OF start]) (rule t_bind [OF clean finish])
qed

text \<open>Assertions on the disk, and what the others must leave of one.\<close>

definition onD :: "(tapDisk \<Rightarrow> bool) \<Rightarrow> tapst \<Rightarrow> bool" where
  "onD K s = K (ts_disk s)"

definition stable :: "tapHost \<Rightarrow> (tapDisk \<Rightarrow> bool) \<Rightarrow> bool" where
  "stable E K \<longleftrightarrow> (\<forall>tr d. K d \<longrightarrow> K (th_env E tr d))"

lemma stableD: "stable E K \<Longrightarrow> K d \<Longrightarrow> K (th_env E tr d)"
  by (simp add: stable_def)

lemma t_perform:
  assumes "stable E K" and "\<And>d e d'. K d \<Longrightarrow> f d = (Inl e, d') \<Longrightarrow> X e d'" and "\<And>d x d'. K d \<Longrightarrow> f d = (Inr x, d') \<Longrightarrow> Q x d'"
    and "\<And>d e. K d \<Longrightarrow> X e d"
  shows "tripleT (onD K) (perform E op f) (\<lambda>x. onD (Q x)) (\<lambda>e. onD (X e))"
  unfolding tripleT_def
proof (intro allI impI)
  fix s assume "onD K s"
  then have "K (ts_disk (others_act E s))" by (simp add: onD_def others_act_def stableD [OF assms(1)])
  then show "case perform E op f s of (Inl e, s') \<Rightarrow> onD (X e) s' | (Inr x, s') \<Rightarrow> onD (Q x) s'"
    using assms(2,3,4) by (auto simp: perform_def onD_def Let_def split: option.splits prod.splits sum.splits)
qed

lemma t_fact: "(\<And>s. P s \<Longrightarrow> \<phi>) \<Longrightarrow> (\<phi> \<Longrightarrow> tripleT P m Q X) \<Longrightarrow> tripleT P m Q X"
  by (auto simp: tripleT_def)

lemma onD_pure: "onD (\<lambda>d. K d \<and> \<phi>) s \<longleftrightarrow> onD K s \<and> \<phi>"
  by (simp add: onD_def)

text \<open>The calls that leave the disk alone keep whatever is stable; a read also tells what it saw.\<close>

lemma keeps_effect: "stable E K \<Longrightarrow> keepsT (onD K) (effect E op)"
  unfolding effect_def by (rule t_perform) auto

lemma keeps_check_ctx: "keepsT (onD K) (check_ctx E)"
  unfolding check_ctx_def by (rule t_bind, rule t_ask, assumption) (auto split: option.splits intro: t_ret t_fail)

lemma keeps_cache:
  "keepsT (onD K) (rememberLease item)" "keepsT (onD K) (forgetLease item)" "keepsT (onD K) (recoveryLeases E i)"
  "keepsT (onD K) set_ready"
  by (auto simp: tripleT_def onD_def rememberLease_def forgetLease_def recoveryLeases_def set_ready_def Let_def split: option.splits)

lemma t_readLease:
  assumes "stable E K"
  shows "tripleT (onD K) (readLease E h)
    (\<lambda>l. onD (\<lambda>d. K d \<and> map_of (td_addresses d) h = Some l \<and> lease_check l = None \<and> lease_host l = h)) (\<lambda>_. onD K)"
  unfolding readLease_def read_address_def
  by (rule t_bind, rule t_perform [OF assms, where Q = "\<lambda>l d. K d \<and> map_of (td_addresses d) h = Some l"])
    (auto simp: onD_def split: option.splits intro: t_ret t_fail)

lemma t_readIndex:
  assumes "stable E K"
  shows "tripleT (onD K) (readLease_index E i slot) (\<lambda>l. onD (\<lambda>d. K d \<and> map_of (td_index d i) slot = Some l \<and> lease_check l = None)) (\<lambda>_. onD K)"
  unfolding readLease_index_def read_index_def
  by (rule t_bind, rule t_perform [OF assms, where Q = "\<lambda>l d. K d \<and> map_of (td_index d i) slot = Some l"])
    (auto simp: onD_def split: option.splits intro: t_ret t_fail)

lemma keeps_readLease: "stable E K \<Longrightarrow> keepsT (onD K) (readLease E h)"
  by (rule t_conseq [OF t_readLease]) (auto simp: onD_def)

lemma keeps_readIndex: "stable E K \<Longrightarrow> keepsT (onD K) (readLease_index E i slot)"
  by (rule t_conseq [OF t_readIndex]) (auto simp: onD_def)

lemma keeps_scan_loop:
  assumes "stable E K"
  shows "keepsT (onD K) (scan_loop4 E result hs)"
proof (induction hs arbitrary: result)
  case (Cons h hs)
  show ?case unfolding scan_loop4.simps
    by (rule t_bind [OF keeps_check_ctx], rule t_try [OF keeps_readLease [OF assms]])
      (simp_all add: Cons.IH t_fail)
qed (simp add: t_ret)

lemma keeps_remember_all: "keepsT (onD K) (remember_all items)"
  by (induction items) (simp_all add: t_ret t_bind [OF keeps_cache(1)])

lemma keeps_listing: "stable E K \<Longrightarrow> keepsT (onD K) (perform E op (\<lambda>d. (Inr (g d), d)))"
  by (rule t_perform) auto

lemma keeps_scanLeases: "stable E K \<Longrightarrow> keepsT (onD K) (scanLeases E)"
  unfolding scanLeases_def
  by (rule t_bind [OF keeps_check_ctx], rule t_try [OF keeps_listing]) (simp_all add: keeps_scan_loop t_ret t_fail)

lemma keeps_RecoverLeases:
  assumes "stable E K"
  shows "keepsT (onD K) (RecoverLeases E)"
proof -
  have scan: "keepsT (onD K) (bindT (scanLeases E) (\<lambda>items. bindT (remember_all items) (\<lambda>_. set_ready)))"
    by (rule t_bind [OF keeps_scanLeases [OF assms]], rule t_bind [OF keeps_remember_all keeps_cache(4)])
  have branch: "keepsT (onD K) (\<lambda>s. if ts_ready s then check_ctx E s else m s)" if "keepsT (onD K) m" for m
    using that keeps_check_ctx [of K E] by (auto simp: tripleT_def)
  have rest: "keepsT (onD K) (bindT (effect E L_gate) (\<lambda>_ s. if ts_ready s then check_ctx E s
      else bindT (scanLeases E) (\<lambda>items. bindT (remember_all items) (\<lambda>_. set_ready)) s))"
    by (rule t_bind [OF keeps_effect [OF assms]], rule branch [OF scan])
  show ?thesis using branch [OF rest] by (simp add: tripleT_def RecoverLeases_def)
qed

section \<open>Leases of others\<close>

text \<open>A lease at its address and, perhaps, one in an index.\<close>

definition held :: "string \<Rightarrow> lease \<Rightarrow> SandboxID \<Rightarrow> string \<Rightarrow> lease option \<Rightarrow> tapDisk \<Rightarrow> bool" where
  "held h l j slot x d \<longleftrightarrow> map_of (td_addresses d) h = Some l \<and> (x \<noteq> None \<longrightarrow> map_of (td_index d j) slot = x)"

text \<open>A lease that an allocation must not take: it is active, or its quarantine outlasts the run.\<close>

definition unavailable :: "tapHost \<Rightarrow> lease \<Rightarrow> bool" where
  "unavailable E l \<longleftrightarrow> IsZero (l_ReuseAfter l) \<or> (\<forall>tr. th_now E tr < l_ReuseAfter l)"

lemma file_written: "map_of (AList.update k v m) k' = (if k' = k then Some v else map_of m k')"
  by simp

lemma file_removed: "map_of (AList.delete k m) k' = (if k' = k then None else map_of m k')"
  by simp

lemmas file_simps = file_written file_removed

lemma held_link_address: "stable E (held h l j slot x) \<Longrightarrow> keepsT (onD (held h l j slot x)) (link_address E h' item)"
  unfolding link_address_def by (rule t_perform) (auto simp: held_def file_simps split: if_splits)

lemma held_link_index: "stable E (held h l j slot x) \<Longrightarrow> keepsT (onD (held h l j slot x)) (link_index E h' i slot')"
  unfolding link_index_def by (rule t_perform) (auto simp: held_def file_simps split: if_splits option.splits)

lemma held_remove_address:
  "stable E (held h l j slot x) \<Longrightarrow> h' \<noteq> h \<Longrightarrow> keepsT (onD (held h l j slot x)) (remove_address E h')"
  unfolding remove_address_def by (rule t_perform) (auto simp: held_def file_simps split: if_splits)

lemma held_rename_address:
  "stable E (held h l j slot x) \<Longrightarrow> h' \<noteq> h \<Longrightarrow> keepsT (onD (held h l j slot x)) (rename_address E h' item)"
  unfolding rename_address_def by (rule t_perform) (auto simp: held_def file_simps split: if_splits)

lemma held_remove_index:
  "stable E (held h l j slot x) \<Longrightarrow> i \<noteq> j \<or> slot' \<noteq> slot \<Longrightarrow> keepsT (onD (held h l j slot x)) (remove_index E i slot')"
  unfolding remove_index_def by (rule t_perform) (auto simp: held_def file_simps split: if_splits)

lemma keeps_join: "keepsT P body \<Longrightarrow> keepsT P cleanup \<Longrightarrow> keepsT P (joinT body cleanup)"
  by (rule t_join [where R = P and Y = P and X = P])

lemma held_publish:
  assumes "stable E (held h l j slot x)"
  shows "keepsT (onD (held h l j slot x)) (publishLease E h' item)"
  unfolding publishLease_def
  by (rule t_bind [OF keeps_effect [OF assms]], rule keeps_join [OF _ keeps_effect [OF assms]],
      rule t_bind [OF keeps_effect [OF assms]], rule t_bind [OF held_link_address [OF assms] keeps_effect [OF assms]])

lemma held_replace:
  assumes "stable E (held h l j slot x)" and "h' \<noteq> h"
  shows "keepsT (onD (held h l j slot x)) (bindT (remove_address E h') (\<lambda>_. publishLease E h' item))"
  by (rule t_bind [OF held_remove_address [OF assms] held_publish [OF assms(1)]])

text \<open>What follows a clock reading may use that it is one.\<close>

lemma t_now:
  assumes "\<And>now. now \<in> range (th_now E) \<Longrightarrow> tripleT P (k now) Q X"
  shows "tripleT P (bindT (askT (th_now E)) k) Q X"
  using assms by (simp add: tripleT_def bindT_def tryT_def askT_def)

lemma held_reclaim:
  assumes st: "stable E (held h l j slot x)" and un: "unavailable E l"
  shows "keepsT (onD (held h l j slot x)) (reclaimAddress E h' item)"
proof -
  let ?K = "held h l j slot x"
  have taken: "tripleT (onD (\<lambda>d. ?K d \<and> map_of (td_addresses d) h' = Some prior \<and> lease_check prior = None \<and> lease_host prior = h'))
      (bindT (askT (th_now E)) (\<lambda>now. if IsZero (l_ReuseAfter prior) \<or> now < l_ReuseAfter prior then failT ErrExist
         else bindT (remove_address E h') (\<lambda>_. publishLease E h' item))) (\<lambda>_. onD ?K) (\<lambda>_. onD ?K)" for prior
  proof (rule t_fact [where \<phi> = "h' = h \<longrightarrow> prior = l"])
    assume same: "h' = h \<longrightarrow> prior = l"
    have "keepsT (onD ?K) (if IsZero (l_ReuseAfter prior) \<or> now < l_ReuseAfter prior then failT ErrExist
         else bindT (remove_address E h') (\<lambda>_. publishLease E h' item))" if "now \<in> range (th_now E)" for now
    proof (cases "IsZero (l_ReuseAfter prior) \<or> now < l_ReuseAfter prior")
      case False
      then have "h' \<noteq> h" using same un that by (auto simp: unavailable_def)
      with False show ?thesis using held_replace [OF st, of h' item] by simp
    qed (simp add: t_fail)
    then have "keepsT (onD ?K) (bindT (askT (th_now E)) (\<lambda>now. if IsZero (l_ReuseAfter prior) \<or> now < l_ReuseAfter prior then failT ErrExist
         else bindT (remove_address E h') (\<lambda>_. publishLease E h' item)))" by (rule t_now)
    then show ?thesis by (rule t_conseq) (simp_all add: onD_def)
  qed (auto simp: onD_def held_def)
  show ?thesis unfolding reclaimAddress_def
    by (rule t_bind [OF keeps_effect [OF st]], rule keeps_join [OF _ keeps_effect [OF st]],
        rule t_try [OF t_readLease [OF st] _ taken]) (simp add: held_publish [OF st] t_fail)
qed

lemma held_claim_taken:
  "stable E (held h l j slot x) \<Longrightarrow> unavailable E l \<Longrightarrow> keepsT (onD (held h l j slot x)) (claim_taken E i spec h' item prior)"
  unfolding claim_taken_def by (auto intro!: t_ret t_fail t_bind [OF keeps_ask] t_try [OF held_reclaim])

lemma held_claim:
  "stable E (held h l j slot x) \<Longrightarrow> unavailable E l \<Longrightarrow> keepsT (onD (held h l j slot x)) (claim_address E i spec h' item)"
  unfolding claim_address_def
  by (auto intro!: t_fail t_ret t_try [OF held_publish] t_bind [OF keeps_readLease] held_claim_taken)

lemma held_reserve_loop:
  assumes st: "stable E (held h l j slot x)" and un: "unavailable E l"
  shows "keepsT (onD (held h l j slot x)) (reserve_loop E p i spec existing item start published as)"
proof (induction as arbitrary: published)
  case (Cons a as)
  show ?case unfolding reserve_loop.simps Let_def
    by (rule t_try [OF keeps_check_ctx], rule t_fail, assumption)
      (auto split: option.splits intro!: t_fail t_ret Cons.IH t_try [OF held_claim [OF st un]]
        t_try [OF held_link_index [OF st]] t_try [OF keeps_effect [OF st]])
qed (simp add: t_fail)

lemma keeps_find_existing: "stable E K \<Longrightarrow> keepsT (onD K) (find_existing E i spec cs)"
  by (induction cs) (auto intro!: t_ret t_bind [OF keeps_readLease])

lemma keeps_indexed_reservation: "stable E K \<Longrightarrow> keepsT (onD K) (indexed_reservation E i spec prior)"
  unfolding indexed_reservation_def by (auto intro!: t_ret t_fail t_bind [OF keeps_readLease])

lemma keeps_bound_lease: "stable E K \<Longrightarrow> keepsT (onD K) (bound_lease E p i spec bind existing item)"
  unfolding bound_lease_def by (auto split: option.splits intro!: t_ret t_fail t_bind [OF keeps_ask] t_bind [OF keeps_effect])

lemma held_reserve_body:
  assumes st: "stable E (held h l j slot x)" and un: "unavailable E l"
  shows "keepsT (onD (held h l j slot x)) (reserve_body E p i spec bind)"
  unfolding reserve_body_def Let_def
  by (auto split: sum.splits intro!: t_fail t_ret t_try [OF keeps_readIndex [OF st]] t_bind [OF keeps_cache(3)]
      t_try [OF keeps_find_existing [OF st]] t_try [OF keeps_bound_lease [OF st]] t_try [OF keeps_effect [OF st]]
      t_try [OF keeps_indexed_reservation [OF st]] held_reserve_loop [OF st un])

lemma held_reserveWith:
  assumes st: "stable E (held h l j slot x)" and un: "unavailable E l"
  shows "keepsT (onD (held h l j slot x)) (reserveWith E p i spec bind)"
  unfolding reserveWith_def
  by (auto split: option.splits intro!: t_fail t_ret t_bind [OF keeps_lift] t_bind [OF keeps_RecoverLeases [OF st]] t_bind [OF keeps_cache(1)]
      t_try [OF held_reserve_body [OF st un]] t_try [OF keeps_readLease [OF st]])

text \<open>The four fields that name the owner of an endpoint.\<close>

definition same_owner :: "lease \<Rightarrow> lease \<Rightarrow> bool" where
  "same_owner a b \<longleftrightarrow> l_Sandbox a = l_Sandbox b \<and> lease_index a = lease_index b \<and> l_Epoch a = l_Epoch b
     \<and> nic_TAP (l_Interface a) = nic_TAP (l_Interface b)"

lemma keeps_late:
  "keepsT P (case late of None \<Rightarrow> (case r of None \<Rightarrow> retT () | Some e \<Rightarrow> failT e) | Some e \<Rightarrow> failT (f e))"
  by (auto split: option.splits intro: t_ret t_fail)

lemma keeps_attempt: "keepsT P m \<Longrightarrow> keepsT P (attemptT m)"
  by (rule t_attempt) (simp add: tripleT_def)

lemma held_retire_write:
  assumes st: "stable E (held h l j slot x)" and other: "lease_host retired \<noteq> h"
  shows "keepsT (onD (held h l j slot x)) (retire_write E retired)"
proof -
  have body: "keepsT (onD (held h l j slot x)) (bindT (effect E L_write) (\<lambda>_. bindT (rename_address E (lease_host retired) retired)
      (\<lambda>_. bindT (effect E L_sync) (\<lambda>_. forgetLease retired))))"
    by (rule t_bind [OF keeps_effect [OF st]], rule t_bind [OF held_rename_address [OF st other]],
        rule t_bind [OF keeps_effect [OF st] keeps_cache(2)])
  show ?thesis unfolding retire_write_def Let_def
    by (rule t_bind [OF keeps_effect [OF st]], rule t_bind [OF keeps_attempt [OF body]],
        rule t_bind [OF keeps_attempt [OF keeps_effect [OF st]] keeps_late])
qed

lemma held_retireAddress:
  assumes st: "stable E (held h l j slot x)" and other: "\<not> same_owner l item"
  shows "keepsT (onD (held h l j slot x)) (retireAddress E p item)"
  unfolding retireAddress_def
proof (rule t_bind [OF t_readLease [OF st]])
  fix prior
  let ?k = "if l_Sandbox prior \<noteq> l_Sandbox item \<or> lease_index prior \<noteq> lease_index item \<or> l_Epoch prior \<noteq> l_Epoch item
        \<or> nic_TAP (l_Interface prior) \<noteq> nic_TAP (l_Interface item) then failT (Msg ''refuse to retire another endpoint owner's address'')
      else bindT (askT (th_now E)) (\<lambda>now. retire_write E (item\<lparr>l_ReuseAfter := now + to_ReuseDelay (tp_options p)\<rparr>))"
  have keep: "keepsT (onD (held h l j slot x)) ?k" if same: "lease_host item = h \<longrightarrow> prior = l"
  proof (cases "same_owner prior item")
    case True
    with same other have "lease_host item \<noteq> h" by auto
    then have "lease_host (item\<lparr>l_ReuseAfter := t\<rparr>) \<noteq> h" for t by (simp add: lease_host_def)
    with True show ?thesis
      by (auto simp: same_owner_def intro!: t_bind [OF keeps_ask] held_retire_write [OF st])
  qed (auto simp: same_owner_def intro: t_fail)
  let ?P = "onD (\<lambda>d. held h l j slot x d \<and> map_of (td_addresses d) (lease_host item) = Some prior \<and> lease_check prior = None
      \<and> lease_host prior = lease_host item)"
  have fact: "?P s \<Longrightarrow> lease_host item = h \<longrightarrow> prior = l" for s by (auto simp: onD_def held_def)
  show "tripleT ?P ?k (\<lambda>_. onD (held h l j slot x)) (\<lambda>_. onD (held h l j slot x))"
    by (rule t_fact [OF fact], assumption) (rule t_conseq [OF keep], simp_all add: onD_def)
qed

lemma held_retireLease:
  assumes st: "stable E (held h l j slot x)" and other: "\<not> same_owner l item"
    and index: "l_Sandbox item \<noteq> j \<or> slot_name (lease_index item) \<noteq> slot"
  shows "keepsT (onD (held h l j slot x)) (retireLease E p item)"
proof -
  have remove: "keepsT (onD (held h l j slot x)) (bindT (remove_index E (l_Sandbox item) (slot_name (lease_index item))) (\<lambda>_. retT ()))"
    by (rule t_bind [OF held_remove_index [OF st index]]) (simp add: t_ret)
  show ?thesis unfolding retireLease_def
    by (rule t_bind [OF keeps_cache(1)], rule t_try [OF remove])
      (auto intro!: t_fail t_bind [OF keeps_effect [OF st]] held_retireAddress [OF st other])
qed

text \<open>Queries change no file.\<close>

lemma keeps_indexed_loop: "stable E K \<Longrightarrow> keepsT (onD K) (indexed_loop E i result slots)"
  by (induction slots arbitrary: result) (auto intro!: t_ret t_fail t_bind [OF keeps_check_ctx] t_bind [OF keeps_readIndex])

lemma keeps_indexedLeases: "stable E K \<Longrightarrow> keepsT (onD K) (indexedLeases E i)"
  unfolding indexedLeases_def
  by (rule t_bind [OF keeps_lift], rule t_try [OF keeps_listing]) (auto intro: t_ret t_fail keeps_indexed_loop)

lemma keeps_leases_indexed: "stable E K \<Longrightarrow> keepsT (onD K) (leases_indexed E i result items)"
  by (induction items arbitrary: result) (auto intro!: t_ret t_fail t_bind [OF keeps_readLease] t_bind [OF keeps_cache(2)])

lemma keeps_leases_known: "stable E K \<Longrightarrow> keepsT (onD K) (leases_known E i seen result items)"
  by (induction items arbitrary: result)
    (auto intro!: t_ret t_fail t_bind [OF keeps_check_ctx] t_try [OF keeps_readLease] t_bind [OF keeps_cache(2)])

lemma keeps_tap_leases: "stable E K \<Longrightarrow> keepsT (onD K) (tap_leases E i)"
  unfolding tap_leases_def
  by (auto intro!: t_ret t_bind [OF keeps_lift] t_bind [OF keeps_RecoverLeases] t_bind [OF keeps_indexedLeases]
      t_bind [OF keeps_leases_indexed] t_bind [OF keeps_cache(3)] t_bind [OF keeps_leases_known])

lemma keepsT_run: "keepsT (onD K) m \<Longrightarrow> K (ts_disk s) \<Longrightarrow> K (ts_disk (snd (m s)))"
  by (cases "m s"; cases "fst (m s)") (auto simp: tripleT_def onD_def split: prod.splits sum.splits)

section \<open>What a successful reservation gives\<close>

text \<open>What the operations of other sandboxes leave alone: the active addresses and the index of this one.\<close>

definition spares :: "SandboxID \<Rightarrow> tapHost \<Rightarrow> bool" where
  "spares i E \<longleftrightarrow> (\<forall>h l. l_Sandbox l = i \<and> IsZero (l_ReuseAfter l) \<longrightarrow> stable E (\<lambda>d. map_of (td_addresses d) h = Some l))
     \<and> (\<forall>slot x. stable E (\<lambda>d. map_of (td_index d i) slot = Some x))"

definition owned :: "SandboxID \<Rightarrow> AddSpec \<Rightarrow> lease \<Rightarrow> bool" where
  "owned i spec l \<longleftrightarrow> same_slot i spec l \<and> IsZero (l_ReuseAfter l)"

definition at_address :: "string \<Rightarrow> lease \<Rightarrow> tapDisk \<Rightarrow> bool" where
  "at_address h l d \<longleftrightarrow> map_of (td_addresses d) h = Some l"

definition reserved :: "SandboxID \<Rightarrow> AddSpec \<Rightarrow> lease \<Rightarrow> tapDisk \<Rightarrow> bool" where
  "reserved i spec l d \<longleftrightarrow> same_slot i spec l \<and> map_of (td_index d i) (slot_name (spec_Index spec)) = Some l
     \<and> (\<exists>a. at_address (lease_host l) a d \<and> owned i spec a \<and> same_owner a l)"

abbreviation anyD :: "tapst \<Rightarrow> bool" where "anyD \<equiv> onD (\<lambda>_. True)"

lemma anyD_True: "anyD s"
  by (simp add: onD_def)

lemma stable_True: "stable E (\<lambda>_. True)"
  by (simp add: stable_def)

lemma stable_at: "spares i E \<Longrightarrow> owned i spec l \<Longrightarrow> stable E (at_address h l)"
  by (auto simp: spares_def owned_def same_slot_def at_address_def [abs_def])

lemma t_publish:
  assumes "spares i E" and "owned i spec item"
  shows "tripleT anyD (publishLease E h item) (\<lambda>_. onD (at_address h item)) (\<lambda>_. anyD)"
proof -
  have st: "stable E (at_address h item)" by (rule stable_at [OF assms])
  have link: "tripleT anyD (link_address E h item) (\<lambda>_. onD (at_address h item)) (\<lambda>_. anyD)"
    unfolding link_address_def by (rule t_perform [OF stable_True]) (auto simp: at_address_def file_simps split: if_splits)
  have tail: "tripleT anyD (bindT (effect E L_write) (\<lambda>_. bindT (link_address E h item) (\<lambda>_. effect E L_sync)))
      (\<lambda>_. onD (at_address h item)) (\<lambda>_. anyD)"
    by (rule t_bind [OF keeps_effect [OF stable_True]], rule t_bind [OF link], rule t_conseq [OF keeps_effect [OF st]])
      (simp_all add: onD_def)
  show ?thesis unfolding publishLease_def
    by (rule t_bind [OF keeps_effect [OF stable_True]],
        rule t_join [OF tail keeps_effect [OF st] keeps_effect [OF stable_True]]) (simp_all add: onD_def)
qed

lemma t_reclaim:
  assumes "spares i E" and "owned i spec item"
  shows "tripleT anyD (reclaimAddress E h item) (\<lambda>_. onD (at_address h item)) (\<lambda>_. anyD)"
proof -
  have st: "stable E (at_address h item)" by (rule stable_at [OF assms])
  have remove: "keepsT anyD (remove_address E h)" unfolding remove_address_def by (rule t_perform [OF stable_True]) simp_all
  have body: "tripleT anyD (tryT (readLease E h) (\<lambda>e. if errors_Is e ErrNotExist then publishLease E h item else failT e)
      (\<lambda>prior. bindT (askT (th_now E)) (\<lambda>now. if IsZero (l_ReuseAfter prior) \<or> now < l_ReuseAfter prior then failT ErrExist
         else bindT (remove_address E h) (\<lambda>_. publishLease E h item)))) (\<lambda>_. onD (at_address h item)) (\<lambda>_. anyD)"
    by (auto intro!: t_try [OF keeps_readLease [OF stable_True]] t_fail t_bind [OF keeps_ask] t_bind [OF remove] t_publish [OF assms])
  show ?thesis unfolding reclaimAddress_def
    by (rule t_bind [OF keeps_effect [OF stable_True]],
        rule t_join [OF body keeps_effect [OF st] keeps_effect [OF stable_True]]) (simp_all add: onD_def)
qed

text \<open>What an attempt established at an address.\<close>

definition claimed :: "SandboxID \<Rightarrow> AddSpec \<Rightarrow> string \<Rightarrow> lease option \<Rightarrow> tapDisk \<Rightarrow> bool" where
  "claimed i spec h out d = (case out of None \<Rightarrow> True | Some r \<Rightarrow> at_address h r d \<and> owned i spec r \<and> lease_host r = h)"

lemma t_claim_taken:
  assumes "spares i E" and own: "owned i spec item" and host: "lease_host item = h"
  shows "tripleT (onD (\<lambda>d. at_address h prior d \<and> lease_host prior = h)) (claim_taken E i spec h item prior)
    (\<lambda>out. onD (claimed i spec h out)) (\<lambda>_. anyD)"
proof -
  have reclaim: "tripleT anyD (tryT (reclaimAddress E h item) (\<lambda>e. if errors_Is e ErrExist then retT None else failT e) (\<lambda>_. retT (Some item)))
      (\<lambda>out. onD (claimed i spec h out)) (\<lambda>_. anyD)"
    using own host by (auto simp: claimed_def onD_def intro!: t_try [OF t_reclaim [OF assms(1,2)]] t_ret t_fail)
  have "tripleT anyD (bindT (askT (th_now E)) (\<lambda>now. if now < l_ReuseAfter prior then
        (if spec_Existing spec \<noteq> None then failT (Msg ''persisted host address is still cooling down'') else retT None)
      else tryT (reclaimAddress E h item) (\<lambda>e. if errors_Is e ErrExist then retT None else failT e) (\<lambda>_. retT (Some item))))
      (\<lambda>out. onD (claimed i spec h out)) (\<lambda>_. anyD)"
    using reclaim by (auto simp: claimed_def onD_def intro!: t_bind [OF keeps_ask] t_ret t_fail)
  from t_conseq [OF this] show ?thesis unfolding claim_taken_def
    by (auto simp: onD_def claimed_def owned_def intro!: t_ret t_fail)
qed

lemma t_claim:
  assumes "spares i E" and own: "owned i spec item" and host: "lease_host item = h"
  shows "tripleT anyD (claim_address E i spec h item) (\<lambda>out. onD (claimed i spec h out)) (\<lambda>_. anyD)"
proof -
  have taken: "tripleT anyD (bindT (readLease E h) (claim_taken E i spec h item)) (\<lambda>out. onD (claimed i spec h out)) (\<lambda>_. anyD)"
    by (rule t_bind [OF t_readLease [OF stable_True]], rule t_conseq [OF t_claim_taken [OF assms]])
      (simp_all add: onD_def at_address_def)
  show ?thesis unfolding claim_address_def using own host
    by (intro t_try [OF t_publish [OF assms(1,2)]]) (use taken in \<open>auto simp: claimed_def onD_def intro!: t_fail t_ret\<close>)
qed

lemma t_link_index:
  assumes rs: "spares i E" and own: "owned i spec r" and host: "lease_host r = h"
  shows "tripleT (onD (at_address h r)) (bindT (link_index E h i (slot_name (spec_Index spec))) (\<lambda>_. effect E L_sync))
    (\<lambda>_. onD (reserved i spec r)) (\<lambda>_. anyD)"
proof -
  have st: "stable E (\<lambda>d. at_address h r d \<and> map_of (td_index d i) (slot_name (spec_Index spec)) = Some r)"
    using stable_at [OF rs own, of h] rs by (auto simp: stable_def spares_def)
  have link: "tripleT (onD (at_address h r)) (link_index E h i (slot_name (spec_Index spec)))
      (\<lambda>_. onD (\<lambda>d. at_address h r d \<and> map_of (td_index d i) (slot_name (spec_Index spec)) = Some r)) (\<lambda>_. anyD)"
    unfolding link_index_def by (rule t_perform [OF stable_at [OF rs own]]) (auto simp: at_address_def file_simps split: if_splits option.splits)
  show ?thesis
    by (rule t_bind [OF link], rule t_conseq [OF keeps_effect [OF st]])
      (use own host in \<open>auto simp: onD_def reserved_def owned_def same_owner_def\<close>)
qed

lemma attempt_owned:
  assumes "\<And>l. existing = Some l \<Longrightarrow> owned i spec l" and "owned i spec item" and "\<And>x. spec_Existing spec = Some x \<Longrightarrow> nic_Index x = spec_Index spec"
  shows "owned i spec (attempt_item spec existing item h)"
  using assms by (auto simp: attempt_item_def owned_def same_slot_def lease_index_def Let_def split: option.splits)

lemma t_reserve_loop:
  assumes rs: "spares i E" and ex: "\<And>l. existing = Some l \<Longrightarrow> owned i spec l" and own: "owned i spec item"
    and contract: "\<And>x. spec_Existing spec = Some x \<Longrightarrow> nic_Index x = spec_Index spec"
  shows "tripleT anyD (reserve_loop E p i spec existing item start published as) (\<lambda>l. onD (reserved i spec l)) (\<lambda>_. anyD)"
proof (induction as arbitrary: published)
  case (Cons a as)
  let ?item = "attempt_item spec existing item (addr_string (candidate p start (of_nat a)))"
  let ?h = "lease_host ?item"
  have own': "owned i spec ?item" by (rule attempt_owned [OF ex own contract])
  have link: "tripleT (onD (claimed i spec ?h (Some r))) (tryT (link_index E ?h i (slot_name (spec_Index spec))) (\<lambda>e. failT (e, Some ?h))
      (\<lambda>_. tryT (effect E L_sync) (\<lambda>e. failT (e, Some ?h)) (\<lambda>_. retT r))) (\<lambda>l. onD (reserved i spec l)) (\<lambda>_. anyD)" for r
  proof (rule t_fact [where \<phi> = "owned i spec r \<and> lease_host r = ?h"])
    assume "owned i spec r \<and> lease_host r = ?h"
    then have "tripleT (onD (at_address ?h r)) (bindT (link_index E ?h i (slot_name (spec_Index spec))) (\<lambda>_. effect E L_sync))
      (\<lambda>_. onD (reserved i spec r)) (\<lambda>_. anyD)" by (intro t_link_index [OF rs]) auto
    then show ?thesis by (auto simp: tripleT_def bindT_def tryT_def failT_def retT_def claimed_def onD_def split: prod.splits sum.splits)
  qed (auto simp: onD_def claimed_def)
  have step: "tripleT anyD (tryT (claim_address E i spec ?h ?item) (\<lambda>e. failT (e, Some ?h)) (\<lambda>out. case out of
       None \<Rightarrow> reserve_loop E p i spec existing item start (Some ?h) as
     | Some l \<Rightarrow> tryT (link_index E ?h i (slot_name (spec_Index spec))) (\<lambda>e. failT (e, Some ?h)) (\<lambda>_.
         tryT (effect E L_sync) (\<lambda>e. failT (e, Some ?h)) (\<lambda>_. retT l)))) (\<lambda>l. onD (reserved i spec l)) (\<lambda>_. anyD)"
    by (rule t_try [OF t_claim [OF rs own' refl]])
      (auto split: option.splits intro!: t_fail link t_conseq [OF Cons.IH] simp: onD_def)
  show ?case unfolding reserve_loop.simps Let_def
    by (rule t_try [OF keeps_check_ctx]) (auto split: option.splits intro!: t_fail step anyD_True)
qed (simp add: t_fail)

lemma t_find_existing:
  "tripleT anyD (find_existing E i spec cs) (\<lambda>out s. \<forall>l. out = Some l \<longrightarrow> owned i spec l) (\<lambda>_. anyD)"
proof (induction cs)
  case (Cons c cs)
  then show ?case
    by (auto simp: owned_def intro!: t_ret t_bind [OF keeps_readLease [OF stable_True]])
qed (simp add: t_ret)

lemma t_bound_lease:
  assumes "\<And>l. existing = Some l \<Longrightarrow> owned i spec l" and "owned i spec item"
  shows "tripleT anyD (bound_lease E p i spec bind existing item) (\<lambda>l s. owned i spec l) (\<lambda>_. anyD)"
  using assms unfolding bound_lease_def
  by (auto simp: owned_def same_slot_def lease_index_def anyD_True split: option.splits
      intro!: t_ret t_fail t_bind [OF keeps_ask] t_bind [OF keeps_effect [OF stable_True]])

lemma fresh_owned: "owned i spec (fresh_lease E p i spec mac ipv4 queues)"
  by (simp add: owned_def same_slot_def fresh_lease_def lease_index_def)

lemma t_indexed_reservation:
  assumes rs: "spares i E"
  shows "tripleT (onD (\<lambda>d. map_of (td_index d i) (slot_name (spec_Index spec)) = Some prior)) (indexed_reservation E i spec prior)
    (\<lambda>l. onD (reserved i spec l)) (\<lambda>_. anyD)"
proof -
  have st: "stable E (\<lambda>d. map_of (td_index d i) (slot_name (spec_Index spec)) = Some prior)" using rs by (simp add: spares_def)
  have read: "tripleT (onD (\<lambda>d. map_of (td_index d i) (slot_name (spec_Index spec)) = Some prior)) (readLease E h)
      (\<lambda>a. onD (\<lambda>d. map_of (td_index d i) (slot_name (spec_Index spec)) = Some prior \<and> map_of (td_addresses d) h = Some a)) (\<lambda>_. anyD)" for h
    by (rule t_conseq [OF t_readLease [OF st]]) (auto simp: onD_def)
  show ?thesis unfolding indexed_reservation_def
    by (auto simp: anyD_True intro!: t_fail t_bind [OF read])
      (auto simp: onD_def reserved_def owned_def same_owner_def at_address_def same_slot_def intro!: t_ret)
qed

lemma t_reserve_search:
  assumes rs: "spares i E" and contract: "\<And>x. spec_Existing spec = Some x \<Longrightarrow> nic_Index x = spec_Index spec"
    and own: "owned i spec item"
  shows "tripleT anyD (bindT (recoveryLeases E i) (\<lambda>known.
      tryT (find_existing E i spec known) (\<lambda>e. failT (e, None)) (\<lambda>existing.
      tryT (bound_lease E p i spec bind existing item) (\<lambda>e. failT (e, None)) (\<lambda>item.
      tryT (effect E L_dirs) (\<lambda>e. failT (e, None)) (\<lambda>_. reserve_loop E p i spec existing item start None as)))))
    (\<lambda>l. onD (reserved i spec l)) (\<lambda>_. anyD)"
proof -
  have loop: "tripleT anyD (tryT (effect E L_dirs) (\<lambda>e. failT (e, None)) (\<lambda>_. reserve_loop E p i spec existing item' start None as))
      (\<lambda>l. onD (reserved i spec l)) (\<lambda>_. anyD)" if "\<forall>l. existing = Some l \<longrightarrow> owned i spec l" and "owned i spec item'" for existing item'
    by (rule t_try [OF keeps_effect [OF stable_True] _ t_reserve_loop [OF rs _ that(2) contract]])
      (use that in \<open>auto intro: t_fail\<close>)
  have bound: "tripleT anyD (tryT (bound_lease E p i spec bind existing item) (\<lambda>e. failT (e, None)) (\<lambda>item.
      tryT (effect E L_dirs) (\<lambda>e. failT (e, None)) (\<lambda>_. reserve_loop E p i spec existing item start None as)))
      (\<lambda>l. onD (reserved i spec l)) (\<lambda>_. anyD)" if "\<forall>l. existing = Some l \<longrightarrow> owned i spec l" for existing
  proof (rule t_try [OF t_bound_lease [OF _ own]])
    show "tripleT (\<lambda>s. owned i spec item') (tryT (effect E L_dirs) (\<lambda>e. failT (e, None)) (\<lambda>_. reserve_loop E p i spec existing item' start None as))
      (\<lambda>l. onD (reserved i spec l)) (\<lambda>_. anyD)" for item'
      by (rule t_fact, assumption) (rule t_conseq [OF loop [OF that]], simp_all add: anyD_True)
  qed (use that in \<open>auto intro: t_fail anyD_True\<close>)
  have "tripleT (\<lambda>s. \<forall>l. existing = Some l \<longrightarrow> owned i spec l) (tryT (bound_lease E p i spec bind existing item) (\<lambda>e. failT (e, None)) (\<lambda>item.
      tryT (effect E L_dirs) (\<lambda>e. failT (e, None)) (\<lambda>_. reserve_loop E p i spec existing item start None as)))
      (\<lambda>l. onD (reserved i spec l)) (\<lambda>_. anyD)" for existing
    by (rule t_fact, assumption) (rule t_conseq [OF bound], simp_all add: anyD_True)
  then show ?thesis
    by (intro t_bind [OF keeps_cache(3)] t_try [OF t_find_existing]) (auto intro: t_fail anyD_True)
qed

lemma t_reserve_body:
  assumes "spares i E"
  shows "tripleT anyD (reserve_body E p i spec bind) (\<lambda>l. onD (reserved i spec l)) (\<lambda>_. anyD)"
proof (cases "guestIdentity (spec_Index spec)")
  case (Inr pr)
  obtain mac ipv4 where pr: "pr = (mac, ipv4)" by (cases pr)
  show ?thesis
  proof (cases "contract_broken spec mac ipv4")
    case False
    then have contract: "nic_Index x = spec_Index spec" if "spec_Existing spec = Some x" for x using that by (simp add: contract_broken_def)
    have indexed: "tripleT (onD (\<lambda>d. True \<and> map_of (td_index d i) (slot_name (spec_Index spec)) = Some prior \<and> lease_check prior = None))
        (indexed_reservation E i spec prior) (\<lambda>l. onD (reserved i spec l)) (\<lambda>_. anyD)" for prior
      by (rule t_conseq [OF t_indexed_reservation [OF assms]]) (auto simp: onD_def)
    have found: "tripleT (onD (\<lambda>d. True \<and> map_of (td_index d i) (slot_name (spec_Index spec)) = Some prior \<and> lease_check prior = None))
        (tryT (indexed_reservation E i spec prior) (\<lambda>e. failT (e, None)) retT) (\<lambda>l. onD (reserved i spec l)) (\<lambda>_. anyD)" for prior
      by (rule t_try [OF indexed]) (auto simp: anyD_True intro!: t_ret t_fail)
    show ?thesis using False unfolding reserve_body_def Let_def
      by (auto simp: Inr pr anyD_True intro!: t_fail t_try [OF t_readIndex [OF stable_True]] found [simplified]
          t_reserve_search [OF assms contract fresh_owned])
  qed (simp add: reserve_body_def Inr pr t_fail Let_def)
qed (simp add: reserve_body_def t_fail Let_def)

lemma t_reserveWith:
  assumes "spares i E"
  shows "tripleT anyD (reserveWith E p i spec bind) (\<lambda>l. onD (reserved i spec l)) (\<lambda>_. anyD)"
  unfolding reserveWith_def
  by (rule t_bind [OF keeps_lift])
    (auto simp: anyD_True split: option.splits intro!: t_fail t_ret t_bind [OF keeps_RecoverLeases [OF stable_True]] t_bind [OF keeps_cache(1)]
      t_try [OF t_reserve_body [OF assms]] t_try [OF keeps_readLease [OF stable_True]])

section \<open>Ownership theorems\<close>

text \<open>The requests the provider serves, each with the host it runs on.\<close>

datatype tapRequest = Q_reserve SandboxID AddSpec bool | Q_retire lease | Q_leases SandboxID

fun requester :: "tapRequest \<Rightarrow> SandboxID" where
  "requester (Q_reserve i _ _) = i"
| "requester (Q_retire item) = l_Sandbox item"
| "requester (Q_leases i) = i"

fun run_request :: "tapProvider \<Rightarrow> tapHost \<times> tapRequest \<Rightarrow> tapst \<Rightarrow> tapst" where
  "run_request p (E, Q_reserve i spec bind) s = snd (reserveWith E p i spec bind s)"
| "run_request p (E, Q_retire item) s = snd (retireLease E p item s)"
| "run_request p (E, Q_leases i) s = snd (tap_leases E i s)"

definition run_requests :: "tapProvider \<Rightarrow> (tapHost \<times> tapRequest) list \<Rightarrow> tapst \<Rightarrow> tapst" where
  "run_requests p rs s = foldl (\<lambda>s r. run_request p r s) s rs"

lemma stable_held:
  assumes "spares i E" and "owned i spec a"
  shows "stable E (held h a i slot (Some l))"
  using assms by (auto simp: stable_def held_def spares_def owned_def same_slot_def)

lemma request_keeps_held:
  assumes "spares i E" and "owned i spec a" and "requester r \<noteq> i" and "held h a i slot (Some l) (ts_disk s)"
  shows "held h a i slot (Some l) (ts_disk (run_request p (E, r) s))"
proof (cases r)
  case (Q_reserve j spec' bind)
  have "unavailable E a" using assms(2) by (simp add: unavailable_def owned_def)
  then show ?thesis using Q_reserve keepsT_run [OF held_reserveWith [OF stable_held [OF assms(1,2)]] assms(4)] by simp
next
  case (Q_retire item)
  with assms have "\<not> same_owner a item" and "l_Sandbox item \<noteq> i \<or> slot_name (lease_index item) \<noteq> slot"
    by (auto simp: same_owner_def owned_def same_slot_def)
  then show ?thesis using Q_retire keepsT_run [OF held_retireLease [OF stable_held [OF assms(1,2)]] assms(4)] by simp
next
  case (Q_leases j)
  then show ?thesis using keepsT_run [OF keeps_tap_leases [OF stable_held [OF assms(1,2)]] assms(4)] by simp
qed

lemma reserved_held:
  "reserved i spec l d \<longleftrightarrow> same_slot i spec l \<and> (\<exists>a. owned i spec a \<and> same_owner a l \<and> held (lease_host l) a i (slot_name (spec_Index spec)) (Some l) d)"
  by (auto simp: reserved_def held_def at_address_def)

lemma request_keeps_reserved:
  assumes "spares i E" and "requester r \<noteq> i" and "reserved i spec l (ts_disk s)"
  shows "reserved i spec l (ts_disk (run_request p (E, r) s))"
  using assms request_keeps_held [OF assms(1) _ assms(2)] unfolding reserved_held by blast

lemma run_requests_simps [simp]:
  "run_requests p [] s = s" "run_requests p (r # rs) s = run_requests p rs (run_request p r s)"
  by (simp_all add: run_requests_def)

lemma requests_keep_reserved:
  assumes "reserved i spec l (ts_disk s)" and "list_all (\<lambda>(E, r). spares i E \<and> requester r \<noteq> i) rs"
  shows "reserved i spec l (ts_disk (run_requests p rs s))"
  using assms
proof (induction rs arbitrary: s)
  case (Cons q rs)
  obtain E r where q: "q = (E, r)" by (cases q)
  with Cons.prems have "reserved i spec l (ts_disk (run_request p q s))"
    using request_keeps_reserved [of i E r spec l s p] by simp
  then show ?case using Cons.IH Cons.prems(2) by simp
qed simp

lemma reserve_result: "spares i E \<Longrightarrow> reserveWith E p i spec bind s = (Inr l, s') \<Longrightarrow> reserved i spec l (ts_disk s')"
  using t_reserveWith [of i E p spec bind] unfolding tripleT_def onD_def by (metis (no_types, lifting) case_prod_conv sum.simps(6))

text \<open>C7. A reservation of a sandbox outlives every sequence of allocations, retirements and queries of other sandboxes,
  whichever of their file system calls fail and wherever they stop, while the remaining processes leave the active
  addresses and the index of the sandbox alone. So no other sandbox ever takes or retires its address.\<close>

theorem reservation_survives_others:
  assumes "spares i E" and "reserveWith E p i spec bind s = (Inr l, s')"
    and "list_all (\<lambda>(E, r). spares i E \<and> requester r \<noteq> i) rs"
  shows "reserved i spec l (ts_disk (run_requests p rs s'))"
  by (rule requests_keep_reserved [OF reserve_result [OF assms(1,2)] assms(3)])

text \<open>C8. Two sandboxes never own one address: a reservation of the second, at any later point of a history in which the
  first requests nothing and the other processes leave active addresses and the two indexes alone, has another host
  address, and both reservations stand.\<close>

theorem reservations_disjoint:
  assumes "i \<noteq> j" and "reserved i spec l (ts_disk s)" and "list_all (\<lambda>(E, r). spares i E \<and> requester r \<noteq> i) rs"
    and "spares i E" and "spares j E" and "reserveWith E p j spec' bind (run_requests p rs s) = (Inr l', s')"
  shows "lease_host l' \<noteq> lease_host l \<and> reserved i spec l (ts_disk s') \<and> reserved j spec' l' (ts_disk s')"
proof -
  have "reserved i spec l (ts_disk (run_requests p rs s))" by (rule requests_keep_reserved [OF assms(2,3)])
  from request_keeps_reserved [OF assms(4) _ this, of "Q_reserve j spec' bind" p]
  have first: "reserved i spec l (ts_disk s')" using assms(1,6) by simp
  have second: "reserved j spec' l' (ts_disk s')" by (rule reserve_result [OF assms(5,6)])
  show ?thesis using first second assms(1) by (auto simp: reserved_def at_address_def owned_def same_slot_def)
qed

text \<open>C9. An address that is active, or in quarantine for longer than the run takes, keeps its lease through every
  allocation, also one that fails or stops halfway, while the other processes leave it alone.\<close>

theorem quarantine_respected:
  assumes "map_of (td_addresses (ts_disk s)) h = Some l" and "unavailable E l"
    and "stable E (\<lambda>d. map_of (td_addresses d) h = Some l)"
  shows "map_of (td_addresses (ts_disk (snd (reserveWith E p i spec bind s)))) h = Some l"
proof -
  have K: "held h l [] [] None = (\<lambda>d. map_of (td_addresses d) h = Some l)" by (simp add: held_def fun_eq_iff)
  have "keepsT (onD (held h l [] [] None)) (reserveWith E p i spec bind)"
    by (rule held_reserveWith [OF _ assms(2)]) (simp add: K assms(3))
  from keepsT_run [OF this, of s] show ?thesis using assms(1) by (simp add: K)
qed

end
