(* ===== verification/Tap_Allocation.thy ===== *)
theory Tap_Allocation
  imports Tap_Ownership
begin

text \<open>
  The addresses an allocation of the TAP provider tries, and that it finds one: the candidates of a valid pool are
  exactly its host addresses, and on a host where nothing fails a new reservation succeeds whenever one of them is
  free or out of quarantine.
\<close>

section \<open>Address text\<close>

definition octets :: "32 word \<Rightarrow> nat list" where
  "octets a = map (\<lambda>k. unat (drop_bit k a) mod 256) [24, 16, 8, 0]"

lemma dec_nat_leading: "0 < n \<Longrightarrow> hd (dec_nat n) \<noteq> CHR ''0''"
proof (induction n rule: dec_nat.induct)
  case (1 n)
  show ?case
  proof (cases "n < 10")
    case True
    then have "char_of (48 + n) = CHR ''0'' \<Longrightarrow> n = 0" using cnum_char_of [of "48 + n"] by (simp add: char_of_def)
    with True 1 show ?thesis by (subst dec_nat.simps) auto
  next
    case False
    then show ?thesis using 1 by (subst dec_nat.simps) auto
  qed
qed

lemma ipv4_field_dec: "n < 256 \<Longrightarrow> ipv4_field (dec_nat n) = Some n"
proof -
  assume "n < 256"
  moreover have "hd (dec_nat n) = CHR ''0'' \<Longrightarrow> length (dec_nat n) = 1"
    using dec_nat_leading [of n] dec_nat.simps [of 0] by (cases "n = 0") auto
  ultimately show ?thesis by (auto simp: ipv4_field_def dec_nat_digits digits_value_dec_nat)
qed

lemma no_dot_dec: "c \<in> set (dec_nat n) \<Longrightarrow> is_digit c"
  using dec_nat_digits [of n] by (simp add: list_all_iff)

lemma parse_addr_string: "parse_ipv4 (addr_string a) = Some (octets a)"
proof -
  let ?fs = "map (\<lambda>k. dec_nat (unat (drop_bit k a) mod 256)) [24, 16, 8, 0]"
  have "Split (strings_Join ?fs [CHR ''.'']) (CHR ''.'') = ?fs"
    by (rule Split_Join) (auto dest: no_dot_dec simp: is_digit_def)
  then show ?thesis by (simp add: parse_ipv4_def addr_string_def octets_def ipv4_field_dec)
qed

lemma addr4_octets: "addr4 (octets a) = a"
proof -
  let ?n = "unat a"
  have "unat (drop_bit k a) = ?n div 2 ^ k" for k by (simp only: unat_drop_bit_eq) (simp add: drop_bit_eq_div)
  then have digits: "addr4 (octets a) = of_nat ((((?n div 2 ^ 24 mod 256) * 256 + ?n div 2 ^ 16 mod 256) * 256 + ?n div 2 ^ 8 mod 256) * 256 + ?n mod 256)"
    by (simp add: addr4_def octets_def)
  have "?n < 4294967296" using unsigned_less [of a] by simp
  then have "?n div 256 div 256 div 256 < 256" by (simp flip: div_mult2_eq) 
  then have "(((?n div 256 div 256 div 256 mod 256) * 256 + ?n div 256 div 256 mod 256) * 256 + ?n div 256 mod 256) * 256 + ?n mod 256 = ?n"
    by simp
  moreover have "?n div 2 ^ 24 = ?n div 256 div 256 div 256" "?n div 2 ^ 16 = ?n div 256 div 256" "?n div 2 ^ 8 = ?n div 256"
    by (simp_all add: div_mult2_eq [symmetric])
  ultimately have whole: "(((?n div 2 ^ 24 mod 256) * 256 + ?n div 2 ^ 16 mod 256) * 256 + ?n div 2 ^ 8 mod 256) * 256 + ?n mod 256 = ?n"
    by (simp only:)
  show ?thesis using digits by (simp only: whole) simp
qed

lemma addr_string_inject: "addr_string a = addr_string b \<Longrightarrow> a = b"
  by (metis parse_addr_string addr4_octets option.inject)

lemma addr_string_ipv4: "\<not> not_ipv4 (addr_string a)"
proof -
  have "dropWhile (\<lambda>c. c \<noteq> CHR ''.'' \<and> c \<noteq> CHR '':'' \<and> c \<noteq> CHR ''%'') (dec_nat n @ CHR ''.'' # ys) = CHR ''.'' # ys" for n ys
    by (subst dropWhile_append2) (auto dest!: no_dot_dec simp: is_digit_def)
  moreover obtain ys where "addr_string a = dec_nat (unat (drop_bit 24 a) mod 256) @ CHR ''.'' # ys" by (simp add: addr_string_def)
  ultimately have "ParseIP (addr_string a) = Some (v4_mapped @ octets a)"
    using parse_addr_string [of a] by (simp add: ParseIP_def)
  then show ?thesis by (simp add: not_ipv4_def To4_def v4_mapped_def)
qed

section \<open>The candidates of a pool\<close>

definition wf_pool :: "netPrefix \<Rightarrow> bool" where
  "wf_pool q \<longleftrightarrow> 16 \<le> px_Bits q \<and> px_Bits q \<le> 28 \<and> and (px_Addr q) (prefix_mask (px_Bits q)) = px_Addr q"

lemma New_pool: "tap_New sha options = Inr p \<Longrightarrow> wf_pool (tp_pool p)"
  by (auto simp: tap_New_def wf_pool_def Let_def split: if_splits option.splits)

text \<open>The host addresses of a pool: all but the first and the last.\<close>

definition host_addresses :: "netPrefix \<Rightarrow> 32 word set" where
  "host_addresses q = {px_Addr q + of_nat k | k. 0 < k \<and> k < 2 ^ (32 - px_Bits q) - 1}"

lemma pool_arith:
  assumes "wf_pool (tp_pool p)"
  obtains n where "n = 32 - px_Bits (tp_pool p)" and "4 \<le> n" and "n \<le> 16" and "unat (pool_count p) = 2 ^ n" and "unat (pool_count p - 2) = 2 ^ n - 2"
proof
  let ?n = "32 - px_Bits (tp_pool p)"
  show n: "4 \<le> ?n" "?n \<le> 16" using assms by (auto simp: wf_pool_def)
  have "(2 :: nat) ^ ?n < 2 ^ 32" using n by (intro power_strict_increasing) auto
  moreover have "of_nat (2 ^ ?n) = pool_count p" by (simp add: pool_count_def push_bit_eq_mult)
  ultimately show c: "unat (pool_count p) = 2 ^ ?n" by (intro of_nat_inverse) simp_all
  have "(2 :: nat) ^ 4 \<le> 2 ^ ?n" using n by (intro power_increasing) auto
  then have "(2 :: 32 word) \<le> pool_count p" using c by (simp add: word_le_nat_alt)
  then show "unat (pool_count p - 2) = 2 ^ ?n - 2" using c by (simp add: unat_sub)
qed simp

lemma candidate_offset:
  assumes "wf_pool (tp_pool p)" and "unat start < unat (pool_count p - 2)" and "a < unat (pool_count p - 2)"
  shows "candidate p start (of_nat a) = px_Addr (tp_pool p) + of_nat (1 + (unat start + a) mod unat (pool_count p - 2))"
proof -
  obtain n where n: "n \<le> 16" "unat (pool_count p - 2) = 2 ^ n - 2" using assms(1) by (rule pool_arith)
  have "(2 :: nat) ^ n \<le> 2 ^ 16" using n(1) by (intro power_increasing) auto
  then have bound: "unat start + a < 2 ^ 32" using assms(2,3) n by simp
  have "(start + of_nat a) mod (pool_count p - 2) = of_nat (unat (start + of_nat a) mod unat (pool_count p - 2))"
    by (simp flip: unat_mod)
  moreover have "unat (start + of_nat a) = unat start + a"
    using bound assms(3) by (simp add: unat_word_ariths unat_of_nat)
  ultimately show ?thesis by (simp add: candidate_def add.assoc)
qed

lemma bit_of_small: "k < 2 ^ n \<Longrightarrow> bit (of_nat k :: 32 word) m \<Longrightarrow> m < n"
  by (metis bit_nat_iff bit_of_nat_iff div_less even_zero not_less order.strict_trans2 power_increasing_iff bit_nat_def one_less_numeral_iff semiring_norm(76))

lemma pool_contains_offset:
  assumes "and (px_Addr q) (prefix_mask (px_Bits q)) = px_Addr q" and "k < 2 ^ (32 - px_Bits q)"
  shows "pool_contains q (addr_string (px_Addr q + of_nat k))"
proof -
  let ?n = "32 - px_Bits q"
  have high: "bit (px_Addr q) m \<Longrightarrow> ?n \<le> m" for m
    using arg_cong [OF assms(1), of "\<lambda>w. bit w m"] by (auto simp: bit_and_iff prefix_mask_def bit_not_iff bit_mask_iff)
  have low: "bit (of_nat k :: 32 word) m \<Longrightarrow> m < ?n" for m by (rule bit_of_small [OF assms(2)])
  have "and (px_Addr q) (of_nat k) = 0"
    by (rule bit_word_eqI) (use high low in \<open>force simp: bit_and_iff\<close>)
  then have "px_Addr q + of_nat k = or (px_Addr q) (of_nat k)" by (rule disjunctive_add_eq_or)
  moreover have "and (or (px_Addr q) (of_nat k)) (prefix_mask (px_Bits q)) = px_Addr q"
    by (rule bit_word_eqI) (use high low in \<open>force simp: bit_and_iff bit_or_iff prefix_mask_def bit_not_iff bit_mask_iff\<close>)
  ultimately show ?thesis by (simp add: pool_contains_def parse_addr_string addr4_octets)
qed

lemma rotate_inject:
  fixes a b c s :: nat
  assumes "(s + a) mod c = (s + b) mod c" and "a < b" and "b < c"
  shows False
proof -
  have "c dvd s + b - (s + a)" using assms(1,2) by (subst mod_eq_dvd_iff_nat [symmetric]) auto
  then have "c dvd b - a" by simp
  with assms(2,3) show False using dvd_imp_le [of c "b - a"] by auto
qed

lemma candidates_hosts:
  assumes wf: "wf_pool (tp_pool p)" and start: "unat start < unat (pool_count p - 2)"
  shows "(\<lambda>a. candidate p start (of_nat a)) ` {0..<unat (pool_count p - 2)} = host_addresses (tp_pool p)"
proof -
  obtain n where n: "n = 32 - px_Bits (tp_pool p)" "4 \<le> n" "unat (pool_count p - 2) = 2 ^ n - 2" using wf by (rule pool_arith)
  have big: "(16 :: nat) \<le> 2 ^ n" using n(2) power_increasing [of 4 n "2 :: nat"] by simp
  let ?c = "2 ^ n - 2 :: nat"
  have rot: "(\<lambda>a. (unat start + a) mod ?c) ` {0..<?c} = {0..<?c}"
  proof (rule card_subset_eq)
    have "inj_on (\<lambda>a. (unat start + a) mod ?c) {0..<?c}"
      by (rule linorder_inj_onI) (auto simp: mod_eq_dvd_iff_nat [symmetric] dest: rotate_inject)
    then show "card ((\<lambda>a. (unat start + a) mod ?c) ` {0..<?c}) = card {0..<?c}" by (rule card_image)
  qed (use big in auto)
  have "(\<lambda>a. candidate p start (of_nat a)) ` {0..<?c} = (\<lambda>a. px_Addr (tp_pool p) + of_nat (1 + a)) ` ((\<lambda>a. (unat start + a) mod ?c) ` {0..<?c})"
    unfolding image_image by (rule image_cong [OF refl]) (use candidate_offset [OF wf start] n(3) in auto)
  also have "\<dots> = (\<lambda>k. px_Addr (tp_pool p) + of_nat k) ` (Suc ` {0..<?c})" by (simp only: rot image_image) simp
  also have "Suc ` {0..<?c} = {k. 0 < k \<and> k < 2 ^ n - 1}" using big by (auto simp: image_Suc_atLeastLessThan)
  finally show ?thesis using n by (auto simp: host_addresses_def)
qed

section \<open>Valid interfaces\<close>

lemma octets_addr4:
  assumes "a < 256" "b < 256" "c < 256" "d < 256"
  shows "octets (addr4 [a, b, c, d]) = [a, b, c, d]"
proof -
  let ?n = "a * 16777216 + b * 65536 + c * 256 + d"
  have "of_nat ?n = addr4 [a, b, c, d]" by (simp add: addr4_def algebra_simps)
  then have n: "unat (addr4 [a, b, c, d]) = ?n" by (rule of_nat_inverse) (use assms in simp)
  have "unat (drop_bit k (addr4 [a, b, c, d])) = ?n div 2 ^ k" for k
    by (simp only: unat_drop_bit_eq n) (simp add: drop_bit_eq_div)
  moreover have "?n div 2 ^ 24 = a" "?n div 2 ^ 16 = a * 256 + b" "?n div 2 ^ 8 = (a * 256 + b) * 256 + c"
    by (rule div_nat_eqI; use assms in simp)+
  moreover have "((a * 256 + b) * 256 + c) mod 256 = c" "?n mod 256 = d"
    using assms mod_mult_self3 [of "a * 256 + b" 256 c] mod_mult_self3 [of "(a * 256 + b) * 256 + c" 256 d] by (simp_all add: algebra_simps)
  ultimately show ?thesis using assms n by (simp add: octets_def)
qed

lemma addr_string_octets: "addr_string a = strings_Join (map dec_nat (octets a)) ''.''"
  by (simp add: addr_string_def octets_def)

lemma guest_address:
  assumes "0 \<le> n" and "n < 256"
  shows "''169.254.240.'' @ Itoa n = addr_string (addr4 [169, 254, 240, nat n])"
proof -
  have "dec_nat 169 = ''169''" "dec_nat 254 = ''254''" "dec_nat 240 = ''240''"
    by (simp_all add: dec_nat.simps [of 169] dec_nat.simps [of 254] dec_nat.simps [of 240] dec_nat.simps [of 16] dec_nat.simps [of 25]
        dec_nat.simps [of 24] dec_nat.simps [of "Suc 0"] dec_nat.simps [of 2] digit_chars)
  then show ?thesis using assms by (simp add: addr_string_octets octets_addr4 Itoa_def)
qed

lemma hex_char_hex: "n < 16 \<Longrightarrow> is_hex (hex_char n)"
  by (simp add: is_hex_def from_hex_hex_char)

lemma hex_not_colon: "is_hex c \<Longrightarrow> c \<noteq> CHR '':''"
  by (auto simp: is_hex_def from_hex_char_def is_digit_def split: if_splits)

lemma guest_mac: "ParseMAC_ok (''02:4b:42:00:'' @ hex_byte b @ '':02'')"
proof -
  let ?gs = "[''02'', ''4b'', ''42'', ''00'', hex_byte b, ''02'']"
  have "unat b < 256" using unsigned_less [of b] by simp
  then have "unat b div 16 < 16" "unat b mod 16 < 16" by (auto simp: less_mult_imp_div_less)
  then have hex: "list_all is_hex (hex_byte b)" by (simp add: hex_byte_def hex_char_hex)
  then have "CHR '':'' \<notin> set (hex_byte b)" by (auto simp: list_all_iff dest!: hex_not_colon)
  then have "Split (strings_Join ?gs [CHR '':'']) (CHR '':'') = ?gs" by (intro Split_Join) auto
  moreover define s where "s = ''02:4b:42:00:'' @ hex_byte b @ '':02''"
  moreover have "strings_Join ?gs [CHR '':''] = s" by (simp add: s_def)
  ultimately have parts: "Split s (CHR '':'') = ?gs" by metis
  have len: "length (hex_byte b) = 2" by (simp add: hex_byte_def)
  have "list_all (list_all is_hex) [''02'', ''4b'', ''42'', ''00'']" by code_simp
  moreover have "s ! 2 = CHR '':''" and "\<not> length s < 14" by (simp_all add: s_def len)
  ultimately have "ParseMAC_ok s" using hex len by (simp add: ParseMAC_ok_def mac_groups_def parts)
  then show ?thesis by (simp only: s_def)
qed

lemma guestIdentity_ok:
  assumes "0 \<le> index" and "index < MaxSandboxNICs"
  obtains mac ipv4 where "guestIdentity index = Inr (mac, ipv4)" and "ParseMAC_ok mac" and "IPv4Config_Validate ipv4 = None"
    and "\<And>a. ip4_Address ipv4 = addr_string a \<Longrightarrow> hd (octets a) = 169"
proof -
  let ?ip = "\<lparr>ip4_Address = ''169.254.240.'' @ Itoa (index * 4 + 2),
     ip4_Gateway = (if index = 0 then ''169.254.240.'' @ Itoa (index * 4 + 1) else []), ip4_Prefix = 30\<rparr>"
  have dotted: "''169.254.240.'' @ Itoa (index * 4 + k) = addr_string (addr4 [169, 254, 240, nat (index * 4 + k)])" if "0 \<le> k" "k < 4" for k
    using assms that by (intro guest_address) (auto simp: MaxSandboxNICs_def)
  have "guestIdentity index = Inr (''02:4b:42:00:'' @ hex_byte (word_of_int index) @ '':02'', ?ip)"
    using assms by (simp add: guestIdentity_def)
  moreover have "IPv4Config_Validate ?ip = None"
    using dotted [of 2] dotted [of 1] addr_string_ipv4 by (auto simp: IPv4Config_Validate_def)
  moreover have "hd (octets a) = 169" if "ip4_Address ?ip = addr_string a" for a
  proof -
    have "a = addr4 [169, 254, 240, nat (index * 4 + 2)]" using that dotted [of 2] by (intro addr_string_inject) simp
    then show ?thesis using assms by (simp add: octets_addr4 MaxSandboxNICs_def)
  qed
  ultimately show ?thesis using that guest_mac by blast
qed

lemma drop_bit_masked: "8 \<le> n \<Longrightarrow> drop_bit 24 (and b (prefix_mask n)) = drop_bit 24 b"
  by (rule bit_word_eqI) (auto simp: bit_drop_bit_eq bit_and_iff prefix_mask_def bit_not_iff bit_mask_iff dest: bit_imp_le_length)

lemma private_first_octet:
  assumes "IsPrivate4 b"
  shows "unat (drop_bit 24 b) \<in> {10, 172, 192}"
proof -
  have "drop_bit 24 (and b (prefix_mask 8)) = drop_bit 24 b" "drop_bit 24 (and b (prefix_mask 12)) = drop_bit 24 b"
    "drop_bit 24 (and b (prefix_mask 16)) = drop_bit 24 b" by (simp_all only: drop_bit_masked)
  with assms have "drop_bit 24 b = drop_bit 24 (addr4 [10, 0, 0, 0]) \<or> drop_bit 24 b = drop_bit 24 (addr4 [172, 16, 0, 0])
      \<or> drop_bit 24 b = drop_bit 24 (addr4 [192, 168, 0, 0])"
    unfolding IsPrivate4_def by metis
  moreover have "unat (drop_bit 24 (addr4 [10, 0, 0, 0])) = 10" "unat (drop_bit 24 (addr4 [172, 16, 0, 0])) = 172"
    "unat (drop_bit 24 (addr4 [192, 168, 0, 0])) = 192" by (simp_all add: addr4_def unat_drop_bit_eq drop_bit_eq_div)
  ultimately show ?thesis by auto
qed

lemma host_validates:
  assumes new: "tap_New sha options = Inr p" and a: "a \<in> host_addresses (tp_pool p)"
  shows "pool_contains (tp_pool p) (addr_string a)" and "hd (octets a) \<noteq> 169"
proof -
  let ?q = "tp_pool p"
  have wf: "wf_pool ?q" and priv: "IsPrivate4 (px_Addr ?q)"
    using new by (auto simp: tap_New_def wf_pool_def Let_def split: if_splits option.splits)
  obtain k where k: "a = px_Addr ?q + of_nat k" and lt: "k < 2 ^ (32 - px_Bits ?q)" using a by (auto simp: host_addresses_def)
  then show inside: "pool_contains ?q (addr_string a)" using wf by (simp add: pool_contains_offset wf_pool_def)
  then have "and a (prefix_mask (px_Bits ?q)) = px_Addr ?q" by (simp add: pool_contains_def parse_addr_string addr4_octets)
  then have "drop_bit 24 a = drop_bit 24 (px_Addr ?q)" using drop_bit_masked [of "px_Bits ?q" a] wf by (simp add: wf_pool_def)
  then show "hd (octets a) \<noteq> 169" using private_first_octet [OF priv] by (auto simp: octets_def)
qed

section \<open>Runs without failures\<close>

definition quiet :: "tapHost \<Rightarrow> bool" where
  "quiet E \<longleftrightarrow> (\<forall>tr op. th_fault E tr op = None) \<and> (\<forall>tr d. th_env E tr d = d) \<and> (\<forall>tr m. th_hints E tr m = m)
     \<and> (\<forall>tr. \<not> th_recovered E tr) \<and> (\<forall>tr. th_ctx E tr = None)"

text \<open>A program that returns, from every state of a precondition.\<close>

abbreviation totalT :: "(tapst \<Rightarrow> bool) \<Rightarrow> ('e, 'a) tapM \<Rightarrow> ('a \<Rightarrow> tapst \<Rightarrow> bool) \<Rightarrow> bool" where
  "totalT P m Q \<equiv> tripleT P m Q (\<lambda>_ _. False)"

lemma q_perform:
  assumes "quiet E" and "\<And>d e d'. K d \<Longrightarrow> f d = (Inl e, d') \<Longrightarrow> X e d'" and "\<And>d x d'. K d \<Longrightarrow> f d = (Inr x, d') \<Longrightarrow> Q x d'"
  shows "tripleT (onD K) (perform E op f) (\<lambda>x. onD (Q x)) (\<lambda>e. onD (X e))"
  using assms by (auto simp: tripleT_def perform_def onD_def others_act_def quiet_def Let_def split: prod.splits sum.splits)

abbreviation disk :: "tapDisk \<Rightarrow> tapst \<Rightarrow> bool" where
  "disk d \<equiv> onD (\<lambda>x. x = d)"

lemma onD_False: "onD (\<lambda>_. False) = (\<lambda>_. False)"
  by (simp add: onD_def fun_eq_iff)

lemma q_effect: "quiet E \<Longrightarrow> totalT (disk d) (effect E op) (\<lambda>_. disk d)"
  using q_perform [where K = "\<lambda>x. x = d" and X = "\<lambda>_ _. False" and Q = "\<lambda>_ x. x = d" and f = "\<lambda>d. (Inr (), d)" and E = E and op = op]
  by (simp add: effect_def onD_False)

lemma tripleD:
  assumes "tripleT P m Q X" and "P s"
  shows "(\<exists>x s'. m s = (Inr x, s') \<and> Q x s') \<or> (\<exists>e s'. m s = (Inl e, s') \<and> X e s')"
proof -
  obtain r s' where "m s = (r, s')" by (cases "m s")
  with assms show ?thesis by (cases r) (auto simp: tripleT_def)
qed

lemma joinT_run:
  "joinT body cleanup s = (case body s of
     (Inr _, s1) \<Rightarrow> (case cleanup s1 of (Inr _, s2) \<Rightarrow> (Inr (), s2) | (Inl c, s2) \<Rightarrow> (Inl (Join [c]), s2))
   | (Inl e, s1) \<Rightarrow> (case cleanup s1 of (Inr _, s2) \<Rightarrow> (Inl (Join [e]), s2) | (Inl c, s2) \<Rightarrow> (Inl (Join [e, c]), s2)))"
  by (simp add: joinT_def bindT_def attemptT_def tryT_def retT_def failT_def errors_Join_def split: prod.split sum.split)

lemma join_outcome:
  assumes "tripleT P body (\<lambda>_. R) (\<lambda>e s. Y s \<and> e = e0)" and "totalT R cleanup (\<lambda>_. R)" and "totalT Y cleanup (\<lambda>_. Y)"
  shows "tripleT P (joinT body cleanup) (\<lambda>_. R) (\<lambda>e s. Y s \<and> e = Join [e0])"
  unfolding tripleT_def
proof (intro allI impI)
  fix s assume "P s"
  with tripleD [OF assms(1), of s] consider s1 where "body s = (Inr (), s1)" and "R s1" | s1 where "body s = (Inl e0, s1)" and "Y s1" by auto
  then show "case joinT body cleanup s of (Inl e, s') \<Rightarrow> Y s' \<and> e = Join [e0] | (Inr x, s') \<Rightarrow> R s'"
  proof cases
    case 1
    then show ?thesis using tripleD [OF assms(2)] by (fastforce simp: joinT_run)
  next
    case 2
    then show ?thesis using tripleD [OF assms(3)] by (fastforce simp: joinT_run)
  qed
qed

lemma t_False: "tripleT (\<lambda>_. False) m Q X"
  by (simp add: tripleT_def)

lemma join_total: "totalT P body (\<lambda>_. R) \<Longrightarrow> totalT R cleanup (\<lambda>_. R) \<Longrightarrow> totalT P (joinT body cleanup) (\<lambda>_. R)"
  using join_outcome [of P body R "\<lambda>_. False" undefined cleanup] by (simp add: t_False)

text \<open>Every address file decodes, passes its checks and is named by its address.\<close>

definition valid_addresses :: "tapDisk \<Rightarrow> bool" where
  "valid_addresses d \<longleftrightarrow> list_all (\<lambda>(h, l). lease_check l = None \<and> lease_host l = h) (td_addresses d)"

lemma valid_addressesD: "valid_addresses d \<Longrightarrow> map_of (td_addresses d) h = Some l \<Longrightarrow> lease_check l = None \<and> lease_host l = h"
  by (auto simp: valid_addresses_def list_all_iff dest!: map_of_SomeD)

lemma q_read:
  assumes "quiet E" and "valid_addresses d" and "map_of (td_addresses d) h = Some l"
  shows "totalT (disk d) (readLease E h) (\<lambda>r s. disk d s \<and> r = l)"
proof -
  have "tripleT (disk d) (read_address E h) (\<lambda>r. onD (\<lambda>x. x = d \<and> r = l)) (\<lambda>e. onD (\<lambda>_. False))"
    unfolding read_address_def by (rule q_perform [OF assms(1)]) (auto simp: assms(3))
  then show ?thesis unfolding readLease_def using valid_addressesD [OF assms(2,3)]
    by (intro t_bind [where R = "\<lambda>r. onD (\<lambda>x. x = d \<and> r = l)"]) (simp_all add: onD_False, auto simp: onD_def tripleT_def retT_def failT_def split: option.splits)
qed

definition with_address :: "string \<Rightarrow> lease \<Rightarrow> tapDisk \<Rightarrow> tapDisk" where
  "with_address h item d = d\<lparr>td_addresses := AList.update h item (td_addresses d)\<rparr>"

lemma q_publish_free:
  assumes "quiet E" and "map_of (td_addresses d) h = None"
  shows "totalT (disk d) (publishLease E h item) (\<lambda>_. disk (with_address h item d))"
proof -
  have link: "tripleT (disk d) (link_address E h item) (\<lambda>_. disk (with_address h item d)) (\<lambda>_. onD (\<lambda>_. False))"
    unfolding link_address_def by (rule q_perform [OF assms(1)]) (auto simp: assms(2) with_address_def)
  have body: "totalT (disk d) (bindT (effect E L_write) (\<lambda>_. bindT (link_address E h item) (\<lambda>_. effect E L_sync))) (\<lambda>_. disk (with_address h item d))"
    by (rule t_bind [OF q_effect [OF assms(1)]], rule t_bind [OF link [unfolded onD_False] q_effect [OF assms(1)]])
  show ?thesis unfolding publishLease_def
    by (rule t_bind [OF q_effect [OF assms(1)]], rule join_total [OF body q_effect [OF assms(1)]])
qed

lemma q_publish_taken:
  assumes "quiet E" and "map_of (td_addresses d) h \<noteq> None"
  shows "tripleT (disk d) (publishLease E h item) (\<lambda>_ _. False) (\<lambda>e s. disk d s \<and> e = Join [ErrExist])"
proof -
  have link: "tripleT (disk d) (link_address E h item) (\<lambda>_. onD (\<lambda>_. False)) (\<lambda>e. onD (\<lambda>x. x = d \<and> e = ErrExist))"
    unfolding link_address_def by (rule q_perform [OF assms(1)]) (use assms(2) in \<open>auto split: if_splits\<close>)
  have body: "tripleT (disk d) (bindT (effect E L_write) (\<lambda>_. bindT (link_address E h item) (\<lambda>_. effect E L_sync))) (\<lambda>_ _. False)
      (\<lambda>e s. disk d s \<and> e = ErrExist)"
    by (rule t_bind [OF t_conseq [OF q_effect [OF assms(1)]]], assumption+, simp,
        rule t_bind [OF t_conseq [OF link]]) (auto simp: onD_def tripleT_def)
  show ?thesis unfolding publishLease_def
    by (rule t_bind [OF t_conseq [OF q_effect [OF assms(1)]]], assumption+, simp, rule join_outcome [OF body t_False q_effect [OF assms(1)]])
qed

text \<open>The two outcomes of an attempt: the lease is at the address, and nothing else changed for the sandbox, or the disk
  is as it was.\<close>

definition placed :: "tapDisk \<Rightarrow> string \<Rightarrow> lease \<Rightarrow> tapDisk \<Rightarrow> bool" where
  "placed d h item d' \<longleftrightarrow> map_of (td_addresses d') h = Some item \<and> td_index d' = td_index d"

lemma q_effect_on:
  assumes "quiet E"
  shows "totalT (onD K) (effect E op) (\<lambda>_. onD K)"
  using q_perform [OF assms, where K = K and X = "\<lambda>_ _. False" and Q = "\<lambda>_. K" and f = "\<lambda>d. (Inr (), d)" and op = op]
  by (simp add: effect_def onD_False)

lemma q_replace:
  assumes q: "quiet E" and l: "map_of (td_addresses d) h = Some l"
  shows "totalT (disk d) (bindT (remove_address E h) (\<lambda>_. publishLease E h item)) (\<lambda>_. onD (placed d h item))"
proof -
  let ?d = "d\<lparr>td_addresses := AList.delete h (td_addresses d)\<rparr>"
  have remove: "tripleT (disk d) (remove_address E h) (\<lambda>_. disk ?d) (\<lambda>_. onD (\<lambda>_. False))"
    unfolding remove_address_def by (rule q_perform [OF q]) (auto simp: l)
  have publish: "totalT (disk ?d) (publishLease E h item) (\<lambda>_. onD (placed d h item))"
    by (rule t_conseq [OF q_publish_free [OF q]]) (auto simp: file_simps onD_def placed_def with_address_def)
  show ?thesis by (rule t_bind [OF remove [unfolded onD_False] publish])
qed

text \<open>An address whose quarantine is over is replaced, unless the clock says otherwise at the second look.\<close>

lemma q_reclaim:
  assumes q: "quiet E" and v: "valid_addresses d" and l: "map_of (td_addresses d) h = Some l"
  shows "tripleT (disk d) (reclaimAddress E h item) (\<lambda>_. onD (placed d h item)) (\<lambda>e s. disk d s \<and> e = Join [ErrExist])"
    and "\<lbrakk>\<not> IsZero (l_ReuseAfter l); \<forall>tr. \<not> th_now E tr < l_ReuseAfter l\<rbrakk> \<Longrightarrow> totalT (disk d) (reclaimAddress E h item) (\<lambda>_. onD (placed d h item))"
proof -
  let ?step = "\<lambda>prior. bindT (askT (th_now E)) (\<lambda>now. if IsZero (l_ReuseAfter prior) \<or> now < l_ReuseAfter prior then failT ErrExist
         else bindT (remove_address E h) (\<lambda>_. publishLease E h item))"
  let ?body = "tryT (readLease E h) (\<lambda>e. if errors_Is e ErrNotExist then publishLease E h item else failT e) ?step"
  have read: "tripleT (disk d) ?body Q X" if "tripleT (disk d) (?step l) Q X" for Q X
    by (rule t_try [OF q_read [OF q v l] t_False]) (use that in \<open>auto simp: tripleT_def\<close>)
  have replace: "tripleT (disk d) (bindT (remove_address E h) (\<lambda>_. publishLease E h item)) (\<lambda>_. onD (placed d h item)) X" for X
    by (rule t_conseq [OF q_replace [OF q l]]) auto
  have "tripleT (disk d) (?step l) (\<lambda>_. onD (placed d h item)) (\<lambda>e s. disk d s \<and> e = ErrExist)"
    by (rule t_now) (auto intro!: replace t_fail)
  from read [OF this] show "tripleT (disk d) (reclaimAddress E h item) (\<lambda>_. onD (placed d h item)) (\<lambda>e s. disk d s \<and> e = Join [ErrExist])"
    unfolding reclaimAddress_def
    by (intro t_bind [OF t_conseq [OF q_effect [OF q]]] join_outcome q_effect_on [OF q]) auto
  assume "\<not> IsZero (l_ReuseAfter l)" and "\<forall>tr. \<not> th_now E tr < l_ReuseAfter l"
  then have "totalT (disk d) (?step l) (\<lambda>_. onD (placed d h item))" by (intro t_now) (auto intro!: replace)
  from read [OF this] show "totalT (disk d) (reclaimAddress E h item) (\<lambda>_. onD (placed d h item))"
    unfolding reclaimAddress_def by (intro t_bind [OF q_effect [OF q]] join_total q_effect_on [OF q])
qed

text \<open>An address an allocation of the slot can take.\<close>

definition takeable :: "tapHost \<Rightarrow> tapDisk \<Rightarrow> string \<Rightarrow> bool" where
  "takeable E d h = (case map_of (td_addresses d) h of None \<Rightarrow> True
     | Some l \<Rightarrow> \<not> IsZero (l_ReuseAfter l) \<and> (\<forall>tr. \<not> th_now E tr < l_ReuseAfter l))"

definition unclaimed :: "SandboxID \<Rightarrow> AddSpec \<Rightarrow> tapDisk \<Rightarrow> bool" where
  "unclaimed i spec d \<longleftrightarrow> list_all (\<lambda>(_, l). \<not> owned i spec l) (td_addresses d)"

lemma unclaimedD: "unclaimed i spec d \<Longrightarrow> map_of (td_addresses d) h = Some l \<Longrightarrow> \<not> owned i spec l"
  by (auto simp: unclaimed_def list_all_iff dest!: map_of_SomeD)

lemma q_claim_taken:
  assumes q: "quiet E" and v: "valid_addresses d" and l: "map_of (td_addresses d) h = Some l"
    and new: "spec_Existing spec = None" and free: "\<not> owned i spec l"
  shows "totalT (disk d) (claim_taken E i spec h item l)
    (\<lambda>out. onD (\<lambda>x. out = None \<and> x = d \<and> \<not> takeable E d h \<or> out = Some item \<and> placed d h item x))"
proof (cases "takeable E d h")
  case True
  then have t: "\<not> IsZero (l_ReuseAfter l)" "\<forall>tr. \<not> th_now E tr < l_ReuseAfter l" using l by (auto simp: takeable_def)
  have "totalT (disk d) (tryT (reclaimAddress E h item) (\<lambda>e. if errors_Is e ErrExist then retT None else failT e) (\<lambda>_. retT (Some item)))
      (\<lambda>out. onD (\<lambda>x. out = None \<and> x = d \<and> \<not> takeable E d h \<or> out = Some item \<and> placed d h item x))"
    by (rule t_try [OF q_reclaim(2) [OF q v l t] t_False]) (auto simp: onD_def intro: t_ret)
  then show ?thesis unfolding claim_taken_def using t by (auto intro!: t_now)
next
  case False
  have reclaim: "totalT (disk d) (tryT (reclaimAddress E h item) (\<lambda>e. if errors_Is e ErrExist then retT None else failT e) (\<lambda>_. retT (Some item)))
      (\<lambda>out. onD (\<lambda>x. out = None \<and> x = d \<and> \<not> takeable E d h \<or> out = Some item \<and> placed d h item x))"
    by (rule t_try [OF q_reclaim(1) [OF q v l]]) (use False in \<open>auto simp: onD_def tripleT_def retT_def failT_def\<close>)
  show ?thesis unfolding claim_taken_def using new free False reclaim
    by (auto simp: owned_def onD_def intro!: t_now t_ret)
qed

lemma q_claim:
  assumes q: "quiet E" and v: "valid_addresses d" and new: "spec_Existing spec = None" and free: "unclaimed i spec d"
  shows "totalT (disk d) (claim_address E i spec h item)
    (\<lambda>out. onD (\<lambda>x. out = None \<and> x = d \<and> \<not> takeable E d h \<or> out = Some item \<and> placed d h item x))"
proof (cases "map_of (td_addresses d) h")
  case None
  show ?thesis unfolding claim_address_def
    by (rule t_try [OF q_publish_free [OF q None] t_False]) (auto simp: onD_def placed_def with_address_def file_simps intro!: t_ret)
next
  case (Some l)
  have "totalT (disk d) (bindT (readLease E h) (claim_taken E i spec h item))
      (\<lambda>out. onD (\<lambda>x. out = None \<and> x = d \<and> \<not> takeable E d h \<or> out = Some item \<and> placed d h item x))"
    by (rule t_bind [OF q_read [OF q v Some]])
      (use q_claim_taken [OF q v Some new unclaimedD [OF free Some]] in \<open>auto simp: tripleT_def\<close>)
  then show ?thesis unfolding claim_address_def
    by (intro t_try [OF q_publish_taken [OF q] _ t_False]) (auto simp: Some tripleT_def failT_def)
qed

lemma q_link:
  assumes q: "quiet E" and ix: "map_of (td_index d i) slot = None"
  shows "totalT (onD (placed d h item)) (tryT (link_index E h i slot) (\<lambda>e. failT (e, x)) (\<lambda>_. tryT (effect E L_sync) (\<lambda>e. failT (e, x)) (\<lambda>_. retT r)))
    (\<lambda>l _. l = r)"
proof -
  have "tripleT (onD (placed d h item)) (link_index E h i slot) (\<lambda>_. onD (\<lambda>_. True)) (\<lambda>_. onD (\<lambda>_. False))"
    unfolding link_index_def by (rule q_perform [OF q]) (auto simp: placed_def ix split: if_splits option.splits)
  then show ?thesis unfolding onD_False
    by (rule t_try [OF _ t_False]) (rule t_try [OF q_effect_on [OF q] t_False], simp add: t_ret)
qed

lemma q_check_ctx: "quiet E \<Longrightarrow> totalT (disk d) (check_ctx E) (\<lambda>_. disk d)"
  by (simp add: check_ctx_def tripleT_def bindT_def tryT_def askT_def quiet_def retT_def)

text \<open>The search ends at the first candidate that can be taken.\<close>

lemma q_reserve_loop:
  assumes q: "quiet E" and v: "valid_addresses d" and new: "spec_Existing spec = None" and free: "unclaimed i spec d"
    and ix: "map_of (td_index d i) (slot_name (spec_Index spec)) = None"
    and valid: "\<And>a. a \<in> set as \<Longrightarrow> let it = attempt_item spec None item (addr_string (candidate p start (of_nat a)))
      in NetworkInterface_Validate (l_Interface it) = None \<and> pool_contains (tp_pool p) (lease_host it)"
    and ex: "\<exists>a\<in>set as. takeable E d (addr_string (candidate p start (of_nat a)))"
  shows "totalT (disk d) (reserve_loop E p i spec None item start published as)
    (\<lambda>l _. \<exists>a\<in>set as. lease_host l = addr_string (candidate p start (of_nat a)))"
  using valid ex
proof (induction as arbitrary: published)
  case (Cons a as)
  let ?h = "addr_string (candidate p start (of_nat a))" and ?it = "attempt_item spec None item (addr_string (candidate p start (of_nat a)))"
  have host: "lease_host ?it = ?h" using new by (simp add: attempt_item_def lease_host_def)
  have ok: "NetworkInterface_Validate (l_Interface ?it) = None" "pool_contains (tp_pool p) ?h" using Cons.prems(1) [of a] host by (simp_all add: Let_def)
  let ?K = "\<lambda>out x. out = None \<and> x = d \<and> \<not> takeable E d ?h \<or> out = Some ?it \<and> placed d ?h ?it x"
  have onward: "totalT (onD (?K out)) (case out of None \<Rightarrow> reserve_loop E p i spec None item start (Some ?h) as
     | Some l \<Rightarrow> tryT (link_index E ?h i (slot_name (spec_Index spec))) (\<lambda>e. failT (e, Some ?h)) (\<lambda>_.
         tryT (effect E L_sync) (\<lambda>e. failT (e, Some ?h)) (\<lambda>_. retT l)))
     (\<lambda>l _. \<exists>a\<in>set (a # as). lease_host l = addr_string (candidate p start (of_nat a)))" for out
  proof (cases out)
    case None
    show ?thesis
    proof (rule t_fact [where \<phi> = "\<not> takeable E d ?h"])
      assume "\<not> takeable E d ?h"
      then have "totalT (disk d) (reserve_loop E p i spec None item start (Some ?h) as)
          (\<lambda>l _. \<exists>a\<in>set as. lease_host l = addr_string (candidate p start (of_nat a)))"
        using Cons.prems by (intro Cons.IH) auto
      then show ?thesis unfolding None option.case by (rule t_conseq) (auto simp: onD_def)
    qed (use None in \<open>auto simp: onD_def\<close>)
  next
    case (Some l)
    have "totalT (onD (placed d ?h ?it)) (tryT (link_index E ?h i (slot_name (spec_Index spec))) (\<lambda>e. failT (e, Some ?h)) (\<lambda>_.
         tryT (effect E L_sync) (\<lambda>e. failT (e, Some ?h)) (\<lambda>_. retT l))) (\<lambda>r _. r = l)" by (rule q_link [OF q ix])
    then have link: "totalT (onD (placed d ?h ?it)) (tryT (link_index E ?h i (slot_name (spec_Index spec))) (\<lambda>e. failT (e, Some ?h)) (\<lambda>_.
         tryT (effect E L_sync) (\<lambda>e. failT (e, Some ?h)) (\<lambda>_. retT l))) (\<lambda>l _. \<exists>a\<in>set (a # as). lease_host l = addr_string (candidate p start (of_nat a)))"
      if "l = ?it" by (rule t_conseq) (simp_all add: that host)
    show ?thesis unfolding Some option.case
      by (rule t_fact [where \<phi> = "l = ?it"]) (simp add: onD_def, rule t_conseq [OF link], simp_all add: onD_def)
  qed
  show ?case unfolding reserve_loop.simps Let_def
    by (rule t_try [OF q_check_ctx [OF q] t_False])
      (simp add: ok host, rule t_try [OF q_claim [OF q v new free] t_False], use onward in simp)
qed simp

section \<open>Allocation succeeds\<close>

text \<open>A recovered provider that remembers no unindexed lease of the slot.\<close>

definition recovered :: "SandboxID \<Rightarrow> AddSpec \<Rightarrow> tapst \<Rightarrow> bool" where
  "recovered i spec s \<longleftrightarrow> ts_ready s
     \<and> (case map_of (ts_byID s) i of None \<Rightarrow> True | Some m \<Rightarrow> list_all (\<lambda>(_, l). lease_index l \<noteq> spec_Index spec) m)"

lemma find_existing_none: "list_all (\<lambda>l. lease_index l \<noteq> spec_Index spec) cs \<Longrightarrow> find_existing E i spec cs = retT None"
  by (induction cs) auto

definition orders :: "tapHost \<Rightarrow> bool" where
  "orders E \<longleftrightarrow> (\<forall>ls. set (th_order E ls) = set ls)"

lemma known_other_slots:
  assumes "recovered i spec s" and "orders E" and "recoveryLeases E i s = (Inr known, s')"
  shows "find_existing E i spec known = retT None"
proof (rule find_existing_none)
  show "list_all (\<lambda>l. lease_index l \<noteq> spec_Index spec) known"
    using assms by (fastforce simp: recovered_def orders_def recoveryLeases_def list_all_iff split: option.splits)
qed

lemma q_read_index_missing:
  assumes "quiet E" and "map_of (td_index d i) slot = None"
  shows "tripleT (\<lambda>s. disk d s \<and> recovered j spec s) (readLease_index E i slot) (\<lambda>_ _. False) (\<lambda>e s. e = ErrNotExist \<and> disk d s \<and> recovered j spec s)"
  using assms by (auto simp: tripleT_def readLease_index_def read_index_def perform_def bindT_def tryT_def failT_def others_act_def quiet_def
      recovered_def onD_def Let_def split: option.splits)

definition slot_request :: "AddSpec \<Rightarrow> bool" where
  "slot_request spec \<longleftrightarrow> \<not> spec_DHCP spec \<and> spec_Existing spec = None \<and> 0 \<le> spec_Index spec \<and> spec_Index spec < MaxSandboxNICs
     \<and> (spec_Queues spec \<le> 0 \<or> 2 \<le> spec_Queues spec \<and> even (spec_Queues spec))"

lemma request_queues: "slot_request spec \<Longrightarrow> 2 \<le> ResolveQueues (spec_Queues spec) 1 \<and> ResolveQueues (spec_Queues spec) 1 mod 2 = 0"
  by (auto simp: slot_request_def ResolveQueues_def QueueCount_def)

lemma tapName_not_Nil: "tapName sha p i index \<noteq> []"
  by (simp add: tapName_def Let_def)

lemma item_validates:
  assumes new: "tap_New sha options = Inr p" and req: "slot_request spec" and g: "guestIdentity (spec_Index spec) = Inr (mac, ipv4)"
    and a: "a \<in> host_addresses (tp_pool p)" and tap: "name \<noteq> []"
    and item: "item = (fresh_lease E p i spec mac ipv4 (ResolveQueues (spec_Queues spec) 1))"
  shows "NetworkInterface_Validate ((l_Interface item)\<lparr>nic_TAP := name, nic_HostAddress := addr_string a\<rparr>) = None"
proof -
  have "0 \<le> spec_Index spec" "spec_Index spec < MaxSandboxNICs" using req by (simp_all add: slot_request_def)
  from guestIdentity_ok [OF this] obtain mac' ipv4' where "guestIdentity (spec_Index spec) = Inr (mac', ipv4')" and "ParseMAC_ok mac'" and "IPv4Config_Validate ipv4' = None"
    and "\<And>a. ip4_Address ipv4' = addr_string a \<Longrightarrow> hd (octets a) = 169" by blast
  with g have facts: "ParseMAC_ok mac" "IPv4Config_Validate ipv4 = None" "\<And>a. ip4_Address ipv4 = addr_string a \<Longrightarrow> hd (octets a) = 169" by auto
  have "ip4_Address ipv4 \<noteq> addr_string a" using facts(3) host_validates(2) [OF new a] by metis
  then show ?thesis using facts(1,2) request_queues [OF req] tap req addr_string_ipv4 [of a] unfolding item
    by (auto simp: NetworkInterface_Validate_def fresh_lease_def slot_request_def)
qed

lemma start_in_range:
  assumes "wf_pool (tp_pool p)"
  shows "unat (start_offset E p i index) < unat (pool_count p - 2)"
proof -
  obtain n where "4 \<le> n" "unat (pool_count p - 2) = 2 ^ n - 2" using assms by (rule pool_arith)
  then have "0 < unat (pool_count p - 2)" using power_increasing [of 4 n "2 :: nat"] by simp
  then show ?thesis unfolding start_offset_def unat_mod by (rule mod_less_divisor)
qed

lemma q_bound_lease:
  assumes "quiet E" and "\<forall>tr. fst (th_binding E tr) \<noteq> []" and "spec_Existing spec = None" and "nic_TAP (l_Interface item) \<noteq> []"
  shows "totalT (disk d) (bound_lease E p i spec bind None item)
    (\<lambda>l s. disk d s \<and> (\<exists>name. name \<noteq> [] \<and> l_Interface l = (l_Interface item)\<lparr>nic_TAP := name\<rparr>))"
proof (cases bind)
  case True
  have bound: "totalT (disk d) (bindT (effect E L_bind) (\<lambda>_. retT (item\<lparr>l_Interface := (l_Interface item)\<lparr>nic_TAP := name\<rparr>, l_Epoch := epoch\<rparr>)))
      (\<lambda>l s. disk d s \<and> (\<exists>name. name \<noteq> [] \<and> l_Interface l = (l_Interface item)\<lparr>nic_TAP := name\<rparr>))" if "name \<noteq> []" for name epoch
    by (rule t_bind [OF q_effect [OF assms(1)]], rule t_ret) (rule conjI, assumption, rule exI [of _ name], simp add: that)
  have "totalT (disk d) (bindT (askT (th_binding E)) (\<lambda>(name, epoch). bindT (effect E L_bind)
      (\<lambda>_. retT (item\<lparr>l_Interface := (l_Interface item)\<lparr>nic_TAP := name\<rparr>, l_Epoch := epoch\<rparr>))))
      (\<lambda>l s. disk d s \<and> (\<exists>name. name \<noteq> [] \<and> l_Interface l = (l_Interface item)\<lparr>nic_TAP := name\<rparr>))"
  proof (rule t_bind [OF t_ask [where Q = "\<lambda>b s. disk d s \<and> fst b \<noteq> []"]])
    show "disk d s \<Longrightarrow> disk d s \<and> fst (th_binding E tr) \<noteq> []" for s tr using assms(2) by simp
    show "totalT (\<lambda>s. disk d s \<and> fst b \<noteq> []) (case b of (name, epoch) \<Rightarrow> bindT (effect E L_bind)
        (\<lambda>_. retT (item\<lparr>l_Interface := (l_Interface item)\<lparr>nic_TAP := name\<rparr>, l_Epoch := epoch\<rparr>)))
        (\<lambda>l s. disk d s \<and> (\<exists>name. name \<noteq> [] \<and> l_Interface l = (l_Interface item)\<lparr>nic_TAP := name\<rparr>))" for b
      by (cases b, rule t_pure) (simp only: fst_conv prod.case, rule bound)
  qed
  then show ?thesis using assms(3) True by (simp add: bound_lease_def)
next
  case False
  have "totalT (disk d) (retT item) (\<lambda>l s. disk d s \<and> (\<exists>name. name \<noteq> [] \<and> l_Interface l = (l_Interface item)\<lparr>nic_TAP := name\<rparr>))"
    by (rule t_ret) (rule conjI, assumption, rule exI [of _ "nic_TAP (l_Interface item)"], simp add: assms(4))
  then show ?thesis using assms(3) False by (simp add: bound_lease_def)
qed

lemma q_reserve_body:
  assumes q: "quiet E" and ord: "orders E" and new: "tap_New sha options = Inr p" and req: "slot_request spec"
    and v: "valid_addresses d" and free: "unclaimed i spec d" and ix: "map_of (td_index d i) (slot_name (spec_Index spec)) = None"
    and pool: "\<exists>a\<in>host_addresses (tp_pool p). takeable E d (addr_string a)" and name: "\<forall>tr. fst (th_binding E tr) \<noteq> []"
  shows "totalT (\<lambda>s. disk d s \<and> recovered i spec s) (reserve_body E p i spec bind)
    (\<lambda>l _. lease_host l \<in> addr_string ` host_addresses (tp_pool p))"
proof -
  have none: "spec_Existing spec = None" and slot: "0 \<le> spec_Index spec" "spec_Index spec < MaxSandboxNICs" using req by (simp_all add: slot_request_def)
  obtain mac ipv4 where g: "guestIdentity (spec_Index spec) = Inr (mac, ipv4)" using guestIdentity_ok [OF slot] by blast
  let ?item = "fresh_lease E p i spec mac ipv4 (ResolveQueues (spec_Queues spec) 1)"
  let ?start = "start_offset E p i (spec_Index spec)" and ?as = "[0..<unat (pool_count p - 2)]"
  have hosts: "(\<lambda>a. candidate p ?start (of_nat a)) ` set ?as = host_addresses (tp_pool p)"
    using candidates_hosts [OF New_pool [OF new] start_in_range [OF New_pool [OF new]]] by simp
  have loop: "totalT (disk d) (reserve_loop E p i spec None item ?start None ?as) (\<lambda>l _. lease_host l \<in> addr_string ` host_addresses (tp_pool p))"
    if "\<exists>name. name \<noteq> [] \<and> l_Interface item = (l_Interface ?item)\<lparr>nic_TAP := name\<rparr>" for item
  proof (rule t_conseq [OF q_reserve_loop [OF q v none free ix]])
    fix a assume "a \<in> set ?as"
    then have a: "candidate p ?start (of_nat a) \<in> host_addresses (tp_pool p)" using hosts by blast
    from that obtain name where "name \<noteq> []" and item: "l_Interface item = (l_Interface ?item)\<lparr>nic_TAP := name\<rparr>" by blast
    then have "NetworkInterface_Validate ((l_Interface item)\<lparr>nic_HostAddress := addr_string (candidate p ?start (of_nat a))\<rparr>) = None"
      using item_validates [OF new req g a _ refl, of name] by simp
    then show "let it = attempt_item spec None item (addr_string (candidate p ?start (of_nat a)))
        in NetworkInterface_Validate (l_Interface it) = None \<and> pool_contains (tp_pool p) (lease_host it)"
      using host_validates(1) [OF new a] none by (simp add: attempt_item_def Let_def lease_host_def)
  qed (use hosts pool in \<open>auto simp flip: hosts\<close>)
  have tap: "nic_TAP (l_Interface ?item) \<noteq> []" by (simp add: fresh_lease_def tapName_not_Nil)
  have rest: "totalT (disk d) (tryT (bound_lease E p i spec bind None ?item) (\<lambda>e. failT (e, None)) (\<lambda>item.
      tryT (effect E L_dirs) (\<lambda>e. failT (e, None)) (\<lambda>_. reserve_loop E p i spec None item ?start None ?as)))
      (\<lambda>l _. lease_host l \<in> addr_string ` host_addresses (tp_pool p))"
    by (rule t_try [OF q_bound_lease [OF q name none tap] t_False], rule t_pure, rule t_try [OF q_effect [OF q] t_False loop])
  have search: "totalT (\<lambda>s. disk d s \<and> recovered i spec s) (bindT (recoveryLeases E i) (\<lambda>known.
      tryT (find_existing E i spec known) (\<lambda>e. failT (e, None)) (\<lambda>existing.
      tryT (bound_lease E p i spec bind existing ?item) (\<lambda>e. failT (e, None)) (\<lambda>item.
      tryT (effect E L_dirs) (\<lambda>e. failT (e, None)) (\<lambda>_. reserve_loop E p i spec existing item ?start None ?as)))))
      (\<lambda>l _. lease_host l \<in> addr_string ` host_addresses (tp_pool p))"
    unfolding tripleT_def
  proof (intro allI impI)
    fix s assume s: "disk d s \<and> recovered i spec s"
    obtain known where k: "(recoveryLeases E i :: (gerr \<times> string option, lease list) tapM) s = (Inr known, s)" by (simp add: recoveryLeases_def)
    have "find_existing E i spec known = retT None" by (rule known_other_slots [OF conjunct2 [OF s] ord k])
    then show "case bindT (recoveryLeases E i) (\<lambda>known. tryT (find_existing E i spec known) (\<lambda>e. failT (e, None)) (\<lambda>existing.
      tryT (bound_lease E p i spec bind existing ?item) (\<lambda>e. failT (e, None)) (\<lambda>item.
      tryT (effect E L_dirs) (\<lambda>e. failT (e, None)) (\<lambda>_. reserve_loop E p i spec existing item ?start None ?as)))) s of
        (Inl e, s') \<Rightarrow> False | (Inr l, s') \<Rightarrow> lease_host l \<in> addr_string ` host_addresses (tp_pool p)"
      using rest s by (simp add: bindT_def [of "recoveryLeases E i"] tryT_def [of "recoveryLeases E i"] k tryT_def [of "retT None"] retT_def [of None] tripleT_def)
  qed
  show ?thesis using request_queues [OF req] none unfolding reserve_body_def Let_def
    by (simp add: g contract_broken_def) (rule t_try [OF q_read_index_missing [OF q ix] _ t_False], use search in \<open>auto simp: tripleT_def\<close>)
qed

lemma quiet_spares: "quiet E \<Longrightarrow> spares i E"
  by (simp add: spares_def stable_def quiet_def)

lemma q_reserve:
  assumes "tap_New sha options = Inr p" and "quiet E" and "orders E" and "\<forall>tr. fst (th_binding E tr) \<noteq> []"
    and "ParseSandboxID i = Inr i'" and "slot_request spec" and "recovered i spec s"
    and "valid_addresses (ts_disk s)" and "unclaimed i spec (ts_disk s)"
    and "map_of (td_index (ts_disk s) i) (slot_name (spec_Index spec)) = None"
    and "\<exists>a\<in>host_addresses (tp_pool p). takeable E (ts_disk s) (addr_string a)"
  shows "\<exists>l s'. reserveWith E p i spec bind s = (Inr l, s') \<and> reserved i spec l (ts_disk s')
    \<and> lease_host l \<in> addr_string ` host_addresses (tp_pool p)"
proof -
  have ready: "RecoverLeases E s = (Inr (), s)"
    using assms(2,7) by (simp add: RecoverLeases_def recovered_def check_ctx_def bindT_def tryT_def askT_def quiet_def retT_def)
  have "disk (ts_disk s) s \<and> recovered i spec s" using assms(7) by (simp add: onD_def)
  from tripleD [OF q_reserve_body [OF assms(2,3,1,6,8-11,4), where bind = bind] this] obtain l s' where
    body: "reserve_body E p i spec bind s = (Inr l, s')" and l: "lease_host l \<in> addr_string ` host_addresses (tp_pool p)" by auto
  have run: "reserveWith E p i spec bind s = (Inr l, s')"
    using assms(5,6) body ready by (simp add: reserveWith_def bindT_def tryT_def liftT_def slot_request_def retT_def)
  then show ?thesis using reserve_result [OF quiet_spares [OF assms(2)] run] l by blast
qed

section \<open>Resuming after a restart\<close>

text \<open>A cache that holds only active leases of the disk, by sandbox and address.\<close>

definition sound_cache :: "tapDisk \<Rightarrow> lease gomap gomap \<Rightarrow> bool" where
  "sound_cache d c \<longleftrightarrow> (\<forall>i m. map_of c i = Some m \<longrightarrow> distinct (map fst m)
     \<and> (\<forall>h l. map_of m h = Some l \<longrightarrow> map_of (td_addresses d) h = Some l \<and> IsZero (l_ReuseAfter l) \<and> l_Sandbox l = i))"

definition cached :: "lease gomap gomap \<Rightarrow> lease \<Rightarrow> bool" where
  "cached c l \<longleftrightarrow> (\<exists>m. map_of c (l_Sandbox l) = Some m \<and> map_of m (lease_host l) = Some l)"

definition active_on :: "tapDisk \<Rightarrow> lease \<Rightarrow> bool" where
  "active_on d l \<longleftrightarrow> map_of (td_addresses d) (lease_host l) = Some l \<and> IsZero (l_ReuseAfter l)"

lemma sound_update:
  assumes "sound_cache d c" and "distinct (map fst m)"
    and "\<And>h l. map_of m h = Some l \<Longrightarrow> map_of (td_addresses d) h = Some l \<and> IsZero (l_ReuseAfter l) \<and> l_Sandbox l = i"
  shows "sound_cache d (AList.update i m c)"
  using assms unfolding sound_cache_def file_simps by (metis option.inject)

lemma remember_run:
  "rememberLease l s = (Inr (), s\<lparr>ts_byID := AList.update (l_Sandbox l)
     (AList.update (lease_host l) l (case map_of (ts_byID s) (l_Sandbox l) of None \<Rightarrow> [] | Some m \<Rightarrow> m)) (ts_byID s)\<rparr>)"
  by (simp add: rememberLease_def Let_def)

definition entries_of :: "lease gomap gomap \<Rightarrow> SandboxID \<Rightarrow> lease gomap" where
  "entries_of c i = (case map_of c i of None \<Rightarrow> [] | Some m \<Rightarrow> m)"

lemma sound_entries:
  assumes "sound_cache d c"
  shows "distinct (map fst (entries_of c i))"
    and "map_of (entries_of c i) h = Some l \<Longrightarrow> map_of (td_addresses d) h = Some l \<and> IsZero (l_ReuseAfter l) \<and> l_Sandbox l = i"
proof -
  have "distinct (map fst (entries_of c i)) \<and> (\<forall>h l. map_of (entries_of c i) h = Some l \<longrightarrow>
      map_of (td_addresses d) h = Some l \<and> IsZero (l_ReuseAfter l) \<and> l_Sandbox l = i)"
  proof (cases "map_of c i")
    case (Some m)
    then have "entries_of c i = m" by (simp add: entries_of_def)
    then show ?thesis using assms Some unfolding sound_cache_def by blast
  qed (simp add: entries_of_def)
  then show "distinct (map fst (entries_of c i))"
    and "map_of (entries_of c i) h = Some l \<Longrightarrow> map_of (td_addresses d) h = Some l \<and> IsZero (l_ReuseAfter l) \<and> l_Sandbox l = i" by blast+
qed

lemma remember_entries: "rememberLease l s = (Inr (), s\<lparr>ts_byID := AList.update (l_Sandbox l)
     (AList.update (lease_host l) l (entries_of (ts_byID s) (l_Sandbox l))) (ts_byID s)\<rparr>)"
  by (simp add: remember_run entries_of_def)

lemma cached_entries: "cached c l \<longleftrightarrow> map_of (entries_of c (l_Sandbox l)) (lease_host l) = Some l"
  by (simp add: cached_def entries_of_def split: option.split)

lemma entries_update: "entries_of (AList.update i m c) j = (if j = i then m else entries_of c j)"
  by (simp add: entries_of_def file_simps)

lemma remember_sound:
  assumes sound: "sound_cache d c" and l: "active_on d l"
    and c': "c' = AList.update (l_Sandbox l) (AList.update (lease_host l) l (entries_of c (l_Sandbox l))) c"
  shows "sound_cache d c'" and "cached c' l" and "cached c l' \<Longrightarrow> active_on d l' \<Longrightarrow> cached c' l'"
proof -
  show "sound_cache d c'" unfolding c'
  proof (rule sound_update [OF sound distinct_update [OF sound_entries(1) [OF sound]]])
    fix h x assume "map_of (AList.update (lease_host l) l (entries_of c (l_Sandbox l))) h = Some x"
    then consider "h = lease_host l" "x = l" | "map_of (entries_of c (l_Sandbox l)) h = Some x"
      unfolding file_written by (cases "h = lease_host l") simp_all
    then show "map_of (td_addresses d) h = Some x \<and> IsZero (l_ReuseAfter x) \<and> l_Sandbox x = l_Sandbox l"
    proof cases
      case 1
      then show ?thesis using l by (simp only: active_on_def)
    next
      case 2
      then show ?thesis by (rule sound_entries(2) [OF sound])
    qed
  qed
  show "cached c' l" by (simp add: cached_entries c' entries_update file_simps)
  show "cached c' l'" if old: "cached c l'" and l': "active_on d l'"
  proof (cases "lease_host l' = lease_host l")
    case True
    with l l' have "l' = l" by (simp add: active_on_def)
    then show ?thesis using \<open>cached c' l\<close> by simp
  next
    case False
    then show ?thesis using old by (cases "l_Sandbox l' = l_Sandbox l") (simp_all add: cached_entries c' entries_update file_simps)
  qed
qed

lemma remember_all_sound:
  assumes "sound_cache d (ts_byID s)" and "\<And>l. l \<in> set ls \<Longrightarrow> active_on d l" and "remember_all ls s = (r, s')"
  shows "sound_cache d (ts_byID s') \<and> (\<forall>l\<in>set ls. cached (ts_byID s') l) \<and> (\<forall>l. cached (ts_byID s) l \<longrightarrow> active_on d l \<longrightarrow> cached (ts_byID s') l)
    \<and> ts_disk s' = ts_disk s \<and> r = Inr ()"
  using assms
proof (induction ls arbitrary: s)
  case (Cons l ls)
  let ?c = "AList.update (l_Sandbox l) (AList.update (lease_host l) l (entries_of (ts_byID s) (l_Sandbox l))) (ts_byID s)"
  have l: "active_on d l" using Cons.prems(2) by simp
  note step = remember_sound [OF Cons.prems(1) l refl]
  have "remember_all ls (s\<lparr>ts_byID := ?c\<rparr>) = (r, s')" using Cons.prems(3) by (simp add: bindT_def tryT_def remember_entries)
  from Cons.IH [OF _ _ this] step(1) Cons.prems(2) have IH: "sound_cache d (ts_byID s')" "\<forall>l\<in>set ls. cached (ts_byID s') l"
    "\<forall>l. cached ?c l \<longrightarrow> active_on d l \<longrightarrow> cached (ts_byID s') l" "ts_disk s' = ts_disk s \<and> r = Inr ()" by simp_all
  then have "cached (ts_byID s') l" using step(2) l by blast
  moreover have "\<forall>l'. cached (ts_byID s) l' \<longrightarrow> active_on d l' \<longrightarrow> cached (ts_byID s') l'" using IH(3) step(3) by blast
  ultimately show ?case using IH(1,2,4) by simp
qed (simp add: retT_def)

lemma q_scan_loop:
  assumes q: "quiet E" and v: "valid_addresses d" and hs: "\<And>h. h \<in> set hs \<Longrightarrow> map_of (td_addresses d) h \<noteq> None"
  shows "totalT (\<lambda>s. disk d s \<and> ts_byID s = c \<and> \<not> ts_ready s) (scan_loop4 E result hs)
    (\<lambda>ls s. disk d s \<and> ts_byID s = c \<and> ls = result @ filter (\<lambda>l. IsZero (l_ReuseAfter l)) (map (\<lambda>h. the (map_of (td_addresses d) h)) hs))"
  using hs
proof (induction hs arbitrary: result)
  case (Cons h hs)
  then obtain l where l: "map_of (td_addresses d) h = Some l" by fastforce
  have ctx: "totalT P (check_ctx E) (\<lambda>_. P)" for P
    using q by (simp add: check_ctx_def tripleT_def bindT_def tryT_def askT_def quiet_def retT_def)
  have read: "totalT (\<lambda>s. disk d s \<and> ts_byID s = c \<and> \<not> ts_ready s) (readLease E h) (\<lambda>r s. (disk d s \<and> ts_byID s = c \<and> \<not> ts_ready s) \<and> r = l)"
    using q valid_addressesD [OF v l] l by (auto simp: tripleT_def readLease_def read_address_def perform_def bindT_def tryT_def retT_def failT_def
        others_act_def quiet_def onD_def Let_def)
  show ?case unfolding scan_loop4.simps
    by (rule t_bind [OF ctx], rule t_try [OF read t_False], rule t_pure)
      (use Cons.IH [of "result @ [l]"] Cons.IH [of result] Cons.prems l in simp)
qed (auto intro: t_ret)

lemma file_order_set: "set (file_order m) = dom (map_of m)"
  by (simp add: file_order_def dom_map_of_conv_image_fst)

text \<open>A recovery of an empty cache remembers exactly the active leases.\<close>

lemma q_recover:
  assumes q: "quiet E" and v: "valid_addresses (ts_disk s)" and s: "\<not> ts_ready s" "ts_byID s = []"
  obtains s' where "RecoverLeases E s = (Inr (), s')" and "ts_disk s' = ts_disk s" and "ts_ready s'"
    and "sound_cache (ts_disk s) (ts_byID s')" and "\<And>l. active_on (ts_disk s) l \<Longrightarrow> cached (ts_byID s') l"
proof -
  let ?d = "ts_disk s" and ?hs = "file_order (td_addresses (ts_disk s))"
  let ?ls = "filter (\<lambda>l. IsZero (l_ReuseAfter l)) (map (\<lambda>h. the (map_of (td_addresses (ts_disk s)) h)) ?hs)"
  let ?s1 = "s\<lparr>ts_byID := [], ts_ready := False, ts_trace := (A_list, None) # (L_gate, None) # ts_trace s\<rparr>"
  have "disk ?d ?s1 \<and> ts_byID ?s1 = [] \<and> \<not> ts_ready ?s1" using s by (simp add: onD_def)
  moreover have "h \<in> set ?hs \<Longrightarrow> map_of (td_addresses ?d) h \<noteq> None" for h by (auto simp: file_order_set)
  ultimately obtain s2 where loop: "scan_loop4 E [] ?hs ?s1 = (Inr ?ls, s2)" and s2: "ts_disk s2 = ?d" "ts_byID s2 = []"
    using tripleD [OF q_scan_loop [OF q v, of ?hs "[]" "[]"], of ?s1] by (auto simp: onD_def)
  have live: "active_on ?d l" if "l \<in> set ?ls" for l
    using that valid_addressesD [OF v] by (fastforce simp: active_on_def file_order_set)
  obtain s3 where rem: "(remember_all ?ls s2 :: (gerr + unit) \<times> tapst) = (Inr (), s3)"
    using remember_all_sound [OF _ live, of s2] s2 by (cases "remember_all ?ls s2 :: (gerr + unit) \<times> tapst") (fastforce simp: sound_cache_def)
  from remember_all_sound [OF _ live rem] s2 have s3: "sound_cache ?d (ts_byID s3)" "\<forall>l\<in>set ?ls. cached (ts_byID s3) l" "ts_disk s3 = ?d"
    by (auto simp: sound_cache_def)
  have "RecoverLeases E s = (Inr (), s3\<lparr>ts_ready := True\<rparr>)"
    using q s loop rem by (simp add: RecoverLeases_def effect_def perform_def others_act_def quiet_def bindT_def tryT_def scanLeases_def
        check_ctx_def askT_def retT_def set_ready_def Let_def)
  moreover have "l \<in> set ?ls" if "active_on ?d l" for l
    using that by (force simp: active_on_def file_order_set image_iff)
  ultimately show ?thesis using that [of "s3\<lparr>ts_ready := True\<rparr>"] s3 by simp
qed

text \<open>The one active lease of a slot.\<close>

definition sole_lease :: "SandboxID \<Rightarrow> AddSpec \<Rightarrow> lease \<Rightarrow> tapDisk \<Rightarrow> bool" where
  "sole_lease i spec l d \<longleftrightarrow> active_on d l \<and> owned i spec l \<and> list_all (\<lambda>(_, x). owned i spec x \<longrightarrow> x = l) (td_addresses d)"

lemma q_find_existing:
  assumes q: "quiet E" and v: "valid_addresses d" and sole: "sole_lease i spec l d"
    and cs: "\<And>x. x \<in> set cs \<Longrightarrow> active_on d x \<and> l_Sandbox x = i" and mem: "l \<in> set cs"
  shows "totalT (disk d) (find_existing E i spec cs) (\<lambda>r s. disk d s \<and> r = Some l)"
  using cs mem
proof (induction cs)
  case (Cons x cs)
  show ?case
  proof (cases "lease_index x = spec_Index spec")
    case False
    then have "l \<noteq> x" using sole by (auto simp: sole_lease_def owned_def same_slot_def)
    then show ?thesis using False Cons by simp
  next
    case True
    have x: "map_of (td_addresses d) (lease_host x) = Some x" "IsZero (l_ReuseAfter x)" "l_Sandbox x = i" using Cons.prems(1) [of x] by (auto simp: active_on_def)
    then have own: "owned i spec x" using True by (simp add: owned_def same_slot_def)
    then have "x = l" using sole map_of_SomeD [OF x(1)] by (auto simp: sole_lease_def list_all_iff)
    then have "totalT (disk d) (bindT (readLease E (lease_host x)) (\<lambda>current. if same_slot i spec current \<and> IsZero (l_ReuseAfter current)
        then retT (Some current) else find_existing E i spec cs)) (\<lambda>r s. disk d s \<and> r = Some l)"
      by (intro t_bind [OF q_read [OF q v x(1)]] t_pure) (use own in \<open>auto simp: owned_def intro!: t_ret\<close>)
    then show ?thesis using True by simp
  qed
qed simp

lemma q_resume_loop:
  assumes q: "quiet E" and v: "valid_addresses d" and l: "active_on d l" "owned i spec l" and none: "spec_Existing spec = None"
    and ix: "map_of (td_index d i) (slot_name (spec_Index spec)) = None" and inside: "pool_contains (tp_pool p) (lease_host l)"
  shows "totalT (disk d) (reserve_loop E p i spec (Some l) l start published (a # as)) (\<lambda>r _. r = l)"
proof -
  have at: "map_of (td_addresses d) (lease_host l) = Some l" using l(1) by (simp add: active_on_def)
  have ok: "NetworkInterface_Validate (l_Interface l) = None"
    using valid_addressesD [OF v at] by (auto simp: lease_check_def split: option.splits)
  have item: "attempt_item spec (Some l) l h = l" for h using none by (simp add: attempt_item_def)
  have claim: "totalT (disk d) (claim_address E i spec (lease_host l) l) (\<lambda>out s. disk d s \<and> out = Some l)"
  proof -
    have "totalT (disk d) (bindT (readLease E (lease_host l)) (claim_taken E i spec (lease_host l) l)) (\<lambda>out s. disk d s \<and> out = Some l)"
      by (rule t_bind [OF q_read [OF q v at]], rule t_pure) (use l(2) in \<open>auto simp: claim_taken_def owned_def intro!: t_ret\<close>)
    then show ?thesis unfolding claim_address_def
      by (intro t_try [OF q_publish_taken [OF q] _ t_False]) (auto simp: at tripleT_def failT_def)
  qed
  have link: "totalT (disk d) (tryT (link_index E (lease_host l) i (slot_name (spec_Index spec))) (\<lambda>e. failT (e, Some (lease_host l))) (\<lambda>_.
         tryT (effect E L_sync) (\<lambda>e. failT (e, Some (lease_host l))) (\<lambda>_. retT l))) (\<lambda>r _. r = l)"
    by (rule t_conseq [OF q_link [OF q ix, of "lease_host l" l "Some (lease_host l)" l]]) (auto simp: onD_def placed_def at)
  show ?thesis unfolding reserve_loop.simps Let_def item
    by (rule t_try [OF q_check_ctx [OF q] t_False])
      (simp add: ok inside, rule t_try [OF claim t_False], rule t_pure, simp add: link)
qed

lemma q_resume_body:
  assumes q: "quiet E" and ord: "orders E" and new: "tap_New sha options = Inr p" and req: "slot_request spec"
    and v: "valid_addresses (ts_disk s)" and sole: "sole_lease i spec l (ts_disk s)"
    and ix: "map_of (td_index (ts_disk s) i) (slot_name (spec_Index spec)) = None" and inside: "pool_contains (tp_pool p) (lease_host l)"
    and cache: "sound_cache (ts_disk s) (ts_byID s)" "cached (ts_byID s) l"
  shows "\<exists>s'. reserve_body E p i spec bind s = (Inr l, s')"
proof -
  let ?d = "ts_disk s"
  have l: "active_on ?d l" "owned i spec l" and li: "l_Sandbox l = i" using sole by (auto simp: sole_lease_def owned_def same_slot_def)
  have none: "spec_Existing spec = None" and slot: "0 \<le> spec_Index spec" "spec_Index spec < MaxSandboxNICs" using req by (simp_all add: slot_request_def)
  obtain mac ipv4 where g: "guestIdentity (spec_Index spec) = Inr (mac, ipv4)" using guestIdentity_ok [OF slot] by blast
  let ?item = "fresh_lease E p i spec mac ipv4 (ResolveQueues (spec_Queues spec) 1)" and ?start = "start_offset E p i (spec_Index spec)"
  obtain n where "4 \<le> n" "unat (pool_count p - 2) = 2 ^ n - 2" using New_pool [OF new] by (rule pool_arith)
  then have "0 < unat (pool_count p - 2)" using power_increasing [of 4 n "2 :: nat"] by simp
  then obtain a as where as: "[0..<unat (pool_count p - 2)] = a # as" by (cases "[0..<unat (pool_count p - 2)]") auto
  define s1 where "s1 = s\<lparr>ts_trace := (X_read i (slot_name (spec_Index spec)), Some ErrNotExist) # ts_trace s\<rparr>"
  have read: "readLease_index E i (slot_name (spec_Index spec)) s = (Inl ErrNotExist, s1)"
    using q ix by (simp add: readLease_index_def read_index_def perform_def bindT_def tryT_def failT_def others_act_def quiet_def Let_def s1_def)
  let ?known = "th_order E (map snd (entries_of (ts_byID s) i))"
  have known: "(recoveryLeases E i s1 :: ((gerr \<times> string option) + lease list) \<times> tapst) = (Inr ?known, s1)"
    by (simp add: recoveryLeases_def s1_def entries_of_def)
  have "l \<in> set ?known" using cache(2) ord li by (force simp: cached_entries orders_def dest: map_of_SomeD)
  moreover have "active_on ?d x \<and> l_Sandbox x = i" if "x \<in> set ?known" for x
  proof -
    from that ord obtain h where "(h, x) \<in> set (entries_of (ts_byID s) i)" by (auto simp: orders_def)
    then have "map_of (entries_of (ts_byID s) i) h = Some x" using sound_entries(1) [OF cache(1)] by (simp add: map_of_eq_Some_iff)
    from sound_entries(2) [OF cache(1) this] show ?thesis using valid_addressesD [OF v] by (auto simp: active_on_def)
  qed
  ultimately have find: "totalT (disk ?d) (find_existing E i spec ?known) (\<lambda>r s. disk ?d s \<and> r = Some l)"
    by (intro q_find_existing [OF q v sole]) auto
  have rest: "totalT (disk ?d) (tryT (find_existing E i spec ?known) (\<lambda>e. failT (e, None)) (\<lambda>existing.
      tryT (bound_lease E p i spec bind existing ?item) (\<lambda>e. failT (e, None)) (\<lambda>item.
      tryT (effect E L_dirs) (\<lambda>e. failT (e, None)) (\<lambda>_. reserve_loop E p i spec existing item ?start None (a # as))))) (\<lambda>r _. r = l)"
  proof (rule t_try [OF find t_False], rule t_pure)
    fix existing assume "existing = Some l"
    then have "bound_lease E p i spec bind existing ?item = retT l" by (simp add: bound_lease_def)
    then show "totalT (disk ?d) (tryT (bound_lease E p i spec bind existing ?item) (\<lambda>e. failT (e, None)) (\<lambda>item.
      tryT (effect E L_dirs) (\<lambda>e. failT (e, None)) (\<lambda>_. reserve_loop E p i spec existing item ?start None (a # as)))) (\<lambda>r _. r = l)"
      using \<open>existing = Some l\<close> t_try [OF q_effect [OF q] t_False q_resume_loop [OF q v l none ix inside]]
      by (simp add: tryT_def [of "retT l"] retT_def [of l] tripleT_def del: reserve_loop.simps)
  qed
  have "disk ?d s1" by (simp add: onD_def s1_def)
  from tripleD [OF rest this] obtain s' where "tryT (find_existing E i spec ?known) (\<lambda>e. failT (e, None)) (\<lambda>existing.
      tryT (bound_lease E p i spec bind existing ?item) (\<lambda>e. failT (e, None)) (\<lambda>item.
      tryT (effect E L_dirs) (\<lambda>e. failT (e, None)) (\<lambda>_. reserve_loop E p i spec existing item ?start None (a # as)))) s1 = (Inr l, s')" by auto
  then show ?thesis using request_queues [OF req] none unfolding reserve_body_def Let_def
    by (simp add: g contract_broken_def tryT_def [of "readLease_index E i (slot_name (spec_Index spec))"] read
        bindT_def [of "recoveryLeases E i"] tryT_def [of "recoveryLeases E i"] known as del: reserve_loop.simps)
qed

section \<open>Allocation theorems\<close>

lemma offsets_inject:
  assumes "n \<le> 16"
  shows "inj_on (\<lambda>k. b + of_nat k :: 32 word) {k. k < 2 ^ n}"
proof (rule inj_onI)
  fix k m :: nat assume km: "k \<in> {k. k < 2 ^ n}" "m \<in> {k. k < 2 ^ n}" "b + of_nat k = b + (of_nat m :: 32 word)"
  have "(2 :: nat) ^ n \<le> 65536" using assms power_increasing [of n 16 "2 :: nat"] by simp
  then have "unat (of_nat k :: 32 word) = k" if "k < 2 ^ n" for k using that by (intro of_nat_inverse [OF refl]) simp
  then show "k = m" using km by (metis add_left_cancel mem_Collect_eq)
qed

lemma card_hosts:
  assumes "32 - px_Bits q = n" and "n \<le> 16"
  shows "card (host_addresses q) = 2 ^ n - 2"
proof -
  have "host_addresses q = (\<lambda>k. px_Addr q + of_nat k) ` {1..<2 ^ n - 1}" using assms(1) by (auto simp: host_addresses_def)
  moreover have "inj_on (\<lambda>k. px_Addr q + of_nat k) {1..<2 ^ n - 1}" by (rule inj_on_subset [OF offsets_inject [OF assms(2)]]) auto
  ultimately show ?thesis by (simp add: card_image)
qed

lemma ends_outside:
  assumes "32 - px_Bits q = n" and "n \<le> 16" and "k = 0 \<or> k = 2 ^ n - 1"
  shows "px_Addr q + of_nat k \<notin> host_addresses q"
proof
  assume "px_Addr q + of_nat k \<in> host_addresses q"
  then obtain m where "0 < m" "m < 2 ^ n - 1" "px_Addr q + of_nat k = px_Addr q + of_nat m" using assms(1) by (auto simp: host_addresses_def)
  moreover from this have "k < 2 ^ n" "m < 2 ^ n" using assms(3) by auto
  ultimately show False using assms(3) inj_onD [OF offsets_inject [OF assms(2)], of "px_Addr q" k m] by auto
qed

text \<open>C12. The addresses an allocation tries are the host addresses of the subnet, each exactly once, all inside it, and neither
  the network nor the broadcast address; \<open>uint32\<close> arithmetic does not wrap.\<close>

theorem candidates_cover_pool:
  assumes "tap_New sha options = Inr p"
  shows "let cs = map (\<lambda>a. candidate p (start_offset E p i index) (of_nat a)) [0..<unat (pool_count p - 2)] in
    distinct cs \<and> set cs = host_addresses (tp_pool p) \<and> list_all (\<lambda>a. pool_contains (tp_pool p) (addr_string a)) cs
    \<and> px_Addr (tp_pool p) \<notin> set cs \<and> px_Addr (tp_pool p) + pool_count p - 1 \<notin> set cs"
proof -
  let ?q = "tp_pool p" and ?cs = "map (\<lambda>a. candidate p (start_offset E p i index) (of_nat a)) [0..<unat (pool_count p - 2)]"
  have wf: "wf_pool ?q" by (rule New_pool [OF assms])
  obtain n where n: "32 - px_Bits ?q = n" "n \<le> 16" "unat (pool_count p) = 2 ^ n" "unat (pool_count p - 2) = 2 ^ n - 2"
    using pool_arith [OF wf] by metis
  have set: "set ?cs = host_addresses ?q" using candidates_hosts [OF wf start_in_range [OF wf]] by simp
  have "card (set ?cs) = length ?cs" unfolding set card_hosts [OF n(1,2)] by (simp add: n(4))
  then have "distinct ?cs" by (rule card_distinct)
  moreover have "list_all (\<lambda>a. pool_contains ?q (addr_string a)) ?cs"
    unfolding list_all_iff set using host_validates(1) [OF assms] by blast
  moreover have "px_Addr ?q \<notin> host_addresses ?q" using ends_outside [OF n(1,2), of 0] by simp
  moreover have "pool_count p = of_nat (2 ^ n)" by (simp flip: n(3))
  then have "px_Addr ?q + pool_count p - 1 = px_Addr ?q + of_nat (2 ^ n - 1)" by (simp add: of_nat_diff)
  then have "px_Addr ?q + pool_count p - 1 \<notin> host_addresses ?q" using ends_outside [OF n(1,2), of "2 ^ n - 1"] by (simp only: simp_thms)
  ultimately show ?thesis unfolding Let_def set by blast
qed

text \<open>C11. On a host where nothing fails and no other process interferes, a recovered provider gives a new NIC slot an
  address whenever the pool has one that is free or out of quarantine: the search covers every host address of the
  subnet, passes over the active and the cooling ones, and the reservation stands.\<close>

theorem reserve_finds_free_address:
  assumes "tap_New sha options = Inr p" and "quiet E" and "orders E" and "\<forall>tr. fst (th_binding E tr) \<noteq> []"
    and "ParseSandboxID i = Inr i'" and "slot_request spec" and "recovered i spec s"
    and "valid_addresses (ts_disk s)" and "unclaimed i spec (ts_disk s)"
    and "map_of (td_index (ts_disk s) i) (slot_name (spec_Index spec)) = None"
    and "\<exists>a\<in>host_addresses (tp_pool p). takeable E (ts_disk s) (addr_string a)"
  shows "\<exists>l s'. reserveWith E p i spec bind s = (Inr l, s') \<and> reserved i spec l (ts_disk s')
    \<and> lease_host l \<in> addr_string ` host_addresses (tp_pool p)"
  by (rule q_reserve [OF assms])

text \<open>C10. A reservation interrupted between the address file and the index is resumed after a restart: a new process finds the
  lease by scanning the addresses and returns it unchanged, with its address, device and epoch, and indexes it. No second
  address is taken. Nothing fails or interferes, and the lease is the only one of its slot and in the pool.\<close>

theorem interrupted_reservation_resumed:
  assumes "tap_New sha options = Inr p" and "quiet E" and "orders E" and "ParseSandboxID i = Inr i'" and "slot_request spec"
    and "\<not> ts_ready s" and "ts_byID s = []" and "valid_addresses (ts_disk s)" and "sole_lease i spec l (ts_disk s)"
    and "map_of (td_index (ts_disk s) i) (slot_name (spec_Index spec)) = None" and "pool_contains (tp_pool p) (lease_host l)"
  shows "\<exists>s'. reserveWith E p i spec bind s = (Inr l, s') \<and> reserved i spec l (ts_disk s')"
proof -
  obtain s1 where rec: "RecoverLeases E s = (Inr (), s1)" and s1: "ts_disk s1 = ts_disk s" "sound_cache (ts_disk s) (ts_byID s1)"
    "cached (ts_byID s1) l" using q_recover [OF assms(2,8,6,7)] assms(9) by (metis sole_lease_def)
  obtain s' where "reserve_body E p i spec bind s1 = (Inr l, s')"
    using q_resume_body [OF assms(2,3,1,5), of s1 i l bind] assms(8-11) s1 by auto
  then have run: "reserveWith E p i spec bind s = (Inr l, s')"
    using assms(4,5) rec by (simp add: reserveWith_def bindT_def tryT_def liftT_def slot_request_def retT_def)
  then show ?thesis using reserve_result [OF quiet_spares [OF assms(2)] run] by blast
qed

section \<open>Concrete runs\<close>

definition sample_options :: tapOptions where
  "sample_options = \<lparr>to_StateDir = ''/var/lib/kb'', to_PinDir = ''/sys/fs/bpf/kb'', to_Subnet = ''10.9.0.0/28'', to_TAPPrefix = ''kb'',
     to_ReuseDelay = 0, to_PoolSize = 2, to_PoolQueues = []\<rparr>"

definition sample_sha :: "string \<Rightarrow> byte list" where
  "sample_sha s = replicate 32 (of_nat (length s))"

definition sample_pool_provider :: tapProvider where
  "sample_pool_provider = \<lparr>tp_options = sample_options\<lparr>to_ReuseDelay := 90000000000, to_PoolQueues := [2, 4]\<rparr>,
     tp_pool = \<lparr>px_Addr = 168361984, px_Bits = 28\<rparr>, tp_owner = ''0b0b0b0b0b0b0b0b''\<rparr>"

definition sample_host :: tapHost where
  "sample_host = \<lparr>th_fault = \<lambda>_ _. None, th_env = \<lambda>_ d. d, th_hints = \<lambda>_ m. m, th_recovered = \<lambda>_. False, th_now = \<lambda>_. 100,
     th_ctx = \<lambda>_. None, th_order = id, th_binding = \<lambda>_. (''kbp0'', 7), th_sha = sample_sha\<rparr>"

definition sample_spec :: AddSpec where
  "sample_spec = \<lparr>spec_Index = 0, spec_Queues = 0, spec_Existing = None, spec_DHCP = False\<rparr>"

definition sample_tapst :: tapst where
  "sample_tapst = \<lparr>ts_disk = \<lparr>td_addresses = [], td_index = \<lambda>_. []\<rparr>, ts_ready = True, ts_byID = [], ts_trace = []\<rparr>"

lemma sample_New: "tap_New sample_sha sample_options = Inr sample_pool_provider"
  by code_simp

lemma sample_quiet: "quiet sample_host" and sample_orders: "orders sample_host"
  by (simp_all add: quiet_def orders_def sample_host_def)

definition sample_peer :: SandboxID where
  "sample_peer = ''00000000-0000-4000-8000-000000000002''"

lemma sample_tap_ids: "ParseSandboxID sample_id = Inr sample_id" "ParseSandboxID sample_peer = Inr sample_peer" "sample_id \<noteq> sample_peer"
  by code_simp+

lemma sample_request: "slot_request sample_spec"
  by code_simp

lemma sample_spares: "spares i sample_host"
  by (rule quiet_spares [OF sample_quiet])

lemma sample_free: "\<exists>a\<in>host_addresses (tp_pool sample_pool_provider). takeable sample_host (ts_disk sample_tapst) (addr_string a)"
  by (rule bexI [of _ "px_Addr (tp_pool sample_pool_provider) + of_nat 1"])
    (auto simp: takeable_def sample_tapst_def host_addresses_def sample_pool_provider_def intro!: exI [of _ 1])

lemma sample_first:
  "\<exists>l s'. reserveWith sample_host sample_pool_provider sample_id sample_spec bind sample_tapst = (Inr l, s') \<and> reserved sample_id sample_spec l (ts_disk s')
    \<and> lease_host l \<in> addr_string ` host_addresses (tp_pool sample_pool_provider)"
  by (rule q_reserve [OF sample_New sample_quiet sample_orders _ sample_tap_ids(1) sample_request _ _ _ _ sample_free])
    (simp_all add: sample_host_def sample_tapst_def recovered_def valid_addresses_def unclaimed_def)

text \<open>A disk with one reservation, one without its index, and one in quarantine.\<close>

definition sample_lease :: lease where
  "sample_lease = \<lparr>l_Sandbox = sample_id, l_Interface = \<lparr>nic_Index = 0, nic_Name = ''eth0'', nic_TAP = ''kbp0'', nic_MAC = ''02:4b:42:00:00:02'',
     nic_Queues = 2, nic_QueueSize = 512, nic_Network = ''ebpf'', nic_IPv4 = Some \<lparr>ip4_Address = ''169.254.240.2'', ip4_Gateway = ''169.254.240.1'', ip4_Prefix = 30\<rparr>,
     nic_AddressMode = AddressModeFixed, nic_HostAddress = ''10.9.0.1''\<rparr>, l_Epoch = 7, l_ReuseAfter = 0\<rparr>"

lemma sample_lease_check: "lease_check sample_lease = None"
  by code_simp

definition sample_owned :: tapst where
  "sample_owned = sample_tapst\<lparr>ts_disk := \<lparr>td_addresses = [(''10.9.0.1'', sample_lease)], td_index = (\<lambda>_. [])(sample_id := [(''0'', sample_lease)])\<rparr>\<rparr>"

definition sample_crashed :: tapst where
  "sample_crashed = sample_tapst\<lparr>ts_disk := \<lparr>td_addresses = [(''10.9.0.1'', sample_lease)], td_index = \<lambda>_. []\<rparr>, ts_ready := False\<rparr>"

definition sample_cooling :: lease where
  "sample_cooling = sample_lease\<lparr>l_ReuseAfter := 500\<rparr>"

lemma sample_slot: "slot_name (spec_Index sample_spec) = ''0''"
  by code_simp

lemma sample_host_text: "addr_string (addr4 [10, 9, 0, 1]) = ''10.9.0.1''" "addr_string (px_Addr (tp_pool sample_pool_provider) + of_nat 2) \<noteq> ''10.9.0.1''"
proof -
  have "dec_nat 10 = ''10''" "dec_nat 9 = ''9''" "dec_nat 0 = ''0''" "dec_nat 1 = ''1''"
    by (simp_all add: dec_nat.simps [of 10] dec_nat.simps [of 9] dec_nat.simps [of 0] dec_nat.simps [of 1] dec_nat.simps [of "Suc 0"] digit_chars)
  then show first: "addr_string (addr4 [10, 9, 0, 1]) = ''10.9.0.1''" by (simp add: addr_string_octets octets_addr4)
  have "px_Addr (tp_pool sample_pool_provider) + of_nat 2 \<noteq> addr4 [10, 9, 0, 1]" by (simp add: sample_pool_provider_def addr4_def)
  then show "addr_string (px_Addr (tp_pool sample_pool_provider) + of_nat 2) \<noteq> ''10.9.0.1''"
    using addr_string_inject first by metis
qed

lemma sample_second:
  "\<exists>l s'. reserveWith sample_host sample_pool_provider sample_peer sample_spec bind sample_owned = (Inr l, s') \<and> reserved sample_peer sample_spec l (ts_disk s')
    \<and> lease_host l \<in> addr_string ` host_addresses (tp_pool sample_pool_provider)"
proof (rule q_reserve [OF sample_New sample_quiet sample_orders _ sample_tap_ids(2) sample_request])
  show "\<exists>a\<in>host_addresses (tp_pool sample_pool_provider). takeable sample_host (ts_disk sample_owned) (addr_string a)"
    by (rule bexI [of _ "px_Addr (tp_pool sample_pool_provider) + of_nat 2"])
      (use sample_host_text(2) in \<open>auto simp: takeable_def sample_owned_def host_addresses_def sample_pool_provider_def intro!: exI [of _ 2]\<close>)
qed (use sample_tap_ids(3) sample_lease_check in \<open>auto simp: sample_host_def sample_owned_def sample_tapst_def recovered_def valid_addresses_def unclaimed_def
    owned_def same_slot_def sample_lease_def lease_host_def\<close>)

lemma sample_owned_reserved: "reserved sample_id sample_spec sample_lease (ts_disk sample_owned)"
  by (auto simp: reserved_def at_address_def owned_def same_slot_def same_owner_def sample_slot)
    (simp_all add: sample_owned_def sample_lease_def sample_spec_def lease_index_def lease_host_def)

theorem reservation_survives_others_witness:
  "\<exists>l s'. reserveWith sample_host sample_pool_provider sample_id sample_spec False sample_tapst = (Inr l, s')
    \<and> reserved sample_id sample_spec l (ts_disk (run_requests sample_pool_provider
        [(sample_host, Q_reserve sample_peer sample_spec True), (sample_host, Q_leases sample_peer),
         (sample_host, Q_retire (sample_lease\<lparr>l_Sandbox := sample_peer\<rparr>))] s'))"
proof -
  obtain l s' where run: "reserveWith sample_host sample_pool_provider sample_id sample_spec False sample_tapst = (Inr l, s')"
    using sample_first [of False] by blast
  have "list_all (\<lambda>(E, r). spares sample_id E \<and> requester r \<noteq> sample_id) [(sample_host, Q_reserve sample_peer sample_spec True),
      (sample_host, Q_leases sample_peer), (sample_host, Q_retire (sample_lease\<lparr>l_Sandbox := sample_peer\<rparr>))]"
    using sample_tap_ids(3) by (simp add: sample_spares)
  from reservation_survives_others [OF sample_spares run this] run show ?thesis by blast
qed

theorem reservations_disjoint_witness:
  "\<exists>l s'. reserveWith sample_host sample_pool_provider sample_peer sample_spec False sample_owned = (Inr l, s')
    \<and> lease_host l \<noteq> ''10.9.0.1'' \<and> reserved sample_id sample_spec sample_lease (ts_disk s')"
proof -
  obtain l s' where run: "reserveWith sample_host sample_pool_provider sample_peer sample_spec False sample_owned = (Inr l, s')"
    using sample_second [of False] by blast
  have "reserveWith sample_host sample_pool_provider sample_peer sample_spec False (run_requests sample_pool_provider [] sample_owned) = (Inr l, s')"
    using run by simp
  from reservations_disjoint [OF sample_tap_ids(3) sample_owned_reserved _ sample_spares sample_spares this] run
  show ?thesis by (auto simp: sample_lease_def lease_host_def)
qed

theorem quarantine_respected_witness:
  "map_of (td_addresses (ts_disk (snd (reserveWith sample_host sample_pool_provider sample_peer sample_spec True
     (sample_tapst\<lparr>ts_disk := \<lparr>td_addresses = [(''10.9.0.1'', sample_cooling)], td_index = \<lambda>_. []\<rparr>\<rparr>))))) ''10.9.0.1'' = Some sample_cooling"
  by (rule quarantine_respected)
    (simp_all add: unavailable_def sample_cooling_def sample_host_def stable_def)

theorem candidates_cover_pool_witness:
  "let cs = map (\<lambda>a. candidate sample_pool_provider (start_offset sample_host sample_pool_provider sample_id 0) (of_nat a))
      [0..<unat (pool_count sample_pool_provider - 2)] in
    distinct cs \<and> list_all (\<lambda>a. pool_contains (tp_pool sample_pool_provider) (addr_string a)) cs"
  using candidates_cover_pool [OF sample_New, of sample_host sample_id 0] unfolding Let_def by blast

theorem reserve_finds_free_address_witness:
  "\<exists>l s'. reserveWith sample_host sample_pool_provider sample_id sample_spec True sample_tapst = (Inr l, s')
    \<and> lease_host l \<in> addr_string ` host_addresses (tp_pool sample_pool_provider)"
proof -
  have "\<exists>l s'. reserveWith sample_host sample_pool_provider sample_id sample_spec True sample_tapst = (Inr l, s')
      \<and> reserved sample_id sample_spec l (ts_disk s') \<and> lease_host l \<in> addr_string ` host_addresses (tp_pool sample_pool_provider)"
    by (rule reserve_finds_free_address [OF sample_New sample_quiet sample_orders _ sample_tap_ids(1) sample_request _ _ _ _ sample_free])
      (simp_all add: sample_host_def sample_tapst_def recovered_def valid_addresses_def unclaimed_def)
  then show ?thesis by blast
qed

theorem interrupted_reservation_resumed_witness:
  "\<exists>s'. reserveWith sample_host sample_pool_provider sample_id sample_spec True sample_crashed = (Inr sample_lease, s')"
proof -
  have inside: "pool_contains (tp_pool sample_pool_provider) (lease_host sample_lease)"
    using host_validates(1) [OF sample_New, of "addr4 [10, 9, 0, 1]"] sample_host_text(1)
    by (force simp: sample_lease_def lease_host_def host_addresses_def sample_pool_provider_def addr4_def)
  have "\<exists>s'. reserveWith sample_host sample_pool_provider sample_id sample_spec True sample_crashed = (Inr sample_lease, s')
      \<and> reserved sample_id sample_spec sample_lease (ts_disk s')"
    by (rule interrupted_reservation_resumed [OF sample_New sample_quiet sample_orders sample_tap_ids(1) sample_request _ _ _ _ _ inside])
      (use sample_lease_check in \<open>simp_all add: sample_crashed_def sample_tapst_def valid_addresses_def sole_lease_def active_on_def owned_def same_slot_def
        sample_lease_def sample_spec_def lease_host_def lease_index_def\<close>)
  then show ?thesis by blast
qed

end
