(* ===== verification/Agent_Process.thy ===== *)
theory Agent_Process
  imports Vmm_Plan
begin

text \<open>
  The background processes of the guest agent: the process table and the output rings of
  \<open>internal/agent/processes.go\<close>, the terminal rule of the frame encoder (\<open>internal/agent/protocol.go\<close>), the handler
  and the output stream of \<open>internal/agent/server_process.go\<close>, and the client's side of a stream
  (\<open>internal/agent/client_process.go\<close>).

  The operating system answers through arguments: the random handle, the result of preparing and starting a
  command, its exit state, the clock and the outcome of a signal. A job changes between two looks of a stream:
  the stream takes the states it finds at its wake-ups as a list. Fields of a frame that belong to the other
  operations of the agent are left out, and so are the limit of 8 MiB on an encoded frame, which no frame of these
  operations reaches (a chunk has at most 32 KiB, a command 64 KiB), and the JSON text of a frame: data is
  base64, and strings of frames are taken to be UTF-8. The server always has a process manager
  (\<open>NewServer\<close> makes one).
\<close>

section \<open>Data\<close>

record ProcessInfo =
  pi_ID :: string
  pi_PID :: int
  pi_Args :: "string list"
  pi_Cwd :: string
  pi_User :: string
  pi_Running :: bool
  pi_ExitCode :: "int option"
  pi_StartedAt :: time
  pi_ExitedAt :: "time option"
  pi_Error :: string
  pi_OutputTruncated :: bool

record Message =
  msg_Type :: string
  msg_Argv :: "string list"
  msg_Env :: "string gomap"
  msg_Cwd :: string
  msg_User :: string
  msg_ProcessID :: string
  msg_Signal :: string
  msg_Process :: "ProcessInfo option"
  msg_Cursor :: "64 word"
  msg_Code :: string
  msg_Data :: "byte list"
  msg_Message :: string

definition Message_zero :: Message where
  "Message_zero = \<lparr>msg_Type = [], msg_Argv = [], msg_Env = [], msg_Cwd = [], msg_User = [], msg_ProcessID = [], msg_Signal = [],
     msg_Process = None, msg_Cursor = 0, msg_Code = [], msg_Data = [], msg_Message = []\<rparr>"

abbreviation MessageSpawn :: string where "MessageSpawn \<equiv> ''spawn''"
abbreviation MessageProcesses :: string where "MessageProcesses \<equiv> ''processes''"
abbreviation MessageProcess :: string where "MessageProcess \<equiv> ''process''"
abbreviation MessageSignal :: string where "MessageSignal \<equiv> ''signal''"
abbreviation MessageLogs :: string where "MessageLogs \<equiv> ''process_logs''"
abbreviation MessageAttach :: string where "MessageAttach \<equiv> ''process_attach''"
abbreviation MessageGap :: string where "MessageGap \<equiv> ''output_gap''"
abbreviation MessageDone :: string where "MessageDone \<equiv> ''done''"
abbreviation MessageStdout :: string where "MessageStdout \<equiv> ''stdout''"
abbreviation MessageStderr :: string where "MessageStderr \<equiv> ''stderr''"
abbreviation MessageExit :: string where "MessageExit \<equiv> ''exit''"
abbreviation MessageError :: string where "MessageError \<equiv> ''error''"

definition streamChunkSize :: nat where "streamChunkSize = 32 * 1024"
definition maxRunningProcesses :: nat where "maxRunningProcesses = 64"
definition maxRetainedProcesses :: nat where "maxRetainedProcesses = 128"
definition maxProcessOutputBytes :: int where "maxProcessOutputBytes = 256 * 1024"
definition maxProcessOutputFrames :: nat where "maxProcessOutputFrames = 256"
definition maxDetachedCommandBytes :: nat where "maxDetachedCommandBytes = 64 * 1024"

abbreviation errProcessNotFound :: gerr where "errProcessNotFound \<equiv> Msg ''agent process not found or already evicted''"
abbreviation errProcessLimit :: gerr where "errProcessLimit \<equiv> Msg ''agent background process limit reached''"
abbreviation errProcessExited :: gerr where "errProcessExited \<equiv> Msg ''agent process has already exited''"

section \<open>The output ring\<close>

record managedProcess =
  mp_exited :: bool
  mp_info :: ProcessInfo
  mp_frames :: "Message list"
  mp_bytes :: int
  mp_cursor :: "64 word"

text \<open>The loop of \<open>append\<close> that drops the oldest frames; it also tells whether it dropped one.\<close>

fun trim_frames :: "Message list \<Rightarrow> int \<Rightarrow> bool \<Rightarrow> Message list \<times> int \<times> bool" where
  "trim_frames [] b t = ([], b, t)"
| "trim_frames (f # fs) b t =
     (if b > maxProcessOutputBytes \<or> length (f # fs) > maxProcessOutputFrames
      then trim_frames fs (b - int (length (msg_Data f))) True else (f # fs, b, t))"

definition process_append :: "string \<Rightarrow> byte list \<Rightarrow> managedProcess \<Rightarrow> managedProcess" where
  "process_append kind data p =
     (let cursor = mp_cursor p + 1;
          frames = mp_frames p @ [Message_zero\<lparr>msg_Type := kind, msg_Data := data, msg_Cursor := cursor\<rparr>]
      in case trim_frames frames (mp_bytes p + int (length data)) (pi_OutputTruncated (mp_info p)) of (fs, b, t) \<Rightarrow>
        p\<lparr>mp_cursor := cursor, mp_frames := fs, mp_bytes := b, mp_info := (mp_info p)\<lparr>pi_OutputTruncated := t\<rparr>\<rparr>)"

fun write_chunks :: "nat \<Rightarrow> byte list \<Rightarrow> byte list list" where
  "write_chunks n data = (if data = [] \<or> n = 0 then [] else take n data # write_chunks n (drop n data))"

declare write_chunks.simps [simp del]

definition processOutputWriter_Write :: "string \<Rightarrow> byte list \<Rightarrow> managedProcess \<Rightarrow> managedProcess" where
  "processOutputWriter_Write kind data p = foldl (\<lambda>p chunk. process_append kind chunk p) p (write_chunks streamChunkSize data)"

text \<open>The batch, the information and the high-water mark under one lock; the channel is the wake-up.\<close>

definition process_output :: "managedProcess \<Rightarrow> 64 word \<Rightarrow> Message list \<times> ProcessInfo \<times> 64 word" where
  "process_output p after = (filter (\<lambda>f. after < msg_Cursor f) (mp_frames p), mp_info p, mp_cursor p)"

section \<open>The process table\<close>

record processManager =
  pm_jobs :: "managedProcess gomap"
  pm_closed :: bool

text \<open>What \<open>Wait\<close> returned: an exit state (code, or signal), or another error with its text.\<close>

datatype waitResult = W_ok | W_exit int "int option" | W_error string

definition processExitCode :: "int \<Rightarrow> int option \<Rightarrow> int" where
  "processExitCode code sig = (if 0 \<le> code then code else case sig of Some s \<Rightarrow> 128 + s | None \<Rightarrow> 1)"

definition wait_code :: "waitResult \<Rightarrow> int" where
  "wait_code r = (case r of W_ok \<Rightarrow> 0 | W_exit code sig \<Rightarrow> processExitCode code sig | W_error _ \<Rightarrow> 1)"

text \<open>\<open>waitManagedProcess\<close> marks the process as exited, so that it is signalled no more, before it drains the pipes;
  \<open>finish\<close> records the exit after that.\<close>

definition process_reap :: "managedProcess \<Rightarrow> managedProcess" where
  "process_reap p = p\<lparr>mp_exited := True\<rparr>"

definition process_finish :: "waitResult \<Rightarrow> time \<Rightarrow> managedProcess \<Rightarrow> managedProcess" where
  "process_finish r now p =
     (let info = (mp_info p)\<lparr>pi_Running := False, pi_ExitCode := Some (wait_code r), pi_ExitedAt := Some now\<rparr>;
          info' = (case r of W_error text \<Rightarrow> info\<lparr>pi_Error := text, pi_OutputTruncated := True\<rparr> | _ \<Rightarrow> info)
      in p\<lparr>mp_info := info'\<rparr>)"

text \<open>\<open>kill\<close> is the answer of the operating system.\<close>

definition process_signal :: "gerr option \<Rightarrow> string \<Rightarrow> managedProcess \<Rightarrow> gerr option" where
  "process_signal kill sig p = first_error [ProcessSignal_Validate sig, check (mp_exited p) errProcessExited,
     (case kill of None \<Rightarrow> None | Some e \<Rightarrow> if errors_Is e (Msg ''os: process already finished'') then Some errProcessExited else Some e)]"

text \<open>The loop of \<open>admit\<close> over the table, in the order of one run: the running jobs and the oldest completed one.
  Dereferencing the exit time of a job that is not running needs one.\<close>

fun admit_scan :: "nat \<Rightarrow> (string \<times> time) option \<Rightarrow> managedProcess gomap \<Rightarrow> nat \<times> (string \<times> time) option" where
  "admit_scan running oldest [] = (running, oldest)"
| "admit_scan running oldest ((i, job) # js) =
     (if pi_Running (mp_info job) then admit_scan (running + 1) oldest js
      else let exited = the (pi_ExitedAt (mp_info job)) in
        admit_scan running
          (case oldest of None \<Rightarrow> Some (i, exited)
           | Some (oi, ot) \<Rightarrow> if oi = [] \<or> exited < ot \<or> exited = ot \<and> i < oi then Some (i, exited) else oldest) js)"

definition process_admit :: "processManager \<Rightarrow> gerr + processManager" where
  "process_admit m = (case admit_scan 0 None (pm_jobs m) of (running, oldest) \<Rightarrow>
     if maxRunningProcesses \<le> running then Inl errProcessLimit
     else if maxRetainedProcesses \<le> length (pm_jobs m) then
       (case oldest of None \<Rightarrow> Inl errProcessLimit | Some (oi, _) \<Rightarrow> if oi = [] then Inl errProcessLimit
          else Inr (m\<lparr>pm_jobs := AList.delete oi (pm_jobs m)\<rparr>))
     else Inr m)"

definition Message_command :: "Message \<Rightarrow> Command" where
  "Message_command m = \<lparr>cmd_Args = msg_Argv m, cmd_Env = msg_Env m, cmd_Cwd = msg_Cwd m, cmd_User = msg_User m\<rparr>"

definition detached_size :: "Message \<Rightarrow> nat" where
  "detached_size m = length (msg_Cwd m) + length (msg_User m) + sum_list (map length (msg_Argv m))
     + sum_list (map (\<lambda>(k, v). length k + length v) (msg_Env m))"

text \<open>What the system answers to one spawn: the random handle, the preparation of the command, its start with the
  process identifier, and the clock.\<close>

record spawnHost =
  sh_nonce :: "gerr + byte list"
  sh_prepare :: "gerr option"
  sh_start :: "gerr + int"
  sh_now :: time

definition new_job :: "spawnHost \<Rightarrow> Message \<Rightarrow> byte list \<Rightarrow> int \<Rightarrow> managedProcess" where
  "new_job H request nonce pid = \<lparr>mp_exited = False, mp_info = \<lparr>pi_ID = EncodeToString nonce, pi_PID = pid, pi_Args = msg_Argv request,
     pi_Cwd = msg_Cwd request, pi_User = msg_User request, pi_Running = True, pi_ExitCode = None, pi_StartedAt = sh_now H,
     pi_ExitedAt = None, pi_Error = [], pi_OutputTruncated = False\<rparr>, mp_frames = [], mp_bytes = 0, mp_cursor = 0\<rparr>"

definition process_spawn :: "spawnHost \<Rightarrow> Message \<Rightarrow> processManager \<Rightarrow> (gerr + ProcessInfo) \<times> processManager" where
  "process_spawn H request m =
     (case Command_Validate (Message_command request) of Some e \<Rightarrow> (Inl e, m) | None \<Rightarrow>
      if maxDetachedCommandBytes < detached_size request then (Inl (Msg ''background command exceeds 64 KiB''), m)
      else case sh_nonce H of Inl e \<Rightarrow> (Inl e, m) | Inr nonce \<Rightarrow>
      case sh_prepare H of Some e \<Rightarrow> (Inl e, m) | None \<Rightarrow>
      if pm_closed m then (Inl (Msg ''guest agent is shutting down''), m)
      else case process_admit m of Inl e \<Rightarrow> (Inl e, m) | Inr m1 \<Rightarrow>
      case sh_start H of Inl e \<Rightarrow> (Inl (Wrap ''start background command: '' e), m1) | Inr pid \<Rightarrow>
      let job = new_job H request nonce pid in (Inr (mp_info job), m1\<lparr>pm_jobs := AList.update (pi_ID (mp_info job)) job (pm_jobs m1)\<rparr>))"

definition process_lookup :: "processManager \<Rightarrow> string \<Rightarrow> gerr + managedProcess" where
  "process_lookup m i = (case ValidateProcessID i of Some e \<Rightarrow> Inl e | None \<Rightarrow>
     (case map_of (pm_jobs m) i of None \<Rightarrow> Inl errProcessNotFound | Some job \<Rightarrow> Inr job))"

definition process_list :: "processManager \<Rightarrow> ProcessInfo list" where
  "process_list m = sort_key pi_StartedAt (map (\<lambda>(_, job). mp_info job) (pm_jobs m))"

text \<open>The signals \<open>close\<close> sends; every job is waited for.\<close>

definition process_close :: "(string \<Rightarrow> gerr option) \<Rightarrow> processManager \<Rightarrow> (string \<times> gerr option) list \<times> processManager" where
  "process_close kill m = (map (\<lambda>(i, job). (i, process_signal (kill i) ''KILL'' job)) (pm_jobs m), m\<lparr>pm_closed := True\<rparr>)"

section \<open>Frames\<close>

text \<open>The encoder with the frames it wrote; \<open>W\<close> is the outcome of the next write. \<open>Exit\<close>, \<open>Error\<close> and \<open>Done\<close> are terminal.\<close>

record Encoder =
  enc_terminal :: bool
  enc_sent :: "Message list"

definition terminalMessage :: "string \<Rightarrow> bool" where
  "terminalMessage t \<longleftrightarrow> t = MessageExit \<or> t = MessageError \<or> t = MessageDone"

abbreviation errTerminalMessageSent :: gerr where "errTerminalMessageSent \<equiv> Msg ''terminal agent message already sent''"

type_synonym frameWriter = "Message list \<Rightarrow> gerr option"

definition Encode :: "frameWriter \<Rightarrow> Message \<Rightarrow> Encoder \<Rightarrow> gerr option \<times> Encoder" where
  "Encode W m e = (if enc_terminal e then (Some errTerminalMessageSent, e)
     else case W (enc_sent e) of Some err \<Rightarrow> (Some (Wrap ''write agent frame: '' err), e)
       | None \<Rightarrow> (None, e\<lparr>enc_sent := enc_sent e @ [m], enc_terminal := (enc_terminal e \<or> terminalMessage (msg_Type m))\<rparr>))"

definition failure_code :: "gerr \<Rightarrow> string" where
  "failure_code err = (if errors_Is err errProcessNotFound then ''NOT_FOUND''
     else if errors_Is err errProcessLimit then ''RESOURCE_EXHAUSTED''
     else if errors_Is err errProcessExited then ''CONFLICT'' else ''INVALID_ARGUMENT'')"

definition processFailure :: "frameWriter \<Rightarrow> gerr \<Rightarrow> Encoder \<Rightarrow> Encoder" where
  "processFailure W err e = snd (Encode W (Message_zero\<lparr>msg_Type := MessageError, msg_Code := failure_code err, msg_Message := Error_Error err\<rparr>) e)"

section \<open>Streaming output\<close>

fun stream_frames :: "frameWriter \<Rightarrow> 64 word \<Rightarrow> Message list \<Rightarrow> Encoder \<Rightarrow> (gerr + 64 word) \<times> Encoder" where
  "stream_frames W after [] e = (Inr after, e)"
| "stream_frames W after (f # fs) e = (case Encode W f e of (Some err, e') \<Rightarrow> (Inl err, e')
     | (None, e') \<Rightarrow> stream_frames W (msg_Cursor f) fs e')"

text \<open>One pass of the loop: a gap, if the oldest frame of the batch does not follow the cursor, and the batch.\<close>

definition stream_batch :: "frameWriter \<Rightarrow> 64 word \<Rightarrow> Message list \<Rightarrow> Encoder \<Rightarrow> (gerr + 64 word) \<times> Encoder" where
  "stream_batch W after frames e =
     (if frames \<noteq> [] \<and> after + 1 < msg_Cursor (hd frames) then
        (let after' = msg_Cursor (hd frames) - 1 in
         case Encode W (Message_zero\<lparr>msg_Type := MessageGap, msg_Cursor := after'\<rparr>) e of (Some err, e') \<Rightarrow> (Inl err, e')
         | (None, e') \<Rightarrow> stream_frames W after' frames e')
      else stream_frames W after frames e)"

text \<open>\<open>job\<close> is the state at the current look, \<open>later\<close> those at the next wake-ups; the list ends when the observer is
  cancelled.\<close>

fun stream_loop :: "frameWriter \<Rightarrow> string \<Rightarrow> 64 word \<Rightarrow> managedProcess \<Rightarrow> managedProcess list \<Rightarrow> Encoder \<Rightarrow> gerr option \<times> Encoder" where
  "stream_loop W kind after job later e =
     (case process_output job after of (frames, info, _) \<Rightarrow>
      case stream_batch W after frames e of (Inl err, e') \<Rightarrow> (Some err, e') | (Inr after', e') \<Rightarrow>
      if kind = MessageLogs \<or> \<not> pi_Running info
      then Encode W (Message_zero\<lparr>msg_Type := MessageDone, msg_Cursor := after', msg_Process := Some info\<rparr>) e'
      else case later of [] \<Rightarrow> (Some (Msg ''context canceled''), e') | job' # later' \<Rightarrow> stream_loop W kind after' job' later' e')"

declare stream_loop.simps [simp del]

definition streamProcess :: "frameWriter \<Rightarrow> Message \<Rightarrow> managedProcess \<Rightarrow> managedProcess list \<Rightarrow> Encoder \<Rightarrow> gerr option \<times> Encoder" where
  "streamProcess W request job later e =
     (if mp_cursor job < msg_Cursor request
      then (None, processFailure W (Msg ''output cursor exceeds the process's latest frame'') e)
      else stream_loop W (msg_Type request) (msg_Cursor request) job later e)"

fun send_infos :: "frameWriter \<Rightarrow> ProcessInfo list \<Rightarrow> Encoder \<Rightarrow> Encoder" where
  "send_infos W [] e = snd (Encode W (Message_zero\<lparr>msg_Type := MessageDone\<rparr>) e)"
| "send_infos W (info # infos) e = (case Encode W (Message_zero\<lparr>msg_Type := MessageProcess, msg_Process := Some info\<rparr>) e of
     (Some _, e') \<Rightarrow> e' | (None, e') \<Rightarrow> send_infos W infos e')"

definition handleProcess :: "frameWriter \<Rightarrow> spawnHost \<Rightarrow> gerr option \<Rightarrow> managedProcess list \<Rightarrow> Message \<Rightarrow> processManager \<Rightarrow> Encoder
    \<Rightarrow> processManager \<times> Encoder" where
  "handleProcess W H kill later request m e =
     (if msg_Type request = MessageSpawn then
        (case process_spawn H request m of
           (Inl err, m') \<Rightarrow> (m', processFailure W err e)
         | (Inr info, m') \<Rightarrow> (m', snd (Encode W (Message_zero\<lparr>msg_Type := MessageDone, msg_Process := Some info\<rparr>) e)))
      else if msg_Type request = MessageProcesses then (m, send_infos W (process_list m) e)
      else case process_lookup m (msg_ProcessID request) of
        Inl err \<Rightarrow> (m, processFailure W err e)
      | Inr job \<Rightarrow> if msg_Type request = MessageSignal then
            (case process_signal kill (msg_Signal request) job of
               Some err \<Rightarrow> (m, processFailure W err e)
             | None \<Rightarrow> (m, snd (Encode W (Message_zero\<lparr>msg_Type := MessageDone\<rparr>) e)))
          else (m, snd (streamProcess W request job later e)))"

section \<open>The client of a stream\<close>

record outputState =
  os_Cursor :: "64 word"
  os_Truncated :: bool
  os_ExitCode :: "int option"
  os_stdout :: "byte list"
  os_stderr :: "byte list"

text \<open>The callback of \<open>readProcessOutput\<close>; the two writers take every byte.\<close>

definition receive_output :: "outputState \<Rightarrow> Message \<Rightarrow> gerr option \<times> outputState" where
  "receive_output st m =
     (if msg_Type m = MessageGap then (None, st\<lparr>os_Truncated := True, os_Cursor := msg_Cursor m\<rparr>)
      else if msg_Type m = MessageStderr then (None, st\<lparr>os_stderr := os_stderr st @ msg_Data m, os_Cursor := msg_Cursor m\<rparr>)
      else if msg_Type m = MessageStdout then (None, st\<lparr>os_stdout := os_stdout st @ msg_Data m, os_Cursor := msg_Cursor m\<rparr>)
      else if msg_Type m = MessageDone then
        (case msg_Process m of None \<Rightarrow> (Some (Msg ''guest agent omitted process completion information''), st)
         | Some info \<Rightarrow> (if pi_Error info \<noteq> [] then Some (Msg (pi_Error info)) else None, st\<lparr>os_ExitCode := pi_ExitCode info\<rparr>))
      else (None, st))"

text \<open>What a call reports: a failure of its own side, or the structured failure of the agent.\<close>

datatype callError = CallError gerr | RemoteError (re_Code: string) (re_Message: string)

text \<open>The loop of \<open>exchange\<close> over the frames that arrive; the list ends when the connection does.\<close>

fun exchange_loop :: "('s \<Rightarrow> Message \<Rightarrow> gerr option \<times> 's) \<Rightarrow> 's \<Rightarrow> Message list \<Rightarrow> callError option \<times> 's" where
  "exchange_loop receive st [] = (Some (CallError (Wrap ''read agent response: '' (Msg ''EOF''))), st)"
| "exchange_loop receive st (m # ms) =
     (if msg_Type m = MessageError then (Some (RemoteError (msg_Code m) (msg_Message m)), st)
      else case receive st m of (Some err, st') \<Rightarrow> (Some (CallError err), st')
        | (None, st') \<Rightarrow> if msg_Type m = MessageDone then (None, st') else exchange_loop receive st' ms)"

definition readProcessOutput :: "string \<Rightarrow> 64 word \<Rightarrow> Message list \<Rightarrow> callError option \<times> outputState" where
  "readProcessOutput i after responses =
     (let st = \<lparr>os_Cursor = after, os_Truncated = False, os_ExitCode = None, os_stdout = [], os_stderr = []\<rparr>
      in case ValidateProcessID i of Some e \<Rightarrow> (Some (CallError e), st) | None \<Rightarrow> exchange_loop receive_output st responses)"

end
