(* ===== verification/Agent_Output.thy ===== *)
theory Agent_Output
  imports Agent_Process "HOL-Library.Sublist"
begin

text \<open>
  What the output of a background process becomes on its way to a client. The reference is the history of a job:
  every chunk its command wrote, in order. The ring holds the longest suffix of the history within the two limits,
  and a client that follows a stream to its end either holds the whole output after its cursor or is told that some
  of it is gone.
\<close>

section \<open>The ring is a suffix of the history\<close>

type_synonym chunk = "string \<times> byte list"

definition chunk_frame :: "chunk list \<Rightarrow> nat \<Rightarrow> Message" where
  "chunk_frame h i = Message_zero\<lparr>msg_Type := fst (h ! i), msg_Data := snd (h ! i), msg_Cursor := of_nat (Suc i)\<rparr>"

definition suffix_bytes :: "chunk list \<Rightarrow> nat \<Rightarrow> int" where
  "suffix_bytes h k = int (sum_list (map (\<lambda>c. length (snd c)) (drop k h)))"

definition suffix_fits :: "chunk list \<Rightarrow> nat \<Rightarrow> bool" where
  "suffix_fits h k \<longleftrightarrow> suffix_bytes h k \<le> maxProcessOutputBytes \<and> length h - k \<le> maxProcessOutputFrames"

text \<open>The first chunk of the longest suffix that fits.\<close>

fun first_kept_from :: "chunk list \<Rightarrow> nat \<Rightarrow> nat" where
  "first_kept_from h 0 = 0"
| "first_kept_from h (Suc k) = (if suffix_fits h k then first_kept_from h k else Suc k)"

definition first_kept :: "chunk list \<Rightarrow> nat" where
  "first_kept h = first_kept_from h (length h)"

lemma suffix_bytes_step: "k < length h \<Longrightarrow> suffix_bytes h k = int (length (snd (h ! k))) + suffix_bytes h (Suc k)"
  by (simp add: suffix_bytes_def Cons_nth_drop_Suc [symmetric])

lemma suffix_fits_Suc: "suffix_fits h k \<Longrightarrow> suffix_fits h (Suc k)"
  using suffix_bytes_step [of k h] by (cases "k < length h") (auto simp: suffix_fits_def suffix_bytes_def [of h "Suc k"] suffix_bytes_def [of h k])

lemma suffix_fits_mono: "k \<le> m \<Longrightarrow> suffix_fits h k \<Longrightarrow> suffix_fits h m"
  by (induction rule: dec_induct) (auto intro: suffix_fits_Suc)

lemma suffix_fits_end: "suffix_fits h (length h)"
  by (simp add: suffix_fits_def suffix_bytes_def maxProcessOutputBytes_def)

lemma first_kept_from:
  assumes "suffix_fits h n"
  shows "first_kept_from h n \<le> n \<and> suffix_fits h (first_kept_from h n) \<and> (\<forall>k < first_kept_from h n. \<not> suffix_fits h k)"
  using assms
proof (induction n)
  case (Suc n)
  show ?case
  proof (cases "suffix_fits h n")
    case False
    then have "\<not> suffix_fits h k" if "k \<le> n" for k using suffix_fits_mono [OF that] by blast
    then show ?thesis using False Suc.prems by (simp add: less_Suc_eq_le)
  qed (use Suc.IH in auto)
qed simp

lemma first_kept: "first_kept h \<le> length h" "suffix_fits h (first_kept h)" "k < first_kept h \<Longrightarrow> \<not> suffix_fits h k"
  using first_kept_from [OF suffix_fits_end] by (auto simp: first_kept_def)

lemma first_kept_eq: "k \<le> length h \<Longrightarrow> suffix_fits h k \<Longrightarrow> (0 < k \<Longrightarrow> \<not> suffix_fits h (k - 1)) \<Longrightarrow> first_kept h = k"
proof (rule antisym)
  assume a: "k \<le> length h" "suffix_fits h k" "0 < k \<Longrightarrow> \<not> suffix_fits h (k - 1)"
  show "first_kept h \<le> k" using first_kept(3) a(2) by (meson not_le)
  show "k \<le> first_kept h"
  proof (rule ccontr)
    assume "\<not> k \<le> first_kept h"
    then have "suffix_fits h (k - 1)" using suffix_fits_mono [OF _ first_kept(2), of h "k - 1"] by simp
    then show False using a(3) \<open>\<not> k \<le> first_kept h\<close> by simp
  qed
qed

lemma trim_to_first_kept:
  assumes "k \<le> first_kept h"
  shows "trim_frames (map (chunk_frame h) [k..<length h]) (suffix_bytes h k) t =
    (map (chunk_frame h) [first_kept h..<length h], suffix_bytes h (first_kept h), t \<or> k < first_kept h)"
  using assms
proof (induction "first_kept h - k" arbitrary: k t)
  case 0
  then have k: "k = first_kept h" by simp
  show ?case
  proof (cases "k < length h")
    case True
    then have "map (chunk_frame h) [k..<length h] = chunk_frame h k # map (chunk_frame h) [Suc k..<length h]" by (simp add: upt_conv_Cons)
    moreover have "Suc (length h - Suc k) = length h - k" using True by simp
    ultimately show ?thesis using k True first_kept(2) [of h] by (simp add: suffix_fits_def)
  qed (simp add: k)
next
  case (Suc n)
  then have lt: "k < first_kept h" by simp
  then have len: "k < length h" using first_kept(1) [of h] by simp
  have "maxProcessOutputBytes < suffix_bytes h k \<or> maxProcessOutputFrames < length h - k"
    using first_kept(3) [OF lt] by (auto simp: suffix_fits_def)
  moreover have "map (chunk_frame h) [k..<length h] = chunk_frame h k # map (chunk_frame h) [Suc k..<length h]"
    using len by (simp add: upt_conv_Cons)
  moreover have "suffix_bytes h k - int (length (msg_Data (chunk_frame h k))) = suffix_bytes h (Suc k)"
    by (simp add: suffix_bytes_step [OF len] chunk_frame_def)
  moreover have "Suc (length h - Suc k) = length h - k" using len by simp
  ultimately show ?case using Suc lt by (simp add: suffix_fits_def)
qed

definition sized :: "chunk list \<Rightarrow> bool" where
  "sized h \<longleftrightarrow> list_all (\<lambda>c. length (snd c) \<le> streamChunkSize \<and> (fst c = MessageStdout \<or> fst c = MessageStderr)) h"

text \<open>The relation between a job and its history. The cursors do not wrap.\<close>

definition ring :: "chunk list \<Rightarrow> managedProcess \<Rightarrow> bool" where
  "ring h p \<longleftrightarrow> length h < 2 ^ 64 \<and> sized h \<and> mp_cursor p = of_nat (length h)
     \<and> mp_frames p = map (chunk_frame h) [first_kept h..<length h] \<and> mp_bytes p = suffix_bytes h (first_kept h)
     \<and> (0 < first_kept h \<longrightarrow> pi_OutputTruncated (mp_info p))"

lemma first_kept_snoc: "first_kept h \<le> first_kept (h @ [c])"
proof (rule ccontr)
  assume "\<not> first_kept h \<le> first_kept (h @ [c])"
  then have lt: "first_kept (h @ [c]) < first_kept h" by simp
  then have "first_kept (h @ [c]) \<le> length h" using first_kept(1) [of h] by simp
  then have "suffix_fits h (first_kept (h @ [c]))"
    using first_kept(2) [of "h @ [c]"] by (auto simp: suffix_fits_def suffix_bytes_def)
  then show False using first_kept(3) [OF lt] by simp
qed

lemma ring_append:
  assumes "ring h p" and "length h + 1 < 2 ^ 64" and "length data \<le> streamChunkSize" and "kind = MessageStdout \<or> kind = MessageStderr"
  shows "ring (h @ [(kind, data)]) (process_append kind data p)"
proof -
  let ?h = "h @ [(kind, data)]" and ?k = "first_kept h"
  have k: "?k \<le> length h" by (rule first_kept(1))
  have frames: "mp_frames p @ [Message_zero\<lparr>msg_Type := kind, msg_Data := data, msg_Cursor := mp_cursor p + 1\<rparr>] = map (chunk_frame ?h) [?k..<length ?h]"
    using assms(1) k by (auto simp: ring_def chunk_frame_def nth_append)
  have bytes: "mp_bytes p + int (length data) = suffix_bytes ?h ?k" using assms(1) k by (simp add: ring_def suffix_bytes_def)
  have "process_append kind data p = p\<lparr>mp_cursor := mp_cursor p + 1, mp_frames := map (chunk_frame ?h) [first_kept ?h..<length ?h],
      mp_bytes := suffix_bytes ?h (first_kept ?h), mp_info := (mp_info p)\<lparr>pi_OutputTruncated := pi_OutputTruncated (mp_info p) \<or> ?k < first_kept ?h\<rparr>\<rparr>"
    unfolding process_append_def Let_def frames bytes trim_to_first_kept [OF first_kept_snoc] by simp
  then show ?thesis using assms first_kept_snoc [of h "(kind, data)"] by (auto simp: ring_def sized_def)
qed

lemma write_chunks_concat: "0 < n \<Longrightarrow> concat (write_chunks n data) = data"
  by (induction n data rule: write_chunks.induct) (subst write_chunks.simps, auto)

lemma write_chunks_sizes: "c \<in> set (write_chunks n data) \<Longrightarrow> c \<noteq> [] \<and> length c \<le> n"
  by (induction n data rule: write_chunks.induct) (subst (asm) write_chunks.simps, auto split: if_splits)

text \<open>The life of a job after its start: writes of its command, its exit, and the record of it.\<close>

datatype jobEvent = J_write string "byte list" | J_reap | J_finish waitResult time

fun job_step :: "managedProcess \<Rightarrow> jobEvent \<Rightarrow> managedProcess" where
  "job_step p (J_write kind data) = processOutputWriter_Write kind data p"
| "job_step p J_reap = process_reap p"
| "job_step p (J_finish r now) = process_finish r now p"

definition job_run :: "managedProcess \<Rightarrow> jobEvent list \<Rightarrow> managedProcess" where
  "job_run p evs = foldl job_step p evs"

fun written :: "jobEvent \<Rightarrow> chunk list" where
  "written (J_write kind data) = map (Pair kind) (write_chunks streamChunkSize data)"
| "written J_reap = []"
| "written (J_finish r now) = []"

definition job_history :: "jobEvent list \<Rightarrow> chunk list" where
  "job_history evs = concat (map written evs)"

definition output_events :: "jobEvent list \<Rightarrow> bool" where
  "output_events evs \<longleftrightarrow> list_all (\<lambda>e. case e of J_write kind _ \<Rightarrow> kind = MessageStdout \<or> kind = MessageStderr | _ \<Rightarrow> True) evs"

lemma ring_chunks:
  assumes "ring h p" and "length h + length cs < 2 ^ 64" and "\<And>c. c \<in> set cs \<Longrightarrow> length c \<le> streamChunkSize"
    and "kind = MessageStdout \<or> kind = MessageStderr"
  shows "ring (h @ map (Pair kind) cs) (foldl (\<lambda>p chunk. process_append kind chunk p) p cs)"
  using assms
proof (induction cs arbitrary: h p)
  case (Cons c cs)
  have "ring (h @ [(kind, c)]) (process_append kind c p)" using Cons.prems by (intro ring_append) auto
  from Cons.IH [OF this] Cons.prems show ?case by auto
qed simp

lemma ring_finish: "ring h p \<Longrightarrow> ring h (process_finish r now p)" "ring h p \<Longrightarrow> ring h (process_reap p)"
  by (auto simp: ring_def process_finish_def process_reap_def Let_def split: waitResult.splits)

lemma ring_run:
  assumes "ring h p" and "output_events evs" and "length h + length (job_history evs) < 2 ^ 64"
  shows "ring (h @ job_history evs) (job_run p evs)"
  using assms
proof (induction evs arbitrary: h p)
  case (Cons ev evs)
  have "ring (h @ written ev) (job_step p ev)"
  proof (cases ev)
    case (J_write kind data)
    then show ?thesis using Cons.prems
      by (auto simp: processOutputWriter_Write_def output_events_def job_history_def dest: write_chunks_sizes intro!: ring_chunks)
  qed (simp_all add: Cons.prems ring_finish)
  from Cons.IH [OF this] Cons.prems show ?case by (simp add: job_run_def job_history_def output_events_def)
qed (simp add: job_run_def job_history_def)

lemma ring_new: "ring [] (new_job H request nonce pid)"
  by (simp add: ring_def new_job_def first_kept_def suffix_bytes_def sized_def)

section \<open>One batch\<close>

lemma newest_kept:
  assumes "sized h" and "h \<noteq> []"
  shows "first_kept h < length h"
proof -
  have "snd (last h) = snd (h ! (length h - 1))" using assms(2) by (simp add: last_conv_nth)
  moreover have "length (snd (last h)) \<le> streamChunkSize" using assms by (auto simp: sized_def list_all_iff)
  moreover have "drop (length h - 1) h = [last h]" using assms(2) by (metis append_butlast_last_id append_eq_conv_conj length_butlast)
  ultimately have "suffix_fits h (length h - 1)"
    by (simp add: suffix_fits_def suffix_bytes_def streamChunkSize_def maxProcessOutputBytes_def maxProcessOutputFrames_def)
  then have "first_kept h \<le> length h - 1" using first_kept(3) by (meson not_le)
  then show ?thesis using assms(2) by (cases h) auto
qed

lemma cursor_less: "i < 2 ^ 64 \<Longrightarrow> j < 2 ^ 64 \<Longrightarrow> (of_nat i < (of_nat j :: 64 word)) = (i < j)"
  by (simp add: word_less_nat_alt unat_of_nat take_bit_nat_eq_self)

lemma filter_upt: "filter (\<lambda>i. a \<le> i) [k..<n] = [max k a..<n]"
  by (induction n) (auto simp: max_def)

lemma output_frames:
  assumes "ring h p" and "a \<le> length h"
  shows "fst (process_output p (of_nat a)) = map (chunk_frame h) [max (first_kept h) a..<length h]"
proof -
  have "filter (\<lambda>f. of_nat a < msg_Cursor f) (map (chunk_frame h) [k..<length h]) = map (chunk_frame h) (filter (\<lambda>i. a \<le> i) [k..<length h])" for k
    unfolding filter_map o_def
    by (rule arg_cong [of _ _ "map (chunk_frame h)"], rule filter_cong [OF refl])
      (use assms in \<open>auto simp: chunk_frame_def ring_def cursor_less simp del: of_nat_Suc\<close>)
  then show ?thesis using assms(1) first_kept(1) [of h] by (simp add: process_output_def ring_def filter_upt)
qed

text \<open>A connection on which no write fails.\<close>

abbreviation open_writer :: frameWriter where "open_writer \<equiv> \<lambda>_. None"

lemma Encode_open: "\<not> enc_terminal e \<Longrightarrow> Encode open_writer m e = (None, e\<lparr>enc_sent := enc_sent e @ [m], enc_terminal := terminalMessage (msg_Type m)\<rparr>)"
  by (simp add: Encode_def)

lemma frame_not_terminal: "sized h \<Longrightarrow> i < length h \<Longrightarrow> \<not> terminalMessage (msg_Type (chunk_frame h i))"
  by (auto simp: sized_def list_all_length chunk_frame_def terminalMessage_def)

lemma stream_frames_open:
  assumes "\<And>f. f \<in> set fs \<Longrightarrow> \<not> terminalMessage (msg_Type f)" and "\<not> enc_terminal e"
  shows "stream_frames open_writer after fs e = (Inr (if fs = [] then after else msg_Cursor (last fs)), e\<lparr>enc_sent := enc_sent e @ fs\<rparr>)"
  using assms by (induction fs arbitrary: after e) (auto simp: Encode_open)

text \<open>What one look at a job sends.\<close>

definition batch_messages :: "chunk list \<Rightarrow> nat \<Rightarrow> Message list" where
  "batch_messages h a = (if a < first_kept h then [Message_zero\<lparr>msg_Type := MessageGap, msg_Cursor := of_nat (first_kept h)\<rparr>] else [])
     @ map (chunk_frame h) [max (first_kept h) a..<length h]"

lemma stream_batch_open:
  assumes ring: "ring h p" and a: "a \<le> length h" and e: "\<not> enc_terminal e"
  shows "stream_batch open_writer (of_nat a) (fst (process_output p (of_nat a))) e =
    (Inr (of_nat (length h)), e\<lparr>enc_sent := enc_sent e @ batch_messages h a\<rparr>)"
proof -
  let ?k = "first_kept h" and ?fs = "map (chunk_frame h) [max (first_kept h) a..<length h]"
  have sized: "sized h" and len: "length h < 2 ^ 64" using ring by (simp_all add: ring_def)
  have open_frames: "stream_frames open_writer after ?fs e' = (Inr (if ?fs = [] then after else msg_Cursor (last ?fs)), e'\<lparr>enc_sent := enc_sent e' @ ?fs\<rparr>)"
    if "\<not> enc_terminal e'" for after e'
    by (rule stream_frames_open [OF _ that]) (use frame_not_terminal [OF sized] in auto)
  have last_cursor: "msg_Cursor (last ?fs) = of_nat (length h)" if "?fs \<noteq> []"
  proof -
    have "max ?k a < length h" using that by auto
    then have "last [max ?k a..<length h] = length h - 1" and "0 < length h" by (simp add: last_upt, linarith)
    then show ?thesis using that by (simp add: last_map chunk_frame_def del: of_nat_Suc)
  qed
  show ?thesis
  proof (cases "?fs = []")
    case True
    then have "length h \<le> max ?k a" by auto
    then have "a = length h" and "\<not> a < ?k" using a first_kept(1) [of h] newest_kept [OF sized] by (cases "h = []"; auto simp: max_def split: if_splits)+
    then show ?thesis using open_frames [OF e, of "of_nat a"] True unfolding output_frames [OF ring a] by (simp add: stream_batch_def batch_messages_def)
  next
    case False
    then have lt: "max ?k a < length h" by auto
    have hd: "msg_Cursor (hd ?fs) = of_nat (Suc (max ?k a))" using lt by (simp add: upt_conv_Cons chunk_frame_def del: of_nat_Suc)
    have gap: "(of_nat a + 1 < msg_Cursor (hd ?fs)) = (a < ?k)"
      using cursor_less [of "Suc a" "Suc (max ?k a)"] lt len unfolding hd by (auto simp: max_def add.commute)
    show ?thesis
    proof (cases "a < ?k")
      case True
      then have "msg_Cursor (hd ?fs) - 1 = of_nat ?k" unfolding hd by (simp add: max_def)
      then show ?thesis using True gap False last_cursor open_frames e
        by (simp add: output_frames [OF ring a] stream_batch_def batch_messages_def Encode_open terminalMessage_def Let_def)
    next
      case nogap: False
      then show ?thesis using gap False last_cursor open_frames e
        by (simp add: output_frames [OF ring a] stream_batch_def batch_messages_def)
    qed
  qed
qed

section \<open>The client's view\<close>

definition collect :: "string \<Rightarrow> chunk list \<Rightarrow> nat list \<Rightarrow> byte list" where
  "collect kind h is = concat (map (\<lambda>i. snd (h ! i)) (filter (\<lambda>i. fst (h ! i) = kind) is))"

lemma collect_append: "collect kind h (is @ js) = collect kind h is @ collect kind h js"
  by (simp add: collect_def)

lemma client_frames:
  assumes "sized h" and "\<And>i. i \<in> set is \<Longrightarrow> i < length h"
  shows "exchange_loop receive_output st (map (chunk_frame h) is @ ms) = exchange_loop receive_output
    (st\<lparr>os_stdout := os_stdout st @ collect MessageStdout h is, os_stderr := os_stderr st @ collect MessageStderr h is,
        os_Cursor := if is = [] then os_Cursor st else of_nat (Suc (last is))\<rparr>) ms"
  using assms(2)
proof (induction "is" arbitrary: st)
  case (Cons i "is")
  then have "fst (h ! i) = MessageStdout \<or> fst (h ! i) = MessageStderr" using assms(1) by (simp add: sized_def list_all_length)
  then show ?case using Cons by (auto simp: chunk_frame_def receive_output_def collect_def simp del: of_nat_Suc)
qed (simp add: collect_def)

lemma client_batch:
  assumes ring: "ring h p" and a: "a \<le> length h" and st: "os_Cursor st = of_nat a"
  shows "exchange_loop receive_output st (batch_messages h a @ ms) = exchange_loop receive_output
    (st\<lparr>os_stdout := os_stdout st @ collect MessageStdout h [max (first_kept h) a..<length h],
        os_stderr := os_stderr st @ collect MessageStderr h [max (first_kept h) a..<length h],
        os_Truncated := (os_Truncated st \<or> a < first_kept h), os_Cursor := of_nat (length h)\<rparr>) ms"
proof -
  have sized: "sized h" using ring by (simp add: ring_def)
  have frames: "exchange_loop receive_output st' (map (chunk_frame h) [max (first_kept h) a..<length h] @ ms) = exchange_loop receive_output
    (st'\<lparr>os_stdout := os_stdout st' @ collect MessageStdout h [max (first_kept h) a..<length h],
        os_stderr := os_stderr st' @ collect MessageStderr h [max (first_kept h) a..<length h],
        os_Cursor := of_nat (length h)\<rparr>) ms" if "max (first_kept h) a < length h \<or> os_Cursor st' = of_nat (length h)" for st'
  proof (cases "max (first_kept h) a < length h")
    case True
    then have "Suc (last [max (first_kept h) a..<length h]) = length h" by (cases "length h") (auto simp: last_upt)
    then show ?thesis using True by (subst client_frames [OF sized]) (auto simp del: of_nat_Suc)
  next
    case False
    then have none: "[max (first_kept h) a..<length h] = []" and "os_Cursor st' = of_nat (length h)" using that by auto
    then show ?thesis unfolding none by (cases st') (simp add: collect_def)
  qed
  show ?thesis
  proof (cases "a < first_kept h")
    case True
    then have "max (first_kept h) a < length h" using newest_kept [OF sized] first_kept(1) [of h] by (cases "h = []") (auto simp: max_def)
    note step = frames [OF disjI1 [OF this], of "st\<lparr>os_Truncated := True, os_Cursor := of_nat (first_kept h)\<rparr>"]
    have "max (first_kept h) a = first_kept h" using True by simp
    then show ?thesis using True step by (cases st) (simp add: batch_messages_def receive_output_def)
  next
    case False
    then have "max (first_kept h) a < length h \<or> a = length h" using a by (auto simp: max_def)
    then show ?thesis using False st frames [of st] by (auto simp: batch_messages_def)
  qed
qed

text \<open>The states a stream finds belong to growing histories.\<close>

fun grows :: "chunk list \<Rightarrow> (chunk list \<times> managedProcess) list \<Rightarrow> bool" where
  "grows h [] \<longleftrightarrow> True"
| "grows h ((h', p') # later) \<longleftrightarrow> prefix h h' \<and> ring h' p' \<and> grows h' later"

text \<open>What the client holds at the end: the chunks \<open>is\<close> of the history after its cursor, in order, and whether some are
  missing.\<close>

definition client_holds :: "chunk list \<Rightarrow> nat \<Rightarrow> nat list \<Rightarrow> ProcessInfo \<Rightarrow> outputState \<Rightarrow> callError option \<times> outputState" where
  "client_holds h a is info st = (if pi_Error info \<noteq> [] then Some (CallError (Msg (pi_Error info))) else None,
     st\<lparr>os_stdout := os_stdout st @ collect MessageStdout h is, os_stderr := os_stderr st @ collect MessageStderr h is,
        os_Truncated := (os_Truncated st \<or> is \<noteq> [a..<length h]), os_Cursor := of_nat (length h), os_ExitCode := pi_ExitCode info\<rparr>)"

lemma collect_prefix: "prefix h h' \<Longrightarrow> (\<And>i. i \<in> set is \<Longrightarrow> i < length h) \<Longrightarrow> collect kind h' is = collect kind h is"
  unfolding collect_def prefix_def
  by (elim exE, rule arg_cong [of _ _ concat]) (auto simp: nth_append intro!: map_cong filter_cong)

text \<open>A batch is complete exactly if nothing after the cursor was dropped.\<close>

lemma batch_complete:
  assumes "ring h p" and "a \<le> length h" and "length is \<le> length js"
  shows "([max (first_kept h) a..<length h] @ is = [a..<length h] @ js) = (\<not> a < first_kept h \<and> is = js)"
proof (cases "a < first_kept h")
  case True
  moreover have "first_kept h < length h" using True newest_kept [of h] first_kept(1) [of h] assms(1) by (cases "h = []") (auto simp: ring_def)
  ultimately have "length ([max (first_kept h) a..<length h] @ is) \<noteq> length ([a..<length h] @ js)" using assms(3) by simp
  then show ?thesis using True by metis
qed (simp add: max_def)

lemma batch_subseq: "subseq [max k a..<n] [a..<n]"
proof -
  have "[a..<n] = [a..<max k a] @ [max k a..<n]" if "max k a \<le> n"
    using that upt_add_eq_append [of a "max k a" "n - max k a"] by simp
  then have "suffix [max k a..<n] [a..<n]" by (cases "max k a \<le> n") (auto simp: suffix_def)
  then show ?thesis by (rule suffix_imp_subseq)
qed

lemma stream_look:
  assumes "ring h p" and "a \<le> length h" and "\<not> enc_terminal e"
  shows "stream_batch open_writer (of_nat a) (map (chunk_frame h) [max (first_kept h) a..<length h]) e =
      (Inr (of_nat (length h)), e\<lparr>enc_sent := enc_sent e @ batch_messages h a\<rparr>)"
    and "process_output p (of_nat a) = (map (chunk_frame h) [max (first_kept h) a..<length h], mp_info p, mp_cursor p)"
  using stream_batch_open [OF assms] output_frames [OF assms(1,2)] by (simp_all add: process_output_def)

lemma stream_done:
  assumes "ring h p" and "a \<le> length h" and "\<not> enc_terminal e" and "kind = MessageLogs \<or> \<not> pi_Running (mp_info p)"
    and "stream_loop open_writer kind (of_nat a) p later e = (None, e')"
  shows "\<exists>msgs is. enc_sent e' = enc_sent e @ msgs \<and> subseq is [a..<length h]
    \<and> (\<forall>st. os_Cursor st = of_nat a \<longrightarrow> exchange_loop receive_output st msgs = client_holds h a is (mp_info p) st)"
proof -
  let ?is = "[max (first_kept h) a..<length h]"
  let ?done = "Message_zero\<lparr>msg_Type := MessageDone, msg_Cursor := of_nat (length h), msg_Process := Some (mp_info p)\<rparr>"
  have "enc_sent e' = enc_sent e @ batch_messages h a @ [?done]"
    using assms(3-5) stream_look [OF assms(1-3)] by (auto simp: stream_loop.simps [of _ _ _ p] Encode_open split: prod.splits)
  moreover have "exchange_loop receive_output st (batch_messages h a @ [?done]) = client_holds h a ?is (mp_info p) st" if "os_Cursor st = of_nat a" for st
    using batch_complete [OF assms(1,2), of "[]" "[]"] by (subst client_batch [OF assms(1,2) that]) (auto simp: receive_output_def client_holds_def)
  ultimately show ?thesis using batch_subseq by blast
qed

lemma stream_finished:
  assumes "ring h p" and "a \<le> length h" and "\<not> enc_terminal e" and "kind = MessageLogs \<or> \<not> pi_Running (mp_info p)"
    and "stream_loop open_writer kind (of_nat a) p (map snd later) e = (None, e')"
  shows "\<exists>msgs hN pN is. enc_sent e' = enc_sent e @ msgs \<and> (hN, pN) \<in> set ((h, p) # later) \<and> prefix h hN \<and> subseq is [a..<length hN]
    \<and> (kind = MessageLogs \<or> \<not> pi_Running (mp_info pN))
    \<and> (\<forall>st. os_Cursor st = of_nat a \<longrightarrow> exchange_loop receive_output st msgs = client_holds hN a is (mp_info pN) st)"
proof -
  from stream_done [OF assms] obtain msgs "is" where "enc_sent e' = enc_sent e @ msgs" "subseq is [a..<length h]"
    "\<forall>st. os_Cursor st = of_nat a \<longrightarrow> exchange_loop receive_output st msgs = client_holds h a is (mp_info p) st" by blast
  then show ?thesis using assms(4) by (intro exI [of _ msgs] exI [of _ h] exI [of _ p] exI [of _ "is"]) simp
qed

lemma stream_loop_client:
  assumes "ring h p" and "a \<le> length h" and "grows h later" and "\<not> enc_terminal e"
    and "stream_loop open_writer kind (of_nat a) p (map snd later) e = (None, e')"
  shows "\<exists>msgs hN pN is. enc_sent e' = enc_sent e @ msgs \<and> (hN, pN) \<in> set ((h, p) # later) \<and> prefix h hN \<and> subseq is [a..<length hN]
    \<and> (kind = MessageLogs \<or> \<not> pi_Running (mp_info pN))
    \<and> (\<forall>st. os_Cursor st = of_nat a \<longrightarrow> exchange_loop receive_output st msgs = client_holds hN a is (mp_info pN) st)"
  using assms
proof (induction later arbitrary: h p a e)
  case Nil
  then have "kind = MessageLogs \<or> \<not> pi_Running (mp_info p)"
    by (auto simp: stream_loop.simps [of _ _ _ p] stream_look [OF Nil.prems(1,2,4)] split: if_splits)
  then show ?case using stream_finished [OF Nil.prems(1,2,4) _ Nil.prems(5)] by simp
next
  case (Cons hp later)
  obtain h' p' where hp: "hp = (h', p')" by (cases hp)
  let ?e = "e\<lparr>enc_sent := enc_sent e @ batch_messages h a\<rparr>" and ?is = "[max (first_kept h) a..<length h]"
  show ?case
  proof (cases "kind = MessageLogs \<or> \<not> pi_Running (mp_info p)")
    case True
    show ?thesis by (rule stream_finished [OF Cons.prems(1,2,4) True Cons.prems(5)])
  next
    case False
    from Cons.prems(3) have pre: "prefix h h'" and ring': "ring h' p'" and grows': "grows h' later" by (simp_all add: hp)
    then have len: "length h \<le> length h'" by (simp add: prefix_length_le)
    have "stream_loop open_writer kind (of_nat (length h)) p' (map snd later) ?e = (None, e')"
      using Cons.prems(5) False by (simp add: stream_loop.simps [of _ _ _ p] stream_look [OF Cons.prems(1,2,4)] hp)
    with Cons.IH [OF ring' len grows', of ?e] Cons.prems(4) obtain msgs hN pN js where IH: "enc_sent e' = enc_sent ?e @ msgs"
      "(hN, pN) \<in> set ((h', p') # later)" "prefix h' hN" "subseq js [length h..<length hN]" "kind = MessageLogs \<or> \<not> pi_Running (mp_info pN)"
      "\<forall>st. os_Cursor st = of_nat (length h) \<longrightarrow> exchange_loop receive_output st msgs = client_holds hN (length h) js (mp_info pN) st" by auto
    have pre': "prefix h hN" using pre IH(3) by (rule prefix_order.trans)
    then have split: "[a..<length hN] = [a..<length h] @ [length h..<length hN]"
      using Cons.prems(2) prefix_length_le [OF pre'] upt_add_eq_append [of a "length h" "length hN - length h"] by simp
    have "subseq (?is @ js) [a..<length hN]" unfolding split by (rule list_emb_append_mono [OF batch_subseq IH(4)])
    moreover have "exchange_loop receive_output st (batch_messages h a @ msgs) = client_holds hN a (?is @ js) (mp_info pN) st"
      if "os_Cursor st = of_nat a" for st
    proof -
      have "length js \<le> length [length h..<length hN]" by (rule list_emb_length [OF IH(4)])
      then have "(?is @ js \<noteq> [a..<length hN]) = (a < first_kept h \<or> js \<noteq> [length h..<length hN])"
        using batch_complete [OF Cons.prems(1,2), of js "[length h..<length hN]"] unfolding split by blast
      moreover have "collect k hN ?is = collect k h ?is" for k by (rule collect_prefix [OF pre']) auto
      ultimately show ?thesis
        by (subst client_batch [OF Cons.prems(1,2) that]) (simp add: IH(6) client_holds_def collect_append disj_assoc)
    qed
    ultimately show ?thesis using IH(1,2,5) pre' hp
      by (intro exI [of _ "batch_messages h a @ msgs"] exI [of _ hN] exI [of _ pN] exI [of _ "?is @ js"]) auto
  qed
qed

section \<open>Output theorems\<close>

definition bytes_written :: "string \<Rightarrow> jobEvent list \<Rightarrow> byte list" where
  "bytes_written kind evs = concat (map (\<lambda>e. case e of J_write k data \<Rightarrow> if k = kind then data else [] | _ \<Rightarrow> []) evs)"

lemma collect_all: "collect kind h [0..<length h] = concat (map snd (filter (\<lambda>c. fst c = kind) h))"
proof -
  have "map (\<lambda>i. snd (h ! i)) (filter (\<lambda>i. fst (h ! i) = kind) [0..<length h]) = map snd (filter (\<lambda>c. fst c = kind) (map ((!) h) [0..<length h]))"
    by (simp add: filter_map o_def)
  then show ?thesis by (simp add: collect_def map_nth)
qed

lemma history_bytes: "concat (map snd (filter (\<lambda>c. fst c = kind) (job_history evs))) = bytes_written kind evs"
proof (induction evs)
  case (Cons e evs)
  have "concat (map snd (filter (\<lambda>c. fst c = kind) (map (Pair k) cs))) = (if k = kind then concat cs else [])" for k :: string and cs :: "byte list list"
    by (induction cs) auto
  then show ?case using Cons write_chunks_concat [of streamChunkSize]
    by (cases e) (auto simp: job_history_def bytes_written_def streamChunkSize_def)
qed (simp add: job_history_def bytes_written_def)

text \<open>C14. After any writes of a command and its end, the ring of the job is the longest suffix of the written chunks within
  256 KiB and 256 frames, numbered from one; a job that lost a chunk says so. The chunks are the written bytes.\<close>

theorem ring_is_longest_suffix:
  assumes "output_events evs" and "length (job_history evs) < 2 ^ 64"
  shows "let h = job_history evs; p = job_run (new_job H request nonce pid) evs in
    mp_frames p = map (chunk_frame h) [first_kept h..<length h] \<and> suffix_fits h (first_kept h) \<and> (\<forall>k. suffix_fits h k \<longrightarrow> first_kept h \<le> k)
    \<and> mp_bytes p \<le> maxProcessOutputBytes \<and> length (mp_frames p) \<le> maxProcessOutputFrames
    \<and> (mp_frames p \<noteq> map (chunk_frame h) [0..<length h] \<longrightarrow> pi_OutputTruncated (mp_info p))
    \<and> (\<forall>kind. collect kind h [0..<length h] = bytes_written kind evs)"
proof -
  let ?h = "job_history evs" and ?p = "job_run (new_job H request nonce pid) evs"
  have ring: "ring ?h ?p" using ring_run [OF ring_new, of evs H request nonce pid] assms by simp
  have "suffix_fits ?h k \<Longrightarrow> first_kept ?h \<le> k" for k using first_kept(3) [of k ?h] by (meson not_le)
  then show ?thesis using ring first_kept(2) [of ?h]
    by (auto simp: ring_def Let_def suffix_fits_def collect_all history_bytes)
qed

text \<open>The states of a job at the looks of a stream: events happen in between.\<close>

fun later_states :: "managedProcess \<Rightarrow> jobEvent list list \<Rightarrow> managedProcess list" where
  "later_states p [] = []"
| "later_states p (evs # evss) = job_run p evs # later_states (job_run p evs) evss"

fun later_histories :: "chunk list \<Rightarrow> managedProcess \<Rightarrow> jobEvent list list \<Rightarrow> (chunk list \<times> managedProcess) list" where
  "later_histories h p [] = []"
| "later_histories h p (evs # evss) = (h @ job_history evs, job_run p evs) # later_histories (h @ job_history evs) (job_run p evs) evss"

lemma later_states_histories: "later_states p evss = map snd (later_histories h p evss)"
  by (induction evss arbitrary: h p) auto

lemma later_grows:
  assumes "ring h p" and "list_all output_events evss" and "length h + length (job_history (concat evss)) < 2 ^ 64"
  shows "grows h (later_histories h p evss)"
  using assms
proof (induction evss arbitrary: h p)
  case (Cons evs evss)
  have "ring (h @ job_history evs) (job_run p evs)" using Cons.prems by (intro ring_run) (auto simp: job_history_def)
  with Cons show ?case by (simp add: job_history_def)
qed simp

lemma later_member:
  "(h', p') \<in> set (later_histories h p evss) \<Longrightarrow> \<exists>n. h' = h @ job_history (concat (take n evss)) \<and> p' = job_run p (concat (take n evss)) \<and> 0 < n \<and> n \<le> length evss"
proof (induction evss arbitrary: h p)
  case (Cons evs evss)
  show ?case
  proof (cases "(h', p') = (h @ job_history evs, job_run p evs)")
    case True
    then show ?thesis by (intro exI [of _ 1]) simp
  next
    case False
    with Cons.prems have "(h', p') \<in> set (later_histories (h @ job_history evs) (job_run p evs) evss)" by auto
    from Cons.IH [OF this] obtain n where "h' = (h @ job_history evs) @ job_history (concat (take n evss))"
      "p' = job_run (job_run p evs) (concat (take n evss))" "n \<le> length evss" by blast
    then show ?thesis by (intro exI [of _ "Suc n"]) (simp add: job_history_def job_run_def)
  qed
qed simp

text \<open>C13. A client that follows a process to its end over a connection without write failures. The stream looks at the job
  after some writes, sends what is new, and looks again after more of them. Whatever the ring dropped in between, the
  client ends with output that is a selection, in order and without repetition, of the chunks written after its cursor;
  it reports truncation exactly if a chunk is missing; otherwise its two streams are precisely the bytes the command
  wrote after the cursor, and its cursor and exit code are those of the finished job.\<close>

theorem stream_delivers_output:
  assumes "p0 = job_run (new_job H request0 nonce pid) evs0" and "list_all output_events (evs0 # evss)"
    and "length (job_history (concat (evs0 # evss))) < 2 ^ 64" and "a \<le> length (job_history evs0)"
    and "msg_Type request = MessageAttach" and "msg_Cursor request = of_nat a" and "ValidateProcessID i = None"
    and "streamProcess open_writer request p0 (later_states p0 evss) \<lparr>enc_terminal = False, enc_sent = []\<rparr> = (None, e)"
  shows "\<exists>n is. let evs = concat (evs0 # take n evss); h = job_history evs; p = job_run (new_job H request0 nonce pid) evs;
      r = readProcessOutput i (of_nat a) (enc_sent e) in
    \<not> pi_Running (mp_info p) \<and> subseq is [a..<length h]
    \<and> os_stdout (snd r) = collect MessageStdout h is \<and> os_stderr (snd r) = collect MessageStderr h is
    \<and> (os_Truncated (snd r) \<longleftrightarrow> is \<noteq> [a..<length h])
    \<and> os_Cursor (snd r) = of_nat (length h) \<and> os_ExitCode (snd r) = pi_ExitCode (mp_info p) \<and> (fst r = None \<longleftrightarrow> pi_Error (mp_info p) = [])"
proof -
  let ?h0 = "job_history evs0" and ?new = "new_job H request0 nonce pid"
  have len: "length ?h0 + length (job_history (concat evss)) < 2 ^ 64" using assms(3) by (simp add: job_history_def)
  have ring: "ring ?h0 p0" using ring_run [OF ring_new, of evs0 H request0 nonce pid] assms(1,2) len by simp
  have grows: "grows ?h0 (later_histories ?h0 p0 evss)" using later_grows [OF ring] assms(2) len by simp
  have "\<not> mp_cursor p0 < msg_Cursor request" using ring assms(4,6) cursor_less [of "length ?h0" a] by (auto simp: ring_def)
  then have "stream_loop open_writer MessageAttach (of_nat a) p0 (map snd (later_histories ?h0 p0 evss)) \<lparr>enc_terminal = False, enc_sent = []\<rparr> = (None, e)"
    using assms(5,6,8) later_states_histories [of p0 evss ?h0] by (simp add: streamProcess_def)
  from stream_loop_client [OF ring assms(4) grows _ this] obtain hN pN "is" where fin: "(hN, pN) \<in> set ((?h0, p0) # later_histories ?h0 p0 evss)"
    "subseq is [a..<length hN]" "\<not> pi_Running (mp_info pN)"
    and client: "\<forall>st. os_Cursor st = of_nat a \<longrightarrow> exchange_loop receive_output st (enc_sent e) = client_holds hN a is (mp_info pN) st" by auto
  obtain n where "hN = ?h0 @ job_history (concat (take n evss))" "pN = job_run p0 (concat (take n evss))"
    using fin(1) later_member [of hN pN ?h0 p0 evss] by (cases "(hN, pN) = (?h0, p0)") (auto simp: job_history_def job_run_def intro: that [of 0])
  then have n: "hN = job_history (concat (evs0 # take n evss))" "pN = job_run ?new (concat (evs0 # take n evss))"
    using assms(1) by (simp_all add: job_history_def job_run_def)
  have "readProcessOutput i (of_nat a) (enc_sent e) = client_holds hN a is (mp_info pN)
      \<lparr>os_Cursor = of_nat a, os_Truncated = False, os_ExitCode = None, os_stdout = [], os_stderr = []\<rparr>"
    using client assms(7) by (simp add: readProcessOutput_def)
  then show ?thesis using fin(2,3) by (intro exI [of _ n] exI [of _ "is"]) (simp add: Let_def client_holds_def n)
qed

section \<open>A sample command\<close>

definition sample_spawn :: spawnHost where
  "sample_spawn = \<lparr>sh_nonce = Inr (replicate 16 171), sh_prepare = None, sh_start = Inr 42, sh_now = 5\<rparr>"

definition sample_request :: Message where
  "sample_request = Message_zero\<lparr>msg_Type := MessageSpawn, msg_Argv := [''echo'', ''hi'']\<rparr>"

definition sample_output :: "jobEvent list" where
  "sample_output = [J_write MessageStdout [104, 105], J_reap, J_finish W_ok 9]"

definition sample_job :: managedProcess where
  "sample_job = job_run (new_job sample_spawn sample_request (replicate 16 171) 42) sample_output"

definition sample_attach :: Message where
  "sample_attach = Message_zero\<lparr>msg_Type := MessageAttach, msg_Cursor := 0\<rparr>"

lemma sample_history: "job_history sample_output = [(MessageStdout, [104, 105])]"
  by (simp add: job_history_def sample_output_def write_chunks.simps streamChunkSize_def)

lemma sample_events: "output_events sample_output"
  by (simp add: sample_output_def output_events_def)

lemma sample_kept: "first_kept [(MessageStdout, [104, 105 :: byte])] = 0"
  by (simp add: first_kept_def suffix_fits_def suffix_bytes_def maxProcessOutputBytes_def maxProcessOutputFrames_def)

lemma sample_handle: "ValidateProcessID (EncodeToString (replicate 16 171)) = None"
  by (simp add: ValidateProcessID_def first_error_def check_def)

theorem ring_is_longest_suffix_witness:
  "map msg_Data (mp_frames sample_job) = [[104, 105]] \<and> mp_bytes sample_job \<le> maxProcessOutputBytes"
proof -
  have "length (job_history sample_output) < 2 ^ 64" by (simp add: sample_history)
  from ring_is_longest_suffix [OF sample_events this, of sample_spawn sample_request "replicate 16 171" 42]
  show ?thesis by (simp add: Let_def sample_history sample_kept chunk_frame_def sample_job_def [symmetric])
qed

lemma sample_job_eval: "sample_job = \<lparr>mp_exited = True, mp_info = (mp_info (new_job sample_spawn sample_request (replicate 16 171) 42))
    \<lparr>pi_Running := False, pi_ExitCode := Some 0, pi_ExitedAt := Some 9\<rparr>,
    mp_frames = [Message_zero\<lparr>msg_Type := MessageStdout, msg_Data := [104, 105], msg_Cursor := 1\<rparr>], mp_bytes = 2, mp_cursor = 1\<rparr>"
  by (simp add: sample_job_def job_run_def sample_output_def new_job_def processOutputWriter_Write_def write_chunks.simps streamChunkSize_def
      process_append_def maxProcessOutputBytes_def maxProcessOutputFrames_def process_reap_def process_finish_def wait_code_def)

lemma sample_stream: "\<exists>e. streamProcess open_writer sample_attach sample_job (later_states sample_job []) \<lparr>enc_terminal = False, enc_sent = []\<rparr> = (None, e)"
  by (simp add: streamProcess_def sample_attach_def sample_job_eval stream_loop.simps process_output_def stream_batch_def Encode_def
      terminalMessage_def Message_zero_def new_job_def)

theorem stream_delivers_output_witness:
  "\<exists>e is. streamProcess open_writer sample_attach sample_job [] \<lparr>enc_terminal = False, enc_sent = []\<rparr> = (None, e)
    \<and> (os_Truncated (snd (readProcessOutput (EncodeToString (replicate 16 171)) 0 (enc_sent e))) \<longleftrightarrow> is \<noteq> [0])
    \<and> os_ExitCode (snd (readProcessOutput (EncodeToString (replicate 16 171)) 0 (enc_sent e))) = Some 0"
proof -
  obtain e where e: "streamProcess open_writer sample_attach sample_job (later_states sample_job []) \<lparr>enc_terminal = False, enc_sent = []\<rparr> = (None, e)"
    using sample_stream by blast
  have "list_all output_events [sample_output]" "length (job_history (concat [sample_output])) < 2 ^ 64" "msg_Type sample_attach = MessageAttach"
    "msg_Cursor sample_attach = of_nat 0" by (simp_all add: sample_events sample_history sample_attach_def)
  from stream_delivers_output [OF sample_job_def this(1,2) le0 this(3,4) sample_handle e]
  show ?thesis using e by (auto simp: Let_def sample_history sample_job_eval sample_job_def [symmetric])
qed

end
