(* ===== verification/Agent_Table.thy ===== *)
theory Agent_Table
  imports Agent_Output
begin

text \<open>
  The table of background processes: its bounds, that admission never drops a running command, and which record it
  drops instead. The steps are the operations of the agent on the table, in any order.
\<close>

section \<open>Admission\<close>

definition running_jobs :: "managedProcess gomap \<Rightarrow> nat" where
  "running_jobs js = length (filter (\<lambda>(_, job). pi_Running (mp_info job)) js)"

text \<open>Older: by exit time, then by handle.\<close>

definition older :: "string \<times> time \<Rightarrow> string \<times> time \<Rightarrow> bool" where
  "older a b \<longleftrightarrow> snd a < snd b \<or> snd a = snd b \<and> fst a \<le> fst b"

definition completed :: "managedProcess gomap \<Rightarrow> (string \<times> time) set" where
  "completed js = {(i, the (pi_ExitedAt (mp_info job))) |i job. (i, job) \<in> set js \<and> \<not> pi_Running (mp_info job)}"

lemma completed_simps [simp]:
  "completed [] = {}"
  "completed ((i, job) # js) = (if pi_Running (mp_info job) then completed js else insert (i, the (pi_ExitedAt (mp_info job))) (completed js))"
  by (auto simp: completed_def)

lemma older_refl: "older a a" and older_trans: "older a b \<Longrightarrow> older b c \<Longrightarrow> older a c" and older_total: "older a b \<or> older b a"
  by (auto simp: older_def)

lemma admit_scan_spec:
  assumes "\<And>i job. (i, job) \<in> set js \<Longrightarrow> i \<noteq> []" and "\<And>o' t. oldest = Some (o', t) \<Longrightarrow> o' \<noteq> []"
  shows "fst (admit_scan r oldest js) = r + running_jobs js
    \<and> (snd (admit_scan r oldest js) = None \<longleftrightarrow> oldest = None \<and> completed js = {})
    \<and> (\<forall>x. snd (admit_scan r oldest js) = Some x \<longrightarrow> x \<in> set_option oldest \<union> completed js \<and> (\<forall>y \<in> set_option oldest \<union> completed js. older x y))"
  using assms
proof (induction js arbitrary: r oldest)
  case Nil
  then show ?case by (auto simp: running_jobs_def older_refl)
next
  case (Cons ij js)
  obtain i job where ij: "ij = (i, job)" by (cases ij)
  show ?case
  proof (cases "pi_Running (mp_info job)")
    case True
    moreover have "i \<noteq> []" if "(i, job) \<in> set js" for i job using Cons.prems(1) [of i job] that by simp
    ultimately show ?thesis using Cons.IH [of oldest "r + 1"] Cons.prems(2) by (simp add: ij running_jobs_def)
  next
    case False
    let ?t = "the (pi_ExitedAt (mp_info job))"
    define o' where "o' = (case oldest of None \<Rightarrow> Some (i, ?t)
      | Some (oi, ot) \<Rightarrow> if oi = [] \<or> ?t < ot \<or> ?t = ot \<and> i < oi then Some (i, ?t) else oldest)"
    have step: "admit_scan r oldest (ij # js) = admit_scan r o' js" using False by (simp add: ij o'_def Let_def)
    have "i \<noteq> []" using Cons.prems(1) ij by auto
    then have ne: "o' = Some (oi, ot) \<Longrightarrow> oi \<noteq> []" for oi ot using Cons.prems(2) by (auto simp: o'_def split: option.splits if_splits)
    have "o' \<noteq> None" by (auto simp: o'_def split: option.splits)
    then obtain x where x: "o' = Some x" by blast
    have low: "x \<in> insert (i, ?t) (set_option oldest)" "\<forall>y \<in> insert (i, ?t) (set_option oldest). older x y"
      using x Cons.prems(2) by (auto simp: o'_def older_def split: option.splits if_splits)
    have IH: "fst (admit_scan r o' js) = r + running_jobs js \<and> (snd (admit_scan r o' js) = None \<longleftrightarrow> o' = None \<and> completed js = {})
      \<and> (\<forall>x. snd (admit_scan r o' js) = Some x \<longrightarrow> x \<in> set_option o' \<union> completed js \<and> (\<forall>y \<in> set_option o' \<union> completed js. older x y))"
      using Cons.prems(1) ne by (intro Cons.IH) auto
    have "running_jobs (ij # js) = running_jobs js" using False by (simp add: ij running_jobs_def)
    moreover have "z \<in> set_option oldest \<union> completed (ij # js) \<and> (\<forall>y \<in> set_option oldest \<union> completed (ij # js). older z y)"
      if "snd (admit_scan r o' js) = Some z" for z
    proof -
      have z: "z \<in> insert x (completed js)" "\<forall>y \<in> insert x (completed js). older z y" using conjunct2 [OF conjunct2 [OF IH], rule_format, OF that] x by simp_all
      then have "older z y" if "y \<in> insert (i, ?t) (set_option oldest)" for y using low(2) that older_trans [of z x y] by blast
      then show ?thesis using z low(1) False by (auto simp: ij)
    qed
    ultimately show ?thesis using IH x unfolding step by (auto simp: ij False)
  qed
qed

section \<open>The table over time\<close>

definition job_ok :: "string \<Rightarrow> managedProcess \<Rightarrow> bool" where
  "job_ok i job \<longleftrightarrow> i \<noteq> [] \<and> pi_ID (mp_info job) = i \<and> (pi_Running (mp_info job) \<or> pi_ExitedAt (mp_info job) \<noteq> None)"

text \<open>Every job is stored under its handle, a completed one has an exit time, and the limits hold.\<close>

definition table_ok :: "processManager \<Rightarrow> bool" where
  "table_ok m \<longleftrightarrow> distinct (map fst (pm_jobs m)) \<and> length (pm_jobs m) \<le> maxRetainedProcesses \<and> running_jobs (pm_jobs m) \<le> maxRunningProcesses
     \<and> list_all (\<lambda>(i, job). job_ok i job) (pm_jobs m)"

text \<open>A handle that is not in use: sixteen random bytes.\<close>

definition fresh_handle :: "spawnHost \<Rightarrow> processManager \<Rightarrow> bool" where
  "fresh_handle H m = (case sh_nonce H of Inl _ \<Rightarrow> True | Inr nonce \<Rightarrow> nonce \<noteq> [] \<and> map_of (pm_jobs m) (EncodeToString nonce) = None)"

inductive table_step :: "processManager \<Rightarrow> processManager \<Rightarrow> bool" where
  spawned: "process_spawn H request m = (r, m') \<Longrightarrow> fresh_handle H m \<Longrightarrow> table_step m m'"
| job_event: "map_of (pm_jobs m) i = Some job \<Longrightarrow> pi_Running (mp_info job) \<or> (\<exists>kind data. ev = J_write kind data) \<Longrightarrow>
    table_step m (m\<lparr>pm_jobs := AList.update i (job_step job ev) (pm_jobs m)\<rparr>)"
| closed: "process_close kill m = (signals, m') \<Longrightarrow> table_step m m'"

inductive_cases table_stepE: "table_step m m'"

definition empty_table :: processManager where
  "empty_table = \<lparr>pm_jobs = [], pm_closed = False\<rparr>"

lemma length_update: "length (AList.update k v al) = (if k \<in> fst ` set al then length al else Suc (length al))"
  by (induction al) auto

lemma delete_absent: "k \<notin> fst ` set al \<Longrightarrow> AList.delete k al = al"
  by (induction al) (auto simp: AList.delete_eq)

lemma length_delete: "distinct (map fst al) \<Longrightarrow> k \<in> fst ` set al \<Longrightarrow> Suc (length (AList.delete k al)) = length al"
proof (induction al)
  case (Cons x al)
  then show ?case using delete_absent [of k al] by (cases "fst x = k") (auto simp: AList.delete_eq split_beta)
qed simp

lemma running_delete: "running_jobs (AList.delete k al) \<le> running_jobs al"
  by (induction al) (auto simp: running_jobs_def AList.delete_eq)

lemma running_update_new: "k \<notin> fst ` set al \<Longrightarrow> running_jobs (AList.update k v al) = running_jobs al + of_bool (pi_Running (mp_info v))"
  by (induction al) (auto simp: running_jobs_def)

lemma running_update_old:
  "map_of al k = Some w \<Longrightarrow> (pi_Running (mp_info v) \<Longrightarrow> pi_Running (mp_info w)) \<Longrightarrow> running_jobs (AList.update k v al) \<le> running_jobs al"
  by (induction al) (auto simp: running_jobs_def split: if_splits)

lemma set_update: "distinct (map fst al) \<Longrightarrow> (i, x) \<in> set (AList.update k v al) \<longleftrightarrow> (i = k \<and> x = v) \<or> (i \<noteq> k \<and> (i, x) \<in> set al)"
  by (induction al) (auto simp: rev_image_eqI)

lemma set_delete: "(i, x) \<in> set (AList.delete k al) \<longleftrightarrow> i \<noteq> k \<and> (i, x) \<in> set al"
  by (auto simp: AList.delete_eq)

lemma admit_cases:
  assumes "process_admit m = Inr m'" and "table_ok m"
  shows "m' = m \<and> length (pm_jobs m) < maxRetainedProcesses
    \<or> (\<exists>i t. (i, t) \<in> completed (pm_jobs m) \<and> (\<forall>y \<in> completed (pm_jobs m). older (i, t) y) \<and> maxRetainedProcesses \<le> length (pm_jobs m)
        \<and> m' = m\<lparr>pm_jobs := AList.delete i (pm_jobs m)\<rparr>)"
    and "running_jobs (pm_jobs m) < maxRunningProcesses"
proof -
  obtain r oldest where scan: "admit_scan 0 None (pm_jobs m) = (r, oldest)" by fastforce
  have "(i, job) \<in> set (pm_jobs m) \<Longrightarrow> i \<noteq> []" for i job using assms(2) by (auto simp: table_ok_def list_all_iff job_ok_def)
  from admit_scan_spec [where js = "pm_jobs m" and oldest = None and r = 0, OF this] scan have spec: "r = running_jobs (pm_jobs m)"
    "\<And>x. oldest = Some x \<Longrightarrow> x \<in> completed (pm_jobs m) \<and> (\<forall>y \<in> completed (pm_jobs m). older x y)" by auto
  show "running_jobs (pm_jobs m) < maxRunningProcesses" using assms(1) by (auto simp: process_admit_def scan spec(1) split: if_splits)
  show "m' = m \<and> length (pm_jobs m) < maxRetainedProcesses
    \<or> (\<exists>i t. (i, t) \<in> completed (pm_jobs m) \<and> (\<forall>y \<in> completed (pm_jobs m). older (i, t) y) \<and> maxRetainedProcesses \<le> length (pm_jobs m)
        \<and> m' = m\<lparr>pm_jobs := AList.delete i (pm_jobs m)\<rparr>)"
    using assms(1) spec(2) by (fastforce simp: process_admit_def scan split: if_splits option.splits prod.splits)
qed

lemma completedD: "(i, t) \<in> completed js \<Longrightarrow> \<exists>job. (i, job) \<in> set js \<and> \<not> pi_Running (mp_info job) \<and> t = the (pi_ExitedAt (mp_info job))"
  by (auto simp: completed_def)

lemma admit_table:
  assumes "process_admit m = Inr m'" and "table_ok m"
  shows "table_ok m' \<and> length (pm_jobs m') < maxRetainedProcesses \<and> running_jobs (pm_jobs m') < maxRunningProcesses"
  using admit_cases(1) [OF assms]
proof (elim disjE exE conjE)
  assume "m' = m" "length (pm_jobs m) < maxRetainedProcesses"
  then show ?thesis using assms(2) admit_cases(2) [OF assms] by simp
next
  fix i t assume it: "(i, t) \<in> completed (pm_jobs m)" and m': "m' = m\<lparr>pm_jobs := AList.delete i (pm_jobs m)\<rparr>"
  have "i \<in> fst ` set (pm_jobs m)" using completedD [OF it] by force
  then have "Suc (length (pm_jobs m')) = length (pm_jobs m)" using assms(2) m' by (simp add: table_ok_def length_delete)
  then show ?thesis using assms(2) m' running_delete [of i "pm_jobs m"] admit_cases(2) [OF assms]
    by (auto simp: table_ok_def list_all_iff set_delete distinct_delete)
qed

lemma EncodeToString_not_Nil: "nonce \<noteq> [] \<Longrightarrow> EncodeToString nonce \<noteq> []"
  by (cases nonce) (simp_all add: EncodeToString_def hex_byte_def)

lemma spawn_cases:
  assumes "process_spawn H request m = (r, m')"
  obtains "m' = m" | m1 where "process_admit m = Inr m1" and "m' = m1"
    | m1 nonce pid where "process_admit m = Inr m1" and "sh_nonce H = Inr nonce"
      and "m' = m1\<lparr>pm_jobs := AList.update (EncodeToString nonce) (new_job H request nonce pid) (pm_jobs m1)\<rparr>"
  using assms by (auto simp: process_spawn_def Let_def new_job_def split: option.splits if_splits sum.splits)

lemma admit_absent: "process_admit m = Inr m1 \<Longrightarrow> table_ok m \<Longrightarrow> map_of (pm_jobs m) i = None \<Longrightarrow> map_of (pm_jobs m1) i = None"
  using admit_cases(1) [of m m1] by (auto simp: delete_conv')

lemma table_spawn:
  assumes "process_spawn H request m = (r, m')" and "table_ok m" and "fresh_handle H m"
  shows "table_ok m'"
  using assms(1)
proof (cases rule: spawn_cases)
  case (3 m1 nonce pid)
  have m1: "table_ok m1" "length (pm_jobs m1) < maxRetainedProcesses" "running_jobs (pm_jobs m1) < maxRunningProcesses"
    using admit_table [OF 3(1) assms(2)] by simp_all
  have fresh: "EncodeToString nonce \<notin> fst ` set (pm_jobs m1)" "EncodeToString nonce \<noteq> []"
    using assms(3) 3(2) admit_absent [OF 3(1) assms(2)] EncodeToString_not_Nil by (auto simp: fresh_handle_def map_of_eq_None_iff)
  then show ?thesis using m1 unfolding 3(3) table_ok_def
    by (auto simp: length_update running_update_new distinct_update list_all_iff set_update new_job_def job_ok_def [of "EncodeToString nonce"])
qed (use admit_table assms(2) in auto)

lemma job_step_info:
  "pi_ID (mp_info (job_step job ev)) = pi_ID (mp_info job)"
  "pi_Running (mp_info (job_step job ev)) \<Longrightarrow> pi_Running (mp_info job)"
  "pi_Running (mp_info job) \<or> pi_ExitedAt (mp_info job) \<noteq> None \<Longrightarrow> pi_Running (mp_info (job_step job ev)) \<or> pi_ExitedAt (mp_info (job_step job ev)) \<noteq> None"
proof -
  have written: "pi_ID (mp_info (foldl (\<lambda>p c. process_append k c p) job cs)) = pi_ID (mp_info job) \<and> pi_Running (mp_info (foldl (\<lambda>p c. process_append k c p) job cs)) = pi_Running (mp_info job)
      \<and> pi_ExitedAt (mp_info (foldl (\<lambda>p c. process_append k c p) job cs)) = pi_ExitedAt (mp_info job)" for k cs
    by (induction cs arbitrary: job) (auto simp: process_append_def Let_def split: prod.splits)
  show "pi_ID (mp_info (job_step job ev)) = pi_ID (mp_info job)"
    "pi_Running (mp_info (job_step job ev)) \<Longrightarrow> pi_Running (mp_info job)"
    "pi_Running (mp_info job) \<or> pi_ExitedAt (mp_info job) \<noteq> None \<Longrightarrow> pi_Running (mp_info (job_step job ev)) \<or> pi_ExitedAt (mp_info (job_step job ev)) \<noteq> None"
    using written by (cases ev; auto simp: processOutputWriter_Write_def process_finish_def process_reap_def Let_def split: waitResult.splits)+
qed

lemma table_event:
  assumes "table_ok m" and "map_of (pm_jobs m) i = Some job"
  shows "table_ok (m\<lparr>pm_jobs := AList.update i (job_step job ev) (pm_jobs m)\<rparr>)"
proof -
  have mem: "(i, job) \<in> set (pm_jobs m)" by (rule map_of_SomeD [OF assms(2)])
  then have "i \<in> fst ` set (pm_jobs m)" by force
  moreover have "job_ok i (job_step job ev)"
    using mem assms(1) job_step_info(1,3) [of job ev] by (auto simp: table_ok_def list_all_iff job_ok_def)
  moreover have "running_jobs (AList.update i (job_step job ev) (pm_jobs m)) \<le> running_jobs (pm_jobs m)"
    by (rule running_update_old [OF assms(2)]) (rule job_step_info(2))
  ultimately show ?thesis using assms(1)
    by (auto simp: table_ok_def length_update distinct_update list_all_iff set_update)
qed

lemma table_step_ok: "table_step m m' \<Longrightarrow> table_ok m \<Longrightarrow> table_ok m'"
proof (induction rule: table_step.induct)
  case (closed kill m signals m')
  then show ?case by (auto simp: process_close_def table_ok_def)
qed (simp_all only: table_spawn table_event)

lemma reachable_table_ok: "table_step\<^sup>*\<^sup>* empty_table m \<Longrightarrow> table_ok m"
proof (induction rule: rtranclp_induct)
  case base
  show ?case by (simp add: empty_table_def table_ok_def running_jobs_def)
qed (rule table_step_ok)

section \<open>Table theorems\<close>

text \<open>C16. In every reachable table at most 64 commands run and at most 128 records are kept, each under its own handle.\<close>

theorem process_table_bounded:
  assumes "table_step\<^sup>*\<^sup>* empty_table m"
  shows "running_jobs (pm_jobs m) \<le> maxRunningProcesses \<and> length (pm_jobs m) \<le> maxRetainedProcesses
    \<and> distinct (map fst (pm_jobs m)) \<and> list_all (\<lambda>(i, job). pi_ID (mp_info job) = i) (pm_jobs m)"
  using reachable_table_ok [OF assms] by (auto simp: table_ok_def job_ok_def list_all_iff)

lemma admit_lookup:
  assumes "process_admit m = Inr m1" and "table_ok m" and "map_of (pm_jobs m) i = Some job"
  shows "map_of (pm_jobs m1) i = Some job \<or> map_of (pm_jobs m1) i = None \<and> \<not> pi_Running (mp_info job) \<and> length (pm_jobs m) = maxRetainedProcesses
    \<and> (\<forall>j job'. map_of (pm_jobs m) j = Some job' \<longrightarrow> \<not> pi_Running (mp_info job') \<longrightarrow>
         older (i, the (pi_ExitedAt (mp_info job))) (j, the (pi_ExitedAt (mp_info job'))))"
  using admit_cases(1) [OF assms(1,2)]
proof (elim disjE exE conjE)
  fix v t assume v: "(v, t) \<in> completed (pm_jobs m)" "\<forall>y \<in> completed (pm_jobs m). older (v, t) y"
    and m1: "m1 = m\<lparr>pm_jobs := AList.delete v (pm_jobs m)\<rparr>" and full: "maxRetainedProcesses \<le> length (pm_jobs m)"
  show ?thesis
  proof (cases "v = i")
    case True
    obtain job' where "(i, job') \<in> set (pm_jobs m)" "\<not> pi_Running (mp_info job')" "t = the (pi_ExitedAt (mp_info job'))"
      using completedD [OF v(1)] True by blast
    moreover from this have "job' = job" using assms(2,3) by (simp add: table_ok_def)
    moreover have "(j, the (pi_ExitedAt (mp_info job'))) \<in> completed (pm_jobs m)" if "map_of (pm_jobs m) j = Some job'" "\<not> pi_Running (mp_info job')" for j job'
      using that by (auto simp: completed_def dest: map_of_SomeD)
    moreover have "length (pm_jobs m) = maxRetainedProcesses" using full assms(2) by (simp add: table_ok_def)
    ultimately show ?thesis using v(2) True m1 by (auto simp: delete_conv')
  qed (simp add: m1 assms(3) delete_conv')
qed (simp add: assms(3))

text \<open>C15. A spawn keeps every record of the table, or drops one: only when the table is full, never a running command, and
  only the record that completed first. A spawn that succeeds stores the new command, running, under the handle it
  returns.\<close>

theorem spawn_keeps_running:
  assumes "table_step\<^sup>*\<^sup>* empty_table m" and "fresh_handle H m" and "process_spawn H request m = (r, m')"
  shows "(\<forall>i job. map_of (pm_jobs m) i = Some job \<longrightarrow> map_of (pm_jobs m') i = Some job
      \<or> map_of (pm_jobs m') i = None \<and> \<not> pi_Running (mp_info job) \<and> length (pm_jobs m) = maxRetainedProcesses
        \<and> (\<forall>j job'. map_of (pm_jobs m) j = Some job' \<longrightarrow> \<not> pi_Running (mp_info job') \<longrightarrow>
             older (i, the (pi_ExitedAt (mp_info job))) (j, the (pi_ExitedAt (mp_info job')))))
    \<and> (\<forall>info. r = Inr info \<longrightarrow> (\<exists>job. map_of (pm_jobs m') (pi_ID info) = Some job \<and> mp_info job = info \<and> pi_Running info \<and> mp_frames job = []))"
proof (intro conjI allI impI)
  have ok: "table_ok m" by (rule reachable_table_ok [OF assms(1)])
  show "map_of (pm_jobs m') i = Some job
      \<or> map_of (pm_jobs m') i = None \<and> \<not> pi_Running (mp_info job) \<and> length (pm_jobs m) = maxRetainedProcesses
        \<and> (\<forall>j job'. map_of (pm_jobs m) j = Some job' \<longrightarrow> \<not> pi_Running (mp_info job') \<longrightarrow>
             older (i, the (pi_ExitedAt (mp_info job))) (j, the (pi_ExitedAt (mp_info job'))))" if i: "map_of (pm_jobs m) i = Some job" for i job
    using assms(3)
  proof (cases rule: spawn_cases)
    case (3 m1 nonce pid)
    then have "i \<noteq> EncodeToString nonce" using assms(2) i by (auto simp: fresh_handle_def)
    then show ?thesis using admit_lookup [OF 3(1) ok i] by (simp add: 3(3))
  qed (use admit_lookup [OF _ ok i] i in auto)
  show "\<exists>job. map_of (pm_jobs m') (pi_ID info) = Some job \<and> mp_info job = info \<and> pi_Running info \<and> mp_frames job = []" if "r = Inr info" for info
    using assms(3) that by (auto simp: process_spawn_def Let_def new_job_def split: option.splits if_splits sum.splits)
qed

section \<open>A sample table\<close>

definition sample_table :: processManager where
  "sample_table = snd (process_spawn sample_spawn sample_request empty_table)"

definition sample_second :: spawnHost where
  "sample_second = sample_spawn\<lparr>sh_nonce := Inr (replicate 16 1), sh_start := Inr 43\<rparr>"

lemmas sample_spawn_facts = sample_spawn_def sample_second_def sample_request_def Message_zero_def

lemma sample_command: "Command_Validate (Message_command sample_request) = None"
  by (simp add: Command_Validate_def Message_command_def sample_request_def Message_zero_def first_error_def check_def
      IndexByte_found_def ContainsAny_def)

lemma sample_small: "\<not> maxDetachedCommandBytes < detached_size sample_request"
  by (simp add: maxDetachedCommandBytes_def detached_size_def sample_request_def Message_zero_def)

lemma sample_table_eval: "sample_table = \<lparr>pm_jobs = [(EncodeToString (replicate 16 171), new_job sample_spawn sample_request (replicate 16 171) 42)], pm_closed = False\<rparr>"
  by (simp add: sample_table_def process_spawn_def sample_command sample_small sample_spawn_def empty_table_def process_admit_def
      maxRunningProcesses_def maxRetainedProcesses_def new_job_def)

lemma sample_table_reached: "table_step\<^sup>*\<^sup>* empty_table sample_table"
proof (rule r_into_rtranclp, rule table_step.spawned)
  show "process_spawn sample_spawn sample_request empty_table = (fst (process_spawn sample_spawn sample_request empty_table), sample_table)"
    by (simp add: sample_table_def)
  show "fresh_handle sample_spawn empty_table" by (simp add: fresh_handle_def sample_spawn_def empty_table_def)
qed

theorem process_table_bounded_witness: "running_jobs (pm_jobs sample_table) \<le> 64 \<and> distinct (map fst (pm_jobs sample_table))"
  using process_table_bounded [OF sample_table_reached] by (simp add: maxRunningProcesses_def)

lemma sample_handles_differ: "EncodeToString (replicate 16 171) \<noteq> EncodeToString (replicate 16 1)"
proof
  assume "EncodeToString (replicate 16 171) = EncodeToString (replicate 16 1)"
  then have "DecodeString (EncodeToString (replicate 16 171)) = DecodeString (EncodeToString (replicate 16 1))" by simp
  then show False unfolding Decode_Encode by simp
qed

lemma sample_second_fresh: "fresh_handle sample_second sample_table"
  using sample_handles_differ by (simp add: fresh_handle_def sample_second_def sample_spawn_def sample_table_eval)

lemma sample_second_running:
  "fst (process_spawn sample_second sample_request sample_table) = Inr (mp_info (new_job sample_second sample_request (replicate 16 1) 43))"
  by (simp add: process_spawn_def sample_command sample_small sample_second_def sample_spawn_def sample_table_eval process_admit_def
      maxRunningProcesses_def maxRetainedProcesses_def new_job_def Let_def)

theorem spawn_keeps_running_witness:
  "\<exists>job. map_of (pm_jobs (snd (process_spawn sample_second sample_request sample_table))) (EncodeToString (replicate 16 1)) = Some job
    \<and> pi_Running (mp_info job)"
proof -
  let ?info = "mp_info (new_job sample_second sample_request (replicate 16 1) 43)"
  from spawn_keeps_running [OF sample_table_reached sample_second_fresh prod.collapse [symmetric], of sample_request] sample_second_running
  obtain job where "map_of (pm_jobs (snd (process_spawn sample_second sample_request sample_table))) (pi_ID ?info) = Some job" "mp_info job = ?info" by blast
  then show ?thesis by (simp add: new_job_def)
qed

end
