(* ===== verification/Agent_Calls.thy ===== *)
theory Agent_Calls
  imports Agent_Table
begin

text \<open>
  The calls of \<open>internal/agent/client_process.go\<close> that start, list and signal background processes, over the handler of
  the agent. A connection is a function from the request to the frames that come back.
\<close>

section \<open>The client\<close>

definition client_Spawn :: "(Message \<Rightarrow> Message list) \<Rightarrow> Command \<Rightarrow> callError + ProcessInfo" where
  "client_Spawn connection command =
     (case Command_Validate command of Some e \<Rightarrow> Inl (CallError e) | None \<Rightarrow>
      case exchange_loop (\<lambda>info m. (None, if msg_Type m = MessageDone then msg_Process m else info)) None
          (connection (Message_zero\<lparr>msg_Type := MessageSpawn, msg_Argv := cmd_Args command, msg_Env := cmd_Env command,
             msg_Cwd := cmd_Cwd command, msg_User := cmd_User command\<rparr>)) of
        (Some e, _) \<Rightarrow> Inl e
      | (None, None) \<Rightarrow> Inl (CallError (Msg ''guest agent omitted started process information''))
      | (None, Some info) \<Rightarrow> Inr info)"

definition client_Processes :: "(Message \<Rightarrow> Message list) \<Rightarrow> callError option \<times> ProcessInfo list" where
  "client_Processes connection =
     exchange_loop (\<lambda>result m. (None, if msg_Type m = MessageProcess then result @ (case msg_Process m of None \<Rightarrow> [] | Some info \<Rightarrow> [info]) else result)) []
       (connection (Message_zero\<lparr>msg_Type := MessageProcesses\<rparr>))"

definition client_SignalProcess :: "(Message \<Rightarrow> Message list) \<Rightarrow> string \<Rightarrow> string \<Rightarrow> callError option" where
  "client_SignalProcess connection i sig =
     (case ValidateProcessID i of Some e \<Rightarrow> Some (CallError e) | None \<Rightarrow>
      case ProcessSignal_Validate sig of Some e \<Rightarrow> Some (CallError e) | None \<Rightarrow>
      fst (exchange_loop (\<lambda>u m. (None, u)) () (connection (Message_zero\<lparr>msg_Type := MessageSignal, msg_ProcessID := i, msg_Signal := sig\<rparr>))))"

section \<open>Calls are transparent\<close>

text \<open>An agent in one state behind a connection without failures.\<close>

definition agent_answers :: "spawnHost \<Rightarrow> gerr option \<Rightarrow> processManager \<Rightarrow> Message \<Rightarrow> Message list" where
  "agent_answers H kill m request = enc_sent (snd (handleProcess open_writer H kill [] request m \<lparr>enc_terminal = False, enc_sent = []\<rparr>))"

text \<open>How a failure of the agent arrives: with the code of its class and its text.\<close>

definition remote :: "gerr \<Rightarrow> callError" where
  "remote e = RemoteError (failure_code e) (Error_Error e)"

lemma remote_codes:
  "remote errProcessNotFound = RemoteError ''NOT_FOUND'' ''agent process not found or already evicted''"
  "remote errProcessLimit = RemoteError ''RESOURCE_EXHAUSTED'' ''agent background process limit reached''"
  "remote errProcessExited = RemoteError ''CONFLICT'' ''agent process has already exited''"
  by (simp_all add: remote_def failure_code_def)

lemma send_infos_open:
  "\<not> enc_terminal e \<Longrightarrow> enc_sent (send_infos open_writer infos e) =
     enc_sent e @ map (\<lambda>info. Message_zero\<lparr>msg_Type := MessageProcess, msg_Process := Some info\<rparr>) infos @ [Message_zero\<lparr>msg_Type := MessageDone\<rparr>]"
  by (induction infos arbitrary: e) (auto simp: Encode_open terminalMessage_def)

lemma exchange_infos:
  "exchange_loop (\<lambda>result m. (None, if msg_Type m = MessageProcess then result @ (case msg_Process m of None \<Rightarrow> [] | Some info \<Rightarrow> [info]) else result)) acc
     (map (\<lambda>info. Message_zero\<lparr>msg_Type := MessageProcess, msg_Process := Some info\<rparr>) infos @ [Message_zero\<lparr>msg_Type := MessageDone\<rparr>]) = (None, acc @ infos)"
  by (induction infos arbitrary: acc) auto

lemma failure_open: "\<not> enc_terminal e \<Longrightarrow> enc_sent (processFailure open_writer err e) =
    enc_sent e @ [Message_zero\<lparr>msg_Type := MessageError, msg_Code := failure_code err, msg_Message := Error_Error err\<rparr>]"
  by (simp add: processFailure_def Encode_open)

definition spawn_message :: "Command \<Rightarrow> Message" where
  "spawn_message c = Message_zero\<lparr>msg_Type := MessageSpawn, msg_Argv := cmd_Args c, msg_Env := cmd_Env c, msg_Cwd := cmd_Cwd c, msg_User := cmd_User c\<rparr>"

lemma spawn_message_command [simp]: "Message_command (spawn_message c) = c"
  by (simp add: spawn_message_def Message_command_def)

lemma spawn_invalid: "Command_Validate (Message_command request) = Some e \<Longrightarrow> process_spawn H request m = (Inl e, m)"
  by (simp add: process_spawn_def)

lemma answers_spawn: "agent_answers H kill m (spawn_message c) = (case fst (process_spawn H (spawn_message c) m) of
    Inl err \<Rightarrow> [Message_zero\<lparr>msg_Type := MessageError, msg_Code := failure_code err, msg_Message := Error_Error err\<rparr>]
  | Inr info \<Rightarrow> [Message_zero\<lparr>msg_Type := MessageDone, msg_Process := Some info\<rparr>])"
  by (auto simp: agent_answers_def handleProcess_def spawn_message_def failure_open Encode_open split: sum.splits prod.splits)

text \<open>Over a working connection a client call gives the result of the operation on the agent's table: the
  started process, the list of retained processes, or the outcome of the signal. What the client refuses itself is
  what the table would refuse; any other refusal arrives with the code and the text of its error.\<close>

lemma agent_calls_transparent:
  "client_Spawn (agent_answers H kill m) c =
     map_sum (if Command_Validate c = None then remote else CallError) id (fst (process_spawn H (spawn_message c) m))
   \<and> client_Processes (agent_answers H kill m) = (None, process_list m)
   \<and> client_SignalProcess (agent_answers H kill m) i sig =
     (if ValidateProcessID i = None \<and> ProcessSignal_Validate sig = None
      then map_option remote (case process_lookup m i of Inl e \<Rightarrow> Some e | Inr job \<Rightarrow> process_signal kill sig job)
      else map_option CallError (first_error [ValidateProcessID i, ProcessSignal_Validate sig]))"
proof (intro conjI)
  show "client_Spawn (agent_answers H kill m) c =
     map_sum (if Command_Validate c = None then remote else CallError) id (fst (process_spawn H (spawn_message c) m))"
  proof (cases "Command_Validate c")
    case (Some e)
    then show ?thesis by (simp add: client_Spawn_def spawn_invalid)
  next
    case None
    then show ?thesis unfolding client_Spawn_def spawn_message_def [symmetric] answers_spawn
      by (auto simp: remote_def split: sum.splits)
  qed
  show "client_Processes (agent_answers H kill m) = (None, process_list m)"
    by (simp add: client_Processes_def agent_answers_def handleProcess_def send_infos_open exchange_infos)
  show "client_SignalProcess (agent_answers H kill m) i sig =
     (if ValidateProcessID i = None \<and> ProcessSignal_Validate sig = None
      then map_option remote (case process_lookup m i of Inl e \<Rightarrow> Some e | Inr job \<Rightarrow> process_signal kill sig job)
      else map_option CallError (first_error [ValidateProcessID i, ProcessSignal_Validate sig]))"
    by (auto simp: client_SignalProcess_def agent_answers_def handleProcess_def failure_open Encode_open remote_def split: option.splits sum.splits)
qed

text \<open>The codes a caller can rely on: signalling a handle the table does not hold, and one whose process has exited.\<close>

lemma signal_codes:
  assumes "ValidateProcessID i = None" and "ProcessSignal_Validate sig = None"
  shows "map_of (pm_jobs m) i = None \<Longrightarrow> \<exists>text. client_SignalProcess (agent_answers H kill m) i sig = Some (RemoteError ''NOT_FOUND'' text)"
    and "map_of (pm_jobs m) i = Some job \<Longrightarrow> mp_exited job \<Longrightarrow>
      \<exists>text. client_SignalProcess (agent_answers H kill m) i sig = Some (RemoteError ''CONFLICT'' text)"
    and "map_of (pm_jobs m) i = Some job \<Longrightarrow> \<not> mp_exited job \<Longrightarrow> kill = None \<Longrightarrow> client_SignalProcess (agent_answers H kill m) i sig = None"
  using agent_calls_transparent [of H kill m _ i sig] assms
  by (simp_all add: process_lookup_def process_signal_def first_error_def check_def remote_codes)

end
