(* ===== verification/Disk_Replace.thy ===== *)
theory Disk_Replace
  imports Storage_Paths
begin

text \<open>
  The replacement of a sandbox's writable disks (\<open>internal/core/disk_replace.go\<close>) over \<open>Publish\<close> of
  \<open>internal/storage/publish.go\<close>: the journal that a restore keeps, and the recovery that runs before the next start.

  A path is its directory and its base name. The host decides at every operation on the file system whether it is
  carried out, fails without effect, or whether the process dies before it; a rename is atomic, and a write is the
  creation of an empty file followed by its content. A program returns \<open>None\<close> if the process died in it.
\<close>

section \<open>The file system\<close>

type_synonym fpath = "string \<times> string"

text \<open>A regular file with its content, or anything else.\<close>

datatype fnode = N_file string | N_other

record disks =
  ds_files :: "(fpath \<times> fnode) list"
  ds_dirs :: "string list"
  ds_step :: nat

datatype diskOp = O_check fpath | O_lstat fpath | O_mkdir string | O_ensure string | O_sync fpath | O_syncDir string
  | O_rename fpath fpath | O_create fpath | O_write fpath | O_remove fpath | O_rmdir string | O_readDir string | O_readFile fpath

text \<open>A failure carries its text; it is not the error of an absent file, which the state decides.\<close>

datatype fault = F_ok | F_fail string | F_crash

type_synonym diskHost = "nat \<Rightarrow> diskOp \<Rightarrow> fault"
type_synonym 'a diskM = "disks \<Rightarrow> 'a option \<times> disks"

abbreviation os_ErrNotExist :: gerr where "os_ErrNotExist \<equiv> Msg ''file does not exist''"

definition fault_error :: "string \<Rightarrow> gerr" where
  "fault_error t = Msg (''input/output error: '' @ t)"

definition retD :: "'a \<Rightarrow> 'a diskM" where
  "retD x = (\<lambda>s. (Some x, s))"

definition bindD :: "'a diskM \<Rightarrow> ('a \<Rightarrow> 'b diskM) \<Rightarrow> 'b diskM" where
  "bindD m f = (\<lambda>s. case m s of (None, s') \<Rightarrow> (None, s') | (Some x, s') \<Rightarrow> f x s')"

text \<open>\<open>if err := m; err != nil { return err }\<close>\<close>

definition thenD :: "gerr option diskM \<Rightarrow> gerr option diskM \<Rightarrow> gerr option diskM" where
  "thenD m k = bindD m (\<lambda>r. case r of None \<Rightarrow> k | Some e \<Rightarrow> retD (Some e))"

definition opD :: "diskHost \<Rightarrow> diskOp \<Rightarrow> (gerr \<Rightarrow> 'a) \<Rightarrow> (disks \<Rightarrow> 'a \<times> disks) \<Rightarrow> 'a diskM" where
  "opD H op failed effect s =
     (let s1 = s\<lparr>ds_step := ds_step s + 1\<rparr> in
      case H (ds_step s) op of
        F_crash \<Rightarrow> (None, s1)
      | F_fail t \<Rightarrow> (Some (failed (fault_error t)), s1)
      | F_ok \<Rightarrow> (case effect s1 of (r, s2) \<Rightarrow> (Some r, s2)))"

definition look :: "disks \<Rightarrow> fpath \<Rightarrow> fnode option" where
  "look s p = map_of (ds_files s) p"

definition callD :: "diskHost \<Rightarrow> diskOp \<Rightarrow> gerr option diskM" where
  "callD H op = opD H op Some (\<lambda>s. (None, s))"

definition os_Lstat :: "diskHost \<Rightarrow> fpath \<Rightarrow> (gerr + fnode) diskM" where
  "os_Lstat H p = opD H (O_lstat p) Inl (\<lambda>s. (case look s p of None \<Rightarrow> Inl os_ErrNotExist | Some n \<Rightarrow> Inr n, s))"

definition os_ReadFile :: "diskHost \<Rightarrow> fpath \<Rightarrow> (gerr + string) diskM" where
  "os_ReadFile H p = opD H (O_readFile p) Inl (\<lambda>s. (case look s p of None \<Rightarrow> Inl os_ErrNotExist
     | Some N_other \<Rightarrow> Inl (Msg ''is a directory'') | Some (N_file c) \<Rightarrow> Inr c, s))"

definition os_Mkdir :: "diskHost \<Rightarrow> string \<Rightarrow> gerr option diskM" where
  "os_Mkdir H d = opD H (O_mkdir d) Some (\<lambda>s. if d \<in> set (ds_dirs s) then (Some (Msg ''file exists''), s)
     else (None, s\<lparr>ds_dirs := d # ds_dirs s\<rparr>))"

definition EnsureDir :: "diskHost \<Rightarrow> string \<Rightarrow> gerr option diskM" where
  "EnsureDir H d = opD H (O_ensure d) Some (\<lambda>s. (None, s\<lparr>ds_dirs := List.insert d (ds_dirs s)\<rparr>))"

definition os_Rename :: "diskHost \<Rightarrow> fpath \<Rightarrow> fpath \<Rightarrow> gerr option diskM" where
  "os_Rename H a b = opD H (O_rename a b) Some (\<lambda>s. case look s a of None \<Rightarrow> (Some os_ErrNotExist, s)
     | Some n \<Rightarrow> if look s b = Some N_other then (Some (Msg ''file exists''), s)
         else (None, s\<lparr>ds_files := AList.update b n (AList.delete a (ds_files s))\<rparr>))"

definition os_WriteFile :: "diskHost \<Rightarrow> fpath \<Rightarrow> string \<Rightarrow> gerr option diskM" where
  "os_WriteFile H p c =
     thenD (opD H (O_create p) Some (\<lambda>s. (None, s\<lparr>ds_files := AList.update p (N_file []) (ds_files s)\<rparr>)))
       (opD H (O_write p) Some (\<lambda>s. (None, s\<lparr>ds_files := AList.update p (N_file c) (ds_files s)\<rparr>)))"

definition os_Remove :: "diskHost \<Rightarrow> fpath \<Rightarrow> gerr option diskM" where
  "os_Remove H p = opD H (O_remove p) Some (\<lambda>s. case look s p of None \<Rightarrow> (Some os_ErrNotExist, s)
     | Some _ \<Rightarrow> (None, s\<lparr>ds_files := AList.delete p (ds_files s)\<rparr>))"

definition names_in :: "disks \<Rightarrow> string \<Rightarrow> string list" where
  "names_in s d = sort (remdups (map snd (filter (\<lambda>p. fst p = d) (map fst (ds_files s)))))"

text \<open>Removing a directory and reading its entries in the order of their names.\<close>

definition os_RemoveDir :: "diskHost \<Rightarrow> string \<Rightarrow> gerr option diskM" where
  "os_RemoveDir H d = opD H (O_rmdir d) Some (\<lambda>s. if d \<notin> set (ds_dirs s) then (Some os_ErrNotExist, s)
     else if names_in s d \<noteq> [] then (Some (Msg ''directory not empty''), s)
     else (None, s\<lparr>ds_dirs := removeAll d (ds_dirs s)\<rparr>))"

definition os_ReadDir :: "diskHost \<Rightarrow> string \<Rightarrow> (gerr + (string \<times> fnode) list) diskM" where
  "os_ReadDir H d = opD H (O_readDir d) Inl (\<lambda>s. (if d \<notin> set (ds_dirs s) then Inl os_ErrNotExist
     else Inr (map (\<lambda>n. (n, the (look s (d, n)))) (names_in s d)), s))"

definition regular :: "fnode \<Rightarrow> bool" where
  "regular n = (case n of N_file _ \<Rightarrow> True | N_other \<Rightarrow> False)"

definition nonempty :: "fnode \<Rightarrow> bool" where
  "nonempty n = (case n of N_file c \<Rightarrow> c \<noteq> [] | N_other \<Rightarrow> False)"

section \<open>Publishing a file\<close>

text \<open>Both parents are synced even if the first sync fails.\<close>

definition Publish :: "diskHost \<Rightarrow> fpath \<Rightarrow> fpath \<Rightarrow> gerr option diskM" where
  "Publish H staged final =
     thenD (callD H (O_check staged)) (thenD (callD H (O_check final))
     (bindD (os_Lstat H staged) (\<lambda>info. case info of Inl e \<Rightarrow> retD (Some e) | Inr n \<Rightarrow>
      if \<not> nonempty n then retD (Some (Msg ''staged artifact is not a nonempty regular file'')) else
      thenD (EnsureDir H (fst final)) (thenD (callD H (O_sync staged))
      (bindD (os_Rename H staged final) (\<lambda>r. case r of Some e \<Rightarrow> retD (Some (Wrap ''publish: '' e)) | None \<Rightarrow>
       bindD (callD H (O_syncDir (fst final))) (\<lambda>e1. bindD (callD H (O_syncDir (fst staged))) (\<lambda>e2.
       retD (errors_Join [e1, e2])))))))))"

section \<open>Replacing a set of disks\<close>

text \<open>\<open>vmm.SnapshotFile\<close> with split paths.\<close>

record DiskFile =
  df_Source :: fpath
  df_Destination :: fpath

abbreviation restoreCommitMarker :: string where "restoreCommitMarker \<equiv> ''committed''"
abbreviation restoreCommitStage :: string where "restoreCommitStage \<equiv> ''committed.tmp''"

fun check_files :: "string list \<Rightarrow> DiskFile list \<Rightarrow> gerr option" where
  "check_files seen [] = None"
| "check_files seen (f # fs) =
     (if \<not> IsAbs (fst (df_Source f)) \<or> \<not> IsAbs (fst (df_Destination f)) \<or> df_Source f = df_Destination f \<or> List.member seen (snd (df_Destination f))
      then Some (Msg ''writable disk replacement has invalid or duplicate paths'') else check_files (snd (df_Destination f) # seen) fs)"

definition backup_of :: "string \<Rightarrow> fpath \<Rightarrow> fpath" where
  "backup_of backupDir live = (backupDir, snd live)"

fun rollback_loop :: "diskHost \<Rightarrow> string \<Rightarrow> fpath list \<Rightarrow> gerr option \<Rightarrow> gerr option diskM" where
  "rollback_loop H backupDir [] err = retD err"
| "rollback_loop H backupDir (live # rest) err =
     bindD (os_Lstat H (backup_of backupDir live)) (\<lambda>info. case info of
       Inl e \<Rightarrow> rollback_loop H backupDir rest (if errors_Is e os_ErrNotExist then err else errors_Join [err, Some e])
     | Inr _ \<Rightarrow> bindD (Publish H (backup_of backupDir live) live) (\<lambda>e. rollback_loop H backupDir rest (errors_Join [err, e])))"

text \<open>\<open>begun\<close> are the destinations whose backup has begun, in order.\<close>

definition rollback :: "diskHost \<Rightarrow> string \<Rightarrow> fpath list \<Rightarrow> gerr option \<Rightarrow> gerr option diskM" where
  "rollback H backupDir begun cause =
     bindD (rollback_loop H backupDir (rev begun) None) (\<lambda>err.
     bindD (case err of None \<Rightarrow> os_RemoveDir H backupDir | Some e \<Rightarrow> retD (Some e)) (\<lambda>err'.
     retD (errors_Join [cause, case err' of None \<Rightarrow> None | Some e \<Rightarrow> errors_Join [Some e, Some (Msg ''recover old disks before starting'')]])))"

fun discard_loop :: "diskHost \<Rightarrow> string \<Rightarrow> (string \<times> fnode) list \<Rightarrow> gerr option diskM" where
  "discard_loop H directory [] = retD None"
| "discard_loop H directory ((name, node) # entries) =
     (if name = restoreCommitMarker then discard_loop H directory entries
      else if \<not> regular node then retD (Some (Msg ''unexpected restore backup entry''))
      else thenD (os_Remove H (directory, name)) (discard_loop H directory entries))"

definition discardCommittedBackups :: "diskHost \<Rightarrow> string \<Rightarrow> gerr option diskM" where
  "discardCommittedBackups H directory =
     bindD (os_ReadDir H directory) (\<lambda>r. case r of Inl e \<Rightarrow> retD (Some e) | Inr entries \<Rightarrow>
     thenD (discard_loop H directory entries) (thenD (callD H (O_syncDir directory))
     (thenD (os_Remove H (directory, restoreCommitMarker)) (thenD (callD H (O_syncDir directory)) (os_RemoveDir H directory)))))"

definition commit_set :: "diskHost \<Rightarrow> string \<Rightarrow> fpath list \<Rightarrow> gerr option diskM" where
  "commit_set H backupDir begun =
     (let stage = (backupDir, restoreCommitStage); marker = (backupDir, restoreCommitMarker);
          undo = (\<lambda>err. bindD (os_Remove H stage) (\<lambda>e. rollback H backupDir begun (errors_Join [Some err, e]))) in
      bindD (os_WriteFile H stage ''1'') (\<lambda>r. case r of Some err \<Rightarrow> undo err | None \<Rightarrow>
      bindD (Publish H stage marker) (\<lambda>r. case r of
        None \<Rightarrow> discardCommittedBackups H backupDir
      | Some err \<Rightarrow> bindD (os_Lstat H marker) (\<lambda>info. case info of
          Inr _ \<Rightarrow> retD (Some (Wrap ''restore disk set is complete, but commit sync failed: '' err))
        | Inl _ \<Rightarrow> undo err))))"

fun replace_loop :: "diskHost \<Rightarrow> (fpath \<Rightarrow> fpath \<Rightarrow> gerr option diskM) \<Rightarrow> string \<Rightarrow> fpath list \<Rightarrow> DiskFile list \<Rightarrow> gerr option diskM" where
  "replace_loop H publish backupDir begun [] = commit_set H backupDir begun"
| "replace_loop H publish backupDir begun (f # fs) =
     (let live = df_Destination f; begun' = begun @ [live] in
      bindD (publish live (backup_of backupDir live)) (\<lambda>r. case r of
        Some e \<Rightarrow> rollback H backupDir begun' (Some (Wrap ''back up disk: '' e))
      | None \<Rightarrow> bindD (publish (df_Source f) live) (\<lambda>r. case r of
          Some e \<Rightarrow> rollback H backupDir begun' (Some (Wrap ''replace disk: '' e))
        | None \<Rightarrow> replace_loop H publish backupDir begun' fs)))"

definition replaceWritableSet :: "diskHost \<Rightarrow> DiskFile list \<Rightarrow> string \<Rightarrow> (fpath \<Rightarrow> fpath \<Rightarrow> gerr option diskM) \<Rightarrow> gerr option diskM" where
  "replaceWritableSet H files backupDir publish =
     (if files = [] then retD (Some (Msg ''writable disk replacement requires files and publisher''))
      else case check_files [] files of Some e \<Rightarrow> retD (Some e) | None \<Rightarrow>
      bindD (os_Mkdir H backupDir) (\<lambda>r. case r of Some e \<Rightarrow> retD (Some (Wrap ''create restore disk backup: '' e)) | None \<Rightarrow>
      replace_loop H publish backupDir [] files))"

section \<open>Recovery\<close>

definition wanted :: "fpath list \<Rightarrow> string \<Rightarrow> fpath option" where
  "wanted livePaths n = map_of (rev (map (\<lambda>l. (snd l, l)) livePaths)) n"

fun recover_scan :: "diskHost \<Rightarrow> string \<Rightarrow> fpath list \<Rightarrow> bool \<Rightarrow> (string \<times> fnode) list \<Rightarrow> (gerr + bool) diskM" where
  "recover_scan H backupDir livePaths committed [] = retD (Inr committed)"
| "recover_scan H backupDir livePaths committed ((name, node) # entries) =
     (if name = restoreCommitStage \<and> regular node then recover_scan H backupDir livePaths committed entries
      else if name = restoreCommitMarker \<and> regular node then
        bindD (os_ReadFile H (backupDir, restoreCommitMarker)) (\<lambda>r. case r of
          Inl e \<Rightarrow> retD (Inl (Join [e, Msg ''restore backup commit marker is invalid'']))
        | Inr c \<Rightarrow> if c = ''1'' then recover_scan H backupDir livePaths True entries
            else retD (Inl (Join [Msg ''restore backup commit marker is invalid''])))
      else if wanted livePaths name = None \<or> \<not> regular node then retD (Inl (Msg ''unexpected restore backup entry''))
      else recover_scan H backupDir livePaths committed entries)"

fun recover_move :: "diskHost \<Rightarrow> string \<Rightarrow> fpath list \<Rightarrow> (string \<times> fnode) list \<Rightarrow> gerr option diskM" where
  "recover_move H backupDir livePaths [] = retD None"
| "recover_move H backupDir livePaths ((name, node) # entries) =
     (if name = restoreCommitStage then thenD (os_Remove H (backupDir, name)) (recover_move H backupDir livePaths entries)
      else bindD (Publish H (backupDir, name) (case wanted livePaths name of Some l \<Rightarrow> l | None \<Rightarrow> ([], []))) (\<lambda>r. case r of
        Some e \<Rightarrow> retD (Some (Wrap ''recover old disk: '' e))
      | None \<Rightarrow> recover_move H backupDir livePaths entries))"

fun recover_verify :: "diskHost \<Rightarrow> fpath list \<Rightarrow> gerr option diskM" where
  "recover_verify H [] = retD None"
| "recover_verify H (live # rest) = bindD (os_Lstat H live) (\<lambda>info. case info of
     Inl e \<Rightarrow> retD (Some (Join [e, Msg ''disk is missing after restore recovery'']))
   | Inr n \<Rightarrow> if regular n then recover_verify H rest else retD (Some (Join [Msg ''disk is missing after restore recovery''])))"

definition recoverWritableSet :: "diskHost \<Rightarrow> string \<Rightarrow> fpath list \<Rightarrow> gerr option diskM" where
  "recoverWritableSet H backupDir livePaths =
     thenD (callD H (O_check (backupDir, []))) (bindD (os_ReadDir H backupDir) (\<lambda>r. case r of
       Inl e \<Rightarrow> retD (if errors_Is e os_ErrNotExist then None else Some e)
     | Inr entries \<Rightarrow> bindD (recover_scan H backupDir livePaths False entries) (\<lambda>r. case r of
         Inl e \<Rightarrow> retD (Some e)
       | Inr True \<Rightarrow> discardCommittedBackups H backupDir
       | Inr False \<Rightarrow> thenD (recover_move H backupDir livePaths entries)
           (thenD (recover_verify H livePaths) (os_RemoveDir H backupDir)))))"

end
