(* ===== verification/Disk_Journal.thy ===== *)
theory Disk_Journal
  imports Disk_Replace
begin

text \<open>
  The journal of a disk replacement. Programs over the file system are verified with triples whose assertions see the
  files and the directories; the third assertion is what holds if the process dies. The journal is open until the
  marker is published, then sealed, and settled when the backup directory is empty; rolling back keeps it open
  until the old set is back, and discarding keeps it sealed until nothing but the marker is left.
\<close>

section \<open>Triples\<close>

type_synonym assertion = "(fpath \<Rightarrow> fnode option) \<Rightarrow> string set \<Rightarrow> bool"

definition tripleD :: "assertion \<Rightarrow> 'a diskM \<Rightarrow> ('a \<Rightarrow> assertion) \<Rightarrow> assertion \<Rightarrow> bool" where
  "tripleD P m Q R \<longleftrightarrow> (\<forall>s. P (look s) (set (ds_dirs s)) \<longrightarrow>
     (case m s of (Some x, s') \<Rightarrow> Q x (look s') (set (ds_dirs s')) | (None, s') \<Rightarrow> R (look s') (set (ds_dirs s'))))"

named_theorems disk_rules

definition calm :: "diskHost \<Rightarrow> bool" where
  "calm H \<longleftrightarrow> (\<forall>n op. H n op = F_ok)"

lemma tripleD_ret [disk_rules]: "(\<And>m D. P m D \<Longrightarrow> Q x m D) \<Longrightarrow> tripleD P (retD x) Q R"
  by (simp add: tripleD_def retD_def)

lemma tripleD_bind: "tripleD P m Q1 R \<Longrightarrow> (\<And>x. tripleD (Q1 x) (f x) Q R) \<Longrightarrow> tripleD P (bindD m f) Q R"
  by (fastforce simp: tripleD_def bindD_def split: option.splits prod.splits)

lemma tripleD_then:
  assumes "tripleD P m (\<lambda>r. case r of None \<Rightarrow> P1 | Some e \<Rightarrow> Q (Some e)) R" and "tripleD P1 k Q R"
  shows "tripleD P (thenD m k) Q R"
  unfolding thenD_def
proof (rule tripleD_bind [OF assms(1)])
  fix r show "tripleD (case r of None \<Rightarrow> P1 | Some e \<Rightarrow> Q (Some e)) (case r of None \<Rightarrow> k | Some e \<Rightarrow> retD (Some e)) Q R"
    using assms(2) by (cases r) (auto intro: tripleD_ret)
qed

lemma tripleD_pre: "tripleD P m Q R \<Longrightarrow> (\<And>m D. P' m D \<Longrightarrow> P m D) \<Longrightarrow> tripleD P' m Q R"
  by (auto simp: tripleD_def)

lemma tripleD_post: "tripleD P m Q R \<Longrightarrow> (\<And>x m D. Q x m D \<Longrightarrow> Q' x m D) \<Longrightarrow> (\<And>m D. R m D \<Longrightarrow> R' m D) \<Longrightarrow> tripleD P m Q' R'"
  by (fastforce simp: tripleD_def split: option.splits prod.splits)

lemma tripleD_disj: "tripleD P1 m Q R \<Longrightarrow> tripleD P2 m Q R \<Longrightarrow> tripleD (\<lambda>m D. P1 m D \<or> P2 m D) m Q R"
  by (auto simp: tripleD_def)

lemma tripleD_contra: "(\<And>m D. \<not> P m D) \<Longrightarrow> tripleD P c Q R"
  unfolding tripleD_def by blast

lemma look_simps [simp]:
  "look (s\<lparr>ds_step := n\<rparr>) = look s" "look (s\<lparr>ds_dirs := d\<rparr>) = look s"
  "look (s\<lparr>ds_files := AList.update p x fs\<rparr>) = (map_of fs)(p \<mapsto> x)" "look (s\<lparr>ds_files := AList.delete p fs\<rparr>) = (map_of fs)(p := None)"
  by (auto simp: look_def update_conv' delete_conv')

lemma map_of_files: "map_of (ds_files s) = look s"
  by (simp add: look_def fun_eq_iff)

lemma names_in: "set (names_in s d) = {n. look s (d, n) \<noteq> None}" "distinct (names_in s d)"
  by (force simp: names_in_def look_def map_of_eq_None_iff image_iff)+

definition may_fail :: "diskHost \<Rightarrow> diskOp \<Rightarrow> bool" where
  "may_fail H op \<longleftrightarrow> (\<exists>n t. H n op = F_fail t)"

lemma may_fail_not_calm: "may_fail H op \<Longrightarrow> \<not> calm H"
  unfolding may_fail_def calm_def by (metis fault.distinct(1))

lemma tripleD_op:
  assumes "\<And>s. P (look s) (set (ds_dirs s)) \<Longrightarrow> case effect s of (r, s') \<Rightarrow> Q r (look s') (set (ds_dirs s'))"
    and "\<And>m D t. P m D \<Longrightarrow> may_fail H op \<Longrightarrow> Q (failed (fault_error t)) m D" and "\<And>m D. P m D \<Longrightarrow> \<not> calm H \<Longrightarrow> R m D"
  shows "tripleD P (opD H op failed effect) Q R"
  unfolding tripleD_def
proof (intro allI impI)
  fix s assume P: "P (look s) (set (ds_dirs s))"
  let ?s1 = "s\<lparr>ds_step := ds_step s + 1\<rparr>"
  show "case opD H op failed effect s of (Some x, s') \<Rightarrow> Q x (look s') (set (ds_dirs s')) | (None, s') \<Rightarrow> R (look s') (set (ds_dirs s'))"
  proof (cases "H (ds_step s) op")
    case F_ok
    have "case effect ?s1 of (r, s') \<Rightarrow> Q r (look s') (set (ds_dirs s'))" using assms(1) [of ?s1] P by simp
    then show ?thesis using F_ok by (auto simp: opD_def Let_def split: prod.splits)
  next
    case (F_fail t)
    then have "may_fail H op" by (auto simp: may_fail_def)
    then show ?thesis using F_fail assms(2) [OF P] by (simp add: opD_def)
  next
    case F_crash
    then have "\<not> calm H" by (auto simp: calm_def) (metis fault.distinct)
    then show ?thesis using F_crash assms(3) [OF P] by (simp add: opD_def)
  qed
qed

lemma callD_rule [disk_rules]:
  assumes "\<And>m D. P m D \<Longrightarrow> Q None m D \<and> (\<not> calm H \<longrightarrow> (\<forall>e. Q (Some e) m D) \<and> R m D)"
  shows "tripleD P (callD H op) Q R"
  unfolding callD_def by (rule tripleD_op) (use assms may_fail_not_calm in fastforce)+

lemma Lstat_rule [disk_rules]:
  assumes "\<And>m D. P m D \<Longrightarrow> Q (case m p of None \<Rightarrow> Inl os_ErrNotExist | Some n \<Rightarrow> Inr n) m D"
    and "\<And>m D t. P m D \<Longrightarrow> may_fail H (O_lstat p) \<Longrightarrow> Q (Inl (fault_error t)) m D" and "\<And>m D. P m D \<Longrightarrow> \<not> calm H \<Longrightarrow> R m D"
  shows "tripleD P (os_Lstat H p) Q R"
  unfolding os_Lstat_def by (rule tripleD_op) (use assms in auto)

lemma ReadFile_rule [disk_rules]:
  assumes "\<And>m D. P m D \<Longrightarrow> Q (case m p of None \<Rightarrow> Inl os_ErrNotExist | Some N_other \<Rightarrow> Inl (Msg ''is a directory'') | Some (N_file c) \<Rightarrow> Inr c) m D"
    and "\<And>m D t. P m D \<Longrightarrow> \<not> calm H \<Longrightarrow> Q (Inl (fault_error t)) m D \<and> R m D"
  shows "tripleD P (os_ReadFile H p) Q R"
  unfolding os_ReadFile_def by (rule tripleD_op) (use assms may_fail_not_calm in auto)

lemma Mkdir_rule [disk_rules]:
  assumes "\<And>m D. P m D \<Longrightarrow> (if d \<in> D then Q (Some (Msg ''file exists'')) m D else Q None m (insert d D))"
    and "\<And>m D t. P m D \<Longrightarrow> \<not> calm H \<Longrightarrow> Q (Some (fault_error t)) m D \<and> R m D"
  shows "tripleD P (os_Mkdir H d) Q R"
  unfolding os_Mkdir_def
proof (rule tripleD_op)
  fix s assume "P (look s) (set (ds_dirs s))"
  from assms(1) [OF this] show "case (if d \<in> set (ds_dirs s) then (Some (Msg ''file exists''), s) else (None, s\<lparr>ds_dirs := d # ds_dirs s\<rparr>))
      of (r, s') \<Rightarrow> Q r (look s') (set (ds_dirs s'))" by (simp split: if_splits)
qed (use assms(2) may_fail_not_calm in auto)

lemma Remove_rule [disk_rules]:
  assumes "\<And>m D. P m D \<Longrightarrow> (if m p = None then Q (Some os_ErrNotExist) m D else Q None (m(p := None)) D)"
    and "\<And>m D t. P m D \<Longrightarrow> \<not> calm H \<Longrightarrow> Q (Some (fault_error t)) m D \<and> R m D"
  shows "tripleD P (os_Remove H p) Q R"
  unfolding os_Remove_def
proof (rule tripleD_op)
  fix s assume "P (look s) (set (ds_dirs s))"
  from assms(1) [OF this] show "case (case look s p of None \<Rightarrow> (Some os_ErrNotExist, s) | Some _ \<Rightarrow> (None, s\<lparr>ds_files := AList.delete p (ds_files s)\<rparr>))
      of (r, s') \<Rightarrow> Q r (look s') (set (ds_dirs s'))" by (auto simp: map_of_files split: if_splits option.splits)
qed (use assms(2) may_fail_not_calm in auto)

lemma RemoveDir_rule [disk_rules]:
  assumes "\<And>m D. P m D \<Longrightarrow> (if d \<notin> D \<or> (\<exists>n. m (d, n) \<noteq> None) then (\<forall>e. Q (Some e) m D) else Q None m (D - {d}))"
    and "\<And>m D t. P m D \<Longrightarrow> \<not> calm H \<Longrightarrow> Q (Some (fault_error t)) m D \<and> R m D"
  shows "tripleD P (os_RemoveDir H d) Q R"
  unfolding os_RemoveDir_def
proof (rule tripleD_op)
  fix s assume "P (look s) (set (ds_dirs s))"
  have "names_in s d \<noteq> [] \<longleftrightarrow> set (names_in s d) \<noteq> {}" by simp
  then have "names_in s d \<noteq> [] \<longleftrightarrow> (\<exists>n. look s (d, n) \<noteq> None)" unfolding names_in(1) by blast
  with assms(1) [OF \<open>P (look s) (set (ds_dirs s))\<close>]
  show "case (if d \<notin> set (ds_dirs s) then (Some os_ErrNotExist, s) else if names_in s d \<noteq> [] then (Some (Msg ''directory not empty''), s)
      else (None, s\<lparr>ds_dirs := removeAll d (ds_dirs s)\<rparr>)) of (r, s') \<Rightarrow> Q r (look s') (set (ds_dirs s'))" by (simp split: if_splits)
qed (use assms(2) may_fail_not_calm in auto)

definition entries_of :: "(fpath \<Rightarrow> fnode option) \<Rightarrow> string \<Rightarrow> (string \<times> fnode) list \<Rightarrow> bool" where
  "entries_of m d es \<longleftrightarrow> distinct (map fst es) \<and> (\<forall>n x. (n, x) \<in> set es \<longleftrightarrow> m (d, n) = Some x)"

lemma ReadDir_rule [disk_rules]:
  assumes "\<And>m D. P m D \<Longrightarrow> (if d \<in> D then (\<forall>es. entries_of m d es \<longrightarrow> Q (Inr es) m D) else Q (Inl os_ErrNotExist) m D)"
    and "\<And>m D t. P m D \<Longrightarrow> \<not> calm H \<Longrightarrow> Q (Inl (fault_error t)) m D \<and> R m D"
  shows "tripleD P (os_ReadDir H d) Q R"
  unfolding os_ReadDir_def
proof (rule tripleD_op)
  fix s assume "P (look s) (set (ds_dirs s))"
  have "entries_of (look s) d (map (\<lambda>n. (n, the (look s (d, n)))) (names_in s d))"
    using names_in [of s d] by (auto simp: entries_of_def o_def)
  with assms(1) [OF \<open>P (look s) (set (ds_dirs s))\<close>]
  show "case (if d \<notin> set (ds_dirs s) then Inl os_ErrNotExist else Inr (map (\<lambda>n. (n, the (look s (d, n)))) (names_in s d)), s)
      of (r, s') \<Rightarrow> Q r (look s') (set (ds_dirs s'))" by (simp split: if_splits)
qed (use assms(2) may_fail_not_calm in auto)

lemma WriteFile_rule [disk_rules]:
  assumes "\<And>m D. P m D \<Longrightarrow> Q None (m(p \<mapsto> N_file c)) D"
    and "\<And>m D e. P m D \<Longrightarrow> \<not> calm H \<Longrightarrow> Q (Some e) m D \<and> R m D \<and> Q (Some e) (m(p \<mapsto> N_file [])) D \<and> R (m(p \<mapsto> N_file [])) D"
  shows "tripleD P (os_WriteFile H p c) Q R"
  unfolding os_WriteFile_def
proof (rule tripleD_then)
  let ?P1 = "\<lambda>m D. \<exists>m0. P m0 D \<and> m = m0(p \<mapsto> N_file [])"
  show "tripleD P (opD H (O_create p) Some (\<lambda>s. (None, s\<lparr>ds_files := AList.update p (N_file []) (ds_files s)\<rparr>)))
      (\<lambda>r. case r of None \<Rightarrow> ?P1 | Some e \<Rightarrow> Q (Some e)) R"
    by (rule tripleD_op) (use assms(2) may_fail_not_calm in \<open>auto simp: map_of_files\<close>)
  show "tripleD ?P1 (opD H (O_write p) Some (\<lambda>s. (None, s\<lparr>ds_files := AList.update p (N_file c) (ds_files s)\<rparr>))) Q R"
  proof (rule tripleD_op)
    fix s assume "?P1 (look s) (set (ds_dirs s))"
    then obtain m0 where "P m0 (set (ds_dirs s))" "look s = m0(p \<mapsto> N_file [])" by blast
    then show "case (None, s\<lparr>ds_files := AList.update p (N_file c) (ds_files s)\<rparr>) of (r, s') \<Rightarrow> Q r (look s') (set (ds_dirs s'))"
      using assms(1) [of m0 "set (ds_dirs s)"] by (simp add: map_of_files)
  qed (use assms(2) may_fail_not_calm in auto)
qed

section \<open>Publishing\<close>

definition is_data :: "fnode option \<Rightarrow> bool" where
  "is_data x \<longleftrightarrow> (\<exists>c. x = Some (N_file c) \<and> c \<noteq> [])"

definition is_regular :: "fnode option \<Rightarrow> bool" where
  "is_regular x \<longleftrightarrow> (\<exists>c. x = Some (N_file c))"

lemma is_data_regular: "is_data x \<Longrightarrow> is_regular x"
  by (auto simp: is_data_def is_regular_def)

lemma nonempty_data: "nonempty n \<longleftrightarrow> is_data (Some n)" and regular_regular: "regular n \<longleftrightarrow> is_regular (Some n)"
  by (auto simp: nonempty_def regular_def is_data_def is_regular_def split: fnode.splits)

lemma EnsureDir_rule [disk_rules]:
  assumes "\<And>m D. P m D \<Longrightarrow> d \<in> D \<and> Q None m D" and "\<And>m D t. P m D \<Longrightarrow> \<not> calm H \<Longrightarrow> Q (Some (fault_error t)) m D \<and> R m D"
  shows "tripleD P (EnsureDir H d) Q R"
  unfolding EnsureDir_def by (rule tripleD_op) (use assms may_fail_not_calm in \<open>auto simp: insert_absorb\<close>)

lemma Rename_rule [disk_rules]:
  assumes "\<And>m D. P m D \<Longrightarrow> (case m a of None \<Rightarrow> (\<forall>e. Q (Some e) m D)
      | Some n \<Rightarrow> if m b = Some N_other then (\<forall>e. Q (Some e) m D) else Q None ((m(a := None))(b \<mapsto> n)) D)"
    and "\<And>m D t. P m D \<Longrightarrow> \<not> calm H \<Longrightarrow> Q (Some (fault_error t)) m D \<and> R m D"
  shows "tripleD P (os_Rename H a b) Q R"
  unfolding os_Rename_def
proof (rule tripleD_op)
  fix s assume P: "P (look s) (set (ds_dirs s))"
  have look: "look (s\<lparr>ds_files := AList.update b n (AList.delete a (ds_files s))\<rparr>) = ((look s)(a := None))(b \<mapsto> n)" for n
    by (simp add: look_def update_conv' delete_conv' fun_eq_iff)
  show "case (case look s a of None \<Rightarrow> (Some os_ErrNotExist, s) | Some n \<Rightarrow> if look s b = Some N_other then (Some (Msg ''file exists''), s)
         else (None, s\<lparr>ds_files := AList.update b n (AList.delete a (ds_files s))\<rparr>)) of (r, s') \<Rightarrow> Q r (look s') (set (ds_dirs s'))"
    using assms(1) [OF P] look by (cases "look s a") (simp_all split: if_splits del: look_simps)
qed (use assms(2) may_fail_not_calm in auto)

lemma syncs_rule:
  assumes "\<And>m D. P m D \<Longrightarrow> Q None m D \<and> (\<not> calm H \<longrightarrow> (\<forall>e. Q (Some e) m D) \<and> R m D)"
  shows "tripleD P (bindD (callD H o1) (\<lambda>e1. bindD (callD H o2) (\<lambda>e2. retD (errors_Join [e1, e2])))) Q R"
proof -
  let ?J = "\<lambda>(e :: gerr option) m D. P m D \<and> (e \<noteq> None \<longrightarrow> \<not> calm H)"
  have join: "Q (errors_Join [e1, e2]) m D" if "?J e1 m D" "?J e2 m D" for e1 e2 m D
    using that assms [of m D] by (cases e1; cases e2; simp add: errors_Join_def map_filter_simps)
  have inner: "tripleD (?J e1) (bindD (callD H o2) (\<lambda>e2. retD (errors_Join [e1, e2]))) Q R" for e1
  proof (rule tripleD_bind)
    show "tripleD (?J e1) (callD H o2) (\<lambda>e2 m D. ?J e1 m D \<and> ?J e2 m D) R" by (rule callD_rule) (use assms in auto)
    show "tripleD (\<lambda>m D. ?J e1 m D \<and> ?J e2 m D) (retD (errors_Join [e1, e2])) Q R" for e2 by (rule tripleD_ret) (use join in blast)
  qed
  show ?thesis by (rule tripleD_bind [OF _ inner]) (rule callD_rule, use assms in auto)
qed

text \<open>A publication into a directory that exists moves a file with content, or changes nothing.\<close>

lemma Publish_rule:
  assumes "\<And>m D. P m D \<Longrightarrow> fst b \<in> D"
    and "\<And>m D e. P m D \<Longrightarrow> \<not> calm H \<or> \<not> is_data (m a) \<or> m b = Some N_other \<Longrightarrow> Q (Some e) m D"
    and "\<And>m D. P m D \<Longrightarrow> \<not> calm H \<Longrightarrow> R m D"
    and "\<And>m D. P m D \<Longrightarrow> is_data (m a) \<Longrightarrow> Q None ((m(a := None))(b := m a)) D"
    and "\<And>m D e. P m D \<Longrightarrow> is_data (m a) \<Longrightarrow> \<not> calm H \<Longrightarrow> Q (Some e) ((m(a := None))(b := m a)) D \<and> R ((m(a := None))(b := m a)) D"
  shows "tripleD P (Publish H a b) Q R"
proof -
  let ?P1 = "\<lambda>n m D. P m D \<and> m a = Some n"
  let ?fail = "\<lambda>m D. \<forall>e. Q (Some e) m D"
  let ?P2 = "\<lambda>m D. Q None m D \<and> (\<not> calm H \<longrightarrow> (\<forall>e. Q (Some e) m D) \<and> R m D)"
  have rename: "tripleD (?P1 n) (os_Rename H a b) (\<lambda>r. case r of None \<Rightarrow> ?P2 | Some e \<Rightarrow> ?fail) R" if "nonempty n" for n
  proof (rule Rename_rule)
    fix m D assume P: "?P1 n m D"
    then have "is_data (m a)" using that by (simp add: nonempty_data)
    with P assms(4) [of m D] assms(5) [of m D] have "?P2 ((m(a := None))(b \<mapsto> n)) D" by simp
    then show "case m a of None \<Rightarrow> \<forall>e. (case Some e of None \<Rightarrow> ?P2 | Some e \<Rightarrow> ?fail) m D | Some n \<Rightarrow>
      if m b = Some N_other then \<forall>e. (case Some e of None \<Rightarrow> ?P2 | Some e \<Rightarrow> ?fail) m D else (case None of None \<Rightarrow> ?P2 | Some e \<Rightarrow> ?fail) ((m(a := None))(b \<mapsto> n)) D"
      using P assms(2) [of m D] by simp
  qed (use assms(2,3) in auto)
  have after: "tripleD (case r of None \<Rightarrow> ?P2 | Some e \<Rightarrow> ?fail) (case r of Some e \<Rightarrow> retD (Some (Wrap ''publish: '' e)) | None \<Rightarrow>
       bindD (callD H (O_syncDir (fst b))) (\<lambda>e1. bindD (callD H (O_syncDir (fst a))) (\<lambda>e2. retD (errors_Join [e1, e2])))) Q R" for r
    by (cases r) (auto intro!: tripleD_ret syncs_rule)
  have body: "tripleD (?P1 n) (thenD (EnsureDir H (fst b)) (thenD (callD H (O_sync a))
      (bindD (os_Rename H a b) (\<lambda>r. case r of Some e \<Rightarrow> retD (Some (Wrap ''publish: '' e)) | None \<Rightarrow>
       bindD (callD H (O_syncDir (fst b))) (\<lambda>e1. bindD (callD H (O_syncDir (fst a))) (\<lambda>e2. retD (errors_Join [e1, e2]))))))) Q R" if n: "nonempty n" for n
  proof (rule tripleD_then [where ?P1.0 = "?P1 n"])
    show "tripleD (?P1 n) (EnsureDir H (fst b)) (\<lambda>r. case r of None \<Rightarrow> ?P1 n | Some e \<Rightarrow> Q (Some e)) R"
      by (rule EnsureDir_rule) (use assms(1-3) in auto)
    show "tripleD (?P1 n) (thenD (callD H (O_sync a)) (bindD (os_Rename H a b) (\<lambda>r. case r of Some e \<Rightarrow> retD (Some (Wrap ''publish: '' e)) | None \<Rightarrow>
       bindD (callD H (O_syncDir (fst b))) (\<lambda>e1. bindD (callD H (O_syncDir (fst a))) (\<lambda>e2. retD (errors_Join [e1, e2])))))) Q R"
      by (rule tripleD_then [where ?P1.0 = "?P1 n", OF callD_rule tripleD_bind [OF rename [OF n] after]]) (use assms(2,3) in auto)
  qed
  have found: "tripleD (case info of Inl e \<Rightarrow> ?fail | Inr n \<Rightarrow> ?P1 n)
      (case info of Inl e \<Rightarrow> retD (Some e) | Inr n \<Rightarrow> if \<not> nonempty n then retD (Some (Msg ''staged artifact is not a nonempty regular file'')) else
      thenD (EnsureDir H (fst b)) (thenD (callD H (O_sync a))
      (bindD (os_Rename H a b) (\<lambda>r. case r of Some e \<Rightarrow> retD (Some (Wrap ''publish: '' e)) | None \<Rightarrow>
       bindD (callD H (O_syncDir (fst b))) (\<lambda>e1. bindD (callD H (O_syncDir (fst a))) (\<lambda>e2. retD (errors_Join [e1, e2]))))))) Q R" for info
  proof (cases info)
    case (Inr n)
    then show ?thesis using body [of n] assms(2) by (cases "nonempty n") (auto intro!: tripleD_ret simp: nonempty_data)
  qed (auto intro: tripleD_ret)
  have stat: "tripleD P (os_Lstat H a) (\<lambda>r. case r of Inl e \<Rightarrow> ?fail | Inr n \<Rightarrow> ?P1 n) R"
    by (rule Lstat_rule) (use assms(2,3) may_fail_not_calm in \<open>auto simp: is_data_def split: option.splits\<close>)
  show ?thesis unfolding Publish_def
    by (rule tripleD_then [where ?P1.0 = P, OF callD_rule tripleD_then [where ?P1.0 = P, OF callD_rule tripleD_bind [OF stat found]]])
      (use assms(2,3) in auto)
qed

section \<open>The journal\<close>

text \<open>\<open>B\<close> is the backup directory, \<open>ls\<close> the live disks, \<open>old\<close> and \<open>new\<close> the two sets. A slot is untouched, or its old disk
  lies in the backup directory and the live path is free or holds the new disk.\<close>

definition slot :: "string \<Rightarrow> (fpath \<Rightarrow> fnode option) \<Rightarrow> (fpath \<Rightarrow> fnode option) \<Rightarrow> (fpath \<Rightarrow> fnode option) \<Rightarrow> fpath \<Rightarrow> bool" where
  "slot B old new m l \<longleftrightarrow> m l = old l \<and> m (backup_of B l) = None
     \<or> m (backup_of B l) = old l \<and> is_data (old l) \<and> (m l = None \<or> m l = new l \<and> is_data (new l))"

text \<open>The directory holds nothing but backups of the disks and the given name.\<close>

definition tidy :: "string \<Rightarrow> fpath list \<Rightarrow> string \<Rightarrow> (fpath \<Rightarrow> fnode option) \<Rightarrow> bool" where
  "tidy B ls extra m \<longleftrightarrow> (\<forall>n. m (B, n) \<noteq> None \<longrightarrow> n = extra \<and> is_regular (m (B, n)) \<or> n \<in> snd ` set ls)"

definition open_journal :: "string \<Rightarrow> fpath list \<Rightarrow> (fpath \<Rightarrow> fnode option) \<Rightarrow> (fpath \<Rightarrow> fnode option) \<Rightarrow> assertion" where
  "open_journal B ls old new m D \<longleftrightarrow> B \<in> D \<and> fst ` set ls \<subseteq> D \<and> (\<forall>l \<in> set ls. slot B old new m l) \<and> tidy B ls restoreCommitStage m"

definition sealed_journal :: "string \<Rightarrow> fpath list \<Rightarrow> (fpath \<Rightarrow> fnode option) \<Rightarrow> assertion" where
  "sealed_journal B ls new m D \<longleftrightarrow> B \<in> D \<and> fst ` set ls \<subseteq> D \<and> (\<forall>l \<in> set ls. m l = new l \<and> is_regular (new l))
     \<and> m (B, restoreCommitMarker) = Some (N_file ''1'') \<and> tidy B ls restoreCommitMarker m
     \<and> (\<forall>l \<in> set ls. m (backup_of B l) \<noteq> None \<longrightarrow> is_regular (m (backup_of B l)))"

definition settled :: "string \<Rightarrow> fpath list \<Rightarrow> (fpath \<Rightarrow> fnode option) \<Rightarrow> assertion" where
  "settled B ls now m D \<longleftrightarrow> fst ` set ls \<subseteq> D \<and> (\<forall>n. m (B, n) = None) \<and> (\<forall>l \<in> set ls. m l = now l \<and> is_regular (now l))"

definition journal :: "string \<Rightarrow> fpath list \<Rightarrow> (fpath \<Rightarrow> fnode option) \<Rightarrow> (fpath \<Rightarrow> fnode option) \<Rightarrow> assertion" where
  "journal B ls old new m D \<longleftrightarrow> open_journal B ls old new m D \<or> sealed_journal B ls new m D \<or> settled B ls old m D \<or> settled B ls new m D"

text \<open>Disks outside the backup directory with names of their own that are not those of the marker.\<close>

definition disk_names :: "string \<Rightarrow> fpath list \<Rightarrow> bool" where
  "disk_names B ls \<longleftrightarrow> distinct (map snd ls) \<and> (\<forall>l \<in> set ls. fst l \<noteq> B \<and> snd l \<noteq> restoreCommitMarker \<and> snd l \<noteq> restoreCommitStage)"

lemma disk_names_inj: "disk_names B ls \<Longrightarrow> l \<in> set ls \<Longrightarrow> l' \<in> set ls \<Longrightarrow> snd l = snd l' \<Longrightarrow> l = l'"
  by (auto simp: disk_names_def distinct_map inj_on_def)

lemma backup_neq: "disk_names B ls \<Longrightarrow> l \<in> set ls \<Longrightarrow> l' \<in> set ls \<Longrightarrow> backup_of B l \<noteq> l'"
  by (auto simp: disk_names_def backup_of_def)

lemma backup_eq: "disk_names B ls \<Longrightarrow> l \<in> set ls \<Longrightarrow> l' \<in> set ls \<Longrightarrow> backup_of B l = backup_of B l' \<longleftrightarrow> l = l'"
  using disk_names_inj by (fastforce simp: backup_of_def)

text \<open>Moving a backup to its live path restores a slot and leaves the others.\<close>

lemma slot_restore:
  assumes "disk_names B ls" and "l \<in> set ls" and "m (backup_of B l) \<noteq> None" and "\<forall>l \<in> set ls. slot B old new m l"
  shows "\<forall>l' \<in> set ls. slot B old new ((m(backup_of B l := None))(l := m (backup_of B l))) l'"
proof
  fix l' assume l': "l' \<in> set ls"
  show "slot B old new ((m(backup_of B l := None))(l := m (backup_of B l))) l'"
  proof (cases "l' = l")
    case True
    then show ?thesis using assms backup_neq [OF assms(1,2,2)] by (auto simp: slot_def)
  next
    case False
    then show ?thesis using assms l' backup_neq [OF assms(1) l' assms(2)] backup_neq [OF assms(1,2) l'] backup_eq [OF assms(1,2) l']
      by (auto simp: slot_def)
  qed
qed

lemma tidy_drop: "tidy B ls x m \<Longrightarrow> tidy B ls x (m(p := None))"
  by (auto simp: tidy_def)

lemma tidy_live: "disk_names B ls \<Longrightarrow> l \<in> set ls \<Longrightarrow> tidy B ls x m \<Longrightarrow> tidy B ls x (m(l := y))"
  by (auto simp: tidy_def disk_names_def)

lemma open_restore:
  assumes "disk_names B ls" and "l \<in> set ls" and "m (backup_of B l) \<noteq> None" and "open_journal B ls old new m D"
  shows "open_journal B ls old new ((m(backup_of B l := None))(l := m (backup_of B l))) D"
  using assms(4) slot_restore [where m = m, OF assms(1-3)] tidy_live [OF assms(1,2) tidy_drop] by (simp add: open_journal_def)

lemma open_empty: "open_journal B ls old new m D \<Longrightarrow> (\<forall>l \<in> set ls. is_regular (old l)) \<Longrightarrow> \<forall>n. m (B, n) = None \<Longrightarrow> settled B ls old m (D - X)
    \<or> (\<exists>l \<in> set ls. fst l \<in> X)"
  by (auto simp: open_journal_def settled_def slot_def backup_of_def is_data_def)

section \<open>Rolling back\<close>

lemma Publish_backup:
  assumes "disk_names B ls" and "l \<in> set ls"
  shows "tripleD (open_journal B ls old new) (Publish H (backup_of B l) l) (\<lambda>_. open_journal B ls old new) (open_journal B ls old new)"
proof (rule Publish_rule)
  show "open_journal B ls old new m D \<Longrightarrow> fst l \<in> D" for m D using assms(2) by (auto simp: open_journal_def)
  show "open_journal B ls old new ((m(backup_of B l := None))(l := m (backup_of B l))) D" if "open_journal B ls old new m D" "is_data (m (backup_of B l))" for m D
    using open_restore [where m = m, OF assms _ that(1)] that(2) by (simp only: is_data_def) blast
  then show "open_journal B ls old new ((m(backup_of B l := None))(l := m (backup_of B l))) D
      \<and> open_journal B ls old new ((m(backup_of B l := None))(l := m (backup_of B l))) D" if "open_journal B ls old new m D" "is_data (m (backup_of B l))" for m D
    using that by blast
qed

lemma rollback_loop_open:
  assumes "disk_names B ls" and "set begun \<subseteq> set ls"
  shows "tripleD (open_journal B ls old new) (rollback_loop H B begun err) (\<lambda>_. open_journal B ls old new) (open_journal B ls old new)"
  using assms(2)
proof (induction begun arbitrary: err)
  case (Cons l begun)
  have "tripleD (open_journal B ls old new) (case info of
       Inl e \<Rightarrow> rollback_loop H B begun (if errors_Is e os_ErrNotExist then err else errors_Join [err, Some e])
     | Inr _ \<Rightarrow> bindD (Publish H (backup_of B l) l) (\<lambda>e. rollback_loop H B begun (errors_Join [err, e])))
      (\<lambda>_. open_journal B ls old new) (open_journal B ls old new)" for info
  proof (cases info)
    case (Inr n)
    have "l \<in> set ls" "set begun \<subseteq> set ls" using Cons.prems by simp_all
    then show ?thesis unfolding Inr sum.case by (intro tripleD_bind [OF Publish_backup [OF assms(1)] Cons.IH])
  qed (use Cons in simp)
  then show ?case by (simp, intro tripleD_bind [where ?Q1.0 = "\<lambda>_. open_journal B ls old new"] Lstat_rule) auto
qed (auto intro: tripleD_ret)

lemma errors_Join_not_None: "c \<noteq> None \<Longrightarrow> errors_Join (c # es) \<noteq> None"
  by (auto simp: errors_Join_def map_filter_simps)

lemma rollback_rule:
  assumes "disk_names B ls" and "set begun \<subseteq> set ls" and "cause \<noteq> None" and "\<forall>l \<in> set ls. is_regular (old l)"
  shows "tripleD (open_journal B ls old new) (rollback H B begun cause)
    (\<lambda>r m D. r \<noteq> None \<and> (open_journal B ls old new m D \<and> B \<in> D \<or> settled B ls old m D \<and> B \<notin> D)) (open_journal B ls old new)"
proof -
  let ?Q = "\<lambda>m D. open_journal B ls old new m D \<or> settled B ls old m D \<and> B \<notin> D"
  have B: "\<not> (\<exists>l \<in> set ls. fst l \<in> {B})" using assms(1) by (auto simp: disk_names_def)
  have remove: "tripleD (open_journal B ls old new) (os_RemoveDir H B) (\<lambda>_. ?Q) (open_journal B ls old new)"
    by (rule RemoveDir_rule) (use open_empty [OF _ assms(4), where X = "{B}"] B in \<open>auto split: if_splits\<close>)
  have "tripleD (open_journal B ls old new) (case err of None \<Rightarrow> os_RemoveDir H B | Some e \<Rightarrow> retD (Some e)) (\<lambda>_. ?Q) (open_journal B ls old new)" for err
    using remove by (cases err) (auto intro: tripleD_ret)
  moreover have "set (rev begun) \<subseteq> set ls" using assms(2) by simp
  ultimately show ?thesis unfolding rollback_def
    by (intro tripleD_bind [OF rollback_loop_open [OF assms(1)]] tripleD_bind [where ?Q1.0 = "\<lambda>_. ?Q"] tripleD_ret)
      (use errors_Join_not_None [OF assms(3)] in \<open>auto simp: open_journal_def\<close>)
qed

section \<open>Discarding the backups\<close>

lemma sealed_drop:
  assumes "disk_names B ls" and "n \<noteq> restoreCommitMarker" and "sealed_journal B ls new m D"
  shows "sealed_journal B ls new (m((B, n) := None)) D"
proof -
  have "l \<in> set ls \<Longrightarrow> l \<noteq> (B, n)" for l using assms(1) by (auto simp: disk_names_def)
  then show ?thesis using assms(2,3) tidy_drop by (auto simp: sealed_journal_def)
qed

lemma discard_loop_rule:
  assumes "disk_names B ls" and "distinct (map fst es)"
  shows "tripleD (\<lambda>m D. sealed_journal B ls new m D \<and> (\<forall>n x. m (B, n) = Some x \<longrightarrow> n = restoreCommitMarker \<or> (n, x) \<in> set es)
        \<and> (\<forall>n x. (n, x) \<in> set es \<longrightarrow> m (B, n) = Some x)) (discard_loop H B es)
    (\<lambda>r m D. sealed_journal B ls new m D \<and> (r = None \<longrightarrow> (\<forall>n. m (B, n) \<noteq> None \<longrightarrow> n = restoreCommitMarker)) \<and> (r \<noteq> None \<longrightarrow> \<not> calm H))
    (\<lambda>m D. sealed_journal B ls new m D \<and> \<not> calm H)"
  using assms(2)
proof (induction es)
  case Nil
  show ?case by (auto intro!: tripleD_ret)
next
  case (Cons e es)
  obtain n x where e: "e = (n, x)" by (cases e)
  let ?P = "\<lambda>es m D. sealed_journal B ls new m D \<and> (\<forall>n x. m (B, n) = Some x \<longrightarrow> n = restoreCommitMarker \<or> (n, x) \<in> set es)
        \<and> (\<forall>n x. (n, x) \<in> set es \<longrightarrow> m (B, n) = Some x)"
  let ?Q = "\<lambda>r m D. sealed_journal B ls new m D \<and> (r = None \<longrightarrow> (\<forall>n. m (B, n) \<noteq> None \<longrightarrow> n = restoreCommitMarker)) \<and> (r \<noteq> None \<longrightarrow> \<not> calm H)"
  have IH: "tripleD (?P es) (discard_loop H B es) ?Q (\<lambda>m D. sealed_journal B ls new m D \<and> \<not> calm H)" using Cons by simp
  consider "n = restoreCommitMarker" | "n \<noteq> restoreCommitMarker" "\<not> regular x" | "n \<noteq> restoreCommitMarker" "regular x" by blast
  then show ?case
  proof cases
    case 1
    then have "discard_loop H B (e # es) = discard_loop H B es" by (simp add: e)
    then show ?thesis using 1 by (simp only:) (rule tripleD_pre [OF IH], auto simp: e)
  next
    case 2
    have "\<not> ?P (e # es) m D" for m D
    proof
      assume P: "?P (e # es) m D"
      then have "m (B, n) = Some x" by (simp add: e)
      with P 2 have "is_regular (Some x)" unfolding sealed_journal_def tidy_def backup_of_def by (metis imageE option.distinct(1))
      with 2 show False by (simp add: regular_regular)
    qed
    then show ?thesis by (rule tripleD_contra)
  next
    case 3
    have "n \<notin> fst ` set es" using Cons.prems by (simp add: e)
    then have "tripleD (?P (e # es)) (os_Remove H (B, n)) (\<lambda>r. case r of None \<Rightarrow> ?P es | Some e \<Rightarrow> ?Q (Some e)) (\<lambda>m D. sealed_journal B ls new m D \<and> \<not> calm H)"
      using 3 sealed_drop [OF assms(1)] by (intro Remove_rule) (fastforce simp: e image_iff split: if_splits)+
    then show ?thesis using 3 tripleD_then [OF _ IH] by (simp add: e)
  qed
qed

lemma sealed_settled:
  assumes "disk_names B ls" and "sealed_journal B ls new m D" and "\<forall>n. m (B, n) \<noteq> None \<longrightarrow> n = restoreCommitMarker"
  shows "settled B ls new (m((B, restoreCommitMarker) := None)) D"
proof -
  have "l \<noteq> (B, restoreCommitMarker)" if "l \<in> set ls" for l using assms(1) that by (auto simp: disk_names_def)
  moreover have "m (B, n) = None" if "n \<noteq> restoreCommitMarker" for n using assms(3) that by blast
  ultimately show ?thesis using assms(2) by (auto simp: settled_def sealed_journal_def)
qed

definition discarded :: "diskHost \<Rightarrow> string \<Rightarrow> fpath list \<Rightarrow> (fpath \<Rightarrow> fnode option) \<Rightarrow> gerr option \<Rightarrow> assertion" where
  "discarded H B ls new r m D \<longleftrightarrow> (r = None \<longrightarrow> settled B ls new m D \<and> B \<notin> D)
     \<and> (r \<noteq> None \<longrightarrow> (sealed_journal B ls new m D \<or> settled B ls new m D \<and> B \<in> D) \<and> \<not> calm H)"

lemma settled_dir: "disk_names B ls \<Longrightarrow> settled B ls now m D \<Longrightarrow> settled B ls now m (D - {B})"
  by (auto simp: settled_def disk_names_def)

lemma RemoveDir_settled:
  assumes "disk_names B ls"
  shows "tripleD (\<lambda>m D. settled B ls now m D \<and> B \<in> D) (os_RemoveDir H B)
    (\<lambda>r m D. settled B ls now m D \<and> (r = None \<longrightarrow> B \<notin> D) \<and> (r \<noteq> None \<longrightarrow> B \<in> D \<and> \<not> calm H)) (\<lambda>m D. settled B ls now m D \<and> \<not> calm H)"
proof (rule RemoveDir_rule)
  fix m D assume "settled B ls now m D \<and> B \<in> D"
  moreover from this have "\<not> (\<exists>n. m (B, n) \<noteq> None)" by (simp add: settled_def)
  ultimately show "if B \<notin> D \<or> (\<exists>n. m (B, n) \<noteq> None) then \<forall>e. settled B ls now m D \<and> (Some e = None \<longrightarrow> B \<notin> D) \<and> (Some e \<noteq> None \<longrightarrow> B \<in> D \<and> \<not> calm H)
    else settled B ls now m (D - {B}) \<and> (None = None \<longrightarrow> B \<notin> D - {B}) \<and> (None \<noteq> None \<longrightarrow> B \<in> D - {B} \<and> \<not> calm H)"
    using settled_dir [OF assms] by simp
qed auto

lemma discard_rule:
  assumes "disk_names B ls"
  shows "tripleD (sealed_journal B ls new) (discardCommittedBackups H B) (discarded H B ls new)
    (\<lambda>m D. (sealed_journal B ls new m D \<or> settled B ls new m D) \<and> \<not> calm H)"
proof -
  let ?R = "\<lambda>m D. (sealed_journal B ls new m D \<or> settled B ls new m D) \<and> \<not> calm H"
  let ?last = "\<lambda>m D. sealed_journal B ls new m D \<and> (\<forall>n. m (B, n) \<noteq> None \<longrightarrow> n = restoreCommitMarker)"
  let ?gone = "\<lambda>m D. settled B ls new m D \<and> B \<in> D"
  let ?here = "\<lambda>es m D. sealed_journal B ls new m D \<and> entries_of m B es"
  note defs = discarded_def
  have rmdir: "tripleD ?gone (os_RemoveDir H B) (discarded H B ls new) ?R"
    by (rule tripleD_post [OF RemoveDir_settled [OF assms]]) (auto simp: defs)
  have sync: "tripleD ?gone (thenD (callD H (O_syncDir B)) (os_RemoveDir H B)) (discarded H B ls new) ?R"
    by (rule tripleD_then [OF callD_rule rmdir]) (auto simp: defs)
  have remove: "tripleD ?last (os_Remove H (B, restoreCommitMarker)) (\<lambda>r. case r of None \<Rightarrow> ?gone | Some e \<Rightarrow> discarded H B ls new (Some e)) ?R"
    by (rule Remove_rule) (use sealed_settled [OF assms] in \<open>auto simp: defs sealed_journal_def split: if_splits\<close>)
  have tail: "tripleD ?last (thenD (callD H (O_syncDir B)) (thenD (os_Remove H (B, restoreCommitMarker))
      (thenD (callD H (O_syncDir B)) (os_RemoveDir H B)))) (discarded H B ls new) ?R"
    by (rule tripleD_then [where ?P1.0 = ?last, OF callD_rule tripleD_then [OF remove sync]]) (auto simp: defs)
  have loop: "tripleD (?here es) (discard_loop H B es) (\<lambda>r. case r of None \<Rightarrow> ?last | Some e \<Rightarrow> discarded H B ls new (Some e)) ?R" for es
  proof (cases "distinct (map fst es)")
    case True
    show ?thesis by (rule tripleD_post [OF tripleD_pre [OF discard_loop_rule [OF assms True]]]) (auto simp: entries_of_def defs split: option.splits)
  qed (auto intro!: tripleD_contra simp: entries_of_def)
  have found: "tripleD (case r of Inl e \<Rightarrow> (\<lambda>m D. sealed_journal B ls new m D \<and> \<not> calm H) | Inr es \<Rightarrow> ?here es)
      (case r of Inl e \<Rightarrow> retD (Some e) | Inr es \<Rightarrow> thenD (discard_loop H B es) (thenD (callD H (O_syncDir B))
        (thenD (os_Remove H (B, restoreCommitMarker)) (thenD (callD H (O_syncDir B)) (os_RemoveDir H B))))) (discarded H B ls new) ?R" for r
    using tripleD_then [OF loop tail] by (cases r) (auto intro!: tripleD_ret simp: defs)
  have "tripleD (sealed_journal B ls new) (os_ReadDir H B) (\<lambda>r. case r of Inl e \<Rightarrow> (\<lambda>m D. sealed_journal B ls new m D \<and> \<not> calm H) | Inr es \<Rightarrow> ?here es) ?R"
    by (rule ReadDir_rule) (auto simp: sealed_journal_def)
  then show ?thesis unfolding discardCommittedBackups_def by (rule tripleD_bind [OF _ found])
qed

end
