(* ===== verification/Disk_Atomicity.thy ===== *)
theory Disk_Atomicity
  imports Disk_Journal
begin

text \<open>
  The replacement of a set of disks is atomic: wherever the process dies and whichever operations fail, the recovery
  before the next start leaves the old set or the new set.
\<close>

section \<open>Committing the new set\<close>

definition replaced :: "string \<Rightarrow> fpath list \<Rightarrow> (fpath \<Rightarrow> fnode option) \<Rightarrow> (fpath \<Rightarrow> fnode option) \<Rightarrow> gerr option \<Rightarrow> assertion" where
  "replaced B ls old new r m D \<longleftrightarrow> journal B ls old new m D \<and> (r = None \<longrightarrow> settled B ls new m D \<and> B \<notin> D)
     \<and> (r \<noteq> None \<longrightarrow> B \<notin> D \<longrightarrow> settled B ls old m D)"

text \<open>Every live path holds the new disk and only the marker is missing.\<close>

definition swapped :: "string \<Rightarrow> fpath list \<Rightarrow> (fpath \<Rightarrow> fnode option) \<Rightarrow> (fpath \<Rightarrow> fnode option) \<Rightarrow> assertion" where
  "swapped B ls old new m D \<longleftrightarrow> open_journal B ls old new m D \<and> (\<forall>l \<in> set ls. m l = new l \<and> is_regular (new l))"

lemma open_stage:
  assumes "disk_names B ls" and "x \<noteq> None \<longrightarrow> is_regular x" and "open_journal B ls old new m D"
  shows "open_journal B ls old new (m((B, restoreCommitStage) := x)) D"
proof -
  have ne: "l \<noteq> (B, restoreCommitStage)" "backup_of B l \<noteq> (B, restoreCommitStage)" if "l \<in> set ls" for l
    using assms(1) that by (auto simp: disk_names_def backup_of_def)
  then show ?thesis using assms(2,3) by (auto simp: open_journal_def slot_def tidy_def)
qed

lemma swapped_stage: "disk_names B ls \<Longrightarrow> swapped B ls old new m D \<Longrightarrow> x \<noteq> None \<longrightarrow> is_regular x \<Longrightarrow> swapped B ls old new (m((B, restoreCommitStage) := x)) D"
  using open_stage [of B ls x] by (auto simp: swapped_def disk_names_def)

lemma open_no_marker: "disk_names B ls \<Longrightarrow> open_journal B ls old new m D \<Longrightarrow> m (B, restoreCommitMarker) = None"
  by (force simp: disk_names_def open_journal_def tidy_def)

lemma swapped_seal:
  assumes "disk_names B ls" and "swapped B ls old new m D" and "m (B, restoreCommitStage) = Some (N_file ''1'')"
  shows "sealed_journal B ls new ((m((B, restoreCommitStage) := None))((B, restoreCommitMarker) := m (B, restoreCommitStage))) D"
proof -
  have ne: "l \<noteq> (B, restoreCommitStage)" "l \<noteq> (B, restoreCommitMarker)" "backup_of B l \<noteq> (B, restoreCommitStage)" "backup_of B l \<noteq> (B, restoreCommitMarker)"
    if "l \<in> set ls" for l using assms(1) that by (auto simp: disk_names_def backup_of_def)
  have "m (backup_of B l) \<noteq> None \<longrightarrow> is_regular (m (backup_of B l))" if "l \<in> set ls" for l
    using assms(2) that is_data_regular by (auto simp: swapped_def open_journal_def slot_def)
  then show ?thesis using assms(2,3) ne by (auto simp: sealed_journal_def swapped_def open_journal_def tidy_def is_regular_def)
qed

lemma rollback_replaced:
  assumes "disk_names B ls" and "set begun \<subseteq> set ls" and "cause \<noteq> None" and "\<forall>l \<in> set ls. is_regular (old l)"
  shows "tripleD (open_journal B ls old new) (rollback H B begun cause) (replaced B ls old new) (journal B ls old new)"
  by (rule tripleD_post [OF rollback_rule [OF assms]]) (auto simp: replaced_def journal_def)

lemma undo_rule:
  assumes "disk_names B ls" and "set begun \<subseteq> set ls" and "\<forall>l \<in> set ls. is_regular (old l)"
  shows "tripleD (open_journal B ls old new) (bindD (os_Remove H (B, restoreCommitStage)) (\<lambda>e. rollback H B begun (errors_Join [Some err, e])))
    (replaced B ls old new) (journal B ls old new)"
proof (rule tripleD_bind [where ?Q1.0 = "\<lambda>_. open_journal B ls old new"])
  show "tripleD (open_journal B ls old new) (os_Remove H (B, restoreCommitStage)) (\<lambda>_. open_journal B ls old new) (journal B ls old new)"
    by (rule Remove_rule) (use open_stage [OF assms(1), of None] in \<open>auto simp: journal_def split: if_splits\<close>)
  show "tripleD (open_journal B ls old new) (rollback H B begun (errors_Join [Some err, e])) (replaced B ls old new) (journal B ls old new)" for e
    by (rule rollback_replaced [OF assms(1,2) _ assms(3)]) (rule errors_Join_not_None, simp)
qed

lemma commit_rule:
  assumes "disk_names B ls" and "set begun \<subseteq> set ls" and "\<forall>l \<in> set ls. is_regular (old l)"
    and probe: "\<not> may_fail H (O_lstat (B, restoreCommitMarker))"
  shows "tripleD (swapped B ls old new) (commit_set H B begun) (replaced B ls old new) (journal B ls old new)"
proof -
  let ?stage = "(B, restoreCommitStage)" and ?marker = "(B, restoreCommitMarker)"
  let ?written = "\<lambda>m D. swapped B ls old new m D \<and> m ?stage = Some (N_file ''1'')"
  let ?undo = "\<lambda>err. bindD (os_Remove H ?stage) (\<lambda>e. rollback H B begun (errors_Join [Some err, e]))"
  let ?either = "\<lambda>m D. open_journal B ls old new m D \<or> sealed_journal B ls new m D"
  have discard: "tripleD (sealed_journal B ls new) (discardCommittedBackups H B) (replaced B ls old new) (journal B ls old new)"
    by (rule tripleD_post [OF discard_rule [OF assms(1)]]) (auto simp: discarded_def replaced_def journal_def sealed_journal_def)
  note undo = undo_rule [OF assms(1-3)]
  have stat: "tripleD ?either (os_Lstat H ?marker) (\<lambda>info. case info of Inl e \<Rightarrow> open_journal B ls old new | Inr n \<Rightarrow> sealed_journal B ls new) (journal B ls old new)"
  proof (rule Lstat_rule)
    fix m D assume "?either m D"
    then show "(case (case m ?marker of None \<Rightarrow> Inl os_ErrNotExist | Some n \<Rightarrow> Inr n) of Inl e \<Rightarrow> open_journal B ls old new | Inr n \<Rightarrow> sealed_journal B ls new) m D"
      using open_no_marker [OF assms(1), of old new m D] by (auto simp: sealed_journal_def)
  qed (use probe in \<open>auto simp: journal_def\<close>)
  have probed: "tripleD ?either (bindD (os_Lstat H ?marker) (\<lambda>info. case info of
      Inr _ \<Rightarrow> retD (Some (Wrap ''restore disk set is complete, but commit sync failed: '' err)) | Inl _ \<Rightarrow> ?undo err)) (replaced B ls old new) (journal B ls old new)" for err
  proof (rule tripleD_bind [OF stat])
    fix info show "tripleD (case info of Inl e \<Rightarrow> open_journal B ls old new | Inr n \<Rightarrow> sealed_journal B ls new) (case info of
      Inr _ \<Rightarrow> retD (Some (Wrap ''restore disk set is complete, but commit sync failed: '' err)) | Inl _ \<Rightarrow> ?undo err) (replaced B ls old new) (journal B ls old new)"
      using undo by (cases info) (auto intro!: tripleD_ret simp: replaced_def journal_def sealed_journal_def)
  qed
  have publish: "tripleD ?written (Publish H ?stage ?marker) (\<lambda>r. case r of None \<Rightarrow> sealed_journal B ls new | Some e \<Rightarrow> ?either) (journal B ls old new)"
  proof (rule Publish_rule)
    show "?written m D \<Longrightarrow> fst ?marker \<in> D" for m D by (simp add: swapped_def open_journal_def)
  qed (use swapped_seal [OF assms(1)] in \<open>auto simp: swapped_def journal_def\<close>)
  have wrote: "swapped B ls old new m D \<Longrightarrow> swapped B ls old new (m(?stage \<mapsto> N_file c)) D" for m D c
    using swapped_stage [OF assms(1), where x = "Some (N_file c)"] by (simp add: is_regular_def)
  have opened: "swapped B ls old new m D \<Longrightarrow> open_journal B ls old new m D" for m D by (simp add: swapped_def)
  have writing: "tripleD (swapped B ls old new) (os_WriteFile H ?stage ''1'') (\<lambda>r. case r of None \<Rightarrow> ?written | Some e \<Rightarrow> open_journal B ls old new) (journal B ls old new)"
    by (rule WriteFile_rule) (use wrote opened in \<open>auto simp: journal_def\<close>)
  have rest: "tripleD ?written (bindD (Publish H ?stage ?marker) (\<lambda>r. case r of None \<Rightarrow> discardCommittedBackups H B
      | Some err \<Rightarrow> bindD (os_Lstat H ?marker) (\<lambda>info. case info of
          Inr _ \<Rightarrow> retD (Some (Wrap ''restore disk set is complete, but commit sync failed: '' err)) | Inl _ \<Rightarrow> ?undo err))) (replaced B ls old new) (journal B ls old new)"
  proof (rule tripleD_bind [OF publish])
    fix r show "tripleD (case r of None \<Rightarrow> sealed_journal B ls new | Some e \<Rightarrow> ?either) (case r of None \<Rightarrow> discardCommittedBackups H B
      | Some err \<Rightarrow> bindD (os_Lstat H ?marker) (\<lambda>info. case info of
          Inr _ \<Rightarrow> retD (Some (Wrap ''restore disk set is complete, but commit sync failed: '' err)) | Inl _ \<Rightarrow> ?undo err)) (replaced B ls old new) (journal B ls old new)"
      using discard probed by (cases r) simp_all
  qed
  show ?thesis unfolding commit_set_def Let_def
  proof (rule tripleD_bind [OF writing])
    fix r show "tripleD (case r of None \<Rightarrow> ?written | Some e \<Rightarrow> open_journal B ls old new) (case r of Some err \<Rightarrow> ?undo err | None \<Rightarrow>
      bindD (Publish H ?stage ?marker) (\<lambda>r. case r of None \<Rightarrow> discardCommittedBackups H B
      | Some err \<Rightarrow> bindD (os_Lstat H ?marker) (\<lambda>info. case info of
          Inr _ \<Rightarrow> retD (Some (Wrap ''restore disk set is complete, but commit sync failed: '' err)) | Inl _ \<Rightarrow> ?undo err))) (replaced B ls old new) (journal B ls old new)"
      using rest undo by (cases r) simp_all
  qed
qed

section \<open>Replacing\<close>

text \<open>The disks in \<open>begun\<close> are replaced, the others untouched; what is staged for the rest has not changed.\<close>

definition replacing :: "string \<Rightarrow> fpath list \<Rightarrow> (fpath \<Rightarrow> fnode option) \<Rightarrow> (fpath \<Rightarrow> fnode option) \<Rightarrow> fpath list \<Rightarrow> DiskFile list \<Rightarrow> assertion" where
  "replacing B ls old new begun fs m D \<longleftrightarrow> open_journal B ls old new m D
     \<and> (\<forall>l \<in> set ls. if l \<in> set begun then m l = new l \<and> is_data (new l) else m l = old l \<and> m (backup_of B l) = None)
     \<and> (\<forall>f \<in> set fs. m (df_Source f) = None \<or> m (df_Source f) = new (df_Destination f))"

definition staged_for :: "string \<Rightarrow> fpath list \<Rightarrow> DiskFile list \<Rightarrow> bool" where
  "staged_for B ls fs \<longleftrightarrow> (\<forall>f \<in> set fs. df_Destination f \<in> set ls \<and> df_Source f \<notin> set ls \<and> fst (df_Source f) \<noteq> B)"

text \<open>Between the two publications of one disk its live path is free.\<close>

definition between :: "string \<Rightarrow> fpath list \<Rightarrow> (fpath \<Rightarrow> fnode option) \<Rightarrow> (fpath \<Rightarrow> fnode option) \<Rightarrow> fpath list \<Rightarrow> fpath \<Rightarrow> DiskFile list \<Rightarrow> assertion" where
  "between B ls old new begun l fs m D \<longleftrightarrow> open_journal B ls old new m D \<and> m l = None \<and> m (backup_of B l) = old l \<and> is_data (old l)
     \<and> (\<forall>l' \<in> set ls - {l}. if l' \<in> set begun then m l' = new l' \<and> is_data (new l') else m l' = old l' \<and> m (backup_of B l') = None)
     \<and> (\<forall>f \<in> set fs. m (df_Source f) = None \<or> m (df_Source f) = new (df_Destination f))"

lemma tidy_backup: "l \<in> set ls \<Longrightarrow> tidy B ls x m \<Longrightarrow> tidy B ls x (m(backup_of B l := y))"
  by (auto simp: tidy_def backup_of_def)

lemma replacing_backup:
  assumes "disk_names B ls" and "l \<in> set ls" and "l \<notin> set begun" and "staged_for B ls fs" and "replacing B ls old new begun fs m D" and "is_data (m l)"
  shows "between B ls old new begun l fs ((m(l := None))(backup_of B l := m l)) D"
proof -
  have ne: "l' \<noteq> backup_of B l" "l' \<noteq> l \<Longrightarrow> backup_of B l' \<noteq> backup_of B l" "backup_of B l' \<noteq> l" if "l' \<in> set ls" for l'
    using that assms(2) backup_neq [OF assms(1)] backup_eq [OF assms(1) that assms(2)] by metis+
  have src: "df_Source f \<noteq> l" "df_Source f \<noteq> backup_of B l" if "f \<in> set fs" for f
    using assms(2,4) that by (auto simp: staged_for_def backup_of_def)
  have old: "m l = old l" using assms(2,3,5) by (simp add: replacing_def)
  have "tidy B ls restoreCommitStage ((m(l := None))(backup_of B l := m l))"
    using assms(5) by (intro tidy_backup [OF assms(2)] tidy_drop) (simp add: replacing_def open_journal_def)
  moreover have "\<forall>l' \<in> set ls. slot B old new ((m(l := None))(backup_of B l := m l)) l'"
    using assms(5,6) ne old by (auto simp: replacing_def open_journal_def slot_def)
  ultimately show ?thesis using assms(2,5,6) ne src old by (auto simp: between_def replacing_def open_journal_def)
qed

lemma between_replace:
  assumes "disk_names B ls" and "staged_for B ls (f # fs)" and "l = df_Destination f"
    and "between B ls old new begun l (f # fs) m D" and "is_data (m (df_Source f))"
  shows "replacing B ls old new (begun @ [l]) fs ((m(df_Source f := None))(l := m (df_Source f))) D"
proof -
  have src: "df_Source f \<noteq> l'" "df_Source f \<noteq> backup_of B l'" if "l' \<in> set ls" for l'
    using assms(2,3) that by (auto simp: staged_for_def backup_of_def)
  have out: "df_Source f \<notin> set ls" using assms(2) by (simp add: staged_for_def)
  have l: "l \<in> set ls" using assms(2,3) by (simp add: staged_for_def)
  have ne: "backup_of B l' \<noteq> l" if "l' \<in> set ls" for l' using backup_neq [OF assms(1) that l] .
  have new: "m (df_Source f) = new l" using assms(3,4,5) by (auto simp: between_def is_data_def)
  have other: "df_Source g \<noteq> l" if "g \<in> set fs" for g using assms(2) that l by (auto simp: staged_for_def)
  have "tidy B ls restoreCommitStage ((m(df_Source f := None))(l := m (df_Source f)))"
    using assms(4) by (intro tidy_live [OF assms(1) l] tidy_drop) (simp add: between_def open_journal_def)
  moreover have "\<forall>l' \<in> set ls. slot B old new ((m(df_Source f := None))(l := m (df_Source f))) l'"
  proof
    fix l' assume l': "l' \<in> set ls"
    then show "slot B old new ((m(df_Source f := None))(l := m (df_Source f))) l'"
      using assms(4,5) src [OF l'] ne [OF l'] new by (cases "l' = l") (auto simp: between_def open_journal_def slot_def)
  qed
  ultimately show ?thesis using assms(4,5) src ne new other out by (auto simp: replacing_def between_def open_journal_def)
qed

lemma replace_loop_rule:
  assumes "disk_names B ls" and "\<forall>l \<in> set ls. is_regular (old l)" and "\<not> may_fail H (O_lstat (B, restoreCommitMarker))"
    and "staged_for B ls fs" and "set begun \<subseteq> set ls" and "distinct (begun @ map df_Destination fs)"
    and "\<forall>l \<in> set ls - set begun - df_Destination ` set fs. new l = old l"
  shows "tripleD (replacing B ls old new begun fs) (replace_loop H (Publish H) B begun fs) (replaced B ls old new) (journal B ls old new)"
  using assms(4-7)
proof (induction fs arbitrary: begun)
  case Nil
  have "swapped B ls old new m D" if "replacing B ls old new begun [] m D" for m D
    unfolding swapped_def
  proof (intro conjI ballI)
    fix l assume l: "l \<in> set ls"
    show "m l = new l" "is_regular (new l)"
      using that l Nil.prems(4) assms(2) is_data_regular by (cases "l \<in> set begun"; simp add: replacing_def)+
  qed (use that in \<open>simp add: replacing_def\<close>)
  then show ?case using tripleD_pre [OF commit_rule [OF assms(1) Nil.prems(2) assms(2,3)]] by simp
next
  case (Cons f fs)
  let ?l = "df_Destination f"
  have l: "?l \<in> set ls" "?l \<notin> set begun" and sub: "set (begun @ [?l]) \<subseteq> set ls" using Cons.prems by (auto simp: staged_for_def)
  have IH: "tripleD (replacing B ls old new (begun @ [?l]) fs) (replace_loop H (Publish H) B (begun @ [?l]) fs) (replaced B ls old new) (journal B ls old new)"
    by (rule Cons.IH) (use Cons.prems sub in \<open>auto simp: staged_for_def\<close>)
  have undo: "tripleD (open_journal B ls old new) (rollback H B (begun @ [?l]) (Some e)) (replaced B ls old new) (journal B ls old new)" for e
    by (rule rollback_replaced [OF assms(1) sub _ assms(2)]) simp
  have opened: "replacing B ls old new begun (f # fs) m D \<Longrightarrow> open_journal B ls old new m D" "between B ls old new begun ?l (f # fs) m D \<Longrightarrow> open_journal B ls old new m D"
    "replacing B ls old new (begun @ [?l]) fs m D \<Longrightarrow> open_journal B ls old new m D" for m D by (simp_all add: replacing_def between_def)
  have dirs: "open_journal B ls old new m D \<Longrightarrow> B \<in> D \<and> fst ?l \<in> D" for m D using l(1) by (auto simp: open_journal_def)
  have first: "tripleD (replacing B ls old new begun (f # fs)) (Publish H ?l (backup_of B ?l))
      (\<lambda>r. case r of None \<Rightarrow> between B ls old new begun ?l (f # fs) | Some e \<Rightarrow> open_journal B ls old new) (journal B ls old new)"
    by (rule Publish_rule) (use replacing_backup [OF assms(1) l Cons.prems(1)] opened dirs in \<open>fastforce simp: journal_def backup_of_def\<close>)+
  have second: "tripleD (between B ls old new begun ?l (f # fs)) (Publish H (df_Source f) ?l)
      (\<lambda>r. case r of None \<Rightarrow> replacing B ls old new (begun @ [?l]) fs | Some e \<Rightarrow> open_journal B ls old new) (journal B ls old new)"
    by (rule Publish_rule) (use between_replace [OF assms(1) Cons.prems(1) refl] opened dirs in \<open>fastforce simp: journal_def\<close>)+
  have "tripleD (between B ls old new begun ?l (f # fs)) (bindD (Publish H (df_Source f) ?l) (\<lambda>r. case r of
      Some e \<Rightarrow> rollback H B (begun @ [?l]) (Some (Wrap ''replace disk: '' e)) | None \<Rightarrow> replace_loop H (Publish H) B (begun @ [?l]) fs)) (replaced B ls old new) (journal B ls old new)"
  proof (rule tripleD_bind [OF second])
    fix r show "tripleD (case r of None \<Rightarrow> replacing B ls old new (begun @ [?l]) fs | Some e \<Rightarrow> open_journal B ls old new) (case r of
      Some e \<Rightarrow> rollback H B (begun @ [?l]) (Some (Wrap ''replace disk: '' e)) | None \<Rightarrow> replace_loop H (Publish H) B (begun @ [?l]) fs) (replaced B ls old new) (journal B ls old new)"
      using IH undo by (cases r) simp_all
  qed
  then have "tripleD (case r of None \<Rightarrow> between B ls old new begun ?l (f # fs) | Some e \<Rightarrow> open_journal B ls old new) (case r of
      Some e \<Rightarrow> rollback H B (begun @ [?l]) (Some (Wrap ''back up disk: '' e))
    | None \<Rightarrow> bindD (Publish H (df_Source f) ?l) (\<lambda>r. case r of
        Some e \<Rightarrow> rollback H B (begun @ [?l]) (Some (Wrap ''replace disk: '' e)) | None \<Rightarrow> replace_loop H (Publish H) B (begun @ [?l]) fs)) (replaced B ls old new) (journal B ls old new)" for r
    using undo by (cases r) simp_all
  from tripleD_bind [OF first this] show ?case by (simp add: Let_def)
qed

end
