(* ===== verification/Disk_Recovery.thy ===== *)
theory Disk_Recovery
  imports Disk_Atomicity
begin

text \<open>
  Recovery from any journal, and the theorem that a replacement followed by recoveries, each of which may fail or
  die, ends with the old or the new set of disks.
\<close>

section \<open>The passes of a recovery\<close>

lemma wanted_live: "disk_names B ls \<Longrightarrow> l \<in> set ls \<Longrightarrow> wanted ls (snd l) = Some l"
proof -
  assume a: "disk_names B ls" "l \<in> set ls"
  have "distinct (map fst (rev (map (\<lambda>l. (snd l, l)) ls)))" using a(1) by (simp add: disk_names_def rev_map [symmetric] comp_def)
  then show ?thesis unfolding wanted_def by (rule map_of_is_SomeI) (use a(2) in simp)
qed

definition known_entry :: "fpath list \<Rightarrow> (fpath \<Rightarrow> fnode option) \<Rightarrow> string \<Rightarrow> string \<times> fnode \<Rightarrow> bool" where
  "known_entry ls m B e \<longleftrightarrow> is_regular (Some (snd e))
     \<and> (fst e = restoreCommitStage \<or> fst e = restoreCommitMarker \<and> m (B, restoreCommitMarker) = Some (N_file ''1'') \<or> wanted ls (fst e) \<noteq> None)
     \<and> (fst e = restoreCommitMarker \<longrightarrow> m (B, restoreCommitMarker) = Some (N_file ''1''))"

lemma scan_rule:
  assumes "\<And>m D. P m D \<Longrightarrow> \<forall>e \<in> set es. known_entry ls m B e"
  shows "tripleD P (recover_scan H B ls c es)
    (\<lambda>r m D. P m D \<and> (case r of Inl _ \<Rightarrow> \<not> calm H | Inr c' \<Rightarrow> c' = (c \<or> restoreCommitMarker \<in> fst ` set es))) (\<lambda>m D. P m D \<and> \<not> calm H)"
  using assms
proof (induction es arbitrary: c)
  case (Cons e es)
  obtain n x where e: "e = (n, x)" by (cases e)
  let ?Q = "\<lambda>c es r m D. P m D \<and> (case r of Inl _ \<Rightarrow> \<not> calm H | Inr c' \<Rightarrow> c' = (c \<or> restoreCommitMarker \<in> fst ` set es))"
  let ?R = "\<lambda>m D. P m D \<and> \<not> calm H"
  have IH: "tripleD P (recover_scan H B ls c es) (?Q c es) ?R" for c using Cons by simp
  have known: "known_entry ls m B (n, x)" if "P m D" for m D using Cons.prems [OF that] e by simp
  show ?case
  proof (cases "\<exists>m D. P m D")
    case True
    then have x: "regular x" using known by (auto simp: known_entry_def regular_regular)
    consider "n = restoreCommitMarker" | "n \<noteq> restoreCommitMarker" by blast
    then show ?thesis
    proof cases
      case 1
      have read: "tripleD P (os_ReadFile H (B, restoreCommitMarker)) (\<lambda>r m D. P m D \<and> (case r of Inl _ \<Rightarrow> \<not> calm H | Inr c \<Rightarrow> c = ''1'')) ?R"
      proof (rule ReadFile_rule)
        fix m D assume P: "P m D"
        then show "P m D \<and> (case case m (B, restoreCommitMarker) of None \<Rightarrow> Inl os_ErrNotExist | Some N_other \<Rightarrow> Inl (Msg ''is a directory'') | Some (N_file c) \<Rightarrow> Inr c
            of Inl _ \<Rightarrow> \<not> calm H | Inr c \<Rightarrow> c = ''1'')" using known [OF P] 1 by (simp add: known_entry_def)
      qed auto
      have "tripleD (\<lambda>m D. P m D \<and> (case r of Inl _ \<Rightarrow> \<not> calm H | Inr c \<Rightarrow> c = ''1'')) (case r of
          Inl e \<Rightarrow> retD (Inl (Join [e, Msg ''restore backup commit marker is invalid'']))
        | Inr c' \<Rightarrow> if c' = ''1'' then recover_scan H B ls True es else retD (Inl (Join [Msg ''restore backup commit marker is invalid'']))) (?Q c (e # es)) ?R" for r
      proof (cases r)
        case (Inr c')
        then show ?thesis using tripleD_post [OF IH [of True], of "?Q c (e # es)" ?R]
          by (cases "c' = ''1''") (auto simp: e 1 intro: tripleD_contra split: sum.splits)
      qed (auto intro: tripleD_ret)
      from tripleD_bind [OF read this] show ?thesis using 1 x by (simp add: e)
    next
      case 2
      moreover have "n = restoreCommitStage \<or> wanted ls n \<noteq> None" using True known 2 by (auto simp: known_entry_def)
      ultimately have "recover_scan H B ls c (e # es) = recover_scan H B ls c es" using x by (auto simp: e)
      moreover have "restoreCommitMarker \<in> fst ` set (e # es) \<longleftrightarrow> restoreCommitMarker \<in> fst ` set es" using 2 by (auto simp: e)
      ultimately show ?thesis using IH [of c] by (simp only:)
    qed
  qed (blast intro: tripleD_contra)
qed (auto intro: tripleD_ret)

lemma open_slot_backup:
  assumes "open_journal B ls old new m D" and "l \<in> set ls" and "m (backup_of B l) \<noteq> None"
  shows "is_data (m (backup_of B l)) \<and> m l \<noteq> Some N_other"
proof -
  have "slot B old new m l" using assms(1,2) by (simp add: open_journal_def)
  then show ?thesis using assms(3) by (auto simp: slot_def is_data_def)
qed

lemma move_rule:
  assumes "disk_names B ls" and "distinct (map fst es)"
  shows "tripleD (\<lambda>m D. open_journal B ls old new m D \<and> (\<forall>n x. m (B, n) = Some x \<longleftrightarrow> (n, x) \<in> set es)) (recover_move H B ls es)
    (\<lambda>r m D. open_journal B ls old new m D \<and> (r = None \<longrightarrow> (\<forall>n. m (B, n) = None)) \<and> (r \<noteq> None \<longrightarrow> \<not> calm H))
    (\<lambda>m D. open_journal B ls old new m D \<and> \<not> calm H)"
  using assms(2)
proof (induction es)
  case Nil
  then show ?case by (auto intro!: tripleD_ret)
next
  case (Cons e es)
  obtain n x where e: "e = (n, x)" by (cases e)
  let ?P = "\<lambda>es m D. open_journal B ls old new m D \<and> (\<forall>n x. m (B, n) = Some x \<longleftrightarrow> (n, x) \<in> set es)"
  let ?Q = "\<lambda>r m D. open_journal B ls old new m D \<and> (r = None \<longrightarrow> (\<forall>n. m (B, n) = None)) \<and> (r \<noteq> None \<longrightarrow> \<not> calm H)"
  let ?R = "\<lambda>m D. open_journal B ls old new m D \<and> \<not> calm H"
  have IH: "tripleD (?P es) (recover_move H B ls es) ?Q ?R" using Cons by simp
  have new: "n \<notin> fst ` set es" using Cons.prems by (simp add: e)
  have gone: "?P (e # es) m D \<Longrightarrow> (\<forall>k y. (m((B, n) := None)) (B, k) = Some y \<longleftrightarrow> (k, y) \<in> set es)" for m D
    using new by (auto simp: e image_iff)
  show ?case
  proof (cases "n = restoreCommitStage")
    case True
    have "tripleD (?P (e # es)) (os_Remove H (B, n)) (\<lambda>r. case r of None \<Rightarrow> ?P es | Some e \<Rightarrow> ?Q (Some e)) ?R"
    proof (rule Remove_rule)
      fix m D assume P: "?P (e # es) m D"
      then have "m (B, n) = Some x" by (simp add: e)
      moreover have "open_journal B ls old new (m((B, n) := None)) D" using open_stage [OF assms(1), of None] P True by simp
      ultimately show "if m (B, n) = None then (case Some os_ErrNotExist of None \<Rightarrow> ?P es | Some e \<Rightarrow> ?Q (Some e)) m D
          else (case None of None \<Rightarrow> ?P es | Some e \<Rightarrow> ?Q (Some e)) (m((B, n) := None)) D" using gone [OF P] by simp
    qed auto
    then show ?thesis using True tripleD_then [OF _ IH] by (simp add: e)
  next
    case False
    show ?thesis
    proof (cases "n \<in> snd ` set ls")
      case True
      then obtain l where l: "l \<in> set ls" "n = snd l" by blast
      then have bk: "(B, n) = backup_of B l" by (simp add: backup_of_def)
      have here: "m (backup_of B l) \<noteq> None" if "?P (e # es) m D" for m D
      proof -
        have "m (B, n) = Some x" using that by (simp add: e)
        then show ?thesis by (simp add: bk)
      qed
      have moved: "?P es ((m(backup_of B l := None))(l := m (backup_of B l))) D" if P: "?P (e # es) m D" for m D
      proof -
        have "fst l \<noteq> B" using assms(1) l(1) by (simp add: disk_names_def)
        then have "\<forall>k. (B, k) \<noteq> l" by auto
        then show ?thesis using open_restore [where m = m, OF assms(1) l(1) here [OF P]] P gone [OF P] by (simp add: bk)
      qed
      have publish: "tripleD (?P (e # es)) (Publish H (backup_of B l) l) (\<lambda>r m D. case r of None \<Rightarrow> ?P es m D | Some e \<Rightarrow> ?R m D) ?R"
      proof (rule Publish_rule)
        show "?P (e # es) m D \<Longrightarrow> fst l \<in> D" for m D using l(1) by (auto simp: open_journal_def)
      next
        fix m D err assume P: "?P (e # es) m D" and "\<not> calm H \<or> \<not> is_data (m (backup_of B l)) \<or> m l = Some N_other"
        then have "\<not> calm H" using open_slot_backup [where m = m, OF conjunct1 [OF P] l(1) here [OF P]] by blast
        then show "case Some err of None \<Rightarrow> ?P es m D | Some e \<Rightarrow> ?R m D" using P by simp
      next
        fix m D assume P: "?P (e # es) m D"
        show "\<not> calm H \<Longrightarrow> ?R m D" using P by simp
        show "case None of None \<Rightarrow> ?P es ((m(backup_of B l := None))(l := m (backup_of B l))) D | Some e \<Rightarrow> ?R ((m(backup_of B l := None))(l := m (backup_of B l))) D"
          unfolding option.case by (rule moved [OF P])
        show "(case Some err of None \<Rightarrow> ?P es ((m(backup_of B l := None))(l := m (backup_of B l))) D | Some e \<Rightarrow> ?R ((m(backup_of B l := None))(l := m (backup_of B l))) D)
            \<and> ?R ((m(backup_of B l := None))(l := m (backup_of B l))) D" if "\<not> calm H" for err
          unfolding option.case using moved [OF P] that by blast
      qed
      have after: "tripleD (\<lambda>m D. case r of None \<Rightarrow> ?P es m D | Some e \<Rightarrow> ?R m D) (case r of
          Some e \<Rightarrow> retD (Some (Wrap ''recover old disk: '' e)) | None \<Rightarrow> recover_move H B ls es) ?Q ?R" for r
        using IH by (cases r) (auto intro: tripleD_ret)
      have "recover_move H B ls (e # es) = bindD (Publish H (backup_of B l) l) (\<lambda>r. case r of
          Some e \<Rightarrow> retD (Some (Wrap ''recover old disk: '' e)) | None \<Rightarrow> recover_move H B ls es)"
        using False wanted_live [OF assms(1) l(1)] bk by (simp add: e l(2))
      then show ?thesis using tripleD_bind [OF publish after] by (simp only:)
    next
      case outside: False
      have "\<not> ?P (e # es) m D" for m D
      proof
        assume P: "?P (e # es) m D"
        then have "m (B, n) = Some x" by (simp add: e)
        with P False outside show False unfolding open_journal_def tidy_def by (metis option.distinct(1))
      qed
      then show ?thesis by (rule tripleD_contra)
    qed
  qed
qed

lemma verify_rule:
  assumes "\<And>m D. P m D \<Longrightarrow> \<forall>l \<in> set ls. is_regular (m l)"
  shows "tripleD P (recover_verify H ls) (\<lambda>r m D. P m D \<and> (r \<noteq> None \<longrightarrow> \<not> calm H)) (\<lambda>m D. P m D \<and> \<not> calm H)"
  using assms
proof (induction ls)
  case (Cons l ls)
  let ?Q = "\<lambda>r m D. P m D \<and> (r \<noteq> None \<longrightarrow> \<not> calm H)" and ?R = "\<lambda>m D. P m D \<and> \<not> calm H"
  have IH: "tripleD P (recover_verify H ls) ?Q ?R" using Cons by simp
  have stat: "tripleD P (os_Lstat H l) (\<lambda>info m D. P m D \<and> (case info of Inl _ \<Rightarrow> \<not> calm H | Inr n \<Rightarrow> regular n)) ?R"
  proof (rule Lstat_rule)
    fix m D assume P: "P m D"
    then have "is_regular (m l)" using Cons.prems by simp
    then show "P m D \<and> (case case m l of None \<Rightarrow> Inl os_ErrNotExist | Some n \<Rightarrow> Inr n of Inl _ \<Rightarrow> \<not> calm H | Inr n \<Rightarrow> regular n)"
      using P by (auto simp: is_regular_def regular_def)
  qed (use may_fail_not_calm in auto)
  have "tripleD (\<lambda>m D. P m D \<and> (case info of Inl _ \<Rightarrow> \<not> calm H | Inr n \<Rightarrow> regular n)) (case info of
     Inl e \<Rightarrow> retD (Some (Join [e, Msg ''disk is missing after restore recovery'']))
   | Inr n \<Rightarrow> if regular n then recover_verify H ls else retD (Some (Join [Msg ''disk is missing after restore recovery'']))) ?Q ?R" for info
    using IH by (cases info) (auto intro: tripleD_ret tripleD_contra split: if_splits)
  from tripleD_bind [OF stat this] show ?case by simp
qed (auto intro: tripleD_ret)

section \<open>Recovery\<close>

definition recovered :: "diskHost \<Rightarrow> string \<Rightarrow> fpath list \<Rightarrow> (fpath \<Rightarrow> fnode option) \<Rightarrow> assertion \<Rightarrow> gerr option \<Rightarrow> assertion" where
  "recovered H B ls now J r m D \<longleftrightarrow> (J m D \<or> settled B ls now m D) \<and> (r = None \<longrightarrow> settled B ls now m D \<and> B \<notin> D) \<and> (r \<noteq> None \<longrightarrow> \<not> calm H)"

lemma settled_regular: "settled B ls now m D \<Longrightarrow> \<forall>l \<in> set ls. is_regular (m l)"
  by (simp add: settled_def)

lemma finish_rule:
  assumes "disk_names B ls"
  shows "tripleD (\<lambda>m D. settled B ls now m D \<and> B \<in> D) (thenD (recover_verify H ls) (os_RemoveDir H B))
    (recovered H B ls now J) (\<lambda>m D. settled B ls now m D \<and> \<not> calm H)"
proof (rule tripleD_then [where ?P1.0 = "\<lambda>m D. settled B ls now m D \<and> B \<in> D"])
  show "tripleD (\<lambda>m D. settled B ls now m D \<and> B \<in> D) (recover_verify H ls)
      (\<lambda>r. case r of None \<Rightarrow> \<lambda>m D. settled B ls now m D \<and> B \<in> D | Some e \<Rightarrow> recovered H B ls now J (Some e)) (\<lambda>m D. settled B ls now m D \<and> \<not> calm H)"
    by (rule tripleD_post [OF verify_rule]) (auto simp: recovered_def dest: settled_regular split: option.splits)
  show "tripleD (\<lambda>m D. settled B ls now m D \<and> B \<in> D) (os_RemoveDir H B) (recovered H B ls now J) (\<lambda>m D. settled B ls now m D \<and> \<not> calm H)"
    by (rule tripleD_post [OF RemoveDir_settled [OF assms]]) (auto simp: recovered_def)
qed

text \<open>The start of a recovery: the directory is read and its entries are checked.\<close>

lemma recover_start:
  assumes known: "\<And>m D e. J m D \<Longrightarrow> m (B, fst e) = Some (snd e) \<Longrightarrow> known_entry ls m B e"
    and quiet: "\<And>m D. J m D \<Longrightarrow> B \<notin> D \<Longrightarrow> settled B ls now m D"
    and commit: "\<And>es. restoreCommitMarker \<in> fst ` set es \<Longrightarrow> tripleD (\<lambda>m D. J m D \<and> B \<in> D \<and> entries_of m B es) (discardCommittedBackups H B) (recovered H B ls now J) (\<lambda>m D. (J m D \<or> settled B ls now m D) \<and> \<not> calm H)"
    and undo: "\<And>es. restoreCommitMarker \<notin> fst ` set es \<Longrightarrow> tripleD (\<lambda>m D. J m D \<and> B \<in> D \<and> entries_of m B es) (thenD (recover_move H B ls es) (thenD (recover_verify H ls) (os_RemoveDir H B)))
      (recovered H B ls now J) (\<lambda>m D. (J m D \<or> settled B ls now m D) \<and> \<not> calm H)"
  shows "tripleD J (recoverWritableSet H B ls) (recovered H B ls now J) (\<lambda>m D. (J m D \<or> settled B ls now m D) \<and> \<not> calm H)"
proof -
  let ?Q = "recovered H B ls now J" and ?R = "\<lambda>m D. (J m D \<or> settled B ls now m D) \<and> \<not> calm H"
  let ?here = "\<lambda>es m D. J m D \<and> B \<in> D \<and> entries_of m B es"
  have scan: "tripleD (?here es) (recover_scan H B ls False es)
      (\<lambda>r m D. ?here es m D \<and> (case r of Inl _ \<Rightarrow> \<not> calm H | Inr c \<Rightarrow> c = (restoreCommitMarker \<in> fst ` set es))) (\<lambda>m D. ?here es m D \<and> \<not> calm H)" for es
  proof -
    have all: "\<And>m D. ?here es m D \<Longrightarrow> \<forall>e \<in> set es. known_entry ls m B e"
    proof
      fix m D e assume that: "?here es m D" and "e \<in> set es"
      then have "m (B, fst e) = Some (snd e)" using that unfolding entries_of_def by (metis prod.collapse)
      then show "known_entry ls m B e" using that by (blast intro: known)
    qed
    have "tripleD (?here es) (recover_scan H B ls False es)
      (\<lambda>r m D. ?here es m D \<and> (case r of Inl _ \<Rightarrow> \<not> calm H | Inr c \<Rightarrow> c = (False \<or> restoreCommitMarker \<in> fst ` set es))) (\<lambda>m D. ?here es m D \<and> \<not> calm H)"
      by (rule scan_rule) (erule all)
    then show ?thesis by (simp only: simp_thms)
  qed
  have decided: "tripleD (\<lambda>m D. ?here es m D \<and> (case r of Inl _ \<Rightarrow> \<not> calm H | Inr c \<Rightarrow> c = (restoreCommitMarker \<in> fst ` set es)))
      (case r of Inl e \<Rightarrow> retD (Some e) | Inr True \<Rightarrow> discardCommittedBackups H B
       | Inr False \<Rightarrow> thenD (recover_move H B ls es) (thenD (recover_verify H ls) (os_RemoveDir H B))) ?Q ?R" for r es
  proof (cases r)
    case (Inl e)
    then show ?thesis by (auto intro!: tripleD_ret simp: recovered_def)
  next
    case (Inr c)
    show ?thesis
    proof (cases "c = (restoreCommitMarker \<in> fst ` set es)")
      case True
      then show ?thesis using commit [of es] undo [of es] by (cases c) (simp_all add: Inr)
    qed (auto intro: tripleD_contra simp: Inr)
  qed
  have read: "tripleD J (os_ReadDir H B) (\<lambda>r m D. case r of Inl e \<Rightarrow> J m D \<and> (if errors_Is e os_ErrNotExist then B \<notin> D else \<not> calm H) | Inr es \<Rightarrow> ?here es m D) ?R"
    by (rule ReadDir_rule) (auto simp: fault_error_def)
  have after: "tripleD (\<lambda>m D. case r of Inl e \<Rightarrow> J m D \<and> (if errors_Is e os_ErrNotExist then B \<notin> D else \<not> calm H) | Inr es \<Rightarrow> ?here es m D)
      (case r of Inl e \<Rightarrow> retD (if errors_Is e os_ErrNotExist then None else Some e) | Inr es \<Rightarrow> bindD (recover_scan H B ls False es) (\<lambda>r. case r of
         Inl e \<Rightarrow> retD (Some e) | Inr True \<Rightarrow> discardCommittedBackups H B
       | Inr False \<Rightarrow> thenD (recover_move H B ls es) (thenD (recover_verify H ls) (os_RemoveDir H B)))) ?Q ?R" for r
  proof (cases r)
    case (Inl e)
    then show ?thesis using quiet by (auto intro!: tripleD_ret simp: recovered_def)
  next
    case (Inr es)
    have "tripleD (?here es) (recover_scan H B ls False es)
      (\<lambda>r m D. ?here es m D \<and> (case r of Inl _ \<Rightarrow> \<not> calm H | Inr c \<Rightarrow> c = (restoreCommitMarker \<in> fst ` set es))) ?R"
      by (rule tripleD_post [OF scan]) auto
    from tripleD_bind [OF this decided] show ?thesis by (simp add: Inr)
  qed
  show ?thesis unfolding recoverWritableSet_def
    by (rule tripleD_then [where ?P1.0 = J, OF callD_rule tripleD_bind [OF read after]]) (auto simp: recovered_def)
qed

definition old_side :: "string \<Rightarrow> fpath list \<Rightarrow> (fpath \<Rightarrow> fnode option) \<Rightarrow> (fpath \<Rightarrow> fnode option) \<Rightarrow> assertion" where
  "old_side B ls old new m D \<longleftrightarrow> open_journal B ls old new m D \<or> settled B ls old m D"

definition new_side :: "string \<Rightarrow> fpath list \<Rightarrow> (fpath \<Rightarrow> fnode option) \<Rightarrow> assertion" where
  "new_side B ls new m D \<longleftrightarrow> sealed_journal B ls new m D \<or> settled B ls new m D"

lemma recover_old:
  fixes new
  assumes "disk_names B ls" and "\<forall>l \<in> set ls. is_regular (old l)"
  defines "J \<equiv> old_side B ls old new"
  shows "tripleD J (recoverWritableSet H B ls) (recovered H B ls old J) (\<lambda>m D. J m D \<and> \<not> calm H)"
proof -
  have none: "J m D \<Longrightarrow> m (B, restoreCommitMarker) = None" for m D
    using open_no_marker [OF assms(1)] by (auto simp: J_def old_side_def settled_def)
  have settle: "open_journal B ls old new m D \<Longrightarrow> \<forall>n. m (B, n) = None \<Longrightarrow> settled B ls old m D" for m D
    using open_empty [OF _ assms(2), of B new m D "{}"] by auto
  have side: "open_journal B ls old new m D \<Longrightarrow> J m D" "settled B ls old m D \<Longrightarrow> J m D" for m D by (simp_all add: J_def old_side_def)
  have dirs: "open_journal B ls old new m D \<Longrightarrow> B \<in> D" for m D by (simp add: open_journal_def)
  have opened: "open_journal B ls old new m D" if "J m D" "B \<in> D" for m D
    using that by (auto simp: J_def old_side_def settled_def open_journal_def slot_def tidy_def backup_of_def)
  have move: "tripleD (\<lambda>m D. J m D \<and> B \<in> D \<and> entries_of m B es) (recover_move H B ls es)
      (\<lambda>r. case r of None \<Rightarrow> \<lambda>m D. settled B ls old m D \<and> B \<in> D | Some e \<Rightarrow> recovered H B ls old J (Some e)) (\<lambda>m D. J m D \<and> \<not> calm H)" for es
  proof (cases "distinct (map fst es)")
    case True
    have pre: "open_journal B ls old new m D \<and> (\<forall>n x. m (B, n) = Some x \<longleftrightarrow> (n, x) \<in> set es)" if "J m D \<and> B \<in> D \<and> entries_of m B es" for m D
      using that opened by (simp add: entries_of_def)
    show ?thesis
      by (rule tripleD_post [OF tripleD_pre [OF move_rule [OF assms(1) True] pre]])
        (use settle side dirs in \<open>auto simp: recovered_def split: option.splits\<close>)
  qed (auto intro: tripleD_contra simp: entries_of_def)
  have finish: "tripleD (\<lambda>m D. settled B ls old m D \<and> B \<in> D) (thenD (recover_verify H ls) (os_RemoveDir H B)) (recovered H B ls old J) (\<lambda>m D. J m D \<and> \<not> calm H)"
    by (rule tripleD_post [OF finish_rule [OF assms(1)]]) (auto simp: J_def old_side_def)
  have "tripleD J (recoverWritableSet H B ls) (recovered H B ls old J) (\<lambda>m D. (J m D \<or> settled B ls old m D) \<and> \<not> calm H)"
  proof (rule recover_start)
    fix m D and e :: "string \<times> fnode" assume J: "J m D" and e: "m (B, fst e) = Some (snd e)"
    then have opened: "open_journal B ls old new m D" by (auto simp: J_def old_side_def settled_def)
    show "known_entry ls m B e"
    proof (cases "fst e \<in> snd ` set ls")
      case True
      then obtain l where l: "l \<in> set ls" "fst e = snd l" by blast
      then have "is_regular (m (backup_of B l))" using open_slot_backup [where m = m, OF opened l(1)] e is_data_regular by (simp add: backup_of_def)
      then show ?thesis using l e wanted_live [OF assms(1) l(1)] none [OF J] by (auto simp: known_entry_def backup_of_def)
    next
      case False
      then have "fst e = restoreCommitStage \<and> is_regular (m (B, fst e))" using opened e unfolding open_journal_def tidy_def by blast
      then show ?thesis using e by (simp add: known_entry_def)
    qed
  next
    show "J m D \<Longrightarrow> B \<notin> D \<Longrightarrow> settled B ls old m D" for m D by (auto simp: J_def old_side_def open_journal_def)
  next
    fix es :: "(string \<times> fnode) list" assume "restoreCommitMarker \<in> fst ` set es"
    then obtain x where "(restoreCommitMarker, x) \<in> set es" by auto
    then have "\<not> (J m D \<and> B \<in> D \<and> entries_of m B es)" for m D using none [of m D] unfolding entries_of_def by (metis option.distinct(1))
    then show "tripleD (\<lambda>m D. J m D \<and> B \<in> D \<and> entries_of m B es) (discardCommittedBackups H B) (recovered H B ls old J) (\<lambda>m D. (J m D \<or> settled B ls old m D) \<and> \<not> calm H)"
      by (rule tripleD_contra)
  next
    fix es :: "(string \<times> fnode) list"
    show "tripleD (\<lambda>m D. J m D \<and> B \<in> D \<and> entries_of m B es) (thenD (recover_move H B ls es) (thenD (recover_verify H ls) (os_RemoveDir H B)))
      (recovered H B ls old J) (\<lambda>m D. (J m D \<or> settled B ls old m D) \<and> \<not> calm H)"
      by (rule tripleD_post [OF tripleD_then [OF move finish]]) auto
  qed
  then show ?thesis by (rule tripleD_post) (auto simp: J_def old_side_def)
qed

lemma recover_new:
  fixes new
  assumes "disk_names B ls"
  defines "J \<equiv> new_side B ls new"
  shows "tripleD J (recoverWritableSet H B ls) (recovered H B ls new J) (\<lambda>m D. J m D \<and> \<not> calm H)"
proof -
  have side: "sealed_journal B ls new m D \<Longrightarrow> J m D" "settled B ls new m D \<Longrightarrow> J m D" for m D by (simp_all add: J_def new_side_def)
  have entry: "settled B ls new m D \<Longrightarrow> m (B, n) = None" for m D n by (simp add: settled_def)
  have "tripleD J (recoverWritableSet H B ls) (recovered H B ls new J) (\<lambda>m D. (J m D \<or> settled B ls new m D) \<and> \<not> calm H)"
  proof (rule recover_start)
    fix m D and e :: "string \<times> fnode" assume "J m D" and e: "m (B, fst e) = Some (snd e)"
    then have sealed: "sealed_journal B ls new m D" using entry [of m D "fst e"] by (auto simp: J_def new_side_def)
    show "known_entry ls m B e"
    proof (cases "fst e \<in> snd ` set ls")
      case True
      then obtain l where l: "l \<in> set ls" "fst e = snd l" by blast
      moreover from this have "\<forall>l \<in> set ls. m (backup_of B l) \<noteq> None \<longrightarrow> is_regular (m (backup_of B l))" using sealed unfolding sealed_journal_def by blast
      ultimately have "is_regular (m (backup_of B l))" using e by (auto simp: backup_of_def)
      then show ?thesis using l e wanted_live [OF assms(1) l(1)] sealed by (auto simp: known_entry_def backup_of_def sealed_journal_def)
    next
      case False
      then have "fst e = restoreCommitMarker \<and> is_regular (m (B, fst e))" using sealed e unfolding sealed_journal_def tidy_def by blast
      then show ?thesis using e sealed by (simp add: known_entry_def sealed_journal_def)
    qed
  next
    show "J m D \<Longrightarrow> B \<notin> D \<Longrightarrow> settled B ls new m D" for m D by (auto simp: J_def new_side_def sealed_journal_def)
  next
    fix es :: "(string \<times> fnode) list" assume "restoreCommitMarker \<in> fst ` set es"
    then obtain x where x: "(restoreCommitMarker, x) \<in> set es" by auto
    have "sealed_journal B ls new m D" if "J m D \<and> B \<in> D \<and> entries_of m B es" for m D
    proof -
      have "m (B, restoreCommitMarker) = Some x" using that x by (simp add: entries_of_def)
      then show ?thesis using that entry [of m D restoreCommitMarker] by (auto simp: J_def new_side_def)
    qed
    then show "tripleD (\<lambda>m D. J m D \<and> B \<in> D \<and> entries_of m B es) (discardCommittedBackups H B) (recovered H B ls new J) (\<lambda>m D. (J m D \<or> settled B ls new m D) \<and> \<not> calm H)"
      by (rule tripleD_post [OF tripleD_pre [OF discard_rule [OF assms(1)]]]) (auto simp: discarded_def recovered_def intro: side)
  next
    fix es :: "(string \<times> fnode) list" assume no: "restoreCommitMarker \<notin> fst ` set es"
    show "tripleD (\<lambda>m D. J m D \<and> B \<in> D \<and> entries_of m B es) (thenD (recover_move H B ls es) (thenD (recover_verify H ls) (os_RemoveDir H B)))
      (recovered H B ls new J) (\<lambda>m D. (J m D \<or> settled B ls new m D) \<and> \<not> calm H)"
    proof (cases "es = []")
      case True
      have quiet: "settled B ls new m D \<and> B \<in> D" if "J m D \<and> B \<in> D \<and> entries_of m B es" for m D
      proof -
        have "m (B, restoreCommitMarker) = None" using that True by (simp add: entries_of_def)
        then show ?thesis using that by (auto simp: J_def new_side_def sealed_journal_def)
      qed
      have "thenD (recover_move H B ls es) k = k" for k using True by (simp add: thenD_def bindD_def retD_def)
      moreover have "tripleD (\<lambda>m D. J m D \<and> B \<in> D \<and> entries_of m B es) (thenD (recover_verify H ls) (os_RemoveDir H B))
        (recovered H B ls new J) (\<lambda>m D. (J m D \<or> settled B ls new m D) \<and> \<not> calm H)"
        by (rule tripleD_post [OF tripleD_pre [OF finish_rule [OF assms(1)] quiet]]) auto
      ultimately show ?thesis by (simp only:)
    next
      case False
      then obtain n x where nx: "(n, x) \<in> set es" by (cases es) auto
      have "\<not> (J m D \<and> B \<in> D \<and> entries_of m B es)" for m D
      proof
        assume a: "J m D \<and> B \<in> D \<and> entries_of m B es"
        then have "m (B, n) = Some x" using nx by (simp add: entries_of_def)
        then have "sealed_journal B ls new m D" using a entry [of m D n] by (auto simp: J_def new_side_def)
        then have "(restoreCommitMarker, N_file ''1'') \<in> set es" using a by (simp add: entries_of_def sealed_journal_def)
        then show False using no by force
      qed
      then show ?thesis by (rule tripleD_contra)
    qed
  qed
  then show ?thesis by (rule tripleD_post) (auto simp: side)
qed

section \<open>The replacement is atomic\<close>

text \<open>A recovery on any host, which may fail or die.\<close>

inductive recovery_step :: "string \<Rightarrow> fpath list \<Rightarrow> disks \<Rightarrow> disks \<Rightarrow> bool" for B ls where
  attempt: "recoverWritableSet H B ls s = (r, s') \<Longrightarrow> recovery_step B ls s s'"

definition quiet_host :: diskHost where
  "quiet_host n op = F_ok"

text \<open>The disk that a replacement puts at a live path: the staged file, or the present one.\<close>

definition new_disk :: "DiskFile list \<Rightarrow> disks \<Rightarrow> fpath \<Rightarrow> fnode option" where
  "new_disk files s l = (case map_of (map (\<lambda>f. (df_Destination f, df_Source f)) files) l of None \<Rightarrow> look s l | Some src \<Rightarrow> look s src)"

lemma check_files_distinct: "check_files seen fs = None \<Longrightarrow> distinct (map df_Destination fs) \<and> (\<forall>f \<in> set fs. snd (df_Destination f) \<notin> set seen)"
proof (induction fs arbitrary: seen)
  case (Cons f fs)
  then have rest: "check_files (snd (df_Destination f) # seen) fs = None" and "snd (df_Destination f) \<notin> set seen" by (simp_all split: if_splits)
  with Cons.IH [OF rest] show ?case by auto
qed simp

lemma tripleD_run: "tripleD P c Q R \<Longrightarrow> P (look s) (set (ds_dirs s)) \<Longrightarrow> c s = (r, s') \<Longrightarrow>
    (case r of Some x \<Rightarrow> Q x (look s') (set (ds_dirs s')) | None \<Rightarrow> R (look s') (set (ds_dirs s')))"
  by (auto simp: tripleD_def split: option.splits prod.splits)

lemma new_disk_file:
  assumes "distinct (map df_Destination files)" and "f \<in> set files"
  shows "new_disk files s (df_Destination f) = look s (df_Source f)"
proof -
  have "map_of (map (\<lambda>f. (df_Destination f, df_Source f)) files) (df_Destination f) = Some (df_Source f)"
    using assms by (intro map_of_is_SomeI) (auto simp: comp_def)
  then show ?thesis by (simp add: new_disk_def)
qed

lemma new_disk_other: "l \<notin> df_Destination ` set files \<Longrightarrow> new_disk files s l = look s l"
proof -
  assume "l \<notin> df_Destination ` set files"
  then have "map_of (map (\<lambda>f. (df_Destination f, df_Source f)) files) l = None" by (force simp: map_of_eq_None_iff)
  then show ?thesis by (simp add: new_disk_def)
qed

lemma replace_rule:
  fixes s0 files
  defines "old \<equiv> look s0" and "new \<equiv> new_disk files s0"
  assumes "disk_names B ls" and "\<forall>l \<in> set ls. is_regular (look s0 l) \<and> fst l \<in> set (ds_dirs s0)"
    and "B \<notin> set (ds_dirs s0)" "\<forall>n. look s0 (B, n) = None" and "staged_for B ls files" and "\<not> may_fail H (O_lstat (B, restoreCommitMarker))"
  shows "tripleD (\<lambda>m D. m = look s0 \<and> D = set (ds_dirs s0)) (replaceWritableSet H files B (Publish H)) (replaced B ls old new) (journal B ls old new)"
proof -
  let ?P = "\<lambda>m D. m = look s0 \<and> D = set (ds_dirs s0)"
  have start: "settled B ls old m D \<and> B \<notin> D" if "?P m D" for m D using that assms(4-6) by (auto simp: settled_def old_def)
  then have refused: "tripleD ?P (retD (Some e)) (replaced B ls old new) (journal B ls old new)" for e
    by (intro tripleD_ret) (auto simp: replaced_def journal_def)
  show ?thesis
  proof (cases "check_files [] files")
    case None
    then have dist: "distinct (map df_Destination files)" using check_files_distinct by blast
    have begun: "replacing B ls old new [] files m (insert B D)" if "?P m D" for m D
      using that assms(3-6) new_disk_file [OF dist, of _ s0]
      by (auto simp: replacing_def open_journal_def slot_def tidy_def backup_of_def old_def new_def)
    have mkdir: "tripleD ?P (os_Mkdir H B) (\<lambda>r. case r of None \<Rightarrow> replacing B ls old new [] files | Some e \<Rightarrow> ?P) (journal B ls old new)"
      by (rule Mkdir_rule) (use begun start assms(5) in \<open>auto simp: journal_def\<close>)
    have loop: "tripleD (replacing B ls old new [] files) (replace_loop H (Publish H) B [] files) (replaced B ls old new) (journal B ls old new)"
      by (rule replace_loop_rule [OF assms(3) _ assms(8,7)]) (use assms(4) dist new_disk_other in \<open>auto simp: old_def new_def\<close>)
    have "tripleD (case r of None \<Rightarrow> replacing B ls old new [] files | Some e \<Rightarrow> ?P) (case r of Some e \<Rightarrow> retD (Some (Wrap ''create restore disk backup: '' e))
        | None \<Rightarrow> replace_loop H (Publish H) B [] files) (replaced B ls old new) (journal B ls old new)" for r
      using loop refused by (cases r) simp_all
    from tripleD_bind [OF mkdir this] refused show ?thesis by (cases "files = []") (simp_all add: replaceWritableSet_def None)
  qed (use refused in \<open>cases "files = []"; simp add: replaceWritableSet_def\<close>)
qed

lemma recoveries_keep:
  assumes "(recovery_step B ls)\<^sup>*\<^sup>* s s'" and "\<And>H. tripleD J (recoverWritableSet H B ls) (\<lambda>_. J) J" and "J (look s) (set (ds_dirs s))"
  shows "J (look s') (set (ds_dirs s'))"
  using assms(1)
proof (induction rule: rtranclp_induct)
  case (step y z)
  from step.hyps(2) obtain H r where "recoverWritableSet H B ls y = (r, z)" by (cases rule: recovery_step.cases)
  from tripleD_run [OF assms(2) step.IH this] show ?case by (auto split: option.splits)
qed (rule assms(3))

lemma quiet_calm: "calm quiet_host"
  by (simp add: calm_def quiet_host_def)

text \<open>Once the side is known, recoveries end there.\<close>

lemma recovery_settles:
  assumes rule: "\<And>H. tripleD J (recoverWritableSet H B ls) (recovered H B ls now J) (\<lambda>m D. J m D \<and> \<not> calm H)"
    and side: "\<And>m D. settled B ls now m D \<Longrightarrow> J m D" and "J (look s1) (set (ds_dirs s1))"
    and "(recovery_step B ls)\<^sup>*\<^sup>* s1 s2" and "recoverWritableSet quiet_host B ls s2 = (r, s3)"
  shows "r = Some None \<and> B \<notin> set (ds_dirs s3) \<and> (\<forall>l \<in> set ls. look s3 l = now l)"
proof -
  have "tripleD J (recoverWritableSet H B ls) (\<lambda>_. J) J" for H
    by (rule tripleD_post [OF rule]) (auto simp: recovered_def intro: side)
  from recoveries_keep [OF assms(4) this assms(3)] have "J (look s2) (set (ds_dirs s2))" .
  from tripleD_run [OF rule this assms(5)] show ?thesis
    using quiet_calm by (auto simp: recovered_def settled_def split: option.splits)
qed

text \<open>C6. The writable disks of a sandbox are replaced while operations on the file system fail and the process dies at
  any point, and recoveries run that fail or die as well. The next recovery whose operations succeed returns without
  an error, removes the journal and leaves every disk of the old set or every disk of the new set: the new one if
  the replacement returned without an error, the old one if it returned an error and no journal. The one operation
  that must not fail is the look at the marker after its publication failed (\<open>unreadable_marker_mixes_disks\<close>). At the
  start the disks are regular files, the new ones are staged outside the journal, and there is no journal.\<close>

theorem disk_replacement_atomic:
  assumes "disk_names B ls" and "\<forall>l \<in> set ls. is_regular (look s0 l) \<and> fst l \<in> set (ds_dirs s0)"
    and "B \<notin> set (ds_dirs s0)" and "\<forall>n. look s0 (B, n) = None" and "staged_for B ls files"
    and "\<forall>n t. H n (O_lstat (B, restoreCommitMarker)) \<noteq> F_fail t"
    and "replaceWritableSet H files B (Publish H) s0 = (r, s1)" and "(recovery_step B ls)\<^sup>*\<^sup>* s1 s2" and "recoverWritableSet quiet_host B ls s2 = (r', s3)"
  shows "r' = Some None \<and> B \<notin> set (ds_dirs s3)
    \<and> ((\<forall>l \<in> set ls. look s3 l = look s0 l) \<or> (\<forall>l \<in> set ls. look s3 l = new_disk files s0 l))
    \<and> (r = Some None \<longrightarrow> (\<forall>l \<in> set ls. look s3 l = new_disk files s0 l))
    \<and> (r \<noteq> None \<and> r \<noteq> Some None \<and> B \<notin> set (ds_dirs s1) \<longrightarrow> (\<forall>l \<in> set ls. look s3 l = look s0 l))"
proof -
  let ?old = "look s0" and ?new = "new_disk files s0"
  have reg: "\<forall>l \<in> set ls. is_regular (look s0 l)" using assms(2) by simp
  have "\<not> may_fail H (O_lstat (B, restoreCommitMarker))" using assms(6) by (simp add: may_fail_def)
  note replace = replace_rule [OF assms(1-5) this]
  have run: "case r of Some x \<Rightarrow> replaced B ls ?old ?new x (look s1) (set (ds_dirs s1)) | None \<Rightarrow> journal B ls ?old ?new (look s1) (set (ds_dirs s1))"
    by (rule tripleD_run [OF replace _ assms(7)]) simp
  note old = recovery_settles [OF recover_old [where new = ?new, OF assms(1) reg] _ _ assms(8,9)]
  note new = recovery_settles [OF recover_new [where new = ?new, OF assms(1)] _ _ assms(8,9)]
  have sides: "old_side B ls ?old ?new (look s1) (set (ds_dirs s1)) \<or> new_side B ls ?new (look s1) (set (ds_dirs s1))"
    using run by (auto simp: replaced_def journal_def old_side_def new_side_def split: option.splits)
  have "r = Some None \<Longrightarrow> new_side B ls ?new (look s1) (set (ds_dirs s1))" using run by (simp add: replaced_def new_side_def)
  moreover have "r \<noteq> None \<and> r \<noteq> Some None \<and> B \<notin> set (ds_dirs s1) \<Longrightarrow> old_side B ls ?old ?new (look s1) (set (ds_dirs s1))"
    using run by (auto simp: replaced_def old_side_def)
  ultimately show ?thesis using sides old new by (simp add: old_side_def new_side_def) blast
qed

section \<open>Two disks\<close>

definition sample_cow :: fpath where "sample_cow = (''/s'', ''cow.raw'')"
definition sample_data :: fpath where "sample_data = (''/s'', ''data-db.raw'')"

definition sample_files :: "DiskFile list" where
  "sample_files = [\<lparr>df_Source = (''/t'', ''cow''), df_Destination = sample_cow\<rparr>, \<lparr>df_Source = (''/t'', ''db''), df_Destination = sample_data\<rparr>]"

definition sample_disks :: disks where
  "sample_disks = \<lparr>ds_files = [(sample_cow, N_file ''old cow''), (sample_data, N_file ''old data''), ((''/t'', ''cow''), N_file ''new cow''),
     ((''/t'', ''db''), N_file ''new data'')], ds_dirs = [''/s'', ''/t''], ds_step = 0\<rparr>"

text \<open>A host on which the process dies between the two publications of the second disk.\<close>

definition dying_host :: diskHost where
  "dying_host n op = (if op = O_rename (''/t'', ''db'') sample_data then F_crash else F_ok)"

definition sample_crashed :: disks where
  "sample_crashed = snd (replaceWritableSet dying_host sample_files ''/b'' (Publish dying_host) sample_disks)"

lemma sample_two_disks:
  "disk_names ''/b'' [sample_cow, sample_data]" "staged_for ''/b'' [sample_cow, sample_data] sample_files"
  "\<forall>l \<in> set [sample_cow, sample_data]. is_regular (look sample_disks l) \<and> fst l \<in> set (ds_dirs sample_disks)"
  "''/b'' \<notin> set (ds_dirs sample_disks)" "\<forall>n. look sample_disks (''/b'', n) = None"
  by (auto simp: disk_names_def staged_for_def sample_cow_def sample_data_def sample_files_def sample_disks_def look_def is_regular_def)

lemma sample_new: "map (new_disk sample_files sample_disks) [sample_cow, sample_data] = [Some (N_file ''new cow''), Some (N_file ''new data'')]"
  by (simp add: new_disk_def sample_files_def sample_disks_def sample_cow_def sample_data_def look_def)

theorem disk_replacement_atomic_witness:
  "let s = snd (recoverWritableSet quiet_host ''/b'' [sample_cow, sample_data] sample_crashed) in
   (look s sample_cow, look s sample_data) = (Some (N_file ''old cow''), Some (N_file ''old data''))
   \<or> (look s sample_cow, look s sample_data) = (Some (N_file ''new cow''), Some (N_file ''new data''))"
proof -
  have probe: "\<forall>n t. dying_host n (O_lstat (''/b'', restoreCommitMarker)) \<noteq> F_fail t" by (simp add: dying_host_def)
  have run: "replaceWritableSet dying_host sample_files ''/b'' (Publish dying_host) sample_disks
      = (fst (replaceWritableSet dying_host sample_files ''/b'' (Publish dying_host) sample_disks), sample_crashed)"
    by (simp add: sample_crashed_def)
  from disk_replacement_atomic [OF sample_two_disks(1,3,4,5,2) probe run rtranclp.rtrancl_refl prod.collapse [symmetric]]
  have "(look s sample_cow = look sample_disks sample_cow \<and> look s sample_data = look sample_disks sample_data)
      \<or> (look s sample_cow = new_disk sample_files sample_disks sample_cow \<and> look s sample_data = new_disk sample_files sample_disks sample_data)"
    if "s = snd (recoverWritableSet quiet_host ''/b'' [sample_cow, sample_data] sample_crashed)" for s
    using that by simp
  then show ?thesis using sample_new by (simp add: Let_def sample_disks_def look_def sample_cow_def sample_data_def)
qed

text \<open>The proviso is needed. The marker is published but its directory cannot be synced, the look at the marker fails, the
  rollback restores one disk and cannot restore the other: the next recovery finds the marker, discards the last
  old disk and leaves a mixed set.\<close>

definition blind_host :: diskHost where
  "blind_host n op = (if op = O_lstat (''/b'', restoreCommitMarker) \<or> op = O_rename (''/b'', ''cow.raw'') sample_cow \<or> (op = O_syncDir ''/b'' \<and> 35 \<le> n)
     then F_fail ''EIO'' else F_ok)"

lemma unreadable_marker_mixes_disks:
  "let s1 = snd (replaceWritableSet blind_host sample_files ''/b'' (Publish blind_host) sample_disks);
       (r, s) = recoverWritableSet quiet_host ''/b'' [sample_cow, sample_data] s1
   in r = Some None \<and> look s sample_cow = Some (N_file ''new cow'') \<and> look s sample_data = Some (N_file ''old data'')"
  by code_simp

end
