(* ===== verification/Json_Text.thy ===== *)
theory Json_Text
  imports Go_Lib
begin

text \<open>
  What \<open>encoding/json\<close> gives back for a Go string. A Go string is any sequence of bytes; marshalling replaces every
  byte that is not part of a UTF-8 sequence by the replacement character U+FFFD, and unmarshalling reads the
  resulting text as it is. Text that is UTF-8 survives unchanged.
\<close>

section \<open>UTF-8\<close>

definition byte_of :: "char \<Rightarrow> nat" where
  "byte_of c = of_char c"

definition continuation :: "char \<Rightarrow> bool" where
  "continuation c \<longleftrightarrow> 0x80 \<le> byte_of c \<and> byte_of c \<le> 0xBF"

text \<open>The second byte of a three or four byte sequence, by the first: no overlong forms, no surrogates, nothing
  beyond U+10FFFF.\<close>

definition second_ok :: "nat \<Rightarrow> char \<Rightarrow> bool" where
  "second_ok b c \<longleftrightarrow> (if b = 0xE0 then 0xA0 else if b = 0xF0 then 0x90 else 0x80) \<le> byte_of c
     \<and> byte_of c \<le> (if b = 0xED then 0x9F else if b = 0xF4 then 0x8F else 0xBF)"

text \<open>\<open>utf8.DecodeRuneInString\<close>: the length of the sequence at the start, or 0 if it is invalid.\<close>

definition rune_size :: "string \<Rightarrow> nat" where
  "rune_size s = (case s of [] \<Rightarrow> 0 | c # cs \<Rightarrow>
     (let b = byte_of c in
      if b < 0x80 then 1
      else if 0xC2 \<le> b \<and> b \<le> 0xDF then (case cs of c1 # _ \<Rightarrow> if continuation c1 then 2 else 0 | [] \<Rightarrow> 0)
      else if 0xE0 \<le> b \<and> b \<le> 0xEF then (case cs of c1 # c2 # _ \<Rightarrow> if second_ok b c1 \<and> continuation c2 then 3 else 0 | _ \<Rightarrow> 0)
      else if 0xF0 \<le> b \<and> b \<le> 0xF4 then
        (case cs of c1 # c2 # c3 # _ \<Rightarrow> if second_ok b c1 \<and> continuation c2 \<and> continuation c3 then 4 else 0 | _ \<Rightarrow> 0)
      else 0))"

definition replacement :: string where
  "replacement = [CHR 0xEF, CHR 0xBF, CHR 0xBD]"

text \<open>The string that is read back, and \<open>utf8.ValidString\<close>.\<close>

function json_string :: "string \<Rightarrow> string" where
  "json_string [] = []"
| "json_string (c # cs) = (let k = rune_size (c # cs) in
     if k = 0 then replacement @ json_string cs else take k (c # cs) @ json_string (drop (k - 1) cs))"
  by pat_completeness auto
termination by (relation "measure length") auto

function utf8_valid :: "string \<Rightarrow> bool" where
  "utf8_valid [] = True"
| "utf8_valid (c # cs) = (let k = rune_size (c # cs) in k \<noteq> 0 \<and> utf8_valid (drop (k - 1) cs))"
  by pat_completeness auto
termination by (relation "measure length") auto

lemma json_string_valid: "utf8_valid s \<Longrightarrow> json_string s = s"
proof (induction s rule: json_string.induct)
  case (2 c cs)
  then have "rune_size (c # cs) \<noteq> 0" by (simp add: Let_def)
  then obtain k where "rune_size (c # cs) = Suc k" by (cases "rune_size (c # cs)") auto
  then show ?case using 2 by (simp add: Let_def)
qed simp

lemma rune_size_ascii: "byte_of c < 0x80 \<Longrightarrow> rune_size (c # cs) = 1"
  by (simp add: rune_size_def)

lemma ascii_valid: "list_all (\<lambda>c. byte_of c < 0x80) s \<Longrightarrow> utf8_valid s"
  by (induction s) (simp_all add: rune_size_ascii Let_def)

lemma rune_size_replacement: "rune_size (replacement @ s) = 3"
  by (simp add: rune_size_def replacement_def byte_of_def continuation_def second_ok_def)

lemma rune_size_take:
  assumes "rune_size (c # cs) = k" and "k \<noteq> 0"
  shows "k \<le> length (c # cs) \<and> rune_size (take k (c # cs) @ t) = k"
proof -
  let ?b = "byte_of c"
  consider "?b < 0x80" | "0xC2 \<le> ?b \<and> ?b \<le> 0xDF" | "0xE0 \<le> ?b \<and> ?b \<le> 0xEF" | "0xF0 \<le> ?b \<and> ?b \<le> 0xF4"
    using assms by (auto simp: rune_size_def Let_def split: if_splits)
  then show ?thesis
  proof cases
    case 2
    then obtain c1 r where "cs = c1 # r" "continuation c1" "k = 2" using assms by (cases cs) (auto simp: rune_size_def split: if_splits)
    then show ?thesis using 2 by (simp add: rune_size_def)
  next
    case 3
    then obtain c1 c2 r where cs: "cs = c1 # c2 # r" using assms by (cases cs; cases "tl cs") (auto simp: rune_size_def)
    then have "second_ok ?b c1" "continuation c2" "k = 3" using 3 assms by (auto simp: rune_size_def split: if_splits)
    then show ?thesis using 3 cs by (simp add: rune_size_def numeral_3_eq_3)
  next
    case 4
    then obtain c1 c2 c3 r where cs: "cs = c1 # c2 # c3 # r" using assms by (cases cs; cases "tl cs"; cases "tl (tl cs)") (auto simp: rune_size_def)
    then have "second_ok ?b c1" "continuation c2" "continuation c3" "k = 4" using 4 assms by (auto simp: rune_size_def split: if_splits)
    then show ?thesis using 4 cs by (simp add: rune_size_def)
  qed (use assms in \<open>auto simp: rune_size_def\<close>)
qed

text \<open>What is read back is UTF-8, so reading and writing it again changes nothing more.\<close>

lemma utf8_valid_append_rune:
  assumes "rune_size (c # cs) = k" and "k \<noteq> 0" and "utf8_valid t"
  shows "utf8_valid (take k (c # cs) @ t)"
proof -
  have k: "k \<le> length (c # cs)" "rune_size (take k (c # cs) @ t) = k" using rune_size_take [OF assms(1,2)] by auto
  obtain j where j: "k = Suc j" using assms(2) by (cases k) auto
  then have "utf8_valid (take k (c # cs) @ t) = utf8_valid (drop j (take j cs @ t))" using k by (simp add: Let_def)
  moreover have "drop j (take j cs @ t) = t" using k(1) j by simp
  ultimately show ?thesis using assms(3) by simp
qed

lemma utf8_valid_json: "utf8_valid (json_string s)"
proof (induction s rule: json_string.induct)
  case (2 c cs)
  show ?case
  proof (cases "rune_size (c # cs) = 0")
    case True
    then have "utf8_valid (json_string cs)" using 2 by simp
    then have "utf8_valid (take 3 (CHR 0xEF # [CHR 0xBF, CHR 0xBD]) @ json_string cs)"
      using utf8_valid_append_rune [of "CHR 0xEF" "[CHR 0xBF, CHR 0xBD]" 3] rune_size_replacement [of "[]"] by (simp add: replacement_def)
    then show ?thesis using True by (simp add: replacement_def)
  next
    case False
    then show ?thesis using 2 utf8_valid_append_rune [OF refl False] by (simp add: Let_def)
  qed
qed simp

lemma json_string_idem: "json_string (json_string s) = json_string s"
  by (rule json_string_valid [OF utf8_valid_json])

text \<open>Bytes that are not UTF-8 grow: the text that is read back is three times as long.\<close>

lemma json_string_invalid: "length (json_string (replicate n (CHR 0xFF))) = 3 * n"
proof (induction n)
  case (Suc n)
  have "rune_size (CHR 0xFF # t) = 0" for t by (simp add: rune_size_def byte_of_def)
  then show ?case using Suc by (simp add: replacement_def)
qed simp

end
