(* ===== verification/Json_Records.thy ===== *)
theory Json_Records
  imports Snapshot_Lifecycle Json_Text
begin

text \<open>
  The stored records of sandboxes and snapshots as they are read back from their JSON text: every string goes through
  \<open>json_string\<close>, numbers, booleans and times come back as they are. A sandbox whose strings are UTF-8 is read back as
  itself; in a snapshot catalog whose strings are UTF-8 every record is read back as a valid snapshot.
\<close>

section \<open>Records through JSON\<close>

definition json_policy :: "CPUPolicy \<Rightarrow> CPUPolicy" where
  "json_policy p = p\<lparr>pol_CPUSet := json_string (pol_CPUSet p)\<rparr>"

definition json_disk :: "DataDiskSpec \<Rightarrow> DataDiskSpec" where
  "json_disk d = d\<lparr>dd_Name := json_string (dd_Name d), dd_FSType := json_string (dd_FSType d)\<rparr>"

definition json_ipv4 :: "ipv4Data \<Rightarrow> ipv4Data" where
  "json_ipv4 a = a\<lparr>i4_Address := json_string (i4_Address a), i4_Gateway := json_string (i4_Gateway a)\<rparr>"

definition json_interface :: "networkInterfaceData \<Rightarrow> networkInterfaceData" where
  "json_interface n = n\<lparr>nid_Name := json_string (nid_Name n), nid_TAP := json_string (nid_TAP n), nid_MAC := json_string (nid_MAC n),
     nid_Network := json_string (nid_Network n), nid_IPv4 := map_option json_ipv4 (nid_IPv4 n),
     nid_AddressMode := json_string (nid_AddressMode n), nid_HostAddress := json_string (nid_HostAddress n)\<rparr>"

definition json_network :: "networkData \<Rightarrow> networkData" where
  "json_network n = n\<lparr>nd_Backend := json_string (nd_Backend n), nd_Namespace := json_string (nd_Namespace n),
     nd_Interfaces := map json_interface (nd_Interfaces n)\<rparr>"

definition json_failure :: "failureData \<Rightarrow> failureData" where
  "json_failure f = \<lparr>fd_Phase = json_string (fd_Phase f), fd_Message = json_string (fd_Message f)\<rparr>"

definition json_sandbox :: "recordData \<Rightarrow> recordData" where
  "json_sandbox d = d\<lparr>rd_ID := json_string (rd_ID d), rd_Name := json_string (rd_Name d), rd_CPUPolicy := json_policy (rd_CPUPolicy d),
     rd_COWIOMode := json_string (rd_COWIOMode d), rd_DataDisks := map json_disk (rd_DataDisks d), rd_NetworkName := json_string (rd_NetworkName d),
     rd_NetworkBackend := json_string (rd_NetworkBackend d), rd_Network := map_option json_network (rd_Network d),
     rd_ImageDigest := json_string (rd_ImageDigest d), rd_VMM := json_string (rd_VMM d), rd_State := json_string (rd_State d),
     rd_Failure := map_option json_failure (rd_Failure d)\<rparr>"

definition json_snapshot :: "snapshotData \<Rightarrow> snapshotData" where
  "json_snapshot d = d\<lparr>sd_ID := json_string (sd_ID d), sd_Name := json_string (sd_Name d), sd_Description := json_string (sd_Description d),
     sd_SandboxID := json_string (sd_SandboxID d), sd_SandboxName := json_string (sd_SandboxName d), sd_ImageDigest := json_string (sd_ImageDigest d),
     sd_RegistryReference := json_string (sd_RegistryReference d), sd_VMM := json_string (sd_VMM d), sd_CPUPolicy := json_policy (sd_CPUPolicy d),
     sd_COWIOMode := json_string (sd_COWIOMode d), sd_DataDisks := map json_disk (sd_DataDisks d), sd_NetworkName := json_string (sd_NetworkName d),
     sd_NetworkBackend := json_string (sd_NetworkBackend d)\<rparr>"

text \<open>The strings of a record.\<close>

definition disk_texts :: "DataDiskSpec \<Rightarrow> string list" where
  "disk_texts d = [dd_Name d, dd_FSType d]"

definition ipv4_texts :: "ipv4Data \<Rightarrow> string list" where
  "ipv4_texts a = [i4_Address a, i4_Gateway a]"

definition interface_texts :: "networkInterfaceData \<Rightarrow> string list" where
  "interface_texts n = [nid_Name n, nid_TAP n, nid_MAC n, nid_Network n, nid_AddressMode n, nid_HostAddress n]
     @ (case nid_IPv4 n of None \<Rightarrow> [] | Some a \<Rightarrow> ipv4_texts a)"

definition network_texts :: "networkData \<Rightarrow> string list" where
  "network_texts n = [nd_Backend n, nd_Namespace n] @ concat (map interface_texts (nd_Interfaces n))"

definition record_texts :: "recordData \<Rightarrow> string list" where
  "record_texts d = [rd_ID d, rd_Name d, pol_CPUSet (rd_CPUPolicy d), rd_COWIOMode d, rd_NetworkName d, rd_NetworkBackend d, rd_ImageDigest d,
       rd_VMM d, rd_State d] @ concat (map disk_texts (rd_DataDisks d)) @ (case rd_Network d of None \<Rightarrow> [] | Some n \<Rightarrow> network_texts n)
     @ (case rd_Failure d of None \<Rightarrow> [] | Some f \<Rightarrow> [fd_Phase f, fd_Message f])"

definition snapshot_texts :: "snapshotData \<Rightarrow> string list" where
  "snapshot_texts d = [sd_ID d, sd_Name d, sd_Description d, sd_SandboxID d, sd_SandboxName d, sd_ImageDigest d, sd_RegistryReference d, sd_VMM d,
       pol_CPUSet (sd_CPUPolicy d), sd_COWIOMode d, sd_NetworkName d, sd_NetworkBackend d] @ concat (map disk_texts (sd_DataDisks d))"

lemma json_disks: "list_all utf8_valid (concat (map disk_texts ds)) \<Longrightarrow> map json_disk ds = ds"
  by (induction ds) (simp_all add: disk_texts_def json_disk_def json_string_valid)

lemma json_interfaces: "list_all utf8_valid (concat (map interface_texts ns)) \<Longrightarrow> map json_interface ns = ns"
proof (induction ns)
  case (Cons n ns)
  have "map_option json_ipv4 (nid_IPv4 n) = nid_IPv4 n"
    using Cons.prems by (cases "nid_IPv4 n") (simp_all add: interface_texts_def ipv4_texts_def json_ipv4_def json_string_valid)
  then have "json_interface n = n" using Cons.prems by (simp add: interface_texts_def json_interface_def json_string_valid)
  then show ?case using Cons by simp
qed simp

lemma json_sandbox_valid:
  assumes "list_all utf8_valid (record_texts d)"
  shows "json_sandbox d = d"
proof -
  have "map_option json_network (rd_Network d) = rd_Network d"
    using assms json_interfaces by (cases "rd_Network d") (simp_all add: record_texts_def network_texts_def json_network_def json_string_valid)
  moreover have "map_option json_failure (rd_Failure d) = rd_Failure d"
    using assms by (cases "rd_Failure d") (simp_all add: record_texts_def json_failure_def json_string_valid)
  ultimately show ?thesis using assms json_disks by (simp add: record_texts_def json_sandbox_def json_policy_def json_string_valid)
qed

lemma json_snapshot_valid: "list_all utf8_valid (snapshot_texts d) \<Longrightarrow> json_snapshot d = d"
  using json_disks [of "sd_DataDisks d"] by (simp add: snapshot_texts_def json_snapshot_def json_policy_def json_string_valid)

section \<open>Sandboxes\<close>

text \<open>C24. Persistence is lossless for text: a valid sandbox whose strings are UTF-8, written as JSON and read back, is the
  same sandbox. The message of a failure, the text of an arbitrary error, need not be UTF-8: it is read back with its
  invalid bytes replaced, and nothing else changes. Whatever decodes is valid.\<close>

theorem sandbox_encode_roundtrip:
  assumes "Sandbox_Validate r = None" and "wf_digest (sb_ImageDigest r)" and "list_all utf8_valid (record_texts (encode_sandbox (r\<lparr>sb_Failure := None\<rparr>)))"
    and "\<forall>f. sb_Failure r = Some f \<longrightarrow> utf8_valid (fail_Phase f)"
  shows "decode_sandbox (P_sandbox (json_sandbox (encode_sandbox r)))
      = Inr (r\<lparr>sb_Failure := map_option (\<lambda>f. f\<lparr>fail_Message := json_string (fail_Message f)\<rparr>) (sb_Failure r)\<rparr>)
    \<and> (list_all utf8_valid (record_texts (encode_sandbox r)) \<longrightarrow> decode_sandbox (P_sandbox (json_sandbox (encode_sandbox r))) = Inr r)
    \<and> (\<forall>p r'. decode_sandbox p = Inr r' \<longrightarrow> Sandbox_Validate r' = None)"
proof -
  let ?r = "r\<lparr>sb_Failure := map_option (\<lambda>f. f\<lparr>fail_Message := json_string (fail_Message f)\<rparr>) (sb_Failure r)\<rparr>"
  let ?d0 = "encode_sandbox (r\<lparr>sb_Failure := None\<rparr>)"
  have "encode_sandbox q = ?d0\<lparr>rd_Failure := map_option (\<lambda>f. \<lparr>fd_Phase = fail_Phase f, fd_Message = fail_Message f\<rparr>) (sb_Failure q)\<rparr>"
    if "q = r \<or> q = ?r" for q
    using that by (auto simp: encode_sandbox_def Let_def split: option.splits)
  note enc = this [of r, simplified] this [of ?r, simplified]
  have "json_sandbox (encode_sandbox r) = (json_sandbox ?d0)\<lparr>rd_Failure := map_option json_failure (rd_Failure (encode_sandbox r))\<rparr>"
    unfolding enc(1) by (simp add: json_sandbox_def)
  also have "\<dots> = encode_sandbox ?r"
    unfolding json_sandbox_valid [OF assms(3)] enc using assms(4) by (cases "sb_Failure r") (simp_all add: json_failure_def json_string_valid)
  finally have eq: "json_sandbox (encode_sandbox r) = encode_sandbox ?r" .
  have "network_owner_check ?r = network_owner_check r" by (simp add: network_owner_check_def)
  then have "Sandbox_Validate ?r = None" using assms(1) by (simp add: Sandbox_Validate_def)
  then have "decode_sandbox (P_sandbox (encode_sandbox ?r)) = Inr ?r" using decode_encode_sandbox [of ?r] assms(2) by simp
  moreover have "decode_sandbox (P_sandbox (json_sandbox (encode_sandbox r))) = Inr r" if "list_all utf8_valid (record_texts (encode_sandbox r))"
    unfolding json_sandbox_valid [OF that] by (rule decode_encode_sandbox [OF assms(1,2)])
  ultimately show ?thesis using decode_sandbox_Inr unfolding eq by blast
qed

text \<open>A failed sandbox whose message holds a byte that is not UTF-8.\<close>

definition sample_failed :: Sandbox where
  "sample_failed = sample_sandbox\<lparr>sb_State := SandboxStateError, sb_Generation := 2, sb_Failure := Some \<lparr>fail_Phase = ''prepare disk'', fail_Message = ''bad '' @ [CHR 0xFF]\<rparr>\<rparr>"

theorem sandbox_encode_roundtrip_witness:
  "decode_sandbox (P_sandbox (json_sandbox (encode_sandbox sample_failed)))
     = Inr (sample_failed\<lparr>sb_Failure := Some \<lparr>fail_Phase = ''prepare disk'', fail_Message = ''bad '' @ replacement\<rparr>\<rparr>)"
proof -
  have "Sandbox_Validate sample_failed = None" using sample_sandbox_valid
    by (simp add: sample_failed_def sample_sandbox_def Sandbox_Validate_def network_owner_check_def sample_config_def NetworkSetup_zero_def valid_states_def)
  moreover have "list_all utf8_valid (record_texts (encode_sandbox (sample_failed\<lparr>sb_Failure := None\<rparr>)))" by code_simp
  moreover have "json_string (''bad '' @ [CHR 0xFF]) = ''bad '' @ replacement" "utf8_valid ''prepare disk''" by code_simp+
  ultimately show ?thesis using sandbox_encode_roundtrip [of sample_failed] sample_wf by (simp add: sample_failed_def)
qed

section \<open>The snapshot catalog\<close>

text \<open>The strings of every stored snapshot are UTF-8, and a step between such catalogs.\<close>

definition texts_valid :: "snapStore \<Rightarrow> bool" where
  "texts_valid ss \<longleftrightarrow> (\<forall>i d. snaps (ss_tx ss) i = Some d \<longrightarrow> list_all utf8_valid (snapshot_texts d))"

definition text_step :: "snapStore \<Rightarrow> snapStore \<Rightarrow> bool" where
  "text_step ss ss' \<longleftrightarrow> snapshot_step ss ss' \<and> texts_valid ss'"

text \<open>C27. From a new store, through any sequence of reservations, commits, touches, removals and usage flushes with any
  failures, as long as the strings that are stored are UTF-8: every record, read back from its JSON text, decodes to
  a valid snapshot under its own identity and is unchanged, names and records are in bijection, and the buffer of
  usage times never exceeds its capacity.\<close>

theorem snapshot_catalog_invariant:
  assumes "NewMemory cs = Inr s0" and "CollectionSnapshots \<in> set cs" and "CollectionSnapshotNames \<in> set cs"
    and "ss0 = \<lparr>ss_store = s0, ss_accesses = None\<rparr> \<or> NewBuffered s0 capacity = Inr ss0" and "text_step\<^sup>*\<^sup>* ss0 ss"
  shows "snapshot_inv (ss_tx ss) \<and> (\<forall>b. ss_accesses ss = Some b \<longrightarrow> int (length (ab_pending b)) \<le> ab_limit b)
    \<and> (\<forall>i d. snaps (ss_tx ss) i = Some d \<longrightarrow> sd_ID d = i \<and> decode_snapshot (P_snapshot (json_snapshot d)) = Inr d)"
proof -
  have "snaps (ss_tx ss0) = Map.empty"
    using ss_inv_new(2) [OF assms(1-4)] NewMemory_empty [OF assms(1)] by (auto simp: snaps_def)
  then have start: "ss_inv ss0 \<and> texts_valid ss0" using ss_inv_new(1) [OF assms(1-4)] by (simp add: texts_valid_def)
  have "ss_inv ss \<and> texts_valid ss"
    using assms(5)
  proof (induction rule: rtranclp_induct)
    case base
    show ?case by (rule start)
  next
    case (step ss ss')
    then show ?case using snapshot_step_good [of ss ss'] by (simp add: good_step_def text_step_def)
  qed
  then have inv: "snapshot_inv (ss_tx ss)" and texts: "texts_valid ss" and buf: "\<forall>b. ss_accesses ss = Some b \<longrightarrow> int (length (ab_pending b)) \<le> ab_limit b"
    by (auto simp: ss_inv_def buffer_ok_def)
  have "sd_ID d = i \<and> decode_snapshot (P_snapshot (json_snapshot d)) = Inr d" if "snaps (ss_tx ss) i = Some d" for i d
  proof -
    have "json_snapshot d = d" using texts that by (intro json_snapshot_valid) (simp add: texts_valid_def)
    then show ?thesis using snaps_Some [OF inv that] by (simp add: decode_snapshot_Inr)
  qed
  then show ?thesis using inv buf by blast
qed

text \<open>A registry reference of 512 bytes that are not UTF-8 passes the validation of a snapshot, and what is read back
  does not.\<close>

lemma binary_reference_unreadable:
  assumes "snap_RegistryReference s = replicate 512 (CHR 0xFF)"
  shows "\<exists>e. decodeSnapshot (json_snapshot (encode_snapshot s ready)) = Inl e"
proof (rule ccontr)
  let ?d = "json_snapshot (encode_snapshot s ready)"
  assume "\<not> ?thesis"
  then obtain x where "decodeSnapshot ?d = Inr x" by (cases "decodeSnapshot ?d") auto
  then have "length (snap_RegistryReference x) \<le> 512" "snap_RegistryReference x = json_string (replicate 512 (CHR 0xFF))"
    using assms by (auto simp: decodeSnapshot_Inr Snapshot_Validate_def snapshot_value_def json_snapshot_def encode_snapshot_def Let_def)
  then show False using json_string_invalid [of 512] by simp
qed

text \<open>A run that reserves a snapshot and publishes it.\<close>

definition sample_empty :: snapStore where
  "sample_empty = \<lparr>ss_store = \<lparr>mem_records = [(CollectionSnapshots, []), (CollectionSnapshotNames, [])], mem_closed = False\<rparr>,
     ss_accesses = Some \<lparr>ab_pending = [], ab_limit = 1, ab_generation = 0\<rparr>\<rparr>"

definition sample_reserved :: snapStore where
  "sample_reserved = sample_empty\<lparr>ss_store := snd (snapshot_Reserve None (ss_store sample_empty) (sample_snapshot\<lparr>snap_Name := ''snap''\<rparr>))\<rparr>"

definition sample_published :: snapStore where
  "sample_published = sample_reserved\<lparr>ss_store := snd (snapshot_Commit None (ss_store sample_reserved) sample_id 100 30)\<rparr>"

lemma sample_new_store: "NewMemory [CollectionSnapshots, CollectionSnapshotNames] = Inr (ss_store sample_empty)" "NewBuffered (ss_store sample_empty) 1 = Inr sample_empty"
  by (simp_all add: NewMemory_def NewCollection_def is_lower_def is_digit_def NewBuffered_def sample_empty_def)

lemma sample_run_records:
  "ss_tx sample_reserved = [(CollectionSnapshots, [(sample_id, P_snapshot (encode_snapshot (sample_snapshot\<lparr>snap_Name := ''snap''\<rparr>) False))]),
     (CollectionSnapshotNames, [(''snap'', P_name \<lparr>name_ID = sample_id\<rparr>)])]"
  by code_simp

lemma sample_published_records:
  "ss_tx sample_published = [(CollectionSnapshots, [(sample_id, P_snapshot (encode_snapshot (sample_snapshot\<lparr>snap_Name := ''snap''\<rparr>) True))]),
     (CollectionSnapshotNames, [(''snap'', P_name \<lparr>name_ID = sample_id\<rparr>)])]"
proof -
  let ?s = "sample_snapshot\<lparr>snap_Name := ''snap''\<rparr>" and ?d = "encode_snapshot (sample_snapshot\<lparr>snap_Name := ''snap''\<rparr>) False"
  have "Snapshot_Validate ?s = None" by code_simp
  from decodeSnapshot_encode [OF this, of False] have dec: "decodeSnapshot ?d = Inr ?s" by (simp add: sample_snapshot_def)
  have same: "?d\<lparr>sd_Size := 100, sd_LastAccessedAt := 30\<rparr> = ?d" "\<not> sd_Ready ?d" "?d\<lparr>sd_Ready := True\<rparr> = encode_snapshot ?s True"
    by (simp_all add: encode_snapshot_def Let_def sample_snapshot_def)
  have "decode_snapshot (P_snapshot ?d) = Inr ?d" using dec by (simp add: decode_snapshot_Inr decodes_def)
  then have "load_snapshot None (ss_tx sample_reserved) sample_id = Inr ?d"
    by (simp add: load_snapshot_def Get_def tx_collection_def sample_run_records)
  then have "modify_snapshot None (\<lambda>t. load_snapshot None t sample_id) (\<lambda>_. sample_id) (commit_body 100 30) (ss_tx sample_reserved)
      = Inr (?s, [(CollectionSnapshots, [(sample_id, P_snapshot (encode_snapshot ?s True))]), (CollectionSnapshotNames, [(''snap'', P_name \<lparr>name_ID = sample_id\<rparr>)])])"
    by (simp add: modify_snapshot_def commit_body_def same dec Let_def Put_def tx_collection_def sample_run_records)
  moreover have "\<not> mem_closed (ss_store sample_reserved)" by code_simp
  ultimately show ?thesis by (simp add: sample_published_def snapshot_Commit_def update_with_def Update_live IsZero_def)
qed

lemma sample_snapshot_texts: "list_all utf8_valid (snapshot_texts (encode_snapshot (sample_snapshot\<lparr>snap_Name := ''snap''\<rparr>) False))"
  "list_all utf8_valid (snapshot_texts (encode_snapshot (sample_snapshot\<lparr>snap_Name := ''snap''\<rparr>) True))"
  by code_simp+

lemma sample_run: "text_step\<^sup>*\<^sup>* sample_empty sample_published"
proof -
  have "snapshot_step sample_empty sample_reserved" "snapshot_step sample_reserved sample_published"
    unfolding sample_reserved_def sample_published_def by (rule snap_Reserve snap_Commit, rule surjective_pairing)+
  moreover have "texts_valid sample_reserved" "texts_valid sample_published"
    using sample_snapshot_texts unfolding texts_valid_def sample_run_records sample_published_records snaps_def
    by (auto simp: lookup_def split: if_splits)
  ultimately have "text_step sample_empty sample_reserved" "text_step sample_reserved sample_published" by (simp_all add: text_step_def)
  then show ?thesis by (meson rtranclp.rtrancl_into_rtrancl rtranclp.rtrancl_refl)
qed

theorem snapshot_catalog_invariant_witness:
  "snapshot_inv (ss_tx sample_published) \<and> (\<exists>d. snaps (ss_tx sample_published) sample_id = Some d \<and> sd_Ready d
     \<and> decode_snapshot (P_snapshot (json_snapshot d)) = Inr d)"
proof -
  obtain d where d: "snaps (ss_tx sample_published) sample_id = Some d" "sd_Ready d"
    unfolding sample_published_records by (simp add: snaps_def lookup_def encode_snapshot_def Let_def)
  from snapshot_catalog_invariant [OF sample_new_store(1) _ _ disjI2 [OF sample_new_store(2)] sample_run] d show ?thesis by auto
qed

end
