(* ===== verification/Spec2Isabelle.thy ===== *)
theory Spec2Isabelle
  imports Service_Outcomes Gc_Policy Tap_Allocation Agent_Calls Disk_Recovery Json_Records
begin

text \<open>
  A verification development for KumaBox, a node service that runs virtual machine sandboxes from OCI
  images.

  \<^bold>\<open>The program.\<close> A node keeps three catalogs over one metadata engine (\<open>internal/metadata\<close>): sandboxes
  (\<open>internal/sandbox/catalog\<close>), snapshots (\<open>internal/snapshot/catalog\<close>) and images
  (\<open>internal/images/catalog\<close>). \<open>internal/core\<close> composes them: a sandbox reservation resolves its image inside
  its own transaction, an image removal asks the other two catalogs, inside its transaction, whether the
  image is in use, and the collector evicts snapshots through the snapshot catalog. All records are
  built from the value types of \<open>internal/types\<close>, and all failures are the classified errors of
  \<open>internal/errdefs\<close>. Around this core stand the adapters that reach the machine: virtual machine monitors,
  networks, image sources, the guest agent, HTTP and command line front ends.

  \<^bold>\<open>The theories.\<close>
  \<^item> \<open>Prelude\<close>: the error monad \<open>bindE\<close>, \<open>guard_err\<close>, \<open>first_error\<close>; Go maps as association lists with distinct
    keys; shared list lemmas.
  \<^item> \<open>Errdefs\<close> (\<open>errdefs/error.go\<close>): the error tree as a datatype whose \<open>Error\<close> nodes carry an address, so that
    pointer identity in \<open>diagnosticCause\<close> is equality of addresses; \<open>errors.As\<close>, \<open>errors.Join\<close>, \<open>WithContext\<close>.
    Context keeps class and code.
  \<^item> \<open>Go_Lib\<close>: what the sources use of \<open>strings\<close>, \<open>strconv\<close>, \<open>hex\<close>, \<open>filepath\<close> and \<open>netip\<close>.
  \<^item> \<open>Types_Values\<close>, \<open>Types_Resources\<close>, \<open>Types_Network\<close>, \<open>Types_Sandbox\<close>, \<open>Types_Snapshot\<close> (\<open>internal/types\<close>): sizes,
    guest paths, digests, identities, CPU sets and policy, network setups, data disks, sandbox
    configuration and record validation, snapshots, devices and the eviction policy. Parsers are
    characterised exactly, round trips and bounds are proved, and loops that search are shown to end.
  \<^item> \<open>Metadata\<close> (\<open>metadata/store.go\<close>, \<open>memory.go\<close>): collections, transactions, \<open>View\<close>, \<open>Update\<close> and ordered scans of
    the in-memory engine. The locale \<open>transaction_contract\<close> states what the catalogs rely on and is
    interpreted on the engine; an update that reports an error publishes nothing.
  \<^item> \<open>Images\<close> (\<open>images/boot.go\<close>, \<open>catalog.go\<close>, \<open>verify.go\<close>): boot file selection, equal to the overlay of the
    layers with their whiteouts, and the validation of an import commit.
  \<^item> \<open>Records\<close>: the persisted records of the three catalogs and their decoding.
  \<^item> \<open>Sandbox_Catalog\<close> and \<open>Sandbox_Lifecycle\<close> (\<open>sandbox/catalog/store.go\<close>): every operation of the store, and its
    correctness. The locale \<open>fenced_body\<close> is the contract of the generation-fenced transitions and is
    interpreted on each of them. The step relation \<open>sandbox_step\<close> is any outcome of any operation.
  \<^item> \<open>Snapshot_Catalog\<close> and \<open>Snapshot_Lifecycle\<close> (\<open>snapshot/catalog/store.go\<close>, \<open>access.go\<close>): the snapshot store with
    its write-behind buffer of usage times. The locale \<open>snapshot_body\<close> is the contract of its record
    rewrites. \<open>visible\<close> is the abstract catalog a caller sees; \<open>Touch\<close> and \<open>FlushAccesses\<close> refine it.
  \<^item> \<open>Json_Text\<close> and \<open>Json_Records\<close> (\<open>encoding/json\<close>, as the two stores use it): a string read back from its JSON text
    is itself if it is UTF-8, and has its other bytes replaced if not. A sandbox is read back as itself but for the message of a failure,
    and in a snapshot catalog of UTF-8 strings every record is read back unchanged.
  \<^item> \<open>Image_Catalog\<close> and \<open>Image_Lifecycle\<close> (\<open>images/catalog/store.go\<close>): the image store. \<open>facts\<close> and \<open>aliases\<close> are the
    abstract catalog; import and resolution refine it. The locale \<open>usage_check\<close> is what removal relies on of the
    usage check it is given.
  \<^item> \<open>Catalogs\<close> (\<open>core/images.go\<close> and the wiring of core): the three catalogs over one store. \<open>core_usage\<close>
    interprets \<open>usage_check\<close> on core's own check, and \<open>node_step\<close> interleaves all operations of all catalogs:
    the image of a stored sandbox is never lost.
  \<^item> \<open>Gc_Policy\<close> (\<open>core/gc_snapshot_policy.go\<close>, \<open>SnapshotService.Remove\<close> of \<open>core/snapshot.go\<close>): the choice of the
    snapshots to evict against a reference definition, and the eviction pass.
  \<^item> \<open>Storage_Paths\<close> (\<open>storage/roots.go\<close>, \<open>sandbox/paths.go\<close>, \<open>images\<close> paths): the managed roots and the paths derived from
    them, over the answers of the file system. A joined path stays below its root and valid roots are disjoint.
  \<^item> \<open>Vmm_Plan\<close> (\<open>vmm/vmm.go\<close> and the plan of \<open>core/sandbox_runtime.go\<close>): launch plans, their validation and the kernel
    command line. Every plan the service builds passes the validation.
  \<^item> \<open>Service\<close> and \<open>Sandbox_Service\<close> (\<open>core/sandbox*.go\<close>): the sandbox lifecycle service, every request as a program in
    a monad whose state is the metadata, the resources of the host and a trace of the calls made.
    \<open>Service_Rules\<close> is the program logic; \<open>Service_Protocol\<close> and \<open>Service_Discipline\<close> show that every change of a sandbox
    is made under its lock and in an allowed order, whatever the host answers, as long as no sandbox is named like an
    identity; \<open>Service_Progress\<close> that reconciliation, stop and removal reach their goal on a host whose calls
    succeed; \<open>Service_Outcomes\<close> what a caller may conclude from success and from an error that is not flagged as
    committed.
  \<^item> \<open>Tap_Lease\<close> (\<open>network/tap/provider.go\<close>, \<open>lease.go\<close>, \<open>recovery.go\<close>): the address leases of the TAP provider, kept in
    files. \<open>Tap_Ownership\<close>: reservations are disjoint, survive what others do, and a quarantined address is not given
    out early. \<open>Tap_Allocation\<close>: the candidates are the pool, a free address is found, and an interrupted
    reservation is taken up where it stopped.
  \<^item> \<open>Agent_Process\<close> (\<open>agent/processes.go\<close>, \<open>server_process.go\<close>, the encoder and the exchange of \<open>protocol.go\<close>): the
    background processes of the guest agent. \<open>Agent_Output\<close>: the output ring against the history of a command, and
    what a client of a stream ends with. \<open>Agent_Table\<close>: the bounds of the table and what admission drops.
    \<open>Agent_Calls\<close> (\<open>agent/client_process.go\<close>): calls over a connection give the results of the table, and refusals arrive with their codes.
  \<^item> \<open>Disk_Replace\<close> (\<open>core/disk_replace.go\<close>, \<open>storage/publish.go\<close>): the replacement of a sandbox's writable disks and its
    recovery, over a file system whose operations may fail and a process that may die before each of them.
    \<open>Disk_Journal\<close> is the program logic with a crash condition and the states of the journal, \<open>Disk_Atomicity\<close> the
    replacement, \<open>Disk_Recovery\<close> the recovery: whatever happened, the old or the new set is back. One look at the
    marker must not fail; \<open>unreadable_marker_mixes_disks\<close> shows what happens otherwise.

  \<^bold>\<open>Modelling.\<close> Records are \<open>record\<close>s and datatypes with the source's fields; \<open>uint64\<close> and \<open>uint32\<close> are words, so
  that generation numbers wrap as in Go, and other integers are \<open>int\<close> with their bounds checked where the
  code checks them. A time is a number of nanoseconds with zero as the zero time. A persisted value is
  a datatype \<open>payload\<close> instead of JSON text: encoding and decoding between record and domain value are
  modelled, and so is what JSON makes of a string, the JSON syntax is not. A fallible function returns \<open>gerr + 'a\<close> and a stateful one also its new
  state; a context is \<open>None\<close> or the error it is cancelled with, the same throughout one operation. Messages of
  errors are kept where code or theorems depend on them. Each operation runs alone, as the engine's lock
  makes its transactions do; interleavings are sequences of whole operations. In the service and TAP models the
  host is an argument that decides, from the trace so far, the answer of every call, including a change of the
  metadata by another client in between: a theorem for every host is a theorem for every failure and interleaving.
  In the disk model an operation happens at once and in order, as a journaling file system applies directory changes.
  \<open>Get\<close>, \<open>Put\<close> and \<open>Delete\<close> on records work on a private copy, so a failed transaction leaves no trace.

  \<^bold>\<open>Bounds and fuel.\<close> No definition uses fuel. The stream of the agent takes the states it finds at its wake-ups as a
  list that ends when the observer is cancelled. \<open>recordAccess\<close>, which flushes a full buffer and tries again, is a
  partial function whose result is proved to exist; the search for a free data disk name is bounded by
  the number of names in use. Everything else recurs on its data.

  \<^bold>\<open>Arguments instead of models.\<close> The eviction pass takes the outcome of the ordinary collection, and for each
  candidate the answers of the file lock and the file system, as arguments. Image removal and sandbox
  reservation take the usage check and the image resolver as arguments, as the sources do; \<open>Catalogs\<close>
  supplies core's.

  \<^bold>\<open>Not modelled.\<close> The SQLite engine (its behaviour is that of the database); the import pipeline, image sources and
  EROFS conversion (file and network I/O); the Cloud Hypervisor driver, the Linux device pool, eBPF, bridge and CNI
  (kernel, plugin and process effects, answered by the host of the service and TAP models); clone and restore but for the
  replacement of disks, snapshot capture and archives, and the collection of orphans; interactive execution, files and ports in the guest agent; RPC,
  HTTP and command line front ends; configuration, advisory locks, cgroups. Concurrent flushes of the usage buffer are
  not modelled, nor is \<open>nil\<close> for a service that was never configured. A lock is a call of the host that may
  fail; that two holders exclude each other is the file lock's. Cursors of output frames are 64 bit words, and the
  theorems on streams ask that fewer than \<open>2 ^ 64\<close> chunks were written.
\<close>

end
